(* ===== verification/GoStrings.thy ===== *)
theory GoStrings
  imports Prelude "HOL-Library.Sublist"
begin

text \<open>
  The parts of Go's standard library the modelled code calls on strings: \<open>strings\<close>,
  \<open>strconv\<close>, \<open>unicode/utf8\<close>, \<open>unicode\<close> and \<open>path\<close>.

  A Go string is a sequence of bytes, and so is a HOL \<open>string\<close>: a \<open>char\<close> is a byte.
  Ranging over a Go string decodes UTF-8; \<open>chunks\<close> yields, per iteration, the rune and the
  bytes it came from, with Go's treatment of malformed input (one byte, rune 65533).

  The Unicode letter and digit tables are not reproduced: code that consults them takes the
  classification of the runes above ASCII as an argument.
\<close>

abbreviation byte :: "char \<Rightarrow> nat" where
  "byte c \<equiv> of_char c"

lemma byte_less_256 [simp]: "(of_char c :: nat) < 256"
proof -
  have "of_char c = (of_char c :: nat) mod 256"
    using of_char_mod_256 [of c, where 'a = nat] by simp
  also have "\<dots> < 256" by simp
  finally show ?thesis .
qed

lemma byte_of_char_of [simp]: "n < 256 \<Longrightarrow> (of_char (char_of n :: char) :: nat) = n"
  by (simp add: of_char_of)

lemma byte_eqD: "(of_char c :: nat) = of_char d \<Longrightarrow> c = d"
  by (metis char_of_char)

section \<open>strings\<close>

definition trim_prefix :: "string \<Rightarrow> string \<Rightarrow> string" where
  "trim_prefix p s = (if prefix p s then drop (length p) s else s)"

fun split_on :: "char \<Rightarrow> string \<Rightarrow> string list" where
  "split_on c [] = [[]]"
| "split_on c (x # xs) =
     (if x = c then [] # split_on c xs
      else (case split_on c xs of [] \<Rightarrow> [[x]] | y # ys \<Rightarrow> (x # y) # ys))"

fun join_with :: "string \<Rightarrow> string list \<Rightarrow> string" where
  "join_with sep [] = []"
| "join_with sep [x] = x"
| "join_with sep (x # y # ys) = x @ sep @ join_with sep (y # ys)"

definition cut_at :: "char \<Rightarrow> string \<Rightarrow> string \<times> string \<times> bool" where
  "cut_at c s =
     (let a = takeWhile (\<lambda>x. x \<noteq> c) s; b = dropWhile (\<lambda>x. x \<noteq> c) s
      in case b of [] \<Rightarrow> (s, [], False) | _ # r \<Rightarrow> (a, r, True))"

definition trim_char :: "char \<Rightarrow> string \<Rightarrow> string" where
  "trim_char c s = rev (dropWhile (\<lambda>x. x = c) (rev (dropWhile (\<lambda>x. x = c) s)))"

definition last_index :: "char \<Rightarrow> string \<Rightarrow> nat option" where
  "last_index c s =
     (if c \<in> set s then Some (length s - 1 - length (takeWhile (\<lambda>x. x \<noteq> c) (rev s))) else None)"

lemma trim_prefix_append [simp]: "trim_prefix p (p @ s) = s"
  by (simp add: trim_prefix_def)

lemma split_on_neq_Nil [simp]: "split_on c s \<noteq> []"
  by (cases s) (auto split: list.splits)

lemma split_on_no_sep: "c \<notin> set s \<Longrightarrow> split_on c s = [s]"
  by (induction s) auto

lemma split_on_append_sep: "split_on c (s @ c # t) = split_on c s @ split_on c t"
proof (induction s)
  case Nil
  then show ?case by simp
next
  case (Cons x s)
  then show ?case
    by (cases "split_on c s") auto
qed

lemma split_on_append_no_sep:
  "c \<notin> set s \<Longrightarrow> split_on c (s @ c # t) = s # split_on c t"
  by (simp add: split_on_append_sep split_on_no_sep)

lemma split_on_elem: "x \<in> set (split_on c s) \<Longrightarrow> c \<notin> set x"
proof (induction s arbitrary: x)
  case Nil
  then show ?case by simp
next
  case (Cons y s)
  then show ?case
    by (cases "split_on c s") (auto split: if_splits)
qed

lemma split_on_subset: "x \<in> set (split_on c s) \<Longrightarrow> set x \<subseteq> set s"
proof (induction s arbitrary: x)
  case Nil
  then show ?case by simp
next
  case (Cons y s)
  show ?case
  proof (cases "split_on c s")
    case Nil
    then show ?thesis by simp
  next
    case (Cons z zs)
    then have z: "set z \<subseteq> set s" and zs: "\<And>u. u \<in> set zs \<Longrightarrow> set u \<subseteq> set s"
      using Cons.IH by auto
    show ?thesis
      using Cons Cons.prems z by (auto split: if_splits dest: zs)
  qed
qed

lemma join_with_split_on: "join_with [c] (split_on c s) = s"
proof (induction s)
  case Nil
  then show ?case by simp
next
  case (Cons x s)
  show ?case
  proof (cases "split_on c s")
    case Nil
    then show ?thesis by simp
  next
    case (Cons y ys)
    then show ?thesis using Cons.IH by (cases ys) auto
  qed
qed

lemma split_on_join_with:
  "\<lbrakk>xs \<noteq> []; \<forall>x \<in> set xs. c \<notin> set x\<rbrakk> \<Longrightarrow> split_on c (join_with [c] xs) = xs"
  by (induction "[c]" xs rule: join_with.induct)
     (auto simp: split_on_no_sep split_on_append_no_sep)

lemma join_with_Cons: "xs \<noteq> [] \<Longrightarrow> join_with sep (x # xs) = x @ sep @ join_with sep xs"
  by (cases xs) auto

lemma join_with_append:
  "\<lbrakk>xs \<noteq> []; ys \<noteq> []\<rbrakk> \<Longrightarrow> join_with sep (xs @ ys) = join_with sep xs @ sep @ join_with sep ys"
  by (induction sep xs rule: join_with.induct) (auto simp: join_with_Cons)

lemma set_join_with: "set (join_with sep xs) \<subseteq> set sep \<union> \<Union> (set ` set xs)"
  by (induction sep xs rule: join_with.induct) auto

lemma cut_at_append:
  "c \<notin> set a \<Longrightarrow> cut_at c (a @ c # b) = (a, b, True)"
proof -
  assume c: "c \<notin> set a"
  then have "takeWhile (\<lambda>x. x \<noteq> c) (a @ c # b) = a"
    by (intro takeWhile_append_stop) auto
  moreover have "dropWhile (\<lambda>x. x \<noteq> c) (a @ c # b) = c # b"
    using c by (intro dropWhile_append_stop) auto
  ultimately show ?thesis
    by (simp add: cut_at_def)
qed

lemma last_index_append:
  "c \<notin> set b \<Longrightarrow> last_index c (a @ c # b) = Some (length a)"
proof -
  assume c: "c \<notin> set b"
  have "takeWhile (\<lambda>x. x \<noteq> c) (rev b @ c # rev a) = rev b"
    using c by (intro takeWhile_append_stop) auto
  then show ?thesis
    by (simp add: last_index_def)
qed

section \<open>unicode/utf8\<close>

definition rune_error :: nat where
  "rune_error = 65533"

definition is_cont :: "char \<Rightarrow> bool" where
  "is_cont c \<longleftrightarrow> 128 \<le> byte c \<and> byte c \<le> 191"

text \<open>\<open>utf8.DecodeRuneInString\<close>: the rune and its width in bytes.\<close>

definition low6 :: "char \<Rightarrow> nat" where
  "low6 c = byte c mod 64"

lemma low6_le [simp]: "low6 c \<le> 63"
  by (simp add: low6_def)

lemma mod_64_shift: "k \<le> 63 \<Longrightarrow> (128 + k) mod 64 = (k :: nat)"
  using mod_mult_self1 [of k 2 64] by (simp add: add.commute)

lemma low6_minus: "\<lbrakk>128 \<le> byte c; byte c \<le> 191\<rbrakk> \<Longrightarrow> low6 c = byte c - 128"
  using mod_64_shift [of "byte c - 128"] by (simp add: low6_def)

lemma low6_char_of [simp]: "k < 64 \<Longrightarrow> low6 (char_of (128 + k)) = k"
  using mod_64_shift [of k] by (simp add: low6_def)

definition decode2 :: "nat \<Rightarrow> string \<Rightarrow> nat \<times> nat" where
  "decode2 b cs =
     (case cs of
        c1 # _ \<Rightarrow> if is_cont c1 then ((b - 192) * 64 + low6 c1, 2) else (rune_error, 1)
      | [] \<Rightarrow> (rune_error, 1))"

text \<open>The accepted ranges of the second byte, which exclude overlong forms and surrogates.\<close>

definition accept3 :: "nat \<Rightarrow> char \<Rightarrow> bool" where
  "accept3 b c \<longleftrightarrow>
     (if b = 224 then 160 else 128) \<le> byte c \<and> byte c \<le> (if b = 237 then 159 else 191)"

definition accept4 :: "nat \<Rightarrow> char \<Rightarrow> bool" where
  "accept4 b c \<longleftrightarrow>
     (if b = 240 then 144 else 128) \<le> byte c \<and> byte c \<le> (if b = 244 then 143 else 191)"

definition decode3 :: "nat \<Rightarrow> string \<Rightarrow> nat \<times> nat" where
  "decode3 b cs =
     (case cs of
        c1 # c2 # _ \<Rightarrow>
          if accept3 b c1 \<and> is_cont c2
          then ((b - 224) * 4096 + low6 c1 * 64 + low6 c2, 3)
          else (rune_error, 1)
      | _ \<Rightarrow> (rune_error, 1))"

definition decode4 :: "nat \<Rightarrow> string \<Rightarrow> nat \<times> nat" where
  "decode4 b cs =
     (case cs of
        c1 # c2 # c3 # _ \<Rightarrow>
          if accept4 b c1 \<and> is_cont c2 \<and> is_cont c3
          then ((b - 240) * 262144 + low6 c1 * 4096 + low6 c2 * 64
                + low6 c3, 4)
          else (rune_error, 1)
      | _ \<Rightarrow> (rune_error, 1))"

fun decode_rune :: "string \<Rightarrow> nat \<times> nat" where
  "decode_rune [] = (rune_error, 0)"
| "decode_rune (c # cs) =
     (let b = byte c in
      if b < 128 then (b, 1)
      else if 194 \<le> b \<and> b \<le> 223 then decode2 b cs
      else if 224 \<le> b \<and> b \<le> 239 then decode3 b cs
      else if 240 \<le> b \<and> b \<le> 244 then decode4 b cs
      else (rune_error, 1))"

declare decode_rune.simps(2) [simp del]

lemma decode2_width: "1 \<le> snd (decode2 b cs) \<and> snd (decode2 b cs) \<le> Suc (length cs)"
  by (simp add: decode2_def split: list.split)

lemma decode3_width: "1 \<le> snd (decode3 b cs) \<and> snd (decode3 b cs) \<le> Suc (length cs)"
  by (simp add: decode3_def split: list.split)

lemma decode4_width: "1 \<le> snd (decode4 b cs) \<and> snd (decode4 b cs) \<le> Suc (length cs)"
  by (simp add: decode4_def split: list.split)

lemma decode_rune_width:
  "s \<noteq> [] \<Longrightarrow> 1 \<le> snd (decode_rune s) \<and> snd (decode_rune s) \<le> length s"
  by (cases s) (simp_all add: decode_rune.simps(2) Let_def decode2_width decode3_width
      decode4_width del: One_nat_def)

text \<open>A decoding that is not Go's error value does not depend on the bytes that follow it.\<close>

lemma decode2_append: "decode2 b cs \<noteq> (rune_error, 1) \<Longrightarrow> decode2 b (cs @ t) = decode2 b cs"
  by (cases cs) (simp_all add: decode2_def)

lemma decode3_append: "decode3 b cs \<noteq> (rune_error, 1) \<Longrightarrow> decode3 b (cs @ t) = decode3 b cs"
proof (cases cs)
  case (Cons c1 cs1)
  then show "decode3 b cs \<noteq> (rune_error, 1) \<Longrightarrow> ?thesis"
    by (cases cs1) (simp_all add: decode3_def)
qed (simp add: decode3_def)

lemma decode4_append: "decode4 b cs \<noteq> (rune_error, 1) \<Longrightarrow> decode4 b (cs @ t) = decode4 b cs"
proof (cases cs)
  case (Cons c1 cs1)
  show "decode4 b cs \<noteq> (rune_error, 1) \<Longrightarrow> ?thesis"
  proof (cases cs1)
    case (Cons c2 cs2)
    with \<open>cs = c1 # cs1\<close> show "decode4 b cs \<noteq> (rune_error, 1) \<Longrightarrow> ?thesis"
      by (cases cs2) (simp_all add: decode4_def)
  qed (use Cons in \<open>simp add: decode4_def\<close>)
qed (simp add: decode4_def)

lemma decode_rune_append:
  assumes "s \<noteq> []" and "decode_rune s \<noteq> (rune_error, 1)"
  shows "decode_rune (s @ t) = decode_rune s"
  using assms
  by (cases s) (auto simp: decode_rune.simps(2) Let_def decode2_append decode3_append decode4_append)

text \<open>\<open>for i, r := range s\<close>: the runes with the bytes each came from.\<close>

function chunks :: "string \<Rightarrow> (nat \<times> string) list" where
  "chunks s =
     (if s = [] then []
      else (fst (decode_rune s), take (snd (decode_rune s)) s)
             # chunks (drop (snd (decode_rune s)) s))"
  by pat_completeness auto
termination
  by (relation "measure length") (auto dest: decode_rune_width)

declare chunks.simps [simp del]

lemma chunks_Nil [simp]: "chunks [] = []"
  by (simp add: chunks.simps)

lemma chunks_nonempty:
  "s \<noteq> [] \<Longrightarrow> chunks s =
     (fst (decode_rune s), take (snd (decode_rune s)) s) # chunks (drop (snd (decode_rune s)) s)"
  by (simp add: chunks.simps [of s])

definition runes :: "string \<Rightarrow> nat list" where
  "runes s = map fst (chunks s)"

lemma concat_chunks: "concat (map snd (chunks s)) = s"
proof (induction s rule: chunks.induct)
  case (1 s)
  then show ?case
    by (cases "s = []") (simp_all add: chunks.simps [of s])
qed

lemma chunks_ascii_Cons:
  "byte c < 128 \<Longrightarrow> chunks (c # cs) = (byte c, [c]) # chunks cs"
  by (simp add: chunks_nonempty decode_rune.simps(2))

definition good_chunk :: "nat \<times> string \<Rightarrow> bool" where
  "good_chunk p \<longleftrightarrow> \<not> (fst p = rune_error \<and> length (snd p) \<le> 1)"

text \<open>\<open>utf8.ValidString\<close>\<close>

definition valid_utf8 :: "string \<Rightarrow> bool" where
  "valid_utf8 s \<longleftrightarrow> (\<forall>p \<in> set (chunks s). good_chunk p)"

lemma valid_utf8_Nil [simp]: "valid_utf8 []"
  by (simp add: valid_utf8_def)

lemma chunks_append: "valid_utf8 s \<Longrightarrow> chunks (s @ t) = chunks s @ chunks t"
proof (induction s rule: chunks.induct)
  case (1 s)
  show ?case
  proof (cases "s = []")
    case True
    then show ?thesis by simp
  next
    case False
    obtain r w where rw: "decode_rune s = (r, w)" by fastforce
    have w: "1 \<le> w" "w \<le> length s"
      using decode_rune_width [OF False] rw by auto
    have good: "good_chunk (r, take w s)" and tl: "valid_utf8 (drop w s)"
      using 1(2) False rw by (auto simp: valid_utf8_def chunks_nonempty [OF False])
    then have "decode_rune (s @ t) = (r, w)"
      using w False rw by (subst decode_rune_append) (auto simp: good_chunk_def)
    then show ?thesis
      using 1(1) [OF False] rw w tl False
      by (simp add: chunks_nonempty)
  qed
qed

lemma runes_append: "valid_utf8 s \<Longrightarrow> runes (s @ t) = runes s @ runes t"
  by (simp add: runes_def chunks_append)

lemma valid_utf8_append: "valid_utf8 s \<Longrightarrow> valid_utf8 (s @ t) = valid_utf8 t"
  by (auto simp: valid_utf8_def chunks_append)

lemma chunks_ascii:
  "\<forall>c \<in> set s. byte c < 128 \<Longrightarrow> chunks s = map (\<lambda>c. (byte c, [c])) s"
  by (induction s) (auto simp: chunks_ascii_Cons)

lemma valid_utf8_ascii: "\<forall>c \<in> set s. byte c < 128 \<Longrightarrow> valid_utf8 s"
  by (auto simp: valid_utf8_def chunks_ascii good_chunk_def rune_error_def)

lemma chunk_length: "p \<in> set (chunks s) \<Longrightarrow> snd p \<noteq> []"
proof (induction s rule: chunks.induct)
  case (1 s)
  show ?case
  proof (cases "s = []")
    case False
    then show ?thesis
      using 1 decode_rune_width [OF False] by (auto simp: chunks_nonempty [OF False])
  qed (use 1 in simp)
qed

lemma length_runes_le: "length (runes s) \<le> length s"
proof -
  have "length ps \<le> length (concat (map snd ps))" if "\<forall>p \<in> set ps. snd p \<noteq> []"
    for ps :: "(nat \<times> string) list"
    using that
  proof (induction ps)
    case (Cons p ps)
    then have "1 \<le> length (snd p)" by (cases "snd p") auto
    with Cons show ?case by auto
  qed simp
  from this [of "chunks s"] show ?thesis
    by (auto simp: runes_def concat_chunks dest: chunk_length)
qed

text \<open>\<open>utf8.AppendRune\<close>, which is what \<open>strings.Builder.WriteRune\<close> appends.\<close>

definition encode_rune :: "nat \<Rightarrow> string" where
  "encode_rune r0 =
     (let r = (if (55296 \<le> r0 \<and> r0 < 57344) \<or> 1114112 \<le> r0 then rune_error else r0) in
      if r < 128 then [char_of r]
      else if r < 2048 then [char_of (192 + r div 64), char_of (128 + r mod 64)]
      else if r < 65536 then
        [char_of (224 + r div 4096), char_of (128 + r div 64 mod 64), char_of (128 + r mod 64)]
      else
        [char_of (240 + r div 262144), char_of (128 + r div 4096 mod 64),
         char_of (128 + r div 64 mod 64), char_of (128 + r mod 64)])"

text \<open>Every decoded rune is a Unicode scalar value, and encoding it gives it back.\<close>

definition scalar :: "nat \<Rightarrow> bool" where
  "scalar r \<longleftrightarrow> r < 55296 \<or> (57344 \<le> r \<and> r < 1114112)"

lemma scalar_rune_error [simp]: "scalar rune_error"
  by (simp add: scalar_def rune_error_def)

lemma decode2_scalar: "b \<le> 223 \<Longrightarrow> scalar (fst (decode2 b cs))"
proof -
  assume b: "b \<le> 223"
  have "(b - 192) * 64 + low6 c < 55296" for c
    using b low6_le [of c] by linarith
  then show ?thesis
    by (auto simp: decode2_def scalar_def rune_error_def split: list.split)
qed

lemma scalar3:
  assumes "b \<le> 239" "x \<le> 63" "y \<le> 63" "b = 237 \<Longrightarrow> x \<le> 31"
  shows "scalar ((b - 224) * 4096 + x * 64 + y)"
proof (cases "b \<le> 236")
  case True
  then have "(b - 224) * 4096 + x * 64 + y < 55296" using assms by linarith
  then show ?thesis by (simp add: scalar_def)
next
  case False
  then have "b = 237 \<or> b = 238 \<or> b = 239" using assms(1) by arith
  then show ?thesis
    using assms(2-) unfolding scalar_def by (elim disjE) simp_all
qed

lemma scalar4:
  assumes "240 \<le> b" "b \<le> 244" "x \<le> 63" "y \<le> 63" "z \<le> 63"
    and "b = 240 \<Longrightarrow> 16 \<le> x" "b = 244 \<Longrightarrow> x \<le> 15"
  shows "scalar ((b - 240) * 262144 + x * 4096 + y * 64 + z)"
proof -
  have "b = 240 \<or> b = 241 \<or> b = 242 \<or> b = 243 \<or> b = 244" using assms(1,2) by arith
  then show ?thesis
    using assms(3-) unfolding scalar_def by (elim disjE) simp_all
qed

lemma decode3_scalar: "b \<le> 239 \<Longrightarrow> scalar (fst (decode3 b cs))"
proof -
  assume b: "b \<le> 239"
  have "scalar ((b - 224) * 4096 + low6 c1 * 64 + low6 c2)"
    if "accept3 b c1" for c1 c2
    using that b by (intro scalar3) (auto simp: accept3_def low6_minus split: if_splits)
  then show ?thesis
    by (simp add: decode3_def split: list.split)
qed

lemma decode4_scalar: "\<lbrakk>240 \<le> b; b \<le> 244\<rbrakk> \<Longrightarrow> scalar (fst (decode4 b cs))"
proof -
  assume b: "240 \<le> b" "b \<le> 244"
  have "scalar ((b - 240) * 262144 + low6 c1 * 4096 + low6 c2 * 64 + low6 c3)"
    if "accept4 b c1" for c1 c2 c3
    using that b by (intro scalar4) (auto simp: accept4_def low6_minus split: if_splits)
  then show ?thesis
    by (simp add: decode4_def split: list.split)
qed

lemma decode_rune_scalar: "scalar (fst (decode_rune s))"
  by (cases s)
     (auto simp: decode_rune.simps(2) Let_def decode2_scalar decode3_scalar decode4_scalar
        scalar_def [of "of_char _"])

lemma runes_scalar: "r \<in> set (runes s) \<Longrightarrow> scalar r"
proof (induction s rule: chunks.induct)
  case (1 s)
  then show ?case
    by (cases "s = []") (auto simp: runes_def chunks_nonempty decode_rune_scalar)
qed

lemma decode3_bytes:
  assumes "a < 16" "x < 64" "y < 64" "a = 0 \<Longrightarrow> 32 \<le> x" "a = 13 \<Longrightarrow> x < 32"
  shows "decode_rune (char_of (224 + a) # char_of (128 + x) # char_of (128 + y) # t)
         = (a * 4096 + x * 64 + y, 3)"
proof -
  have acc: "accept3 (224 + a) (char_of (128 + x))" "is_cont (char_of (128 + y))"
    using assms by (auto simp: accept3_def is_cont_def)
  then show ?thesis
    using assms by (simp add: decode_rune.simps(2) decode3_def Let_def)
qed

lemma decode4_bytes:
  assumes "a < 5" "x < 64" "y < 64" "z < 64" "a = 0 \<Longrightarrow> 16 \<le> x" "a = 4 \<Longrightarrow> x < 16"
  shows "decode_rune (char_of (240 + a) # char_of (128 + x) # char_of (128 + y)
           # char_of (128 + z) # t)
         = (a * 262144 + x * 4096 + y * 64 + z, 4)"
proof -
  have acc: "accept4 (240 + a) (char_of (128 + x))" "is_cont (char_of (128 + y))"
    "is_cont (char_of (128 + z))"
    using assms by (auto simp: accept4_def is_cont_def)
  then show ?thesis
    using assms by (simp add: decode_rune.simps(2) decode4_def Let_def)
qed

lemma decode_encode_rune:
  assumes "scalar r"
  shows "decode_rune (encode_rune r @ t) = (r, length (encode_rune r))"
proof -
  consider "r < 128" | "128 \<le> r" "r < 2048" | "2048 \<le> r" "r < 65536" | "65536 \<le> r"
    by linarith
  then show ?thesis
  proof cases
    case 1
    then show ?thesis by (simp add: encode_rune_def decode_rune.simps(2))
  next
    case 2
    then have "r div 64 < 32" "2 \<le> r div 64" by (simp_all add: div_less_iff_less_mult less_eq_div_iff_mult_less_eq)
    moreover have "r div 64 * 64 + r mod 64 = r" by simp
    moreover have "r mod 64 < 64" by simp
    ultimately show ?thesis using 2
      by (auto simp add: encode_rune_def decode_rune.simps(2) decode2_def is_cont_def Let_def)
  next
    case 3
    define q where "q = r div 64"
    have q: "r = q * 64 + r mod 64" "r div 4096 = q div 64" "q = q div 64 * 64 + q mod 64"
      using div_mult2_eq [of r 64 64] by (simp_all add: q_def)
    have lt: "r mod 64 < 64" "q mod 64 < 64" by simp_all
    have bd: "q div 64 < 16" "q div 64 = 0 \<Longrightarrow> 32 \<le> q mod 64" "q div 64 = 13 \<Longrightarrow> q mod 64 < 32"
      using 3 q lt assms by (auto simp: scalar_def)
    have eq: "q div 64 * 4096 + q mod 64 * 64 + r mod 64 = r"
      using q(1,3) by linarith
    have enc: "encode_rune r = [char_of (224 + q div 64), char_of (128 + q mod 64), char_of (128 + r mod 64)]"
      using 3 assms by (auto simp: encode_rune_def scalar_def q_def [symmetric] q(2))
    show ?thesis
      unfolding enc using decode3_bytes [OF bd(1) lt(2,1) bd(2,3)] eq by simp
  next
    case 4
    define p where "p = r div 64"
    define q where "q = p div 64"
    have q: "r = p * 64 + r mod 64" "r div 4096 = q" "p = q * 64 + p mod 64"
      "r div 262144 = q div 64" "q = q div 64 * 64 + q mod 64"
      using div_mult2_eq [of r 64 64] div_mult2_eq [of r 4096 64]
      by (simp_all add: p_def q_def)
    have lt: "r mod 64 < 64" "p mod 64 < 64" "q mod 64 < 64" by simp_all
    have bd: "q div 64 < 5" "q div 64 = 0 \<Longrightarrow> 16 \<le> q mod 64" "q div 64 = 4 \<Longrightarrow> q mod 64 < 16"
      using 4 q lt assms by (auto simp: scalar_def)
    have eq: "q div 64 * 262144 + q mod 64 * 4096 + p mod 64 * 64 + r mod 64 = r"
      using q(1,3,5) by linarith
    have enc: "encode_rune r = [char_of (240 + q div 64), char_of (128 + q mod 64),
        char_of (128 + p mod 64), char_of (128 + r mod 64)]"
      using 4 assms by (auto simp: encode_rune_def scalar_def p_def [symmetric] q(2,4))
    show ?thesis
      unfolding enc using decode4_bytes [OF bd(1) lt(3,2,1) bd(2,3)] eq by simp
  qed
qed

lemma encode_rune_neq_Nil [simp]: "encode_rune r \<noteq> []"
  by (simp add: encode_rune_def Let_def)

lemma chunks_encode_rune:
  "scalar r \<Longrightarrow> chunks (encode_rune r @ t) = (r, encode_rune r) # chunks t"
  by (simp add: chunks_nonempty decode_encode_rune)

lemma valid_utf8_encode_rune:
  assumes "scalar r"
  shows "valid_utf8 (encode_rune r)"
proof -
  have "r = rune_error \<Longrightarrow> length (encode_rune r) = 3"
    by (simp add: encode_rune_def rune_error_def)
  then show ?thesis
    using chunks_encode_rune [OF assms, of "[]"]
    by (auto simp: valid_utf8_def good_chunk_def)
qed

text \<open>An ASCII byte never completes a multi-byte sequence: text can be cut in front of it.\<close>

lemma decode_append_ascii:
  assumes "byte c < 128"
  shows "decode2 b (cs @ c # t) = decode2 b cs" "decode3 b (cs @ c # t) = decode3 b cs"
    "decode4 b (cs @ c # t) = decode4 b cs"
proof -
  have c: "\<not> is_cont c" "\<not> accept3 b c" "\<not> accept4 b c"
    using assms by (auto simp: is_cont_def accept3_def accept4_def)
  show "decode2 b (cs @ c # t) = decode2 b cs"
    using c by (cases cs) (simp_all add: decode2_def)
  show "decode3 b (cs @ c # t) = decode3 b cs"
  proof (cases cs)
    case Nil
    then show ?thesis using c by (cases t) (simp_all add: decode3_def)
  next
    case (Cons c1 cs1)
    then show ?thesis using c by (cases cs1) (simp_all add: decode3_def)
  qed
  show "decode4 b (cs @ c # t) = decode4 b cs"
  proof (cases cs)
    case Nil
    then show ?thesis using c by (simp add: decode4_def split: list.split)
  next
    case (Cons c1 cs1)
    show ?thesis
    proof (cases cs1)
      case Nil
      then show ?thesis using c \<open>cs = c1 # cs1\<close> by (cases t) (simp_all add: decode4_def)
    next
      case (Cons c2 cs2)
      then show ?thesis using c \<open>cs = c1 # cs1\<close> by (cases cs2) (simp_all add: decode4_def)
    qed
  qed
qed

lemma decode_rune_append_ascii:
  "\<lbrakk>byte c < 128; s \<noteq> []\<rbrakk> \<Longrightarrow> decode_rune (s @ c # t) = decode_rune s"
  by (cases s) (simp_all add: decode_rune.simps(2) decode_append_ascii Let_def)

lemma chunks_append_ascii:
  assumes "byte c < 128"
  shows "chunks (s @ c # t) = chunks s @ chunks (c # t)"
proof (induction s rule: chunks.induct)
  case (1 s)
  show ?case
  proof (cases "s = []")
    case False
    have "snd (decode_rune s) \<le> length s" using decode_rune_width [OF False] by simp
    then show ?thesis
      using 1 [OF False] False
      by (simp add: chunks_nonempty decode_rune_append_ascii [OF assms False])
  qed simp
qed

lemma runes_append_ascii: "byte c < 128 \<Longrightarrow> runes (s @ c # t) = runes s @ byte c # runes t"
  by (simp add: runes_def chunks_append_ascii chunks_ascii_Cons)

text \<open>Cutting a string between two runes does not change how its front decodes.\<close>

lemma decode_take:
  "decode2 b (take (snd (decode2 b cs) - 1) cs) = decode2 b cs"
  "decode3 b (take (snd (decode3 b cs) - 1) cs) = decode3 b cs"
  "decode4 b (take (snd (decode4 b cs) - 1) cs) = decode4 b cs"
proof -
  show "decode2 b (take (snd (decode2 b cs) - 1) cs) = decode2 b cs"
    by (cases cs) (simp_all add: decode2_def)
  show "decode3 b (take (snd (decode3 b cs) - 1) cs) = decode3 b cs"
  proof (cases cs)
    case (Cons c1 cs1)
    then show ?thesis by (cases cs1) (simp_all add: decode3_def numeral_2_eq_2)
  qed (simp add: decode3_def)
  show "decode4 b (take (snd (decode4 b cs) - 1) cs) = decode4 b cs"
  proof (cases cs)
    case (Cons c1 cs1)
    show ?thesis
    proof (cases cs1)
      case (Cons c2 cs2)
      then show ?thesis using \<open>cs = c1 # cs1\<close>
        by (cases cs2) (simp_all add: decode4_def numeral_3_eq_3)
    qed (use Cons in \<open>simp add: decode4_def\<close>)
  qed (simp add: decode4_def)
qed

lemma decode_rune_take:
  assumes "s \<noteq> []"
  shows "decode_rune (take (snd (decode_rune s)) s) = decode_rune s"
proof -
  obtain c cs where s: "s = c # cs" using assms by (cases s) auto
  have "snd (decode_rune s) = Suc (snd (decode_rune s) - 1)"
    using decode_rune_width [OF assms] by simp
  then have "take (snd (decode_rune s)) s = c # take (snd (decode_rune s) - 1) cs"
    using s by (metis take_Suc_Cons)
  then show ?thesis
    using decode_take by (simp add: s decode_rune.simps(2) Let_def)
qed

lemma decode_rune_cut:
  assumes "s \<noteq> []" and "s = take (snd (decode_rune s)) s @ u @ v"
  shows "decode_rune (take (snd (decode_rune s)) s @ u) = decode_rune s"
proof (cases "decode_rune s = (rune_error, 1)")
  case False
  have "take (snd (decode_rune s)) s \<noteq> []"
    using decode_rune_width [OF assms(1)] by auto
  then show ?thesis
    using decode_rune_append [of "take (snd (decode_rune s)) s" u] False
      decode_rune_take [OF assms(1)] by simp
next
  case True
  let ?s = "take (snd (decode_rune s)) s @ u"
  have "?s \<noteq> []" using decode_rune_width [OF assms(1)] by auto
  moreover have "?s @ v = s" using assms(2) by simp
  ultimately show ?thesis
    using decode_rune_append [of ?s v] True by metis
qed

lemma chunks_cut:
  "chunks (concat (map snd (take k (chunks s)))) = take k (chunks s)"
proof (induction s arbitrary: k rule: chunks.induct)
  case (1 s)
  show ?case
  proof (cases "s = [] \<or> k = 0")
    case False
    then have ne: "s \<noteq> []" and k: "k = Suc (k - 1)" by auto
    define w where "w = snd (decode_rune s)"
    define u where "u = concat (map snd (take (k - 1) (chunks (drop w s))))"
    define v where "v = concat (map snd (drop (k - 1) (chunks (drop w s))))"
    have uv: "drop w s = u @ v"
      unfolding u_def v_def by (metis append_take_drop_id concat_append concat_chunks map_append)
    then have "decode_rune (take w s @ u) = decode_rune s"
      using decode_rune_cut [OF ne, of u v] unfolding w_def [symmetric]
      by (metis append_take_drop_id)
    moreover have "take w s \<noteq> []" "length (take w s) = w"
      using decode_rune_width [OF ne] by (auto simp: w_def)
    moreover have "chunks u = take (k - 1) (chunks (drop w s))"
      unfolding u_def w_def using 1 [OF ne] by blast
    ultimately have "chunks (take w s @ u) = take k (chunks s)"
      by (subst k) (simp add: chunks_nonempty ne w_def [symmetric])
    moreover have "concat (map snd (take k (chunks s))) = take w s @ u"
      by (subst k) (simp add: chunks_nonempty ne w_def [symmetric] u_def)
    ultimately show ?thesis by simp
  qed auto
qed

end
