(* ===== verification/GoText.thy ===== *)
theory GoText
  imports GoStrings
begin

text \<open>
  Standard-library functions that sit on top of UTF-8 decoding and decimal notation:
  \<open>unicode.IsSpace\<close>, \<open>unicode.IsControl\<close>, \<open>strings.Fields\<close>, \<open>strings.TrimSpace\<close>,
  \<open>fmt.Sprintf("%d")\<close>, \<open>strconv.ParseInt\<close> and \<open>path.Clean\<close>.
\<close>

section \<open>unicode\<close>

definition is_space :: "nat \<Rightarrow> bool" where
  "is_space r \<longleftrightarrow>
     r \<in> {9, 10, 11, 12, 13, 32, 133, 160, 5760, 8232, 8233, 8239, 8287, 12288} \<or>
     (8192 \<le> r \<and> r \<le> 8202)"

definition is_control :: "nat \<Rightarrow> bool" where
  "is_control r \<longleftrightarrow> r < 32 \<or> (127 \<le> r \<and> r < 160)"

section \<open>strings.Fields and strings.TrimSpace\<close>

fun fields_loop :: "(nat \<times> string) list \<Rightarrow> string \<Rightarrow> string list" where
  "fields_loop [] cur = (if cur = [] then [] else [cur])"
| "fields_loop ((r, b) # cs) cur =
     (if is_space r then (if cur = [] then fields_loop cs [] else cur # fields_loop cs [])
      else fields_loop cs (cur @ b))"

definition Fields :: "string \<Rightarrow> string list" where
  "Fields s = fields_loop (chunks s) []"

definition trim_space :: "string \<Rightarrow> string" where
  "trim_space s =
     (let sp = (\<lambda>p. is_space (fst p)); f = dropWhile sp (chunks s)
      in concat (map snd (rev (dropWhile sp (rev f)))))"

text \<open>A solid string is valid, nonempty and without spaces: what \<open>Fields\<close> returns unchanged.\<close>

definition solid :: "string \<Rightarrow> bool" where
  "solid s \<longleftrightarrow> s \<noteq> [] \<and> valid_utf8 s \<and> (\<forall>r \<in> set (runes s). \<not> is_space r)"

lemma fields_go_no_space:
  "\<forall>p \<in> set ps. \<not> is_space (fst p) \<Longrightarrow>
     fields_loop (ps @ cs) cur = fields_loop cs (cur @ concat (map snd ps))"
  by (induction ps arbitrary: cur) auto

lemma fields_solid:
  assumes "solid s"
  shows "Fields s = [s]"
proof -
  have "\<forall>p \<in> set (chunks s). \<not> is_space (fst p)"
    using assms by (auto simp: solid_def runes_def)
  then have "Fields s = fields_loop [] (concat (map snd (chunks s)))"
    using fields_go_no_space [of "chunks s" "[]" "[]"] by (simp add: Fields_def)
  then show ?thesis
    using assms by (simp add: concat_chunks solid_def)
qed

lemma fields_solid_Cons:
  assumes "solid w"
  shows "Fields (w @ CHR '' '' # s) = w # Fields s"
proof -
  have ns: "\<forall>p \<in> set (chunks w). \<not> is_space (fst p)"
    using assms by (auto simp: solid_def runes_def)
  have "chunks (w @ CHR '' '' # s) = chunks w @ (32, '' '') # chunks s"
    using assms by (simp add: solid_def chunks_append chunks_ascii_Cons)
  then show ?thesis
    using assms
    by (simp add: Fields_def fields_go_no_space [OF ns] concat_chunks solid_def is_space_def)
qed

lemma fields_Nil [simp]: "Fields [] = []"
  by (simp add: Fields_def)

lemma fields_join_with:
  "\<forall>w \<in> set ws. solid w \<Longrightarrow> Fields (join_with '' '' ws) = ws"
  by (induction "'' ''" ws rule: join_with.induct)
     (auto simp: fields_solid fields_solid_Cons)

lemma solid_ascii:
  assumes "s \<noteq> []" and "\<And>c. c \<in> set s \<Longrightarrow> byte c < 128 \<and> \<not> is_space (byte c)"
  shows "solid s"
  using assms by (auto simp: solid_def valid_utf8_ascii runes_def chunks_ascii)

lemma solid_append_ascii:
  assumes "\<And>c. c \<in> set p \<Longrightarrow> byte c < 128 \<and> \<not> is_space (byte c)"
    and "s = [] \<Longrightarrow> p \<noteq> []" and "valid_utf8 s" and "\<forall>r \<in> set (runes s). \<not> is_space r"
  shows "solid (p @ s)"
  using assms by (auto simp: solid_def valid_utf8_ascii valid_utf8_append runes_append
      runes_def [of p] chunks_ascii)

lemma trim_space_solid: "solid s \<Longrightarrow> trim_space s = s"
proof -
  assume w: "solid s"
  then have ns: "\<forall>p \<in> set (chunks s). \<not> is_space (fst p)"
    by (auto simp: solid_def runes_def)
  then have "dropWhile (\<lambda>p. is_space (fst p)) (chunks s) = chunks s"
    using dropWhile_append_stop [of "[]" _ "chunks s"] by (cases "chunks s") auto
  moreover have "dropWhile (\<lambda>p. is_space (fst p)) (rev (chunks s)) = rev (chunks s)"
    using ns by (cases "rev (chunks s)") (auto dest: arg_cong [of _ _ set])
  ultimately show ?thesis
    by (simp add: trim_space_def concat_chunks)
qed

section \<open>Decimal numbers\<close>

fun show_nat :: "nat \<Rightarrow> string" where
  "show_nat n =
     (if n < 10 then [char_of (48 + n)] else show_nat (n div 10) @ [char_of (48 + n mod 10)])"

declare show_nat.simps [simp del]

text \<open>\<open>fmt.Sprintf("%d", i)\<close>\<close>

definition show_int :: "int \<Rightarrow> string" where
  "show_int i = (if i < 0 then CHR ''-'' # show_nat (nat (- i)) else show_nat (nat i))"

definition is_digit :: "char \<Rightarrow> bool" where
  "is_digit c \<longleftrightarrow> 48 \<le> byte c \<and> byte c \<le> 57"

fun read_digits :: "nat \<Rightarrow> string \<Rightarrow> nat option" where
  "read_digits acc [] = Some acc"
| "read_digits acc (c # cs) =
     (if is_digit c then read_digits (10 * acc + (byte c - 48)) cs else None)"

text \<open>\<open>strconv.ParseInt(s, 10, 64)\<close> and \<open>strconv.Atoi\<close>: \<open>None\<close> is an error.\<close>

definition parse_int64 :: "string \<Rightarrow> int option" where
  "parse_int64 s =
     (let (neg, ds) = (case s of
          c # cs \<Rightarrow> if c = CHR ''+'' then (False, cs) else if c = CHR ''-'' then (True, cs)
                    else (False, s)
        | [] \<Rightarrow> (False, s))
      in if ds = [] then None
         else case read_digits 0 ds of
           None \<Rightarrow> None
         | Some n \<Rightarrow>
             if neg then (if n \<le> 2 ^ 63 then Some (- int n) else None)
             else (if n < 2 ^ 63 then Some (int n) else None))"

lemma read_digits_append:
  "read_digits acc (s @ t) = (case read_digits acc s of None \<Rightarrow> None | Some a \<Rightarrow> read_digits a t)"
  by (induction acc s rule: read_digits.induct) auto

lemma show_nat_neq_Nil [simp]: "show_nat n \<noteq> []"
  by (subst show_nat.simps) simp

lemma show_nat_digits: "c \<in> set (show_nat n) \<Longrightarrow> is_digit c"
proof (induction n rule: show_nat.induct)
  case (1 n)
  show ?case
  proof (cases "n < 10")
    case True
    then show ?thesis using "1.prems" by (subst (asm) show_nat.simps) (simp add: is_digit_def)
  next
    case False
    have "n mod 10 < 10" by simp
    then have "is_digit (char_of (48 + n mod 10))" unfolding is_digit_def by simp
    moreover have "c \<in> set (show_nat (n div 10)) \<or> c = char_of (48 + n mod 10)"
      using "1.prems" False by (subst (asm) show_nat.simps) auto
    ultimately show ?thesis using "1.IH" False by blast
  qed
qed

lemma read_show_nat: "read_digits 0 (show_nat n) = Some n"
proof (induction n rule: show_nat.induct)
  case (1 n)
  show ?case
  proof (cases "n < 10")
    case True
    then show ?thesis by (subst show_nat.simps) (simp add: is_digit_def)
  next
    case False
    have "n mod 10 < 10" by simp
    then have d: "is_digit (char_of (48 + n mod 10))"
      "byte (char_of (48 + n mod 10)) = 48 + n mod 10"
      unfolding is_digit_def by simp_all
    have "10 * (n div 10) + n mod 10 = n" by simp
    with d show ?thesis
      using 1 False by (subst show_nat.simps) (simp add: read_digits_append)
  qed
qed

lemma digit_facts:
  "is_digit c \<Longrightarrow> byte c < 128 \<and> \<not> is_space (byte c) \<and> c \<noteq> CHR ''+'' \<and> c \<noteq> CHR ''-''
     \<and> c \<noteq> CHR ''_'' \<and> c \<noteq> CHR ''#''"
  by (auto simp: is_digit_def is_space_def)

lemma parse_show_int:
  assumes "0 \<le> i" and "in64 i"
  shows "parse_int64 (show_int i) = Some i"
proof -
  obtain c cs where s: "show_nat (nat i) = c # cs"
    using show_nat_neq_Nil by (cases "show_nat (nat i)") auto
  then have "is_digit c" using show_nat_digits [of c "nat i"] by simp
  then have "c \<noteq> CHR ''+''" "c \<noteq> CHR ''-''" by (auto dest: digit_facts)
  moreover have "nat i < 2 ^ 63" using assms by (simp add: in64_def nat_less_iff)
  ultimately show ?thesis
    using assms read_show_nat [of "nat i"] s by (simp add: parse_int64_def show_int_def)
qed

lemma show_int_digits: "\<lbrakk>0 \<le> i; c \<in> set (show_int i)\<rbrakk> \<Longrightarrow> is_digit c"
  by (auto simp: show_int_def intro: show_nat_digits)

lemma show_int_neq_Nil [simp]: "show_int i \<noteq> []"
  by (simp add: show_int_def)

section \<open>path.Clean\<close>

text \<open>
  \<open>path.Clean\<close> works on the elements between slashes with the output as a stack (here
  reversed): empty and \<open>.\<close> elements vanish, \<open>..\<close> removes the element before it when there
  is one to remove, and is dropped at the start of a rooted path.
\<close>

fun clean_elem :: "bool \<Rightarrow> string \<Rightarrow> string list \<Rightarrow> string list" where
  "clean_elem rooted e st =
     (if e = [] \<or> e = ''.'' then st
      else if e = ''..'' then
        (case st of
           t # st' \<Rightarrow> if t = ''..'' then ''..'' # st else st'
         | [] \<Rightarrow> if rooted then [] else [''..''])
      else e # st)"

definition path_clean :: "string \<Rightarrow> string" where
  "path_clean p =
     (if p = [] then ''.''
      else
        let rooted = (hd p = CHR ''/'');
            st = rev (fold (clean_elem rooted) (split_on (CHR ''/'') p) [])
        in if rooted then CHR ''/'' # join_with ''/'' st
           else if st = [] then ''.'' else join_with ''/'' st)"

end
