(* ===== verification/DrivePath.thy ===== *)
theory DrivePath
  imports GoText
begin

text \<open>
  Paths of the drive: \<open>internal/drive/path.go\<close>, and the account scopes of
  \<open>internal/drive/scope.go\<close> that rewrite a client's paths into real ones and back.

  A canonical path is \<open>/\<close> or \<open>/n1/.../nk\<close> with valid names; \<open>CleanPath\<close> returns only
  canonical paths and leaves canonical paths alone, and a scope never leads outside its root.
\<close>

section \<open>internal/drive/path.go\<close>

datatype path_reason =
    NulByte | EscapesRoot | EmptyName | ReservedName | ContainsSlash | NameTooLong nat | ControlChar

datatype path_error = PathError string path_reason

definition Root :: string where
  "Root = ''/''"

definition MaxNameBytes :: nat where
  "MaxNameBytes = 255"

definition SplitPath :: "string \<Rightarrow> string list" where
  "SplitPath p =
     (let trimmed = trim_char (CHR ''/'') p
      in if trimmed = [] then [] else split_on (CHR ''/'') trimmed)"

definition Join :: "string \<Rightarrow> string \<Rightarrow> string" where
  "Join parent name = (if parent = Root \<or> parent = [] then Root @ name else parent @ ''/'' @ name)"

definition Parent :: "string \<Rightarrow> string \<times> string" where
  "Parent p =
     (if p = Root \<or> p = [] then (Root, [])
      else case last_index (CHR ''/'') p of
          None \<Rightarrow> (Root, drop 1 p)
        | Some i \<Rightarrow> if i = 0 then (Root, drop 1 p) else (take i p, drop (i + 1) p))"

definition ValidateName :: "string \<Rightarrow> path_error + unit" where
  "ValidateName name =
     (if name = [] then Inl (PathError name EmptyName)
      else if name = ''.'' \<or> name = ''..'' then Inl (PathError name ReservedName)
      else if CHR ''/'' \<in> set name then Inl (PathError name ContainsSlash)
      else if MaxNameBytes < length name then Inl (PathError name (NameTooLong (length name)))
      else if \<exists>r \<in> set (runes name). r < 32 \<or> r = 127 \<or> (is_control r \<and> r \<noteq> 9)
      then Inl (PathError name ControlChar)
      else Inr ())"

fun validate_names :: "string list \<Rightarrow> path_error + unit" where
  "validate_names [] = Inr ()"
| "validate_names (n # ns) = go_bind (ValidateName n) (\<lambda>_. validate_names ns)"

definition CleanPath :: "string \<Rightarrow> path_error + string" where
  "CleanPath p0 =
     (if p0 = [] then Inr Root
      else if CHR 0x00 \<in> set p0 then Inl (PathError p0 NulByte)
      else
        let p = (if prefix ''/'' p0 then p0 else CHR ''/'' # p0);
            c0 = path_clean p;
            cleaned = (if c0 = ''.'' \<or> c0 = [] then Root else c0)
        in if prefix ''..'' cleaned then Inl (PathError p EscapesRoot)
           else go_bind (validate_names (SplitPath cleaned)) (\<lambda>_. Inr cleaned))"

definition IsDescendant :: "string \<Rightarrow> string \<Rightarrow> bool" where
  "IsDescendant parent child =
     (if parent = Root then child \<noteq> Root else prefix (parent @ ''/'') child)"

definition AncestorNames :: "string \<Rightarrow> string list" where
  "AncestorNames dirPath = rev (SplitPath dirPath)"

section \<open>Canonical paths\<close>

definition valid_name :: "string \<Rightarrow> bool" where
  "valid_name n \<longleftrightarrow> ValidateName n = Inr ()"

definition path_of :: "string list \<Rightarrow> string" where
  "path_of ns = CHR ''/'' # join_with ''/'' ns"

definition canonical :: "string \<Rightarrow> bool" where
  "canonical p \<longleftrightarrow> (\<exists>ns. (\<forall>n \<in> set ns. valid_name n) \<and> p = path_of ns)"

lemma valid_name_iff:
  "valid_name n \<longleftrightarrow> n \<noteq> [] \<and> n \<noteq> ''.'' \<and> n \<noteq> ''..'' \<and> CHR ''/'' \<notin> set n \<and> length n \<le> 255 \<and>
     (\<forall>r \<in> set (runes n). \<not> is_control r)"
proof -
  have ctl: "r < 32 \<or> r = 127 \<or> (is_control r \<and> r \<noteq> 9) \<longleftrightarrow> is_control r" for r
    by (auto simp: is_control_def)
  show ?thesis
    unfolding valid_name_def ValidateName_def MaxNameBytes_def ctl by simp
qed

lemma valid_nameD:
  assumes "valid_name n"
  shows "n \<noteq> []" "n \<noteq> ''.''" "n \<noteq> ''..''" "CHR ''/'' \<notin> set n" "length n \<le> 255"
    "\<And>r. r \<in> set (runes n) \<Longrightarrow> \<not> is_control r"
  using assms unfolding valid_name_iff by blast+

lemma decode_tail_high:
  "\<forall>d \<in> set (take (snd (decode2 b cs) - 1) cs). 128 \<le> byte d"
  "\<forall>d \<in> set (take (snd (decode3 b cs) - 1) cs). 128 \<le> byte d"
  "\<forall>d \<in> set (take (snd (decode4 b cs) - 1) cs). 128 \<le> byte d"
proof -
  have a3: "\<And>c. accept3 b c \<Longrightarrow> 128 \<le> byte c" and a4: "\<And>c. accept4 b c \<Longrightarrow> 128 \<le> byte c"
    by (auto simp: accept3_def accept4_def split: if_splits)
  show "\<forall>d \<in> set (take (snd (decode2 b cs) - 1) cs). 128 \<le> byte d"
    by (simp add: decode2_def is_cont_def split: list.split)
  show "\<forall>d \<in> set (take (snd (decode3 b cs) - 1) cs). 128 \<le> byte d"
    by (simp add: decode3_def is_cont_def a3 split: list.split)
  show "\<forall>d \<in> set (take (snd (decode4 b cs) - 1) cs). 128 \<le> byte d"
    by (simp add: decode4_def is_cont_def a4 split: list.split)
qed

lemma decode_high:
  assumes "128 \<le> byte c"
  shows "\<forall>d \<in> set (take (snd (decode_rune (c # cs))) (c # cs)). 128 \<le> byte d"
proof -
  have "snd (decode_rune (c # cs)) = Suc (snd (decode_rune (c # cs)) - 1)"
    using decode_rune_width [of "c # cs"] by simp
  then obtain w where w: "snd (decode_rune (c # cs)) = Suc w"
    "w = snd (decode_rune (c # cs)) - 1" by simp
  have "\<forall>d \<in> set (take w cs). 128 \<le> byte d"
    unfolding w(2) decode_rune.simps(2) Let_def using assms decode_tail_high
    by simp
  then show ?thesis using assms w(1) by simp
qed

lemma runes_nul: "CHR 0x00 \<in> set s \<Longrightarrow> 0 \<in> set (runes s)"
proof (induction s rule: chunks.induct)
  case (1 s)
  then obtain c cs where s: "s = c # cs" by (cases s) auto
  then have ne: "s \<noteq> []" by simp
  show ?case
  proof (cases "CHR 0x00 \<in> set (drop (snd (decode_rune s)) s)")
    case True
    then show ?thesis
      using 1(1) [OF ne] by (simp add: runes_def chunks_nonempty [OF ne])
  next
    case False
    then have tk: "CHR 0x00 \<in> set (take (snd (decode_rune s)) s)"
      using 1(2) by (metis Un_iff append_take_drop_id set_append)
    then have low: "byte c < 128"
      using decode_high [of c cs] s by fastforce
    then have "decode_rune s = (byte c, 1)" by (simp add: s decode_rune.simps(2))
    then have "c = CHR 0x00" and "runes s = byte c # runes cs"
      using tk by (simp_all add: s runes_def chunks_nonempty)
    then show ?thesis by simp
  qed
qed

lemma valid_name_no_nul: "valid_name n \<Longrightarrow> CHR 0x00 \<notin> set n"
  using runes_nul [of n] valid_nameD(6) [of n 0] by (auto simp: is_control_def)

lemma validate_names_iff: "validate_names ns = Inr () \<longleftrightarrow> (\<forall>n \<in> set ns. valid_name n)"
proof (induction ns)
  case (Cons n ns)
  then show ?case
    by (cases "ValidateName n") (auto simp: valid_name_def)
qed simp

lemma path_of_Nil [simp]: "path_of [] = Root"
  by (simp add: path_of_def Root_def)

text \<open>A plain element is what the stack of \<open>path.Clean\<close> holds: any nonempty ordinary name.\<close>

definition plain :: "string \<Rightarrow> bool" where
  "plain e \<longleftrightarrow> e \<noteq> [] \<and> e \<noteq> ''.'' \<and> e \<noteq> ''..'' \<and> CHR ''/'' \<notin> set e"

lemma valid_plain: "valid_name n \<Longrightarrow> plain n"
  by (simp add: plain_def valid_nameD)

lemma join_plain:
  assumes "\<forall>n \<in> set ns. plain n" and "ns \<noteq> []"
  shows "join_with ''/'' ns \<noteq> []" "hd (join_with ''/'' ns) \<noteq> CHR ''/''"
    "last (join_with ''/'' ns) \<noteq> CHR ''/''"
proof -
  have "join_with ''/'' ns \<noteq> [] \<and> hd (join_with ''/'' ns) \<noteq> CHR ''/'' \<and>
    last (join_with ''/'' ns) \<noteq> CHR ''/''"
    using assms
  proof (induction "''/''" ns rule: join_with.induct)
    case (2 x)
    then have "x \<noteq> []" "CHR ''/'' \<notin> set x" by (simp_all add: plain_def)
    then show ?case
      using hd_in_set [of x] last_in_set [of x] by (metis join_with.simps(2))
  next
    case (3 x y ys)
    then have x: "x \<noteq> []" "CHR ''/'' \<notin> set x" by (simp_all add: plain_def)
    then have "hd x \<noteq> CHR ''/''" using hd_in_set [of x] by metis
    then show ?case
      using 3 x(1) by simp
  qed simp
  then show "join_with ''/'' ns \<noteq> []" "hd (join_with ''/'' ns) \<noteq> CHR ''/''"
    "last (join_with ''/'' ns) \<noteq> CHR ''/''" by auto
qed

lemma trim_char_path_of:
  assumes "\<forall>n \<in> set ns. plain n"
  shows "trim_char (CHR ''/'') (path_of ns) = join_with ''/'' ns"
proof (cases "ns = []")
  case True
  then show ?thesis by (simp add: trim_char_def Root_def)
next
  case False
  note j = join_plain [OF assms False]
  have "dropWhile (\<lambda>x. x = CHR ''/'') (path_of ns) = join_with ''/'' ns"
    using j(1,2) by (cases "join_with ''/'' ns") (auto simp: path_of_def)
  moreover have "dropWhile (\<lambda>x. x = CHR ''/'') (rev (join_with ''/'' ns)) = rev (join_with ''/'' ns)"
    using j(1,3) by (cases "join_with ''/'' ns" rule: rev_cases) auto
  ultimately show ?thesis
    by (simp add: trim_char_def)
qed

lemma SplitPath_path_of:
  assumes "\<forall>n \<in> set ns. plain n"
  shows "SplitPath (path_of ns) = ns"
proof (cases "ns = []")
  case True
  then show ?thesis by (simp add: SplitPath_def trim_char_def Root_def)
next
  case False
  then have "split_on (CHR ''/'') (join_with ''/'' ns) = ns"
    using assms by (intro split_on_join_with) (auto simp: plain_def)
  then show ?thesis
    using trim_char_path_of [OF assms] join_plain(1) [OF assms False] by (simp add: SplitPath_def)
qed

lemma path_of_inject:
  "\<lbrakk>\<forall>n \<in> set xs. plain n; \<forall>n \<in> set ys. plain n\<rbrakk> \<Longrightarrow> path_of xs = path_of ys \<longleftrightarrow> xs = ys"
  by (metis SplitPath_path_of)

lemma path_of_eq_Root: "\<forall>n \<in> set ns. plain n \<Longrightarrow> path_of ns = Root \<longleftrightarrow> ns = []"
  using path_of_inject [of ns "[]"] by simp

lemma path_of_snoc:
  "path_of (ns @ [n]) = (if ns = [] then Root @ n else path_of ns @ ''/'' @ n)"
  by (simp add: path_of_def Root_def join_with_append)

lemma path_of_append:
  "\<lbrakk>xs \<noteq> []; ys \<noteq> []\<rbrakk> \<Longrightarrow> path_of (xs @ ys) = path_of xs @ path_of ys"
  by (simp add: path_of_def join_with_append)

lemma Join_path_of:
  "\<forall>n \<in> set ns. plain n \<Longrightarrow> Join (path_of ns) n = path_of (ns @ [n])"
  by (simp add: Join_def path_of_eq_Root path_of_snoc) (simp add: path_of_def)

lemma Parent_path_of:
  assumes "\<forall>x \<in> set ns. plain x" and "plain n"
  shows "Parent (path_of (ns @ [n])) = (path_of ns, n)"
proof (cases "ns = []")
  case True
  then have "last_index (CHR ''/'') (path_of [n]) = Some 0"
    using last_index_append [of "CHR ''/''" n "[]"] assms by (simp add: path_of_def plain_def)
  then show ?thesis
    using True assms by (simp add: Parent_def path_of_eq_Root) (auto simp: path_of_def)
next
  case False
  have "last_index (CHR ''/'') (path_of ns @ CHR ''/'' # n) = Some (length (path_of ns))"
    using assms by (intro last_index_append) (simp add: plain_def)
  moreover have "path_of (ns @ [n]) = path_of ns @ CHR ''/'' # n"
    using False by (simp add: path_of_snoc)
  ultimately show ?thesis
    using False assms path_of_eq_Root [of "ns @ [n]"]
    by (simp add: Parent_def) (simp add: path_of_def)
qed

text \<open>
  \<open>IsDescendant\<close> is strict ancestry of the element lists, although the code compares strings:
  the separator in the compared prefix is what keeps \<open>/a\<close> apart from \<open>/ab\<close>.
\<close>

lemma IsDescendant_path_of:
  assumes "\<forall>x \<in> set xs. plain x" and "\<forall>y \<in> set ys. plain y"
  shows "IsDescendant (path_of xs) (path_of ys) \<longleftrightarrow> strict_prefix xs ys"
proof (cases "xs = []")
  case True
  then show ?thesis
    using assms by (auto simp: IsDescendant_def path_of_eq_Root strict_prefix_def)
next
  case False
  have "prefix (path_of xs @ ''/'') (path_of ys) \<longleftrightarrow> strict_prefix xs ys"
  proof
    assume "strict_prefix xs ys"
    then obtain z zs where "ys = xs @ z # zs" by (auto elim: strict_prefixE')
    then show "prefix (path_of xs @ ''/'') (path_of ys)"
      using False by (simp add: path_of_append) (simp add: path_of_def)
  next
    assume "prefix (path_of xs @ ''/'') (path_of ys)"
    then obtain r where r: "path_of ys = path_of xs @ CHR ''/'' # r" by (auto elim: prefixE)
    then have ne: "ys \<noteq> []" by (auto simp: path_of_def)
    have "split_on (CHR ''/'') (path_of ys) = split_on (CHR ''/'') (path_of xs) @ split_on (CHR ''/'') r"
      unfolding r by (rule split_on_append_sep)
    moreover have "split_on (CHR ''/'') (path_of zs) = [] # zs"
      if "\<forall>z \<in> set zs. plain z" "zs \<noteq> []" for zs
      using that by (simp add: path_of_def split_on_join_with plain_def)
    ultimately have "ys = xs @ split_on (CHR ''/'') r"
      using assms False ne by simp
    then show "strict_prefix xs ys"
      using split_on_neq_Nil [of "CHR ''/''" r] by (auto simp: strict_prefix_def)
  qed
  then show ?thesis
    using False assms by (simp add: IsDescendant_def path_of_eq_Root)
qed

lemma AncestorNames_path_of:
  "\<forall>n \<in> set ns. plain n \<Longrightarrow> AncestorNames (path_of ns) = rev ns"
  by (simp add: AncestorNames_def SplitPath_path_of)

section \<open>CleanPath\<close>

lemma clean_elem_plain:
  assumes "\<forall>t \<in> set st. plain t" and "CHR ''/'' \<notin> set e"
  shows "\<forall>t \<in> set (clean_elem True e st). plain t"
proof (cases "e = [] \<or> e = ''.'' \<or> e = ''..''")
  case True
  have "st = t # st' \<Longrightarrow> t \<noteq> ''..''" for t st'
    using assms(1) by (simp add: plain_def)
  with True show ?thesis
    using assms(1) by (cases st) auto
next
  case False
  then have "clean_elem True e st = e # st" by simp
  then show ?thesis
    using False assms by (simp add: plain_def)
qed

lemma fold_clean_plain:
  assumes "\<forall>e \<in> set es. CHR ''/'' \<notin> set e" and "\<forall>t \<in> set st. plain t"
  shows "\<forall>t \<in> set (fold (clean_elem True) es st). plain t"
  using assms
proof (induction es arbitrary: st)
  case (Cons e es)
  have "\<forall>t \<in> set (clean_elem True e st). plain t"
    using Cons.prems by (intro clean_elem_plain) simp_all
  then show ?case
    using Cons by (simp del: clean_elem.simps)
qed simp

lemma fold_clean_id:
  "\<forall>e \<in> set es. plain e \<Longrightarrow> fold (clean_elem r) es st = rev es @ st"
proof (induction es arbitrary: st)
  case (Cons e es)
  have "clean_elem r e st = e # st"
    using Cons.prems by (simp add: plain_def)
  then show ?case
    using Cons by (simp del: clean_elem.simps)
qed simp

lemma path_clean_rooted:
  obtains es where "\<forall>e \<in> set es. plain e" and "path_clean (CHR ''/'' # p) = path_of es"
proof -
  define es where
    "es = rev (fold (clean_elem True) (split_on (CHR ''/'') (CHR ''/'' # p)) [])"
  have "\<forall>e \<in> set es. plain e"
    unfolding es_def set_rev by (rule fold_clean_plain) (blast dest: split_on_elem, simp)
  then show thesis
    using that [of es] by (simp add: path_clean_def es_def path_of_def)
qed

lemma path_clean_path_of:
  assumes "\<forall>n \<in> set ns. plain n"
  shows "path_clean (path_of ns) = path_of ns"
proof (cases "ns = []")
  case True
  then show ?thesis by (simp add: path_clean_def Root_def)
next
  case False
  then have "split_on (CHR ''/'') (path_of ns) = [] # ns"
    using assms by (simp add: path_of_def split_on_join_with plain_def)
  then have "fold (clean_elem True) (split_on (CHR ''/'') (path_of ns)) [] = rev ns"
    using assms by (simp add: fold_clean_id)
  then show ?thesis
    by (simp add: path_clean_def path_of_def)
qed

lemma CleanPath_Inr:
  assumes "CleanPath p = Inr q"
  obtains ns where "q = path_of ns" and "\<forall>n \<in> set ns. valid_name n"
proof (cases "p = []")
  case True
  then have "q = path_of []" using assms by (simp add: CleanPath_def)
  then show thesis by (rule that) simp
next
  case False
  define p' where "p' = (if prefix ''/'' p then tl p else p)"
  then have p': "(if prefix ''/'' p then p else CHR ''/'' # p) = CHR ''/'' # p'"
    by (cases p) simp_all
  obtain es where es: "\<forall>e \<in> set es. plain e" "path_clean (CHR ''/'' # p') = path_of es"
    by (rule path_clean_rooted)
  have "path_of es \<noteq> ''.''" "path_of es \<noteq> []" by (simp_all add: path_of_def)
  then have q: "q = path_of es" "validate_names (SplitPath (path_of es)) = Inr ()"
    using assms False p' es(2) by (auto simp: CleanPath_def Let_def split: if_splits)
  then show thesis
    using that [of es] es(1) by (simp add: SplitPath_path_of validate_names_iff)
qed

lemma CleanPath_canonical: "CleanPath p = Inr q \<Longrightarrow> canonical q"
  by (erule CleanPath_Inr) (auto simp: canonical_def)

lemma path_of_no_nul:
  assumes "\<forall>n \<in> set ns. valid_name n"
  shows "CHR 0x00 \<notin> set (path_of ns)"
  using set_join_with [of "''/''" ns] assms valid_name_no_nul by (auto simp: path_of_def)

lemma CleanPath_path_of:
  assumes "\<forall>n \<in> set ns. valid_name n"
  shows "CleanPath (path_of ns) = Inr (path_of ns)"
proof -
  have pl: "\<forall>n \<in> set ns. plain n" using assms by (simp add: valid_plain)
  have "path_of ns \<noteq> []" "path_of ns \<noteq> ''.''" "prefix ''/'' (path_of ns)"
    "\<not> prefix ''..'' (path_of ns)"
    by (simp_all add: path_of_def)
  then show ?thesis
    using path_of_no_nul [OF assms] assms
    by (simp add: CleanPath_def path_clean_path_of [OF pl] SplitPath_path_of [OF pl]
        validate_names_iff [THEN iffD2] Let_def)
qed

lemma CleanPath_canonical_id: "canonical p \<Longrightarrow> CleanPath p = Inr p"
  by (auto simp: canonical_def CleanPath_path_of)

end
