(* ===== verification/Scope.thy ===== *)
theory Scope
  imports DrivePath Perms
begin

text \<open>
  Account scopes, \<open>internal/drive/scope.go\<close>: a scope confines an account to one subtree by
  rewriting paths at the boundary.  The theorems of this component are the containment of
  \<open>ToReal\<close> (no client path, whatever \<open>..\<close> it holds, leaves the scope) and that \<open>ToVisible\<close>
  undoes \<open>ToReal\<close>.
\<close>

record Scope =
  sc_Root :: string

record Entry =
  e_Name :: string
  e_Path :: string
  e_IsDir :: bool
  e_Size :: int
  e_MIME :: string
  e_ID :: string
  e_SegmentCount :: int
  e_Status :: string
  e_ModifiedAt :: int
  e_CreatedAt :: int

definition ScopeOf :: "User \<Rightarrow> Scope" where
  "ScopeOf u =
     (if u_Role u = RoleAdmin \<or> u_ScopePath u = [] then \<lparr>sc_Root = []\<rparr>
      else case CleanPath (u_ScopePath u) of
          Inl _ \<Rightarrow> \<lparr>sc_Root = []\<rparr>
        | Inr clean \<Rightarrow> if clean = Root then \<lparr>sc_Root = []\<rparr> else \<lparr>sc_Root = clean\<rparr>)"

definition Unrestricted :: "Scope \<Rightarrow> bool" where
  "Unrestricted s \<longleftrightarrow> sc_Root s = []"

definition ToReal :: "Scope \<Rightarrow> string \<Rightarrow> path_error + string" where
  "ToReal s p =
     go_bind (CleanPath p) (\<lambda>clean.
       if Unrestricted s then Inr clean
       else if clean = Root then Inr (sc_Root s)
       else Inr (sc_Root s @ clean))"

text \<open>The second result of the Go function is \<open>None\<close> here: the path is outside the scope.\<close>

definition ToVisible :: "Scope \<Rightarrow> string \<Rightarrow> string option" where
  "ToVisible s real =
     (if Unrestricted s then Some real
      else if real = sc_Root s then Some Root
      else if \<not> prefix (sc_Root s @ ''/'') real then None
      else Some (trim_prefix (sc_Root s) real))"

definition Contains :: "Scope \<Rightarrow> string \<Rightarrow> bool" where
  "Contains s real \<longleftrightarrow> ToVisible s real \<noteq> None"

definition Apply :: "Scope \<Rightarrow> Entry \<Rightarrow> Entry option" where
  "Apply s e =
     (if Unrestricted s then Some e
      else case ToVisible s (e_Path e) of
          None \<Rightarrow> None
        | Some visible \<Rightarrow> Some (e\<lparr>e_Path := visible\<rparr>))"

definition ApplyAll :: "Scope \<Rightarrow> Entry list \<Rightarrow> Entry list" where
  "ApplyAll s entries = (if Unrestricted s then entries else List.map_filter (Apply s) entries)"

section \<open>Well-formed scopes\<close>

definition wf_scope :: "Scope \<Rightarrow> bool" where
  "wf_scope s \<longleftrightarrow> sc_Root s = [] \<or> (canonical (sc_Root s) \<and> sc_Root s \<noteq> Root)"

lemma wf_ScopeOf: "wf_scope (ScopeOf u)"
  by (auto simp: wf_scope_def ScopeOf_def CleanPath_canonical split: sum.split)

lemma wf_scopeE:
  assumes "wf_scope s" and "\<not> Unrestricted s"
  obtains rs where "sc_Root s = path_of rs" "rs \<noteq> []" "\<forall>n \<in> set rs. valid_name n"
proof -
  obtain ns where ns: "\<forall>n \<in> set ns. valid_name n" "sc_Root s = path_of ns" "sc_Root s \<noteq> Root"
    using assms by (auto simp: wf_scope_def Unrestricted_def canonical_def)
  then have "ns \<noteq> []" by auto
  then show thesis using that ns by blast
qed

lemma ToReal_restricted:
  assumes "wf_scope s" and "\<not> Unrestricted s" and "ToReal s p = Inr r"
  obtains rs ns where "sc_Root s = path_of rs" "rs \<noteq> []" "\<forall>n \<in> set rs. valid_name n"
    and "CleanPath p = Inr (path_of ns)" "\<forall>n \<in> set ns. valid_name n" "r = path_of (rs @ ns)"
proof -
  obtain rs where rs: "sc_Root s = path_of rs" "rs \<noteq> []" "\<forall>n \<in> set rs. valid_name n"
    using wf_scopeE [OF assms(1,2)] .
  obtain c where c: "CleanPath p = Inr c"
    and r: "r = (if c = Root then sc_Root s else sc_Root s @ c)"
    using assms by (auto simp: ToReal_def split: if_splits)
  obtain ns where ns: "c = path_of ns" "\<forall>n \<in> set ns. valid_name n"
    using CleanPath_Inr [OF c] .
  have "r = path_of (rs @ ns)"
    using r rs ns by (cases "ns = []") (auto simp: path_of_eq_Root valid_plain path_of_append)
  then show thesis using that rs c ns by blast
qed

lemma ToVisible_path_of:
  assumes "sc_Root s = path_of rs" "rs \<noteq> []" "\<forall>n \<in> set rs. plain n" "\<forall>n \<in> set ns. plain n"
  shows "ToVisible s (path_of (rs @ ns)) = Some (path_of ns)"
proof (cases "ns = []")
  case True
  moreover have "path_of rs \<noteq> []" by (simp add: path_of_def)
  ultimately show ?thesis using assms by (simp add: ToVisible_def Unrestricted_def)
next
  case False
  have "path_of (rs @ ns) = path_of rs @ path_of ns"
    using assms False by (simp add: path_of_append)
  moreover have "prefix (path_of rs @ ''/'') (path_of rs @ path_of ns)"
    by (simp add: path_of_def)
  moreover have "path_of rs \<noteq> []" "path_of ns \<noteq> []" by (simp_all add: path_of_def)
  ultimately show ?thesis
    using assms by (simp add: ToVisible_def Unrestricted_def)
qed

lemma ToReal_scope:
  assumes "wf_scope s" and "ToReal s p = Inr r"
  shows "Contains s r \<and> canonical r \<and> CleanPath p = Inr (the (ToVisible s r))"
proof (cases "Unrestricted s")
  case True
  then show ?thesis
    using assms CleanPath_canonical by (auto simp: ToReal_def Contains_def ToVisible_def)
next
  case False
  obtain rs ns where *: "sc_Root s = path_of rs" "rs \<noteq> []" "\<forall>n \<in> set rs. valid_name n"
    "CleanPath p = Inr (path_of ns)" "\<forall>n \<in> set ns. valid_name n" "r = path_of (rs @ ns)"
    using ToReal_restricted [OF assms(1) False assms(2)] .
  have "ToVisible s r = Some (path_of ns)"
    unfolding *(6) using * by (intro ToVisible_path_of) (simp_all add: valid_plain)
  moreover have "canonical r"
    unfolding canonical_def using * by (intro exI [of _ "rs @ ns"]) auto
  ultimately show ?thesis using * by (simp add: Contains_def)
qed

lemma Contains_iff:
  assumes "sc_Root s = path_of rs" "rs \<noteq> []" "\<forall>n \<in> set rs. plain n" "\<forall>n \<in> set ns. plain n"
  shows "Contains s (path_of ns) \<longleftrightarrow> prefix rs ns"
proof -
  have "\<not> Unrestricted s" using assms(1) by (simp add: Unrestricted_def path_of_def)
  moreover have "prefix (path_of rs @ ''/'') (path_of ns) \<longleftrightarrow> strict_prefix rs ns"
    using IsDescendant_path_of [OF assms(3,4)] assms(2,3)
    by (simp add: IsDescendant_def path_of_eq_Root)
  ultimately show ?thesis
    using path_of_inject [OF assms(4,3)] assms(1)
    by (auto simp: Contains_def ToVisible_def strict_prefix_def)
qed

lemma ApplyAll_visible:
  assumes "\<not> Unrestricted s"
  shows "ApplyAll s es =
    map (\<lambda>e. e\<lparr>e_Path := the (ToVisible s (e_Path e))\<rparr>) (filter (\<lambda>e. Contains s (e_Path e)) es)"
  using assms
  by (induction es) (auto simp: ApplyAll_def Apply_def Contains_def List.map_filter_simps)

end
