(* ===== verification/PathProps.thy ===== *)
theory PathProps
  imports Scope
begin

text \<open>
  The properties of paths, account scopes and permissions: what a cleaned path is, how the path
  operations agree with the list of names a path stands for, that no client path leaves the scope
  of its account, and what an account may do.
\<close>

section \<open>Paths\<close>

text \<open>Whatever a client sends, a path that \<open>CleanPath\<close> accepts is canonical (rooted, no empty,
\<open>.\<close> or \<open>..\<close> element, every name valid) and is not changed by cleaning it again.\<close>

theorem CleanPath_normalises:
  "case CleanPath p of Inl _ \<Rightarrow> \<not> canonical p | Inr q \<Rightarrow> canonical q \<and> CleanPath q = Inr q \<and> (canonical p = (q = p))"
  using CleanPath_canonical [of p] CleanPath_canonical_id [of p] CleanPath_canonical_id
  by (auto split: sum.split)

text \<open>Joining a valid name to a canonical path gives a canonical path whose parent and last
element are the two parts, and which is a descendant of exactly that path and what it descends from.\<close>

theorem Join_Parent_inverse:
  assumes "canonical p" and "valid_name n"
  shows "canonical (Join p n) \<and> Parent (Join p n) = (p, n) \<and> SplitPath (Join p n) = SplitPath p @ [n]"
proof -
  obtain ns where ns: "p = path_of ns" "\<forall>x \<in> set ns. valid_name x"
    using assms(1) by (auto simp: canonical_def)
  then have pl: "\<forall>x \<in> set ns. plain x" "plain n" using assms(2) by (simp_all add: valid_plain)
  have j: "Join p n = path_of (ns @ [n])" using Join_path_of [OF pl(1)] ns(1) by simp
  have "canonical (Join p n)"
    unfolding j canonical_def using ns(2) assms(2) by (intro exI [of _ "ns @ [n]"]) simp
  moreover have "Parent (Join p n) = (p, n)" using Parent_path_of [OF pl] j ns(1) by simp
  moreover have "SplitPath (Join p n) = SplitPath p @ [n]"
    unfolding j using pl by (subst SplitPath_path_of) (auto simp: ns(1) SplitPath_path_of)
  ultimately show ?thesis by simp
qed

lemma valid_name_ab: "valid_name ''a''" "valid_name ''b''"
  by (simp_all add: valid_name_def ValidateName_def MaxNameBytes_def runes_def chunks_ascii is_control_def)

lemma canonical_ab: "canonical ''/a''" "canonical ''/a/b''"
proof -
  show "canonical ''/a''"
    unfolding canonical_def by (intro exI [of _ "[''a'']"]) (simp add: valid_name_ab path_of_def)
  show "canonical ''/a/b''"
    unfolding canonical_def by (intro exI [of _ "[''a'', ''b'']"]) (simp add: valid_name_ab path_of_def)
qed

theorem Join_Parent_inverse_witness: "Parent (Join ''/a'' ''b'') = (''/a'', ''b'') \<and> Join ''/a'' ''b'' = ''/a/b''"
  using Join_Parent_inverse [OF canonical_ab(1) valid_name_ab(2)] by (simp add: Join_def Root_def)

text \<open>\<open>IsDescendant\<close> compares strings, yet decides exactly whether the names of the first path
are a proper prefix of the names of the second: \<open>/ab\<close> is not below \<open>/a\<close>.\<close>

theorem IsDescendant_ancestry:
  assumes "canonical p" and "canonical q"
  shows "IsDescendant p q \<longleftrightarrow> strict_prefix (SplitPath p) (SplitPath q)"
proof -
  obtain ns ms where "p = path_of ns" "\<forall>x \<in> set ns. valid_name x" "q = path_of ms" "\<forall>x \<in> set ms. valid_name x"
    using assms unfolding canonical_def by blast
  moreover from this have "\<forall>x \<in> set ns. plain x" "\<forall>x \<in> set ms. plain x" by (simp_all add: valid_plain)
  ultimately show ?thesis by (simp add: SplitPath_path_of IsDescendant_path_of)
qed

theorem IsDescendant_ancestry_witness: "IsDescendant ''/a'' ''/a/b'' \<and> strict_prefix (SplitPath ''/a'') (SplitPath ''/a/b'')"
  using IsDescendant_ancestry [OF canonical_ab] by (simp add: IsDescendant_def Root_def)

section \<open>Scopes\<close>

text \<open>For every account and every path a client may send, the real path that the scope
produces is canonical, lies inside the account's subtree, and is shown back to the client as
exactly the path it asked for.\<close>

theorem scope_confines:
  assumes "ToReal (ScopeOf u) p = Inr r"
  shows "canonical r \<and> Contains (ScopeOf u) r \<and> CleanPath p = Inr (the (ToVisible (ScopeOf u) r))"
  using ToReal_scope [OF wf_ScopeOf assms] by simp

definition guest :: User where
  "guest = \<lparr>u_ID = ''U'', u_Username = ''guest'', u_PasswordHash = [], u_Role = RoleUser, u_CreatedAt = 0,
     u_UpdatedAt = 0, u_Enabled = True, u_Perms = 0, u_ScopePath = ''/a'', u_QuotaBytes = 0, u_Note = [],
     u_LastLoginAt = 0, u_LastLoginIP = []\<rparr>"

lemma clean_ab: "CleanPath ''/a'' = Inr ''/a''" "CleanPath ''/a/b'' = Inr ''/a/b''" "CleanPath ''/../b'' = Inr ''/b''"
proof -
  show "CleanPath ''/a'' = Inr ''/a''" "CleanPath ''/a/b'' = Inr ''/a/b''"
    using canonical_ab by (simp_all add: CleanPath_canonical_id)
  have "SplitPath ''/b'' = [''b'']" using SplitPath_path_of [of "[''b'']"] by (simp add: path_of_def plain_def)
  moreover have "ValidateName ''b'' = Inr ()" using valid_name_ab(2) by (simp add: valid_name_def)
  ultimately show "CleanPath ''/../b'' = Inr ''/b''"
    by (simp add: CleanPath_def path_clean_def)
qed

lemma guest_scope: "ScopeOf guest = \<lparr>sc_Root = ''/a''\<rparr>"
  by (simp add: ScopeOf_def guest_def clean_ab Root_def)

theorem scope_confines_witness:
  "ToReal (ScopeOf guest) ''/../b'' = Inr ''/a/b'' \<and> canonical ''/a/b'' \<and> Contains (ScopeOf guest) ''/a/b''"
proof -
  have t: "ToReal (ScopeOf guest) ''/../b'' = Inr ''/a/b''"
    by (simp add: ToReal_def guest_scope clean_ab Unrestricted_def Root_def)
  show ?thesis using scope_confines [OF t] t by simp
qed

text \<open>A listing shown to an account holds, in order, exactly the entries inside its subtree,
and every path shown leads back to the real path of its entry.\<close>

theorem ApplyAll_round_trip:
  assumes "\<forall>e \<in> set es. canonical (e_Path e)"
  shows "map (\<lambda>e. ToReal (ScopeOf u) (e_Path e)) (ApplyAll (ScopeOf u) es) =
     map (\<lambda>e. Inr (e_Path e)) (filter (\<lambda>e. Contains (ScopeOf u) (e_Path e)) es)"
proof (cases "Unrestricted (ScopeOf u)")
  case True
  then have "ApplyAll (ScopeOf u) es = es" "filter (\<lambda>e. Contains (ScopeOf u) (e_Path e)) es = es"
    by (simp_all add: ApplyAll_def Contains_def ToVisible_def)
  then show ?thesis using True assms by (simp add: ToReal_def CleanPath_canonical_id)
next
  case False
  have shown: "ToReal (ScopeOf u) (the (ToVisible (ScopeOf u) p)) = Inr p"
    if p: "canonical p" "Contains (ScopeOf u) p" for p
  proof -
    obtain rs where rs: "sc_Root (ScopeOf u) = path_of rs" "rs \<noteq> []" "\<forall>n \<in> set rs. valid_name n"
      using wf_scopeE [OF wf_ScopeOf False] .
    obtain ms where ms: "p = path_of ms" "\<forall>n \<in> set ms. valid_name n" using p(1) by (auto simp: canonical_def)
    have pl: "\<forall>n \<in> set rs. plain n" "\<forall>n \<in> set ms. plain n" using rs ms by (simp_all add: valid_plain)
    obtain ns where ns: "ms = rs @ ns"
      using p(2) Contains_iff [OF rs(1,2) pl] ms(1) by (auto simp: prefix_def)
    have v: "ToVisible (ScopeOf u) p = Some (path_of ns)"
      unfolding ms(1) ns using pl ns by (intro ToVisible_path_of [OF rs(1,2)]) auto
    have c: "CleanPath (path_of ns) = Inr (path_of ns)" using ms(2) ns by (intro CleanPath_path_of) auto
    show ?thesis
    proof (cases "ns = []")
      case True
      then show ?thesis using v c False rs ms(1) ns by (simp add: ToReal_def)
    next
      case ne: False
      then have "path_of ns \<noteq> Root" using pl ns by (simp add: path_of_eq_Root)
      then show ?thesis using v c False rs ms(1) ns ne by (simp add: ToReal_def path_of_append)
    qed
  qed
  then show ?thesis using assms unfolding ApplyAll_visible [OF False] by simp
qed

definition entry_at :: "string \<Rightarrow> Entry" where
  "entry_at p = \<lparr>e_Name = [], e_Path = p, e_IsDir = True, e_Size = 0, e_MIME = [], e_ID = [], e_SegmentCount = 0,
     e_Status = [], e_ModifiedAt = 0, e_CreatedAt = 0\<rparr>"

theorem ApplyAll_round_trip_witness:
  "map (\<lambda>e. ToReal (ScopeOf guest) (e_Path e)) (ApplyAll (ScopeOf guest) [entry_at ''/a/b'', entry_at ''/'']) = [Inr ''/a/b'']"
proof -
  have "canonical ''/''" by (simp add: canonical_def path_of_def) (rule exI [of _ "[]"], simp)
  then have "\<forall>e \<in> set [entry_at ''/a/b'', entry_at ''/'']. canonical (e_Path e)"
    by (simp add: entry_at_def canonical_ab)
  then show ?thesis
    using ApplyAll_round_trip [of "[entry_at ''/a/b'', entry_at ''/'']" guest]
    by (simp add: guest_scope Contains_def ToVisible_def Unrestricted_def entry_at_def)
qed

section \<open>Permissions\<close>

text \<open>Writing a mask as names and reading the names back gives the mask's defined permissions,
and reading any list of names, known or not, gives defined permissions only.\<close>

theorem permissions_round_trip:
  "PermsFromNames (PermNames p) = p AND AllPerms \<and> PermsFromNames ns AND AllPerms = PermsFromNames ns"
  by (simp add: PermsFromNames_PermNames PermsFromNames_subset)

text \<open>Running code through plugins is for administrators and for accounts whose stored mask
names it: neither the default permissions nor any other permission implies it.\<close>

theorem plugins_only_explicit:
  "Can u PermPlugins \<longleftrightarrow> u_Role u = RoleAdmin \<or> bit (u_Perms u) 12"
proof -
  have e: "PermPlugins = push_bit 12 1" by (simp add: PermPlugins_def)
  have p: "bit PermPlugins k \<longleftrightarrow> k = 12" for k
    unfolding e by (auto simp only: push_bit_of_1 bit_exp_iff possible_bit_word) simp
  show ?thesis
    unfolding Can_iff p
    by (auto simp: Effective_def DefaultPerms_def AllPerms_def DefaultUserPerms_def bit_or_iff perm_consts)
qed

end
