(* ===== verification/Base32.thy ===== *)
theory Base32
  imports GoText
begin

text \<open>
  \<open>encoding/base32\<close> with the standard alphabet and no padding, as \<open>nameEnc\<close> in
  \<open>internal/tagcodec/tagcodec.go\<close> configures it, and the contract the caption codec relies on:
  the locale \<open>name_codec\<close>, interpreted here on the two functions.

  The decoder follows the library's: it strips line breaks, reads quanta of at most eight
  symbols, stops with an error at the first symbol outside the alphabet, and a last quantum of
  1, 3 or 6 symbols contributes no byte.  (Byte 255, which cannot occur in a caption that is
  valid UTF-8, counts as outside the alphabet.)
\<close>

section \<open>The contract\<close>

definition tag_char :: "char \<Rightarrow> bool" where
  "tag_char c \<longleftrightarrow> byte c < 128 \<and> \<not> is_space (byte c) \<and> byte c \<noteq> 35"

locale name_codec =
  fixes enc :: "string \<Rightarrow> string"
    and dec :: "string \<Rightarrow> string option"
  assumes dec_enc: "dec (enc s) = Some s"
    and enc_tag_char: "c \<in> set (enc s) \<Longrightarrow> tag_char c"
    and enc_length: "5 * length (enc s) \<le> 8 * length s + 4"
    and enc_Nil: "enc [] = []"
begin

lemma enc_inject: "enc s = enc t \<longleftrightarrow> s = t"
  by (metis dec_enc option.inject)

lemma enc_eq_Nil: "enc s = [] \<longleftrightarrow> s = []"
  using enc_inject [of s "[]"] by (simp add: enc_Nil)

lemma enc_solid: "s \<noteq> [] \<Longrightarrow> solid (enc s)"
  using enc_tag_char by (intro solid_ascii) (auto simp: enc_eq_Nil tag_char_def)

lemma enc_no_newline: "CHR 0x0A \<notin> set (enc s)"
  using enc_tag_char by (fastforce simp: tag_char_def is_space_def)

end

section \<open>Encoding\<close>

definition b32_symbol :: "nat \<Rightarrow> char" where
  "b32_symbol v = (if v < 26 then char_of (65 + v) else char_of (24 + v))"

definition b32_digits :: "nat \<Rightarrow> nat \<Rightarrow> nat \<Rightarrow> nat \<Rightarrow> nat \<Rightarrow> nat list" where
  "b32_digits b0 b1 b2 b3 b4 =
     [b0 div 8, b0 mod 8 * 4 + b1 div 64, b1 div 2 mod 32, b1 mod 2 * 16 + b2 div 16,
      b2 mod 16 * 2 + b3 div 128, b3 div 4 mod 32, b3 mod 4 * 8 + b4 div 32, b4 mod 32]"

fun b32_values :: "nat list \<Rightarrow> nat list" where
  "b32_values [] = []"
| "b32_values [a] = take 2 (b32_digits a 0 0 0 0)"
| "b32_values [a, b] = take 4 (b32_digits a b 0 0 0)"
| "b32_values [a, b, c] = take 5 (b32_digits a b c 0 0)"
| "b32_values [a, b, c, d] = take 7 (b32_digits a b c d 0)"
| "b32_values (a # b # c # d # e # r) = b32_digits a b c d e @ b32_values r"

definition b32_encode :: "string \<Rightarrow> string" where
  "b32_encode s = map b32_symbol (b32_values (map of_char s))"

section \<open>Decoding\<close>

definition b32_value :: "char \<Rightarrow> nat option" where
  "b32_value c =
     (if 65 \<le> byte c \<and> byte c \<le> 90 then Some (byte c - 65)
      else if 50 \<le> byte c \<and> byte c \<le> 55 then Some (byte c - 24)
      else None)"

text \<open>The five octets of a full quantum, and how many of them a quantum of \<open>n\<close> symbols yields.\<close>

fun b32_octets :: "nat list \<Rightarrow> nat list" where
  "b32_octets [d0, d1, d2, d3, d4, d5, d6, d7] =
     [(d0 * 8 + d1 div 4) mod 256,
      (d1 * 64 + d2 * 2 + d3 div 16) mod 256,
      (d3 * 16 + d4 div 2) mod 256,
      (d4 * 128 + d5 * 4 + d6 div 8) mod 256,
      (d6 * 32 + d7) mod 256]"
| "b32_octets _ = []"

definition b32_count :: "nat \<Rightarrow> nat" where
  "b32_count n =
     (if n = 8 then 5 else if n = 7 then 4 else if n = 5 then 3 else if n = 4 then 2
      else if n = 2 then 1 else 0)"

definition b32_bytes :: "nat list \<Rightarrow> nat list" where
  "b32_bytes ds = take (b32_count (length ds)) (b32_octets (ds @ replicate (8 - length ds) 0))"

fun b32_quanta :: "nat list \<Rightarrow> nat list" where
  "b32_quanta (a # b # c # d # e # f # g # h # r) = b32_bytes [a, b, c, d, e, f, g, h] @ b32_quanta r"
| "b32_quanta ds = b32_bytes ds"

definition b32_decode :: "string \<Rightarrow> string option" where
  "b32_decode s =
     (let vs = map b32_value (filter (\<lambda>c. c \<noteq> CHR 0x0A \<and> c \<noteq> CHR 0x0D) s)
      in if None \<in> set vs then None
         else Some (map char_of (b32_quanta (map the vs))))"

section \<open>Round trip\<close>

lemma b32_value_symbol [simp]: "v < 32 \<Longrightarrow> b32_value (b32_symbol v) = Some v"
  by (simp add: b32_value_def b32_symbol_def)

lemma b32_digits_less:
  assumes "b0 < 256" "b1 < 256" "b2 < 256" "b3 < 256" "b4 < 256"
  shows "\<forall>v \<in> set (b32_digits b0 b1 b2 b3 b4). v < 32"
proof -
  have "b0 div 8 < 32" "b1 div 64 < 4" "b2 div 16 < 16" "b3 div 128 < 2" "b4 div 32 < 8"
    using assms by (simp_all add: div_less_iff_less_mult)
  moreover have "b0 mod 8 < 8" "b1 mod 2 < 2" "b2 mod 16 < 16" "b3 mod 4 < 4" by simp_all
  moreover have "\<And>q p. q < 8 \<Longrightarrow> p < 4 \<Longrightarrow> q * 4 + p < (32 :: nat)" "\<And>q p. q < 2 \<Longrightarrow> p < 16 \<Longrightarrow> q * 16 + p < (32 :: nat)"
    "\<And>q p. q < 16 \<Longrightarrow> p < 2 \<Longrightarrow> q * 2 + p < (32 :: nat)" "\<And>q p. q < 4 \<Longrightarrow> p < 8 \<Longrightarrow> q * 8 + p < (32 :: nat)"
    by linarith+
  ultimately have "b0 div 8 < 32" "b0 mod 8 * 4 + b1 div 64 < 32" "b1 mod 2 * 16 + b2 div 16 < 32"
    "b2 mod 16 * 2 + b3 div 128 < 32" "b3 mod 4 * 8 + b4 div 32 < 32"
    by blast+
  moreover have "b1 div 2 mod 32 < 32" "b3 div 4 mod 32 < 32" "b4 mod 32 < 32" by simp_all
  ultimately have "list_all (\<lambda>v. v < 32) (b32_digits b0 b1 b2 b3 b4)"
    unfolding b32_digits_def by (intro list.pred_inject(2) [THEN iffD2] conjI list.pred_inject(1))
  then show ?thesis
    by (simp only: list_all_iff)
qed

lemma b32_values_less: "\<forall>b \<in> set bs. b < 256 \<Longrightarrow> \<forall>v \<in> set (b32_values bs). v < 32"
proof (induction bs rule: b32_values.induct)
  case (2 a)
  then show ?case using b32_digits_less [of a 0 0 0 0] by (auto dest!: in_set_takeD)
next
  case (3 a b)
  then show ?case using b32_digits_less [of a b 0 0 0] by (auto dest!: in_set_takeD)
next
  case (4 a b c)
  then show ?case using b32_digits_less [of a b c 0 0] by (auto dest!: in_set_takeD)
next
  case (5 a b c d)
  then show ?case using b32_digits_less [of a b c d 0] by (auto dest!: in_set_takeD)
next
  case (6 a b c d e r)
  then show ?case using b32_digits_less [of a b c d e] by auto
qed simp

lemma div_add_small:
  "y < 4 \<Longrightarrow> (x * 4 + y) div 4 = (x :: nat)"
  "y < 16 \<Longrightarrow> (x * 16 + y) div 16 = (x :: nat)"
  "y < 2 \<Longrightarrow> (x * 2 + y) div 2 = (x :: nat)"
  "y < 8 \<Longrightarrow> (x * 8 + y) div 8 = (x :: nat)"
  by simp_all

lemma b32_byte0: "\<lbrakk>a < 256; b < 256\<rbrakk> \<Longrightarrow> (a div 8 * 8 + (a mod 8 * 4 + b div 64) div 4) mod 256 = (a :: nat)"
proof -
  assume "a < 256" "b < 256"
  moreover have "(a mod 8 * 4 + b div 64) div 4 = a mod 8"
    using \<open>b < 256\<close> by (intro div_add_small) (simp add: div_less_iff_less_mult)
  ultimately show ?thesis by simp
qed

lemma b32_byte1:
  "\<lbrakk>b < 256; c < 256\<rbrakk> \<Longrightarrow>
   ((a mod 8 * 4 + b div 64) * 64 + b div 2 mod 32 * 2 + (b mod 2 * 16 + c div 16) div 16) mod 256 = (b :: nat)"
proof -
  assume bc: "b < 256" "c < 256"
  have "(b mod 2 * 16 + c div 16) div 16 = b mod 2"
    using bc by (intro div_add_small) (simp add: div_less_iff_less_mult)
  moreover have "b div 64 = b div 2 div 32" by (simp add: div_mult2_eq [of b 2 32, symmetric])
  then have "b div 64 * 64 + b div 2 mod 32 * 2 + b mod 2 = b"
    using div_mult_mod_eq [of "b div 2" 32] div_mult_mod_eq [of b 2] by linarith
  then have "(a mod 8 * 4 + b div 64) * 64 + b div 2 mod 32 * 2 + b mod 2 = b + a mod 8 * 256"
    by (simp only: add_mult_distrib mult.assoc)
  ultimately show ?thesis using bc by (simp only: mod_mult_self1 mod_less)
qed

lemma b32_byte2:
  "\<lbrakk>c < 256; d < 256\<rbrakk> \<Longrightarrow>
   ((b mod 2 * 16 + c div 16) * 16 + (c mod 16 * 2 + d div 128) div 2) mod 256 = (c :: nat)"
proof -
  assume cd: "c < 256" "d < 256"
  have "(c mod 16 * 2 + d div 128) div 2 = c mod 16"
    using cd by (intro div_add_small) (simp add: div_less_iff_less_mult)
  moreover have "(b mod 2 * 16 + c div 16) * 16 + c mod 16 = c + b mod 2 * 256"
    using div_mult_mod_eq [of c 16] by simp
  ultimately show ?thesis using cd by simp
qed

lemma b32_byte3:
  "\<lbrakk>d < 256; e < 256\<rbrakk> \<Longrightarrow>
   ((c mod 16 * 2 + d div 128) * 128 + d div 4 mod 32 * 4 + (d mod 4 * 8 + e div 32) div 8) mod 256 = (d :: nat)"
proof -
  assume de: "d < 256" "e < 256"
  have "(d mod 4 * 8 + e div 32) div 8 = d mod 4"
    using de by (intro div_add_small) (simp add: div_less_iff_less_mult)
  moreover have "d div 128 = d div 4 div 32" by (simp add: div_mult2_eq [of d 4 32, symmetric])
  then have "d div 128 * 128 + d div 4 mod 32 * 4 + d mod 4 = d"
    using div_mult_mod_eq [of "d div 4" 32] div_mult_mod_eq [of d 4] by linarith
  then have "(c mod 16 * 2 + d div 128) * 128 + d div 4 mod 32 * 4 + d mod 4 = d + c mod 16 * 256"
    by (simp only: add_mult_distrib mult.assoc)
  ultimately show ?thesis using de by (simp only: mod_mult_self1 mod_less)
qed

lemma b32_byte4: "e < 256 \<Longrightarrow> ((d mod 4 * 8 + e div 32) * 32 + e mod 32) mod 256 = (e :: nat)"
proof -
  assume e: "e < 256"
  have "(d mod 4 * 8 + e div 32) * 32 + e mod 32 = e + d mod 4 * 256"
    using div_mult_mod_eq [of e 32] by simp
  then show ?thesis using e by simp
qed

lemma b32_octets_digits:
  "\<lbrakk>a < 256; b < 256; c < 256; d < 256; e < 256\<rbrakk> \<Longrightarrow>
     b32_octets (b32_digits a b c d e) = [a, b, c, d, e]"
  by (simp only: b32_digits_def b32_octets.simps b32_byte0 b32_byte1 b32_byte2 b32_byte3 b32_byte4)

lemma b32_bytes_partial:
  assumes "n \<in> {2, 4, 5, 7}" and "drop n ds = replicate (8 - n) 0" and "length ds = 8"
  shows "b32_bytes (take n ds) = take (b32_count n) (b32_octets ds)"
proof -
  have "length (take n ds) = n" using assms by auto
  moreover have "take n ds @ replicate (8 - n) 0 = ds"
    using assms(2) by (metis append_take_drop_id)
  ultimately show ?thesis by (simp add: b32_bytes_def)
qed

lemma b32_quanta_short: "length ds < 8 \<Longrightarrow> b32_quanta ds = b32_bytes ds"
  by (cases ds rule: b32_quanta.cases) simp_all

lemma length_b32_digits [simp]: "length (b32_digits a b c d e) = 8"
  by (simp add: b32_digits_def)

lemma length_b32_octets: "length (b32_octets ds) \<le> 5"
  by (cases ds rule: b32_octets.cases) simp_all

lemma b32_bytes_full: "length ds = 8 \<Longrightarrow> b32_bytes ds = b32_octets ds"
  using length_b32_octets [of ds] by (simp add: b32_bytes_def b32_count_def)

lemma b32_quanta_digits:
  "b32_quanta (b32_digits a b c d e @ r) = b32_octets (b32_digits a b c d e) @ b32_quanta r"
proof -
  have "b32_quanta (b32_digits a b c d e @ r) = b32_bytes (b32_digits a b c d e) @ b32_quanta r"
    by (simp only: b32_digits_def append.simps b32_quanta.simps)
  then show ?thesis by (simp add: b32_bytes_full)
qed

lemma b32_quanta_partial:
  assumes "n \<in> {2, 4, 5, 7}" and "drop n (b32_digits a b c d e) = replicate (8 - n) 0"
    and "a < 256" "b < 256" "c < 256" "d < 256" "e < 256"
  shows "b32_quanta (take n (b32_digits a b c d e)) = take (b32_count n) [a, b, c, d, e]"
proof -
  have "length (take n (b32_digits a b c d e)) < 8" using assms(1) by auto
  then show ?thesis
    using assms b32_bytes_partial [OF assms(1,2)] by (simp add: b32_quanta_short b32_octets_digits)
qed

lemma zeros:
  "replicate 6 (0 :: nat) = [0, 0, 0, 0, 0, 0]" "replicate 4 (0 :: nat) = [0, 0, 0, 0]"
  "replicate 3 (0 :: nat) = [0, 0, 0]" "replicate 1 (0 :: nat) = [0]"
  by (simp_all add: numeral_eq_Suc)

lemma b32_quanta_values: "\<forall>b \<in> set bs. b < 256 \<Longrightarrow> b32_quanta (b32_values bs) = bs"
proof (induction bs rule: b32_values.induct)
  case 1
  show ?case by (simp add: b32_bytes_def b32_count_def)
next
  case (2 a)
  have "drop 2 (b32_digits a 0 0 0 0) = replicate (8 - 2) 0"
    by (simp add: b32_digits_def zeros)
  then show ?case
    using 2 b32_quanta_partial [of 2 a 0 0 0 0] by (simp add: b32_count_def)
next
  case (3 a b)
  have "drop 4 (b32_digits a b 0 0 0) = replicate (8 - 4) 0"
    by (simp add: b32_digits_def zeros)
  then show ?case
    using 3 b32_quanta_partial [of 4 a b 0 0 0] by (simp add: b32_count_def)
next
  case (4 a b c)
  have "drop 5 (b32_digits a b c 0 0) = replicate (8 - 5) 0"
    by (simp add: b32_digits_def zeros)
  then show ?case
    using 4 b32_quanta_partial [of 5 a b c 0 0] by (simp add: b32_count_def)
next
  case (5 a b c d)
  have "drop 7 (b32_digits a b c d 0) = replicate (8 - 7) 0"
    by (simp add: b32_digits_def zeros)
  then show ?case
    using 5 b32_quanta_partial [of 7 a b c d 0] by (simp add: b32_count_def)
next
  case (6 a b c d e r)
  then show ?case
    by (simp add: b32_quanta_digits b32_octets_digits)
qed

lemma b32_symbol_tag_char: "v < 32 \<Longrightarrow> tag_char (b32_symbol v)"
  by (auto simp: tag_char_def b32_symbol_def is_space_def)

lemma b32_encode_tag_char: "c \<in> set (b32_encode s) \<Longrightarrow> tag_char c"
  using b32_values_less [of "map of_char s"]
  by (auto simp: b32_encode_def intro: b32_symbol_tag_char)

lemma b32_decode_encode: "b32_decode (b32_encode s) = Some s"
proof -
  define vs where "vs = b32_values (map of_char s)"
  have vs: "\<forall>v \<in> set vs. v < 32"
    unfolding vs_def by (rule b32_values_less) simp
  have "tag_char c \<Longrightarrow> c \<noteq> CHR 0x0A \<and> c \<noteq> CHR 0x0D" for c
    by (auto simp: tag_char_def is_space_def)
  then have "\<forall>c \<in> set (map b32_symbol vs). c \<noteq> CHR 0x0A \<and> c \<noteq> CHR 0x0D"
    using vs b32_symbol_tag_char by simp
  then have "filter (\<lambda>c. c \<noteq> CHR 0x0A \<and> c \<noteq> CHR 0x0D) (map b32_symbol vs) = map b32_symbol vs"
    by (simp only: filter_True)
  moreover have "map b32_value (map b32_symbol vs) = map Some vs"
    using vs by simp
  moreover have "None \<notin> set (map Some vs)" "map the (map Some vs) = vs"
    by (simp_all add: image_iff comp_def)
  ultimately have "b32_decode (b32_encode s) = Some (map char_of (b32_quanta vs))"
    unfolding b32_decode_def b32_encode_def vs_def [symmetric] Let_def by (simp only: if_False)
  also have "b32_quanta vs = map of_char s"
    unfolding vs_def by (rule b32_quanta_values) simp
  finally show ?thesis by (simp add: comp_def)
qed

lemma b32_values_length: "5 * length (b32_values bs) \<le> 8 * length bs + 4"
  by (induction bs rule: b32_values.induct) simp_all

interpretation name_enc: name_codec b32_encode b32_decode
proof
  show "b32_decode (b32_encode s) = Some s" for s by (rule b32_decode_encode)
  show "c \<in> set (b32_encode s) \<Longrightarrow> tag_char c" for c s by (rule b32_encode_tag_char)
  show "5 * length (b32_encode s) \<le> 8 * length s + 4" for s
    using b32_values_length [of "map of_char s"] by (simp add: b32_encode_def)
  show "b32_encode [] = []" by (simp add: b32_encode_def)
qed

end
