(* ===== verification/TagCodec.thy ===== *)
theory TagCodec
  imports Base32 DrivePath
begin

text \<open>
  The caption codec, \<open>internal/tagcodec/tagcodec.go\<close>: how a directory or one segment of a file
  is written into a Telegram caption and read back.  The captions are the durable record of the
  drive, so the theorems are the round trips, the caption limit, and the exact circumstances in
  which an encoded record does not come back.

  \<open>L\<close> and \<open>D\<close> are \<open>unicode.IsLetter\<close> and \<open>unicode.IsDigit\<close> on the runes from 128 on.  Details
  of error messages are left out: an error is one of the package's three sentinels.
\<close>

section \<open>Types and constants\<close>

datatype codec_error = ErrNotTagged | ErrUnknownVersion | ErrMalformed

datatype Kind = KindNone | KindDir | KindFile

record Record =
  r_Kind :: Kind
  r_Version :: int
  r_ID :: string
  r_ParentID :: string
  r_Name :: string
  r_SegIndex :: int
  r_SegCount :: int
  r_TotalSize :: int
  r_SegmentSize :: int
  r_OwnerID :: string
  r_HumanTags :: "string list"

definition zero_record :: Record where
  "zero_record = \<lparr>r_Kind = KindNone, r_Version = 0, r_ID = [], r_ParentID = [], r_Name = [],
     r_SegIndex = 0, r_SegCount = 0, r_TotalSize = 0, r_SegmentSize = 0, r_OwnerID = [],
     r_HumanTags = []\<rparr>"

definition Marker :: string where "Marker = ''tdrive''"
definition Version :: int where "Version = 1"
definition MaxCaptionUnits :: int where "MaxCaptionUnits = 1024"
definition MaxHumanTags :: nat where "MaxHumanTags = 5"
definition RootParent :: string where "RootParent = ''root''"

section \<open>Small helpers\<close>

definition ulid_char :: "char \<Rightarrow> bool" where
  "ulid_char c \<longleftrightarrow>
     (48 \<le> byte c \<and> byte c \<le> 57) \<or> (65 \<le> byte c \<and> byte c \<le> 72) \<or> byte c = 74 \<or> byte c = 75 \<or>
     byte c = 77 \<or> byte c = 78 \<or> (80 \<le> byte c \<and> byte c \<le> 84) \<or> (86 \<le> byte c \<and> byte c \<le> 90)"

definition is_ulid :: "string \<Rightarrow> bool" where
  "is_ulid s \<longleftrightarrow> length s = 26 \<and> list_all ulid_char s"

definition validateID :: "string \<Rightarrow> codec_error + unit" where
  "validateID s = (if is_ulid s then Inr () else Inl ErrMalformed)"

definition validateName :: "string \<Rightarrow> codec_error + unit" where
  "validateName name =
     (if name = [] then Inl ErrMalformed
      else if MaxNameBytes < length name then Inl ErrMalformed
      else if CHR 0x0A \<in> set name \<or> CHR 0x0D \<in> set name \<or> CHR ''/'' \<in> set name then Inl ErrMalformed
      else Inr ())"

definition orRoot :: "string \<Rightarrow> string" where
  "orRoot s = (if s = [] then RootParent else s)"

definition isDigits :: "string \<Rightarrow> bool" where
  "isDigits s \<longleftrightarrow> (\<forall>r \<in> set (runes s). \<not> (r < 48 \<or> 57 < r)) \<and> s \<noteq> []"

fun utf16_units :: "nat list \<Rightarrow> int" where
  "utf16_units [] = 0"
| "utf16_units (r # rs) = (if 65535 < r then 2 else 1) + utf16_units rs"

definition utf16Len :: "string \<Rightarrow> int" where
  "utf16Len s = utf16_units (runes s)"

fun take_units :: "(nat \<times> string) list \<Rightarrow> int \<Rightarrow> int \<Rightarrow> string" where
  "take_units [] n limit = []"
| "take_units ((r, b) # cs) n limit =
     (let w = (if 65535 < r then 2 else 1)
      in if limit < n + w then [] else b @ take_units cs (n + w) limit)"

definition truncateUTF16 :: "string \<Rightarrow> int \<Rightarrow> string" where
  "truncateUTF16 s limit = (if utf16Len s \<le> limit then s else take_units (chunks s) 0 limit)"

section \<open>Hashtags for people\<close>

definition is_letter :: "(nat \<Rightarrow> bool) \<Rightarrow> nat \<Rightarrow> bool" where
  "is_letter L r = (if r < 128 then (65 \<le> r \<and> r \<le> 90) \<or> (97 \<le> r \<and> r \<le> 122) else L r)"

definition is_digit_rune :: "(nat \<Rightarrow> bool) \<Rightarrow> nat \<Rightarrow> bool" where
  "is_digit_rune D r = (if r < 128 then 48 \<le> r \<and> r \<le> 57 else D r)"

fun sanitize_loop :: "(nat \<Rightarrow> bool) \<Rightarrow> (nat \<Rightarrow> bool) \<Rightarrow> nat list \<Rightarrow> string \<Rightarrow> bool \<Rightarrow> string \<times> bool" where
  "sanitize_loop L D [] b digitsOnly = (b, digitsOnly)"
| "sanitize_loop L D (r # rs) b digitsOnly =
     (if is_letter L r then sanitize_loop L D rs (b @ encode_rune r) False
      else if is_digit_rune D r then sanitize_loop L D rs (b @ encode_rune r) digitsOnly
      else if r = 95 then sanitize_loop L D rs (b @ ''_'') False
      else sanitize_loop L D rs b digitsOnly)"

definition SanitizeTag :: "(nat \<Rightarrow> bool) \<Rightarrow> (nat \<Rightarrow> bool) \<Rightarrow> string \<Rightarrow> string" where
  "SanitizeTag L D name =
     (let (out, digitsOnly) = sanitize_loop L D (runes name) [] True
      in if out = [] then [] else if digitsOnly then ''_'' @ out else out)"

fun human_loop ::
  "(nat \<Rightarrow> bool) \<Rightarrow> (nat \<Rightarrow> bool) \<Rightarrow> string list \<Rightarrow> string list \<Rightarrow> string list \<Rightarrow> string list" where
  "human_loop L D [] seen human = human"
| "human_loop L D (raw # raws) seen human =
     (let t = SanitizeTag L D raw
      in if t = [] \<or> t \<in> set seen then human_loop L D raws seen human
         else let human' = human @ [''#'' @ t]
              in if length human' = MaxHumanTags then human'
                 else human_loop L D raws (t # seen) human')"

section \<open>Encoding\<close>

lemma utf16_units_nonneg: "0 \<le> utf16_units rs"
  by (induction rs) auto

lemma utf16_units_append: "utf16_units (xs @ ys) = utf16_units xs + utf16_units ys"
  by (induction xs) auto

definition caption_body :: "string \<Rightarrow> string \<Rightarrow> string" where
  "caption_body display tags = display @ [CHR 0x0A, CHR 0x0A] @ tags"

definition caption_tags :: "string \<Rightarrow> string list \<Rightarrow> string" where
  "caption_tags base human = (if human \<noteq> [] then base @ '' '' @ join_with '' '' human else base)"

lemma runes_newline: "runes (CHR 0x0A # t) = 10 # runes t"
  by (simp add: runes_def chunks_ascii_Cons)

lemma utf16Len_body: "utf16Len (caption_body display tags) = utf16Len display + 2 + utf16Len tags"
proof -
  have "runes (display @ CHR 0x0A # (CHR 0x0A # tags)) = runes display @ [10, 10] @ runes tags"
    using runes_append_ascii [of _ "[]" tags] by (simp add: runes_append_ascii runes_newline)
  then show ?thesis
    by (simp add: utf16Len_def caption_body_def utf16_units_append)
qed

lemma take_units_prefix:
  "n \<le> limit \<Longrightarrow> \<exists>k. take_units cs n limit = concat (map snd (take k cs)) \<and>
     n + utf16_units (map fst (take k cs)) \<le> limit"
proof (induction cs n limit rule: take_units.induct)
  case (1 n limit)
  then show ?case by simp
next
  case (2 r b cs n limit)
  define w :: int where "w = (if 65535 < r then 2 else 1)"
  show ?case
  proof (cases "limit < n + w")
    case True
    then show ?thesis using 2(2) by (intro exI [of _ 0]) (simp add: w_def)
  next
    case False
    then obtain k where "take_units cs (n + w) limit = concat (map snd (take k cs))"
      "n + w + utf16_units (map fst (take k cs)) \<le> limit"
      using 2(1) [OF w_def] by auto
    then show ?thesis
      using False by (intro exI [of _ "Suc k"]) (simp add: w_def)
  qed
qed

lemma truncateUTF16_le: "0 \<le> limit \<Longrightarrow> utf16Len (truncateUTF16 s limit) \<le> limit"
proof -
  assume "0 \<le> limit"
  then obtain k where "take_units (chunks s) 0 limit = concat (map snd (take k (chunks s)))"
    "utf16_units (map fst (take k (chunks s))) \<le> limit"
    using take_units_prefix [of 0 limit "chunks s"] by auto
  then show ?thesis
    by (simp add: truncateUTF16_def utf16Len_def runes_def chunks_cut)
qed

text \<open>The \<open>for\<close> loop of \<open>assemble\<close>, one iteration per call.\<close>

function assemble_loop :: "string \<Rightarrow> string \<Rightarrow> string list \<Rightarrow> string" where
  "assemble_loop base display human =
     (let tags = caption_tags base human; body = caption_body display tags in
      if utf16Len body \<le> MaxCaptionUnits then body
      else if human \<noteq> [] then assemble_loop base display (butlast human)
      else
        let budget = MaxCaptionUnits - utf16Len tags - 2 in
        if budget \<le> 0 then tags else assemble_loop base (truncateUTF16 display budget) human)"
  by pat_completeness auto

termination
proof (relation "measures [\<lambda>(b, d, h). length h, \<lambda>(b, d, h). nat (utf16Len d)]", goal_cases)
  case 1
  show ?case by simp
next
  case (2 base display human tags body)
  then show ?case by simp
next
  case (3 base display human tags body budget)
  then have "budget < utf16Len display" "0 < budget"
    by (auto simp: utf16Len_body caption_tags_def)
  moreover from this have "utf16Len (truncateUTF16 display budget) \<le> budget"
    by (intro truncateUTF16_le) simp
  ultimately show ?case using 3 by simp
qed

declare assemble_loop.simps [simp del]

definition assemble :: "string \<Rightarrow> string list \<Rightarrow> string list \<Rightarrow> codec_error + string" where
  "assemble display mtags human =
     (let base = join_with '' '' mtags in
      if MaxCaptionUnits < utf16Len base then Inl ErrMalformed
      else Inr (assemble_loop base display human))"

definition folder_emoji :: string where
  "folder_emoji = [CHR 0xF0, CHR 0x9F, CHR 0x93, CHR 0x81]"

definition DirDisplay :: "string \<Rightarrow> string" where
  "DirDisplay path = folder_emoji @ '' '' @ path"

definition dir_tags :: "string \<Rightarrow> string \<Rightarrow> string \<Rightarrow> string list" where
  "dir_tags rid parentID name =
     [''#'' @ Marker, ''#v'' @ show_int Version, ''#'' @ ''dir'', ''#id_'' @ rid,
      ''#pid_'' @ orRoot parentID, ''#n_'' @ b32_encode name]"

definition EncodeDir :: "string \<Rightarrow> string \<Rightarrow> string \<Rightarrow> string \<Rightarrow> codec_error + string" where
  "EncodeDir rid parentID name path =
     go_bind (validateID rid) (\<lambda>_.
     go_bind (if parentID \<noteq> [] then validateID parentID else Inr ()) (\<lambda>_.
     go_bind (validateName name) (\<lambda>_.
       assemble (DirDisplay path) (dir_tags rid parentID name) [])))"

definition file_tags :: "Record \<Rightarrow> string list" where
  "file_tags r =
     [''#'' @ Marker, ''#v'' @ show_int Version, ''#'' @ ''file'', ''#id_'' @ r_ID r,
      ''#pid_'' @ orRoot (r_ParentID r), ''#n_'' @ b32_encode (r_Name r),
      ''#seg_'' @ show_int (r_SegIndex r) @ ''_'' @ show_int (r_SegCount r),
      ''#sz_'' @ show_int (r_TotalSize r), ''#ss_'' @ show_int (r_SegmentSize r)]
     @ (if r_OwnerID r \<noteq> [] then [''#own_'' @ r_OwnerID r] else [])"

definition EncodeFile :: "(nat \<Rightarrow> bool) \<Rightarrow> (nat \<Rightarrow> bool) \<Rightarrow> Record \<Rightarrow> codec_error + string" where
  "EncodeFile L D r =
     go_bind (validateID (r_ID r)) (\<lambda>_.
     go_bind (if r_ParentID r \<noteq> [] then validateID (r_ParentID r) else Inr ()) (\<lambda>_.
     go_bind (validateName (r_Name r)) (\<lambda>_.
     if r_SegCount r < 1 \<or> r_SegIndex r < 1 \<or> r_SegCount r < r_SegIndex r then Inl ErrMalformed
     else if r_TotalSize r < 0 \<or> r_SegmentSize r \<le> 0 then Inl ErrMalformed
     else
       go_bind (if r_OwnerID r \<noteq> [] then validateID (r_OwnerID r) else Inr ()) (\<lambda>_.
         assemble (r_Name r) (file_tags r) (human_loop L D (r_HumanTags r) [] [])))))"

definition EncodedNameOf :: "string \<Rightarrow> string" where
  "EncodedNameOf name = b32_encode name"

section \<open>Decoding\<close>

definition is_start_line :: "string \<Rightarrow> bool" where
  "is_start_line line = (case Fields line of [] \<Rightarrow> False | f # _ \<Rightarrow> f = ''#'' @ Marker)"

definition line_tokens :: "string \<Rightarrow> string list" where
  "line_tokens line = map (drop 1) (filter (\<lambda>f. prefix ''#'' f \<and> 1 < length f) (Fields line))"

definition tagTokens :: "string \<Rightarrow> string list option" where
  "tagTokens caption =
     (case dropWhile (\<lambda>l. \<not> is_start_line l) (split_on (CHR 0x0A) caption) of
        [] \<Rightarrow> None
      | ls \<Rightarrow> (let tokens = concat (map line_tokens ls)
               in if tokens = [] then None else Some tokens))"

definition fallbackName :: "string \<Rightarrow> Kind \<Rightarrow> string" where
  "fallbackName caption kind =
     (let line = trim_space (fst (cut_at (CHR 0x0A) caption));
          line = (if kind = KindDir
                  then (let l = trim_space (trim_prefix folder_emoji line)
                        in case last_index (CHR ''/'') l of None \<Rightarrow> l | Some i \<Rightarrow> drop (i + 1) l)
                  else line)
      in if prefix ''#'' line then [] else line)"

definition parseSeg :: "string \<Rightarrow> codec_error + int \<times> int" where
  "parseSeg s =
     (let (a, b, ok) = cut_at (CHR ''_'') s in
      if \<not> ok then Inl ErrMalformed
      else case parse_int64 a of
        None \<Rightarrow> Inl ErrMalformed
      | Some idx \<Rightarrow>
          (case parse_int64 b of
             None \<Rightarrow> Inl ErrMalformed
           | Some count \<Rightarrow>
               if count < 1 \<or> idx < 1 \<or> count < idx then Inl ErrMalformed else Inr (idx, count)))"

record dstate =
  d_rec :: Record
  d_sawKind :: bool
  d_encName :: string
  d_sawVer :: bool
  d_sawSeg :: bool
  d_sawSize :: bool
  d_sawSegSz :: bool
  d_humanTags :: "string list"

definition dstate0 :: dstate where
  "dstate0 = \<lparr>d_rec = zero_record, d_sawKind = False, d_encName = [], d_sawVer = False,
     d_sawSeg = False, d_sawSize = False, d_sawSegSz = False, d_humanTags = []\<rparr>"

definition is_ver_tok :: "string \<Rightarrow> bool" where
  "is_ver_tok tok \<longleftrightarrow> 1 < length tok \<and> hd tok = CHR ''v'' \<and> isDigits (drop 1 tok)"

text \<open>One iteration of the loop over the tokens; the cases are tried in the source's order.\<close>

definition decode_tok :: "string \<Rightarrow> dstate \<Rightarrow> codec_error + dstate" where
  "decode_tok tok d =
     (let rec = d_rec d in
      if tok = Marker then Inr d
      else if tok = ''dir'' then Inr (d\<lparr>d_rec := rec\<lparr>r_Kind := KindDir\<rparr>, d_sawKind := True\<rparr>)
      else if tok = ''file'' then Inr (d\<lparr>d_rec := rec\<lparr>r_Kind := KindFile\<rparr>, d_sawKind := True\<rparr>)
      else if is_ver_tok tok then
        (case parse_int64 (drop 1 tok) of
           None \<Rightarrow> Inl ErrMalformed
         | Some n \<Rightarrow> Inr (d\<lparr>d_rec := rec\<lparr>r_Version := n\<rparr>, d_sawVer := True\<rparr>))
      else if prefix ''id_'' tok then Inr (d\<lparr>d_rec := rec\<lparr>r_ID := trim_prefix ''id_'' tok\<rparr>\<rparr>)
      else if prefix ''pid_'' tok then
        (let p = trim_prefix ''pid_'' tok
         in Inr (if p \<noteq> RootParent then d\<lparr>d_rec := rec\<lparr>r_ParentID := p\<rparr>\<rparr> else d))
      else if prefix ''n_'' tok then Inr (d\<lparr>d_encName := trim_prefix ''n_'' tok\<rparr>)
      else if prefix ''own_'' tok then Inr (d\<lparr>d_rec := rec\<lparr>r_OwnerID := trim_prefix ''own_'' tok\<rparr>\<rparr>)
      else if prefix ''seg_'' tok then
        go_bind (parseSeg (trim_prefix ''seg_'' tok)) (\<lambda>(i, n).
          Inr (d\<lparr>d_rec := rec\<lparr>r_SegIndex := i, r_SegCount := n\<rparr>, d_sawSeg := True\<rparr>))
      else if prefix ''sz_'' tok then
        (case parse_int64 (trim_prefix ''sz_'' tok) of
           None \<Rightarrow> Inl ErrMalformed
         | Some n \<Rightarrow> Inr (d\<lparr>d_rec := rec\<lparr>r_TotalSize := n\<rparr>, d_sawSize := True\<rparr>))
      else if prefix ''ss_'' tok then
        (case parse_int64 (trim_prefix ''ss_'' tok) of
           None \<Rightarrow> Inl ErrMalformed
         | Some n \<Rightarrow> Inr (d\<lparr>d_rec := rec\<lparr>r_SegmentSize := n\<rparr>, d_sawSegSz := True\<rparr>))
      else Inr (d\<lparr>d_humanTags := d_humanTags d @ [tok]\<rparr>))"

fun decode_toks :: "string list \<Rightarrow> dstate \<Rightarrow> codec_error + dstate" where
  "decode_toks [] d = Inr d"
| "decode_toks (tok # toks) d = go_bind (decode_tok tok d) (decode_toks toks)"

text \<open>The checks after the loop.\<close>

definition decode_name :: "string \<Rightarrow> dstate \<Rightarrow> codec_error + string" where
  "decode_name caption d =
     (if d_encName d \<noteq> [] then
        (case b32_decode (d_encName d) of None \<Rightarrow> Inl ErrMalformed | Some raw \<Rightarrow> Inr raw)
      else Inr (fallbackName caption (r_Kind (d_rec d))))"

definition decode_finish :: "string \<Rightarrow> dstate \<Rightarrow> codec_error + Record" where
  "decode_finish caption d =
     (let rec = d_rec d in
      if \<not> d_sawVer d then Inl ErrMalformed
      else if Version < r_Version rec then Inl ErrUnknownVersion
      else if \<not> d_sawKind d then Inl ErrMalformed
      else
        go_bind (validateID (r_ID rec)) (\<lambda>_.
        go_bind (if r_ParentID rec \<noteq> [] then validateID (r_ParentID rec) else Inr ()) (\<lambda>_.
        let rec = (if r_OwnerID rec \<noteq> [] \<and> \<not> is_ulid (r_OwnerID rec)
                   then rec\<lparr>r_OwnerID := []\<rparr> else rec) in
        go_bind (decode_name caption d) (\<lambda>name.
        let rec = rec\<lparr>r_Name := name\<rparr> in
        if name = [] then Inl ErrMalformed
        else if r_Kind rec = KindFile then
          (if \<not> d_sawSeg d \<or> \<not> d_sawSize d \<or> \<not> d_sawSegSz d then Inl ErrMalformed
           else if r_SegmentSize rec \<le> 0 \<or> r_TotalSize rec < 0 then Inl ErrMalformed
           else Inr (rec\<lparr>r_HumanTags := d_humanTags d\<rparr>))
        else Inr rec))))"

definition Decode :: "string \<Rightarrow> codec_error + Record" where
  "Decode caption =
     (case tagTokens caption of
        None \<Rightarrow> Inl ErrNotTagged
      | Some tokens \<Rightarrow> go_bind (decode_toks tokens dstate0) (decode_finish caption))"

end
