(* ===== verification/TagRoundTrip.thy ===== *)
theory TagRoundTrip
  imports TagCodec
begin

text \<open>
  What survives a caption: the round trips of \<open>EncodeFile\<close> and \<open>EncodeDir\<close> through \<open>Decode\<close>,
  the caption limit, and the inputs for which the round trip fails.
\<close>

section \<open>Caption lengths\<close>

lemma wide_rune_width:
  assumes "65535 < fst (decode_rune s)"
  shows "snd (decode_rune s) = 4"
proof (cases s)
  case Nil
  then show ?thesis using assms by (simp add: rune_error_def)
next
  case (Cons c cs)
  have d2: "fst (decode2 b ds) \<le> 65535" if "b \<le> 223" for b ds
  proof -
    have "(b - 192) * 64 + low6 x \<le> 65535" for x
      using that low6_le [of x] by linarith
    then show ?thesis by (auto simp: decode2_def rune_error_def split: list.split)
  qed
  have d3: "fst (decode3 b ds) \<le> 65535" if "b \<le> 239" for b ds
  proof -
    have "(b - 224) * 4096 + low6 x * 64 + low6 y \<le> 65535" for x y
      using that low6_le [of x] low6_le [of y] by linarith
    then show ?thesis by (auto simp: decode3_def rune_error_def split: list.split)
  qed
  have d4: "snd (decode4 b ds) = 4" if "65535 < fst (decode4 b ds)" for b ds
    using that by (auto simp: decode4_def rune_error_def split: list.split_asm if_split_asm)
  show ?thesis
    using assms d2 [of "byte c" cs] d3 [of "byte c" cs] d4 [of "byte c" cs]
    by (auto simp: Cons decode_rune.simps(2) Let_def rune_error_def split: if_split_asm)
qed

lemma utf16Len_le_length: "utf16Len s \<le> int (length s)"
proof (induction s rule: chunks.induct)
  case (1 s)
  show ?case
  proof (cases "s = []")
    case True
    then show ?thesis by (simp add: utf16Len_def runes_def)
  next
    case False
    define w where "w = snd (decode_rune s)"
    have w: "1 \<le> w" "w \<le> length s"
      using decode_rune_width [OF False] by (simp_all add: w_def)
    have "utf16Len s = (if 65535 < fst (decode_rune s) then 2 else 1) + utf16Len (drop w s)"
      using False by (simp add: utf16Len_def runes_def chunks_nonempty w_def)
    also have "\<dots> \<le> int w + utf16Len (drop w s)"
      using w wide_rune_width [of s] by (auto simp: w_def)
    also have "\<dots> \<le> int (length s)"
      using 1 False w by (simp add: w_def)
    finally show ?thesis .
  qed
qed

lemma length_show_nat: "n < 10 ^ k \<Longrightarrow> 0 < k \<Longrightarrow> length (show_nat n) \<le> k"
proof (induction k arbitrary: n)
  case (Suc k)
  show ?case
  proof (cases "n < 10")
    case True
    then show ?thesis by (subst show_nat.simps) simp
  next
    case False
    then have "0 < k" using Suc.prems by (cases k) auto
    moreover have "n div 10 < 10 ^ k" using Suc.prems by (simp add: div_less_iff_less_mult)
    ultimately have "length (show_nat (n div 10)) \<le> k" by (rule Suc.IH [rotated])
    then show ?thesis using False by (subst show_nat.simps) simp
  qed
qed simp

lemma length_show_int: "\<lbrakk>0 \<le> i; in64 i\<rbrakk> \<Longrightarrow> length (show_int i) \<le> 19"
proof -
  assume "0 \<le> i" "in64 i"
  then have "nat i < 10 ^ 19" by (simp add: in64_def nat_less_iff)
  then show ?thesis using \<open>0 \<le> i\<close> by (simp add: show_int_def length_show_nat)
qed

lemma length_b32_encode: "5 * length (b32_encode s) \<le> 8 * length s + 4"
  by (rule name_enc.enc_length)

lemma validateID_Inr [simp]: "validateID s = Inr u \<longleftrightarrow> is_ulid s"
  by (simp add: validateID_def)

lemma is_ulid_length: "is_ulid s \<Longrightarrow> length s = 26"
  by (simp add: is_ulid_def)

lemma validateName_Inr [simp]:
  "validateName s = Inr u \<longleftrightarrow> s \<noteq> [] \<and> length s \<le> 255 \<and> CHR 0x0A \<notin> set s \<and> CHR 0x0D \<notin> set s
     \<and> CHR ''/'' \<notin> set s"
  by (auto simp: validateName_def MaxNameBytes_def)

text \<open>What \<open>EncodeFile\<close> has checked when it reaches \<open>assemble\<close>.\<close>

definition ok_ids :: "Record \<Rightarrow> bool" where
  "ok_ids r \<longleftrightarrow> is_ulid (r_ID r) \<and> (r_ParentID r \<noteq> [] \<longrightarrow> is_ulid (r_ParentID r))
     \<and> (r_OwnerID r \<noteq> [] \<longrightarrow> is_ulid (r_OwnerID r))"

definition ok_numbers :: "Record \<Rightarrow> bool" where
  "ok_numbers r \<longleftrightarrow> 1 \<le> r_SegIndex r \<and> r_SegIndex r \<le> r_SegCount r \<and> 0 \<le> r_TotalSize r
     \<and> 0 < r_SegmentSize r"

definition int64_fields :: "Record \<Rightarrow> bool" where
  "int64_fields r \<longleftrightarrow> in64 (r_SegIndex r) \<and> in64 (r_SegCount r) \<and> in64 (r_TotalSize r)
     \<and> in64 (r_SegmentSize r)"

lemma EncodeFile_Inr:
  "EncodeFile L D r = Inr cap \<longleftrightarrow>
     ok_ids r \<and> validateName (r_Name r) = Inr () \<and> ok_numbers r \<and>
     assemble (r_Name r) (file_tags r) (human_loop L D (r_HumanTags r) [] []) = Inr cap"
  by (auto simp: EncodeFile_def go_bind_eq_Inr ok_ids_def ok_numbers_def split: if_splits)

lemma orRoot_length: "(s \<noteq> [] \<longrightarrow> is_ulid s) \<Longrightarrow> length (orRoot s) \<le> 26"
  by (auto simp: orRoot_def RootParent_def is_ulid_def)

lemma show_Version: "show_int Version = ''1''"
  by code_simp

lemma length_join_with: "ws \<noteq> [] \<Longrightarrow>
   length (join_with '' '' ws) = sum_list (map length ws) + (length ws - 1)"
  by (induction "'' ''" ws rule: join_with.induct) auto

lemma length_file_base:
  assumes "ok_ids r" and "ok_numbers r" and "int64_fields r" and "length (r_Name r) \<le> 255"
  shows "length (join_with '' '' (file_tags r)) \<le> 617"
proof -
  have "length (show_int (r_SegIndex r)) \<le> 19" "length (show_int (r_SegCount r)) \<le> 19"
    "length (show_int (r_TotalSize r)) \<le> 19" "length (show_int (r_SegmentSize r)) \<le> 19"
    using assms by (auto simp: ok_numbers_def int64_fields_def intro!: length_show_int)
  moreover have "length (b32_encode (r_Name r)) \<le> 408"
    using length_b32_encode [of "r_Name r"] assms(4) by linarith
  moreover have "length (r_ID r) = 26" "length (orRoot (r_ParentID r)) \<le> 26"
    "r_OwnerID r \<noteq> [] \<Longrightarrow> length (r_OwnerID r) = 26"
    using assms(1) by (auto simp: ok_ids_def is_ulid_length intro: orRoot_length)
  ultimately show ?thesis
    by (subst length_join_with) (auto simp: file_tags_def Marker_def show_Version)
qed

lemma assemble_loop_fits:
  assumes "utf16Len display + 2 + utf16Len base \<le> 1024"
  shows "\<exists>k. assemble_loop base display human
           = caption_body display (caption_tags base (take k human))"
  using assms
proof (induction "length human" arbitrary: human)
  case 0
  then show ?case
    by (simp add: assemble_loop.simps [of _ _ "[]"] utf16Len_body caption_tags_def MaxCaptionUnits_def)
next
  case (Suc n)
  show ?case
  proof (cases "utf16Len (caption_body display (caption_tags base human)) \<le> MaxCaptionUnits")
    case True
    then show ?thesis
      by (intro exI [of _ "length human"]) (simp add: assemble_loop.simps [of _ _ human])
  next
    case False
    have "human \<noteq> []" using Suc(2) by auto
    moreover have "n = length (butlast human)" using Suc(2) by simp
    then obtain k where "assemble_loop base display (butlast human)
        = caption_body display (caption_tags base (take k (butlast human)))"
      using Suc(1) [of "butlast human"] Suc(3) by auto
    ultimately show ?thesis
      using False
      by (intro exI [of _ "min k (length human - 1)"])
         (simp add: assemble_loop.simps [of _ _ human] butlast_conv_take)
  qed
qed

lemma EncodeFile_shape:
  assumes "EncodeFile L D r = Inr cap" and "int64_fields r"
  obtains k where "cap = caption_body (r_Name r)
    (caption_tags (join_with '' '' (file_tags r)) (take k (human_loop L D (r_HumanTags r) [] [])))"
proof -
  have *: "ok_ids r" "ok_numbers r" "length (r_Name r) \<le> 255"
    "assemble (r_Name r) (file_tags r) (human_loop L D (r_HumanTags r) [] []) = Inr cap"
    using assms(1) by (auto simp: EncodeFile_Inr)
  have "utf16Len (join_with '' '' (file_tags r)) \<le> 617"
    using utf16Len_le_length [of "join_with '' '' (file_tags r)"]
      length_file_base [OF *(1,2) assms(2) *(3)] by linarith
  moreover have "utf16Len (r_Name r) \<le> 255"
    using utf16Len_le_length [of "r_Name r"] *(3) by linarith
  ultimately have "utf16Len (r_Name r) + 2 + utf16Len (join_with '' '' (file_tags r)) \<le> 1024"
    by linarith
  from assemble_loop_fits [OF this] *(4) that show thesis
    by (auto simp: assemble_def Let_def split: if_splits)
qed

text \<open>The loop ends within the limit, whatever it starts from, when the machine tags are.\<close>

lemma assemble_loop_limit:
  "utf16Len base \<le> MaxCaptionUnits \<Longrightarrow> utf16Len (assemble_loop base display human) \<le> MaxCaptionUnits"
proof (induction base display human rule: assemble_loop.induct)
  case (1 base display human)
  let ?tags = "caption_tags base human"
  let ?body = "caption_body display ?tags"
  show ?case
  proof (cases "utf16Len ?body \<le> MaxCaptionUnits")
    case True
    then show ?thesis by (simp add: assemble_loop.simps [of base display human])
  next
    case False
    have unf: "assemble_loop base display human =
       (if human \<noteq> [] then assemble_loop base display (butlast human)
        else if MaxCaptionUnits - utf16Len ?tags - 2 \<le> 0 then ?tags
        else assemble_loop base (truncateUTF16 display (MaxCaptionUnits - utf16Len ?tags - 2)) human)"
      using False by (subst assemble_loop.simps) (simp add: Let_def)
    show ?thesis
      unfolding unf using 1(1) [OF refl refl False] 1(2) [OF refl refl False _ refl] 1(3)
      by (auto simp: caption_tags_def)
  qed
qed

section \<open>Words and tokens\<close>

lemma solid_tag: "(\<And>c. c \<in> set s \<Longrightarrow> byte c < 128 \<and> \<not> is_space (byte c)) \<Longrightarrow> solid (CHR ''#'' # s)"
  by (rule solid_ascii) (auto simp: is_space_def)

lemma ulid_char_plain: "ulid_char c \<Longrightarrow> byte c < 128 \<and> \<not> is_space (byte c)"
  by (auto simp: ulid_char_def is_space_def)

lemma is_ulid_plain: "is_ulid s \<Longrightarrow> c \<in> set s \<Longrightarrow> byte c < 128 \<and> \<not> is_space (byte c)"
  by (auto simp: is_ulid_def list_all_iff intro!: ulid_char_plain)

lemma orRoot_plain:
  "(s \<noteq> [] \<longrightarrow> is_ulid s) \<Longrightarrow> c \<in> set (orRoot s) \<Longrightarrow> byte c < 128 \<and> \<not> is_space (byte c)"
  by (auto simp: orRoot_def RootParent_def is_space_def dest: is_ulid_plain split: if_splits)

lemma show_int_plain: "0 \<le> i \<Longrightarrow> c \<in> set (show_int i) \<Longrightarrow> byte c < 128 \<and> \<not> is_space (byte c)"
  by (drule (1) show_int_digits) (drule digit_facts, simp)

lemma b32_plain: "c \<in> set (b32_encode s) \<Longrightarrow> byte c < 128 \<and> \<not> is_space (byte c)"
  by (drule name_enc.enc_tag_char) (simp add: tag_char_def)

definition tag_word :: "string \<Rightarrow> bool" where
  "tag_word w \<longleftrightarrow> solid w \<and> prefix ''#'' w \<and> 1 < length w"

lemma tag_word_ascii:
  assumes "s \<noteq> []" and "\<And>c. c \<in> set s \<Longrightarrow> byte c < 128 \<and> \<not> is_space (byte c)"
  shows "tag_word (CHR ''#'' # s)"
  using assms by (auto simp: tag_word_def intro: solid_tag)

definition plain_str :: "string \<Rightarrow> bool" where
  "plain_str s \<longleftrightarrow> (\<forall>c \<in> set s. byte c < 128 \<and> \<not> is_space (byte c))"

lemma plain_str_simps [simp]:
  "plain_str []"
  "plain_str (c # s) \<longleftrightarrow> byte c < 128 \<and> \<not> is_space (byte c) \<and> plain_str s"
  "plain_str (s @ t) \<longleftrightarrow> plain_str s \<and> plain_str t"
  by (auto simp: plain_str_def)

lemma plain_str_parts [intro]:
  "is_ulid s \<Longrightarrow> plain_str s"
  "(s \<noteq> [] \<longrightarrow> is_ulid s) \<Longrightarrow> plain_str (orRoot s)"
  "0 \<le> i \<Longrightarrow> plain_str (show_int i)"
  "plain_str (b32_encode t)"
  using is_ulid_plain [of s] orRoot_plain [of s] show_int_plain [of i] b32_plain [of _ t]
  by (auto simp: plain_str_def)

lemma tag_word_plain: "s \<noteq> [] \<Longrightarrow> plain_str s \<Longrightarrow> tag_word (CHR ''#'' # s)"
  using tag_word_ascii [of s] by (simp add: plain_str_def)

text \<open>The spaces below 128, for the characters of the literal tags.\<close>

lemma is_space_low: "r < 128 \<Longrightarrow> is_space r \<longleftrightarrow> (9 \<le> r \<and> r \<le> 13) \<or> r = 32"
  by (auto simp: is_space_def)

lemma dir_tag_words:
  assumes "is_ulid rid" and "pid \<noteq> [] \<longrightarrow> is_ulid pid"
  shows "\<forall>w \<in> set (dir_tags rid pid name). tag_word w"
  using assms plain_str_parts(1) [OF assms(1)] plain_str_parts(2) [OF assms(2)]
    plain_str_parts(4) [of name]
  by (auto simp: dir_tags_def Marker_def show_Version is_space_low intro!: tag_word_plain)

lemma file_tag_words:
  assumes "ok_ids r" and "ok_numbers r"
  shows "\<forall>w \<in> set (file_tags r). tag_word w"
proof -
  have "plain_str (r_ID r)" "plain_str (orRoot (r_ParentID r))" "r_OwnerID r \<noteq> [] \<Longrightarrow> plain_str (r_OwnerID r)"
    using assms(1) by (auto simp: ok_ids_def intro: plain_str_parts(1,2))
  moreover have "plain_str (show_int (r_SegIndex r))" "plain_str (show_int (r_SegCount r))"
    "plain_str (show_int (r_TotalSize r))" "plain_str (show_int (r_SegmentSize r))"
    using assms(2) by (auto simp: ok_numbers_def intro!: plain_str_parts(3))
  ultimately show ?thesis
    using plain_str_parts(4) [of "r_Name r"]
    by (auto simp: file_tags_def Marker_def show_Version is_space_low intro!: tag_word_plain)
qed

lemma Fields_tags: "\<forall>w \<in> set ws. tag_word w \<Longrightarrow> Fields (join_with '' '' ws) = ws"
  by (rule fields_join_with) (simp add: tag_word_def)

lemma solid_no_newline: "solid w \<Longrightarrow> CHR 0x0A \<notin> set w"
proof
  assume w: "solid w" and "CHR 0x0A \<in> set w"
  then obtain a b where "w = a @ CHR 0x0A # b" by (meson split_list)
  then have "10 \<in> set (runes w)" by (simp add: runes_append_ascii)
  with w show False by (auto simp: solid_def is_space_def)
qed

lemma tags_no_newline:
  assumes "\<forall>w \<in> set ws. tag_word w"
  shows "CHR 0x0A \<notin> set (join_with '' '' ws)"
  using set_join_with [of "'' ''" ws] assms by (auto simp: tag_word_def dest: solid_no_newline)

lemma tagTokens_body:
  assumes "CHR 0x0A \<notin> set display" and "\<not> is_start_line display"
    and "\<forall>w \<in> set (ws). tag_word w" and "ws \<noteq> []" and "hd ws = ''#'' @ Marker"
  shows "tagTokens (caption_body display (join_with '' '' ws)) = Some (map (drop 1) ws)"
proof -
  let ?tags = "join_with '' '' ws"
  have split: "split_on (CHR 0x0A) (caption_body display ?tags) = [display, [], ?tags]"
    using assms(1) tags_no_newline [OF assms(3)]
    by (simp add: caption_body_def split_on_append_no_sep split_on_no_sep)
  have "is_start_line ?tags"
    using assms(3-5) by (cases ws) (simp_all add: is_start_line_def Fields_tags)
  moreover have "\<not> is_start_line []" by (simp add: is_start_line_def)
  ultimately have "dropWhile (\<lambda>l. \<not> is_start_line l) (split_on (CHR 0x0A) (caption_body display ?tags)) = [?tags]"
    using assms(2) by (simp add: split)
  moreover have "line_tokens ?tags = map (drop 1) ws"
    using assms(3) by (simp add: line_tokens_def Fields_tags tag_word_def)
  ultimately show ?thesis
    using assms(4) by (simp add: tagTokens_def)
qed

lemma caption_tags_join:
  "ws \<noteq> [] \<Longrightarrow> caption_tags (join_with '' '' ws) human = join_with '' '' (ws @ human)"
  by (cases "human = []") (simp_all add: caption_tags_def join_with_append)

section \<open>Human tags\<close>

text \<open>The letter and digit tables above ASCII hold no space.\<close>

definition sane_tables :: "(nat \<Rightarrow> bool) \<Rightarrow> (nat \<Rightarrow> bool) \<Rightarrow> bool" where
  "sane_tables L D \<longleftrightarrow> (\<forall>r. L r \<or> D r \<longrightarrow> \<not> is_space r)"

lemma is_letter_not_space: "sane_tables L D \<Longrightarrow> is_letter L r \<Longrightarrow> \<not> is_space r"
  by (auto simp: sane_tables_def is_letter_def is_space_def split: if_splits)

lemma is_digit_rune_not_space: "sane_tables L D \<Longrightarrow> is_digit_rune D r \<Longrightarrow> \<not> is_space r"
  by (auto simp: sane_tables_def is_digit_rune_def is_space_def split: if_splits)

lemma sanitize_loop_good:
  assumes "sane_tables L D" and "valid_utf8 b" and "\<forall>r \<in> set (runes b). \<not> is_space r"
    and "\<forall>r \<in> set rs. scalar r" and "sanitize_loop L D rs b dg = (out, dg')"
  shows "valid_utf8 out \<and> (\<forall>r \<in> set (runes out). \<not> is_space r)"
  using assms
proof (induction L D rs b dg rule: sanitize_loop.induct)
  case (1 L D b dg)
  then show ?case by simp
next
  case (2 L D r rs b dg)
  have app: "valid_utf8 (b @ encode_rune r)"
    "\<forall>x \<in> set (runes (b @ encode_rune r)). \<not> is_space x" if "\<not> is_space r"
    using 2(5-8) that chunks_encode_rune [of r "[]"] valid_utf8_encode_rune [of r]
    by (auto simp: valid_utf8_append runes_append runes_def [of "encode_rune _"])
  have us: "valid_utf8 (b @ ''_'')" "\<forall>x \<in> set (runes (b @ ''_'')). \<not> is_space x"
    using 2(5-8) by (auto simp: valid_utf8_append runes_append runes_def [of "''_''"]
        valid_utf8_ascii chunks_ascii is_space_def)
  have ns: "(is_letter L r \<longrightarrow> \<not> is_space r) \<and> (is_digit_rune D r \<longrightarrow> \<not> is_space r)"
    using is_letter_not_space [OF 2(5)] is_digit_rune_not_space [OF 2(5)] by blast
  have "\<forall>r \<in> set rs. scalar r" using 2(8) by simp
  then show ?case
    using 2(1) [OF _ 2(5) app] 2(2) [OF _ _ 2(5) app] 2(3) [OF _ _ _ 2(5) us] 2(4) [OF _ _ _ 2(5-7)] 2(9) ns
    by (auto simp: sanitize_loop.simps split: if_splits)
qed

lemma SanitizeTag_good:
  assumes "sane_tables L D"
  shows "valid_utf8 (SanitizeTag L D name) \<and> (\<forall>r \<in> set (runes (SanitizeTag L D name)). \<not> is_space r)"
proof -
  obtain out dg where out: "sanitize_loop L D (runes name) [] True = (out, dg)"
    by (cases "sanitize_loop L D (runes name) [] True") auto
  have g: "valid_utf8 out" "\<forall>r \<in> set (runes out). \<not> is_space r"
    using sanitize_loop_good [OF assms _ _ _ out] runes_scalar [of _ name]
    by (auto simp: runes_def)
  have "valid_utf8 (''_'' @ out)" "\<forall>r \<in> set (runes (''_'' @ out)). \<not> is_space r"
    using g by (auto simp: valid_utf8_append runes_append valid_utf8_ascii
        runes_def [of "''_''"] chunks_ascii is_space_def simp del: append_Cons)
  then show ?thesis using g by (simp add: SanitizeTag_def out runes_def [of "[]"])
qed

lemma human_loop_elems:
  assumes "w \<in> set (human_loop L D raws seen human)" and "w \<notin> set human"
  shows "\<exists>raw \<in> set raws. SanitizeTag L D raw \<noteq> [] \<and> w = CHR ''#'' # SanitizeTag L D raw"
  using assms
proof (induction L D raws seen human rule: human_loop.induct)
  case (2 L D raw raws seen human)
  then show ?case by (auto simp: Let_def split: if_splits)
qed simp

lemma length_human_loop: "length human < 5 \<Longrightarrow> length (human_loop L D raws seen human) \<le> 5"
  by (induction L D raws seen human rule: human_loop.induct) (auto simp: Let_def MaxHumanTags_def)

lemma human_loop_tag_word:
  assumes "sane_tables L D" and "w \<in> set (human_loop L D raws seen [])"
  shows "tag_word w"
proof -
  obtain raw where "SanitizeTag L D raw \<noteq> []" "w = CHR ''#'' # SanitizeTag L D raw"
    using human_loop_elems [OF assms(2)] by auto
  moreover from this have "solid w"
    using solid_append_ascii [of "''#''" "SanitizeTag L D raw"] SanitizeTag_good [OF assms(1), of raw]
    by (auto simp: is_space_def)
  ultimately show ?thesis by (simp add: tag_word_def)
qed

section \<open>Reading the tokens\<close>

text \<open>The tokens \<open>Decode\<close> gives a meaning; every other token becomes a human tag.\<close>

definition machine_tok :: "string \<Rightarrow> bool" where
  "machine_tok tok \<longleftrightarrow> tok = Marker \<or> tok = ''dir'' \<or> tok = ''file'' \<or> is_ver_tok tok \<or>
     prefix ''id_'' tok \<or> prefix ''pid_'' tok \<or> prefix ''n_'' tok \<or> prefix ''own_'' tok \<or>
     prefix ''seg_'' tok \<or> prefix ''sz_'' tok \<or> prefix ''ss_'' tok"

lemma decode_tok_human:
  "\<not> machine_tok tok \<Longrightarrow> decode_tok tok d = Inr (d\<lparr>d_humanTags := d_humanTags d @ [tok]\<rparr>)"
  by (simp add: machine_tok_def decode_tok_def)

lemma decode_toks_append:
  "decode_toks (xs @ ys) d = go_bind (decode_toks xs d) (decode_toks ys)"
  by (induction xs arbitrary: d) (auto simp: go_bind_def split: sum.splits)

lemma decode_toks_human:
  "\<forall>t \<in> set ts. \<not> machine_tok t \<Longrightarrow>
     decode_toks ts d = Inr (d\<lparr>d_humanTags := d_humanTags d @ ts\<rparr>)"
  by (induction ts arbitrary: d) (auto simp: decode_tok_human)

lemma isDigits_ascii:
  "\<forall>c \<in> set s. byte c < 128 \<Longrightarrow>
     isDigits s \<longleftrightarrow> s \<noteq> [] \<and> (\<forall>c \<in> set s. 48 \<le> byte c \<and> byte c \<le> 57)"
  by (auto simp: isDigits_def runes_def chunks_ascii not_less)

lemma not_ver_tok: "tok = c # cs \<Longrightarrow> c \<noteq> CHR ''v'' \<Longrightarrow> \<not> is_ver_tok tok"
  by (simp add: is_ver_tok_def)

lemma trim_prefix_Cons [simp]:
  "trim_prefix (c # p) (c # s) = (if prefix p s then trim_prefix p s else c # s)"
  by (simp add: trim_prefix_def)

lemma trim_prefix_Nil [simp]: "trim_prefix [] s = s"
  by (simp add: trim_prefix_def)

lemma decode_tok_machine:
  "decode_tok ''tdrive'' d = Inr d"
  "decode_tok ''dir'' d = Inr (d\<lparr>d_rec := (d_rec d)\<lparr>r_Kind := KindDir\<rparr>, d_sawKind := True\<rparr>)"
  "decode_tok ''file'' d = Inr (d\<lparr>d_rec := (d_rec d)\<lparr>r_Kind := KindFile\<rparr>, d_sawKind := True\<rparr>)"
  "decode_tok (''id_'' @ s) d = Inr (d\<lparr>d_rec := (d_rec d)\<lparr>r_ID := s\<rparr>\<rparr>)"
  "decode_tok (''n_'' @ s) d = Inr (d\<lparr>d_encName := s\<rparr>)"
  "decode_tok (''own_'' @ s) d = Inr (d\<lparr>d_rec := (d_rec d)\<lparr>r_OwnerID := s\<rparr>\<rparr>)"
  by (simp_all add: decode_tok_def Marker_def not_ver_tok Let_def)

lemma decode_tok_ver: "decode_tok ''v1'' d = Inr (d\<lparr>d_rec := (d_rec d)\<lparr>r_Version := 1\<rparr>, d_sawVer := True\<rparr>)"
proof -
  have "is_ver_tok ''v1''" by (simp add: is_ver_tok_def isDigits_ascii)
  moreover have "parse_int64 ''1'' = Some 1" by (simp add: parse_int64_def is_digit_def)
  ultimately show ?thesis by (simp add: decode_tok_def Marker_def)
qed

lemma decode_tok_pid:
  assumes "s \<noteq> [] \<longrightarrow> is_ulid s"
  shows "decode_tok (''pid_'' @ orRoot s) d =
     Inr (if s = [] then d else d\<lparr>d_rec := (d_rec d)\<lparr>r_ParentID := s\<rparr>\<rparr>)"
proof -
  have "s \<noteq> RootParent" using assms by (auto simp: RootParent_def is_ulid_def)
  then show ?thesis
    by (simp add: decode_tok_def Marker_def not_ver_tok Let_def orRoot_def)
qed

lemma parseSeg_show:
  assumes "1 \<le> i" "i \<le> n" "in64 i" "in64 n"
  shows "parseSeg (show_int i @ ''_'' @ show_int n) = Inr (i, n)"
proof -
  have "CHR ''_'' \<notin> set (show_int i)"
    using assms(1) digit_facts [of "CHR ''_''"] show_int_digits [of i "CHR ''_''"] by auto
  then have "cut_at (CHR ''_'') (show_int i @ ''_'' @ show_int n) = (show_int i, show_int n, True)"
    using cut_at_append [of "CHR ''_''" "show_int i" "show_int n"] by simp
  then show ?thesis
    using assms by (simp add: parseSeg_def parse_show_int)
qed

lemma decode_tok_numbers:
  assumes "ok_numbers r" and "int64_fields r"
  shows "decode_tok (''seg_'' @ show_int (r_SegIndex r) @ ''_'' @ show_int (r_SegCount r)) d =
      Inr (d\<lparr>d_rec := (d_rec d)\<lparr>r_SegIndex := r_SegIndex r, r_SegCount := r_SegCount r\<rparr>,
             d_sawSeg := True\<rparr>)"
    and "decode_tok (''sz_'' @ show_int (r_TotalSize r)) d =
      Inr (d\<lparr>d_rec := (d_rec d)\<lparr>r_TotalSize := r_TotalSize r\<rparr>, d_sawSize := True\<rparr>)"
    and "decode_tok (''ss_'' @ show_int (r_SegmentSize r)) d =
      Inr (d\<lparr>d_rec := (d_rec d)\<lparr>r_SegmentSize := r_SegmentSize r\<rparr>, d_sawSegSz := True\<rparr>)"
  using assms parseSeg_show [of "r_SegIndex r" "r_SegCount r"]
  by (simp_all add: decode_tok_def Marker_def not_ver_tok Let_def ok_numbers_def int64_fields_def
      parse_show_int)

text \<open>The state of the loop after the machine tags of a file record.\<close>

definition file_dstate :: "Record \<Rightarrow> dstate" where
  "file_dstate r = \<lparr>d_rec = r\<lparr>r_Kind := KindFile, r_Version := 1, r_Name := [], r_HumanTags := []\<rparr>,
     d_sawKind = True, d_encName = b32_encode (r_Name r), d_sawVer = True, d_sawSeg = True,
     d_sawSize = True, d_sawSegSz = True, d_humanTags = []\<rparr>"

lemma decode_file_tags:
  assumes "ok_ids r" and "ok_numbers r" and "int64_fields r"
  shows "decode_toks (map (drop 1) (file_tags r)) dstate0 = Inr (file_dstate r)"
proof -
  have m: "map (drop 1) (file_tags r) =
    [''tdrive'', ''v1'', ''file'', ''id_'' @ r_ID r, ''pid_'' @ orRoot (r_ParentID r),
     ''n_'' @ b32_encode (r_Name r),
     ''seg_'' @ show_int (r_SegIndex r) @ ''_'' @ show_int (r_SegCount r),
     ''sz_'' @ show_int (r_TotalSize r), ''ss_'' @ show_int (r_SegmentSize r)]
    @ (if r_OwnerID r \<noteq> [] then [''own_'' @ r_OwnerID r] else [])"
    by (simp add: file_tags_def Marker_def show_Version)
  have p: "r_ParentID r \<noteq> [] \<longrightarrow> is_ulid (r_ParentID r)" using assms(1) by (simp add: ok_ids_def)
  show ?thesis
    unfolding m decode_toks_append
    by (simp only: decode_toks.simps decode_tok_machine decode_tok_ver decode_tok_pid [OF p]
        decode_tok_numbers [OF assms(2,3)] go_bind_simps split: if_split)
       (cases r, simp add: dstate0_def zero_record_def file_dstate_def decode_tok_machine [simplified])
qed

section \<open>File records\<close>

lemma not_machine_Nil: "\<not> machine_tok []"
  by (simp add: machine_tok_def Marker_def is_ver_tok_def)

lemma file_tags_hd: "hd (file_tags r) = ''#'' @ Marker" "file_tags r \<noteq> []"
  by (simp_all add: file_tags_def)

text \<open>The tokens of a file's caption: the machine tags, then the human tags that were kept.\<close>

lemma tagTokens_file:
  assumes "EncodeFile L D r = Inr cap" and "int64_fields r" and "sane_tables L D"
    and "\<not> is_start_line (r_Name r)"
  obtains k where "tagTokens cap = Some (map (drop 1) (file_tags r)
    @ map (drop 1) (take k (human_loop L D (r_HumanTags r) [] [])))"
proof -
  let ?h = "human_loop L D (r_HumanTags r) [] []"
  obtain k where cap: "cap = caption_body (r_Name r) (join_with '' '' (file_tags r @ take k ?h))"
    using EncodeFile_shape [OF assms(1,2)] by (metis caption_tags_join file_tags_hd(2))
  have ok: "ok_ids r" "ok_numbers r" "CHR 0x0A \<notin> set (r_Name r)"
    using assms(1) by (auto simp: EncodeFile_Inr)
  have "\<forall>w \<in> set (file_tags r @ take k ?h). tag_word w"
    using file_tag_words [OF ok(1,2)] human_loop_tag_word [OF assms(3)]
    by (auto dest: in_set_takeD)
  from tagTokens_body [OF ok(3) assms(4) this]
  show thesis by (intro that [of k]) (simp add: cap file_tags_hd)
qed

definition with_human :: "Record \<Rightarrow> string list \<Rightarrow> dstate" where
  "with_human r h = (file_dstate r)\<lparr>d_humanTags := h\<rparr>"

lemma decode_finish_file:
  assumes "ok_ids r" and "ok_numbers r" and "r_Name r \<noteq> []"
  shows "decode_finish cap (with_human r h) =
     Inr (r\<lparr>r_Kind := KindFile, r_Version := 1, r_HumanTags := h\<rparr>)"
  using assms
  by (cases r) (simp add: decode_finish_def with_human_def file_dstate_def ok_ids_def ok_numbers_def
      Version_def validateID_def decode_name_def name_enc.dec_enc name_enc.enc_eq_Nil Let_def, blast)

lemma decode_file:
  assumes "ok_ids r" and "ok_numbers r" and "int64_fields r"
    and "tagTokens cap = Some (map (drop 1) (file_tags r) @ hs)"
  shows "Decode cap = go_bind (decode_toks hs (file_dstate r)) (decode_finish cap)"
  using decode_file_tags [OF assms(1-3)] by (simp add: Decode_def assms(4) decode_toks_append)

lemma EncodeFile_succeeds:
  assumes "ok_ids r" and "ok_numbers r" and "int64_fields r" and "validateName (r_Name r) = Inr ()"
  shows "\<exists>cap. EncodeFile L D r = Inr cap"
proof -
  have "utf16Len (join_with '' '' (file_tags r)) \<le> MaxCaptionUnits"
    using utf16Len_le_length [of "join_with '' '' (file_tags r)"]
      length_file_base [OF assms(1-3)] assms(4) by (simp add: MaxCaptionUnits_def)
  then show ?thesis
    using assms by (auto simp: EncodeFile_Inr assemble_def Let_def)
qed

definition sample_ulid :: string where
  "sample_ulid = ''01K2ABCDEFGHJKMNPQRSTVWXYZ''"

definition sample_record :: Record where
  "sample_record = zero_record\<lparr>r_ID := sample_ulid, r_ParentID := sample_ulid,
     r_Name := ''film.mkv'', r_SegIndex := 1, r_SegCount := 7, r_TotalSize := 13421772800,
     r_SegmentSize := 1992294400, r_HumanTags := [''M'']\<rparr>"

lemma sample_ulid_ok: "is_ulid sample_ulid"
  by (simp add: sample_ulid_def is_ulid_def ulid_char_def)

lemma sample_record_ok:
  "ok_ids sample_record" "ok_numbers sample_record" "int64_fields sample_record"
  "validateName (r_Name sample_record) = Inr ()" "\<not> is_start_line (r_Name sample_record)"
  using sample_ulid_ok
  by (simp_all add: sample_record_def zero_record_def ok_ids_def ok_numbers_def int64_fields_def
      in64_def is_start_line_def Fields_def chunks_ascii is_space_def)

lemma SanitizeTag_M: "SanitizeTag L D ''M'' = ''M''"
  by (simp add: SanitizeTag_def runes_def chunks_ascii is_letter_def is_digit_rune_def
      encode_rune_def char_of_eq_iff)

lemma file_caption_decodes:
  assumes "EncodeFile L D r = Inr cap" and "int64_fields r" and "sane_tables L D"
    and "\<not> is_start_line (r_Name r)"
    and "\<forall>f \<in> set (r_HumanTags r). \<not> machine_tok (SanitizeTag L D f)"
  shows "\<exists>k. Decode cap = Inr (r\<lparr>r_Kind := KindFile, r_Version := Version,
           r_HumanTags := map (drop 1) (take k (human_loop L D (r_HumanTags r) [] []))\<rparr>)"
proof -
  have ok: "ok_ids r" "ok_numbers r" "r_Name r \<noteq> []"
    using assms(1) by (auto simp: EncodeFile_Inr)
  obtain k where tt: "tagTokens cap = Some (map (drop 1) (file_tags r)
      @ map (drop 1) (take k (human_loop L D (r_HumanTags r) [] [])))"
    using tagTokens_file [OF assms(1-4)] .
  have "\<forall>t \<in> set (map (drop 1) (take k (human_loop L D (r_HumanTags r) [] []))). \<not> machine_tok t"
  proof
    fix t assume "t \<in> set (map (drop 1) (take k (human_loop L D (r_HumanTags r) [] [])))"
    then obtain w where "w \<in> set (human_loop L D (r_HumanTags r) [] [])" "t = drop 1 w"
      by (auto dest: in_set_takeD)
    then show "\<not> machine_tok t" using human_loop_elems [of w L D "r_HumanTags r" "[]" "[]"] assms(5) by auto
  qed
  from decode_toks_human [OF this, of "file_dstate r"]
  have "Decode cap = decode_finish cap (with_human r
      (map (drop 1) (take k (human_loop L D (r_HumanTags r) [] []))))"
    by (simp add: decode_file [OF ok(1,2) assms(2) tt] with_human_def file_dstate_def)
  then show ?thesis
    by (intro exI [of _ k]) (simp add: decode_finish_file [OF ok] Version_def)
qed

text \<open>C19: file records survive the caption.  If \<open>EncodeFile\<close> produced the caption of a record
  whose numbers fit an \<open>int64\<close>, whose name does not itself begin with the word \<open>#tdrive\<close> and none
  of whose ancestor folders has a name that reads as a machine tag, then \<open>Decode\<close> returns the
  record: identity, parent, name, segment numbers, sizes and owner unchanged, with some initial
  part of its sanitised, deduplicated human tags.\<close>

theorem file_round_trip:
  assumes "EncodeFile L D r = Inr cap" and "int64_fields r" and "sane_tables L D"
    and "\<not> is_start_line (r_Name r)"
    and "\<forall>f \<in> set (r_HumanTags r). \<not> machine_tok (SanitizeTag L D f)"
  shows "\<exists>k. Decode cap = Inr (r\<lparr>r_Kind := KindFile, r_Version := Version,
           r_HumanTags := map (drop 1) (take k (human_loop L D (r_HumanTags r) [] []))\<rparr>)"
  using assms by (rule file_caption_decodes)

theorem file_round_trip_witness:
  "\<exists>cap k. EncodeFile (\<lambda>_. False) (\<lambda>_. False) sample_record = Inr cap \<and>
     Decode cap = Inr (sample_record\<lparr>r_Kind := KindFile, r_Version := Version, r_HumanTags :=
       map (drop 1) (take k (human_loop (\<lambda>_. False) (\<lambda>_. False) (r_HumanTags sample_record) [] []))\<rparr>)"
proof -
  obtain cap where cap: "EncodeFile (\<lambda>_. False) (\<lambda>_. False) sample_record = Inr cap"
    using EncodeFile_succeeds [OF sample_record_ok(1-4)] by blast
  have "r_HumanTags sample_record = [''M'']" by (simp add: sample_record_def)
  then have "\<forall>f \<in> set (r_HumanTags sample_record). \<not> machine_tok (SanitizeTag (\<lambda>_. False) (\<lambda>_. False) f)"
    by (simp add: SanitizeTag_M machine_tok_def Marker_def is_ver_tok_def)
  moreover have "sane_tables (\<lambda>_. False) (\<lambda>_. False)" by (simp add: sane_tables_def)
  ultimately show ?thesis
    using cap file_round_trip [OF cap sample_record_ok(3) _ sample_record_ok(5)] by blast
qed

text \<open>\<open>EncodeFile\<close> never gives up on a valid record.  When the identifiers, name and numbers
  pass its own checks and the numbers fit an \<open>int64\<close>, the caption is the name, a blank line and
  every machine tag in order, followed by an initial part of the human tags; so the caption limit
  only ever costs human tags, never a machine tag or a part of the name.\<close>

theorem EncodeFile_complete:
  assumes "ok_ids r" and "ok_numbers r" and "int64_fields r" and "validateName (r_Name r) = Inr ()"
  shows "\<exists>k. EncodeFile L D r = Inr (caption_body (r_Name r)
     (join_with '' '' (file_tags r @ take k (human_loop L D (r_HumanTags r) [] []))))"
  using EncodeFile_succeeds [OF assms, of L D] EncodeFile_shape [OF _ assms(3), of L D]
  by (metis caption_tags_join file_tags_hd(2))

theorem EncodeFile_complete_witness:
  "\<exists>k. EncodeFile (\<lambda>_. False) (\<lambda>_. False) sample_record
     = Inr (caption_body (r_Name sample_record) (join_with '' '' (file_tags sample_record
         @ take k (human_loop (\<lambda>_. False) (\<lambda>_. False) (r_HumanTags sample_record) [] []))))"
  by (rule EncodeFile_complete) (simp_all add: sample_record_ok del: validateName_Inr)

section \<open>Directory records\<close>

lemma dir_base_length:
  assumes "is_ulid rid" and "pid \<noteq> [] \<longrightarrow> is_ulid pid" and "length name \<le> 255"
  shows "length (join_with '' '' (dir_tags rid pid name)) \<le> 491"
proof -
  have "length (b32_encode name) \<le> 408"
    using length_b32_encode [of name] assms(3) by linarith
  then show ?thesis
    using orRoot_length [OF assms(2)] is_ulid_length [OF assms(1)]
    by (subst length_join_with) (auto simp: dir_tags_def Marker_def show_Version)
qed

text \<open>
  The display line may be cut, but what is left still starts with the folder emoji, so it can
  not be taken for the tag block.
\<close>

lemma fields_loop_hd: "cur \<noteq> [] \<Longrightarrow> \<exists>x xs. fields_loop cs cur = (cur @ x) # xs"
proof (induction cs arbitrary: cur)
  case (Cons p cs)
  obtain r b where p: "p = (r, b)" by (cases p)
  show ?case
  proof (cases "is_space r")
    case True
    then have "fields_loop (p # cs) cur = (cur @ []) # fields_loop cs []"
      using Cons.prems by (simp add: p)
    then show ?thesis by blast
  next
    case False
    obtain x xs where "fields_loop cs (cur @ b) = ((cur @ b) @ x) # xs"
      using Cons.IH [of "cur @ b"] Cons.prems by auto
    then have "fields_loop (p # cs) cur = (cur @ (b @ x)) # xs" using False by (simp add: p)
    then show ?thesis by blast
  qed
qed auto

lemma chunks_folder_emoji: "chunks (folder_emoji @ s) = (128193, folder_emoji) # chunks s"
proof -
  have "decode_rune (folder_emoji @ s) = (128193, 4)"
    by (simp add: folder_emoji_def decode_rune.simps(2) decode4_def accept4_def is_cont_def low6_def)
  then show ?thesis by (simp add: chunks_nonempty folder_emoji_def)
qed

lemma emoji_not_start: "\<not> is_start_line (folder_emoji @ s)"
proof -
  obtain x xs where "fields_loop (chunks s) folder_emoji = (folder_emoji @ x) # xs"
    using fields_loop_hd [of folder_emoji "chunks s"] folder_emoji_def by (metis list.distinct(1))
  then show ?thesis
    by (simp add: is_start_line_def Fields_def chunks_folder_emoji is_space_def)
       (simp add: folder_emoji_def)
qed

lemma take_units_subset: "set (take_units cs n limit) \<subseteq> \<Union> (set ` snd ` set cs)"
proof (induction cs n limit rule: take_units.induct)
  case (2 r b cs n limit)
  define w :: int where "w = (if 65535 < r then 2 else 1)"
  have "set (take_units cs (n + w) limit) \<subseteq> \<Union> (set ` snd ` set cs)" if "\<not> limit < n + w"
    using 2 [OF w_def that] .
  then show ?case by (simp add: Let_def flip: w_def) blast
qed simp

lemma truncate_dir_display:
  assumes "2 \<le> limit"
  shows "\<exists>s. truncateUTF16 (folder_emoji @ p) limit = folder_emoji @ s \<and> set s \<subseteq> set p"
proof (cases "utf16Len (folder_emoji @ p) \<le> limit")
  case True
  then show ?thesis by (auto simp: truncateUTF16_def)
next
  case False
  have "set (concat (map snd (chunks p))) = set p" by (simp add: concat_chunks)
  then have "set (take_units (chunks p) 2 limit) \<subseteq> set p"
    using take_units_subset [of "chunks p" 2 limit] by auto
  then show ?thesis
    using False assms by (auto simp: truncateUTF16_def chunks_folder_emoji)
qed

lemma assemble_dir:
  assumes "utf16Len base \<le> 491"
  shows "\<exists>s. assemble_loop base (folder_emoji @ p) [] = caption_body (folder_emoji @ s) base
     \<and> set s \<subseteq> set p"
proof (cases "utf16Len (folder_emoji @ p) + 2 + utf16Len base \<le> 1024")
  case True
  then show ?thesis
    using assemble_loop_fits [of "folder_emoji @ p" base "[]"] by (auto simp: caption_tags_def)
next
  case False
  let ?b = "1024 - utf16Len base - 2"
  have "2 \<le> ?b" using assms by simp
  then obtain s where s: "truncateUTF16 (folder_emoji @ p) ?b = folder_emoji @ s" "set s \<subseteq> set p"
    using truncate_dir_display by blast
  have "utf16Len (folder_emoji @ s) \<le> ?b"
    using truncateUTF16_le [of ?b "folder_emoji @ p"] \<open>2 \<le> ?b\<close> s(1) by simp
  then have "assemble_loop base (folder_emoji @ s) [] = caption_body (folder_emoji @ s) base"
    using assemble_loop_fits [of "folder_emoji @ s" base "[]"] by (auto simp: caption_tags_def)
  moreover have "assemble_loop base (folder_emoji @ p) [] = assemble_loop base (folder_emoji @ s) []"
    using False \<open>2 \<le> ?b\<close> s(1)
    by (subst assemble_loop.simps) (simp add: caption_tags_def utf16Len_body MaxCaptionUnits_def Let_def)
  ultimately show ?thesis using s(2) by auto
qed

lemma EncodeDir_shape:
  assumes "EncodeDir rid pid name path = Inr cap"
  obtains s where "cap = caption_body (folder_emoji @ s) (join_with '' '' (dir_tags rid pid name))"
    and "set s \<subseteq> insert (CHR '' '') (set path)"
proof -
  have ids: "is_ulid rid" "pid \<noteq> [] \<longrightarrow> is_ulid pid" "length name \<le> 255"
    and as: "assemble (DirDisplay path) (dir_tags rid pid name) [] = Inr cap"
    using assms by (auto simp: EncodeDir_def go_bind_eq_Inr split: if_splits)
  have "utf16Len (join_with '' '' (dir_tags rid pid name)) \<le> 491"
    using utf16Len_le_length [of "join_with '' '' (dir_tags rid pid name)"]
      dir_base_length [OF ids] by linarith
  from assemble_dir [OF this, of "'' '' @ path"] obtain s where
    "assemble_loop (join_with '' '' (dir_tags rid pid name)) (folder_emoji @ '' '' @ path) []
       = caption_body (folder_emoji @ s) (join_with '' '' (dir_tags rid pid name))"
    "set s \<subseteq> set ('' '' @ path)" by blast
  with as that [of s] show thesis
    by (auto simp: assemble_def Let_def DirDisplay_def split: if_splits)
qed

definition dir_dstate :: "string \<Rightarrow> string \<Rightarrow> string \<Rightarrow> dstate" where
  "dir_dstate rid pid name =
     dstate0\<lparr>d_rec := zero_record\<lparr>r_Kind := KindDir, r_Version := 1, r_ID := rid, r_ParentID := pid\<rparr>,
       d_sawKind := True, d_encName := b32_encode name, d_sawVer := True\<rparr>"

lemma decode_dir_tags:
  assumes "pid \<noteq> [] \<longrightarrow> is_ulid pid"
  shows "decode_toks (map (drop 1) (dir_tags rid pid name)) dstate0 = Inr (dir_dstate rid pid name)"
proof -
  have m: "map (drop 1) (dir_tags rid pid name) =
    [''tdrive'', ''v1'', ''dir'', ''id_'' @ rid, ''pid_'' @ orRoot pid, ''n_'' @ b32_encode name]"
    by (simp add: dir_tags_def Marker_def show_Version)
  show ?thesis
    unfolding m
    by (simp only: decode_toks.simps decode_tok_machine decode_tok_ver decode_tok_pid [OF assms]
        go_bind_simps)
       (simp add: dstate0_def zero_record_def dir_dstate_def)
qed

lemma decode_finish_dir:
  assumes "is_ulid rid" and "pid \<noteq> [] \<longrightarrow> is_ulid pid" and "name \<noteq> []"
  shows "decode_finish cap (dir_dstate rid pid name) = Inr (zero_record\<lparr>r_Kind := KindDir,
     r_Version := Version, r_ID := rid, r_ParentID := pid, r_Name := name\<rparr>)"
  using assms
  by (simp add: decode_finish_def dir_dstate_def dstate0_def zero_record_def Version_def
      validateID_def decode_name_def name_enc.dec_enc name_enc.enc_eq_Nil)

lemma dir_caption_decodes:
  assumes "EncodeDir rid pid name path = Inr cap" and "CHR 0x0A \<notin> set path"
  shows "Decode cap = Inr (zero_record\<lparr>r_Kind := KindDir, r_Version := Version, r_ID := rid,
           r_ParentID := pid, r_Name := name\<rparr>)"
proof -
  have ids: "is_ulid rid" "pid \<noteq> [] \<longrightarrow> is_ulid pid" "name \<noteq> []"
    using assms(1) by (auto simp: EncodeDir_def go_bind_eq_Inr split: if_splits)
  obtain s where cap: "cap = caption_body (folder_emoji @ s) (join_with '' '' (dir_tags rid pid name))"
    and s: "set s \<subseteq> insert (CHR '' '') (set path)"
    using EncodeDir_shape [OF assms(1)] .
  have "CHR 0x0A \<notin> set (folder_emoji @ s)"
    using s assms(2) by (auto simp: folder_emoji_def)
  then have "tagTokens cap = Some (map (drop 1) (dir_tags rid pid name))"
    unfolding cap by (rule tagTokens_body [OF _ emoji_not_start dir_tag_words [OF ids(1,2)]])
      (simp_all add: dir_tags_def)
  then have "Decode cap = decode_finish cap (dir_dstate rid pid name)"
    using decode_dir_tags [OF ids(2)] by (simp add: Decode_def)
  then show ?thesis by (simp add: decode_finish_dir [OF ids])
qed

text \<open>Directory records survive the caption.  A directory encoded under any path without a
  newline, however long the path is, decodes to exactly its identity, parent and name: cutting the
  display line to the caption limit never touches the record.\<close>

theorem dir_round_trip:
  assumes "EncodeDir rid pid name path = Inr cap" and "CHR 0x0A \<notin> set path"
  shows "Decode cap = Inr (zero_record\<lparr>r_Kind := KindDir, r_Version := Version, r_ID := rid,
           r_ParentID := pid, r_Name := name\<rparr>)"
  using assms by (rule dir_caption_decodes)

lemma EncodeDir_succeeds:
  assumes "is_ulid rid" and "pid \<noteq> [] \<longrightarrow> is_ulid pid" and "validateName name = Inr ()"
  shows "\<exists>cap. EncodeDir rid pid name path = Inr cap"
proof -
  have "utf16Len (join_with '' '' (dir_tags rid pid name)) \<le> MaxCaptionUnits"
    using assms(3) dir_base_length [OF assms(1,2), of name]
      utf16Len_le_length [of "join_with '' '' (dir_tags rid pid name)"]
    by (simp add: MaxCaptionUnits_def)
  then show ?thesis
    using assms(1,2) by (simp add: EncodeDir_def assemble_def Let_def validateID_def assms(3))
qed

theorem dir_round_trip_witness:
  "\<exists>cap. EncodeDir sample_ulid [] ''Movies'' (CHR ''/'' # replicate 4000 (CHR ''x'')) = Inr cap \<and>
     Decode cap = Inr (zero_record\<lparr>r_Kind := KindDir, r_Version := Version, r_ID := sample_ulid,
       r_ParentID := [], r_Name := ''Movies''\<rparr>)"
proof -
  obtain cap where cap: "EncodeDir sample_ulid [] ''Movies'' (CHR ''/'' # replicate 4000 (CHR ''x'')) = Inr cap"
    using EncodeDir_succeeds [OF sample_ulid_ok, of "[]" "''Movies''"] by auto
  moreover have "CHR 0x0A \<notin> set (CHR ''/'' # replicate 4000 (CHR ''x''))"
    by (simp add: set_replicate_conv_if)
  ultimately show ?thesis using dir_round_trip [OF cap] by blast
qed

section \<open>The caption limit\<close>

text \<open>Every caption the drive posts fits Telegram's limit of 1024 UTF-16 units, whatever the
  names, the display path and the ancestor folders are.\<close>

theorem caption_limit:
  assumes "EncodeFile L D r = Inr cap \<or> EncodeDir rid pid name path = Inr cap"
  shows "utf16Len cap \<le> MaxCaptionUnits"
proof -
  obtain display machine_tags human where "assemble display machine_tags human = Inr cap"
    using assms by (auto simp: EncodeFile_Inr EncodeDir_def go_bind_eq_Inr)
  then show ?thesis
    by (auto simp: assemble_def Let_def intro: assemble_loop_limit split: if_splits)
qed

theorem caption_limit_witness:
  "\<exists>cap. EncodeDir sample_ulid [] ''Movies'' (CHR ''/'' # replicate 4000 (CHR ''x'')) = Inr cap \<and>
     utf16Len cap \<le> MaxCaptionUnits"
proof -
  obtain cap where cap: "EncodeDir sample_ulid [] ''Movies'' (CHR ''/'' # replicate 4000 (CHR ''x'')) = Inr cap"
    using EncodeDir_succeeds [OF sample_ulid_ok, of "[]" "''Movies''"] by auto
  show ?thesis using caption_limit [OF disjI2 [OF cap]] cap by blast
qed

section \<open>What Decode accepts\<close>

lemma decode_tok_not_untagged: "decode_tok tok d \<noteq> Inl ErrNotTagged"
  by (auto simp: decode_tok_def parseSeg_def go_bind_def Let_def split: option.splits if_splits prod.splits)

lemma decode_toks_not_untagged: "decode_toks toks d \<noteq> Inl ErrNotTagged"
  using decode_tok_not_untagged
  by (induction toks arbitrary: d) (auto simp: go_bind_def split: sum.splits)

lemma decode_finish_not_untagged: "decode_finish cap d \<noteq> Inl ErrNotTagged"
  by (auto simp: decode_finish_def validateID_def decode_name_def go_bind_def Let_def
      split: option.splits if_splits)

lemma tagTokens_None: "tagTokens cap = None \<longleftrightarrow> (\<forall>l \<in> set (split_on (CHR 0x0A) cap). \<not> is_start_line l)"
proof (cases "dropWhile (\<lambda>l. \<not> is_start_line l) (split_on (CHR 0x0A) cap)")
  case Nil
  have "tagTokens cap = None" unfolding tagTokens_def Nil by simp
  moreover from Nil have "\<forall>l \<in> set (split_on (CHR 0x0A) cap). \<not> is_start_line l"
    by (simp add: dropWhile_eq_Nil_conv)
  ultimately show ?thesis by blast
next
  case (Cons l ls)
  then have l: "is_start_line l" "l \<in> set (split_on (CHR 0x0A) cap)"
    by (metis hd_dropWhile list.distinct(1) list.sel(1), metis list.set_intros(1) set_dropWhileD)
  obtain fs where "Fields l = (''#'' @ Marker) # fs"
    using l(1) by (auto simp: is_start_line_def split: list.splits)
  then have "line_tokens l \<noteq> []" by (simp add: line_tokens_def Marker_def)
  with Cons l show ?thesis by (auto simp: tagTokens_def Let_def)
qed

text \<open>A caption is reported as not tagged exactly when none of its lines starts with the word
  \<open>#tdrive\<close>; any other caption yields a record or one of the two real errors, so the indexer never
  skips a marked message silently.\<close>

theorem Decode_not_tagged_iff:
  "Decode cap = Inl ErrNotTagged \<longleftrightarrow> \<not> list_ex is_start_line (split_on (CHR 0x0A) cap)"
proof (cases "tagTokens cap")
  case None
  then show ?thesis by (simp add: Decode_def list_ex_iff flip: tagTokens_None)
next
  case (Some toks)
  then have "Decode cap \<noteq> Inl ErrNotTagged"
    using decode_toks_not_untagged decode_finish_not_untagged
    by (auto simp: Decode_def go_bind_def split: sum.splits)
  then show ?thesis using Some by (simp add: list_ex_iff flip: tagTokens_None)
qed

text \<open>The invariant of the loop over the tokens: a segment pair that was seen is in range.\<close>

definition seg_inv :: "dstate \<Rightarrow> bool" where
  "seg_inv d \<longleftrightarrow> (d_sawSeg d \<longrightarrow> 1 \<le> r_SegIndex (d_rec d) \<and> r_SegIndex (d_rec d) \<le> r_SegCount (d_rec d))
     \<and> (d_sawKind d \<longrightarrow> r_Kind (d_rec d) \<noteq> KindNone)"

lemma parseSeg_range: "parseSeg s = Inr (i, n) \<Longrightarrow> 1 \<le> i \<and> i \<le> n"
  by (auto simp: parseSeg_def Let_def split: prod.splits if_splits option.splits)

lemma decode_tok_seg_inv: "\<lbrakk>decode_tok tok d = Inr d'; seg_inv d\<rbrakk> \<Longrightarrow> seg_inv d'"
  by (auto simp: decode_tok_def Let_def seg_inv_def go_bind_eq_Inr dest: parseSeg_range
      split: if_splits option.splits)

lemma decode_toks_seg_inv: "\<lbrakk>decode_toks toks d = Inr d'; seg_inv d\<rbrakk> \<Longrightarrow> seg_inv d'"
  by (induction toks arbitrary: d) (auto dest: decode_tok_seg_inv)

text \<open>What the indexer may rely on in a decoded record.\<close>

definition wf_record :: "Record \<Rightarrow> bool" where
  "wf_record r \<longleftrightarrow> ok_ids r \<and> r_Name r \<noteq> [] \<and> r_Version r \<le> Version \<and>
     (r_Kind r = KindDir \<or> r_Kind r = KindFile \<and> ok_numbers r)"

lemma decoded_wf:
  assumes "Decode cap = Inr r"
  shows "wf_record r"
proof -
  obtain toks d where d: "decode_toks toks dstate0 = Inr d" and f: "decode_finish cap d = Inr r"
    using assms by (auto simp: Decode_def split: option.splits)
  have "seg_inv d"
    using decode_toks_seg_inv [OF d] by (simp add: seg_inv_def dstate0_def)
  with f show ?thesis
    by (cases "r_Kind (d_rec d)")
       (auto simp: decode_finish_def wf_record_def ok_ids_def ok_numbers_def seg_inv_def Let_def
         go_bind_eq_Inr split: if_splits)
qed

text \<open>Whatever text is in the channel, a record \<open>Decode\<close> returns has well-formed
  identifiers, a nonempty name, a version this build understands, a kind, and for a file a segment
  number within the segment count, a non-negative size and a positive segment size.\<close>

theorem Decode_wf:
  assumes "Decode cap = Inr r"
  shows "wf_record r"
  using assms by (rule decoded_wf)

theorem Decode_wf_witness: "\<exists>cap r. Decode cap = Inr r \<and> wf_record r"
proof -
  let ?cap = "caption_body ''x'' (join_with '' '' (dir_tags sample_ulid [] ''M''))"
  have "\<not> is_start_line ''x''" by (simp add: is_start_line_def Fields_def chunks_ascii is_space_def)
  then have "tagTokens ?cap = Some (map (drop 1) (dir_tags sample_ulid [] ''M''))"
    by (intro tagTokens_body dir_tag_words sample_ulid_ok) (simp_all add: dir_tags_def)
  then obtain r where r: "Decode ?cap = Inr r"
    using decode_dir_tags [of "[]"] decode_finish_dir [of sample_ulid "[]" "''M''"] sample_ulid_ok
    by (simp add: Decode_def)
  from Decode_wf [OF r] r show ?thesis by blast
qed

section \<open>Where the round trip breaks\<close>

lemma EncodeFile_one_human:
  assumes "ok_ids r" and "ok_numbers r" and "int64_fields r" and "validateName (r_Name r) = Inr ()"
    and "human_loop L D (r_HumanTags r) [] [] = [h]" and "length h \<le> 10"
  shows "EncodeFile L D r = Inr (caption_body (r_Name r) (join_with '' '' (file_tags r @ [h])))"
proof -
  let ?base = "join_with '' '' (file_tags r)"
  have base: "length ?base \<le> 617"
    using length_file_base [OF assms(1-3)] assms(4) by simp
  have "utf16Len (caption_body (r_Name r) (join_with '' '' (file_tags r @ [h]))) \<le> MaxCaptionUnits"
    using utf16Len_le_length [of "caption_body (r_Name r) (join_with '' '' (file_tags r @ [h]))"]
      base assms(4,6)
    by (simp add: caption_body_def MaxCaptionUnits_def join_with_append file_tags_hd)
  moreover have "utf16Len ?base \<le> MaxCaptionUnits"
    using utf16Len_le_length [of ?base] base by (simp add: MaxCaptionUnits_def)
  ultimately show ?thesis
    using assms(1-5)
    by (simp add: EncodeFile_Inr assemble_def assemble_loop.simps [of _ _ "[h]"] Let_def
        flip: caption_tags_join [OF file_tags_hd(2)] del: validateName_Inr)
qed

lemma SanitizeTag_v2: "SanitizeTag L D ''v2'' = ''v2''"
  by (simp add: SanitizeTag_def runes_def chunks_ascii is_letter_def is_digit_rune_def
      encode_rune_def char_of_eq_iff)

text \<open>A folder name can make its files unreadable.  Human tags share the namespace of the
  machine tags, so any file stored directly in a folder called \<open>v2\<close> is written without an error and
  can not be decoded: the hashtag of the folder is read as the caption's version.  A rebuild of the
  index from the channel therefore loses every file of that folder.\<close>

theorem folder_v2_loses_files:
  assumes "ok_ids r" and "ok_numbers r" and "int64_fields r" and "validateName (r_Name r) = Inr ()"
    and "\<not> is_start_line (r_Name r)" and "r_HumanTags r = [''v2'']"
  shows "\<exists>cap. EncodeFile L D r = Inr cap \<and> Decode cap = Inl ErrUnknownVersion"
proof -
  have h: "human_loop L D (r_HumanTags r) [] [] = [''#v2'']"
    by (simp add: assms(6) SanitizeTag_v2 MaxHumanTags_def)
  let ?cap = "caption_body (r_Name r) (join_with '' '' (file_tags r @ [''#v2'']))"
  have enc: "EncodeFile L D r = Inr ?cap"
    using EncodeFile_one_human [OF assms(1-4) h] by simp
  have "tag_word ''#v2''"
    by (rule tag_word_plain) (simp_all add: is_space_low)
  then have "tagTokens ?cap = Some (map (drop 1) (file_tags r @ [''#v2'']))"
    using file_tag_words [OF assms(1,2)] assms(4)
    by (intro tagTokens_body assms(5)) (auto simp: file_tags_hd)
  then have tt: "tagTokens ?cap = Some (map (drop 1) (file_tags r) @ [''v2''])" by simp
  have "is_ver_tok ''v2''" by (simp add: is_ver_tok_def isDigits_ascii)
  moreover have "parse_int64 ''2'' = Some 2" by (simp add: parse_int64_def is_digit_def)
  ultimately have "decode_tok ''v2'' d = Inr (d\<lparr>d_rec := (d_rec d)\<lparr>r_Version := 2\<rparr>, d_sawVer := True\<rparr>)" for d
    by (simp add: decode_tok_def Marker_def)
  then have "Decode ?cap = Inl ErrUnknownVersion"
    by (simp add: decode_file [OF assms(1-3) tt] decode_finish_def Version_def)
  with enc show ?thesis by blast
qed

theorem folder_v2_loses_files_witness:
  "\<exists>cap. EncodeFile (\<lambda>_. False) (\<lambda>_. False) (sample_record\<lparr>r_HumanTags := [''v2'']\<rparr>) = Inr cap
     \<and> Decode cap = Inl ErrUnknownVersion"
  using sample_record_ok
  by (intro folder_v2_loses_files) (simp_all add: ok_ids_def ok_numbers_def int64_fields_def)

text \<open>The display line can be taken for the tag block.  A file named \<open>#tdrive #seg_\<close> passes the
  name checks and is written without an error, and its caption can not be decoded, because the line
  showing its name is the first line that starts with the marker.\<close>

theorem marker_name_breaks_caption:
  assumes "ok_ids r" and "ok_numbers r" and "int64_fields r" and "r_Name r = ''#tdrive #seg_''"
  shows "validateName (r_Name r) = Inr () \<and>
     (\<exists>cap. EncodeFile L D r = Inr cap \<and> Decode cap = Inl ErrMalformed)"
proof -
  let ?tags = "\<lambda>k. join_with '' '' (file_tags r @ take k (human_loop L D (r_HumanTags r) [] []))"
  have name: "validateName (r_Name r) = Inr ()"
    by (simp add: assms(4))
  obtain cap where cap: "EncodeFile L D r = Inr cap"
    using EncodeFile_succeeds [OF assms(1-3) name] by blast
  obtain k where shape: "cap = caption_body ''#tdrive #seg_'' (?tags k)"
    using EncodeFile_shape [OF cap assms(3)] assms(4) by (metis caption_tags_join file_tags_hd(2))
  have F: "Fields ''#tdrive #seg_'' = [''#tdrive'', ''#seg_'']"
    by (simp add: Fields_def chunks_ascii is_space_def)
  obtain ls where "split_on (CHR 0x0A) cap = ''#tdrive #seg_'' # ls"
    using split_on_append_no_sep [of "CHR 0x0A" "''#tdrive #seg_''"]
    by (simp add: shape caption_body_def)
  then have "tagTokens cap = Some (''tdrive'' # ''seg_'' # concat (map line_tokens ls))"
    by (simp add: tagTokens_def is_start_line_def F line_tokens_def Marker_def)
  moreover have "decode_tok ''seg_'' d = Inl ErrMalformed" for d
    by (simp add: decode_tok_def Marker_def not_ver_tok parseSeg_def cut_at_def)
  ultimately have "Decode cap = Inl ErrMalformed"
    by (simp add: Decode_def decode_tok_machine)
  with name cap show ?thesis by blast
qed

theorem marker_name_breaks_caption_witness:
  "\<exists>cap. EncodeFile (\<lambda>_. False) (\<lambda>_. False) (sample_record\<lparr>r_Name := ''#tdrive #seg_''\<rparr>) = Inr cap
     \<and> Decode cap = Inl ErrMalformed"
  using marker_name_breaks_caption [of "sample_record\<lparr>r_Name := ''#tdrive #seg_''\<rparr>"
      "\<lambda>_. False" "\<lambda>_. False"] sample_record_ok
  by (simp add: ok_ids_def ok_numbers_def int64_fields_def)

end
