(* ===== verification/Reader.thy ===== *)
theory Reader
  imports Prelude
begin

text \<open>
  The read path, \<open>internal/reader\<close>: \<open>plan.go\<close> maps byte ranges onto segments and aligned chunks,
  \<open>chunk.go\<close> streams one range of one segment, \<open>reader.go\<close> presents the segments as one seekable
  file.  Offsets are \<open>int64\<close> and their sums and products wrap.  A source (\<open>Source.Chunk\<close>, the
  Telegram download) is a function of the offset and the limit.

  This theory has the sequential view of \<open>chunkReader\<close>: chunk results are taken in the order in
  which their futures were queued.  The theory \<open>ChunkPump\<close> models the concurrent producer and
  shows that this is the order in which the results arrive.
\<close>

section \<open>plan.go\<close>

datatype read_error = EOF | ErrUnexpectedEOF | ErrContext | ErrSource | ErrRange

record SegRange =
  sr_Index :: int
  sr_Start :: int
  sr_End :: int

definition SegRange_Len :: "SegRange \<Rightarrow> int" where
  "SegRange_Len r = wrap64 (wrap64 (sr_End r - sr_Start r) + 1)"

definition plan_one :: "int \<Rightarrow> int \<Rightarrow> int \<Rightarrow> int \<Rightarrow> SegRange" where
  "plan_one start end segSize s =
     (let base = wrap64 (s * segSize);
          segStart = wrap64 (start - base);
          segStart = (if segStart < 0 then 0 else segStart);
          segEnd = wrap64 (end - base);
          segEnd = (if segEnd > segSize - 1 then segSize - 1 else segEnd)
      in \<lparr>sr_Index = wrap64 (s + 1), sr_Start = segStart, sr_End = segEnd\<rparr>)"

function plan_loop :: "int \<Rightarrow> int \<Rightarrow> int \<Rightarrow> int \<Rightarrow> int \<Rightarrow> SegRange list" where
  "plan_loop start end segSize s end_seg =
     (if s \<le> end_seg then plan_one start end segSize s # plan_loop start end segSize (s + 1) end_seg
      else [])"
  by pat_completeness auto

termination
  by (relation "measure (\<lambda>(_, _, _, s, end_seg). nat (end_seg + 1 - s))") auto

declare plan_loop.simps [simp del]

definition planRanges :: "int \<Rightarrow> int \<Rightarrow> int \<Rightarrow> read_error + SegRange list" where
  "planRanges start end segSize =
     (if segSize \<le> 0 then Inl ErrRange
      else if start < 0 then Inl ErrRange
      else if end < start then Inr []
      else Inr (plan_loop start end segSize (start div segSize) (end div segSize)))"

definition Ranges :: "int \<Rightarrow> int \<Rightarrow> int \<Rightarrow> read_error + SegRange list" where
  "Ranges start end segSize = planRanges start end segSize"

record chunkPlan =
  cp_chunkSize :: int
  cp_base :: int
  cp_count :: int
  cp_leftCut :: int
  cp_length :: int

definition planChunks :: "int \<Rightarrow> int \<Rightarrow> int \<Rightarrow> chunkPlan" where
  "planChunks start end chunkSize =
     (let base = start - start mod chunkSize;
          count = (end - base) div chunkSize + 1
      in \<lparr>cp_chunkSize = chunkSize, cp_base = base, cp_count = count,
          cp_leftCut = start - base, cp_length = end - start + 1\<rparr>)"

function chunk_size_loop :: "int \<Rightarrow> int \<Rightarrow> int" where
  "chunk_size_loop d sz =
     (if sz > 1024 \<and> sz > d then chunk_size_loop d (sz div 2) else sz)"
  by pat_completeness auto

termination
  by (relation "measure (\<lambda>(_, sz). nat sz)") auto

declare chunk_size_loop.simps [simp del]

definition ChunkSize :: "int \<Rightarrow> int \<Rightarrow> int" where
  "ChunkSize start end = chunk_size_loop (end - start) (1024 * 1024)"

section \<open>Slices\<close>

text \<open>The bytes at the inclusive offsets \<open>[a, b]\<close>, and segment \<open>i\<close> of a file.\<close>

definition slice :: "'a list \<Rightarrow> int \<Rightarrow> int \<Rightarrow> 'a list" where
  "slice xs a b = take (nat (b - a + 1)) (drop (nat a) xs)"

definition segment :: "'a list \<Rightarrow> int \<Rightarrow> int \<Rightarrow> 'a list" where
  "segment content segSize i = slice content ((i - 1) * segSize) (i * segSize - 1)"

lemma slice_append:
  assumes "0 \<le> a" and "a \<le> m + 1" and "m \<le> b"
  shows "slice xs a m @ slice xs (m + 1) b = slice xs a b"
proof -
  have "nat (b - a + 1) = nat (m - a + 1) + nat (b - m)" using assms by linarith
  moreover have "nat (m + 1) = nat (m - a + 1) + nat a" using assms by linarith
  moreover have "b - (m + 1) + 1 = b - m" by simp
  ultimately show ?thesis by (simp add: slice_def take_add)
qed

lemma slice_empty: "b < a \<Longrightarrow> slice xs a b = []"
  by (simp add: slice_def)

lemma length_slice: "\<lbrakk>0 \<le> a; a \<le> b + 1; b < int (length xs)\<rbrakk> \<Longrightarrow> int (length (slice xs a b)) = b - a + 1"
  by (simp add: slice_def)

lemma slice_slice:
  assumes "0 \<le> a" and "0 \<le> c" and "a + d \<le> b"
  shows "slice (slice xs a b) c d = slice xs (a + c) (a + d)"
proof (cases "d < c")
  case True
  then show ?thesis by (simp add: slice_empty)
next
  case False
  have "nat (a + c) = nat c + nat a" using assms by linarith
  moreover have "min (nat (d - c + 1)) (nat (b - a + 1) - nat c) = nat (a + d - (a + c) + 1)"
    using assms False by linarith
  ultimately show ?thesis
    by (simp add: slice_def drop_take)
qed

lemma slice_segment:
  assumes "0 < segSize" and "0 \<le> s" and "0 \<le> a" and "b < segSize"
  shows "slice (segment xs segSize (s + 1)) a b = slice xs (s * segSize + a) (s * segSize + b)"
proof -
  have "0 \<le> s * segSize" using assms by simp
  moreover have "s * segSize + b \<le> (s + 1) * segSize - 1" using assms by (simp add: algebra_simps)
  ultimately show ?thesis
    using assms by (simp add: segment_def slice_slice)
qed

section \<open>The plan covers the range\<close>

lemma div_mult_le: "0 < m \<Longrightarrow> (x :: int) div m * m \<le> x"
  using div_mult_mod_eq [of x m] pos_mod_sign [of m x] by linarith

lemma mult_le_of_le_div: "0 < m \<Longrightarrow> s \<le> (x :: int) div m \<Longrightarrow> s * m \<le> x"
  using div_mult_le [of m x] mult_right_mono [of s "x div m" m] by linarith

lemma less_succ_div_mult: "0 < m \<Longrightarrow> (x :: int) < (x div m + 1) * m"
proof -
  assume "0 < m"
  then have "x mod m < m" by simp
  moreover have "x div m * m + x mod m = x" by (rule div_mult_mod_eq)
  ultimately show ?thesis unfolding distrib_right by linarith
qed

lemma plan_one_eq:
  assumes "0 < segSize" and "0 \<le> s" and "s * segSize \<le> end" and "0 \<le> start" and "in64 start"
    and "in64 segSize" and "in64 (end + 1)"
  shows "plan_one start end segSize s = \<lparr>sr_Index = s + 1, sr_Start = max (start - s * segSize) 0,
     sr_End = min (end - s * segSize) (segSize - 1)\<rparr>"
proof -
  have b: "0 \<le> s * segSize" "s \<le> s * segSize" using assms(1,2) by (simp_all add: mult_le_cancel_left1)
  then have w: "wrap64 (s * segSize) = s * segSize" "wrap64 (start - s * segSize) = start - s * segSize"
    "wrap64 (end - s * segSize) = end - s * segSize" "wrap64 (s + 1) = s + 1"
    using assms by (auto simp: in64_def intro!: wrap64_id)
  show ?thesis
    unfolding plan_one_def w Let_def by auto
qed

lemma plan_loop_bytes:
  assumes "0 < segSize" and "0 \<le> start" and "in64 start" and "in64 segSize" and "in64 (end + 1)"
    and "start \<le> end" and "0 \<le> s" and "s \<le> end div segSize" and "start < (s + 1) * segSize"
  shows "concat (map (\<lambda>r. slice (segment xs segSize (sr_Index r)) (sr_Start r) (sr_End r))
           (plan_loop start end segSize s (end div segSize))) = slice xs (max start (s * segSize)) end"
  using assms(7-)
proof (induction "nat (end div segSize - s)" arbitrary: s)
  case 0
  let ?last = "end div segSize"
  have s: "s = ?last" using 0 by simp
  have le: "s * segSize \<le> end" "end < (s + 1) * segSize"
    using assms(1) div_mult_le less_succ_div_mult by (simp_all add: s)
  have one: "plan_loop start end segSize s ?last = [plan_one start end segSize s]"
    by (simp add: plan_loop.simps [of _ _ _ s] plan_loop.simps [of _ _ _ "s + 1"] flip: s)
  have "plan_one start end segSize s
      = \<lparr>sr_Index = s + 1, sr_Start = max (start - s * segSize) 0, sr_End = end - s * segSize\<rparr>"
    using le(2) by (simp add: plan_one_eq [OF assms(1) 0(2) le(1) assms(2-5)] algebra_simps)
  moreover have e: "end - s * segSize < segSize" using le(2) by (simp add: algebra_simps)
  ultimately show ?case
    unfolding one using 0(2) assms(1) e by (simp add: slice_segment max_def)
next
  case (Suc n)
  let ?m = "(s + 1) * segSize - 1"
  have less: "s + 1 \<le> end div segSize" using Suc(2) by simp
  have le: "s * segSize \<le> end" "(s + 1) * segSize \<le> end"
    using assms(1) less by (auto intro: mult_le_of_le_div)
  have IH: "concat (map (\<lambda>r. slice (segment xs segSize (sr_Index r)) (sr_Start r) (sr_End r))
      (plan_loop start end segSize (s + 1) (end div segSize))) = slice xs (?m + 1) end"
    using Suc less assms(1) by (subst Suc(1)) (auto simp: max_def algebra_simps)
  have "slice (segment xs segSize (s + 1)) (max (start - s * segSize) 0) (segSize - 1)
      = slice xs (max start (s * segSize)) ?m"
    using assms(1) Suc(3)
    by (subst slice_segment) (auto simp: max_def algebra_simps)
  moreover have "min (end - s * segSize) (segSize - 1) = segSize - 1"
    using le by (simp add: algebra_simps)
  moreover have "slice xs (max start (s * segSize)) ?m @ slice xs (?m + 1) end
      = slice xs (max start (s * segSize)) end"
    using le assms(1,2) Suc(3,5) by (intro slice_append) (auto simp: max_def algebra_simps)
  ultimately show ?case
    using Suc(4)
    by (simp add: plan_loop.simps [of _ _ _ s] IH plan_one_eq [OF assms(1) Suc(3) le(1) assms(2-5)])
qed

lemma plan_loop_ranges:
  assumes "0 < segSize" and "0 \<le> start" and "in64 start" and "in64 segSize" and "in64 (end + 1)"
    and "start \<le> end" and "0 \<le> s" and "r \<in> set (plan_loop start end segSize s (end div segSize))"
    and "start < (s + 1) * segSize"
  shows "0 \<le> sr_Start r \<and> sr_Start r \<le> sr_End r \<and> sr_End r < segSize
     \<and> s + 1 \<le> sr_Index r \<and> sr_Index r \<le> end div segSize + 1"
  using assms(7-)
proof (induction "nat (end div segSize + 1 - s)" arbitrary: s)
  case 0
  then show ?case by (simp add: plan_loop.simps [of _ _ _ s])
next
  case (Suc n)
  have s: "s \<le> end div segSize" using Suc(2) by simp
  have le: "s * segSize \<le> end" using assms(1) s by (rule mult_le_of_le_div)
  consider "r = plan_one start end segSize s"
    | "r \<in> set (plan_loop start end segSize (s + 1) (end div segSize))"
    using Suc(4) s by (subst (asm) plan_loop.simps) auto
  then show ?case
  proof cases
    case 1
    then show ?thesis
      using plan_one_eq [OF assms(1) Suc(3) le assms(2-5)] le s Suc(5) assms(1,6)
      by (auto simp: algebra_simps max_def min_def)
  next
    case 2
    have "start < (s + 1 + 1) * segSize" using Suc(5) assms(1) by (simp add: algebra_simps)
    then have "0 \<le> sr_Start r \<and> sr_Start r \<le> sr_End r \<and> sr_End r < segSize
        \<and> s + 1 + 1 \<le> sr_Index r \<and> sr_Index r \<le> end div segSize + 1"
      using Suc(2,3) 2 by (intro Suc(1)) auto
    then show ?thesis by auto
  qed
qed

text \<open>The range plan is exact.  For every range inside \<open>int64\<close>, the per-segment ranges come in
  segment order, each lies inside its segment, and reading them one after the other from the
  segments of a file gives exactly the bytes of the requested range of the file.\<close>

theorem planRanges_stitch:
  assumes "0 < segSize" and "0 \<le> start" and "start \<le> end" and "in64 segSize" and "in64 (end + 1)"
  shows "\<exists>rs. planRanges start end segSize = Inr rs \<and>
     (\<forall>r \<in> set rs. 0 \<le> sr_Start r \<and> sr_Start r \<le> sr_End r \<and> sr_End r < segSize \<and>
        start div segSize + 1 \<le> sr_Index r \<and> sr_Index r \<le> end div segSize + 1) \<and>
     concat (map (\<lambda>r. slice (segment content segSize (sr_Index r)) (sr_Start r) (sr_End r)) rs)
       = slice content start end"
proof -
  have s64: "in64 start" using assms by (simp add: in64_def)
  have s: "0 \<le> start div segSize" "start div segSize \<le> end div segSize"
    "start < (start div segSize + 1) * segSize"
    using assms less_succ_div_mult [of segSize start]
    by (simp_all add: pos_imp_zdiv_nonneg_iff zdiv_mono1)
  have "max start (start div segSize * segSize) = start"
    using div_mult_le [OF assms(1), of start] by simp
  then show ?thesis
    using plan_loop_bytes [OF assms(1,2) s64 assms(4,5,3) s, of content]
      plan_loop_ranges [OF assms(1,2) s64 assms(4,5,3) s(1) _ s(3)] assms(1-3)
    by (simp add: planRanges_def)
qed

theorem planRanges_stitch_witness:
  "\<exists>rs. planRanges 3 10 4 = Inr rs \<and>
     (\<forall>r \<in> set rs. 0 \<le> sr_Start r \<and> sr_Start r \<le> sr_End r \<and> sr_End r < 4 \<and>
        3 div 4 + 1 \<le> sr_Index r \<and> sr_Index r \<le> 10 div 4 + 1) \<and>
     concat (map (\<lambda>r. slice (segment [0 :: nat ..< 20] 4 (sr_Index r)) (sr_Start r) (sr_End r)) rs)
       = slice [0 ..< 20] 3 10"
  by (rule planRanges_stitch) (simp_all add: in64_def)

section \<open>The chunk plan\<close>

lemma chunk_size_loop_pow:
  assumes "10 \<le> k"
  shows "\<exists>j. 10 \<le> j \<and> j \<le> k \<and> chunk_size_loop d (2 ^ k) = 2 ^ j \<and> (j = 10 \<or> 2 ^ j \<le> d)
     \<and> (j < k \<longrightarrow> d < 2 ^ (j + 1))"
  using assms
proof (induction k rule: dec_induct)
  case base
  show ?case by (intro exI [of _ 10]) (simp add: chunk_size_loop.simps)
next
  case (step k)
  show ?case
  proof (cases "(2 :: int) ^ Suc k > d")
    case True
    have "(2 :: int) ^ 10 < 2 ^ Suc k" using step(1) by (intro power_strict_increasing) auto
    then have "chunk_size_loop d (2 ^ Suc k) = chunk_size_loop d (2 ^ k)"
      using True by (subst chunk_size_loop.simps) simp
    moreover obtain j where j: "10 \<le> j" "j \<le> k" "chunk_size_loop d (2 ^ k) = 2 ^ j"
      "j = 10 \<or> 2 ^ j \<le> d" "j < k \<longrightarrow> d < 2 ^ (j + 1)"
      using step.IH by blast
    moreover have "d < 2 ^ (j + 1)"
      using j(2,5) True by (cases "j = k") auto
    ultimately show ?thesis by (intro exI [of _ j]) auto
  next
    case False
    then show ?thesis
      using step(1) by (intro exI [of _ "Suc k"]) (subst chunk_size_loop.simps, simp)
  qed
qed

lemma ChunkSize_pow:
  obtains j where "10 \<le> j" "j \<le> 20" "ChunkSize start end = 2 ^ j" "j = 10 \<or> 2 ^ j \<le> end - start"
  using chunk_size_loop_pow [of 20 "end - start"] by (auto simp: ChunkSize_def)

lemma aligned_window:
  assumes "0 < cs" and "cs dvd (w :: int)" and "cs dvd off" and "0 < w"
  shows "(off + cs - 1) div w = off div w"
proof -
  obtain q where q: "w = cs * q" using assms(2) by blast
  obtain m where m: "off = cs * m" using assms(3) by blast
  have "(off + cs - 1) div cs = m"
  proof -
    have "off + cs - 1 = (cs - 1) + cs * m" by (simp add: m)
    moreover have "((cs - 1) + cs * m) div cs = m + (cs - 1) div cs"
      using assms(1) by (intro div_mult_self2) simp
    ultimately show ?thesis using assms(1) by (simp only: div_pos_pos_trivial)
  qed
  moreover have "off div cs = m" using assms(1) by (simp add: m)
  ultimately show ?thesis
    using assms(1,4) by (simp add: q zdiv_zmult2_eq zero_less_mult_iff)
qed

text \<open>The chunk plan is one Telegram accepts and covers the range.  Every fetch is aligned to
  its size and stays inside one 1 MiB window of the segment (\<open>upload.getFile\<close> refuses others); the
  chunks are contiguous, the first one contains the first wanted byte and the last one the last;
  and a chunk larger than 1 KiB is never larger than the range it is read for.\<close>

theorem planChunks_windows:
  assumes "0 \<le> start" and "start \<le> end" and "plan = planChunks start end (ChunkSize start end)"
  shows "(\<forall>i. 0 \<le> i \<and> i < cp_count plan \<longrightarrow>
       (let off = cp_base plan + i * cp_chunkSize plan in
          0 \<le> off \<and> cp_chunkSize plan dvd off \<and>
          (off + cp_chunkSize plan - 1) div 2 ^ 20 = off div 2 ^ 20)) \<and>
     cp_base plan + cp_leftCut plan = start \<and> 0 \<le> cp_leftCut plan \<and> cp_leftCut plan < cp_chunkSize plan \<and>
     cp_base plan + (cp_count plan - 1) * cp_chunkSize plan \<le> end \<and>
     end < cp_base plan + cp_count plan * cp_chunkSize plan \<and>
     (cp_chunkSize plan = 1024 \<or> cp_chunkSize plan \<le> end - start)"
proof -
  define cs where "cs = ChunkSize start end"
  define b where "b = start - start mod cs"
  obtain j where j: "10 \<le> j" "j \<le> 20" "cs = 2 ^ j" "j = 10 \<or> 2 ^ j \<le> end - start"
    unfolding cs_def by (rule ChunkSize_pow)
  have cs: "0 < cs" "cs dvd 2 ^ 20" unfolding j(3) using j(2) by (simp, intro le_imp_power_dvd)
  have plan: "cp_base plan = b" "cp_chunkSize plan = cs" "cp_leftCut plan = start - b"
    "cp_count plan = (end - b) div cs + 1"
    by (simp_all add: assms(3) planChunks_def b_def Let_def flip: cs_def)
  have "0 \<le> start mod cs" "start mod cs < cs" "start mod cs \<le> start"
    using assms(1) cs(1) by (simp_all add: zmod_le_nonneg_dividend)
  then have b: "0 \<le> b" "b \<le> start" "start < b + cs" by (simp_all add: b_def)
  have "b = cs * (start div cs)" by (simp add: b_def minus_mod_eq_mult_div)
  then have dvd: "cs dvd b + i * cs" for i by simp
  have "(end - b) div cs * cs \<le> end - b" "end - b < ((end - b) div cs + 1) * cs"
    using cs(1) by (rule div_mult_le, rule less_succ_div_mult)
  moreover have "(2 :: int) ^ j = 1024 \<or> 2 ^ j \<le> end - start" using j(4) by auto
  ultimately show ?thesis
    unfolding plan Let_def using b dvd cs aligned_window [OF cs dvd, simplified] j(3) by (auto simp: algebra_simps)
qed

theorem planChunks_windows_witness:
  "cp_base (planChunks 5000 9000 (ChunkSize 5000 9000)) + cp_leftCut (planChunks 5000 9000 (ChunkSize 5000 9000)) = 5000"
  using planChunks_windows [OF _ _ refl, of 5000 9000] by simp

end
