(* ===== verification/ReadFile.thy ===== *)
theory ReadFile
  imports Reader
begin

text \<open>
  \<open>chunkReader\<close> and \<open>File\<close> of \<open>internal/reader\<close>: a window of a segment read chunk by chunk, and
  the seekable file built from such windows.

  \<open>Source.Chunk\<close> and \<open>SourceFor\<close> are parameters.  \<open>good_source\<close> is what they must deliver: the
  bytes of the segment, cut short at its end, for the reads Telegram serves, whose limit divides
  both the offset and 1 MiB.  When futures are available and the context is cancelled as well,
  Go's \<open>select\<close> may take either; the model follows the future.
\<close>

type_synonym 'b source = "int \<Rightarrow> int \<Rightarrow> read_error + 'b list"
type_synonym 'b source_for = "int \<Rightarrow> read_error + 'b source"

section \<open>chunk.go\<close>

record 'b chunkReader =
  ch_src :: "'b source"
  ch_plan :: chunkPlan
  ch_next :: int
  ch_cur :: "'b list"
  ch_remain :: int

definition newChunkReader :: "'b source \<Rightarrow> int \<Rightarrow> int \<Rightarrow> 'b chunkReader" where
  "newChunkReader src start end =
     (let plan = planChunks start end (ChunkSize start end)
      in \<lparr>ch_src = src, ch_plan = plan, ch_next = 0, ch_cur = [], ch_remain = cp_length plan\<rparr>)"

text \<open>What the fetcher of chunk \<open>idx\<close> puts into its future.\<close>

definition chunk_future :: "'b source \<Rightarrow> chunkPlan \<Rightarrow> int \<Rightarrow> read_error + 'b list" where
  "chunk_future src plan idx =
     (case src (cp_base plan + idx * cp_chunkSize plan) (cp_chunkSize plan) of
        Inl e \<Rightarrow> Inl e
      | Inr data \<Rightarrow>
          if idx = 0 \<and> cp_leftCut plan > 0
          then (if cp_leftCut plan \<ge> int (length data) then Inl ErrUnexpectedEOF
                else Inr (drop (nat (cp_leftCut plan)) data))
          else Inr data)"

text \<open>The loop that waits for a nonempty current chunk; it takes one future or fails.\<close>

definition ch_fill :: "'b chunkReader \<Rightarrow> (read_error + unit) \<times> 'b chunkReader" where
  "ch_fill r =
     (if ch_cur r \<noteq> [] then (Inr (), r)
      else if ch_next r \<ge> cp_count (ch_plan r) then (Inl ErrUnexpectedEOF, r)
      else
        let r' = r\<lparr>ch_next := ch_next r + 1\<rparr> in
        case chunk_future (ch_src r) (ch_plan r) (ch_next r) of
          Inl e \<Rightarrow> (Inl e, r')
        | Inr data \<Rightarrow> if data = [] then (Inl ErrUnexpectedEOF, r') else (Inr (), r'\<lparr>ch_cur := data\<rparr>))"

definition ChunkReader_Read ::
  "int \<Rightarrow> 'b chunkReader \<Rightarrow> 'b list \<times> read_error option \<times> 'b chunkReader" where
  "ChunkReader_Read n r =
     (if ch_remain r \<le> 0 then ([], Some EOF, r)
      else case ch_fill r of
        (Inl e, r1) \<Rightarrow> ([], Some e, r1)
      | (Inr _, r1) \<Rightarrow>
          let cur = (if int (length (ch_cur r1)) > ch_remain r1
                     then take (nat (ch_remain r1)) (ch_cur r1) else ch_cur r1);
              out = take (nat n) cur;
              r2 = r1\<lparr>ch_cur := drop (length out) cur, ch_remain := ch_remain r1 - int (length out)\<rparr>
          in (out, if ch_remain r2 \<le> 0 then Some EOF else None, r2))"

section \<open>reader.go\<close>

record Options =
  o_Concurrency :: int
  o_Buffers :: int
  o_ChunkTimeout :: int

text \<open>Durations are nanoseconds.\<close>

definition withDefaults :: "Options \<Rightarrow> Options" where
  "withDefaults o1 =
     (let o2 = (if o_Concurrency o1 \<le> 0 then o1\<lparr>o_Concurrency := 6\<rparr> else o1);
          o3 = (if o_Buffers o2 \<le> 0 then o2\<lparr>o_Buffers := 8\<rparr> else o2)
      in if o_ChunkTimeout o3 \<le> 0 then o3\<lparr>o_ChunkTimeout := 30 * 1000000000\<rparr> else o3)"

definition initialWindow :: int where "initialWindow = 1048576"
definition maxWindow :: int where "maxWindow = 33554432"

record 'b File =
  fl_sourceFor :: "'b source_for"
  fl_opts :: Options
  fl_size :: int
  fl_segSize :: int
  fl_pos :: int
  fl_cur :: "'b chunkReader option"
  fl_window :: int

definition Open :: "'b source_for \<Rightarrow> int \<Rightarrow> int \<Rightarrow> Options \<Rightarrow> read_error + 'b File" where
  "Open sourceFor fsize segSize opts =
     (if segSize \<le> 0 then Inl ErrRange
      else if fsize < 0 then Inl ErrRange
      else Inr \<lparr>fl_sourceFor = sourceFor, fl_opts = withDefaults opts, fl_size = fsize,
                fl_segSize = segSize, fl_pos = 0, fl_cur = None, fl_window = initialWindow\<rparr>)"

definition Size :: "'b File \<Rightarrow> int" where
  "Size f = fl_size f"

definition closeCurrent :: "'b File \<Rightarrow> 'b File" where
  "closeCurrent f = f\<lparr>fl_cur := None\<rparr>"

definition openAt :: "int \<Rightarrow> 'b File \<Rightarrow> read_error + 'b File" where
  "openAt pos f =
     (let segIdx = pos div fl_segSize f + 1;
          segStart = pos mod fl_segSize f;
          base = wrap64 ((segIdx - 1) * fl_segSize f);
          segEnd = wrap64 (min (wrap64 (base + fl_segSize f)) (fl_size f) - 1 - base);
          end = (if fl_window f < maxWindow \<and> segStart + fl_window f - 1 < segEnd
                 then segStart + fl_window f - 1 else segEnd)
      in if end < segStart then Inl EOF
         else case fl_sourceFor f segIdx of
           Inl e \<Rightarrow> Inl e
         | Inr src \<Rightarrow> Inr (f\<lparr>fl_cur := Some (newChunkReader src segStart end)\<rparr>))"

definition widen :: "'b File \<Rightarrow> 'b File" where
  "widen f = (if fl_window f < maxWindow then f\<lparr>fl_window := fl_window f * 2\<rparr> else f)"

text \<open>The \<open>for\<close> loop of \<open>File.Read\<close>; \<open>None\<close> is a call that never returns.\<close>

partial_function (option) read_loop ::
  "int \<Rightarrow> 'b File \<Rightarrow> ('b list \<times> read_error option \<times> 'b File) option" where
  "read_loop n f =
     (if fl_pos f \<ge> fl_size f then Some ([], Some EOF, f)
      else
        case (case fl_cur f of None \<Rightarrow> openAt (fl_pos f) f | Some _ \<Rightarrow> Inr f) of
          Inl e \<Rightarrow> Some ([], Some e, f)
        | Inr f1 \<Rightarrow>
            (case fl_cur f1 of
               None \<Rightarrow> Some ([], Some ErrSource, f1)
             | Some r \<Rightarrow>
                 let (out, err, r') = ChunkReader_Read n r;
                     f2 = f1\<lparr>fl_cur := Some r', fl_pos := wrap64 (fl_pos f1 + int (length out))\<rparr>
                 in if err = Some EOF then
                      let f3 = widen (closeCurrent f2) in
                      if out \<noteq> [] then
                        Some (out, if fl_pos f3 \<ge> fl_size f3 then Some EOF else None, f3)
                      else read_loop n f3
                    else if err \<noteq> None then Some (out, err, f2)
                    else if out \<noteq> [] then Some (out, None, f2)
                    else read_loop n f2))"

definition File_Read :: "int \<Rightarrow> 'b File \<Rightarrow> ('b list \<times> read_error option \<times> 'b File) option" where
  "File_Read n f = (if n = 0 then Some ([], None, f) else read_loop n f)"

datatype whence = SeekStart | SeekCurrent | SeekEnd | SeekOther int

definition seek_to :: "int \<Rightarrow> 'b File \<Rightarrow> (read_error + int) \<times> 'b File" where
  "seek_to off f =
     (if off < 0 then (Inl ErrRange, f)
      else
        let f1 = (if off \<noteq> fl_pos f then (closeCurrent f)\<lparr>fl_window := initialWindow\<rparr> else f)
        in (Inr off, f1\<lparr>fl_pos := off\<rparr>))"

definition File_Seek :: "int \<Rightarrow> whence \<Rightarrow> 'b File \<Rightarrow> (read_error + int) \<times> 'b File" where
  "File_Seek offset w f =
     (case w of
        SeekStart \<Rightarrow> seek_to offset f
      | SeekCurrent \<Rightarrow> seek_to (wrap64 (fl_pos f + offset)) f
      | SeekEnd \<Rightarrow> seek_to (wrap64 (fl_size f + offset)) f
      | SeekOther _ \<Rightarrow> (Inl ErrRange, f))"

definition File_Close :: "'b File \<Rightarrow> 'b File" where
  "File_Close f = closeCurrent f"

section \<open>One window delivers its bytes in order\<close>

definition good_source :: "'b source \<Rightarrow> 'b list \<Rightarrow> bool" where
  "good_source src seg \<longleftrightarrow>
     (\<forall>off lim. 0 \<le> off \<and> off < int (length seg) \<and> 0 < lim \<and> lim dvd off \<and> lim dvd 2 ^ 20 \<longrightarrow>
        src off lim = Inr (slice seg off (off + lim - 1)))"

lemma good_sourceD:
  "\<lbrakk>good_source src seg; 0 \<le> off; off < int (length seg); 0 < lim; lim dvd off; lim dvd 2 ^ 20\<rbrakk> \<Longrightarrow>
     src off lim = Inr (slice seg off (off + lim - 1))"
  by (simp add: good_source_def)

lemma ChunkSize_facts: "0 < ChunkSize start end" "ChunkSize start end dvd 2 ^ 20"
  using ChunkSize_pow [of start "end"] by (metis zero_less_power zero_less_numeral, metis le_imp_power_dvd)

lemma slice_eq_Nil: "\<lbrakk>0 \<le> a; a < int (length xs)\<rbrakk> \<Longrightarrow> slice xs a b = [] \<longleftrightarrow> b < a"
  by (auto simp: slice_def)

lemma drop_slice: "0 \<le> a \<Longrightarrow> drop n (slice xs a b) = slice xs (a + int n) b"
proof -
  assume "0 \<le> a"
  then have "nat (b - (a + int n) + 1) = nat (b - a + 1) - n" "nat (a + int n) = n + nat a"
    by linarith+
  then show ?thesis by (simp add: slice_def drop_take)
qed

lemma take_slice:
  "\<lbrakk>0 \<le> a; int n \<le> b - a + 1\<rbrakk> \<Longrightarrow> take n (slice xs a b) = slice xs a (a + int n - 1)"
proof -
  assume "0 \<le> a" "int n \<le> b - a + 1"
  then have "min n (nat (b - a + 1)) = n" "nat (a + int n - 1 - a + 1) = n" by linarith+
  then show ?thesis by (simp add: slice_def)
qed

lemma slice_length_le: "int (length (slice xs a b)) \<le> max 0 (b - a + 1)"
  by (simp add: slice_def)

definition ch_edge :: "int \<Rightarrow> 'b chunkReader \<Rightarrow> int" where
  "ch_edge start r =
     (if ch_next r = 0 then start else cp_base (ch_plan r) + ch_next r * cp_chunkSize (ch_plan r))"

text \<open>The reader of \<open>[start, end]\<close> owes the bytes from offset \<open>pos\<close> on; its current chunk is what
  is left, from there, of the chunks taken so far.\<close>

definition ch_inv :: "'b list \<Rightarrow> int \<Rightarrow> int \<Rightarrow> int \<Rightarrow> 'b chunkReader \<Rightarrow> bool" where
  "ch_inv seg start end pos r \<longleftrightarrow>
     0 \<le> start \<and> start \<le> end \<and> end < int (length seg) \<and>
     ch_plan r = planChunks start end (ChunkSize start end) \<and> good_source (ch_src r) seg \<and>
     start \<le> pos \<and> pos \<le> end + 1 \<and> ch_remain r = end + 1 - pos \<and> 0 \<le> ch_next r \<and>
     pos \<le> max (end + 1) (ch_edge start r) \<and> (pos \<le> end \<longrightarrow> pos \<le> ch_edge start r) \<and>
     take (nat (ch_remain r)) (ch_cur r) = take (nat (ch_remain r)) (slice seg pos (ch_edge start r - 1))"

lemma ch_inv_new:
  "\<lbrakk>0 \<le> start; start \<le> end; end < int (length seg); good_source src seg\<rbrakk> \<Longrightarrow>
     ch_inv seg start end start (newChunkReader src start end)"
  by (simp add: ch_inv_def newChunkReader_def Let_def planChunks_def ch_edge_def slice_empty)

lemma chunk_future_good:
  assumes "ch_inv seg start end pos r" and "ch_edge start r \<le> end"
  shows "ch_next r < cp_count (ch_plan r) \<and>
    chunk_future (ch_src r) (ch_plan r) (ch_next r) =
      Inr (slice seg (ch_edge start r) (ch_edge start (r\<lparr>ch_next := ch_next r + 1\<rparr>) - 1)) \<and>
    ch_edge start r < ch_edge start (r\<lparr>ch_next := ch_next r + 1\<rparr>)"
proof -
  define cs where "cs = ChunkSize start end"
  define b where "b = start - start mod cs"
  let ?i = "ch_next r"
  have cs: "0 < cs" "cs dvd 2 ^ 20" using ChunkSize_facts by (simp_all add: cs_def)
  have inv: "0 \<le> start" "end < int (length seg)" "good_source (ch_src r) seg" "0 \<le> ?i" "start \<le> end"
    and plan: "cp_base (ch_plan r) = b" "cp_chunkSize (ch_plan r) = cs"
      "cp_leftCut (ch_plan r) = start - b" "cp_count (ch_plan r) = (end - b) div cs + 1"
    using assms(1) by (simp_all add: ch_inv_def planChunks_def b_def cs_def Let_def)
  have "0 \<le> start mod cs" "start mod cs < cs" "start mod cs \<le> start"
    using inv(1) cs(1) by (simp_all add: zmod_le_nonneg_dividend)
  then have b: "0 \<le> b" "b \<le> start" "start < b + cs" by (simp_all add: b_def)
  have "b = cs * (start div cs)" by (simp add: b_def minus_mod_eq_mult_div)
  then have dvd: "cs dvd b + ?i * cs" by simp
  have bi: "b + ?i * cs \<le> end"
    using assms(2) b(2) inv(5) by (simp add: ch_edge_def plan split: if_splits)
  then have "(?i * cs) div cs \<le> (end - b) div cs"
    using cs(1) by (intro zdiv_mono1) linarith+
  then have count: "?i < (end - b) div cs + 1" using cs(1) by simp
  have off: "0 \<le> b + ?i * cs" using b(1) inv(4) cs(1) by simp
  have src: "ch_src r (b + ?i * cs) cs = Inr (slice seg (b + ?i * cs) (b + ?i * cs + cs - 1))"
    using bi inv(2) by (intro good_sourceD [OF inv(3) off _ cs(1) dvd cs(2)]) linarith
  have edge: "ch_edge start (r\<lparr>ch_next := ?i + 1\<rparr>) = b + ?i * cs + cs"
    using inv(4) by (simp add: ch_edge_def plan distrib_right)
  show ?thesis
  proof (cases "?i = 0")
    case False
    then show ?thesis
      using count cs(1) by (simp add: chunk_future_def plan src edge) (simp add: ch_edge_def plan)
  next
    case True
    have e: "ch_edge start r = start" by (simp add: ch_edge_def True)
    have d: "drop (nat (start - b)) (slice seg b (b + cs - 1)) = slice seg start (b + cs - 1)"
      using b by (simp add: drop_slice)
    moreover have "slice seg start (b + cs - 1) \<noteq> []"
      using b inv by (simp add: slice_eq_Nil)
    ultimately have "\<not> length (slice seg b (b + cs - 1)) \<le> nat (start - b)"
      by (metis drop_all)
    then have "start - b < int (length (slice seg b (b + cs - 1)))" using b(2) by linarith
    then show ?thesis
      using count b d src edge by (simp add: chunk_future_def plan e True)
  qed
qed

lemma ch_fill_good:
  assumes "ch_inv seg start end pos r" and "pos \<le> end"
  obtains r' where "ch_fill r = (Inr (), r')" and "ch_inv seg start end pos r'" and "ch_cur r' \<noteq> []"
proof (cases "ch_cur r = []")
  case False
  then show thesis using assms(1) that [of r] by (simp add: ch_fill_def)
next
  case True
  let ?e = "ch_edge start r"
  let ?r1 = "r\<lparr>ch_next := ch_next r + 1\<rparr>"
  let ?e1 = "ch_edge start ?r1"
  have inv: "0 \<le> start" "start \<le> pos" "end < int (length seg)" "pos \<le> ?e"
    "take (nat (ch_remain r)) (slice seg pos (?e - 1)) = []" "ch_remain r = end + 1 - pos"
    using assms True by (auto simp: ch_inv_def)
  then have "slice seg pos (?e - 1) = []" using assms(2) by simp
  then have e: "?e = pos" using inv assms(2) by (simp add: slice_eq_Nil)
  note fut = chunk_future_good [OF assms(1)]
  have ne: "slice seg pos (?e1 - 1) \<noteq> []"
    using fut e assms(2) inv by (simp add: slice_eq_Nil)
  then have "ch_fill r = (Inr (), ?r1\<lparr>ch_cur := slice seg pos (?e1 - 1)\<rparr>)"
    using fut e assms(2) True by (simp add: ch_fill_def Let_def)
  moreover have "ch_inv seg start end pos (?r1\<lparr>ch_cur := slice seg pos (?e1 - 1)\<rparr>)"
  proof -
    have "ch_edge start (?r1\<lparr>ch_cur := slice seg pos (?e1 - 1)\<rparr>) = ?e1"
      by (simp add: ch_edge_def)
    then show ?thesis using assms(1) fut e assms(2) by (simp add: ch_inv_def)
  qed
  ultimately show thesis using ne that by simp
qed

text \<open>One \<open>Read\<close> of a window.\<close>

lemma ChunkReader_Read_good:
  assumes "ch_inv seg start end pos r" and "pos \<le> end" and "0 < n"
  obtains out r' where "ChunkReader_Read n r =
      (out, if pos + int (length out) > end then Some EOF else None, r')"
    and "out = slice seg pos (pos + int (length out) - 1)" and "out \<noteq> []" and "int (length out) \<le> n"
    and "pos + int (length out) \<le> end + 1" and "ch_inv seg start end (pos + int (length out)) r'"
proof -
  obtain r1 where fill: "ch_fill r = (Inr (), r1)" and i1: "ch_inv seg start end pos r1"
    and ne: "ch_cur r1 \<noteq> []"
    using ch_fill_good [OF assms(1,2)] .
  let ?e = "ch_edge start r1"
  define m where "m = nat (ch_remain r1)"
  have inv: "0 \<le> start" "start \<le> pos" "end < int (length seg)" "pos \<le> ?e"
    "take m (ch_cur r1) = take m (slice seg pos (?e - 1))" "ch_remain r1 = end + 1 - pos"
    "ch_remain r = end + 1 - pos"
    using i1 assms(1,2) by (auto simp: ch_inv_def m_def)
  have m: "int m = end + 1 - pos" "0 < m" using assms(2) inv(6) by (simp_all add: m_def)
  define cur where "cur = take m (ch_cur r1)"
  have cur1: "(if int (length (ch_cur r1)) > ch_remain r1
      then take (nat (ch_remain r1)) (ch_cur r1) else ch_cur r1) = cur"
    using inv(6) m by (auto simp: cur_def m_def)
  define out where "out = take (nat n) cur"
  have out_ne: "out \<noteq> []" using ne m(2) assms(3) by (simp add: out_def cur_def)
  have out_cur: "out = take (length out) cur" unfolding out_def by (simp add: min_def)
  have len: "length out \<le> m" "int (length out) \<le> n"
    using assms(3) by (simp_all add: out_def cur_def)
  have "length out \<le> length (slice seg pos (?e - 1))"
    by (simp add: out_def cur_def inv(5))
  then have len2: "int (length out) \<le> ?e - pos"
    using slice_length_le [of seg pos "?e - 1"] inv(4) by linarith
  have "out = take (length out) (slice seg pos (?e - 1))"
    using out_cur len(1) by (simp add: cur_def inv(5) min_def)
  then have out_slice: "out = slice seg pos (pos + int (length out) - 1)"
    using len2 inv(1,2) by (simp add: take_slice)
  define r2 where "r2 = r1\<lparr>ch_cur := drop (length out) cur, ch_remain := ch_remain r1 - int (length out)\<rparr>"
  have "ChunkReader_Read n r = (out, if ch_remain r2 \<le> 0 then Some EOF else None, r2)"
    using assms(2) inv(7) cur1 by (simp add: ChunkReader_Read_def fill Let_def r2_def out_def)
  moreover have "ch_remain r2 = end + 1 - (pos + int (length out))"
    by (simp add: r2_def inv(6))
  moreover have "ch_inv seg start end (pos + int (length out)) r2"
  proof -
    have e2: "ch_edge start r2 = ?e" by (simp add: ch_edge_def r2_def)
    have "take (m - length out) (drop (length out) cur)
        = take (m - length out) (slice seg (pos + int (length out)) (?e - 1))"
      using inv(1,2) by (simp add: cur_def inv(5) drop_take drop_slice)
    moreover have "nat (ch_remain r2) = m - length out"
      using m(1) by (simp add: r2_def inv(6))
    moreover have "ch_cur r2 = drop (length out) cur" "ch_plan r2 = ch_plan r1"
      "ch_src r2 = ch_src r1" "ch_next r2 = ch_next r1"
      by (simp_all add: r2_def)
    ultimately show ?thesis
      using i1 len m(1) len2 \<open>ch_remain r2 = _\<close> e2 by (simp add: ch_inv_def)
  qed
  ultimately show thesis
    using that [of out r2] out_slice out_ne len m(1) by simp
qed

section \<open>The file\<close>

definition good_sources :: "'b source_for \<Rightarrow> 'b list \<Rightarrow> int \<Rightarrow> bool" where
  "good_sources sf content segSize \<longleftrightarrow>
     (\<forall>i. 1 \<le> i \<and> (i - 1) * segSize < int (length content) \<longrightarrow>
        (\<exists>src. sf i = Inr src \<and> good_source src (segment content segSize i)))"

text \<open>
  A file over \<open>content\<close>: a window is open only at the current position, and it ends inside the
  segment and the file.  \<open>2 * size\<close> fits an \<open>int64\<close>, so the offsets of the last segment do too.
\<close>

definition window_inv :: "'b list \<Rightarrow> int \<Rightarrow> int \<Rightarrow> 'b chunkReader \<Rightarrow> bool" where
  "window_inv content segSize pos r \<longleftrightarrow>
     (\<exists>s start end. 0 \<le> s \<and> s * segSize + end < int (length content) \<and> end < segSize \<and>
        pos - s * segSize \<le> end \<and>
        ch_inv (segment content segSize (s + 1)) start end (pos - s * segSize) r)"

definition file_inv :: "'b list \<Rightarrow> 'b File \<Rightarrow> bool" where
  "file_inv content f \<longleftrightarrow>
     0 < fl_segSize f \<and> fl_size f = int (length content) \<and> in64 (int (length content) + fl_segSize f) \<and>
     good_sources (fl_sourceFor f) content (fl_segSize f) \<and> 0 \<le> fl_pos f \<and> in64 (fl_pos f) \<and>
     0 < fl_window f \<and>
     (case fl_cur f of None \<Rightarrow> True | Some r \<Rightarrow> window_inv content (fl_segSize f) (fl_pos f) r)"

lemma length_segment:
  assumes "0 < segSize" and "0 \<le> s" and "s * segSize \<le> int (length content)"
  shows "int (length (segment content segSize (s + 1))) = min segSize (int (length content) - s * segSize)"
proof -
  obtain k where k: "s * segSize = int k" using assms by (metis mult_nonneg_nonneg less_imp_le zero_le_imp_eq_int)
  obtain g where g: "segSize = int g" using assms(1) by (metis less_imp_le zero_le_imp_eq_int)
  have e: "(s + 1) * segSize - 1 - (s + 1 - 1) * segSize + 1 = int g" "(s + 1 - 1) * segSize = int k"
    using k g by (simp_all add: algebra_simps)
  have h: "(s + 1) * int g - int k = int g" using k g by (simp add: algebra_simps)
  have "k \<le> length content" using assms(3) k by simp
  then show ?thesis
    unfolding segment_def slice_def e unfolding k unfolding g using h by (simp add: of_nat_diff)
qed

lemma openAt_geometry:
  assumes "0 < fl_segSize f" and "0 \<le> fl_size f" and "in64 (fl_size f + fl_segSize f)"
    and "0 \<le> fl_pos f" and "0 < fl_window f" and "fl_pos f < fl_size f"
  obtains s a e where "fl_pos f = s * fl_segSize f + a" and "0 \<le> s" and "0 \<le> a" and "a \<le> e"
    and "e < fl_segSize f" and "s * fl_segSize f + e < fl_size f"
    and "openAt (fl_pos f) f = (case fl_sourceFor f (s + 1) of Inl er \<Rightarrow> Inl er
           | Inr src \<Rightarrow> Inr (f\<lparr>fl_cur := Some (newChunkReader src a e)\<rparr>))"
proof -
  let ?pos = "fl_pos f" and ?seg = "fl_segSize f" and ?size = "fl_size f"
  define s where "s = ?pos div ?seg"
  define a where "a = ?pos mod ?seg"
  have sa: "s * ?seg + a = ?pos" "0 \<le> s" "0 \<le> a" "a < ?seg"
    using assms(1,4) by (simp_all add: s_def a_def pos_imp_zdiv_nonneg_iff)
  have base: "0 \<le> s * ?seg" "s * ?seg \<le> ?pos" using sa assms(1) by simp_all
  define segEnd where "segEnd = min (s * ?seg + ?seg) ?size - 1 - s * ?seg"
  have segEnd: "a \<le> segEnd" "segEnd < ?seg" "s * ?seg + segEnd < ?size"
    using sa assms(6) by (auto simp: segEnd_def)
  define e where "e = (if fl_window f < maxWindow \<and> a + fl_window f - 1 < segEnd
                 then a + fl_window f - 1 else segEnd)"
  have e: "a \<le> e" "e < ?seg" "s * ?seg + e < ?size"
    using segEnd assms(5) by (auto simp: e_def)
  have w: "wrap64 (s * ?seg) = s * ?seg" "wrap64 (s * ?seg + ?seg) = s * ?seg + ?seg"
    "wrap64 (min (s * ?seg + ?seg) ?size - 1 - s * ?seg) = segEnd"
    using assms base segEnd unfolding segEnd_def
    by (auto simp: in64_def intro!: wrap64_id)
  have "openAt ?pos f = (case fl_sourceFor f (s + 1) of Inl er \<Rightarrow> Inl er
           | Inr src \<Rightarrow> Inr (f\<lparr>fl_cur := Some (newChunkReader src a e)\<rparr>))"
    using e(1) by (auto simp: openAt_def Let_def w e_def simp flip: s_def a_def split: sum.split)
  with sa e show thesis by (intro that [of s a e]) auto
qed

lemma openAt_good:
  assumes "file_inv content f" and "fl_pos f < fl_size f"
  obtains r where "openAt (fl_pos f) f = Inr (f\<lparr>fl_cur := Some r\<rparr>)"
    and "window_inv content (fl_segSize f) (fl_pos f) r"
proof -
  let ?pos = "fl_pos f" and ?seg = "fl_segSize f" and ?size = "fl_size f"
  have inv: "0 < ?seg" "?size = int (length content)" "in64 (int (length content) + ?seg)"
    "good_sources (fl_sourceFor f) content ?seg" "0 \<le> ?pos" "0 < fl_window f"
    using assms(1) by (simp_all add: file_inv_def)
  obtain s a e where g: "?pos = s * ?seg + a" "0 \<le> s" "0 \<le> a" "a \<le> e" "e < ?seg" "s * ?seg + e < ?size"
    and op: "openAt ?pos f = (case fl_sourceFor f (s + 1) of Inl er \<Rightarrow> Inl er
           | Inr src \<Rightarrow> Inr (f\<lparr>fl_cur := Some (newChunkReader src a e)\<rparr>))"
    using openAt_geometry [of f] inv assms(2) by auto
  have lt: "s * ?seg < int (length content)" using g(3,4,6) inv(2) by simp
  have "1 \<le> s + 1 \<and> (s + 1 - 1) * ?seg < int (length content)" using g(2) lt by simp
  then obtain src where src: "fl_sourceFor f (s + 1) = Inr src"
    "good_source src (segment content ?seg (s + 1))"
    using inv(4) unfolding good_sources_def by blast
  have len: "int (length (segment content ?seg (s + 1))) = min ?seg (int (length content) - s * ?seg)"
    using inv(1) g(2) lt by (intro length_segment) auto
  have "ch_inv (segment content ?seg (s + 1)) a e a (newChunkReader src a e)"
    using g len inv(2) by (intro ch_inv_new src(2)) auto
  then have "window_inv content ?seg ?pos (newChunkReader src a e)"
    using g inv(2) unfolding window_inv_def
    by (intro exI [of _ s] exI [of _ a] exI [of _ e]) auto
  then show thesis using op src(1) that by simp
qed

lemma window_inv_close [simp]: "file_inv content f \<Longrightarrow> file_inv content (closeCurrent f)"
  by (simp add: file_inv_def closeCurrent_def)

lemma file_inv_widen: "file_inv content f \<Longrightarrow> file_inv content (widen f)"
  by (simp add: file_inv_def widen_def split: option.splits)

lemma widen_simps [simp]: "fl_pos (widen f) = fl_pos f" "fl_size (widen f) = fl_size f"
  by (simp_all add: widen_def)

text \<open>One \<open>Read\<close> from an open window: the bytes at the position, and the window keeps up.\<close>

lemma window_read:
  assumes "window_inv content segSize pos r" and "0 < segSize" and "0 < n" and "0 \<le> pos"
  obtains out err r' where "ChunkReader_Read n r = (out, err, r')"
    and "out \<noteq> []" and "int (length out) \<le> n" and "pos + int (length out) \<le> int (length content)"
    and "out = slice content pos (pos + int (length out) - 1)"
    and "err = Some EOF \<or> err = None \<and> window_inv content segSize (pos + int (length out)) r'"
proof -
  obtain s a e where s: "0 \<le> s" "s * segSize + e < int (length content)" "e < segSize"
      "pos - s * segSize \<le> e"
    and ch: "ch_inv (segment content segSize (s + 1)) a e (pos - s * segSize) r"
    using assms(1) by (auto simp: window_inv_def)
  let ?p = "pos - s * segSize"
  obtain out r' where rd: "ChunkReader_Read n r =
      (out, if ?p + int (length out) > e then Some EOF else None, r')"
    and out: "out = slice (segment content segSize (s + 1)) ?p (?p + int (length out) - 1)" "out \<noteq> []"
      "int (length out) \<le> n" "?p + int (length out) \<le> e + 1"
    and ch': "ch_inv (segment content segSize (s + 1)) a e (?p + int (length out)) r'"
    using ChunkReader_Read_good [OF ch s(4) assms(3)] .
  have "0 \<le> ?p" using ch by (auto simp: ch_inv_def)
  then have "slice (segment content segSize (s + 1)) ?p (?p + int (length out) - 1)
      = slice content pos (pos + int (length out) - 1)"
    using assms(2) s out(4) by (subst slice_segment) (auto simp: algebra_simps)
  then have o2: "out = slice content pos (pos + int (length out) - 1)" using out(1) by simp
  have "window_inv content segSize (pos + int (length out)) r'" if "\<not> ?p + int (length out) > e"
    unfolding window_inv_def using s ch' that
    by (intro exI [of _ s] exI [of _ a] exI [of _ e]) (auto simp: algebra_simps)
  then show thesis
    using that [OF rd out(2,3) _ o2] s(2) out(4) by (auto split: if_splits)
qed

text \<open>The body of the loop returns in its first pass: the call comes back, with the next bytes.\<close>

lemma read_loop_good:
  assumes "file_inv content f" and "fl_pos f < fl_size f" and "0 < n"
  obtains out err f' where "read_loop n f = Some (out, err, f')" and "file_inv content f'"
    and "out \<noteq> []" and "int (length out) \<le> n" and "fl_pos f' = fl_pos f + int (length out)"
    and "out = slice content (fl_pos f) (fl_pos f' - 1)"
    and "err = (if fl_pos f' \<ge> fl_size f' then Some EOF else None) \<or> err = None"
    and "fl_size f' = fl_size f" and "fl_pos f' \<le> fl_size f"
proof -
  let ?pos = "fl_pos f" and ?seg = "fl_segSize f"
  have inv: "0 < ?seg" "fl_size f = int (length content)" "in64 (int (length content) + ?seg)" "0 \<le> ?pos"
    using assms(1) by (simp_all add: file_inv_def)
  obtain r where op: "(case fl_cur f of None \<Rightarrow> openAt ?pos f | Some _ \<Rightarrow> Inr f) = Inr (f\<lparr>fl_cur := Some r\<rparr>)"
    and win: "window_inv content ?seg ?pos r"
  proof (cases "fl_cur f")
    case None
    then show thesis using openAt_good [OF assms(1,2)] that by auto
  next
    case (Some r)
    then show thesis using assms(1) that [of r] by (simp add: file_inv_def)
  qed
  obtain out err r' where rd: "ChunkReader_Read n r = (out, err, r')"
    and out: "out \<noteq> []" "int (length out) \<le> n" "?pos + int (length out) \<le> int (length content)"
      "out = slice content ?pos (?pos + int (length out) - 1)"
    and err: "err = Some EOF \<or> err = None \<and> window_inv content ?seg (?pos + int (length out)) r'"
    using window_read [OF win inv(1) assms(3) inv(4)] .
  have w: "wrap64 (?pos + int (length out)) = ?pos + int (length out)"
    using inv out(3) by (intro wrap64_id) (auto simp: in64_def)
  define f2 where "f2 = f\<lparr>fl_cur := Some r', fl_pos := ?pos + int (length out)\<rparr>"
  have in64': "in64 (?pos + int (length out))" using inv out(3) by (auto simp: in64_def)
  show thesis
  proof (cases "err = Some EOF")
    case True
    let ?f3 = "widen (closeCurrent f2)"
    have "file_inv content ?f3"
      using assms(1) inv in64' by (intro file_inv_widen) (simp add: file_inv_def closeCurrent_def f2_def)
    moreover have "read_loop n f = Some (out, if fl_pos ?f3 \<ge> fl_size ?f3 then Some EOF else None, ?f3)"
      using assms(2) out(1) True
      by (subst read_loop.simps) (simp add: op rd w Let_def f2_def closeCurrent_def)
    moreover have "fl_pos ?f3 = ?pos + int (length out)" "fl_size ?f3 = fl_size f"
      by (simp_all add: f2_def closeCurrent_def)
    ultimately show thesis
      using out inv(2) by (intro that [of out _ ?f3]) auto
  next
    case False
    then have "file_inv content f2"
      using assms(1) err inv in64' by (simp add: file_inv_def f2_def)
    moreover have "read_loop n f = Some (out, None, f2)"
      using assms(2) out(1) False err
      by (subst read_loop.simps) (simp add: op rd w Let_def f2_def)
    moreover have "fl_pos f2 = ?pos + int (length out)" "fl_size f2 = fl_size f"
      by (simp_all add: f2_def)
    ultimately show thesis
      using out inv(2) by (intro that [of out _ f2]) auto
  qed
qed

lemma File_Seek_inv:
  assumes "file_inv content f" and "in64 offset"
  shows "file_inv content (snd (File_Seek offset w f))"
proof -
  have "file_inv content (snd (seek_to x f))" if "in64 x" for x
    using assms(1) that
    by (auto simp: seek_to_def file_inv_def closeCurrent_def initialWindow_def Let_def split: option.split)
  then show ?thesis using assms by (cases w) (simp_all add: File_Seek_def)
qed

lemma File_Read_good:
  assumes "file_inv content f" and "fl_pos f < fl_size f" and "0 < n"
  obtains out err f' where "File_Read n f = Some (out, err, f')" and "out \<noteq> []"
    and "int (length out) \<le> n" and "slice content (fl_pos f) (fl_pos f + int (length out) - 1) = out"
    and "fl_pos f' = fl_pos f + int (length out)" and "fl_pos f' \<le> int (length content)"
    and "err = None \<or> err = Some EOF \<and> fl_pos f' = int (length content)" and "file_inv content f'"
proof -
  obtain out err f' where r: "read_loop n f = Some (out, err, f')" "file_inv content f'"
    "out \<noteq> []" "int (length out) \<le> n" "fl_pos f' = fl_pos f + int (length out)"
    "out = slice content (fl_pos f) (fl_pos f' - 1)"
    "err = (if fl_pos f' \<ge> fl_size f' then Some EOF else None) \<or> err = None"
    "fl_size f' = fl_size f" "fl_pos f' \<le> fl_size f"
    using read_loop_good [OF assms] .
  have "fl_size f = int (length content)" using assms(1) by (simp add: file_inv_def)
  then have "err = None \<or> err = Some EOF \<and> fl_pos f' = int (length content)"
    using r(7-9) by (auto split: if_splits)
  moreover have "File_Read n f = Some (out, err, f')" using r(1) assms(3) by (simp add: File_Read_def)
  ultimately show thesis
    using r(2-5,9) r(6) [unfolded r(5), symmetric] \<open>fl_size f = _\<close> by (intro that [of out err f']) simp_all
qed

section \<open>Histories of calls\<close>

datatype file_op = OpRead nat | OpSeek int whence | OpClose

definition file_step :: "file_op \<Rightarrow> 'b File \<Rightarrow> 'b File" where
  "file_step op f =
     (case op of
        OpRead n \<Rightarrow> (case File_Read (int n) f of Some (_, _, f') \<Rightarrow> f' | None \<Rightarrow> f)
      | OpSeek off w \<Rightarrow> snd (File_Seek (wrap64 off) w f)
      | OpClose \<Rightarrow> File_Close f)"

lemma file_step_inv: "file_inv content f \<Longrightarrow> file_inv content (file_step op f)"
proof (cases op)
  case (OpRead n)
  assume f: "file_inv content f"
  consider "n = 0" | "fl_size f \<le> fl_pos f" "n \<noteq> 0" | "fl_pos f < fl_size f" "0 < int n" by linarith
  then show ?thesis
  proof cases
    case 1
    then show ?thesis using f by (simp add: OpRead file_step_def File_Read_def)
  next
    case 2
    then show ?thesis using f by (simp add: OpRead file_step_def File_Read_def read_loop.simps [of _ f])
  next
    case 3
    obtain out err f' where "File_Read (int n) f = Some (out, err, f')" "file_inv content f'"
      by (rule File_Read_good [OF f 3]) (rule that)
    then show ?thesis by (simp add: OpRead file_step_def)
  qed
qed (auto simp: file_step_def File_Close_def intro: File_Seek_inv)

interpretation file_calls: machine file_step "file_inv content" for content
  by unfold_locales (rule file_step_inv)

lemma Open_inv:
  assumes "Open sf (int (length content)) segSize opts = Inr f" and "good_sources sf content segSize"
    and "in64 (int (length content) + segSize)"
  shows "file_inv content f"
  using assms by (auto simp: Open_def file_inv_def initialWindow_def in64_def split: if_splits)

text \<open>Every read of a file returns exactly the file's next bytes, whatever was done with it
  before.  Let the sources serve the segments of \<open>content\<close>.  After \<open>Open\<close> and any sequence of reads,
  seeks and closes, a \<open>Read\<close> into a nonempty buffer before the end comes back, with at least one
  byte and at most a buffer full, the bytes at the current position, whichever segment, window and
  chunk they are in; the position moves by as many, and the only error it reports is the end of
  the file, at its end.\<close>

theorem File_Read_next_bytes:
  assumes "Open sf (int (length content)) segSize opts = Inr f0" and "good_sources sf content segSize"
    and "in64 (int (length content) + segSize)"
    and "f = fold file_step ops f0" and "fl_pos f < int (length content)" and "0 < n"
  shows "\<exists>out err f'. File_Read n f = Some (out, err, f') \<and> out \<noteq> [] \<and> int (length out) \<le> n \<and>
     out = slice content (fl_pos f) (fl_pos f + int (length out) - 1) \<and>
     fl_pos f' = fl_pos f + int (length out) \<and>
     (err = None \<or> err = Some EOF \<and> fl_pos f' = int (length content))"
proof -
  have inv: "file_inv content f"
    unfolding assms(4) by (rule file_calls.inv_run [OF Open_inv [OF assms(1-3)]])
  then have "fl_pos f < fl_size f" using assms(5) by (simp add: file_inv_def)
  from File_Read_good [OF inv this assms(6)] show ?thesis by metis
qed

text \<open>Sources for a file kept in memory.\<close>

definition mem_sources :: "'b list \<Rightarrow> int \<Rightarrow> 'b source_for" where
  "mem_sources content segSize i =
     Inr (\<lambda>off lim. Inr (slice (segment content segSize i) off (off + lim - 1)))"

lemma good_mem_sources: "good_sources (mem_sources content segSize) content segSize"
  by (simp add: good_sources_def mem_sources_def good_source_def)

definition no_options :: Options where
  "no_options = \<lparr>o_Concurrency = 0, o_Buffers = 0, o_ChunkTimeout = 0\<rparr>"

theorem File_Read_next_bytes_witness:
  "\<exists>f0 f out err f'. Open (mem_sources [0 :: nat ..< 10] 4) 10 4 no_options = Inr f0 \<and>
     f = fold file_step [OpSeek 3 SeekStart] f0 \<and>
     File_Read 5 f = Some (out, err, f') \<and> out \<noteq> [] \<and> out = slice [0 ..< 10] 3 (3 + int (length out) - 1)"
proof -
  obtain f0 where f0: "Open (mem_sources [0 :: nat ..< 10] 4) (int (length [0 :: nat ..< 10])) 4 no_options = Inr f0"
    by (simp add: Open_def)
  have pos: "fl_pos (fold file_step [OpSeek 3 SeekStart] f0) = 3"
    by (simp add: file_step_def File_Seek_def seek_to_def Let_def in64_def)
  then have lt: "fl_pos (fold file_step [OpSeek 3 SeekStart] f0) < int (length [0 :: nat ..< 10])" by simp
  have in64: "in64 (int (length [0 :: nat ..< 10]) + 4)" by (simp add: in64_def)
  have "(0 :: int) < 5" by simp
  from File_Read_next_bytes [OF f0 good_mem_sources in64 refl lt this] f0 pos show ?thesis
    by simp metis
qed

text \<open>A caller that keeps reading with a buffer of \<open>n\<close> bytes until the end of the file (as
  \<open>io.Copy\<close> does), in at most \<open>k\<close> calls.\<close>

fun read_all :: "nat \<Rightarrow> int \<Rightarrow> 'b File \<Rightarrow> 'b list" where
  "read_all 0 n f = []"
| "read_all (Suc k) n f =
     (case File_Read n f of
        Some (out, None, f') \<Rightarrow> out @ read_all k n f'
      | Some (out, Some _, f') \<Rightarrow> out
      | None \<Rightarrow> [])"

lemma read_all_good:
  assumes "file_inv content f" and "fl_pos f \<le> int (length content)" and "0 < n"
    and "int (length content) - fl_pos f \<le> int k"
  shows "read_all k n f = slice content (fl_pos f) (int (length content) - 1)"
  using assms
proof (induction k arbitrary: f)
  case 0
  then show ?case by (simp add: slice_empty)
next
  case (Suc k)
  show ?case
  proof (cases "fl_pos f < int (length content)")
    case False
    then show ?thesis
      using Suc.prems by (simp add: File_Read_def read_loop.simps [of _ f] file_inv_def slice_empty)
  next
    case True
    then have lt: "fl_pos f < fl_size f" using Suc.prems(1) by (simp add: file_inv_def)
    obtain out err f' where r: "File_Read n f = Some (out, err, f')" "out \<noteq> []"
      "slice content (fl_pos f) (fl_pos f + int (length out) - 1) = out"
      "fl_pos f' = fl_pos f + int (length out)" "fl_pos f' \<le> int (length content)"
      "err = None \<or> err = Some EOF \<and> fl_pos f' = int (length content)" "file_inv content f'"
      by (rule File_Read_good [OF Suc.prems(1) lt assms(3)]) (rule that)
    have pos: "0 \<le> fl_pos f" using Suc.prems(1) by (simp add: file_inv_def)
    have len: "1 \<le> int (length out)" using r(2) by (cases out) auto
    have app: "slice content (fl_pos f) (fl_pos f' - 1) @ slice content (fl_pos f') (int (length content) - 1)
        = slice content (fl_pos f) (int (length content) - 1)"
      using slice_append [of "fl_pos f" "fl_pos f' - 1" "int (length content) - 1" content] pos r(4,5) len
      by simp
    show ?thesis
    proof (cases "err = None")
      case True
      have "read_all k n f' = slice content (fl_pos f') (int (length content) - 1)"
        using Suc.prems(4) r(4,5,7) len assms(3) by (intro Suc.IH) auto
      then show ?thesis using app r(1,3,4) True by simp
    next
      case False
      then have "slice content (fl_pos f) (int (length content) - 1) = out" "err = Some EOF"
        using r(3,4,6) by auto
      then show ?thesis using r(1) by simp
    qed
  qed
qed

lemma read_all_stored:
  assumes "Open sf (int (length content)) segSize opts = Inr f" and "good_sources sf content segSize"
    and "in64 (int (length content) + segSize)" and "0 < n"
  shows "read_all (length content) n f = content"
proof -
  have "fl_pos f = 0" using assms(1) by (auto simp: Open_def split: if_splits)
  moreover have "slice content 0 (int (length content) - 1) = content" by (simp add: slice_def)
  ultimately show ?thesis
    using read_all_good [OF Open_inv [OF assms(1-3)] _ assms(4), of "length content"] by simp
qed

text \<open>Reading a file from start to end gives its content.  With sources that serve the segments,
  a caller that reads a freshly opened file with a buffer of any positive size gets exactly the
  content, the segments stitched together, after at most one call per byte, and no call hangs.\<close>

theorem read_all_content:
  assumes "Open sf (int (length content)) segSize opts = Inr f" and "good_sources sf content segSize"
    and "in64 (int (length content) + segSize)" and "0 < n"
  shows "read_all (length content) n f = content"
  using read_all_stored [OF assms] .

theorem read_all_content_witness:
  "\<exists>f. Open (mem_sources [0 :: nat ..< 10] 4) (int (length [0 :: nat ..< 10])) 4 no_options = Inr f \<and>
     read_all (length [0 :: nat ..< 10]) 3 f = [0 ..< 10]"
proof -
  obtain f where f: "Open (mem_sources [0 :: nat ..< 10] 4) (int (length [0 :: nat ..< 10])) 4 no_options = Inr f"
    by (simp add: Open_def)
  have in64: "in64 (int (length [0 :: nat ..< 10]) + 4)" by (simp add: in64_def)
  have "(0 :: int) < 3" by simp
  from read_all_content [OF f good_mem_sources in64 this] f show ?thesis by blast
qed

section \<open>A source error that is io.EOF\<close>

text \<open>The states in which every fetch fails with \<open>io.EOF\<close> and no window is open.\<close>

definition eof_stuck :: "'b File \<Rightarrow> bool" where
  "eof_stuck f \<longleftrightarrow>
     0 < fl_segSize f \<and> 0 \<le> fl_size f \<and> in64 (fl_size f + fl_segSize f) \<and> 0 \<le> fl_pos f \<and>
     fl_pos f < fl_size f \<and> 0 < fl_window f \<and> fl_cur f = None \<and>
     (\<forall>i. \<exists>src. fl_sourceFor f i = Inr src \<and> (\<forall>off lim. src off lim = Inl EOF))"

lemma eof_window_read:
  assumes "\<forall>off lim. src off lim = Inl EOF" and "a \<le> e"
  shows "\<exists>r'. ChunkReader_Read n (newChunkReader src a e) = ([], Some EOF, r')"
proof -
  define cs where "cs = ChunkSize a e"
  have "0 < cs" unfolding cs_def by (rule ChunkSize_facts)
  then have "0 \<le> (e - (a - a mod cs)) div cs"
    using assms(2) pos_mod_sign [of cs a] by (simp add: pos_imp_zdiv_nonneg_iff del: pos_mod_sign)
  then show ?thesis
    using assms
    by (simp add: ChunkReader_Read_def newChunkReader_def ch_fill_def chunk_future_def planChunks_def
        Let_def flip: cs_def)
qed

text \<open>One pass of the loop ends in another such state, at the same position.\<close>

lemma eof_pass:
  assumes "eof_stuck f"
  obtains f1 r r' where "openAt (fl_pos f) f = Inr f1" and "fl_cur f1 = Some r"
    and "ChunkReader_Read n r = ([], Some EOF, r')"
    and "eof_stuck (widen (closeCurrent (f1\<lparr>fl_cur := Some r', fl_pos := wrap64 (fl_pos f1 + 0)\<rparr>)))"
proof -
  have st: "0 < fl_segSize f" "0 \<le> fl_size f" "in64 (fl_size f + fl_segSize f)" "0 \<le> fl_pos f"
    "fl_pos f < fl_size f" "0 < fl_window f"
    and src: "\<forall>i. \<exists>src. fl_sourceFor f i = Inr src \<and> (\<forall>off lim. src off lim = Inl EOF)"
    using assms by (auto simp: eof_stuck_def)
  obtain s a e where "a \<le> e" and op: "openAt (fl_pos f) f = (case fl_sourceFor f (s + 1) of Inl er \<Rightarrow> Inl er
           | Inr src \<Rightarrow> Inr (f\<lparr>fl_cur := Some (newChunkReader src a e)\<rparr>))"
    using openAt_geometry [OF st(1-4,6,5)] by metis
  obtain sc where sc: "fl_sourceFor f (s + 1) = Inr sc" "\<forall>off lim. sc off lim = Inl EOF"
    using src by blast
  obtain r' where r': "ChunkReader_Read n (newChunkReader sc a e) = ([], Some EOF, r')"
    using eof_window_read [OF sc(2) \<open>a \<le> e\<close>] by blast
  have "wrap64 (fl_pos f) = fl_pos f" using st by (intro wrap64_id) (auto simp: in64_def)
  then have "eof_stuck (widen (closeCurrent (f\<lparr>fl_cur := Some r', fl_pos := wrap64 (fl_pos f)\<rparr>)))"
    using st src by (simp add: eof_stuck_def widen_def closeCurrent_def)
  then show thesis
    using op sc(1) r' by (intro that [of "f\<lparr>fl_cur := Some (newChunkReader sc a e)\<rparr>"]) auto
qed

lemma read_loop_eof_stuck:
  assumes "read_loop n f = Some y"
  shows "\<not> eof_stuck f"
proof (rule read_loop.raw_induct [where P = "\<lambda>n f y. \<not> eof_stuck f", OF _ assms])
  fix loop :: "int \<Rightarrow> 'a File \<Rightarrow> ('a list \<times> read_error option \<times> 'a File) option"
    and n f and y :: "'a list \<times> read_error option \<times> 'a File"
  assume IH: "\<And>n f y. loop n f = Some y \<Longrightarrow> \<not> eof_stuck f"
    and body: "(if fl_size f \<le> fl_pos f then Some ([], Some EOF, f)
      else case case fl_cur f of None \<Rightarrow> openAt (fl_pos f) f | Some x \<Rightarrow> Inr f of
          Inl e \<Rightarrow> Some ([], Some e, f)
        | Inr f1 \<Rightarrow>
            (case fl_cur f1 of
               None \<Rightarrow> Some ([], Some ErrSource, f1)
             | Some r \<Rightarrow>
                 let (out, err, r') = ChunkReader_Read n r;
                     f2 = f1\<lparr>fl_cur := Some r', fl_pos := wrap64 (fl_pos f1 + int (length out))\<rparr>
                 in if err = Some EOF then
                      let f3 = widen (closeCurrent f2) in
                      if out \<noteq> [] then
                        Some (out, if fl_size f3 \<le> fl_pos f3 then Some EOF else None, f3)
                      else loop n f3
                    else if err \<noteq> None then Some (out, err, f2)
                    else if out \<noteq> [] then Some (out, None, f2)
                    else loop n f2)) = Some y"
  show "\<not> eof_stuck f"
  proof
    assume st: "eof_stuck f"
    obtain f1 r r' where p: "openAt (fl_pos f) f = Inr f1" "fl_cur f1 = Some r"
      "ChunkReader_Read n r = ([], Some EOF, r')"
      "eof_stuck (widen (closeCurrent (f1\<lparr>fl_cur := Some r', fl_pos := wrap64 (fl_pos f1 + 0)\<rparr>)))"
      using eof_pass [OF st, of n] .
    have "loop n (widen (closeCurrent (f1\<lparr>fl_cur := Some r', fl_pos := wrap64 (fl_pos f1 + 0)\<rparr>))) = Some y"
      using body st p(1-3) by (simp add: eof_stuck_def Let_def)
    from IH [OF this] p(4) show False by blast
  qed
qed

text \<open>An error from the network that is \<open>io.EOF\<close> is taken for the end of a window.  If every
  fetch of the file's segments fails with an error for which \<open>errors.Is(err, io.EOF)\<close> holds (a
  connection the peer closed), a \<open>Read\<close> before the end of the file opens the same window again for
  ever: the call does not return, instead of reporting the error.\<close>

theorem Read_hangs_on_source_EOF:
  assumes "eof_stuck f" and "n \<noteq> 0"
  shows "File_Read n f = None"
  using assms read_loop_eof_stuck [of n f] by (cases "read_loop n f") (auto simp: File_Read_def)

theorem Read_hangs_on_source_EOF_witness:
  "\<exists>f. Open (\<lambda>_. Inr (\<lambda>_ _. Inl EOF)) 10 4 no_options = Inr f \<and> File_Read 5 (f :: nat File) = None"
proof -
  obtain f :: "nat File" where f: "Open (\<lambda>_. Inr (\<lambda>_ _. Inl EOF)) 10 4 no_options = Inr f"
    by (simp add: Open_def)
  then have "eof_stuck f"
    by (auto simp: Open_def eof_stuck_def in64_def initialWindow_def)
  from Read_hangs_on_source_EOF [OF this, of 5] f show ?thesis by auto
qed

end
