(* ===== verification/ChunkPump.thy ===== *)
theory ChunkPump
  imports ReadFile
begin

text \<open>
  The concurrent producer of \<open>chunkReader\<close> (\<open>pump\<close> in \<open>reader/chunk.go\<close>) as a step relation:
  the loop that issues fetches, the fetches in flight, the channel of futures, and the consumer.
  Fetches finish in any order, fail at any time, and the context may be cancelled at any time.

  A future is named by its chunk index.  A permit of the semaphore is held by each fetch in flight.
  \<open>out k\<close> is what fetching chunk \<open>k\<close> yields when it is not timed out or cancelled; for a reader it
  is \<open>chunk_future\<close>.
\<close>

type_synonym 'b result = "read_error + 'b list"

record 'b pump =
  pm_next :: nat
  pm_stopped :: bool
  pm_queue :: "nat list"
  pm_flying :: "nat list"
  pm_slot :: "nat \<Rightarrow> 'b result option"
  pm_closed :: bool
  pm_cancelled :: bool
  pm_held :: "nat option"
  pm_taken :: "'b result list"

definition pump_init :: "'b pump" where
  "pump_init = \<lparr>pm_next = 0, pm_stopped = False, pm_queue = [], pm_flying = [], pm_slot = (\<lambda>_. None),
     pm_closed = False, pm_cancelled = False, pm_held = None, pm_taken = []\<rparr>"

text \<open>The limits \<open>max(concurrency, 1)\<close> and \<open>max(buffers, 1)\<close>.\<close>

definition permits :: "int \<Rightarrow> nat" where "permits concurrency = nat (max concurrency 1)"
definition capacity :: "int \<Rightarrow> nat" where "capacity buffers = nat (max buffers 1)"

inductive pump_step ::
  "nat \<Rightarrow> int \<Rightarrow> int \<Rightarrow> (nat \<Rightarrow> 'b result) \<Rightarrow> 'b pump \<Rightarrow> 'b pump \<Rightarrow> bool"
  for count :: nat and concurrency :: int and buffers :: int and out :: "nat \<Rightarrow> 'b result"
where
  publish: "\<lbrakk>\<not> pm_stopped s; pm_next s < count; length (pm_flying s) < permits concurrency;
      length (pm_queue s) < capacity buffers\<rbrakk> \<Longrightarrow>
    pump_step count concurrency buffers out s
      (s\<lparr>pm_next := pm_next s + 1, pm_queue := pm_queue s @ [pm_next s],
         pm_flying := pm_flying s @ [pm_next s]\<rparr>)"
| give_up: "\<lbrakk>pm_cancelled s; pm_next s < count; \<not> pm_stopped s\<rbrakk> \<Longrightarrow>
    pump_step count concurrency buffers out s (s\<lparr>pm_stopped := True\<rparr>)"
| fetched: "\<lbrakk>i \<in> set (pm_flying s); out i = Inr data\<rbrakk> \<Longrightarrow>
    pump_step count concurrency buffers out s
      (s\<lparr>pm_flying := remove1 i (pm_flying s), pm_slot := (pm_slot s)(i := Some (Inr data))\<rparr>)"
| failed: "i \<in> set (pm_flying s) \<Longrightarrow>
    pump_step count concurrency buffers out s
      (s\<lparr>pm_flying := remove1 i (pm_flying s), pm_slot := (pm_slot s)(i := Some (Inl e)),
         pm_cancelled := True\<rparr>)"
| close: "\<lbrakk>pm_stopped s \<or> pm_next s = count; pm_flying s = []; \<not> pm_closed s\<rbrakk> \<Longrightarrow>
    pump_step count concurrency buffers out s (s\<lparr>pm_closed := True\<rparr>)"
| receive: "\<lbrakk>pm_held s = None; pm_queue s = i # q\<rbrakk> \<Longrightarrow>
    pump_step count concurrency buffers out s (s\<lparr>pm_held := Some i, pm_queue := q\<rparr>)"
| take_result: "\<lbrakk>pm_held s = Some i; pm_slot s i = Some r\<rbrakk> \<Longrightarrow>
    pump_step count concurrency buffers out s (s\<lparr>pm_held := None, pm_taken := pm_taken s @ [r]\<rparr>)"
| cancel: "pump_step count concurrency buffers out s (s\<lparr>pm_cancelled := True\<rparr>)"

inductive pump_reach ::
  "nat \<Rightarrow> int \<Rightarrow> int \<Rightarrow> (nat \<Rightarrow> 'b result) \<Rightarrow> 'b pump \<Rightarrow> bool"
  for count :: nat and concurrency :: int and buffers :: int and out :: "nat \<Rightarrow> 'b result"
where
  init: "pump_reach count concurrency buffers out pump_init"
| step: "\<lbrakk>pump_reach count concurrency buffers out s; pump_step count concurrency buffers out s s'\<rbrakk> \<Longrightarrow>
    pump_reach count concurrency buffers out s'"

text \<open>How many futures the consumer has drawn from the channel.\<close>

definition drawn :: "'b pump \<Rightarrow> nat" where
  "drawn s = length (pm_taken s) + (if pm_held s = None then 0 else 1)"

lemma drawn_update [simp]:
  "drawn (s\<lparr>pm_stopped := b\<rparr>) = drawn s" "drawn (s\<lparr>pm_closed := b\<rparr>) = drawn s"
  "drawn (s\<lparr>pm_cancelled := b\<rparr>) = drawn s"
  by (simp_all add: drawn_def)

definition result_of :: "bool \<Rightarrow> (nat \<Rightarrow> 'b result) \<Rightarrow> nat \<Rightarrow> 'b result \<Rightarrow> bool" where
  "result_of cancelled out i r \<longleftrightarrow> r = out i \<or> cancelled \<and> (\<exists>e. r = Inl e)"

definition pump_inv :: "nat \<Rightarrow> int \<Rightarrow> int \<Rightarrow> (nat \<Rightarrow> 'b result) \<Rightarrow> 'b pump \<Rightarrow> bool" where
  "pump_inv count concurrency buffers out s \<longleftrightarrow>
     pm_next s \<le> count \<and> drawn s \<le> pm_next s \<and> pm_queue s = [drawn s ..< pm_next s] \<and>
     (\<forall>i. pm_held s = Some i \<longrightarrow> i = length (pm_taken s)) \<and>
     distinct (pm_flying s) \<and> set (pm_flying s) \<subseteq> {..< pm_next s} \<and>
     (\<forall>i < pm_next s. i \<in> set (pm_flying s) \<or> (\<exists>r. pm_slot s i = Some r)) \<and>
     (\<forall>i r. pm_slot s i = Some r \<longrightarrow> result_of (pm_cancelled s) out i r) \<and>
     (\<forall>k < length (pm_taken s). result_of (pm_cancelled s) out k (pm_taken s ! k)) \<and>
     (pm_stopped s \<longrightarrow> pm_cancelled s) \<and>
     (pm_closed s \<longrightarrow> (pm_stopped s \<or> pm_next s = count) \<and> pm_flying s = []) \<and>
     length (pm_flying s) \<le> permits concurrency \<and> pm_next s - drawn s \<le> capacity buffers"

lemma result_of_simps [simp]:
  "result_of c out i (out i)" "result_of True out i (Inl e)"
  by (simp_all add: result_of_def)

lemma result_of_mono: "result_of c out i r \<Longrightarrow> result_of True out i r"
  by (auto simp: result_of_def)

lemma pump_inv_init: "pump_inv count concurrency buffers out pump_init"
  by (simp add: pump_inv_def pump_init_def drawn_def)

lemma pump_inv_step:
  assumes "pump_inv count concurrency buffers out s" and "pump_step count concurrency buffers out s s'"
  shows "pump_inv count concurrency buffers out s'"
  using assms(2)
proof cases
  case publish
  have "set (pm_flying s) \<subseteq> {..<Suc (pm_next s)}" "pm_next s \<notin> set (pm_flying s)"
    using assms(1) by (auto simp: pump_inv_def)
  then show ?thesis using assms(1) publish
    by (simp add: pump_inv_def drawn_def upt_Suc_append less_Suc_eq)
next
  case give_up
  then show ?thesis using assms(1)
    by (simp add: pump_inv_def)
next
  case (fetched i data)
  have "drawn s' = drawn s" by (simp add: fetched drawn_def)
  moreover have "result_of (pm_cancelled s) out i (Inr data)"
    using fetched(3) by (simp add: result_of_def)
  ultimately show ?thesis using assms(1) fetched
    by (auto simp: pump_inv_def length_remove1 dest: notin_set_remove1)
next
  case (failed i e)
  have mono: "result_of (pm_cancelled s) out k x \<Longrightarrow> result_of True out k x" for k x
    by (rule result_of_mono)
  have "drawn s' = drawn s" by (simp add: failed drawn_def)
  then show ?thesis using assms(1) failed
    by (auto simp: pump_inv_def length_remove1 mono dest: notin_set_remove1)
next
  case close
  then show ?thesis using assms(1)
    by (simp add: pump_inv_def)
next
  case (receive i q)
  then have "[length (pm_taken s) ..< pm_next s] = i # q"
    using assms(1) by (simp add: pump_inv_def drawn_def)
  then have "i = length (pm_taken s)" "i < pm_next s" "q = [Suc i ..< pm_next s]"
    by (auto simp: upt_eq_Cons_conv)
  then show ?thesis using receive assms(1)
    by (auto simp: pump_inv_def drawn_def)
next
  case (take_result i r)
  then show ?thesis using assms(1)
    by (auto simp: pump_inv_def drawn_def nth_append less_Suc_eq)
next
  case cancel
  have mono: "result_of (pm_cancelled s) out k x \<Longrightarrow> result_of True out k x" for k x
    by (rule result_of_mono)
  from cancel show ?thesis using assms(1)
    by (simp add: pump_inv_def mono)
qed

lemma pump_inv_reach:
  "pump_reach count concurrency buffers out s \<Longrightarrow> pump_inv count concurrency buffers out s"
  by (induction rule: pump_reach.induct) (auto intro: pump_inv_init pump_inv_step)

section \<open>Order\<close>

text \<open>What a chunk reader's fetches yield when they are not interrupted.\<close>

definition fetch_of :: "'b chunkReader \<Rightarrow> nat \<Rightarrow> 'b result" where
  "fetch_of r k = chunk_future (ch_src r) (ch_plan r) (int k)"

text \<open>C20: chunks reach the reader strictly in order, however the fetches are scheduled.  In every
  reachable state of the pump the \<open>k\<close>-th result taken from the channel is the result of chunk \<open>k\<close>,
  or an error once the context is cancelled; never more than \<open>max(concurrency, 1)\<close> fetches run and
  never more than \<open>max(buffers, 1)\<close> futures wait; and when the channel is closed and drained without
  a cancellation, every chunk has been delivered.\<close>

theorem pump_in_order:
  assumes "pump_reach count concurrency buffers (fetch_of r) s"
  shows "(\<forall>k < length (pm_taken s). pm_taken s ! k = fetch_of r k \<or> pm_cancelled s \<and> (\<exists>e. pm_taken s ! k = Inl e))
     \<and> int (length (pm_flying s)) \<le> max concurrency 1 \<and> int (length (pm_queue s)) \<le> max buffers 1
     \<and> (pm_closed s \<and> pm_queue s = [] \<and> pm_held s = None \<and> \<not> pm_cancelled s \<longrightarrow>
          pm_taken s = map (fetch_of r) [0 ..< count])"
proof -
  note inv = pump_inv_reach [OF assms, unfolded pump_inv_def]
  have "pm_taken s = map (fetch_of r) [0 ..< count]"
    if "pm_closed s" "pm_queue s = []" "pm_held s = None" "\<not> pm_cancelled s"
  proof (rule nth_equalityI)
    have "pm_next s = count" using inv that by auto
    moreover have "[drawn s ..< pm_next s] = []" using inv that by simp
    then have "drawn s = pm_next s" using inv by (simp add: upt_eq_Nil_conv del: upt_eq_Nil_conv) auto
    ultimately show "length (pm_taken s) = length (map (fetch_of r) [0 ..< count])"
      using that by (simp add: drawn_def)
    then show "pm_taken s ! k = map (fetch_of r) [0 ..< count] ! k" if "k < length (pm_taken s)" for k
      using that inv \<open>\<not> pm_cancelled s\<close> by (auto simp: result_of_def)
  qed
  then show ?thesis using inv by (auto simp: result_of_def permits_def capacity_def)
qed

definition sample_chunks :: "nat chunkReader" where
  "sample_chunks = newChunkReader (\<lambda>off lim. Inr (slice [0 ..< 3000] off (off + lim - 1))) 0 2999"

text \<open>Two fetches, the second one finishing first, then the consumer draws the first.\<close>

theorem pump_in_order_witness:
  "\<exists>s. pump_reach 2 2 2 (fetch_of sample_chunks) s \<and> pm_taken s = [fetch_of sample_chunks 0] \<and>
     pm_slot s 1 = Some (fetch_of sample_chunks 1) \<and> int (length (pm_flying s)) \<le> 2"
proof -
  let ?out = "fetch_of sample_chunks"
  let ?step = "pump_step 2 2 2 ?out"
  define s1 :: "nat pump" where "s1 = pump_init\<lparr>pm_next := 1, pm_queue := [0], pm_flying := [0]\<rparr>"
  define s2 where "s2 = s1\<lparr>pm_next := 2, pm_queue := [0, 1], pm_flying := [0, 1]\<rparr>"
  define s3 where "s3 = s2\<lparr>pm_flying := [0], pm_slot := (pm_slot s2)(1 := Some (?out 1))\<rparr>"
  define s4 where "s4 = s3\<lparr>pm_held := Some 0, pm_queue := [1]\<rparr>"
  define s5 where "s5 = s4\<lparr>pm_flying := [], pm_slot := (pm_slot s4)(0 := Some (?out 0))\<rparr>"
  define s6 where "s6 = s5\<lparr>pm_held := None, pm_taken := [?out 0]\<rparr>"
  have cs: "ChunkSize 0 2999 = 2048"
    by (simp add: ChunkSize_def chunk_size_loop.simps)
  have ok: "?out 0 = Inr (slice [0 ..< 3000] 0 2047)" "?out 1 = Inr (slice [0 ..< 3000] 2048 4095)"
    by (simp_all add: fetch_of_def chunk_future_def sample_chunks_def newChunkReader_def Let_def planChunks_def cs)
  note ok1 = ok(2) [unfolded One_nat_def]
  note defs = s1_def s2_def s3_def s4_def s5_def s6_def pump_init_def permits_def capacity_def
  have "?step pump_init s1" using publish [of pump_init 2 2 2 ?out] by (simp add: defs)
  moreover have "?step s1 s2" using publish [of s1 2 2 2 ?out] by (simp add: defs numeral_2_eq_2)
  moreover have "?step s2 s3" using fetched [of 1 s2 ?out _ 2 2 2] by (simp add: defs ok ok1)
  moreover have "?step s3 s4" using receive [of s3 0 "[1]" 2 2 2 ?out] by (simp add: defs)
  moreover have "?step s4 s5" using fetched [of 0 s4 ?out _ 2 2 2] by (simp add: defs ok ok1)
  moreover have "?step s5 s6" using take_result [of s5 0 "?out 0" 2 2 2 ?out] by (simp add: defs ok ok1)
  ultimately have r: "pump_reach 2 2 2 ?out s6"
    by (meson pump_reach.intros)
  show ?thesis using pump_in_order [OF r] r by (intro exI [of _ s6]) (simp add: defs ok ok1)
qed

section \<open>Progress\<close>

definition work :: "nat \<Rightarrow> 'b pump \<Rightarrow> nat" where
  "work count s = 5 * (count - pm_next s) + length (pm_flying s) + 2 * length (pm_queue s)
     + (if pm_held s = None then 0 else 1) + (if pm_closed s then 0 else 1)
     + (if pm_stopped s then 0 else 1)"

text \<open>With nothing waiting and nothing in flight, the pump publishes the next chunk or closes.\<close>

lemma idle_pump_works:
  assumes "pm_held s = None" and "pm_queue s = []" and "pm_flying s = []" and "\<not> pm_closed s" and "pm_next s \<le> count"
  shows "\<exists>s'. pump_step count concurrency buffers out s s' \<and> work count s' < work count s"
proof (cases "pm_stopped s \<or> pm_next s = count")
  case True
  from close [OF True assms(3,4)] show ?thesis
    by (rule_tac exI) (rule conjI, assumption, simp add: work_def assms(4))
next
  case False
  then have "pm_next s < count" using assms(5) by simp
  moreover have "0 < permits concurrency" "0 < capacity buffers"
    by (simp_all add: permits_def capacity_def)
  ultimately have "pump_step count concurrency buffers out s
      (s\<lparr>pm_next := pm_next s + 1, pm_queue := pm_queue s @ [pm_next s],
         pm_flying := pm_flying s @ [pm_next s]\<rparr>)"
    using False assms(2,3) by (intro publish) auto
  moreover have "5 * (count - Suc (pm_next s)) + 5 = 5 * (count - pm_next s)"
    using \<open>pm_next s < count\<close> by simp
  ultimately show ?thesis
    by (rule_tac exI) (rule conjI, assumption, simp add: work_def)
qed

text \<open>C21: the pump never deadlocks and always winds down.  In every reachable state in which the
  channel is not yet closed and drained, some step of the pump or of its consumer is possible that
  brings the end nearer; so a reader that keeps reading is never left waiting for a future that no
  fetch will fill.\<close>

theorem pump_progress:
  assumes "pump_reach count concurrency buffers out s"
    and "\<not> (pm_closed s \<and> pm_queue s = [] \<and> pm_held s = None)"
  shows "\<exists>s'. pump_step count concurrency buffers out s s' \<and> work count s' < work count s"
proof -
  note inv = pump_inv_reach [OF assms(1), unfolded pump_inv_def]
  consider (held) i where "pm_held s = Some i" | (queued) i q where "pm_held s = None" "pm_queue s = i # q"
    | (idle) "pm_held s = None" "pm_queue s = []"
    by (cases "pm_held s"; cases "pm_queue s") auto
  then show ?thesis
  proof cases
    case held
    then have i: "i < pm_next s" using inv by (auto simp: drawn_def)
    show ?thesis
    proof (cases "i \<in> set (pm_flying s)")
      case True
      then have "length (remove1 i (pm_flying s)) < length (pm_flying s)"
        using length_pos_if_in_set [OF True] by (simp add: length_remove1)
      then show ?thesis using failed [OF True] by (fastforce simp: work_def)
    next
      case False
      then obtain r where "pm_slot s i = Some r" using inv i by blast
      from take_result [OF held this] show ?thesis
        by (rule_tac exI) (rule conjI, assumption, simp add: work_def held)
    qed
  next
    case queued
    from receive [OF this] show ?thesis
      by (rule_tac exI) (rule conjI, assumption, simp add: work_def queued)
  next
    case idle
    then have open_: "\<not> pm_closed s" using assms(2) by simp
    show ?thesis
    proof (cases "pm_flying s")
      case (Cons i fl)
      then have "i \<in> set (pm_flying s)" by simp
      from failed [OF this] Cons show ?thesis by (fastforce simp: work_def)
    next
      case Nil
      show ?thesis by (rule idle_pump_works [OF idle Nil open_]) (use inv in simp)
    qed
  qed
qed

theorem pump_progress_witness:
  "\<exists>s'. pump_step 2 1 1 (fetch_of sample_chunks) pump_init s' \<and> work 2 s' < work 2 (pump_init :: nat pump)"
  by (rule pump_progress [OF init]) (simp add: pump_init_def)

end
