(* ===== verification/Models.thy ===== *)
theory Models
  imports Prelude "HOL-Library.Word"
begin

unbundle bit_operations_syntax

text \<open>
  The rows of the index, \<open>internal/database/models.go\<close>: directories, files, segments, upload and
  download jobs, with the life cycle of a job and the bitset of its finished segments.  Times are
  milliseconds; an empty string is SQL's \<open>NULL\<close> in the nullable columns.
\<close>

section \<open>Rows\<close>

datatype FileStatus = StatusPending | StatusComplete | StatusBroken

datatype JobStatus = JobPending | JobRunning | JobComplete | JobFailed | JobCancelled

definition Aborted :: "JobStatus \<Rightarrow> bool" where
  "Aborted s \<longleftrightarrow> s = JobFailed \<or> s = JobCancelled"

definition Terminal :: "JobStatus \<Rightarrow> bool" where
  "Terminal s \<longleftrightarrow> s = JobComplete \<or> Aborted s"

record Dir =
  d_ID :: string
  d_ParentID :: string
  d_Name :: string
  d_Path :: string
  d_ChannelID :: string
  d_TGMsgID :: int
  d_CreatedAt :: int
  d_UpdatedAt :: int
  d_OwnerID :: string

record FileRow =
  f_ID :: string
  f_DirID :: string
  f_Name :: string
  f_Size :: int
  f_MIME :: string
  f_SegmentSize :: int
  f_SegmentCount :: int
  f_Status :: FileStatus
  f_ChannelID :: string
  f_CreatedAt :: int
  f_UpdatedAt :: int
  f_OwnerID :: string

record Segment =
  g_FileID :: string
  g_Index :: int
  g_Size :: int
  g_TGMsgID :: int
  g_TGDocID :: int
  g_AccessHash :: int
  g_DCID :: int
  g_FileReference :: string
  g_AccountID :: string

record UploadJob =
  j_ID :: string
  j_UserID :: string
  j_FileID :: string
  j_DirID :: string
  j_Name :: string
  j_TotalSize :: int
  j_SegmentSize :: int
  j_SegmentCount :: int
  j_DoneMask :: "8 word list"
  j_UploadedBytes :: int
  j_Status :: JobStatus
  j_Error :: string
  j_Source :: string
  j_SourceURL :: string
  j_CreatedAt :: int
  j_UpdatedAt :: int
  j_StartedAt :: int
  j_FinishedAt :: int

datatype DownloadMode = DownloadDirect | DownloadStaged | DownloadSegments | DownloadWebDAV

datatype DownloadStatus =
  DownloadPending | DownloadRunning | DownloadReady | DownloadComplete | DownloadFailed
  | DownloadCancelled | DownloadExpired

record DownloadJob =
  w_ID :: string
  w_UserID :: string
  w_FileID :: string
  w_Name :: string
  w_TotalSize :: int
  w_DownloadedBytes :: int
  w_Mode :: DownloadMode
  w_Status :: DownloadStatus
  w_Error :: string
  w_CachePath :: string
  w_CreatedAt :: int
  w_UpdatedAt :: int
  w_StartedAt :: int
  w_FinishedAt :: int
  w_ExpiresAt :: int
  w_LastUsedAt :: int

section \<open>The bitset of finished segments\<close>

definition NewMask :: "int \<Rightarrow> 8 word list" where
  "NewMask n = (if n \<le> 0 then [] else replicate (nat ((n + 7) div 8)) 0)"

definition MaskHas :: "8 word list \<Rightarrow> int \<Rightarrow> bool" where
  "MaskHas msk idx =
     (if idx < 1 then False
      else let b = (idx - 1) div 8 in
           if b \<ge> int (length msk) then False
           else msk ! nat b AND push_bit (nat ((idx - 1) mod 8)) 1 \<noteq> 0)"

text \<open>The loop \<open>for len(msk) <= b\<close> appends zero bytes.\<close>

function grow_mask :: "8 word list \<Rightarrow> int \<Rightarrow> 8 word list" where
  "grow_mask msk b = (if int (length msk) \<le> b then grow_mask (msk @ [0]) b else msk)"
  by pat_completeness auto

termination
  by (relation "measure (\<lambda>(msk, b). nat (b + 1 - int (length msk)))") auto

declare grow_mask.simps [simp del]

definition MaskSet :: "8 word list \<Rightarrow> int \<Rightarrow> 8 word list" where
  "MaskSet msk idx =
     (if idx < 1 then msk
      else let b = nat ((idx - 1) div 8); m = grow_mask msk ((idx - 1) div 8)
           in m[b := m ! b OR push_bit (nat ((idx - 1) mod 8)) 1])"

definition PendingSegments :: "UploadJob \<Rightarrow> int list" where
  "PendingSegments j = filter (\<lambda>i. \<not> MaskHas (j_DoneMask j) i) [1 .. j_SegmentCount j]"

definition all_done :: "8 word list \<Rightarrow> int \<Rightarrow> bool" where
  "all_done msk count = list_all (MaskHas msk) [1 .. count]"

definition Done :: "UploadJob \<Rightarrow> bool" where
  "Done j = all_done (j_DoneMask j) (j_SegmentCount j)"

lemma MaskHas_bit:
  "MaskHas msk idx \<longleftrightarrow> 1 \<le> idx \<and> (idx - 1) div 8 < int (length msk) \<and>
     bit (msk ! nat ((idx - 1) div 8)) (nat ((idx - 1) mod 8))"
  by (auto simp: MaskHas_def Let_def push_bit_of_1 and_exp_eq_0_iff_not_bit)

lemma grow_mask_append: "\<exists>k. grow_mask msk b = msk @ replicate k 0 \<and> b < int (length (grow_mask msk b))"
proof (induction msk b rule: grow_mask.induct)
  case (1 msk b)
  show ?case
  proof (cases "int (length msk) \<le> b")
    case True
    then obtain k where "grow_mask (msk @ [0]) b = (msk @ [0]) @ replicate k 0"
      "b < int (length (grow_mask (msk @ [0]) b))" using 1 by blast
    then show ?thesis using True
      by (intro exI [of _ "Suc k"]) (simp add: grow_mask.simps [of msk b])
  next
    case False
    then show ?thesis by (intro exI [of _ 0]) (simp add: grow_mask.simps [of msk b])
  qed
qed

lemma MaskHas_grow: "MaskHas (grow_mask msk b) j \<longleftrightarrow> MaskHas msk j"
proof -
  obtain k where "grow_mask msk b = msk @ replicate k 0" using grow_mask_append by blast
  then show ?thesis
    by (auto simp: MaskHas_bit nth_append nat_less_iff split: if_splits)
qed

lemma MaskHas_MaskSet: "MaskHas (MaskSet msk i) j \<longleftrightarrow> 1 \<le> i \<and> j = i \<or> MaskHas msk j"
proof (cases "i < 1")
  case True
  then show ?thesis by (simp add: MaskSet_def)
next
  case False
  define m where "m = grow_mask msk ((i - 1) div 8)"
  have len: "(i - 1) div 8 < int (length m)" using grow_mask_append by (auto simp: m_def)
  have m: "MaskHas m j = MaskHas msk j" by (simp add: m_def MaskHas_grow)
  have b: "0 \<le> (i - 1) div 8" "0 \<le> (i - 1) mod 8" "(i - 1) mod 8 < 8"
    using False by (simp_all add: pos_imp_zdiv_nonneg_iff)
  have set_eq: "MaskSet msk i = m[nat ((i - 1) div 8) := m ! nat ((i - 1) div 8) OR
      push_bit (nat ((i - 1) mod 8)) 1]"
    using False by (simp add: MaskSet_def m_def Let_def)
  show ?thesis
  proof (cases "1 \<le> j \<and> nat ((j - 1) div 8) = nat ((i - 1) div 8)")
    case True
    then have jd: "(j - 1) div 8 = (i - 1) div 8"
      using b by (metis eq_nat_nat_iff pos_imp_zdiv_nonneg_iff diff_ge_0_iff_ge zero_less_numeral)
    have "nat ((j - 1) mod 8) = nat ((i - 1) mod 8) \<longleftrightarrow> j = i"
    proof
      assume "nat ((j - 1) mod 8) = nat ((i - 1) mod 8)"
      then have "(j - 1) mod 8 = (i - 1) mod 8" using b by (simp add: eq_nat_nat_iff)
      with jd have "j - 1 = i - 1" by (metis div_mult_mod_eq)
      then show "j = i" by simp
    qed simp
    moreover have "nat ((j - 1) mod 8) < 8" "nat ((i - 1) mod 8) < 8" using b by auto
    ultimately have bit: "bit (x OR push_bit (nat ((i - 1) mod 8)) 1) (nat ((j - 1) mod 8)) \<longleftrightarrow>
        bit x (nat ((j - 1) mod 8)) \<or> j = i" for x :: "8 word"
      by (auto simp: bit_or_iff push_bit_of_1 bit_exp_iff)
    have ln: "nat ((i - 1) div 8) < length m" using len b by linarith
    have "MaskHas (MaskSet msk i) j \<longleftrightarrow> bit (m ! nat ((i - 1) div 8)) (nat ((j - 1) mod 8)) \<or> j = i"
      using True len ln bit by (simp add: MaskHas_bit set_eq jd)
    moreover have "MaskHas m j \<longleftrightarrow> bit (m ! nat ((i - 1) div 8)) (nat ((j - 1) mod 8))"
      using True len by (simp add: MaskHas_bit jd)
    ultimately show ?thesis using m False by auto
  next
    case False
    then have "j \<noteq> i" using \<open>\<not> i < 1\<close> by auto
    moreover have "MaskHas (MaskSet msk i) j \<longleftrightarrow> MaskHas m j"
      using False by (auto simp: MaskHas_bit set_eq)
    ultimately show ?thesis using m by simp
  qed
qed

lemma MaskHas_NewMask [simp]: "\<not> MaskHas (NewMask n) i"
  by (auto simp: MaskHas_bit NewMask_def nat_less_iff)

lemma all_done_iff: "all_done msk count \<longleftrightarrow> (\<forall>i. 1 \<le> i \<and> i \<le> count \<longrightarrow> MaskHas msk i)"
  by (auto simp: all_done_def list_all_iff)

lemma Done_iff_PendingSegments: "Done j \<longleftrightarrow> PendingSegments j = []"
  by (auto simp: Done_def all_done_iff PendingSegments_def filter_empty_conv)

end
