(* ===== verification/Store.thy ===== *)
theory Store
  imports Models Perms
begin

text \<open>
  The tables of the index as lists of rows, in the order of insertion, and the statements the
  repository methods are made of (\<open>internal/database/database.go\<close>): a query for one row, an update
  with a \<open>WHERE\<close> clause, a transaction that is rolled back on an error.  Constraint violations are
  the errors of this store; I/O errors of the driver are not modelled.  \<open>db_now\<close> is the clock.
\<close>

section \<open>Tables and errors\<close>

datatype db_error = ErrNotFound | ErrConflict | ErrConstraint | ErrJobFinished | ErrArgument

record Channel =
  c_ID :: string
  c_TGID :: int
  c_AccessHash :: int
  c_Title :: string
  c_IsDefault :: bool
  c_CreatedAt :: int

record db =
  db_now :: int
  db_users :: "User list"
  db_channels :: "Channel list"
  db_dirs :: "Dir list"
  db_files :: "FileRow list"
  db_segments :: "Segment list"
  db_jobs :: "UploadJob list"
  db_downloads :: "DownloadJob list"

definition empty_db :: db where
  "empty_db = \<lparr>db_now = 0, db_users = [], db_channels = [], db_dirs = [], db_files = [],
     db_segments = [], db_jobs = [], db_downloads = []\<rparr>"

type_synonym 'a db_op = "db \<Rightarrow> (db_error + 'a) \<times> db"

section \<open>Statements\<close>

definition query_row :: "('r \<Rightarrow> bool) \<Rightarrow> 'r list \<Rightarrow> db_error + 'r" where
  "query_row P rows = (case find P rows of None \<Rightarrow> Inl ErrNotFound | Some r \<Rightarrow> Inr r)"

definition update_where :: "('r \<Rightarrow> bool) \<Rightarrow> ('r \<Rightarrow> 'r) \<Rightarrow> 'r list \<Rightarrow> 'r list" where
  "update_where P f rows = map (\<lambda>r. if P r then f r else r) rows"

text \<open>\<open>affectedOne\<close>: no affected row is \<open>ErrNotFound\<close>.\<close>

definition affectedOne :: "('r \<Rightarrow> bool) \<Rightarrow> 'r list \<Rightarrow> db_error + unit" where
  "affectedOne P rows = (if list_ex P rows then Inr () else Inl ErrNotFound)"

definition Tx :: "'a db_op \<Rightarrow> 'a db_op" where
  "Tx fn d = (case fn d of (Inl e, _) \<Rightarrow> (Inl e, d) | (Inr x, d') \<Rightarrow> (Inr x, d'))"

definition user_exists :: "string \<Rightarrow> db \<Rightarrow> bool" where
  "user_exists uid d \<longleftrightarrow> list_ex (\<lambda>u. u_ID u = uid) (db_users d)"

definition channel_exists :: "string \<Rightarrow> db \<Rightarrow> bool" where
  "channel_exists cid d \<longleftrightarrow> list_ex (\<lambda>c. c_ID c = cid) (db_channels d)"

definition file_exists :: "string \<Rightarrow> db \<Rightarrow> bool" where
  "file_exists fid d \<longleftrightarrow> list_ex (\<lambda>f. f_ID f = fid) (db_files d)"

definition dir_exists :: "string \<Rightarrow> db \<Rightarrow> bool" where
  "dir_exists did d \<longleftrightarrow> list_ex (\<lambda>r. d_ID r = did) (db_dirs d)"

lemma Tx_error: "fst (Tx fn d) = Inl e \<Longrightarrow> snd (Tx fn d) = d"
  by (auto simp: Tx_def split: prod.splits sum.splits)

lemma Tx_success: "fn d = (Inr x, d') \<Longrightarrow> Tx fn d = (Inr x, d')"
  by (simp add: Tx_def)

lemma query_row_Inr: "query_row P rows = Inr r \<longleftrightarrow> find P rows = Some r"
  by (simp add: query_row_def split: option.split)

lemma query_row_Inl: "query_row P rows = Inl e \<longleftrightarrow> e = ErrNotFound \<and> (\<forall>r \<in> set rows. \<not> P r)"
  by (auto simp: query_row_def find_None_iff find_Some_iff split: option.split)

lemma query_row_Some: "query_row P rows = Inr r \<Longrightarrow> r \<in> set rows \<and> P r"
  by (auto simp: query_row_Inr find_Some_iff)

lemma length_update_where [simp]: "length (update_where P f rows) = length rows"
  by (simp add: update_where_def)

lemma set_update_where: "set (update_where P f rows) = (\<lambda>r. if P r then f r else r) ` set rows"
  by (simp add: update_where_def)

lemma map_update_where:
  "(\<And>r. P r \<Longrightarrow> k (f r) = k r) \<Longrightarrow> map k (update_where P f rows) = map k rows"
  by (simp add: update_where_def)

section \<open>Tables with a primary key\<close>

text \<open>
  A table whose rows are found by a key that the update \<open>touch u\<close> of a row does not change: the
  shape of \<open>UPDATE ... WHERE id = ?\<close> for all columns but the key.
\<close>

locale keyed_table =
  fixes key :: "'r \<Rightarrow> 'k"
    and touch :: "'u \<Rightarrow> 'r \<Rightarrow> 'r"
  assumes key_touch: "key (touch u r) = key r"
begin

lemma find_touched:
  "query_row (\<lambda>r. key r = k) (update_where (\<lambda>r. key r = k) (touch u) rows)
     = (case query_row (\<lambda>r. key r = k) rows of Inl e \<Rightarrow> Inl e | Inr r \<Rightarrow> Inr (touch u r))"
  by (induction rows) (auto simp: query_row_def update_where_def key_touch split: option.splits)

lemma find_other:
  "k' \<noteq> k \<Longrightarrow> query_row (\<lambda>r. key r = k') (update_where (\<lambda>r. key r = k) (touch u) rows)
     = query_row (\<lambda>r. key r = k') rows"
  by (induction rows) (auto simp: query_row_def update_where_def key_touch split: option.splits)

lemma find_where:
  "query_row (\<lambda>r. key r = k) (update_where P (touch u) rows)
     = (case query_row (\<lambda>r. key r = k) rows of Inl e \<Rightarrow> Inl e | Inr r \<Rightarrow> Inr (if P r then touch u r else r))"
  by (induction rows) (auto simp: query_row_def update_where_def key_touch split: option.splits)

lemma keys_touched: "map key (update_where P (touch u) rows) = map key rows"
  by (simp add: map_update_where key_touch)

lemma affected_found:
  "query_row (\<lambda>r. key r = k) rows = Inr r \<Longrightarrow> affectedOne (\<lambda>r. key r = k) rows = Inr ()"
  by (auto simp: affectedOne_def list_ex_iff dest: query_row_Some)

end

end
