(* ===== verification/Jobs.thy ===== *)
theory Jobs
  imports Store
begin

text \<open>
  Upload jobs in the index, \<open>internal/database/jobs.go\<close>: inserting and finding jobs, recording a
  finished segment, moving the life cycle, purging.  The theorems are the ones resuming and
  cancelling rest on: the bitset counts every segment once, and a stopped job stays stopped.
\<close>

definition with_job :: "string \<Rightarrow> (UploadJob \<Rightarrow> UploadJob) \<Rightarrow> db \<Rightarrow> db" where
  "with_job jid f d = d\<lparr>db_jobs := update_where (\<lambda>j. j_ID j = jid) f (db_jobs d)\<rparr>"

definition InsertJob :: "UploadJob \<Rightarrow> unit db_op" where
  "InsertJob j d =
     (let src = (if j_Source j = [] then (if j_SourceURL j \<noteq> [] then ''remote'' else ''webui'')
                 else j_Source j);
          row = j\<lparr>j_Source := src, j_CreatedAt := db_now d, j_UpdatedAt := db_now d,
                  j_StartedAt := 0, j_FinishedAt := 0\<rparr>
      in if list_ex (\<lambda>r. j_ID r = j_ID j) (db_jobs d) then (Inl ErrConflict, d)
         else if j_UserID j \<noteq> [] \<and> \<not> user_exists (j_UserID j) d then (Inl ErrConstraint, d)
         else if j_FileID j \<noteq> [] \<and> \<not> file_exists (j_FileID j) d then (Inl ErrConstraint, d)
         else (Inr (), d\<lparr>db_jobs := db_jobs d @ [row]\<rparr>))"

definition JobByID :: "string \<Rightarrow> db \<Rightarrow> db_error + UploadJob" where
  "JobByID jid d = query_row (\<lambda>j. j_ID j = jid) (db_jobs d)"

text \<open>\<open>ORDER BY created_at DESC\<close>; rows of the same millisecond keep the order of insertion.\<close>

definition newest_first :: "('r \<Rightarrow> int) \<Rightarrow> 'r list \<Rightarrow> 'r list" where
  "newest_first created rows = sort_key (\<lambda>r. - created r) rows"

definition sql_limit :: "int \<Rightarrow> 'r list \<Rightarrow> 'r list" where
  "sql_limit limit rows = (if limit < 0 then rows else take (nat limit) rows)"

definition ListJobs :: "string \<Rightarrow> int \<Rightarrow> db \<Rightarrow> UploadJob list" where
  "ListJobs uid limit d = sql_limit limit (newest_first j_CreatedAt
     (filter (\<lambda>j. j_UserID j \<noteq> [] \<and> j_UserID j = uid \<or> j_UserID j = []) (db_jobs d)))"

definition ResumableJobs :: "db \<Rightarrow> UploadJob list" where
  "ResumableJobs d = sort_key j_CreatedAt
     (filter (\<lambda>j. (j_Status j = JobPending \<or> j_Status j = JobRunning) \<and> j_SourceURL j \<noteq> [])
       (db_jobs d))"

text \<open>The row \<open>MarkSegmentDone\<close> writes.\<close>

definition mark_row :: "int \<Rightarrow> int \<Rightarrow> int \<Rightarrow> UploadJob \<Rightarrow> UploadJob" where
  "mark_row now idx nbytes j =
     (let msk = j_DoneMask j;
          (msk, uploaded) = (if \<not> MaskHas msk idx
                              then (MaskSet msk idx, wrap64 (j_UploadedBytes j + nbytes))
                              else (msk, j_UploadedBytes j));
          finished = all_done msk (j_SegmentCount j);
          status = (if finished then JobComplete else JobRunning)
      in j\<lparr>j_DoneMask := msk, j_UploadedBytes := uploaded, j_Status := status, j_UpdatedAt := now,
           j_StartedAt := (if j_StartedAt j = 0 then now else j_StartedAt j),
           j_FinishedAt := (if finished \<and> now > 0 then now else j_FinishedAt j)\<rparr>)"

definition MarkSegmentDone :: "string \<Rightarrow> int \<Rightarrow> int \<Rightarrow> UploadJob db_op" where
  "MarkSegmentDone jid idx nbytes =
     Tx (\<lambda>d. case JobByID jid d of
         Inl e \<Rightarrow> (Inl e, d)
       | Inr j \<Rightarrow>
           if Aborted (j_Status j) then (Inl ErrJobFinished, d)
           else let d' = with_job jid (mark_row (db_now d) idx nbytes) d
                in (JobByID jid d', d'))"

text \<open>The assignments \<open>jobStatusUpdate\<close> builds.\<close>

definition jobStatusUpdate :: "int \<Rightarrow> JobStatus \<Rightarrow> string \<Rightarrow> UploadJob \<Rightarrow> UploadJob" where
  "jobStatusUpdate now status errMsg j =
     (let j1 = j\<lparr>j_Status := status, j_Error := errMsg, j_UpdatedAt := now\<rparr>
      in case status of
           JobRunning \<Rightarrow> j1\<lparr>j_StartedAt := (if j_StartedAt j = 0 then now else j_StartedAt j)\<rparr>
         | JobComplete \<Rightarrow> j1\<lparr>j_FinishedAt := now\<rparr>
         | JobFailed \<Rightarrow> j1\<lparr>j_FinishedAt := now\<rparr>
         | JobCancelled \<Rightarrow> j1\<lparr>j_FinishedAt := now\<rparr>
         | JobPending \<Rightarrow> j1)"

definition SetJobStatus :: "string \<Rightarrow> JobStatus \<Rightarrow> string \<Rightarrow> unit db_op" where
  "SetJobStatus jid status errMsg d =
     (affectedOne (\<lambda>j. j_ID j = jid) (db_jobs d),
      with_job jid (jobStatusUpdate (db_now d) status errMsg) d)"

definition SetJobStatusIf :: "string \<Rightarrow> JobStatus \<Rightarrow> string \<Rightarrow> JobStatus list \<Rightarrow> bool db_op" where
  "SetJobStatusIf jid status errMsg allowed d =
     (if allowed = [] then (Inl ErrArgument, d)
      else
        let P = (\<lambda>j. j_Status j \<in> set allowed \<and> j_ID j = jid)
        in (Inr (list_ex P (db_jobs d)),
            d\<lparr>db_jobs := update_where P (jobStatusUpdate (db_now d) status errMsg) (db_jobs d)\<rparr>))"

definition SetJobFile :: "string \<Rightarrow> string \<Rightarrow> unit db_op" where
  "SetJobFile jid fid d =
     (if fid \<noteq> [] \<and> \<not> file_exists fid d \<and> list_ex (\<lambda>j. j_ID j = jid) (db_jobs d) then (Inl ErrConstraint, d)
      else (affectedOne (\<lambda>j. j_ID j = jid) (db_jobs d),
            with_job jid (\<lambda>j. j\<lparr>j_FileID := fid, j_UpdatedAt := db_now d\<rparr>) d))"

definition SetJobSize :: "string \<Rightarrow> int \<Rightarrow> int \<Rightarrow> unit db_op" where
  "SetJobSize jid totalSize segments d =
     (affectedOne (\<lambda>j. j_ID j = jid) (db_jobs d),
      with_job jid (\<lambda>j. j\<lparr>j_TotalSize := totalSize, j_SegmentCount := segments, j_UpdatedAt := db_now d\<rparr>) d)"

definition DeleteJob :: "string \<Rightarrow> unit db_op" where
  "DeleteJob jid d =
     (affectedOne (\<lambda>j. j_ID j = jid) (db_jobs d),
      d\<lparr>db_jobs := filter (\<lambda>j. j_ID j \<noteq> jid) (db_jobs d)\<rparr>)"

definition PurgeFinishedJobs :: "int \<Rightarrow> int db_op" where
  "PurgeFinishedJobs olderThanMS d =
     (let P = (\<lambda>j. Terminal (j_Status j) \<and> j_UpdatedAt j < olderThanMS)
      in (Inr (int (length (filter P (db_jobs d)))),
          d\<lparr>db_jobs := filter (\<lambda>j. \<not> P j) (db_jobs d)\<rparr>))"

section \<open>Updates keep the identity of a job\<close>

text \<open>The updates a job row sees, as one family.\<close>

datatype job_update = UMark int int int | UStatus int JobStatus string

definition job_touch :: "job_update \<Rightarrow> UploadJob \<Rightarrow> UploadJob" where
  "job_touch u j =
     (case u of UMark now idx n \<Rightarrow> mark_row now idx n j | UStatus now s e \<Rightarrow> jobStatusUpdate now s e j)"

lemma j_ID_updates [simp]:
  "j_ID (mark_row now idx n j) = j_ID j" "j_ID (jobStatusUpdate now s e j) = j_ID j"
  by (simp_all add: mark_row_def jobStatusUpdate_def Let_def split: JobStatus.split prod.split)

lemma job_touch_eqs:
  "job_touch (UMark now idx n) = mark_row now idx n"
  "job_touch (UStatus now s e) = jobStatusUpdate now s e"
  by (simp_all add: job_touch_def fun_eq_iff)

interpretation jobs: keyed_table j_ID job_touch
  by unfold_locales (simp add: job_touch_def split: job_update.split)

lemma JobByID_mark:
  "JobByID jid (with_job jid (mark_row now idx n) d)
     = (case JobByID jid d of Inl e \<Rightarrow> Inl e | Inr j \<Rightarrow> Inr (mark_row now idx n j))"
  using jobs.find_touched [of jid "UMark now idx n" "db_jobs d"]
  by (simp add: JobByID_def with_job_def job_touch_eqs split: sum.split)

lemma MarkSegmentDone_Inr:
  "\<lbrakk>JobByID jid d = Inr j; \<not> Aborted (j_Status j)\<rbrakk> \<Longrightarrow>
     MarkSegmentDone jid idx n d = (Inr (mark_row (db_now d) idx n j), with_job jid (mark_row (db_now d) idx n) d)"
  by (simp add: MarkSegmentDone_def Tx_def JobByID_mark Let_def)

lemma MarkSegmentDone_aborted:
  "\<lbrakk>JobByID jid d = Inr j; Aborted (j_Status j)\<rbrakk> \<Longrightarrow> MarkSegmentDone jid idx n d = (Inl ErrJobFinished, d)"
  by (simp add: MarkSegmentDone_def Tx_def)

section \<open>Counting segments\<close>

lemma MaskHas_fold_MaskSet:
  "\<forall>i \<in> set is. 1 \<le> i \<Longrightarrow> MaskHas (fold (\<lambda>i m. MaskSet m i) is m) k \<longleftrightarrow> k \<in> set is \<or> MaskHas m k"
  by (induction "is" arbitrary: m) (auto simp: MaskHas_MaskSet)

text \<open>The state of a job after the segments in \<open>S\<close> have been recorded.\<close>

definition recorded :: "(int \<Rightarrow> int) \<Rightarrow> int set \<Rightarrow> UploadJob \<Rightarrow> UploadJob \<Rightarrow> bool" where
  "recorded sz S j0 j \<longleftrightarrow>
     (\<forall>i. MaskHas (j_DoneMask j) i \<longleftrightarrow> i \<in> S) \<and> j_UploadedBytes j = sum sz S \<and>
     j_SegmentCount j = j_SegmentCount j0 \<and> \<not> Aborted (j_Status j) \<and>
     (S \<noteq> {} \<longrightarrow> j_Status j = (if {1 .. j_SegmentCount j0} \<subseteq> S then JobComplete else JobRunning))"

lemma mark_row_recorded:
  assumes "recorded sz S j0 j" and "finite S" and "1 \<le> i" and "in64 (sum sz (insert i S))"
  shows "recorded sz (insert i S) j0 (mark_row now i (sz i) j)"
proof -
  have has: "MaskHas (j_DoneMask j) k \<longleftrightarrow> k \<in> S" for k using assms(1) by (simp add: recorded_def)
  have done1: "all_done m (j_SegmentCount j) \<longleftrightarrow> {1 .. j_SegmentCount j0} \<subseteq> insert i S"
    if "\<And>k. MaskHas m k \<longleftrightarrow> k \<in> insert i S" for m
    using that assms(1) by (auto simp: all_done_iff recorded_def)
  show ?thesis
  proof (cases "i \<in> S")
    case True
    then have "insert i S = S" by auto
    with True show ?thesis
      using assms(1) has done1 [of "j_DoneMask j"]
      by (simp add: recorded_def mark_row_def Let_def Aborted_def)
  next
    case False
    have b: "wrap64 (sum sz S + sz i) = sum sz (insert i S)"
      using assms(2,4) False by (simp add: add.commute)
    have "MaskHas (MaskSet (j_DoneMask j) i) k \<longleftrightarrow> k \<in> insert i S" for k
      using has assms(3) by (auto simp: MaskHas_MaskSet)
    with False show ?thesis
      using assms(1,4) has done1 [of "MaskSet (j_DoneMask j) i"]
      by (simp add: recorded_def mark_row_def Let_def Aborted_def b)
  qed
qed

definition mark_all :: "string \<Rightarrow> (int \<Rightarrow> int) \<Rightarrow> int list \<Rightarrow> db \<Rightarrow> db" where
  "mark_all jid sz is d = fold (\<lambda>i d. snd (MarkSegmentDone jid i (sz i) d)) is d"

lemma mark_all_recorded:
  assumes "JobByID jid d = Inr j" and "recorded sz S j0 j" and "finite S"
    and "\<forall>i \<in> set is. 1 \<le> i" and "\<forall>T. T \<subseteq> S \<union> set is \<longrightarrow> in64 (sum sz T)"
  shows "\<exists>j'. JobByID jid (mark_all jid sz is d) = Inr j' \<and> recorded sz (S \<union> set is) j0 j'"
  using assms
proof (induction "is" arbitrary: d j S)
  case Nil
  then show ?case by (simp add: mark_all_def)
next
  case (Cons i "is")
  let ?j1 = "mark_row (db_now d) i (sz i) j"
  have "\<not> Aborted (j_Status j)" using Cons.prems(2) by (simp add: recorded_def)
  then have m: "MarkSegmentDone jid i (sz i) d = (Inr ?j1, with_job jid (mark_row (db_now d) i (sz i)) d)"
    by (rule MarkSegmentDone_Inr [OF Cons.prems(1)])
  have "JobByID jid (with_job jid (mark_row (db_now d) i (sz i)) d) = Inr ?j1"
    by (simp add: JobByID_mark Cons.prems(1))
  moreover have "recorded sz (insert i S) j0 ?j1"
    using Cons.prems by (intro mark_row_recorded) auto
  ultimately have "\<exists>j'. JobByID jid (mark_all jid sz is (with_job jid (mark_row (db_now d) i (sz i)) d)) = Inr j'
      \<and> recorded sz (insert i S \<union> set is) j0 j'"
    using Cons.prems by (intro Cons.IH) auto
  then show ?case by (simp add: mark_all_def m)
qed

text \<open>Finished segments are counted exactly once, in any order and however often they are
  re-sent.  After any sequence of \<open>MarkSegmentDone\<close> calls on a fresh job, the uploaded bytes are the
  sum of the sizes of the distinct segments recorded, the segments still pending are exactly the
  others, and the job is complete if and only if none is missing.\<close>

theorem MarkSegmentDone_counts:
  assumes "JobByID jid d = Inr j" and "j_DoneMask j = NewMask (j_SegmentCount j)"
    and "j_UploadedBytes j = 0" and "\<not> Aborted (j_Status j)" and "is \<noteq> []" and "\<forall>i \<in> set is. 1 \<le> i"
    and "\<forall>T. T \<subseteq> set is \<longrightarrow> in64 (sum sz T)"
  shows "\<exists>j'. JobByID jid (mark_all jid sz is d) = Inr j' \<and> j_UploadedBytes j' = sum sz (set is) \<and>
     PendingSegments j' = filter (\<lambda>i. i \<notin> set is) [1 .. j_SegmentCount j] \<and>
     (j_Status j' = JobComplete \<longleftrightarrow> PendingSegments j' = [])"
proof -
  have "recorded sz {} j j" using assms(2-4) by (simp add: recorded_def)
  from mark_all_recorded [OF assms(1) this, of "is"] assms(6,7) obtain j' where
    j': "JobByID jid (mark_all jid sz is d) = Inr j'" "recorded sz (set is) j j'" by auto
  moreover have "PendingSegments j' = filter (\<lambda>i. i \<notin> set is) [1 .. j_SegmentCount j]"
    using j'(2) by (simp add: PendingSegments_def recorded_def)
  moreover have "j_Status j' = JobComplete \<longleftrightarrow> {1 .. j_SegmentCount j} \<subseteq> set is"
    using j'(2) assms(5) by (auto simp: recorded_def)
  ultimately show ?thesis by (auto simp: recorded_def filter_empty_conv)
qed

definition sample_job :: UploadJob where
  "sample_job = \<lparr>j_ID = ''J'', j_UserID = [], j_FileID = [], j_DirID = [], j_Name = ''film.mkv'',
     j_TotalSize = 25, j_SegmentSize = 10, j_SegmentCount = 3, j_DoneMask = NewMask 3,
     j_UploadedBytes = 0, j_Status = JobPending, j_Error = [], j_Source = ''webui'', j_SourceURL = [],
     j_CreatedAt = 0, j_UpdatedAt = 0, j_StartedAt = 0, j_FinishedAt = 0\<rparr>"

theorem MarkSegmentDone_counts_witness:
  "\<exists>j'. JobByID ''J'' (mark_all ''J'' (\<lambda>i. if i = 3 then 5 else 10) [3, 1, 3] (empty_db\<lparr>db_jobs := [sample_job]\<rparr>)) = Inr j'
     \<and> j_UploadedBytes j' = 15 \<and> PendingSegments j' = [2]"
proof -
  let ?d = "empty_db\<lparr>db_jobs := [sample_job]\<rparr>"
  have j: "JobByID ''J'' ?d = Inr sample_job" by (simp add: JobByID_def query_row_def sample_job_def)
  have in64: "\<forall>T. T \<subseteq> set [3, 1, 3 :: int] \<longrightarrow> in64 (sum (\<lambda>i. if i = 3 then 5 else 10) T)"
  proof (intro allI impI)
    fix T :: "int set" assume T: "T \<subseteq> set [3, 1, 3]"
    then have "T \<in> Pow {3, 1}" by auto
    then show "in64 (sum (\<lambda>i. if i = 3 then 5 else 10) T)" by (auto simp: in64_def Pow_insert)
  qed
  have "set [3, 1, 3] = {3, 1 :: int}" by auto
  then have s: "(\<Sum>i \<in> set [3, 1, 3 :: int]. if i = 3 then 5 else 10) = (15 :: int)" by simp
  have up: "[1 .. 3 :: int] = [1, 2, 3]" by code_simp

  show ?thesis
    using MarkSegmentDone_counts [OF j, of "[3, 1, 3]" "\<lambda>i. if i = 3 then 5 else 10"] in64 s
    by (simp add: sample_job_def Aborted_def up) blast
qed

section \<open>A stopped job stays stopped\<close>

text \<open>
  What the workers of a transfer do to the jobs table: recording segments, and the guarded
  transition to running that every worker makes (\<open>api/upload.go\<close>, \<open>drive/upload.go\<close>,
  \<open>drive/local.go\<close>, \<open>drive/remote.go\<close>).
\<close>

datatype worker_op = WMark string int int | WStart string

fun worker_step :: "worker_op \<Rightarrow> db \<Rightarrow> db" where
  "worker_step (WMark jid idx n) d = snd (MarkSegmentDone jid idx n d)"
| "worker_step (WStart jid) d = snd (SetJobStatusIf jid JobRunning [] [JobPending, JobRunning] d)"

definition stopped_as :: "string \<Rightarrow> UploadJob \<Rightarrow> db \<Rightarrow> bool" where
  "stopped_as jid j d \<longleftrightarrow> JobByID jid d = Inr j \<and> Aborted (j_Status j)"

lemma JobByID_with_job_other:
  "jid' \<noteq> jid \<Longrightarrow> JobByID jid (with_job jid' (mark_row now idx n) d) = JobByID jid d"
  using jobs.find_other [of jid jid' "UMark now idx n" "db_jobs d"]
  by (simp add: JobByID_def with_job_def job_touch_eqs)

lemma find_guarded:
  assumes "find (\<lambda>j. j_ID j = jid) rows = Some j" and "Aborted (j_Status j)"
  shows "find (\<lambda>j. j_ID j = jid)
      (update_where (\<lambda>j. j_Status j \<in> {JobPending, JobRunning} \<and> j_ID j = jid') (jobStatusUpdate now s e) rows) = Some j"
  using assms
proof (induction rows)
  case (Cons r rows)
  then show ?case
    by (cases "j_ID r = jid") (auto simp: update_where_def Aborted_def)
qed simp

lemma worker_step_stopped: "stopped_as jid j d \<Longrightarrow> stopped_as jid j (worker_step w d)"
proof (cases w)
  case (WMark jid' idx n)
  assume st: "stopped_as jid j d"
  show ?thesis
  proof (cases "jid' = jid")
    case True
    then show ?thesis using st MarkSegmentDone_aborted [of jid d j idx n]
      by (simp add: WMark stopped_as_def)
  next
    case False
    show ?thesis
    proof (cases "JobByID jid' d")
      case (Inl e)
      then show ?thesis using st by (simp add: WMark MarkSegmentDone_def Tx_def)
    next
      case (Inr j')
      then show ?thesis
        using st False JobByID_with_job_other [OF False]
        by (cases "Aborted (j_Status j')")
           (simp_all add: WMark MarkSegmentDone_aborted MarkSegmentDone_Inr stopped_as_def)
    qed
  qed
next
  case (WStart jid')
  assume "stopped_as jid j d"
  then show ?thesis
    using find_guarded [of jid "db_jobs d" j jid' "db_now d" JobRunning "[]"]
    by (simp add: WStart SetJobStatusIf_def stopped_as_def JobByID_def query_row_Inr Let_def)
qed

interpretation workers: machine worker_step "stopped_as jid j" for jid j
  by unfold_locales (rule worker_step_stopped)

text \<open>A cancelled or failed job stays as it is.  Whatever the workers still unwinding do, in
  any order and for any job, the row of an aborted job does not change: no late segment and no
  late start makes it reappear as running.\<close>

theorem aborted_job_sticks:
  assumes "JobByID jid d = Inr j" and "Aborted (j_Status j)"
  shows "JobByID jid (fold worker_step ws d) = Inr j"
  using workers.inv_run [of jid j d ws] assms by (simp add: stopped_as_def)

theorem aborted_job_sticks_witness:
  "JobByID ''J'' (fold worker_step [WMark ''J'' 1 10, WStart ''J'', WMark ''J'' 2 10]
      (empty_db\<lparr>db_jobs := [sample_job\<lparr>j_Status := JobCancelled\<rparr>]\<rparr>))
     = Inr (sample_job\<lparr>j_Status := JobCancelled\<rparr>)"
  by (rule aborted_job_sticks)
     (simp_all add: JobByID_def query_row_def sample_job_def Aborted_def)

end
