(* ===== verification/Like.thy ===== *)
theory Like
  imports GoStrings Prelude
begin

text \<open>
  SQLite's \<open>LIKE ... ESCAPE\<close> on the runes of a string, and the two helpers of
  \<open>internal/database/tree.go\<close> that build its arguments.  \<open>cf\<close> is the case folding of the
  comparison.  SQLite folds the ASCII letters unless \<open>PRAGMA case_sensitive_like\<close> is set, which
  this program never does, so the program runs with \<open>ascii_fold\<close>; with \<open>id\<close> the comparison is exact.
\<close>

function like :: "(nat \<Rightarrow> nat) \<Rightarrow> nat option \<Rightarrow> nat list \<Rightarrow> nat list \<Rightarrow> bool" where
  "like cf esc [] t = (t = [])"
| "like cf esc (c # p) t =
     (if c = 37 then like cf esc p t \<or> (case t of [] \<Rightarrow> False | _ # t' \<Rightarrow> like cf esc (c # p) t')
      else if esc = Some c then
        (case p of
           [] \<Rightarrow> False
         | d # p' \<Rightarrow> (case t of [] \<Rightarrow> False | x # t' \<Rightarrow> cf x = cf d \<and> like cf esc p' t'))
      else (case t of
          [] \<Rightarrow> False
        | x # t' \<Rightarrow> (c = 95 \<or> cf x = cf c) \<and> like cf esc p t'))"
  by pat_completeness auto

termination
  by (relation "measure (\<lambda>(f, e, p, t). length p + length t)") auto

definition ascii_fold :: "nat \<Rightarrow> nat" where
  "ascii_fold r = (if 65 \<le> r \<and> r \<le> 90 then r + 32 else r)"

text \<open>\<open>escapeLike\<close> and \<open>prefixCut\<close>\<close>

fun escapeLike :: "string \<Rightarrow> string" where
  "escapeLike [] = []"
| "escapeLike (c # cs) =
     (if c = CHR 92 \<or> c = CHR ''%'' \<or> c = CHR ''_'' then CHR 92 # c # escapeLike cs
      else c # escapeLike cs)"

definition prefixCut :: "string \<Rightarrow> int" where
  "prefixCut p = int (length (runes p)) + 1"

text \<open>\<open>path LIKE escapeLike(root) || '/%' ESCAPE '\'\<close>\<close>

definition below_like :: "(nat \<Rightarrow> nat) \<Rightarrow> string \<Rightarrow> string \<Rightarrow> bool" where
  "below_like cf root path = like cf (Some 92) (runes (escapeLike root @ ''/%'')) (runes path)"

text \<open>\<open>newPath || substr(path, prefixCut(oldPath))\<close>\<close>

definition runes_from :: "int \<Rightarrow> string \<Rightarrow> string" where
  "runes_from start s = concat (map snd (drop (nat (start - 1)) (chunks s)))"

definition reroot :: "string \<Rightarrow> string \<Rightarrow> string \<Rightarrow> string" where
  "reroot oldPath newPath path = newPath @ runes_from (prefixCut oldPath) path"

section \<open>What the pattern matches\<close>

fun escape_runes :: "nat list \<Rightarrow> nat list" where
  "escape_runes [] = []"
| "escape_runes (r # rs) =
     (if r = 92 \<or> r = 37 \<or> r = 95 then 92 # r # escape_runes rs else r # escape_runes rs)"

declare like.simps(2) [simp del]

lemma like_percent: "like cf esc [37] t"
  by (induction t) (simp_all add: like.simps(2))

lemma like_literal:
  "c \<notin> {37, 92, 95} \<Longrightarrow> like cf (Some 92) (c # p) t \<longleftrightarrow>
     (case t of [] \<Rightarrow> False | x # t' \<Rightarrow> cf x = cf c \<and> like cf (Some 92) p t')"
  by (subst like.simps(2)) (auto split: list.splits)

lemma like_escape:
  "like cf (Some 92) (92 # d # p) t \<longleftrightarrow>
     (case t of [] \<Rightarrow> False | x # t' \<Rightarrow> cf x = cf d \<and> like cf (Some 92) p t')"
  by (subst like.simps(2)) simp

lemma match_Cons:
  "(\<exists>u v. x # t = u @ v \<and> map cf u = map cf (r # rs)) \<longleftrightarrow>
     cf x = cf r \<and> (\<exists>u v. t = u @ v \<and> map cf u = map cf rs)"
  (is "?l \<longleftrightarrow> ?r")
proof
  assume ?l
  then obtain u v where u: "x # t = u @ v" "map cf u = map cf (r # rs)" by blast
  then obtain u' where "u = x # u'" by (cases u) auto
  then show ?r using u by auto
next
  assume ?r
  then obtain u v where "t = u @ v" "map cf u = map cf rs" "cf x = cf r" by blast
  then show ?l by (intro exI [of _ "x # u"] exI [of _ v]) simp
qed

lemma like_escaped:
  "like cf (Some 92) (escape_runes rs @ [47, 37]) t \<longleftrightarrow>
     (\<exists>u v. t = u @ v \<and> map cf u = map cf (rs @ [47]))"
proof (induction rs arbitrary: t)
  case Nil
  show ?case
    by (cases t) (simp_all add: like_literal like_percent match_Cons [of _ _ cf 47 "[]", simplified])
next
  case (Cons r rs)
  have "like cf (Some 92) (escape_runes (r # rs) @ [47, 37]) t \<longleftrightarrow>
      (case t of [] \<Rightarrow> False | x # t' \<Rightarrow> cf x = cf r \<and> like cf (Some 92) (escape_runes rs @ [47, 37]) t')"
    by (cases "r = 92 \<or> r = 37 \<or> r = 95") (auto simp: like_escape like_literal)
  then show ?case
    using match_Cons [of _ _ cf r "rs @ [47]"] by (cases t) (simp_all add: Cons.IH)
qed

lemma like_escaped_id:
  "like id (Some 92) (escape_runes rs @ [47, 37]) t \<longleftrightarrow> prefix (rs @ [47]) t"
  by (auto simp: like_escaped prefix_def)

text \<open>A rune below 128 is a byte below 128, so escaping bytes is escaping runes.\<close>

lemma decode_rune_low: "fst (decode_rune (c # cs)) < 128 \<Longrightarrow> byte c < 128"
proof -
  have d2: "128 \<le> fst (decode2 b ds)" if "194 \<le> b" for b ds
  proof -
    have "128 \<le> (b - 192) * 64 + low6 x" for x using that by linarith
    then show ?thesis by (auto simp: decode2_def rune_error_def split: list.split)
  qed
  have d3: "128 \<le> fst (decode3 b ds)" if "224 \<le> b" for b ds
  proof -
    have "128 \<le> (b - 224) * 4096 + low6 x * 64 + low6 y" if "accept3 b x" for x y
    proof (cases "b = 224")
      case True
      then have "160 \<le> byte x" "byte x \<le> 191" using that by (simp_all add: accept3_def)
      then have "32 \<le> low6 x" using low6_minus [of x] by linarith
      then show ?thesis by simp
    next
      case False
      then show ?thesis using \<open>224 \<le> b\<close> by simp
    qed
    then show ?thesis by (auto simp: decode3_def rune_error_def split: list.split)
  qed
  have d4: "128 \<le> fst (decode4 b ds)" if "240 \<le> b" for b ds
  proof -
    have "128 \<le> (b - 240) * 262144 + low6 x * 4096 + low6 y * 64 + low6 z" if "accept4 b x" for x y z
    proof (cases "b = 240")
      case True
      then have "144 \<le> byte x" "byte x \<le> 191" using that by (simp_all add: accept4_def)
      then have "16 \<le> low6 x" using low6_minus [of x] by linarith
      then show ?thesis by simp
    next
      case False
      then show ?thesis using \<open>240 \<le> b\<close> by simp
    qed
    then show ?thesis by (auto simp: decode4_def rune_error_def split: list.split)
  qed
  assume "fst (decode_rune (c # cs)) < 128"
  then show ?thesis
    using d2 [of "byte c" cs] d3 [of "byte c" cs] d4 [of "byte c" cs]
    by (auto simp: decode_rune.simps(2) Let_def rune_error_def split: if_split_asm)
qed

lemma low_rune_byte: "r \<in> set (runes s) \<Longrightarrow> r < 128 \<Longrightarrow> char_of r \<in> set s"
proof (induction s rule: chunks.induct)
  case (1 s)
  show ?case
  proof (cases s)
    case Nil
    then show ?thesis using 1 by (simp add: runes_def)
  next
    case (Cons c cs)
    have ch: "runes s = fst (decode_rune s) # runes (drop (snd (decode_rune s)) s)"
      using Cons by (simp add: runes_def chunks_nonempty)
    show ?thesis
    proof (cases "r = fst (decode_rune s)")
      case True
      then have "byte c < 128" using 1(3) decode_rune_low [of c cs] by (simp add: Cons)
      then have "r = byte c" using True by (simp add: Cons decode_rune.simps(2))
      then show ?thesis by (simp add: Cons)
    next
      case False
      then have "char_of r \<in> set (drop (snd (decode_rune s)) s)"
        using 1 ch Cons by auto
      then show ?thesis by (rule in_set_dropD)
    qed
  qed
qed

lemma escapeLike_plain: "CHR 92 \<notin> set s \<and> CHR ''%'' \<notin> set s \<and> CHR ''_'' \<notin> set s \<Longrightarrow> escapeLike s = s"
  by (induction s) auto

lemma escapeLike_append: "escapeLike (s @ t) = escapeLike s @ escapeLike t"
  by (induction s) auto

lemma escape_runes_append: "escape_runes (s @ t) = escape_runes s @ escape_runes t"
  by (induction s) auto

lemma escape_runes_plain: "92 \<notin> set s \<and> 37 \<notin> set s \<and> 95 \<notin> set s \<Longrightarrow> escape_runes s = s"
  by (induction s) auto

lemma runes_escapeLike: "runes (escapeLike s) = escape_runes (runes s)"
proof (induction s rule: length_induct)
  case (1 s)
  have chars: "char_of (92 :: nat) = CHR 92" "char_of (37 :: nat) = CHR ''%''" "char_of (95 :: nat) = CHR ''_''"
    by code_simp+
  let ?sp = "\<lambda>c. c = CHR 92 \<or> c = CHR ''%'' \<or> c = CHR ''_''"
  show ?case
  proof (cases "\<exists>c \<in> set s. ?sp c")
    case False
    then have "escapeLike s = s" by (intro escapeLike_plain) auto
    moreover have "92 \<notin> set (runes s) \<and> 37 \<notin> set (runes s) \<and> 95 \<notin> set (runes s)"
      using False low_rune_byte [of 92 s] low_rune_byte [of 37 s] low_rune_byte [of 95 s] chars
      by auto
    ultimately show ?thesis by (simp add: escape_runes_plain)
  next
    case True
    then obtain a c t where s: "s = a @ c # t" and c: "?sp c" and a: "\<forall>x \<in> set a. \<not> ?sp x"
      by (rule split_list_first_propE) (rule that)
    have bc: "byte c < 128" "byte c = 92 \<or> byte c = 37 \<or> byte c = 95" using c by auto
    have IH: "runes (escapeLike t) = escape_runes (runes t)" "runes (escapeLike a) = escape_runes (runes a)"
      using 1 by (simp_all add: s)
    have esc: "escapeLike (c # t) = CHR 92 # c # escapeLike t" using c by auto
    have esc_r: "escape_runes (k # rs) = 92 # k # escape_runes rs" if "k = 92 \<or> k = 37 \<or> k = 95" for k rs
      using that by auto
    have "runes (escapeLike s) = runes (escapeLike a) @ byte (CHR 92) # byte c # runes (escapeLike t)"
      unfolding s escapeLike_append esc
      using runes_append_ascii [of "CHR 92" "escapeLike a" "c # escapeLike t"]
        runes_append_ascii [OF bc(1), of "[]" "escapeLike t"]
      by (simp add: runes_def)
    also have "\<dots> = escape_runes (runes a) @ escape_runes (byte c # runes t)"
      by (simp only: IH esc_r [OF bc(2)]) simp
    also have "\<dots> = escape_runes (runes s)"
      by (simp only: s runes_append_ascii [OF bc(1)] escape_runes_append)
    finally show ?thesis .
  qed
qed

lemma below_like_iff:
  "below_like cf root path \<longleftrightarrow>
     (\<exists>u v. runes path = u @ v \<and> map cf u = map cf (runes root @ [47]))"
proof -
  have "runes (escapeLike root @ ''/%'') = escape_runes (runes root) @ [47, 37]"
    using runes_append_ascii [of "CHR ''/''" "escapeLike root" "''%''"]
    by (simp add: runes_escapeLike runes_def [of "''%''"] chunks_ascii)
  then show ?thesis by (simp add: below_like_def like_escaped)
qed

section \<open>Valid strings are their runes\<close>

lemma char_of_byte_add: "m \<le> byte c \<Longrightarrow> k = byte c - m \<Longrightarrow> char_of (m + k) = c"
  by simp

lemma cont_char: "is_cont c \<Longrightarrow> char_of (128 + low6 c) = c"
  by (rule char_of_byte_add) (simp_all add: is_cont_def low6_minus)

lemma dm64: "y \<le> 63 \<Longrightarrow> (q * 64 + y) div 64 = (q :: nat)" "y \<le> 63 \<Longrightarrow> (q * 64 + y) mod 64 = y"
  by simp_all

lemma encode2:
  assumes "2 \<le> x" "x \<le> 31" "y \<le> 63"
  shows "encode_rune (x * 64 + y) = [char_of (192 + x), char_of (128 + y)]"
proof -
  have r: "128 \<le> x * 64 + y" "x * 64 + y < 2048" using assms by linarith+
  note d = dm64 [OF assms(3), of x]
  show ?thesis using r d by (simp add: encode_rune_def Let_def)
qed

lemma encode3:
  assumes "a \<le> 15" "x \<le> 63" "y \<le> 63" "a = 0 \<Longrightarrow> 32 \<le> x" "a = 13 \<Longrightarrow> x \<le> 31"
  shows "encode_rune (a * 4096 + x * 64 + y) = [char_of (224 + a), char_of (128 + x), char_of (128 + y)]"
proof -
  let ?r = "a * 4096 + x * 64 + y"
  have lo: "2048 \<le> ?r" using assms(4) by (cases "a = 0") auto
  have hi: "?r < 65536" using assms(1-3) by linarith
  have ns: "?r < 55296 \<or> 57344 \<le> ?r"
  proof (cases "a = 13")
    case True
    then show ?thesis using assms(3,5) by auto
  next
    case False
    then have "a \<le> 12 \<or> 14 \<le> a" by linarith
    then show ?thesis using assms(2,3) by auto
  qed
  have q: "?r = (a * 64 + x) * 64 + y" by simp
  have "?r div 64 = a * 64 + x" "?r mod 64 = y" unfolding q by (rule dm64 [OF assms(3)])+
  moreover have "?r div 4096 = a"
    using assms(2,3) by (intro div_nat_eqI) auto
  moreover have "(a * 64 + x) mod 64 = x" using assms(2) by simp
  ultimately show ?thesis using lo hi ns by (auto simp: encode_rune_def Let_def)
qed

lemma encode4:
  assumes "a \<le> 4" "x \<le> 63" "y \<le> 63" "z \<le> 63" "a = 0 \<Longrightarrow> 16 \<le> x" "a = 4 \<Longrightarrow> x \<le> 15"
  shows "encode_rune (a * 262144 + x * 4096 + y * 64 + z)
     = [char_of (240 + a), char_of (128 + x), char_of (128 + y), char_of (128 + z)]"
proof -
  let ?r = "a * 262144 + x * 4096 + y * 64 + z"
  have lo: "65536 \<le> ?r" using assms(5) by (cases "a = 0") auto
  have hi: "?r < 1114112"
  proof (cases "a = 4")
    case True
    then show ?thesis using assms(3,4,6) by simp
  next
    case False
    then have "a \<le> 3" using assms(1) by linarith
    then show ?thesis using assms(2-4) by linarith
  qed
  have q: "?r = (a * 4096 + x * 64 + y) * 64 + z" by simp
  have "?r div 64 = a * 4096 + x * 64 + y" "?r mod 64 = z" unfolding q by (rule dm64 [OF assms(4)])+
  moreover have "a * 4096 + x * 64 + y = (a * 64 + x) * 64 + y" by simp
  then have "(a * 4096 + x * 64 + y) mod 64 = y" by (simp only: dm64(2) [OF assms(3)])
  moreover have "?r div 4096 = a * 64 + x"
    using assms(3,4) by (intro div_nat_eqI) auto
  moreover have "(a * 64 + x) mod 64 = x" using assms(2) by simp
  moreover have "?r div 262144 = a"
    using assms(2-4) by (intro div_nat_eqI) auto
  ultimately show ?thesis using lo hi by (simp add: encode_rune_def Let_def)
qed

lemma encode_decode_rune:
  assumes "s \<noteq> []" and "decode_rune s \<noteq> (rune_error, 1)"
  shows "encode_rune (fst (decode_rune s)) = take (snd (decode_rune s)) s"
proof -
  obtain c cs where s: "s = c # cs" using assms(1) by (cases s) auto
  let ?b = "byte c"
  consider "?b < 128" | "194 \<le> ?b" "?b \<le> 223" | "224 \<le> ?b" "?b \<le> 239" | "240 \<le> ?b" "?b \<le> 244"
    using assms(2) by (fastforce simp: s decode_rune.simps(2) Let_def)
  then show ?thesis
  proof cases
    case 1
    then show ?thesis by (simp add: s decode_rune.simps(2) encode_rune_def)
  next
    case 2
    then have d: "decode_rune s = decode2 ?b cs" by (simp add: s decode_rune.simps(2))
    then obtain c1 r where cs: "cs = c1 # r" "is_cont c1"
      using assms(2) by (auto simp: decode2_def split: list.splits if_splits)
    have "encode_rune ((?b - 192) * 64 + low6 c1) = [char_of (192 + (?b - 192)), char_of (128 + low6 c1)]"
      using 2 by (intro encode2) auto
    moreover have "decode_rune s = ((?b - 192) * 64 + low6 c1, 2)" "take 2 s = [c, c1]"
      using cs by (simp_all add: d decode2_def) (simp add: s)
    ultimately show ?thesis using 2 cs by (simp add: cont_char)
  next
    case 3
    then have d: "decode_rune s = decode3 ?b cs" by (simp add: s decode_rune.simps(2))
    then obtain c1 c2 r where cs: "cs = c1 # c2 # r" "accept3 ?b c1" "is_cont c2"
      using assms(2) by (auto simp: decode3_def split: list.splits if_splits)
    have l: "(if ?b = 224 then 160 else 128) \<le> byte c1" "byte c1 \<le> (if ?b = 237 then 159 else 191)"
      using cs(2) unfolding accept3_def by blast+
    then have c1: "is_cont c1" by (auto simp: is_cont_def split: if_splits)
    then have lc: "low6 c1 = byte c1 - 128" by (simp add: is_cont_def low6_minus)
    have "encode_rune ((?b - 224) * 4096 + low6 c1 * 64 + low6 c2)
        = [char_of (224 + (?b - 224)), char_of (128 + low6 c1), char_of (128 + low6 c2)]"
    proof (rule encode3)
      show "?b - 224 \<le> 15" using 3 by linarith
      show "?b - 224 = 0 \<Longrightarrow> 32 \<le> low6 c1" using 3 l lc by (auto split: if_splits)
      show "?b - 224 = 13 \<Longrightarrow> low6 c1 \<le> 31" using 3 l lc by (auto split: if_splits)
    qed simp_all
    moreover have "decode_rune s = ((?b - 224) * 4096 + low6 c1 * 64 + low6 c2, 3)" "take 3 s = [c, c1, c2]"
      using cs by (simp_all add: d decode3_def) (simp add: s)
    ultimately show ?thesis using 3 cs c1 by (simp add: cont_char)
  next
    case 4
    then have d: "decode_rune s = decode4 ?b cs" by (simp add: s decode_rune.simps(2))
    then obtain c1 c2 c3 r where cs: "cs = c1 # c2 # c3 # r" "accept4 ?b c1" "is_cont c2" "is_cont c3"
      using assms(2) by (auto simp: decode4_def split: list.splits if_splits)
    have l: "(if ?b = 240 then 144 else 128) \<le> byte c1" "byte c1 \<le> (if ?b = 244 then 143 else 191)"
      using cs(2) unfolding accept4_def by blast+
    then have c1: "is_cont c1" by (auto simp: is_cont_def split: if_splits)
    then have lc: "low6 c1 = byte c1 - 128" by (simp add: is_cont_def low6_minus)
    have "encode_rune ((?b - 240) * 262144 + low6 c1 * 4096 + low6 c2 * 64 + low6 c3)
        = [char_of (240 + (?b - 240)), char_of (128 + low6 c1), char_of (128 + low6 c2), char_of (128 + low6 c3)]"
    proof (rule encode4)
      show "?b - 240 \<le> 4" using 4 by linarith
      show "?b - 240 = 0 \<Longrightarrow> 16 \<le> low6 c1" using 4 l lc by (auto split: if_splits)
      show "?b - 240 = 4 \<Longrightarrow> low6 c1 \<le> 15" using 4 l lc by (auto split: if_splits)
    qed simp_all
    moreover have "decode_rune s = ((?b - 240) * 262144 + low6 c1 * 4096 + low6 c2 * 64 + low6 c3, 4)"
      "take 4 s = [c, c1, c2, c3]"
      using cs by (simp_all add: d decode4_def) (simp add: s)
    ultimately show ?thesis using 4 cs c1 by (simp add: cont_char)
  qed
qed

lemma valid_utf8_drop: "valid_utf8 s \<Longrightarrow> valid_utf8 (drop (snd (decode_rune s)) s)"
  by (cases "s = []") (auto simp: valid_utf8_def chunks_nonempty)

lemma valid_utf8_step: "\<lbrakk>valid_utf8 s; s \<noteq> []\<rbrakk> \<Longrightarrow> decode_rune s \<noteq> (rune_error, 1)"
  using decode_rune_width [of s]
  by (auto simp: valid_utf8_def chunks_nonempty good_chunk_def)

lemma encode_runes: "valid_utf8 s \<Longrightarrow> concat (map encode_rune (runes s)) = s"
proof (induction s rule: chunks.induct)
  case (1 s)
  show ?case
  proof (cases "s = []")
    case True
    then show ?thesis by (simp add: runes_def)
  next
    case False
    then have "runes s = fst (decode_rune s) # runes (drop (snd (decode_rune s)) s)"
      by (simp add: runes_def chunks_nonempty)
    moreover have "concat (map encode_rune (runes (drop (snd (decode_rune s)) s))) = drop (snd (decode_rune s)) s"
      using 1(1) [OF False valid_utf8_drop [OF 1(2)]] .
    ultimately show ?thesis
      by (simp add: encode_decode_rune [OF False valid_utf8_step [OF 1(2) False]])
  qed
qed

lemma runes_inject: "\<lbrakk>valid_utf8 s; valid_utf8 t\<rbrakk> \<Longrightarrow> runes s = runes t \<longleftrightarrow> s = t"
  by (metis encode_runes)

lemma below_like_id:
  assumes "valid_utf8 root" and "valid_utf8 path"
  shows "below_like id root path \<longleftrightarrow> prefix (root @ ''/'') path"
proof
  assume "below_like id root path"
  then obtain v where "runes path = runes root @ 47 # v" by (auto simp: below_like_iff)
  then have "path = concat (map encode_rune (runes root @ 47 # v))"
    using encode_runes [OF assms(2)] by simp
  moreover have "encode_rune 47 = ''/''" by (simp add: encode_rune_def char_of_eq_iff)
  ultimately show "prefix (root @ ''/'') path"
    using encode_runes [OF assms(1)] by simp
next
  assume "prefix (root @ ''/'') path"
  then obtain t where "path = root @ CHR ''/'' # t" by (auto simp: prefix_def)
  then have "runes path = (runes root @ [47]) @ runes t" by (simp add: runes_append_ascii)
  then show "below_like id root path"
    unfolding below_like_iff by (intro exI [of _ "runes root @ [47]"] exI [of _ "runes t"]) simp
qed

lemma reroot_below:
  assumes "valid_utf8 root"
  shows "reroot root newPath (root @ t) = newPath @ t"
proof -
  have "drop (length (chunks root)) (chunks (root @ t)) = chunks t"
    using assms by (simp add: chunks_append)
  then show ?thesis
    by (simp add: reroot_def runes_from_def prefixCut_def runes_def concat_chunks)
qed

end
