(* ===== verification/TreeDB.thy ===== *)
theory TreeDB
  imports Jobs Like DrivePath "HOL-Library.Char_ord" "HOL-Library.List_Lexorder"
begin

text \<open>
  The directory tree in the index, \<open>internal/database/tree.go\<close>: directories with denormalised
  paths, files, segments, and the statements over a whole subtree.  \<open>cf\<close> is the case folding of
  SQLite's \<open>LIKE\<close> (theory \<open>Like\<close>).  Unique indexes and foreign keys are those of \<open>schema.sql\<close>;
  an \<open>UPDATE\<close> checks a unique index after each row.
\<close>

section \<open>Directories\<close>

definition InsertDir :: "Dir \<Rightarrow> unit db_op" where
  "InsertDir dir d =
     (let row = dir\<lparr>d_CreatedAt := db_now d, d_UpdatedAt := db_now d\<rparr>
      in if list_ex (\<lambda>r. d_ID r = d_ID dir \<or> d_Path r = d_Path dir \<or>
              d_ParentID r = d_ParentID dir \<and> d_Name r = d_Name dir) (db_dirs d)
         then (Inl ErrConflict, d)
         else if d_ParentID dir \<noteq> [] \<and> \<not> dir_exists (d_ParentID dir) d
           \<or> d_ChannelID dir \<noteq> [] \<and> \<not> channel_exists (d_ChannelID dir) d
           \<or> d_OwnerID dir \<noteq> [] \<and> \<not> user_exists (d_OwnerID dir) d
         then (Inl ErrConstraint, d)
         else (Inr (), d\<lparr>db_dirs := db_dirs d @ [row]\<rparr>))"

definition DirByID :: "string \<Rightarrow> db \<Rightarrow> db_error + Dir" where
  "DirByID did d = query_row (\<lambda>r. d_ID r = did) (db_dirs d)"

definition DirByPath :: "string \<Rightarrow> db \<Rightarrow> db_error + Dir" where
  "DirByPath path d = query_row (\<lambda>r. d_Path r = path) (db_dirs d)"

definition DirChild :: "string \<Rightarrow> string \<Rightarrow> db \<Rightarrow> db_error + Dir" where
  "DirChild parentID name d = query_row (\<lambda>r. d_ParentID r = parentID \<and> d_Name r = name) (db_dirs d)"

definition ListDirs :: "string \<Rightarrow> db \<Rightarrow> Dir list" where
  "ListDirs parentID d = sort_key d_Name (filter (\<lambda>r. d_ParentID r = parentID) (db_dirs d))"

definition AllDirs :: "db \<Rightarrow> Dir list" where
  "AllDirs d = sort_key d_Path (db_dirs d)"

text \<open>\<open>UPDATE ... SET path = ... WHERE P\<close> under the unique index of \<open>path\<close>, row by row.\<close>

fun update_unique ::
  "('r \<Rightarrow> 'k) \<Rightarrow> ('r \<Rightarrow> bool) \<Rightarrow> ('r \<Rightarrow> 'r) \<Rightarrow> 'r list \<Rightarrow> 'r list \<Rightarrow> 'r list option" where
  "update_unique key P f done [] = Some done"
| "update_unique key P f done (r # rs) =
     (if P r then
        (if key (f r) \<in> key ` set done \<or> key (f r) \<in> key ` set rs then None
         else update_unique key P f (done @ [f r]) rs)
      else update_unique key P f (done @ [r]) rs)"

text \<open>The second statement of \<open>RenameDir\<close> and \<open>MoveDir\<close>: rewriting the descendants' paths.\<close>

definition rewrite_descendants ::
  "(nat \<Rightarrow> nat) \<Rightarrow> string \<Rightarrow> string \<Rightarrow> int \<Rightarrow> Dir list \<Rightarrow> Dir list option" where
  "rewrite_descendants cf oldPath newPath now rows =
     update_unique d_Path (\<lambda>r. below_like cf oldPath (d_Path r))
       (\<lambda>r. r\<lparr>d_Path := reroot oldPath newPath (d_Path r), d_UpdatedAt := now\<rparr>) [] rows"

definition RenameDir :: "(nat \<Rightarrow> nat) \<Rightarrow> string \<Rightarrow> string \<Rightarrow> string \<Rightarrow> unit db_op" where
  "RenameDir cf did newName newPath =
     Tx (\<lambda>d. case DirByID did d of
         Inl e \<Rightarrow> (Inl e, d)
       | Inr r \<Rightarrow>
           if list_ex (\<lambda>x. d_ID x \<noteq> did \<and> (d_Path x = newPath \<or>
                d_ParentID x = d_ParentID r \<and> d_Name x = newName)) (db_dirs d)
           then (Inl ErrConflict, d)
           else
             let rows = update_where (\<lambda>x. d_ID x = did)
                   (\<lambda>x. x\<lparr>d_Name := newName, d_Path := newPath, d_UpdatedAt := db_now d\<rparr>) (db_dirs d)
             in case rewrite_descendants cf (d_Path r) newPath (db_now d) rows of
                  None \<Rightarrow> (Inl ErrConflict, d)
                | Some rows' \<Rightarrow> (Inr (), d\<lparr>db_dirs := rows'\<rparr>))"

definition MoveDir :: "(nat \<Rightarrow> nat) \<Rightarrow> string \<Rightarrow> string \<Rightarrow> string \<Rightarrow> unit db_op" where
  "MoveDir cf did newParentID newPath =
     Tx (\<lambda>d. case DirByID did d of
         Inl e \<Rightarrow> (Inl e, d)
       | Inr r \<Rightarrow>
           if list_ex (\<lambda>x. d_ID x \<noteq> did \<and> (d_Path x = newPath \<or>
                d_ParentID x = newParentID \<and> d_Name x = d_Name r)) (db_dirs d)
           then (Inl ErrConflict, d)
           else if newParentID \<noteq> [] \<and> \<not> dir_exists newParentID d then (Inl ErrConstraint, d)
           else
             let rows = update_where (\<lambda>x. d_ID x = did)
                   (\<lambda>x. x\<lparr>d_ParentID := newParentID, d_Path := newPath, d_UpdatedAt := db_now d\<rparr>) (db_dirs d)
             in case rewrite_descendants cf (d_Path r) newPath (db_now d) rows of
                  None \<Rightarrow> (Inl ErrConflict, d)
                | Some rows' \<Rightarrow> (Inr (), d\<lparr>db_dirs := rows'\<rparr>))"

text \<open>The directories \<open>ON DELETE CASCADE\<close> reaches from \<open>ids\<close>; each round adds a new one.\<close>

fun cascade_ids :: "nat \<Rightarrow> Dir list \<Rightarrow> string list \<Rightarrow> string list" where
  "cascade_ids 0 dirs ids = ids"
| "cascade_ids (Suc n) dirs ids =
     (let new = map d_ID (filter (\<lambda>r. d_ParentID r \<in> set ids \<and> d_ID r \<notin> set ids) dirs)
      in if new = [] then ids else cascade_ids n dirs (ids @ new))"

definition subtree_ids :: "Dir list \<Rightarrow> string \<Rightarrow> string list" where
  "subtree_ids dirs did = cascade_ids (length dirs) dirs [did]"

text \<open>Deleting files takes their segments with it and unlinks the jobs that point at them.\<close>

definition delete_files :: "(FileRow \<Rightarrow> bool) \<Rightarrow> db \<Rightarrow> db" where
  "delete_files P d =
     (let gone = map f_ID (filter P (db_files d))
      in d\<lparr>db_files := filter (\<lambda>f. \<not> P f) (db_files d),
           db_segments := filter (\<lambda>g. g_FileID g \<notin> set gone) (db_segments d),
           db_jobs := map (\<lambda>j. if j_FileID j \<in> set gone then j\<lparr>j_FileID := []\<rparr> else j) (db_jobs d),
           db_downloads := map (\<lambda>w. if w_FileID w \<in> set gone then w\<lparr>w_FileID := []\<rparr> else w)
             (db_downloads d)\<rparr>)"

definition DeleteDir :: "string \<Rightarrow> unit db_op" where
  "DeleteDir did d =
     (if dir_exists did d
      then let ids = subtree_ids (db_dirs d) did;
               d1 = delete_files (\<lambda>f. f_DirID f \<in> set ids) d
           in (Inr (), d1\<lparr>db_dirs := filter (\<lambda>r. d_ID r \<notin> set ids) (db_dirs d1)\<rparr>)
      else (Inl ErrNotFound, d))"

section \<open>Files and segments\<close>

definition InsertFile :: "FileRow \<Rightarrow> unit db_op" where
  "InsertFile f d =
     (let row = f\<lparr>f_CreatedAt := db_now d, f_UpdatedAt := db_now d\<rparr>
      in if list_ex (\<lambda>r. f_ID r = f_ID f \<or> f_DirID r = f_DirID f \<and> f_Name r = f_Name f) (db_files d)
         then (Inl ErrConflict, d)
         else if f_DirID f \<noteq> [] \<and> \<not> dir_exists (f_DirID f) d
           \<or> f_ChannelID f \<noteq> [] \<and> \<not> channel_exists (f_ChannelID f) d
           \<or> f_OwnerID f \<noteq> [] \<and> \<not> user_exists (f_OwnerID f) d
         then (Inl ErrConstraint, d)
         else (Inr (), d\<lparr>db_files := db_files d @ [row]\<rparr>))"

definition FileByID :: "string \<Rightarrow> db \<Rightarrow> db_error + FileRow" where
  "FileByID fid d = query_row (\<lambda>r. f_ID r = fid) (db_files d)"

definition FileInDir :: "string \<Rightarrow> string \<Rightarrow> db \<Rightarrow> db_error + FileRow" where
  "FileInDir dirID name d = query_row (\<lambda>r. f_DirID r = dirID \<and> f_Name r = name) (db_files d)"

definition ListFiles :: "string \<Rightarrow> db \<Rightarrow> FileRow list" where
  "ListFiles dirID d =
     sort_key f_Name (filter (\<lambda>r. f_DirID r = dirID \<and> f_Status r \<noteq> StatusPending) (db_files d))"

definition with_file :: "string \<Rightarrow> (FileRow \<Rightarrow> FileRow) \<Rightarrow> unit db_op" where
  "with_file fid u d =
     (affectedOne (\<lambda>r. f_ID r = fid) (db_files d),
      d\<lparr>db_files := update_where (\<lambda>r. f_ID r = fid) u (db_files d)\<rparr>)"

definition UpdateFileStatus :: "string \<Rightarrow> FileStatus \<Rightarrow> unit db_op" where
  "UpdateFileStatus fid status d =
     with_file fid (\<lambda>r. r\<lparr>f_Status := status, f_UpdatedAt := db_now d\<rparr>) d"

definition SetFileSize :: "string \<Rightarrow> int \<Rightarrow> int \<Rightarrow> unit db_op" where
  "SetFileSize fid sz segmentCount d =
     with_file fid (\<lambda>r. r\<lparr>f_Size := sz, f_SegmentCount := segmentCount, f_UpdatedAt := db_now d\<rparr>) d"

text \<open>The unique index on \<open>(dir_id, name)\<close> guards the two updates that change a file's place.\<close>

definition place_taken :: "string \<Rightarrow> string \<Rightarrow> string \<Rightarrow> db \<Rightarrow> bool" where
  "place_taken fid dirID name d \<longleftrightarrow>
     list_ex (\<lambda>r. f_ID r \<noteq> fid \<and> f_DirID r = dirID \<and> f_Name r = name) (db_files d)"

definition RenameFile :: "string \<Rightarrow> string \<Rightarrow> unit db_op" where
  "RenameFile fid newName d =
     (case FileByID fid d of
        Inl e \<Rightarrow> (Inl e, d)
      | Inr f \<Rightarrow>
          if place_taken fid (f_DirID f) newName d then (Inl ErrConflict, d)
          else with_file fid (\<lambda>r. r\<lparr>f_Name := newName, f_UpdatedAt := db_now d\<rparr>) d)"

definition MoveFile :: "string \<Rightarrow> string \<Rightarrow> unit db_op" where
  "MoveFile fid newDirID d =
     (case FileByID fid d of
        Inl e \<Rightarrow> (Inl e, d)
      | Inr f \<Rightarrow>
          if place_taken fid newDirID (f_Name f) d then (Inl ErrConflict, d)
          else if newDirID \<noteq> [] \<and> \<not> dir_exists newDirID d then (Inl ErrConstraint, d)
          else with_file fid (\<lambda>r. r\<lparr>f_DirID := newDirID, f_UpdatedAt := db_now d\<rparr>) d)"

definition DeleteFile :: "string \<Rightarrow> unit db_op" where
  "DeleteFile fid d =
     (if file_exists fid d then (Inr (), delete_files (\<lambda>f. f_ID f = fid) d) else (Inl ErrNotFound, d))"

definition UpsertSegment :: "Segment \<Rightarrow> unit db_op" where
  "UpsertSegment g d =
     (let P = (\<lambda>r. g_FileID r = g_FileID g \<and> g_Index r = g_Index g)
      in if list_ex P (db_segments d)
         then (Inr (), d\<lparr>db_segments := update_where P (\<lambda>_. g) (db_segments d)\<rparr>)
         else if \<not> file_exists (g_FileID g) d then (Inl ErrConstraint, d)
         else (Inr (), d\<lparr>db_segments := db_segments d @ [g]\<rparr>))"

definition Segments :: "string \<Rightarrow> db \<Rightarrow> Segment list" where
  "Segments fid d = sort_key g_Index (filter (\<lambda>g. g_FileID g = fid) (db_segments d))"

definition RefreshFileReference :: "string \<Rightarrow> int \<Rightarrow> string \<Rightarrow> string \<Rightarrow> unit db_op" where
  "RefreshFileReference fid idx ref accountID d =
     (Inr (), d\<lparr>db_segments := update_where
        (\<lambda>g. g_FileID g = fid \<and> g_Index g = idx \<and> g_AccountID g = accountID)
        (\<lambda>g. g\<lparr>g_FileReference := ref\<rparr>) (db_segments d)\<rparr>)"

definition SetSegmentDC :: "string \<Rightarrow> int \<Rightarrow> int \<Rightarrow> unit db_op" where
  "SetSegmentDC fid idx dc d =
     (Inr (), d\<lparr>db_segments := update_where (\<lambda>g. g_FileID g = fid \<and> g_Index g = idx)
        (\<lambda>g. g\<lparr>g_DCID := dc\<rparr>) (db_segments d)\<rparr>)"

section \<open>Queries over a subtree\<close>

record TGMessage =
  m_ChannelID :: string
  m_MsgID :: int

definition SubtreeSizes :: "string \<Rightarrow> db \<Rightarrow> (string \<times> int) list" where
  "SubtreeSizes parentID d =
     map (\<lambda>c. (d_ID c,
         sum_list (map f_Size (filter (\<lambda>f. f_DirID f \<in> set (subtree_ids (db_dirs d) (d_ID c))
           \<and> f_Status f \<noteq> StatusPending) (db_files d)))))
       (filter (\<lambda>r. d_ParentID r = parentID) (db_dirs d))"

definition file_messages :: "FileRow \<Rightarrow> Segment list \<Rightarrow> TGMessage list" where
  "file_messages f segs =
     map (\<lambda>g. \<lparr>m_ChannelID = f_ChannelID f, m_MsgID = g_TGMsgID g\<rparr>)
       (filter (\<lambda>g. g_FileID g = f_ID f) segs)"

definition dir_messages :: "Dir list \<Rightarrow> TGMessage list" where
  "dir_messages rows =
     map (\<lambda>r. \<lparr>m_ChannelID = d_ChannelID r, m_MsgID = d_TGMsgID r\<rparr>) (filter (\<lambda>r. d_TGMsgID r > 0) rows)"

definition SubtreeMessages :: "(nat \<Rightarrow> nat) \<Rightarrow> string \<Rightarrow> db \<Rightarrow> db_error + TGMessage list" where
  "SubtreeMessages cf did d =
     go_bind (DirByID did d) (\<lambda>r.
       let subtree = filter (\<lambda>x. d_ID x = did \<or> below_like cf (d_Path r) (d_Path x)) (db_dirs d)
       in Inr (dir_messages subtree @
            concat (map (\<lambda>f. file_messages f (db_segments d))
              (filter (\<lambda>f. f_DirID f \<in> set (map d_ID subtree)) (db_files d)))))"

definition FileMessages :: "string \<Rightarrow> db \<Rightarrow> TGMessage list" where
  "FileMessages fid d =
     concat (map (\<lambda>f. file_messages f (sort_key g_Index (db_segments d)))
       (filter (\<lambda>f. f_ID f = fid) (db_files d)))"

section \<open>Replacing the index\<close>

definition knownUserIDs :: "db \<Rightarrow> string set" where
  "knownUserIDs d = u_ID ` set (db_users d)"

definition owner_of :: "string set \<Rightarrow> string \<Rightarrow> string" where
  "owner_of known oid = (if oid = [] \<or> oid \<notin> known then [] else oid)"

fun insert_all :: "('r \<Rightarrow> unit db_op) \<Rightarrow> 'r list \<Rightarrow> unit db_op" where
  "insert_all ins [] d = (Inr (), d)"
| "insert_all ins (r # rs) d =
     (case ins r d of (Inl e, _) \<Rightarrow> (Inl e, d) | (Inr _, d') \<Rightarrow> insert_all ins rs d')"

definition insert_segment :: "Segment \<Rightarrow> unit db_op" where
  "insert_segment g d =
     (if list_ex (\<lambda>r. g_FileID r = g_FileID g \<and> g_Index r = g_Index g) (db_segments d)
      then (Inl ErrConflict, d)
      else if \<not> file_exists (g_FileID g) d then (Inl ErrConstraint, d)
      else (Inr (), d\<lparr>db_segments := db_segments d @ [g]\<rparr>))"

definition ReplaceIndex :: "Dir list \<Rightarrow> FileRow list \<Rightarrow> Segment list \<Rightarrow> unit db_op" where
  "ReplaceIndex dirs fs segs d0 =
     (let known = knownUserIDs d0 in
      Tx (\<lambda>d.
        let d1 = (delete_files (\<lambda>_. True) d)\<lparr>db_segments := [], db_dirs := []\<rparr>
        in case insert_all (\<lambda>r. InsertDir (r\<lparr>d_OwnerID := owner_of known (d_OwnerID r)\<rparr>)) dirs d1 of
             (Inl e, _) \<Rightarrow> (Inl e, d)
           | (Inr _, d2) \<Rightarrow>
               (case insert_all (\<lambda>f. InsertFile (f\<lparr>f_OwnerID := owner_of known (f_OwnerID f)\<rparr>)) fs d2 of
                  (Inl e, _) \<Rightarrow> (Inl e, d)
                | (Inr _, d3) \<Rightarrow> insert_all insert_segment segs d3)) d0)"

record Stats =
  st_Dirs :: nat
  st_Files :: nat
  st_Segments :: nat
  st_TotalBytes :: int
  st_BrokenFiles :: nat
  st_PendingFiles :: nat

definition count_status :: "FileStatus \<Rightarrow> FileRow list \<Rightarrow> nat" where
  "count_status s fs = length (filter (\<lambda>f. f_Status f = s) fs)"

definition stats_of :: "db \<Rightarrow> Stats" where
  "stats_of d =
     \<lparr>st_Dirs = length (db_dirs d), st_Files = count_status StatusComplete (db_files d),
      st_Segments = length (db_segments d),
      st_TotalBytes = sum_list (map f_Size (filter (\<lambda>f. f_Status f = StatusComplete) (db_files d))),
      st_BrokenFiles = count_status StatusBroken (db_files d),
      st_PendingFiles = count_status StatusPending (db_files d)\<rparr>"

end
