(* ===== verification/TreeInv.thy ===== *)
theory TreeInv
  imports TreeDB
begin

text \<open>
  The well-formedness of the stored tree and what the statements of \<open>TreeDB\<close> do to it.  The
  invariant ties the denormalised path of every directory to its parent's.  With an exact \<open>LIKE\<close>
  (\<open>cf = id\<close>) renaming, moving and deleting keep it and touch exactly the subtree; with SQLite's
  ASCII folding they do not, which the last section shows.
\<close>

section \<open>The invariant\<close>

definition dir_name :: "string \<Rightarrow> bool" where
  "dir_name n \<longleftrightarrow> plain n \<and> valid_utf8 n"

definition parent_ok :: "Dir list \<Rightarrow> Dir \<Rightarrow> bool" where
  "parent_ok dirs r \<longleftrightarrow>
     (d_ParentID r = [] \<and> d_Path r = Root @ d_Name r) \<or>
     (\<exists>p \<in> set dirs. d_ID p = d_ParentID r \<and> d_Path r = d_Path p @ ''/'' @ d_Name r)"

definition tree_inv :: "Dir list \<Rightarrow> bool" where
  "tree_inv dirs \<longleftrightarrow> distinct (map d_ID dirs) \<and> distinct (map d_Path dirs) \<and>
     (\<forall>r \<in> set dirs. d_ID r \<noteq> [] \<and> dir_name (d_Name r) \<and> parent_ok dirs r)"

definition files_inv :: "db \<Rightarrow> bool" where
  "files_inv d \<longleftrightarrow> distinct (map f_ID (db_files d)) \<and>
     distinct (map (\<lambda>f. (f_DirID f, f_Name f)) (db_files d)) \<and>
     (\<forall>f \<in> set (db_files d). f_DirID f \<noteq> [] \<longrightarrow> dir_exists (f_DirID f) d) \<and>
     distinct (map (\<lambda>g. (g_FileID g, g_Index g)) (db_segments d)) \<and>
     (\<forall>g \<in> set (db_segments d). file_exists (g_FileID g) d)"

definition index_inv :: "db \<Rightarrow> bool" where
  "index_inv d \<longleftrightarrow> tree_inv (db_dirs d) \<and> files_inv d"

abbreviation below :: "string \<Rightarrow> string \<Rightarrow> bool" where
  "below q p \<equiv> prefix (q @ ''/'') p"

lemma below_child:
  assumes "CHR ''/'' \<notin> set n"
  shows "below q (p @ ''/'' @ n) \<longleftrightarrow> q = p \<or> below q p"
proof
  assume "below q (p @ ''/'' @ n)"
  then obtain t where e: "q @ CHR ''/'' # t = p @ CHR ''/'' # n" by (auto simp: prefix_def)
  then consider us where "q = p @ us" "CHR ''/'' # n = us @ CHR ''/'' # t"
    | us where "p = q @ us" "CHR ''/'' # t = us @ CHR ''/'' # n"
    by (auto simp: append_eq_append_conv2)
  then show "q = p \<or> below q p"
  proof cases
    case 1
    then show ?thesis using assms by (cases us) auto
  next
    case 2
    then show ?thesis by (cases us) (auto simp: prefix_def)
  qed
next
  assume "q = p \<or> below q p"
  then show "below q (p @ ''/'' @ n)" by (auto simp: prefix_def)
qed

lemma below_root_child: "\<lbrakk>CHR ''/'' \<notin> set n; q \<noteq> []\<rbrakk> \<Longrightarrow> \<not> below q (Root @ n)"
  using below_child [of n q "[]"] by (auto simp: Root_def)

lemma below_length: "below q p \<Longrightarrow> length q < length p"
  by (auto simp: prefix_def)

lemma below_trans: "\<lbrakk>below a b; below b c\<rbrakk> \<Longrightarrow> below a c"
  by (auto simp: prefix_def)

lemma dir_name_no_slash: "dir_name n \<Longrightarrow> CHR ''/'' \<notin> set n"
  by (simp add: dir_name_def plain_def)

lemma tree_induct [consumes 2, case_names top child]:
  assumes "tree_inv dirs" and "r \<in> set dirs"
    and top: "\<And>r. \<lbrakk>r \<in> set dirs; d_ParentID r = []; d_Path r = Root @ d_Name r; dir_name (d_Name r)\<rbrakk> \<Longrightarrow> P r"
    and child: "\<And>r p. \<lbrakk>r \<in> set dirs; p \<in> set dirs; d_ID p = d_ParentID r; d_Path r = d_Path p @ ''/'' @ d_Name r;
        dir_name (d_Name r); P p\<rbrakk> \<Longrightarrow> P r"
  shows "P r"
  using assms(2)
proof (induction "length (d_Path r)" arbitrary: r rule: less_induct)
  case less
  have "dir_name (d_Name r)" "parent_ok dirs r" using assms(1) less.prems by (auto simp: tree_inv_def)
  then show ?case
    using less top child unfolding parent_ok_def by fastforce
qed

lemma tree_path_ok:
  assumes "tree_inv dirs" and "r \<in> set dirs"
  shows "valid_utf8 (d_Path r) \<and> prefix ''/'' (d_Path r) \<and> d_Path r \<noteq> Root"
  using assms
proof (induction rule: tree_induct)
  case (top r)
  have "valid_utf8 ''/''" by (rule valid_utf8_ascii) simp
  then show ?case
    using top valid_utf8_append [of "''/''" "d_Name r"] by (auto simp: Root_def dir_name_def plain_def)
next
  case (child r p)
  have "valid_utf8 ''/''" by (rule valid_utf8_ascii) simp
  then have "valid_utf8 (d_Path r)"
    using child valid_utf8_append [of "d_Path p" "''/'' @ d_Name r"] valid_utf8_append [of "''/''" "d_Name r"]
    by (simp add: dir_name_def)
  then show ?case using child by (auto simp: Root_def prefix_def dir_name_def plain_def)
qed

lemma tree_path_nonempty: "\<lbrakk>tree_inv dirs; r \<in> set dirs\<rbrakk> \<Longrightarrow> d_Path r \<noteq> []"
  using tree_path_ok by fastforce

lemma tree_unique_id: "\<lbrakk>tree_inv dirs; r \<in> set dirs; s \<in> set dirs; d_ID r = d_ID s\<rbrakk> \<Longrightarrow> r = s"
  by (auto simp: tree_inv_def distinct_map dest: inj_onD)

lemma tree_unique_path: "\<lbrakk>tree_inv dirs; r \<in> set dirs; s \<in> set dirs; d_Path r = d_Path s\<rbrakk> \<Longrightarrow> r = s"
  by (auto simp: tree_inv_def distinct_map dest: inj_onD)

text \<open>Every path between the root and a stored directory is stored too.\<close>

lemma ancestor_exists:
  assumes "tree_inv dirs" and "r \<in> set dirs" and "q \<noteq> []" and "below q (d_Path r)"
  shows "\<exists>y \<in> set dirs. d_Path y = q"
  using assms(1,2,4)
proof (induction rule: tree_induct)
  case (top r)
  then show ?case using below_root_child [OF dir_name_no_slash assms(3)] by metis
next
  case (child r p)
  then show ?case using below_child [OF dir_name_no_slash [OF child(5)]] by metis
qed

section \<open>The subtree a cascade removes\<close>

definition pending_ids :: "Dir list \<Rightarrow> string list \<Rightarrow> Dir list" where
  "pending_ids dirs ids = filter (\<lambda>r. d_ID r \<notin> set ids) dirs"

lemma cascade_subset: "set ids \<subseteq> set (cascade_ids n dirs ids)"
  by (induction n dirs ids rule: cascade_ids.induct) (auto simp: Let_def)

lemma cascade_closed:
  assumes "length (pending_ids dirs ids) \<le> n"
    and "r \<in> set dirs" and "d_ParentID r \<in> set (cascade_ids n dirs ids)"
  shows "d_ID r \<in> set (cascade_ids n dirs ids)"
  using assms
proof (induction n dirs ids rule: cascade_ids.induct)
  case (1 dirs ids)
  then show ?case by (auto simp: pending_ids_def filter_empty_conv)
next
  case (2 n dirs ids)
  let ?new = "map d_ID (filter (\<lambda>r. d_ParentID r \<in> set ids \<and> d_ID r \<notin> set ids) dirs)"
  show ?case
  proof (cases "?new = []")
    case True
    then show ?thesis using 2(3,4) by (auto simp: filter_empty_conv)
  next
    case False
    then obtain x where x: "x \<in> set dirs" "d_ParentID x \<in> set ids" "d_ID x \<notin> set ids"
      by (auto simp: filter_empty_conv)
    have "length (pending_ids dirs (ids @ ?new)) < length (pending_ids dirs ids)"
    proof -
      have "pending_ids dirs (ids @ ?new) = filter (\<lambda>r. d_ID r \<notin> set ?new) (pending_ids dirs ids)"
        by (auto simp: pending_ids_def intro: filter_cong)
      moreover have "x \<in> set (pending_ids dirs ids)" "d_ID x \<in> set ?new"
        using x by (auto simp: pending_ids_def)
      ultimately show ?thesis
        by (metis (mono_tags, lifting) length_filter_less)
    qed
    then have "length (pending_ids dirs (ids @ ?new)) \<le> n" using 2(2) by simp
    then show ?thesis using 2(1) [OF refl False] 2(3,4) False by simp
  qed
qed

lemma cascade_reach:
  assumes "k \<in> set (cascade_ids n dirs ids)"
  shows "k \<in> set ids \<or> (\<exists>r \<in> set dirs. d_ID r = k \<and> d_ParentID r \<in> set (cascade_ids n dirs ids))"
  using assms
proof (induction n dirs ids rule: cascade_ids.induct)
  case (2 n dirs ids)
  let ?new = "map d_ID (filter (\<lambda>r. d_ParentID r \<in> set ids \<and> d_ID r \<notin> set ids) dirs)"
  show ?case
  proof (cases "?new = []")
    case True
    then show ?thesis using 2(2) by simp
  next
    case False
    have "k \<in> set (ids @ ?new) \<or>
        (\<exists>r \<in> set dirs. d_ID r = k \<and> d_ParentID r \<in> set (cascade_ids n dirs (ids @ ?new)))"
      using 2(1) [OF refl False] 2(2) False by simp
    moreover have "set ids \<subseteq> set (cascade_ids n dirs (ids @ ?new))"
      using cascade_subset [of "ids @ ?new" n dirs] by auto
    ultimately show ?thesis using False by auto
  qed
qed simp

lemma subtree_ids_iff:
  assumes inv: "tree_inv dirs" and r: "r \<in> set dirs" and x: "x \<in> set dirs"
  shows "d_ID x \<in> set (subtree_ids dirs (d_ID r)) \<longleftrightarrow> x = r \<or> below (d_Path r) (d_Path x)"
proof
  have ne: "d_Path r \<noteq> []" using tree_path_nonempty [OF inv r] .
  have start: "d_ID r \<in> set (subtree_ids dirs (d_ID r))"
    using cascade_subset [of "[d_ID r]" "length dirs" dirs] by (simp add: subtree_ids_def)
  show "x = r \<or> below (d_Path r) (d_Path x)" if "d_ID x \<in> set (subtree_ids dirs (d_ID r))"
    using inv x that
  proof (induction rule: tree_induct)
    case (top x)
    have "d_ID x = d_ID r \<or> (\<exists>y \<in> set dirs. d_ID y = d_ID x \<and> d_ParentID y \<in> set (subtree_ids dirs (d_ID r)))"
      using cascade_reach [of "d_ID x" "length dirs" dirs "[d_ID r]"] top by (auto simp: subtree_ids_def)
    moreover have "d_ID x \<noteq> d_ID r \<Longrightarrow> [] \<notin> set (subtree_ids dirs (d_ID r))"
      using cascade_reach [of "[]" "length dirs" dirs "[d_ID r]"] inv r
      by (auto simp: subtree_ids_def tree_inv_def)
    ultimately show ?case
      using tree_unique_id [OF inv] top r by metis
  next
    case (child x p)
    have "d_ID x = d_ID r \<or> (\<exists>y \<in> set dirs. d_ID y = d_ID x \<and> d_ParentID y \<in> set (subtree_ids dirs (d_ID r)))"
      using cascade_reach [of "d_ID x" "length dirs" dirs "[d_ID r]"] child by (auto simp: subtree_ids_def)
    then have "x = r \<or> d_ID p \<in> set (subtree_ids dirs (d_ID r))"
      using tree_unique_id [OF inv] child r by metis
    then show ?case
      using child below_child [OF dir_name_no_slash [OF child(5)], of "d_Path r" "d_Path p"] by auto
  qed
  show "d_ID x \<in> set (subtree_ids dirs (d_ID r))" if "x = r \<or> below (d_Path r) (d_Path x)"
    using inv x that
  proof (induction rule: tree_induct)
    case (top x)
    then show ?case
      using start below_root_child [OF dir_name_no_slash [OF top(4)] ne] by auto
  next
    case (child x p)
    have "below (d_Path r) (d_Path x) \<longleftrightarrow> d_Path r = d_Path p \<or> below (d_Path r) (d_Path p)"
      unfolding child(4) by (rule below_child [OF dir_name_no_slash [OF child(5)]])
    moreover have "d_Path r = d_Path p \<Longrightarrow> p = r" using tree_unique_path [OF inv child(2) r] by simp
    ultimately have "x = r \<or> p = r \<or> below (d_Path r) (d_Path p)" using child(7) by blast
    then show ?case
    proof
      assume "x = r" then show ?thesis using start by simp
    next
      assume "p = r \<or> below (d_Path r) (d_Path p)"
      then have "d_ParentID x \<in> set (subtree_ids dirs (d_ID r))" using child(6,3) by simp
      then show ?thesis
        unfolding subtree_ids_def using child(1)
        by (intro cascade_closed) (simp_all add: pending_ids_def)
    qed
  qed
qed

section \<open>Giving a directory a new place\<close>

definition relocate :: "Dir \<Rightarrow> string \<Rightarrow> string \<Rightarrow> string \<Rightarrow> int \<Rightarrow> Dir \<Rightarrow> Dir" where
  "relocate r npar nname npath now x =
     (if d_ID x = d_ID r
      then x\<lparr>d_ParentID := npar, d_Name := nname, d_Path := npath, d_UpdatedAt := now\<rparr>
      else if below (d_Path r) (d_Path x)
      then x\<lparr>d_Path := npath @ drop (length (d_Path r)) (d_Path x), d_UpdatedAt := now\<rparr>
      else x)"

text \<open>A place a directory may take: under an existing parent outside its subtree, and free.\<close>

definition new_place :: "Dir list \<Rightarrow> Dir \<Rightarrow> string \<Rightarrow> string \<Rightarrow> string \<Rightarrow> bool" where
  "new_place dirs r npar nname npath \<longleftrightarrow> dir_name nname \<and>
     (npar = [] \<and> npath = Root @ nname \<or>
      (\<exists>p \<in> set dirs. d_ID p = npar \<and> p \<noteq> r \<and> \<not> below (d_Path r) (d_Path p) \<and>
         npath = d_Path p @ ''/'' @ nname)) \<and>
     (\<forall>x \<in> set dirs. x \<noteq> r \<longrightarrow> d_Path x \<noteq> npath)"

lemma relocate_id [simp]: "d_ID (relocate r npar nname npath now x) = d_ID x"
  by (simp add: relocate_def)

lemma below_decomp: "below q p \<Longrightarrow> p = q @ drop (length q) p"
  by (auto simp: prefix_def)

lemma below_drop: "below q p \<Longrightarrow> prefix ''/'' (drop (length q) p)"
  by (auto simp: prefix_def)

lemma slash_split:
  assumes "a @ s = b @ t" and "prefix ''/'' s" and "prefix ''/'' t"
  shows "a = b \<or> below a b \<or> below b a"
proof -
  consider us where "a = b @ us" "us @ s = t" | us where "b = a @ us" "s = us @ t"
    using assms(1) by (auto simp: append_eq_append_conv2)
  then show ?thesis
  proof cases
    case 1
    then show ?thesis using assms(3) by (cases us) (auto simp: prefix_def)
  next
    case 2
    then show ?thesis using assms(2) by (cases us) (auto simp: prefix_def)
  qed
qed

lemma new_place_path:
  assumes inv: "tree_inv dirs" and r: "r \<in> set dirs" and np: "new_place dirs r npar nname npath"
  shows "npath \<noteq> []" "valid_utf8 npath" "\<not> below (d_Path r) npath"
    and "\<And>y. y \<in> set dirs \<Longrightarrow> npath = d_Path y \<or> below npath (d_Path y) \<Longrightarrow>
           npath = d_Path r \<and> (y = r \<or> below (d_Path r) (d_Path y))"
proof -
  have nn: "dir_name nname" using np by (simp add: new_place_def)
  have sl: "valid_utf8 ''/''" by (rule valid_utf8_ascii) simp
  have vn: "valid_utf8 (''/'' @ nname)"
    using nn valid_utf8_append [OF sl] by (simp add: dir_name_def)
  have ne: "d_Path r \<noteq> []" using tree_path_nonempty [OF inv r] .
  have nb: "\<not> below (d_Path r) (Root @ nname)"
    by (rule below_root_child [OF dir_name_no_slash [OF nn] ne])
  from np consider "npath = Root @ nname" | p where "p \<in> set dirs" "p \<noteq> r" "\<not> below (d_Path r) (d_Path p)"
      "npath = d_Path p @ ''/'' @ nname"
    unfolding new_place_def by blast
  then have *: "npath \<noteq> [] \<and> valid_utf8 npath \<and> \<not> below (d_Path r) npath"
  proof cases
    case 1
    then show ?thesis using vn nb by (simp add: Root_def)
  next
    case (2 p)
    have "valid_utf8 npath" unfolding 2(4)
      using valid_utf8_append vn tree_path_ok [OF inv 2(1)] by metis
    moreover have "d_Path r \<noteq> d_Path p" using tree_unique_path [OF inv r 2(1)] 2(2) by metis
    ultimately show ?thesis
      using 2(3) below_child [OF dir_name_no_slash [OF nn], of "d_Path r" "d_Path p"] by (simp add: 2(4))
  qed
  then show "npath \<noteq> []" "valid_utf8 npath" "\<not> below (d_Path r) npath" by simp_all
  fix y assume y: "y \<in> set dirs" and at: "npath = d_Path y \<or> below npath (d_Path y)"
  obtain z where z: "z \<in> set dirs" "d_Path z = npath"
    using at ancestor_exists [OF inv y, of npath] * y by metis
  have "\<forall>x \<in> set dirs. x \<noteq> r \<longrightarrow> d_Path x \<noteq> npath" using np by (simp add: new_place_def)
  then have "z = r" using z by blast
  then show "npath = d_Path r \<and> (y = r \<or> below (d_Path r) (d_Path y))"
    using at z(2) tree_unique_path [OF inv y r] by metis
qed

abbreviation within :: "Dir \<Rightarrow> Dir \<Rightarrow> bool" where
  "within r x \<equiv> x = r \<or> below (d_Path r) (d_Path x)"

lemma relocate_within:
  assumes "tree_inv dirs" "r \<in> set dirs" "x \<in> set dirs"
  shows "within r x \<Longrightarrow> d_Path (relocate r npar nname npath now x) = npath @ drop (length (d_Path r)) (d_Path x)"
    and "\<not> within r x \<Longrightarrow> relocate r npar nname npath now x = x"
  using tree_unique_id [OF assms] tree_unique_id [OF assms(1,3,2)] by (auto simp: relocate_def)

lemma within_decomp: "within r x \<Longrightarrow> d_Path x = d_Path r @ drop (length (d_Path r)) (d_Path x)"
  using below_decomp by fastforce

lemma within_new_path:
  assumes "tree_inv dirs" "r \<in> set dirs" "new_place dirs r npar nname npath" "y \<in> set dirs"
    and "t = [] \<or> prefix ''/'' t" and "npath @ t = d_Path y"
  shows "within r y \<and> npath = d_Path r"
proof -
  have "npath = d_Path y \<or> below npath (d_Path y)"
    using assms(5,6) by (auto simp: prefix_def simp flip: assms(6))
  then show ?thesis using new_place_path(4) [OF assms(1-4)] by metis
qed

lemma within_drop: "within r x \<Longrightarrow> drop (length (d_Path r)) (d_Path x) = [] \<or> prefix ''/'' (drop (length (d_Path r)) (d_Path x))"
  using below_drop by auto

lemma relocate_paths:
  assumes inv: "tree_inv dirs" and r: "r \<in> set dirs" and np: "new_place dirs r npar nname npath"
    and x: "x \<in> set dirs" and y: "y \<in> set dirs"
    and eq: "d_Path (relocate r npar nname npath now x) = d_Path (relocate r npar nname npath now y)"
  shows "x = y"
proof -
  note px = relocate_within [OF inv r x] and py = relocate_within [OF inv r y]
  have cross: False if "within r u" "\<not> within r v" "v \<in> set dirs"
    "npath @ drop (length (d_Path r)) (d_Path u) = d_Path v" for u v
    using within_new_path [OF inv r np that(3) within_drop [OF that(1)] that(4)] that(2) by blast
  consider "within r x" "within r y" | "within r x" "\<not> within r y" | "\<not> within r x" "within r y"
    | "\<not> within r x" "\<not> within r y" by blast
  then show ?thesis
  proof cases
    case 1
    then have "drop (length (d_Path r)) (d_Path x) = drop (length (d_Path r)) (d_Path y)"
      using eq px(1) py(1) by simp
    then have "d_Path x = d_Path y" using within_decomp 1 by metis
    then show ?thesis by (rule tree_unique_path [OF inv x y])
  next
    case 2
    then show ?thesis using cross [OF 2 y] eq px(1) py(2) by metis
  next
    case 3
    then show ?thesis using cross [OF 3(2,1) x] eq px(2) py(1) by metis
  next
    case 4
    then show ?thesis using eq px(2) py(2) tree_unique_path [OF inv x y] by metis
  qed
qed

lemma within_child:
  assumes inv: "tree_inv dirs" and r: "r \<in> set dirs" and x: "x \<in> set dirs" and p: "p \<in> set dirs"
    and eq: "d_Path x = d_Path p @ ''/'' @ d_Name x" and "x \<noteq> r"
  shows "within r x \<longleftrightarrow> within r p"
proof -
  have "dir_name (d_Name x)" using inv x by (simp add: tree_inv_def)
  then have "below (d_Path r) (d_Path x) \<longleftrightarrow> d_Path r = d_Path p \<or> below (d_Path r) (d_Path p)"
    unfolding eq by (intro below_child dir_name_no_slash)
  moreover have "d_Path r = d_Path p \<longleftrightarrow> p = r" using tree_unique_path [OF inv p r] by metis
  ultimately show ?thesis using \<open>x \<noteq> r\<close> by blast
qed

lemma relocate_parent:
  assumes inv: "tree_inv dirs" and r: "r \<in> set dirs" and np: "new_place dirs r npar nname npath"
    and x: "x \<in> set dirs"
  shows "parent_ok (map (relocate r npar nname npath now) dirs) (relocate r npar nname npath now x)"
    (is "parent_ok (map ?f dirs) _")
proof (cases "x = r")
  case True
  have fr: "d_ParentID (?f r) = npar" "d_Path (?f r) = npath" "d_Name (?f r) = nname"
    by (simp_all add: relocate_def)
  from np consider "npar = []" "npath = Root @ nname"
    | p where "p \<in> set dirs" "d_ID p = npar" "\<not> within r p" "npath = d_Path p @ ''/'' @ nname"
    unfolding new_place_def by blast
  then show ?thesis
  proof cases
    case 1
    then show ?thesis using fr True by (simp add: parent_ok_def)
  next
    case (2 p)
    then have "?f p = p" using relocate_within(2) [OF inv r] by simp
    then show ?thesis using 2 fr True by (auto simp: parent_ok_def image_iff intro!: bexI [of _ p])
  qed
next
  case False
  have nm: "dir_name (d_Name x)" and ok: "parent_ok dirs x" using inv x by (simp_all add: tree_inv_def)
  have fx: "d_ParentID (?f x) = d_ParentID x" "d_Name (?f x) = d_Name x"
    using False tree_unique_id [OF inv x r] by (auto simp: relocate_def)
  from ok consider "d_ParentID x = []" "d_Path x = Root @ d_Name x"
    | p where "p \<in> set dirs" "d_ID p = d_ParentID x" "d_Path x = d_Path p @ ''/'' @ d_Name x"
    unfolding parent_ok_def by blast
  then show ?thesis
  proof cases
    case 1
    then have "\<not> within r x"
      using False below_root_child [OF dir_name_no_slash [OF nm] tree_path_nonempty [OF inv r]] by simp
    then show ?thesis using 1 relocate_within(2) [OF inv r x] by (simp add: parent_ok_def)
  next
    case (2 p)
    note wc = within_child [OF inv r x 2(1,3) False]
    have "d_Path (?f x) = d_Path (?f p) @ ''/'' @ d_Name (?f x)"
    proof (cases "within r p")
      case True
      then have "drop (length (d_Path r)) (d_Path x) = drop (length (d_Path r)) (d_Path p) @ ''/'' @ d_Name x"
        using within_decomp [OF True] unfolding 2(3) by (metis append_assoc append_eq_conv_conj)
      then show ?thesis
        using True wc relocate_within(1) [OF inv r x] relocate_within(1) [OF inv r 2(1)] fx by simp
    next
      case False
      then show ?thesis
        using wc relocate_within(2) [OF inv r x] relocate_within(2) [OF inv r 2(1)] 2(3) by simp
    qed
    then show ?thesis
      unfolding parent_ok_def using 2 fx by (intro disjI2 bexI [of _ "?f p"]) auto
  qed
qed

lemma relocate_inv:
  assumes "tree_inv dirs" "r \<in> set dirs" "new_place dirs r npar nname npath"
  shows "tree_inv (map (relocate r npar nname npath now) dirs)"
proof -
  have "distinct dirs" using assms(1) by (auto simp: tree_inv_def distinct_map)
  then have "distinct (map d_Path (map (relocate r npar nname npath now) dirs))"
    using relocate_paths [OF assms] by (auto simp: distinct_map inj_on_def)
  moreover have "d_ID \<circ> relocate r npar nname npath now = d_ID" by (simp add: fun_eq_iff)
  moreover have "dir_name (d_Name (relocate r npar nname npath now x))" if "x \<in> set dirs" for x
    using that assms(1,3) by (auto simp: relocate_def tree_inv_def new_place_def)
  moreover have "\<forall>x \<in> set dirs. d_ID x \<noteq> []" "distinct (map d_ID dirs)"
    using assms(1) by (auto simp: tree_inv_def)
  ultimately show ?thesis
    unfolding tree_inv_def using relocate_parent [OF assms] by auto
qed

lemma update_unique_Some:
  assumes "distinct rs"
    and "\<And>x y. \<lbrakk>x \<in> set rs; P x; y \<in> set rs; y \<noteq> x\<rbrakk> \<Longrightarrow> key (f x) \<noteq> key y \<and> (P y \<longrightarrow> key (f x) \<noteq> key (f y))"
    and "\<And>x y. \<lbrakk>x \<in> set rs; P x; y \<in> set done\<rbrakk> \<Longrightarrow> key (f x) \<noteq> key y"
  shows "update_unique key P f done rs = Some (done @ update_where P f rs)"
  using assms
proof (induction rs arbitrary: "done")
  case (Cons r rs)
  show ?case
  proof (cases "P r")
    case True
    have "key (f r) \<notin> key ` set done" using Cons(4) True by auto
    moreover have "key (f r) \<notin> key ` set rs" using Cons(2,3) True by auto
    moreover have "update_unique key P f (done @ [f r]) rs = Some ((done @ [f r]) @ update_where P f rs)"
    proof (rule Cons.IH)
      show "key (f x) \<noteq> key y" if "x \<in> set rs" "P x" "y \<in> set (done @ [f r])" for x y
      proof (cases "y = f r")
        case True
        have "x \<noteq> r" using that(1) Cons(2) by auto
        then show ?thesis using True Cons(3) [of x r] that \<open>P r\<close> by simp
      next
        case False
        then show ?thesis using that Cons(4) [of x y] by simp
      qed
    qed (use Cons in auto)
    ultimately show ?thesis using True by (simp add: update_where_def)
  next
    case False
    have "update_unique key P f (done @ [r]) rs = Some ((done @ [r]) @ update_where P f rs)"
    proof (rule Cons.IH)
      show "key (f x) \<noteq> key y" if "x \<in> set rs" "P x" "y \<in> set (done @ [r])" for x y
        using that Cons(2) Cons(3) [of x r] Cons(4) [of x y] by auto
    qed (use Cons in auto)
    then show ?thesis using False by (simp add: update_where_def)
  qed
qed (simp add: update_where_def)

lemma new_path_stable:
  assumes inv: "tree_inv dirs" and r: "r \<in> set dirs" and np: "new_place dirs r npar nname npath"
    and x: "x \<in> set dirs" and y: "y \<in> set dirs" and "y \<noteq> x" and "y \<noteq> r" and wx: "within r x"
  shows "npath @ drop (length (d_Path r)) (d_Path x) \<noteq> d_Path y"
proof
  assume e: "npath @ drop (length (d_Path r)) (d_Path x) = d_Path y"
  then have "npath = d_Path r"
    using within_new_path [OF inv r np y within_drop [OF wx]] by blast
  then have "d_Path x = d_Path y" using e within_decomp [OF wx] by simp
  then show False using tree_unique_path [OF inv x y] \<open>y \<noteq> x\<close> by simp
qed

text \<open>When the \<open>LIKE\<close> selects exactly the subtree, the two statements of a rename or a move are the relocation.\<close>

lemma rewrite_relocates:
  assumes inv: "tree_inv dirs" and r: "r \<in> set dirs" and np: "new_place dirs r npar nname npath"
    and up: "\<And>x. d_ID x = d_ID r \<Longrightarrow> x \<in> set dirs \<Longrightarrow>
      up x = x\<lparr>d_ParentID := npar, d_Name := nname, d_Path := npath, d_UpdatedAt := now\<rparr>"
    and exact: "\<And>x. x \<in> set dirs \<Longrightarrow> below_like cf (d_Path r) (d_Path x) \<longleftrightarrow> below (d_Path r) (d_Path x)"
    and nr: "\<not> below_like cf (d_Path r) npath"
  shows "rewrite_descendants cf (d_Path r) npath now (update_where (\<lambda>x. d_ID x = d_ID r) up dirs)
     = Some (map (relocate r npar nname npath now) dirs)"
proof -
  let ?u = "\<lambda>x. if d_ID x = d_ID r then up x else x"
  let ?f = "relocate r npar nname npath now"
  let ?P = "\<lambda>x. below_like cf (d_Path r) (d_Path x)"
  let ?g = "\<lambda>x. x\<lparr>d_Path := reroot (d_Path r) npath (d_Path x), d_UpdatedAt := now\<rparr>"
  have vr: "valid_utf8 (d_Path r)" using tree_path_ok [OF inv r] by simp
  have ur: "?u r = ?f r" "d_Path (?u r) = npath" using up [of r] r by (simp_all add: relocate_def)
  have un: "?u x = x" if "x \<in> set dirs" "x \<noteq> r" for x using that tree_unique_id [OF inv that(1) r] by auto
  have P_iff: "?P (?u x) \<longleftrightarrow> x \<noteq> r \<and> below (d_Path r) (d_Path x)" if x: "x \<in> set dirs" for x
  proof (cases "x = r")
    case False
    then show ?thesis using exact [OF x] un [OF x] by simp
  qed (use nr ur(2) in simp)
  have g: "?g (?u x) = ?f x" if x: "x \<in> set dirs" and P: "?P (?u x)" for x
  proof -
    have xr: "x \<noteq> r" and b: "below (d_Path r) (d_Path x)" using P P_iff [OF x] by simp_all
    have "reroot (d_Path r) npath (d_Path x) = npath @ drop (length (d_Path r)) (d_Path x)"
      using reroot_below [OF vr] below_decomp [OF b] by metis
    then show ?thesis using un [OF x xr] xr b tree_unique_id [OF inv x r] by (auto simp: relocate_def)
  qed
  have step: "(if ?P (?u x) then ?g (?u x) else ?u x) = ?f x" if x: "x \<in> set dirs" for x
  proof (cases "?P (?u x)")
    case True
    then show ?thesis using g [OF x] by simp
  next
    case False
    then show ?thesis
      using P_iff [OF x] un [OF x] ur tree_unique_id [OF inv x r] by (auto simp: relocate_def)
  qed
  have inj: "x = y" if "x \<in> set dirs" "y \<in> set dirs" "?u x = ?u y" for x y
    using that relocate_id un ur(1) tree_unique_id [OF inv that(1,2)] by metis
  have "update_unique d_Path ?P ?g [] (map ?u dirs) = Some ([] @ update_where ?P ?g (map ?u dirs))"
  proof (rule update_unique_Some)
    have "distinct dirs" using inv by (auto simp: tree_inv_def distinct_map)
    then show "distinct (map ?u dirs)" unfolding distinct_map using inj by (auto intro!: inj_onI)
  next
    fix x' y' assume h: "x' \<in> set (map ?u dirs)" "?P x'" "y' \<in> set (map ?u dirs)" "y' \<noteq> x'"
    obtain x where x: "x \<in> set dirs" "x' = ?u x" using h(1) by auto
    obtain y where y: "y \<in> set dirs" "y' = ?u y" using h(3) by auto
    have xy: "y \<noteq> x" using h(4) x(2) y(2) by auto
    have Px: "x \<noteq> r" "below (d_Path r) (d_Path x)" using P_iff [OF x(1)] h(2) x(2) by simp_all
    have gx: "?g x' = ?f x" using g [OF x(1)] h(2) x(2) by simp
    have px: "d_Path (?f x) = npath @ drop (length (d_Path r)) (d_Path x)"
      using relocate_within(1) [OF inv r x(1)] Px by simp
    have "d_Path (?f x) \<noteq> d_Path (?f y)" using relocate_paths [OF inv r np x(1) y(1)] xy by metis
    moreover have "d_Path (?f x) \<noteq> d_Path y'"
    proof (cases "y = r")
      case True
      then show ?thesis using y(2) ur \<open>d_Path (?f x) \<noteq> d_Path (?f y)\<close> by simp
    next
      case False
      then show ?thesis
        using new_path_stable [OF inv r np x(1) y(1) xy False] Px px y(2) un [OF y(1) False] by simp
    qed
    moreover have "?g y' = ?f y" if "?P y'" using g [OF y(1)] that y(2) by simp
    ultimately show "d_Path (?g x') \<noteq> d_Path y' \<and> (?P y' \<longrightarrow> d_Path (?g x') \<noteq> d_Path (?g y'))"
      using gx by metis
  qed simp
  moreover have "update_where ?P ?g (map ?u dirs) = map ?f dirs"
    unfolding update_where_def using step by simp
  ultimately show ?thesis by (simp add: rewrite_descendants_def update_where_def)
qed

end
