(* ===== verification/TreeOps.thy ===== *)
theory TreeOps
  imports TreeInv
begin

text \<open>
  What the operations of the tree do to a well-formed index: renaming, moving and deleting a
  directory, and the file statements.  SQLite's \<open>LIKE\<close> selects exactly the subtree when no other
  path of the tree has the same letters as the directory up to ASCII case; the last section shows
  what happens otherwise.
\<close>

section \<open>When \<open>LIKE\<close> selects exactly the subtree\<close>

definition same_letters :: "(nat \<Rightarrow> nat) \<Rightarrow> string \<Rightarrow> string \<Rightarrow> bool" where
  "same_letters cf p q \<longleftrightarrow> map cf (runes p) = map cf (runes q)"

definition folds_no_slash :: "(nat \<Rightarrow> nat) \<Rightarrow> bool" where
  "folds_no_slash cf \<longleftrightarrow> (\<forall>k. cf k = cf 47 \<longrightarrow> k = 47)"

definition case_alone :: "(nat \<Rightarrow> nat) \<Rightarrow> Dir list \<Rightarrow> Dir \<Rightarrow> bool" where
  "case_alone cf dirs r \<longleftrightarrow> (\<forall>x \<in> set dirs. same_letters cf (d_Path x) (d_Path r) \<longrightarrow> x = r)"

lemma ascii_fold_slash: "folds_no_slash ascii_fold"
  by (auto simp: folds_no_slash_def ascii_fold_def split: if_splits)

lemma runes_of_encoded: "\<forall>r \<in> set rs. scalar r \<Longrightarrow> runes (concat (map encode_rune rs)) = rs"
proof (induction rs)
  case Nil
  show ?case by (simp add: runes_def)
next
  case (Cons r rs)
  have "runes (encode_rune r) = [r]" "valid_utf8 (encode_rune r)"
    using Cons(2) chunks_encode_rune [of r "[]"] valid_utf8_encode_rune [of r] by (simp_all add: runes_def)
  then show ?case using Cons by (simp add: runes_append)
qed

lemma below_like_split:
  assumes "valid_utf8 path" and cf: "folds_no_slash cf" and "below_like cf root path"
  shows "\<exists>q. below q path \<and> same_letters cf q root"
proof -
  obtain u v where uv: "runes path = u @ v" "map cf u = map cf (runes root @ [47])"
    using assms(3) below_like_iff by blast
  obtain a k where u: "u = a @ [k]" "map cf a = map cf (runes root)" "cf k = cf 47"
    using uv(2) by (auto simp: map_eq_append_conv)
  then have "runes path = a @ 47 # v" using uv(1) cf by (simp add: folds_no_slash_def)
  moreover have "\<forall>r \<in> set (runes path). scalar r" using runes_scalar by blast
  moreover have "path = concat (map encode_rune (runes path))" using encode_runes [OF assms(1)] by simp
  moreover have "encode_rune 47 = ''/''" by (simp add: encode_rune_def char_of_eq_iff)
  ultimately have "path = concat (map encode_rune a) @ ''/'' @ concat (map encode_rune v)"
    and "runes (concat (map encode_rune a)) = a"
    using runes_of_encoded [of a] by simp_all
  then show ?thesis
    using u(2) by (intro exI [of _ "concat (map encode_rune a)"]) (auto simp: same_letters_def prefix_def)
qed

lemma below_like_below: "below root path \<Longrightarrow> below_like cf root path"
proof -
  assume "below root path"
  then obtain t where "path = root @ CHR ''/'' # t" by (auto simp: prefix_def)
  then have "runes path = (runes root @ [47]) @ runes t" by (simp add: runes_append_ascii)
  then show ?thesis
    unfolding below_like_iff by (intro exI [of _ "runes root @ [47]"] exI [of _ "runes t"]) simp
qed

lemma like_exact_tree:
  assumes inv: "tree_inv dirs" and r: "r \<in> set dirs" and cf: "folds_no_slash cf"
    and alone: "case_alone cf dirs r" and x: "x \<in> set dirs"
  shows "below_like cf (d_Path r) (d_Path x) \<longleftrightarrow> below (d_Path r) (d_Path x)"
proof
  assume "below_like cf (d_Path r) (d_Path x)"
  then obtain q where q: "below q (d_Path x)" "same_letters cf q (d_Path r)"
    using below_like_split [OF _ cf] tree_path_ok [OF inv x] by blast
  have "q \<noteq> []"
    using q(2) tree_path_nonempty [OF inv r] chunks_nonempty [of "d_Path r"]
    by (auto simp: same_letters_def runes_def)
  then obtain z where "z \<in> set dirs" "d_Path z = q"
    using ancestor_exists [OF inv x] q(1) by blast
  then show "below (d_Path r) (d_Path x)" using alone q by (auto simp: case_alone_def)
next
  assume "below (d_Path r) (d_Path x)"
  then show "below_like cf (d_Path r) (d_Path x)"
    by (rule below_like_below)
qed

lemma like_exact_new:
  assumes inv: "tree_inv dirs" and r: "r \<in> set dirs" and cf: "folds_no_slash cf"
    and alone: "case_alone cf dirs r" and np: "new_place dirs r npar nname npath"
  shows "\<not> below_like cf (d_Path r) npath"
proof
  assume "below_like cf (d_Path r) npath"
  then obtain q where q: "below q npath" "same_letters cf q (d_Path r)"
    using below_like_split [OF new_place_path(2) [OF inv r np] cf] by blast
  have ne: "q \<noteq> []"
    using q(2) tree_path_nonempty [OF inv r] chunks_nonempty [of "d_Path r"]
    by (auto simp: same_letters_def runes_def)
  have nn: "CHR ''/'' \<notin> set nname" using np by (simp add: new_place_def dir_name_no_slash)
  from np consider "npath = Root @ nname" | p where "p \<in> set dirs" "npath = d_Path p @ ''/'' @ nname"
    unfolding new_place_def by blast
  then show False
  proof cases
    case 1
    then show ?thesis using q(1) below_root_child [OF nn ne] by simp
  next
    case (2 p)
    then have "q = d_Path p \<or> below q (d_Path p)" using q(1) below_child [OF nn] by simp
    then obtain z where z: "z \<in> set dirs" "d_Path z = q"
      using ancestor_exists [OF inv 2(1) ne] 2(1) by blast
    then have "z = r" using alone q(2) by (simp add: case_alone_def)
    then show ?thesis using z q(1) new_place_path(3) [OF inv r np] by simp
  qed
qed

lemma case_alone_id: "\<lbrakk>tree_inv dirs; r \<in> set dirs\<rbrakk> \<Longrightarrow> case_alone id dirs r"
  using runes_inject tree_path_ok tree_unique_path by (fastforce simp: case_alone_def same_letters_def)

section \<open>Rename and move\<close>

lemma place_path:
  assumes inv: "tree_inv dirs" and np: "new_place dirs r npar nname npath" and x: "x \<in> set dirs"
    and "d_ParentID x = npar" "d_Name x = nname"
  shows "d_Path x = npath"
proof -
  have ok: "parent_ok dirs x" and ids: "\<And>p. p \<in> set dirs \<Longrightarrow> d_ID p \<noteq> []"
    using inv x by (auto simp: tree_inv_def)
  from np consider "npar = []" "npath = Root @ nname"
    | p where "p \<in> set dirs" "d_ID p = npar" "npath = d_Path p @ ''/'' @ nname"
    unfolding new_place_def by blast
  then show ?thesis
  proof cases
    case 1
    then show ?thesis using ok ids assms(4,5) unfolding parent_ok_def by metis
  next
    case (2 p)
    then have "npar \<noteq> []" using ids by metis
    then show ?thesis
      using ok 2 tree_unique_id [OF inv _ 2(1)] assms(4,5) unfolding parent_ok_def by metis
  qed
qed

lemma query_dir: "\<lbrakk>tree_inv (db_dirs d); r \<in> set (db_dirs d)\<rbrakk> \<Longrightarrow> DirByID (d_ID r) d = Inr r"
  unfolding DirByID_def
  by (metis (mono_tags, lifting) query_row_Some query_row_Inl sum.exhaust tree_unique_id)

lemma no_clash:
  assumes "tree_inv dirs" "r \<in> set dirs" "new_place dirs r npar nname npath"
  shows "\<not> list_ex (\<lambda>x. d_ID x \<noteq> d_ID r \<and> (d_Path x = npath \<or> d_ParentID x = npar \<and> d_Name x = nname)) dirs"
  using place_path [OF assms(1,3)] assms(3) unfolding new_place_def list_ex_iff by metis

lemma same_row:
  assumes "tree_inv dirs" "r \<in> set dirs"
  shows "x \<in> set dirs \<Longrightarrow> d_ID x = d_ID r \<Longrightarrow> x = r"
  using tree_unique_id assms by blast

lemma RenameDir_relocates:
  assumes inv: "tree_inv (db_dirs d)" and r: "r \<in> set (db_dirs d)"
    and cf: "folds_no_slash cf" and alone: "case_alone cf (db_dirs d) r"
    and np: "new_place (db_dirs d) r (d_ParentID r) n p"
  shows "RenameDir cf (d_ID r) n p d =
    (Inr (), d\<lparr>db_dirs := map (relocate r (d_ParentID r) n p (db_now d)) (db_dirs d)\<rparr>)"
proof -
  have "rewrite_descendants cf (d_Path r) p (db_now d)
      (update_where (\<lambda>x. d_ID x = d_ID r) (\<lambda>x. x\<lparr>d_Name := n, d_Path := p, d_UpdatedAt := db_now d\<rparr>) (db_dirs d))
    = Some (map (relocate r (d_ParentID r) n p (db_now d)) (db_dirs d))"
  proof (rule rewrite_relocates [OF inv r np _ like_exact_tree [OF inv r cf alone]
        like_exact_new [OF inv r cf alone np]])
    show "x\<lparr>d_Name := n, d_Path := p, d_UpdatedAt := db_now d\<rparr> = x\<lparr>d_ParentID := d_ParentID r, d_Name := n, d_Path := p, d_UpdatedAt := db_now d\<rparr>" if "d_ID x = d_ID r" "x \<in> set (db_dirs d)" for x
      using same_row [OF inv r that(2,1)] by (cases r) simp
  qed
  then show ?thesis
    using no_clash [OF inv r np] query_dir [OF inv r]
    by (simp add: RenameDir_def Tx_def)
qed

lemma MoveDir_relocates:
  assumes inv: "tree_inv (db_dirs d)" and r: "r \<in> set (db_dirs d)"
    and cf: "folds_no_slash cf" and alone: "case_alone cf (db_dirs d) r"
    and np: "new_place (db_dirs d) r par (d_Name r) p"
  shows "MoveDir cf (d_ID r) par p d =
    (Inr (), d\<lparr>db_dirs := map (relocate r par (d_Name r) p (db_now d)) (db_dirs d)\<rparr>)"
proof -
  have "rewrite_descendants cf (d_Path r) p (db_now d)
      (update_where (\<lambda>x. d_ID x = d_ID r) (\<lambda>x. x\<lparr>d_ParentID := par, d_Path := p, d_UpdatedAt := db_now d\<rparr>) (db_dirs d))
    = Some (map (relocate r par (d_Name r) p (db_now d)) (db_dirs d))"
  proof (rule rewrite_relocates [OF inv r np _ like_exact_tree [OF inv r cf alone]
        like_exact_new [OF inv r cf alone np]])
    show "x\<lparr>d_ParentID := par, d_Path := p, d_UpdatedAt := db_now d\<rparr> = x\<lparr>d_ParentID := par, d_Name := d_Name r, d_Path := p, d_UpdatedAt := db_now d\<rparr>" if "d_ID x = d_ID r" "x \<in> set (db_dirs d)" for x
      using same_row [OF inv r that(2,1)] by (cases r) simp
  qed
  moreover have "par = [] \<or> dir_exists par d"
    using np by (auto simp: new_place_def dir_exists_def list_ex_iff)
  ultimately show ?thesis
    using no_clash [OF inv r np] query_dir [OF inv r]
    by (auto simp: MoveDir_def Tx_def)
qed

lemma index_inv_dirs:
  assumes "index_inv d" and "tree_inv dirs'" and "d_ID ` set (db_dirs d) \<subseteq> d_ID ` set dirs'"
  shows "index_inv (d\<lparr>db_dirs := dirs'\<rparr>)"
  using assms unfolding index_inv_def files_inv_def dir_exists_def file_exists_def list_ex_iff
  by (auto simp: image_subset_iff image_iff) metis

lemma relocate_index_inv:
  assumes "index_inv d" "r \<in> set (db_dirs d)" "new_place (db_dirs d) r npar nname npath"
  shows "index_inv (d\<lparr>db_dirs := map (relocate r npar nname npath now) (db_dirs d)\<rparr>)"
  using assms by (intro index_inv_dirs relocate_inv) (auto simp: index_inv_def image_iff)

section \<open>Creating and deleting directories\<close>

lemma InsertDir_inv:
  assumes "index_inv d" and "d_ID r \<noteq> []" "dir_name (d_Name r)" "parent_ok (db_dirs d) r"
  shows "index_inv (snd (InsertDir r d))"
proof -
  let ?r = "r\<lparr>d_CreatedAt := db_now d, d_UpdatedAt := db_now d\<rparr>"
  have mono: "parent_ok (db_dirs d @ [?r]) x" if "parent_ok (db_dirs d) x" for x
    using that unfolding parent_ok_def by auto
  have "parent_ok (db_dirs d @ [?r]) ?r" using mono [OF assms(4)] by (simp add: parent_ok_def)
  moreover have "parent_ok (db_dirs d @ [?r]) x" if "x \<in> set (db_dirs d)" for x
    using assms(1) that mono by (simp add: index_inv_def tree_inv_def)
  ultimately have t: "tree_inv (db_dirs d @ [?r])"
    if "\<forall>x \<in> set (db_dirs d). d_ID x \<noteq> d_ID r \<and> d_Path x \<noteq> d_Path r"
    using assms that unfolding index_inv_def tree_inv_def by auto
  have "index_inv (d\<lparr>db_dirs := db_dirs d @ [?r]\<rparr>)"
    if "\<forall>x \<in> set (db_dirs d). d_ID x \<noteq> d_ID r \<and> d_Path x \<noteq> d_Path r"
    by (rule index_inv_dirs [OF assms(1) t [OF that]]) auto
  then show ?thesis
    using assms(1) by (simp add: InsertDir_def Let_def list_ex_iff)
qed

lemma delete_files_inv:
  assumes inv: "files_inv d" and kept: "\<And>f. f \<in> set (db_files d) \<Longrightarrow> \<not> P f \<Longrightarrow> f_DirID f \<noteq> [] \<Longrightarrow>
      \<exists>r \<in> set dirs'. d_ID r = f_DirID f"
  shows "files_inv ((delete_files P d)\<lparr>db_dirs := dirs'\<rparr>)"
proof -
  let ?d = "(delete_files P d)\<lparr>db_dirs := dirs'\<rparr>"
  let ?gone = "f_ID ` set (filter P (db_files d))"
  have fs: "db_files ?d = filter (\<lambda>f. \<not> P f) (db_files d)"
    and gs: "db_segments ?d = filter (\<lambda>g. g_FileID g \<notin> ?gone) (db_segments d)"
    by (simp_all add: delete_files_def Let_def)
  have "file_exists (g_FileID g) ?d" if g: "g \<in> set (db_segments d)" "g_FileID g \<notin> ?gone" for g
  proof -
    have "file_exists (g_FileID g) d" using g(1) inv by (simp add: files_inv_def)
    then obtain f where f: "f \<in> set (db_files d)" "f_ID f = g_FileID g"
      by (auto simp: file_exists_def list_ex_iff)
    have "\<not> P f"
    proof
      assume "P f"
      then have "f_ID f \<in> ?gone" using f(1) by (intro imageI) simp
      then show False using g(2) f(2) by simp
    qed
    then show ?thesis using f unfolding file_exists_def fs list_ex_iff by auto
  qed
  moreover have "dir_exists (f_DirID f) ?d" if "f \<in> set (db_files d)" "\<not> P f" "f_DirID f \<noteq> []" for f
    using kept [OF that] by (simp add: dir_exists_def list_ex_iff)
  ultimately show ?thesis
    using inv unfolding files_inv_def fs gs by (simp add: distinct_map_filter)
qed

lemma DeleteDir_result:
  assumes "tree_inv (db_dirs d)" and "r \<in> set (db_dirs d)"
  shows "DeleteDir (d_ID r) d =
     (Inr (), (delete_files (\<lambda>f. f_DirID f \<in> set (subtree_ids (db_dirs d) (d_ID r))) d)
       \<lparr>db_dirs := filter (\<lambda>x. \<not> within r x) (db_dirs d)\<rparr>)"
proof -
  have "filter (\<lambda>x. d_ID x \<notin> set (subtree_ids (db_dirs d) (d_ID r))) (db_dirs d)
      = filter (\<lambda>x. \<not> within r x) (db_dirs d)"
    using subtree_ids_iff [OF assms] by (intro filter_cong) auto
  then show ?thesis
    using assms(2) by (auto simp: DeleteDir_def dir_exists_def list_ex_iff Let_def delete_files_def)
qed

lemma delete_tree_inv:
  assumes inv: "tree_inv dirs" and r: "r \<in> set dirs"
  shows "tree_inv (filter (\<lambda>x. \<not> within r x) dirs)"
proof -
  have "parent_ok (filter (\<lambda>x. \<not> within r x) dirs) x" if x: "x \<in> set dirs" "\<not> within r x" for x
  proof -
    have "parent_ok dirs x" using inv x(1) by (simp add: tree_inv_def)
    then show ?thesis
      unfolding parent_ok_def using within_child [OF inv r x(1)] x(2) by (fastforce simp: x)
  qed
  then show ?thesis using inv unfolding tree_inv_def by (simp add: distinct_map_filter)
qed

lemma DeleteDir_inv:
  assumes inv: "index_inv d"
  shows "index_inv (snd (DeleteDir did d))"
proof (cases "dir_exists did d")
  case True
  then obtain r where r: "r \<in> set (db_dirs d)" "did = d_ID r"
    by (auto simp: dir_exists_def list_ex_iff)
  have t: "tree_inv (db_dirs d)" and f: "files_inv d" using inv by (auto simp: index_inv_def)
  have "\<exists>y \<in> set (filter (\<lambda>x. \<not> within r x) (db_dirs d)). d_ID y = f_DirID x"
    if x: "x \<in> set (db_files d)" "f_DirID x \<notin> set (subtree_ids (db_dirs d) (d_ID r))" "f_DirID x \<noteq> []" for x
  proof -
    obtain y where y: "y \<in> set (db_dirs d)" "d_ID y = f_DirID x"
      using f x by (auto simp: files_inv_def dir_exists_def list_ex_iff)
    then have "\<not> within r y" using subtree_ids_iff [OF t r(1) y(1)] x(2) by simp
    then show ?thesis using y by auto
  qed
  then show ?thesis
    unfolding r(2) DeleteDir_result [OF t r(1)] index_inv_def
    using delete_files_inv [OF f] delete_tree_inv [OF t r(1)] by simp
next
  case False
  then show ?thesis using inv by (simp add: DeleteDir_def)
qed

section \<open>Files\<close>


lemma InsertFile_inv:
  assumes "index_inv d"
  shows "index_inv (snd (InsertFile f d))"
proof -
  let ?f = "f\<lparr>f_CreatedAt := db_now d, f_UpdatedAt := db_now d\<rparr>"
  have "files_inv (d\<lparr>db_files := db_files d @ [?f]\<rparr>)"
    if "\<forall>x \<in> set (db_files d). f_ID x \<noteq> f_ID f \<and> (f_DirID x = f_DirID f \<longrightarrow> f_Name x \<noteq> f_Name f)"
      and "f_DirID f \<noteq> [] \<longrightarrow> dir_exists (f_DirID f) d"
    using assms that unfolding index_inv_def files_inv_def
    by (auto simp: dir_exists_def file_exists_def)
  then show ?thesis
    using assms by (simp add: InsertFile_def Let_def list_ex_iff index_inv_def) blast
qed

lemma update_file_inv:
  assumes "files_inv d" and id: "\<And>f. f_ID (u f) = f_ID f"
    and place: "\<And>f g. \<lbrakk>f \<in> set (db_files d); f_ID f = fid; g \<in> set (db_files d); f_ID g \<noteq> fid\<rbrakk> \<Longrightarrow>
      (f_DirID (u f), f_Name (u f)) \<noteq> (f_DirID g, f_Name g)"
    and dir: "\<And>f. \<lbrakk>f \<in> set (db_files d); f_ID f = fid; f_DirID (u f) \<noteq> []\<rbrakk> \<Longrightarrow> dir_exists (f_DirID (u f)) d"
  shows "files_inv (d\<lparr>db_files := update_where (\<lambda>r. f_ID r = fid) u (db_files d)\<rparr>)"
proof -
  define h where "h = (\<lambda>r. if f_ID r = fid then u r else r)"
  have ids: "f_ID \<circ> h = f_ID" using id by (simp add: fun_eq_iff h_def)
  have same: "f = g" if "f \<in> set (db_files d)" "g \<in> set (db_files d)" "f_ID f = f_ID g" for f g
    using assms(1) that by (auto simp: files_inv_def distinct_map dest: inj_onD)
  have pl: "f = g" if "f \<in> set (db_files d)" "g \<in> set (db_files d)"
    "f_DirID (h f) = f_DirID (h g)" "f_Name (h f) = f_Name (h g)" for f g
  proof -
    have "inj_on (\<lambda>f. (f_DirID f, f_Name f)) (set (db_files d))"
      using assms(1) by (simp add: files_inv_def distinct_map)
    then show ?thesis
      using that same [OF that(1,2)] place [of f g] place [of g f] unfolding h_def
      by (cases "f_ID f = fid"; cases "f_ID g = fid") (auto dest: inj_onD)
  qed
  have ex: "file_exists k (d\<lparr>db_files := map h (db_files d)\<rparr>) = file_exists k d" for k
    using id by (auto simp: file_exists_def list_ex_iff h_def)
  have img: "update_where (\<lambda>r. f_ID r = fid) u (db_files d) = map h (db_files d)" by (simp add: update_where_def h_def)
  have "distinct (db_files d)" using assms(1) by (simp add: files_inv_def distinct_map)
  then have "distinct (map ((\<lambda>f. (f_DirID f, f_Name f)) \<circ> h) (db_files d))"
    using pl by (simp add: distinct_map inj_on_def)
  moreover have "dir_exists (f_DirID (h f)) d" if "f \<in> set (db_files d)" "f_DirID (h f) \<noteq> []" for f
    using that assms(1) dir by (auto simp: files_inv_def h_def)
  ultimately show ?thesis
    using assms(1) unfolding files_inv_def img
    by (simp add: ids ex) (simp add: dir_exists_def comp_def)
qed

lemma with_file_inv:
  assumes "index_inv d" and "\<And>f. f_ID (u f) = f_ID f" "\<And>f. f_DirID (u f) = f_DirID f" "\<And>f. f_Name (u f) = f_Name f"
  shows "index_inv (snd (with_file fid u d))"
proof -
  have i: "inj_on (\<lambda>f. (f_DirID f, f_Name f)) (set (db_files d))" and f: "files_inv d"
    using assms(1) by (auto simp: index_inv_def files_inv_def distinct_map)
  have "files_inv (d\<lparr>db_files := update_where (\<lambda>r. f_ID r = fid) u (db_files d)\<rparr>)"
    using f i assms(2-) by (intro update_file_inv) (auto simp: files_inv_def dest: inj_onD)
  then show ?thesis using assms(1) by (simp add: with_file_def index_inv_def)
qed

lemma UpdateFileStatus_inv: "index_inv d \<Longrightarrow> index_inv (snd (UpdateFileStatus fid s d))"
  unfolding UpdateFileStatus_def by (rule with_file_inv) simp_all

lemma SetFileSize_inv: "index_inv d \<Longrightarrow> index_inv (snd (SetFileSize fid n k d))"
  unfolding SetFileSize_def by (rule with_file_inv) simp_all

lemma file_row: "FileByID fid d = Inr f \<Longrightarrow> f \<in> set (db_files d) \<and> f_ID f = fid"
  unfolding FileByID_def by (rule query_row_Some)

lemma file_row_unique:
  "\<lbrakk>files_inv d; FileByID fid d = Inr f; g \<in> set (db_files d); f_ID g = fid\<rbrakk> \<Longrightarrow> g = f"
  using file_row by (fastforce simp: files_inv_def distinct_map dest: inj_onD)

lemma RenameFile_inv:
  assumes "index_inv d"
  shows "index_inv (snd (RenameFile fid n d))"
proof (cases "FileByID fid d")
  case (Inl e)
  then show ?thesis using assms by (simp add: RenameFile_def)
next
  case (Inr f)
  have f: "files_inv d" using assms by (simp add: index_inv_def)
  note uniq = file_row_unique [OF f Inr]
  have "files_inv (d\<lparr>db_files := update_where (\<lambda>r. f_ID r = fid) (\<lambda>r. r\<lparr>f_Name := n, f_UpdatedAt := db_now d\<rparr>) (db_files d)\<rparr>)"
    if "\<not> place_taken fid (f_DirID f) n d"
    using that f uniq
    by (intro update_file_inv) (auto simp: place_taken_def list_ex_iff files_inv_def)
  then show ?thesis using assms Inr by (auto simp: RenameFile_def with_file_def index_inv_def)
qed

lemma MoveFile_inv:
  assumes "index_inv d"
  shows "index_inv (snd (MoveFile fid did d))"
proof (cases "FileByID fid d")
  case (Inl e)
  then show ?thesis using assms by (simp add: MoveFile_def)
next
  case (Inr f)
  have f: "files_inv d" using assms by (simp add: index_inv_def)
  note uniq = file_row_unique [OF f Inr]
  have "files_inv (d\<lparr>db_files := update_where (\<lambda>r. f_ID r = fid) (\<lambda>r. r\<lparr>f_DirID := did, f_UpdatedAt := db_now d\<rparr>) (db_files d)\<rparr>)"
    if "\<not> place_taken fid did (f_Name f) d" "did = [] \<or> dir_exists did d"
    using that f uniq
    by (intro update_file_inv) (auto simp: place_taken_def list_ex_iff)
  then show ?thesis using assms Inr by (auto simp: MoveFile_def with_file_def index_inv_def)
qed

lemma DeleteFile_inv:
  assumes "index_inv d"
  shows "index_inv (snd (DeleteFile fid d))"
proof -
  have "files_inv ((delete_files (\<lambda>f. f_ID f = fid) d)\<lparr>db_dirs := db_dirs d\<rparr>)"
    using assms unfolding index_inv_def
    by (intro delete_files_inv) (auto simp: files_inv_def dir_exists_def list_ex_iff)
  then show ?thesis
    using assms by (simp add: DeleteFile_def index_inv_def delete_files_def Let_def)
qed

lemma UpsertSegment_inv:
  assumes "index_inv d"
  shows "index_inv (snd (UpsertSegment g d))"
proof -
  let ?P = "\<lambda>r. g_FileID r = g_FileID g \<and> g_Index r = g_Index g"
  have "(\<lambda>g. (g_FileID g, g_Index g)) \<circ> (\<lambda>r. if ?P r then g else r) = (\<lambda>g. (g_FileID g, g_Index g))"
    by (simp add: fun_eq_iff)
  then have "files_inv (d\<lparr>db_segments := update_where ?P (\<lambda>_. g) (db_segments d)\<rparr>)"
    using assms unfolding index_inv_def files_inv_def update_where_def
    by (auto simp: dir_exists_def file_exists_def list_ex_iff) metis
  moreover have "files_inv (d\<lparr>db_segments := db_segments d @ [g]\<rparr>)"
    if "\<forall>r \<in> set (db_segments d). \<not> ?P r" "file_exists (g_FileID g) d"
    using assms that unfolding index_inv_def files_inv_def
    by (auto simp: dir_exists_def file_exists_def)
  ultimately show ?thesis
    using assms by (auto simp: UpsertSegment_def Let_def list_ex_iff index_inv_def)
qed

end
