(* ===== verification/TreeProps.thy ===== *)
theory TreeProps
  imports TreeOps "HOL-Library.Multiset"
begin

text \<open>
  The properties of the stored tree: the files' statements keep the index well formed in any
  order, a rename or a move relocates exactly one subtree, the messages collected before a
  directory is deleted are those of the rows the cascade removes, and replacing the index is all
  or nothing.  The last section holds the two ways SQLite's case-insensitive \<open>LIKE\<close> breaks this.
\<close>

section \<open>Sequences of statements\<close>

datatype index_cmd =
    DropDir string
  | AddFile FileRow
  | StatusFile string FileStatus
  | SizeFile string int int
  | NameFile string string
  | PlaceFile string string
  | DropFile string
  | PutSegmentRow Segment

fun index_step :: "index_cmd \<Rightarrow> db \<Rightarrow> db" where
  "index_step (DropDir k) d = snd (DeleteDir k d)"
| "index_step (AddFile f) d = snd (InsertFile f d)"
| "index_step (StatusFile k s) d = snd (UpdateFileStatus k s d)"
| "index_step (SizeFile k n m) d = snd (SetFileSize k n m d)"
| "index_step (NameFile k n) d = snd (RenameFile k n d)"
| "index_step (PlaceFile k p) d = snd (MoveFile k p d)"
| "index_step (DropFile k) d = snd (DeleteFile k d)"
| "index_step (PutSegmentRow g) d = snd (UpsertSegment g d)"

interpretation index_cmds: machine index_step index_inv
proof
  show "index_inv (index_step c d)" if "index_inv d" for c d
    using that
    by (cases c) (simp_all add: DeleteDir_inv InsertFile_inv UpdateFileStatus_inv SetFileSize_inv
      RenameFile_inv MoveFile_inv DeleteFile_inv UpsertSegment_inv)
qed

section \<open>The messages of a subtree\<close>

definition all_messages :: "db \<Rightarrow> TGMessage list" where
  "all_messages d = dir_messages (db_dirs d) @
     concat (map (\<lambda>f. file_messages f (db_segments d)) (db_files d))"

lemma dir_messages_simps:
  "dir_messages [] = []"
  "dir_messages (r # rs) = (if d_TGMsgID r > 0 then [\<lparr>m_ChannelID = d_ChannelID r, m_MsgID = d_TGMsgID r\<rparr>] else [])
     @ dir_messages rs"
  by (simp_all add: dir_messages_def)

lemma mset_dir_messages_split:
  "mset (dir_messages rows) = mset (dir_messages (filter P rows)) + mset (dir_messages (filter (\<lambda>x. \<not> P x) rows))"
  by (induction rows) (simp_all add: dir_messages_simps)

lemma mset_concat_split:
  "mset (concat (map h xs)) = mset (concat (map h (filter P xs))) + mset (concat (map h (filter (\<lambda>x. \<not> P x) xs)))"
  by (induction xs) auto

lemma kept_messages:
  assumes "files_inv d" "f \<in> set (db_files d)" "\<not> P f"
  shows "file_messages f (db_segments (delete_files P d)) = file_messages f (db_segments d)"
proof -
  have "f_ID f \<notin> set (map f_ID (filter P (db_files d)))"
    using assms by (auto simp: files_inv_def distinct_map dest: inj_onD)
  then have "filter (\<lambda>g. g_FileID g = f_ID f) (filter (\<lambda>g. g_FileID g \<notin> set (map f_ID (filter P (db_files d)))) (db_segments d))
      = filter (\<lambda>g. g_FileID g = f_ID f) (db_segments d)"
    unfolding filter_filter by (intro filter_cong) metis+
  then show ?thesis by (simp add: file_messages_def delete_files_def Let_def)
qed

lemma SubtreeMessages_rows:
  assumes inv: "index_inv d" and r: "r \<in> set (db_dirs d)" and cf: "folds_no_slash cf"
    and alone: "case_alone cf (db_dirs d) r"
  shows "SubtreeMessages cf (d_ID r) d =
    Inr (dir_messages (filter (within r) (db_dirs d)) @
      concat (map (\<lambda>f. file_messages f (db_segments d))
        (filter (\<lambda>f. f_DirID f \<in> set (subtree_ids (db_dirs d) (d_ID r))) (db_files d))))"
proof -
  have t: "tree_inv (db_dirs d)" and fi: "files_inv d" using inv by (auto simp: index_inv_def)
  have sub: "filter (\<lambda>x. d_ID x = d_ID r \<or> below_like cf (d_Path r) (d_Path x)) (db_dirs d)
      = filter (within r) (db_dirs d)"
    using like_exact_tree [OF t r cf alone] same_row [OF t r] by (intro filter_cong) auto
  have "f_DirID f \<in> d_ID ` set (filter (within r) (db_dirs d)) \<longleftrightarrow>
      f_DirID f \<in> set (subtree_ids (db_dirs d) (d_ID r))" if f: "f \<in> set (db_files d)" for f
  proof (cases "f_DirID f = []")
    case True
    have "[] \<notin> d_ID ` set (db_dirs d)" using t by (auto simp: tree_inv_def)
    moreover have "[] \<notin> set (subtree_ids (db_dirs d) (d_ID r))"
      using cascade_reach [of "[]" "length (db_dirs d)" "db_dirs d" "[d_ID r]"] t r
      by (auto simp: subtree_ids_def tree_inv_def)
    ultimately show ?thesis using True by auto
  next
    case False
    then obtain y where y: "y \<in> set (db_dirs d)" "d_ID y = f_DirID f"
      using fi f by (auto simp: files_inv_def dir_exists_def list_ex_iff)
    have "d_ID y \<in> d_ID ` set (filter (within r) (db_dirs d)) \<longleftrightarrow> within r y"
    proof
      assume "d_ID y \<in> d_ID ` set (filter (within r) (db_dirs d))"
      then obtain z where "z \<in> set (db_dirs d)" "within r z" "d_ID z = d_ID y" by fastforce
      then show "within r y" using same_row [OF t y(1)] by metis
    qed (use y(1) in simp)
    then show ?thesis using subtree_ids_iff [OF t r y(1)] y(2) by simp
  qed
  then have "filter (\<lambda>f. f_DirID f \<in> set (map d_ID (filter (within r) (db_dirs d)))) (db_files d)
      = filter (\<lambda>f. f_DirID f \<in> set (subtree_ids (db_dirs d) (d_ID r))) (db_files d)"
    by (intro filter_cong) simp_all
  then show ?thesis
    unfolding SubtreeMessages_def query_dir [OF t r] go_bind_simps Let_def sub by (simp only:)
qed

lemma messages_partition:
  assumes inv: "index_inv d" and r: "r \<in> set (db_dirs d)" and cf: "folds_no_slash cf"
    and alone: "case_alone cf (db_dirs d) r"
    and ms: "SubtreeMessages cf (d_ID r) d = Inr ms"
  shows "mset (all_messages d) = mset ms + mset (all_messages (snd (DeleteDir (d_ID r) d)))"
proof -
  let ?Q = "\<lambda>f. f_DirID f \<in> set (subtree_ids (db_dirs d) (d_ID r))"
  let ?m = "\<lambda>f. file_messages f (db_segments d)"
  have t: "tree_inv (db_dirs d)" and fi: "files_inv d" using inv by (auto simp: index_inv_def)
  have "all_messages (snd (DeleteDir (d_ID r) d)) = dir_messages (filter (\<lambda>x. \<not> within r x) (db_dirs d)) @
      concat (map (\<lambda>f. file_messages f (db_segments (delete_files ?Q d))) (filter (\<lambda>f. \<not> ?Q f) (db_files d)))"
    unfolding DeleteDir_result [OF t r] all_messages_def by (simp add: delete_files_def Let_def)
  also have "map (\<lambda>f. file_messages f (db_segments (delete_files ?Q d))) (filter (\<lambda>f. \<not> ?Q f) (db_files d))
      = map ?m (filter (\<lambda>f. \<not> ?Q f) (db_files d))"
    using kept_messages [OF fi] by (intro map_cong) auto
  finally have after: "all_messages (snd (DeleteDir (d_ID r) d)) =
      dir_messages (filter (\<lambda>x. \<not> within r x) (db_dirs d)) @ concat (map ?m (filter (\<lambda>f. \<not> ?Q f) (db_files d)))" .
  have "ms = dir_messages (filter (within r) (db_dirs d)) @ concat (map ?m (filter ?Q (db_files d)))"
    using ms SubtreeMessages_rows [OF inv r cf alone] by simp
  then show ?thesis
    unfolding after using mset_dir_messages_split [of "db_dirs d" "within r"] mset_concat_split [of ?m "db_files d" ?Q]
    by (simp add: all_messages_def)
qed

section \<open>Replacing the index\<close>

lemma insert_all_inv:
  assumes "\<And>r d. r \<in> set rs \<Longrightarrow> Q d \<Longrightarrow> Q (snd (ins r d))" and "insert_all ins rs d = (Inr (), d')" and "Q d"
  shows "Q d'"
  using assms
proof (induction rs arbitrary: d)
  case (Cons r rs)
  obtain x d1 where i: "ins r d = (x, d1)" by fastforce
  then obtain u where x: "x = Inr u" using Cons.prems(2) by (cases x) auto
  have "Q d1" using Cons.prems(1) [of r d] Cons.prems(3) i by simp
  then show ?case using Cons.IH [of d1] Cons.prems(1,2) i x by simp
qed simp

lemma insert_all_upd:
  assumes one: "\<And>r d d1. ins r d = (Inr (), d1) \<Longrightarrow> d1 = upd d [r]"
    and app: "\<And>d xs ys. upd (upd d xs) ys = upd d (xs @ ys)" and nil: "\<And>d. upd d [] = d"
  shows "insert_all ins rs d = (Inr (), d') \<Longrightarrow> d' = upd d rs"
proof (induction rs arbitrary: d)
  case (Cons r rs)
  obtain x d1 where i: "ins r d = (x, d1)" by fastforce
  then obtain u where x: "x = Inr u" using Cons.prems by (cases x) auto
  then have "d1 = upd d [r]" using one i by simp
  then show ?case using Cons.IH [of d1] Cons.prems i x app [of d "[r]" rs] by simp
qed (simp add: nil)

lemma insert_all_dirs:
  assumes "insert_all (\<lambda>r. InsertDir (h r)) rs d = (Inr (), d')"
  shows "d' = d\<lparr>db_dirs := db_dirs d @ map (\<lambda>r. (h r)\<lparr>d_CreatedAt := db_now d, d_UpdatedAt := db_now d\<rparr>) rs\<rparr>"
  by (rule insert_all_upd [OF _ _ _ assms, of "\<lambda>d rs. d\<lparr>db_dirs := db_dirs d @
        map (\<lambda>r. (h r)\<lparr>d_CreatedAt := db_now d, d_UpdatedAt := db_now d\<rparr>) rs\<rparr>"])
    (auto simp: InsertDir_def Let_def split: if_splits)

lemma insert_all_files:
  assumes "insert_all (\<lambda>r. InsertFile (h r)) rs d = (Inr (), d')"
  shows "d' = d\<lparr>db_files := db_files d @ map (\<lambda>r. (h r)\<lparr>f_CreatedAt := db_now d, f_UpdatedAt := db_now d\<rparr>) rs\<rparr>"
  by (rule insert_all_upd [OF _ _ _ assms, of "\<lambda>d rs. d\<lparr>db_files := db_files d @
        map (\<lambda>r. (h r)\<lparr>f_CreatedAt := db_now d, f_UpdatedAt := db_now d\<rparr>) rs\<rparr>"])
    (auto simp: InsertFile_def Let_def split: if_splits)

lemma insert_all_segments:
  assumes "insert_all insert_segment rs d = (Inr (), d')"
  shows "d' = d\<lparr>db_segments := db_segments d @ rs\<rparr>"
  by (rule insert_all_upd [OF _ _ _ assms, of "\<lambda>d rs. d\<lparr>db_segments := db_segments d @ rs\<rparr>"])
    (auto simp: insert_segment_def split: if_splits)

definition fresh_dir :: "db \<Rightarrow> Dir \<Rightarrow> Dir" where
  "fresh_dir d r = r\<lparr>d_OwnerID := owner_of (knownUserIDs d) (d_OwnerID r), d_CreatedAt := db_now d, d_UpdatedAt := db_now d\<rparr>"

definition fresh_file :: "db \<Rightarrow> FileRow \<Rightarrow> FileRow" where
  "fresh_file d f = f\<lparr>f_OwnerID := owner_of (knownUserIDs d) (f_OwnerID f), f_CreatedAt := db_now d, f_UpdatedAt := db_now d\<rparr>"

lemma ReplaceIndex_error: "fst (ReplaceIndex dirs fs segs d) = Inl e \<Longrightarrow> snd (ReplaceIndex dirs fs segs d) = d"
  unfolding ReplaceIndex_def Let_def by (rule Tx_error)

lemma ReplaceIndex_rows:
  assumes "ReplaceIndex dirs fs segs d = (Inr (), d')"
  shows "db_dirs d' = map (fresh_dir d) dirs \<and> db_files d' = map (fresh_file d) fs \<and> db_segments d' = segs
    \<and> db_users d' = db_users d \<and> db_channels d' = db_channels d"
proof -
  let ?d1 = "(delete_files (\<lambda>_. True) d)\<lparr>db_segments := [], db_dirs := []\<rparr>"
  obtain d2 d3 where
    d2: "insert_all (\<lambda>r. InsertDir (r\<lparr>d_OwnerID := owner_of (knownUserIDs d) (d_OwnerID r)\<rparr>)) dirs ?d1 = (Inr (), d2)"
    and d3: "insert_all (\<lambda>f. InsertFile (f\<lparr>f_OwnerID := owner_of (knownUserIDs d) (f_OwnerID f)\<rparr>)) fs d2 = (Inr (), d3)"
    and d4: "insert_all insert_segment segs d3 = (Inr (), d')"
    using assms by (auto simp: ReplaceIndex_def Let_def Tx_def split: prod.splits sum.splits)
  note e = insert_all_dirs [OF d2] insert_all_files [OF d3] insert_all_segments [OF d4]
  show ?thesis
    unfolding e by (simp add: delete_files_def Let_def fresh_dir_def fresh_file_def)
qed

lemma tree_inv_map:
  assumes "tree_inv dirs" and "\<And>r. d_ID (g r) = d_ID r \<and> d_ParentID (g r) = d_ParentID r \<and>
      d_Name (g r) = d_Name r \<and> d_Path (g r) = d_Path r"
  shows "tree_inv (map g dirs)"
proof -
  have "d_ID \<circ> g = d_ID" "d_Path \<circ> g = d_Path" using assms(2) by (simp_all add: fun_eq_iff)
  moreover have "parent_ok (map g dirs) (g r)" if "parent_ok dirs r" for r
    using that assms(2) unfolding parent_ok_def by auto
  ultimately show ?thesis using assms unfolding tree_inv_def by auto
qed

lemma insert_segment_inv:
  assumes "index_inv d"
  shows "index_inv (snd (insert_segment g d))"
proof (cases "list_ex (\<lambda>r. g_FileID r = g_FileID g \<and> g_Index r = g_Index g) (db_segments d)")
  case False
  then show ?thesis
    using UpsertSegment_inv [OF assms, of g] assms by (auto simp: insert_segment_def UpsertSegment_def Let_def)
qed (use assms in \<open>simp add: insert_segment_def\<close>)

lemma ReplaceIndex_inv:
  assumes "ReplaceIndex dirs fs segs d = (Inr (), d')" and "tree_inv dirs"
  shows "index_inv d'"
proof -
  let ?d1 = "(delete_files (\<lambda>_. True) d)\<lparr>db_segments := [], db_dirs := []\<rparr>"
  obtain d2 d3 where
    d2: "insert_all (\<lambda>r. InsertDir (r\<lparr>d_OwnerID := owner_of (knownUserIDs d) (d_OwnerID r)\<rparr>)) dirs ?d1 = (Inr (), d2)"
    and d3: "insert_all (\<lambda>f. InsertFile (f\<lparr>f_OwnerID := owner_of (knownUserIDs d) (f_OwnerID f)\<rparr>)) fs d2 = (Inr (), d3)"
    and d4: "insert_all insert_segment segs d3 = (Inr (), d')"
    using assms by (auto simp: ReplaceIndex_def Let_def Tx_def split: prod.splits sum.splits)
  have "index_inv d2"
    unfolding insert_all_dirs [OF d2] index_inv_def
    by (auto simp: delete_files_def Let_def files_inv_def intro!: tree_inv_map [OF assms(2)])
  then have "index_inv d3" by (rule insert_all_inv [OF _ d3, rotated]) (rule InsertFile_inv)
  then show ?thesis by (rule insert_all_inv [OF _ d4, rotated]) (rule insert_segment_inv)
qed

lemma DeleteDir_exactly:
  assumes inv: "index_inv d" and r: "r \<in> set (db_dirs d)"
  shows "\<exists>d'. DeleteDir (d_ID r) d = (Inr (), d') \<and> index_inv d' \<and>
     (\<forall>x. x \<in> set (db_dirs d') \<longleftrightarrow> x \<in> set (db_dirs d) \<and> \<not> within r x) \<and>
     (\<forall>f. f \<in> set (db_files d') \<longleftrightarrow> f \<in> set (db_files d) \<and>
        \<not> (\<exists>x \<in> set (db_dirs d). within r x \<and> f_DirID f = d_ID x)) \<and>
     (\<forall>g. g \<in> set (db_segments d') \<longleftrightarrow> g \<in> set (db_segments d) \<and> file_exists (g_FileID g) d')"
proof -
  let ?ids = "set (subtree_ids (db_dirs d) (d_ID r))"
  let ?P = "\<lambda>f. f_DirID f \<in> ?ids"
  have t: "tree_inv (db_dirs d)" and fi: "files_inv d" using inv by (auto simp: index_inv_def)
  obtain d' where d': "DeleteDir (d_ID r) d = (Inr (), d')"
    and eq: "d' = (delete_files ?P d)\<lparr>db_dirs := filter (\<lambda>x. \<not> within r x) (db_dirs d)\<rparr>"
    using DeleteDir_result [OF t r] by blast
  have gone: "?P f \<longleftrightarrow> (\<exists>x \<in> set (db_dirs d). within r x \<and> f_DirID f = d_ID x)" if "f \<in> set (db_files d)" for f
  proof
    assume h: "?P f"
    have "f_DirID f \<in> d_ID ` set (db_dirs d)"
      using cascade_reach [of "f_DirID f" "length (db_dirs d)" "db_dirs d" "[d_ID r]"] h r
      by (auto simp: subtree_ids_def intro: rev_image_eqI)
    then show "\<exists>x \<in> set (db_dirs d). within r x \<and> f_DirID f = d_ID x"
      using h subtree_ids_iff [OF t r] by force
  qed (use subtree_ids_iff [OF t r] in auto)
  have fs: "db_files d' = filter (\<lambda>f. \<not> ?P f) (db_files d)"
    and gs: "db_segments d' = filter (\<lambda>g. g_FileID g \<notin> f_ID ` set (filter ?P (db_files d))) (db_segments d)"
    by (simp_all add: eq delete_files_def Let_def)
  have inv': "index_inv d'" using DeleteDir_inv [OF inv, of "d_ID r"] d' by simp
  have seg: "file_exists (g_FileID g) d' \<longleftrightarrow> g_FileID g \<notin> f_ID ` set (filter ?P (db_files d))"
    if "g \<in> set (db_segments d)" for g
  proof
    assume "file_exists (g_FileID g) d'"
    then obtain f where f: "f \<in> set (db_files d)" "\<not> ?P f" "f_ID f = g_FileID g"
      by (auto simp: file_exists_def fs list_ex_iff)
    show "g_FileID g \<notin> f_ID ` set (filter ?P (db_files d))"
    proof
      assume "g_FileID g \<in> f_ID ` set (filter ?P (db_files d))"
      then obtain h where "h \<in> set (db_files d)" "?P h" "f_ID h = f_ID f" using f(3) by auto
      then have "h = f" using fi f(1) by (auto simp: files_inv_def distinct_map dest: inj_onD)
      then show False using \<open>?P h\<close> f(2) by simp
    qed
  next
    assume "g_FileID g \<notin> f_ID ` set (filter ?P (db_files d))"
    then have "g \<in> set (db_segments d')" using that gs by simp
    then show "file_exists (g_FileID g) d'" using inv' by (simp add: index_inv_def files_inv_def)
  qed
  show ?thesis
  proof (intro exI conjI)
    show "\<forall>g. g \<in> set (db_segments d') \<longleftrightarrow> g \<in> set (db_segments d) \<and> file_exists (g_FileID g) d'"
      using seg unfolding gs by auto
    show "\<forall>f. f \<in> set (db_files d') \<longleftrightarrow> f \<in> set (db_files d) \<and>
        \<not> (\<exists>x \<in> set (db_dirs d). within r x \<and> f_DirID f = d_ID x)"
      using gone unfolding fs by auto
  qed (use d' inv' in \<open>auto simp: eq\<close>)
qed

section \<open>Properties\<close>

text \<open>A small index: \<open>/films\<close> with the directory \<open>/films/new\<close>, a file in it, and \<open>/books\<close>.\<close>

definition mk_dir :: "string \<Rightarrow> string \<Rightarrow> string \<Rightarrow> string \<Rightarrow> int \<Rightarrow> Dir" where
  "mk_dir did par n p msg = \<lparr>d_ID = did, d_ParentID = par, d_Name = n, d_Path = p, d_ChannelID = [],
     d_TGMsgID = msg, d_CreatedAt = 0, d_UpdatedAt = 0, d_OwnerID = []\<rparr>"

definition mk_file :: "string \<Rightarrow> string \<Rightarrow> string \<Rightarrow> FileRow" where
  "mk_file fid did n = \<lparr>f_ID = fid, f_DirID = did, f_Name = n, f_Size = 5, f_MIME = [], f_SegmentSize = 10,
     f_SegmentCount = 1, f_Status = StatusComplete, f_ChannelID = [], f_CreatedAt = 0, f_UpdatedAt = 0, f_OwnerID = []\<rparr>"

definition mk_segment :: "string \<Rightarrow> int \<Rightarrow> int \<Rightarrow> Segment" where
  "mk_segment fid i msg = \<lparr>g_FileID = fid, g_Index = i, g_Size = 5, g_TGMsgID = msg, g_TGDocID = 0,
     g_AccessHash = 0, g_DCID = 0, g_FileReference = [], g_AccountID = []\<rparr>"

definition small_index :: db where
  "small_index = empty_db\<lparr>
     db_dirs := [mk_dir ''a'' [] ''films'' ''/films'' 1, mk_dir ''b'' [] ''books'' ''/books'' 2,
       mk_dir ''c'' ''a'' ''new'' ''/films/new'' 3],
     db_files := [mk_file ''f'' ''c'' ''x.mkv''], db_segments := [mk_segment ''f'' 1 4]\<rparr>"

lemmas mk_defs = mk_dir_def mk_file_def mk_segment_def empty_db_def

lemma dir_name_ascii: "\<lbrakk>plain n; \<forall>c \<in> set n. byte c < 128\<rbrakk> \<Longrightarrow> dir_name n"
  by (simp add: dir_name_def valid_utf8_ascii)

lemma small_index_inv: "index_inv small_index"
  by (simp add: index_inv_def tree_inv_def files_inv_def small_index_def mk_defs parent_ok_def Root_def
    dir_exists_def file_exists_def dir_name_ascii plain_def)

lemma small_index_alone: "case_alone ascii_fold (db_dirs small_index) (mk_dir ''a'' [] ''films'' ''/films'' 1)"
  by (simp add: case_alone_def same_letters_def small_index_def mk_defs runes_def chunks_ascii ascii_fold_def)

text \<open>An index is well formed when paths follow the parents, names are unique in their folder
and every segment has its file.  Any sequence of the statements that delete folders and create,
update, rename, move, delete files or store segments keeps it so, successful or not.\<close>

theorem index_statements_keep_invariant:
  assumes "index_inv d"
  shows "index_inv (fold index_step cmds d)"
  using assms by (rule index_cmds.inv_run)

theorem index_statements_keep_invariant_witness:
  "index_inv (fold index_step [NameFile ''f'' ''y.mkv'', DropDir ''c'', PlaceFile ''f'' ''a''] small_index)"
  by (rule index_statements_keep_invariant [OF small_index_inv])

text \<open>Renaming a folder to a free name under its parent succeeds and rewrites the paths of
exactly the folders below it; the index stays well formed.  No other folder of the tree may have
the same path up to ASCII case, because the statement selects with \<open>LIKE\<close>.\<close>

theorem RenameDir_moves_subtree:
  assumes "index_inv d" and "r \<in> set (db_dirs d)" and "case_alone ascii_fold (db_dirs d) r"
    and "new_place (db_dirs d) r (d_ParentID r) n p"
  shows "\<exists>d'. RenameDir ascii_fold (d_ID r) n p d = (Inr (), d') \<and> index_inv d' \<and>
     db_dirs d' = map (relocate r (d_ParentID r) n p (db_now d)) (db_dirs d) \<and>
     db_files d' = db_files d \<and> db_segments d' = db_segments d"
  using RenameDir_relocates [OF _ assms(2) ascii_fold_slash assms(3,4)] relocate_index_inv [OF assms(1,2,4)] assms(1)
  by (simp add: index_inv_def)

theorem RenameDir_moves_subtree_witness:
  "\<exists>d'. RenameDir ascii_fold ''a'' ''f2'' ''/f2'' small_index = (Inr (), d') \<and> index_inv d' \<and>
     map d_Path (db_dirs d') = [''/f2'', ''/books'', ''/f2/new'']"
proof -
  let ?r = "mk_dir ''a'' [] ''films'' ''/films'' 1"
  have "new_place (db_dirs small_index) ?r (d_ParentID ?r) ''f2'' ''/f2''"
    by (simp add: new_place_def small_index_def mk_defs Root_def dir_name_ascii plain_def)
  moreover have "?r \<in> set (db_dirs small_index)" by (simp add: small_index_def)
  ultimately show ?thesis
    using RenameDir_moves_subtree [OF small_index_inv _ small_index_alone, of "''f2''" "''/f2''"]
    by (auto simp: small_index_def relocate_def mk_defs)
qed

text \<open>Moving a folder under another one that is not below it, to a free place, succeeds and
carries exactly its subtree; the index stays well formed (same condition on case).\<close>

theorem MoveDir_moves_subtree:
  assumes "index_inv d" and "r \<in> set (db_dirs d)" and "case_alone ascii_fold (db_dirs d) r"
    and "new_place (db_dirs d) r par (d_Name r) p"
  shows "\<exists>d'. MoveDir ascii_fold (d_ID r) par p d = (Inr (), d') \<and> index_inv d' \<and>
     db_dirs d' = map (relocate r par (d_Name r) p (db_now d)) (db_dirs d) \<and>
     db_files d' = db_files d \<and> db_segments d' = db_segments d"
  using MoveDir_relocates [OF _ assms(2) ascii_fold_slash assms(3,4)] relocate_index_inv [OF assms(1,2,4)] assms(1)
  by (simp add: index_inv_def)

theorem MoveDir_moves_subtree_witness:
  "\<exists>d'. MoveDir ascii_fold ''a'' ''b'' ''/books/films'' small_index = (Inr (), d') \<and> index_inv d' \<and>
     map d_Path (db_dirs d') = [''/books/films'', ''/books'', ''/books/films/new'']"
proof -
  let ?r = "mk_dir ''a'' [] ''films'' ''/films'' 1"
  have "new_place (db_dirs small_index) ?r ''b'' (d_Name ?r) ''/books/films''"
    by (simp add: new_place_def small_index_def mk_defs Root_def dir_name_ascii plain_def)
  moreover have "?r \<in> set (db_dirs small_index)" by (simp add: small_index_def)
  ultimately show ?thesis
    using MoveDir_moves_subtree [OF small_index_inv _ small_index_alone, of "''b''" "''/books/films''"]
    by (auto simp: small_index_def relocate_def mk_defs)
qed

text \<open>Deleting a folder removes exactly the folders at or below its path, and with them the
files whose folder is one of those and the segments of those files.\<close>

theorem DeleteDir_removes_subtree:
  assumes "index_inv d" and "r \<in> set (db_dirs d)"
  shows "\<exists>d'. DeleteDir (d_ID r) d = (Inr (), d') \<and> index_inv d' \<and>
     (\<forall>x. x \<in> set (db_dirs d') \<longleftrightarrow> x \<in> set (db_dirs d) \<and> \<not> within r x) \<and>
     (\<forall>f. f \<in> set (db_files d') \<longleftrightarrow> f \<in> set (db_files d) \<and>
        \<not> (\<exists>x \<in> set (db_dirs d). within r x \<and> f_DirID f = d_ID x)) \<and>
     (\<forall>g. g \<in> set (db_segments d') \<longleftrightarrow> g \<in> set (db_segments d) \<and> file_exists (g_FileID g) d')"
  using DeleteDir_exactly [OF assms] .

theorem DeleteDir_removes_subtree_witness:
  "\<exists>d'. DeleteDir ''a'' small_index = (Inr (), d') \<and> index_inv d' \<and>
     mk_dir ''b'' [] ''books'' ''/books'' 2 \<in> set (db_dirs d') \<and> mk_file ''f'' ''c'' ''x.mkv'' \<notin> set (db_files d')"
proof -
  let ?r = "mk_dir ''a'' [] ''films'' ''/films'' 1"
  obtain d' where "DeleteDir ''a'' small_index = (Inr (), d')" "index_inv d'"
    and "\<forall>x. x \<in> set (db_dirs d') \<longleftrightarrow> x \<in> set (db_dirs small_index) \<and> \<not> within ?r x"
    and "\<forall>f. f \<in> set (db_files d') \<longleftrightarrow> f \<in> set (db_files small_index) \<and>
      \<not> (\<exists>x \<in> set (db_dirs small_index). within ?r x \<and> f_DirID f = d_ID x)"
    using DeleteDir_removes_subtree [OF small_index_inv, of ?r] by (auto simp: small_index_def mk_defs)
  then show ?thesis by (intro exI [of _ d']) (simp add: small_index_def mk_defs)
qed

text \<open>C25: the messages collected before a folder is deleted are exactly those the deletion takes
out of the index: every message of the index is either collected or still referenced afterwards,
never both and never neither (counted with multiplicity; no other folder may have the same path up
to ASCII case).\<close>

theorem SubtreeMessages_partition:
  assumes "index_inv d" and "r \<in> set (db_dirs d)" and "case_alone ascii_fold (db_dirs d) r"
  shows "\<exists>ms. SubtreeMessages ascii_fold (d_ID r) d = Inr ms \<and>
     mset (all_messages d) = mset ms + mset (all_messages (snd (DeleteDir (d_ID r) d)))"
  using SubtreeMessages_rows [OF assms(1,2) ascii_fold_slash assms(3)]
    messages_partition [OF assms(1,2) ascii_fold_slash assms(3)] by blast

theorem SubtreeMessages_partition_witness:
  "\<exists>ms. SubtreeMessages ascii_fold ''a'' small_index = Inr ms \<and> mset (map m_MsgID ms) = {#1, 3, 4#}"
proof -
  let ?r = "mk_dir ''a'' [] ''films'' ''/films'' 1"
  obtain ms where ms: "SubtreeMessages ascii_fold ''a'' small_index = Inr ms"
    and eq: "mset (all_messages small_index) = mset ms + mset (all_messages (snd (DeleteDir ''a'' small_index)))"
    using SubtreeMessages_partition [OF small_index_inv _ small_index_alone] by (auto simp: small_index_def mk_defs)
  have "mset (map m_MsgID (all_messages small_index)) = {#1, 2, 3, 4#}"
    by (simp add: all_messages_def small_index_def mk_defs dir_messages_def file_messages_def)
  moreover have "map m_MsgID (all_messages (snd (DeleteDir ''a'' small_index))) = [2]"
    by (simp add: all_messages_def small_index_def mk_defs dir_messages_def file_messages_def DeleteDir_def
      dir_exists_def subtree_ids_def Let_def delete_files_def)
  ultimately have "{#1, 2, 3, 4#} = mset (map m_MsgID ms) + {#2#}"
    using eq by (metis image_mset_union mset_map mset_single_iff_right mset.simps)
  then show ?thesis using ms by (intro exI [of _ ms]) (simp add: add_mset_commute)
qed

text \<open>Replacing the index is all or nothing: on an error the database is what it was; on
success it holds exactly the given folders, files and segments in order, with owners that no longer
exist cleared, users and channels untouched, and a well-formed tree gives a well-formed index.\<close>

theorem ReplaceIndex_all_or_nothing:
  "case ReplaceIndex dirs fs segs d of
     (Inl e, d') \<Rightarrow> d' = d
   | (Inr _, d') \<Rightarrow> db_dirs d' = map (fresh_dir d) dirs \<and> db_files d' = map (fresh_file d) fs \<and>
       db_segments d' = segs \<and> db_users d' = db_users d \<and> db_channels d' = db_channels d \<and>
       (\<not> tree_inv dirs \<or> index_inv d')"
proof -
  obtain x d' where i: "ReplaceIndex dirs fs segs d = (x, d')" by fastforce
  show ?thesis
  proof (cases x)
    case (Inl e)
    then have "d' = d" using ReplaceIndex_error [of dirs fs segs d e] i by simp
    then show ?thesis using i Inl by simp
  next
    case (Inr u)
    then show ?thesis using i ReplaceIndex_rows [of dirs fs segs d d'] ReplaceIndex_inv [of dirs fs segs d d'] by auto
  qed
qed

theorem ReplaceIndex_all_or_nothing_witness:
  "\<exists>d'. ReplaceIndex [mk_dir ''a'' [] ''films'' ''/films'' 1] [mk_file ''f'' ''a'' ''x.mkv''] [mk_segment ''f'' 1 4]
       small_index = (Inr (), d') \<and> index_inv d' \<and> length (db_dirs d') = 1"
proof -
  let ?dirs = "[mk_dir ''a'' [] ''films'' ''/films'' 1]"
  let ?r = "ReplaceIndex ?dirs [mk_file ''f'' ''a'' ''x.mkv''] [mk_segment ''f'' 1 4] small_index"
  have "tree_inv ?dirs"
    by (simp add: tree_inv_def mk_defs parent_ok_def Root_def dir_name_ascii plain_def)
  moreover have "fst ?r = Inr ()"
    by (simp add: ReplaceIndex_def Tx_def InsertDir_def InsertFile_def insert_segment_def small_index_def mk_defs
      owner_of_def delete_files_def dir_exists_def file_exists_def Let_def)
  then obtain d' where "?r = (Inr (), d')" by (cases ?r) auto
  ultimately show ?thesis
    using ReplaceIndex_all_or_nothing [where d = small_index and dirs = ?dirs
      and fs = "[mk_file ''f'' ''a'' ''x.mkv'']" and segs = "[mk_segment ''f'' 1 4]"]
    by (intro exI [of _ d']) auto
qed

section \<open>What the case-insensitive \<open>LIKE\<close> does\<close>

text \<open>Before a folder is deleted, the messages to erase are collected with a case-insensitive
\<open>LIKE\<close>; the deletion itself follows the parents.  A folder below a sibling whose name differs only
in ASCII case is therefore kept in the index while its message is handed over for deletion.\<close>

theorem SubtreeMessages_hits_sibling:
  assumes "index_inv d" and "r \<in> set (db_dirs d)" and "x \<in> set (db_dirs d)"
    and "below_like ascii_fold (d_Path r) (d_Path x)" and "\<not> within r x" and "0 < d_TGMsgID x"
  shows "\<exists>ms d'. SubtreeMessages ascii_fold (d_ID r) d = Inr ms \<and> DeleteDir (d_ID r) d = (Inr (), d') \<and>
     \<lparr>m_ChannelID = d_ChannelID x, m_MsgID = d_TGMsgID x\<rparr> \<in> set ms \<and> x \<in> set (db_dirs d')"
proof -
  have t: "tree_inv (db_dirs d)" using assms(1) by (simp add: index_inv_def)
  obtain ms where "SubtreeMessages ascii_fold (d_ID r) d = Inr ms"
    "\<lparr>m_ChannelID = d_ChannelID x, m_MsgID = d_TGMsgID x\<rparr> \<in> set ms"
    using assms(3,4,6) by (auto simp: SubtreeMessages_def query_dir [OF t assms(2)] Let_def dir_messages_def)
  then show ?thesis using DeleteDir_exactly [OF assms(1,2)] assms(3,5) by blast
qed

definition cased_index :: db where
  "cased_index = empty_db\<lparr>db_dirs := [mk_dir ''a'' [] ''M'' ''/M'' 1, mk_dir ''b'' [] ''m'' ''/m'' 2,
     mk_dir ''c'' ''b'' ''x'' ''/m/x'' 3]\<rparr>"

lemma cased_index_inv: "index_inv cased_index"
  by (simp add: index_inv_def tree_inv_def files_inv_def cased_index_def mk_defs parent_ok_def Root_def
    dir_name_ascii plain_def)

lemma cased_like:
  "below_like ascii_fold ''/M'' ''/m/x''" "\<not> below_like ascii_fold ''/M'' ''/F''" "\<not> below_like ascii_fold ''/M'' ''/m''"
  by (simp_all add: below_like_def runes_def chunks_ascii ascii_fold_def like.simps)

theorem SubtreeMessages_hits_sibling_witness:
  "\<exists>ms d'. SubtreeMessages ascii_fold ''a'' cased_index = Inr ms \<and> DeleteDir ''a'' cased_index = (Inr (), d') \<and>
     \<lparr>m_ChannelID = [], m_MsgID = 3\<rparr> \<in> set ms \<and> mk_dir ''c'' ''b'' ''x'' ''/m/x'' 3 \<in> set (db_dirs d')"
  using SubtreeMessages_hits_sibling [OF cased_index_inv, of "mk_dir ''a'' [] ''M'' ''/M'' 1"
      "mk_dir ''c'' ''b'' ''x'' ''/m/x'' 3"] cased_like(1)
  by (simp add: cased_index_def mk_defs)

text \<open>Renaming \<open>/M\<close> to \<open>/F\<close> while a folder \<open>/m\<close> exists also rewrites the path of \<open>/m/x\<close>: it
becomes \<open>/F/x\<close> although its parent is still \<open>/m\<close>, and the tree is no longer well formed.\<close>

theorem RenameDir_drags_sibling:
  "index_inv cased_index \<and> (\<exists>d'. RenameDir ascii_fold ''a'' ''F'' ''/F'' cased_index = (Inr (), d') \<and>
     map d_Path (db_dirs d') = [''/F'', ''/m'', ''/F/x''] \<and> \<not> index_inv d')"
proof -
  have cut: "reroot ''/M'' ''/F'' ''/m/x'' = ''/F/x''"
    by (simp add: reroot_def runes_from_def prefixCut_def runes_def chunks_ascii)
  have "RenameDir ascii_fold ''a'' ''F'' ''/F'' cased_index =
      (Inr (), cased_index\<lparr>db_dirs := [mk_dir ''a'' [] ''F'' ''/F'' 1, mk_dir ''b'' [] ''m'' ''/m'' 2,
         mk_dir ''c'' ''b'' ''x'' ''/F/x'' 3]\<rparr>)"
    by (simp add: RenameDir_def Tx_def DirByID_def query_row_def update_where_def rewrite_descendants_def
      cased_index_def mk_defs cased_like cut)
  moreover have "\<not> tree_inv [mk_dir ''a'' [] ''F'' ''/F'' 1, mk_dir ''b'' [] ''m'' ''/m'' 2,
      mk_dir ''c'' ''b'' ''x'' ''/F/x'' 3]"
    by (simp add: tree_inv_def parent_ok_def mk_defs)
  ultimately show ?thesis using cased_index_inv unfolding index_inv_def
    by (intro conjI exI) (assumption | simp add: mk_dir_def)+
qed

end
