(* ===== verification/DriveState.thy ===== *)
theory DriveState
  imports TreeProps TagCodec PathProps "HOL-Library.AList"
begin

text \<open>
  The state of the drive service (\<open>internal/drive/drive.go\<close>, \<open>backend.go\<close>, \<open>plugins.go\<close>, the
  reference cache of \<open>source.go\<close>) and the shape of its operations: a state transformer that ends
  in an error or a value.  The Telegram side is a parameter: an \<open>account\<close> is the record of the
  calls the service makes on one, over a state \<open>'t\<close> of the channel.  Plugin hooks are a parameter
  too: a hook may rewrite a request or reject it.
\<close>

section \<open>Errors and operations\<close>

datatype drive_error =
    EPath path_error | EDb db_error | ECodec codec_error | ETelegram string | EHook string
  | ENotFound | EExists | ELoop | ERoot | ENoChannel | ENoAccount | EQuota | ESize | EFinished
  | ESegment | EMissing | EStatus | ESource string

type_synonym ('s, 'a) op = "'s \<Rightarrow> (drive_error + 'a) \<times> 's"

definition op_bind :: "('s, 'a) op \<Rightarrow> ('a \<Rightarrow> ('s, 'b) op) \<Rightarrow> ('s, 'b) op" where
  "op_bind m f s = (case m s of (Inl e, s') \<Rightarrow> (Inl e, s') | (Inr x, s') \<Rightarrow> f x s')"

definition ret :: "'a \<Rightarrow> ('s, 'a) op" where
  "ret x s = (Inr x, s)"

definition fail :: "drive_error \<Rightarrow> ('s, 'a) op" where
  "fail e s = (Inl e, s)"

definition lift :: "('e \<Rightarrow> drive_error) \<Rightarrow> 'e + 'a \<Rightarrow> ('s, 'a) op" where
  "lift h r s = (case r of Inl e \<Rightarrow> (Inl (h e), s) | Inr x \<Rightarrow> (Inr x, s))"

text \<open>What an error does not stop: \<open>attempt\<close> runs an operation and returns its outcome as a value.\<close>

definition attempt :: "('s, 'a) op \<Rightarrow> ('s, drive_error + 'a) op" where
  "attempt m s = (case m s of (r, s') \<Rightarrow> (Inr r, s'))"

lemma op_bind_simps [simp]:
  "op_bind (ret x) f = f x" "op_bind (fail e) f = fail e"
  by (simp_all add: fun_eq_iff op_bind_def ret_def fail_def)

lemma op_bind_Inr: "m s = (Inr x, s') \<Longrightarrow> op_bind m f s = f x s'"
  and op_bind_Inl: "m s = (Inl e, s') \<Longrightarrow> op_bind m f s = (Inl e, s')"
  by (simp_all add: op_bind_def)

lemma op_bind_cases:
  assumes "op_bind m f s = (r, s'')"
  obtains (err) e where "m s = (Inl e, s'')" "r = Inl e"
    | (val) x s' where "m s = (Inr x, s')" "f x s' = (r, s'')"
  using assms by (cases "m s" rule: prod.exhaust; cases "fst (m s)") (auto simp: op_bind_def)

lemma lift_simps [simp]: "lift h (Inr x) = ret x" "lift h (Inl e) = fail (h e)"
  by (simp_all add: fun_eq_iff lift_def ret_def fail_def)

section \<open>Accounts of Telegram\<close>

record ChannelRef =
  cr_ChannelID :: string
  cr_TGID :: int
  cr_AccessHash :: int

record StoredDoc =
  sd_MsgID :: int
  sd_DocID :: int
  sd_AccessHash :: int
  sd_DCID :: int
  sd_FileReference :: string
  sd_Size :: int

record 'b UploadSpec =
  us_Name :: string
  us_MIME :: string
  us_Caption :: string
  us_Body :: "'b list"
  us_Size :: int

record ('t, 'b) account =
  ac_ID :: string
  ac_Available :: "'t \<Rightarrow> bool"
  ac_ChannelRef :: "string \<Rightarrow> 't \<Rightarrow> string + ChannelRef"
  ac_SendRecord :: "ChannelRef \<Rightarrow> string \<Rightarrow> 't \<Rightarrow> (string + int) \<times> 't"
  ac_EditRecord :: "ChannelRef \<Rightarrow> int \<Rightarrow> string \<Rightarrow> 't \<Rightarrow> (string + unit) \<times> 't"
  ac_DeleteRecords :: "ChannelRef \<Rightarrow> int list \<Rightarrow> 't \<Rightarrow> (string + unit) \<times> 't"
  ac_Upload :: "ChannelRef \<Rightarrow> 'b UploadSpec \<Rightarrow> 't \<Rightarrow> (string + StoredDoc) \<times> 't"

section \<open>The service\<close>

record refEntry =
  re_ref :: string
  re_dc :: int
  re_accessHash :: int
  re_expires :: int

text \<open>An upload about to start (\<open>UploadRequest\<close> of \<open>upload.go\<close>).\<close>

record UploadRequest =
  uq_DirPath :: string
  uq_Name :: string
  uq_Size :: int
  uq_MIME :: string
  uq_UserID :: string
  uq_Source :: string
  uq_SourceURL :: string
  uq_Overwrite :: bool

text \<open>Hooks before an operation: the request they leave, or their refusal.\<close>

record hooks =
  hk_path :: "string \<Rightarrow> string \<Rightarrow> drive_error + string"
  hk_rename :: "string \<times> string \<Rightarrow> drive_error + string \<times> string"
  hk_move :: "string \<times> string \<Rightarrow> drive_error + string \<times> string"
  hk_begin :: "UploadRequest \<Rightarrow> drive_error + UploadRequest"
  hk_segment :: "string \<times> int \<times> int \<Rightarrow> drive_error + string \<times> int \<times> int"
  hk_abort :: "string \<times> string \<times> JobStatus \<Rightarrow> drive_error + string \<times> string \<times> JobStatus"

text \<open>
  What the service is given: the accounts of the cluster in primary-first order, the identifiers
  \<open>NewID\<close> will produce, the Unicode tables, the case folding of \<open>LIKE\<close>, the configured segment
  size, the MIME table of the platform, the texts of errors, and the plugins.
\<close>

record ('t, 'b) env =
  en_accounts :: "'t \<Rightarrow> ('t, 'b) account list"
  en_newID :: "nat \<Rightarrow> string"
  en_letter :: "nat \<Rightarrow> bool"
  en_digit :: "nat \<Rightarrow> bool"
  en_lower :: "nat \<Rightarrow> nat"
  en_fold :: "nat \<Rightarrow> nat"
  en_segmentSize :: int
  en_mime :: "string \<Rightarrow> string"
  en_text :: "drive_error \<Rightarrow> string"
  en_hooks :: hooks

text \<open>The part of a browser upload's lease (theory \<open>Leases\<close>) that the upload path looks at.\<close>

record ('t, 'b) uploadLease =
  ul_account :: "('t, 'b) account option"
  ul_active :: nat
  ul_closed :: bool

record ('t, 'b) drive =
  dv_db :: db
  dv_tg :: 't
  dv_seq :: nat
  dv_refs :: "(string \<times> refEntry) list"
  dv_uploadJobs :: "(string \<times> ('t, 'b) uploadLease) list"
  dv_jobAccounts :: "(string \<times> ('t, 'b) account) list"

definition no_hooks :: hooks where
  "no_hooks = \<lparr>hk_path = (\<lambda>_. Inr), hk_rename = Inr, hk_move = Inr, hk_begin = Inr, hk_segment = Inr, hk_abort = Inr\<rparr>"

text \<open>A database call, a Telegram call, a fresh identifier.\<close>

definition query :: "(db \<Rightarrow> db_error + 'a) \<Rightarrow> (('t, 'b) drive, 'a) op" where
  "query q s = lift EDb (q (dv_db s)) s"

definition exec :: "'a db_op \<Rightarrow> (('t, 'b) drive, 'a) op" where
  "exec q s = (case q (dv_db s) of (r, d) \<Rightarrow> lift EDb r (s\<lparr>dv_db := d\<rparr>))"

definition tg_call :: "('t \<Rightarrow> (string + 'a) \<times> 't) \<Rightarrow> (('t, 'b) drive, 'a) op" where
  "tg_call c s = (case c (dv_tg s) of (r, t) \<Rightarrow> lift ETelegram r (s\<lparr>dv_tg := t\<rparr>))"

definition NewID :: "('t, 'b) env \<Rightarrow> (('t, 'b) drive, string) op" where
  "NewID env s = (Inr (en_newID env (dv_seq s)), s\<lparr>dv_seq := dv_seq s + 1\<rparr>)"

section \<open>Channels and accounts\<close>

definition ChannelByID :: "string \<Rightarrow> db \<Rightarrow> db_error + Channel" where
  "ChannelByID cid d = query_row (\<lambda>c. c_ID c = cid) (db_channels d)"

definition DefaultChannel :: "db \<Rightarrow> db_error + Channel" where
  "DefaultChannel d = query_row c_IsDefault (db_channels d)"

definition SetDefaultChannel :: "string \<Rightarrow> unit db_op" where
  "SetDefaultChannel cid = Tx (\<lambda>d.
     let cs = map (\<lambda>c. c\<lparr>c_IsDefault := False\<rparr>) (db_channels d)
     in (affectedOne (\<lambda>c. c_ID c = cid) cs,
         d\<lparr>db_channels := update_where (\<lambda>c. c_ID c = cid) (\<lambda>c. c\<lparr>c_IsDefault := True\<rparr>) cs\<rparr>))"

definition storageChannel :: "db \<Rightarrow> drive_error + Channel" where
  "storageChannel d =
     (case DefaultChannel d of
        Inl e \<Rightarrow> (if e = ErrNotFound then Inl ENoChannel else Inl (EDb e))
      | Inr c \<Rightarrow> Inr c)"

definition channelFor :: "string \<Rightarrow> db \<Rightarrow> drive_error + Channel" where
  "channelFor cid d =
     (if cid \<noteq> [] then
        (case ChannelByID cid d of
           Inr c \<Rightarrow> Inr c
         | Inl e \<Rightarrow> if e \<noteq> ErrNotFound then Inl (EDb e) else storageChannel d)
      else storageChannel d)"

definition metaAccount :: "('t, 'b) env \<Rightarrow> (('t, 'b) drive, ('t, 'b) account) op" where
  "metaAccount env s =
     (case en_accounts env (dv_tg s) of [] \<Rightarrow> (Inl ENoAccount, s) | a # _ \<Rightarrow> (Inr a, s))"

definition channelRef :: "('t, 'b) account \<Rightarrow> Channel \<Rightarrow> (('t, 'b) drive, ChannelRef) op" where
  "channelRef a ch s = lift ETelegram (ac_ChannelRef a (c_ID ch) (dv_tg s)) s"

definition with_db :: "(db \<Rightarrow> drive_error + 'a) \<Rightarrow> (('t, 'b) drive, 'a) op" where
  "with_db q s = lift (\<lambda>e. e) (q (dv_db s)) s"

section \<open>The reference cache\<close>

definition refKey :: "string \<Rightarrow> int \<Rightarrow> string \<Rightarrow> string" where
  "refKey fileID idx accountID = fileID @ '':'' @ show_int idx @ ''|'' @ accountID"

definition refs_get :: "int \<Rightarrow> string \<Rightarrow> (string \<times> refEntry) list \<Rightarrow> refEntry option" where
  "refs_get now key es =
     (case map_of es key of
        None \<Rightarrow> None
      | Some e \<Rightarrow> if re_expires e < now then None else Some e)"

definition refs_put ::
  "int \<Rightarrow> int \<Rightarrow> string \<Rightarrow> string \<Rightarrow> int \<Rightarrow> int \<Rightarrow> (string \<times> refEntry) list \<Rightarrow> (string \<times> refEntry) list" where
  "refs_put ttl now key ref dc ah es =
     AList.update key \<lparr>re_ref = ref, re_dc = dc, re_accessHash = ah, re_expires = now + ttl\<rparr> es"

definition refs_drop :: "string \<Rightarrow> (string \<times> refEntry) list \<Rightarrow> (string \<times> refEntry) list" where
  "refs_drop key es = filter (\<lambda>(k, _). k \<noteq> key) es"

definition refs_Forget :: "string \<Rightarrow> (string \<times> refEntry) list \<Rightarrow> (string \<times> refEntry) list" where
  "refs_Forget fileID es = filter (\<lambda>(k, _). \<not> prefix (fileID @ '':'') k) es"

definition forget_refs :: "string \<Rightarrow> (('t, 'b) drive, unit) op" where
  "forget_refs fileID s = (Inr (), s\<lparr>dv_refs := refs_Forget fileID (dv_refs s)\<rparr>)"

section \<open>Triples\<close>

text \<open>\<open>P\<close> before gives \<open>Q\<close> of the value after a success and \<open>E\<close> after an error.\<close>

definition triple :: "('s \<Rightarrow> bool) \<Rightarrow> ('s, 'a) op \<Rightarrow> ('a \<Rightarrow> 's \<Rightarrow> bool) \<Rightarrow> ('s \<Rightarrow> bool) \<Rightarrow> bool" where
  "triple P m Q E \<longleftrightarrow> (\<forall>s. P s \<longrightarrow> (case m s of (Inl e, s') \<Rightarrow> E s' | (Inr x, s') \<Rightarrow> Q x s'))"

named_theorems triples

lemma tripleI:
  "\<lbrakk>\<And>s e s'. \<lbrakk>P s; m s = (Inl e, s')\<rbrakk> \<Longrightarrow> E s'; \<And>s x s'. \<lbrakk>P s; m s = (Inr x, s')\<rbrakk> \<Longrightarrow> Q x s'\<rbrakk> \<Longrightarrow> triple P m Q E"
  by (auto simp: triple_def split: prod.split sum.split)

lemma tripleD: "\<lbrakk>triple P m Q E; P s; m s = (Inr x, s')\<rbrakk> \<Longrightarrow> Q x s'"
  and tripleD_error: "\<lbrakk>triple P m Q E; P s; m s = (Inl e, s')\<rbrakk> \<Longrightarrow> E s'"
  by (fastforce simp: triple_def)+

lemma triple_bind [triples]:
  "\<lbrakk>triple P m R E; \<And>x. triple (R x) (f x) Q E\<rbrakk> \<Longrightarrow> triple P (op_bind m f) Q E"
  by (fastforce simp: triple_def op_bind_def split: prod.splits sum.splits)

lemma triple_conseq:
  "\<lbrakk>triple P' m Q' E'; \<And>s. P s \<Longrightarrow> P' s; \<And>x s. Q' x s \<Longrightarrow> Q x s; \<And>s. E' s \<Longrightarrow> E s\<rbrakk> \<Longrightarrow> triple P m Q E"
  by (fastforce simp: triple_def split: prod.splits sum.splits)

lemma triple_ret [triples]: "(\<And>s. P s \<Longrightarrow> Q x s) \<Longrightarrow> triple P (ret x) Q E"
  and triple_fail [triples]: "(\<And>s. P s \<Longrightarrow> E s) \<Longrightarrow> triple P (fail e) Q E"
  by (simp_all add: triple_def ret_def fail_def)

lemma triple_lift [triples]:
  "\<lbrakk>\<And>s x. \<lbrakk>P s; r = Inr x\<rbrakk> \<Longrightarrow> Q x s; \<And>s. P s \<Longrightarrow> E s\<rbrakk> \<Longrightarrow> triple P (lift h r) Q E"
  by (cases r) (simp_all add: triple_ret triple_fail)

lemma triple_with_db [triples]:
  "\<lbrakk>\<And>s x. \<lbrakk>P s; q (dv_db s) = Inr x\<rbrakk> \<Longrightarrow> Q x s; \<And>s. P s \<Longrightarrow> E s\<rbrakk> \<Longrightarrow> triple P (with_db q) Q E"
  by (auto simp: triple_def with_db_def lift_def split: sum.split)

lemma triple_query [triples]:
  "\<lbrakk>\<And>s x. \<lbrakk>P s; q (dv_db s) = Inr x\<rbrakk> \<Longrightarrow> Q x s; \<And>s. P s \<Longrightarrow> E s\<rbrakk> \<Longrightarrow> triple P (query q) Q E"
  by (auto simp: triple_def query_def lift_def split: sum.split)

lemma triple_exec [triples]:
  "\<lbrakk>\<And>s x d. \<lbrakk>P s; q (dv_db s) = (Inr x, d)\<rbrakk> \<Longrightarrow> Q x (s\<lparr>dv_db := d\<rparr>);
    \<And>s e d. \<lbrakk>P s; q (dv_db s) = (Inl e, d)\<rbrakk> \<Longrightarrow> E (s\<lparr>dv_db := d\<rparr>)\<rbrakk> \<Longrightarrow> triple P (exec q) Q E"
  by (auto simp: triple_def exec_def lift_def split: prod.split sum.split)

lemma triple_tg_call [triples]:
  "\<lbrakk>\<And>s x t. \<lbrakk>P s; c (dv_tg s) = (Inr x, t)\<rbrakk> \<Longrightarrow> Q x (s\<lparr>dv_tg := t\<rparr>);
    \<And>s e t. \<lbrakk>P s; c (dv_tg s) = (Inl e, t)\<rbrakk> \<Longrightarrow> E (s\<lparr>dv_tg := t\<rparr>)\<rbrakk> \<Longrightarrow> triple P (tg_call c) Q E"
  by (auto simp: triple_def tg_call_def lift_def split: prod.split sum.split)

lemma triple_NewID [triples]: "(\<And>s. P s \<Longrightarrow> Q (en_newID env (dv_seq s)) (s\<lparr>dv_seq := dv_seq s + 1\<rparr>)) \<Longrightarrow> triple P (NewID env) Q E"
  by (simp add: triple_def NewID_def)

lemma triple_attempt [triples]:
  "\<lbrakk>triple P m (\<lambda>x s. Q (Inr x) s) E'; \<And>e s. E' s \<Longrightarrow> Q (Inl e) s\<rbrakk> \<Longrightarrow> triple P (attempt m) Q E"
proof (rule tripleI)
  assume m: "triple P m (\<lambda>x s. Q (Inr x) s) E'" and E: "\<And>e s. E' s \<Longrightarrow> Q (Inl e) s"
  fix s y s' assume "P s" "attempt m s = (Inr y, s')"
  then show "Q y s'"
    using tripleD [OF m \<open>P s\<close>] tripleD_error [OF m \<open>P s\<close>] E
    by (cases y) (auto simp: attempt_def split: prod.splits)
qed (simp add: attempt_def split: prod.splits)

lemma triple_metaAccount [triples]:
  "\<lbrakk>\<And>s a. \<lbrakk>P s; a \<in> set (en_accounts env (dv_tg s))\<rbrakk> \<Longrightarrow> Q a s; \<And>s. P s \<Longrightarrow> E s\<rbrakk> \<Longrightarrow> triple P (metaAccount env) Q E"
  by (auto simp: triple_def metaAccount_def split: list.split)

lemma triple_channelRef [triples]:
  "\<lbrakk>\<And>s r. \<lbrakk>P s; ac_ChannelRef a (c_ID ch) (dv_tg s) = Inr r\<rbrakk> \<Longrightarrow> Q r s; \<And>s. P s \<Longrightarrow> E s\<rbrakk> \<Longrightarrow>
    triple P (channelRef a ch) Q E"
  by (auto simp: triple_def channelRef_def lift_def split: sum.split)

lemma triple_forget [triples]:
  "(\<And>s. P s \<Longrightarrow> Q () (s\<lparr>dv_refs := refs_Forget fid (dv_refs s)\<rparr>)) \<Longrightarrow> triple P (forget_refs fid) Q E"
  by (simp add: triple_def forget_refs_def)

text \<open>An invariant of the database that an operation keeps whatever its outcome.\<close>

abbreviation keeps :: "(('t, 'b) drive \<Rightarrow> bool) \<Rightarrow> (('t, 'b) drive, 'a) op \<Rightarrow> bool" where
  "keeps I m \<equiv> triple I m (\<lambda>_. I) I"

lemma keeps_iff: "keeps I m \<longleftrightarrow> (\<forall>s. I s \<longrightarrow> I (snd (m s)))"
proof -
  have "(case m s of (Inl e, s') \<Rightarrow> I s' | (Inr x, s') \<Rightarrow> I s') = I (snd (m s))" for s
    by (simp split: prod.split sum.split)
  then show ?thesis by (simp add: triple_def)
qed

lemma keepsD: "\<lbrakk>keeps I m; I s\<rbrakk> \<Longrightarrow> I (snd (m s))"
  by (simp add: keeps_iff)

end
