(* ===== verification/DriveTree.thy ===== *)
theory DriveTree
  imports DriveState
begin

text \<open>
  The tree operations of the drive service: resolving, listing and creating directories
  (\<open>internal/drive/drive.go\<close>), and renaming, moving and deleting (\<open>internal/drive/ops.go\<close>), with
  the order in which they write Telegram and the index.  Logging is left out.  The background
  refresh of captions is the operation \<open>refreshSubtreeCaptions\<close>, which runs after its caller.
\<close>

section \<open>Resolving and listing\<close>

definition before_path :: "('t, 'b) env \<Rightarrow> string \<Rightarrow> string \<Rightarrow> (('t, 'b) drive, string) op" where
  "before_path env nm p = lift (\<lambda>e. e) (hk_path (en_hooks env) nm p)"

definition clean_op :: "string \<Rightarrow> ('s, string) op" where
  "clean_op p = lift EPath (CleanPath p)"

definition root_dir :: Dir where
  "root_dir = \<lparr>d_ID = [], d_ParentID = [], d_Name = [], d_Path = Root, d_ChannelID = [], d_TGMsgID = 0,
     d_CreatedAt = 0, d_UpdatedAt = 0, d_OwnerID = []\<rparr>"

definition resolve_dir :: "string \<Rightarrow> db \<Rightarrow> drive_error + Dir" where
  "resolve_dir p d =
     (case CleanPath p of
        Inl e \<Rightarrow> Inl (EPath e)
      | Inr clean \<Rightarrow>
          if clean = Root then Inr root_dir
          else case DirByPath clean d of
              Inl e \<Rightarrow> (if e = ErrNotFound then Inl ENotFound else Inl (EDb e))
            | Inr r \<Rightarrow> Inr r)"

definition ResolveDir :: "string \<Rightarrow> (('t, 'b) drive, Dir) op" where
  "ResolveDir p = with_db (resolve_dir p)"

definition dirEntry :: "Dir \<Rightarrow> Entry" where
  "dirEntry r = \<lparr>e_Name = d_Name r, e_Path = d_Path r, e_IsDir = True, e_Size = 0, e_MIME = [], e_ID = d_ID r,
     e_SegmentCount = 0, e_Status = [], e_ModifiedAt = d_UpdatedAt r, e_CreatedAt = d_CreatedAt r\<rparr>"

definition status_string :: "FileStatus \<Rightarrow> string" where
  "status_string st = (case st of StatusPending \<Rightarrow> ''pending'' | StatusComplete \<Rightarrow> ''complete'' | StatusBroken \<Rightarrow> ''broken'')"

definition fileEntry :: "FileRow \<Rightarrow> string \<Rightarrow> Entry" where
  "fileEntry f path = \<lparr>e_Name = f_Name f, e_Path = path, e_IsDir = False, e_Size = f_Size f, e_MIME = f_MIME f,
     e_ID = f_ID f, e_SegmentCount = f_SegmentCount f, e_Status = status_string (f_Status f),
     e_ModifiedAt = f_UpdatedAt f, e_CreatedAt = f_CreatedAt f\<rparr>"

definition stat_clean :: "string \<Rightarrow> db \<Rightarrow> drive_error + Entry" where
  "stat_clean clean d =
     (if clean = Root then Inr (dirEntry root_dir)
      else case DirByPath clean d of
        Inr r \<Rightarrow> Inr (dirEntry r)
      | Inl e \<Rightarrow>
          if e \<noteq> ErrNotFound then Inl (EDb e)
          else
            let (parentPath, name) = Parent clean in
            go_bind (resolve_dir parentPath d) (\<lambda>parent.
              case FileInDir (d_ID parent) name d of
                Inl e \<Rightarrow> (if e = ErrNotFound then Inl ENotFound else Inl (EDb e))
              | Inr f \<Rightarrow>
                  if f_Status f = StatusPending then Inl ENotFound
                  else Inr (fileEntry f clean)))"

definition Stat :: "('t, 'b) env \<Rightarrow> string \<Rightarrow> (('t, 'b) drive, Entry) op" where
  "Stat env p0 =
     op_bind (before_path env ''files.stat'' p0) (\<lambda>p.
     op_bind (clean_op p) (\<lambda>clean. with_db (stat_clean clean)))"

definition list_dir :: "Dir \<Rightarrow> db \<Rightarrow> Entry list" where
  "list_dir dir d =
     (let sizes = map_of (SubtreeSizes (d_ID dir) d);
          base = (if d_Path dir = [] then Root else d_Path dir)
      in map (\<lambda>r. (dirEntry r)\<lparr>e_Size := (case sizes (d_ID r) of None \<Rightarrow> 0 | Some n \<Rightarrow> n)\<rparr>) (ListDirs (d_ID dir) d)
         @ map (\<lambda>f. fileEntry f (Join base (f_Name f))) (ListFiles (d_ID dir) d))"

definition List :: "('t, 'b) env \<Rightarrow> string \<Rightarrow> (('t, 'b) drive, Entry list) op" where
  "List env p0 =
     op_bind (before_path env ''files.list'' p0) (\<lambda>p.
     op_bind (ResolveDir p) (\<lambda>dir. with_db (\<lambda>d. Inr (list_dir dir d))))"

section \<open>Creating directories\<close>

text \<open>Telegram first, then the index; if the index refuses, the message is taken out again.\<close>

definition insert_dir_op ::
  "('t, 'b) account \<Rightarrow> ChannelRef \<Rightarrow> Dir \<Rightarrow> (('t, 'b) drive, Dir) op" where
  "insert_dir_op a ref dir s =
     (case exec (InsertDir dir) s of
        (Inr _, s') \<Rightarrow> (Inr dir, s')
      | (Inl e, s') \<Rightarrow>
          op_bind (attempt (tg_call (ac_DeleteRecords a ref [d_TGMsgID dir])))
            (\<lambda>_. if e = EDb ErrConflict then fail EExists else fail e) s')"

definition createDir ::
  "('t, 'b) env \<Rightarrow> string \<Rightarrow> string \<Rightarrow> string \<Rightarrow> (('t, 'b) drive, Dir) op" where
  "createDir env parentID name path =
     op_bind (with_db storageChannel) (\<lambda>channel.
     op_bind (NewID env) (\<lambda>i.
     op_bind (lift ECodec (EncodeDir i parentID name path)) (\<lambda>caption.
     op_bind (metaAccount env) (\<lambda>account.
     op_bind (channelRef account channel) (\<lambda>ref.
     op_bind (tg_call (ac_SendRecord account ref caption)) (\<lambda>msgID.
       insert_dir_op account ref
         \<lparr>d_ID = i, d_ParentID = parentID, d_Name = name, d_Path = path, d_ChannelID = c_ID channel,
          d_TGMsgID = msgID, d_CreatedAt = 0, d_UpdatedAt = 0, d_OwnerID = []\<rparr>))))))"

definition mkdir_step ::
  "('t, 'b) env \<Rightarrow> string \<Rightarrow> string \<Rightarrow> string \<Rightarrow> (('t, 'b) drive, Dir) op" where
  "mkdir_step env parentID name childPath s =
     (case DirByPath childPath (dv_db s) of
        Inr existing \<Rightarrow> ret existing s
      | Inl e \<Rightarrow>
          if e \<noteq> ErrNotFound then fail (EDb e) s
          else case FileInDir parentID name (dv_db s) of
              Inr _ \<Rightarrow> fail EExists s
            | Inl e' \<Rightarrow> if e' \<noteq> ErrNotFound then fail (EDb e') s else createDir env parentID name childPath s)"

fun mkdir_loop ::
  "('t, 'b) env \<Rightarrow> string list \<Rightarrow> string \<Rightarrow> string \<Rightarrow> Dir \<Rightarrow> (('t, 'b) drive, Dir) op" where
  "mkdir_loop env [] parentID parentPath current = ret current"
| "mkdir_loop env (name # names) parentID parentPath current =
     op_bind (mkdir_step env parentID name (Join parentPath name)) (\<lambda>r.
       mkdir_loop env names (d_ID r) (Join parentPath name) r)"

definition mkdir_clean :: "('t, 'b) env \<Rightarrow> string \<Rightarrow> (('t, 'b) drive, Dir) op" where
  "mkdir_clean env clean s =
     (if clean = Root then ret root_dir s
      else case DirByPath clean (dv_db s) of
          Inr existing \<Rightarrow> ret existing s
        | Inl e \<Rightarrow> if e \<noteq> ErrNotFound then fail (EDb e) s else mkdir_loop env (SplitPath clean) [] Root root_dir s)"

definition Mkdir :: "('t, 'b) env \<Rightarrow> string \<Rightarrow> (('t, 'b) drive, Dir) op" where
  "Mkdir env p0 =
     op_bind (before_path env ''files.mkdir'' p0) (\<lambda>p.
     op_bind (clean_op p) (mkdir_clean env))"

definition EnsureScopeRoot :: "('t, 'b) env \<Rightarrow> Scope \<Rightarrow> (('t, 'b) drive, unit) op" where
  "EnsureScopeRoot env scope s =
     (if Unrestricted scope then ret () s
      else case DirByPath (sc_Root scope) (dv_db s) of
          Inr _ \<Rightarrow> ret () s
        | Inl e \<Rightarrow> if e \<noteq> ErrNotFound then fail (EDb e) s
                  else op_bind (Mkdir env (sc_Root scope)) (\<lambda>_. ret ()) s)"

section \<open>Captions\<close>

definition fileCaption :: "('t, 'b) env \<Rightarrow> FileRow \<Rightarrow> int \<Rightarrow> db \<Rightarrow> drive_error + string" where
  "fileCaption env f idx d =
     go_bind (if f_DirID f \<noteq> [] then
                (case DirByID (f_DirID f) d of Inl e \<Rightarrow> Inl (EDb e) | Inr r \<Rightarrow> Inr (d_Path r))
              else Inr Root) (\<lambda>dirPath.
       case EncodeFile (en_letter env) (en_digit env)
           \<lparr>r_Kind = KindFile, r_Version = 0, r_ID = f_ID f, r_ParentID = f_DirID f, r_Name = f_Name f,
            r_SegIndex = idx, r_SegCount = f_SegmentCount f, r_TotalSize = f_Size f,
            r_SegmentSize = f_SegmentSize f, r_OwnerID = f_OwnerID f, r_HumanTags = AncestorNames dirPath\<rparr> of
         Inl e \<Rightarrow> Inl (ECodec e)
       | Inr caption \<Rightarrow> Inr caption)"

definition rewriteDirCaption :: "('t, 'b) env \<Rightarrow> Dir \<Rightarrow> (('t, 'b) drive, unit) op" where
  "rewriteDirCaption env dir =
     (if d_TGMsgID dir = 0 then ret ()
      else
        op_bind (with_db (channelFor (d_ChannelID dir))) (\<lambda>channel.
        op_bind (lift ECodec (EncodeDir (d_ID dir) (d_ParentID dir) (d_Name dir) (d_Path dir))) (\<lambda>caption.
        op_bind (metaAccount env) (\<lambda>account.
        op_bind (channelRef account channel) (\<lambda>ref.
          tg_call (ac_EditRecord account ref (d_TGMsgID dir) caption))))))"

fun edit_captions ::
  "('t, 'b) env \<Rightarrow> ('t, 'b) account \<Rightarrow> ChannelRef \<Rightarrow> FileRow \<Rightarrow> Segment list \<Rightarrow> (('t, 'b) drive, unit) op" where
  "edit_captions env a ref f [] = ret ()"
| "edit_captions env a ref f (g # gs) =
     op_bind (with_db (fileCaption env f (g_Index g))) (\<lambda>caption.
     op_bind (tg_call (ac_EditRecord a ref (g_TGMsgID g) caption)) (\<lambda>_.
       edit_captions env a ref f gs))"

definition rewriteFileCaptions :: "('t, 'b) env \<Rightarrow> FileRow \<Rightarrow> (('t, 'b) drive, unit) op" where
  "rewriteFileCaptions env f =
     op_bind (with_db (\<lambda>d. Inr (Segments (f_ID f) d))) (\<lambda>segs.
       if segs = [] then ret ()
       else
         op_bind (with_db (channelFor (f_ChannelID f))) (\<lambda>channel.
         op_bind (metaAccount env) (\<lambda>account.
         op_bind (channelRef account channel) (\<lambda>ref.
         op_bind (forget_refs (f_ID f)) (\<lambda>_.
           edit_captions env account ref f segs)))))"

fun each_attempt :: "('x \<Rightarrow> ('s, unit) op) \<Rightarrow> 'x list \<Rightarrow> ('s, unit) op" where
  "each_attempt f [] = ret ()"
| "each_attempt f (x # xs) = op_bind (attempt (f x)) (\<lambda>_. each_attempt f xs)"

definition refreshSubtreeCaptions :: "('t, 'b) env \<Rightarrow> Dir \<Rightarrow> (('t, 'b) drive, unit) op" where
  "refreshSubtreeCaptions env dir =
     op_bind (with_db (\<lambda>d. Inr (AllDirs d))) (\<lambda>dirs.
       each_attempt (\<lambda>r.
         op_bind (with_db (\<lambda>d. Inr (ListFiles (d_ID r) d))) (\<lambda>fs. each_attempt (rewriteFileCaptions env) fs))
         (filter (\<lambda>r. d_ID r = d_ID dir \<or> IsDescendant (d_Path dir) (d_Path r)) dirs))"

section \<open>Rename and move\<close>

definition check_free :: "string \<Rightarrow> string \<Rightarrow> db \<Rightarrow> drive_error + unit" where
  "check_free dirID name d =
     (case DirChild dirID name d of
        Inr _ \<Rightarrow> Inl EExists
      | Inl e \<Rightarrow>
          if e \<noteq> ErrNotFound then Inl (EDb e)
          else case FileInDir dirID name d of
              Inr _ \<Rightarrow> Inl EExists
            | Inl e' \<Rightarrow> if e' \<noteq> ErrNotFound then Inl (EDb e') else Inr ())"

definition on_conflict :: "(('t, 'b) drive, 'a) op \<Rightarrow> (('t, 'b) drive, 'a) op" where
  "on_conflict m s =
     (case m s of
        (Inl e, s') \<Rightarrow> (Inl (if e = EDb ErrConflict then EExists else e), s')
      | (Inr x, s') \<Rightarrow> (Inr x, s'))"

text \<open>After the index holds the new place: the directory's caption, then those of its files.\<close>

definition captions_after ::
  "('t, 'b) env \<Rightarrow> Dir \<Rightarrow> (('t, 'b) drive, Entry) op" where
  "captions_after env updated =
     op_bind (attempt (rewriteDirCaption env updated)) (\<lambda>_.
     op_bind (attempt (refreshSubtreeCaptions env updated)) (\<lambda>_. ret (dirEntry updated)))"

definition renameDir :: "('t, 'b) env \<Rightarrow> Dir \<Rightarrow> string \<Rightarrow> string \<Rightarrow> (('t, 'b) drive, Entry) op" where
  "renameDir env dir newName newPath =
     op_bind (on_conflict (exec (RenameDir (en_fold env) (d_ID dir) newName newPath))) (\<lambda>_.
     op_bind (query (DirByID (d_ID dir))) (captions_after env))"

definition renameFile :: "('t, 'b) env \<Rightarrow> FileRow \<Rightarrow> string \<Rightarrow> string \<Rightarrow> (('t, 'b) drive, Entry) op" where
  "renameFile env f newName dirPath =
     op_bind (on_conflict (exec (RenameFile (f_ID f) newName))) (\<lambda>_.
     op_bind (attempt (rewriteFileCaptions env (f\<lparr>f_Name := newName\<rparr>))) (\<lambda>_.
       ret (fileEntry (f\<lparr>f_Name := newName\<rparr>) (Join dirPath newName))))"

definition rename_clean :: "('t, 'b) env \<Rightarrow> string \<Rightarrow> string \<Rightarrow> (('t, 'b) drive, Entry) op" where
  "rename_clean env clean newName =
     (if clean = Root then fail ERoot
      else
        let (parentPath, oldName) = Parent clean in
        if oldName = newName then Stat env clean
        else
          op_bind (ResolveDir parentPath) (\<lambda>parent.
          op_bind (with_db (check_free (d_ID parent) newName)) (\<lambda>_ s.
            case DirByPath clean (dv_db s) of
              Inr dir \<Rightarrow> renameDir env dir newName (Join parentPath newName) s
            | Inl e \<Rightarrow>
                if e \<noteq> ErrNotFound then fail (EDb e) s
                else case FileInDir (d_ID parent) oldName (dv_db s) of
                    Inl e' \<Rightarrow> (if e' = ErrNotFound then fail ENotFound s else fail (EDb e') s)
                  | Inr f \<Rightarrow> renameFile env f newName parentPath s)))"

definition Rename :: "('t, 'b) env \<Rightarrow> string \<Rightarrow> string \<Rightarrow> (('t, 'b) drive, Entry) op" where
  "Rename env p0 newName0 =
     op_bind (lift (\<lambda>e. e) (hk_rename (en_hooks env) (p0, newName0))) (\<lambda>(p, newName).
     op_bind (lift EPath (ValidateName newName)) (\<lambda>_.
     op_bind (clean_op p) (\<lambda>clean. rename_clean env clean newName)))"

definition move_file :: "('t, 'b) env \<Rightarrow> string \<Rightarrow> string \<Rightarrow> string \<Rightarrow> Dir \<Rightarrow> (('t, 'b) drive, Entry) op" where
  "move_file env src dstDir name target =
     op_bind (ResolveDir (fst (Parent src))) (\<lambda>parent s.
       case FileInDir (d_ID parent) name (dv_db s) of
         Inl e \<Rightarrow> (if e = ErrNotFound then fail ENotFound s else fail (EDb e) s)
       | Inr f \<Rightarrow>
           op_bind (on_conflict (exec (MoveFile (f_ID f) (d_ID target)))) (\<lambda>_.
           op_bind (attempt (rewriteFileCaptions env (f\<lparr>f_DirID := d_ID target\<rparr>))) (\<lambda>_.
             ret (fileEntry (f\<lparr>f_DirID := d_ID target\<rparr>) (Join dstDir name)))) s)"

definition move_clean :: "('t, 'b) env \<Rightarrow> string \<Rightarrow> string \<Rightarrow> (('t, 'b) drive, Entry) op" where
  "move_clean env src dstDir =
     (if src = Root then fail ERoot
      else if IsDescendant src dstDir \<or> src = dstDir then fail ELoop
      else
        let name = snd (Parent src) in
        op_bind (Mkdir env dstDir) (\<lambda>target.
        op_bind (with_db (check_free (d_ID target) name)) (\<lambda>_ s.
          case DirByPath src (dv_db s) of
            Inr dir \<Rightarrow>
              op_bind (on_conflict (exec (MoveDir (en_fold env) (d_ID dir) (d_ID target) (Join dstDir name)))) (\<lambda>_.
              op_bind (query (DirByID (d_ID dir))) (captions_after env)) s
          | Inl e \<Rightarrow> if e \<noteq> ErrNotFound then fail (EDb e) s else move_file env src dstDir name target s)))"

definition Move :: "('t, 'b) env \<Rightarrow> string \<Rightarrow> string \<Rightarrow> (('t, 'b) drive, Entry) op" where
  "Move env from0 to0 =
     op_bind (lift (\<lambda>e. e) (hk_move (en_hooks env) (from0, to0))) (\<lambda>(from, toDir).
     op_bind (clean_op from) (\<lambda>src.
     op_bind (clean_op toDir) (\<lambda>dstDir. move_clean env src dstDir)))"

section \<open>Delete\<close>

definition channel_messages :: "TGMessage list \<Rightarrow> string \<Rightarrow> int list" where
  "channel_messages msgs ch = map m_MsgID (filter (\<lambda>m. m_MsgID m > 0 \<and> m_ChannelID m = ch) msgs)"

fun delete_groups ::
  "('t, 'b) account \<Rightarrow> (string \<times> int list) list \<Rightarrow> (('t, 'b) drive, unit) op" where
  "delete_groups a [] = ret ()"
| "delete_groups a ((ch, ids) # gs) =
     op_bind (with_db (channelFor ch)) (\<lambda>channel.
     op_bind (channelRef a channel) (\<lambda>ref.
     op_bind (tg_call (ac_DeleteRecords a ref ids)) (\<lambda>_. delete_groups a gs)))"

text \<open>Go ranges over the map \<open>byChannel\<close> in any order; this is the order of first occurrence.\<close>

definition by_channel :: "TGMessage list \<Rightarrow> (string \<times> int list) list" where
  "by_channel msgs =
     map (\<lambda>ch. (ch, channel_messages msgs ch)) (remdups (map m_ChannelID (filter (\<lambda>m. m_MsgID m > 0) msgs)))"

definition deleteMessages :: "('t, 'b) env \<Rightarrow> TGMessage list \<Rightarrow> (('t, 'b) drive, unit) op" where
  "deleteMessages env msgs =
     (if msgs = [] then ret ()
      else op_bind (metaAccount env) (\<lambda>a. delete_groups a (by_channel msgs)))"

definition deleteFileRow :: "('t, 'b) env \<Rightarrow> FileRow \<Rightarrow> (('t, 'b) drive, unit) op" where
  "deleteFileRow env f =
     op_bind (with_db (\<lambda>d. Inr (FileMessages (f_ID f) d))) (\<lambda>msgs.
     op_bind (deleteMessages env msgs) (\<lambda>_.
     op_bind (forget_refs (f_ID f)) (\<lambda>_.
       exec (DeleteFile (f_ID f)))))"

definition delete_clean :: "('t, 'b) env \<Rightarrow> string \<Rightarrow> (('t, 'b) drive, unit) op" where
  "delete_clean env clean s =
     (if clean = Root then fail ERoot s
      else case DirByPath clean (dv_db s) of
          Inr dir \<Rightarrow>
            op_bind (query (SubtreeMessages (en_fold env) (d_ID dir))) (\<lambda>msgs.
            op_bind (deleteMessages env msgs) (\<lambda>_.
              exec (DeleteDir (d_ID dir)))) s
        | Inl e \<Rightarrow>
            if e \<noteq> ErrNotFound then fail (EDb e) s
            else
              let (parentPath, name) = Parent clean in
              op_bind (ResolveDir parentPath) (\<lambda>parent s.
                case FileInDir (d_ID parent) name (dv_db s) of
                  Inl e' \<Rightarrow> (if e' = ErrNotFound then fail ENotFound s else fail (EDb e') s)
                | Inr f \<Rightarrow> deleteFileRow env f s) s)"

definition Delete :: "('t, 'b) env \<Rightarrow> string \<Rightarrow> (('t, 'b) drive, unit) op" where
  "Delete env p0 =
     op_bind (before_path env ''files.delete'' p0) (\<lambda>p.
     op_bind (clean_op p) (delete_clean env))"

definition DeleteFileByID :: "('t, 'b) env \<Rightarrow> string \<Rightarrow> (('t, 'b) drive, unit) op" where
  "DeleteFileByID env i0 =
     op_bind (before_path env ''files.deleteByID'' i0) (\<lambda>i.
     op_bind (query (FileByID i)) (deleteFileRow env))"

end
