(* ===== verification/DriveLaws.thy ===== *)
theory DriveLaws
  imports DriveTree
begin

text \<open>
  What the tree operations of the service keep and establish.  The first part shows that every
  operation keeps the index well formed, and what \<open>Mkdir\<close> leaves behind; it is a calculus of
  triples, one lemma per operation.
\<close>

section \<open>Valid paths, name by name\<close>

lemma valid_utf8_sep: "byte c < 128 \<Longrightarrow> valid_utf8 (s @ c # t) \<longleftrightarrow> valid_utf8 s \<and> valid_utf8 t"
proof -
  assume c: "byte c < 128"
  have "valid_utf8 [c]" using c by (intro valid_utf8_ascii) simp
  then have "valid_utf8 (c # t) = valid_utf8 t" using valid_utf8_append [of "[c]" t] by simp
  moreover have "valid_utf8 (s @ c # t) \<longleftrightarrow> valid_utf8 s \<and> valid_utf8 (c # t)"
    by (auto simp: valid_utf8_def chunks_append_ascii [OF c])
  ultimately show ?thesis by simp
qed

lemma valid_utf8_join:
  assumes "valid_utf8 (join_with ''/'' ns)" and "n \<in> set ns"
  shows "valid_utf8 n"
  using assms
proof (induction ns)
  case (Cons m ns)
  show ?case
  proof (cases "ns = []")
    case True
    then show ?thesis using Cons.prems by simp
  next
    case False
    then have "valid_utf8 (m @ CHR ''/'' # join_with ''/'' ns)"
      using Cons.prems(1) by (simp add: join_with_Cons)
    then have "valid_utf8 m" "valid_utf8 (join_with ''/'' ns)" by (simp_all add: valid_utf8_sep)
    then show ?thesis using Cons by auto
  qed
qed simp

lemma clean_names:
  assumes "CleanPath p = Inr clean" and "valid_utf8 clean"
  obtains ns where "clean = path_of ns" "SplitPath clean = ns" "\<forall>n \<in> set ns. valid_name n" "\<forall>n \<in> set ns. dir_name n"
proof -
  obtain ns where ns: "clean = path_of ns" "\<forall>n \<in> set ns. valid_name n" using CleanPath_Inr [OF assms(1)] .
  have "valid_utf8 ([] @ CHR ''/'' # join_with ''/'' ns)" using assms(2) by (simp add: ns(1) path_of_def)
  then have "valid_utf8 (join_with ''/'' ns)" using valid_utf8_sep [of "CHR ''/''" "[]"] by simp
  then have "\<forall>n \<in> set ns. valid_utf8 n" using valid_utf8_join by blast
  then show thesis using that [OF ns(1)] ns by (simp add: SplitPath_path_of valid_plain dir_name_def)
qed

section \<open>Growing trees\<close>

definition grows :: "db \<Rightarrow> db \<Rightarrow> bool" where
  "grows d d' \<longleftrightarrow> (\<exists>new. d' = d\<lparr>db_dirs := db_dirs d @ new\<rparr>)"

text \<open>The pair of an identifier and a path denotes the root or a stored directory.\<close>

definition anchored :: "db \<Rightarrow> string \<Rightarrow> string \<Rightarrow> bool" where
  "anchored d i p \<longleftrightarrow> i = [] \<and> p = Root \<or> (\<exists>r \<in> set (db_dirs d). d_ID r = i \<and> d_Path r = p)"

abbreviation dir_state :: "db \<Rightarrow> ('t, 'b) drive \<Rightarrow> bool" where
  "dir_state d0 s \<equiv> index_inv (dv_db s) \<and> grows d0 (dv_db s)"

lemma grows_refl: "grows d d"
  by (auto simp: grows_def intro: exI [of _ "[]"])

lemma grows_snoc: "grows d d' \<Longrightarrow> grows d (d'\<lparr>db_dirs := db_dirs d' @ [r]\<rparr>)"
  by (auto simp: grows_def)

lemma anchored_parent_ok:
  assumes "index_inv d" and "anchored d i p" and "d_ParentID r = i" and "d_Path r = Join p (d_Name r)"
  shows "parent_ok (db_dirs d) r"
proof -
  have "d_Path x \<noteq> Root" "d_Path x \<noteq> []" if "x \<in> set (db_dirs d)" for x
    using tree_path_ok tree_path_nonempty assms(1) that by (auto simp: index_inv_def)
  then show ?thesis
    using assms(2-4) unfolding anchored_def parent_ok_def by (auto simp: Join_def)
qed

lemma InsertDir_success:
  "InsertDir r d = (Inr (), d') \<Longrightarrow>
     d' = d\<lparr>db_dirs := db_dirs d @ [r\<lparr>d_CreatedAt := db_now d, d_UpdatedAt := db_now d\<rparr>]\<rparr>"
  and InsertDir_error: "InsertDir r d = (Inl e, d') \<Longrightarrow> d' = d"
  by (auto simp: InsertDir_def Let_def split: if_splits)

lemma insert_dir_op_eq:
  "insert_dir_op a ref r s =
     (case InsertDir r (dv_db s) of
        (Inr _, d) \<Rightarrow> (Inr r, s\<lparr>dv_db := d\<rparr>)
      | (Inl e, d) \<Rightarrow> (Inl (if e = ErrConflict then EExists else EDb e),
          s\<lparr>dv_db := d, dv_tg := snd (ac_DeleteRecords a ref [d_TGMsgID r] (dv_tg s))\<rparr>))"
  by (auto simp: insert_dir_op_def exec_def lift_def op_bind_def attempt_def tg_call_def fail_def ret_def
      split: prod.splits sum.splits)

lemma insert_dir_triple:
  assumes "dir_name (d_Name r)" and "d_ID r \<noteq> []" and "d_Path r = Join pp (d_Name r)"
  shows "triple (\<lambda>s. dir_state d0 s \<and> anchored (dv_db s) (d_ParentID r) pp) (insert_dir_op a ref r)
     (\<lambda>x s. dir_state d0 s \<and> anchored (dv_db s) (d_ID x) (d_Path r)) (dir_state d0)"
proof (rule tripleI)
  fix s e s'
  assume P: "dir_state d0 s \<and> anchored (dv_db s) (d_ParentID r) pp" and m: "insert_dir_op a ref r s = (Inl e, s')"
  then obtain e' d where i: "InsertDir r (dv_db s) = (Inl e', d)" "dv_db s' = d"
    by (auto simp: insert_dir_op_eq split: prod.splits sum.splits)
  show "dir_state d0 s'" using P unfolding i(2) InsertDir_error [OF i(1)] by simp
next
  fix s y s'
  assume P: "dir_state d0 s \<and> anchored (dv_db s) (d_ParentID r) pp" and m: "insert_dir_op a ref r s = (Inr y, s')"
  then obtain d where i: "InsertDir r (dv_db s) = (Inr (), d)" "dv_db s' = d" "y = r"
    by (auto simp: insert_dir_op_eq split: prod.splits sum.splits)
  have "index_inv d"
    using InsertDir_inv [of "dv_db s" r] anchored_parent_ok [of "dv_db s" "d_ParentID r" pp r] assms P i by simp
  then show "dir_state d0 s' \<and> anchored (dv_db s') (d_ID y) (d_Path r)"
    using i InsertDir_success [OF i(1)] P by (auto simp: anchored_def grows_snoc)
qed

lemma EncodeDir_id: "EncodeDir i p n q = Inr c \<Longrightarrow> i \<noteq> []"
  by (auto simp: EncodeDir_def validateID_def is_ulid_def split: if_splits)

lemma createDir_triple:
  assumes "dir_name name"
  shows "triple (\<lambda>s. dir_state d0 s \<and> anchored (dv_db s) pid pp) (createDir env pid name (Join pp name))
     (\<lambda>x s. dir_state d0 s \<and> anchored (dv_db s) (d_ID x) (Join pp name)) (dir_state d0)"
  unfolding createDir_def
proof (rule triple_bind [where R = "\<lambda>_ s. dir_state d0 s \<and> anchored (dv_db s) pid pp"], rule triple_with_db)
  fix channel
  show "triple (\<lambda>s. dir_state d0 s \<and> anchored (dv_db s) pid pp)
     (op_bind (NewID env) (\<lambda>i. op_bind (lift ECodec (EncodeDir i pid name (Join pp name))) (\<lambda>caption.
       op_bind (metaAccount env) (\<lambda>account. op_bind (channelRef account channel) (\<lambda>ref.
       op_bind (tg_call (ac_SendRecord account ref caption)) (\<lambda>msgID. insert_dir_op account ref
         \<lparr>d_ID = i, d_ParentID = pid, d_Name = name, d_Path = Join pp name, d_ChannelID = c_ID channel,
          d_TGMsgID = msgID, d_CreatedAt = 0, d_UpdatedAt = 0, d_OwnerID = []\<rparr>))))))
     (\<lambda>x s. dir_state d0 s \<and> anchored (dv_db s) (d_ID x) (Join pp name)) (dir_state d0)"
  proof (rule triple_bind [where R = "\<lambda>_ s. dir_state d0 s \<and> anchored (dv_db s) pid pp"], rule triple_NewID)
    fix i
    let ?P = "\<lambda>s. dir_state d0 s \<and> anchored (dv_db s) pid pp"
    show "triple ?P (op_bind (lift ECodec (EncodeDir i pid name (Join pp name))) (\<lambda>caption.
       op_bind (metaAccount env) (\<lambda>account. op_bind (channelRef account channel) (\<lambda>ref.
       op_bind (tg_call (ac_SendRecord account ref caption)) (\<lambda>msgID. insert_dir_op account ref
         \<lparr>d_ID = i, d_ParentID = pid, d_Name = name, d_Path = Join pp name, d_ChannelID = c_ID channel,
          d_TGMsgID = msgID, d_CreatedAt = 0, d_UpdatedAt = 0, d_OwnerID = []\<rparr>)))))
     (\<lambda>x s. dir_state d0 s \<and> anchored (dv_db s) (d_ID x) (Join pp name)) (dir_state d0)"
    proof (cases "EncodeDir i pid name (Join pp name)")
      case (Inr c)
      then have "i \<noteq> []" by (rule EncodeDir_id)
      then show ?thesis
        unfolding Inr lift_simps op_bind_simps
        using assms insert_dir_triple [of "\<lparr>d_ID = i, d_ParentID = pid, d_Name = name, d_Path = Join pp name,
          d_ChannelID = c_ID channel, d_TGMsgID = _, d_CreatedAt = 0, d_UpdatedAt = 0, d_OwnerID = []\<rparr>" pp d0]
        by (intro triple_bind [where R = "\<lambda>_. ?P"] triple_metaAccount triple_channelRef triple_tg_call) simp_all
    qed (simp, rule triple_fail, simp)
  qed simp
qed simp_all

lemma dir_by_path: "DirByPath p d = Inr r \<Longrightarrow> r \<in> set (db_dirs d) \<and> d_Path r = p"
  unfolding DirByPath_def by (rule query_row_Some)

lemma mkdir_step_cases:
  assumes "mkdir_step env pid name p s = (r, s')"
  obtains (found) x where "DirByPath p (dv_db s) = Inr x" "r = Inr x" "s' = s"
    | (create) "createDir env pid name p s = (r, s')"
    | (refused) e where "r = Inl e" "s' = s"
  using assms by (cases "DirByPath p (dv_db s)"; cases "FileInDir pid name (dv_db s)")
    (auto simp: mkdir_step_def ret_def fail_def split: if_splits)

lemma mkdir_step_triple:
  fixes env :: "('t, 'b) env"
  assumes "dir_name name"
  shows "triple (\<lambda>s. dir_state d0 s \<and> anchored (dv_db s) pid pp) (mkdir_step env pid name (Join pp name))
     (\<lambda>x s. dir_state d0 s \<and> anchored (dv_db s) (d_ID x) (Join pp name)) (dir_state d0)"
proof (rule tripleI)
  note c = createDir_triple [OF assms, of d0 pid pp env]
  fix s :: "('t, 'b) drive" assume P: "dir_state d0 s \<and> anchored (dv_db s) pid pp"
  show "dir_state d0 s'" if "mkdir_step env pid name (Join pp name) s = (Inl e, s')" for e s'
    using that by (cases rule: mkdir_step_cases) (use P tripleD_error [OF c P] in auto)
  show "dir_state d0 s' \<and> anchored (dv_db s') (d_ID x) (Join pp name)"
    if m: "mkdir_step env pid name (Join pp name) s = (Inr x, s')" for x s'
    using m
  proof (cases rule: mkdir_step_cases)
    case (found r)
    have "r \<in> set (db_dirs (dv_db s)) \<and> d_Path r = Join pp name" by (rule dir_by_path [OF found(1)])
    then have "anchored (dv_db s) (d_ID r) (Join pp name)" unfolding anchored_def by blast
    moreover have "x = r" using found(2) by simp
    ultimately show ?thesis using P unfolding found(3) by simp
  next
    case create
    then show ?thesis by (rule tripleD [OF c P])
  qed simp
qed

lemma mkdir_loop_triple:
  assumes "\<forall>n \<in> set names. dir_name n"
  shows "triple (\<lambda>s. dir_state d0 s \<and> anchored (dv_db s) pid pp \<and> (names = [] \<longrightarrow> d_ID cur = pid))
     (mkdir_loop env names pid pp cur)
     (\<lambda>x s. dir_state d0 s \<and> anchored (dv_db s) (d_ID x) (foldl Join pp names)) (dir_state d0)"
  using assms
proof (induction names arbitrary: pid pp cur)
  case Nil
  then show ?case by (simp add: triple_def ret_def)
next
  case (Cons n names)
  let ?P = "\<lambda>i p s. dir_state d0 s \<and> anchored (dv_db s) i p"
  have rest: "triple (?P (d_ID x) (Join pp n)) (mkdir_loop env names (d_ID x) (Join pp n) x)
      (\<lambda>y s. dir_state d0 s \<and> anchored (dv_db s) (d_ID y) (foldl Join (Join pp n) names)) (dir_state d0)" for x
    using Cons.IH [of "d_ID x" "Join pp n" x] Cons.prems by simp
  have "triple (?P pid pp) (mkdir_step env pid n (Join pp n)) (\<lambda>x. ?P (d_ID x) (Join pp n)) (dir_state d0)"
    using Cons.prems by (intro mkdir_step_triple) simp
  from triple_bind [OF this rest] show ?case by simp
qed

lemma foldl_Join: "\<forall>n \<in> set ms. plain n \<Longrightarrow> \<forall>n \<in> set ns. plain n \<Longrightarrow> foldl Join (path_of ms) ns = path_of (ms @ ns)"
proof (induction ns arbitrary: ms)
  case (Cons n ns)
  have "foldl Join (path_of ms) (n # ns) = foldl Join (path_of (ms @ [n])) ns"
    using Cons.prems by (simp add: Join_path_of)
  also have "\<dots> = path_of ((ms @ [n]) @ ns)" using Cons.prems by (intro Cons.IH) auto
  finally show ?case by simp
qed simp

lemma mkdir_clean_triple:
  fixes env :: "('t, 'b) env"
  assumes "CleanPath p = Inr clean" and "valid_utf8 clean"
  shows "triple (dir_state d0) (mkdir_clean env clean)
     (\<lambda>x s. dir_state d0 s \<and> anchored (dv_db s) (d_ID x) clean) (dir_state d0)"
proof -
  obtain ns where ns: "clean = path_of ns" "SplitPath clean = ns" "\<forall>n \<in> set ns. valid_name n" "\<forall>n \<in> set ns. dir_name n"
    using clean_names [OF assms] .
  have f: "foldl Join Root ns = clean"
    using foldl_Join [of "[]" ns] ns by (simp add: valid_plain)
  have "triple (\<lambda>s. dir_state d0 s \<and> anchored (dv_db s) [] Root \<and> (ns = [] \<longrightarrow> d_ID root_dir = []))
     (mkdir_loop env ns [] Root root_dir)
     (\<lambda>x s. dir_state d0 s \<and> anchored (dv_db s) (d_ID x) (foldl Join Root ns)) (dir_state d0)"
    by (rule mkdir_loop_triple [OF ns(4)])
  then have loop: "triple (dir_state d0) (mkdir_loop env ns [] Root root_dir)
     (\<lambda>x s. dir_state d0 s \<and> anchored (dv_db s) (d_ID x) clean) (dir_state d0)"
    unfolding f by (rule triple_conseq) (simp_all add: anchored_def root_dir_def)
  show ?thesis
  proof (rule tripleI)
    fix s :: "('t, 'b) drive" assume P: "dir_state d0 s"
    show "dir_state d0 s'" if "mkdir_clean env clean s = (Inl e, s')" for e s'
      using that P tripleD_error [OF loop P] unfolding ns(2) [symmetric]
      by (simp add: mkdir_clean_def ret_def fail_def split: if_splits sum.splits)
    show "dir_state d0 s' \<and> anchored (dv_db s') (d_ID x) clean" if m: "mkdir_clean env clean s = (Inr x, s')" for x s'
    proof (cases "clean = Root")
      case True
      then show ?thesis using m P by (auto simp: mkdir_clean_def ret_def anchored_def root_dir_def)
    next
      case ne: False
      show ?thesis
      proof (cases "DirByPath clean (dv_db s)")
        case (Inr r)
        then have "anchored (dv_db s) (d_ID r) clean" using dir_by_path [OF Inr] by (auto simp: anchored_def)
        then show ?thesis using m P ne Inr by (simp add: mkdir_clean_def ret_def)
      next
        case (Inl e)
        then have "mkdir_loop env ns [] Root root_dir s = (Inr x, s')"
          using m ne ns(2) by (simp add: mkdir_clean_def fail_def split: if_splits)
        then show ?thesis by (rule tripleD [OF loop P])
      qed
    qed
  qed
qed

section \<open>Operations that leave the index alone\<close>

lemma keeps_db_inv:
  assumes "\<And>d. keeps (\<lambda>s. dv_db s = d) m"
  shows "keeps (\<lambda>s. I (dv_db s)) m"
proof (rule tripleI)
  fix s e s' assume "I (dv_db s)" "m s = (Inl e, s')"
  then show "I (dv_db s')" using tripleD_error [OF assms] by metis
next
  fix s x s' assume "I (dv_db s)" "m s = (Inr x, s')"
  then show "I (dv_db s')" using tripleD [OF assms] by metis
qed

lemma keeps_bind: "\<lbrakk>keeps I m; \<And>x. keeps I (f x)\<rbrakk> \<Longrightarrow> keeps I (op_bind m f)"
  by (rule triple_bind)

lemma keeps_attempt: "keeps I m \<Longrightarrow> keeps I (attempt m)"
  by (rule triple_attempt)

lemma keeps_if: "\<lbrakk>keeps I a; keeps I b\<rbrakk> \<Longrightarrow> keeps I (if c then a else b)"
  by simp

lemma keeps_basic:
  "keeps I (ret x)" "keeps I (fail e)" "keeps I (lift h r)" "keeps I (with_db q)" "keeps I (query q')"
  "keeps I (metaAccount env)" "keeps I (channelRef a ch)"
  by (auto intro: triples)

lemma keeps_db_basic:
  "keeps (\<lambda>s. dv_db s = d) (tg_call c)" "keeps (\<lambda>s. dv_db s = d) (forget_refs fid)" "keeps (\<lambda>s. dv_db s = d) (NewID env)"
  by (rule triple_tg_call triple_forget triple_NewID; simp)+

lemmas db_intros = keeps_bind keeps_attempt keeps_if keeps_basic keeps_db_basic

lemma edit_captions_db: "keeps (\<lambda>s. dv_db s = d) (edit_captions env a ref f gs)"
  by (induction gs) (simp_all add: db_intros)

lemma rewriteDirCaption_db: "keeps (\<lambda>s. dv_db s = d) (rewriteDirCaption env dir)"
  unfolding rewriteDirCaption_def by (intro db_intros)

lemma rewriteFileCaptions_db: "keeps (\<lambda>s. dv_db s = d) (rewriteFileCaptions env f)"
  unfolding rewriteFileCaptions_def by (intro db_intros edit_captions_db)

lemma each_attempt_keeps: "(\<And>x. keeps I (f x)) \<Longrightarrow> keeps I (each_attempt f xs)"
  by (induction xs) (simp_all add: db_intros)

lemma refreshSubtreeCaptions_db: "keeps (\<lambda>s. dv_db s = d) (refreshSubtreeCaptions env dir)"
  unfolding refreshSubtreeCaptions_def
  by (intro db_intros each_attempt_keeps rewriteFileCaptions_db)

lemma captions_after_db: "keeps (\<lambda>s. dv_db s = d) (captions_after env dir)"
  unfolding captions_after_def
  by (intro db_intros rewriteDirCaption_db refreshSubtreeCaptions_db)

lemma delete_groups_db: "keeps (\<lambda>s. dv_db s = d) (delete_groups a gs)"
  by (induction a gs rule: delete_groups.induct) (simp_all add: db_intros)

lemma deleteMessages_db: "keeps (\<lambda>s. dv_db s = d) (deleteMessages env msgs)"
  unfolding deleteMessages_def by (intro db_intros delete_groups_db)

lemma Stat_db: "keeps (\<lambda>s. dv_db s = d) (Stat env p)"
  unfolding Stat_def before_path_def clean_op_def by (intro db_intros)

lemma ResolveDir_keeps: "keeps I (ResolveDir p)"
  unfolding ResolveDir_def by (intro db_intros)

section \<open>Deleting keeps the index well formed\<close>

lemma exec_keeps: "(\<And>d. I d \<Longrightarrow> I (snd (q d))) \<Longrightarrow> keeps (\<lambda>s. I (dv_db s)) (exec q)"
  by (rule triple_exec; metis drive.select_convs(1) drive.surjective drive.update_convs(1) snd_conv)

lemma deleteFileRow_index: "keeps (\<lambda>s. index_inv (dv_db s)) (deleteFileRow env f)"
  unfolding deleteFileRow_def
  by (intro db_intros keeps_db_inv [OF deleteMessages_db] keeps_db_inv [OF keeps_db_basic(2)] exec_keeps DeleteFile_inv)

lemma case_keeps:
  assumes "\<And>x. keeps I (f x)" and "\<And>e. keeps I (g e)"
  shows "keeps I (\<lambda>s. case q (dv_db s) of Inl e \<Rightarrow> g e s | Inr x \<Rightarrow> f x s)"
  using assms by (auto simp: triple_def split: sum.split)

lemma delete_clean_index: "keeps (\<lambda>s. index_inv (dv_db s)) (delete_clean env clean)"
proof -
  have at_file: "keeps (\<lambda>s. index_inv (dv_db s)) (op_bind (ResolveDir pp) (\<lambda>parent s.
      case FileInDir (d_ID parent) name (dv_db s) of
        Inl e' \<Rightarrow> (if e' = ErrNotFound then fail ENotFound s else fail (EDb e') s)
      | Inr f \<Rightarrow> deleteFileRow env f s))" for pp name
    by (intro db_intros ResolveDir_keeps case_keeps [where q = "FileInDir _ _"] deleteFileRow_index)
      (auto intro: triples simp: triple_def fail_def)
  have at_dir: "keeps (\<lambda>s. index_inv (dv_db s)) (op_bind (query (SubtreeMessages (en_fold env) i)) (\<lambda>msgs.
      op_bind (deleteMessages env msgs) (\<lambda>_. exec (DeleteDir i))))" for i
    by (intro db_intros keeps_db_inv [OF deleteMessages_db] exec_keeps DeleteDir_inv)
  show ?thesis
    unfolding keeps_iff delete_clean_def
    using keepsD [OF at_file] keepsD [OF at_dir]
    by (auto simp: fail_def split: sum.split prod.split)
qed

lemma Delete_index: "keeps (\<lambda>s. index_inv (dv_db s)) (Delete env p)"
  unfolding Delete_def before_path_def clean_op_def by (intro db_intros delete_clean_index)

lemma DeleteFileByID_index: "keeps (\<lambda>s. index_inv (dv_db s)) (DeleteFileByID env i)"
  unfolding DeleteFileByID_def before_path_def by (intro db_intros deleteFileRow_index)

end
