(* ===== verification/DriveMoves.thy ===== *)
theory DriveMoves
  imports DriveLaws
begin

text \<open>
  Renaming and moving at the level of the service: the checks of \<open>ops.go\<close> establish what the
  statements of the tree need, so that a rename or a move keeps the index well formed.
\<close>

section \<open>A path determines its parent and its name\<close>

lemma slash_name_unique:
  assumes "a @ CHR ''/'' # n = b @ CHR ''/'' # m" and "CHR ''/'' \<notin> set n" and "CHR ''/'' \<notin> set m"
  shows "a = b \<and> n = m"
proof -
  consider us where "a = b @ us" "us @ CHR ''/'' # n = CHR ''/'' # m"
    | us where "b = a @ us" "CHR ''/'' # n = us @ CHR ''/'' # m"
    using assms(1) by (auto simp: append_eq_append_conv2)
  then show ?thesis
    using assms(2,3) by cases (metis append_Cons append_Nil append_self_conv in_set_conv_decomp list.sel(3) neq_Nil_conv
        append.right_neutral list.inject)+
qed

definition sep_path :: "string \<Rightarrow> string" where
  "sep_path p = (if p = Root then [] else p)"

lemma Join_sep: "p \<noteq> [] \<Longrightarrow> Join p n = sep_path p @ CHR ''/'' # n"
  by (simp add: Join_def sep_path_def Root_def)

lemma Join_unique:
  assumes "Join p n = Join q m" and "p \<noteq> []" "q \<noteq> []" and "CHR ''/'' \<notin> set n" "CHR ''/'' \<notin> set m"
  shows "p = q \<and> n = m"
proof -
  have "sep_path p = sep_path q \<and> n = m"
    using assms by (intro slash_name_unique) (simp_all add: Join_sep)
  then show ?thesis using assms(2,3) by (auto simp: sep_path_def split: if_splits)
qed

lemma row_place:
  assumes inv: "index_inv d" and r: "r \<in> set (db_dirs d)"
  obtains pp where "anchored d (d_ParentID r) pp" "pp \<noteq> []" "d_Path r = Join pp (d_Name r)" "\<not> below (d_Path r) pp"
    "pp \<noteq> d_Path r"
proof -
  have t: "tree_inv (db_dirs d)" using inv by (simp add: index_inv_def)
  then consider "d_ParentID r = []" "d_Path r = Root @ d_Name r"
    | p where "p \<in> set (db_dirs d)" "d_ID p = d_ParentID r" "d_Path r = d_Path p @ ''/'' @ d_Name r"
    using r unfolding tree_inv_def parent_ok_def by blast
  then show thesis
  proof cases
    case 1
    have "dir_name (d_Name r)" using t r by (simp add: tree_inv_def)
    then have "\<not> below (d_Path r) Root" "Root \<noteq> d_Path r"
      using 1(2) by (auto simp: Root_def prefix_def dir_name_def plain_def)
    then show thesis using that [of Root] 1 by (simp add: anchored_def Join_def Root_def)
  next
    case (2 p)
    have "d_Path p \<noteq> Root" "d_Path p \<noteq> []" using tree_path_ok [OF t 2(1)] tree_path_nonempty [OF t 2(1)] by simp_all
    moreover have "\<not> below (d_Path r) (d_Path p)" "d_Path p \<noteq> d_Path r"
      using below_length [of "d_Path r" "d_Path p"] by (auto simp: 2(3))
    ultimately show thesis using that [of "d_Path p"] 2 by (auto simp: anchored_def Join_def)
  qed
qed

lemma anchored_unique:
  assumes inv: "index_inv d" and "anchored d i p" "anchored d j p"
  shows "i = j"
  using assms tree_unique_path tree_path_ok by (fastforce simp: anchored_def index_inv_def)

lemma anchored_nonempty: "\<lbrakk>index_inv d; anchored d i p\<rbrakk> \<Longrightarrow> p \<noteq> []"
  using tree_path_nonempty by (fastforce simp: anchored_def index_inv_def Root_def)

text \<open>The directory at \<open>Join p n\<close> is the child \<open>n\<close> of what is at \<open>p\<close>.\<close>

lemma row_at_join:
  assumes inv: "index_inv d" and a: "anchored d i p" and x: "x \<in> set (db_dirs d)" "d_Path x = Join p n"
    and n: "CHR ''/'' \<notin> set n"
  shows "d_ParentID x = i \<and> d_Name x = n"
proof -
  obtain pp where pp: "anchored d (d_ParentID x) pp" "pp \<noteq> []" "d_Path x = Join pp (d_Name x)"
    using row_place [OF inv x(1)] by blast
  have "dir_name (d_Name x)" using inv x(1) by (simp add: index_inv_def tree_inv_def)
  then have "pp = p \<and> d_Name x = n"
    using pp x(2) n anchored_nonempty [OF inv a] by (intro Join_unique) (simp_all add: dir_name_no_slash)
  then show ?thesis using anchored_unique [OF inv pp(1)] a by blast
qed

lemma free_no_dir:
  assumes "check_free i n d = Inr ()" and "x \<in> set (db_dirs d)"
  shows "\<not> (d_ParentID x = i \<and> d_Name x = n)"
proof -
  obtain e where "DirChild i n d = Inl e" using assms(1) by (auto simp: check_free_def split: sum.splits)
  then show ?thesis using assms(2) by (simp add: DirChild_def query_row_Inl)
qed

lemma new_place_free:
  assumes inv: "index_inv d" and r: "r \<in> set (db_dirs d)" and a: "anchored d i p" and nn: "dir_name n"
    and out: "p = Root \<or> \<not> below (d_Path r) p \<and> p \<noteq> d_Path r" and free: "check_free i n d = Inr ()"
  shows "new_place (db_dirs d) r i n (Join p n)"
proof -
  have t: "tree_inv (db_dirs d)" using inv by (simp add: index_inv_def)
  have "i = [] \<and> Join p n = Root @ n \<or>
      (\<exists>q \<in> set (db_dirs d). d_ID q = i \<and> q \<noteq> r \<and> \<not> below (d_Path r) (d_Path q) \<and> Join p n = d_Path q @ ''/'' @ n)"
    using a unfolding anchored_def
  proof
    assume "\<exists>q \<in> set (db_dirs d). d_ID q = i \<and> d_Path q = p"
    then obtain q where q: "q \<in> set (db_dirs d)" "d_ID q = i" "d_Path q = p" by blast
    then have "p \<noteq> Root" "p \<noteq> []" using tree_path_ok [OF t q(1)] tree_path_nonempty [OF t q(1)] by auto
    then show ?thesis using q out by (intro disjI2 bexI [of _ q]) (auto simp: Join_def)
  qed (simp add: Join_def)
  moreover have "d_Path x \<noteq> Join p n" if "x \<in> set (db_dirs d)" for x
    using row_at_join [OF inv a that _ dir_name_no_slash [OF nn]] free_no_dir [OF free that] by blast
  ultimately show ?thesis using nn by (simp add: new_place_def)
qed

section \<open>Rename\<close>

lemma resolve_anchored:
  assumes "resolve_dir p d = Inr x" and "CleanPath p = Inr p"
  shows "anchored d (d_ID x) p"
  using assms dir_by_path [of p d x]
  by (auto simp: resolve_dir_def anchored_def root_dir_def split: if_splits sum.splits)

lemma on_conflict_db: "keeps I m \<Longrightarrow> keeps I (on_conflict m)"
  by (auto simp: keeps_iff on_conflict_def split: prod.split sum.split)

lemma exec_eq: "exec q s = (case q (dv_db s) of (Inl e, d) \<Rightarrow> (Inl (EDb e), s\<lparr>dv_db := d\<rparr>) | (Inr x, d) \<Rightarrow> (Inr x, s\<lparr>dv_db := d\<rparr>))"
  by (auto simp: exec_def ret_def fail_def split: prod.split sum.split)

lemma renameFile_index: "keeps (\<lambda>s. index_inv (dv_db s)) (renameFile env f n p)"
  unfolding renameFile_def
  by (intro db_intros on_conflict_db exec_keeps RenameFile_inv keeps_db_inv [OF rewriteFileCaptions_db])

lemma move_file_index: "keeps (\<lambda>s. index_inv (dv_db s)) (move_file env src dst n t)"
proof -
  have "keeps (\<lambda>s. index_inv (dv_db s)) (op_bind (on_conflict (exec (MoveFile (f_ID f) (d_ID t)))) (\<lambda>_.
      op_bind (attempt (rewriteFileCaptions env (f\<lparr>f_DirID := d_ID t\<rparr>))) (\<lambda>_.
        ret (fileEntry (f\<lparr>f_DirID := d_ID t\<rparr>) (Join dst n)))))" for f
    by (intro db_intros on_conflict_db exec_keeps MoveFile_inv keeps_db_inv [OF rewriteFileCaptions_db])
  from keepsD [OF this] show ?thesis
    unfolding move_file_def
    by (intro keeps_bind ResolveDir_keeps) (auto simp: keeps_iff fail_def split: sum.split)
qed

text \<open>The directory branch of \<open>Rename\<close> and \<open>Move\<close>: one statement of the tree, then captions.\<close>

lemma dir_statement_db:
  assumes "q (dv_db s) = (Inr (), d)"
  shows "dv_db (snd (op_bind (on_conflict (exec q)) (\<lambda>_. op_bind (query (DirByID i)) (captions_after env)) s)) = d"
proof -
  have "keeps (\<lambda>s. dv_db s = d) (op_bind (query (DirByID i)) (captions_after env))"
    by (intro db_intros captions_after_db)
  from keepsD [OF this, of "s\<lparr>dv_db := d\<rparr>"] show ?thesis
    using assms by (simp add: op_bind_def on_conflict_def exec_eq)
qed

lemma rename_clean_index:
  fixes env :: "('t, 'b) env" and s :: "('t, 'b) drive"
  assumes inv: "index_inv (dv_db s)" and p: "CleanPath p = Inr clean" and v: "valid_utf8 clean"
    and n: "valid_name n" "valid_utf8 n" and fold: "en_fold env = cf" "folds_no_slash cf"
    and alone: "\<And>r. \<lbrakk>r \<in> set (db_dirs (dv_db s)); d_Path r = clean\<rbrakk> \<Longrightarrow> case_alone cf (db_dirs (dv_db s)) r"
  shows "index_inv (dv_db (snd (rename_clean env clean n s)))"
proof (cases "clean = Root")
  case True
  then show ?thesis using inv by (simp add: rename_clean_def fail_def)
next
  case ne: False
  obtain ns where ns: "clean = path_of ns" "\<forall>n \<in> set ns. valid_name n"
    using clean_names [OF p v] by metis
  then obtain ms old where ms: "ns = ms @ [old]" using ne by (cases ns rule: rev_cases) auto
  have pl: "\<forall>n \<in> set ms. plain n" "plain old" using ns(2) by (simp_all add: ms valid_plain)
  have P: "Parent clean = (path_of ms, old)" unfolding ns(1) ms by (rule Parent_path_of [OF pl])
  have cj: "clean = Join (path_of ms) old" unfolding ns(1) ms by (simp add: Join_path_of [OF pl(1)])
  have pc: "CleanPath (path_of ms) = Inr (path_of ms)" using ns(2) by (intro CleanPath_path_of) (simp add: ms)
  have nn: "dir_name n" using n by (simp add: dir_name_def valid_plain)
  show ?thesis
  proof (cases "old = n")
    case True
    then show ?thesis
      using inv keepsD [OF keeps_db_inv [where I = index_inv, OF Stat_db]] ne P by (simp add: rename_clean_def)
  next
    case old: False
    show ?thesis
    proof (cases "resolve_dir (path_of ms) (dv_db s)")
      case (Inl e)
      then show ?thesis using inv ne P old
        by (simp add: rename_clean_def ResolveDir_def with_db_def fail_def op_bind_def)
    next
      case (Inr parent)
      then have a: "anchored (dv_db s) (d_ID parent) (path_of ms)" by (rule resolve_anchored [OF _ pc])
      show ?thesis
      proof (cases "check_free (d_ID parent) n (dv_db s)")
        case (Inl e)
        then show ?thesis using inv ne P old Inr
          by (simp add: rename_clean_def ResolveDir_def with_db_def fail_def op_bind_def ret_def)
      next
        case free: (Inr u)
        show ?thesis
        proof (cases "DirByPath clean (dv_db s)")
          case found: (Inr r)
          have r: "r \<in> set (db_dirs (dv_db s))" "d_Path r = clean" using dir_by_path [OF found] by simp_all
          have par: "d_ParentID r = d_ID parent"
            using row_at_join [OF inv a r(1)] r(2) cj pl(2) by (simp add: plain_def)
          obtain pp where pp: "pp \<noteq> []" "d_Path r = Join pp (d_Name r)" "\<not> below (d_Path r) pp" "pp \<noteq> d_Path r"
            using row_place [OF inv r(1)] by metis
          have "dir_name (d_Name r)" using inv r(1) by (simp add: index_inv_def tree_inv_def)
          then have "pp = path_of ms"
            using Join_unique [of pp "d_Name r" "path_of ms" old] pp(1,2) r(2) cj pl(2)
            by (simp add: dir_name_no_slash plain_def path_of_def)
          then have np: "new_place (db_dirs (dv_db s)) r (d_ParentID r) n (Join (path_of ms) n)"
            unfolding par using pp(3,4) free by (intro new_place_free [OF inv r(1) a nn]) simp_all
          have t: "tree_inv (db_dirs (dv_db s))" using inv by (simp add: index_inv_def)
          note R = RenameDir_relocates [OF t r(1) fold(2) alone [OF r] np]
          have "index_inv ((dv_db s)\<lparr>db_dirs := map (relocate r (d_ParentID r) n (Join (path_of ms) n) (db_now (dv_db s)))
              (db_dirs (dv_db s))\<rparr>)"
            by (rule relocate_index_inv [OF inv r(1) np])
          then show ?thesis
            using dir_statement_db [where q = "RenameDir cf (d_ID r) n (Join (path_of ms) n)", OF R] ne P old Inr free found fold(1)
            by (simp add: rename_clean_def renameDir_def ResolveDir_def with_db_def op_bind_def ret_def)
        next
          case (Inl e)
          then show ?thesis
            using inv ne P old Inr free keepsD [OF renameFile_index]
            by (auto simp: rename_clean_def ResolveDir_def with_db_def op_bind_def ret_def fail_def split: sum.split)
        qed
      qed
    qed
  qed
qed

section \<open>Move\<close>

lemma Mkdir_existing:
  assumes "hk_path (en_hooks env) ''files.mkdir'' dst = Inr dst" and "CleanPath dst = Inr dst"
    and "dst = Root \<or> (\<exists>t \<in> set (db_dirs (dv_db s)). d_Path t = dst)"
  shows "\<exists>t. Mkdir env dst s = (Inr t, s) \<and> anchored (dv_db s) (d_ID t) dst"
proof (cases "dst = Root")
  case True
  then show ?thesis using assms(1,2)
    by (simp add: Mkdir_def before_path_def clean_op_def mkdir_clean_def ret_def anchored_def root_dir_def)
next
  case False
  then obtain t where "t \<in> set (db_dirs (dv_db s))" "d_Path t = dst" using assms(3) by blast
  then obtain r where r: "DirByPath dst (dv_db s) = Inr r"
    unfolding DirByPath_def by (metis (mono_tags, lifting) query_row_Inl sum.exhaust_sel sum.collapse(1) sum.collapse(2))
  then show ?thesis using assms(1,2) False dir_by_path [OF r]
    by (auto simp: Mkdir_def before_path_def clean_op_def mkdir_clean_def ret_def anchored_def)
qed

lemma below_IsDescendant: "p \<noteq> Root \<Longrightarrow> IsDescendant p q \<longleftrightarrow> below p q"
  by (simp add: IsDescendant_def)

lemma move_clean_index:
  fixes env :: "('t, 'b) env" and s :: "('t, 'b) drive"
  assumes inv: "index_inv (dv_db s)" and p: "CleanPath p = Inr src" and v: "valid_utf8 src"
    and q: "CleanPath q = Inr dst" and hook: "hk_path (en_hooks env) ''files.mkdir'' dst = Inr dst"
    and exist: "dst = Root \<or> (\<exists>t \<in> set (db_dirs (dv_db s)). d_Path t = dst)"
    and cf: "en_fold env = cf" "folds_no_slash cf"
    and alone: "\<And>r. \<lbrakk>r \<in> set (db_dirs (dv_db s)); d_Path r = src\<rbrakk> \<Longrightarrow> case_alone cf (db_dirs (dv_db s)) r"
  shows "index_inv (dv_db (snd (move_clean env src dst s)))"
proof (cases "src = Root \<or> IsDescendant src dst \<or> src = dst")
  case True
  then show ?thesis using inv by (auto simp: move_clean_def fail_def)
next
  case ok: False
  obtain ns where ns: "src = path_of ns" "\<forall>n \<in> set ns. valid_name n" "\<forall>n \<in> set ns. dir_name n"
    using clean_names [OF p v] by metis
  then obtain ms old where ms: "ns = ms @ [old]" using ok by (cases ns rule: rev_cases) auto
  have pl: "\<forall>n \<in> set ms. plain n" "plain old" "dir_name old" using ns(2,3) by (simp_all add: ms valid_plain)
  have P: "snd (Parent src) = old" unfolding ns(1) ms by (simp add: Parent_path_of [OF pl(1,2)])
  have cj: "src = Join (path_of ms) old" unfolding ns(1) ms by (simp add: Join_path_of [OF pl(1)])
  have qc: "CleanPath dst = Inr dst" using CleanPath_canonical [OF q] by (rule CleanPath_canonical_id)
  obtain t where t: "Mkdir env dst s = (Inr t, s)" and a: "anchored (dv_db s) (d_ID t) dst"
    using Mkdir_existing [OF hook qc exist] by blast
  show ?thesis
  proof (cases "check_free (d_ID t) old (dv_db s)")
    case (Inl e)
    then show ?thesis using inv ok t P
      by (simp add: move_clean_def op_bind_def with_db_def fail_def)
  next
    case free: (Inr u)
    show ?thesis
    proof (cases "DirByPath src (dv_db s)")
      case found: (Inr r)
      have r: "r \<in> set (db_dirs (dv_db s))" "d_Path r = src" using dir_by_path [OF found] by simp_all
      obtain pp where pp: "pp \<noteq> []" "d_Path r = Join pp (d_Name r)" using row_place [OF inv r(1)] by metis
      have "dir_name (d_Name r)" using inv r(1) by (simp add: index_inv_def tree_inv_def)
      then have nm: "d_Name r = old"
        using Join_unique [of pp "d_Name r" "path_of ms" old] pp r(2) cj pl(2)
        by (simp add: dir_name_no_slash plain_def path_of_def)
      have out: "\<not> below (d_Path r) dst \<and> dst \<noteq> d_Path r" using ok r(2) by (auto simp: below_IsDescendant)
      then have np: "new_place (db_dirs (dv_db s)) r (d_ID t) (d_Name r) (Join dst (d_Name r))"
        unfolding nm using free pl(3) by (intro new_place_free [OF inv r(1) a]) simp_all
      have tr: "tree_inv (db_dirs (dv_db s))" using inv by (simp add: index_inv_def)
      note R = MoveDir_relocates [OF tr r(1) cf(2) alone [OF r] np]
      have "index_inv ((dv_db s)\<lparr>db_dirs := map (relocate r (d_ID t) (d_Name r) (Join dst (d_Name r)) (db_now (dv_db s)))
          (db_dirs (dv_db s))\<rparr>)"
        by (rule relocate_index_inv [OF inv r(1) np])
      then show ?thesis
        using dir_statement_db [where q = "MoveDir cf (d_ID r) (d_ID t) (Join dst (d_Name r))", OF R] ok P free found cf(1) t nm
        by (simp add: move_clean_def with_db_def op_bind_def ret_def)
    next
      case (Inl e)
      then show ?thesis
        using inv ok P free t keepsD [OF move_file_index]
        by (auto simp: move_clean_def with_db_def op_bind_def ret_def fail_def)
    qed
  qed
qed

end
