(* ===== verification/DriveDelete.thy ===== *)
theory DriveDelete
  imports DriveChannel
begin

text \<open>
  What a deletion does to the channel.  A deletion that succeeds takes out of the channel exactly
  the messages whose rows it takes out of the index; whatever its outcome, it strands no message:
  the messages of the channel that no row refers to never become more.
\<close>

section \<open>Clearing the messages of a list\<close>

definition keys_of :: "db \<Rightarrow> TGMessage list \<Rightarrow> (string \<times> int) set" where
  "keys_of d ms = msg_key d ` set (filter (\<lambda>m. 0 < m_MsgID m) ms)"

definition orphans :: "('t \<Rightarrow> (string \<times> int) set) \<Rightarrow> ('t, 'b) drive \<Rightarrow> (string \<times> int) set" where
  "orphans live s = live (dv_tg s) - keys (dv_db s)"

definition group_keys :: "db \<Rightarrow> (string \<times> int list) list \<Rightarrow> (string \<times> int) set" where
  "group_keys d gs = (\<Union>(ch, ids) \<in> set gs. {(c_ID c, i) | c i. channelFor ch d = Inr c \<and> i \<in> set ids})"

lemma keys_all: "keys d = keys_of d (all_messages d)"
  by (simp add: keys_def keys_of_def wanted_def)

lemma group_keys_simps [simp]:
  "group_keys d [] = {}"
  "channelFor ch d = Inr c \<Longrightarrow> group_keys d ((ch, ids) # gs) = {c_ID c} \<times> set ids \<union> group_keys d gs"
  by (auto simp: group_keys_def)

lemma delete_groups_step:
  assumes "honest live a" and "delete_groups a ((ch, ids) # gs) s = (r, s')"
  obtains (stop) e where "r = Inl e" "dv_db s' = dv_db s" "live (dv_tg s') \<subseteq> live (dv_tg s)"
    | (on) c t where "channelFor ch (dv_db s) = Inr c" "live t = live (dv_tg s) - {c_ID c} \<times> set ids"
        "delete_groups a gs (s\<lparr>dv_tg := t\<rparr>) = (r, s')"
proof (cases "channelFor ch (dv_db s)")
  case (Inl e)
  then have "r = Inl e \<and> s' = s" using assms(2) by (simp add: op_bind_def with_db_def fail_def)
  then show thesis by (intro stop) simp_all
next
  case c: (Inr c)
  show thesis
  proof (cases "ac_ChannelRef a (c_ID c) (dv_tg s)")
    case (Inl e)
    then have "r = Inl (ETelegram e) \<and> s' = s"
      using assms(2) c by (simp add: op_bind_def with_db_def channelRef_def fail_def ret_def)
    then show thesis by (intro stop) simp_all
  next
    case ref: (Inr ref)
    then have cid: "cr_ChannelID ref = c_ID c" using assms(1) by (auto simp: honest_def)
    obtain x t where x: "ac_DeleteRecords a ref ids (dv_tg s) = (x, t)" by fastforce
    show thesis
    proof (cases x)
      case (Inl e)
      then have "live t \<subseteq> live (dv_tg s)" using assms(1) x unfolding honest_def by blast
      moreover have "r = Inl (ETelegram e) \<and> s' = s\<lparr>dv_tg := t\<rparr>" using assms(2) c ref x Inl
        by (simp add: op_bind_def with_db_def channelRef_def tg_call_def fail_def ret_def)
      ultimately show thesis by (intro stop) simp_all
    next
      case (Inr u)
      then have "live t = live (dv_tg s) - {c_ID c} \<times> set ids"
        using assms(1) x cid unfolding honest_def by (metis (full_types) old.unit.exhaust)
      then show thesis using assms(2) on c ref x Inr
        by (simp add: op_bind_def with_db_def channelRef_def tg_call_def ret_def)
    qed
  qed
qed

lemma delete_groups_live:
  assumes "honest live a"
  shows "delete_groups a gs s = (Inr (), s') \<Longrightarrow> live (dv_tg s') = live (dv_tg s) - group_keys (dv_db s) gs"
    and "delete_groups a gs s = (r, s') \<Longrightarrow> live (dv_tg s') \<subseteq> live (dv_tg s)"
proof (induction gs arbitrary: s r)
  case (Cons g gs)
  obtain ch ids where g: "g = (ch, ids)" by fastforce
  { case 1
    from delete_groups_step [OF assms 1 [unfolded g]] Cons.IH(1) show ?case
      by (cases rule: delete_groups_step [OF assms 1 [unfolded g]]) (auto simp: g)
  next
    case 2
    show ?case
      by (cases rule: delete_groups_step [OF assms 2 [unfolded g]]) (use Cons.IH(2) in fastforce)+
  }
qed (simp_all add: ret_def)

lemma channel_messages_mem: "i \<in> set (channel_messages ms ch) \<longleftrightarrow> (\<exists>m \<in> set ms. 0 < m_MsgID m \<and> m_ChannelID m = ch \<and> m_MsgID m = i)"
  by (auto simp: channel_messages_def)

lemma group_keys_by_channel:
  assumes "\<And>ch. ch \<in> m_ChannelID ` set (filter (\<lambda>m. 0 < m_MsgID m) ms) \<Longrightarrow> \<exists>c. channelFor ch d = Inr c"
  shows "group_keys d (by_channel ms) = keys_of d ms"
proof (rule set_eqI)
  fix k
  have "k \<in> group_keys d (by_channel ms) \<longleftrightarrow> (\<exists>ch \<in> m_ChannelID ` set (filter (\<lambda>m. 0 < m_MsgID m) ms).
      \<exists>c i. channelFor ch d = Inr c \<and> k = (c_ID c, i) \<and> i \<in> set (channel_messages ms ch))"
    by (simp add: group_keys_def by_channel_def) blast
  also have "\<dots> \<longleftrightarrow> (\<exists>m \<in> set ms. 0 < m_MsgID m \<and> (\<exists>c. channelFor (m_ChannelID m) d = Inr c \<and> k = (c_ID c, m_MsgID m)))"
    unfolding channel_messages_mem by auto
  also have "\<dots> \<longleftrightarrow> (\<exists>m \<in> set ms. 0 < m_MsgID m \<and> k = msg_key d m)"
  proof (intro bex_cong refl conj_cong)
    fix m assume "m \<in> set ms" "0 < m_MsgID m"
    then obtain c where "channelFor (m_ChannelID m) d = Inr c" using assms [of "m_ChannelID m"] by auto
    then show "(\<exists>c. channelFor (m_ChannelID m) d = Inr c \<and> k = (c_ID c, m_MsgID m)) \<longleftrightarrow> k = msg_key d m"
      by (simp add: msg_key_def)
  qed
  also have "\<dots> \<longleftrightarrow> k \<in> keys_of d ms" by (auto simp: keys_of_def)
  finally show "k \<in> group_keys d (by_channel ms) \<longleftrightarrow> k \<in> keys_of d ms" .
qed

lemma delete_groups_channels:
  "delete_groups a gs s = (Inr (), s') \<Longrightarrow> (ch, ids) \<in> set gs \<Longrightarrow> \<exists>c. channelFor ch (dv_db s) = Inr c"
proof (induction gs arbitrary: s)
  case (Cons g gs)
  obtain ch' ids' where g: "g = (ch', ids')" by fastforce
  obtain c ref t where c: "channelFor ch' (dv_db s) = Inr c" and rest: "delete_groups a gs (s\<lparr>dv_tg := t\<rparr>) = (Inr (), s')"
    using Cons.prems(1) unfolding g
    by (auto simp: op_bind_def with_db_def channelRef_def tg_call_def lift_def split: prod.splits sum.splits)
  show ?case using Cons.IH [OF rest] Cons.prems(2) c by (auto simp: g)
qed simp

lemma honest_first: "\<lbrakk>honest_env live env; en_accounts env t = a # as\<rbrakk> \<Longrightarrow> honest live a"
  unfolding honest_env_def by (metis list.set_intros(1))

lemma deleteMessages_live:
  assumes env: "honest_env live env"
  shows "deleteMessages env ms s = (Inr (), s') \<Longrightarrow> live (dv_tg s') = live (dv_tg s) - keys_of (dv_db s) ms"
    and "deleteMessages env ms s = (r, s') \<Longrightarrow> live (dv_tg s') \<subseteq> live (dv_tg s)"
proof -
  show "live (dv_tg s') \<subseteq> live (dv_tg s)" if m: "deleteMessages env ms s = (r, s')"
  proof (cases "ms = [] \<or> en_accounts env (dv_tg s) = []")
    case True
    then show ?thesis using m by (auto simp: deleteMessages_def ret_def op_bind_def metaAccount_def split: if_splits)
  next
    case False
    then obtain a as where as: "en_accounts env (dv_tg s) = a # as" by (cases "en_accounts env (dv_tg s)") auto
    then have "delete_groups a (by_channel ms) s = (r, s')"
      using m False by (simp add: deleteMessages_def op_bind_def metaAccount_def)
    moreover have "honest live a" using env as by (rule honest_first)
    ultimately show ?thesis using delete_groups_live(2) by blast
  qed
  assume m: "deleteMessages env ms s = (Inr (), s')"
  show "live (dv_tg s') = live (dv_tg s) - keys_of (dv_db s) ms"
  proof (cases "ms = []")
    case True
    then show ?thesis using m by (simp add: deleteMessages_def ret_def keys_of_def)
  next
    case False
    then obtain a as where as: "en_accounts env (dv_tg s) = a # as" and g: "delete_groups a (by_channel ms) s = (Inr (), s')"
      using m by (auto simp: deleteMessages_def metaAccount_def op_bind_def split: list.splits)
    have "honest live a" using env as by (rule honest_first)
    moreover have "group_keys (dv_db s) (by_channel ms) = keys_of (dv_db s) ms"
      by (intro group_keys_by_channel, rule delete_groups_channels [OF g, of _ "channel_messages ms _"])
        (auto simp: by_channel_def)
    ultimately show ?thesis using delete_groups_live(1) [OF _ g] by simp
  qed
qed

section \<open>Deleting rows and messages\<close>

text \<open>What a deletion leaves, for each outcome.\<close>

definition cleared :: "('t \<Rightarrow> (string \<times> int) set) \<Rightarrow> ('t, 'b) drive \<Rightarrow> (drive_error + unit) \<times> ('t, 'b) drive \<Rightarrow> bool" where
  "cleared live s res \<longleftrightarrow>
     (case res of (r, s') \<Rightarrow>
        orphans live s' \<subseteq> orphans live s \<and>
        (r = Inr () \<and> backed live s \<longrightarrow> backed live s' \<and>
           live (dv_tg s') = live (dv_tg s) - (keys (dv_db s) - keys (dv_db s'))))"

lemma cleared_error: "\<lbrakk>dv_db s' = dv_db s; live (dv_tg s') \<subseteq> live (dv_tg s)\<rbrakk> \<Longrightarrow> cleared live s (Inl e, s')"
  by (auto simp: cleared_def orphans_def)

lemma cleared_success:
  assumes part: "mset (all_messages (dv_db s)) = mset ms + mset (all_messages (dv_db s'))"
    and ch: "db_channels (dv_db s') = db_channels (dv_db s)"
    and live: "live (dv_tg s') = live (dv_tg s) - keys_of (dv_db s) ms"
  shows "cleared live s (Inr (), s')"
proof -
  let ?h = "\<lambda>m. 0 < m_MsgID m" and ?k = "msg_key (dv_db s)"
  have k: "msg_key (dv_db s') = ?k" by (rule msg_key_cong [OF ch])
  have m: "mset (map ?k (wanted (dv_db s))) = mset (map ?k (filter ?h ms)) + mset (map ?k (wanted (dv_db s')))"
    unfolding wanted_def mset_map mset_filter part by simp
  from arg_cong [OF this, of set_mset] have K: "keys (dv_db s) = keys_of (dv_db s) ms \<union> keys (dv_db s')"
    by (simp add: keys_def keys_of_def k)
  have o: "orphans live s' \<subseteq> orphans live s" using live K by (auto simp: orphans_def)
  show ?thesis
  proof (cases "backed live s")
    case True
    then have "distinct (map ?k (filter ?h ms) @ map ?k (wanted (dv_db s')))"
      using m unfolding backed_def by (metis mset_append mset_eq_imp_distinct_iff)
    then have "distinct (map ?k (wanted (dv_db s')))" "keys_of (dv_db s) ms \<inter> keys (dv_db s') = {}"
      by (auto simp: keys_def keys_of_def k)
    then show ?thesis using True o live K unfolding cleared_def backed_def by (auto simp: k)
  qed (use o in \<open>simp add: cleared_def\<close>)
qed

lemma FileMessages_partition:
  assumes fi: "files_inv d"
  shows "mset (all_messages d) = mset (FileMessages fid d) + mset (all_messages (delete_files (\<lambda>f. f_ID f = fid) d))"
proof -
  let ?P = "\<lambda>f. f_ID f = fid" and ?m = "\<lambda>f. file_messages f (db_segments d)"
  have sorted: "mset (file_messages f (sort_key g_Index gs)) = mset (file_messages f gs)" for f gs
    by (simp add: file_messages_def)
  have a: "mset (FileMessages fid d) = mset (concat (map ?m (filter ?P (db_files d))))"
    by (simp add: FileMessages_def mset_concat sorted comp_def)
  have b: "map (\<lambda>f. file_messages f (db_segments (delete_files ?P d))) (filter (\<lambda>f. \<not> ?P f) (db_files d))
      = map ?m (filter (\<lambda>f. \<not> ?P f) (db_files d))"
    using kept_messages [OF fi] by (intro map_cong) auto
  have "all_messages (delete_files ?P d) = dir_messages (db_dirs d) @ concat (map ?m (filter (\<lambda>f. \<not> ?P f) (db_files d)))"
    unfolding all_messages_def b [symmetric] by (simp add: delete_files_def Let_def)
  then show ?thesis
    unfolding a using mset_concat_split [of ?m "db_files d" ?P] by (simp add: all_messages_def)
qed

lemma deleteFileRow_cleared:
  assumes env: "honest_env live env" and inv: "index_inv (dv_db s)"
  shows "cleared live s (deleteFileRow env f s)"
proof (cases "deleteMessages env (FileMessages (f_ID f) (dv_db s)) s")
  case (Pair r s1)
  have db: "dv_db s1 = dv_db s" using keepsD [OF deleteMessages_db [of "dv_db s"], of s env] Pair by (metis snd_conv)
  show ?thesis
  proof (cases r)
    case (Inl e)
    then have "deleteFileRow env f s = (Inl e, s1)"
      using Pair by (simp add: deleteFileRow_def op_bind_def with_db_def ret_def)
    then show ?thesis using deleteMessages_live(2) [OF env Pair] db by (simp add: cleared_error)
  next
    case (Inr u)
    then have s1: "deleteMessages env (FileMessages (f_ID f) (dv_db s)) s = (Inr (), s1)" using Pair by simp
    note l = deleteMessages_live(1) [OF env s1]
    let ?s2 = "s1\<lparr>dv_refs := refs_Forget (f_ID f) (dv_refs s1)\<rparr>"
    have eq: "deleteFileRow env f s = exec (DeleteFile (f_ID f)) ?s2"
      using s1 by (simp add: deleteFileRow_def op_bind_def with_db_def ret_def forget_refs_def)
    show ?thesis
    proof (cases "file_exists (f_ID f) (dv_db s)")
      case True
      then have "deleteFileRow env f s = (Inr (), ?s2\<lparr>dv_db := delete_files (\<lambda>x. f_ID x = f_ID f) (dv_db s)\<rparr>)"
        unfolding eq exec_eq using db by (simp add: DeleteFile_def)
      moreover have "files_inv (dv_db s)" using inv by (simp add: index_inv_def)
      ultimately show ?thesis
        using FileMessages_partition [of "dv_db s" "f_ID f"] l
        by (simp, intro cleared_success [where ms = "FileMessages (f_ID f) (dv_db s)"]) (simp_all add: delete_files_def Let_def)
    next
      case False
      then have "deleteFileRow env f s = (Inl (EDb ErrNotFound), ?s2)"
        unfolding eq exec_eq using db by (simp add: DeleteFile_def)
      then show ?thesis using l db by (auto intro: cleared_error)
    qed
  qed
qed

lemma deleteDir_cleared:
  assumes env: "honest_env live env" and inv: "index_inv (dv_db s)" and r: "r \<in> set (db_dirs (dv_db s))"
    and cf: "en_fold env = cf" "folds_no_slash cf" "case_alone cf (db_dirs (dv_db s)) r"
  shows "cleared live s (op_bind (query (SubtreeMessages (en_fold env) (d_ID r))) (\<lambda>msgs.
    op_bind (deleteMessages env msgs) (\<lambda>_. exec (DeleteDir (d_ID r)))) s)"
proof -
  obtain ms where ms: "SubtreeMessages cf (d_ID r) (dv_db s) = Inr ms"
    using SubtreeMessages_rows [OF inv r cf(2,3)] by blast
  note part = messages_partition [OF inv r cf(2,3) ms]
  have t: "tree_inv (db_dirs (dv_db s))" using inv by (simp add: index_inv_def)
  obtain d' where d': "DeleteDir (d_ID r) (dv_db s) = (Inr (), d')" "db_channels d' = db_channels (dv_db s)"
    using DeleteDir_result [OF t r] by (auto simp: delete_files_def Let_def)
  obtain x s1 where s1: "deleteMessages env ms s = (x, s1)" by fastforce
  have db: "dv_db s1 = dv_db s" using keepsD [OF deleteMessages_db [of "dv_db s"], of s env] s1 by (metis snd_conv)
  have run: "op_bind (query (SubtreeMessages (en_fold env) (d_ID r))) (\<lambda>msgs.
    op_bind (deleteMessages env msgs) (\<lambda>_. exec (DeleteDir (d_ID r)))) s =
    (case x of Inl e \<Rightarrow> (Inl e, s1) | Inr _ \<Rightarrow> (Inr (), s1\<lparr>dv_db := d'\<rparr>))"
    using ms s1 d' db cf(1) by (simp add: op_bind_def query_def ret_def exec_eq split: sum.split)
  show ?thesis
  proof (cases x)
    case (Inl e)
    then show ?thesis unfolding run using deleteMessages_live(2) [OF env s1] db by (simp add: cleared_error)
  next
    case (Inr u)
    then have "live (dv_tg s1) = live (dv_tg s) - keys_of (dv_db s) ms" using deleteMessages_live(1) [OF env] s1 by simp
    then show ?thesis unfolding run using Inr part d' by (simp, intro cleared_success [where ms = ms]) simp_all
  qed
qed

lemma cleared_refl: "cleared live s (Inl e, s)"
  by (rule cleared_error) simp_all

lemma delete_clean_cleared:
  assumes env: "honest_env live env" and inv: "index_inv (dv_db s)" and cf: "folds_no_slash (en_fold env)"
    and alone: "\<And>r. \<lbrakk>r \<in> set (db_dirs (dv_db s)); d_Path r = clean\<rbrakk> \<Longrightarrow> case_alone (en_fold env) (db_dirs (dv_db s)) r"
  shows "cleared live s (delete_clean env clean s)"
proof (cases "clean = Root")
  case True
  then show ?thesis by (simp add: delete_clean_def fail_def cleared_refl)
next
  case ne: False
  show ?thesis
  proof (cases "DirByPath clean (dv_db s)")
    case found: (Inr r)
    have r: "r \<in> set (db_dirs (dv_db s))" "d_Path r = clean" using dir_by_path [OF found] by simp_all
    show ?thesis
      using deleteDir_cleared [OF env inv r(1) refl cf alone [OF r]] ne found by (simp add: delete_clean_def)
  next
    case (Inl e)
    obtain pp name where P: "Parent clean = (pp, name)" by fastforce
    show ?thesis
      using ne Inl deleteFileRow_cleared [OF env inv]
      by (cases "resolve_dir pp (dv_db s)"; cases "FileInDir (d_ID (projr (resolve_dir pp (dv_db s)))) name (dv_db s)")
        (simp_all add: P delete_clean_def fail_def op_bind_def ResolveDir_def with_db_def ret_def cleared_refl)
  qed
qed

end
