(* ===== verification/DriveProps.thy ===== *)
theory DriveProps
  imports DriveDelete TagRoundTrip
begin

text \<open>
  The properties of the drive service over its whole state, and a channel to run it on: a list of
  messages that numbers them as Telegram does, one account, no plugins.
\<close>

section \<open>A channel in memory\<close>

type_synonym messages = "(string \<times> int) list"

definition fresh_msg :: "messages \<Rightarrow> int" where
  "fresh_msg t = 1 + foldr max (map snd t) 0"

definition sim_account :: "(messages, char) account" where
  "sim_account = \<lparr>ac_ID = ''main'', ac_Available = (\<lambda>_. True),
     ac_ChannelRef = (\<lambda>cid _. Inr \<lparr>cr_ChannelID = cid, cr_TGID = 7, cr_AccessHash = 9\<rparr>),
     ac_SendRecord = (\<lambda>ref _ t. (Inr (fresh_msg t), (cr_ChannelID ref, fresh_msg t) # t)),
     ac_EditRecord = (\<lambda>_ _ _ t. (Inr (), t)),
     ac_DeleteRecords = (\<lambda>ref ids t. (Inr (), filter (\<lambda>x. \<not> (fst x = cr_ChannelID ref \<and> snd x \<in> set ids)) t)),
     ac_Upload = (\<lambda>ref spec t. (Inr \<lparr>sd_MsgID = fresh_msg t, sd_DocID = 11, sd_AccessHash = 13, sd_DCID = 2,
       sd_FileReference = ''ref'', sd_Size = int (length (us_Body spec))\<rparr>, (cr_ChannelID ref, fresh_msg t) # t))\<rparr>"

definition sim_env :: "(messages, char) env" where
  "sim_env = \<lparr>en_accounts = (\<lambda>_. [sim_account]), en_newID = (\<lambda>n. butlast sample_ulid @ [char_of (48 + n mod 10)]),
     en_letter = (\<lambda>_. False), en_digit = (\<lambda>_. False), en_lower = (\<lambda>c. c), en_fold = ascii_fold, en_segmentSize = 4,
     en_mime = (\<lambda>_. []), en_text = (\<lambda>_. ''error''), en_hooks = no_hooks\<rparr>"

definition sim_channel :: Channel where
  "sim_channel = \<lparr>c_ID = ''ch'', c_TGID = 7, c_AccessHash = 9, c_Title = ''tdrive'', c_IsDefault = True, c_CreatedAt = 0\<rparr>"

definition sim_drive :: "db \<Rightarrow> messages \<Rightarrow> (messages, char) drive" where
  "sim_drive d t = \<lparr>dv_db = d\<lparr>db_channels := [sim_channel]\<rparr>, dv_tg = t, dv_seq = 0, dv_refs = [], dv_uploadJobs = [], dv_jobAccounts = []\<rparr>"

lemma fresh_msg: "(c, fresh_msg t) \<notin> set t" "0 < fresh_msg t"
proof -
  have "i \<le> foldr max (map snd t) 0" if "(c, i) \<in> set t" for i
    using that by (induction t) auto
  then show "(c, fresh_msg t) \<notin> set t" by (fastforce simp: fresh_msg_def)
  have "0 \<le> foldr max (map snd t) (0::int)" by (induction t) auto
  then show "0 < fresh_msg t" by (simp add: fresh_msg_def)
qed

lemma sim_honest: "honest_env set sim_env"
  by (auto simp: honest_env_def sim_env_def honest_def sim_account_def fresh_msg)

definition sample_drive :: "(messages, char) drive" where
  "sample_drive = sim_drive small_index [(''ch'', 4), (''ch'', 3), (''ch'', 2), (''ch'', 1)]"

lemma sim_mkdir: "\<exists>s'. Mkdir sim_env ''/x'' sample_drive =
    (Inr \<lparr>d_ID = butlast sample_ulid @ [char_of (48 :: nat)], d_ParentID = [], d_Name = ''x'', d_Path = ''/x'',
      d_ChannelID = ''ch'', d_TGMsgID = 5, d_CreatedAt = 0, d_UpdatedAt = 0, d_OwnerID = []\<rparr>, s')"
proof -
  let ?i = "butlast sample_ulid @ [char_of (48 :: nat)]"
  have u: "is_ulid ?i" by code_simp
  have v: "validateName ''x'' = Inr ()" by code_simp
  have c: "CleanPath ''/x'' = Inr ''/x''" "SplitPath ''/x'' = [''x'']" "Join ''/'' ''x'' = ''/x''" by code_simp+
  obtain cap where e: "EncodeDir ?i [] ''x'' ''/x'' = Inr cap" using EncodeDir_succeeds [OF u _ v] by blast
  have q: "DirByPath ''/x'' (dv_db sample_drive) = Inl ErrNotFound" "FileInDir [] ''x'' (dv_db sample_drive) = Inl ErrNotFound"
    "storageChannel (dv_db sample_drive) = Inr sim_channel"
    by code_simp+
  have "\<exists>d. InsertDir \<lparr>d_ID = ?i, d_ParentID = [], d_Name = ''x'', d_Path = ''/x'', d_ChannelID = ''ch'',
      d_TGMsgID = 5, d_CreatedAt = 0, d_UpdatedAt = 0, d_OwnerID = []\<rparr> (dv_db sample_drive) = (Inr (), d)"
    by (rule exI, code_simp)
  then obtain d where ins: "InsertDir \<lparr>d_ID = ?i, d_ParentID = [], d_Name = ''x'', d_Path = ''/x'', d_ChannelID = ''ch'',
      d_TGMsgID = 5, d_CreatedAt = 0, d_UpdatedAt = 0, d_OwnerID = []\<rparr> (dv_db sample_drive) = (Inr (), d)" ..
  have en: "en_accounts sim_env = (\<lambda>_. [sim_account])" "en_hooks sim_env = no_hooks" "en_newID sim_env 0 = ?i" "dv_seq sample_drive = 0"
    "dv_tg sample_drive = [(''ch'', 4), (''ch'', 3), (''ch'', 2), (''ch'', 1)]"
    by (simp_all add: sim_env_def sample_drive_def sim_drive_def)
  show ?thesis
    using ins e q
    by (simp add: Mkdir_def before_path_def clean_op_def mkdir_clean_def mkdir_step_def createDir_def NewID_def en c no_hooks_def
      with_db_def ret_def op_bind_def Root_def metaAccount_def channelRef_def tg_call_def sim_account_def fresh_msg_def insert_dir_op_eq
      sim_channel_def root_dir_def)
qed

lemma sample_delete:
  "fst (Delete sim_env ''/films'' sample_drive) = Inr ()"
  "dv_tg (snd (Delete sim_env ''/films'' sample_drive)) = [(''ch'', 2)]"
  "keys (dv_db sample_drive) - keys (dv_db (snd (Delete sim_env ''/films'' sample_drive))) = {(''ch'', 1), (''ch'', 3), (''ch'', 4)}"
  by code_simp+


lemma sample_drive_inv: "index_inv (dv_db sample_drive)"
  using small_index_inv
  by (simp add: sample_drive_def sim_drive_def index_inv_def files_inv_def dir_exists_def file_exists_def)

lemma sample_drive_backed: "backed set sample_drive"
  unfolding backed_def by code_simp

lemma sample_clean: "CleanPath ''/films'' = Inr ''/films''"
  by code_simp

lemma sample_alone: "\<forall>r \<in> set (db_dirs (dv_db sample_drive)). d_Path r = ''/films'' \<longrightarrow>
    case_alone (en_fold sim_env) (db_dirs (dv_db sample_drive)) r"
  using small_index_alone by (simp add: sample_drive_def sim_drive_def small_index_def mk_defs sim_env_def)

lemma sim_hooks: "en_hooks sim_env = no_hooks" "en_fold sim_env = ascii_fold" "hk_path no_hooks nm p = Inr p"
  "hk_rename no_hooks x = Inr x" "hk_move no_hooks x = Inr x"
  by (simp_all add: sim_env_def no_hooks_def)

text \<open>A plugin that answers every \<open>files.mkdir\<close> request with another path.\<close>

definition redirect_env :: "(messages, char) env" where
  "redirect_env = sim_env\<lparr>en_accounts := (\<lambda>_. []),
     en_hooks := no_hooks\<lparr>hk_path := (\<lambda>op p. if op = ''files.mkdir'' then Inr ''/books'' else Inr p)\<rparr>\<rparr>"

section \<open>Properties\<close>

text \<open>Creating a directory that succeeds leaves a well-formed index in which every row that was
there before is still there unchanged and in place; the directory it returns is stored under the
requested path (or is the root); and a second call finds that directory, creates nothing and
changes nothing.\<close>

theorem Mkdir_establishes:
  assumes "index_inv (dv_db s)" and "hk_path (en_hooks env) ''files.mkdir'' p0 = Inr p"
    and "CleanPath p = Inr clean" and "valid_utf8 clean" and "Mkdir env p0 s = (Inr x, s')"
  shows "index_inv (dv_db s') \<and> grows (dv_db s) (dv_db s') \<and> anchored (dv_db s') (d_ID x) clean \<and>
    (\<exists>y. Mkdir env p0 s' = (Inr y, s') \<and> d_ID y = d_ID x)"
proof -
  have m: "mkdir_clean env clean s = (Inr x, s')"
    using assms(2,3,5) by (simp add: Mkdir_def before_path_def clean_op_def)
  have post: "dir_state (dv_db s) s' \<and> anchored (dv_db s') (d_ID x) clean"
    using tripleD [OF mkdir_clean_triple [OF assms(3,4), of "dv_db s" env] _ m] assms(1) by (simp add: grows_refl)
  have "\<exists>y. mkdir_clean env clean s' = (Inr y, s') \<and> d_ID y = d_ID x"
  proof (cases "clean = Root")
    case True
    then have "anchored (dv_db s') [] clean" by (simp add: anchored_def)
    then show ?thesis using True post anchored_unique by (fastforce simp: mkdir_clean_def ret_def root_dir_def)
  next
    case False
    then obtain r where "r \<in> set (db_dirs (dv_db s'))" "d_Path r = clean" using post by (auto simp: anchored_def)
    then obtain y where y: "DirByPath clean (dv_db s') = Inr y"
      unfolding DirByPath_def by (cases "query_row (\<lambda>r. d_Path r = clean) (db_dirs (dv_db s'))") (auto simp: query_row_Inl)
    then have "anchored (dv_db s') (d_ID y) clean" using dir_by_path [OF y] by (auto simp: anchored_def)
    then have "d_ID y = d_ID x" using post anchored_unique by blast
    then show ?thesis using y False by (simp add: mkdir_clean_def ret_def)
  qed
  then show ?thesis
    using post assms(2,3) by (simp add: Mkdir_def before_path_def clean_op_def)
qed

theorem Mkdir_establishes_witness:
  "\<exists>x s'. Mkdir sim_env ''/x'' sample_drive = (Inr x, s') \<and> anchored (dv_db s') (d_ID x) ''/x'' \<and>
     grows (dv_db sample_drive) (dv_db s')"
proof -
  obtain x s' where m: "Mkdir sim_env ''/x'' sample_drive = (Inr x, s')" using sim_mkdir by blast
  have "CleanPath ''/x'' = Inr ''/x''" by code_simp
  then show ?thesis using Mkdir_establishes [OF sample_drive_inv _ _ _ m] m
    by (auto simp: sim_hooks valid_utf8_ascii)
qed

text \<open>A directory creation that fails half way, at any call to Telegram or to the index, leaves
the index well formed with all its rows, and never a row whose message the channel does not hold:
provided the accounts do what the backend documents, every message of the index is in the channel
after it, and no two rows share one.\<close>

theorem Mkdir_survives_failure:
  assumes "honest_env live env" and "index_inv (dv_db s)" and "backed live s"
    and "hk_path (en_hooks env) ''files.mkdir'' p0 = Inr p" and "CleanPath p = Inr clean" and "valid_utf8 clean"
    and "Mkdir env p0 s = (r, s')"
  shows "index_inv (dv_db s') \<and> grows (dv_db s) (dv_db s') \<and> backed live s'"
proof -
  have m: "mkdir_clean env clean s = (r, s')"
    using assms(4,5,7) by (simp add: Mkdir_def before_path_def clean_op_def)
  note T = mkdir_clean_triple [OF assms(5,6), of "dv_db s" env]
  have "dir_state (dv_db s) s'"
    using m tripleD [OF T] tripleD_error [OF T] assms(2) grows_refl by (cases r) blast+
  moreover have "backed live s'" using keepsD [OF Mkdir_backed [OF assms(1)] assms(3), of p0] assms(7) by simp
  ultimately show ?thesis by simp
qed

theorem Mkdir_survives_failure_witness:
  "\<exists>s'. Mkdir sim_env ''/films/new/x.mkv'' sample_drive = (Inl EExists, s') \<and> index_inv (dv_db s') \<and> backed set s'"
proof -
  have "fst (Mkdir sim_env ''/films/new/x.mkv'' sample_drive) = Inl EExists" by code_simp
  then obtain s' where m: "Mkdir sim_env ''/films/new/x.mkv'' sample_drive = (Inl EExists, s')"
    by (metis prod.collapse)
  have "CleanPath ''/films/new/x.mkv'' = Inr ''/films/new/x.mkv''" by code_simp
  then show ?thesis
    using Mkdir_survives_failure [OF sim_honest sample_drive_inv sample_drive_backed _ _ _ m] m
    by (auto simp: sim_hooks valid_utf8_ascii)
qed

text \<open>A deletion that succeeds takes out of the channel exactly the messages whose rows it takes
out of the index, and nothing else; every message the index still names is still in the channel.\<close>

theorem Delete_clears_exactly:
  assumes "honest_env live env" and "index_inv (dv_db s)" and "backed live s" and "folds_no_slash (en_fold env)"
    and "hk_path (en_hooks env) ''files.delete'' p0 = Inr p" and "CleanPath p = Inr clean"
    and "\<forall>r \<in> set (db_dirs (dv_db s)). d_Path r = clean \<longrightarrow> case_alone (en_fold env) (db_dirs (dv_db s)) r"
    and "Delete env p0 s = (Inr (), s')"
  shows "index_inv (dv_db s') \<and> backed live s' \<and>
    live (dv_tg s') = live (dv_tg s) - (keys (dv_db s) - keys (dv_db s'))"
proof -
  have d: "delete_clean env clean s = (Inr (), s')"
    using assms(5,6,8) by (simp add: Delete_def before_path_def clean_op_def)
  have "cleared live s (Inr (), s')"
    using delete_clean_cleared [OF assms(1,2,4), of clean] assms(7) d by simp
  moreover have "index_inv (dv_db s')" using keepsD [OF delete_clean_index [of env clean] assms(2)] d by simp
  ultimately show ?thesis using assms(3) by (simp add: cleared_def)
qed

theorem Delete_clears_exactly_witness:
  "\<exists>s'. Delete sim_env ''/films'' sample_drive = (Inr (), s') \<and> index_inv (dv_db s') \<and>
     set (dv_tg s') = set (dv_tg sample_drive) - {(''ch'', 1), (''ch'', 3), (''ch'', 4)}"
proof -
  obtain s' where d: "Delete sim_env ''/films'' sample_drive = (Inr (), s')"
    using sample_delete(1) by (metis prod.collapse)
  show ?thesis
    using Delete_clears_exactly [OF sim_honest sample_drive_inv sample_drive_backed _ _ sample_clean sample_alone d]
      sample_delete(3) d
    by (simp add: sim_hooks ascii_fold_slash)
qed

text \<open>C18: whatever the outcome, a deletion keeps the index well formed and strands no message: the
messages of the channel that no row refers to never become more, where no other folder has the path of the
deleted one up to the case folding of \<open>LIKE\<close>.  This is why Telegram is cleared before the index.\<close>

theorem Delete_strands_nothing:
  assumes "honest_env live env" and "index_inv (dv_db s)" and "folds_no_slash (en_fold env)"
    and "hk_path (en_hooks env) ''files.delete'' p0 = Inr p" and "CleanPath p = Inr clean"
    and "\<forall>r \<in> set (db_dirs (dv_db s)). d_Path r = clean \<longrightarrow> case_alone (en_fold env) (db_dirs (dv_db s)) r"
    and "Delete env p0 s = (r, s')"
  shows "index_inv (dv_db s') \<and> orphans live s' \<subseteq> orphans live s"
proof -
  have d: "delete_clean env clean s = (r, s')"
    using assms(4,5,7) by (simp add: Delete_def before_path_def clean_op_def)
  have "cleared live s (r, s')"
    using delete_clean_cleared [OF assms(1,2,3), of clean] assms(6) d by simp
  moreover have "index_inv (dv_db s')" using keepsD [OF delete_clean_index [of env clean] assms(2)] d by simp
  ultimately show ?thesis by (simp add: cleared_def)
qed

theorem Delete_strands_nothing_witness:
  "orphans set (snd (Delete sim_env ''/films'' sample_drive)) \<subseteq> orphans set sample_drive"
  using Delete_strands_nothing [OF sim_honest sample_drive_inv _ _ sample_clean sample_alone surjective_pairing]
  by (simp add: sim_hooks ascii_fold_slash)

text \<open>Renaming keeps the index well formed, whatever its outcome.\<close>

theorem Rename_keeps_index:
  assumes "index_inv (dv_db s)" and "hk_rename (en_hooks env) (p0, n0) = Inr (p, n)" and "CleanPath p = Inr clean"
    and "valid_utf8 clean" and "valid_utf8 n" and "folds_no_slash (en_fold env)"
    and "\<forall>r \<in> set (db_dirs (dv_db s)). d_Path r = clean \<longrightarrow> case_alone (en_fold env) (db_dirs (dv_db s)) r"
  shows "index_inv (dv_db (snd (Rename env p0 n0 s)))"
proof (cases "ValidateName n")
  case (Inl e)
  then show ?thesis using assms(1,2) by (simp add: Rename_def fail_def)
next
  case (Inr u)
  then have "valid_name n" by (simp add: valid_name_def)
  then show ?thesis
    using rename_clean_index [OF assms(1,3,4) _ assms(5) refl assms(6)] assms(2,3,7) Inr by (simp add: Rename_def clean_op_def)
qed

theorem Rename_keeps_index_witness:
  "index_inv (dv_db (snd (Rename sim_env ''/films'' ''movies'' sample_drive)))"
  using Rename_keeps_index [OF sample_drive_inv _ sample_clean _ _ _ sample_alone, of "''/films''" "''movies''" "''movies''"]
  by (simp add: sim_hooks ascii_fold_slash valid_utf8_ascii)

text \<open>Moving into an existing directory keeps the index well formed, whatever its outcome, as long
as no plugin redirects the creation of the destination.\<close>

theorem Move_keeps_index:
  assumes "index_inv (dv_db s)" and "hk_move (en_hooks env) (p0, q0) = Inr (p, q)"
    and "CleanPath p = Inr src" and "valid_utf8 src" and "CleanPath q = Inr dst"
    and "hk_path (en_hooks env) ''files.mkdir'' dst = Inr dst"
    and "dst = Root \<or> list_ex (\<lambda>t. d_Path t = dst) (db_dirs (dv_db s))" and "folds_no_slash (en_fold env)"
    and "\<forall>r \<in> set (db_dirs (dv_db s)). d_Path r = src \<longrightarrow> case_alone (en_fold env) (db_dirs (dv_db s)) r"
  shows "index_inv (dv_db (snd (Move env p0 q0 s)))"
  using move_clean_index [OF assms(1,3,4,5,6) _ refl assms(8)] assms(2,3,5,7,9)
  by (simp add: Move_def clean_op_def list_ex_iff)

theorem Move_keeps_index_witness:
  "index_inv (dv_db (snd (Move sim_env ''/films'' ''/books'' sample_drive)))"
proof -
  have "CleanPath ''/books'' = Inr ''/books''" by code_simp
  then show ?thesis
    using Move_keeps_index [OF sample_drive_inv _ sample_clean _ _ _ _ _ sample_alone, of "''/films''" "''/books''" "''/books''" "''/books''"]
    by (simp add: sim_hooks ascii_fold_slash valid_utf8_ascii) (simp add: sample_drive_def sim_drive_def small_index_def mk_defs)
qed

text \<open>A plugin that rewrites the path of \<open>files.mkdir\<close> breaks the index through \<open>Move\<close>: the
destination is created by \<open>Mkdir\<close>, which the hook sends elsewhere, but the new path is computed
from the destination the client asked for, so the moved row sits below one directory and has a
path below another that does not even exist.\<close>

theorem Move_redirected_breaks_index:
  "index_inv (dv_db sample_drive) \<and> \<not> index_inv (dv_db (snd (Move redirect_env ''/films/new'' ''/x'' sample_drive)))"
proof
  let ?s = sample_drive and ?r = "mk_dir ''c'' ''a'' ''new'' ''/films/new'' 3" and ?t = "mk_dir ''b'' [] ''books'' ''/books'' 2"
  let ?dirs = "[mk_dir ''a'' [] ''films'' ''/films'' 1, ?t, mk_dir ''c'' ''b'' ''new'' ''/x/new'' 3]"
  have c: "CleanPath ''/films/new'' = Inr ''/films/new''" "CleanPath ''/x'' = Inr ''/x''" "CleanPath ''/books'' = Inr ''/books''"
    "Parent ''/films/new'' = (''/films'', ''new'')" "\<not> IsDescendant ''/films/new'' ''/x''" "Join ''/x'' ''new'' = ''/x/new''"
    by code_simp+
  have q: "DirByPath ''/books'' (dv_db ?s) = Inr ?t" "DirByPath ''/films/new'' (dv_db ?s) = Inr ?r"
    "check_free ''b'' ''new'' (dv_db ?s) = Inr ()"
    by code_simp+
  have i: "d_ID ?t = ''b''" "d_ID ?r = ''c''" by (simp_all add: mk_dir_def)
  have e: "hk_move (en_hooks redirect_env) x = Inr x" "hk_path (en_hooks redirect_env) ''files.mkdir'' ''/x'' = Inr ''/books''"
    "en_fold redirect_env = ascii_fold" for x
    by (simp_all add: redirect_env_def no_hooks_def sim_env_def)
  have mk: "Mkdir redirect_env ''/x'' ?s = (Inr ?t, ?s)"
    using q e by (simp add: Mkdir_def before_path_def clean_op_def mkdir_clean_def c Root_def ret_def)
  have m: "MoveDir ascii_fold ''c'' ''b'' ''/x/new'' (dv_db ?s) = (Inr (), (dv_db ?s)\<lparr>db_dirs := ?dirs\<rparr>)"
    by code_simp
  have "Move redirect_env ''/films/new'' ''/x'' ?s =
      op_bind (on_conflict (exec (MoveDir ascii_fold ''c'' ''b'' ''/x/new''))) (\<lambda>_.
        op_bind (query (DirByID ''c'')) (captions_after redirect_env)) ?s"
    using q mk e by (simp add: Move_def clean_op_def c move_clean_def op_bind_def with_db_def ret_def Root_def Let_def i)
  then have "dv_db (snd (Move redirect_env ''/films/new'' ''/x'' ?s)) = (dv_db ?s)\<lparr>db_dirs := ?dirs\<rparr>"
    using dir_statement_db [where q = "MoveDir ascii_fold ''c'' ''b'' ''/x/new''", OF m] by simp
  then show "\<not> index_inv (dv_db (snd (Move redirect_env ''/films/new'' ''/x'' sample_drive)))"
    by (simp add: index_inv_def tree_inv_def parent_ok_def mk_dir_def Root_def)
qed (rule sample_drive_inv)

end
