(* ===== verification/Upload.thy ===== *)
theory Upload
  imports DriveProps
begin

text \<open>
  The upload path, \<open>internal/drive/upload.go\<close>, with the segment geometry of \<open>config.go\<close>, the quota
  check of \<open>scope.go\<close> and the pinning of a job to an account of \<open>limiter.go\<close>.  A reader is the list
  of bytes it delivers; \<open>io.LimitReader(r, n)\<close> hands on the first \<open>n\<close> and the next segment starts
  after them.  Progress callbacks, logging and the registration of workers for cancellation (theory
  \<open>Leases\<close>) are left out; what admission answers is an argument (theory \<open>Quota\<close>).
\<close>

section \<open>Geometry\<close>

text \<open>The configured segment size is positive, so Go's truncating division is \<open>div\<close>.\<close>

definition SegmentCount :: "int \<Rightarrow> int \<Rightarrow> int" where
  "SegmentCount segmentSize nbytes =
     (if nbytes \<le> 0 then 1
      else let n = nbytes div segmentSize in if nbytes mod segmentSize \<noteq> 0 then n + 1 else n)"

definition SegmentSize :: "int \<Rightarrow> int \<Rightarrow> int \<Rightarrow> int" where
  "SegmentSize fileSize segSize index =
     (let start = wrap64 (wrap64 (index - 1) * segSize)
      in if start \<ge> fileSize then 0 else min segSize (wrap64 (fileSize - start)))"

section \<open>Names, types and quotas\<close>

text \<open>\<open>filepath.Ext\<close>: from the last dot of the last path element.\<close>

definition file_ext :: "string \<Rightarrow> string" where
  "file_ext name =
     (let base = (case last_index CHR ''/'' name of None \<Rightarrow> name | Some i \<Rightarrow> drop (i + 1) name)
      in case last_index CHR ''.'' base of None \<Rightarrow> [] | Some i \<Rightarrow> drop i base)"

definition ToLower :: "(nat \<Rightarrow> nat) \<Rightarrow> string \<Rightarrow> string" where
  "ToLower lower s = concat (map (\<lambda>r. encode_rune (lower r)) (runes s))"

definition GuessMIME :: "('t, 'b) env \<Rightarrow> string \<Rightarrow> string" where
  "GuessMIME env name =
     (let ext = ToLower (en_lower env) (file_ext name); ct = en_mime env ext
      in if ct \<noteq> [] then ct
         else if ext = ''.mkv'' then ''video/x-matroska''
         else if ext = ''.ts'' then ''video/mp2t''
         else if ext = ''.m4v'' then ''video/x-m4v''
         else if ext = ''.flac'' then ''audio/flac''
         else if ext = ''.7z'' then ''application/x-7z-compressed''
         else if ext = ''.rar'' then ''application/vnd.rar''
         else ''application/octet-stream'')"

definition UserByID :: "string \<Rightarrow> db \<Rightarrow> db_error + User" where
  "UserByID uid d = query_row (\<lambda>u. u_ID u = uid) (db_users d)"

definition UsedBytesByOwner :: "string \<Rightarrow> db \<Rightarrow> int" where
  "UsedBytesByOwner uid d =
     (if uid = [] then 0
      else sum_list (map f_Size (filter (\<lambda>f. f_OwnerID f = uid \<and> f_Status f \<noteq> StatusBroken) (db_files d))))"

definition CheckQuota :: "string \<Rightarrow> int \<Rightarrow> db \<Rightarrow> drive_error + unit" where
  "CheckQuota uid additional d =
     (if uid = [] \<or> additional \<le> 0 then Inr ()
      else case UserByID uid d of
          Inl e \<Rightarrow> (if e = ErrNotFound then Inr () else Inl (EDb e))
        | Inr u \<Rightarrow>
            if u_QuotaBytes u \<le> 0 then Inr ()
            else if wrap64 (UsedBytesByOwner uid d + additional) > u_QuotaBytes u then Inl EQuota
            else Inr ())"

section \<open>Beginning an upload\<close>

text \<open>The bytes a request counts against the quota: an overwritten file of the same owner is
  deducted.\<close>

definition quota_bytes :: "UploadRequest \<Rightarrow> db \<Rightarrow> drive_error + int" where
  "quota_bytes req d =
     (if uq_Overwrite req then
        (case resolve_dir (uq_DirPath req) d of
           Inr dir \<Rightarrow>
             (case FileInDir (d_ID dir) (uq_Name req) d of
                Inr f \<Rightarrow> Inr (if f_OwnerID f = uq_UserID req then wrap64 (uq_Size req - f_Size f) else uq_Size req)
              | Inl _ \<Rightarrow> Inr (uq_Size req))
         | Inl e \<Rightarrow> if e \<noteq> ENotFound then Inl e else Inr (uq_Size req))
      else Inr (uq_Size req))"

definition clearName :: "('t, 'b) env \<Rightarrow> string \<Rightarrow> string \<Rightarrow> bool \<Rightarrow> (('t, 'b) drive, unit) op" where
  "clearName env dirID name overwrite s =
     (case FileInDir dirID name (dv_db s) of
        Inl e \<Rightarrow> (if e = ErrNotFound then ret () s else fail (EDb e) s)
      | Inr existing \<Rightarrow> if \<not> overwrite then fail EExists s else deleteFileRow env existing s)"

definition new_file :: "('t, 'b) env \<Rightarrow> UploadRequest \<Rightarrow> Channel \<Rightarrow> Dir \<Rightarrow> string \<Rightarrow> FileRow" where
  "new_file env req channel dir fid =
     \<lparr>f_ID = fid, f_DirID = d_ID dir, f_Name = uq_Name req, f_Size = uq_Size req,
      f_MIME = (if uq_MIME req = [] then GuessMIME env (uq_Name req) else uq_MIME req),
      f_SegmentSize = en_segmentSize env, f_SegmentCount = SegmentCount (en_segmentSize env) (uq_Size req),
      f_Status = StatusPending, f_ChannelID = c_ID channel, f_CreatedAt = 0, f_UpdatedAt = 0,
      f_OwnerID = uq_UserID req\<rparr>"

definition new_job :: "UploadRequest \<Rightarrow> FileRow \<Rightarrow> string \<Rightarrow> UploadJob" where
  "new_job req f jid =
     \<lparr>j_ID = jid, j_UserID = uq_UserID req, j_FileID = f_ID f, j_DirID = f_DirID f, j_Name = uq_Name req,
      j_TotalSize = uq_Size req, j_SegmentSize = f_SegmentSize f, j_SegmentCount = f_SegmentCount f,
      j_DoneMask = NewMask (f_SegmentCount f), j_UploadedBytes = 0, j_Status = JobPending, j_Error = [],
      j_Source = uq_Source req, j_SourceURL = uq_SourceURL req, j_CreatedAt = 0, j_UpdatedAt = 0,
      j_StartedAt = 0, j_FinishedAt = 0\<rparr>"

definition insert_job_op :: "UploadJob \<Rightarrow> FileRow \<Rightarrow> (('t, 'b) drive, UploadJob \<times> FileRow) op" where
  "insert_job_op job f s =
     (case exec (InsertJob job) s of
        (Inr _, s') \<Rightarrow> (Inr (job, f), s')
      | (Inl e, s') \<Rightarrow> op_bind (attempt (exec (DeleteFile (f_ID f)))) (\<lambda>_. fail e) s')"

definition begin_rows ::
  "('t, 'b) env \<Rightarrow> UploadRequest \<Rightarrow> Channel \<Rightarrow> Dir \<Rightarrow> (('t, 'b) drive, UploadJob \<times> FileRow) op" where
  "begin_rows env req channel dir =
     op_bind (NewID env) (\<lambda>fid.
     op_bind (on_conflict (exec (InsertFile (new_file env req channel dir fid)))) (\<lambda>_.
     op_bind (NewID env) (\<lambda>jid.
       insert_job_op (new_job req (new_file env req channel dir fid) jid) (new_file env req channel dir fid))))"

definition Begin :: "('t, 'b) env \<Rightarrow> UploadRequest \<Rightarrow> (('t, 'b) drive, UploadJob \<times> FileRow) op" where
  "Begin env req0 =
     op_bind (lift (\<lambda>e. e) (hk_begin (en_hooks env) req0)) (\<lambda>req.
     op_bind (lift EPath (ValidateName (uq_Name req))) (\<lambda>_.
     if uq_Size req < 0 then fail ESize
     else
       op_bind (with_db storageChannel) (\<lambda>channel.
       op_bind (with_db (quota_bytes req)) (\<lambda>bytes.
       op_bind (with_db (CheckQuota (uq_UserID req) bytes)) (\<lambda>_.
       op_bind (Mkdir env (uq_DirPath req)) (\<lambda>dir.
       op_bind (clearName env (d_ID dir) (uq_Name req) (uq_Overwrite req)) (\<lambda>_.
         begin_rows env req channel dir)))))))"

section \<open>One segment\<close>

definition uploadJobAccount :: "string \<Rightarrow> ('t, 'b) drive \<Rightarrow> ('t, 'b) account option" where
  "uploadJobAccount jid s =
     (case Option.bind (map_of (dv_uploadJobs s) jid) ul_account of
        Some a \<Rightarrow> Some a
      | None \<Rightarrow> map_of (dv_jobAccounts s) jid)"

definition segment_account :: "('t, 'b) env \<Rightarrow> string \<Rightarrow> (('t, 'b) drive, ('t, 'b) account) op" where
  "segment_account env jid s =
     (case uploadJobAccount jid s of Some a \<Rightarrow> ret a s | None \<Rightarrow> metaAccount env s)"

text \<open>\<open>%03d\<close>: at least three digits.\<close>

definition pad3 :: "int \<Rightarrow> string" where
  "pad3 n = (let ds = show_int n in replicate (3 - length ds) CHR ''0'' @ ds)"

definition segment_name :: "FileRow \<Rightarrow> int \<Rightarrow> string" where
  "segment_name f index = (if f_SegmentCount f > 1 then f_Name f @ ''.part'' @ pad3 index else f_Name f)"

definition uploadSegment ::
  "('t, 'b) env \<Rightarrow> ('t, 'b) account \<Rightarrow> FileRow \<Rightarrow> Channel \<Rightarrow> int \<Rightarrow> 'b list \<Rightarrow> int \<Rightarrow> (('t, 'b) drive, StoredDoc) op" where
  "uploadSegment env account f channel index body nbytes =
     op_bind (with_db (fileCaption env f index)) (\<lambda>caption.
     op_bind (channelRef account channel) (\<lambda>ref.
       if nbytes = 0 \<and> f_Size f = 0 then
         op_bind (tg_call (ac_SendRecord account ref caption)) (\<lambda>msgID.
           ret \<lparr>sd_MsgID = msgID, sd_DocID = 0, sd_AccessHash = 0, sd_DCID = 0, sd_FileReference = [], sd_Size = 0\<rparr>)
       else
         tg_call (ac_Upload account ref
           \<lparr>us_Name = segment_name f index, us_MIME = f_MIME f, us_Caption = caption, us_Body = body, us_Size = nbytes\<rparr>)))"

definition segment_row :: "FileRow \<Rightarrow> int \<Rightarrow> int \<Rightarrow> StoredDoc \<Rightarrow> ('t, 'b) account \<Rightarrow> Segment" where
  "segment_row f index nbytes doc account =
     \<lparr>g_FileID = f_ID f, g_Index = index, g_Size = nbytes, g_TGMsgID = sd_MsgID doc, g_TGDocID = sd_DocID doc,
      g_AccessHash = sd_AccessHash doc, g_DCID = sd_DCID doc, g_FileReference = sd_FileReference doc,
      g_AccountID = ac_ID account\<rparr>"

definition store_segment ::
  "('t, 'b) env \<Rightarrow> string \<Rightarrow> FileRow \<Rightarrow> Channel \<Rightarrow> ('t, 'b) account \<Rightarrow> int \<Rightarrow> 'b list \<Rightarrow> int \<Rightarrow> (('t, 'b) drive, unit) op" where
  "store_segment env jid f channel account index body nbytes =
     op_bind (exec (SetJobStatusIf jid JobRunning [] [JobPending, JobRunning])) (\<lambda>started.
       if \<not> started then fail (EDb ErrJobFinished)
       else
         op_bind (uploadSegment env account f channel index body nbytes) (\<lambda>doc.
         op_bind (exec (UpsertSegment (segment_row f index nbytes doc account))) (\<lambda>_.
         op_bind (exec (MarkSegmentDone jid index nbytes)) (\<lambda>_. ret ()))))"

definition put_segment :: "('t, 'b) env \<Rightarrow> string \<Rightarrow> int \<Rightarrow> 'b list \<Rightarrow> int \<Rightarrow> (('t, 'b) drive, unit) op" where
  "put_segment env jid index body nbytes =
     op_bind (query (JobByID jid)) (\<lambda>job.
       if Aborted (j_Status job) then fail (EDb ErrJobFinished)
       else if index < 1 \<or> index > j_SegmentCount job then fail ESegment
       else
         op_bind (query (FileByID (j_FileID job))) (\<lambda>f.
           if nbytes \<noteq> SegmentSize (f_Size f) (f_SegmentSize f) index then fail ESize
           else
             op_bind (with_db (channelFor (f_ChannelID f))) (\<lambda>channel.
             op_bind (segment_account env jid) (\<lambda>account.
               store_segment env jid f channel account index body nbytes))))"

definition PutSegment :: "('t, 'b) env \<Rightarrow> string \<Rightarrow> int \<Rightarrow> 'b list \<Rightarrow> int \<Rightarrow> (('t, 'b) drive, unit) op" where
  "PutSegment env jid0 index0 body size0 =
     op_bind (lift (\<lambda>e. e) (hk_segment (en_hooks env) (jid0, index0, size0))) (\<lambda>(jid, index, size).
       put_segment env jid index body size)"

section \<open>Completing, aborting, cancelling\<close>

text \<open>A Go \<open>defer\<close>.\<close>

definition deferred :: "('s, 'a) op \<Rightarrow> ('s \<Rightarrow> 's) \<Rightarrow> ('s, 'a) op" where
  "deferred m d s = (case m s of (r, s') \<Rightarrow> (r, d s'))"

text \<open>Closing a browser lease: it goes at once when none of its requests is in flight, and with the
  last of them otherwise.\<close>

definition ReleaseUploadJob :: "string \<Rightarrow> ('t, 'b) drive \<Rightarrow> ('t, 'b) drive" where
  "ReleaseUploadJob jid s =
     (case map_of (dv_uploadJobs s) jid of
        None \<Rightarrow> s
      | Some l \<Rightarrow>
          if ul_active l = 0 \<and> ul_account l \<noteq> None
          then s\<lparr>dv_uploadJobs := AList.delete jid (dv_uploadJobs s)\<rparr>
          else s\<lparr>dv_uploadJobs := AList.update jid (l\<lparr>ul_closed := True\<rparr>) (dv_uploadJobs s)\<rparr>)"

definition Complete :: "('t, 'b) env \<Rightarrow> string \<Rightarrow> (('t, 'b) drive, FileRow) op" where
  "Complete env jid0 =
     op_bind (before_path env ''files.completeUpload'' jid0) (\<lambda>jid.
     op_bind (query (JobByID jid)) (\<lambda>job.
       if \<not> Done job then fail EMissing
       else
         op_bind (exec (UpdateFileStatus (j_FileID job) StatusComplete)) (\<lambda>_.
         op_bind (exec (SetJobStatus jid JobComplete [])) (\<lambda>_.
         op_bind (\<lambda>s. (Inr (), ReleaseUploadJob jid s)) (\<lambda>_.
           query (FileByID (j_FileID job)))))))"

definition abort_rows :: "('t, 'b) env \<Rightarrow> string \<Rightarrow> string \<Rightarrow> JobStatus \<Rightarrow> (('t, 'b) drive, unit) op" where
  "abort_rows env jid reason status =
     op_bind (query (JobByID jid)) (\<lambda>job.
     op_bind (\<lambda>s. if j_FileID job = [] then ret () s
                  else case FileByID (j_FileID job) (dv_db s) of
                      Inl _ \<Rightarrow> ret () s
                    | Inr f \<Rightarrow> op_bind (attempt (deleteFileRow env f)) (\<lambda>_. ret ()) s) (\<lambda>_.
       exec (SetJobStatus jid status reason)))"

definition Abort :: "('t, 'b) env \<Rightarrow> string \<Rightarrow> string \<Rightarrow> JobStatus \<Rightarrow> (('t, 'b) drive, unit) op" where
  "Abort env jid0 reason0 status0 =
     op_bind (lift (\<lambda>e. e) (hk_abort (en_hooks env) (jid0, reason0, status0))) (\<lambda>(jid, reason, status).
       if status \<noteq> JobFailed \<and> status \<noteq> JobCancelled then fail EStatus
       else deferred (abort_rows env jid reason status) (ReleaseUploadJob jid))"

definition abortAfterFailure :: "('t, 'b) env \<Rightarrow> string \<Rightarrow> drive_error \<Rightarrow> (('t, 'b) drive, unit) op" where
  "abortAfterFailure env jid cause s =
     (case JobByID jid (dv_db s) of
        Inr job \<Rightarrow>
          if Aborted (j_Status job) then ret () s
          else op_bind (attempt (Abort env jid (en_text env cause) JobFailed)) (\<lambda>_. ret ()) s
      | Inl _ \<Rightarrow> op_bind (attempt (Abort env jid (en_text env cause) JobFailed)) (\<lambda>_. ret ()) s)"

text \<open>\<open>workers\<close> is what the interrupted workers of the job still do before \<open>waitUploadWork\<close> returns;
  the job row was read before that.\<close>

definition CancelUpload ::
  "('t, 'b) env \<Rightarrow> (('t, 'b) drive, unit) op \<Rightarrow> string \<Rightarrow> (('t, 'b) drive, unit) op" where
  "CancelUpload env workers jid =
     op_bind (query (JobByID jid)) (\<lambda>job.
     op_bind (attempt workers) (\<lambda>_.
       if j_Status job = JobComplete then fail (EDb ErrJobFinished)
       else if Aborted (j_Status job) then ret ()
       else Abort env jid ''cancelled'' JobCancelled))"

section \<open>Whole files\<close>

definition or_abort ::
  "('t, 'b) env \<Rightarrow> string \<Rightarrow> (('t, 'b) drive, 'a) op \<Rightarrow> ('a \<Rightarrow> (('t, 'b) drive, 'c) op) \<Rightarrow> (('t, 'b) drive, 'c) op" where
  "or_abort env jid m f s =
     (case m s of
        (Inr x, s') \<Rightarrow> f x s'
      | (Inl e, s') \<Rightarrow> op_bind (abortAfterFailure env jid e) (\<lambda>_. fail e) s')"

fun put_loop :: "('t, 'b) env \<Rightarrow> string \<Rightarrow> FileRow \<Rightarrow> int list \<Rightarrow> 'b list \<Rightarrow> (('t, 'b) drive, unit) op" where
  "put_loop env jid f [] r = ret ()"
| "put_loop env jid f (i # is) r =
     (let size = SegmentSize (f_Size f) (f_SegmentSize f) i in
      or_abort env jid (PutSegment env jid i (take (nat size) r) size) (\<lambda>_.
        put_loop env jid f is (drop (nat size) r)))"

definition bindUploadAccount :: "string \<Rightarrow> ('t, 'b) account \<Rightarrow> ('t, 'b) drive \<Rightarrow> ('t, 'b) drive" where
  "bindUploadAccount jid a s =
     (if jid = [] then s else s\<lparr>dv_jobAccounts := AList.update jid a (dv_jobAccounts s)\<rparr>)"

definition unbindUploadAccount :: "string \<Rightarrow> ('t, 'b) drive \<Rightarrow> ('t, 'b) drive" where
  "unbindUploadAccount jid s =
     (if jid = [] then s else s\<lparr>dv_jobAccounts := AList.delete jid (dv_jobAccounts s)\<rparr>)"

definition uploadStream ::
  "('t, 'b) env \<Rightarrow> ('t, 'b) account \<Rightarrow> string \<Rightarrow> FileRow \<Rightarrow> 'b list \<Rightarrow> (('t, 'b) drive, FileRow) op" where
  "uploadStream env account jid f r s =
     deferred
       (op_bind (exec (SetJobStatusIf jid JobRunning [] [JobPending, JobRunning])) (\<lambda>_.
        op_bind (put_loop env jid f [1 .. f_SegmentCount f] r) (\<lambda>_. Complete env jid)))
       (unbindUploadAccount jid) (bindUploadAccount jid account s)"

text \<open>\<open>admission\<close> is the answer of \<open>acquireUploadTask\<close>.\<close>

definition UploadStream ::
  "('t, 'b) env \<Rightarrow> drive_error + ('t, 'b) account \<Rightarrow> UploadRequest \<Rightarrow> 'b list \<Rightarrow> (('t, 'b) drive, FileRow) op" where
  "UploadStream env admission req r =
     op_bind (Begin env req) (\<lambda>(job, f).
       or_abort env (j_ID job) (lift (\<lambda>e. e) admission) (\<lambda>account. uploadStream env account (j_ID job) f r))"

text \<open>\<open>spool\<close> is what spooling to disk gave: an error of the file system or of the source, or all the
  bytes.  \<open>env'\<close> holds the settings when it has ended; an administrator may have changed them.\<close>

definition UploadUnsized ::
  "('t, 'b) env \<Rightarrow> ('t, 'b) env \<Rightarrow> drive_error + 'b list \<Rightarrow> drive_error + ('t, 'b) account \<Rightarrow> UploadRequest \<Rightarrow>
    (('t, 'b) drive, FileRow) op" where
  "UploadUnsized env env' spool admission req =
     op_bind (Begin env (req\<lparr>uq_Size := 0\<rparr>)) (\<lambda>(job, f).
     or_abort env' (j_ID job) (lift (\<lambda>e. e) spool) (\<lambda>r.
       let size = int (length r); count = SegmentCount (en_segmentSize env') size in
       or_abort env' (j_ID job) (with_db (CheckQuota (uq_UserID req) size)) (\<lambda>_.
       or_abort env' (j_ID job) (exec (SetFileSize (f_ID f) size count)) (\<lambda>_.
       or_abort env' (j_ID job) (exec (SetJobSize (j_ID job) size count)) (\<lambda>_.
       or_abort env' (j_ID job) (lift (\<lambda>e. e) admission) (\<lambda>account.
         uploadStream env' account (j_ID job) (f\<lparr>f_Size := size, f_SegmentCount := count\<rparr>) r))))))"

text \<open>\<open>PutSegmentsParallel\<close> on one schedule: the segments in the order in which they run; the first
  failure cancels those that have not run yet.\<close>

fun put_parts :: "('t, 'b) env \<Rightarrow> string \<Rightarrow> FileRow \<Rightarrow> (int \<times> 'b list) list \<Rightarrow> (('t, 'b) drive, unit) op" where
  "put_parts env jid f [] = ret ()"
| "put_parts env jid f ((i, body) # parts) =
     op_bind (PutSegment env jid i body (SegmentSize (f_Size f) (f_SegmentSize f) i)) (\<lambda>_.
       put_parts env jid f parts)"

definition PutSegmentsParallel ::
  "('t, 'b) env \<Rightarrow> drive_error + ('t, 'b) account \<Rightarrow> UploadJob \<Rightarrow> (int \<times> 'b list) list \<Rightarrow> (('t, 'b) drive, unit) op" where
  "PutSegmentsParallel env admission job parts =
     op_bind (query (FileByID (j_FileID job))) (\<lambda>f.
     op_bind (lift (\<lambda>e. e) admission) (\<lambda>account s.
       deferred (put_parts env (j_ID job) f parts) (unbindUploadAccount (j_ID job))
         (bindUploadAccount (j_ID job) account s)))"

end
