(* ===== verification/UploadLaws.thy ===== *)
theory UploadLaws
  imports Upload
begin

text \<open>
  Correctness of the upload path.  The segments of a file tile it; a segment stored under its index
  is a document with exactly the bytes of that part; and when every segment has been recorded, in
  whatever order, the documents in index order are the file.
\<close>

section \<open>The segments tile the file\<close>

lemma SegmentCount_bounds:
  assumes "0 < seg" and "0 < n"
  shows "0 < SegmentCount seg n" and "(SegmentCount seg n - 1) * seg < n" and "n \<le> SegmentCount seg n * seg"
proof -
  let ?q = "n div seg" and ?r = "n mod seg"
  have n: "?q * seg + ?r = n" by (rule div_mult_mod_eq)
  have r: "0 \<le> ?r" "?r < seg" and q: "0 \<le> ?q" using assms by (simp_all add: pos_imp_zdiv_nonneg_iff)
  have c: "SegmentCount seg n = (if ?r = 0 then ?q else ?q + 1)" using assms by (simp add: SegmentCount_def Let_def)
  have q1: "1 \<le> ?q" if "?r = 0" using n assms that q by (cases "?q = 0") auto
  show "0 < SegmentCount seg n" using c q q1 by (simp split: if_splits)
  show "(SegmentCount seg n - 1) * seg < n"
  proof (cases "?r = 0")
    case True
    then have "(SegmentCount seg n - 1) * seg = n - seg" using c n by (simp add: left_diff_distrib)
    then show ?thesis using assms(1) by simp
  next
    case False
    then have "(SegmentCount seg n - 1) * seg = n - ?r" using c n by (simp add: minus_mod_eq_div_mult)
    then show ?thesis using False r by simp
  qed
  have "SegmentCount seg n * seg = ?q * seg + (if ?r = 0 then 0 else seg)" using c by (simp add: distrib_right)
  also have "?q * seg = n - ?r" by (simp add: minus_mod_eq_div_mult)
  finally show "n \<le> SegmentCount seg n * seg" using r by (simp split: if_splits)
qed

lemma SegmentSize_at:
  assumes seg: "0 < seg" "in64 seg" and n: "0 \<le> n" "in64 n" and i: "1 \<le> i" "i \<le> SegmentCount seg n"
  shows "SegmentSize n seg i = min seg (n - (i - 1) * seg)" and "0 \<le> SegmentSize n seg i"
    and "0 < n \<Longrightarrow> (i - 1) * seg < n"
proof -
  have lt: "(i - 1) * seg < n" if "0 < n"
  proof -
    have "(i - 1) * seg \<le> (SegmentCount seg n - 1) * seg" using i seg by (intro mult_right_mono) simp_all
    then show ?thesis using SegmentCount_bounds(2) [OF seg(1) that] by simp
  qed
  show "0 < n \<Longrightarrow> (i - 1) * seg < n" by (rule lt)
  have "SegmentSize n seg i = min seg (n - (i - 1) * seg) \<and> 0 \<le> SegmentSize n seg i"
  proof (cases "n = 0")
    case True
    then have "i = 1" using i by (simp add: SegmentCount_def)
    then show ?thesis using True seg by (simp add: SegmentSize_def Let_def in64_def)
  next
    case False
    then have l: "(i - 1) * seg < n" using lt n by simp
    have ge: "0 \<le> (i - 1) * seg" using i seg by simp
    have "i - 1 \<le> (i - 1) * seg" using i seg mult_left_mono [of 1 seg "i - 1"] by simp
    then have a: "in64 (i - 1)" "in64 ((i - 1) * seg)" "in64 (n - (i - 1) * seg)" using l ge n i by (auto simp: in64_def)
    show ?thesis using a l seg by (simp add: SegmentSize_def Let_def)
  qed
  then show "SegmentSize n seg i = min seg (n - (i - 1) * seg)" and "0 \<le> SegmentSize n seg i" by (blast, blast)
qed

text \<open>The part of the data a segment carries.\<close>

definition piece :: "int \<Rightarrow> int \<Rightarrow> 'b list \<Rightarrow> int \<Rightarrow> 'b list" where
  "piece n seg bs i = take (nat (SegmentSize n seg i)) (drop (nat ((i - 1) * seg)) bs)"

lemma take_segment:
  assumes "0 < seg" "in64 seg" "0 \<le> n" "in64 n" "1 \<le> i" "i \<le> SegmentCount seg n"
  shows "min n ((i - 1) * seg) + SegmentSize n seg i = min n (i * seg)"
proof (cases "n = 0")
  case True
  then have "i = 1" using assms by (simp add: SegmentCount_def)
  then show ?thesis using True SegmentSize_at(1) [OF assms] assms by (simp add: min_def)
next
  case False
  then show ?thesis using SegmentSize_at(1,3) [OF assms] assms(3) by (auto simp: algebra_simps min_def)
qed

lemma pieces_prefix:
  assumes "0 < seg" "in64 seg" "0 \<le> n" "in64 n" and "length bs = nat n" and "k \<le> nat (SegmentCount seg n)"
  shows "concat (map (piece n seg bs) [1 .. int k]) = take (nat (min n (int k * seg))) bs"
  using assms(6)
proof (induction k)
  case 0
  then show ?case using assms(3) by simp
next
  case (Suc k)
  let ?i = "int k + 1"
  have i: "1 \<le> ?i" "?i \<le> SegmentCount seg n" using Suc.prems by linarith+
  have up: "[1 .. int (Suc k)] = [1 .. int k] @ [?i]" using upto_rec2 [of 1 "int (Suc k)"] by simp
  have IH: "concat (map (piece n seg bs) [1 .. int k]) = take (nat (min n (int k * seg))) bs" using Suc by simp
  have t: "min n (int k * seg) + SegmentSize n seg ?i = min n (?i * seg)"
    using take_segment [OF assms(1-4) i] by simp
  have nn: "0 \<le> SegmentSize n seg ?i" "0 \<le> int k * seg" using SegmentSize_at(2) [OF assms(1-4) i] assms(1) by simp_all
  have "concat (map (piece n seg bs) [1 .. int (Suc k)]) =
      take (nat (min n (int k * seg))) bs @ take (nat (SegmentSize n seg ?i)) (drop (nat (int k * seg)) bs)"
    unfolding up map_append concat_append IH by (simp add: piece_def)
  also have "\<dots> = take (nat (min n (int k * seg))) bs @ take (nat (SegmentSize n seg ?i)) (drop (nat (min n (int k * seg))) bs)"
    using assms(3,5) nn by (cases "int k * seg \<le> n") (simp_all add: min_def)
  also have "\<dots> = take (nat (min n (int k * seg)) + nat (SegmentSize n seg ?i)) bs"
    by (simp add: take_add)
  also have "nat (min n (int k * seg)) + nat (SegmentSize n seg ?i) = nat (min n (?i * seg))"
    using t nn assms(3) by (metis min_def nat_add_distrib)
  finally show ?case by (simp add: add.commute)
qed

lemma pieces_tile:
  assumes "0 < seg" "in64 seg" "0 \<le> n" "in64 n" and "length bs = nat n"
  shows "concat (map (piece n seg bs) [1 .. SegmentCount seg n]) = bs"
proof -
  have c: "0 < SegmentCount seg n" using SegmentCount_bounds(1) [OF assms(1)] by (simp add: SegmentCount_def)
  then have "min n (SegmentCount seg n * seg) = n"
    using SegmentCount_bounds(3) [OF assms(1), of n] assms(1,3) by (cases "n = 0") (simp_all add: min_def)
  then show ?thesis
    using pieces_prefix [OF assms, of "nat (SegmentCount seg n)"] c assms(5) by simp
qed

lemma drop_segment:
  assumes seg: "0 < seg" "in64 seg" and n: "0 \<le> n" "in64 n" and i: "1 \<le> k + 1" "k + 1 \<le> SegmentCount seg n"
    and data: "length data = nat n"
  shows "drop (nat (SegmentSize n seg (k + 1))) (drop (nat (k * seg)) data) = drop (nat ((k + 1) * seg)) data"
proof -
  let ?i = "k + 1" let ?sz = "SegmentSize n seg ?i"
  have step: "k * seg + ?sz = (if ?i * seg \<le> n then ?i * seg else n)" "0 \<le> k * seg" "0 \<le> ?sz" if "0 < n"
    using SegmentSize_at [OF seg n i] that seg(1) i(1) by (auto simp: algebra_simps min_def)
  show ?thesis
  proof (cases "n = 0")
    case True
    then show ?thesis using data by simp
  next
    case False
    then have "nat ?sz + nat (k * seg) = nat (if ?i * seg \<le> n then ?i * seg else n)"
      using step n by (simp flip: nat_add_distrib add: add.commute)
    then show ?thesis using data by (simp add: drop_drop split: if_splits)
  qed
qed

lemma length_piece:
  assumes "0 < seg" "in64 seg" "0 \<le> n" "in64 n" "1 \<le> i" "i \<le> SegmentCount seg n" and "length bs = nat n"
  shows "int (length (piece n seg bs i)) = SegmentSize n seg i"
proof -
  have "SegmentSize n seg i \<le> n - (i - 1) * seg" "0 \<le> (i - 1) * seg"
    using SegmentSize_at(1) [OF assms(1-6)] assms(1,5) by simp_all
  then show ?thesis using SegmentSize_at(2) [OF assms(1-6)] assms(7) by (simp add: piece_def min_def nat_diff_distrib) linarith
qed

section \<open>What the channel stores\<close>

text \<open>\<open>docs t k\<close> is what the message \<open>k\<close> of the channel carries: the bytes of its document, none for
a caption alone.  An account that stores documents: an upload succeeds only with the declared
number of bytes, under a new message, and no call changes the document of another message.\<close>

definition stores :: "('t \<Rightarrow> (string \<times> int) \<Rightarrow> 'b list option) \<Rightarrow> ('t, 'b) account \<Rightarrow> bool" where
  "stores docs a \<longleftrightarrow>
     (\<forall>cid t ref. ac_ChannelRef a cid t = Inr ref \<longrightarrow> cr_ChannelID ref = cid) \<and>
     (\<forall>ref c t m t'. ac_SendRecord a ref c t = (Inr m, t') \<longrightarrow>
        0 < m \<and> docs t (cr_ChannelID ref, m) = None \<and> docs t' = (docs t)((cr_ChannelID ref, m) \<mapsto> [])) \<and>
     (\<forall>ref c t e t'. ac_SendRecord a ref c t = (Inl e, t') \<longrightarrow> docs t \<subseteq>\<^sub>m docs t') \<and>
     (\<forall>ref m c t. docs (snd (ac_EditRecord a ref m c t)) = docs t) \<and>
     (\<forall>ref ids t t'. ac_DeleteRecords a ref ids t = (Inr (), t') \<longrightarrow>
        docs t' = docs t |` (- ({cr_ChannelID ref} \<times> set ids))) \<and>
     (\<forall>ref ids t e t'. ac_DeleteRecords a ref ids t = (Inl e, t') \<longrightarrow>
        docs t |` (- ({cr_ChannelID ref} \<times> set ids)) \<subseteq>\<^sub>m docs t' \<and> docs t' \<subseteq>\<^sub>m docs t) \<and>
     (\<forall>ref spec t doc t'. ac_Upload a ref spec t = (Inr doc, t') \<longrightarrow>
        int (length (us_Body spec)) = us_Size spec \<and> 0 < sd_MsgID doc \<and>
        docs t (cr_ChannelID ref, sd_MsgID doc) = None \<and>
        docs t' = (docs t)((cr_ChannelID ref, sd_MsgID doc) \<mapsto> us_Body spec)) \<and>
     (\<forall>ref spec t e t'. ac_Upload a ref spec t = (Inl e, t') \<longrightarrow> docs t \<subseteq>\<^sub>m docs t')"

lemma storesD:
  assumes "stores docs a"
  shows "ac_ChannelRef a cid t = Inr ref \<Longrightarrow> cr_ChannelID ref = cid"
    and "ac_SendRecord a ref c t = (Inr m, t') \<Longrightarrow>
      0 < m \<and> docs t (cr_ChannelID ref, m) = None \<and> docs t' = (docs t)((cr_ChannelID ref, m) \<mapsto> [])"
    and "ac_SendRecord a ref c t = (Inl e, t') \<Longrightarrow> docs t \<subseteq>\<^sub>m docs t'"
    and "docs (snd (ac_EditRecord a ref m c t)) = docs t"
    and "ac_DeleteRecords a ref ids t = (Inr (), t') \<Longrightarrow> docs t' = docs t |` (- ({cr_ChannelID ref} \<times> set ids))"
    and "ac_DeleteRecords a ref ids t = (Inl e, t') \<Longrightarrow>
      docs t |` (- ({cr_ChannelID ref} \<times> set ids)) \<subseteq>\<^sub>m docs t' \<and> docs t' \<subseteq>\<^sub>m docs t"
    and "ac_Upload a ref spec t = (Inr doc, t') \<Longrightarrow> int (length (us_Body spec)) = us_Size spec \<and> 0 < sd_MsgID doc \<and>
      docs t (cr_ChannelID ref, sd_MsgID doc) = None \<and> docs t' = (docs t)((cr_ChannelID ref, sd_MsgID doc) \<mapsto> us_Body spec)"
    and "ac_Upload a ref spec t = (Inl e, t') \<Longrightarrow> docs t \<subseteq>\<^sub>m docs t'"
  by (insert assms [unfolded stores_def]; elim conjE; metis)+

lemma stores_honest: "stores docs a \<Longrightarrow> honest (\<lambda>t. dom (docs t)) a"
proof -
  assume a: "stores docs a"
  note le = map_le_implies_dom_le
  show ?thesis
    unfolding honest_def
  proof (intro conjI allI impI)
    fix ref ids t t' assume "ac_DeleteRecords a ref ids t = (Inr (), t')"
    then show "dom (docs t') = dom (docs t) - {cr_ChannelID ref} \<times> set ids"
      using storesD(5) [OF a] by (simp add: dom_restrict) blast
  next
    fix ref ids t e t' assume "ac_DeleteRecords a ref ids t = (Inl e, t')"
    then have "docs t |` (- ({cr_ChannelID ref} \<times> set ids)) \<subseteq>\<^sub>m docs t'" "docs t' \<subseteq>\<^sub>m docs t"
      using storesD(6) [OF a] by blast+
    from this [THEN le] show "dom (docs t) - {cr_ChannelID ref} \<times> set ids \<subseteq> dom (docs t')" "dom (docs t') \<subseteq> dom (docs t)"
      by (auto simp: dom_restrict)
  next
    fix ref spec t e t' assume "ac_Upload a ref spec t = (Inl e, t')"
    then show "dom (docs t) \<subseteq> dom (docs t')" by (rule le [OF storesD(8) [OF a]])
  next
    fix ref c t e t' assume "ac_SendRecord a ref c t = (Inl e, t')"
    then show "dom (docs t) \<subseteq> dom (docs t')" by (rule le [OF storesD(3) [OF a]])
  next
    fix ref spec t doc t' assume "ac_Upload a ref spec t = (Inr doc, t')"
    note u = storesD(7) [OF a this]
    show "0 < sd_MsgID doc" "(cr_ChannelID ref, sd_MsgID doc) \<notin> dom (docs t)"
      "dom (docs t') = insert (cr_ChannelID ref, sd_MsgID doc) (dom (docs t))"
      using u by (auto simp: domIff)
  next
    fix ref c t m t' assume "ac_SendRecord a ref c t = (Inr m, t')"
    note u = storesD(2) [OF a this]
    show "0 < m" "(cr_ChannelID ref, m) \<notin> dom (docs t)" "dom (docs t') = insert (cr_ChannelID ref, m) (dom (docs t))"
      using u by (auto simp: domIff)
  qed (simp_all add: storesD(1,4) [OF a])
qed

definition file_key :: "db \<Rightarrow> FileRow \<Rightarrow> Segment \<Rightarrow> string \<times> int" where
  "file_key d f g = msg_key d \<lparr>m_ChannelID = f_ChannelID f, m_MsgID = g_TGMsgID g\<rparr>"

text \<open>The segments \<open>S\<close> of the file \<open>f\<close> have landed: job \<open>jid\<close> has recorded exactly them, each has a
row, and each row's document carries its part.\<close>

definition landed ::
  "('t \<Rightarrow> (string \<times> int) \<Rightarrow> 'b list option) \<Rightarrow> string \<Rightarrow> FileRow \<Rightarrow> (int \<Rightarrow> 'b list) \<Rightarrow> int set \<Rightarrow> ('t, 'b) drive \<Rightarrow> bool" where
  "landed docs jid f part S s \<longleftrightarrow>
     index_inv (dv_db s) \<and> FileByID (f_ID f) (dv_db s) = Inr f \<and>
     (\<exists>job. JobByID jid (dv_db s) = Inr job \<and> j_FileID job = f_ID f \<and> j_SegmentCount job = f_SegmentCount f \<and>
        (\<forall>i. MaskHas (j_DoneMask job) i \<longleftrightarrow> i \<in> S)) \<and>
     (\<forall>i \<in> S. \<exists>g \<in> set (db_segments (dv_db s)). g_FileID g = f_ID f \<and> g_Index g = i) \<and>
     (\<forall>g \<in> set (db_segments (dv_db s)). g_FileID g = f_ID f \<longrightarrow>
        g_Index g \<in> S \<and> docs (dv_tg s) (file_key (dv_db s) f g) = Some (part (g_Index g)))"

lemma JobByID_started:
  "JobByID jid (snd (SetJobStatusIf k st e allowed d)) =
     (case JobByID jid d of Inl e \<Rightarrow> Inl e
      | Inr j \<Rightarrow> Inr (if allowed \<noteq> [] \<and> j_Status j \<in> set allowed \<and> j_ID j = k then jobStatusUpdate (db_now d) st e j else j))"
  using jobs.find_where [of jid "\<lambda>j. j_Status j \<in> set allowed \<and> j_ID j = k" "UStatus (db_now d) st e" "db_jobs d"]
  by (simp add: SetJobStatusIf_def Let_def JobByID_def job_touch_eqs split: sum.split)

lemma status_fields [simp]:
  "j_FileID (jobStatusUpdate now st e j) = j_FileID j" "j_SegmentCount (jobStatusUpdate now st e j) = j_SegmentCount j"
  "j_DoneMask (jobStatusUpdate now st e j) = j_DoneMask j"
  by (simp_all add: jobStatusUpdate_def Let_def split: JobStatus.split)

lemma mark_fields [simp]:
  "j_FileID (mark_row now i n j) = j_FileID j" "j_SegmentCount (mark_row now i n j) = j_SegmentCount j"
  by (simp_all add: mark_row_def Let_def split: prod.split)

lemma mark_mask: "1 \<le> i \<Longrightarrow> MaskHas (j_DoneMask (mark_row now i n j)) k \<longleftrightarrow> k = i \<or> MaskHas (j_DoneMask j) k"
  by (auto simp: mark_row_def Let_def MaskHas_MaskSet)

lemma SetJobStatusIf_frame:
  "d' = snd (SetJobStatusIf k st e allowed d) \<Longrightarrow> db_files d' = db_files d \<and> db_segments d' = db_segments d \<and>
     db_dirs d' = db_dirs d \<and> db_channels d' = db_channels d"
  by (simp add: SetJobStatusIf_def Let_def split: if_splits)

lemma index_inv_cong:
  "\<lbrakk>db_dirs d' = db_dirs d; db_files d' = db_files d; db_segments d' = db_segments d\<rbrakk> \<Longrightarrow> index_inv d' = index_inv d"
  by (simp add: index_inv_def files_inv_def dir_exists_def file_exists_def)

lemma FileByID_cong: "db_files d' = db_files d \<Longrightarrow> FileByID i d' = FileByID i d"
  by (simp add: FileByID_def)

lemma file_key_cong: "db_channels d' = db_channels d \<Longrightarrow> file_key d' f g = file_key d f g"
  by (simp add: file_key_def msg_key_cong [of d' d])

lemma UpsertSegment_set:
  assumes "UpsertSegment g d = (Inr (), d')"
  shows "set (db_segments d') = insert g {x \<in> set (db_segments d). \<not> (g_FileID x = g_FileID g \<and> g_Index x = g_Index g)}"
    and "db_files d' = db_files d" "db_jobs d' = db_jobs d" "db_channels d' = db_channels d"
  using assms by (auto simp: UpsertSegment_def Let_def set_update_where list_ex_iff split: if_splits)

section \<open>Storing one segment\<close>

lemma uploadSegment_stores:
  assumes "stores docs a" and "uploadSegment env a f ch i body nb s = (Inr doc, s')"
    and "nb = 0 \<and> f_Size f = 0 \<longrightarrow> body = []"
  shows "\<exists>t. s' = s\<lparr>dv_tg := t\<rparr> \<and> docs (dv_tg s) (c_ID ch, sd_MsgID doc) = None \<and>
    docs t = (docs (dv_tg s))((c_ID ch, sd_MsgID doc) \<mapsto> body)"
proof -
  obtain cap where c: "fileCaption env f i (dv_db s) = Inr cap"
    using assms(2) by (auto simp: uploadSegment_def op_bind_def with_db_def lift_def split: sum.splits)
  obtain ref where r: "ac_ChannelRef a (c_ID ch) (dv_tg s) = Inr ref"
    using assms(2) c by (cases "ac_ChannelRef a (c_ID ch) (dv_tg s)")
      (simp_all add: uploadSegment_def op_bind_def with_db_def channelRef_def ret_def fail_def)
  have id: "cr_ChannelID ref = c_ID ch" by (rule storesD(1) [OF assms(1) r])
  show ?thesis
  proof (cases "nb = 0 \<and> f_Size f = 0")
    case True
    then obtain m t where m: "ac_SendRecord a ref cap (dv_tg s) = (Inr m, t)" "s' = s\<lparr>dv_tg := t\<rparr>" "sd_MsgID doc = m"
      using assms(2) c r
      by (auto simp: uploadSegment_def op_bind_def with_db_def channelRef_def tg_call_def ret_def lift_def
        split: prod.splits sum.splits)
    then show ?thesis using storesD(2) [OF assms(1) m(1)] True assms(3) id by (intro exI [of _ t]) simp
  next
    case False
    let ?spec = "\<lparr>us_Name = segment_name f i, us_MIME = f_MIME f, us_Caption = cap, us_Body = body, us_Size = nb\<rparr>"
    obtain t where u: "ac_Upload a ref ?spec (dv_tg s) = (Inr doc, t)" "s' = s\<lparr>dv_tg := t\<rparr>"
      using assms(2) c r False
      by (auto simp: uploadSegment_def op_bind_def with_db_def channelRef_def tg_call_def ret_def lift_def
        split: prod.splits sum.splits)
    then show ?thesis using storesD(7) [OF assms(1) u(1)] id by (intro exI [of _ t]) simp
  qed
qed

lemma store_segment_run:
  assumes "store_segment env jid f ch a i body nb s = (Inr (), s')"
  obtains doc t d1 d2 x d3 where
    "SetJobStatusIf jid JobRunning [] [JobPending, JobRunning] (dv_db s) = (Inr True, d1)"
    "uploadSegment env a f ch i body nb (s\<lparr>dv_db := d1\<rparr>) = (Inr doc, t)"
    "UpsertSegment (segment_row f i nb doc a) (dv_db t) = (Inr (), d2)"
    "MarkSegmentDone jid i nb d2 = (Inr x, d3)" "s' = t\<lparr>dv_db := d3\<rparr>"
proof -
  obtain b d1 where 1: "SetJobStatusIf jid JobRunning [] [JobPending, JobRunning] (dv_db s) = (Inr b, d1)"
    by (simp add: SetJobStatusIf_def Let_def)
  have b: "b" using assms 1 by (auto simp: store_segment_def op_bind_def exec_eq fail_def split: if_splits)
  obtain r t where 2: "uploadSegment env a f ch i body nb (s\<lparr>dv_db := d1\<rparr>) = (r, t)" by fastforce
  then obtain doc where doc: "r = Inr doc"
    using assms 1 b by (cases r) (simp_all add: store_segment_def op_bind_def exec_eq)
  obtain y d2 where 3: "UpsertSegment (segment_row f i nb doc a) (dv_db t) = (y, d2)" by fastforce
  then have y: "y = Inr ()"
    using assms 1 b 2 doc by (cases y) (simp_all add: store_segment_def op_bind_def exec_eq)
  obtain z d3 where 4: "MarkSegmentDone jid i nb d2 = (z, d3)" by fastforce
  then obtain x where "z = Inr x" "s' = t\<lparr>dv_db := d3\<rparr>"
    using assms 1 b 2 doc 3 y by (cases z) (simp_all add: store_segment_def op_bind_def exec_eq ret_def)
  then show thesis using that [of d1 doc t d2 x d3] 1 b 2 doc 3 y 4 by simp
qed

lemma store_segment_lands:
  assumes L: "landed docs jid f part S s" and a: "stores docs a" and ch: "channelFor (f_ChannelID f) (dv_db s) = Inr ch"
    and body: "body = part i" "nb = 0 \<and> f_Size f = 0 \<longrightarrow> body = []" and i: "1 \<le> i"
    and run: "store_segment env jid f ch a i body nb s = (Inr (), s')"
  shows "landed docs jid f part (insert i S) s'"
    and "dv_uploadJobs s' = dv_uploadJobs s" "dv_jobAccounts s' = dv_jobAccounts s"
    and "db_channels (dv_db s') = db_channels (dv_db s)"
proof -
  from run obtain doc t d1 d2 x d3 where
    1: "SetJobStatusIf jid JobRunning [] [JobPending, JobRunning] (dv_db s) = (Inr True, d1)"
    and 2: "uploadSegment env a f ch i body nb (s\<lparr>dv_db := d1\<rparr>) = (Inr doc, t)"
    and 3: "UpsertSegment (segment_row f i nb doc a) (dv_db t) = (Inr (), d2)"
    and 4: "MarkSegmentDone jid i nb d2 = (Inr x, d3)" "s' = t\<lparr>dv_db := d3\<rparr>"
    by (rule store_segment_run)
  from uploadSegment_stores [OF a 2 body(2)] obtain tg where t: "t = s\<lparr>dv_db := d1, dv_tg := tg\<rparr>"
    and doc: "docs (dv_tg s) (c_ID ch, sd_MsgID doc) = None" "docs tg = (docs (dv_tg s))((c_ID ch, sd_MsgID doc) \<mapsto> body)"
    by auto
  have d1: "d1 = snd (SetJobStatusIf jid JobRunning [] [JobPending, JobRunning] (dv_db s))" by (simp add: 1)
  note f1 = SetJobStatusIf_frame [OF d1]
  have u: "UpsertSegment (segment_row f i nb doc a) d1 = (Inr (), d2)" using 3 t by simp
  note f2 = UpsertSegment_set [OF u]
  from L obtain job where inv: "index_inv (dv_db s)" and row: "FileByID (f_ID f) (dv_db s) = Inr f"
    and job: "JobByID jid (dv_db s) = Inr job" "j_FileID job = f_ID f" "j_SegmentCount job = f_SegmentCount f"
      "\<And>k. MaskHas (j_DoneMask job) k \<longleftrightarrow> k \<in> S"
    and rows: "\<And>k. k \<in> S \<Longrightarrow> \<exists>g \<in> set (db_segments (dv_db s)). g_FileID g = f_ID f \<and> g_Index g = k"
    and docs: "\<And>g. \<lbrakk>g \<in> set (db_segments (dv_db s)); g_FileID g = f_ID f\<rbrakk> \<Longrightarrow>
      g_Index g \<in> S \<and> docs (dv_tg s) (file_key (dv_db s) f g) = Some (part (g_Index g))"
    unfolding landed_def by blast
  obtain j1 where j1: "JobByID jid d1 = Inr j1" "j_FileID j1 = f_ID f" "j_SegmentCount j1 = f_SegmentCount f"
      "\<And>k. MaskHas (j_DoneMask j1) k \<longleftrightarrow> k \<in> S"
    using job JobByID_started [of jid jid JobRunning "[]" "[JobPending, JobRunning]" "dv_db s"] by (auto simp: d1 split: if_splits)
  have j2: "JobByID jid d2 = Inr j1" using j1 f2(3) by (simp add: JobByID_def)
  have na: "\<not> Aborted (j_Status j1)" using 4(1) MarkSegmentDone_aborted [OF j2] by auto
  have d3: "d3 = with_job jid (mark_row (db_now d2) i nb) d2" "x = mark_row (db_now d2) i nb j1"
    using 4(1) MarkSegmentDone_Inr [OF j2 na] by simp_all
  have j3: "JobByID jid d3 = Inr (mark_row (db_now d2) i nb j1)" by (simp add: d3 JobByID_mark j2)
  have fr: "db_dirs d3 = db_dirs d2" "db_files d3 = db_files d2" "db_segments d3 = db_segments d2" "db_channels d3 = db_channels d2"
    by (simp_all add: d3 with_job_def)
  have "index_inv d1" using inv f1 index_inv_cong [of d1 "dv_db s"] by simp
  then have "index_inv d2" using UpsertSegment_inv [of d1 "segment_row f i nb doc a"] u by simp
  then have inv3: "index_inv d3" using index_inv_cong [OF fr(1-3)] by simp
  have chs: "db_channels d3 = db_channels (dv_db s)" using fr f2 f1 by simp
  have segs: "set (db_segments d3) = insert (segment_row f i nb doc a)
      {x \<in> set (db_segments (dv_db s)). \<not> (g_FileID x = f_ID f \<and> g_Index x = i)}"
    using f2(1) f1 fr by (simp add: segment_row_def)
  have key: "file_key d3 f g = file_key (dv_db s) f g" for g by (rule file_key_cong [OF chs])
  have new: "file_key (dv_db s) f (segment_row f i nb doc a) = (c_ID ch, sd_MsgID doc)"
    using ch by (simp add: file_key_def msg_key_def segment_row_def)
  have rows3: "\<exists>g \<in> set (db_segments d3). g_FileID g = f_ID f \<and> g_Index g = k" if "k \<in> insert i S" for k
  proof (cases "k = i")
    case True
    then show ?thesis unfolding segs by (auto simp: segment_row_def)
  next
    case False
    then have "k \<in> S" using that by simp
    then obtain g where "g \<in> set (db_segments (dv_db s))" "g_FileID g = f_ID f \<and> g_Index g = k" using rows by blast
    then show ?thesis unfolding segs using False by auto
  qed
  have docs3: "g_Index g \<in> insert i S \<and> docs tg (file_key d3 f g) = Some (part (g_Index g))"
    if g: "g \<in> set (db_segments d3)" "g_FileID g = f_ID f" for g
  proof (cases "g = segment_row f i nb doc a")
    case True
    then show ?thesis unfolding key True new using doc(2) body(1) by (simp add: segment_row_def)
  next
    case False
    then have "g \<in> set (db_segments (dv_db s))" using g(1) segs by auto
    from docs [OF this g(2)] show ?thesis unfolding key using doc by auto
  qed
  have file3: "FileByID (f_ID f) d3 = Inr f"
    using row FileByID_cong [of d3 "dv_db s"] fr(2) f2(2) f1 by simp
  have mask: "\<forall>k. MaskHas (j_DoneMask (mark_row (db_now d2) i nb j1)) k \<longleftrightarrow> k \<in> insert i S"
    using mark_mask [OF i] j1(4) by simp
  show "landed docs jid f part (insert i S) s'"
    unfolding landed_def 4(2) t using inv3 file3 j3 j1(2,3) mask rows3 docs3 by simp
  show "dv_uploadJobs s' = dv_uploadJobs s" "dv_jobAccounts s' = dv_jobAccounts s"
    "db_channels (dv_db s') = db_channels (dv_db s)"
    unfolding 4(2) t using chs by simp_all
qed

section \<open>The whole file\<close>

text \<open>What the steps of one upload keep besides the landed segments.\<close>

definition upload_frame :: "('t, 'b) drive \<Rightarrow> ('t, 'b) drive \<Rightarrow> bool" where
  "upload_frame s s' \<longleftrightarrow> dv_uploadJobs s' = dv_uploadJobs s \<and> dv_jobAccounts s' = dv_jobAccounts s \<and>
     db_channels (dv_db s') = db_channels (dv_db s)"

lemma upload_frame_refl: "upload_frame s s"
  and upload_frame_trans: "upload_frame s s1 \<Longrightarrow> upload_frame s1 s2 \<Longrightarrow> upload_frame s s2"
  by (simp_all add: upload_frame_def)

lemma frame_account: "upload_frame s s' \<Longrightarrow> uploadJobAccount jid s' = uploadJobAccount jid s"
  unfolding upload_frame_def uploadJobAccount_def by (elim conjE) (simp only:)

lemma put_segment_lands:
  assumes L: "landed docs jid f part S s"
    and acc: "uploadJobAccount jid s = Some a" "stores docs a"
    and body: "body = part i" "f_Size f = 0 \<longrightarrow> body = []"
    and run: "put_segment env jid i body nb s = (Inr (), s')"
  shows "landed docs jid f part (insert i S) s' \<and> upload_frame s s'"
proof -
  from L obtain job where job: "JobByID jid (dv_db s) = Inr job" "j_FileID job = f_ID f"
    and row: "FileByID (f_ID f) (dv_db s) = Inr f"
    unfolding landed_def by blast
  obtain ch where ch: "channelFor (f_ChannelID f) (dv_db s) = Inr ch"
    using run job row by (cases "channelFor (f_ChannelID f) (dv_db s)")
      (auto simp: put_segment_def op_bind_def query_def with_db_def ret_def fail_def split: if_splits)
  have r: "store_segment env jid f ch a i body nb s = (Inr (), s')" "1 \<le> i"
    using run job row ch acc(1)
    by (auto simp: put_segment_def op_bind_def query_def with_db_def ret_def fail_def segment_account_def split: if_splits)
  show ?thesis
    using store_segment_lands [OF L acc(2) ch body(1) _ r(2,1)] body(2) by (simp add: upload_frame_def)
qed

lemma or_abort_Inr:
  assumes "or_abort env jid m f s = (Inr x, s')"
  obtains y s1 where "m s = (Inr y, s1)" "f y s1 = (Inr x, s')"
  using assms by (auto simp: or_abort_def op_bind_def fail_def split: prod.splits sum.splits)

lemma op_bind_InrE:
  assumes "op_bind m f s = (Inr x, s')"
  obtains y s1 where "m s = (Inr y, s1)" "f y s1 = (Inr x, s')"
  using assms by (auto simp: op_bind_def split: prod.splits sum.splits)

lemma PutSegment_eq: "hk_segment (en_hooks env) = Inr \<Longrightarrow> PutSegment env jid i body nb = put_segment env jid i body nb"
  by (simp add: PutSegment_def fun_eq_iff op_bind_def ret_def)

lemma put_loop_lands:
  assumes hook: "hk_segment (en_hooks env) = Inr"
    and seg: "0 < f_SegmentSize f" "in64 (f_SegmentSize f)" and n: "0 \<le> f_Size f" "in64 (f_Size f)"
    and row: "f_Size row = f_Size f" and data: "length data = nat (f_Size f)" and a: "stores docs a"
    and count: "c \<le> SegmentCount (f_SegmentSize f) (f_Size f)"
  shows "\<lbrakk>landed docs jid row (piece (f_Size f) (f_SegmentSize f) data) {1 .. k} s; 0 \<le> k; k \<le> c;
    uploadJobAccount jid s = Some a;
    put_loop env jid f [k + 1 .. c] (drop (nat (k * f_SegmentSize f)) data) s = (Inr (), s')\<rbrakk> \<Longrightarrow>
    landed docs jid row (piece (f_Size f) (f_SegmentSize f) data) {1 .. c} s' \<and> upload_frame s s'"
proof (induction "nat (c - k)" arbitrary: k s)
  case 0
  then have "k = c" by simp
  then show ?case using 0 by (simp add: ret_def upload_frame_refl)
next
  case (Suc m)
  let ?seg = "f_SegmentSize f" and ?n = "f_Size f"
  let ?i = "k + 1"
  let ?sz = "SegmentSize ?n ?seg ?i" and ?r = "drop (nat (k * ?seg)) data" and ?part = "piece ?n ?seg data"
  have k: "k < c" using Suc.hyps(2) by simp
  have i: "1 \<le> ?i" "?i \<le> SegmentCount ?seg ?n" using Suc.prems(2) k count by simp_all
  have up: "[k + 1 .. c] = ?i # [?i + 1 .. c]" using k by (simp add: upto_rec1)
  have p: "take (nat ?sz) ?r = ?part ?i" by (simp add: piece_def)
  have "put_loop env jid f (?i # [?i + 1 .. c]) ?r s = (Inr (), s')" using Suc.prems(5) unfolding up .
  then have "or_abort env jid (PutSegment env jid ?i (take (nat ?sz) ?r) ?sz)
      (\<lambda>_. put_loop env jid f [?i + 1 .. c] (drop (nat ?sz) ?r)) s = (Inr (), s')"
    by (simp only: put_loop.simps Let_def)
  then obtain s1 where 1: "put_segment env jid ?i (?part ?i) ?sz s = (Inr (), s1)"
    and 2: "put_loop env jid f [?i + 1 .. c] (drop (nat ?sz) ?r) s1 = (Inr (), s')"
    unfolding p PutSegment_eq [OF hook] by (rule or_abort_Inr) (metis (full_types) old.unit.exhaust)
  have empty: "f_Size row = 0 \<longrightarrow> ?part ?i = []" using data row by (simp add: piece_def)
  have L: "landed docs jid row ?part (insert ?i {1 .. k}) s1 \<and> upload_frame s s1"
    by (rule put_segment_lands [OF Suc.prems(1,4) a refl empty 1])
  have ins: "insert ?i {1 .. k} = {1 .. ?i}" using Suc.prems(2) by auto
  have rest: "drop (nat ?sz) ?r = drop (nat (?i * ?seg)) data" by (rule drop_segment [OF seg n i data])
  have acc: "uploadJobAccount jid s1 = Some a" using L Suc.prems(4) frame_account by metis
  have "landed docs jid row ?part {1 .. c} s' \<and> upload_frame s1 s'"
  proof (rule Suc.hyps(1) [of ?i s1])
    show "landed docs jid row ?part {1 .. ?i} s1" using L ins by simp
    show "put_loop env jid f [?i + 1 .. c] (drop (nat (?i * ?seg)) data) s1 = (Inr (), s')" using 2 rest by (simp only:)
  qed (use Suc.hyps(2) Suc.prems(2) k acc in auto)
  then show ?case using L upload_frame_trans by blast
qed

lemma sorted_indices:
  assumes "distinct (map (\<lambda>g. (g_FileID g, g_Index g)) (db_segments d))"
    and "\<And>g. \<lbrakk>g \<in> set (db_segments d); g_FileID g = fid\<rbrakk> \<Longrightarrow> g_Index g \<in> {1 .. c}"
    and "\<And>i. i \<in> {1 .. c} \<Longrightarrow> \<exists>g \<in> set (db_segments d). g_FileID g = fid \<and> g_Index g = i"
  shows "map g_Index (Segments fid d) = [1 .. c]"
proof (rule sorted_distinct_set_unique)
  let ?gs = "filter (\<lambda>g. g_FileID g = fid) (db_segments d)"
  have "distinct (map (\<lambda>g. (g_FileID g, g_Index g)) ?gs)" using assms(1) by (rule distinct_map_filter)
  then have "inj_on g_Index (set ?gs)" "distinct ?gs" by (auto simp: distinct_map inj_on_def)
  then show "distinct (map g_Index (Segments fid d))" by (simp add: Segments_def distinct_map)
  show "set (map g_Index (Segments fid d)) = set [1 .. c]"
    using assms(2,3) by (auto simp: Segments_def image_iff) metis
qed (simp_all add: Segments_def sorted_upto)

text \<open>What a completed upload leaves.\<close>

definition file_stored ::
  "('t \<Rightarrow> (string \<times> int) \<Rightarrow> 'b list option) \<Rightarrow> FileRow \<Rightarrow> 'b list \<Rightarrow> ('t, 'b) drive \<Rightarrow> bool" where
  "file_stored docs f data s \<longleftrightarrow>
     f \<in> set (db_files (dv_db s)) \<and> f_Status f = StatusComplete \<and>
     map g_Index (Segments (f_ID f) (dv_db s)) = [1 .. f_SegmentCount f] \<and>
     concat (map (\<lambda>g. the (docs (dv_tg s) (file_key (dv_db s) f g))) (Segments (f_ID f) (dv_db s))) = data"

text \<open>The row a completed upload leaves, and the part each of its segments' documents carries.\<close>

definition parts_stored ::
  "('t \<Rightarrow> (string \<times> int) \<Rightarrow> 'b list option) \<Rightarrow> FileRow \<Rightarrow> (int \<Rightarrow> 'b list) \<Rightarrow> ('t, 'b) drive \<Rightarrow> bool" where
  "parts_stored docs f part s \<longleftrightarrow>
     FileByID (f_ID f) (dv_db s) = Inr f \<and>
     map g_Index (Segments (f_ID f) (dv_db s)) = [1 .. f_SegmentCount f] \<and>
     (\<forall>g \<in> set (Segments (f_ID f) (dv_db s)). docs (dv_tg s) (file_key (dv_db s) f g) = Some (part (g_Index g)))"

lemma Complete_stores:
  assumes L: "landed docs jid row part S s" and S: "S \<subseteq> {1 .. f_SegmentCount row}"
    and hook: "hk_path (en_hooks env) ''files.completeUpload'' jid = Inr jid"
    and run: "Complete env jid s = (Inr f', s')"
  shows "file_stored docs f' (concat (map part [1 .. f_SegmentCount row])) s'"
    and "\<exists>t. f' = row\<lparr>f_Status := StatusComplete, f_UpdatedAt := t\<rparr>"
    and "parts_stored docs f' part s'"
    and "db_channels (dv_db s') = db_channels (dv_db s)"
proof -
  from L obtain job where inv: "index_inv (dv_db s)" and row: "FileByID (f_ID row) (dv_db s) = Inr row"
    and job: "JobByID jid (dv_db s) = Inr job" "j_FileID job = f_ID row" "j_SegmentCount job = f_SegmentCount row"
      "\<And>k. MaskHas (j_DoneMask job) k \<longleftrightarrow> k \<in> S"
    and rows: "\<And>k. k \<in> S \<Longrightarrow> \<exists>g \<in> set (db_segments (dv_db s)). g_FileID g = f_ID row \<and> g_Index g = k"
    and docs: "\<And>g. \<lbrakk>g \<in> set (db_segments (dv_db s)); g_FileID g = f_ID row\<rbrakk> \<Longrightarrow>
      g_Index g \<in> S \<and> docs (dv_tg s) (file_key (dv_db s) row g) = Some (part (g_Index g))"
    unfolding landed_def by blast
  let ?u = "\<lambda>r. r\<lparr>f_Status := StatusComplete, f_UpdatedAt := db_now (dv_db s)\<rparr>"
  have mem: "row \<in> set (db_files (dv_db s))" using row query_row_Some unfolding FileByID_def by fast
  have fin: "Done job"
    using run hook job(1) by (cases "Done job") (simp_all add: Complete_def before_path_def op_bind_def query_def ret_def fail_def)
  let ?d1 = "(dv_db s)\<lparr>db_files := update_where (\<lambda>r. f_ID r = f_ID row) ?u (db_files (dv_db s))\<rparr>"
  have 1: "UpdateFileStatus (f_ID row) StatusComplete (dv_db s) = (Inr (), ?d1)"
    using mem by (auto simp: UpdateFileStatus_def with_file_def affectedOne_def list_ex_iff)
  let ?d2 = "with_job jid (jobStatusUpdate (db_now ?d1) JobComplete []) ?d1"
  have "affectedOne (\<lambda>j. j_ID j = jid) (db_jobs ?d1) = Inr ()"
    using job(1) query_row_Some [of "\<lambda>j. j_ID j = jid" "db_jobs (dv_db s)" job]
    by (auto simp: JobByID_def affectedOne_def list_ex_iff)
  then have 2: "SetJobStatus jid JobComplete [] ?d1 = (Inr (), ?d2)" by (simp add: SetJobStatus_def)
  have s': "dv_db s' = ?d2" "dv_tg s' = dv_tg s" and f': "FileByID (f_ID row) ?d2 = Inr f'"
    using run hook job(1,2) fin 1 2
    by (auto simp: Complete_def before_path_def op_bind_def query_def ret_def exec_eq lift_def fail_def ReleaseUploadJob_def Let_def
      split: sum.splits option.splits if_splits)
  have q: "query_row (\<lambda>r. f_ID r = f_ID row) (update_where (\<lambda>r. f_ID r = f_ID row) ?u rows)
      = (case query_row (\<lambda>r. f_ID r = f_ID row) rows of Inl e \<Rightarrow> Inl e | Inr r \<Rightarrow> Inr (?u r))" for rows
    by (induction rows) (auto simp: query_row_def update_where_def split: option.splits)
  have "FileByID (f_ID row) ?d2 = Inr (?u row)"
    using q [of "db_files (dv_db s)"] row by (simp add: FileByID_def with_job_def)
  then have eq: "f' = ?u row" using f' by simp
  then show "\<exists>t. f' = row\<lparr>f_Status := StatusComplete, f_UpdatedAt := t\<rparr>" by blast
  have key: "file_key ?d2 f' g = file_key (dv_db s) row g" for g
    using file_key_cong [of ?d2 "dv_db s"] by (simp add: file_key_def eq with_job_def msg_key_cong [of ?d2 "dv_db s"])
  have segs: "Segments i ?d2 = Segments i (dv_db s)" for i by (simp add: Segments_def with_job_def)
  have S': "S = {1 .. f_SegmentCount row}" using fin job(3,4) S by (auto simp: Done_def all_done_iff)
  have idx: "map g_Index (Segments (f_ID row) (dv_db s)) = [1 .. f_SegmentCount row]"
  proof (rule sorted_indices)
    show "distinct (map (\<lambda>g. (g_FileID g, g_Index g)) (db_segments (dv_db s)))"
      using inv by (simp add: index_inv_def files_inv_def)
  qed (use docs rows S' in blast)+
  show "parts_stored docs f' part s'"
    using f' idx docs unfolding parts_stored_def s' segs key by (simp add: eq) (simp add: Segments_def)
  show "db_channels (dv_db s') = db_channels (dv_db s)" by (simp add: s'(1) with_job_def)
  have "map (\<lambda>g. the (docs (dv_tg s) (file_key (dv_db s) row g))) (Segments (f_ID row) (dv_db s))
      = map (part \<circ> g_Index) (Segments (f_ID row) (dv_db s))"
    using docs by (intro map_cong refl) (simp add: Segments_def)
  also have "\<dots> = map part [1 .. f_SegmentCount row]" by (simp flip: idx)
  finally have parts: "map (\<lambda>g. the (docs (dv_tg s) (file_key (dv_db s) row g))) (Segments (f_ID row) (dv_db s))
      = map part [1 .. f_SegmentCount row]" .
  have "f' \<in> set (db_files ?d2)" using mem eq by (auto simp: with_job_def set_update_where image_iff intro!: bexI [of _ row])
  moreover have "f_ID f' = f_ID row" "f_SegmentCount f' = f_SegmentCount row" "f_Status f' = StatusComplete" by (simp_all add: eq)
  ultimately show "file_stored docs f' (concat (map part [1 .. f_SegmentCount row])) s'"
    unfolding file_stored_def s' segs key by (simp add: parts idx)
qed

end
