(* ===== verification/UploadBegin.thy ===== *)
theory UploadBegin
  imports UploadLaws
begin

text \<open>
  What \<open>Begin\<close> reserves, and uploads from beginning to end: the file that a successful upload
  leaves has exactly the bytes of the stream, stored in order under its segments.
\<close>

section \<open>Begin\<close>

lemma InsertFile_success:
  assumes "InsertFile f d = (Inr (), d')"
  shows "d' = d\<lparr>db_files := db_files d @ [f\<lparr>f_CreatedAt := db_now d, f_UpdatedAt := db_now d\<rparr>]\<rparr>"
    and "\<forall>r \<in> set (db_files d). f_ID r \<noteq> f_ID f"
  using assms by (auto simp: InsertFile_def Let_def list_ex_iff split: if_splits)

lemma InsertJob_success:
  assumes "InsertJob j d = (Inr (), d')"
  shows "\<exists>row. d' = d\<lparr>db_jobs := db_jobs d @ [row]\<rparr> \<and> j_ID row = j_ID j \<and> j_FileID row = j_FileID j \<and>
      j_SegmentCount row = j_SegmentCount j \<and> j_DoneMask row = j_DoneMask j \<and> j_Status row = j_Status j"
    and "\<forall>r \<in> set (db_jobs d). j_ID r \<noteq> j_ID j"
  using assms by (auto simp: InsertJob_def Let_def list_ex_iff split: if_splits)

text \<open>The state in which the segments of an upload start to arrive.\<close>

definition reserved :: "db \<Rightarrow> string \<Rightarrow> FileRow \<Rightarrow> bool" where
  "reserved d jid f \<longleftrightarrow> index_inv d \<and>
     (\<exists>now. FileByID (f_ID f) d = Inr (f\<lparr>f_CreatedAt := now, f_UpdatedAt := now\<rparr>)) \<and> f_Status f = StatusPending \<and>
     list_all (\<lambda>g. g_FileID g \<noteq> f_ID f) (db_segments d) \<and>
     (\<exists>job. JobByID jid d = Inr job \<and> j_FileID job = f_ID f \<and> j_SegmentCount job = f_SegmentCount f \<and>
        j_DoneMask job = NewMask (f_SegmentCount f) \<and> j_Status job = JobPending)"

lemma query_row_snoc: "\<lbrakk>\<forall>r \<in> set rows. \<not> P r; P x\<rbrakk> \<Longrightarrow> query_row P (rows @ [x]) = Inr x"
  by (induction rows) (auto simp: query_row_def)

lemma reserve_rows:
  assumes inv: "index_inv d0" and f: "InsertFile f d0 = (Inr (), d1)" and j: "InsertJob job d1 = (Inr (), d2)"
    and st: "f_Status f = StatusPending" "j_Status job = JobPending" and link: "j_FileID job = f_ID f"
      "j_SegmentCount job = f_SegmentCount f" "j_DoneMask job = NewMask (f_SegmentCount f)"
  shows "reserved d2 (j_ID job) f"
proof -
  note F = InsertFile_success [OF f] and J = InsertJob_success [OF j]
  obtain row where d2: "d2 = d1\<lparr>db_jobs := db_jobs d1 @ [row]\<rparr>" and row: "j_ID row = j_ID job" "j_FileID row = f_ID f"
      "j_SegmentCount row = f_SegmentCount f" "j_DoneMask row = NewMask (f_SegmentCount f)" "j_Status row = JobPending"
    using J(1) st link by auto
  have "index_inv d1" using InsertFile_inv [OF inv, of f] f by simp
  then have i: "index_inv d2" by (subst index_inv_cong [of d2 d1]) (simp_all add: d2)
  have "g_FileID g \<noteq> f_ID f" if "g \<in> set (db_segments d0)" for g
    using inv that F(2) by (auto simp: index_inv_def files_inv_def file_exists_def list_ex_iff)
  then have s: "list_all (\<lambda>g. g_FileID g \<noteq> f_ID f) (db_segments d2)" by (simp add: d2 F(1) list_all_iff)
  have b: "FileByID (f_ID f) d2 = Inr (f\<lparr>f_CreatedAt := db_now d0, f_UpdatedAt := db_now d0\<rparr>)"
    unfolding FileByID_def using F(2) by (simp add: d2 F(1) query_row_snoc)
  have "JobByID (j_ID job) d2 = Inr row"
    unfolding JobByID_def using J(2) row(1) by (simp add: d2 query_row_snoc)
  then show ?thesis unfolding reserved_def using i s b row st by blast
qed

lemma clearName_index: "keeps (\<lambda>s. index_inv (dv_db s)) (clearName env i n w)"
  using keepsD [OF deleteFileRow_index]
  by (auto simp: keeps_iff clearName_def ret_def fail_def split: sum.split)

lemma on_conflict_Inr: "on_conflict m s = (Inr x, s') \<longleftrightarrow> m s = (Inr x, s')"
  by (auto simp: on_conflict_def split: prod.splits sum.splits)

lemma lift_Inr: "lift h r s = (Inr x, s') \<longleftrightarrow> r = Inr x \<and> s' = s"
  by (cases r) (auto simp: ret_def fail_def)

lemma with_db_Inr: "with_db q s = (Inr x, s') \<longleftrightarrow> q (dv_db s) = Inr x \<and> s' = s"
  by (simp add: with_db_def lift_Inr)

lemma with_db_bind: "op_bind (with_db q) f s = (case q (dv_db s) of Inl e \<Rightarrow> (Inl e, s) | Inr x \<Rightarrow> f x s)"
  by (simp add: op_bind_def with_db_def lift_def split: sum.split)

lemma Begin_run:
  assumes "hk_begin (en_hooks env) req0 = Inr req" and "Begin env req0 s = (Inr (job, f), s')"
  obtains ch dir s1 s2 b where "storageChannel (dv_db s) = Inr ch" "quota_bytes req (dv_db s) = Inr b"
    "CheckQuota (uq_UserID req) b (dv_db s) = Inr ()" "0 \<le> uq_Size req" "ValidateName (uq_Name req) = Inr ()"
    "Mkdir env (uq_DirPath req) s = (Inr dir, s1)"
    "clearName env (d_ID dir) (uq_Name req) (uq_Overwrite req) s1 = (Inr (), s2)"
    "begin_rows env req ch dir s2 = (Inr (job, f), s')"
proof -
  have v: "ValidateName (uq_Name req) = Inr ()"
    using assms by (cases "ValidateName (uq_Name req)") (simp_all add: Begin_def fail_def)
  have n: "0 \<le> uq_Size req" using assms v by (simp add: Begin_def fail_def split: if_splits)
  obtain ch where ch: "storageChannel (dv_db s) = Inr ch"
    using assms v n by (cases "storageChannel (dv_db s)") (simp_all add: Begin_def with_db_bind)
  obtain b where b: "quota_bytes req (dv_db s) = Inr b"
    using assms v n ch by (cases "quota_bytes req (dv_db s)") (simp_all add: Begin_def with_db_bind)
  have c: "CheckQuota (uq_UserID req) b (dv_db s) = Inr ()"
    using assms v n ch b by (cases "CheckQuota (uq_UserID req) b (dv_db s)") (simp_all add: Begin_def with_db_bind)
  have "op_bind (Mkdir env (uq_DirPath req)) (\<lambda>dir. op_bind (clearName env (d_ID dir) (uq_Name req) (uq_Overwrite req))
      (\<lambda>_. begin_rows env req ch dir)) s = (Inr (job, f), s')"
    using assms v n ch b c by (simp add: Begin_def with_db_bind)
  then obtain dir s1 where 1: "Mkdir env (uq_DirPath req) s = (Inr dir, s1)"
    and "op_bind (clearName env (d_ID dir) (uq_Name req) (uq_Overwrite req)) (\<lambda>_. begin_rows env req ch dir) s1 = (Inr (job, f), s')"
    by (rule op_bind_InrE)
  from this(2) obtain u s2 where "clearName env (d_ID dir) (uq_Name req) (uq_Overwrite req) s1 = (Inr u, s2)"
    "begin_rows env req ch dir s2 = (Inr (job, f), s')"
    by (rule op_bind_InrE)
  then show thesis using that ch b c n v 1 by (metis old.unit.exhaust)
qed

lemma begin_rows_run:
  assumes "begin_rows env req ch dir s = (Inr (job, f), s')"
  obtains fid jid n d1 where "f = new_file env req ch dir fid" "job = new_job req f jid" "jid = en_newID env n"
    "InsertFile f (dv_db s) = (Inr (), d1)" "InsertJob job d1 = (Inr (), dv_db s')"
    "dv_uploadJobs s' = dv_uploadJobs s" "dv_jobAccounts s' = dv_jobAccounts s" "fid = en_newID env (dv_seq s)"
proof -
  let ?fid = "en_newID env (dv_seq s)" and ?jid = "en_newID env (dv_seq s + 1)"
  let ?f = "new_file env req ch dir ?fid"
  obtain y d1 where y: "InsertFile ?f (dv_db s) = (y, d1)" by fastforce
  have y': "y = Inr ()"
    using assms y by (cases y) (simp_all add: begin_rows_def op_bind_def NewID_def on_conflict_def exec_eq)
  obtain z d2 where z: "InsertJob (new_job req ?f ?jid) d1 = (z, d2)" by fastforce
  have "z = Inr () \<and> job = new_job req ?f ?jid \<and> f = ?f \<and> dv_db s' = d2 \<and> dv_uploadJobs s' = dv_uploadJobs s \<and>
      dv_jobAccounts s' = dv_jobAccounts s"
    using assms y y' z by (cases z)
      (auto simp: begin_rows_def op_bind_def NewID_def on_conflict_def exec_eq insert_job_op_def attempt_def fail_def
        split: prod.splits sum.splits)
  then show thesis using that [of ?fid ?jid "dv_seq s + 1" d1] y y' z by simp
qed

lemma Begin_reserved:
  assumes inv: "index_inv (dv_db s)" and hook: "hk_begin (en_hooks env) req0 = Inr req"
    "hk_path (en_hooks env) ''files.mkdir'' (uq_DirPath req) = Inr p" and p: "CleanPath p = Inr clean" "valid_utf8 clean"
    and run: "Begin env req0 s = (Inr (job, f), s')"
  shows "reserved (dv_db s') (j_ID job) f"
    and "\<exists>ch dir fid. f = new_file env req ch dir fid"
    and "\<exists>n. j_ID job = en_newID env n"
proof -
  obtain ch dir s1 s2 where
    mk: "Mkdir env (uq_DirPath req) s = (Inr dir, s1)"
    and cl: "clearName env (d_ID dir) (uq_Name req) (uq_Overwrite req) s1 = (Inr (), s2)"
    and rows: "begin_rows env req ch dir s2 = (Inr (job, f), s')"
    using Begin_run [OF hook(1) run] by metis
  have "mkdir_clean env clean s = (Inr dir, s1)"
    using mk hook(2) p by (simp add: Mkdir_def before_path_def clean_op_def)
  from tripleD [OF mkdir_clean_triple [OF p, of "dv_db s"] _ this]
  have "index_inv (dv_db s1)" using inv by (simp add: grows_refl)
  then have 2: "index_inv (dv_db s2)" using tripleD [OF clearName_index _ cl] by blast
  from rows obtain fid jid n d1 where r: "f = new_file env req ch dir fid" "job = new_job req f jid" "jid = en_newID env n"
    "InsertFile f (dv_db s2) = (Inr (), d1)" "InsertJob job d1 = (Inr (), dv_db s')"
    by (rule begin_rows_run)
  show "reserved (dv_db s') (j_ID job) f"
    using reserve_rows [OF 2 r(4,5)] r(1,2) by (simp add: new_file_def new_job_def)
  show "\<exists>n. j_ID job = en_newID env n" unfolding r(2,3) by (auto simp: new_job_def)
  show "\<exists>ch dir fid. f = new_file env req ch dir fid" unfolding r(1) by blast
qed

section \<open>What Begin leaves alone\<close>

text \<open>The leases of browser uploads: no tree operation touches them.\<close>

lemma keeps_lease_basic:
  "keeps (\<lambda>s. dv_uploadJobs s = x) (exec q)" "keeps (\<lambda>s. dv_uploadJobs s = x) (tg_call c)"
  "keeps (\<lambda>s. dv_uploadJobs s = x) (forget_refs i)" "keeps (\<lambda>s. dv_uploadJobs s = x) (NewID env)"
  by (rule triple_exec triple_tg_call triple_forget triple_NewID; simp)+

lemmas lease_intros = keeps_bind keeps_attempt keeps_if keeps_basic keeps_lease_basic

lemma createDir_lease: "keeps (\<lambda>s. dv_uploadJobs s = x) (createDir env pid name p)"
proof -
  have "keeps (\<lambda>s. dv_uploadJobs s = x) (insert_dir_op a ref r)" for a ref r
    by (auto simp: keeps_iff insert_dir_op_eq split: prod.split sum.split)
  then show ?thesis unfolding createDir_def by (intro lease_intros)
qed

lemma Mkdir_lease: "keeps (\<lambda>s. dv_uploadJobs s = x) (Mkdir env p)"
proof -
  have step: "keeps (\<lambda>s. dv_uploadJobs s = x) (mkdir_step env pid name p)" for pid name p
    using keepsD [OF createDir_lease [of x env pid name p]]
    by (auto simp: keeps_iff mkdir_step_def ret_def fail_def split: sum.split)
  have "keeps (\<lambda>s. dv_uploadJobs s = x) (mkdir_loop env names pid pp cur)" for names pid pp cur
    by (induction names arbitrary: pid pp cur) (auto intro: keeps_bind keeps_basic step)
  from keepsD [OF this] have "keeps (\<lambda>s. dv_uploadJobs s = x) (mkdir_clean env clean)" for clean
    by (auto simp: keeps_iff mkdir_clean_def ret_def fail_def split: sum.split)
  then show ?thesis unfolding Mkdir_def before_path_def clean_op_def by (intro keeps_bind keeps_basic)
qed

lemma deleteFileRow_lease: "keeps (\<lambda>s. dv_uploadJobs s = x) (deleteFileRow env f)"
proof -
  have "keeps (\<lambda>s. dv_uploadJobs s = x) (delete_groups a gs)" for a gs
    by (induction a gs rule: delete_groups.induct) (simp_all add: lease_intros)
  then show ?thesis unfolding deleteFileRow_def deleteMessages_def by (intro lease_intros)
qed

lemma Begin_lease:
  assumes "hk_begin (en_hooks env) req0 = Inr req" and "Begin env req0 s = (Inr (job, f), s')"
  shows "dv_uploadJobs s' = dv_uploadJobs s"
proof -
  obtain ch dir s1 s2 where
    mk: "Mkdir env (uq_DirPath req) s = (Inr dir, s1)"
    and cl: "clearName env (d_ID dir) (uq_Name req) (uq_Overwrite req) s1 = (Inr (), s2)"
    and rows: "begin_rows env req ch dir s2 = (Inr (job, f), s')"
    using Begin_run [OF assms] by metis
  have 1: "dv_uploadJobs s1 = dv_uploadJobs s" using tripleD [OF Mkdir_lease refl mk] .
  have "keeps (\<lambda>s. dv_uploadJobs s = dv_uploadJobs s1) (clearName env (d_ID dir) (uq_Name req) (uq_Overwrite req))"
    using keepsD [OF deleteFileRow_lease]
    by (auto simp: keeps_iff clearName_def ret_def fail_def split: sum.split)
  from tripleD [OF this refl cl] have "dv_uploadJobs s2 = dv_uploadJobs s1" .
  then show ?thesis using 1 rows begin_rows_run by metis
qed

section \<open>From the first byte to the last\<close>

lemma reserved_landed:
  assumes "reserved d jid f" and "dv_db s = d"
  obtains row now where "row = f\<lparr>f_CreatedAt := now, f_UpdatedAt := now\<rparr>" "landed docs jid row part {} s"
proof -
  obtain now where now: "FileByID (f_ID f) d = Inr (f\<lparr>f_CreatedAt := now, f_UpdatedAt := now\<rparr>)"
    using assms(1) unfolding reserved_def by blast
  let ?row = "f\<lparr>f_CreatedAt := now, f_UpdatedAt := now\<rparr>"
  have "landed docs jid ?row part {} s"
    using assms now unfolding landed_def reserved_def by (auto simp: list_all_iff)
  then show thesis using that by blast
qed

lemma started_landed:
  assumes "landed docs jid f part S s"
  shows "landed docs jid f part S (s\<lparr>dv_db := snd (SetJobStatusIf jid st e allowed (dv_db s))\<rparr>)"
proof -
  let ?d = "snd (SetJobStatusIf jid st e allowed (dv_db s))"
  have f: "db_files ?d = db_files (dv_db s)" "db_segments ?d = db_segments (dv_db s)" "db_dirs ?d = db_dirs (dv_db s)"
    "db_channels ?d = db_channels (dv_db s)"
    using SetJobStatusIf_frame [OF refl, of jid st e allowed "dv_db s"] by simp_all
  show ?thesis
    using assms JobByID_started [of jid jid st e allowed "dv_db s"]
    unfolding landed_def
    by (auto simp: f index_inv_cong [OF f(3,1,2)] FileByID_cong [OF f(1)] file_key_cong [OF f(4)])
qed

lemma uploadStream_stores:
  assumes res: "reserved (dv_db s) jid f" and jid: "jid \<noteq> []" "map_of (dv_uploadJobs s) jid = None"
    and a: "stores docs a" and hook: "hk_segment (en_hooks env) = Inr" "hk_path (en_hooks env) ''files.completeUpload'' jid = Inr jid"
    and seg: "0 < f_SegmentSize f" "in64 (f_SegmentSize f)" and n: "0 \<le> f_Size f" "in64 (f_Size f)"
    and count: "f_SegmentCount f = SegmentCount (f_SegmentSize f) (f_Size f)"
    and data: "int (length data) = f_Size f" and run: "uploadStream env a jid f data s = (Inr f', s')"
  shows "file_stored docs f' data s'" and "\<exists>t u. f' = f\<lparr>f_Status := StatusComplete, f_CreatedAt := t, f_UpdatedAt := u\<rparr>"
    and "parts_stored docs f' (piece (f_Size f) (f_SegmentSize f) data) s'"
    and "db_channels (dv_db s') = db_channels (dv_db s)"
proof -
  let ?s0 = "bindUploadAccount jid a s" and ?part = "piece (f_Size f) (f_SegmentSize f) data"
  let ?s1 = "?s0\<lparr>dv_db := snd (SetJobStatusIf jid JobRunning [] [JobPending, JobRunning] (dv_db ?s0))\<rparr>"
  obtain x d1 where st: "SetJobStatusIf jid JobRunning [] [JobPending, JobRunning] (dv_db ?s0) = (Inr x, d1)"
    by (simp add: SetJobStatusIf_def Let_def)
  obtain s3 where body: "op_bind (put_loop env jid f [1 .. f_SegmentCount f] data) (\<lambda>_. Complete env jid) ?s1 = (Inr f', s3)"
    and s': "s' = unbindUploadAccount jid s3"
    using run st by (auto simp: uploadStream_def deferred_def op_bind_def exec_eq split: prod.splits)
  from body obtain u s2 where "put_loop env jid f [1 .. f_SegmentCount f] data ?s1 = (Inr u, s2)"
    and co: "Complete env jid s2 = (Inr f', s3)"
    by (rule op_bind_InrE)
  then have put: "put_loop env jid f [0 + 1 .. f_SegmentCount f] (drop (nat (0 * f_SegmentSize f)) data) ?s1 = (Inr (), s2)"
    by simp
  have "dv_db ?s0 = dv_db s" by (simp add: bindUploadAccount_def)
  with res obtain row now where row: "row = f\<lparr>f_CreatedAt := now, f_UpdatedAt := now\<rparr>" and L0: "landed docs jid row ?part {} ?s0"
    by (metis reserved_landed)
  have L1: "landed docs jid row ?part {1 .. 0} ?s1" using started_landed [OF L0] by simp
  have acc: "uploadJobAccount jid ?s1 = Some a" using jid by (simp add: uploadJobAccount_def bindUploadAccount_def update_conv')
  have c0: "0 \<le> f_SegmentCount f"
    using SegmentCount_bounds(1) [OF seg(1), of "f_Size f"] n by (cases "f_Size f = 0") (simp_all add: count SegmentCount_def)
  have "landed docs jid row ?part {1 .. f_SegmentCount f} s2"
    using put_loop_lands [OF hook(1) seg n _ _ a _ L1 order_refl c0 acc put] row data count by simp
  then have L2: "landed docs jid row ?part {1 .. f_SegmentCount f} s2" .
  have cnt: "f_SegmentCount row = f_SegmentCount f" using row by simp
  have "file_stored docs f' (concat (map ?part [1 .. f_SegmentCount row])) s3"
    by (rule Complete_stores(1) [OF L2 _ hook(2) co]) (simp add: cnt)
  moreover have "concat (map ?part [1 .. f_SegmentCount row]) = data"
    unfolding cnt count using pieces_tile [OF seg n, of data] data by simp
  ultimately show "file_stored docs f' data s'" by (simp add: file_stored_def s' unbindUploadAccount_def)
  show "parts_stored docs f' ?part s'"
    using Complete_stores(3) [OF L2 _ hook(2) co] cnt by (simp add: parts_stored_def s' unbindUploadAccount_def)
  have "upload_frame ?s1 s2"
    using put_loop_lands [OF hook(1) seg n _ _ a _ L1 order_refl c0 acc put] row data count by simp
  then have "db_channels (dv_db s2) = db_channels (dv_db ?s1)" by (simp add: upload_frame_def)
  moreover have "db_channels (dv_db ?s1) = db_channels (dv_db s)"
    using SetJobStatusIf_frame [OF refl, of jid JobRunning "[]" "[JobPending, JobRunning]" "dv_db ?s0"]
    by (simp add: bindUploadAccount_def)
  ultimately show "db_channels (dv_db s') = db_channels (dv_db s)"
    using Complete_stores(4) [OF L2 _ hook(2) co] cnt by (simp add: s' unbindUploadAccount_def)
  show "\<exists>t u. f' = f\<lparr>f_Status := StatusComplete, f_CreatedAt := t, f_UpdatedAt := u\<rparr>"
  proof -
    obtain t where "f' = row\<lparr>f_Status := StatusComplete, f_UpdatedAt := t\<rparr>"
      using Complete_stores(2) [OF L2 _ hook(2) co] cnt by auto
    then show ?thesis by (intro exI [of _ now] exI [of _ t]) (simp add: row)
  qed
qed

end
