(* ===== verification/UploadTotal.thy ===== *)
theory UploadTotal
  imports UploadBegin TagRoundTrip
begin

text \<open>
  Uploads do end, and with the file stored: on an account whose calls succeed, every segment of a
  reserved upload goes through, whatever its position, and \<open>Complete\<close> finds nothing missing.
\<close>

section \<open>An account whose calls succeed\<close>

definition willing :: "('t, 'b) account \<Rightarrow> bool" where
  "willing a \<longleftrightarrow>
     (\<forall>cid t. \<exists>ref. ac_ChannelRef a cid t = Inr ref) \<and>
     (\<forall>ref c t. \<exists>m t'. ac_SendRecord a ref c t = (Inr m, t')) \<and>
     (\<forall>ref spec t. int (length (us_Body spec)) = us_Size spec \<longrightarrow> (\<exists>doc t'. ac_Upload a ref spec t = (Inr doc, t')))"

text \<open>A file row whose captions can be written.\<close>

definition taggable :: "FileRow \<Rightarrow> bool" where
  "taggable f \<longleftrightarrow> is_ulid (f_ID f) \<and> (f_DirID f \<noteq> [] \<longrightarrow> is_ulid (f_DirID f)) \<and>
     (f_OwnerID f \<noteq> [] \<longrightarrow> is_ulid (f_OwnerID f)) \<and> validateName (f_Name f) = Inr ()"

lemma fileCaption_succeeds:
  assumes inv: "index_inv d" and f: "FileByID (f_ID f) d = Inr f" and tag: "taggable f"
    and seg: "0 < f_SegmentSize f" "in64 (f_SegmentSize f)" and n: "0 \<le> f_Size f" "in64 (f_Size f)"
    and i: "1 \<le> i" "i \<le> f_SegmentCount f" "in64 (f_SegmentCount f)"
  shows "\<exists>cap. fileCaption env f i d = Inr cap"
proof -
  have mem: "f \<in> set (db_files d)" using f query_row_Some unfolding FileByID_def by fast
  obtain p where p: "(if f_DirID f \<noteq> [] then (case DirByID (f_DirID f) d of Inl e \<Rightarrow> Inl (EDb e) | Inr r \<Rightarrow> Inr (d_Path r))
      else Inr Root) = Inr p"
  proof (cases "f_DirID f = []")
    case False
    then have "dir_exists (f_DirID f) d" using inv mem by (simp add: index_inv_def files_inv_def)
    then obtain r where "DirByID (f_DirID f) d = Inr r"
      unfolding DirByID_def by (cases "query_row (\<lambda>r. d_ID r = f_DirID f) (db_dirs d)") (auto simp: query_row_Inl dir_exists_def list_ex_iff)
    then show thesis using False that by simp
  qed (use that in simp)
  let ?r = "\<lparr>r_Kind = KindFile, r_Version = 0, r_ID = f_ID f, r_ParentID = f_DirID f, r_Name = f_Name f,
      r_SegIndex = i, r_SegCount = f_SegmentCount f, r_TotalSize = f_Size f,
      r_SegmentSize = f_SegmentSize f, r_OwnerID = f_OwnerID f, r_HumanTags = AncestorNames p\<rparr>"
  have "ok_ids ?r" "ok_numbers ?r" "int64_fields ?r" "validateName (r_Name ?r) = Inr ()"
    using tag seg n i by (auto simp: taggable_def ok_ids_def ok_numbers_def int64_fields_def in64_def)
  from EncodeFile_succeeds [OF this] obtain cap where cap: "EncodeFile (en_letter env) (en_digit env) ?r = Inr cap" by blast
  have "fileCaption env f i d = Inr cap" unfolding fileCaption_def p go_bind_simps cap by simp
  then show ?thesis by blast
qed

lemma uploadSegment_succeeds:
  assumes "willing a" and "fileCaption env f i (dv_db s) = Inr cap" and "int (length body) = nb"
  shows "\<exists>doc t. uploadSegment env a f ch i body nb s = (Inr doc, s\<lparr>dv_tg := t\<rparr>)"
proof -
  obtain ref where ref: "ac_ChannelRef a (c_ID ch) (dv_tg s) = Inr ref" using assms(1) unfolding willing_def by blast
  show ?thesis
  proof (cases "nb = 0 \<and> f_Size f = 0")
    case True
    obtain m t where "ac_SendRecord a ref cap (dv_tg s) = (Inr m, t)" using assms(1) unfolding willing_def by blast
    then show ?thesis using assms(2) ref True
      by (auto simp: uploadSegment_def op_bind_def with_db_def channelRef_def tg_call_def ret_def)
  next
    case False
    let ?spec = "\<lparr>us_Name = segment_name f i, us_MIME = f_MIME f, us_Caption = cap, us_Body = body, us_Size = nb\<rparr>"
    have "int (length (us_Body ?spec)) = us_Size ?spec" using assms(3) by simp
    then obtain doc t where "ac_Upload a ref ?spec (dv_tg s) = (Inr doc, t)" using assms(1) unfolding willing_def by blast
    then show ?thesis using assms(2) ref False
      by (auto simp: uploadSegment_def op_bind_def with_db_def channelRef_def tg_call_def ret_def)
  qed
qed

lemma UpsertSegment_succeeds: "file_exists (g_FileID g) d \<Longrightarrow> \<exists>d'. UpsertSegment g d = (Inr (), d')"
  by (simp add: UpsertSegment_def Let_def)

text \<open>A job still accepting segments.\<close>

definition open_job :: "string \<Rightarrow> db \<Rightarrow> bool" where
  "open_job jid d \<longleftrightarrow> (\<exists>job. JobByID jid d = Inr job \<and> (j_Status job = JobPending \<or> j_Status job = JobRunning))"

lemma mark_status: "j_Status (mark_row now i n j) =
    (if all_done (j_DoneMask (mark_row now i n j)) (j_SegmentCount j) then JobComplete else JobRunning)"
  by (simp add: mark_row_def Let_def split: prod.split)

lemma put_segment_succeeds:
  assumes L: "landed docs jid f part S s" and S: "S \<subseteq> {1 .. f_SegmentCount f}" and o: "open_job jid (dv_db s)"
    and acc: "uploadJobAccount jid s = Some a" "stores docs a" "willing a"
    and ch: "channelFor (f_ChannelID f) (dv_db s) = Inr ch" and tag: "taggable f"
    and seg: "0 < f_SegmentSize f" "in64 (f_SegmentSize f)" and n: "0 \<le> f_Size f" "in64 (f_Size f)"
    and count: "f_SegmentCount f = SegmentCount (f_SegmentSize f) (f_Size f)" "in64 (f_SegmentCount f)"
    and i: "1 \<le> i" "i \<le> f_SegmentCount f" and part: "int (length (part i)) = SegmentSize (f_Size f) (f_SegmentSize f) i"
  shows "\<exists>s'. put_segment env jid i (part i) (SegmentSize (f_Size f) (f_SegmentSize f) i) s = (Inr (), s') \<and>
    (insert i S \<noteq> {1 .. f_SegmentCount f} \<longrightarrow> open_job jid (dv_db s'))"
proof -
  let ?nb = "SegmentSize (f_Size f) (f_SegmentSize f) i"
  obtain job where inv: "index_inv (dv_db s)" and row: "FileByID (f_ID f) (dv_db s) = Inr f"
    and job: "JobByID jid (dv_db s) = Inr job" "j_FileID job = f_ID f" "j_SegmentCount job = f_SegmentCount f"
      "\<And>k. MaskHas (j_DoneMask job) k \<longleftrightarrow> k \<in> S"
    using L unfolding landed_def by blast
  have st: "j_Status job = JobPending \<or> j_Status job = JobRunning" using o job(1) by (simp add: open_job_def)
  have jm: "job \<in> set (db_jobs (dv_db s))" "j_ID job = jid" using job(1) query_row_Some unfolding JobByID_def by fast+
  obtain d1 where 1: "SetJobStatusIf jid JobRunning [] [JobPending, JobRunning] (dv_db s) = (Inr True, d1)"
    using jm st by (auto simp: SetJobStatusIf_def Let_def list_ex_iff)
  then have d1: "d1 = snd (SetJobStatusIf jid JobRunning [] [JobPending, JobRunning] (dv_db s))" by simp
  note f1 = SetJobStatusIf_frame [OF d1]
  have inv1: "index_inv d1" using inv index_inv_cong [of d1 "dv_db s"] f1 by simp
  have row1: "FileByID (f_ID f) d1 = Inr f" using row FileByID_cong [of d1 "dv_db s"] f1 by simp
  obtain cap where cap: "fileCaption env f i d1 = Inr cap"
    using fileCaption_succeeds [OF inv1 row1 tag seg n i count(2)] by blast
  obtain doc t where 2: "uploadSegment env a f ch i (part i) ?nb (s\<lparr>dv_db := d1\<rparr>) = (Inr doc, s\<lparr>dv_db := d1, dv_tg := t\<rparr>)"
    using uploadSegment_succeeds [OF acc(3), of env f i "s\<lparr>dv_db := d1\<rparr>" cap "part i" ?nb ch] cap part by auto
  have "file_exists (f_ID f) d1"
    using row1 query_row_Some unfolding FileByID_def file_exists_def list_ex_iff by fast
  then obtain d2 where 3: "UpsertSegment (segment_row f i ?nb doc a) d1 = (Inr (), d2)"
    using UpsertSegment_succeeds [of "segment_row f i ?nb doc a" d1] by (auto simp: segment_row_def)
  have j1: "JobByID jid d1 = Inr (jobStatusUpdate (db_now (dv_db s)) JobRunning [] job)"
    using JobByID_started [of jid jid JobRunning "[]" "[JobPending, JobRunning]" "dv_db s"] job(1) st jm(2) by (auto simp: d1)
  let ?j1 = "jobStatusUpdate (db_now (dv_db s)) JobRunning [] job"
  have j2: "JobByID jid d2 = Inr ?j1" using j1 UpsertSegment_set(3) [OF 3] by (simp add: JobByID_def)
  have "\<not> Aborted (j_Status ?j1)" by (simp add: jobStatusUpdate_def Aborted_def)
  note 4 = MarkSegmentDone_Inr [OF j2 this, of i ?nb]
  have na: "\<not> Aborted (j_Status job)" using st by (auto simp: Aborted_def)
  let ?d3 = "with_job jid (mark_row (db_now d2) i ?nb) d2"
  have run: "put_segment env jid i (part i) ?nb s = (Inr (), s\<lparr>dv_db := ?d3, dv_tg := t\<rparr>)"
    using job row ch acc(1) na i 1 2 3 4
    by (simp add: put_segment_def op_bind_def query_def with_db_def ret_def segment_account_def store_segment_def exec_eq)
  have j3: "JobByID jid ?d3 = Inr (mark_row (db_now d2) i ?nb ?j1)" by (simp add: JobByID_mark j2)
  have "open_job jid ?d3" if "insert i S \<noteq> {1 .. f_SegmentCount f}"
  proof -
    have "\<not> all_done (j_DoneMask (mark_row (db_now d2) i ?nb ?j1)) (f_SegmentCount f)"
      using that S i by (auto simp: all_done_iff mark_mask job(4))
    then have "j_Status (mark_row (db_now d2) i ?nb ?j1) = JobRunning" unfolding mark_status by (simp add: job(3))
    then show ?thesis unfolding open_job_def j3 by simp
  qed
  then show ?thesis using run by auto
qed

section \<open>The whole stream\<close>

lemma put_loop_succeeds:
  assumes hook: "hk_segment (en_hooks env) = Inr"
    and row: "f_Size row = f_Size f" "f_SegmentSize row = f_SegmentSize f" "f_SegmentCount row = f_SegmentCount f" "taggable row"
    and seg: "0 < f_SegmentSize f" "in64 (f_SegmentSize f)" and n: "0 \<le> f_Size f" "in64 (f_Size f)"
    and count: "f_SegmentCount f = SegmentCount (f_SegmentSize f) (f_Size f)" "in64 (f_SegmentCount f)"
    and data: "length data = nat (f_Size f)" and a: "stores docs a" "willing a"
  shows "\<lbrakk>landed docs jid row (piece (f_Size f) (f_SegmentSize f) data) {1 .. k} s; 0 \<le> k; k \<le> f_SegmentCount f;
    k < f_SegmentCount f \<Longrightarrow> open_job jid (dv_db s);
    channelFor (f_ChannelID row) (dv_db s) = Inr ch; uploadJobAccount jid s = Some a\<rbrakk> \<Longrightarrow>
    \<exists>s'. put_loop env jid f [k + 1 .. f_SegmentCount f] (drop (nat (k * f_SegmentSize f)) data) s = (Inr (), s')"
proof (induction "nat (f_SegmentCount f - k)" arbitrary: k s)
  case 0
  then have "k = f_SegmentCount f" by simp
  then show ?case by (simp add: ret_def)
next
  case (Suc m)
  let ?seg = "f_SegmentSize f" and ?n = "f_Size f" and ?c = "f_SegmentCount f"
  let ?i = "k + 1"
  let ?sz = "SegmentSize ?n ?seg ?i" and ?r = "drop (nat (k * ?seg)) data" and ?part = "piece ?n ?seg data"
  have k: "k < ?c" using Suc.hyps(2) by simp
  have i: "1 \<le> ?i" "?i \<le> ?c" using Suc.prems(2) k by simp_all
  have i': "?i \<le> SegmentCount ?seg ?n" using i(2) count(1) by simp
  have len: "int (length (?part ?i)) = ?sz" by (rule length_piece [OF seg n i(1) i' data])
  have o: "open_job jid (dv_db s)" by (rule Suc.prems(4) [OF k])
  obtain s1 where 1: "put_segment env jid ?i (?part ?i) ?sz s = (Inr (), s1)"
    and o1: "insert ?i {1 .. k} \<noteq> {1 .. ?c} \<longrightarrow> open_job jid (dv_db s1)"
    using put_segment_succeeds [OF Suc.prems(1) _ o Suc.prems(6) a Suc.prems(5) row(4), of ?i, unfolded row(1-3), OF _ seg n count i len]
      Suc.prems(3) by auto
  have empty: "f_Size row = 0 \<longrightarrow> ?part ?i = []" using data row by (simp add: piece_def)
  have L: "landed docs jid row ?part (insert ?i {1 .. k}) s1 \<and> upload_frame s s1"
    by (rule put_segment_lands [OF Suc.prems(1,6) a(1) refl empty 1])
  have ins: "insert ?i {1 .. k} = {1 .. ?i}" using Suc.prems(2) by auto
  have rest: "drop (nat ?sz) ?r = drop (nat (?i * ?seg)) data" by (rule drop_segment [OF seg n i(1) i' data])
  have up: "[k + 1 .. ?c] = ?i # [?i + 1 .. ?c]" using k by (simp add: upto_rec1)
  have "\<exists>s'. put_loop env jid f [?i + 1 .. ?c] (drop (nat (?i * ?seg)) data) s1 = (Inr (), s')"
  proof (rule Suc.hyps(1) [of ?i s1])
    show "landed docs jid row ?part {1 .. ?i} s1" using L ins by simp
    show "open_job jid (dv_db s1)" if "?i < ?c"
    proof -
      have "?c \<notin> {1 .. ?i}" "?c \<in> {1 .. ?c}" using that i by auto
      then have "insert ?i {1 .. k} \<noteq> {1 .. ?c}" unfolding ins by blast
      then show ?thesis using o1 by blast
    qed
    show "channelFor (f_ChannelID row) (dv_db s1) = Inr ch"
      using L Suc.prems(5) unfolding upload_frame_def by (metis channelFor_cong)
    show "uploadJobAccount jid s1 = Some a" using L Suc.prems(6) frame_account by metis
  qed (use Suc.hyps(2) Suc.prems(2) k in auto)
  then obtain s' where "put_loop env jid f [?i + 1 .. ?c] (drop (nat ?sz) ?r) s1 = (Inr (), s')" unfolding rest ..
  moreover have "PutSegment env jid ?i (take (nat ?sz) ?r) ?sz s = (Inr (), s1)"
    using 1 unfolding PutSegment_eq [OF hook] piece_def by simp
  ultimately have "put_loop env jid f (?i # [?i + 1 .. ?c]) ?r s = (Inr (), s')"
    by (simp add: or_abort_def Let_def del: drop_drop)
  then show ?case unfolding up by blast
qed

lemma Complete_succeeds:
  assumes L: "landed docs jid row part {1 .. f_SegmentCount row} s"
    and hook: "hk_path (en_hooks env) ''files.completeUpload'' jid = Inr jid"
  shows "\<exists>f' s'. Complete env jid s = (Inr f', s')"
proof -
  from L obtain job where row: "FileByID (f_ID row) (dv_db s) = Inr row"
    and job: "JobByID jid (dv_db s) = Inr job" "j_FileID job = f_ID row" "j_SegmentCount job = f_SegmentCount row"
      "\<And>k. MaskHas (j_DoneMask job) k \<longleftrightarrow> k \<in> {1 .. f_SegmentCount row}"
    unfolding landed_def by blast
  have fin: "Done job" using job(3,4) by (simp add: Done_def all_done_iff)
  have mem: "row \<in> set (db_files (dv_db s))" using row query_row_Some unfolding FileByID_def by fast
  let ?d1 = "(dv_db s)\<lparr>db_files := update_where (\<lambda>r. f_ID r = f_ID row)
      (\<lambda>r. r\<lparr>f_Status := StatusComplete, f_UpdatedAt := db_now (dv_db s)\<rparr>) (db_files (dv_db s))\<rparr>"
  have 1: "UpdateFileStatus (f_ID row) StatusComplete (dv_db s) = (Inr (), ?d1)"
    using mem by (auto simp: UpdateFileStatus_def with_file_def affectedOne_def list_ex_iff)
  let ?d2 = "with_job jid (jobStatusUpdate (db_now ?d1) JobComplete []) ?d1"
  have "affectedOne (\<lambda>j. j_ID j = jid) (db_jobs ?d1) = Inr ()"
    using job(1) query_row_Some [of "\<lambda>j. j_ID j = jid" "db_jobs (dv_db s)" job]
    by (auto simp: JobByID_def affectedOne_def list_ex_iff)
  then have 2: "SetJobStatus jid JobComplete [] ?d1 = (Inr (), ?d2)" by (simp add: SetJobStatus_def)
  obtain f' where f': "FileByID (f_ID row) ?d2 = Inr f'"
  proof (cases "FileByID (f_ID row) ?d2")
    case (Inl e)
    have "map f_ID (db_files ?d2) = map f_ID (db_files (dv_db s))" by (simp add: with_job_def map_update_where)
    then have "f_ID row \<in> f_ID ` set (db_files ?d2)" using mem by (metis image_eqI set_map)
    then show thesis using Inl unfolding FileByID_def query_row_Inl by force
  qed (use that in blast)
  have rel: "dv_db (ReleaseUploadJob j x) = dv_db x" for j and x :: "('a, 'b) drive"
    by (simp add: ReleaseUploadJob_def split: option.split)
  show ?thesis
    using hook job(1,2) fin 1 2 f'
    by (simp add: Complete_def before_path_def op_bind_def query_def ret_def exec_eq rel)
qed

lemma uploadStream_succeeds:
  assumes res: "reserved (dv_db s) jid f" and jid: "jid \<noteq> []" "map_of (dv_uploadJobs s) jid = None"
    and a: "stores docs a" "willing a"
    and hook: "hk_segment (en_hooks env) = Inr" "hk_path (en_hooks env) ''files.completeUpload'' jid = Inr jid"
    and seg: "0 < f_SegmentSize f" "in64 (f_SegmentSize f)" and n: "0 \<le> f_Size f" "in64 (f_Size f)"
    and count: "f_SegmentCount f = SegmentCount (f_SegmentSize f) (f_Size f)" "in64 (f_SegmentCount f)"
    and ch: "channelFor (f_ChannelID f) (dv_db s) = Inr ch" and tag: "taggable f"
    and data: "int (length data) = f_Size f"
  shows "\<exists>f' s'. uploadStream env a jid f data s = (Inr f', s')"
proof -
  let ?s0 = "bindUploadAccount jid a s" and ?part = "piece (f_Size f) (f_SegmentSize f) data"
  let ?s1 = "?s0\<lparr>dv_db := snd (SetJobStatusIf jid JobRunning [] [JobPending, JobRunning] (dv_db ?s0))\<rparr>"
  have db: "dv_db ?s0 = dv_db s" by (simp add: bindUploadAccount_def)
  obtain row now where row: "row = f\<lparr>f_CreatedAt := now, f_UpdatedAt := now\<rparr>" and L0: "landed docs jid row ?part {} ?s0"
    by (rule reserved_landed [OF res db])
  have L1: "landed docs jid row ?part {1 .. 0} ?s1" using started_landed [OF L0] by simp
  have acc: "uploadJobAccount jid ?s1 = Some a" using jid by (simp add: uploadJobAccount_def bindUploadAccount_def update_conv')
  have c0: "0 \<le> f_SegmentCount f"
    using SegmentCount_bounds(1) [OF seg(1), of "f_Size f"] n by (cases "f_Size f = 0") (simp_all add: count SegmentCount_def)
  obtain job where "JobByID jid (dv_db s) = Inr job" "j_Status job = JobPending" using res unfolding reserved_def by blast
  then have o: "open_job jid (dv_db ?s1)"
    unfolding open_job_def using db JobByID_started [of jid jid JobRunning "[]" "[JobPending, JobRunning]" "dv_db s"]
    by (auto simp: jobStatusUpdate_def)
  have ch1: "channelFor (f_ChannelID row) (dv_db ?s1) = Inr ch"
  proof -
    have "db_channels (dv_db ?s1) = db_channels (dv_db s)"
      using db SetJobStatusIf_frame [OF refl, of jid JobRunning "[]" "[JobPending, JobRunning]" "dv_db s"] by simp
    then have "channelFor (f_ChannelID row) (dv_db ?s1) = channelFor (f_ChannelID row) (dv_db s)" by (rule channelFor_cong)
    then show ?thesis using ch row by simp
  qed
  have rowf: "f_Size row = f_Size f" "f_SegmentSize row = f_SegmentSize f" "f_SegmentCount row = f_SegmentCount f" "taggable row"
    using row tag by (simp_all add: taggable_def)
  have ld: "length data = nat (f_Size f)" using data by simp
  obtain s2 where put: "put_loop env jid f [0 + 1 .. f_SegmentCount f] (drop (nat (0 * f_SegmentSize f)) data) ?s1 = (Inr (), s2)"
    using put_loop_succeeds [OF hook(1) rowf seg n count ld a L1 order_refl c0 o ch1 acc] by blast
  have cl: "f_SegmentCount f \<le> SegmentCount (f_SegmentSize f) (f_Size f)" by (simp add: count)
  have L2: "landed docs jid row ?part {1 .. f_SegmentCount row} s2"
    using put_loop_lands [OF hook(1) seg n rowf(1) ld a(1) cl L1 order_refl c0 acc put] rowf(3) by simp
  obtain f' s3 where "Complete env jid s2 = (Inr f', s3)" using Complete_succeeds [OF L2 hook(2)] by blast
  moreover have "fst (SetJobStatusIf jid JobRunning [] [JobPending, JobRunning] (dv_db ?s0)) \<noteq> Inl e" for e
    by (simp add: SetJobStatusIf_def Let_def)
  then obtain x d1 where "SetJobStatusIf jid JobRunning [] [JobPending, JobRunning] (dv_db ?s0) = (Inr x, d1)"
    by (simp add: SetJobStatusIf_def Let_def)
  ultimately show ?thesis
    using put by (auto simp: uploadStream_def deferred_def op_bind_def exec_eq)
qed

end
