(* ===== verification/UploadProps.thy ===== *)
theory UploadProps
  imports UploadTotal
begin

text \<open>
  The properties of the upload path, and a channel that stores documents to run it on.
\<close>

section \<open>Storing, from the request to the complete file\<close>

lemma valid_name_tag: "valid_name n \<Longrightarrow> validateName n = Inr ()"
proof -
  assume v: "valid_name n"
  have "c \<notin> set n" if "byte c < 32" for c
  proof
    assume "c \<in> set n"
    then obtain a b where "n = a @ c # b" by (meson split_list)
    moreover have "byte c < 128" using that by simp
    ultimately have "byte c \<in> set (runes n)" by (simp add: runes_append_ascii)
    then show False using valid_nameD(6) [OF v] that by (auto simp: is_control_def)
  qed
  from this [of "CHR 0x0A"] this [of "CHR 0x0D"] show ?thesis using valid_nameD [OF v] by simp
qed

lemma SegmentCount_in64:
  assumes "0 < seg" and "0 \<le> n" "in64 n"
  shows "in64 (SegmentCount seg n)"
proof (cases "n = 0")
  case True
  then show ?thesis by (simp add: SegmentCount_def in64_def)
next
  case False
  then have n: "0 < n" using assms(2) by simp
  note b = SegmentCount_bounds [OF assms(1) n]
  have "(SegmentCount seg n - 1) * 1 \<le> (SegmentCount seg n - 1) * seg" using b(1) assms(1) by (intro mult_left_mono) auto
  then show ?thesis using b(1,2) assms(3) by (auto simp: in64_def)
qed

lemma begin_rows_channel:
  assumes "begin_rows env req ch dir s = (Inr (job, f), s')" and "f_ChannelID f \<noteq> []"
  shows "\<exists>c. channelFor (f_ChannelID f) (dv_db s') = Inr c"
proof -
  from assms(1) obtain fid jid n d1 where r: "InsertFile f (dv_db s) = (Inr (), d1)" "InsertJob job d1 = (Inr (), dv_db s')"
    by (rule begin_rows_run)
  have "channel_exists (f_ChannelID f) (dv_db s)" using r(1) assms(2) by (auto simp: InsertFile_def Let_def split: if_splits)
  moreover have "db_channels (dv_db s') = db_channels (dv_db s)"
    using InsertFile_success(1) [OF r(1)] InsertJob_success(1) [OF r(2)] by auto
  ultimately obtain c where "ChannelByID (f_ChannelID f) (dv_db s') = Inr c"
    unfolding ChannelByID_def
    by (cases "query_row (\<lambda>c. c_ID c = f_ChannelID f) (db_channels (dv_db s'))") (auto simp: query_row_Inl channel_exists_def list_ex_iff)
  then show ?thesis using assms(2) by (simp add: channelFor_def)
qed

lemma Begin_ready:
  assumes inv: "index_inv (dv_db s)" and nh: "en_hooks env = no_hooks"
    and p: "CleanPath (uq_DirPath req) = Inr clean" "valid_utf8 clean"
    and ids: "\<forall>n. is_ulid (en_newID env n)" and chs: "list_all (\<lambda>c. c_ID c \<noteq> []) (db_channels (dv_db s))"
    and uid: "uq_UserID req = [] \<or> is_ulid (uq_UserID req)"
    and run: "Begin env req s = (Inr (job, f), s1)" and did: "f_DirID f = [] \<or> is_ulid (f_DirID f)"
  shows "reserved (dv_db s1) (j_ID job) f" and "j_ID job \<noteq> []" and "dv_uploadJobs s1 = dv_uploadJobs s"
    and "f_Size f = uq_Size req" "f_SegmentSize f = en_segmentSize env" "f_SegmentCount f = SegmentCount (f_SegmentSize f) (f_Size f)"
    and "f_Name f = uq_Name req" and "taggable f" and "\<exists>c. channelFor (f_ChannelID f) (dv_db s1) = Inr c"
proof -
  have hooks: "hk_begin (en_hooks env) req = Inr req" "hk_path (en_hooks env) nm q = Inr q" for nm q
    by (simp_all add: nh no_hooks_def)
  show "reserved (dv_db s1) (j_ID job) f" by (rule Begin_reserved(1) [OF inv hooks p run])
  obtain ch dir s2 where rows: "begin_rows env req ch dir s2 = (Inr (job, f), s1)" and ch: "storageChannel (dv_db s) = Inr ch"
    and v: "ValidateName (uq_Name req) = Inr ()"
    using Begin_run [OF hooks(1) run] by metis
  from rows obtain fid jid n m where f: "f = new_file env req ch dir fid" and job: "job = new_job req f jid" "jid = en_newID env n"
    and fid: "fid = en_newID env m"
    using begin_rows_run by metis
  have "length jid = 26" using job(2) ids by (simp add: is_ulid_def)
  then show "j_ID job \<noteq> []" using job by (auto simp: new_job_def)
  show "f_Size f = uq_Size req" "f_SegmentSize f = en_segmentSize env" "f_SegmentCount f = SegmentCount (f_SegmentSize f) (f_Size f)"
    "f_Name f = uq_Name req"
    by (simp_all add: f new_file_def)
  have "ch \<in> set (db_channels (dv_db s))"
    using ch query_row_Some [of c_IsDefault "db_channels (dv_db s)" ch]
    by (auto simp: storageChannel_def DefaultChannel_def split: sum.splits if_splits)
  then have "f_ChannelID f \<noteq> []" using chs by (auto simp: f new_file_def list_all_iff)
  then show "\<exists>c. channelFor (f_ChannelID f) (dv_db s1) = Inr c" using begin_rows_channel [OF rows] by blast
  show "taggable f"
    using ids uid did valid_name_tag [of "uq_Name req"] v fid
    by (auto simp: taggable_def f new_file_def valid_name_def)
  show "dv_uploadJobs s1 = dv_uploadJobs s" by (rule Begin_lease [OF hooks(1) run])
qed

text \<open>A channel in memory that keeps its documents.\<close>

type_synonym shelf = "((string \<times> int) \<times> string) list"

definition shelf_account :: "(shelf, char) account" where
  "shelf_account = \<lparr>ac_ID = ''main'', ac_Available = (\<lambda>_. True),
     ac_ChannelRef = (\<lambda>cid _. Inr \<lparr>cr_ChannelID = cid, cr_TGID = 7, cr_AccessHash = 9\<rparr>),
     ac_SendRecord = (\<lambda>ref _ t. let m = fresh_msg (map fst t) in (Inr m, ((cr_ChannelID ref, m), []) # t)),
     ac_EditRecord = (\<lambda>_ _ _ t. (Inr (), t)),
     ac_DeleteRecords = (\<lambda>ref ids t. (Inr (), filter (\<lambda>(k, _). \<not> (fst k = cr_ChannelID ref \<and> snd k \<in> set ids)) t)),
     ac_Upload = (\<lambda>ref spec t.
       if int (length (us_Body spec)) \<noteq> us_Size spec then (Inl ''size'', t)
       else let m = fresh_msg (map fst t)
         in (Inr \<lparr>sd_MsgID = m, sd_DocID = 11, sd_AccessHash = 13, sd_DCID = 2, sd_FileReference = ''ref'', sd_Size = us_Size spec\<rparr>,
             ((cr_ChannelID ref, m), us_Body spec) # t))\<rparr>"

definition shelf_env :: "(shelf, char) env" where
  "shelf_env = \<lparr>en_accounts = (\<lambda>_. [shelf_account]), en_newID = (\<lambda>n. butlast sample_ulid @ [char_of (48 + n mod 10)]),
     en_letter = (\<lambda>_. False), en_digit = (\<lambda>_. False), en_lower = (\<lambda>c. c), en_fold = ascii_fold, en_segmentSize = 4,
     en_mime = (\<lambda>_. []), en_text = (\<lambda>_. ''error''), en_hooks = no_hooks\<rparr>"

definition shelf_drive :: "(shelf, char) drive" where
  "shelf_drive = \<lparr>dv_db = small_index\<lparr>db_channels := [sim_channel]\<rparr>, dv_tg = [], dv_seq = 0, dv_refs = [],
     dv_uploadJobs = [], dv_jobAccounts = []\<rparr>"

definition hello_request :: UploadRequest where
  "hello_request = \<lparr>uq_DirPath = ''/'', uq_Name = ''hello.txt'', uq_Size = 6, uq_MIME = ''text/plain'', uq_UserID = [],
     uq_Source = ''webui'', uq_SourceURL = [], uq_Overwrite = False\<rparr>"

lemma map_of_unshelved:
  "map_of (filter (\<lambda>(k, _). fst k = c \<longrightarrow> snd k \<notin> set ids) t) = map_of t |` (- ({c} \<times> set ids))"
  by (induction t) (auto simp: restrict_map_def fun_eq_iff)

lemma shelf_stores: "stores map_of shelf_account"
proof -
  have fresh: "map_of t (c, fresh_msg (map fst t)) = None" for c :: string and t :: shelf
    using fresh_msg(1) [of c "map fst t"] by (auto simp: map_of_eq_None_iff)
  show ?thesis
    unfolding stores_def shelf_account_def
    by (auto simp: Let_def fresh fresh_msg(2) map_of_unshelved
      simp del: map_of_eq_None_iff split: if_splits)
qed

lemma shelf_willing: "willing shelf_account"
  by (auto simp: willing_def shelf_account_def Let_def)

lemma shelf_ids: "is_ulid (en_newID shelf_env n)"
proof -
  have "ulid_char (char_of (48 + n mod 10))"
  proof -
    have "48 + n mod 10 < 256" using mod_less_divisor [of 10 n] by linarith
    then have "byte (char_of (48 + n mod 10)) = 48 + n mod 10" by (simp add: of_char_of)
    then show ?thesis using mod_less_divisor [of 10 n] by (simp add: ulid_char_def) linarith
  qed
  then show ?thesis by (simp add: shelf_env_def is_ulid_def sample_ulid_def ulid_char_def)
qed

lemma shelf_drive_inv: "index_inv (dv_db shelf_drive)"
  using small_index_inv
  by (simp add: shelf_drive_def index_inv_def files_inv_def dir_exists_def file_exists_def)

lemma shelf_fields:
  "en_hooks shelf_env = no_hooks" "en_segmentSize shelf_env = 4" "uq_Size hello_request = 6" "uq_UserID hello_request = []"
  "dv_uploadJobs shelf_drive = []" "db_channels (dv_db shelf_drive) = [sim_channel]" "c_ID sim_channel = ''ch''"
  by (simp_all add: shelf_env_def hello_request_def shelf_drive_def sim_channel_def)

lemma shelf_begin: "\<exists>job f s. Begin shelf_env hello_request shelf_drive = (Inr (job, f), s) \<and> f_DirID f = []"
proof -
  have "case fst (Begin shelf_env hello_request shelf_drive) of Inl _ \<Rightarrow> False | Inr (_, f) \<Rightarrow> f_DirID f = []"
    by code_simp
  then show ?thesis by (auto split: sum.splits prod.splits) (metis prod.collapse)
qed

lemma UploadStream_run:
  assumes "index_inv (dv_db s)" and "en_hooks env = no_hooks"
    and "CleanPath (uq_DirPath req) = Inr clean" and "valid_utf8 clean"
    and "0 < en_segmentSize env" and "in64 (en_segmentSize env)" and "in64 (uq_Size req)"
    and "int (length data) = uq_Size req" and "stores docs a" and "willing a" and "dv_uploadJobs s = []"
    and "\<forall>n. is_ulid (en_newID env n)" and "list_all (\<lambda>c. c_ID c \<noteq> []) (db_channels (dv_db s))"
    and "uq_UserID req = [] \<or> is_ulid (uq_UserID req)"
    and "Begin env req s = (Inr (job, f), s1)" and "f_DirID f = [] \<or> is_ulid (f_DirID f)"
  shows "\<exists>f' s'. UploadStream env (Inr a) req data s = (Inr f', s') \<and> file_stored docs f' data s' \<and>
    f_Name f' = uq_Name req \<and> f_Size f' = uq_Size req \<and> f_DirID f' = f_DirID f \<and> f_SegmentSize f' = en_segmentSize env \<and>
    f_SegmentCount f' = SegmentCount (f_SegmentSize f') (f_Size f') \<and> parts_stored docs f' (piece (f_Size f') (f_SegmentSize f') data) s' \<and>
    (\<exists>c. channelFor (f_ChannelID f') (dv_db s') = Inr c)"
proof -
  have hooks: "hk_path (en_hooks env) nm p = Inr p" "hk_segment (en_hooks env) = Inr" for nm p
    by (simp_all add: assms(2) no_hooks_def)
  note R = Begin_ready [OF assms(1-4,12-16)]
  have size: "0 \<le> f_Size f" "in64 (f_Size f)" "0 < f_SegmentSize f" "in64 (f_SegmentSize f)" "int (length data) = f_Size f"
    using R(4,5) assms(5-8) by simp_all
  obtain c where c: "channelFor (f_ChannelID f) (dv_db s1) = Inr c" using R(9) by blast
  have lease: "map_of (dv_uploadJobs s1) (j_ID job) = None" using R(3) assms(11) by simp
  have cnt: "in64 (f_SegmentCount f)" unfolding R(6) by (rule SegmentCount_in64 [OF size(3,1,2)])
  have "\<exists>f' s'. uploadStream env a (j_ID job) f data s1 = (Inr f', s')"
    by (rule uploadStream_succeeds [OF R(1,2) lease assms(9,10) hooks(2,1) size(3,4,1,2) R(6) cnt c R(8) size(5)])
  then obtain f' s' where run: "uploadStream env a (j_ID job) f data s1 = (Inr f', s')" by blast
  note st = uploadStream_stores [OF R(1,2) lease assms(9) hooks(2,1) size(3,4,1,2) R(6) size(5) run]
  have "UploadStream env (Inr a) req data s = (Inr f', s')"
    using assms(15) run by (simp add: UploadStream_def op_bind_def or_abort_def ret_def)
  moreover have "\<exists>c. channelFor (f_ChannelID f') (dv_db s') = Inr c"
    using st(2) c channelFor_cong [OF st(4)] by auto
  moreover obtain t u where "f' = f\<lparr>f_Status := StatusComplete, f_CreatedAt := t, f_UpdatedAt := u\<rparr>" using st(2) by blast
  ultimately show ?thesis using st(1,3) R(4-7) by auto
qed

text \<open>On an account that stores documents and whose calls succeed, an upload that \<open>Begin\<close> accepted
runs to its end, and the file it leaves is complete, under the requested name and with the requested
size, its segments numbered from one without a gap, and the documents of the segments in that order
are exactly the bytes of the stream.\<close>

theorem UploadStream_stores:
  assumes "index_inv (dv_db s)" and "en_hooks env = no_hooks"
    and "CleanPath (uq_DirPath req) = Inr clean" and "valid_utf8 clean"
    and "0 < en_segmentSize env" and "in64 (en_segmentSize env)" and "in64 (uq_Size req)"
    and "int (length data) = uq_Size req" and "stores docs a" and "willing a" and "dv_uploadJobs s = []"
    and "\<forall>n. is_ulid (en_newID env n)" and "list_all (\<lambda>c. c_ID c \<noteq> []) (db_channels (dv_db s))"
    and "uq_UserID req = [] \<or> is_ulid (uq_UserID req)"
    and "Begin env req s = (Inr (job, f), s1)" and "f_DirID f = [] \<or> is_ulid (f_DirID f)"
  shows "\<exists>f' s'. UploadStream env (Inr a) req data s = (Inr f', s') \<and> file_stored docs f' data s' \<and>
    f_Name f' = uq_Name req \<and> f_Size f' = uq_Size req \<and> f_DirID f' = f_DirID f"
  using UploadStream_run [OF assms] by blast

theorem UploadStream_stores_witness:
  "\<exists>f' s'. UploadStream shelf_env (Inr shelf_account) hello_request ''hello!'' shelf_drive = (Inr f', s') \<and>
    file_stored map_of f' ''hello!'' s'"
proof -
  obtain job f s where b: "Begin shelf_env hello_request shelf_drive = (Inr (job, f), s)" "f_DirID f = []"
    using shelf_begin by blast
  have c: "CleanPath (uq_DirPath hello_request) = Inr ''/''" by code_simp
  show ?thesis
    using UploadStream_stores [OF shelf_drive_inv _ c _ _ _ _ _ shelf_stores shelf_willing _ _ _ _ b(1), of "''hello!''"] b(2)
    by (auto simp: shelf_fields shelf_ids in64_def valid_utf8_ascii)
qed

section \<open>Segments in any order\<close>

lemma put_segment_range:
  assumes "put_segment env jid i body nb s = (Inr (), s')" and "JobByID jid (dv_db s) = Inr job"
  shows "1 \<le> i" and "i \<le> j_SegmentCount job"
  using assms by (auto simp: put_segment_def op_bind_def query_def ret_def fail_def split: if_splits)

lemma put_parts_lands:
  assumes hook: "hk_segment (en_hooks env) = Inr" and row: "f_Size row = f_Size f"
    and data: "length data = nat (f_Size f)" and a: "stores docs a"
  shows "\<lbrakk>put_parts env jid f parts s = (Inr (), s'); uploadJobAccount jid s = Some a; S \<subseteq> {1 .. f_SegmentCount row};
    landed docs jid row (piece (f_Size f) (f_SegmentSize f) data) S s;
    list_all (\<lambda>(i, b). b = piece (f_Size f) (f_SegmentSize f) data i) parts\<rbrakk> \<Longrightarrow>
    landed docs jid row (piece (f_Size f) (f_SegmentSize f) data) (S \<union> fst ` set parts) s' \<and>
    S \<union> fst ` set parts \<subseteq> {1 .. f_SegmentCount row}"
proof (induction parts arbitrary: s S)
  case Nil
  then show ?case by (simp add: ret_def)
next
  case (Cons p parts)
  let ?part = "piece (f_Size f) (f_SegmentSize f) data"
  obtain i where p: "p = (i, ?part i)" using Cons.prems(5) by (cases p) auto
  have "op_bind (PutSegment env jid i (?part i) (SegmentSize (f_Size f) (f_SegmentSize f) i)) (\<lambda>_. put_parts env jid f parts) s = (Inr (), s')"
    using Cons.prems(1) by (simp add: p)
  then obtain u s1 where 1: "put_segment env jid i (?part i) (SegmentSize (f_Size f) (f_SegmentSize f) i) s = (Inr u, s1)"
    and 2: "put_parts env jid f parts s1 = (Inr (), s')"
    unfolding PutSegment_eq [OF hook] by (rule op_bind_InrE)
  have e: "f_Size row = 0 \<longrightarrow> ?part i = []" using data row by (simp add: piece_def)
  have L: "landed docs jid row ?part (insert i S) s1 \<and> upload_frame s s1"
    using put_segment_lands [OF Cons.prems(4,2) a refl e] 1 by simp
  obtain job where "JobByID jid (dv_db s) = Inr job" "j_SegmentCount job = f_SegmentCount row"
    using Cons.prems(4) unfolding landed_def by blast
  then have i: "insert i S \<subseteq> {1 .. f_SegmentCount row}" using put_segment_range [of env jid i "?part i" _ s s1 job] 1 Cons.prems(3) by auto
  have acc: "uploadJobAccount jid s1 = Some a" using L Cons.prems(2) frame_account by metis
  show ?case using Cons.IH [OF 2 acc i] L Cons.prems(5) by (simp add: p insert_commute)
qed

lemma put_parts_succeeds:
  assumes hook: "hk_segment (en_hooks env) = Inr"
    and row: "f_Size row = f_Size f" "f_SegmentSize row = f_SegmentSize f" "f_SegmentCount row = f_SegmentCount f" "taggable row"
    and seg: "0 < f_SegmentSize f" "in64 (f_SegmentSize f)" and n: "0 \<le> f_Size f" "in64 (f_Size f)"
    and count: "f_SegmentCount f = SegmentCount (f_SegmentSize f) (f_Size f)" "in64 (f_SegmentCount f)"
    and data: "length data = nat (f_Size f)" and a: "stores docs a" "willing a"
  shows "\<lbrakk>landed docs jid row (piece (f_Size f) (f_SegmentSize f) data) S s; S \<subseteq> {1 .. f_SegmentCount f};
    parts \<noteq> [] \<Longrightarrow> open_job jid (dv_db s); channelFor (f_ChannelID row) (dv_db s) = Inr ch; uploadJobAccount jid s = Some a;
    distinct (map fst parts); fst ` set parts \<subseteq> {1 .. f_SegmentCount f} - S;
    list_all (\<lambda>(i, b). b = piece (f_Size f) (f_SegmentSize f) data i) parts\<rbrakk> \<Longrightarrow>
    \<exists>s'. put_parts env jid f parts s = (Inr (), s')"
proof (induction parts arbitrary: s S)
  case Nil
  then show ?case by (simp add: ret_def)
next
  case (Cons p parts)
  let ?part = "piece (f_Size f) (f_SegmentSize f) data" and ?c = "f_SegmentCount f"
  obtain i where p: "p = (i, ?part i)" using Cons.prems(8) by (cases p) auto
  let ?sz = "SegmentSize (f_Size f) (f_SegmentSize f) i"
  have i: "1 \<le> i" "i \<le> ?c" "i \<notin> S" using Cons.prems(7) by (auto simp: p)
  have i': "i \<le> SegmentCount (f_SegmentSize f) (f_Size f)" using i(2) count(1) by simp
  have len: "int (length (?part i)) = ?sz" by (rule length_piece [OF seg n i(1) i' data])
  have o: "open_job jid (dv_db s)" by (rule Cons.prems(3)) simp
  obtain s1 where 1: "put_segment env jid i (?part i) ?sz s = (Inr (), s1)"
    and o1: "insert i S \<noteq> {1 .. ?c} \<longrightarrow> open_job jid (dv_db s1)"
    using put_segment_succeeds [OF Cons.prems(1) _ o Cons.prems(5) a Cons.prems(4) row(4), of i, unfolded row(1-3), OF _ seg n count i(1,2) len, of env]
      Cons.prems(2) by blast
  have e: "f_Size row = 0 \<longrightarrow> ?part i = []" using data row by (simp add: piece_def)
  have L: "landed docs jid row ?part (insert i S) s1 \<and> upload_frame s s1"
    by (rule put_segment_lands [OF Cons.prems(1,5) a(1) refl e 1])
  have "\<exists>s'. put_parts env jid f parts s1 = (Inr (), s')"
  proof (rule Cons.IH)
    show "landed docs jid row ?part (insert i S) s1" using L by simp
    show "open_job jid (dv_db s1)" if ne: "parts \<noteq> []"
    proof -
      obtain k where "k \<in> fst ` set parts" using ne by (cases parts) auto
      then have "k \<notin> insert i S" "k \<in> {1 .. ?c}" using Cons.prems(6,7) by (auto simp: p)
      then show ?thesis using o1 by blast
    qed
    show "channelFor (f_ChannelID row) (dv_db s1) = Inr ch"
      using L Cons.prems(4) unfolding upload_frame_def by (metis channelFor_cong)
    show "uploadJobAccount jid s1 = Some a" using L Cons.prems(5) frame_account by metis
  qed (use Cons.prems(2,6,7,8) i in \<open>auto simp: p\<close>)
  then show ?case using 1 by (auto simp: p op_bind_def PutSegment_eq [OF hook])
qed

text \<open>Segments may arrive in any order: once a file has been reserved, storing its parts in any
order of the indices and then completing the job succeeds, and the file that is left has exactly the
bytes the parts were cut from, in order.\<close>

theorem Parts_any_order:
  assumes "reserved (dv_db s) jid f" and "jid \<noteq> []" and "map_of (dv_uploadJobs s) jid = None"
    and "en_hooks env = no_hooks" and "stores docs a" and "willing a" and "JobByID jid (dv_db s) = Inr job"
    and "0 < f_SegmentSize f" and "in64 (f_SegmentSize f)" and "in64 (f_Size f)"
    and "f_SegmentCount f = SegmentCount (f_SegmentSize f) (f_Size f)" and "int (length data) = f_Size f"
    and "taggable f" and "channelFor (f_ChannelID f) (dv_db s) = Inr ch"
    and "distinct order" and "set order = {1 .. f_SegmentCount f}"
  shows "\<exists>s1 f' s'. PutSegmentsParallel env (Inr a) job
      (map (\<lambda>i. (i, piece (f_Size f) (f_SegmentSize f) data i)) order) s = (Inr (), s1) \<and>
    Complete env jid s1 = (Inr f', s') \<and> file_stored docs f' data s' \<and> f_ID f' = f_ID f"
proof -
  let ?s0 = "bindUploadAccount jid a s" and ?part = "piece (f_Size f) (f_SegmentSize f) data"
  let ?parts = "map (\<lambda>i. (i, ?part i)) order"
  have hooks: "hk_segment (en_hooks env) = Inr" "hk_path (en_hooks env) nm p = Inr p" for nm p
    by (simp_all add: assms(4) no_hooks_def)
  have db: "dv_db ?s0 = dv_db s" by (simp add: bindUploadAccount_def)
  obtain row now where row: "row = f\<lparr>f_CreatedAt := now, f_UpdatedAt := now\<rparr>" and L0: "landed docs jid row ?part {} ?s0"
    by (rule reserved_landed [OF assms(1) db])
  have rowf: "f_Size row = f_Size f" "f_SegmentSize row = f_SegmentSize f" "f_SegmentCount row = f_SegmentCount f" "taggable row"
    using row assms(13) by (simp_all add: taggable_def)
  have jid: "j_ID job = jid" using assms(7) query_row_Some unfolding JobByID_def by fast
  have fid: "j_FileID job = f_ID row" "FileByID (f_ID row) (dv_db s) = Inr row"
    using L0 assms(7) db unfolding landed_def by auto
  have n: "0 \<le> f_Size f" and ld: "length data = nat (f_Size f)" using assms(12) by simp_all
  have cnt: "in64 (f_SegmentCount f)" unfolding assms(11) by (rule SegmentCount_in64 [OF assms(8) n assms(10)])
  have acc: "uploadJobAccount jid ?s0 = Some a"
    using assms(2,3) by (simp add: uploadJobAccount_def bindUploadAccount_def update_conv')
  obtain j0 where "JobByID jid (dv_db s) = Inr j0" "j_Status j0 = JobPending" using assms(1) unfolding reserved_def by blast
  then have o: "open_job jid (dv_db ?s0)" unfolding open_job_def db by blast
  have ch: "channelFor (f_ChannelID row) (dv_db ?s0) = Inr ch" using assms(14) row db by simp
  have ps: "distinct (map fst ?parts)" "fst ` set ?parts = {1 .. f_SegmentCount f}" "list_all (\<lambda>(i, b). b = ?part i) ?parts"
    using assms(15,16) by (simp_all add: comp_def list_all_iff image_image)
  have "\<exists>s2. put_parts env jid row ?parts ?s0 = (Inr (), s2)"
    using put_parts_succeeds [OF hooks(1) refl refl refl rowf(4), unfolded rowf(1-3), OF assms(8,9) n assms(10,11) cnt ld assms(5,6)
      L0 empty_subsetI o ch acc ps(1) _ ps(3)] ps(2) by auto
  then obtain s2 where put: "put_parts env jid row ?parts ?s0 = (Inr (), s2)" ..
  have L2: "landed docs jid row ?part {1 .. f_SegmentCount row} s2"
    using put_parts_lands [OF hooks(1) refl _ assms(5) put acc empty_subsetI, unfolded rowf(1-3), OF ld L0 ps(3)] ps(2) rowf(3) by simp
  let ?s1 = "unbindUploadAccount jid s2"
  have run: "PutSegmentsParallel env (Inr a) job ?parts s = (Inr (), ?s1)"
    using fid jid put by (simp add: PutSegmentsParallel_def op_bind_def query_def ret_def deferred_def)
  have L3: "landed docs jid row ?part {1 .. f_SegmentCount row} ?s1"
    using L2 assms(2) unfolding landed_def by (simp add: unbindUploadAccount_def)
  obtain f' s' where co: "Complete env jid ?s1 = (Inr f', s')" using Complete_succeeds [OF L3 hooks(2)] by blast
  note st = Complete_stores [OF L3 order_refl hooks(2) co]
  have "concat (map ?part [1 .. f_SegmentCount row]) = data"
    using pieces_tile [OF assms(8,9) n assms(10) ld] assms(11) rowf(3) by simp
  then have "file_stored docs f' data s'" using st(1) by simp
  moreover have "f_ID f' = f_ID f" using st(2) row by auto
  ultimately show ?thesis using run co by blast
qed

text \<open>What \<open>Begin\<close> reserved for the sample request, and its bytes in two parts, the second first.\<close>

theorem Parts_any_order_witness:
  "\<exists>s job s1 f s'. PutSegmentsParallel shelf_env (Inr shelf_account) job [(2, ''o!''), (1, ''hell'')] s = (Inr (), s1) \<and>
     Complete shelf_env (j_ID job) s1 = (Inr f, s') \<and> file_stored map_of f ''hello!'' s'"
proof -
  obtain job f s where b: "Begin shelf_env hello_request shelf_drive = (Inr (job, f), s)" "f_DirID f = []"
    using shelf_begin by blast
  have c: "CleanPath (uq_DirPath hello_request) = Inr ''/''" by code_simp
  have v: "valid_utf8 ''/''" by (simp add: valid_utf8_ascii)
  have e: "\<forall>n. is_ulid (en_newID shelf_env n)" "list_all (\<lambda>c. c_ID c \<noteq> []) (db_channels (dv_db shelf_drive))"
    "uq_UserID hello_request = [] \<or> is_ulid (uq_UserID hello_request)" "f_DirID f = [] \<or> is_ulid (f_DirID f)"
    by (simp_all add: shelf_ids shelf_fields b(2))
  note R = Begin_ready [OF shelf_drive_inv shelf_fields(1) c v e(1-3) b(1) e(4)]
  obtain j where j: "JobByID (j_ID job) (dv_db s) = Inr j" using R(1) unfolding reserved_def by blast
  have jid: "j_ID j = j_ID job" using j query_row_Some unfolding JobByID_def by fast
  obtain ch where ch: "channelFor (f_ChannelID f) (dv_db s) = Inr ch" using R(9) by blast
  have lease: "map_of (dv_uploadJobs s) (j_ID job) = None" using R(3) by (simp add: shelf_fields)
  have sz: "f_Size f = 6" "f_SegmentSize f = 4" using R(4,5) by (simp_all add: shelf_fields)
  have cnt: "f_SegmentCount f = 2" using R(6) sz by (simp add: SegmentCount_def)
  have p: "piece 6 4 ''hello!'' 2 = ''o!''" "piece 6 4 ''hello!'' 1 = ''hell''" by code_simp+
  have two: "{2, 1} = {1 .. 2 :: int}" by auto
  have "\<exists>s1 f' s'. PutSegmentsParallel shelf_env (Inr shelf_account) j [(2, ''o!''), (1, ''hell'')] s = (Inr (), s1) \<and>
      Complete shelf_env (j_ID job) s1 = (Inr f', s') \<and> file_stored map_of f' ''hello!'' s' \<and> f_ID f' = f_ID f"
    using Parts_any_order [OF R(1,2) lease shelf_fields(1) shelf_stores shelf_willing j _ _ _ R(6) _ R(8) ch, of "''hello!''" "[2, 1]"]
    by (simp add: sz cnt p in64_def two)
  then show ?thesis unfolding jid [symmetric] by blast
qed

end
