(* ===== verification/UploadSafety.thy ===== *)
theory UploadSafety
  imports UploadProps
begin

text \<open>
  What the upload path refuses and what it leaves behind when it does: guards of \<open>PutSegment\<close>, the
  quota of an account, and the clean-up of \<open>Abort\<close>; and the cases in which the code falls short of
  what it documents.
\<close>

section \<open>Refusals\<close>

text \<open>A segment that must not be stored never reaches Telegram: if the job has been cancelled or
has failed, if the index is outside the file's segments, or if the size is not exactly the size of
that segment, \<open>PutSegment\<close> answers with an error and changes nothing, in the channel or in the
index.\<close>

theorem PutSegment_refuses:
  assumes "hk_segment (en_hooks env) (jid0, i0, n0) = Inr (jid, i, nb)" and "JobByID jid (dv_db s) = Inr job"
    and "FileByID (j_FileID job) (dv_db s) = Inr f"
    and "Aborted (j_Status job) \<or> i < 1 \<or> j_SegmentCount job < i \<or> nb \<noteq> SegmentSize (f_Size f) (f_SegmentSize f) i"
  shows "\<exists>e. PutSegment env jid0 i0 body n0 s = (Inl e, s)"
  using assms(4)
proof (elim disjE)
qed (use assms(1-3) in \<open>simp_all add: PutSegment_def put_segment_def op_bind_def query_def ret_def fail_def\<close>)

section \<open>The quota of an account\<close>

lemma used_append: "UsedBytesByOwner uid (d\<lparr>db_files := fs @ [f]\<rparr>) =
    UsedBytesByOwner uid (d\<lparr>db_files := fs\<rparr>) + (if uid \<noteq> [] \<and> f_OwnerID f = uid \<and> f_Status f \<noteq> StatusBroken then f_Size f else 0)"
  by (simp add: UsedBytesByOwner_def)

lemma used_cong: "db_files d = db_files d' \<Longrightarrow> UsedBytesByOwner uid d = UsedBytesByOwner uid d'"
  by (simp add: UsedBytesByOwner_def)

lemma sum_removed:
  assumes "distinct (map f_ID fs)" and "f \<in> set fs"
  shows "sum_list (map g (filter P fs)) = sum_list (map g (filter P (filter (\<lambda>x. f_ID x \<noteq> f_ID f) fs))) + (if P f then g f else (0 :: int))"
  using assms
proof (induction fs)
  case (Cons x fs)
  show ?case
  proof (cases "x = f")
    case True
    then have "f_ID f \<notin> f_ID ` set fs" using Cons.prems(1) by simp
    then have "filter (\<lambda>y. f_ID y \<noteq> f_ID f) fs = fs" by (intro filter_True ballI) (metis image_eqI)
    then show ?thesis using True by simp
  next
    case False
    then have f: "f \<in> set fs" using Cons.prems by simp
    then have "f_ID x \<noteq> f_ID f" using Cons.prems(1) by auto
    then show ?thesis using Cons.IH f Cons.prems(1) by simp
  qed
qed simp

lemma used_deleted:
  assumes "files_inv d" and "f \<in> set (db_files d)"
  shows "UsedBytesByOwner uid d = UsedBytesByOwner uid (delete_files (\<lambda>x. f_ID x = f_ID f) d) +
    (if uid \<noteq> [] \<and> f_OwnerID f = uid \<and> f_Status f \<noteq> StatusBroken then f_Size f else 0)"
  using sum_removed [of "db_files d" f f_Size "\<lambda>x. f_OwnerID x = uid \<and> f_Status x \<noteq> StatusBroken"] assms
  by (auto simp: UsedBytesByOwner_def delete_files_def Let_def files_inv_def)

lemma clearName_success:
  assumes "clearName env i n w s = (Inr (), s')" and "index_inv (dv_db s)"
  shows "(FileInDir i n (dv_db s) = Inl ErrNotFound \<and> dv_db s' = dv_db s) \<or>
    (\<exists>f. w \<and> FileInDir i n (dv_db s) = Inr f \<and> dv_db s' = delete_files (\<lambda>x. f_ID x = f_ID f) (dv_db s))"
proof (cases "FileInDir i n (dv_db s)")
  case (Inl e)
  then show ?thesis using assms(1) by (auto simp: clearName_def ret_def fail_def split: if_splits)
next
  case (Inr f)
  then have w: "w" "deleteFileRow env f s = (Inr (), s')" using assms(1) by (auto simp: clearName_def fail_def split: if_splits)
  obtain u s1 where m: "deleteMessages env (FileMessages (f_ID f) (dv_db s)) s = (Inr u, s1)"
    and x: "exec (DeleteFile (f_ID f)) (s1\<lparr>dv_refs := refs_Forget (f_ID f) (dv_refs s1)\<rparr>) = (Inr (), s')"
    using w(2) by (auto simp: deleteFileRow_def op_bind_def with_db_def ret_def forget_refs_def split: prod.splits sum.splits)
  have "dv_db s1 = dv_db s" using tripleD [OF deleteMessages_db refl m] .
  then have "dv_db s' = delete_files (\<lambda>x. f_ID x = f_ID f) (dv_db s)"
    using x by (auto simp: exec_eq DeleteFile_def split: if_splits)
  then show ?thesis using w(1) Inr by blast
qed

text \<open>An upload that \<open>Begin\<close> accepts never takes an account over its quota: counting the new file,
the account uses at most its quota, or no more than it used before; an overwritten file of the account
is deducted only once it is gone (no file of the index is broken, sizes are not negative and their sum
does not overflow).\<close>

theorem Begin_respects_quota:
  assumes "index_inv (dv_db s)" and "en_hooks env = no_hooks" and "CleanPath (uq_DirPath req) = Inr clean"
    and "valid_utf8 clean" and "uq_UserID req \<noteq> []" and "UserByID (uq_UserID req) (dv_db s) = Inr u"
    and "0 < u_QuotaBytes u" and "list_all (\<lambda>f. 0 \<le> f_Size f \<and> f_Status f \<noteq> StatusBroken) (db_files (dv_db s))"
    and "in64 (UsedBytesByOwner (uq_UserID req) (dv_db s) + uq_Size req)"
    and "Begin env req s = (Inr (job, f), s')"
  shows "UsedBytesByOwner (uq_UserID req) (dv_db s') \<le> max (UsedBytesByOwner (uq_UserID req) (dv_db s)) (u_QuotaBytes u)"
proof -
  let ?uid = "uq_UserID req" and ?used = "UsedBytesByOwner (uq_UserID req)"
  have hooks: "hk_begin (en_hooks env) req = Inr req" "hk_path (en_hooks env) nm q = Inr q" for nm q
    by (simp_all add: assms(2) no_hooks_def)
  obtain ch dir s1 s2 b where q: "quota_bytes req (dv_db s) = Inr b" "CheckQuota ?uid b (dv_db s) = Inr ()" "0 \<le> uq_Size req"
    and mk: "Mkdir env (uq_DirPath req) s = (Inr dir, s1)"
    and cl: "clearName env (d_ID dir) (uq_Name req) (uq_Overwrite req) s1 = (Inr (), s2)"
    and rows: "begin_rows env req ch dir s2 = (Inr (job, f), s')"
    using Begin_run [OF hooks(1) assms(10)] by metis
  have "mkdir_clean env clean s = (Inr dir, s1)"
    using mk hooks(2) assms(3) by (simp add: Mkdir_def before_path_def clean_op_def)
  note mc = this
  from tripleD [OF mkdir_clean_triple [OF assms(3,4), of "dv_db s"] _ mc]
  have 1: "index_inv (dv_db s1)" "db_files (dv_db s1) = db_files (dv_db s)" using assms(1) grows_refl
    by (auto simp: grows_def)
  obtain fid jid n d1 where f: "f = new_file env req ch dir fid" and ins: "InsertFile f (dv_db s2) = (Inr (), d1)"
    and job: "InsertJob job d1 = (Inr (), dv_db s')"
    using begin_rows_run [OF rows] by metis
  have "db_files (dv_db s') = db_files (dv_db s2) @ [f\<lparr>f_CreatedAt := db_now (dv_db s2), f_UpdatedAt := db_now (dv_db s2)\<rparr>]"
    using InsertFile_success(1) [OF ins] InsertJob_success(1) [OF job] by auto
  then have after: "?used (dv_db s') = ?used (dv_db s2) + uq_Size req"
    using assms(5) by (simp add: UsedBytesByOwner_def f new_file_def)
  have u1: "?used (dv_db s1) = ?used (dv_db s)" by (rule used_cong [OF 1(2)])
  have fi: "files_inv (dv_db s1)" using 1(1) by (simp add: index_inv_def)
  let ?ex = "\<lambda>x. if f_OwnerID x = ?uid then f_Size x else 0"
  have del: "(FileInDir (d_ID dir) (uq_Name req) (dv_db s1) = Inl ErrNotFound \<and> ?used (dv_db s2) = ?used (dv_db s)) \<or>
      (\<exists>x. uq_Overwrite req \<and> FileInDir (d_ID dir) (uq_Name req) (dv_db s1) = Inr x \<and> 0 \<le> f_Size x \<and>
        ?used (dv_db s2) + ?ex x = ?used (dv_db s))"
    using clearName_success [OF cl 1(1)]
  proof (elim disjE exE conjE)
    fix x assume x: "FileInDir (d_ID dir) (uq_Name req) (dv_db s1) = Inr x" and w: "uq_Overwrite req"
      and d: "dv_db s2 = delete_files (\<lambda>y. f_ID y = f_ID x) (dv_db s1)"
    have m: "x \<in> set (db_files (dv_db s1))" using x query_row_Some unfolding FileInDir_def by fast
    then have "0 \<le> f_Size x" "f_Status x \<noteq> StatusBroken" using assms(8) 1(2) by (auto simp: list_all_iff)
    then show ?thesis using used_deleted [OF fi m, of ?uid] d x w u1 assms(5) by auto
  qed (use u1 in auto)
  have bound: "?used (dv_db s') \<le> max (?used (dv_db s)) (u_QuotaBytes u)"
    if "?used (dv_db s') \<le> ?used (dv_db s) + b" "in64 (?used (dv_db s) + b)"
    using q(2) that assms(5-7) by (auto simp: CheckQuota_def split: if_splits)
  have nn: "0 \<le> ?used (dv_db s)"
    using assms(8) by (auto simp: UsedBytesByOwner_def list_all_iff intro!: sum_list_nonneg)
  have plain: ?thesis if b: "b = uq_Size req"
  proof (rule bound)
    show "?used (dv_db s') \<le> ?used (dv_db s) + b" using after del b by (auto split: if_splits)
    show "in64 (?used (dv_db s) + b)" using assms(9) b by simp
  qed
  show ?thesis
  proof (cases "\<exists>d0 x. uq_Overwrite req \<and> resolve_dir (uq_DirPath req) (dv_db s) = Inr d0 \<and>
      FileInDir (d_ID d0) (uq_Name req) (dv_db s) = Inr x \<and> f_OwnerID x = ?uid")
    case False
    then have "b = uq_Size req" using q(1) by (auto simp: quota_bytes_def split: if_splits sum.splits)
    then show ?thesis by (rule plain)
  next
    case True
    then obtain d0 x where x: "resolve_dir (uq_DirPath req) (dv_db s) = Inr d0" "FileInDir (d_ID d0) (uq_Name req) (dv_db s) = Inr x"
      "f_OwnerID x = ?uid" "uq_Overwrite req" by blast
    have "d0 = dir"
      using x(1) mc assms(3) by (auto simp: resolve_dir_def mkdir_clean_def ret_def split: if_splits sum.splits)
    then have fx: "FileInDir (d_ID dir) (uq_Name req) (dv_db s1) = Inr x" using x(2) 1(2) by (simp add: FileInDir_def)
    have m: "x \<in> set (db_files (dv_db s))" using x(2) query_row_Some unfolding FileInDir_def by fast
    have sx: "0 \<le> f_Size x" "?used (dv_db s2) + f_Size x = ?used (dv_db s)" using del fx x(3) by auto
    have "0 \<le> ?used (dv_db s2)"
    proof -
      have "list_all (\<lambda>f. 0 \<le> f_Size f \<and> f_Status f \<noteq> StatusBroken) (db_files (dv_db s2))"
        using clearName_success [OF cl 1(1)] assms(8) 1(2) by (auto simp: list_all_iff delete_files_def Let_def)
      then show ?thesis by (auto simp: UsedBytesByOwner_def list_all_iff intro!: sum_list_nonneg)
    qed
    then have "in64 (uq_Size req - f_Size x)" using q(3) sx assms(9) by (auto simp: in64_def)
    then have b: "b = uq_Size req - f_Size x" using q(1) x by (simp add: quota_bytes_def wrap64_id)
    show ?thesis
    proof (rule bound)
      show "?used (dv_db s') \<le> ?used (dv_db s) + b" using after sx(2) b by simp
      show "in64 (?used (dv_db s) + b)" using b sx assms(9) q(3) \<open>0 \<le> ?used (dv_db s2)\<close> by (auto simp: in64_def)
    qed
  qed
qed

section \<open>Clean-up\<close>

lemma deleteFileRow_db:
  "dv_db (snd (deleteFileRow env f s)) \<in> {dv_db s, delete_files (\<lambda>x. f_ID x = f_ID f) (dv_db s)}"
proof -
  obtain r s1 where m: "deleteMessages env (FileMessages (f_ID f) (dv_db s)) s = (r, s1)" by fastforce
  then have d: "dv_db s1 = dv_db s" using keepsD [OF deleteMessages_db [of "dv_db s"], of s env] by (metis snd_conv)
  show ?thesis
    using m d by (cases r) (simp_all add: deleteFileRow_def op_bind_def with_db_def ret_def forget_refs_def exec_eq DeleteFile_def)
qed

lemma JobByID_mapped:
  assumes "\<And>j. j_ID (g j) = j_ID j" and "db_jobs d' = map g (db_jobs d)"
  shows "JobByID jid d' = (case JobByID jid d of Inl e \<Rightarrow> Inl e | Inr j \<Rightarrow> Inr (g j))"
proof -
  have "find (\<lambda>j. j_ID j = jid) (map g js) = map_option g (find (\<lambda>j. j_ID j = jid) js)" for js
    by (induction js) (simp_all add: assms(1))
  then show ?thesis by (simp add: JobByID_def query_row_def assms(2) split: option.split)
qed

lemma job_after_delete:
  assumes "JobByID jid (dv_db s) = Inr job"
  shows "\<exists>job'. JobByID jid (dv_db (snd (deleteFileRow env f s))) = Inr job'"
proof -
  let ?g = "\<lambda>j. if j_FileID j \<in> set (map f_ID (filter (\<lambda>x. f_ID x = f_ID f) (db_files (dv_db s)))) then j\<lparr>j_FileID := []\<rparr> else j"
  have "JobByID jid (delete_files (\<lambda>x. f_ID x = f_ID f) (dv_db s)) = Inr (?g job)"
    using assms by (subst JobByID_mapped [of ?g _ "dv_db s"]) (simp_all add: delete_files_def Let_def)
  then show ?thesis using deleteFileRow_db [of env f s] assms by auto
qed

text \<open>What the delete leaves of the files: all of them, or all but the one.\<close>

definition spared :: "string \<Rightarrow> db \<Rightarrow> db \<Rightarrow> bool" where
  "spared fid d d' \<longleftrightarrow> db_files d' = db_files d \<or> db_files d' = filter (\<lambda>x. f_ID x \<noteq> fid) (db_files d)"

lemma SetJobStatus_outcome:
  assumes "JobByID jid d = Inr job"
  shows "\<exists>d' job'. SetJobStatus jid st e d = (Inr (), d') \<and> JobByID jid d' = Inr job' \<and> j_Status job' = st \<and> j_Error job' = e \<and>
    d' = d\<lparr>db_jobs := db_jobs d'\<rparr>"
proof -
  have "job \<in> set (db_jobs d)" "j_ID job = jid" using assms query_row_Some unfolding JobByID_def by fast+
  then have 1: "affectedOne (\<lambda>j. j_ID j = jid) (db_jobs d) = Inr ()" by (auto simp: affectedOne_def list_ex_iff)
  let ?d = "with_job jid (jobStatusUpdate (db_now d) st e) d"
  have "JobByID jid ?d = Inr (jobStatusUpdate (db_now d) st e job)"
    using jobs.find_where [of jid "\<lambda>j. j_ID j = jid" "UStatus (db_now d) st e" "db_jobs d"] assms \<open>j_ID job = jid\<close>
    by (simp add: with_job_def JobByID_def job_touch_eqs)
  moreover have "j_Status (jobStatusUpdate now st e job) = st" "j_Error (jobStatusUpdate now st e job) = e" for now
    by (simp_all add: jobStatusUpdate_def Let_def split: JobStatus.split)
  ultimately show ?thesis using 1 by (intro exI [of _ ?d]) (auto simp: SetJobStatus_def with_job_def)
qed

lemma abort_rows_outcome:
  assumes env: "honest_env live env" and inv: "index_inv (dv_db s)" and job: "JobByID jid (dv_db s) = Inr job"
  shows "\<exists>s' job'. abort_rows env jid reason st s = (Inr (), s') \<and> JobByID jid (dv_db s') = Inr job' \<and> j_Status job' = st \<and>
    j_Error job' = reason \<and> index_inv (dv_db s') \<and> orphans live s' \<subseteq> orphans live s \<and> spared (j_FileID job) (dv_db s) (dv_db s')"
proof -
  define del where "del = (\<lambda>s. if j_FileID job = [] then ret () s else case FileByID (j_FileID job) (dv_db s) of
      Inl _ \<Rightarrow> ret () s | Inr f \<Rightarrow> op_bind (attempt (deleteFileRow env f)) (\<lambda>_. ret ()) s)"
  obtain s1 where del: "del s = (Inr (), s1)" and db: "\<exists>job'. JobByID jid (dv_db s1) = Inr job'" and i: "index_inv (dv_db s1)"
    and o: "orphans live s1 \<subseteq> orphans live s" and f: "spared (j_FileID job) (dv_db s) (dv_db s1)"
  proof (cases "j_FileID job = [] \<or> (\<exists>e. FileByID (j_FileID job) (dv_db s) = Inl e)")
    case True
    then have "del s = (Inr (), s)" by (auto simp: del_def ret_def split: sum.split)
    then show ?thesis using that [of s] job inv by (simp add: spared_def)
  next
    case False
    then obtain f where f: "FileByID (j_FileID job) (dv_db s) = Inr f" and ne: "j_FileID job \<noteq> []"
      by (cases "FileByID (j_FileID job) (dv_db s)") auto
    let ?s1 = "snd (deleteFileRow env f s)"
    have id: "f_ID f = j_FileID job" using f query_row_Some unfolding FileByID_def by fast
    have "del s = (Inr (), ?s1)"
      using f ne by (simp add: del_def attempt_def op_bind_def ret_def split: prod.split sum.split)
    moreover have "index_inv (dv_db ?s1)" using keepsD [OF deleteFileRow_index] inv by blast
    moreover have "orphans live ?s1 \<subseteq> orphans live s"
      using deleteFileRow_cleared [OF env inv, of f] by (auto simp: cleared_def split: prod.splits)
    moreover have "spared (j_FileID job) (dv_db s) (dv_db ?s1)"
      using deleteFileRow_db [of env f s] id by (auto simp: spared_def delete_files_def Let_def)
    ultimately show ?thesis using that job_after_delete [OF job, of env f] by blast
  qed
  obtain job1 where j1: "JobByID jid (dv_db s1) = Inr job1" using db by blast
  obtain d' job' where st: "SetJobStatus jid st reason (dv_db s1) = (Inr (), d')" "JobByID jid d' = Inr job'" "j_Status job' = st"
    "j_Error job' = reason" "d' = (dv_db s1)\<lparr>db_jobs := db_jobs d'\<rparr>"
    using SetJobStatus_outcome [OF j1] by blast
  have run: "abort_rows env jid reason st s = (Inr (), s1\<lparr>dv_db := d'\<rparr>)"
    using job del st(1) unfolding abort_rows_def del_def by (simp add: op_bind_def query_def ret_def exec_eq)
  have e: "db_dirs d' = db_dirs (dv_db s1)" "db_files d' = db_files (dv_db s1)" "db_segments d' = db_segments (dv_db s1)"
    "db_channels d' = db_channels (dv_db s1)"
    by (subst st(5), simp)+
  have "index_inv d'" using i e by (simp add: index_inv_def files_inv_def dir_exists_def file_exists_def)
  moreover have "keys d' = keys (dv_db s1)"
    using msg_key_cong [OF e(4)] e by (simp add: keys_def wanted_def all_messages_def)
  ultimately show ?thesis using run st(2-4) o f e(2) by (auto simp: orphans_def spared_def)
qed

lemma ReleaseUploadJob_frame [simp]: "dv_db (ReleaseUploadJob jid s) = dv_db s" "dv_tg (ReleaseUploadJob jid s) = dv_tg s"
  by (simp_all add: ReleaseUploadJob_def split: option.split)

text \<open>C17: aborting an upload gets there unless a plugin stops it.  The hook of \<open>files.abortUpload\<close> is asked first: when it
refuses or its plugin fails, or answers with a status no abort has, the call returns that error and has changed nothing.  In every other
case, whatever Telegram answers while its documents are deleted, the job the hook passes on (the requested one without a plugin) ends in the
passed status with the passed reason, the index stays well formed, no file other than the job's is touched, and no document that the index
pointed at is left behind in the channel without a row.\<close>

theorem Abort_strands_nothing:
  assumes "honest_env live env" and "index_inv (dv_db s)"
  shows "case hk_abort (en_hooks env) (jid0, reason0, status0) of
      Inl e \<Rightarrow> Abort env jid0 reason0 status0 s = (Inl e, s)
    | Inr (jid, reason, status) \<Rightarrow>
        if status \<noteq> JobFailed \<and> status \<noteq> JobCancelled then Abort env jid0 reason0 status0 s = (Inl EStatus, s)
        else \<forall>job. JobByID jid (dv_db s) = Inr job \<longrightarrow> (\<exists>s' job'. Abort env jid0 reason0 status0 s = (Inr (), s') \<and>
          JobByID jid (dv_db s') = Inr job' \<and> j_Status job' = status \<and> j_Error job' = reason \<and>
          index_inv (dv_db s') \<and> orphans live s' \<subseteq> orphans live s \<and> spared (j_FileID job) (dv_db s) (dv_db s'))"
proof (cases "hk_abort (en_hooks env) (jid0, reason0, status0)")
  case (Inl e)
  then show ?thesis by (simp add: Abort_def op_bind_def fail_def)
next
  case (Inr r)
  obtain jid reason status where r: "r = (jid, reason, status)" using prod_cases3 by blast
  note run = Inr [unfolded r]
  show ?thesis
  proof (cases "status \<noteq> JobFailed \<and> status \<noteq> JobCancelled")
    case True
    then show ?thesis using run by (simp add: Abort_def op_bind_def fail_def ret_def)
  next
    case False
    have "\<exists>s' job'. Abort env jid0 reason0 status0 s = (Inr (), s') \<and> JobByID jid (dv_db s') = Inr job' \<and>
        j_Status job' = status \<and> j_Error job' = reason \<and> index_inv (dv_db s') \<and> orphans live s' \<subseteq> orphans live s \<and>
        spared (j_FileID job) (dv_db s) (dv_db s')" if job: "JobByID jid (dv_db s) = Inr job" for job
    proof -
      obtain s1 where s1: "abort_rows env jid reason status s = (Inr (), s1)"
        and rest: "\<exists>job'. JobByID jid (dv_db s1) = Inr job' \<and> j_Status job' = status \<and> j_Error job' = reason \<and>
          index_inv (dv_db s1) \<and> orphans live s1 \<subseteq> orphans live s \<and> spared (j_FileID job) (dv_db s) (dv_db s1)"
        using abort_rows_outcome [OF assms job] by blast
      have "Abort env jid0 reason0 status0 s = (Inr (), ReleaseUploadJob jid s1)"
        using s1 run False by (auto simp: Abort_def op_bind_def ret_def deferred_def)
      then show ?thesis using rest by (auto simp: orphans_def)
    qed
    then show ?thesis unfolding run sum.case prod.case if_not_P [OF False] by blast
  qed
qed

section \<open>Sample states\<close>

definition upload_job :: UploadJob where
  "upload_job = sample_job\<lparr>j_FileID := ''f'', j_SegmentCount := 1, j_DoneMask := MaskSet (NewMask 1) 1, j_Status := JobRunning\<rparr>"

definition upload_drive :: "(messages, char) drive" where
  "upload_drive = sim_drive (small_index\<lparr>db_jobs := [upload_job]\<rparr>) [(''ch'', 4), (''ch'', 3), (''ch'', 2), (''ch'', 1)]"

definition sample_user :: User where
  "sample_user = \<lparr>u_ID = ''U'', u_Username = ''ann'', u_PasswordHash = [], u_Role = RoleUser, u_CreatedAt = 0, u_UpdatedAt = 0,
     u_Enabled = True, u_Perms = 0, u_ScopePath = ''/'', u_QuotaBytes = 20, u_Note = [], u_LastLoginAt = 0, u_LastLoginIP = []\<rparr>"

definition owned_file :: "string \<Rightarrow> string \<Rightarrow> FileStatus \<Rightarrow> int \<Rightarrow> FileRow" where
  "owned_file fid n st k = (mk_file fid [] n)\<lparr>f_OwnerID := ''U'', f_Status := st, f_Size := k\<rparr>"

definition quota_drive :: "FileRow list \<Rightarrow> (messages, char) drive" where
  "quota_drive fs = sim_drive (empty_db\<lparr>db_users := [sample_user], db_files := fs\<rparr>) []"

definition ann_request :: "string \<Rightarrow> int \<Rightarrow> bool \<Rightarrow> UploadRequest" where
  "ann_request n k w = \<lparr>uq_DirPath = ''/'', uq_Name = n, uq_Size = k, uq_MIME = ''text/plain'', uq_UserID = ''U'',
     uq_Source = ''webui'', uq_SourceURL = [], uq_Overwrite = w\<rparr>"

theorem PutSegment_refuses_witness: "\<exists>e. PutSegment sim_env ''J'' 2 ''ab'' 2 upload_drive = (Inl e, upload_drive)"
proof -
  have "JobByID ''J'' (dv_db upload_drive) = Inr upload_job"
    by (simp add: upload_drive_def sim_drive_def upload_job_def sample_job_def JobByID_def query_row_def)
  moreover have "FileByID (j_FileID upload_job) (dv_db upload_drive) = Inr (mk_file ''f'' ''c'' ''x.mkv'')"
    by (simp add: upload_drive_def sim_drive_def upload_job_def small_index_def mk_file_def FileByID_def query_row_def)
  moreover have "j_SegmentCount upload_job < 2" by (simp add: upload_job_def)
  moreover have "hk_segment (en_hooks sim_env) x = Inr x" for x by (simp add: sim_env_def no_hooks_def)
  ultimately show ?thesis using PutSegment_refuses [of sim_env "''J''" 2 2 "''J''" 2 2 upload_drive] by blast
qed

theorem Begin_respects_quota_witness:
  "\<exists>job f s. Begin sim_env (ann_request ''new'' 15 True) (quota_drive [owned_file ''f'' ''new'' StatusComplete 10]) = (Inr (job, f), s) \<and>
     UsedBytesByOwner ''U'' (dv_db s) \<le> 20"
proof -
  let ?s = "quota_drive [owned_file ''f'' ''new'' StatusComplete 10]" and ?r = "ann_request ''new'' 15 True"
  have "case fst (Begin sim_env ?r ?s) of Inl _ \<Rightarrow> False | Inr _ \<Rightarrow> True" by code_simp
  then obtain job f s where b: "Begin sim_env ?r ?s = (Inr (job, f), s)"
    by (cases "Begin sim_env ?r ?s") (auto split: sum.splits)
  have r: "uq_DirPath ?r = ''/''" "uq_UserID ?r = ''U''" "uq_Size ?r = 15" by (simp_all add: ann_request_def)
  have c: "CleanPath ''/'' = Inr ''/''" by code_simp
  have u: "UserByID ''U'' (dv_db ?s) = Inr sample_user" by code_simp
  have used: "UsedBytesByOwner ''U'' (dv_db ?s) = 10" by code_simp
  have i: "index_inv (dv_db ?s)"
    by (simp add: quota_drive_def sim_drive_def index_inv_def tree_inv_def files_inv_def owned_file_def mk_file_def empty_db_def Root_def)
  have l: "list_all (\<lambda>f. 0 \<le> f_Size f \<and> f_Status f \<noteq> StatusBroken) (db_files (dv_db ?s))"
    by (simp add: quota_drive_def sim_drive_def owned_file_def)
  have "UsedBytesByOwner ''U'' (dv_db s) \<le> max 10 (u_QuotaBytes sample_user)"
    using Begin_respects_quota [OF i _ _ _ _ _ _ l _ b, of "''/''" sample_user] c u used
    by (simp add: r sim_hooks valid_utf8_ascii in64_def sample_user_def)
  then show ?thesis using b by (auto simp: sample_user_def)
qed

lemma upload_drive_inv: "index_inv (dv_db upload_drive)"
  using small_index_inv by (simp add: upload_drive_def sim_drive_def index_inv_def files_inv_def dir_exists_def file_exists_def)

theorem Abort_strands_nothing_witness:
  "\<exists>s job. Abort sim_env ''J'' ''disk full'' JobFailed upload_drive = (Inr (), s) \<and> JobByID ''J'' (dv_db s) = Inr job \<and>
     j_Status job = JobFailed \<and> orphans set s \<subseteq> orphans set upload_drive"
proof -
  have "JobByID ''J'' (dv_db upload_drive) = Inr upload_job"
    by (simp add: upload_drive_def sim_drive_def upload_job_def sample_job_def JobByID_def query_row_def)
  moreover have "hk_abort (en_hooks sim_env) (''J'', ''disk full'', JobFailed) = Inr (''J'', ''disk full'', JobFailed)"
    by (simp add: sim_hooks no_hooks_def)
  ultimately show ?thesis
    using Abort_strands_nothing [OF sim_honest upload_drive_inv, of "''J''" "''disk full''" JobFailed] by auto
qed

section \<open>Where the code falls short\<close>

text \<open>\<open>CancelUpload\<close> promises to refuse an upload that has stored its file, since the clean-up would
take the finished file with it.  It looks at a row read before it waited for the workers: a worker that
completes the upload during the wait loses its finished file.\<close>

lemma CancelUpload_takes_finished_file:
  "case Complete sim_env ''J'' upload_drive of (r, s) \<Rightarrow> (\<exists>f. r = Inr f) \<and> map f_Status (db_files (dv_db s)) = [StatusComplete]"
  "case CancelUpload sim_env (op_bind (Complete sim_env ''J'') (\<lambda>_. ret ())) ''J'' upload_drive of
     (r, s) \<Rightarrow> r = Inr () \<and> db_files (dv_db s) = [] \<and> map j_Status (db_jobs (dv_db s)) = [JobCancelled]"
proof -
  have "case Complete sim_env ''J'' upload_drive of (r, s) \<Rightarrow> (case r of Inr _ \<Rightarrow> True | _ \<Rightarrow> False) \<and>
      map f_Status (db_files (dv_db s)) = [StatusComplete]"
    by code_simp
  then show "case Complete sim_env ''J'' upload_drive of (r, s) \<Rightarrow> (\<exists>f. r = Inr f) \<and> map f_Status (db_files (dv_db s)) = [StatusComplete]"
    by (auto split: prod.splits sum.splits)
  show "case CancelUpload sim_env (op_bind (Complete sim_env ''J'') (\<lambda>_. ret ())) ''J'' upload_drive of
     (r, s) \<Rightarrow> r = Inr () \<and> db_files (dv_db s) = [] \<and> map j_Status (db_jobs (dv_db s)) = [JobCancelled]"
    by code_simp
qed

text \<open>\<open>abortAfterFailure\<close> only logs what the abort answers: when a plugin refuses it, the failed upload keeps a running job and
an unfinished file that no worker is left to end.\<close>

definition refusing_env :: "(messages, char) env" where
  "refusing_env = sim_env\<lparr>en_hooks := no_hooks\<lparr>hk_abort := (\<lambda>_. Inl (EHook ''refused''))\<rparr>\<rparr>"

lemma refused_abort: "hk_abort (en_hooks env) r = Inl e \<Longrightarrow> r = (jid, reason, st) \<Longrightarrow> Abort env jid reason st s = (Inl e, s)"
  by (simp add: Abort_def op_bind_def fail_def)

lemma refused_abort_leaves_job:
  "abortAfterFailure refusing_env ''J'' EStatus upload_drive = (Inr (), upload_drive) \<and>
   map j_Status (db_jobs (dv_db upload_drive)) = [JobRunning]"
proof
  have "JobByID ''J'' (dv_db upload_drive) = Inr upload_job"
    by (simp add: upload_drive_def sim_drive_def upload_job_def sample_job_def JobByID_def query_row_def)
  moreover have "\<not> Aborted (j_Status upload_job)" by (simp add: upload_job_def Aborted_def)
  moreover have "hk_abort (en_hooks refusing_env) r = Inl (EHook ''refused'')" for r by (simp add: refusing_env_def)
  note refused_abort [OF this refl]
  ultimately show "abortAfterFailure refusing_env ''J'' EStatus upload_drive = (Inr (), upload_drive)"
    by (simp only: abortAfterFailure_def sum.case if_False op_bind_def [of "attempt _"] attempt_def prod.case ret_def)
  show "map j_Status (db_jobs (dv_db upload_drive)) = [JobRunning]" by code_simp
qed

text \<open>\<open>clearName\<close> looks for files only: an upload may take the name of a folder of its directory.  Every
path lookup prefers the folder, so deleting the upload by its path deletes the folder.\<close>

lemma Begin_shadows_directory:
  "case Begin sim_env ((ann_request ''films'' 0 False)\<lparr>uq_UserID := []\<rparr>) sample_drive of (r, s) \<Rightarrow>
     (case r of Inr _ \<Rightarrow> True | Inl _ \<Rightarrow> False) \<and> map d_Path (db_dirs (dv_db s)) = [''/films'', ''/books'', ''/films/new''] \<and>
     map f_Name (db_files (dv_db s)) = [''x.mkv'', ''films''] \<and>
     (case Delete sim_env ''/films'' s of (r', s') \<Rightarrow> r' = Inr () \<and> map d_Path (db_dirs (dv_db s')) = [''/books''] \<and>
        map f_Name (db_files (dv_db s')) = [''films''])"
  by code_simp

text \<open>A broken file does not count against the quota, but \<open>Begin\<close> still deducts it from the size of the
upload that overwrites it: here an account with a quota of 20 bytes that has used 10 ends with 25.\<close>

lemma Begin_overruns_quota:
  "case Begin sim_env (ann_request ''bad'' 15 True) (quota_drive [owned_file ''f'' ''old'' StatusComplete 10, owned_file ''g'' ''bad'' StatusBroken 15]) of
     (r, s) \<Rightarrow> (case r of Inr _ \<Rightarrow> True | Inl _ \<Rightarrow> False) \<and> UsedBytesByOwner ''U'' (dv_db s) = 25"
  by code_simp

text \<open>\<open>UploadUnsized\<close> counts the segments with the segment size of the settings when the stream has
ended, but the file keeps the one \<open>Begin\<close> gave it: when an administrator has raised it from 4 to 8 bytes
in between, a file of 6 bytes gets one segment of 4 and is marked complete without the rest.\<close>

lemma Unsized_truncates:
  "SegmentCount 8 6 = 1" "SegmentSize 6 4 1 = 4" "concat (map (piece 6 4 ''hello!'') [1 .. SegmentCount 8 6]) = ''hell''"
  by code_simp+

end
