(* ===== verification/Limiter.thy ===== *)
theory Limiter
  imports Prelude "HOL-Library.Sublist"
begin

text \<open>
  The task limiter, \<open>internal/drive/limiter.go\<close>: a counting semaphore with a queue of waiters.  Every
  section the code runs under the mutex is one event, so the event lists are the interleavings.  A
  call of \<open>acquire\<close> has a number, which also names its \<open>taskWaiter\<close>; \<open>close(waiter.ready)\<close> is the flag
  \<open>granted\<close>, set in the same section.
\<close>

section \<open>The limiter\<close>

record taskWaiter =
  tw_granted :: bool
  tw_cancel :: bool

record taskLimiter =
  tl_limit :: int
  tl_active :: int
  tl_queue :: "nat list"
  tl_waiters :: "nat \<Rightarrow> taskWaiter"

definition newTaskLimiter :: "int \<Rightarrow> taskLimiter" where
  "newTaskLimiter n =
     \<lparr>tl_limit = (if n < 1 then 1 else n), tl_active = 0, tl_queue = [],
      tl_waiters = (\<lambda>_. \<lparr>tw_granted = False, tw_cancel = False\<rparr>)\<rparr>"

definition grant :: "nat \<Rightarrow> taskLimiter \<Rightarrow> taskLimiter" where
  "grant w l = l\<lparr>tl_active := tl_active l + 1, tl_waiters := (tl_waiters l)(w := (tl_waiters l w)\<lparr>tw_granted := True\<rparr>)\<rparr>"

fun dispatch_loop :: "nat list \<Rightarrow> taskLimiter \<Rightarrow> taskLimiter" where
  "dispatch_loop [] l = l\<lparr>tl_queue := []\<rparr>"
| "dispatch_loop (w # q) l =
     (if tl_active l < tl_limit l
      then dispatch_loop q (if tw_cancel (tl_waiters l w) then l else grant w l)
      else l\<lparr>tl_queue := w # q\<rparr>)"

definition dispatchLocked :: "taskLimiter \<Rightarrow> taskLimiter" where
  "dispatchLocked l = dispatch_loop (tl_queue l) l"

definition setLimit :: "int \<Rightarrow> taskLimiter \<Rightarrow> taskLimiter" where
  "setLimit n0 l =
     (let n = (if n0 < 1 then 1 else n0)
      in if tl_limit l = n then l else dispatchLocked (l\<lparr>tl_limit := n\<rparr>))"

text \<open>Entering \<open>acquire\<close>: whether the slot is taken at once.\<close>

definition acquire_enter :: "nat \<Rightarrow> taskLimiter \<Rightarrow> bool \<times> taskLimiter" where
  "acquire_enter w l =
     (if tl_active l < tl_limit l \<and> tl_queue l = [] then (True, l\<lparr>tl_active := tl_active l + 1\<rparr>)
      else (False, l\<lparr>tl_queue := tl_queue l @ [w]\<rparr>))"

text \<open>The branch of \<open>acquire\<close> whose context has ended while it waited.\<close>

definition acquire_cancelled :: "nat \<Rightarrow> taskLimiter \<Rightarrow> taskLimiter" where
  "acquire_cancelled w l =
     (if tw_granted (tl_waiters l w) then dispatchLocked (l\<lparr>tl_active := tl_active l - 1\<rparr>)
      else if \<not> tw_cancel (tl_waiters l w) then
        dispatchLocked (l\<lparr>tl_waiters := (tl_waiters l)(w := (tl_waiters l w)\<lparr>tw_cancel := True\<rparr>),
          tl_queue := remove1 w (tl_queue l)\<rparr>)
      else l)"

definition release :: "taskLimiter \<Rightarrow> taskLimiter" where
  "release l = dispatchLocked (if tl_active l > 0 then l\<lparr>tl_active := tl_active l - 1\<rparr> else l)"

section \<open>Tasks\<close>

datatype task = Idle | Waiting | Owning | Gone

text \<open>\<open>ls_arrived\<close> and \<open>ls_admitted\<close> are history: the calls that reached the limiter and those that got a
  slot, in order.\<close>

record limiter_sys =
  ls_lim :: taskLimiter
  ls_task :: "nat \<Rightarrow> task"
  ls_arrived :: "nat list"
  ls_admitted :: "nat list"

datatype limiter_event = LAcquire nat | LWake nat | LCancel nat | LRelease nat | LSetLimit int

definition fresh_sys :: "int \<Rightarrow> limiter_sys" where
  "fresh_sys n = \<lparr>ls_lim = newTaskLimiter n, ls_task = (\<lambda>_. Idle), ls_arrived = [], ls_admitted = []\<rparr>"

text \<open>The waiters a change of the limiter has granted, in queue order.\<close>

definition newly_granted :: "taskLimiter \<Rightarrow> taskLimiter \<Rightarrow> nat list" where
  "newly_granted l l' = filter (\<lambda>v. tw_granted (tl_waiters l' v) \<and> \<not> tw_granted (tl_waiters l v)) (tl_queue l)"

definition with_lim :: "taskLimiter \<Rightarrow> limiter_sys \<Rightarrow> limiter_sys" where
  "with_lim l s = s\<lparr>ls_lim := l, ls_admitted := ls_admitted s @ newly_granted (ls_lim s) l\<rparr>"

definition become :: "nat \<Rightarrow> task \<Rightarrow> limiter_sys \<Rightarrow> limiter_sys" where
  "become w t s = s\<lparr>ls_task := (ls_task s)(w := t)\<rparr>"

text \<open>A release function runs its body once; a context that has ended is noticed before entering.\<close>

fun lim_step :: "limiter_event \<Rightarrow> limiter_sys \<Rightarrow> limiter_sys" where
  "lim_step (LAcquire w) s =
     (if ls_task s w \<noteq> Idle then s
      else case acquire_enter w (ls_lim s) of
          (True, l) \<Rightarrow> become w Owning (s\<lparr>ls_lim := l, ls_arrived := ls_arrived s @ [w], ls_admitted := ls_admitted s @ [w]\<rparr>)
        | (False, l) \<Rightarrow> become w Waiting (s\<lparr>ls_lim := l, ls_arrived := ls_arrived s @ [w]\<rparr>))"
| "lim_step (LWake w) s =
     (if ls_task s w = Waiting \<and> tw_granted (tl_waiters (ls_lim s) w) then become w Owning s else s)"
| "lim_step (LCancel w) s =
     (case ls_task s w of
        Idle \<Rightarrow> become w Gone s
      | Waiting \<Rightarrow> become w Gone (with_lim (acquire_cancelled w (ls_lim s)) s)
      | _ \<Rightarrow> s)"
| "lim_step (LRelease w) s =
     (if ls_task s w = Owning then become w Gone (with_lim (release (ls_lim s)) s) else s)"
| "lim_step (LSetLimit n) s = with_lim (setLimit n (ls_lim s)) s"

definition owners :: "limiter_sys \<Rightarrow> nat set" where
  "owners s = {w. ls_task s w = Owning \<or> ls_task s w = Waiting \<and> tw_granted (tl_waiters (ls_lim s) w)}"

section \<open>What a dispatch does\<close>

definition room :: "taskLimiter \<Rightarrow> nat" where
  "room l = min (length (tl_queue l)) (nat (tl_limit l - tl_active l))"

definition granting :: "nat set \<Rightarrow> (nat \<Rightarrow> taskWaiter) \<Rightarrow> nat \<Rightarrow> taskWaiter" where
  "granting A ws v = (if v \<in> A then (ws v)\<lparr>tw_granted := True\<rparr> else ws v)"

lemma dispatch_loop_eq:
  "\<lbrakk>distinct q; \<forall>w \<in> set q. \<not> tw_cancel (tl_waiters l w); k = min (length q) (nat (tl_limit l - tl_active l))\<rbrakk> \<Longrightarrow>
   dispatch_loop q l = l\<lparr>tl_active := tl_active l + int k, tl_queue := drop k q, tl_waiters := granting (set (take k q)) (tl_waiters l)\<rparr>"
proof (induction q arbitrary: l k)
  case Nil
  then show ?case by (simp add: granting_def)
next
  case (Cons w q)
  show ?case
  proof (cases "tl_active l < tl_limit l")
    case False
    then show ?thesis using Cons.prems(3) by (simp add: granting_def)
  next
    case True
    let ?k = "min (length q) (nat (tl_limit l - (tl_active l + 1)))"
    have k: "k = Suc ?k" using Cons.prems(3) True by (auto simp: min_def)
    have "dispatch_loop q (grant w l) = (grant w l)\<lparr>tl_active := tl_active (grant w l) + int ?k, tl_queue := drop ?k q,
        tl_waiters := granting (set (take ?k q)) (tl_waiters (grant w l))\<rparr>"
      using Cons.prems(1,2) by (intro Cons.IH) (auto simp: grant_def)
    moreover have "granting (set (take ?k q)) ((tl_waiters l)(w := (tl_waiters l w)\<lparr>tw_granted := True\<rparr>))
        = granting (set (take k (w # q))) (tl_waiters l)"
      using Cons.prems(1) set_take_subset [of ?k q] by (auto simp: granting_def k fun_eq_iff)
    ultimately show ?thesis using True Cons.prems(2) by (simp add: k grant_def)
  qed
qed

lemma dispatch_eq:
  assumes "distinct (tl_queue l)" and "\<forall>w \<in> set (tl_queue l). \<not> tw_cancel (tl_waiters l w)"
  shows "dispatchLocked l = l\<lparr>tl_active := tl_active l + int (room l), tl_queue := drop (room l) (tl_queue l),
    tl_waiters := granting (set (take (room l) (tl_queue l))) (tl_waiters l)\<rparr>"
  unfolding dispatchLocked_def room_def by (rule dispatch_loop_eq [OF assms refl])

lemma newly_granted_dispatch:
  assumes "distinct (tl_queue l)" and "\<forall>w \<in> set (tl_queue l). \<not> tw_cancel (tl_waiters l w) \<and> \<not> tw_granted (tl_waiters l w)"
  shows "newly_granted l (dispatchLocked l) = take (room l) (tl_queue l)"
proof -
  let ?q = "tl_queue l" and ?k = "room l"
  have d: "dispatchLocked l = l\<lparr>tl_active := tl_active l + int ?k, tl_queue := drop ?k ?q,
      tl_waiters := granting (set (take ?k ?q)) (tl_waiters l)\<rparr>"
    by (rule dispatch_eq) (use assms in auto)
  have split: "take ?k ?q @ drop ?k ?q = ?q" by simp
  then have "set (take ?k ?q) \<inter> set (drop ?k ?q) = {}" using assms(1) distinct_append [of "take ?k ?q" "drop ?k ?q"] by simp
  then have "filter (\<lambda>v. v \<in> set (take ?k ?q)) ?q = take ?k ?q"
    by (subst split [symmetric], subst filter_append) (auto simp: filter_empty_conv intro!: filter_True)
  moreover have "filter (\<lambda>v. tw_granted (granting (set (take ?k ?q)) (tl_waiters l) v) \<and> \<not> tw_granted (tl_waiters l v)) ?q
      = filter (\<lambda>v. v \<in> set (take ?k ?q)) ?q"
    using assms(2) by (intro filter_cong) (auto simp: granting_def)
  ultimately show ?thesis by (simp add: newly_granted_def d)
qed

section \<open>The invariant\<close>

text \<open>\<open>bal\<close> is the number of slots the counter has over the owners: zero between the events.\<close>

definition bal_inv :: "int \<Rightarrow> limiter_sys \<Rightarrow> bool" where
  "bal_inv b s \<longleftrightarrow>
     (let l = ls_lim s in
       1 \<le> tl_limit l \<and> distinct (tl_queue l) \<and>
       (\<forall>w. w \<in> set (tl_queue l) \<longleftrightarrow> ls_task s w = Waiting \<and> \<not> tw_granted (tl_waiters l w)) \<and>
       (\<forall>w. tw_cancel (tl_waiters l w) \<longrightarrow> ls_task s w = Gone) \<and>
       (\<forall>w. ls_task s w = Idle \<longrightarrow> w \<notin> set (ls_arrived s) \<and> \<not> tw_granted (tl_waiters l w)) \<and>
       finite (owners s) \<and> tl_active l = int (card (owners s)) + b \<and>
       subseq (ls_admitted s @ tl_queue l) (ls_arrived s))"

definition lim_inv :: "limiter_sys \<Rightarrow> bool" where
  "lim_inv s \<longleftrightarrow> bal_inv 0 s \<and> (tl_queue (ls_lim s) = [] \<or> tl_limit (ls_lim s) \<le> tl_active (ls_lim s))"

lemma bal_invD:
  assumes "bal_inv b s"
  shows "1 \<le> tl_limit (ls_lim s)" and "distinct (tl_queue (ls_lim s))"
    and "w \<in> set (tl_queue (ls_lim s)) \<longleftrightarrow> ls_task s w = Waiting \<and> \<not> tw_granted (tl_waiters (ls_lim s) w)"
    and "tw_cancel (tl_waiters (ls_lim s) w) \<Longrightarrow> ls_task s w = Gone"
    and "ls_task s w = Idle \<Longrightarrow> w \<notin> set (ls_arrived s) \<and> \<not> tw_granted (tl_waiters (ls_lim s) w)"
    and "finite (owners s)" and "tl_active (ls_lim s) = int (card (owners s)) + b"
    and "subseq (ls_admitted s @ tl_queue (ls_lim s)) (ls_arrived s)"
  using assms by (auto simp: bal_inv_def Let_def)

text \<open>A dispatch keeps the balance and leaves no free slot to a waiter.\<close>

lemma dispatch_bal:
  assumes "bal_inv b s"
  shows "bal_inv b (with_lim (dispatchLocked (ls_lim s)) s)"
    and "tl_queue (dispatchLocked (ls_lim s)) = [] \<or> tl_limit (dispatchLocked (ls_lim s)) \<le> tl_active (dispatchLocked (ls_lim s))"
proof -
  let ?l = "ls_lim s" and ?l' = "dispatchLocked (ls_lim s)" and ?q = "tl_queue (ls_lim s)" and ?k = "room (ls_lim s)"
  let ?s' = "with_lim ?l' s"
  note I = bal_invD [OF assms]
  have nc: "\<forall>w \<in> set ?q. \<not> tw_cancel (tl_waiters ?l w) \<and> \<not> tw_granted (tl_waiters ?l w)"
    using I(3,4) by (metis task.distinct(9))
  have eq: "?l' = ?l\<lparr>tl_active := tl_active ?l + int ?k, tl_queue := drop ?k ?q, tl_waiters := granting (set (take ?k ?q)) (tl_waiters ?l)\<rparr>"
    by (rule dispatch_eq) (use I(2) nc in auto)
  have ng: "newly_granted ?l ?l' = take ?k ?q" by (rule newly_granted_dispatch [OF I(2) nc])
  have parts: "set ?q = set (take ?k ?q) \<union> set (drop ?k ?q)" "set (take ?k ?q) \<inter> set (drop ?k ?q) = {}"
    using I(2) by (metis append_take_drop_id set_append, metis append_take_drop_id distinct_append)
  have head: "ls_task s w = Waiting \<and> \<not> tw_granted (tl_waiters ?l w)" if "w \<in> set (take ?k ?q)" for w
    using that I(3) [of w] parts(1) by simp
  then have own: "owners ?s' = owners s \<union> set (take ?k ?q)" "owners s \<inter> set (take ?k ?q) = {}"
    by (auto simp: owners_def with_lim_def eq granting_def)
  have ck: "card (set (take ?k ?q)) = ?k" using I(2) by (simp add: distinct_card room_def)
  then have "card (owners ?s') = card (owners s) + ?k" using own I(6) by (simp add: card_Un_disjoint)
  moreover have "w \<in> set (drop ?k ?q) \<longleftrightarrow> ls_task s w = Waiting \<and> \<not> tw_granted (granting (set (take ?k ?q)) (tl_waiters ?l) w)" for w
    using I(3) [of w] parts by (auto simp: granting_def)
  moreover have "tw_cancel (granting A ws w) = tw_cancel (ws w)" for A ws w by (simp add: granting_def)
  moreover have "ls_task s w = Idle \<Longrightarrow> w \<notin> set (take ?k ?q)" for w using I(3) [of w] parts(1) by auto
  ultimately show "bal_inv b ?s'"
    using I own(1) ng unfolding bal_inv_def Let_def
    by (simp add: with_lim_def eq granting_def distinct_drop)
  show "tl_queue ?l' = [] \<or> tl_limit ?l' \<le> tl_active ?l'"
    by (auto simp: eq room_def min_def)
qed

lemma granted_dispatch:
  assumes "bal_inv b s" and "tw_granted (tl_waiters (dispatchLocked (ls_lim s)) w)"
  shows "tw_granted (tl_waiters (ls_lim s) w) \<or> w \<in> set (tl_queue (ls_lim s))"
proof -
  note I = bal_invD [OF assms(1)]
  have "\<forall>w \<in> set (tl_queue (ls_lim s)). \<not> tw_cancel (tl_waiters (ls_lim s) w)" using I(3,4) by (metis task.distinct(9))
  from assms(2) [unfolded dispatch_eq [OF I(2) this]] show ?thesis
    by (auto simp: granting_def split: if_splits dest: in_set_takeD)
qed

lemma filter_skip: "\<not> P w \<Longrightarrow> filter P (remove1 w q) = filter P q"
  by (induction q) auto

lemma subseq_remove1: "subseq (remove1 w q) q"
  by (induction q) auto

lemma owners_become [simp]: "t = Idle \<or> t = Gone \<Longrightarrow> owners (become w t s) = owners s - {w}"
  by (auto simp: owners_def become_def)

fun gives_back :: "limiter_event \<Rightarrow> limiter_sys \<Rightarrow> bool" where
  "gives_back (LRelease w) s = (ls_task s w = Owning)"
| "gives_back (LCancel w) s = (ls_task s w = Waiting \<and> tw_granted (tl_waiters (ls_lim s) w))"
| "gives_back _ s = False"

text \<open>Giving a slot back, leaving the queue and changing the limit are a dispatch on the state that the
  section has made before it.\<close>

definition give :: "nat \<Rightarrow> limiter_sys \<Rightarrow> limiter_sys" where
  "give w s = become w Gone (s\<lparr>ls_lim := (ls_lim s)\<lparr>tl_active := tl_active (ls_lim s) - 1\<rparr>\<rparr>)"

definition quit :: "nat \<Rightarrow> limiter_sys \<Rightarrow> limiter_sys" where
  "quit w s = become w Gone (s\<lparr>ls_lim := (ls_lim s)
     \<lparr>tl_waiters := (tl_waiters (ls_lim s))(w := (tl_waiters (ls_lim s) w)\<lparr>tw_cancel := True\<rparr>),
      tl_queue := remove1 w (tl_queue (ls_lim s))\<rparr>\<rparr>)"

definition redispatch :: "limiter_sys \<Rightarrow> limiter_sys" where
  "redispatch s = with_lim (dispatchLocked (ls_lim s)) s"

lemma redispatch_inv: "bal_inv 0 s \<Longrightarrow> lim_inv (redispatch s)"
  using dispatch_bal [of 0 s] by (simp add: lim_inv_def redispatch_def) (simp add: with_lim_def)

lemma give_step:
  assumes "lim_inv s" and "gives_back e s"
  shows "\<exists>w. bal_inv 0 (give w s) \<and> lim_step e s = redispatch (give w s)"
proof -
  have B: "bal_inv 0 s" using assms(1) by (simp add: lim_inv_def)
  note I = bal_invD [OF B]
  obtain w where e: "e = LRelease w \<and> ls_task s w = Owning \<or>
      e = LCancel w \<and> ls_task s w = Waiting \<and> tw_granted (tl_waiters (ls_lim s) w)"
    using assms(2) by (cases e) auto
  then have w: "w \<in> owners s" by (auto simp: owners_def)
  then have c: "0 < card (owners s)" "int (card (owners s - {w})) = int (card (owners s)) - 1"
    using I(6) card_gt_0_iff [of "owners s"] by auto
  have o: "owners (give w s) = owners s - {w}" by (auto simp: owners_def become_def give_def)
  have "bal_inv 0 (give w s)"
    using I e o c unfolding bal_inv_def Let_def by (auto simp: become_def give_def)
  moreover have "lim_step e s = redispatch (give w s)"
    using e c I(7)
    by (intro limiter_sys.equality)
      (auto simp: release_def acquire_cancelled_def give_def redispatch_def become_def with_lim_def newly_granted_def)
  ultimately show ?thesis by blast
qed

lemma quit_step:
  assumes "lim_inv s" and w: "ls_task s w = Waiting" "\<not> tw_granted (tl_waiters (ls_lim s) w)"
  shows "bal_inv 0 (quit w s)" and "lim_step (LCancel w) s = redispatch (quit w s)"
proof -
  let ?l = "ls_lim s" and ?s1 = "quit w s"
  have B: "bal_inv 0 s" using assms(1) by (simp add: lim_inv_def)
  note I = bal_invD [OF B]
  have o: "owners ?s1 = owners s" using w by (auto simp: owners_def become_def quit_def)
  have sub: "subseq (ls_admitted s @ remove1 w (tl_queue ?l)) (ls_arrived s)"
    using I(8) subseq_remove1 [of w "tl_queue ?l"] by (meson subseq_append' subseq_order.trans)
  show bal: "bal_inv 0 ?s1" using I w o sub unfolding bal_inv_def Let_def by (auto simp: become_def quit_def)
  have "w \<notin> set (tl_queue (ls_lim ?s1))" using I(2) by (simp add: become_def quit_def)
  then have "\<not> tw_granted (tl_waiters (dispatchLocked (ls_lim ?s1)) w)"
    using granted_dispatch [OF bal, of w] w by (auto simp: become_def quit_def)
  then have "filter (\<lambda>v. tw_granted (tl_waiters (dispatchLocked (ls_lim ?s1)) v) \<and> \<not> tw_granted (tl_waiters ?l v)) (remove1 w (tl_queue ?l))
      = newly_granted ?l (dispatchLocked (ls_lim ?s1))"
    unfolding newly_granted_def by (intro filter_skip) blast
  moreover have "tl_queue (ls_lim ?s1) = remove1 w (tl_queue ?l)" by (simp add: become_def quit_def)
  moreover have "tw_granted (tl_waiters (ls_lim ?s1) v) = tw_granted (tl_waiters ?l v)" for v by (simp add: become_def quit_def)
  ultimately have "newly_granted ?l (dispatchLocked (ls_lim ?s1)) = newly_granted (ls_lim ?s1) (dispatchLocked (ls_lim ?s1))"
    unfolding newly_granted_def [of "ls_lim ?s1"] by presburger
  then show "lim_step (LCancel w) s = redispatch ?s1"
    using w I(4) [of w]
    by (intro limiter_sys.equality) (auto simp: acquire_cancelled_def redispatch_def become_def with_lim_def quit_def)
qed

lemma acquire_inv:
  assumes "lim_inv s"
  shows "lim_inv (lim_step (LAcquire w) s)"
proof (cases "ls_task s w = Idle")
  case True
  let ?l = "ls_lim s" and ?s' = "lim_step (LAcquire w) s"
  have B: "bal_inv 0 s" and full: "tl_queue ?l = [] \<or> tl_limit ?l \<le> tl_active ?l" using assms by (auto simp: lim_inv_def)
  note I = bal_invD [OF B] and new = bal_invD(5) [OF B True]
  have w: "w \<notin> owners s" "w \<notin> set (tl_queue ?l)" "\<not> tw_cancel (tl_waiters ?l w)"
    using True new I(3,4) by (auto simp: owners_def)
  have sub: "subseq (ls_admitted s @ tl_queue ?l @ [w]) (ls_arrived s @ [w])"
    using I(8) subseq_append [of "ls_admitted s @ tl_queue ?l" "[w]" "ls_arrived s"] by simp
  show ?thesis
  proof (cases "tl_active ?l < tl_limit ?l \<and> tl_queue ?l = []")
    case taken: True
    have s': "?s' = become w Owning (s\<lparr>ls_lim := ?l\<lparr>tl_active := tl_active ?l + 1\<rparr>, ls_arrived := ls_arrived s @ [w],
        ls_admitted := ls_admitted s @ [w]\<rparr>)"
      using True taken by (simp add: acquire_enter_def)
    have "owners ?s' = insert w (owners s)" unfolding s' using new by (auto simp: owners_def become_def)
    then show ?thesis
      using I taken w new sub unfolding lim_inv_def bal_inv_def Let_def s' by (auto simp: become_def)
  next
    case queued: False
    have s': "?s' = become w Waiting (s\<lparr>ls_lim := ?l\<lparr>tl_queue := tl_queue ?l @ [w]\<rparr>, ls_arrived := ls_arrived s @ [w]\<rparr>)"
      using True queued by (auto simp: acquire_enter_def)
    have "owners ?s' = owners s" unfolding s' using new w(1) True by (auto simp: owners_def become_def)
    then show ?thesis
      using I queued full w new sub unfolding lim_inv_def bal_inv_def Let_def s' by (auto simp: become_def)
  qed
qed (use assms in simp)

lemma limit_inv:
  assumes "lim_inv s"
  shows "lim_inv (lim_step (LSetLimit n) s)"
proof (cases "tl_limit (ls_lim s) = (if n < 1 then 1 else n)")
  case True
  have "newly_granted l l = []" for l by (simp add: newly_granted_def)
  then have "lim_step (LSetLimit n) s = s" using True by (simp add: setLimit_def Let_def with_lim_def)
  then show ?thesis using assms by simp
next
  case False
  let ?s1 = "s\<lparr>ls_lim := (ls_lim s)\<lparr>tl_limit := if n < 1 then 1 else n\<rparr>\<rparr>"
  have "bal_inv 0 s" using assms by (simp add: lim_inv_def)
  then have "bal_inv 0 ?s1" unfolding bal_inv_def Let_def by (auto simp: owners_def)
  moreover have "lim_step (LSetLimit n) s = redispatch ?s1"
    using False by (intro limiter_sys.equality) (simp_all add: setLimit_def Let_def with_lim_def redispatch_def newly_granted_def)
  ultimately show ?thesis using redispatch_inv by metis
qed

text \<open>Events that only move a task on.\<close>

lemma move_inv:
  assumes "lim_inv s" and "ls_task s w = Idle \<and> t = Gone \<or> ls_task s w = Waiting \<and> tw_granted (tl_waiters (ls_lim s) w) \<and> t = Owning"
  shows "lim_inv (become w t s)"
proof -
  have o: "owners (become w t s) = owners s"
    using assms by (auto simp: owners_def become_def lim_inv_def dest: bal_invD(5))
  have "bal_inv 0 s" using assms(1) by (simp add: lim_inv_def)
  from bal_invD [OF this] show ?thesis using assms o unfolding lim_inv_def bal_inv_def Let_def by (auto simp: become_def)
qed

lemma lim_step_inv:
  assumes "lim_inv s"
  shows "lim_inv (lim_step e s)"
proof (cases "gives_back e s")
  case True
  then show ?thesis using give_step [OF assms] redispatch_inv by metis
next
  case keep: False
  show ?thesis
  proof (cases e)
    case (LCancel w)
    show ?thesis
    proof (cases "ls_task s w")
      case Idle
      then show ?thesis using move_inv [OF assms, of w Gone] by (simp add: LCancel)
    next
      case Waiting
      then have "\<not> tw_granted (tl_waiters (ls_lim s) w)" using keep by (simp add: LCancel)
      from quit_step [OF assms Waiting this] show ?thesis using redispatch_inv by (metis LCancel)
    qed (simp_all add: LCancel assms)
  qed (use assms keep acquire_inv limit_inv move_inv in \<open>auto simp del: lim_step.simps(1,5)\<close>)
qed

lemma fresh_inv: "lim_inv (fresh_sys n)"
  by (auto simp: lim_inv_def bal_inv_def Let_def fresh_sys_def newTaskLimiter_def owners_def)

interpretation limiter: machine lim_step lim_inv
  by unfold_locales (rule lim_step_inv)

lemma reached_inv: "lim_inv (fold lim_step es (fresh_sys n))"
  by (rule limiter.inv_run [OF fresh_inv])

section \<open>Progress\<close>

definition position :: "nat \<Rightarrow> nat list \<Rightarrow> nat" where
  "position w q = length (takeWhile (\<lambda>v. v \<noteq> w) q)"

definition wait_rank :: "nat \<Rightarrow> limiter_sys \<Rightarrow> nat" where
  "wait_rank w s = position w (tl_queue (ls_lim s)) + 1 + nat (tl_active (ls_lim s) - tl_limit (ls_lim s))"

fun freed :: "limiter_event list \<Rightarrow> limiter_sys \<Rightarrow> nat" where
  "freed [] s = 0"
| "freed (e # es) s = (if gives_back e s then 1 else 0) + freed es (lim_step e s)"

lemma position_drop:
  "w \<in> set q \<Longrightarrow> w \<in> set (take k q) \<or> w \<in> set (drop k q) \<and> position w (drop k q) = position w q - k \<and> k \<le> position w q"
proof (induction k arbitrary: q)
  case (Suc k)
  show ?case
  proof (cases q)
    case (Cons x xs)
    then show ?thesis using Suc.IH [of xs] Suc.prems by (cases "x = w") (auto simp: position_def)
  qed (use Suc.prems in simp)
qed simp

lemma position_remove1: "\<lbrakk>v \<noteq> w; w \<in> set q\<rbrakk> \<Longrightarrow> position w (remove1 v q) \<le> position w q"
  by (induction q) (auto simp: position_def)

lemma position_snoc: "w \<in> set q \<Longrightarrow> position w (q @ [v]) = position w q"
  by (simp add: position_def takeWhile_append1 [where x = w])

text \<open>A dispatch either admits the waiter or brings it as many places forward as it fills slots.\<close>

lemma dispatch_rank:
  assumes "bal_inv b s" and "w \<in> set (tl_queue (ls_lim s))" and s': "s' = redispatch s"
  shows "w \<in> set (ls_admitted s') \<or> w \<in> set (tl_queue (ls_lim s')) \<and>
    int (wait_rank w s') \<le> int (position w (tl_queue (ls_lim s))) + 1 + max 0 (tl_active (ls_lim s) - tl_limit (ls_lim s)) \<and>
    (tl_active (ls_lim s) < tl_limit (ls_lim s) \<longrightarrow> wait_rank w s' \<le> position w (tl_queue (ls_lim s)))"
proof -
  let ?l = "ls_lim s" and ?q = "tl_queue (ls_lim s)" and ?k = "room (ls_lim s)"
  note I = bal_invD [OF assms(1)]
  have nc: "\<forall>w \<in> set ?q. \<not> tw_cancel (tl_waiters ?l w) \<and> \<not> tw_granted (tl_waiters ?l w)"
    using I(3,4) by (metis task.distinct(9))
  have eq: "dispatchLocked ?l = ?l\<lparr>tl_active := tl_active ?l + int ?k, tl_queue := drop ?k ?q, tl_waiters := granting (set (take ?k ?q)) (tl_waiters ?l)\<rparr>"
    by (rule dispatch_eq) (use I(2) nc in auto)
  have ng: "newly_granted ?l (dispatchLocked ?l) = take ?k ?q" by (rule newly_granted_dispatch [OF I(2) nc])
  have "0 < length ?q" using assms(2) by (cases ?q) auto
  then have k: "tl_active ?l < tl_limit ?l \<longrightarrow> 1 \<le> ?k" "int ?k \<le> max 0 (tl_limit ?l - tl_active ?l)"
    by (auto simp: room_def Suc_le_eq)
  show ?thesis
    using position_drop [OF assms(2), of ?k]
  proof
    assume "w \<in> set (take ?k ?q)"
    then show ?thesis by (simp add: s' redispatch_def with_lim_def ng)
  next
    assume "w \<in> set (drop ?k ?q) \<and> position w (drop ?k ?q) = position w ?q - ?k \<and> ?k \<le> position w ?q"
    then show ?thesis using k by (auto simp: s' redispatch_def with_lim_def eq wait_rank_def max_def)
  qed
qed

lemma step_rank:
  assumes inv: "lim_inv s" and w: "w \<in> set (tl_queue (ls_lim s))" and e: "e \<noteq> LCancel w" "\<And>n. e \<noteq> LSetLimit n"
  shows "w \<in> set (ls_admitted (lim_step e s)) \<or>
    w \<in> set (tl_queue (ls_lim (lim_step e s))) \<and> wait_rank w (lim_step e s) + (if gives_back e s then 1 else 0) \<le> wait_rank w s"
proof -
  let ?l = "ls_lim s"
  have B: "bal_inv 0 s" and full: "tl_limit ?l \<le> tl_active ?l" using inv w by (auto simp: lim_inv_def)
  have rank: "wait_rank w s = position w (tl_queue ?l) + 1 + nat (tl_active ?l - tl_limit ?l)" by (simp add: wait_rank_def)
  show ?thesis
  proof (cases "gives_back e s")
    case True
    then obtain v where v: "bal_inv 0 (give v s)" "lim_step e s = redispatch (give v s)" using give_step [OF inv] by blast
    have "tl_queue (ls_lim (give v s)) = tl_queue ?l" "tl_active (ls_lim (give v s)) = tl_active ?l - 1"
      "tl_limit (ls_lim (give v s)) = tl_limit ?l"
      by (simp_all add: give_def become_def)
    then show ?thesis using dispatch_rank [OF v(1) _ v(2), of w] w full True unfolding rank by auto
  next
    case keep: False
    show ?thesis
    proof (cases e)
      case (LAcquire v)
      have "\<not> (tl_active ?l < tl_limit ?l \<and> tl_queue ?l = [])" using full by simp
      then show ?thesis
        using w position_snoc [OF w] by (auto simp: LAcquire acquire_enter_def become_def wait_rank_def)
    next
      case (LCancel v)
      show ?thesis
      proof (cases "ls_task s v = Waiting")
        case True
        then have ng: "\<not> tw_granted (tl_waiters ?l v)" using keep by (simp add: LCancel)
        note q = quit_step [OF inv True ng]
        have vw: "v \<noteq> w" using e(1) LCancel by blast
        have "tl_queue (ls_lim (quit v s)) = remove1 v (tl_queue ?l)" "tl_active (ls_lim (quit v s)) = tl_active ?l"
          "tl_limit (ls_lim (quit v s)) = tl_limit ?l"
          by (simp_all add: quit_def become_def)
        then show ?thesis
          using dispatch_rank [OF q(1) _ q(2), of w] w full vw keep position_remove1 [OF vw w]
          unfolding rank by (auto simp: LCancel simp del: lim_step.simps)
      qed (use w LCancel in \<open>auto simp: become_def wait_rank_def split: task.split\<close>)
    qed (use w keep e(2) in \<open>auto simp: become_def wait_rank_def\<close>)
  qed
qed

lemma admitted_stays: "w \<in> set (ls_admitted s) \<Longrightarrow> w \<in> set (ls_admitted (lim_step e s))"
  by (cases e) (auto simp: with_lim_def become_def acquire_enter_def split: task.split)

lemma run_rank:
  assumes "lim_inv s" and "w \<in> set (tl_queue (ls_lim s))" and "LCancel w \<notin> set es" and "\<And>n. LSetLimit n \<notin> set es"
  shows "w \<in> set (ls_admitted (fold lim_step es s)) \<or>
    w \<in> set (tl_queue (ls_lim (fold lim_step es s))) \<and> wait_rank w (fold lim_step es s) + freed es s \<le> wait_rank w s"
  using assms
proof (induction es arbitrary: s)
  case (Cons e es)
  have e: "e \<noteq> LCancel w" "\<And>n. e \<noteq> LSetLimit n" using Cons.prems(3,4) by auto
  have inv: "lim_inv (lim_step e s)" by (rule lim_step_inv [OF Cons.prems(1)])
  have stay: "w \<in> set (ls_admitted s') \<Longrightarrow> w \<in> set (ls_admitted (fold lim_step es s'))" for s'
    by (induction es arbitrary: s') (auto intro: admitted_stays)
  from step_rank [OF Cons.prems(1,2) e] show ?case
  proof
    assume "w \<in> set (ls_admitted (lim_step e s))"
    then show ?thesis using stay by simp
  next
    assume "w \<in> set (tl_queue (ls_lim (lim_step e s))) \<and> wait_rank w (lim_step e s) + (if gives_back e s then 1 else 0) \<le> wait_rank w s"
    then show ?thesis using Cons.IH [OF inv] Cons.prems(3,4) by fastforce
  qed
qed simp

lemma dispatch_loop_active: "tl_limit (dispatch_loop q l) = tl_limit l" "tl_active (dispatch_loop q l) \<le> max (tl_active l) (tl_limit l)"
proof -
  have "tl_limit (dispatch_loop q l) = tl_limit l \<and> tl_active (dispatch_loop q l) \<le> max (tl_active l) (tl_limit l)"
    by (induction q l rule: dispatch_loop.induct) (auto simp: grant_def)
  then show "tl_limit (dispatch_loop q l) = tl_limit l" "tl_active (dispatch_loop q l) \<le> max (tl_active l) (tl_limit l)" by auto
qed

definition within_limit :: "int \<Rightarrow> limiter_sys \<Rightarrow> bool" where
  "within_limit M s \<longleftrightarrow> tl_limit (ls_lim s) \<le> M \<and> tl_active (ls_lim s) \<le> M"

lemma within_dispatch:
  "\<lbrakk>tl_limit l \<le> M; tl_active l \<le> M\<rbrakk> \<Longrightarrow> tl_limit (dispatchLocked l) \<le> M \<and> tl_active (dispatchLocked l) \<le> M"
  using dispatch_loop_active [of "tl_queue l" l] by (simp add: dispatchLocked_def)

lemma within_step:
  assumes "within_limit M s" and "1 \<le> M" and "\<And>n. e = LSetLimit n \<Longrightarrow> n \<le> M"
  shows "within_limit M (lim_step e s)"
proof (cases e)
  case (LAcquire w)
  then show ?thesis using assms(1) by (auto simp: within_limit_def become_def acquire_enter_def)
next
  case (LWake w)
  then show ?thesis using assms(1) by (simp add: within_limit_def become_def)
next
  case (LCancel w)
  then show ?thesis
    using assms(1) within_dispatch
    by (auto simp: within_limit_def become_def with_lim_def acquire_cancelled_def split: task.split)
next
  case (LRelease w)
  then show ?thesis using assms(1) within_dispatch by (auto simp: within_limit_def become_def with_lim_def release_def)
next
  case (LSetLimit n)
  then show ?thesis
    using assms within_dispatch by (auto simp: within_limit_def with_lim_def setLimit_def Let_def)
qed

section \<open>Properties\<close>

text \<open>C11: whatever the interleaving of arrivals, wake-ups, cancellations, releases and changes of the
limit, the limiter counts exactly the tasks that own a slot or have been granted one, its queue holds
exactly the tasks that still wait, and no slot stays free while a task waits.\<close>

theorem limiter_loses_no_slot:
  "let s = fold lim_step es (fresh_sys n); l = ls_lim s in
     finite (owners s) \<and> tl_active l = int (card (owners s)) \<and>
     set (tl_queue l) = {w. ls_task s w = Waiting \<and> \<not> tw_granted (tl_waiters l w)} \<and>
     (tl_queue l = [] \<or> tl_limit l \<le> tl_active l)"
  using reached_inv [of es n] by (auto simp: lim_inv_def bal_inv_def Let_def)

text \<open>Admission is first in, first out: the tasks that have been admitted, in the order of their
admission, followed by those that wait, in the order of the queue, are the tasks in the order of their
arrival, less those that gave up.\<close>

theorem limiter_fifo:
  "let s = fold lim_step es (fresh_sys n) in subseq (ls_admitted s @ tl_queue (ls_lim s)) (ls_arrived s)"
  using reached_inv [of es n] by (auto simp: lim_inv_def bal_inv_def Let_def)

text \<open>The number of tasks that run at once never exceeds the largest limit that was ever set.\<close>

theorem limiter_bounds:
  assumes "n \<le> M" and "1 \<le> M" and "\<forall>m. LSetLimit m \<in> set es \<longrightarrow> m \<le> M"
  shows "int (card (owners (fold lim_step es (fresh_sys n)))) \<le> M"
proof -
  have "within_limit M (fresh_sys n)" using assms(1,2) by (simp add: within_limit_def fresh_sys_def newTaskLimiter_def)
  then have "within_limit M (fold lim_step es (fresh_sys n))"
    by (rule fold_invariant [where P = "within_limit M", rotated]) (use assms(2,3) in \<open>auto intro: within_step\<close>)
  then show ?thesis
    using reached_inv [of es n] by (simp add: within_limit_def lim_inv_def bal_inv_def Let_def)
qed

theorem limiter_bounds_witness:
  "int (card (owners (fold lim_step [LAcquire 1, LAcquire 2, LSetLimit 2, LAcquire 3] (fresh_sys 1)))) \<le> 2"
  by (rule limiter_bounds) auto

text \<open>No task waits for ever: a task that waits at place \<open>k\<close> of the queue, while the tasks that run
are \<open>d\<close> more than the limit allows, is admitted as soon as \<open>k + 1 + d\<close> slots have been given back,
whatever else arrives, leaves or wakes up meanwhile.\<close>

theorem limiter_admits:
  assumes "s = fold lim_step es0 (fresh_sys n)" and "w \<in> set (tl_queue (ls_lim s))"
    and "LCancel w \<notin> set es" and "\<forall>m. LSetLimit m \<notin> set es" and "wait_rank w s \<le> freed es s"
  shows "w \<in> set (ls_admitted (fold lim_step es s))"
proof -
  have "1 \<le> wait_rank w (fold lim_step es s)" by (simp add: wait_rank_def)
  then show ?thesis using run_rank [OF reached_inv [of es0 n, folded assms(1)] assms(2,3)] assms(4,5) by auto
qed

theorem limiter_admits_witness:
  "3 \<in> set (ls_admitted (fold lim_step [LRelease 1, LWake 2, LAcquire 4, LRelease 2]
     (fold lim_step [LAcquire 1, LAcquire 2, LAcquire 3] (fresh_sys 1))))"
proof (rule limiter_admits [OF refl])
  show "\<forall>m. LSetLimit m \<notin> set [LRelease 1, LWake 2, LAcquire 4, LRelease 2]" by simp
qed code_simp+

end
