(* ===== verification/Quota.thy ===== *)
theory Quota
  imports Store "HOL-Library.Word"
begin

text \<open>
  The daily byte budget of a Telegram account, \<open>internal/drive/quota.go\<close>, over its ledger,
  \<open>internal/database/telegram_usage.go\<close>.  Sums are \<open>int64\<close>.  A reservation is named by its place in
  the order of \<open>reserve\<close> calls; \<open>commit\<close> counts in memory under the mutex and writes the ledger after
  it, so these are two events.  The UTC day is part of the state; whether the ledger can be read or
  written is an argument of the events.
\<close>

section \<open>The ledger\<close>

type_synonym ledger = "(string \<times> string) \<Rightarrow> (int \<times> int) option"

definition TelegramUsageFor :: "string \<Rightarrow> string \<Rightarrow> ledger \<Rightarrow> int \<times> int" where
  "TelegramUsageFor acc date l = (case l (acc, date) of None \<Rightarrow> (0, 0) | Some u \<Rightarrow> u)"

definition AddTelegramUsage :: "string \<Rightarrow> string \<Rightarrow> int \<Rightarrow> int \<Rightarrow> ledger \<Rightarrow> (db_error + unit) \<times> ledger" where
  "AddTelegramUsage acc date up down l =
     (if up < 0 \<or> down < 0 then (Inl ErrArgument, l)
      else if up = 0 \<and> down = 0 then (Inr (), l)
      else case l (acc, date) of
          None \<Rightarrow> (Inr (), l((acc, date) \<mapsto> (up, down)))
        | Some (u, w) \<Rightarrow> (Inr (), l((acc, date) \<mapsto> (u + up, w + down))))"

section \<open>The tracker\<close>

datatype quotaDirection = quotaUpload | quotaDownload

record quotaKey =
  qk_accountID :: string
  qk_date :: string
  qk_direction :: quotaDirection

record quotaTracker =
  qt_used :: "quotaKey \<Rightarrow> int"
  qt_reserved :: "quotaKey \<Rightarrow> int"
  qt_loaded :: "string \<times> string \<Rightarrow> bool"
  qt_generation :: "64 word"

definition newQuotaTracker :: quotaTracker where
  "newQuotaTracker = \<lparr>qt_used = (\<lambda>_. 0), qt_reserved = (\<lambda>_. 0), qt_loaded = (\<lambda>_. False), qt_generation = 0\<rparr>"

definition mk_key :: "string \<Rightarrow> string \<Rightarrow> quotaDirection \<Rightarrow> quotaKey" where
  "mk_key acc date dir = \<lparr>qk_accountID = acc, qk_date = date, qk_direction = dir\<rparr>"

text \<open>\<open>ok\<close>: the ledger could be read.\<close>

definition ensureLoadedLocked :: "ledger \<Rightarrow> bool \<Rightarrow> string \<Rightarrow> string \<Rightarrow> quotaTracker \<Rightarrow> quotaTracker" where
  "ensureLoadedLocked l ok acc date t =
     (if qt_loaded t (acc, date) \<or> \<not> ok then t
      else case TelegramUsageFor acc date l of
          (up, down) \<Rightarrow> t\<lparr>qt_loaded := (qt_loaded t)((acc, date) := True),
            qt_used := (qt_used t)(mk_key acc date quotaUpload := up, mk_key acc date quotaDownload := down)\<rparr>)"

definition valuesLocked ::
  "ledger \<Rightarrow> bool \<Rightarrow> string \<Rightarrow> string \<Rightarrow> quotaDirection \<Rightarrow> quotaTracker \<Rightarrow> (int \<times> int) \<times> quotaTracker" where
  "valuesLocked l ok date acc dir t =
     (let t' = ensureLoadedLocked l ok acc date t; k = mk_key acc date dir in ((qt_used t' k, qt_reserved t' k), t'))"

definition exhausted :: "int \<Rightarrow> int \<Rightarrow> int \<Rightarrow> bool" where
  "exhausted limit used reserved \<longleftrightarrow> used \<ge> limit \<or> reserved \<ge> wrap64 (limit - used)"

definition left_over :: "int \<Rightarrow> int \<Rightarrow> int \<Rightarrow> int" where
  "left_over limit used reserved = wrap64 (wrap64 (limit - used) - reserved)"

definition mayStart ::
  "ledger \<Rightarrow> bool \<Rightarrow> string \<Rightarrow> string \<Rightarrow> quotaDirection \<Rightarrow> int \<Rightarrow> int \<Rightarrow> quotaTracker \<Rightarrow> bool \<times> quotaTracker" where
  "mayStart l ok date acc dir limit nbytes t =
     (if nbytes \<le> 0 \<or> limit \<le> 0 then (True, t)
      else case valuesLocked l ok date acc dir t of
          ((used, reserved), t') \<Rightarrow>
            (if exhausted limit used reserved then False
             else if nbytes \<le> left_over limit used reserved then True
             else reserved = 0, t'))"

definition fits ::
  "ledger \<Rightarrow> bool \<Rightarrow> string \<Rightarrow> string \<Rightarrow> quotaDirection \<Rightarrow> int \<Rightarrow> int \<Rightarrow> quotaTracker \<Rightarrow> bool \<times> quotaTracker" where
  "fits l ok date acc dir limit nbytes t =
     (if nbytes \<le> 0 \<or> limit \<le> 0 then (True, t)
      else case valuesLocked l ok date acc dir t of
          ((used, reserved), t') \<Rightarrow>
            (if exhausted limit used reserved then False else nbytes \<le> left_over limit used reserved, t'))"

record quotaReservation =
  qr_key :: quotaKey
  qr_expected :: int
  qr_actual :: int
  qr_actualSet :: bool
  qr_committed :: bool

definition reserve ::
  "ledger \<Rightarrow> bool \<Rightarrow> string \<Rightarrow> string \<Rightarrow> quotaDirection \<Rightarrow> int \<Rightarrow> int \<Rightarrow> quotaTracker \<Rightarrow> quotaReservation option \<times> quotaTracker" where
  "reserve l ok date acc dir limit size0 t =
     (let size = (if size0 < 0 then 0 else size0);
          t' = ensureLoadedLocked l ok acc date t;
          k = mk_key acc date dir;
          used = qt_used t' k; reserved = qt_reserved t' k
      in if limit > 0 \<and> size > 0 \<and>
            (exhausted limit used reserved \<or> size > left_over limit used reserved \<and> reserved \<noteq> 0)
         then (None, t')
         else (Some \<lparr>qr_key = k, qr_expected = size, qr_actual = 0, qr_actualSet = False, qr_committed = False\<rparr>,
               t'\<lparr>qt_reserved := (qt_reserved t')(k := wrap64 (reserved + size))\<rparr>))"

definition signalLocked :: "quotaTracker \<Rightarrow> quotaTracker" where
  "signalLocked t = t\<lparr>qt_generation := qt_generation t + 1\<rparr>"

definition setActual :: "int \<Rightarrow> quotaReservation \<Rightarrow> quotaReservation" where
  "setActual bytes r =
     (if qr_committed r then r else r\<lparr>qr_actual := (if bytes < 0 then 0 else bytes), qr_actualSet := True\<rparr>)"

definition charge :: "quotaReservation \<Rightarrow> int" where
  "charge r = (if qr_actualSet r then qr_actual r else qr_expected r)"

text \<open>The part of \<open>commit\<close> under the tracker's mutex, and the write to the ledger after it.\<close>

definition commit :: "quotaReservation \<Rightarrow> quotaTracker \<Rightarrow> quotaReservation \<times> quotaTracker" where
  "commit r t =
     (if qr_committed r then (r, t)
      else
        let k = qr_key r;
            t1 = t\<lparr>qt_reserved := (qt_reserved t)(k :=
                     if qt_reserved t k \<ge> qr_expected r then wrap64 (qt_reserved t k - qr_expected r) else 0)\<rparr>;
            t2 = (if charge r > 0 then t1\<lparr>qt_used := (qt_used t1)(k := wrap64 (qt_used t1 k + charge r))\<rparr> else t1)
        in (r\<lparr>qr_committed := True\<rparr>, signalLocked t2))"

definition save_usage :: "quotaReservation \<Rightarrow> ledger \<Rightarrow> ledger" where
  "save_usage r l =
     (if charge r = 0 then l
      else snd (AddTelegramUsage (qk_accountID (qr_key r)) (qk_date (qr_key r))
        (if qk_direction (qr_key r) = quotaUpload then charge r else 0)
        (if qk_direction (qr_key r) = quotaUpload then 0 else charge r) l))"

record QuotaDirectionStatus =
  qd_Limit :: int
  qd_Used :: int
  qd_Reserved :: int
  qd_Remaining :: int

definition quotaDirectionStatus :: "int \<Rightarrow> int \<Rightarrow> int \<Rightarrow> QuotaDirectionStatus" where
  "quotaDirectionStatus limit used reserved =
     \<lparr>qd_Limit = limit, qd_Used = used, qd_Reserved = reserved,
      qd_Remaining = (if limit > 0 then (if left_over limit used reserved < 0 then 0 else left_over limit used reserved) else - 1)\<rparr>"

definition quota_status ::
  "ledger \<Rightarrow> bool \<Rightarrow> string \<Rightarrow> string \<Rightarrow> int \<Rightarrow> int \<Rightarrow> quotaTracker \<Rightarrow> (QuotaDirectionStatus \<times> QuotaDirectionStatus) \<times> quotaTracker" where
  "quota_status l ok date acc upLimit downLimit t =
     (case valuesLocked l ok date acc quotaUpload t of
        ((upUsed, upReserved), t1) \<Rightarrow>
          case valuesLocked l ok date acc quotaDownload t1 of
            ((downUsed, downReserved), t2) \<Rightarrow>
              ((quotaDirectionStatus upLimit upUsed upReserved, quotaDirectionStatus downLimit downUsed downReserved), t2))"

section \<open>Histories\<close>

text \<open>Whether the charge of a reservation has reached the ledger.\<close>

datatype writing = Unwritten | Written | Lost

record quota_sys =
  qs_tracker :: quotaTracker
  qs_ledger :: ledger
  qs_today :: string
  qs_res :: "(quotaReservation \<times> writing) list"

datatype quota_event =
    QReserve string quotaDirection int int bool
  | QSetActual nat int
  | QCommit nat
  | QWrite nat bool
  | QLook string bool
  | QNotify
  | QMidnight string

fun quota_step :: "quota_event \<Rightarrow> quota_sys \<Rightarrow> quota_sys" where
  "quota_step (QReserve acc dir limit nbytes ok) s =
     (case reserve (qs_ledger s) ok (qs_today s) acc dir limit nbytes (qs_tracker s) of
        (None, t) \<Rightarrow> s\<lparr>qs_tracker := t\<rparr>
      | (Some r, t) \<Rightarrow> s\<lparr>qs_tracker := t, qs_res := qs_res s @ [(r, Unwritten)]\<rparr>)"
| "quota_step (QSetActual i bytes) s =
     (if i < length (qs_res s)
      then s\<lparr>qs_res := (qs_res s)[i := (setActual bytes (fst (qs_res s ! i)), snd (qs_res s ! i))]\<rparr> else s)"
| "quota_step (QCommit i) s =
     (if i < length (qs_res s) then
        (case commit (fst (qs_res s ! i)) (qs_tracker s) of
           (r, t) \<Rightarrow> s\<lparr>qs_tracker := t, qs_res := (qs_res s)[i := (r, snd (qs_res s ! i))]\<rparr>)
      else s)"
| "quota_step (QWrite i ok) s =
     (if i < length (qs_res s) \<and> qr_committed (fst (qs_res s ! i)) \<and> snd (qs_res s ! i) = Unwritten
      then s\<lparr>qs_ledger := (if ok then save_usage (fst (qs_res s ! i)) (qs_ledger s) else qs_ledger s),
             qs_res := (qs_res s)[i := (fst (qs_res s ! i), if ok then Written else Lost)]\<rparr>
      else s)"
| "quota_step (QLook acc ok) s =
     s\<lparr>qs_tracker := ensureLoadedLocked (qs_ledger s) ok acc (qs_today s) (qs_tracker s)\<rparr>"
| "quota_step QNotify s = s\<lparr>qs_tracker := signalLocked (qs_tracker s)\<rparr>"
| "quota_step (QMidnight date) s = s\<lparr>qs_today := date\<rparr>"

definition started :: "ledger \<Rightarrow> string \<Rightarrow> quota_sys" where
  "started l date = \<lparr>qs_tracker = newQuotaTracker, qs_ledger = l, qs_today = date, qs_res = []\<rparr>"

section \<open>What memory and ledger hold\<close>

definition total :: "(quotaReservation \<Rightarrow> writing \<Rightarrow> int) \<Rightarrow> quotaKey \<Rightarrow> (quotaReservation \<times> writing) list \<Rightarrow> int" where
  "total g k res = sum_list (map (\<lambda>(r, w). if qr_key r = k then g r w else 0) res)"

definition open_part :: "quotaReservation \<Rightarrow> writing \<Rightarrow> int" where
  "open_part r w = (if qr_committed r then 0 else qr_expected r)"

definition unwritten_part :: "quotaReservation \<Rightarrow> writing \<Rightarrow> int" where
  "unwritten_part r w = (if qr_committed r \<and> w \<noteq> Written then charge r else 0)"

definition weight :: "quotaReservation \<Rightarrow> writing \<Rightarrow> int" where
  "weight r w = (if w = Written then 0 else qr_expected r + qr_actual r)"

definition written :: "ledger \<Rightarrow> quotaKey \<Rightarrow> int" where
  "written l k = (if qk_direction k = quotaUpload then fst else snd) (TelegramUsageFor (qk_accountID k) (qk_date k) l)"

definition wf_res :: "quotaTracker \<Rightarrow> quotaReservation \<times> writing \<Rightarrow> bool" where
  "wf_res t p = (case p of (r, w) \<Rightarrow> 0 \<le> qr_expected r \<and> 0 \<le> qr_actual r \<and> (w \<noteq> Unwritten \<longrightarrow> qr_committed r) \<and>
     qt_loaded t (qk_accountID (qr_key r), qk_date (qr_key r)))"

text \<open>\<open>B\<close> bounds what an account has moved and may still move in a day.\<close>

definition qinv :: "int \<Rightarrow> quota_sys \<Rightarrow> bool" where
  "qinv B s \<longleftrightarrow> B < 2 ^ 63 \<and>
     (\<forall>p \<in> set (qs_res s). wf_res (qs_tracker s) p) \<and>
     (\<forall>k. qt_reserved (qs_tracker s) k = total open_part k (qs_res s)) \<and>
     (\<forall>k. qt_loaded (qs_tracker s) (qk_accountID k, qk_date k) \<longrightarrow>
        qt_used (qs_tracker s) k = written (qs_ledger s) k + total unwritten_part k (qs_res s)) \<and>
     (\<forall>k. 0 \<le> written (qs_ledger s) k \<and> written (qs_ledger s) k + total weight k (qs_res s) \<le> B)"

fun volume :: "quota_event \<Rightarrow> int" where
  "volume (QReserve _ _ _ n _) = max 0 n"
| "volume (QSetActual _ n) = max 0 n"
| "volume _ = 0"

fun reads_ok :: "quota_event \<Rightarrow> bool" where
  "reads_ok (QReserve _ _ _ _ ok) = ok"
| "reads_ok (QLook _ ok) = ok"
| "reads_ok _ = True"

lemma total_simps [simp]:
  "total g k [] = 0" "total g k (p # res) = (if qr_key (fst p) = k then g (fst p) (snd p) else 0) + total g k res"
  "total g k (res @ res') = total g k res + total g k res'"
  by (simp_all add: total_def split: prod.split)

lemma total_update:
  assumes "i < length res" and "qr_key r' = qr_key (fst (res ! i))"
  shows "total g k (res[i := (r', w')]) =
    total g k res + (if qr_key r' = k then g r' w' - g (fst (res ! i)) (snd (res ! i)) else 0)"
  using assms
proof (induction res arbitrary: i)
  case (Cons p res)
  then show ?case by (cases i) auto
qed simp

lemma total_mono: "(\<And>r w. \<lbrakk>(r, w) \<in> set res; qr_key r = k\<rbrakk> \<Longrightarrow> f r w \<le> g r w) \<Longrightarrow> total f k res \<le> total g k res"
  by (induction res) (auto split: prod.splits intro!: add_mono)

lemma total_nonneg: "(\<And>r w. \<lbrakk>(r, w) \<in> set res; qr_key r = k\<rbrakk> \<Longrightarrow> 0 \<le> g r w) \<Longrightarrow> 0 \<le> total g k res"
  using total_mono [of res k "\<lambda>_ _. 0" g] by (simp add: total_def cong: map_cong split: prod.splits)

lemma total_absent: "\<forall>p \<in> set res. qr_key (fst p) \<noteq> k \<Longrightarrow> total g k res = 0"
  by (induction res) auto

lemma total_add: "total f k res + total g k res = total (\<lambda>r w. f r w + g r w) k res"
  by (induction res) auto

lemma charge_bounds: "\<lbrakk>0 \<le> qr_expected r; 0 \<le> qr_actual r\<rbrakk> \<Longrightarrow> 0 \<le> charge r \<and> charge r \<le> qr_expected r + qr_actual r"
  by (simp add: charge_def)

lemma qinvD:
  assumes "qinv B s"
  shows "B < 2 ^ 63" and "(r, w) \<in> set (qs_res s) \<Longrightarrow> wf_res (qs_tracker s) (r, w)"
    and "qt_reserved (qs_tracker s) k = total open_part k (qs_res s)"
    and "qt_loaded (qs_tracker s) (qk_accountID k, qk_date k) \<Longrightarrow>
      qt_used (qs_tracker s) k = written (qs_ledger s) k + total unwritten_part k (qs_res s)"
    and "0 \<le> written (qs_ledger s) k" and "written (qs_ledger s) k + total weight k (qs_res s) \<le> B"
  using assms by (auto simp: qinv_def)

lemma parts_bounds:
  assumes "\<forall>p \<in> set res. wf_res t p"
  shows "0 \<le> total open_part k res" and "0 \<le> total unwritten_part k res"
    and "total unwritten_part k res + total open_part k res \<le> total weight k res"
proof -
  have wf: "0 \<le> qr_expected r \<and> 0 \<le> qr_actual r \<and> (w \<noteq> Unwritten \<longrightarrow> qr_committed r)" if "(r, w) \<in> set res" for r w
    using bspec [OF assms that] by (simp add: wf_res_def)
  show "0 \<le> total open_part k res" by (rule total_nonneg) (use wf in \<open>auto simp: open_part_def\<close>)
  show "0 \<le> total unwritten_part k res"
    by (rule total_nonneg) (use wf charge_bounds in \<open>auto simp: unwritten_part_def\<close>)
  show "total unwritten_part k res + total open_part k res \<le> total weight k res"
    unfolding total_add
    by (rule total_mono) (use wf charge_bounds in \<open>auto simp: unwritten_part_def open_part_def weight_def\<close>)
qed

lemma load_inv:
  assumes "qinv B s"
  shows "qinv B (s\<lparr>qs_tracker := ensureLoadedLocked (qs_ledger s) ok acc date (qs_tracker s)\<rparr>)"
proof (cases "qt_loaded (qs_tracker s) (acc, date) \<or> \<not> ok")
  case True
  then have "ensureLoadedLocked (qs_ledger s) ok acc date (qs_tracker s) = qs_tracker s" by (simp add: ensureLoadedLocked_def)
  then show ?thesis using assms by simp
next
  case False
  let ?t = "ensureLoadedLocked (qs_ledger s) ok acc date (qs_tracker s)"
  have loaded: "qt_loaded ?t d \<longleftrightarrow> d = (acc, date) \<or> qt_loaded (qs_tracker s) d" for d
    using False by (auto simp: ensureLoadedLocked_def split: prod.split)
  have used: "qt_used ?t k = (if qk_accountID k = acc \<and> qk_date k = date then written (qs_ledger s) k else qt_used (qs_tracker s) k)" for k
    using False by (cases k; cases "qk_direction k") (auto simp: ensureLoadedLocked_def written_def mk_key_def split: prod.split)
  have res: "qt_reserved ?t = qt_reserved (qs_tracker s)"
    using False by (simp add: ensureLoadedLocked_def split: prod.split)
  have absent: "total g k (qs_res s) = 0" if "qk_accountID k = acc" "qk_date k = date" for g k
    by (rule total_absent) (use qinvD(2) [OF assms] False that in \<open>fastforce simp: wf_res_def\<close>)
  have wf: "wf_res ?t p" if "p \<in> set (qs_res s)" for p
    using qinvD(2) [OF assms, of "fst p" "snd p"] that loaded by (auto simp: wf_res_def split: prod.splits)
  show ?thesis
    using assms wf unfolding qinv_def by (auto simp: loaded used res absent)
qed

lemma qinv_wf: "qinv B s \<Longrightarrow> \<forall>p \<in> set (qs_res s). wf_res (qs_tracker s) p"
  by (simp add: qinv_def)

lemma qinv_grow: "\<lbrakk>qinv B s; B \<le> B'; B' < 2 ^ 63\<rbrakk> \<Longrightarrow> qinv B' s"
  unfolding qinv_def by (meson order_trans)

lemma reserve_inv:
  assumes "qinv B s" and "B + max 0 n < 2 ^ 63"
  shows "qinv (B + max 0 n) (quota_step (QReserve acc dir limit n True) s)"
proof -
  let ?t = "ensureLoadedLocked (qs_ledger s) True acc (qs_today s) (qs_tracker s)" and ?k = "mk_key acc (qs_today s) dir"
  let ?r = "\<lparr>qr_key = ?k, qr_expected = max 0 n, qr_actual = 0, qr_actualSet = False, qr_committed = False\<rparr>"
  let ?s1 = "s\<lparr>qs_tracker := ?t\<rparr>"
  let ?s2 = "s\<lparr>qs_tracker := ?t\<lparr>qt_reserved := (qt_reserved ?t)(?k := qt_reserved ?t ?k + max 0 n)\<rparr>, qs_res := qs_res s @ [(?r, Unwritten)]\<rparr>"
  have inv: "qinv B ?s1" by (rule load_inv [OF assms(1)])
  note I = qinvD [OF inv, simplified] and P = parts_bounds [OF qinv_wf [OF inv], simplified]
  have loaded: "qt_loaded ?t (acc, qs_today s)" by (simp add: ensureLoadedLocked_def split: prod.split)
  have sz: "(if n < 0 then 0 else n) = max 0 n" by simp
  have "in64 (qt_reserved ?t ?k + max 0 n)"
    using P [of ?k] I(3,5,6) [of ?k] assms(2) by (simp add: in64_def)
  then have step: "quota_step (QReserve acc dir limit n True) s \<in> {?s1, ?s2}"
    by (auto simp: reserve_def Let_def sz)
  have wf: "\<forall>p \<in> set (qs_res ?s2). wf_res (qs_tracker ?s2) p"
    using qinv_wf [OF inv] loaded by (auto simp: wf_res_def mk_key_def split: prod.splits)
  have "qinv (B + max 0 n) ?s2"
    unfolding qinv_def using assms(2) wf I(3-6)
    by (auto simp: open_part_def unwritten_part_def weight_def add_increasing2)
  moreover have "qinv (B + max 0 n) ?s1" by (rule qinv_grow [OF inv]) (use assms(2) in auto)
  ultimately show ?thesis using step by auto
qed

lemma nth_res: "i < length res \<Longrightarrow> \<exists>r w. res ! i = (r, w) \<and> (r, w) \<in> set res"
  by (metis nth_mem surj_pair)

lemma setActual_inv:
  assumes "qinv B s" and "B + max 0 n < 2 ^ 63"
  shows "qinv (B + max 0 n) (quota_step (QSetActual i n) s)"
proof (cases "i < length (qs_res s)")
  case True
  note I = qinvD [OF assms(1)]
  obtain r w where r: "qs_res s ! i = (r, w)" "(r, w) \<in> set (qs_res s)" using nth_res [OF True] by blast
  note wf = I(2) [OF r(2)]
  let ?r = "setActual n r"
  have key: "qr_key ?r = qr_key r" "qr_expected ?r = qr_expected r" "qr_committed ?r = qr_committed r" by (simp_all add: setActual_def)
  have act: "0 \<le> qr_actual ?r" "qr_actual ?r \<le> qr_actual r + max 0 n" "qr_committed r \<Longrightarrow> ?r = r"
    using wf by (auto simp: setActual_def wf_res_def)
  let ?res = "(qs_res s)[i := (?r, w)]"
  have t: "total g k ?res = total g k (qs_res s) + (if qr_key r = k then g ?r w - g r w else 0)" for g k
    using total_update [OF True, of ?r g k w] by (simp add: r key)
  have "open_part ?r w = open_part r w" "unwritten_part ?r w = unwritten_part r w" "weight ?r w \<le> weight r w + max 0 n"
    using key act by (auto simp: open_part_def unwritten_part_def weight_def)
  then have "total open_part k ?res = total open_part k (qs_res s)" "total unwritten_part k ?res = total unwritten_part k (qs_res s)"
    "total weight k ?res \<le> total weight k (qs_res s) + max 0 n" for k
    unfolding t by auto
  moreover have "\<forall>p \<in> set ?res. wf_res (qs_tracker s) p"
    using qinv_wf [OF assms(1)] wf act(1) key by (auto dest!: set_update_subset_insert [THEN subsetD] simp: wf_res_def)
  moreover have "written (qs_ledger s) k + total weight k ?res \<le> B + max 0 n" for k
    using I(6) [of k] calculation(3) [of k] by linarith
  ultimately show ?thesis using I(3-5) assms(2) r(1) True unfolding qinv_def by auto
qed (use qinv_grow [OF assms(1)] assms(2) in simp)

lemma in64_between: "\<lbrakk>0 \<le> x; x \<le> B; B < 2 ^ 63\<rbrakk> \<Longrightarrow> in64 x"
  by (simp add: in64_def)

lemma commit_inv:
  assumes "qinv B s"
  shows "qinv B (quota_step (QCommit i) s)"
proof (cases "i < length (qs_res s) \<and> \<not> qr_committed (fst (qs_res s ! i))")
  case True
  then have i: "i < length (qs_res s)" by simp
  note I = qinvD [OF assms]
  obtain r w where r: "qs_res s ! i = (r, w)" "(r, w) \<in> set (qs_res s)" using nth_res [OF i] by blast
  have nc: "\<not> qr_committed r" using True r(1) by simp
  note wf = I(2) [OF r(2)]
  then have w: "w = Unwritten" using nc by (auto simp: wf_res_def)
  have ch: "0 \<le> charge r" using wf charge_bounds by (simp add: wf_res_def)
  let ?k = "qr_key r" and ?r = "r\<lparr>qr_committed := True\<rparr>" and ?t = "qs_tracker s"
  let ?res = "(qs_res s)[i := (?r, w)]"
  have t: "total g k ?res = total g k (qs_res s) + (if ?k = k then g ?r w - g r w else 0)" for g k
    using total_update [OF i, of ?r g k w] by (simp add: r)
  have o: "total open_part k ?res = total open_part k (qs_res s) - (if ?k = k then qr_expected r else 0)"
    and u: "total unwritten_part k ?res = total unwritten_part k (qs_res s) + (if ?k = k then charge r else 0)"
    and wt: "total weight k ?res = total weight k (qs_res s)" for k
    unfolding t using nc w by (simp_all add: open_part_def unwritten_part_def weight_def charge_def)
  have wfs: "\<forall>p \<in> set ?res. wf_res ?t p"
    using qinv_wf [OF assms] wf by (auto dest!: set_update_subset_insert [THEN subsetD] simp: wf_res_def)
  note P = parts_bounds [OF wfs, of ?k] and P0 = parts_bounds [OF qinv_wf [OF assms], of ?k]
  have loaded: "qt_loaded ?t (qk_accountID ?k, qk_date ?k)" using wf by (simp add: wf_res_def)
  note used = I(4) [OF loaded]
  have enough: "qr_expected r \<le> qt_reserved ?t ?k" using P(1) o [of ?k] I(3) [of ?k] by simp
  have "in64 (qt_reserved ?t ?k - qr_expected r)"
    by (rule in64_between [OF _ _ I(1)]) (use enough P P0 I(3,5,6) [of ?k] o [of ?k] wt [of ?k] in auto)
  moreover have "in64 (qt_used ?t ?k + charge r)"
    by (rule in64_between [OF _ _ I(1)]) (use ch P P0 used I(5,6) [of ?k] u [of ?k] wt [of ?k] in auto)
  ultimately have step: "quota_step (QCommit i) s = s\<lparr>qs_tracker := signalLocked (?t
      \<lparr>qt_reserved := (qt_reserved ?t)(?k := qt_reserved ?t ?k - qr_expected r),
       qt_used := (qt_used ?t)(?k := qt_used ?t ?k + charge r)\<rparr>), qs_res := ?res\<rparr>"
    using nc i enough ch by (auto simp: r commit_def Let_def charge_def)
  show ?thesis
    unfolding step qinv_def using wfs I(1,3-6) by (auto simp: o u wt signalLocked_def wf_res_def)
next
  case False
  then have "quota_step (QCommit i) s = s" by (auto simp: commit_def)
  then show ?thesis using assms by simp
qed

lemma written_save:
  assumes "0 \<le> charge r"
  shows "written (save_usage r l) k = written l k + (if qr_key r = k then charge r else 0)"
  using assms
  by (cases k; cases "qr_key r"; cases "qk_direction k"; cases "qk_direction (qr_key r)")
    (auto simp: written_def save_usage_def AddTelegramUsage_def TelegramUsageFor_def split: option.splits)

lemma write_inv:
  assumes "qinv B s"
  shows "qinv B (quota_step (QWrite i ok) s)"
proof (cases "i < length (qs_res s) \<and> qr_committed (fst (qs_res s ! i)) \<and> snd (qs_res s ! i) = Unwritten")
  case True
  then have i: "i < length (qs_res s)" by simp
  note I = qinvD [OF assms]
  obtain r where r: "qs_res s ! i = (r, Unwritten)" "(r, Unwritten) \<in> set (qs_res s)" using nth_res [OF i] True by auto
  have c: "qr_committed r" using True r(1) by simp
  note wf = I(2) [OF r(2)]
  have ch: "0 \<le> charge r" "charge r \<le> qr_expected r + qr_actual r" using wf charge_bounds by (simp_all add: wf_res_def)
  let ?w = "if ok then Written else Lost" and ?l = "if ok then save_usage r (qs_ledger s) else qs_ledger s"
  let ?res = "(qs_res s)[i := (r, ?w)]"
  have t: "total g k ?res = total g k (qs_res s) + (if qr_key r = k then g r ?w - g r Unwritten else 0)" for g k
    using total_update [OF i, of r g k ?w] by (simp add: r)
  have l: "written ?l k = written (qs_ledger s) k + (if ok \<and> qr_key r = k then charge r else 0)" for k
    using written_save [OF ch(1)] by simp
  have o: "total open_part k ?res = total open_part k (qs_res s)"
    and u: "written ?l k + total unwritten_part k ?res = written (qs_ledger s) k + total unwritten_part k (qs_res s)"
    and wt: "written ?l k + total weight k ?res \<le> written (qs_ledger s) k + total weight k (qs_res s)" for k
    unfolding t l using c ch by (simp_all add: open_part_def unwritten_part_def weight_def)
  have wfs: "\<forall>p \<in> set ?res. wf_res (qs_tracker s) p"
    using qinv_wf [OF assms] wf c by (auto dest!: set_update_subset_insert [THEN subsetD] simp: wf_res_def)
  have "0 \<le> written ?l k" for k using l [of k] ch(1) I(5) [of k] by simp
  moreover have "written ?l k + total weight k ?res \<le> B" for k using wt [of k] I(6) [of k] by linarith
  moreover have "quota_step (QWrite i ok) s = s\<lparr>qs_ledger := ?l, qs_res := ?res\<rparr>" using True r(1) by simp
  ultimately show ?thesis unfolding qinv_def using wfs I(1,3,4) o u by (simp del: total_simps)
next
  case False
  then have "quota_step (QWrite i ok) s = s" by auto
  then show ?thesis using assms by simp
qed

lemma quota_step_inv:
  assumes "qinv B s" and "B + volume e < 2 ^ 63" and "reads_ok e"
  shows "qinv (B + volume e) (quota_step e s)"
proof (cases e)
  case (QReserve acc dir limit n ok)
  then show ?thesis using reserve_inv assms by simp
next
  case (QSetActual i n)
  then show ?thesis using setActual_inv assms by simp
next
  case (QCommit i)
  then show ?thesis using commit_inv [OF assms(1)] by simp
next
  case (QWrite i ok)
  then show ?thesis using write_inv [OF assms(1)] by simp
next
  case (QLook acc ok)
  then show ?thesis using load_inv [OF assms(1)] by simp
next
  case QNotify
  then show ?thesis using assms(1) by (simp add: qinv_def signalLocked_def wf_res_def)
next
  case (QMidnight date)
  then show ?thesis using assms(1) by (simp add: qinv_def)
qed

lemma quota_run:
  assumes "qinv B s" and "B + sum_list (map volume es) < 2 ^ 63" and "list_all reads_ok es"
  shows "qinv (B + sum_list (map volume es)) (fold quota_step es s)"
  using assms
proof (induction es arbitrary: B s)
  case (Cons e es)
  have v: "0 \<le> volume e" for e by (cases e) auto
  then have "0 \<le> sum_list (map volume es)" by (intro sum_list_nonneg) auto
  then have "B + volume e < 2 ^ 63" using Cons.prems(2) by simp
  from Cons.IH [OF quota_step_inv [OF Cons.prems(1) this]] show ?case using Cons.prems(2,3) by (simp add: add.assoc)
qed simp

lemma started_inv:
  assumes "B < 2 ^ 63" and "\<forall>k. 0 \<le> written l k \<and> written l k \<le> B"
  shows "qinv B (started l date)"
  using assms by (simp add: qinv_def started_def newQuotaTracker_def)

section \<open>The budget\<close>

definition spent :: "quotaKey \<Rightarrow> quota_sys \<Rightarrow> int" where
  "spent k s = written (qs_ledger s) k + total unwritten_part k (qs_res s) + total open_part k (qs_res s)"

text \<open>The history of one account, day and direction: every transfer asks with the limit \<open>L\<close> and for at most
\<open>M\<close> bytes.  What it reports at its end is not bounded: a download session counts every byte it sends, and a range may
be sent more than once (\<open>limiter.go\<close>, \<open>RecordDownloadSessionBytes\<close>).\<close>

fun asks_within :: "string \<Rightarrow> quotaDirection \<Rightarrow> int \<Rightarrow> int \<Rightarrow> quota_event \<Rightarrow> bool" where
  "asks_within acc dir L M (QReserve a d lim n ok) \<longleftrightarrow> (a = acc \<and> d = dir \<longrightarrow> lim = L \<and> n \<le> M)"
| "asks_within acc dir L M _ \<longleftrightarrow> True"

text \<open>What a finished transfer was charged beyond what it had reserved.\<close>

definition excess :: "quotaReservation \<Rightarrow> writing \<Rightarrow> int" where
  "excess r w = (if qr_committed r then max 0 (charge r - qr_expected r) else 0)"

definition net_spent :: "quotaKey \<Rightarrow> quota_sys \<Rightarrow> int" where
  "net_spent k s = spent k s - total excess k (qs_res s)"

lemma excess_nonneg: "0 \<le> total excess k res"
  by (rule total_nonneg) (simp add: excess_def)

lemma spent_reserve:
  assumes inv: "qinv B s" and "B + max 0 n < 2 ^ 63" and lim: "mk_key acc (qs_today s) dir = k \<Longrightarrow> lim = L \<and> n \<le> M"
    and L: "0 < L" "L < 2 ^ 63" and "net_spent k s < L + M"
  shows "net_spent k (quota_step (QReserve acc dir lim n True) s) < L + M"
proof -
  let ?t = "ensureLoadedLocked (qs_ledger s) True acc (qs_today s) (qs_tracker s)" and ?k = "mk_key acc (qs_today s) dir"
  let ?s1 = "s\<lparr>qs_tracker := ?t\<rparr>"
  have i1: "qinv B ?s1" by (rule load_inv [OF inv])
  note I = qinvD [OF i1, simplified] and P = parts_bounds [OF qinv_wf [OF i1], simplified]
  have loaded: "qt_loaded ?t (acc, qs_today s)" by (simp add: ensureLoadedLocked_def split: prod.split)
  then have used: "qt_used ?t ?k = written (qs_ledger s) ?k + total unwritten_part ?k (qs_res s)" using I(4) [of ?k] by (simp add: mk_key_def)
  show ?thesis
  proof (cases "reserve (qs_ledger s) True (qs_today s) acc dir lim n (qs_tracker s)")
    case (Pair r t)
    show ?thesis
    proof (cases r)
      case None
      then show ?thesis using Pair assms(6) by (simp add: net_spent_def spent_def)
    next
      case (Some q)
      have q: "qr_key q = ?k" "qr_expected q = max 0 n" "\<not> qr_committed q" using Pair Some by (auto simp: reserve_def Let_def split: if_splits)
      have "net_spent k (quota_step (QReserve acc dir lim n True) s) = net_spent k s + (if ?k = k then max 0 n else 0)"
        using Pair Some q by (simp add: net_spent_def spent_def open_part_def unwritten_part_def excess_def)
      moreover have "net_spent k s < L" if "?k = k" "0 < n"
      proof -
        have "\<not> exhausted L (qt_used ?t ?k) (qt_reserved ?t ?k)"
          using Pair Some lim that L(1) by (auto simp: reserve_def Let_def split: if_splits)
        moreover have "in64 (L - qt_used ?t ?k)"
          using used L I(1) I(5,6) [of ?k] P [of ?k] by (simp add: in64_def)
        ultimately have "spent k s < L" using used I(3) [of ?k] that(1) by (auto simp: exhausted_def spent_def)
        then show ?thesis using excess_nonneg [of k "qs_res s"] by (simp add: net_spent_def)
      qed
      ultimately show ?thesis using lim assms(6) by (cases "?k = k"; cases "0 < n") auto
    qed
  qed
qed

lemma spent_setActual:
  assumes "qinv B s"
  shows "net_spent k (quota_step (QSetActual i n) s) = net_spent k s"
proof (cases "i < length (qs_res s)")
  case True
  obtain r w where r: "qs_res s ! i = (r, w)" using nth_res [OF True] by blast
  have "total g k ((qs_res s)[i := (setActual n r, w)]) = total g k (qs_res s)" if "g (setActual n r) w = g r w" for g
    using total_update [OF True, of "setActual n r" g k w] that by (simp add: r setActual_def split: if_splits)
  moreover have "open_part (setActual n r) w = open_part r w" "unwritten_part (setActual n r) w = unwritten_part r w"
    "excess (setActual n r) w = excess r w"
    by (auto simp: open_part_def unwritten_part_def excess_def setActual_def)
  ultimately show ?thesis using True by (simp add: net_spent_def spent_def r)
qed simp

lemma spent_commit:
  assumes "qinv B s"
  shows "net_spent k (quota_step (QCommit i) s) \<le> net_spent k s"
proof (cases "i < length (qs_res s) \<and> \<not> qr_committed (fst (qs_res s ! i))")
  case True
  then have i: "i < length (qs_res s)" by simp
  obtain r w where r: "qs_res s ! i = (r, w)" "(r, w) \<in> set (qs_res s)" using nth_res [OF i] by blast
  have w: "w = Unwritten" using qinvD(2) [OF assms r(2)] True r(1) by (auto simp: wf_res_def)
  have "total g k ((qs_res s)[i := (r\<lparr>qr_committed := True\<rparr>, w)]) =
      total g k (qs_res s) + (if qr_key r = k then g (r\<lparr>qr_committed := True\<rparr>) w - g r w else 0)" for g
    using total_update [OF i, of "r\<lparr>qr_committed := True\<rparr>" g k w] by (simp add: r)
  then show ?thesis
    using True w by (auto simp: net_spent_def spent_def r(1) commit_def Let_def open_part_def unwritten_part_def excess_def charge_def
        split: prod.split)
next
  case False
  then have "quota_step (QCommit i) s = s" by (auto simp: commit_def)
  then show ?thesis by simp
qed

lemma spent_write:
  assumes "qinv B s"
  shows "net_spent k (quota_step (QWrite i ok) s) = net_spent k s"
proof (cases "i < length (qs_res s) \<and> qr_committed (fst (qs_res s ! i)) \<and> snd (qs_res s ! i) = Unwritten")
  case True
  then have i: "i < length (qs_res s)" by simp
  obtain r where r: "qs_res s ! i = (r, Unwritten)" "(r, Unwritten) \<in> set (qs_res s)" using nth_res [OF i] True by auto
  have ch: "0 \<le> charge r" using qinvD(2) [OF assms r(2)] charge_bounds by (simp add: wf_res_def)
  let ?w = "if ok then Written else Lost"
  have "total g k ((qs_res s)[i := (r, ?w)]) = total g k (qs_res s) + (if qr_key r = k then g r ?w - g r Unwritten else 0)" for g
    using total_update [OF i, of r g k ?w] by (simp add: r)
  then show ?thesis using True written_save [OF ch] r(1)
    by (auto simp: net_spent_def spent_def open_part_def unwritten_part_def excess_def)
next
  case False
  then have "quota_step (QWrite i ok) s = s" by auto
  then show ?thesis by simp
qed

lemma spent_step:
  assumes inv: "qinv B s" "B + volume e < 2 ^ 63" "reads_ok e" and "0 < L" "L < 2 ^ 63"
    and "asks_within (qk_accountID k) (qk_direction k) L M e" and "net_spent k s < L + M"
  shows "net_spent k (quota_step e s) < L + M"
proof (cases e)
  case (QReserve a d lim n ok)
  then have ok: "ok" "volume e = max 0 n" using inv(3) by simp_all
  have "lim = L \<and> n \<le> M" if "mk_key a (qs_today s) d = k" using assms(6) that QReserve by (auto simp: mk_key_def)
  then show ?thesis
    using spent_reserve [OF inv(1), of n a d k lim L M] assms(4,5,7) inv(2) ok QReserve by simp
next
  case (QSetActual i n)
  then show ?thesis using spent_setActual [OF inv(1), of k i n] assms(7) by simp
next
  case (QCommit i)
  then show ?thesis using spent_commit [OF inv(1), of k i] assms(7) by simp
next
  case (QWrite i ok)
  then show ?thesis using spent_write [OF inv(1), of k i ok] assms(7) by simp
qed (use assms(7) in \<open>simp_all add: net_spent_def spent_def\<close>)

lemma spent_run:
  assumes "qinv B s" and "B + sum_list (map volume es) < 2 ^ 63" and "list_all reads_ok es" and "0 < L" "L < 2 ^ 63"
    and "list_all (asks_within (qk_accountID k) (qk_direction k) L M) es" and "net_spent k s < L + M"
  shows "net_spent k (fold quota_step es s) < L + M"
  using assms
proof (induction es arbitrary: B s)
  case (Cons e es)
  have v: "0 \<le> volume e" for e by (cases e) auto
  then have "0 \<le> sum_list (map volume es)" by (intro sum_list_nonneg) auto
  then have b: "B + volume e < 2 ^ 63" "B + volume e + sum_list (map volume es) < 2 ^ 63" using Cons.prems(2) by simp_all
  have ok: "reads_ok e" "list_all reads_ok es" using Cons.prems(3) by simp_all
  have ask: "asks_within (qk_accountID k) (qk_direction k) L M e" "list_all (asks_within (qk_accountID k) (qk_direction k) L M) es"
    using Cons.prems(6) by simp_all
  have "net_spent k (quota_step e s) < L + M"
    by (rule spent_step [OF Cons.prems(1) b(1) ok(1) Cons.prems(4,5) ask(1) Cons.prems(7)])
  then show ?case
    using Cons.IH [OF quota_step_inv [OF Cons.prems(1) b(1) ok(1)] b(2) ok(2) Cons.prems(4,5) ask(2)] by simp
qed simp

lemma no_excess: "\<forall>p \<in> set res. qr_actual (fst p) \<le> qr_expected (fst p) \<Longrightarrow> total excess k res = 0"
  by (induction res) (auto simp: excess_def charge_def)

section \<open>Properties\<close>

text \<open>C15: what memory holds is the ledger: as long as the ledger can be read and sums stay below 2^63,
after any history of transfers the used bytes of a day are those of the ledger plus the committed ones
that have not been written to it, and the reserved bytes are those of the transfers still running.\<close>

theorem quota_matches_ledger:
  assumes "\<forall>k. 0 \<le> written l k \<and> written l k \<le> B" and "B + sum_list (map volume es) < 2 ^ 63"
    and "list_all reads_ok es" and "s = fold quota_step es (started l date)"
  shows "qt_reserved (qs_tracker s) k = total open_part k (qs_res s) \<and>
    (qt_loaded (qs_tracker s) (qk_accountID k, qk_date k) \<longrightarrow>
      qt_used (qs_tracker s) k = written (qs_ledger s) k + total unwritten_part k (qs_res s))"
proof -
  have "0 \<le> volume e" for e by (cases e) auto
  then have "0 \<le> sum_list (map volume es)" by (intro sum_list_nonneg) auto
  then have "B < 2 ^ 63" using assms(2) by simp
  from quota_run [OF started_inv [OF this assms(1)] assms(2,3), of date]
  have "qinv (B + sum_list (map volume es)) s" by (simp add: assms(4))
  from qinvD(3,4) [OF this] show ?thesis by auto
qed

definition sample_day :: "quota_event list" where
  "sample_day = [QReserve ''A'' quotaUpload 100 60 True, QReserve ''A'' quotaUpload 100 30 True, QSetActual 1 10,
     QCommit 1, QCommit 0, QWrite 0 True]"

theorem quota_matches_ledger_witness:
  "let s = fold quota_step sample_day (started (\<lambda>_. None) ''d''); k = mk_key ''A'' ''d'' quotaUpload in
     qt_used (qs_tracker s) k = written (qs_ledger s) k + total unwritten_part k (qs_res s) \<and> qt_used (qs_tracker s) k = 70"
proof -
  let ?s = "fold quota_step sample_day (started (\<lambda>_. None) ''d'')" and ?k = "mk_key ''A'' ''d'' quotaUpload"
  have "\<forall>k. 0 \<le> written (\<lambda>_. None) k \<and> written (\<lambda>_. None) k \<le> 0" by (simp add: written_def TelegramUsageFor_def)
  moreover have "0 + sum_list (map volume sample_day) < 2 ^ 63" "list_all reads_ok sample_day" by (simp_all add: sample_day_def)
  moreover have "qt_loaded (qs_tracker ?s) (qk_accountID ?k, qk_date ?k)" "qt_used (qs_tracker ?s) ?k = 70" by code_simp+
  ultimately show ?thesis using quota_matches_ledger [of "\<lambda>_. None" 0 sample_day ?s "''d''" ?k] unfolding Let_def by blast
qed

text \<open>What the scheduler checks before it queues for a slot is exactly what \<open>reserve\<close> enforces
afterwards: on the same state, \<open>mayStart\<close> says yes if and only if the reservation is granted, and a
transfer that \<open>fits\<close> may always start.\<close>

theorem quota_check_exact:
  "(fst (mayStart l ok date acc dir limit n t) \<longleftrightarrow> fst (reserve l ok date acc dir limit n t) \<noteq> None) \<and>
   (fst (fits l ok date acc dir limit n t) \<longrightarrow> fst (mayStart l ok date acc dir limit n t))"
  by (auto simp: mayStart_def reserve_def fits_def valuesLocked_def Let_def)

text \<open>C16: a daily budget is overshot by less than one transfer and what transfers were charged beyond their
reservations: if every transfer of an account in one direction asks with the limit \<open>L\<close> and for at most \<open>M\<close> bytes, and the
ledger starts below the limit, then whatever runs at the same time and whatever the transfers report, the bytes used and reserved of
any loaded day stay below \<open>L + M\<close> plus the excess of the finished transfers.  Where every transfer reports at most what it reserved
(uploads do, a download session that sends a range twice does not) the excess is zero.\<close>

theorem quota_overshoot:
  assumes "\<forall>k. 0 \<le> written l k \<and> written l k \<le> B" and "B + sum_list (map volume es) < 2 ^ 63"
    and "list_all reads_ok es" and "0 < L" and "L < 2 ^ 63" and "0 \<le> M" and "written l k < L"
    and "list_all (asks_within (qk_accountID k) (qk_direction k) L M) es"
    and "s = fold quota_step es (started l date)" and "qt_loaded (qs_tracker s) (qk_accountID k, qk_date k)"
  shows "qt_used (qs_tracker s) k + qt_reserved (qs_tracker s) k < L + M + total excess k (qs_res s) \<and>
    ((\<forall>p \<in> set (qs_res s). qr_actual (fst p) \<le> qr_expected (fst p)) \<longrightarrow> total excess k (qs_res s) = 0)"
proof -
  have "0 \<le> volume e" for e by (cases e) auto
  then have "0 \<le> sum_list (map volume es)" by (intro sum_list_nonneg) auto
  then have "B < 2 ^ 63" using assms(2) by simp
  note st = started_inv [OF this assms(1), of date]
  have "net_spent k (started l date) < L + M" using assms(6,7) by (simp add: started_def net_spent_def spent_def)
  from spent_run [OF st assms(2,3,4,5,8) this] have "net_spent k s < L + M" by (simp add: assms(9))
  moreover have "qinv (B + sum_list (map volume es)) s" using quota_run [OF st assms(2,3)] by (simp add: assms(9))
  moreover have "total excess k (qs_res s) \<le> 0" if "\<forall>p \<in> set (qs_res s). qr_actual (fst p) \<le> qr_expected (fst p)"
    using that no_excess by simp
  ultimately show ?thesis using qinvD(3,4) assms(10) excess_nonneg [of k "qs_res s"] by (force simp: net_spent_def spent_def)
qed

theorem quota_overshoot_witness:
  "let s = fold quota_step sample_day (started (\<lambda>_. None) ''d''); k = mk_key ''A'' ''d'' quotaUpload in
     qt_used (qs_tracker s) k + qt_reserved (qs_tracker s) k < 100 + 60"
proof -
  let ?s = "fold quota_step sample_day (started (\<lambda>_. None) ''d'')" and ?k = "mk_key ''A'' ''d'' quotaUpload"
  have w: "\<forall>k. 0 \<le> written (\<lambda>_. None) k \<and> written (\<lambda>_. None) k \<le> 0" by (simp add: written_def TelegramUsageFor_def)
  have d: "0 + sum_list (map volume sample_day) < 2 ^ 63" "list_all reads_ok sample_day" by (simp_all add: sample_day_def)
  have o: "list_all (asks_within (qk_accountID ?k) (qk_direction ?k) 100 60) sample_day" by code_simp
  have l: "qt_loaded (qs_tracker ?s) (qk_accountID ?k, qk_date ?k)" by code_simp
  have e: "total excess ?k (qs_res ?s) = 0" by code_simp
  show ?thesis
    using quota_overshoot [OF w d _ _ _ _ o refl l] e unfolding Let_def by (simp add: written_def TelegramUsageFor_def)
qed

text \<open>A client that seeks back and forth in one file of 60 bytes: its session reserves 60 and is charged 600 of a budget of 100.\<close>

lemma replay_exceeds_budget:
  "let s = fold quota_step [QReserve ''A'' quotaDownload 100 60 True, QSetActual 0 600, QCommit 0] (started (\<lambda>_. None) ''d'') in
     qt_used (qs_tracker s) (mk_key ''A'' ''d'' quotaDownload) = 600"
  by code_simp

end
