(* ===== verification/Counting.thy ===== *)
theory Counting
  imports Prelude
begin

text \<open>Counting the members of a list with a property, as an integer.\<close>

definition cnt :: "('a \<Rightarrow> bool) \<Rightarrow> 'a list \<Rightarrow> int" where
  "cnt P xs = int (length (filter P xs))"

lemma cnt_simps [simp]:
  "cnt P [] = 0" "cnt P (x # xs) = (if P x then 1 else 0) + cnt P xs" "cnt P (xs @ ys) = cnt P xs + cnt P ys" "0 \<le> cnt P xs"
  by (simp_all add: cnt_def)

lemma cnt_update:
  "i < length xs \<Longrightarrow> cnt P (xs[i := y]) = cnt P xs - (if P (xs ! i) then 1 else 0) + (if P y then 1 else 0)"
proof (induction xs arbitrary: i)
  case (Cons x xs)
  then show ?case by (cases i) auto
qed simp

lemma cnt_pos: "\<lbrakk>i < length xs; P (xs ! i)\<rbrakk> \<Longrightarrow> 0 < cnt P xs"
proof (induction xs arbitrary: i)
  case (Cons x xs)
  then show ?case by (cases i) (auto simp: add_pos_nonneg)
qed simp

lemma cnt_absent: "\<forall>x \<in> set xs. \<not> P x \<Longrightarrow> cnt P xs = 0"
  by (induction xs) auto

end
