(* ===== verification/Schedule.thy ===== *)
theory Schedule
  imports Quota Counting
begin

text \<open>
  Choosing the account of a transfer, \<open>internal/drive/schedule.go\<close>.  Of an account the scheduler sees
  its id, whether it is available and its daily quota, if it has one.  A nil account is \<open>None\<close>.
\<close>

section \<open>Candidates\<close>

record candidate =
  cd_ID :: string
  cd_Available :: bool
  cd_DailyQuota :: "(bool \<Rightarrow> int) option"

definition quotaLimit :: "candidate \<Rightarrow> bool \<Rightarrow> int" where
  "quotaLimit a upload =
     (case cd_DailyQuota a of None \<Rightarrow> 0 | Some q \<Rightarrow> let limit = q upload in if limit < 0 then 0 else limit)"

definition directionFor :: "bool \<Rightarrow> quotaDirection" where
  "directionFor upload = (if upload then quotaUpload else quotaDownload)"

text \<open>The ledger, whether it can be read, and the day.\<close>

type_synonym books = "ledger \<times> bool \<times> string"

definition quotaMayStart :: "books \<Rightarrow> candidate \<Rightarrow> bool \<Rightarrow> int \<Rightarrow> quotaTracker \<Rightarrow> bool \<times> quotaTracker" where
  "quotaMayStart b a upload n t =
     (case b of (l, ok, date) \<Rightarrow> mayStart l ok date (cd_ID a) (directionFor upload) (quotaLimit a upload) n t)"

definition quotaFits :: "books \<Rightarrow> candidate \<Rightarrow> bool \<Rightarrow> int \<Rightarrow> quotaTracker \<Rightarrow> bool \<times> quotaTracker" where
  "quotaFits b a upload n t =
     (case b of (l, ok, date) \<Rightarrow> fits l ok date (cd_ID a) (directionFor upload) (quotaLimit a upload) n t)"

definition reserveQuota :: "books \<Rightarrow> candidate \<Rightarrow> bool \<Rightarrow> int \<Rightarrow> quotaTracker \<Rightarrow> quotaReservation option \<times> quotaTracker" where
  "reserveQuota b a upload n t =
     (case b of (l, ok, date) \<Rightarrow> reserve l ok date (cd_ID a) (directionFor upload) (quotaLimit a upload) n t)"

fun pick_first ::
  "(candidate \<Rightarrow> quotaTracker \<Rightarrow> bool \<times> quotaTracker) \<Rightarrow> candidate option list \<Rightarrow> quotaTracker \<Rightarrow> candidate option \<times> quotaTracker" where
  "pick_first test [] t = (None, t)"
| "pick_first test (None # as) t = pick_first test as t"
| "pick_first test (Some a # as) t =
     (if \<not> cd_Available a then pick_first test as t
      else case test a t of
          (True, t') \<Rightarrow> (Some a, t')
        | (False, t') \<Rightarrow> pick_first test as t')"

definition may_and_fits :: "books \<Rightarrow> bool \<Rightarrow> int \<Rightarrow> candidate \<Rightarrow> quotaTracker \<Rightarrow> bool \<times> quotaTracker" where
  "may_and_fits b upload n a t =
     (case quotaMayStart b a upload n t of (False, t') \<Rightarrow> (False, t') | (True, t') \<Rightarrow> quotaFits b a upload n t')"

definition firstAccountForTransfer ::
  "books \<Rightarrow> candidate option list \<Rightarrow> bool \<Rightarrow> int \<Rightarrow> quotaTracker \<Rightarrow> candidate option \<times> quotaTracker" where
  "firstAccountForTransfer b as upload n t =
     (case pick_first (may_and_fits b upload n) as t of
        (Some a, t') \<Rightarrow> (Some a, t')
      | (None, t') \<Rightarrow> pick_first (\<lambda>a. quotaMayStart b a upload n) as t')"

definition hasAvailableAccount :: "candidate option list \<Rightarrow> bool" where
  "hasAvailableAccount as = list_ex (\<lambda>a. case a of None \<Rightarrow> False | Some a \<Rightarrow> cd_Available a) as"

section \<open>Admission\<close>

text \<open>One pass of the loop of \<open>acquire\<close> up to the wait it ends in: an error, a wait for an account or
  a reservation with a short poll, a wait for a reservation or midnight, or the queue of the limiter.\<close>

datatype pass = NotReady | NotAdmitted | PollAccounts | SleepOnQuota | QueueForSlot

definition acquire_pass ::
  "books \<Rightarrow> bool \<Rightarrow> candidate option list \<Rightarrow> bool \<Rightarrow> int \<Rightarrow> quotaTracker \<Rightarrow> pass \<times> quotaTracker" where
  "acquire_pass b ready as upload n t =
     (if as = [] then (if \<not> ready then NotReady else NotAdmitted, t)
      else case firstAccountForTransfer b as upload n t of
          (None, t') \<Rightarrow> (if \<not> hasAvailableAccount as then PollAccounts else SleepOnQuota, t')
        | (Some _, t') \<Rightarrow> (QueueForSlot, t'))"

text \<open>What follows once the slot is held.  \<open>between\<close> is what other transfers do to the tracker before the
  reservation is made; \<open>None\<close> returns the slot and tries again.\<close>

definition acquire_slot ::
  "books \<Rightarrow> candidate option list \<Rightarrow> bool \<Rightarrow> int \<Rightarrow> (quotaTracker \<Rightarrow> quotaTracker) \<Rightarrow> quotaTracker \<Rightarrow>
    (candidate \<times> quotaReservation) option \<times> quotaTracker" where
  "acquire_slot b as upload n between t =
     (case firstAccountForTransfer b as upload n t of
        (None, t') \<Rightarrow> (None, t')
      | (Some a, t') \<Rightarrow>
          (case reserveQuota b a upload n (between t') of
             (None, t'') \<Rightarrow> (None, t'')
           | (Some r, t'') \<Rightarrow> (Some (a, r), t'')))"

section \<open>Counting the tasks of an account\<close>

type_synonym counts = "string \<Rightarrow> int option"

definition trackTask :: "string \<Rightarrow> int \<Rightarrow> counts \<Rightarrow> counts" where
  "trackTask acc delta c =
     (if acc = [] \<or> delta = 0 then c
      else let n = (case c acc of None \<Rightarrow> 0 | Some m \<Rightarrow> m) + delta in
        if n \<le> 0 then c(acc := None) else c(acc \<mapsto> n))"

record active_tasks =
  at_uploads :: counts
  at_downloads :: counts

definition track :: "string \<Rightarrow> bool \<Rightarrow> int \<Rightarrow> active_tasks \<Rightarrow> active_tasks" where
  "track acc upload delta s =
     (if upload then s\<lparr>at_uploads := trackTask acc delta (at_uploads s)\<rparr>
      else s\<lparr>at_downloads := trackTask acc delta (at_downloads s)\<rparr>)"

text \<open>A lease: its account, its direction and whether its release function has run.\<close>

record lease =
  le_account :: string
  le_upload :: bool
  le_released :: bool

datatype lease_event = OpenLease string bool | CloseLease nat

fun lease_step :: "lease_event \<Rightarrow> lease list \<times> active_tasks \<Rightarrow> lease list \<times> active_tasks" where
  "lease_step (OpenLease acc up) (ls, s) =
     (ls @ [\<lparr>le_account = acc, le_upload = up, le_released = False\<rparr>], track acc up 1 s)"
| "lease_step (CloseLease i) (ls, s) =
     (if i < length ls \<and> \<not> le_released (ls ! i)
      then (ls[i := (ls ! i)\<lparr>le_released := True\<rparr>], track (le_account (ls ! i)) (le_upload (ls ! i)) (- 1) s)
      else (ls, s))"

definition holding :: "string \<Rightarrow> bool \<Rightarrow> lease list \<Rightarrow> int" where
  "holding acc up ls = cnt (\<lambda>l. le_account l = acc \<and> le_upload l = up \<and> \<not> le_released l) ls"

definition entry :: "int \<Rightarrow> int option" where
  "entry n = (if n = 0 then None else Some n)"

definition counted :: "lease list \<times> active_tasks \<Rightarrow> bool" where
  "counted p = (case p of (ls, s) \<Rightarrow>
     \<forall>acc. acc \<noteq> [] \<longrightarrow> at_uploads s acc = entry (holding acc True ls) \<and> at_downloads s acc = entry (holding acc False ls))"

lemma holding_simps [simp]:
  "holding acc up [] = 0"
  "holding acc up (l # ls) = (if le_account l = acc \<and> le_upload l = up \<and> \<not> le_released l then 1 else 0) + holding acc up ls"
  "holding acc up (ls @ ls') = holding acc up ls + holding acc up ls'" "0 \<le> holding acc up ls"
  by (simp_all add: holding_def)

lemma holding_update:
  "\<lbrakk>i < length ls; \<not> le_released (ls ! i)\<rbrakk> \<Longrightarrow> holding acc up (ls[i := (ls ! i)\<lparr>le_released := True\<rparr>]) =
    holding acc up ls - (if le_account (ls ! i) = acc \<and> le_upload (ls ! i) = up then 1 else 0)"
  by (simp add: holding_def cnt_update)

lemma trackTask_entry:
  "\<lbrakk>acc \<noteq> []; c acc = entry m; 0 \<le> m; 0 \<le> m + d; d \<noteq> 0\<rbrakk> \<Longrightarrow> trackTask acc d c = c(acc := entry (m + d))"
  by (auto simp: trackTask_def entry_def Let_def)

lemma track_counted:
  assumes "counted (ls, s)" and "\<And>a u. holding a u ls' = holding a u ls + (if a = acc \<and> u = up then d else 0)" and "d \<noteq> 0"
  shows "counted (ls', track acc up d s)"
proof (cases "acc = []")
  case True
  then show ?thesis using assms by (auto simp: counted_def track_def trackTask_def)
next
  case False
  have nn: "0 \<le> holding acc up ls + d" using assms(2) [of acc up] holding_simps(4) [of acc up ls'] by simp
  show ?thesis
  proof (cases up)
    case True
    then have "trackTask acc d (at_uploads s) = (at_uploads s)(acc := entry (holding acc True ls + d))"
      using assms(1,3) nn False by (intro trackTask_entry) (auto simp: counted_def)
    then show ?thesis using assms(1,2) True by (auto simp: counted_def track_def)
  next
    case up: False
    then have "trackTask acc d (at_downloads s) = (at_downloads s)(acc := entry (holding acc False ls + d))"
      using assms(1,3) nn False by (intro trackTask_entry) (auto simp: counted_def)
    then show ?thesis using assms(1,2) up by (auto simp: counted_def track_def)
  qed
qed

lemma lease_step_counted: "counted p \<Longrightarrow> counted (lease_step e p)"
proof -
  assume c: "counted p"
  obtain ls s where p: "p = (ls, s)" by (cases p)
  show ?thesis
  proof (cases e)
    case (OpenLease acc up)
    show ?thesis unfolding OpenLease p lease_step.simps by (rule track_counted [where ls = ls]) (use c p in auto)
  next
    case (CloseLease i)
    show ?thesis
    proof (cases "i < length ls \<and> \<not> le_released (ls ! i)")
      case True
      then have "counted (ls[i := (ls ! i)\<lparr>le_released := True\<rparr>], track (le_account (ls ! i)) (le_upload (ls ! i)) (- 1) s)"
        by (intro track_counted [where ls = ls]) (use c p in \<open>auto simp: holding_update\<close>)
      then show ?thesis using True by (simp add: CloseLease p)
    qed (use c in \<open>auto simp: CloseLease p\<close>)
  qed
qed

interpretation leases: machine lease_step counted
  by unfold_locales (rule lease_step_counted)

section \<open>Which account is chosen\<close>

text \<open>Looking at one account does not change what is seen of another.\<close>

definition same_view :: "books \<Rightarrow> quotaTracker \<Rightarrow> quotaTracker \<Rightarrow> bool" where
  "same_view b t t' \<longleftrightarrow>
     (case b of (l, ok, date) \<Rightarrow> \<forall>acc dir. fst (valuesLocked l ok date acc dir t') = fst (valuesLocked l ok date acc dir t))"

lemma same_view_load: "same_view (l, ok, date) t (ensureLoadedLocked l ok acc date t)"
  by (auto simp: same_view_def valuesLocked_def ensureLoadedLocked_def Let_def mk_key_def split: prod.splits)

lemma same_view_trans: "\<lbrakk>same_view b t t'; same_view b t' t''\<rbrakk> \<Longrightarrow> same_view b t t''"
  by (auto simp: same_view_def split: prod.splits)

lemma may_view:
  "same_view b t (snd (quotaMayStart b a up n t))"
  "same_view b t t' \<Longrightarrow> fst (quotaMayStart b a up n t') = fst (quotaMayStart b a up n t)"
  "same_view b t (snd (quotaFits b a up n t))"
  "same_view b t t' \<Longrightarrow> fst (quotaFits b a up n t') = fst (quotaFits b a up n t)"
proof -
  obtain l ok date where b: "b = (l, ok, date)" by (cases b) auto
  have v: "snd (valuesLocked l ok date acc dir t) = ensureLoadedLocked l ok acc date t" for acc dir t
    by (simp add: valuesLocked_def Let_def)
  have r: "same_view b t t" for t by (simp add: same_view_def b)
  show "same_view b t (snd (quotaMayStart b a up n t))" "same_view b t (snd (quotaFits b a up n t))"
    using same_view_load [of l ok date t "cd_ID a"] r [of t] v
    by (auto simp: b quotaMayStart_def quotaFits_def mayStart_def fits_def split: prod.splits) (metis snd_conv)+
  show "same_view b t t' \<Longrightarrow> fst (quotaMayStart b a up n t') = fst (quotaMayStart b a up n t)"
    "same_view b t t' \<Longrightarrow> fst (quotaFits b a up n t') = fst (quotaFits b a up n t)"
    by (auto simp: b same_view_def quotaMayStart_def quotaFits_def mayStart_def fits_def split: prod.splits) (metis Pair_inject fst_conv)+
qed

definition usable :: "candidate option list \<Rightarrow> candidate list" where
  "usable as = filter cd_Available (List.map_filter (\<lambda>a. a) as)"

lemma usable_simps [simp]:
  "usable [] = []" "usable (None # as) = usable as"
  "usable (Some a # as) = (if cd_Available a then a # usable as else usable as)"
  by (simp_all add: usable_def List.map_filter_simps)

lemma pick_view:
  assumes "\<And>a t. same_view b t (snd (test a t))" and "\<And>a t t'. same_view b t t' \<Longrightarrow> fst (test a t') = fst (test a t)"
  shows "same_view b t0 t \<Longrightarrow> same_view b t0 (snd (pick_first test as t)) \<and>
    fst (pick_first test as t) = find (\<lambda>a. fst (test a t0)) (usable as)"
proof (induction as arbitrary: t)
  case (Cons x as)
  show ?case
  proof (cases x)
    case (Some a)
    obtain r t' where r: "test a t = (r, t')" by fastforce
    have "same_view b t0 t'" using same_view_trans [OF Cons.prems] assms(1) [of t a] r by simp
    moreover have "r = fst (test a t0)" using assms(2) [OF Cons.prems, of a] r by simp
    ultimately show ?thesis using Cons r Some by (cases r) auto
  qed (use Cons in simp)
qed simp

lemma may_and_fits_view:
  "same_view b t (snd (may_and_fits b up n a t))"
  "fst (may_and_fits b up n a t) = (fst (quotaMayStart b a up n t) \<and> fst (quotaFits b a up n t))"
proof -
  note v = may_view(1) [of b t a up n]
  obtain r t' where r: "quotaMayStart b a up n t = (r, t')" by fastforce
  have "same_view b t t'" using v r by simp
  then show "same_view b t (snd (may_and_fits b up n a t))"
    using r same_view_trans may_view(3) [of b t' a up n] by (auto simp: may_and_fits_def split: bool.split)
  show "fst (may_and_fits b up n a t) = (fst (quotaMayStart b a up n t) \<and> fst (quotaFits b a up n t))"
    using r may_view(4) [OF \<open>same_view b t t'\<close>] by (simp add: may_and_fits_def split: bool.split)
qed

lemma fits_may: "fst (quotaFits b a up n t) \<Longrightarrow> fst (quotaMayStart b a up n t)"
  by (cases b) (auto simp: quotaFits_def quotaMayStart_def mayStart_def fits_def valuesLocked_def Let_def split: if_splits)

lemma same_view_refl: "same_view b t t"
  by (simp add: same_view_def split: prod.split)

section \<open>Properties\<close>

text \<open>A transfer goes to the first available account, in the order of the cluster, whose budget of the
day fits it whole; if there is none, to the first that may start it; all are judged by the budgets as
they were when the choice began, although looking at an account loads its usage.\<close>

theorem account_choice:
  "fst (firstAccountForTransfer b as up n t) =
     (case find (\<lambda>a. fst (quotaFits b a up n t)) (usable as) of
        Some a \<Rightarrow> Some a
      | None \<Rightarrow> find (\<lambda>a. fst (quotaMayStart b a up n t)) (usable as))"
proof -
  have mf: "fst (may_and_fits b up n a t) = fst (quotaFits b a up n t)" for a t
    using fits_may [of b a up n t] may_and_fits_view(2) [of b up n a t] by blast
  have 1: "same_view b t (snd (pick_first (may_and_fits b up n) as t)) \<and>
      fst (pick_first (may_and_fits b up n) as t) = find (\<lambda>a. fst (may_and_fits b up n a t)) (usable as)"
    by (rule pick_view [OF may_and_fits_view(1) _ same_view_refl]) (simp add: mf may_view(4))
  obtain r t' where r: "pick_first (may_and_fits b up n) as t = (r, t')" by fastforce
  have "same_view b t t'" using 1 r by simp
  then have "fst (pick_first (\<lambda>a. quotaMayStart b a up n) as t') = find (\<lambda>a. fst (quotaMayStart b a up n t)) (usable as)"
    using pick_view [of b "\<lambda>a. quotaMayStart b a up n" t t' as] may_view by blast
  then show ?thesis using 1 r by (simp add: firstAccountForTransfer_def mf split: option.split)
qed

text \<open>The tasks shown per account are exact: however leases are opened and released, and however often
a release function is called, the counter of an account is the number of its leases that are still held,
and an account without any has no entry.\<close>

theorem tracked_tasks_exact:
  "acc \<noteq> [] \<Longrightarrow> fold lease_step es ([], \<lparr>at_uploads = \<lambda>_. None, at_downloads = \<lambda>_. None\<rparr>) = (ls, s) \<Longrightarrow>
     (if up then at_uploads s else at_downloads s) acc = entry (holding acc up ls)"
proof -
  assume acc: "acc \<noteq> []" and run: "fold lease_step es ([], \<lparr>at_uploads = \<lambda>_. None, at_downloads = \<lambda>_. None\<rparr>) = (ls, s)"
  have "counted ([], \<lparr>at_uploads = \<lambda>_. None, at_downloads = \<lambda>_. None\<rparr>)" by (simp add: counted_def entry_def)
  from leases.inv_run [OF this, of es] show ?thesis using acc run by (simp add: counted_def)
qed

theorem tracked_tasks_exact_witness:
  "at_uploads (snd (fold lease_step [OpenLease ''A'' True, OpenLease ''A'' True, CloseLease 0, CloseLease 0]
     ([], \<lparr>at_uploads = \<lambda>_. None, at_downloads = \<lambda>_. None\<rparr>))) ''A'' = Some 1"
proof -
  let ?p = "fold lease_step [OpenLease ''A'' True, OpenLease ''A'' True, CloseLease 0, CloseLease 0]
     ([], \<lparr>at_uploads = \<lambda>_. None, at_downloads = \<lambda>_. None\<rparr>)"
  have "holding ''A'' True (fst ?p) = 1" by code_simp
  then show ?thesis using tracked_tasks_exact [of "''A''" _ "fst ?p" "snd ?p" True, OF _ prod.collapse [symmetric]] by (simp add: entry_def)
qed

section \<open>Where the code falls short\<close>

text \<open>The comment in \<open>acquire\<close> says that a login or the end of a FLOOD_WAIT is an equally valid wake-up, but
the poll that notices it is only entered when no account is available.  Here the primary is available
with its budget spent and the fallback is waiting out a FLOOD_WAIT: the transfer sleeps on the quota
tracker, which nothing but a reservation, a changed quota or midnight wakes, although it would be queued
at once if it looked again after the FLOOD_WAIT.\<close>

definition spent_primary :: candidate where
  "spent_primary = \<lparr>cd_ID = ''A'', cd_Available = True, cd_DailyQuota = Some (\<lambda>_. 100)\<rparr>"

definition flooded :: "bool \<Rightarrow> candidate" where
  "flooded available = \<lparr>cd_ID = ''B'', cd_Available = available, cd_DailyQuota = None\<rparr>"

lemma acquire_sleeps_past_flood_wait:
  "let b = ([(''A'', ''d'') \<mapsto> (100, 0)], True, ''d'') in
     fst (acquire_pass b True [Some spent_primary, Some (flooded False)] True 10 newQuotaTracker) = SleepOnQuota \<and>
     fst (acquire_pass b True [Some spent_primary, Some (flooded True)] True 10 newQuotaTracker) = QueueForSlot"
  by code_simp

end
