(* ===== verification/Sessions.thy ===== *)
theory Sessions
  imports Counting
begin

text \<open>
  Download sessions, \<open>internal/drive/limiter.go\<close>: all requests of one logical download share the slot of a
  session, which a grace timer returns once the last of them has ended.  Sessions, timers and requests
  are numbered in the order of their creation; the number of a session or timer is its identity.  Every
  section under \<open>downloadSessionsMu\<close> is one event, so event lists are interleavings.  What \<open>leaseDownload\<close>
  answers is part of the event, and giving its slot back is counted.
\<close>

section \<open>State\<close>

record downloadSession =
  dn_key :: string
  dn_ready :: bool
  dn_acquireErr :: bool
  dn_gateRelease :: bool
  dn_active :: int
  dn_transferred :: int
  dn_idle :: "nat option"

text \<open>A timer that has fired still has to get the mutex; stopping it then has no effect.\<close>

datatype timer_state = Armed | Stopped | Fired | Ran

text \<open>A request: not in a session yet, waiting for a session's \<open>ready\<close>, asking for the slot of a session
  it has made, being served, or over.\<close>

datatype request = Outside string | Joining nat | Leasing nat | Serving nat | Over

record session_sys =
  ss_sessions :: "downloadSession list"
  ss_map :: "string \<Rightarrow> nat option"
  ss_timers :: "(nat \<times> timer_state) list"
  ss_requests :: "request list"
  ss_acquired :: int
  ss_returned :: int

definition no_sessions :: session_sys where
  "no_sessions = \<lparr>ss_sessions = [], ss_map = (\<lambda>_. None), ss_timers = [], ss_requests = [], ss_acquired = 0, ss_returned = 0\<rparr>"

definition on_session :: "nat \<Rightarrow> (downloadSession \<Rightarrow> downloadSession) \<Rightarrow> session_sys \<Rightarrow> session_sys" where
  "on_session i f s = s\<lparr>ss_sessions := (ss_sessions s)[i := f (ss_sessions s ! i)]\<rparr>"

definition request_is :: "nat \<Rightarrow> request \<Rightarrow> session_sys \<Rightarrow> session_sys" where
  "request_is r p s = s\<lparr>ss_requests := (ss_requests s)[r := p]\<rparr>"

section \<open>Sections\<close>

definition stop_timer :: "nat option \<Rightarrow> session_sys \<Rightarrow> session_sys" where
  "stop_timer t s =
     (case t of
        None \<Rightarrow> s
      | Some t \<Rightarrow> case ss_timers s ! t of (i, st) \<Rightarrow>
          s\<lparr>ss_timers := (ss_timers s)[t := (i, if st = Armed then Stopped else st)]\<rparr>)"

definition finishDownloadSessionLocked :: "nat \<Rightarrow> session_sys \<Rightarrow> session_sys" where
  "finishDownloadSessionLocked i s =
     (let d = ss_sessions s ! i;
          s1 = (if ss_map s (dn_key d) = Some i then s\<lparr>ss_map := (ss_map s)(dn_key d := None)\<rparr> else s);
          s2 = on_session i (\<lambda>d. d\<lparr>dn_idle := None\<rparr>) s1
      in if dn_gateRelease d
         then on_session i (\<lambda>d. d\<lparr>dn_gateRelease := False\<rparr>) (s2\<lparr>ss_returned := ss_returned s2 + 1\<rparr>)
         else s2)"

text \<open>\<open>AcquireDownloadSession\<close>: the first section, the one after \<open>leaseDownload\<close>, and the one after
  \<open>ready\<close>.\<close>

definition enter_session :: "nat \<Rightarrow> string \<Rightarrow> session_sys \<Rightarrow> session_sys" where
  "enter_session r key s =
     (case ss_map s key of
        Some i \<Rightarrow> request_is r (Joining i)
          (on_session i (\<lambda>d. d\<lparr>dn_idle := None\<rparr>) (stop_timer (dn_idle (ss_sessions s ! i)) s))
      | None \<Rightarrow>
          let i = length (ss_sessions s)
          in request_is r (Leasing i) (s\<lparr>ss_sessions := ss_sessions s @
               [\<lparr>dn_key = key, dn_ready = False, dn_acquireErr = False, dn_gateRelease = False, dn_active = 0,
                 dn_transferred = 0, dn_idle = None\<rparr>], ss_map := (ss_map s)(key \<mapsto> i)\<rparr>))"

definition session_leased :: "nat \<Rightarrow> nat \<Rightarrow> bool \<Rightarrow> session_sys \<Rightarrow> session_sys" where
  "session_leased r i ok s =
     (if ok then request_is r (Serving i)
        (on_session i (\<lambda>d. d\<lparr>dn_acquireErr := False, dn_gateRelease := True, dn_active := 1, dn_ready := True\<rparr>)
          (s\<lparr>ss_acquired := ss_acquired s + 1\<rparr>))
      else
        let key = dn_key (ss_sessions s ! i)
        in request_is r Over (on_session i (\<lambda>d. d\<lparr>dn_acquireErr := True, dn_ready := True\<rparr>)
             (if ss_map s key = Some i then s\<lparr>ss_map := (ss_map s)(key := None)\<rparr> else s)))"

definition session_joined :: "nat \<Rightarrow> nat \<Rightarrow> int \<Rightarrow> session_sys \<Rightarrow> session_sys" where
  "session_joined r i maxConns s =
     (let d = ss_sessions s ! i
      in if dn_acquireErr d then request_is r Over s
         else if ss_map s (dn_key d) \<noteq> Some i then request_is r (Outside (dn_key d)) s
         else if dn_active d \<ge> maxConns then request_is r Over s
         else request_is r (Serving i) (on_session i (\<lambda>d. d\<lparr>dn_active := dn_active d + 1\<rparr>) s))"

text \<open>The release function of a request.\<close>

definition downloadRequestRelease :: "nat \<Rightarrow> nat \<Rightarrow> int \<Rightarrow> session_sys \<Rightarrow> session_sys" where
  "downloadRequestRelease r i grace s =
     (let s1 = request_is r Over (on_session i (\<lambda>d. if dn_active d > 0 then d\<lparr>dn_active := dn_active d - 1\<rparr> else d) s);
          d = ss_sessions s1 ! i
      in if dn_active d > 0 \<or> dn_idle d \<noteq> None then s1
         else if grace \<le> 0 then finishDownloadSessionLocked i s1
         else on_session i (\<lambda>d. d\<lparr>dn_idle := Some (length (ss_timers s1))\<rparr>)
                (s1\<lparr>ss_timers := ss_timers s1 @ [(i, Armed)]\<rparr>))"

definition timer_runs :: "nat \<Rightarrow> session_sys \<Rightarrow> session_sys" where
  "timer_runs t s =
     (let i = fst (ss_timers s ! t); s1 = s\<lparr>ss_timers := (ss_timers s)[t := (i, Ran)]\<rparr>
      in if dn_active (ss_sessions s ! i) > 0 then on_session i (\<lambda>d. d\<lparr>dn_idle := None\<rparr>) s1
         else finishDownloadSessionLocked i s1)"

definition RecordDownloadSessionBytes :: "string \<Rightarrow> int \<Rightarrow> session_sys \<Rightarrow> session_sys" where
  "RecordDownloadSessionBytes key bytes s =
     (if key = [] \<or> bytes \<le> 0 then s
      else case ss_map s key of
          None \<Rightarrow> s
        | Some i \<Rightarrow> on_session i (\<lambda>d. d\<lparr>dn_transferred := dn_transferred d + bytes\<rparr>) s)"

datatype session_event =
    DArrive string
  | DEnter nat
  | DLeased nat bool
  | DJoined nat int
  | DGiveUp nat
  | DEnd nat int
  | DFire nat
  | DRun nat
  | DBytes string int

fun session_step :: "session_event \<Rightarrow> session_sys \<Rightarrow> session_sys" where
  "session_step (DArrive key) s = s\<lparr>ss_requests := ss_requests s @ [Outside key]\<rparr>"
| "session_step (DEnter r) s =
     (if r < length (ss_requests s)
      then case ss_requests s ! r of Outside key \<Rightarrow> enter_session r key s | _ \<Rightarrow> s else s)"
| "session_step (DLeased r ok) s =
     (if r < length (ss_requests s)
      then case ss_requests s ! r of Leasing i \<Rightarrow> session_leased r i ok s | _ \<Rightarrow> s else s)"
| "session_step (DJoined r maxConns) s =
     (if r < length (ss_requests s)
      then case ss_requests s ! r of
             Joining i \<Rightarrow> if dn_ready (ss_sessions s ! i) then session_joined r i maxConns s else s | _ \<Rightarrow> s else s)"
| "session_step (DGiveUp r) s =
     (if r < length (ss_requests s)
      then case ss_requests s ! r of Joining i \<Rightarrow> request_is r Over s | _ \<Rightarrow> s else s)"
| "session_step (DEnd r grace) s =
     (if r < length (ss_requests s)
      then case ss_requests s ! r of Serving i \<Rightarrow> downloadRequestRelease r i grace s | _ \<Rightarrow> s else s)"
| "session_step (DFire t) s =
     (if t < length (ss_timers s) \<and> snd (ss_timers s ! t) = Armed
      then s\<lparr>ss_timers := (ss_timers s)[t := (fst (ss_timers s ! t), Fired)]\<rparr> else s)"
| "session_step (DRun t) s =
     (if t < length (ss_timers s) \<and> snd (ss_timers s ! t) = Fired then timer_runs t s else s)"
| "session_step (DBytes key bytes) s = RecordDownloadSessionBytes key bytes s"

section \<open>The invariant\<close>

definition serving :: "nat \<Rightarrow> request list \<Rightarrow> int" where
  "serving i rs = cnt (\<lambda>p. p = Serving i) rs"

definition leasing :: "nat \<Rightarrow> request list \<Rightarrow> int" where
  "leasing i rs = cnt (\<lambda>p. p = Leasing i) rs"

definition gates :: "downloadSession list \<Rightarrow> int" where
  "gates ds = cnt dn_gateRelease ds"

definition session_ok :: "session_sys \<Rightarrow> nat \<Rightarrow> bool" where
  "session_ok s i \<longleftrightarrow>
     (let d = ss_sessions s ! i; rs = ss_requests s
      in dn_active d = serving i rs \<and> leasing i rs = (if dn_ready d then 0 else 1) \<and>
         (dn_gateRelease d \<or> \<not> dn_ready d \<longrightarrow> ss_map s (dn_key d) = Some i) \<and>
         (dn_active d > 0 \<longrightarrow> dn_gateRelease d) \<and>
         (\<not> dn_ready d \<longrightarrow> \<not> dn_gateRelease d \<and> \<not> dn_acquireErr d \<and> dn_idle d = None \<and> (\<forall>st. (i, st) \<notin> set (ss_timers s))) \<and>
         (dn_acquireErr d \<longrightarrow> \<not> dn_gateRelease d) \<and>
         (dn_ready d \<and> \<not> dn_acquireErr d \<and> ss_map s (dn_key d) = Some i \<longrightarrow> dn_gateRelease d) \<and>
         (\<forall>t. dn_idle d = Some t \<longrightarrow> t < length (ss_timers s) \<and> fst (ss_timers s ! t) = i))"

definition ids_ok :: "session_sys \<Rightarrow> bool" where
  "ids_ok s \<longleftrightarrow>
     (\<forall>p \<in> set (ss_requests s). \<forall>i. p \<in> {Joining i, Leasing i, Serving i} \<longrightarrow> i < length (ss_sessions s)) \<and>
     (\<forall>p \<in> set (ss_timers s). fst p < length (ss_sessions s)) \<and>
     (\<forall>k i. ss_map s k = Some i \<longrightarrow> i < length (ss_sessions s) \<and> dn_key (ss_sessions s ! i) = k)"

definition sessions_inv :: "session_sys \<Rightarrow> bool" where
  "sessions_inv s \<longleftrightarrow> ids_ok s \<and> (\<forall>i < length (ss_sessions s). session_ok s i) \<and>
     ss_acquired s = ss_returned s + gates (ss_sessions s)"

lemma sys_simps [simp]:
  "ss_sessions (on_session i f s) = (ss_sessions s)[i := f (ss_sessions s ! i)]" "ss_map (on_session i f s) = ss_map s"
  "ss_timers (on_session i f s) = ss_timers s" "ss_requests (on_session i f s) = ss_requests s"
  "ss_acquired (on_session i f s) = ss_acquired s" "ss_returned (on_session i f s) = ss_returned s"
  "ss_sessions (request_is r p s) = ss_sessions s" "ss_map (request_is r p s) = ss_map s"
  "ss_timers (request_is r p s) = ss_timers s" "ss_requests (request_is r p s) = (ss_requests s)[r := p]"
  "ss_acquired (request_is r p s) = ss_acquired s" "ss_returned (request_is r p s) = ss_returned s"
  by (simp_all add: on_session_def request_is_def)

lemma serving_update: "r < length rs \<Longrightarrow> serving i (rs[r := p]) = serving i rs - (if rs ! r = Serving i then 1 else 0) + (if p = Serving i then 1 else 0)"
  and leasing_update: "r < length rs \<Longrightarrow> leasing i (rs[r := p]) = leasing i rs - (if rs ! r = Leasing i then 1 else 0) + (if p = Leasing i then 1 else 0)"
  and gates_update: "i < length ds \<Longrightarrow> gates (ds[i := d]) = gates ds - (if dn_gateRelease (ds ! i) then 1 else 0) + (if dn_gateRelease d then 1 else 0)"
  by (simp_all add: serving_def leasing_def gates_def cnt_update)

lemma counts_simps [simp]:
  "0 \<le> serving i rs" "0 \<le> leasing i rs" "serving i (rs @ [Outside k]) = serving i rs" "leasing i (rs @ [Outside k]) = leasing i rs"
  "gates (ds @ [d]) = gates ds + (if dn_gateRelease d then 1 else 0)"
  by (simp_all add: serving_def leasing_def gates_def)

lemma serving_pos: "\<lbrakk>r < length rs; rs ! r = Serving i\<rbrakk> \<Longrightarrow> 0 < serving i rs"
  and leasing_pos: "\<lbrakk>r < length rs; rs ! r = Leasing i\<rbrakk> \<Longrightarrow> 0 < leasing i rs"
  and serving_absent: "\<forall>p \<in> set rs. p \<noteq> Serving i \<Longrightarrow> serving i rs = 0"
  and leasing_absent: "\<forall>p \<in> set rs. p \<noteq> Leasing i \<Longrightarrow> leasing i rs = 0"
  by (simp_all add: serving_def leasing_def cnt_pos cnt_absent)

text \<open>What an event that works on the session \<open>i\<close> has to respect.\<close>

lemma session_update:
  assumes inv: "sessions_inv s" and i: "i < length (ss_sessions s)"
    and d: "ss_sessions s' = (ss_sessions s)[i := d']" "dn_key d' = dn_key (ss_sessions s ! i)"
    and map: "\<And>k. ss_map s' k = ss_map s k \<or> ss_map s k = Some i \<and> ss_map s' k = None"
    and reqs: "\<And>j. j \<noteq> i \<Longrightarrow> serving j (ss_requests s') = serving j (ss_requests s) \<and> leasing j (ss_requests s') = leasing j (ss_requests s)"
    and ids: "\<And>p. p \<in> set (ss_requests s') \<Longrightarrow> p \<in> set (ss_requests s) \<or> p \<in> {Joining i, Leasing i, Serving i, Over} \<or> (\<exists>k. p = Outside k)"
    and timers: "\<And>j st. (j, st) \<in> set (ss_timers s') \<Longrightarrow> j = i \<or> (\<exists>st'. (j, st') \<in> set (ss_timers s))"
    and kept: "\<And>t. t < length (ss_timers s) \<Longrightarrow> t < length (ss_timers s') \<and> fst (ss_timers s' ! t) = fst (ss_timers s ! t)"
    and own: "session_ok s' i"
    and slots: "ss_acquired s' - ss_returned s' = ss_acquired s - ss_returned s +
      (if dn_gateRelease d' then 1 else 0) - (if dn_gateRelease (ss_sessions s ! i) then 1 else 0)"
  shows "sessions_inv s'"
proof -
  have old: "ids_ok s" "\<And>j. j < length (ss_sessions s) \<Longrightarrow> session_ok s j" "ss_acquired s = ss_returned s + gates (ss_sessions s)"
    using inv by (simp_all add: sessions_inv_def)
  have "session_ok s' j" if j: "j < length (ss_sessions s)" for j
  proof (cases "j = i")
    case False
    have m: "ss_map s' k = Some j \<longleftrightarrow> ss_map s k = Some j" for k using map [of k] False by auto
    have t: "(j, st) \<notin> set (ss_timers s')" if "\<forall>st. (j, st) \<notin> set (ss_timers s)" for st using timers [of j st] that False by blast
    have e: "ss_sessions s' ! j = ss_sessions s ! j" using False by (simp add: d(1))
    note q = reqs [OF False, THEN conjunct1] reqs [OF False, THEN conjunct2]
    show ?thesis using old(2) [OF j] unfolding session_ok_def Let_def e q m by (auto simp: kept t)
  qed (use own in simp)
  moreover have "ids_ok s'"
  proof -
    have "p \<in> {Joining j, Leasing j, Serving j} \<longrightarrow> j < length (ss_sessions s)" if "p \<in> set (ss_requests s')" for p j
      using ids [OF that] i old(1) by (auto simp: ids_ok_def)
    moreover have "fst p < length (ss_sessions s)" if "p \<in> set (ss_timers s')" for p
      using timers [of "fst p" "snd p"] that i old(1) by (force simp: ids_ok_def)
    moreover have "j < length (ss_sessions s) \<and> dn_key ((ss_sessions s)[i := d'] ! j) = k" if "ss_map s' k = Some j" for k j
      using map [of k] that old(1) d(2) i by (auto simp: ids_ok_def nth_list_update)
    ultimately show ?thesis by (simp add: ids_ok_def d(1))
  qed
  ultimately show ?thesis using old(3) slots i by (simp add: sessions_inv_def d(1) gates_update)
qed

lemma sessions_invD:
  assumes "sessions_inv s"
  shows "i < length (ss_sessions s) \<Longrightarrow> session_ok s i"
    and "\<lbrakk>r < length (ss_requests s); ss_requests s ! r \<in> {Joining i, Leasing i, Serving i}\<rbrakk> \<Longrightarrow> i < length (ss_sessions s)"
    and "t < length (ss_timers s) \<Longrightarrow> fst (ss_timers s ! t) < length (ss_sessions s)"
    and "ss_map s k = Some i \<Longrightarrow> i < length (ss_sessions s) \<and> dn_key (ss_sessions s ! i) = k"
proof -
  have ids: "ids_ok s" and ok: "\<forall>i < length (ss_sessions s). session_ok s i" using assms by (simp_all add: sessions_inv_def)
  show "i < length (ss_sessions s) \<Longrightarrow> session_ok s i" using ok by simp
  show "\<lbrakk>r < length (ss_requests s); ss_requests s ! r \<in> {Joining i, Leasing i, Serving i}\<rbrakk> \<Longrightarrow> i < length (ss_sessions s)"
    using ids unfolding ids_ok_def by (metis nth_mem)
  show "t < length (ss_timers s) \<Longrightarrow> fst (ss_timers s ! t) < length (ss_sessions s)"
    using ids nth_mem [of t "ss_timers s"] by (simp add: ids_ok_def)
  show "ss_map s k = Some i \<Longrightarrow> i < length (ss_sessions s) \<and> dn_key (ss_sessions s ! i) = k"
    using ids by (simp add: ids_ok_def)
qed

lemma request_ids:
  "p \<in> set (rs[r := q]) \<Longrightarrow> p \<in> set rs \<or> p = q"
  by (meson insert_iff set_update_subset_insert subsetD)

lemma timer_ids:
  "\<lbrakk>(j, st) \<in> set (ts[t := (fst (ts ! t), st0)]); t < length ts\<rbrakk> \<Longrightarrow> \<exists>st'. (j, st') \<in> set ts"
  using request_ids [of "(j, st)" ts t "(fst (ts ! t), st0)"] nth_mem [of t ts] by (auto, metis prod.collapse)

lemma session_okD:
  assumes "session_ok s i"
  shows "dn_active (ss_sessions s ! i) = serving i (ss_requests s)"
    and "leasing i (ss_requests s) = (if dn_ready (ss_sessions s ! i) then 0 else 1)"
    and "dn_gateRelease (ss_sessions s ! i) \<or> \<not> dn_ready (ss_sessions s ! i) \<Longrightarrow> ss_map s (dn_key (ss_sessions s ! i)) = Some i"
    and "dn_active (ss_sessions s ! i) > 0 \<Longrightarrow> dn_gateRelease (ss_sessions s ! i)"
    and "\<not> dn_ready (ss_sessions s ! i) \<Longrightarrow> \<not> dn_gateRelease (ss_sessions s ! i) \<and> \<not> dn_acquireErr (ss_sessions s ! i) \<and>
      dn_idle (ss_sessions s ! i) = None \<and> (i, st) \<notin> set (ss_timers s)"
    and "dn_acquireErr (ss_sessions s ! i) \<Longrightarrow> \<not> dn_gateRelease (ss_sessions s ! i)"
    and "dn_idle (ss_sessions s ! i) = Some t \<Longrightarrow> t < length (ss_timers s) \<and> fst (ss_timers s ! t) = i"
    and "\<lbrakk>dn_ready (ss_sessions s ! i); \<not> dn_acquireErr (ss_sessions s ! i); ss_map s (dn_key (ss_sessions s ! i)) = Some i\<rbrakk> \<Longrightarrow>
      dn_gateRelease (ss_sessions s ! i)"
  using assms unfolding session_ok_def Let_def by blast+

lemma arrive_inv: "sessions_inv s \<Longrightarrow> sessions_inv (s\<lparr>ss_requests := ss_requests s @ [Outside key]\<rparr>)"
  by (simp add: sessions_inv_def ids_ok_def session_ok_def Let_def)

lemma stop_timer_simps [simp]:
  "ss_sessions (stop_timer t s) = ss_sessions s" "ss_map (stop_timer t s) = ss_map s" "ss_requests (stop_timer t s) = ss_requests s"
  "ss_acquired (stop_timer t s) = ss_acquired s" "ss_returned (stop_timer t s) = ss_returned s"
  "length (ss_timers (stop_timer t s)) = length (ss_timers s)"
  by (simp_all add: stop_timer_def split: option.split prod.split)

lemma fst_update: "fst x = fst (xs ! i) \<Longrightarrow> fst (xs[i := x] ! t) = fst (xs ! t)"
  by (cases "i < length xs") (auto simp: nth_list_update list_update_beyond)

lemma stop_timer_fst: "fst (ss_timers (stop_timer o' s) ! t) = fst (ss_timers s ! t)"
  by (auto simp: stop_timer_def fst_update split: option.split prod.split)

lemma stop_timer_ids: "\<lbrakk>(j, st) \<in> set (ss_timers (stop_timer o' s)); \<And>t. o' = Some t \<Longrightarrow> t < length (ss_timers s)\<rbrakk> \<Longrightarrow>
    \<exists>st'. (j, st') \<in> set (ss_timers s)"
proof (cases o')
  case (Some t)
  assume m: "(j, st) \<in> set (ss_timers (stop_timer o' s))" and l: "\<And>t. o' = Some t \<Longrightarrow> t < length (ss_timers s)"
  from m obtain n where n: "n < length (ss_timers s)" "ss_timers (stop_timer o' s) ! n = (j, st)"
    by (auto simp: in_set_conv_nth)
  then have "fst (ss_timers s ! n) = j" using stop_timer_fst [of o' s n] by simp
  then show ?thesis using n(1) by (metis nth_mem prod.collapse)
qed (auto simp: stop_timer_def)

lemma enter_inv:
  assumes inv: "sessions_inv s" and r: "r < length (ss_requests s)" "ss_requests s ! r = Outside key"
  shows "sessions_inv (enter_session r key s)"
proof (cases "ss_map s key")
  case (Some i)
  have i: "i < length (ss_sessions s)" "dn_key (ss_sessions s ! i) = key" using sessions_invD(4) [OF inv Some] by simp_all
  note ok = sessions_invD(1) [OF inv i(1)] and D = session_okD [OF sessions_invD(1) [OF inv i(1)]]
  let ?d = "(ss_sessions s ! i)\<lparr>dn_idle := None\<rparr>" and ?s' = "enter_session r key s"
  have s': "?s' = request_is r (Joining i) (on_session i (\<lambda>d. d\<lparr>dn_idle := None\<rparr>) (stop_timer (dn_idle (ss_sessions s ! i)) s))"
    by (simp add: enter_session_def Some)
  have lt: "\<And>t. dn_idle (ss_sessions s ! i) = Some t \<Longrightarrow> t < length (ss_timers s)" using D(7) by blast
  show ?thesis
  proof (rule session_update [OF inv i(1), where d' = ?d])
    have "(i, st) \<notin> set (ss_timers (stop_timer (dn_idle (ss_sessions s ! i)) s))" if "\<not> dn_ready (ss_sessions s ! i)" for st
      using D(5) [OF that] by (simp add: stop_timer_def)
    then show "session_ok ?s' i"
      using ok i r unfolding session_ok_def Let_def s' by (auto simp: serving_update leasing_update)
    show "p \<in> set (ss_requests s) \<or> p \<in> {Joining i, Leasing i, Serving i, Over} \<or> (\<exists>k. p = Outside k)"
      if "p \<in> set (ss_requests ?s')" for p
      using that request_ids by (fastforce simp: s')
  qed (use r stop_timer_ids [OF _ lt] in \<open>auto simp: s' serving_update leasing_update stop_timer_fst dest: request_ids\<close>)
next
  case None
  let ?n = "length (ss_sessions s)" and ?s' = "enter_session r key s"
  let ?d = "\<lparr>dn_key = key, dn_ready = False, dn_acquireErr = False, dn_gateRelease = False, dn_active = 0, dn_transferred = 0, dn_idle = None\<rparr>"
  have s': "?s' = request_is r (Leasing ?n) (s\<lparr>ss_sessions := ss_sessions s @ [?d], ss_map := (ss_map s)(key \<mapsto> ?n)\<rparr>)"
    by (simp add: enter_session_def None Let_def)
  have ids: "ids_ok s" using inv by (simp add: sessions_inv_def)
  have "session_ok ?s' j" if j: "j < ?n" for j
  proof -
    have "ss_map s (dn_key (ss_sessions s ! j)) = Some j \<Longrightarrow> dn_key (ss_sessions s ! j) \<noteq> key" using None by auto
    then show ?thesis
      using sessions_invD(1) [OF inv j] r j unfolding session_ok_def Let_def s' by (auto simp: serving_update leasing_update nth_append)
  qed
  moreover have "session_ok ?s' ?n"
  proof -
    have "serving ?n (ss_requests s) = 0" "leasing ?n (ss_requests s) = 0"
      using ids by (auto simp: ids_ok_def intro: serving_absent leasing_absent)
    moreover have "(?n, st) \<notin> set (ss_timers s)" for st using ids by (auto simp: ids_ok_def)
    ultimately show ?thesis using r unfolding session_ok_def Let_def s' by (simp add: serving_update leasing_update)
  qed
  moreover have "ids_ok ?s'"
    using ids by (auto simp: ids_ok_def s' nth_append less_Suc_eq dest!: request_ids split: if_splits)
  ultimately show ?thesis
    using inv by (auto simp: sessions_inv_def s' less_Suc_eq)
qed

lemma leased_inv:
  assumes inv: "sessions_inv s" and r: "r < length (ss_requests s)" "ss_requests s ! r = Leasing i"
  shows "sessions_inv (session_leased r i ok s)"
proof -
  have i: "i < length (ss_sessions s)" using sessions_invD(2) [OF inv r(1), of i] r(2) by simp
  note o = sessions_invD(1) [OF inv i]
  note D = session_okD [OF o]
  have nr: "\<not> dn_ready (ss_sessions s ! i)" using leasing_pos [OF r] D(2) by (auto split: if_splits)
  then have z: "serving i (ss_requests s) = 0" using D(1,4,5) by (metis counts_simps(1) order_le_less)
  show ?thesis
  proof (cases ok)
    case True
    let ?d = "(ss_sessions s ! i)\<lparr>dn_acquireErr := False, dn_gateRelease := True, dn_active := 1, dn_ready := True\<rparr>"
    show ?thesis
    proof (rule session_update [OF inv i, where d' = ?d])
      show "session_ok (session_leased r i ok s) i"
        using True o i r nr z D(2) unfolding session_ok_def Let_def session_leased_def by (auto simp: serving_update leasing_update)
    qed (use True nr D(5) r in \<open>auto simp: session_leased_def serving_update leasing_update dest!: request_ids\<close>)
  next
    case False
    let ?d = "(ss_sessions s ! i)\<lparr>dn_acquireErr := True, dn_ready := True\<rparr>"
    have m: "ss_map s (dn_key (ss_sessions s ! i)) = Some i" using D(3) nr by blast
    show ?thesis
    proof (rule session_update [OF inv i, where d' = ?d])
      show "session_ok (session_leased r i ok s) i"
        using False o i r nr z D(2) m unfolding session_ok_def Let_def session_leased_def by (auto simp: serving_update leasing_update)
    qed (use False nr D(5) r m in \<open>auto simp: session_leased_def Let_def serving_update leasing_update dest!: request_ids\<close>)
  qed
qed

text \<open>A request that leaves its session alone.\<close>

lemma request_inv:
  assumes inv: "sessions_inv s" and r: "r < length (ss_requests s)" "ss_requests s ! r = Joining i" and p: "p = Over \<or> (\<exists>k. p = Outside k)"
  shows "sessions_inv (request_is r p s)"
proof -
  have i: "i < length (ss_sessions s)" using sessions_invD(2) [OF inv r(1), of i] r(2) by simp
  show ?thesis
  proof (rule session_update [OF inv i, where d' = "ss_sessions s ! i"])
    show "session_ok (request_is r p s) i"
      using sessions_invD(1) [OF inv i] r p unfolding session_ok_def Let_def by (auto simp: serving_update leasing_update)
  qed (use r p in \<open>auto simp: serving_update leasing_update dest!: request_ids\<close>)
qed

lemma joined_inv:
  assumes inv: "sessions_inv s" and r: "r < length (ss_requests s)" "ss_requests s ! r = Joining i" and ready: "dn_ready (ss_sessions s ! i)"
  shows "sessions_inv (session_joined r i maxConns s)"
proof (cases "dn_acquireErr (ss_sessions s ! i) \<or> ss_map s (dn_key (ss_sessions s ! i)) \<noteq> Some i \<or> dn_active (ss_sessions s ! i) \<ge> maxConns")
  case True
  then show ?thesis using request_inv [OF inv r] by (auto simp: session_joined_def Let_def)
next
  case False
  have i: "i < length (ss_sessions s)" using sessions_invD(2) [OF inv r(1), of i] r(2) by simp
  note o = sessions_invD(1) [OF inv i]
  have g: "dn_gateRelease (ss_sessions s ! i)" using session_okD(8) [OF o ready] False by blast
  let ?d = "(ss_sessions s ! i)\<lparr>dn_active := dn_active (ss_sessions s ! i) + 1\<rparr>"
  have s': "session_joined r i maxConns s = request_is r (Serving i) (on_session i (\<lambda>d. d\<lparr>dn_active := dn_active d + 1\<rparr>) s)"
    using False by (simp add: session_joined_def Let_def)
  show ?thesis
    unfolding s'
  proof (rule session_update [OF inv i, where d' = ?d])
    show "session_ok (request_is r (Serving i) (on_session i (\<lambda>d. d\<lparr>dn_active := dn_active d + 1\<rparr>) s)) i"
      using o i r g ready unfolding session_ok_def Let_def by (auto simp: serving_update leasing_update)
  qed (use r in \<open>auto simp: serving_update leasing_update dest!: request_ids\<close>)
qed

lemma finish_fields [simp]:
  "ss_sessions (finishDownloadSessionLocked i s) = (ss_sessions s)[i := (ss_sessions s ! i)\<lparr>dn_idle := None, dn_gateRelease := False\<rparr>]"
  "ss_map (finishDownloadSessionLocked i s) = (if ss_map s (dn_key (ss_sessions s ! i)) = Some i
     then (ss_map s)(dn_key (ss_sessions s ! i) := None) else ss_map s)"
  "ss_timers (finishDownloadSessionLocked i s) = ss_timers s" "ss_requests (finishDownloadSessionLocked i s) = ss_requests s"
  "ss_acquired (finishDownloadSessionLocked i s) = ss_acquired s"
  "ss_returned (finishDownloadSessionLocked i s) = ss_returned s + (if dn_gateRelease (ss_sessions s ! i) then 1 else 0)"
proof -
  let ?d = "ss_sessions s ! i"
  have g: "?d\<lparr>dn_idle := None, dn_gateRelease := False\<rparr> = ?d\<lparr>dn_idle := None\<rparr>" if "\<not> dn_gateRelease ?d"
    using that by (cases ?d) simp
  have n: "(ss_sessions s)[i := x] ! i = x" if "i < length (ss_sessions s)" for x using that by simp
  have o: "(ss_sessions s)[i := x] = ss_sessions s" if "\<not> i < length (ss_sessions s)" for x using that by (simp add: list_update_beyond)
  show "ss_sessions (finishDownloadSessionLocked i s) = (ss_sessions s)[i := ?d\<lparr>dn_idle := None, dn_gateRelease := False\<rparr>]"
  proof (cases "dn_gateRelease ?d")
    case True
    then show ?thesis using n o by (cases "i < length (ss_sessions s)") (simp_all add: finishDownloadSessionLocked_def Let_def)
  next
    case False
    then show ?thesis unfolding g [OF False] by (simp add: finishDownloadSessionLocked_def Let_def)
  qed
qed (simp_all add: finishDownloadSessionLocked_def Let_def)

lemma end_inv:
  assumes inv: "sessions_inv s" and r: "r < length (ss_requests s)" "ss_requests s ! r = Serving i"
  shows "sessions_inv (downloadRequestRelease r i grace s)"
proof -
  have i: "i < length (ss_sessions s)" using sessions_invD(2) [OF inv r(1), of i] r(2) by simp
  note o = sessions_invD(1) [OF inv i]
  note D = session_okD [OF o]
  let ?d = "ss_sessions s ! i" and ?s' = "downloadRequestRelease r i grace s"
  have a: "0 < dn_active ?d" using serving_pos [OF r] D(1) by simp
  have g: "dn_gateRelease ?d" "dn_ready ?d" using D(4) a D(5) by blast+
  have m: "ss_map s (dn_key ?d) = Some i" using D(3) g(1) by blast
  consider (busy) "dn_active ?d - 1 > 0 \<or> dn_idle ?d \<noteq> None" | (now) "\<not> (dn_active ?d - 1 > 0 \<or> dn_idle ?d \<noteq> None)" "grace \<le> 0"
    | (later) "\<not> (dn_active ?d - 1 > 0 \<or> dn_idle ?d \<noteq> None)" "\<not> grace \<le> 0" by blast
  then show ?thesis
  proof cases
    case busy
    show ?thesis
    proof (rule session_update [OF inv i, where d' = "?d\<lparr>dn_active := dn_active ?d - 1\<rparr>"])
      show "session_ok ?s' i"
        using o i r a g busy unfolding session_ok_def Let_def downloadRequestRelease_def by (auto simp: serving_update leasing_update)
    qed (use i r a g busy in \<open>auto simp: downloadRequestRelease_def Let_def serving_update leasing_update dest!: request_ids\<close>)
  next
    case now
    show ?thesis
    proof (rule session_update [OF inv i, where d' = "?d\<lparr>dn_active := dn_active ?d - 1, dn_idle := None, dn_gateRelease := False\<rparr>"])
      show "session_ok ?s' i"
        using o i r a g now m unfolding session_ok_def Let_def downloadRequestRelease_def by (auto simp: serving_update leasing_update)
    qed (use i r a g now m in \<open>auto simp: downloadRequestRelease_def Let_def serving_update leasing_update dest!: request_ids\<close>)
  next
    case later
    show ?thesis
    proof (rule session_update [OF inv i, where d' = "?d\<lparr>dn_active := dn_active ?d - 1, dn_idle := Some (length (ss_timers s))\<rparr>"])
      show "session_ok ?s' i"
        using o i r a g later m unfolding session_ok_def Let_def downloadRequestRelease_def by (auto simp: serving_update leasing_update)
    qed (use i r a g later m in \<open>auto simp: downloadRequestRelease_def Let_def serving_update leasing_update nth_append dest!: request_ids\<close>)
  qed
qed

lemma run_inv:
  assumes inv: "sessions_inv s" and t: "t < length (ss_timers s)"
  shows "sessions_inv (timer_runs t s)"
proof -
  let ?i = "fst (ss_timers s ! t)" and ?s' = "timer_runs t s"
  let ?d = "ss_sessions s ! ?i"
  have i: "?i < length (ss_sessions s)" by (rule sessions_invD(3) [OF inv t])
  note o = sessions_invD(1) [OF inv i]
  note D = session_okD [OF o]
  have ready: "dn_ready ?d" using D(5) [of "snd (ss_timers s ! t)"] nth_mem [OF t] by auto
  have tm: "\<And>j st. (j, st) \<in> set ((ss_timers s)[t := (?i, Ran)]) \<Longrightarrow> j = ?i \<or> (\<exists>st'. (j, st') \<in> set (ss_timers s))"
    using request_ids [of _ "ss_timers s" t "(?i, Ran)"] by auto
  show ?thesis
  proof (cases "dn_active ?d > 0")
    case True
    show ?thesis
    proof (rule session_update [OF inv i, where d' = "?d\<lparr>dn_idle := None\<rparr>"])
      show "session_ok ?s' ?i" using o i True ready unfolding session_ok_def Let_def timer_runs_def by auto
    qed (use True tm in \<open>auto simp: timer_runs_def Let_def fst_update\<close>)
  next
    case False
    then have z: "serving ?i (ss_requests s) = 0" using D(1) by (metis counts_simps(1) order_le_less)
    show ?thesis
    proof (rule session_update [OF inv i, where d' = "?d\<lparr>dn_idle := None, dn_gateRelease := False\<rparr>"])
      show "session_ok ?s' ?i" using o i False ready z unfolding session_ok_def Let_def timer_runs_def by auto
    qed (use False tm in \<open>auto simp: timer_runs_def Let_def fst_update split: if_splits\<close>)
  qed
qed

lemma fire_inv:
  assumes inv: "sessions_inv s" and t: "t < length (ss_timers s)"
  shows "sessions_inv (s\<lparr>ss_timers := (ss_timers s)[t := (fst (ss_timers s ! t), Fired)]\<rparr>)"
proof -
  let ?i = "fst (ss_timers s ! t)"
  have i: "?i < length (ss_sessions s)" by (rule sessions_invD(3) [OF inv t])
  note o = sessions_invD(1) [OF inv i]
  have ready: "dn_ready (ss_sessions s ! ?i)" using session_okD(5) [OF o, of "snd (ss_timers s ! t)"] nth_mem [OF t] by auto
  show ?thesis
  proof (rule session_update [OF inv i, where d' = "ss_sessions s ! ?i"])
    show "session_ok (s\<lparr>ss_timers := (ss_timers s)[t := (?i, Fired)]\<rparr>) ?i"
      using o ready unfolding session_ok_def Let_def by (auto simp: fst_update)
  qed (use request_ids [of _ "ss_timers s" t "(?i, Fired)"] in \<open>auto simp: fst_update\<close>)
qed

lemma bytes_inv:
  assumes inv: "sessions_inv s"
  shows "sessions_inv (RecordDownloadSessionBytes key bytes s)"
proof (cases "key = [] \<or> bytes \<le> 0 \<or> ss_map s key = None")
  case False
  then obtain i where m: "ss_map s key = Some i" by blast
  have i: "i < length (ss_sessions s)" using sessions_invD(4) [OF inv m] by simp
  let ?d = "(ss_sessions s ! i)\<lparr>dn_transferred := dn_transferred (ss_sessions s ! i) + bytes\<rparr>"
  have s': "RecordDownloadSessionBytes key bytes s = on_session i (\<lambda>d. d\<lparr>dn_transferred := dn_transferred d + bytes\<rparr>) s"
    using False m by (simp add: RecordDownloadSessionBytes_def)
  show ?thesis
    unfolding s'
  proof (rule session_update [OF inv i, where d' = ?d])
    show "session_ok (on_session i (\<lambda>d. d\<lparr>dn_transferred := dn_transferred d + bytes\<rparr>) s) i"
      using sessions_invD(1) [OF inv i] i unfolding session_ok_def Let_def by auto
  qed auto
qed (use inv in \<open>auto simp: RecordDownloadSessionBytes_def\<close>)

lemma session_step_inv: "sessions_inv s \<Longrightarrow> sessions_inv (session_step e s)"
  by (cases e)
    (auto split: request.split intro: arrive_inv enter_inv leased_inv joined_inv request_inv end_inv fire_inv run_inv bytes_inv)

lemma no_sessions_inv: "sessions_inv no_sessions"
  by (simp add: sessions_inv_def ids_ok_def no_sessions_def gates_def)

interpretation sessions: machine session_step sessions_inv
  by unfold_locales (rule session_step_inv)

section \<open>Idle sessions\<close>

definition live :: "timer_state \<Rightarrow> bool" where
  "live st \<longleftrightarrow> st = Armed \<or> st = Fired"

definition pending :: "session_sys \<Rightarrow> nat \<Rightarrow> bool" where
  "pending s i \<longleftrightarrow> (\<exists>t < length (ss_timers s). fst (ss_timers s ! t) = i \<and> live (snd (ss_timers s ! t)))"

definition attended :: "session_sys \<Rightarrow> bool" where
  "attended s \<longleftrightarrow> (\<forall>i < length (ss_sessions s).
     (dn_gateRelease (ss_sessions s ! i) \<and> serving i (ss_requests s) = 0 \<longrightarrow> pending s i \<or> Joining i \<in> set (ss_requests s)) \<and>
     (\<forall>t. dn_idle (ss_sessions s ! i) = Some t \<longrightarrow> live (snd (ss_timers s ! t))))"

lemma attendedD:
  assumes "attended s" and "i < length (ss_sessions s)"
  shows "\<lbrakk>dn_gateRelease (ss_sessions s ! i); serving i (ss_requests s) = 0\<rbrakk> \<Longrightarrow> pending s i \<or> Joining i \<in> set (ss_requests s)"
    and "dn_idle (ss_sessions s ! i) = Some t \<Longrightarrow> live (snd (ss_timers s ! t))"
  using assms by (auto simp: attended_def)

lemma attended_update:
  assumes inv: "sessions_inv s" and att: "attended s" and d: "ss_sessions s' = (ss_sessions s)[i := d']" and i: "i < length (ss_sessions s)"
    and reqs: "\<And>j. j \<noteq> i \<Longrightarrow> Joining j \<in> set (ss_requests s) \<Longrightarrow> Joining j \<in> set (ss_requests s')"
    and serve: "\<And>j. j \<noteq> i \<Longrightarrow> serving j (ss_requests s') = serving j (ss_requests s)"
    and timers: "\<And>t. t < length (ss_timers s) \<Longrightarrow> fst (ss_timers s ! t) \<noteq> i \<Longrightarrow> t < length (ss_timers s') \<and> ss_timers s' ! t = ss_timers s ! t"
    and own: "\<lbrakk>dn_gateRelease d'; serving i (ss_requests s') = 0\<rbrakk> \<Longrightarrow> pending s' i \<or> Joining i \<in> set (ss_requests s')"
      "\<And>t. dn_idle d' = Some t \<Longrightarrow> live (snd (ss_timers s' ! t))"
  shows "attended s'"
  unfolding attended_def d length_list_update
proof (intro allI impI)
  fix j assume j: "j < length (ss_sessions s)"
  show "(dn_gateRelease ((ss_sessions s)[i := d'] ! j) \<and> serving j (ss_requests s') = 0 \<longrightarrow> pending s' j \<or> Joining j \<in> set (ss_requests s')) \<and>
    (\<forall>t. dn_idle ((ss_sessions s)[i := d'] ! j) = Some t \<longrightarrow> live (snd (ss_timers s' ! t)))"
  proof (cases "j = i")
    case True
    then show ?thesis using own j by simp
  next
    case False
    note A = attendedD [OF att j] and D = session_okD(7) [OF sessions_invD(1) [OF inv j]]
    have "pending s j \<Longrightarrow> pending s' j" using timers False unfolding pending_def by metis
    moreover have "dn_idle (ss_sessions s ! j) = Some t \<Longrightarrow> live (snd (ss_timers s' ! t))" for t
      using A(2) [of t] D [of t] timers [of t] False by simp
    ultimately show ?thesis using A(1) reqs serve False by auto
  qed
qed

lemma keep_joining: "\<lbrakk>Joining j \<in> set rs; rs ! r \<noteq> Joining j; r < length rs\<rbrakk> \<Longrightarrow> Joining j \<in> set (rs[r := p])"
  by (auto simp: in_set_conv_nth nth_list_update)

lemma stop_timer_other:
  assumes "\<And>x. o' = Some x \<Longrightarrow> fst (ss_timers s ! x) = i" and "fst (ss_timers s ! t) \<noteq> i"
  shows "ss_timers (stop_timer o' s) ! t = ss_timers s ! t"
proof (cases o')
  case (Some x)
  then have "x \<noteq> t" using assms by blast
  then show ?thesis using Some by (simp add: stop_timer_def split: prod.split)
qed (simp add: stop_timer_def)

lemma attended_step:
  assumes inv: "sessions_inv s" and att: "attended s" and e: "\<And>r. e \<noteq> DGiveUp r" "\<And>r n. e = DJoined r n \<Longrightarrow> 1 \<le> n"
  shows "attended (session_step e s)"
proof (cases e)
  case (DArrive key)
  then show ?thesis using att by (simp add: attended_def pending_def)
next
  case (DEnter r)
  show ?thesis
  proof (cases "r < length (ss_requests s) \<and> (\<exists>key. ss_requests s ! r = Outside key)")
    case True
    then obtain key where r: "r < length (ss_requests s)" "ss_requests s ! r = Outside key" by blast
    have s': "session_step e s = enter_session r key s" using r by (simp add: DEnter)
    show ?thesis
    proof (cases "ss_map s key")
      case (Some i)
      have i: "i < length (ss_sessions s)" using sessions_invD(4) [OF inv Some] by simp
      have idle: "dn_idle (ss_sessions s ! i) = Some t \<Longrightarrow> fst (ss_timers s ! t) = i" for t
        using session_okD(7) [OF sessions_invD(1) [OF inv i]] by blast
      show ?thesis
        unfolding s'
      proof (rule attended_update [OF inv att _ i, where d' = "(ss_sessions s ! i)\<lparr>dn_idle := None\<rparr>"])
        fix t assume t: "t < length (ss_timers s)" "fst (ss_timers s ! t) \<noteq> i"
        then show "t < length (ss_timers (enter_session r key s)) \<and> ss_timers (enter_session r key s) ! t = ss_timers s ! t"
          using stop_timer_other [of "dn_idle (ss_sessions s ! i)" s i t] idle by (simp add: enter_session_def Some)
      qed (use r in \<open>auto simp: enter_session_def Some serving_update set_update_memI intro: keep_joining split: if_splits\<close>)
    next
      case None
      have "Joining j \<in> set (ss_requests s) \<Longrightarrow> Joining j \<in> set ((ss_requests s)[r := Leasing n])" for j n using r keep_joining by auto
      then show ?thesis
        unfolding s' using att r
        by (auto simp: attended_def enter_session_def None Let_def nth_append less_Suc_eq serving_update pending_def)
    qed
  qed (use att in \<open>auto simp: DEnter split: request.split\<close>)
next
  case (DLeased r ok)
  show ?thesis
  proof (cases "r < length (ss_requests s) \<and> (\<exists>i. ss_requests s ! r = Leasing i)")
    case True
    then obtain i where r: "r < length (ss_requests s)" "ss_requests s ! r = Leasing i" by blast
    have i: "i < length (ss_sessions s)" using sessions_invD(2) [OF inv r(1), of i] r(2) by simp
    note D = session_okD [OF sessions_invD(1) [OF inv i]]
    have nr: "\<not> dn_ready (ss_sessions s ! i)" using leasing_pos [OF r] D(2) by (auto split: if_splits)
    let ?d = "ss_sessions (session_leased r i ok s) ! i"
    have "attended (session_leased r i ok s)"
    proof (rule attended_update [OF inv att _ i, where d' = ?d])
      show "pending (session_leased r i ok s) i \<or> Joining i \<in> set (ss_requests (session_leased r i ok s))"
        if "dn_gateRelease ?d" "serving i (ss_requests (session_leased r i ok s)) = 0"
      proof -
        have "ok" using that(1) i D(5) [OF nr] by (auto simp: session_leased_def Let_def split: if_splits)
        moreover have "0 < serving i ((ss_requests s)[r := Serving i])" using r(1) serving_pos [of r "(ss_requests s)[r := Serving i]" i] by simp
        ultimately show ?thesis using that(2) by (simp add: session_leased_def)
      qed
    qed (use r i D(5) [OF nr] in \<open>auto simp: session_leased_def Let_def serving_update intro: keep_joining split: if_splits\<close>)
    then show ?thesis using r by (simp add: DLeased)
  qed (use att in \<open>auto simp: DLeased split: request.split\<close>)
next
  case (DJoined r maxConns)
  show ?thesis
  proof (cases "r < length (ss_requests s) \<and> (\<exists>i. ss_requests s ! r = Joining i \<and> dn_ready (ss_sessions s ! i))")
    case True
    then obtain i where r: "r < length (ss_requests s)" "ss_requests s ! r = Joining i" "dn_ready (ss_sessions s ! i)" by blast
    have i: "i < length (ss_sessions s)" using sessions_invD(2) [OF inv r(1), of i] r(2) by simp
    note D = session_okD [OF sessions_invD(1) [OF inv i]]
    have n: "1 \<le> maxConns" using e(2) DJoined by blast
    let ?s' = "session_joined r i maxConns s"
    have "attended ?s'"
    proof (rule attended_update [OF inv att _ i, where d' = "ss_sessions ?s' ! i"])
      show "pending ?s' i \<or> Joining i \<in> set (ss_requests ?s')"
        if "dn_gateRelease (ss_sessions ?s' ! i)" "serving i (ss_requests ?s') = 0"
      proof -
        let ?d = "ss_sessions s ! i"
        have g: "dn_gateRelease ?d" using that(1) i by (auto simp: session_joined_def Let_def split: if_splits)
        have m: "ss_map s (dn_key ?d) = Some i" "\<not> dn_acquireErr ?d" using g D(3,6) by blast+
        show ?thesis
        proof (cases "dn_active ?d \<ge> maxConns")
          case True
          then have "0 < serving i (ss_requests s)" using D(1) n by simp
          then show ?thesis using that(2) True m r by (simp add: session_joined_def serving_update)
        next
          case False
          then show ?thesis using that(2) m r counts_simps(1) [of i "ss_requests s"] by (simp add: session_joined_def serving_update)
        qed
      qed
    qed (use r i attendedD(2) [OF att i] in \<open>auto simp: session_joined_def Let_def serving_update intro: keep_joining split: if_splits\<close>)
    then show ?thesis using r by (simp add: DJoined)
  qed (use att in \<open>auto simp: DJoined split: request.split\<close>)
next
  case (DGiveUp r)
  then show ?thesis using e(1) by blast
next
  case (DEnd r grace)
  show ?thesis
  proof (cases "r < length (ss_requests s) \<and> (\<exists>i. ss_requests s ! r = Serving i)")
    case True
    then obtain i where r: "r < length (ss_requests s)" "ss_requests s ! r = Serving i" by blast
    have i: "i < length (ss_sessions s)" using sessions_invD(2) [OF inv r(1), of i] r(2) by simp
    note D = session_okD [OF sessions_invD(1) [OF inv i]] and A = attendedD [OF att i]
    let ?s' = "downloadRequestRelease r i grace s" and ?d = "ss_sessions s ! i"
    have a: "0 < dn_active ?d" using serving_pos [OF r] D(1) by simp
    have "attended ?s'"
    proof (rule attended_update [OF inv att _ i, where d' = "ss_sessions ?s' ! i"])
      show "pending ?s' i \<or> Joining i \<in> set (ss_requests ?s')"
        if g: "dn_gateRelease (ss_sessions ?s' ! i)" and z: "serving i (ss_requests ?s') = 0"
      proof -
        have one: "dn_active ?d = 1" using z D(1) r by (auto simp: downloadRequestRelease_def Let_def serving_update split: if_splits)
        show ?thesis
        proof (cases "dn_idle ?d")
          case (Some t)
          have "t < length (ss_timers s)" "fst (ss_timers s ! t) = i" "live (snd (ss_timers s ! t))" using D(7) A(2) Some by blast+
          then show ?thesis using i one Some unfolding pending_def by (auto simp: downloadRequestRelease_def Let_def)
        next
          case None
          then have "grace > 0" using g i one by (auto simp: downloadRequestRelease_def Let_def split: if_splits)
          then have "ss_timers ?s' = ss_timers s @ [(i, Armed)]" using None i one by (simp add: downloadRequestRelease_def Let_def)
          then show ?thesis unfolding pending_def live_def by (intro disjI1 exI [of _ "length (ss_timers s)"]) simp
        qed
      qed
    next
      fix t assume t: "dn_idle (ss_sessions ?s' ! i) = Some t"
      show "live (snd (ss_timers ?s' ! t))"
      proof (cases "dn_idle ?d")
        case None
        then show ?thesis using t i by (auto simp: downloadRequestRelease_def Let_def live_def split: if_splits)
      next
        case (Some u)
        then have "dn_idle (ss_sessions ?s' ! i) = Some u" "ss_timers ?s' = ss_timers s"
          using i by (simp_all add: downloadRequestRelease_def Let_def)
        then show ?thesis using t A(2) [OF Some] by simp
      qed
    qed (use r i a in \<open>auto simp: downloadRequestRelease_def Let_def serving_update nth_append intro: keep_joining split: if_splits\<close>)
    then show ?thesis using r by (simp add: DEnd)
  qed (use att in \<open>auto simp: DEnd split: request.split\<close>)
next
  case (DFire t)
  show ?thesis
  proof (cases "t < length (ss_timers s) \<and> snd (ss_timers s ! t) = Armed")
    case True
    then have t: "t < length (ss_timers s)" by simp
    let ?s' = "s\<lparr>ss_timers := (ss_timers s)[t := (fst (ss_timers s ! t), Fired)]\<rparr>"
    have l: "live (snd (ss_timers s ! u)) \<Longrightarrow> live (snd (ss_timers ?s' ! u))" for u
      using t by (auto simp: nth_list_update live_def)
    then have "pending s j \<Longrightarrow> pending ?s' j" for j unfolding pending_def by (auto simp: fst_update)
    then have "attended ?s'" using att l unfolding attended_def by auto
    then show ?thesis using True by (simp add: DFire)
  qed (use att in \<open>auto simp: DFire\<close>)
next
  case (DRun t)
  show ?thesis
  proof (cases "t < length (ss_timers s) \<and> snd (ss_timers s ! t) = Fired")
    case True
    let ?i = "fst (ss_timers s ! t)" and ?s' = "timer_runs t s"
    have i: "?i < length (ss_sessions s)" using sessions_invD(3) [OF inv] True by simp
    note D = session_okD [OF sessions_invD(1) [OF inv i]]
    have o: "u \<noteq> t" if "fst (ss_timers s ! u) \<noteq> ?i" for u using that by blast
    have "attended ?s'"
    proof (rule attended_update [OF inv att _ i, where d' = "ss_sessions ?s' ! ?i"])
      show "pending ?s' ?i \<or> Joining ?i \<in> set (ss_requests ?s')"
        if "dn_gateRelease (ss_sessions ?s' ! ?i)" "serving ?i (ss_requests ?s') = 0"
        using that i D(1) by (auto simp: timer_runs_def Let_def split: if_splits)
      show "u < length (ss_timers ?s') \<and> ss_timers ?s' ! u = ss_timers s ! u"
        if "u < length (ss_timers s)" "fst (ss_timers s ! u) \<noteq> ?i" for u
        using that o [OF that(2)] by (auto simp: timer_runs_def Let_def)
    qed (use i in \<open>auto simp: timer_runs_def Let_def split: if_splits\<close>)
    then show ?thesis using True by (simp add: DRun)
  qed (use att in \<open>auto simp: DRun\<close>)
next
  case (DBytes key n)
  show ?thesis
  proof (cases "key = [] \<or> n \<le> 0 \<or> ss_map s key = None")
    case False
    then obtain i where m: "ss_map s key = Some i" by blast
    have i: "i < length (ss_sessions s)" using sessions_invD(4) [OF inv m] by simp
    have "attended (on_session i (\<lambda>d. d\<lparr>dn_transferred := dn_transferred d + n\<rparr>) s)"
    proof (rule attended_update [OF inv att _ i])
      show "ss_sessions (on_session i (\<lambda>d. d\<lparr>dn_transferred := dn_transferred d + n\<rparr>) s) =
          (ss_sessions s)[i := (ss_sessions s ! i)\<lparr>dn_transferred := dn_transferred (ss_sessions s ! i) + n\<rparr>]" by simp
    qed (use attendedD [OF att i] in \<open>auto simp: pending_def\<close>)
    then show ?thesis using False m by (simp add: DBytes RecordDownloadSessionBytes_def)
  qed (use att in \<open>auto simp: DBytes RecordDownloadSessionBytes_def\<close>)
qed

section \<open>Properties\<close>

lemma reached_sessions: "sessions_inv (fold session_step es no_sessions)"
  by (rule sessions.inv_run [OF no_sessions_inv])

text \<open>C12: whatever the interleaving of requests, timers and answers of the scheduler, a request that is
being served belongs to a session that holds its task slot and is the one found under its key, the
session counts exactly the requests it serves, and every slot taken from the limiter is held by one
session or has been returned, each once.\<close>

theorem sessions_hold_their_slot:
  assumes "s = fold session_step es no_sessions" and "r < length (ss_requests s)" and "ss_requests s ! r = Serving i"
  shows "dn_gateRelease (ss_sessions s ! i) \<and> ss_map s (dn_key (ss_sessions s ! i)) = Some i \<and>
    dn_active (ss_sessions s ! i) = serving i (ss_requests s) \<and> ss_acquired s - ss_returned s = gates (ss_sessions s)"
proof -
  have inv: "sessions_inv s" unfolding assms(1) by (rule reached_sessions)
  have i: "i < length (ss_sessions s)" using sessions_invD(2) [OF inv assms(2), of i] assms(3) by simp
  note D = session_okD [OF sessions_invD(1) [OF inv i]]
  have "dn_gateRelease (ss_sessions s ! i)" using D(1,4) serving_pos [OF assms(2,3)] by simp
  then show ?thesis using D(1,3) inv by (simp add: sessions_inv_def)
qed

definition shared_download :: "session_event list" where
  "shared_download = [DArrive ''k'', DArrive ''k'', DEnter 0, DEnter 1, DLeased 0 True, DEnd 0 30, DJoined 1 8, DFire 0, DRun 0]"

theorem sessions_hold_their_slot_witness:
  "let s = fold session_step shared_download no_sessions in
     dn_gateRelease (ss_sessions s ! 0) \<and> dn_active (ss_sessions s ! 0) = 1 \<and> ss_acquired s - ss_returned s = 1"
proof -
  let ?s = "fold session_step shared_download no_sessions"
  have r: "1 < length (ss_requests ?s)" "ss_requests ?s ! 1 = Serving 0" by code_simp+
  have g: "serving 0 (ss_requests ?s) = 1" "gates (ss_sessions ?s) = 1" by code_simp+
  show ?thesis using sessions_hold_their_slot [OF refl r] g by (simp add: Let_def)
qed

text \<open>A slot is never forgotten as long as no waiting request gives up: a session that holds its slot
and serves nobody either has a grace timer under way, which will return the slot, or a request that is
about to join.\<close>

theorem idle_session_returns_slot:
  assumes "s = fold session_step es no_sessions" and "\<forall>r. DGiveUp r \<notin> set es" and "\<forall>r n. DJoined r n \<in> set es \<longrightarrow> 1 \<le> n"
    and "i < length (ss_sessions s)" and "dn_gateRelease (ss_sessions s ! i)" and "serving i (ss_requests s) = 0"
  shows "pending s i \<or> Joining i \<in> set (ss_requests s)"
proof -
  have "sessions_inv no_sessions \<and> attended no_sessions" using no_sessions_inv by (simp add: attended_def no_sessions_def)
  then have "sessions_inv s \<and> attended s"
    unfolding assms(1)
  proof (rule fold_invariant [where P = "\<lambda>s. sessions_inv s \<and> attended s", rotated])
    fix e s assume "e \<in> set es" and "sessions_inv s \<and> attended s"
    then show "sessions_inv (session_step e s) \<and> attended (session_step e s)"
      using assms(2,3) by (auto intro!: session_step_inv attended_step)
  qed
  then show ?thesis using assms(4-6) attendedD(1) by blast
qed

theorem idle_session_returns_slot_witness:
  "let s = fold session_step [DArrive ''k'', DEnter 0, DLeased 0 True, DEnd 0 30, DFire 0] no_sessions in
     dn_gateRelease (ss_sessions s ! 0) \<and> pending s 0"
proof -
  let ?es = "[DArrive ''k'', DEnter 0, DLeased 0 True, DEnd 0 30, DFire 0]"
  let ?s = "fold session_step ?es no_sessions"
  have g: "0 < length (ss_sessions ?s)" "dn_gateRelease (ss_sessions ?s ! 0)" "serving 0 (ss_requests ?s) = 0" "Joining 0 \<notin> set (ss_requests ?s)"
    by code_simp+
  have "pending ?s 0 \<or> Joining 0 \<in> set (ss_requests ?s)"
    by (rule idle_session_returns_slot [OF refl _ _ g(1-3)]) auto
  then show ?thesis using g by (simp add: Let_def)
qed

section \<open>Where the code falls short\<close>

text \<open>A request that joins an idle session stops its timer and then waits for \<open>ready\<close>, which is already
closed, and for its own context, which may have ended too: the \<open>select\<close> then picks either.  If it gives
up, nothing arms the timer again: the session keeps its task slot although nothing runs, and no event
but a new request for the same key can change that.\<close>

lemma given_up_join_leaks_slot:
  "let s = fold session_step [DArrive ''k'', DEnter 0, DLeased 0 True, DEnd 0 30, DArrive ''k'', DEnter 1, DGiveUp 1] no_sessions in
     ss_requests s = [Over, Over] \<and> ss_acquired s - ss_returned s = 1 \<and> map snd (ss_timers s) = [Stopped]"
  by code_simp

end
