(* ===== verification/Leases.thy ===== *)
theory Leases
  imports Counting
begin

text \<open>
  The leases of browser uploads, \<open>internal/drive/limiter.go\<close>: the segment requests of one job share one
  task slot and one account, taken by the first request and given back once the job is closed and the
  last request has ended.  Leases and requests are numbered in the order of their creation; every section
  under \<open>uploadJobsMu\<close> is one event, so event lists are interleavings.  What \<open>leaseUpload\<close> answers (an
  account or an error) is part of the event, and giving its slot back is counted.
\<close>

section \<open>State\<close>

record uploadJobLease =
  ul_id :: string
  ul_account :: "nat option"
  ul_quota :: "int option"
  ul_ready :: bool
  ul_gateRelease :: bool
  ul_acquireErr :: bool
  ul_active :: int
  ul_closed :: bool
  ul_cancelled :: bool

text \<open>A request: not admitted yet, waiting for a lease's \<open>ready\<close>, asking for the slot of a lease it has
  made, writing through the account of its lease, or over.\<close>

datatype job_request = Arrived string | Waiting nat | Admitting nat | Writing nat "nat option" | Ended

record lease_sys =
  us_leases :: "uploadJobLease list"
  us_map :: "string \<Rightarrow> nat option"
  us_requests :: "job_request list"
  us_acquired :: int
  us_returned :: int

definition no_leases :: lease_sys where
  "no_leases = \<lparr>us_leases = [], us_map = (\<lambda>_. None), us_requests = [], us_acquired = 0, us_returned = 0\<rparr>"

definition on_lease :: "nat \<Rightarrow> (uploadJobLease \<Rightarrow> uploadJobLease) \<Rightarrow> lease_sys \<Rightarrow> lease_sys" where
  "on_lease i f s = s\<lparr>us_leases := (us_leases s)[i := f (us_leases s ! i)]\<rparr>"

definition job_request_is :: "nat \<Rightarrow> job_request \<Rightarrow> lease_sys \<Rightarrow> lease_sys" where
  "job_request_is r p s = s\<lparr>us_requests := (us_requests s)[r := p]\<rparr>"

text \<open>\<open>delete(s.uploadJobs, id)\<close> when the map still holds this lease.\<close>

definition forget_lease :: "nat \<Rightarrow> lease_sys \<Rightarrow> lease_sys" where
  "forget_lease i s =
     (let jid = ul_id (us_leases s ! i)
      in if us_map s jid = Some i then s\<lparr>us_map := (us_map s)(jid := None)\<rparr> else s)"

definition return_gate :: "nat \<Rightarrow> lease_sys \<Rightarrow> lease_sys" where
  "return_gate i s =
     (if ul_gateRelease (us_leases s ! i)
      then on_lease i (\<lambda>l. l\<lparr>ul_gateRelease := False\<rparr>) (s\<lparr>us_returned := us_returned s + 1\<rparr>) else s)"

section \<open>Sections\<close>

text \<open>\<open>AcquireUploadJob\<close>: the first section, the one after \<open>leaseUpload\<close>, and the one after \<open>ready\<close>.\<close>

definition enter_job :: "nat \<Rightarrow> string \<Rightarrow> lease_sys \<Rightarrow> lease_sys" where
  "enter_job r jid s =
     (case us_map s jid of
        Some i \<Rightarrow> job_request_is r (if ul_closed (us_leases s ! i) then Ended else Waiting i) s
      | None \<Rightarrow>
          let i = length (us_leases s)
          in job_request_is r (Admitting i) (s\<lparr>us_leases := us_leases s @
               [\<lparr>ul_id = jid, ul_account = None, ul_quota = None, ul_ready = False, ul_gateRelease = False,
                 ul_acquireErr = False, ul_active = 0, ul_closed = False, ul_cancelled = False\<rparr>],
               us_map := (us_map s)(jid \<mapsto> i)\<rparr>))"

definition job_leased :: "nat \<Rightarrow> nat \<Rightarrow> nat option \<Rightarrow> lease_sys \<Rightarrow> lease_sys" where
  "job_leased r i answer s =
     (case answer of
        None \<Rightarrow> job_request_is r Ended (forget_lease i (on_lease i (\<lambda>l. l\<lparr>ul_acquireErr := True, ul_ready := True\<rparr>) s))
      | Some account \<Rightarrow>
          if ul_closed (us_leases s ! i)
          then job_request_is r Ended (forget_lease i (on_lease i (\<lambda>l. l\<lparr>ul_acquireErr := True, ul_ready := True\<rparr>)
                 (s\<lparr>us_acquired := us_acquired s + 1, us_returned := us_returned s + 1\<rparr>)))
          else job_request_is r (Writing i (Some account))
                 (on_lease i (\<lambda>l. l\<lparr>ul_acquireErr := False, ul_account := Some account, ul_quota := Some 0,
                    ul_gateRelease := True, ul_active := 1, ul_ready := True\<rparr>) (s\<lparr>us_acquired := us_acquired s + 1\<rparr>)))"

definition job_joined :: "nat \<Rightarrow> nat \<Rightarrow> lease_sys \<Rightarrow> lease_sys" where
  "job_joined r i s =
     (let l = us_leases s ! i
      in if ul_acquireErr l \<or> ul_closed l then job_request_is r Ended s
         else job_request_is r (Writing i (ul_account l))
                (on_lease i (\<lambda>l. l\<lparr>ul_active := ul_active l + 1\<rparr>) s))"

definition uploadRequestRelease :: "nat \<Rightarrow> nat \<Rightarrow> lease_sys \<Rightarrow> lease_sys" where
  "uploadRequestRelease r i s =
     (let s1 = job_request_is r Ended (on_lease i (\<lambda>l. if ul_active l > 0 then l\<lparr>ul_active := ul_active l - 1\<rparr> else l) s);
          l = us_leases s1 ! i
      in if ul_closed l \<and> ul_active l = 0 then return_gate i (forget_lease i s1) else s1)"

text \<open>The bytes a closed job is charged with: those the caller names, else those of a job that has ended.\<close>

definition close_job :: "string \<Rightarrow> int \<Rightarrow> lease_sys \<Rightarrow> lease_sys" where
  "close_job jid actual s =
     (case us_map s jid of
        None \<Rightarrow> s
      | Some i \<Rightarrow>
          let s1 = on_lease i (\<lambda>l. l\<lparr>ul_closed := True, ul_cancelled := True,
                 ul_quota := (if ul_quota l = None then None else Some actual)\<rparr>) s;
              l = us_leases s1 ! i
          in if ul_active l = 0 \<and> ul_gateRelease l
             then return_gate i (s1\<lparr>us_map := (us_map s1)(jid := None)\<rparr>) else s1)"

datatype lease_event = UArrive string | UEnter nat | ULeased nat "nat option" | UJoined nat | UGiveUp nat | UEnd nat | UClose string int

fun job_lease_step :: "lease_event \<Rightarrow> lease_sys \<Rightarrow> lease_sys" where
  "job_lease_step (UArrive jid) s = s\<lparr>us_requests := us_requests s @ [Arrived jid]\<rparr>"
| "job_lease_step (UEnter r) s =
     (if r < length (us_requests s)
      then case us_requests s ! r of Arrived jid \<Rightarrow> if jid = [] then job_request_is r Ended s else enter_job r jid s | _ \<Rightarrow> s else s)"
| "job_lease_step (ULeased r answer) s =
     (if r < length (us_requests s)
      then case us_requests s ! r of Admitting i \<Rightarrow> job_leased r i answer s | _ \<Rightarrow> s else s)"
| "job_lease_step (UJoined r) s =
     (if r < length (us_requests s)
      then case us_requests s ! r of Waiting i \<Rightarrow> if ul_ready (us_leases s ! i) then job_joined r i s else s | _ \<Rightarrow> s else s)"
| "job_lease_step (UGiveUp r) s =
     (if r < length (us_requests s)
      then case us_requests s ! r of Waiting i \<Rightarrow> job_request_is r Ended s | _ \<Rightarrow> s else s)"
| "job_lease_step (UEnd r) s =
     (if r < length (us_requests s)
      then case us_requests s ! r of Writing i a \<Rightarrow> uploadRequestRelease r i s | _ \<Rightarrow> s else s)"
| "job_lease_step (UClose jid actual) s = close_job jid actual s"

section \<open>The invariant\<close>

definition writes_to :: "nat \<Rightarrow> job_request \<Rightarrow> bool" where
  "writes_to i p = (case p of Writing j a \<Rightarrow> j = i | _ \<Rightarrow> False)"

definition writing :: "nat \<Rightarrow> job_request list \<Rightarrow> int" where
  "writing i rs = cnt (writes_to i) rs"

lemma writes_to_iff: "writes_to i p \<longleftrightarrow> (\<exists>a. p = Writing i a)"
  by (simp add: writes_to_def split: job_request.split)

definition admitting :: "nat \<Rightarrow> job_request list \<Rightarrow> int" where
  "admitting i rs = cnt (\<lambda>p. p = Admitting i) rs"

definition held_gates :: "uploadJobLease list \<Rightarrow> int" where
  "held_gates ls = cnt ul_gateRelease ls"

definition lease_ok :: "lease_sys \<Rightarrow> nat \<Rightarrow> bool" where
  "lease_ok s i \<longleftrightarrow>
     (let l = us_leases s ! i; rs = us_requests s
      in ul_active l = writing i rs \<and> admitting i rs = (if ul_ready l then 0 else 1) \<and>
         (ul_gateRelease l \<or> \<not> ul_ready l \<longrightarrow> us_map s (ul_id l) = Some i) \<and>
         ul_gateRelease l = (ul_ready l \<and> \<not> ul_acquireErr l \<and> (\<not> ul_closed l \<or> 0 < ul_active l)) \<and>
         (0 < ul_active l \<longrightarrow> ul_ready l \<and> \<not> ul_acquireErr l) \<and>
         (ul_gateRelease l \<longrightarrow> ul_account l \<noteq> None) \<and>
         (\<forall>a. a \<noteq> ul_account l \<longrightarrow> Writing i a \<notin> set rs))"

definition lease_ids_ok :: "lease_sys \<Rightarrow> bool" where
  "lease_ids_ok s \<longleftrightarrow>
     (\<forall>p \<in> set (us_requests s). \<forall>i a. p \<in> {Waiting i, Admitting i, Writing i a} \<longrightarrow> i < length (us_leases s)) \<and>
     (\<forall>k i. us_map s k = Some i \<longrightarrow> i < length (us_leases s) \<and> ul_id (us_leases s ! i) = k)"

definition leases_inv :: "lease_sys \<Rightarrow> bool" where
  "leases_inv s \<longleftrightarrow> lease_ids_ok s \<and> (\<forall>i < length (us_leases s). lease_ok s i) \<and>
     us_acquired s = us_returned s + held_gates (us_leases s)"

lemma lease_simps [simp]:
  "us_leases (on_lease i f s) = (us_leases s)[i := f (us_leases s ! i)]" "us_map (on_lease i f s) = us_map s"
  "us_requests (on_lease i f s) = us_requests s"
  "us_acquired (on_lease i f s) = us_acquired s" "us_returned (on_lease i f s) = us_returned s"
  "us_leases (job_request_is r p s) = us_leases s" "us_map (job_request_is r p s) = us_map s"
  "us_requests (job_request_is r p s) = (us_requests s)[r := p]"
  "us_acquired (job_request_is r p s) = us_acquired s" "us_returned (job_request_is r p s) = us_returned s"
  by (simp_all add: on_lease_def job_request_is_def)

lemma forget_simps [simp]:
  "us_leases (forget_lease i s) = us_leases s" "us_requests (forget_lease i s) = us_requests s"
  "us_map (forget_lease i s) = (if us_map s (ul_id (us_leases s ! i)) = Some i then (us_map s)(ul_id (us_leases s ! i) := None) else us_map s)"
  "us_acquired (forget_lease i s) = us_acquired s" "us_returned (forget_lease i s) = us_returned s"
  by (simp_all add: forget_lease_def Let_def)

lemma return_simps [simp]:
  "us_leases (return_gate i s) = (us_leases s)[i := (us_leases s ! i)\<lparr>ul_gateRelease := False\<rparr>]"
  "us_map (return_gate i s) = us_map s" "us_requests (return_gate i s) = us_requests s"
  "us_acquired (return_gate i s) = us_acquired s"
  "us_returned (return_gate i s) = us_returned s + (if ul_gateRelease (us_leases s ! i) then 1 else 0)"
proof -
  have "(us_leases s)[i := (us_leases s ! i)\<lparr>ul_gateRelease := False\<rparr>] = us_leases s" if "\<not> ul_gateRelease (us_leases s ! i)"
  proof -
    have "(us_leases s ! i)\<lparr>ul_gateRelease := False\<rparr> = us_leases s ! i" using that by (cases "us_leases s ! i") simp
    then show ?thesis by simp
  qed
  then show "us_leases (return_gate i s) = (us_leases s)[i := (us_leases s ! i)\<lparr>ul_gateRelease := False\<rparr>]"
    by (simp add: return_gate_def)
qed (simp_all add: return_gate_def)

lemma writing_update: "r < length rs \<Longrightarrow> writing i (rs[r := p]) = writing i rs - (if \<exists>a. rs ! r = Writing i a then 1 else 0) + (if \<exists>a. p = Writing i a then 1 else 0)"
  and admitting_update: "r < length rs \<Longrightarrow> admitting i (rs[r := p]) = admitting i rs - (if rs ! r = Admitting i then 1 else 0) + (if p = Admitting i then 1 else 0)"
  and held_gates_update: "i < length ls \<Longrightarrow> held_gates (ls[i := l]) = held_gates ls - (if ul_gateRelease (ls ! i) then 1 else 0) + (if ul_gateRelease l then 1 else 0)"
  by (simp_all add: writing_def admitting_def held_gates_def cnt_update writes_to_iff)

lemma lease_counts [simp]:
  "0 \<le> writing i rs" "0 \<le> admitting i rs" "writing i (rs @ [Arrived k]) = writing i rs" "admitting i (rs @ [Arrived k]) = admitting i rs"
  "held_gates (ls @ [l]) = held_gates ls + (if ul_gateRelease l then 1 else 0)"
  by (simp_all add: writing_def admitting_def held_gates_def writes_to_iff)

lemma writing_pos: "\<lbrakk>r < length rs; rs ! r = Writing i a\<rbrakk> \<Longrightarrow> 0 < writing i rs"
  and admitting_pos: "\<lbrakk>r < length rs; rs ! r = Admitting i\<rbrakk> \<Longrightarrow> 0 < admitting i rs"
  by (simp_all add: writing_def admitting_def cnt_pos writes_to_iff)

lemma writing_absent: "\<forall>p \<in> set rs. \<forall>a. p \<noteq> Writing i a \<Longrightarrow> writing i rs = 0"
  and admitting_absent: "\<forall>p \<in> set rs. p \<noteq> Admitting i \<Longrightarrow> admitting i rs = 0"
  by (auto simp: writing_def admitting_def writes_to_iff intro: cnt_absent)

lemma updated_request: "p \<in> set (rs[r := q]) \<Longrightarrow> p \<in> set rs \<or> p = q"
  by (meson insert_iff set_update_subset_insert subsetD)

text \<open>What an event that works on the lease \<open>i\<close> has to respect.\<close>

lemma lease_update:
  assumes inv: "leases_inv s" and i: "i < length (us_leases s)"
    and d: "us_leases s' = (us_leases s)[i := l']" "ul_id l' = ul_id (us_leases s ! i)"
    and map: "\<And>k. us_map s' k = us_map s k \<or> us_map s k = Some i \<and> us_map s' k = None"
    and reqs: "us_requests s' = (us_requests s)[r := p]"
    and self: "r < length (us_requests s) \<Longrightarrow> p \<in> {Ended, Waiting i, Admitting i} \<union> range (Writing i) \<and>
      us_requests s ! r \<in> {Waiting i, Admitting i} \<union> range (Writing i)"
    and own: "lease_ok s' i"
    and slots: "us_acquired s' - us_returned s' = us_acquired s - us_returned s +
      (if ul_gateRelease l' then 1 else 0) - (if ul_gateRelease (us_leases s ! i) then 1 else 0)"
  shows "leases_inv s'"
proof -
  have old: "lease_ids_ok s" "\<And>j. j < length (us_leases s) \<Longrightarrow> lease_ok s j" "us_acquired s = us_returned s + held_gates (us_leases s)"
    using inv by (simp_all add: leases_inv_def)
  have others: "writing j (us_requests s') = writing j (us_requests s) \<and> admitting j (us_requests s') = admitting j (us_requests s) \<and>
      (\<forall>a. Writing j a \<in> set (us_requests s') \<longrightarrow> Writing j a \<in> set (us_requests s))" if "j \<noteq> i" for j
  proof (cases "r < length (us_requests s)")
    case True
    then have "p \<noteq> Admitting j \<and> us_requests s ! r \<noteq> Admitting j \<and> (\<forall>a. p \<noteq> Writing j a \<and> us_requests s ! r \<noteq> Writing j a)"
      using self that by auto
    then show ?thesis using True by (auto simp: reqs writing_update admitting_update dest!: updated_request)
  qed (simp add: reqs list_update_beyond)
  have "lease_ok s' j" if j: "j < length (us_leases s)" for j
  proof (cases "j = i")
    case False
    have m: "us_map s' k = Some j \<longleftrightarrow> us_map s k = Some j" for k using map [of k] False by auto
    have e: "us_leases s' ! j = us_leases s ! j" using False by (simp add: d(1))
    show ?thesis using old(2) [OF j] others [OF False] unfolding lease_ok_def Let_def e m by auto
  qed (use own in simp)
  moreover have "lease_ids_ok s'"
  proof -
    have "q \<in> {Waiting j, Admitting j, Writing j a} \<longrightarrow> j < length (us_leases s)" if q: "q \<in> set (us_requests s')" for q j a
    proof (cases "q \<in> set (us_requests s)")
      case False
      moreover have "r < length (us_requests s)"
        using False q by (cases "r < length (us_requests s)") (simp_all add: reqs list_update_beyond)
      ultimately have "q = p" "r < length (us_requests s)" using q updated_request [of q "us_requests s" r p] by (auto simp: reqs)
      then show ?thesis using self i by auto
    qed (use old(1) in \<open>auto simp: lease_ids_ok_def\<close>)
    moreover have "j < length (us_leases s) \<and> ul_id ((us_leases s)[i := l'] ! j) = k" if "us_map s' k = Some j" for k j
      using map [of k] that old(1) d(2) i by (auto simp: lease_ids_ok_def nth_list_update)
    ultimately show ?thesis by (simp add: lease_ids_ok_def d(1))
  qed
  ultimately show ?thesis using old(3) slots i by (simp add: leases_inv_def d(1) held_gates_update)
qed

lemma leases_invD:
  assumes "leases_inv s"
  shows "i < length (us_leases s) \<Longrightarrow> lease_ok s i"
    and "\<lbrakk>r < length (us_requests s); us_requests s ! r \<in> {Waiting i, Admitting i, Writing i a}\<rbrakk> \<Longrightarrow> i < length (us_leases s)"
    and "us_map s k = Some i \<Longrightarrow> i < length (us_leases s) \<and> ul_id (us_leases s ! i) = k"
proof -
  have ids: "lease_ids_ok s" and ok: "\<forall>i < length (us_leases s). lease_ok s i" using assms by (simp_all add: leases_inv_def)
  show "i < length (us_leases s) \<Longrightarrow> lease_ok s i" using ok by simp
  show "\<lbrakk>r < length (us_requests s); us_requests s ! r \<in> {Waiting i, Admitting i, Writing i a}\<rbrakk> \<Longrightarrow> i < length (us_leases s)"
    using ids unfolding lease_ids_ok_def by (metis nth_mem)
  show "us_map s k = Some i \<Longrightarrow> i < length (us_leases s) \<and> ul_id (us_leases s ! i) = k"
    using ids by (simp add: lease_ids_ok_def)
qed

lemma lease_okD:
  assumes "lease_ok s i"
  shows "ul_active (us_leases s ! i) = writing i (us_requests s)"
    and "admitting i (us_requests s) = (if ul_ready (us_leases s ! i) then 0 else 1)"
    and "ul_gateRelease (us_leases s ! i) \<or> \<not> ul_ready (us_leases s ! i) \<Longrightarrow> us_map s (ul_id (us_leases s ! i)) = Some i"
    and "ul_active (us_leases s ! i) > 0 \<Longrightarrow> ul_gateRelease (us_leases s ! i)"
    and "ul_gateRelease (us_leases s ! i) \<Longrightarrow> ul_ready (us_leases s ! i) \<and> \<not> ul_acquireErr (us_leases s ! i)"
    and "\<lbrakk>ul_gateRelease (us_leases s ! i); ul_closed (us_leases s ! i)\<rbrakk> \<Longrightarrow> ul_active (us_leases s ! i) > 0"
    and "\<lbrakk>ul_ready (us_leases s ! i); \<not> ul_acquireErr (us_leases s ! i); \<not> ul_closed (us_leases s ! i)\<rbrakk> \<Longrightarrow> ul_gateRelease (us_leases s ! i)"
    and "ul_gateRelease (us_leases s ! i) \<Longrightarrow> ul_account (us_leases s ! i) \<noteq> None"
    and "Writing i a \<in> set (us_requests s) \<Longrightarrow> a = ul_account (us_leases s ! i)"
    and "ul_gateRelease (us_leases s ! i) = (ul_ready (us_leases s ! i) \<and> \<not> ul_acquireErr (us_leases s ! i) \<and>
      (\<not> ul_closed (us_leases s ! i) \<or> 0 < ul_active (us_leases s ! i)))"
  using assms unfolding lease_ok_def Let_def by blast+

text \<open>A request that leaves the leases alone.\<close>

lemma quiet_inv:
  assumes "leases_inv s" and r: "r < length (us_requests s)" "\<forall>i a. us_requests s ! r \<notin> {Admitting i, Writing i a}"
    and p: "p = Ended \<or> (\<exists>i. p = Waiting i \<and> i < length (us_leases s))"
  shows "leases_inv (job_request_is r p s)"
proof -
  have w: "writing j ((us_requests s)[r := p]) = writing j (us_requests s)" "admitting j ((us_requests s)[r := p]) = admitting j (us_requests s)" for j
    using r p by (auto simp: writing_update admitting_update)
  have m: "Writing j a \<in> set ((us_requests s)[r := p]) \<Longrightarrow> Writing j a \<in> set (us_requests s)" for j a
    using p by (auto dest!: updated_request)
  have "lease_ok (job_request_is r p s) j" if "j < length (us_leases s)" for j
    using leases_invD(1) [OF assms(1) that] m unfolding lease_ok_def Let_def by (auto simp: w)
  moreover have "lease_ids_ok (job_request_is r p s)"
    using assms(1) p by (auto simp: leases_inv_def lease_ids_ok_def dest!: updated_request)
  ultimately show ?thesis using assms(1) by (simp add: leases_inv_def)
qed

lemma arrive_lease_inv: "leases_inv s \<Longrightarrow> leases_inv (s\<lparr>us_requests := us_requests s @ [Arrived jid]\<rparr>)"
  by (simp add: leases_inv_def lease_ids_ok_def lease_ok_def Let_def)

lemma enter_job_inv:
  assumes inv: "leases_inv s" and r: "r < length (us_requests s)" "us_requests s ! r = Arrived jid"
  shows "leases_inv (enter_job r jid s)"
proof (cases "us_map s jid")
  case (Some i)
  have "i < length (us_leases s)" using leases_invD(3) [OF inv Some] by simp
  then show ?thesis using quiet_inv [OF inv r(1)] r(2) by (simp add: enter_job_def Some)
next
  case None
  let ?n = "length (us_leases s)" and ?s' = "enter_job r jid s"
  let ?l = "\<lparr>ul_id = jid, ul_account = None, ul_quota = None, ul_ready = False, ul_gateRelease = False,
      ul_acquireErr = False, ul_active = 0, ul_closed = False, ul_cancelled = False\<rparr>"
  have s': "?s' = job_request_is r (Admitting ?n) (s\<lparr>us_leases := us_leases s @ [?l], us_map := (us_map s)(jid \<mapsto> ?n)\<rparr>)"
    by (simp add: enter_job_def None Let_def)
  have ids: "lease_ids_ok s" using inv by (simp add: leases_inv_def)
  have m: "Writing j a \<in> set (us_requests ?s') \<Longrightarrow> Writing j a \<in> set (us_requests s)" for j a
    by (auto simp: s' dest!: updated_request)
  have "lease_ok ?s' j" if j: "j < ?n" for j
  proof -
    have "us_map s (ul_id (us_leases s ! j)) = Some j \<Longrightarrow> ul_id (us_leases s ! j) \<noteq> jid" using None by auto
    then show ?thesis
      using leases_invD(1) [OF inv j] r j m unfolding lease_ok_def Let_def s' by (auto simp: writing_update admitting_update nth_append)
  qed
  moreover have "lease_ok ?s' ?n"
  proof -
    have "writing ?n (us_requests s) = 0" "admitting ?n (us_requests s) = 0" "\<And>a. Writing ?n a \<notin> set (us_requests s)"
      using ids by (auto simp: lease_ids_ok_def intro: writing_absent admitting_absent)
    then show ?thesis using r m [of ?n] unfolding lease_ok_def Let_def s' by (auto simp: writing_update admitting_update)
  qed
  moreover have "lease_ids_ok ?s'"
    using ids by (auto simp: lease_ids_ok_def s' nth_append less_Suc_eq dest!: updated_request split: if_splits)
  ultimately show ?thesis
    using inv by (auto simp: leases_inv_def s' less_Suc_eq)
qed

lemma leased_job_inv:
  assumes inv: "leases_inv s" and r: "r < length (us_requests s)" "us_requests s ! r = Admitting i"
  shows "leases_inv (job_leased r i answer s)"
proof -
  have i: "i < length (us_leases s)" using leases_invD(2) [OF inv r(1), of i] r(2) by simp
  note o = leases_invD(1) [OF inv i]
  note D = lease_okD [OF o]
  let ?l = "us_leases s ! i"
  have nr: "\<not> ul_ready ?l" using admitting_pos [OF r] D(2) by (auto split: if_splits)
  then have ng: "\<not> ul_gateRelease ?l" using D(5) by blast
  then have z: "writing i (us_requests s) = 0" using D(1,4) by (metis lease_counts(1) order_le_less)
  have nw: "Writing i a \<notin> set (us_requests s)" for a using z writing_pos by (metis in_set_conv_nth less_irrefl)
  have m: "us_map s (ul_id ?l) = Some i" using D(3) nr by blast
  have one: "admitting i (us_requests s) = 1" using D(2) nr by simp
  consider (ok) a where "answer = Some a" "\<not> ul_closed ?l" | (failed) "answer = None" | (closed) a where "answer = Some a" "ul_closed ?l"
    by (cases answer) auto
  then show ?thesis
  proof cases
    case ok
    let ?l' = "?l\<lparr>ul_acquireErr := False, ul_account := Some a, ul_quota := Some 0, ul_gateRelease := True, ul_active := 1, ul_ready := True\<rparr>"
    show ?thesis
    proof (rule lease_update [OF inv i, where r = r and p = "Writing i (Some a)" and l' = ?l'])
      show "lease_ok (job_leased r i answer s) i"
        using ok i r z m one nw unfolding lease_ok_def Let_def job_leased_def
        by (auto simp: writing_update admitting_update dest!: updated_request)
    qed (use ok ng r in \<open>auto simp: job_leased_def\<close>)
  next
    case failed
    let ?l' = "?l\<lparr>ul_acquireErr := True, ul_ready := True\<rparr>"
    show ?thesis
    proof (rule lease_update [OF inv i, where r = r and p = "Ended" and l' = ?l'])
      show "lease_ok (job_leased r i answer s) i"
        using failed i r z m one nw ng D(1) unfolding lease_ok_def Let_def job_leased_def
        by (auto simp: writing_update admitting_update dest!: updated_request)
    qed (use failed ng r i in \<open>auto simp: job_leased_def\<close>)
  next
    case closed
    let ?l' = "?l\<lparr>ul_acquireErr := True, ul_ready := True\<rparr>"
    show ?thesis
    proof (rule lease_update [OF inv i, where r = r and p = "Ended" and l' = ?l'])
      show "lease_ok (job_leased r i answer s) i"
        using closed i r z m one nw ng D(1) unfolding lease_ok_def Let_def job_leased_def
        by (auto simp: writing_update admitting_update dest!: updated_request)
    qed (use closed ng r i in \<open>auto simp: job_leased_def\<close>)
  qed
qed

lemma joined_job_inv:
  assumes inv: "leases_inv s" and r: "r < length (us_requests s)" "us_requests s ! r = Waiting i" and ready: "ul_ready (us_leases s ! i)"
  shows "leases_inv (job_joined r i s)"
proof (cases "ul_acquireErr (us_leases s ! i) \<or> ul_closed (us_leases s ! i)")
  case True
  then show ?thesis using quiet_inv [OF inv r(1)] r(2) by (simp add: job_joined_def)
next
  case False
  have i: "i < length (us_leases s)" using leases_invD(2) [OF inv r(1), of i] r(2) by simp
  note o = leases_invD(1) [OF inv i]
  note D = lease_okD [OF o]
  have g: "ul_gateRelease (us_leases s ! i)" using D(7) ready False by blast
  let ?l = "us_leases s ! i"
  let ?l' = "?l\<lparr>ul_active := ul_active ?l + 1\<rparr>"
  have s': "job_joined r i s = job_request_is r (Writing i (ul_account ?l)) (on_lease i (\<lambda>l. l\<lparr>ul_active := ul_active l + 1\<rparr>) s)"
    using False by (simp add: job_joined_def Let_def)
  show ?thesis
    unfolding s'
  proof (rule lease_update [OF inv i, where r = r and p = "Writing i (ul_account ?l)" and l' = ?l'])
    show "lease_ok (job_request_is r (Writing i (ul_account ?l)) (on_lease i (\<lambda>l. l\<lparr>ul_active := ul_active l + 1\<rparr>) s)) i"
      using o i r g unfolding lease_ok_def Let_def by (auto simp: writing_update admitting_update dest!: updated_request)
  qed (use r in auto)
qed

lemma end_job_inv:
  assumes inv: "leases_inv s" and r: "r < length (us_requests s)" "us_requests s ! r = Writing i a"
  shows "leases_inv (uploadRequestRelease r i s)"
proof -
  have i: "i < length (us_leases s)" using leases_invD(2) [OF inv r(1), of i] r(2) by simp
  note o = leases_invD(1) [OF inv i]
  note D = lease_okD [OF o]
  let ?l = "us_leases s ! i"
  have act: "0 < ul_active ?l" using writing_pos [OF r] D(1) by simp
  have g: "ul_gateRelease ?l" using D(4) act by blast
  have m: "us_map s (ul_id ?l) = Some i" using D(3) g by blast
  show ?thesis
  proof (cases "ul_closed ?l \<and> ul_active ?l = 1")
    case True
    show ?thesis
    proof (rule lease_update [OF inv i, where r = r and p = "Ended" and l' = "?l\<lparr>ul_active := 0, ul_gateRelease := False\<rparr>"])
      show "lease_ok (uploadRequestRelease r i s) i"
        using True o i r m unfolding lease_ok_def Let_def uploadRequestRelease_def
        by (auto simp: writing_update admitting_update dest!: updated_request)
    qed (use True r i g m in \<open>auto simp: uploadRequestRelease_def Let_def\<close>)
  next
    case False
    have s': "uploadRequestRelease r i s = job_request_is r Ended (on_lease i (\<lambda>l. if ul_active l > 0 then l\<lparr>ul_active := ul_active l - 1\<rparr> else l) s)"
      using False act i by (auto simp: uploadRequestRelease_def Let_def)
    show ?thesis
      unfolding s'
    proof (rule lease_update [OF inv i, where r = r and p = "Ended" and l' = "?l\<lparr>ul_active := ul_active ?l - 1\<rparr>"])
      show "lease_ok (job_request_is r Ended (on_lease i (\<lambda>l. if ul_active l > 0 then l\<lparr>ul_active := ul_active l - 1\<rparr> else l) s)) i"
        using False o i r act unfolding lease_ok_def Let_def by (auto simp: writing_update admitting_update dest!: updated_request)
    qed (use r act in auto)
  qed
qed

lemma close_job_inv:
  assumes inv: "leases_inv s"
  shows "leases_inv (close_job jid actual s)"
proof (cases "us_map s jid")
  case (Some i)
  have i: "i < length (us_leases s)" "ul_id (us_leases s ! i) = jid" using leases_invD(3) [OF inv Some] by simp_all
  note o = leases_invD(1) [OF inv i(1)]
  note D = lease_okD [OF o]
  let ?l = "us_leases s ! i"
  have w: "writing i (us_requests s) = 0 \<or> 0 < writing i (us_requests s)" by (metis lease_counts(1) order_le_less)
  let ?l1 = "?l\<lparr>ul_closed := True, ul_cancelled := True, ul_quota := (if ul_quota ?l = None then None else Some actual)\<rparr>"
  show ?thesis
  proof (cases "ul_active ?l = 0 \<and> ul_gateRelease ?l")
    case True
    show ?thesis
    proof (rule lease_update [OF inv i(1), where r = "length (us_requests s)" and p = Ended and l' = "?l1\<lparr>ul_gateRelease := False\<rparr>"])
      show "lease_ok (close_job jid actual s) i"
        using True o i Some unfolding lease_ok_def Let_def close_job_def by auto
    qed (use True i Some in \<open>auto simp: close_job_def Let_def list_update_beyond\<close>)
  next
    case False
    show ?thesis
    proof (rule lease_update [OF inv i(1), where r = "length (us_requests s)" and p = Ended and l' = ?l1])
      show "lease_ok (close_job jid actual s) i"
        using False o i Some w unfolding lease_ok_def Let_def close_job_def by auto
    qed (use False i Some in \<open>auto simp: close_job_def Let_def list_update_beyond\<close>)
  qed
qed (use inv in \<open>simp add: close_job_def\<close>)

lemma job_lease_step_inv: "leases_inv s \<Longrightarrow> leases_inv (job_lease_step e s)"
  by (cases e)
    (auto split: job_request.split intro: arrive_lease_inv enter_job_inv leased_job_inv joined_job_inv end_job_inv close_job_inv
      intro!: quiet_inv)

lemma no_leases_inv: "leases_inv no_leases"
  by (simp add: leases_inv_def lease_ids_ok_def no_leases_def held_gates_def)

interpretation leases: machine job_lease_step leases_inv
  by unfold_locales (rule job_lease_step_inv)

section \<open>Properties\<close>

lemma reached_leases: "leases_inv (fold job_lease_step es no_leases)"
  by (rule leases.inv_run [OF no_leases_inv])

text \<open>C13: whatever the interleaving of segment requests, closures and answers of the scheduler, a request
that writes belongs to a lease that holds its task slot, is the one found under its job and gives the
request the account the job was admitted on; a lease holds its slot exactly while it is admitted and not
closed or still has requests writing; and every slot taken is held by one lease or has been returned.\<close>

theorem upload_leases_balance:
  assumes "s = fold job_lease_step es no_leases" and "i < length (us_leases s)"
  shows "(ul_gateRelease (us_leases s ! i) \<longleftrightarrow> ul_ready (us_leases s ! i) \<and> \<not> ul_acquireErr (us_leases s ! i) \<and>
      (\<not> ul_closed (us_leases s ! i) \<or> 0 < writing i (us_requests s))) \<and>
    (\<forall>a. Writing i a \<in> set (us_requests s) \<longrightarrow> ul_gateRelease (us_leases s ! i) \<and> a = ul_account (us_leases s ! i) \<and> a \<noteq> None \<and>
       us_map s (ul_id (us_leases s ! i)) = Some i) \<and>
    us_acquired s - us_returned s = held_gates (us_leases s)"
proof -
  have inv: "leases_inv s" unfolding assms(1) by (rule reached_leases)
  note D = lease_okD [OF leases_invD(1) [OF inv assms(2)]]
  have "ul_gateRelease (us_leases s ! i) \<and> a = ul_account (us_leases s ! i) \<and> a \<noteq> None \<and> us_map s (ul_id (us_leases s ! i)) = Some i"
    if w: "Writing i a \<in> set (us_requests s)" for a
  proof -
    have "0 < writing i (us_requests s)" using w writing_pos by (metis in_set_conv_nth)
    then have "ul_gateRelease (us_leases s ! i)" using D(1,4) by simp
    then show ?thesis using D(3,8) D(9) [OF w] by blast
  qed
  moreover have "us_acquired s - us_returned s = held_gates (us_leases s)" using inv by (simp add: leases_inv_def)
  ultimately show ?thesis using D(10) unfolding D(1) by blast
qed

definition shared_upload :: "lease_event list" where
  "shared_upload = [UArrive ''j'', UArrive ''j'', UEnter 0, UEnter 1, ULeased 0 (Some 3), UJoined 1, UEnd 0, UClose ''j'' 5]"

theorem upload_leases_balance_witness:
  "let s = fold job_lease_step shared_upload no_leases in
     ul_closed (us_leases s ! 0) \<and> ul_gateRelease (us_leases s ! 0) \<and> us_requests s = [Ended, Writing 0 (Some 3)] \<and>
     us_acquired s - us_returned s = 1"
proof -
  let ?s = "fold job_lease_step shared_upload no_leases"
  have l: "0 < length (us_leases ?s)" by code_simp
  have "held_gates (us_leases ?s) = 1" "us_requests ?s = [Ended, Writing 0 (Some 3)]" "ul_closed (us_leases ?s ! 0)" by code_simp+
  then show ?thesis using upload_leases_balance [OF refl l] by (auto simp: Let_def)
qed

text \<open>The requests writing through a closed lease only become fewer.\<close>

lemma closed_step:
  assumes inv: "leases_inv s" and i: "i < length (us_leases s)" and c: "ul_closed (us_leases s ! i)"
  shows "i < length (us_leases (job_lease_step e s)) \<and> ul_closed (us_leases (job_lease_step e s) ! i) \<and>
    writing i (us_requests (job_lease_step e s)) \<le> writing i (us_requests s)"
proof -
  have w: "writing i ((us_requests s)[r := p]) \<le> writing i (us_requests s)"
    if "r < length (us_requests s)" "\<forall>a. p \<noteq> Writing i a" for r p
    using that by (simp add: writing_update)
  show ?thesis
  proof (cases e)
    case (UEnter r)
    then show ?thesis using i c w
      by (auto simp: enter_job_def Let_def nth_append split: job_request.split option.split)
  next
    case (ULeased r answer)
    have one: "writing i (us_requests (job_leased r j answer s)) \<le> writing i (us_requests s) \<and>
        i < length (us_leases (job_leased r j answer s)) \<and> ul_closed (us_leases (job_leased r j answer s) ! i)"
      if "r < length (us_requests s)" for j
      using i c w [OF that]
      by (cases "j = i"; cases answer; cases "ul_closed (us_leases s ! j)") (simp_all add: job_leased_def nth_list_update)
    then show ?thesis using ULeased i c by (auto split: job_request.split)
  next
  case (UJoined r)
    have one: "writing i (us_requests (job_joined r j s)) \<le> writing i (us_requests s) \<and>
        i < length (us_leases (job_joined r j s)) \<and> ul_closed (us_leases (job_joined r j s) ! i)"
      if "r < length (us_requests s)" for j
      using i c w [OF that] by (cases "j = i") (simp_all add: job_joined_def Let_def nth_list_update)
    then show ?thesis using UJoined i c by (auto split: job_request.split)
  next
    case (UEnd r)
    have one: "writing i (us_requests (uploadRequestRelease r j s)) \<le> writing i (us_requests s) \<and>
        i < length (us_leases (uploadRequestRelease r j s)) \<and> ul_closed (us_leases (uploadRequestRelease r j s) ! i)"
      if "r < length (us_requests s)" for j
      using i c w [OF that]
      by (cases "j = i"; cases "0 < ul_active (us_leases s ! i)") (simp_all add: uploadRequestRelease_def Let_def nth_list_update)
    then show ?thesis using UEnd i c by (auto split: job_request.split)
  next
    case (UClose jid actual)
    have "i < length (us_leases (close_job jid actual s)) \<and> ul_closed (us_leases (close_job jid actual s) ! i) \<and>
        us_requests (close_job jid actual s) = us_requests s"
    proof (cases "us_map s jid")
      case (Some j)
      then show ?thesis using i c by (cases "j = i") (simp_all add: close_job_def Let_def nth_list_update)
    qed (use i c in \<open>simp add: close_job_def\<close>)
    then show ?thesis by (simp add: UClose)
  qed (use i c w in \<open>auto split: job_request.split\<close>)
qed

text \<open>A closed job admits nobody: once its lease is closed, whatever happens next, no request joins it,
so the number of requests writing through it never grows, and the slot is returned with the last of
them.\<close>

theorem closed_upload_admits_nobody:
  assumes "s = fold job_lease_step es no_leases" and "i < length (us_leases s)" and "ul_closed (us_leases s ! i)"
  shows "writing i (us_requests (fold job_lease_step later s)) \<le> writing i (us_requests s) \<and>
    (0 < writing i (us_requests (fold job_lease_step later s)) \<or> \<not> ul_gateRelease (us_leases (fold job_lease_step later s) ! i))"
proof -
  have inv: "leases_inv s" unfolding assms(1) by (rule reached_leases)
  have "leases_inv (fold job_lease_step later s) \<and> i < length (us_leases (fold job_lease_step later s)) \<and>
      ul_closed (us_leases (fold job_lease_step later s) ! i) \<and>
      writing i (us_requests (fold job_lease_step later s)) \<le> writing i (us_requests s)"
    using inv assms(2,3)
  proof (induction later arbitrary: s)
    case (Cons e later)
    note st = closed_step [OF Cons.prems, of e]
    then show ?case using Cons.IH [OF job_lease_step_inv [OF Cons.prems(1)]] by fastforce
  qed simp
  then show ?thesis using leases_invD(1) [of "fold job_lease_step later s" i] unfolding lease_ok_def Let_def by auto
qed

theorem closed_upload_admits_nobody_witness:
  "let s = fold job_lease_step (shared_upload @ [UArrive ''j'', UEnter 2, UEnd 1]) no_leases in
     us_requests s = [Ended, Ended, Ended] \<and> \<not> ul_gateRelease (us_leases s ! 0) \<and> us_returned s = 1"
proof -
  let ?s = "fold job_lease_step shared_upload no_leases" and ?later = "[UArrive ''j'', UEnter 2, UEnd 1]"
  have l: "0 < length (us_leases ?s)" "ul_closed (us_leases ?s ! 0)" by code_simp+
  have e: "fold job_lease_step (shared_upload @ ?later) no_leases = fold job_lease_step ?later ?s" by simp
  have "us_requests (fold job_lease_step ?later ?s) = [Ended, Ended, Ended]" "us_returned (fold job_lease_step ?later ?s) = 1"
    "writing 0 (us_requests (fold job_lease_step ?later ?s)) = 0" by code_simp+
  then show ?thesis using closed_upload_admits_nobody [OF refl l, of ?later] unfolding e by (simp add: Let_def)
qed

end
