(* ===== verification/Workers.thy ===== *)
theory Workers
  imports Prelude
begin

text \<open>
  Interrupting the writers of an upload job, \<open>internal/drive/upload.go\<close>: \<open>WatchUploadJob\<close> registers a
  worker under its job, \<open>stopUploadWork\<close> cancels the registered workers and \<open>waitUploadWork\<close> sleeps
  until they have unwound.  Tokens and wake channels are numbered as they are created; every section
  under \<open>jobCancelMu\<close> is one event.  A channel in \<open>wk_closed\<close> wakes whoever waits on it.
\<close>

section \<open>State and sections\<close>

datatype waiter = Checking string | Asleep string nat | Woken | Expired

record worker_sys =
  wk_watchers :: "string \<Rightarrow> nat list"
  wk_wake :: "string \<Rightarrow> nat option"
  wk_token :: nat
  wk_channel :: nat
  wk_closed :: "nat set"
  wk_cancelled :: "nat set"
  wk_stopping :: "nat list list"
  wk_waiters :: "waiter list"

definition no_workers :: worker_sys where
  "no_workers = \<lparr>wk_watchers = (\<lambda>_. []), wk_wake = (\<lambda>_. None), wk_token = 0, wk_channel = 0, wk_closed = {},
     wk_cancelled = {}, wk_stopping = [], wk_waiters = []\<rparr>"

definition make_wake :: "string \<Rightarrow> worker_sys \<Rightarrow> worker_sys" where
  "make_wake jid s =
     (if wk_wake s jid = None
      then s\<lparr>wk_wake := (wk_wake s)(jid \<mapsto> wk_channel s), wk_channel := wk_channel s + 1\<rparr> else s)"

definition WatchUploadJob :: "string \<Rightarrow> worker_sys \<Rightarrow> worker_sys" where
  "WatchUploadJob jid s =
     (if jid = [] then s
      else let s1 = make_wake jid (s\<lparr>wk_token := wk_token s + 1\<rparr>)
           in s1\<lparr>wk_watchers := (wk_watchers s1)(jid := wk_watchers s1 jid @ [wk_token s + 1])\<rparr>)"

text \<open>The release function of a worker; it may run more than once.\<close>

definition unwatch :: "string \<Rightarrow> nat \<Rightarrow> worker_sys \<Rightarrow> worker_sys" where
  "unwatch jid token s0 =
     (let s = s0\<lparr>wk_cancelled := insert token (wk_cancelled s0)\<rparr>
      in if wk_watchers s jid = [] then s
         else let rest = filter (\<lambda>t. t \<noteq> token) (wk_watchers s jid);
                  s1 = s\<lparr>wk_watchers := (wk_watchers s)(jid := rest)\<rparr>
              in if rest \<noteq> [] then s1
                 else case wk_wake s1 jid of
                     None \<Rightarrow> s1
                   | Some c \<Rightarrow> s1\<lparr>wk_closed := insert c (wk_closed s1), wk_wake := (wk_wake s1)(jid := None)\<rparr>)"

text \<open>\<open>stopUploadWork\<close> copies the cancel functions under the mutex and calls them afterwards.\<close>

definition stop_copy :: "string \<Rightarrow> worker_sys \<Rightarrow> worker_sys" where
  "stop_copy jid s = s\<lparr>wk_stopping := wk_stopping s @ [wk_watchers s jid]\<rparr>"

definition stop_cancel :: "nat \<Rightarrow> worker_sys \<Rightarrow> worker_sys" where
  "stop_cancel n s =
     (if n < length (wk_stopping s)
      then case wk_stopping s ! n of
             [] \<Rightarrow> s
           | t # ts \<Rightarrow> s\<lparr>wk_cancelled := insert t (wk_cancelled s), wk_stopping := (wk_stopping s)[n := ts]\<rparr>
      else s)"

definition wait_check :: "nat \<Rightarrow> string \<Rightarrow> worker_sys \<Rightarrow> worker_sys" where
  "wait_check w jid s =
     (if wk_watchers s jid = [] then s\<lparr>wk_waiters := (wk_waiters s)[w := Woken]\<rparr>
      else let s1 = make_wake jid s
           in s1\<lparr>wk_waiters := (wk_waiters s1)[w := Asleep jid (the (wk_wake s1 jid))]\<rparr>)"

datatype worker_event =
    KWatch string
  | KRelease string nat
  | KStop string
  | KCancel nat
  | KWait string
  | KCheck nat
  | KWake nat
  | KExpire nat

fun watch_step :: "worker_event \<Rightarrow> worker_sys \<Rightarrow> worker_sys" where
  "watch_step (KWatch jid) s = WatchUploadJob jid s"
| "watch_step (KRelease jid token) s = unwatch jid token s"
| "watch_step (KStop jid) s = stop_copy jid s"
| "watch_step (KCancel n) s = stop_cancel n s"
| "watch_step (KWait jid) s =
     s\<lparr>wk_waiters := wk_waiters s @ [if jid = [] then Woken else Checking jid]\<rparr>"
| "watch_step (KCheck w) s =
     (if w < length (wk_waiters s)
      then case wk_waiters s ! w of Checking jid \<Rightarrow> wait_check w jid s | _ \<Rightarrow> s else s)"
| "watch_step (KWake w) s =
     (if w < length (wk_waiters s)
      then case wk_waiters s ! w of
             Asleep jid c \<Rightarrow> if c \<in> wk_closed s then s\<lparr>wk_waiters := (wk_waiters s)[w := Checking jid]\<rparr> else s
           | _ \<Rightarrow> s
      else s)"
| "watch_step (KExpire w) s =
     (if w < length (wk_waiters s)
      then case wk_waiters s ! w of Asleep jid c \<Rightarrow> s\<lparr>wk_waiters := (wk_waiters s)[w := Expired]\<rparr> | _ \<Rightarrow> s
      else s)"

section \<open>The invariant\<close>

text \<open>A job has an open wake channel exactly while it has workers, and a sleeper whose channel is open
  waits on the channel of its job.\<close>

definition wakes_ok :: "worker_sys \<Rightarrow> bool" where
  "wakes_ok s \<longleftrightarrow>
     (\<forall>jid. (wk_wake s jid = None) = (wk_watchers s jid = [])) \<and>
     (\<forall>jid c. wk_wake s jid = Some c \<longrightarrow> c < wk_channel s \<and> c \<notin> wk_closed s) \<and>
     (\<forall>jid jid' c. wk_wake s jid = Some c \<and> wk_wake s jid' = Some c \<longrightarrow> jid = jid') \<and>
     (\<forall>c \<in> wk_closed s. c < wk_channel s) \<and>
     (\<forall>jid c. Asleep jid c \<in> set (wk_waiters s) \<longrightarrow> c \<in> wk_closed s \<or> wk_wake s jid = Some c)"

lemma waiter_update: "p \<in> set (ws[w := q]) \<Longrightarrow> p \<in> set ws \<or> p = q"
  by (meson insert_iff set_update_subset_insert subsetD)

lemma wakes_waiter:
  "\<lbrakk>wakes_ok s; \<forall>jid c. q = Asleep jid c \<longrightarrow> c \<in> wk_closed s \<or> wk_wake s jid = Some c\<rbrakk> \<Longrightarrow>
    wakes_ok (s\<lparr>wk_waiters := (wk_waiters s)[w := q]\<rparr>)"
  by (auto simp: wakes_ok_def dest!: waiter_update)

text \<open>An event that changes the workers of one job: its channel is made with the first of them and
  closed with the last.\<close>

lemma wakes_job:
  assumes ok: "wakes_ok s"
    and others: "\<And>j. j \<noteq> jid \<Longrightarrow> wk_watchers s' j = wk_watchers s j \<and> wk_wake s' j = wk_wake s j"
    and waiters: "wk_waiters s' = wk_waiters s"
    and job: "(wk_wake s' jid = None) = (wk_watchers s' jid = [])"
    and wake: "wk_wake s' jid = wk_wake s jid \<and> wk_channel s' = wk_channel s \<and> wk_closed s' = wk_closed s \<or>
      wk_wake s jid = None \<and> wk_wake s' jid = Some (wk_channel s) \<and> wk_channel s' = Suc (wk_channel s) \<and> wk_closed s' = wk_closed s \<or>
      (\<exists>c. wk_wake s jid = Some c \<and> wk_wake s' jid = None \<and> wk_channel s' = wk_channel s \<and> wk_closed s' = insert c (wk_closed s))"
  shows "wakes_ok s'"
proof -
  have W: "\<And>j. (wk_wake s j = None) = (wk_watchers s j = [])" "\<And>j c. wk_wake s j = Some c \<Longrightarrow> c < wk_channel s \<and> c \<notin> wk_closed s"
    "\<And>j j' c. \<lbrakk>wk_wake s j = Some c; wk_wake s j' = Some c\<rbrakk> \<Longrightarrow> j = j'" "\<And>c. c \<in> wk_closed s \<Longrightarrow> c < wk_channel s"
    "\<And>j c. Asleep j c \<in> set (wk_waiters s) \<Longrightarrow> c \<in> wk_closed s \<or> wk_wake s j = Some c"
    using ok unfolding wakes_ok_def by blast+
  have a: "(wk_wake s' j = None) = (wk_watchers s' j = [])" for j using W(1) others job by (cases "j = jid") auto
  have b: "c < wk_channel s' \<and> c \<notin> wk_closed s'" if "wk_wake s' j = Some c" for j c
    using that W(2-4) wake others by (cases "j = jid") (fastforce simp: less_Suc_eq)+
  have d: "j = j'" if "wk_wake s' j = Some c" "wk_wake s' j' = Some c" for j j' c
    using that W(2,3) wake others by (cases "j = jid"; cases "j' = jid") fastforce+
  have e: "c < wk_channel s'" if "c \<in> wk_closed s'" for c using that W(2,4) wake by fastforce
  have f: "c \<in> wk_closed s' \<or> wk_wake s' j = Some c" if "Asleep j c \<in> set (wk_waiters s')" for j c
    using W(5) [of j c] that wake others waiters by (cases "j = jid") auto
  show ?thesis unfolding wakes_ok_def using a b d e f by blast
qed

lemma watch_wakes:
  assumes "wakes_ok s"
  shows "wakes_ok (WatchUploadJob jid s)"
proof (cases "jid = []")
  case False
  show ?thesis
    by (rule wakes_job [OF assms, of jid]) (use False in \<open>auto simp: WatchUploadJob_def make_wake_def Let_def\<close>)
qed (use assms in \<open>simp add: WatchUploadJob_def\<close>)

lemma unwatch_wakes:
  assumes "wakes_ok s"
  shows "wakes_ok (unwatch jid token s)"
proof (cases "wk_watchers s jid = []")
  case True
  then show ?thesis using assms by (simp add: unwatch_def wakes_ok_def)
next
  case False
  then obtain c where c: "wk_wake s jid = Some c" using assms unfolding wakes_ok_def by (metis option.exhaust)
  show ?thesis
    by (rule wakes_job [OF assms, of jid]) (use False c in \<open>auto simp: unwatch_def Let_def\<close>)
qed

lemma check_wakes:
  assumes "wakes_ok s"
  shows "wakes_ok (wait_check w jid s)"
proof (cases "wk_watchers s jid = []")
  case True
  then show ?thesis using wakes_waiter [OF assms, of Woken] by (simp add: wait_check_def)
next
  case False
  then obtain c where c: "wk_wake s jid = Some c" using assms unfolding wakes_ok_def by (metis option.exhaust)
  then show ?thesis using wakes_waiter [OF assms, of "Asleep jid c"] False by (simp add: wait_check_def make_wake_def)
qed

lemma watch_step_wakes: "wakes_ok s \<Longrightarrow> wakes_ok (watch_step e s)"
proof (cases e)
  case (KStop jid)
  then show "wakes_ok s \<Longrightarrow> ?thesis" by (simp add: stop_copy_def wakes_ok_def)
next
  case (KCancel n)
  then show "wakes_ok s \<Longrightarrow> ?thesis" by (simp add: stop_cancel_def wakes_ok_def split: list.split)
next
  case (KWait jid)
  then show "wakes_ok s \<Longrightarrow> ?thesis" by (auto simp: wakes_ok_def)
qed (auto intro: watch_wakes unwatch_wakes check_wakes wakes_waiter split: waiter.split)

lemma no_workers_wakes: "wakes_ok no_workers"
  by (simp add: no_workers_def wakes_ok_def)

interpretation writers: machine watch_step wakes_ok
  by unfold_locales (rule watch_step_wakes)

text \<open>Every token that was registered when a job was stopped is cancelled or still in the list of the stop.\<close>

definition stop_ok :: "nat set \<Rightarrow> nat \<Rightarrow> worker_sys \<Rightarrow> bool" where
  "stop_ok ts n s \<longleftrightarrow> n < length (wk_stopping s) \<and> (\<forall>t \<in> ts. t \<in> wk_cancelled s \<or> t \<in> set (wk_stopping s ! n))"

lemma stop_ok_step: "stop_ok ts n s \<Longrightarrow> stop_ok ts n (watch_step e s)"
proof (cases e)
  case (KCancel m)
  assume ok: "stop_ok ts n s"
  show ?thesis
  proof (cases "m < length (wk_stopping s) \<and> wk_stopping s ! m \<noteq> []")
    case True
    then obtain t us where m: "m < length (wk_stopping s)" "wk_stopping s ! m = t # us" by (auto simp: neq_Nil_conv)
    then show ?thesis using ok by (cases "m = n") (auto simp: KCancel stop_cancel_def stop_ok_def)
  qed (use ok in \<open>auto simp: KCancel stop_cancel_def split: list.split\<close>)
qed (auto simp: stop_ok_def WatchUploadJob_def make_wake_def unwatch_def Let_def stop_copy_def wait_check_def nth_append
    split: waiter.split option.split)

section \<open>Properties\<close>

text \<open>C14: no wake-up is lost: whatever the interleaving of workers that register and unwind, stops and
waits, a \<open>waitUploadWork\<close> that sleeps on an open channel waits for a job that still has workers, and the
channel is the one the last of them will close.\<close>

theorem no_wakeup_lost:
  assumes "s = fold watch_step es no_workers" and "Asleep jid c \<in> set (wk_waiters s)" and "c \<notin> wk_closed s"
  shows "wk_watchers s jid \<noteq> [] \<and> (\<forall>token. (\<forall>t \<in> set (wk_watchers s jid). t = token) \<longrightarrow> c \<in> wk_closed (unwatch jid token s))"
proof -
  have ok: "wakes_ok s" unfolding assms(1) by (rule writers.inv_run [OF no_workers_wakes])
  then have c: "wk_wake s jid = Some c" using assms(2,3) unfolding wakes_ok_def by blast
  then have w: "wk_watchers s jid \<noteq> []" using ok unfolding wakes_ok_def by (metis option.simps(3))
  have "c \<in> wk_closed (unwatch jid token s)" if "\<forall>t \<in> set (wk_watchers s jid). t = token" for token
    using that w c by (simp add: unwatch_def Let_def filter_empty_conv)
  then show ?thesis using w by blast
qed

theorem no_wakeup_lost_witness:
  "let s = fold watch_step [KWatch ''j'', KWait ''j'', KCheck 0] no_workers in
     wk_waiters s = [Asleep ''j'' 0] \<and> wk_watchers s ''j'' \<noteq> []"
proof -
  let ?s = "fold watch_step [KWatch ''j'', KWait ''j'', KCheck 0] no_workers"
  have s: "wk_waiters ?s = [Asleep ''j'' 0]" "wk_closed ?s = {}"
    by (simp_all add: no_workers_def WatchUploadJob_def make_wake_def wait_check_def Let_def)
  then show ?thesis using no_wakeup_lost [OF refl, of "''j''" 0 "[KWatch ''j'', KWait ''j'', KCheck 0]"] by (simp add: Let_def)
qed

text \<open>Stopping a job reaches everyone: once a stop has called all the functions it copied, every worker
registered at the time of the stop is cancelled, whatever ran in between.\<close>

theorem stop_cancels_everyone:
  assumes "n = length (wk_stopping s)" and "s' = fold watch_step es (stop_copy jid s)" and "wk_stopping s' ! n = []"
  shows "set (wk_watchers s jid) \<subseteq> wk_cancelled s'"
proof -
  have "stop_ok (set (wk_watchers s jid)) n (stop_copy jid s)" by (simp add: stop_ok_def stop_copy_def assms(1))
  then have "stop_ok (set (wk_watchers s jid)) n s'"
    unfolding assms(2) by (rule fold_invariant [rotated]) (rule stop_ok_step)
  then show ?thesis using assms(3) by (auto simp: stop_ok_def)
qed

theorem stop_cancels_everyone_witness:
  "let s = fold watch_step [KWatch ''j'', KWatch ''j''] no_workers; s' = fold watch_step [KCancel 0, KCancel 0] (stop_copy ''j'' s) in
     set (wk_watchers s ''j'') = {1, 2} \<and> set (wk_watchers s ''j'') \<subseteq> wk_cancelled s'"
proof -
  let ?s = "fold watch_step [KWatch ''j'', KWatch ''j''] no_workers"
  let ?s' = "fold watch_step [KCancel 0, KCancel 0] (stop_copy ''j'' ?s)"
  have s: "wk_stopping ?s = []" "set (wk_watchers ?s ''j'') = {1, 2}" "wk_stopping ?s' ! 0 = []"
    by (auto simp: no_workers_def WatchUploadJob_def make_wake_def stop_copy_def stop_cancel_def Let_def)
  then show ?thesis using stop_cancels_everyone [of 0 ?s ?s' "[KCancel 0, KCancel 0]" "''j''"] by (simp add: Let_def del: fold_simps)
qed

end
