(* ===== verification/Source.thy ===== *)
theory Source
  imports DriveState ReadFile
begin

text \<open>
  Reading a segment through an account, \<open>internal/drive/source.go\<close>: the handle of a document (access hash
  and file reference) is valid only for the account it was minted for, so a reader uses what it has
  learned, its account's cache entry or a row its own account stored, and otherwise resolves a handle by
  re-reading the message.  The Telegram client is an argument; \<open>sy_presented\<close> records the documents the
  code has presented to it.  The collapsing of concurrent refreshes (\<open>singleflight\<close>) is left out: one
  caller runs the function, the others receive its answer.
\<close>

section \<open>State\<close>

record ('t, 'b) reading_account =
  ra_ID :: string
  ra_ReadChunk :: "ChannelRef \<Rightarrow> StoredDoc \<Rightarrow> int \<Rightarrow> int \<Rightarrow> 't \<Rightarrow> (string + 'b list) \<times> 't"
  ra_RefreshDoc :: "ChannelRef \<Rightarrow> int \<Rightarrow> 't \<Rightarrow> (string + StoredDoc) \<times> 't"
  ra_MigratedDC :: "string \<Rightarrow> int option"
  ra_IsReferenceExpired :: "string \<Rightarrow> bool"

record segState =
  st_ref :: string
  st_dc :: int
  st_accessHash :: int

record ('t, 'b) segmentSource =
  so_account :: "('t, 'b) reading_account"
  so_file :: string
  so_seg :: Segment
  so_chRef :: ChannelRef
  so_key :: string

record 't source_sys =
  sy_state :: "segState option"
  sy_refs :: "(string \<times> refEntry) list"
  sy_ttl :: int
  sy_now :: int
  sy_db :: db
  sy_tg :: 't
  sy_presented :: "StoredDoc list"

type_synonym ('t, 'a) source_op = "'t source_sys \<Rightarrow> (string + 'a) \<times> 't source_sys"

section \<open>Handles\<close>

definition doc_of :: "('t, 'b) segmentSource \<Rightarrow> segState \<Rightarrow> StoredDoc" where
  "doc_of src st = \<lparr>sd_MsgID = g_TGMsgID (so_seg src), sd_DocID = g_TGDocID (so_seg src), sd_AccessHash = st_accessHash st,
     sd_DCID = st_dc st, sd_FileReference = st_ref st, sd_Size = g_Size (so_seg src)\<rparr>"

definition ownsStoredHandle :: "('t, 'b) segmentSource \<Rightarrow> bool" where
  "ownsStoredHandle src \<longleftrightarrow> g_AccountID (so_seg src) \<noteq> [] \<and> g_AccountID (so_seg src) = ra_ID (so_account src)"

definition current :: "('t, 'b) segmentSource \<Rightarrow> 't source_sys \<Rightarrow> segState option" where
  "current src s =
     (case sy_state s of
        Some st \<Rightarrow> Some st
      | None \<Rightarrow>
          (case refs_get (sy_now s) (so_key src) (sy_refs s) of
             Some e \<Rightarrow> if re_accessHash e \<noteq> 0
               then Some \<lparr>st_ref = re_ref e, st_dc = re_dc e, st_accessHash = re_accessHash e\<rparr>
               else if ownsStoredHandle src
               then Some \<lparr>st_ref = g_FileReference (so_seg src), st_dc = g_DCID (so_seg src), st_accessHash = g_AccessHash (so_seg src)\<rparr>
               else None
           | None \<Rightarrow> if ownsStoredHandle src
               then Some \<lparr>st_ref = g_FileReference (so_seg src), st_dc = g_DCID (so_seg src), st_accessHash = g_AccessHash (so_seg src)\<rparr>
               else None))"

definition remember :: "('t, 'b) segmentSource \<Rightarrow> segState \<Rightarrow> 't source_sys \<Rightarrow> 't source_sys" where
  "remember src st s = s\<lparr>sy_state := Some st,
     sy_refs := refs_put (sy_ttl s) (sy_now s) (so_key src) (st_ref st) (st_dc st) (st_accessHash st) (sy_refs s)\<rparr>"

definition on_db :: "unit db_op \<Rightarrow> 't source_sys \<Rightarrow> 't source_sys" where
  "on_db q s = s\<lparr>sy_db := snd (q (sy_db s))\<rparr>"

definition persistDC :: "string \<Rightarrow> int \<Rightarrow> int \<Rightarrow> 't source_sys \<Rightarrow> 't source_sys" where
  "persistDC fileID idx dc s = (if dc \<le> 0 then s else on_db (SetSegmentDC fileID idx dc) s)"

definition refresh :: "('t, 'b) segmentSource \<Rightarrow> ('t, segState) source_op" where
  "refresh src s0 =
     (let s = s0\<lparr>sy_refs := refs_drop (so_key src) (sy_refs s0), sy_state := None\<rparr>;
          (answer, tg) = ra_RefreshDoc (so_account src) (so_chRef src) (g_TGMsgID (so_seg src)) (sy_tg s);
          s1 = s\<lparr>sy_tg := tg\<rparr>
      in case answer of
           Inl e \<Rightarrow> (Inl e, s1)
         | Inr doc \<Rightarrow>
             let st = \<lparr>st_ref = sd_FileReference doc, st_dc = sd_DCID doc, st_accessHash = sd_AccessHash doc\<rparr>;
                 s2 = remember src st s1;
                 s3 = (if ownsStoredHandle src
                       then on_db (RefreshFileReference (so_file src) (g_Index (so_seg src)) (sd_FileReference doc)
                              (ra_ID (so_account src))) s2 else s2)
             in (Inr st, persistDC (so_file src) (g_Index (so_seg src)) (sd_DCID doc) s3))"

definition read_chunk :: "('t, 'b) segmentSource \<Rightarrow> segState \<Rightarrow> int \<Rightarrow> int \<Rightarrow> ('t, 'b list) source_op" where
  "read_chunk src st offset lim s =
     (case ra_ReadChunk (so_account src) (so_chRef src) (doc_of src st) offset lim (sy_tg s) of
        (r, tg) \<Rightarrow> (r, s\<lparr>sy_tg := tg, sy_presented := sy_presented s @ [doc_of src st]\<rparr>))"

text \<open>The corrected handle when the error names another datacenter than the one that was tried.\<close>

definition moved_to :: "('t, 'b) reading_account \<Rightarrow> segState \<Rightarrow> string \<Rightarrow> segState option" where
  "moved_to a st e = (case ra_MigratedDC a e of
     Some dc \<Rightarrow> if dc \<noteq> st_dc st then Some (st\<lparr>st_dc := dc\<rparr>) else None
   | None \<Rightarrow> None)"

text \<open>The part of \<open>Chunk\<close> after a handle has been found.\<close>

definition chunk_with :: "('t, 'b) segmentSource \<Rightarrow> segState \<Rightarrow> int \<Rightarrow> int \<Rightarrow> ('t, 'b list) source_op" where
  "chunk_with src st offset lim s =
     (case read_chunk src st offset lim s of
        (Inr data, s1) \<Rightarrow> (Inr data, s1)
      | (Inl e, s1) \<Rightarrow>
          (case moved_to (so_account src) st e of
             Some st' \<Rightarrow> read_chunk src st' offset lim
               (persistDC (so_file src) (g_Index (so_seg src)) (st_dc st') (remember src st' s1))
           | None \<Rightarrow>
               if \<not> ra_IsReferenceExpired (so_account src) e then (Inl e, s1)
               else (case refresh src s1 of
                   (Inl e', s2) \<Rightarrow> (Inl e', s2)
                 | (Inr fresh, s2) \<Rightarrow> read_chunk src fresh offset lim s2)))"

definition Chunk :: "('t, 'b) segmentSource \<Rightarrow> int \<Rightarrow> int \<Rightarrow> ('t, 'b list) source_op" where
  "Chunk src offset lim s =
     (case current src s of
        Some st \<Rightarrow> chunk_with src st offset lim s
      | None \<Rightarrow>
          (case refresh src s of
             (Inl e, s1) \<Rightarrow> (Inl e, s1)
           | (Inr st, s1) \<Rightarrow> chunk_with src st offset lim s1))"

section \<open>Opening a file\<close>

definition SegmentOwner :: "string \<Rightarrow> db \<Rightarrow> string" where
  "SegmentOwner fileID d =
     (if fileID = [] then []
      else case find (\<lambda>g. g_AccountID g \<noteq> []) (Segments fileID d) of None \<Rightarrow> [] | Some g \<Rightarrow> g_AccountID g)"

text \<open>The map \<open>byIndex\<close> is filled in the order of the rows: a later row replaces an earlier one.\<close>

definition byIndex :: "Segment list \<Rightarrow> int \<Rightarrow> Segment option" where
  "byIndex segs idx = map_of (rev (map (\<lambda>g. (g_Index g, g)) segs)) idx"

definition source_at :: "(Segment \<Rightarrow> 'b source) \<Rightarrow> Segment list \<Rightarrow> 'b source_for" where
  "source_at chunk segs idx = (case byIndex segs idx of None \<Rightarrow> Inl ErrSource | Some g \<Rightarrow> Inr (chunk g))"

definition segment_source :: "('t, 'b) reading_account \<Rightarrow> FileRow \<Rightarrow> ChannelRef \<Rightarrow> Segment \<Rightarrow> ('t, 'b) segmentSource" where
  "segment_source ra f ref g = \<lparr>so_account = ra, so_file = f_ID f, so_seg = g, so_chRef = ref,
     so_key = refKey (f_ID f) (g_Index g) (ra_ID ra)\<rparr>"

text \<open>
  The reader asks a source from several goroutines, so \<open>found\<close> gives the state each request finds,
  whatever the requests before it have left.
\<close>

definition source_chunk ::
  "('t, 'b) reading_account \<Rightarrow> (Segment \<Rightarrow> int \<Rightarrow> int \<Rightarrow> 't source_sys) \<Rightarrow> FileRow \<Rightarrow> ChannelRef \<Rightarrow> Segment \<Rightarrow> 'b source" where
  "source_chunk ra found f ref g off lim =
     (case fst (Chunk (segment_source ra f ref g) off lim (found g off lim)) of Inl _ \<Rightarrow> Inl ErrSource | Inr data \<Rightarrow> Inr data)"

datatype open_error = OpenDrive drive_error | OpenNoSegments string | OpenRead read_error

text \<open>\<open>OpenFile\<close>; \<open>chunk f ref g\<close> is what the source of the segment \<open>g\<close> delivers.\<close>

definition OpenFile ::
  "('t, 'b) env \<Rightarrow> (FileRow \<Rightarrow> ChannelRef \<Rightarrow> Segment \<Rightarrow> 'b source) \<Rightarrow> Options \<Rightarrow> FileRow \<Rightarrow> ('t, 'b) account option \<Rightarrow>
   ('t, 'b) drive \<Rightarrow> open_error + 'b File" where
  "OpenFile env chunk opts f0 account s =
     (case account of
        None \<Rightarrow> Inl (OpenDrive ENoAccount)
      | Some a \<Rightarrow>
          (case hk_path (en_hooks env) ''files.open'' (f_ID f0) of
             Inl e \<Rightarrow> Inl (OpenDrive e)
           | Inr fid \<Rightarrow>
               (case FileByID fid (dv_db s) of
                  Inl e \<Rightarrow> Inl (OpenDrive (EDb e))
                | Inr f \<Rightarrow>
                    let segs = Segments (f_ID f) (dv_db s) in
                    if segs = [] \<and> 0 < f_Size f then Inl (OpenNoSegments (f_Name f))
                    else case channelFor (f_ChannelID f) (dv_db s) of
                        Inl e \<Rightarrow> Inl (OpenDrive e)
                      | Inr channel \<Rightarrow>
                          (case ac_ChannelRef a (c_ID channel) (dv_tg s) of
                             Inl e \<Rightarrow> Inl (OpenDrive (ETelegram e))
                           | Inr ref \<Rightarrow>
                               (case Open (source_at (chunk f ref) segs) (f_Size f) (f_SegmentSize f) opts of
                                  Inl e \<Rightarrow> Inl (OpenRead e)
                                | Inr opened \<Rightarrow> Inr opened)))))"

section \<open>Handles stay with their account\<close>

text \<open>Which references and access hashes Telegram has minted for which account, for the document of a message.\<close>

record minting =
  mt_ref :: "string \<Rightarrow> int \<Rightarrow> string \<Rightarrow> bool"
  mt_hash :: "string \<Rightarrow> int \<Rightarrow> int \<Rightarrow> bool"

definition minted :: "minting \<Rightarrow> string \<Rightarrow> int \<Rightarrow> string \<Rightarrow> int \<Rightarrow> bool" where
  "minted mt acc msg ref hash \<longleftrightarrow> mt_ref mt acc msg ref \<and> mt_hash mt acc msg hash"

text \<open>The documented behaviour of \<open>RefreshDoc\<close>: the handle it yields is minted for the account that asks.\<close>

definition mints :: "minting \<Rightarrow> ('t, 'b) reading_account \<Rightarrow> bool" where
  "mints mt a \<longleftrightarrow> (\<forall>ch msg t doc t'. ra_RefreshDoc a ch msg t = (Inr doc, t') \<longrightarrow>
     minted mt (ra_ID a) msg (sd_FileReference doc) (sd_AccessHash doc))"

text \<open>What a source knows is its account's, and a row that names an account holds handles of that account.\<close>

definition row_minted :: "minting \<Rightarrow> ('t, 'b) segmentSource \<Rightarrow> Segment \<Rightarrow> bool" where
  "row_minted mt src g \<longleftrightarrow>
     (g_AccountID g \<noteq> [] \<longrightarrow> minted mt (g_AccountID g) (g_TGMsgID g) (g_FileReference g) (g_AccessHash g)) \<and>
     (g_FileID g = so_file src \<and> g_Index g = g_Index (so_seg src) \<longrightarrow> g_TGMsgID g = g_TGMsgID (so_seg src))"

definition source_inv :: "minting \<Rightarrow> ('t, 'b) segmentSource \<Rightarrow> 't source_sys \<Rightarrow> bool" where
  "source_inv mt src s \<longleftrightarrow>
     (let acc = ra_ID (so_account src); msg = g_TGMsgID (so_seg src)
      in (\<forall>st. sy_state s = Some st \<longrightarrow> minted mt acc msg (st_ref st) (st_accessHash st)) \<and>
         (\<forall>e. map_of (sy_refs s) (so_key src) = Some e \<and> re_accessHash e \<noteq> 0 \<longrightarrow> minted mt acc msg (re_ref e) (re_accessHash e)) \<and>
         row_minted mt src (so_seg src) \<and>
         (\<forall>g \<in> set (db_segments (sy_db s)). row_minted mt src g))"

definition presents_own :: "minting \<Rightarrow> ('t, 'b) segmentSource \<Rightarrow> StoredDoc \<Rightarrow> bool" where
  "presents_own mt src doc \<longleftrightarrow> sd_MsgID doc = g_TGMsgID (so_seg src) \<and>
     minted mt (ra_ID (so_account src)) (sd_MsgID doc) (sd_FileReference doc) (sd_AccessHash doc)"

text \<open>One step: the invariant, what was presented, and that at most \<open>n\<close> documents were presented.\<close>

definition proper_step :: "minting \<Rightarrow> ('t, 'b) segmentSource \<Rightarrow> nat \<Rightarrow> 't source_sys \<Rightarrow> 't source_sys \<Rightarrow> bool" where
  "proper_step mt src n s s' \<longleftrightarrow> source_inv mt src s' \<and>
     (\<exists>docs. sy_presented s' = sy_presented s @ docs \<and> length docs \<le> n \<and> (\<forall>doc \<in> set docs. presents_own mt src doc))"

lemma proper_trans: "\<lbrakk>proper_step mt src n s s1; proper_step mt src m s1 s2; n + m \<le> k\<rbrakk> \<Longrightarrow> proper_step mt src k s s2"
proof -
  assume a: "proper_step mt src n s s1" and b: "proper_step mt src m s1 s2" and k: "n + m \<le> k"
  obtain xs where "sy_presented s1 = sy_presented s @ xs" "length xs \<le> n" "\<forall>doc \<in> set xs. presents_own mt src doc"
    using a by (auto simp: proper_step_def)
  moreover obtain ys where "sy_presented s2 = sy_presented s1 @ ys" "length ys \<le> m" "\<forall>doc \<in> set ys. presents_own mt src doc"
    using b by (auto simp: proper_step_def)
  ultimately have "sy_presented s2 = sy_presented s @ (xs @ ys) \<and> length (xs @ ys) \<le> k \<and>
      (\<forall>doc \<in> set (xs @ ys). presents_own mt src doc)"
    using k by auto
  then show ?thesis using b unfolding proper_step_def by blast
qed

lemma current_minted:
  assumes "source_inv mt src s" and "current src s = Some st"
  shows "minted mt (ra_ID (so_account src)) (g_TGMsgID (so_seg src)) (st_ref st) (st_accessHash st)"
  using assms
  by (auto simp: current_def source_inv_def Let_def refs_get_def row_minted_def ownsStoredHandle_def split: option.splits if_splits)

lemma read_chunk_proper:
  assumes "source_inv mt src s" and "minted mt (ra_ID (so_account src)) (g_TGMsgID (so_seg src)) (st_ref st) (st_accessHash st)"
  shows "proper_step mt src 1 s (snd (read_chunk src st offset lim s))"
  using assms by (auto simp: read_chunk_def proper_step_def source_inv_def Let_def presents_own_def doc_of_def split: prod.split)

lemma remember_inv:
  assumes "source_inv mt src s" and "minted mt (ra_ID (so_account src)) (g_TGMsgID (so_seg src)) (st_ref st) (st_accessHash st)"
  shows "source_inv mt src (remember src st s)"
  using assms by (auto simp: remember_def source_inv_def Let_def refs_put_def update_conv')

lemma rows_update_inv:
  assumes "source_inv mt src s" and "\<And>g. \<lbrakk>P g; row_minted mt src g\<rbrakk> \<Longrightarrow> row_minted mt src (f g)"
  shows "source_inv mt src (on_db (\<lambda>d. (Inr (), d\<lparr>db_segments := update_where P f (db_segments d)\<rparr>)) s)"
proof -
  have "\<forall>g \<in> set (update_where P f (db_segments (sy_db s))). row_minted mt src g"
    using assms unfolding source_inv_def Let_def update_where_def by auto
  then show ?thesis using assms(1) by (simp add: on_db_def source_inv_def Let_def)
qed

lemma persistDC_inv:
  assumes "source_inv mt src s"
  shows "source_inv mt src (persistDC fid idx dc s)"
proof -
  have "SetSegmentDC fid idx dc = (\<lambda>d. (Inr (), d\<lparr>db_segments :=
      update_where (\<lambda>g. g_FileID g = fid \<and> g_Index g = idx) (\<lambda>g. g\<lparr>g_DCID := dc\<rparr>) (db_segments d)\<rparr>))"
    by (rule ext) (simp add: SetSegmentDC_def)
  then show ?thesis using rows_update_inv [OF assms] assms by (simp add: persistDC_def row_minted_def)
qed

lemma reference_inv:
  assumes inv: "source_inv mt src s" and ref: "mt_ref mt (ra_ID (so_account src)) (g_TGMsgID (so_seg src)) ref"
  shows "source_inv mt src (on_db (RefreshFileReference (so_file src) (g_Index (so_seg src)) ref (ra_ID (so_account src))) s)"
proof -
  let ?P = "\<lambda>g. g_FileID g = so_file src \<and> g_Index g = g_Index (so_seg src) \<and> g_AccountID g = ra_ID (so_account src)"
  have "RefreshFileReference (so_file src) (g_Index (so_seg src)) ref (ra_ID (so_account src)) =
      (\<lambda>d. (Inr (), d\<lparr>db_segments := update_where ?P (\<lambda>g. g\<lparr>g_FileReference := ref\<rparr>) (db_segments d)\<rparr>))"
    by (rule ext) (simp add: RefreshFileReference_def)
  moreover have "row_minted mt src (g\<lparr>g_FileReference := ref\<rparr>)" if "?P g" "row_minted mt src g" for g
    using that ref by (auto simp: row_minted_def minted_def)
  ultimately show ?thesis using rows_update_inv [OF inv] by simp
qed

lemma refresh_proper:
  assumes inv: "source_inv mt src s" and mints: "mints mt (so_account src)"
    and r: "refresh src s = (answer, s')"
  shows "proper_step mt src 0 s s' \<and> (\<forall>st. answer = Inr st \<longrightarrow>
    minted mt (ra_ID (so_account src)) (g_TGMsgID (so_seg src)) (st_ref st) (st_accessHash st))"
proof -
  define s1 where "s1 = s\<lparr>sy_refs := refs_drop (so_key src) (sy_refs s), sy_state := None\<rparr>"
  have drop: "map_of (refs_drop k es) k = None" for k and es :: "(string \<times> refEntry) list"
    by (auto simp: refs_drop_def map_of_eq_None_iff)
  have inv1: "source_inv mt src (s1\<lparr>sy_tg := t\<rparr>)" for t
    using inv by (simp add: s1_def source_inv_def Let_def drop)
  obtain a tg where a: "ra_RefreshDoc (so_account src) (so_chRef src) (g_TGMsgID (so_seg src)) (sy_tg s) = (a, tg)" by fastforce
  show ?thesis
  proof (cases a)
    case (Inl e)
    then have "answer = Inl e" "s' = s1\<lparr>sy_tg := tg\<rparr>" using r a by (simp_all add: refresh_def Let_def s1_def)
    then show ?thesis using inv1 by (simp add: proper_step_def s1_def)
  next
    case (Inr doc)
    define st where "st = \<lparr>st_ref = sd_FileReference doc, st_dc = sd_DCID doc, st_accessHash = sd_AccessHash doc\<rparr>"
    have m: "minted mt (ra_ID (so_account src)) (g_TGMsgID (so_seg src)) (st_ref st) (st_accessHash st)"
      using mints a unfolding mints_def st_def Inr by simp blast
    define s2 where "s2 = remember src st (s1\<lparr>sy_tg := tg\<rparr>)"
    define s3 where "s3 = (if ownsStoredHandle src
        then on_db (RefreshFileReference (so_file src) (g_Index (so_seg src)) (sd_FileReference doc) (ra_ID (so_account src))) s2 else s2)"
    have inv2: "source_inv mt src s2" unfolding s2_def by (rule remember_inv [OF inv1 m])
    have "source_inv mt src s3"
      using inv2 reference_inv [OF inv2, of "sd_FileReference doc"] m by (simp add: s3_def minted_def st_def)
    moreover have "answer = Inr st" "s' = persistDC (so_file src) (g_Index (so_seg src)) (sd_DCID doc) s3"
      using r a unfolding refresh_def Let_def s1_def s2_def s3_def st_def Inr by (auto split: if_splits)
    moreover have "sy_presented s3 = sy_presented s" by (simp add: s3_def s2_def s1_def on_db_def remember_def)
    ultimately show ?thesis using m persistDC_inv [of mt src s3] by (simp add: proper_step_def persistDC_def on_db_def)
  qed
qed

lemma chunk_with_proper:
  assumes inv: "source_inv mt src s" and mints: "mints mt (so_account src)"
    and m: "minted mt (ra_ID (so_account src)) (g_TGMsgID (so_seg src)) (st_ref st) (st_accessHash st)"
  shows "proper_step mt src 2 s (snd (chunk_with src st offset lim s))"
proof -
  obtain r s1 where r: "read_chunk src st offset lim s = (r, s1)" by fastforce
  have p1: "proper_step mt src 1 s s1" using read_chunk_proper [OF inv m, of offset lim] r by simp
  then have inv1: "source_inv mt src s1" by (simp add: proper_step_def)
  show ?thesis
  proof (cases r)
    case (Inr data)
    then show ?thesis using r p1 by (auto simp: chunk_with_def proper_step_def)
  next
    case (Inl e)
    show ?thesis
    proof (cases "moved_to (so_account src) st e")
      case moved: (Some st')
      have m': "minted mt (ra_ID (so_account src)) (g_TGMsgID (so_seg src)) (st_ref st') (st_accessHash st')"
        using m moved by (auto simp: moved_to_def split: option.splits if_splits)
      define s2 where "s2 = persistDC (so_file src) (g_Index (so_seg src)) (st_dc st') (remember src st' s1)"
      have inv2: "source_inv mt src s2" unfolding s2_def by (rule persistDC_inv [OF remember_inv [OF inv1 m']])
      have "proper_step mt src 0 s1 s2" using inv2 by (simp add: proper_step_def s2_def persistDC_def on_db_def remember_def)
      then have "proper_step mt src 1 s1 (snd (read_chunk src st' offset lim s2))"
        using proper_trans read_chunk_proper [OF inv2 m', of offset lim] by fastforce
      then have "proper_step mt src 2 s (snd (read_chunk src st' offset lim s2))"
        using proper_trans [OF p1] by simp
      then show ?thesis using r Inl moved by (simp add: chunk_with_def s2_def)
    next
      case stay: None
      show ?thesis
      proof (cases "ra_IsReferenceExpired (so_account src) e")
        case False
        then show ?thesis using r Inl stay p1 by (auto simp: chunk_with_def proper_step_def)
      next
        case True
        obtain a s2 where a: "refresh src s1 = (a, s2)" by fastforce
        note rp = refresh_proper [OF inv1 mints a]
        then have inv2: "source_inv mt src s2" by (simp add: proper_step_def)
        show ?thesis
        proof (cases a)
          case (Inl e')
          then have "proper_step mt src 2 s s2" using proper_trans [OF p1] rp by simp
          then show ?thesis using r \<open>r = Inl e\<close> stay True a Inl by (simp add: chunk_with_def)
        next
          case (Inr fresh)
          then have "proper_step mt src 1 s2 (snd (read_chunk src fresh offset lim s2))"
            using read_chunk_proper [OF inv2] rp by simp
          then have "proper_step mt src 1 s1 (snd (read_chunk src fresh offset lim s2))"
            using proper_trans rp by fastforce
          then have "proper_step mt src 2 s (snd (read_chunk src fresh offset lim s2))"
            using proper_trans [OF p1] by simp
          then show ?thesis using r \<open>r = Inl e\<close> stay True a Inr by (simp add: chunk_with_def)
        qed
      qed
    qed
  qed
qed

lemma Chunk_proper:
  assumes inv: "source_inv mt src s" and mints: "mints mt (so_account src)"
  shows "proper_step mt src 2 s (snd (Chunk src offset lim s))"
proof (cases "current src s")
  case (Some st)
  then show ?thesis
    using chunk_with_proper [OF inv mints current_minted [OF inv Some]] by (simp add: Chunk_def)
next
  case None
  obtain a s1 where a: "refresh src s = (a, s1)" by fastforce
  note rp = refresh_proper [OF inv mints a]
  then have inv1: "source_inv mt src s1" by (simp add: proper_step_def)
  show ?thesis
  proof (cases a)
    case (Inl e)
    then show ?thesis using None a rp by (auto simp: Chunk_def proper_step_def)
  next
    case (Inr st)
    then have "proper_step mt src 2 s1 (snd (chunk_with src st offset lim s1))"
      using chunk_with_proper [OF inv1 mints] rp by simp
    then have "proper_step mt src 2 s (snd (chunk_with src st offset lim s1))" using proper_trans rp by fastforce
    then show ?thesis using None a Inr by (simp add: Chunk_def)
  qed
qed

section \<open>A read repairs its handle\<close>

text \<open>The requests the reader makes of a source that holds \<open>content\<close>.\<close>

definition asked :: "'b list \<Rightarrow> int \<Rightarrow> int \<Rightarrow> bool" where
  "asked content off lim \<longleftrightarrow> 0 \<le> off \<and> off < int (length content) \<and> 0 < lim \<and> lim dvd off \<and> lim dvd 2 ^ 20"

definition delivers :: "('t, 'b) segmentSource \<Rightarrow> 'b list \<Rightarrow> segState \<Rightarrow> bool" where
  "delivers src content st \<longleftrightarrow> (\<forall>off lim t. asked content off lim \<longrightarrow>
     fst (ra_ReadChunk (so_account src) (so_chRef src) (doc_of src st) off lim t) = Inr (slice content off (off + lim - 1)))"

text \<open>
  The documented behaviour of Telegram towards an account that may see the message: a handle is answered
  with the bytes, with the datacenter that has them, or as expired; the message read again yields a
  handle that works.
\<close>

definition served :: "('t, 'b) segmentSource \<Rightarrow> 'b list \<Rightarrow> bool" where
  "served src content \<longleftrightarrow>
     (\<forall>off lim st t. asked content off lim \<longrightarrow>
        (case fst (ra_ReadChunk (so_account src) (so_chRef src) (doc_of src st) off lim t) of
           Inr data \<Rightarrow> data = slice content off (off + lim - 1)
         | Inl e \<Rightarrow> (case moved_to (so_account src) st e of
             Some st' \<Rightarrow> delivers src content st' | None \<Rightarrow> ra_IsReferenceExpired (so_account src) e))) \<and>
     (\<forall>t. \<exists>doc t'. ra_RefreshDoc (so_account src) (so_chRef src) (g_TGMsgID (so_seg src)) t = (Inr doc, t') \<and>
        delivers src content \<lparr>st_ref = sd_FileReference doc, st_dc = sd_DCID doc, st_accessHash = sd_AccessHash doc\<rparr>)"

lemma read_chunk_delivers:
  "\<lbrakk>delivers src content st; asked content off lim\<rbrakk> \<Longrightarrow> fst (read_chunk src st off lim s) = Inr (slice content off (off + lim - 1))"
  by (simp add: read_chunk_def delivers_def split: prod.split) (metis fst_conv)

lemma refresh_served:
  assumes "served src content"
  obtains st s' where "refresh src s = (Inr st, s')" and "delivers src content st"
proof -
  obtain doc t' where "ra_RefreshDoc (so_account src) (so_chRef src) (g_TGMsgID (so_seg src)) (sy_tg s) = (Inr doc, t')"
    and "delivers src content \<lparr>st_ref = sd_FileReference doc, st_dc = sd_DCID doc, st_accessHash = sd_AccessHash doc\<rparr>"
    using assms unfolding served_def by blast
  then show thesis using that by (simp add: refresh_def Let_def)
qed

lemma chunk_with_served:
  assumes served: "served src content" and asked: "asked content off lim"
  shows "fst (chunk_with src st off lim s) = Inr (slice content off (off + lim - 1))"
proof -
  obtain r s1 where r: "read_chunk src st off lim s = (r, s1)" by fastforce
  then have r': "fst (ra_ReadChunk (so_account src) (so_chRef src) (doc_of src st) off lim (sy_tg s)) = r"
    by (auto simp: read_chunk_def split: prod.splits)
  note answer = served [unfolded served_def, THEN conjunct1, rule_format, OF asked, of st "sy_tg s", unfolded r']
  show ?thesis
  proof (cases r)
    case (Inr data)
    then show ?thesis using r answer by (simp add: chunk_with_def)
  next
    case (Inl e)
    show ?thesis
    proof (cases "moved_to (so_account src) st e")
      case (Some st')
      then have "delivers src content st'" using answer Inl by simp
      then show ?thesis using r Inl Some read_chunk_delivers [OF _ asked] by (simp add: chunk_with_def)
    next
      case None
      obtain fresh s2 where f: "refresh src s1 = (Inr fresh, s2)" "delivers src content fresh"
        using refresh_served [OF served] by blast
      have "ra_IsReferenceExpired (so_account src) e" using answer Inl None by simp
      then show ?thesis using r Inl None f read_chunk_delivers [OF f(2) asked] by (simp add: chunk_with_def)
    qed
  qed
qed

lemma Chunk_served:
  assumes served: "served src content" and asked: "asked content off lim"
  shows "fst (Chunk src off lim s) = Inr (slice content off (off + lim - 1))"
proof (cases "current src s")
  case (Some st)
  then show ?thesis using chunk_with_served [OF assms] by (simp add: Chunk_def)
next
  case None
  obtain st s' where "refresh src s = (Inr st, s')" using refresh_served [OF served] by blast
  then show ?thesis using None chunk_with_served [OF assms] by (simp add: Chunk_def)
qed

text \<open>C2: a read presents to Telegram only handles minted for the account that reads, and at most two of them,
whoever uploaded the segment; and everything it leaves in the stream, the cache and the row keeps that so.\<close>

theorem handles_stay_private:
  assumes "source_inv mt src s" and "mints mt (so_account src)" and "Chunk src offset lim s = (r, s')"
  shows "source_inv mt src s' \<and>
    (\<exists>docs. sy_presented s' = sy_presented s @ docs \<and> length docs \<le> 2 \<and> (\<forall>doc \<in> set docs. presents_own mt src doc))"
  using Chunk_proper [OF assms(1,2), of offset lim] assms(3) by (simp add: proper_step_def)

text \<open>A file uploaded by the account \<open>owner\<close>, read through the account \<open>guest\<close>: the row's handle is the owner's.\<close>

definition guest_account :: "(unit, char) reading_account" where
  "guest_account = \<lparr>ra_ID = ''guest'',
     ra_ReadChunk = (\<lambda>ref doc off lim t.
       (if sd_FileReference doc = ''fresh'' then Inr (slice ''hello'' off (off + lim - 1)) else Inl ''FILE_REFERENCE_EXPIRED'', t)),
     ra_RefreshDoc = (\<lambda>ref m t. (Inr \<lparr>sd_MsgID = m, sd_DocID = 11, sd_AccessHash = 5, sd_DCID = 2,
       sd_FileReference = ''fresh'', sd_Size = 5\<rparr>, t)),
     ra_MigratedDC = (\<lambda>_. None), ra_IsReferenceExpired = (\<lambda>e. e = ''FILE_REFERENCE_EXPIRED'')\<rparr>"

definition owner_segment :: Segment where
  "owner_segment = \<lparr>g_FileID = ''f'', g_Index = 1, g_Size = 5, g_TGMsgID = 42, g_TGDocID = 11, g_AccessHash = 9, g_DCID = 4,
     g_FileReference = ''owned'', g_AccountID = ''owner''\<rparr>"

definition guest_source :: "(unit, char) segmentSource" where
  "guest_source = \<lparr>so_account = guest_account, so_file = ''f'', so_seg = owner_segment,
     so_chRef = \<lparr>cr_ChannelID = ''ch'', cr_TGID = 7, cr_AccessHash = 9\<rparr>, so_key = refKey ''f'' 1 ''guest''\<rparr>"

definition guest_state :: "unit source_sys" where
  "guest_state = \<lparr>sy_state = None, sy_refs = [], sy_ttl = 60, sy_now = 0, sy_db = empty_db\<lparr>db_segments := [owner_segment]\<rparr>,
     sy_tg = (), sy_presented = []\<rparr>"

definition sample_minting :: minting where
  "sample_minting = \<lparr>mt_ref = (\<lambda>acc m ref. acc = ''guest'' \<and> ref = ''fresh'' \<or> acc = ''owner'' \<and> ref = ''owned''),
     mt_hash = (\<lambda>acc m h. acc = ''guest'' \<and> h = 5 \<or> acc = ''owner'' \<and> h = 9)\<rparr>"

theorem handles_stay_private_witness:
  "fst (Chunk guest_source 0 8 guest_state) = Inr ''hello'' \<and>
   source_inv sample_minting guest_source (snd (Chunk guest_source 0 8 guest_state)) \<and>
   (\<exists>docs. sy_presented (snd (Chunk guest_source 0 8 guest_state)) = docs \<and> length docs \<le> 2 \<and>
      (\<forall>doc \<in> set docs. presents_own sample_minting guest_source doc))"
proof -
  have inv: "source_inv sample_minting guest_source guest_state"
    by (simp add: source_inv_def guest_state_def guest_source_def guest_account_def owner_segment_def ownsStoredHandle_def
        row_minted_def minted_def sample_minting_def)
  have "mints sample_minting (so_account guest_source)"
    by (simp add: mints_def guest_source_def guest_account_def minted_def sample_minting_def)
  from handles_stay_private [OF inv this, of 0 8, OF prod.collapse [symmetric]]
  have "source_inv sample_minting guest_source (snd (Chunk guest_source 0 8 guest_state)) \<and>
      (\<exists>docs. sy_presented (snd (Chunk guest_source 0 8 guest_state)) = sy_presented guest_state @ docs \<and> length docs \<le> 2 \<and>
        (\<forall>doc \<in> set docs. presents_own sample_minting guest_source doc))" .
  moreover have "sy_presented guest_state = []" by (simp add: guest_state_def)
  moreover have "fst (Chunk guest_source 0 8 guest_state) = Inr ''hello''" by code_simp
  ultimately show ?thesis by simp
qed

end
