(* ===== verification/Download.thy ===== *)
theory Download
  imports Source UploadProps
begin

text \<open>
  From an upload to a read: the file an upload leaves, opened through an account, delivers the uploaded
  bytes.  The reader, the sources, the segment rows and the documents in the channel meet here.
\<close>

section \<open>The sources of a stored file\<close>

lemma piece_is_segment:
  assumes "0 < seg" "in64 seg" "in64 n" "1 \<le> i" "i \<le> SegmentCount seg n" "(i - 1) * seg < n" "int (length data) = n"
  shows "piece n seg data i = segment data seg i"
proof -
  have "0 \<le> (i - 1) * seg" using assms(1,4) by simp
  then have n: "0 \<le> n" using assms(6) by simp
  have size: "SegmentSize n seg i = min n (i * seg) - (i - 1) * seg"
    using take_segment [OF assms(1,2) n assms(3-5)] assms(6) by (simp add: min_def)
  have len: "length (drop (nat ((i - 1) * seg)) data) = nat (n - (i - 1) * seg)" using assms(7) \<open>0 \<le> (i - 1) * seg\<close> by simp
  show ?thesis
  proof (cases "n \<le> i * seg")
    case True
    then have "nat (i * seg - 1 - (i - 1) * seg + 1) \<ge> nat (n - (i - 1) * seg)" by simp
    then show ?thesis using True len by (simp add: piece_def segment_def slice_def size)
  next
    case False
    then show ?thesis by (simp add: piece_def segment_def slice_def size algebra_simps)
  qed
qed

lemma byIndex_found:
  assumes "i \<in> set (map g_Index segs)"
  obtains g where "byIndex segs i = Some g" and "g \<in> set segs" and "g_Index g = i"
proof -
  have "i \<in> fst ` set (rev (map (\<lambda>g. (g_Index g, g)) segs))" using assms by force
  then obtain g where g: "byIndex segs i = Some g" unfolding byIndex_def by (metis map_of_eq_None_iff not_None_eq)
  then have "(i, g) \<in> set (rev (map (\<lambda>g. (g_Index g, g)) segs))" unfolding byIndex_def by (rule map_of_SomeD)
  then show thesis using that g by auto
qed

lemma source_chunk_good:
  assumes "served (segment_source ra f ref g) content"
  shows "good_source (source_chunk ra found f ref g) content"
  unfolding good_source_def
proof (intro allI impI)
  fix off lim :: int
  assume "0 \<le> off \<and> off < int (length content) \<and> 0 < lim \<and> lim dvd off \<and> lim dvd 2 ^ 20"
  then have "asked content off lim" by (simp add: asked_def)
  from Chunk_served [OF assms this]
  show "source_chunk ra found f ref g off lim = Inr (slice content off (off + lim - 1))" by (simp add: source_chunk_def)
qed

lemma SegmentCount_covers:
  assumes "0 < seg" "in64 seg" "in64 n" "1 \<le> i" "(i - 1) * seg < n"
  shows "i \<le> SegmentCount seg n"
proof -
  have "0 \<le> (i - 1) * seg" using assms(1,4) by simp
  then have "0 < n" using assms(5) by simp
  then have "(i - 1) * seg < SegmentCount seg n * seg" using SegmentCount_bounds(3) [OF assms(1)] assms(5) by force
  then have "i - 1 < SegmentCount seg n" using assms(1) by (simp add: mult_less_cancel_right)
  then show ?thesis by simp
qed

text \<open>The account opens the channels and is served the documents of the file's segments.\<close>

definition readable ::
  "('t \<Rightarrow> (string \<times> int) \<Rightarrow> 'b list option) \<Rightarrow> ('t, 'b) reading_account \<Rightarrow> ('t, 'b) account \<Rightarrow> FileRow \<Rightarrow> ('t, 'b) drive \<Rightarrow> bool" where
  "readable docs ra b f s \<longleftrightarrow>
     (\<forall>cid. \<exists>ref. ac_ChannelRef b cid (dv_tg s) = Inr ref \<and> cr_ChannelID ref = cid) \<and>
     (\<forall>g \<in> set (Segments (f_ID f) (dv_db s)). \<forall>content ref.
        docs (dv_tg s) (file_key (dv_db s) f g) = Some content \<and> cr_ChannelID ref = fst (file_key (dv_db s) f g) \<longrightarrow>
        served (segment_source ra f ref g) content)"

lemma stored_sources:
  assumes P: "parts_stored docs f (piece (f_Size f) (f_SegmentSize f) data) s"
    and size: "0 < f_SegmentSize f" "in64 (f_SegmentSize f)" "in64 (f_Size f)" "int (length data) = f_Size f"
    and count: "f_SegmentCount f = SegmentCount (f_SegmentSize f) (f_Size f)"
    and readable: "readable docs ra b f s" and c: "channelFor (f_ChannelID f) (dv_db s) = Inr c" and ref: "cr_ChannelID ref = c_ID c"
  shows "good_sources (source_at (source_chunk ra found f ref) (Segments (f_ID f) (dv_db s))) data (f_SegmentSize f)"
  unfolding good_sources_def
proof (intro allI impI)
  fix i
  assume i: "1 \<le> i \<and> (i - 1) * f_SegmentSize f < int (length data)"
  then have in_count: "i \<le> SegmentCount (f_SegmentSize f) (f_Size f)" using SegmentCount_covers size by simp
  then have "i \<in> set (map g_Index (Segments (f_ID f) (dv_db s)))" using P i count by (simp add: parts_stored_def)
  then obtain g where g: "byIndex (Segments (f_ID f) (dv_db s)) i = Some g" "g \<in> set (Segments (f_ID f) (dv_db s))" "g_Index g = i"
    by (rule byIndex_found)
  have "docs (dv_tg s) (file_key (dv_db s) f g) = Some (segment data (f_SegmentSize f) i)"
    using P g piece_is_segment [OF size(1-3) _ in_count _ size(4)] i size(4) by (simp add: parts_stored_def)
  then have "good_source (source_chunk ra found f ref g) (segment data (f_SegmentSize f) i)"
    using readable g(2) c ref
    by (intro source_chunk_good) (simp add: readable_def file_key_def msg_key_def)
  then show "\<exists>src. source_at (source_chunk ra found f ref) (Segments (f_ID f) (dv_db s)) i = Inr src \<and>
      good_source src (segment data (f_SegmentSize f) i)"
    using g(1) by (simp add: source_at_def)
qed

lemma opened_file_reads:
  assumes P: "parts_stored docs f (piece (f_Size f) (f_SegmentSize f) data) s"
    and size: "0 < f_SegmentSize f" "in64 (f_SegmentSize f)" "in64 (f_Size f)" "int (length data) = f_Size f"
      "in64 (f_Size f + f_SegmentSize f)"
    and count: "f_SegmentCount f = SegmentCount (f_SegmentSize f) (f_Size f)"
    and readable: "readable docs ra b f s" and c: "channelFor (f_ChannelID f) (dv_db s) = Inr c"
    and hooks: "en_hooks env = no_hooks" and n: "0 < n"
  shows "\<exists>fl. OpenFile env (source_chunk ra found) opts f (Some b) s = Inr fl \<and> read_all (length data) n fl = data"
proof -
  obtain ref where ref: "ac_ChannelRef b (c_ID c) (dv_tg s) = Inr ref" "cr_ChannelID ref = c_ID c"
    using readable unfolding readable_def by blast
  let ?sf = "source_at (source_chunk ra found f ref) (Segments (f_ID f) (dv_db s))"
  have good: "good_sources ?sf data (f_SegmentSize f)" by (rule stored_sources [OF P size(1-4) count readable c ref(2)])
  obtain fl where fl: "Open ?sf (int (length data)) (f_SegmentSize f) opts = Inr fl" using size(1,4) by (simp add: Open_def)
  have "\<not> (Segments (f_ID f) (dv_db s) = [] \<and> 0 < f_Size f)"
  proof
    assume a: "Segments (f_ID f) (dv_db s) = [] \<and> 0 < f_Size f"
    then have "[1 .. f_SegmentCount f] = []" using P by (simp add: parts_stored_def)
    then show False using SegmentCount_bounds(1) [OF size(1), of "f_Size f"] a count by simp
  qed
  moreover have "FileByID (f_ID f) (dv_db s) = Inr f" using P by (simp add: parts_stored_def)
  ultimately have "OpenFile env (source_chunk ra found) opts f (Some b) s = Inr fl"
    using c ref(1) fl size(4) hooks unfolding OpenFile_def no_hooks_def by (simp add: Let_def)
  then show ?thesis using read_all_stored [OF fl good _ n] size(4,5) by simp
qed

text \<open>C1: what was uploaded is what is read back.  On an account that stores documents and whose calls
succeed, the file an upload leaves, opened through any account that is served its documents, delivers
exactly the uploaded bytes, in reads of any positive size, whatever handles the cache, the row and the
stream hold at each request.\<close>

theorem upload_then_read:
  assumes "index_inv (dv_db s)" and "en_hooks env = no_hooks"
    and "CleanPath (uq_DirPath req) = Inr clean" and "valid_utf8 clean"
    and "0 < en_segmentSize env" and "in64 (en_segmentSize env)" and "in64 (uq_Size req)"
    and "int (length data) = uq_Size req" and "stores docs a" and "willing a" and "dv_uploadJobs s = []"
    and "\<forall>n. is_ulid (en_newID env n)" and "list_all (\<lambda>c. c_ID c \<noteq> []) (db_channels (dv_db s))"
    and "uq_UserID req = [] \<or> is_ulid (uq_UserID req)"
    and "Begin env req s = (Inr (job, f), s1)" and "f_DirID f = [] \<or> is_ulid (f_DirID f)"
    and "in64 (uq_Size req + en_segmentSize env)"
    and "UploadStream env (Inr a) req data s = (Inr f', s')" and "readable docs ra b f' s'" and "0 < n"
  shows "\<exists>fl. OpenFile env (source_chunk ra found) opts f' (Some b) s' = Inr fl \<and> read_all (length data) n fl = data"
proof -
  have "f_Size f' = uq_Size req" "f_SegmentSize f' = en_segmentSize env" "f_SegmentCount f' = SegmentCount (f_SegmentSize f') (f_Size f')"
    and P: "parts_stored docs f' (piece (f_Size f') (f_SegmentSize f') data) s'"
    and c: "\<exists>c. channelFor (f_ChannelID f') (dv_db s') = Inr c"
    using UploadStream_run [OF assms(1-16)] assms(18) by auto
  with c show ?thesis using opened_file_reads [OF P _ _ _ _ _ _ assms(19) _ assms(2,20)] assms(5-8,17) by auto
qed

text \<open>An account that knows no handle of its own yet: only the handle of a message it has read again works.\<close>

definition shelf_reader :: "shelf \<Rightarrow> (shelf, char) reading_account" where
  "shelf_reader t0 = \<lparr>ra_ID = ''reader'',
     ra_ReadChunk = (\<lambda>ref doc off lim t.
       (case map_of t0 (cr_ChannelID ref, sd_MsgID doc) of
          None \<Rightarrow> Inl ''MESSAGE_EMPTY''
        | Some bytes \<Rightarrow> if sd_FileReference doc = ''fresh'' \<and> sd_AccessHash doc = 5
            then Inr (slice bytes off (off + lim - 1)) else Inl ''FILE_REFERENCE_EXPIRED'', t)),
     ra_RefreshDoc = (\<lambda>ref m t. (Inr \<lparr>sd_MsgID = m, sd_DocID = 11, sd_AccessHash = 5, sd_DCID = 2,
       sd_FileReference = ''fresh'', sd_Size = 0\<rparr>, t)),
     ra_MigratedDC = (\<lambda>_. None),
     ra_IsReferenceExpired = (\<lambda>e. e = ''FILE_REFERENCE_EXPIRED'')\<rparr>"

lemma shelf_readable: "readable map_of (shelf_reader (dv_tg s)) shelf_account f s"
proof -
  have "file_key d f g = (fst (file_key d f g), g_TGMsgID g)" for d g by (simp add: file_key_def msg_key_def)
  then have "served (segment_source (shelf_reader (dv_tg s)) f ref g) content"
    if "map_of (dv_tg s) (file_key (dv_db s) f g) = Some content" "cr_ChannelID ref = fst (file_key (dv_db s) f g)" for g content ref
    using that by (auto simp: served_def delivers_def moved_to_def segment_source_def shelf_reader_def doc_of_def)
  then show ?thesis by (auto simp: readable_def shelf_account_def)
qed

definition idle_state :: "(shelf, char) drive \<Rightarrow> shelf source_sys" where
  "idle_state s = \<lparr>sy_state = None, sy_refs = dv_refs s, sy_ttl = 60, sy_now = 0, sy_db = dv_db s, sy_tg = dv_tg s, sy_presented = []\<rparr>"

theorem upload_then_read_witness:
  "\<exists>f' s' fl. UploadStream shelf_env (Inr shelf_account) hello_request ''hello!'' shelf_drive = (Inr f', s') \<and>
     OpenFile shelf_env (source_chunk (shelf_reader (dv_tg s')) (\<lambda>_ _ _. idle_state s')) no_options f' (Some shelf_account) s' = Inr fl \<and>
     read_all 6 2 fl = ''hello!''"
proof -
  obtain job f s where b: "Begin shelf_env hello_request shelf_drive = (Inr (job, f), s)" "f_DirID f = []"
    using shelf_begin by blast
  have c: "CleanPath (uq_DirPath hello_request) = Inr ''/''" by code_simp
  note prem = shelf_drive_inv shelf_fields(1) c
  obtain f' s' where run: "UploadStream shelf_env (Inr shelf_account) hello_request ''hello!'' shelf_drive = (Inr f', s')"
    using UploadStream_run [OF prem _ _ _ _ _ shelf_stores shelf_willing _ _ _ _ b(1), of "''hello!''"] b(2)
    by (auto simp: shelf_fields shelf_ids in64_def valid_utf8_ascii)
  have "\<exists>fl. OpenFile shelf_env (source_chunk (shelf_reader (dv_tg s')) (\<lambda>_ _ _. idle_state s')) no_options f' (Some shelf_account) s' = Inr fl \<and>
      read_all (length ''hello!'') 2 fl = ''hello!''"
    by (rule upload_then_read [OF prem _ _ _ _ _ shelf_stores shelf_willing _ _ _ _ b(1) _ _ run shelf_readable])
      (auto simp: shelf_fields shelf_ids in64_def valid_utf8_ascii b(2))
  moreover have "length ''hello!'' = 6" by simp
  ultimately show ?thesis using run by metis
qed

end
