(* ===== verification/Accounts.thy ===== *)
theory Accounts
  imports Store Scope Like "HOL-Library.AList"
begin

text \<open>
  Accounts and their sessions: the tables \<open>users\<close> and \<open>refresh_tokens\<close> (\<open>internal/database/users.go\<close>), the
  service that issues and checks credentials (\<open>internal/auth/service.go\<close>, \<open>middleware.go\<close>) and the handlers
  that administer accounts (\<open>internal/api/users.go\<close>, \<open>server.go\<close>).  Hashing, argon2id, the random source and
  the JWT library are arguments (\<open>auth_env\<close>).  Audit rows, cookies, the plugins of an account and the home
  directories that follow a change of scope are left out.
\<close>

section \<open>State\<close>

record refresh_token =
  rt_ID :: string
  rt_UserID :: string
  rt_Hash :: string
  rt_ExpiresAt :: int
  rt_Revoked :: bool
  rt_CreatedAt :: int
  rt_UserAgent :: string
  rt_IP :: string
  rt_LastUsedAt :: int

record verifyEntry =
  ve_user :: User
  ve_expires :: int

text \<open>\<open>au_seq\<close> counts the values drawn from the random source, \<open>au_cache\<close> is \<open>verifyCache.entries\<close>.\<close>

record auth_sys =
  au_now :: int
  au_users :: "User list"
  au_tokens :: "refresh_token list"
  au_cache :: "(string \<times> verifyEntry) list"
  au_seq :: nat

record Claims =
  cl_Subject :: string
  cl_Username :: string
  cl_Role :: Role
  cl_IssuedAt :: int
  cl_ExpiresAt :: int

record auth_env =
  ax_newID :: "nat \<Rightarrow> string"
  ax_random :: "nat \<Rightarrow> string"
  ax_sha256 :: "string \<Rightarrow> string"
  ax_salt :: string
  ax_encode :: "nat \<Rightarrow> string \<Rightarrow> string"
  ax_verify :: "string \<Rightarrow> string \<Rightarrow> bool"
  ax_accessTTL :: int
  ax_refreshTTL :: int
  ax_verifyTTL :: int
  ax_sign :: "Claims \<Rightarrow> string"
  ax_parse :: "int \<Rightarrow> string \<Rightarrow> Claims option"

datatype auth_error = BadCredentials | WeakPassword | AccountDisabled | NoUsername | AuthDB db_error

type_synonym 'a auth_op = "auth_sys \<Rightarrow> (auth_error + 'a) \<times> auth_sys"

definition auth_bind :: "'a auth_op \<Rightarrow> ('a \<Rightarrow> 'b auth_op) \<Rightarrow> 'b auth_op" where
  "auth_bind p q s = (case p s of (Inl e, s') \<Rightarrow> (Inl e, s') | (Inr x, s') \<Rightarrow> q x s')"

definition auth_query :: "(auth_sys \<Rightarrow> db_error + 'a) \<Rightarrow> 'a auth_op" where
  "auth_query q s = (case q s of Inl e \<Rightarrow> (Inl (AuthDB e), s) | Inr x \<Rightarrow> (Inr x, s))"

definition auth_return :: "'a \<Rightarrow> 'a auth_op" where "auth_return x s = (Inr x, s)"
definition auth_fail :: "auth_error \<Rightarrow> 'a auth_op" where "auth_fail e s = (Inl e, s)"

section \<open>Statements over users\<close>

definition same_name :: "string \<Rightarrow> string \<Rightarrow> bool" where
  "same_name a b \<longleftrightarrow> map (\<lambda>c. ascii_fold (of_char c)) a = map (\<lambda>c. ascii_fold (of_char c)) b"

definition new_user :: "string \<Rightarrow> string \<Rightarrow> string \<Rightarrow> Role \<Rightarrow> int \<Rightarrow> User" where
  "new_user uid username hash role now = \<lparr>u_ID = uid, u_Username = username, u_PasswordHash = hash, u_Role = role,
     u_CreatedAt = now, u_UpdatedAt = now, u_Enabled = True, u_Perms = 0, u_ScopePath = [], u_QuotaBytes = 0, u_Note = [],
     u_LastLoginAt = 0, u_LastLoginIP = []\<rparr>"

definition CreateUser :: "auth_env \<Rightarrow> string \<Rightarrow> string \<Rightarrow> Role \<Rightarrow> User auth_op" where
  "CreateUser env username hash role s =
     (let u = new_user (ax_newID env (au_seq s)) username hash role (au_now s); s1 = s\<lparr>au_seq := Suc (au_seq s)\<rparr>
      in if list_ex (\<lambda>v. u_ID v = u_ID u \<or> same_name (u_Username v) username) (au_users s)
         then (Inl (AuthDB ErrConflict), s1) else (Inr u, s1\<lparr>au_users := au_users s @ [u]\<rparr>))"

definition UserByName :: "string \<Rightarrow> auth_sys \<Rightarrow> db_error + User" where
  "UserByName username s = query_row (\<lambda>u. same_name (u_Username u) username) (au_users s)"

definition auth_UserByID :: "string \<Rightarrow> auth_sys \<Rightarrow> db_error + User" where
  "auth_UserByID uid s = query_row (\<lambda>u. u_ID u = uid) (au_users s)"

definition CountUsers :: "auth_sys \<Rightarrow> nat" where "CountUsers s = length (au_users s)"

definition CountAdmins :: "auth_sys \<Rightarrow> nat" where
  "CountAdmins s = length (filter (\<lambda>u. u_Role u = RoleAdmin \<and> u_Enabled u) (au_users s))"

text \<open>\<open>UPDATE users SET ... WHERE id = ?\<close>, and the same with \<open>affectedOne\<close>.\<close>

definition on_user :: "string \<Rightarrow> (User \<Rightarrow> User) \<Rightarrow> auth_sys \<Rightarrow> auth_sys" where
  "on_user uid f s = s\<lparr>au_users := update_where (\<lambda>u. u_ID u = uid) f (au_users s)\<rparr>"

definition update_user :: "string \<Rightarrow> (User \<Rightarrow> User) \<Rightarrow> unit auth_op" where
  "update_user uid f s =
     (case affectedOne (\<lambda>u. u_ID u = uid) (au_users s) of
        Inl e \<Rightarrow> (Inl (AuthDB e), on_user uid f s) | Inr x \<Rightarrow> (Inr x, on_user uid f s))"

record UserProfile =
  up_Enabled :: "bool option"
  up_Perms :: "Perm option"
  up_ScopePath :: "string option"
  up_QuotaBytes :: "int option"
  up_Note :: "string option"

definition set_field :: "('v \<Rightarrow> User \<Rightarrow> User) \<Rightarrow> 'v option \<Rightarrow> User \<Rightarrow> User" where
  "set_field f v u = (case v of None \<Rightarrow> u | Some x \<Rightarrow> f x u)"

definition apply_profile :: "int \<Rightarrow> UserProfile \<Rightarrow> User \<Rightarrow> User" where
  "apply_profile now p u =
     set_field (\<lambda>x u. u\<lparr>u_Note := x\<rparr>) (up_Note p)
     (set_field (\<lambda>x u. u\<lparr>u_QuotaBytes := x\<rparr>) (up_QuotaBytes p)
     (set_field (\<lambda>x u. u\<lparr>u_ScopePath := x\<rparr>) (up_ScopePath p)
     (set_field (\<lambda>x u. u\<lparr>u_Perms := x\<rparr>) (up_Perms p)
     (set_field (\<lambda>x u. u\<lparr>u_Enabled := x\<rparr>) (up_Enabled p) (u\<lparr>u_UpdatedAt := now\<rparr>)))))"

definition UpdateUserProfile :: "string \<Rightarrow> UserProfile \<Rightarrow> unit auth_op" where
  "UpdateUserProfile uid p s =
     (if up_Enabled p = None \<and> up_Perms p = None \<and> up_ScopePath p = None \<and> up_QuotaBytes p = None \<and> up_Note p = None
      then (Inr (), s) else update_user uid (apply_profile (au_now s) p) s)"

definition TouchLogin :: "string \<Rightarrow> string \<Rightarrow> auth_sys \<Rightarrow> auth_sys" where
  "TouchLogin uid ip s = on_user uid (\<lambda>u. u\<lparr>u_LastLoginAt := au_now s, u_LastLoginIP := ip\<rparr>) s"

definition SetUserPassword :: "string \<Rightarrow> string \<Rightarrow> unit auth_op" where
  "SetUserPassword uid hash s = update_user uid (\<lambda>u. u\<lparr>u_PasswordHash := hash, u_UpdatedAt := au_now s\<rparr>) s"

definition SetUserRole :: "string \<Rightarrow> Role \<Rightarrow> unit auth_op" where
  "SetUserRole uid role s = update_user uid (\<lambda>u. u\<lparr>u_Role := role, u_UpdatedAt := au_now s\<rparr>) s"

text \<open>The tokens of the account go with it (\<open>ON DELETE CASCADE\<close>).\<close>

definition DeleteUser :: "string \<Rightarrow> unit auth_op" where
  "DeleteUser uid s =
     (case affectedOne (\<lambda>u. u_ID u = uid) (au_users s) of
        Inl e \<Rightarrow> (Inl (AuthDB e), s)
      | Inr x \<Rightarrow> (Inr x, s\<lparr>au_users := filter (\<lambda>u. u_ID u \<noteq> uid) (au_users s),
                             au_tokens := filter (\<lambda>t. rt_UserID t \<noteq> uid) (au_tokens s)\<rparr>))"

section \<open>Statements over refresh tokens\<close>

definition StoreRefreshToken :: "auth_env \<Rightarrow> string \<Rightarrow> string \<Rightarrow> int \<Rightarrow> string \<Rightarrow> string \<Rightarrow> string auth_op" where
  "StoreRefreshToken env uid hash expires agent ip s =
     (let tid = ax_newID env (au_seq s); s1 = s\<lparr>au_seq := Suc (au_seq s)\<rparr>
      in if list_ex (\<lambda>t. rt_ID t = tid \<or> rt_Hash t = hash) (au_tokens s) then (Inl (AuthDB ErrConflict), s1)
         else if \<not> list_ex (\<lambda>u. u_ID u = uid) (au_users s) then (Inl (AuthDB ErrConstraint), s1)
         else (Inr tid, s1\<lparr>au_tokens := au_tokens s @
           [\<lparr>rt_ID = tid, rt_UserID = uid, rt_Hash = hash, rt_ExpiresAt = expires, rt_Revoked = False, rt_CreatedAt = au_now s,
             rt_UserAgent = take 255 agent, rt_IP = ip, rt_LastUsedAt = au_now s\<rparr>]\<rparr>))"

definition LookupRefreshToken :: "string \<Rightarrow> auth_sys \<Rightarrow> db_error + (string \<times> string)" where
  "LookupRefreshToken hash s =
     (case query_row (\<lambda>t. rt_Hash t = hash) (au_tokens s) of
        Inl e \<Rightarrow> Inl e
      | Inr t \<Rightarrow> if rt_Revoked t \<or> au_now s > rt_ExpiresAt t then Inl ErrNotFound else Inr (rt_UserID t, rt_ID t))"

definition revoke_where :: "(refresh_token \<Rightarrow> bool) \<Rightarrow> auth_sys \<Rightarrow> auth_sys" where
  "revoke_where P s = s\<lparr>au_tokens := update_where P (\<lambda>t. t\<lparr>rt_Revoked := True\<rparr>) (au_tokens s)\<rparr>"

definition RevokeSessionOf :: "string \<Rightarrow> string \<Rightarrow> unit auth_op" where
  "RevokeSessionOf uid sid s =
     (case affectedOne (\<lambda>t. rt_ID t = sid \<and> rt_UserID t = uid) (au_tokens s) of
        Inl e \<Rightarrow> (Inl (AuthDB e), s)
      | Inr x \<Rightarrow> (Inr x, revoke_where (\<lambda>t. rt_ID t = sid \<and> rt_UserID t = uid) s))"

definition RevokeRefreshToken :: "string \<Rightarrow> auth_sys \<Rightarrow> auth_sys" where
  "RevokeRefreshToken tid = revoke_where (\<lambda>t. rt_ID t = tid)"

definition RevokeUserTokens :: "string \<Rightarrow> auth_sys \<Rightarrow> auth_sys" where
  "RevokeUserTokens uid = revoke_where (\<lambda>t. rt_UserID t = uid)"

definition PurgeExpiredTokens :: "auth_sys \<Rightarrow> nat \<times> auth_sys" where
  "PurgeExpiredTokens s =
     (let gone = (\<lambda>t. rt_ExpiresAt t < au_now s \<or> rt_Revoked t)
      in (length (filter gone (au_tokens s)), s\<lparr>au_tokens := filter (\<lambda>t. \<not> gone t) (au_tokens s)\<rparr>))"

section \<open>The cache of verified passwords\<close>

definition cache_key :: "auth_env \<Rightarrow> string \<Rightarrow> string \<Rightarrow> string" where
  "cache_key env username password = ax_sha256 env (ax_salt env @ username @ [CHR 0x00] @ password)"

definition cache_get :: "auth_env \<Rightarrow> string \<Rightarrow> string \<Rightarrow> auth_sys \<Rightarrow> User option" where
  "cache_get env username password s =
     (case map_of (au_cache s) (cache_key env username password) of
        None \<Rightarrow> None | Some e \<Rightarrow> if au_now s > ve_expires e then None else Some (ve_user e))"

definition cache_put :: "auth_env \<Rightarrow> string \<Rightarrow> string \<Rightarrow> User \<Rightarrow> auth_sys \<Rightarrow> auth_sys" where
  "cache_put env username password u s =
     (let entries = (if length (au_cache s) > 1024 then [] else au_cache s)
      in s\<lparr>au_cache := AList.update (cache_key env username password)
             \<lparr>ve_user = u, ve_expires = au_now s + ax_verifyTTL env\<rparr> entries\<rparr>)"

definition cache_forget :: "string \<Rightarrow> auth_sys \<Rightarrow> auth_sys" where
  "cache_forget username s = s\<lparr>au_cache := filter (\<lambda>(k, e). u_Username (ve_user e) \<noteq> username) (au_cache s)\<rparr>"

section \<open>The service\<close>

definition MinPasswordLength :: nat where "MinPasswordLength = 8"

definition HashPassword :: "auth_env \<Rightarrow> string \<Rightarrow> string auth_op" where
  "HashPassword env password s =
     (if length password < MinPasswordLength then (Inl WeakPassword, s)
      else (Inr (ax_encode env (au_seq s) password), s\<lparr>au_seq := Suc (au_seq s)\<rparr>))"

definition auth_CreateUser :: "auth_env \<Rightarrow> string \<Rightarrow> string \<Rightarrow> Role \<Rightarrow> User auth_op" where
  "auth_CreateUser env username password role =
     (if username = [] then auth_fail NoUsername
      else auth_bind (HashPassword env password) (\<lambda>hash. CreateUser env username hash role))"

definition Bootstrap :: "auth_env \<Rightarrow> string \<Rightarrow> string \<Rightarrow> unit auth_op" where
  "Bootstrap env user password s =
     (if user = [] \<or> CountUsers s > 0 then (Inr (), s)
      else auth_bind (auth_CreateUser env user password RoleAdmin) (\<lambda>_. auth_return ()) s)"

definition NeedsSetup :: "auth_sys \<Rightarrow> bool" where "NeedsSetup s \<longleftrightarrow> CountUsers s = 0"

record ClientInfo =
  ci_UserAgent :: string
  ci_IP :: string

record Tokens =
  tk_Access :: string
  tk_AccessExpiry :: int
  tk_Refresh :: string
  tk_RefreshExp :: int

definition issue :: "auth_env \<Rightarrow> User \<Rightarrow> ClientInfo \<Rightarrow> Tokens auth_op" where
  "issue env u client s =
     (let now = au_now s;
          access = ax_sign env \<lparr>cl_Subject = u_ID u, cl_Username = u_Username u, cl_Role = u_Role u, cl_IssuedAt = now,
            cl_ExpiresAt = now + ax_accessTTL env\<rparr>;
          refresh = ax_random env (au_seq s);
          refreshExp = now + ax_refreshTTL env
      in auth_bind (StoreRefreshToken env (u_ID u) (ax_sha256 env refresh) refreshExp (ci_UserAgent client) (ci_IP client))
           (\<lambda>_. auth_return \<lparr>tk_Access = access, tk_AccessExpiry = now + ax_accessTTL env, tk_Refresh = refresh,
             tk_RefreshExp = refreshExp\<rparr>) (s\<lparr>au_seq := Suc (au_seq s)\<rparr>))"

definition Login :: "auth_env \<Rightarrow> string \<Rightarrow> string \<Rightarrow> ClientInfo \<Rightarrow> (Tokens \<times> User) auth_op" where
  "Login env username password client s =
     (case UserByName username s of
        Inl e \<Rightarrow> (Inl (if e = ErrNotFound then BadCredentials else AuthDB e), s)
      | Inr u \<Rightarrow>
          if \<not> ax_verify env (u_PasswordHash u) password then (Inl BadCredentials, s)
          else if \<not> u_Enabled u then (Inl AccountDisabled, s)
          else (case issue env u client s of
              (Inl e, s1) \<Rightarrow> (Inl e, s1)
            | (Inr tokens, s1) \<Rightarrow> (Inr (tokens, u), TouchLogin (u_ID u) (ci_IP client) s1)))"

text \<open>\<open>Refresh\<close> reads the session and its account first, and then revokes the token and issues a new pair.\<close>

definition refresh_check :: "auth_env \<Rightarrow> string \<Rightarrow> (string \<times> User) auth_op" where
  "refresh_check env token s =
     (case LookupRefreshToken (ax_sha256 env token) s of
        Inl _ \<Rightarrow> (Inl BadCredentials, s)
      | Inr (uid, tid) \<Rightarrow>
          (case auth_UserByID uid s of
             Inl _ \<Rightarrow> (Inl BadCredentials, s)
           | Inr u \<Rightarrow> if \<not> u_Enabled u then (Inl AccountDisabled, RevokeUserTokens (u_ID u) s) else (Inr (tid, u), s)))"

definition refresh_rotate :: "auth_env \<Rightarrow> ClientInfo \<Rightarrow> string \<times> User \<Rightarrow> (Tokens \<times> User) auth_op" where
  "refresh_rotate env client c s =
     auth_bind (issue env (snd c) client) (\<lambda>tokens. auth_return (tokens, snd c)) (RevokeRefreshToken (fst c) s)"

definition Refresh :: "auth_env \<Rightarrow> string \<Rightarrow> ClientInfo \<Rightarrow> (Tokens \<times> User) auth_op" where
  "Refresh env token client = auth_bind (refresh_check env token) (refresh_rotate env client)"

definition Logout :: "auth_env \<Rightarrow> string \<Rightarrow> auth_sys \<Rightarrow> auth_sys" where
  "Logout env token s =
     (case LookupRefreshToken (ax_sha256 env token) s of Inl _ \<Rightarrow> s | Inr (_, tid) \<Rightarrow> RevokeRefreshToken tid s)"

definition UserForRefresh :: "auth_env \<Rightarrow> string \<Rightarrow> auth_sys \<Rightarrow> auth_error + User" where
  "UserForRefresh env token s =
     (case LookupRefreshToken (ax_sha256 env token) s of
        Inl _ \<Rightarrow> Inl BadCredentials
      | Inr (uid, _) \<Rightarrow>
          (case auth_UserByID uid s of
             Inl _ \<Rightarrow> Inl BadCredentials | Inr u \<Rightarrow> if \<not> u_Enabled u then Inl AccountDisabled else Inr u))"

definition VerifyBasic :: "auth_env \<Rightarrow> string \<Rightarrow> string \<Rightarrow> User auth_op" where
  "VerifyBasic env username password s =
     (case cache_get env username password s of
        Some u \<Rightarrow> (Inr u, s)
      | None \<Rightarrow>
          (case UserByName username s of
             Inl _ \<Rightarrow> (Inl BadCredentials, s)
           | Inr u \<Rightarrow>
               if \<not> ax_verify env (u_PasswordHash u) password then (Inl BadCredentials, s)
               else if \<not> u_Enabled u then (Inl AccountDisabled, s)
               else (Inr u, cache_put env username password u s)))"

definition ChangePassword :: "auth_env \<Rightarrow> string \<Rightarrow> string \<Rightarrow> unit auth_op" where
  "ChangePassword env uid password =
     auth_bind (HashPassword env password) (\<lambda>hash.
     auth_bind (SetUserPassword uid hash) (\<lambda>_ s.
       let s1 = (case auth_UserByID uid s of Inr u \<Rightarrow> cache_forget (u_Username u) s | Inl _ \<Rightarrow> s)
       in (Inr (), RevokeUserTokens uid s1)))"

datatype credentials = Bearer string | Basic string string | NoHeader

definition authenticate :: "auth_env \<Rightarrow> credentials \<Rightarrow> auth_sys \<Rightarrow> User option \<times> auth_sys" where
  "authenticate env cred s =
     (case cred of
        Bearer token \<Rightarrow>
          (case ax_parse env (au_now s) (trim_space token) of
             None \<Rightarrow> (None, s)
           | Some claims \<Rightarrow>
               (case auth_UserByID (cl_Subject claims) s of
                  Inl _ \<Rightarrow> (None, s) | Inr u \<Rightarrow> (if u_Enabled u then Some u else None, s)))
      | Basic username password \<Rightarrow>
          (case VerifyBasic env username password s of (Inl _, s') \<Rightarrow> (None, s') | (Inr u, s') \<Rightarrow> (Some u, s'))
      | NoHeader \<Rightarrow> (None, s))"

text \<open>\<open>RequireBrowserAuth\<close> falls back to the refresh cookie; \<open>RequireBasic\<close> and \<open>RequirePerm\<close> look at a permission.\<close>

definition browser_user :: "auth_env \<Rightarrow> credentials \<Rightarrow> string option \<Rightarrow> auth_sys \<Rightarrow> User option \<times> auth_sys" where
  "browser_user env cred cookie s =
     (case authenticate env cred s of
        (Some u, s') \<Rightarrow> (Some u, s')
      | (None, s') \<Rightarrow>
          (case cookie of
             None \<Rightarrow> (None, s')
           | Some token \<Rightarrow> (case UserForRefresh env token s' of Inl _ \<Rightarrow> (None, s') | Inr u \<Rightarrow> (Some u, s'))))"

datatype gate = Unauthorized | Forbidden | Served User

definition RequirePerm :: "Perm \<Rightarrow> User option \<Rightarrow> gate" where
  "RequirePerm perm u = (case u of None \<Rightarrow> Unauthorized | Some u \<Rightarrow> if Can u perm then Served u else Forbidden)"

definition RequireAdmin :: "User option \<Rightarrow> gate" where
  "RequireAdmin u = (case u of None \<Rightarrow> Unauthorized | Some u \<Rightarrow> if u_Role u = RoleAdmin then Served u else Forbidden)"

definition RequireBasic :: "auth_env \<Rightarrow> (string \<times> string) option \<Rightarrow> auth_sys \<Rightarrow> gate \<times> auth_sys" where
  "RequireBasic env header s =
     (case header of
        None \<Rightarrow> (Unauthorized, s)
      | Some (username, password) \<Rightarrow>
          (case VerifyBasic env username password s of
             (Inl _, s') \<Rightarrow> (Unauthorized, s')
           | (Inr u, s') \<Rightarrow> (if Can u PermWebDAV then Served u else Forbidden, s')))"

section \<open>The handlers\<close>

datatype api_error = BadRequest | NotAuthorized | AlreadySetUp | Fail auth_error | BadPath path_error

type_synonym 'a handler = "auth_sys \<Rightarrow> (api_error + 'a) \<times> auth_sys"

text \<open>\<open>s.fail\<close>: an error of the service ends the handler.\<close>

definition serve :: "'a auth_op \<Rightarrow> ('a \<Rightarrow> 'b handler) \<Rightarrow> 'b handler" where
  "serve p q s = (case p s of (Inl e, s') \<Rightarrow> (Inl (Fail e), s') | (Inr x, s') \<Rightarrow> q x s')"

definition reply :: "'a \<Rightarrow> 'a handler" where "reply x s = (Inr x, s)"
definition refuse :: "api_error \<Rightarrow> 'a handler" where "refuse e s = (Inl e, s)"

definition handleSetup :: "auth_env \<Rightarrow> string \<Rightarrow> string \<Rightarrow> ClientInfo \<Rightarrow> (Tokens \<times> User) handler" where
  "handleSetup env username password client s =
     (if \<not> NeedsSetup s then (Inl AlreadySetUp, s)
      else serve (auth_CreateUser env username password RoleAdmin) (\<lambda>u.
           serve (Login env username password client) (\<lambda>(tokens, _). reply (tokens, u))) s)"

definition normalizeScope :: "string \<Rightarrow> path_error + string" where
  "normalizeScope raw =
     (let trimmed = trim_space raw
      in if trimmed = [] \<or> trimmed = Root then Inr []
         else go_bind (CleanPath trimmed) (\<lambda>clean. Inr (if clean = Root then [] else clean)))"

record createUserRequest =
  cq_Username :: string
  cq_Password :: string
  cq_Role :: Role
  cq_Perms :: "string list"
  cq_ScopePath :: string
  cq_QuotaBytes :: int
  cq_Note :: string

definition create_profile :: "createUserRequest \<Rightarrow> string \<Rightarrow> UserProfile" where
  "create_profile req scope = \<lparr>up_Enabled = None,
     up_Perms = (if cq_Perms req \<noteq> [] then Some (PermsFromNames (cq_Perms req)) else None),
     up_ScopePath = (if scope \<noteq> [] then Some scope else None),
     up_QuotaBytes = (if cq_QuotaBytes req > 0 then Some (cq_QuotaBytes req) else None),
     up_Note = (if cq_Note req \<noteq> [] then Some (cq_Note req) else None)\<rparr>"

definition handleCreateUser :: "auth_env \<Rightarrow> createUserRequest \<Rightarrow> User handler" where
  "handleCreateUser env req s =
     (case normalizeScope (cq_ScopePath req) of
        Inl e \<Rightarrow> (Inl (BadPath e), s)
      | Inr scope \<Rightarrow>
          if cq_QuotaBytes req < 0 then (Inl BadRequest, s)
          else serve (auth_CreateUser env (cq_Username req) (cq_Password req) (cq_Role req)) (\<lambda>u.
               serve (UpdateUserProfile (u_ID u) (create_profile req scope)) (\<lambda>_.
               serve (auth_query (auth_UserByID (u_ID u))) reply)) s)"

record updateUserRequest =
  uu_Enabled :: "bool option"
  uu_Perms :: "string list option"
  uu_ScopePath :: "string option"
  uu_QuotaBytes :: "int option"
  uu_Note :: "string option"

text \<open>The guard before an account is disabled, deleted or loses the administrator role.\<close>

definition spares_admin :: "User \<Rightarrow> auth_sys \<Rightarrow> bool" where
  "spares_admin target s \<longleftrightarrow> u_Role target = RoleAdmin \<longrightarrow> CountAdmins s > 1"

definition update_profile :: "updateUserRequest \<Rightarrow> string option \<Rightarrow> UserProfile" where
  "update_profile req scope = \<lparr>up_Enabled = uu_Enabled req, up_Perms = map_option PermsFromNames (uu_Perms req),
     up_ScopePath = scope, up_QuotaBytes = uu_QuotaBytes req, up_Note = uu_Note req\<rparr>"

text \<open>What \<open>handleUpdateUser\<close> does once the request has passed its checks.\<close>

definition update_apply :: "string \<Rightarrow> User \<Rightarrow> UserProfile \<Rightarrow> User handler" where
  "update_apply uid target profile =
     serve (UpdateUserProfile uid profile) (\<lambda>_ s.
       let s1 = cache_forget (u_Username target) s
       in serve (auth_query (auth_UserByID uid)) (\<lambda>fresh s.
            (Inr fresh, if u_Enabled fresh then s else RevokeUserTokens uid s)) s1)"

definition update_scope :: "updateUserRequest \<Rightarrow> path_error + string option" where
  "update_scope req = (case uu_ScopePath req of None \<Rightarrow> Inr None | Some raw \<Rightarrow> go_bind (normalizeScope raw) (\<lambda>scope. Inr (Some scope)))"

definition handleUpdateUser :: "User \<Rightarrow> string \<Rightarrow> updateUserRequest \<Rightarrow> User handler" where
  "handleUpdateUser caller uid req =
     serve (auth_query (auth_UserByID uid)) (\<lambda>target s.
       if uu_Enabled req = Some False \<and> (uid = u_ID caller \<or> \<not> spares_admin target s) then (Inl BadRequest, s)
       else case update_scope req of
           Inl e \<Rightarrow> (Inl (BadPath e), s)
         | Inr scope \<Rightarrow>
             (case uu_QuotaBytes req of
                Some q \<Rightarrow> if q < 0 then refuse BadRequest else update_apply uid target (update_profile req scope)
              | None \<Rightarrow> update_apply uid target (update_profile req scope)) s)"

text \<open>\<open>removed\<close>: tearing down the plugins of the account succeeded.\<close>

definition handleDeleteUser :: "User \<Rightarrow> bool \<Rightarrow> string \<Rightarrow> unit handler" where
  "handleDeleteUser caller removed uid s0 =
     (if uid = u_ID caller then (Inl BadRequest, s0)
      else serve (auth_query (auth_UserByID uid)) (\<lambda>target s.
           if \<not> spares_admin target s then (Inl BadRequest, s)
           else if \<not> removed then (Inl (Fail (AuthDB ErrConstraint)), s)
           else serve (DeleteUser uid) (\<lambda>_ s. (Inr (), cache_forget (u_Username target) s)) s) s0)"

definition handleSetUserPassword :: "auth_env \<Rightarrow> string \<Rightarrow> string \<Rightarrow> unit handler" where
  "handleSetUserPassword env uid password = serve (ChangePassword env uid password) reply"

definition handleChangeOwnPassword :: "auth_env \<Rightarrow> User \<Rightarrow> string \<Rightarrow> string \<Rightarrow> unit handler" where
  "handleChangeOwnPassword env caller old new =
     (if \<not> ax_verify env (u_PasswordHash caller) old then refuse NotAuthorized
      else serve (ChangePassword env (u_ID caller) new) reply)"

definition forget_user :: "string \<Rightarrow> auth_sys \<Rightarrow> auth_sys" where
  "forget_user uid s = (case auth_UserByID uid s of Inl _ \<Rightarrow> s | Inr target \<Rightarrow> cache_forget (u_Username target) s)"

definition set_role :: "string \<Rightarrow> Role \<Rightarrow> unit handler" where
  "set_role uid role = serve (SetUserRole uid role) (\<lambda>_ s. (Inr (), forget_user uid s))"

definition handleSetUserRole :: "string \<Rightarrow> Role \<Rightarrow> unit handler" where
  "handleSetUserRole uid role =
     (if role = RoleUser
      then serve (auth_query (auth_UserByID uid)) (\<lambda>target s.
             if \<not> spares_admin target s then (Inl BadRequest, s) else set_role uid role s)
      else set_role uid role)"

definition handleRevokeUserSession :: "string \<Rightarrow> string \<Rightarrow> unit handler" where
  "handleRevokeUserSession uid sid = serve (RevokeSessionOf uid sid) reply"

definition handleRevokeUserSessions :: "string \<Rightarrow> unit handler" where
  "handleRevokeUserSessions uid s = (Inr (), forget_user uid (RevokeUserTokens uid s))"

section \<open>Requests\<close>

datatype auth_request =
    ReqSetup string string ClientInfo
  | ReqLogin string string ClientInfo
  | ReqRefresh string ClientInfo
  | ReqLogout string
  | ReqBasic string string
  | ReqCreate createUserRequest
  | ReqUpdate User string updateUserRequest
  | ReqDelete User bool string
  | ReqPassword string string
  | ReqOwnPassword User string string
  | ReqRole string Role
  | ReqRevoke string string
  | ReqRevokeAll string
  | ReqPurge
  | Passes nat

text \<open>What a request leaves; requests are served one after the other here.  \<open>Passes\<close> is time going by.\<close>

fun auth_step :: "auth_env \<Rightarrow> auth_request \<Rightarrow> auth_sys \<Rightarrow> auth_sys" where
  "auth_step env (ReqSetup n p c) s = snd (handleSetup env n p c s)"
| "auth_step env (ReqLogin n p c) s = snd (Login env n p c s)"
| "auth_step env (ReqRefresh t c) s = snd (Refresh env t c s)"
| "auth_step env (ReqLogout t) s = Logout env t s"
| "auth_step env (ReqBasic n p) s = snd (VerifyBasic env n p s)"
| "auth_step env (ReqCreate q) s = snd (handleCreateUser env q s)"
| "auth_step env (ReqUpdate caller uid q) s = snd (handleUpdateUser caller uid q s)"
| "auth_step env (ReqDelete caller ok uid) s = snd (handleDeleteUser caller ok uid s)"
| "auth_step env (ReqPassword uid p) s = snd (handleSetUserPassword env uid p s)"
| "auth_step env (ReqOwnPassword caller old new) s = snd (handleChangeOwnPassword env caller old new s)"
| "auth_step env (ReqRole uid role) s = snd (handleSetUserRole uid role s)"
| "auth_step env (ReqRevoke uid sid) s = snd (handleRevokeUserSession uid sid s)"
| "auth_step env (ReqRevokeAll uid) s = snd (handleRevokeUserSessions uid s)"
| "auth_step env ReqPurge s = snd (PurgeExpiredTokens s)"
| "auth_step env (Passes dt) s = s\<lparr>au_now := au_now s + int dt\<rparr>"

end
