(* ===== verification/AccountLaws.thy ===== *)
theory AccountLaws
  imports Accounts
begin

text \<open>
  The steps that requests to the account service are made of, as a locale: a relation between states
  that holds for every step holds between the states before and after any sequence of requests.
\<close>

section \<open>What every request is made of\<close>

lemma apply_profile_facts:
  "u_ID (apply_profile now p u) = u_ID u" "u_Username (apply_profile now p u) = u_Username u"
  "u_Role (apply_profile now p u) = u_Role u"
  "u_Enabled (apply_profile now p u) = (case up_Enabled p of None \<Rightarrow> u_Enabled u | Some b \<Rightarrow> b)"
  by (simp_all add: apply_profile_def set_field_def split: option.split)

definition keeps_name :: "(User \<Rightarrow> User) \<Rightarrow> bool" where
  "keeps_name f \<longleftrightarrow> (\<forall>u. u_ID (f u) = u_ID u \<and> u_Username (f u) = u_Username u)"

definition is_admin :: "User \<Rightarrow> bool" where "is_admin u \<longleftrightarrow> u_Role u = RoleAdmin \<and> u_Enabled u"

definition keeps_admin :: "(User \<Rightarrow> User) \<Rightarrow> bool" where
  "keeps_admin f \<longleftrightarrow> (\<forall>u. is_admin u \<longrightarrow> is_admin (f u))"

text \<open>The last administrator is spared: the change keeps administrators, or the target is not the last one.\<close>

definition guarded :: "string \<Rightarrow> (User \<Rightarrow> User) \<Rightarrow> auth_sys \<Rightarrow> bool" where
  "guarded uid f s \<longleftrightarrow> keeps_admin f \<or> (\<exists>target. auth_UserByID uid s = Inr target \<and> spares_admin target s)"

definition verified :: "auth_env \<Rightarrow> string \<Rightarrow> string \<Rightarrow> User \<Rightarrow> auth_sys \<Rightarrow> bool" where
  "verified env n p u s \<longleftrightarrow> UserByName n s = Inr u \<and> ax_verify env (u_PasswordHash u) p \<and> u_Enabled u"

fun names_ok :: "(string \<Rightarrow> bool) \<Rightarrow> auth_request \<Rightarrow> bool" where
  "names_ok ok (ReqSetup n p c) \<longleftrightarrow> ok n"
| "names_ok ok (ReqCreate q) \<longleftrightarrow> ok (cq_Username q)"
| "names_ok ok _ \<longleftrightarrow> True"

interpretation users: keyed_table u_ID "\<lambda>f u. if keeps_name f then f u else u"
  by unfold_locales (simp add: keeps_name_def)

lemma on_user_none: "affectedOne (\<lambda>u. u_ID u = uid) (au_users s) = Inl e \<Longrightarrow> on_user uid f s = s"
  by (cases s) (auto simp: affectedOne_def on_user_def update_where_def list_ex_iff map_idI split: if_splits)

lemma UserByID_changed:
  "\<lbrakk>keeps_name f; auth_UserByID uid s = Inr u\<rbrakk> \<Longrightarrow> auth_UserByID uid (on_user uid f s) = Inr (f u)"
  using users.find_touched [of uid f "au_users s"] by (simp add: auth_UserByID_def on_user_def)

text \<open>
  A relation between the states before and after a request, given for the steps requests are made of.
  A row is changed and the cached password of its account forgotten in one step, since that is how
  every handler does it.
\<close>

locale account_relation =
  fixes env :: auth_env and ok :: "string \<Rightarrow> bool" and R :: "auth_sys \<Rightarrow> auth_sys \<Rightarrow> bool"
  assumes refl: "R s s"
    and trans: "\<lbrakk>R s s1; R s1 s2\<rbrakk> \<Longrightarrow> R s s2"
    and draw: "R s (s\<lparr>au_seq := Suc (au_seq s)\<rparr>)"
    and add_user: "\<lbrakk>\<not> list_ex (\<lambda>v. u_ID v = u_ID u \<or> same_name (u_Username v) (u_Username u)) (au_users s); ok (u_Username u)\<rbrakk> \<Longrightarrow>
      R s (s\<lparr>au_users := au_users s @ [u]\<rparr>)"
    and touch: "R s (TouchLogin uid ip s)"
    and change: "\<lbrakk>keeps_name f; guarded uid f s\<rbrakk> \<Longrightarrow> R s (forget_user uid (on_user uid f s))"
    and delete: "\<lbrakk>auth_UserByID uid s = Inr target; spares_admin target s\<rbrakk> \<Longrightarrow> R s (cache_forget (u_Username target) (snd (DeleteUser uid s)))"
    and issue: "R s (snd (issue env u c s))"
    and revoke: "R s (revoke_where P s)"
    and purge: "R s (snd (PurgeExpiredTokens s))"
    and forget: "R s (cache_forget n s)"
    and put: "verified env n p u s \<Longrightarrow> R s (cache_put env n p u s)"
    and passes: "R s (s\<lparr>au_now := au_now s + int dt\<rparr>)"
begin

lemma bind_step:
  "\<lbrakk>\<And>s. R s (snd (p s)); \<And>x s s0. p s0 = (Inr x, s) \<Longrightarrow> R s (snd (q x s))\<rbrakk> \<Longrightarrow> R s (snd (auth_bind p q s))"
  by (cases "p s") (auto simp: auth_bind_def split: sum.split intro: trans dest: arg_cong [where f = snd] elim: meta_allE [of _ s])

lemma serve_step:
  "\<lbrakk>R s (snd (p s)); \<And>x s1. p s = (Inr x, s1) \<Longrightarrow> R s1 (snd (q x s1))\<rbrakk> \<Longrightarrow> R s (snd (serve p q s))"
  by (cases "p s") (auto simp: serve_def split: sum.split intro: trans)

lemma query_step: "R s (snd (auth_query q s))"
  by (auto simp: auth_query_def refl split: sum.split)

lemma reply_step: "R s (snd (reply x s))"
  by (simp add: reply_def refl)

lemma create_step:
  assumes "ok n"
  shows "R s (snd (auth_CreateUser env n pw role s))"
proof -
  have create: "R s (snd (CreateUser env n h role s))" for h s
  proof -
    let ?u = "new_user (ax_newID env (au_seq s)) n h role (au_now s)"
    have "u_Username ?u = n" by (simp add: new_user_def)
    then show ?thesis
      using draw [of s] add_user [of ?u "s\<lparr>au_seq := Suc (au_seq s)\<rparr>"] trans assms
      by (auto simp: CreateUser_def Let_def)
  qed
  have "R s (snd (HashPassword env pw s))" for s by (simp add: HashPassword_def refl draw)
  then show ?thesis using create by (auto simp: auth_CreateUser_def auth_fail_def refl intro!: bind_step)
qed

lemma revoke_steps: "R s (RevokeRefreshToken t s)" "R s (RevokeUserTokens uid s)"
  by (simp_all add: RevokeRefreshToken_def RevokeUserTokens_def revoke)

lemma login_step: "R s (snd (Login env n p c s))"
proof -
  have "R s (TouchLogin (u_ID u) ip s1)" if "issue env u c s = (r, s1)" for u ip r s1
    using issue [of s u c] touch that trans by (metis snd_conv)
  moreover have "R s s1" if "issue env u c s = (r, s1)" for u r s1 using issue [of s u c] that by simp
  ultimately show ?thesis by (auto simp: Login_def refl split: sum.split prod.split)
qed

lemma refresh_step: "R s (snd (Refresh env t c s))"
proof -
  have "R s (snd (refresh_check env t s))" for s
    by (auto simp: refresh_check_def refl revoke_steps split: sum.split prod.split)
  moreover have "R s (snd (refresh_rotate env c x s))" for x s
  proof -
    have "R (RevokeRefreshToken (fst x) s) (snd (auth_bind (issue env (snd x) c) (\<lambda>tokens. auth_return (tokens, snd x)) (RevokeRefreshToken (fst x) s)))"
      by (rule bind_step) (simp_all add: issue auth_return_def refl)
    then show ?thesis using revoke_steps(1) trans by (metis refresh_rotate_def)
  qed
  ultimately show ?thesis unfolding Refresh_def by (rule bind_step)
qed

lemma basic_step: "R s (snd (VerifyBasic env n p s))"
  by (auto simp: VerifyBasic_def refl verified_def intro!: put split: option.split sum.split)

lemma forget_user_step: "R s (forget_user uid s)"
  by (auto simp: forget_user_def refl forget split: sum.split)

lemma update_step:
  assumes "keeps_name f" and "guarded uid f s" and "auth_UserByID uid s = Inr target"
  shows "R s (cache_forget (u_Username target) (snd (update_user uid f s)))"
proof -
  have "auth_UserByID uid (on_user uid f s) = Inr (f target)" by (rule UserByID_changed [OF assms(1,3)])
  then have "forget_user uid (on_user uid f s) = cache_forget (u_Username target) (on_user uid f s)"
    using assms(1) by (simp add: forget_user_def keeps_name_def)
  moreover have "snd (update_user uid f s) = on_user uid f s" by (simp add: update_user_def split: sum.split)
  ultimately show ?thesis using change [OF assms(1,2)] by simp
qed

lemma password_step: "R s (snd (ChangePassword env uid p s))"
proof -
  have "R s (snd (HashPassword env p s))" for s by (simp add: HashPassword_def refl draw)
  moreover have "R s (snd (auth_bind (SetUserPassword uid h) (\<lambda>_ s.
       let s1 = (case auth_UserByID uid s of Inr u \<Rightarrow> cache_forget (u_Username u) s | Inl _ \<Rightarrow> s)
       in (Inr (), RevokeUserTokens uid s1)) s))" for h s
  proof -
    let ?f = "\<lambda>u. u\<lparr>u_PasswordHash := h, u_UpdatedAt := au_now s\<rparr>"
    have f: "keeps_name ?f" "guarded uid ?f s" by (simp_all add: keeps_name_def guarded_def keeps_admin_def is_admin_def)
    have fu: "forget_user uid s' = (case auth_UserByID uid s' of Inr u \<Rightarrow> cache_forget (u_Username u) s' | Inl _ \<Rightarrow> s')" for s'
      by (simp add: forget_user_def split: sum.split)
    show ?thesis
    proof (cases "affectedOne (\<lambda>u. u_ID u = uid) (au_users s)")
      case (Inl e)
      then show ?thesis by (simp add: auth_bind_def SetUserPassword_def update_user_def on_user_none refl)
    next
      case (Inr x)
      then show ?thesis
        using trans [OF change [OF f] revoke_steps(2)]
        by (simp add: auth_bind_def SetUserPassword_def update_user_def Let_def flip: fu)
    qed
  qed
  ultimately show ?thesis unfolding ChangePassword_def by (rule bind_step)
qed

lemma role_step:
  assumes "role = RoleAdmin \<or> (\<exists>target. auth_UserByID uid s = Inr target \<and> spares_admin target s)"
  shows "R s (snd (set_role uid role s))"
proof (cases "affectedOne (\<lambda>u. u_ID u = uid) (au_users s)")
  case (Inl e)
  then show ?thesis by (simp add: set_role_def serve_def SetUserRole_def update_user_def on_user_none refl)
next
  case (Inr x)
  have "keeps_name (\<lambda>u. u\<lparr>u_Role := role, u_UpdatedAt := au_now s\<rparr>)" by (simp add: keeps_name_def)
  moreover have "guarded uid (\<lambda>u. u\<lparr>u_Role := role, u_UpdatedAt := au_now s\<rparr>) s"
    using assms by (auto simp: guarded_def keeps_admin_def is_admin_def)
  ultimately show ?thesis using change Inr by (simp add: set_role_def serve_def SetUserRole_def update_user_def)
qed

lemma handleSetUserRole_step: "R s (snd (handleSetUserRole uid role s))"
proof (cases "role = RoleUser")
  case True
  have "R s (snd ((\<lambda>target s. if \<not> spares_admin target s then (Inl BadRequest, s) else set_role uid role s) target s))"
    if "auth_UserByID uid s = Inr target" for target
    using that by (auto simp: refl intro!: role_step)
  then show ?thesis unfolding handleSetUserRole_def using True
    by (auto intro!: serve_step simp: query_step) (auto simp: auth_query_def split: sum.splits)
next
  case False
  then have "role = RoleAdmin" by (cases role) auto
  then show ?thesis using role_step by (simp add: handleSetUserRole_def)
qed

lemma update_apply_step:
  assumes "auth_UserByID uid s = Inr target" and "up_Enabled p = Some False \<longrightarrow> spares_admin target s"
  shows "R s (snd (update_apply uid target p s))"
proof -
  have "keeps_name (apply_profile (au_now s) p)" by (simp add: keeps_name_def apply_profile_facts)
  moreover have "guarded uid (apply_profile (au_now s) p) s"
    using assms by (cases "up_Enabled p = Some False")
      (auto simp: guarded_def keeps_admin_def is_admin_def apply_profile_facts split: option.split)
  ultimately have first: "R s (cache_forget (u_Username target) (snd (UpdateUserProfile uid p s)))"
    using update_step assms(1) forget by (simp add: UpdateUserProfile_def)
  have found: "fst (UpdateUserProfile uid p s) = Inr ()"
    using assms(1) users.affected_found [of uid "au_users s"]
    by (simp add: UpdateUserProfile_def update_user_def auth_UserByID_def)
  let ?last = "serve (auth_query (auth_UserByID uid)) (\<lambda>fresh s. (Inr fresh, if u_Enabled fresh then s else RevokeUserTokens uid s))"
  have last: "R s1 (snd (?last s1))" for s1 by (rule serve_step) (simp_all add: query_step refl revoke_steps)
  have "snd (update_apply uid target p s) = snd (?last (cache_forget (u_Username target) (snd (UpdateUserProfile uid p s))))"
    using found by (cases "UpdateUserProfile uid p s") (simp add: update_apply_def serve_def [of "UpdateUserProfile uid p"] Let_def)
  then show ?thesis using trans [OF first last] by simp
qed

lemma handleUpdateUser_step: "R s (snd (handleUpdateUser caller uid q s))"
proof -
  have "R s (snd ((if uu_Enabled q = Some False \<and> (uid = u_ID caller \<or> \<not> spares_admin target s) then (Inl BadRequest, s)
       else case update_scope q of
           Inl e \<Rightarrow> (Inl (BadPath e), s)
         | Inr scope \<Rightarrow>
             (case uu_QuotaBytes q of
                Some k \<Rightarrow> if k < 0 then refuse BadRequest else update_apply uid target (update_profile q scope)
              | None \<Rightarrow> update_apply uid target (update_profile q scope)) s)))"
    if t: "auth_UserByID uid s = Inr target" for target
  proof (cases "uu_Enabled q = Some False \<and> (uid = u_ID caller \<or> \<not> spares_admin target s)")
    case False
    then have "up_Enabled (update_profile q scope) = Some False \<longrightarrow> spares_admin target s" for scope
      by (simp add: update_profile_def)
    from update_apply_step [OF t this] False show ?thesis
      by (auto simp: refl refuse_def split: sum.split option.split)
  qed (simp add: refl)
  then show ?thesis unfolding handleUpdateUser_def
    by (intro serve_step query_step) (auto simp: auth_query_def split: sum.splits)
qed

lemma handleDeleteUser_step: "R s (snd (handleDeleteUser caller removed uid s))"
proof (cases "uid = u_ID caller \<or> (\<forall>target. auth_UserByID uid s \<noteq> Inr target)")
  case True
  then show ?thesis by (cases "auth_UserByID uid s") (auto simp: handleDeleteUser_def refl serve_def auth_query_def)
next
  case False
  then obtain target where t: "auth_UserByID uid s = Inr target" "uid \<noteq> u_ID caller" by blast
  then have "fst (DeleteUser uid s) = Inr ()"
    using users.affected_found [of uid "au_users s"] by (simp add: DeleteUser_def auth_UserByID_def)
  then have "DeleteUser uid s = (Inr (), snd (DeleteUser uid s))" by (metis prod.collapse)
  then show ?thesis using t delete [OF t(1)] by (auto simp: handleDeleteUser_def refl serve_def auth_query_def split: prod.split)
qed

lemma handleCreateUser_step:
  assumes "ok (cq_Username q)"
  shows "R s (snd (handleCreateUser env q s))"
proof -
  obtain r s2 where r: "auth_CreateUser env (cq_Username q) (cq_Password q) (cq_Role q) s = (r, s2)" by fastforce
  show ?thesis
  proof (cases r)
    case (Inl e)
    then show ?thesis using create_step [OF assms, of s] r
      by (auto simp: handleCreateUser_def refl serve_def split: sum.split) (metis snd_conv)
  next
    case (Inr u)
    from r Inr obtain s1 where s1: "s1 = s\<lparr>au_seq := Suc (Suc (au_seq s))\<rparr>" "s2 = s1\<lparr>au_users := au_users s1 @ [u]\<rparr>"
      and fresh: "\<not> list_ex (\<lambda>v. u_ID v = u_ID u \<or> same_name (u_Username v) (u_Username u)) (au_users s1)"
      and name: "u_Username u = cq_Username q"
      by (auto simp: auth_CreateUser_def auth_fail_def auth_bind_def HashPassword_def CreateUser_def Let_def new_user_def split: if_splits)
    have one: "R s s1" using trans [OF draw draw, of s] s1(1) by simp
    have "R s1 (snd (UpdateUserProfile (u_ID u) p s2))" if "up_Enabled p = None" for p
    proof -
      let ?u = "if snd (UpdateUserProfile (u_ID u) p s2) = s2 then u else apply_profile (au_now s2) p u"
      have "on_user (u_ID u) f s2 = s1\<lparr>au_users := au_users s1 @ [f u]\<rparr>" for f
      proof -
        have "map (\<lambda>v. if u_ID v = u_ID u then f v else v) (au_users s1) = au_users s1"
          by (rule map_idI) (use fresh in \<open>auto simp: list_ex_iff\<close>)
        then show ?thesis by (simp add: s1(2) on_user_def update_where_def)
      qed
      then have "snd (UpdateUserProfile (u_ID u) p s2) = s1\<lparr>au_users := au_users s1 @ [?u]\<rparr>"
        by (auto simp: UpdateUserProfile_def update_user_def s1(2) split: sum.split)
      moreover have "R s1 (s1\<lparr>au_users := au_users s1 @ [?u]\<rparr>)"
        by (rule add_user) (use fresh name assms in \<open>auto simp: apply_profile_facts\<close>)
      ultimately show ?thesis by simp
    qed
    then have "R s (snd (UpdateUserProfile (u_ID u) (create_profile q scope) s2))" for scope
      using trans [OF one] by (simp add: create_profile_def)
    then show ?thesis
      using r Inr by (auto simp: handleCreateUser_def refl serve_def auth_query_def reply_def split: sum.splits prod.splits)
        (metis snd_conv)+
  qed
qed

lemma handleSetup_step:
  assumes "ok n"
  shows "R s (snd (handleSetup env n p c s))"
proof (cases "NeedsSetup s")
  case True
  have second: "R s1 (snd (serve (Login env n p c) (\<lambda>(tokens, _). reply (tokens, u)) s1))" for u s1
    by (rule serve_step) (auto simp: login_step reply_step)
  have "R s (snd (serve (auth_CreateUser env n p RoleAdmin) (\<lambda>u. serve (Login env n p c) (\<lambda>(tokens, _). reply (tokens, u))) s))"
    by (rule serve_step [OF create_step [OF assms] second])
  then show ?thesis using True by (simp add: handleSetup_def)
qed (simp add: handleSetup_def refl)

lemma step: "names_ok ok r \<Longrightarrow> R s (auth_step env r s)"
proof (cases r)
  case (ReqLogout t)
  then show ?thesis by (auto simp: Logout_def refl revoke_steps split: sum.split prod.split)
next
  case (ReqPassword uid p)
  then show ?thesis by (auto simp: handleSetUserPassword_def intro!: serve_step password_step reply_step)
next
  case (ReqOwnPassword caller old new)
  then show ?thesis by (auto simp: handleChangeOwnPassword_def refuse_def refl intro!: serve_step password_step reply_step)
next
  case (ReqRevoke uid sid)
  have "R s (snd (RevokeSessionOf uid sid s))" by (auto simp: RevokeSessionOf_def refl revoke split: sum.split)
  then show ?thesis using ReqRevoke by (auto simp: handleRevokeUserSession_def intro!: serve_step reply_step)
next
  case (ReqRevokeAll uid)
  then show ?thesis using trans [OF revoke_steps(2) forget_user_step] by (simp add: handleRevokeUserSessions_def)
qed (simp_all add: handleSetup_step login_step refresh_step basic_step handleCreateUser_step handleUpdateUser_step
    handleDeleteUser_step handleSetUserRole_step purge passes)

lemma run: "list_all (names_ok ok) rs \<Longrightarrow> R s (fold (auth_step env) rs s)"
  by (induction rs arbitrary: s) (auto intro: refl trans step)

end

end
