(* ===== verification/AccountProps.thy ===== *)
theory AccountProps
  imports AccountLaws
begin

text \<open>
  What the account service promises: whatever the requests, an administrator remains, a spent or revoked
  session stays refused, and the cache of verified passwords answers as a fresh check does.  And what it
  does not promise when requests overlap.
\<close>

section \<open>An administrator remains\<close>

definition users_ok :: "auth_sys \<Rightarrow> bool" where
  "users_ok s \<longleftrightarrow> distinct (map u_ID (au_users s))"

definition admins_remain :: "auth_sys \<Rightarrow> auth_sys \<Rightarrow> bool" where
  "admins_remain s s' \<longleftrightarrow> (users_ok s \<longrightarrow> users_ok s' \<and> (0 < CountAdmins s \<longrightarrow> 0 < CountAdmins s'))"

lemma admins_pos: "0 < CountAdmins s \<longleftrightarrow> (\<exists>v \<in> set (au_users s). is_admin v)"
  by (auto simp: CountAdmins_def is_admin_def filter_empty_conv)

lemma admins_remain_users: "au_users s' = au_users s \<Longrightarrow> admins_remain s s'"
  by (simp add: admins_remain_def users_ok_def CountAdmins_def)

lemma other_admin:
  assumes "users_ok s" and "1 < CountAdmins s"
  obtains v where "v \<in> set (au_users s)" and "is_admin v" and "u_ID v \<noteq> uid"
proof -
  obtain a b vs where l: "filter is_admin (au_users s) = a # b # vs"
    using assms(2) unfolding CountAdmins_def is_admin_def
    by (metis (no_types, lifting) One_nat_def Suc_leI length_0_conv length_Suc_conv list.exhaust_sel list.size(3) not_less_eq_eq
        not_one_le_zero less_imp_Suc_add)
  have "distinct (map u_ID (filter is_admin (au_users s)))"
    using assms(1) distinct_map_filter by (auto simp: users_ok_def)
  then have "u_ID a \<noteq> u_ID b" by (simp add: l)
  moreover have "a \<in> set (filter is_admin (au_users s))" "b \<in> set (filter is_admin (au_users s))" by (simp_all add: l)
  moreover from calculation(2,3) have "a \<in> set (au_users s)" "is_admin a" "b \<in> set (au_users s)" "is_admin b" by auto
  ultimately show thesis using that [of a] that [of b] by metis
qed

lemma spared_admin:
  assumes "users_ok s" and "auth_UserByID uid s = Inr target" and "spares_admin target s" and "0 < CountAdmins s"
  obtains v where "v \<in> set (au_users s)" and "is_admin v" and "u_ID v \<noteq> uid"
proof (cases "u_Role target = RoleAdmin")
  case True
  then show ?thesis using other_admin [OF assms(1)] assms(3) that by (metis spares_admin_def)
next
  case False
  obtain v where v: "v \<in> set (au_users s)" "is_admin v" using assms(4) admins_pos by blast
  have t: "target \<in> set (au_users s)" "u_ID target = uid" using assms(2) query_row_Some unfolding auth_UserByID_def by fast+
  have "u_ID v \<noteq> uid"
  proof
    assume "u_ID v = uid"
    then have "v = target" using t v(1) assms(1) by (metis users_ok_def distinct_map inj_onD)
    then show False using False v(2) by (simp add: is_admin_def)
  qed
  then show ?thesis using that v by blast
qed

lemma admins_remain_on_user:
  assumes "keeps_name f" and "guarded uid f s"
  shows "admins_remain s (on_user uid f s)"
  unfolding admins_remain_def
proof (intro impI conjI)
  assume ok: "users_ok s"
  show "users_ok (on_user uid f s)"
    using ok assms(1) map_update_where [of "\<lambda>u. u_ID u = uid" u_ID f "au_users s"]
    by (simp add: users_ok_def on_user_def keeps_name_def)
  assume pos: "0 < CountAdmins s"
  have img: "(if u_ID v = uid then f v else v) \<in> set (au_users (on_user uid f s))" if "v \<in> set (au_users s)" for v
    using that by (auto simp: on_user_def update_where_def)
  show "0 < CountAdmins (on_user uid f s)"
  proof (cases "keeps_admin f")
    case True
    obtain v where "v \<in> set (au_users s)" "is_admin v" using pos admins_pos by blast
    then show ?thesis using img True unfolding admins_pos keeps_admin_def by metis
  next
    case False
    then obtain v where "v \<in> set (au_users s)" "is_admin v" "u_ID v \<noteq> uid"
      using assms(2) spared_admin [OF ok _ _ pos] unfolding guarded_def by metis
    then show ?thesis using img unfolding admins_pos by metis
  qed
qed

lemma issue_users: "au_users (snd (issue env u c s)) = au_users s"
  by (auto simp: issue_def Let_def auth_bind_def StoreRefreshToken_def auth_return_def split: prod.split sum.split if_splits)

interpretation admins: account_relation env "\<lambda>_. True" admins_remain for env
proof unfold_locales
  fix s s1 s2 :: auth_sys
  show "admins_remain s s" by (simp add: admins_remain_def)
  show "\<lbrakk>admins_remain s s1; admins_remain s1 s2\<rbrakk> \<Longrightarrow> admins_remain s s2" by (simp add: admins_remain_def)
next
  fix s :: auth_sys and u :: User
  assume "\<not> list_ex (\<lambda>v. u_ID v = u_ID u \<or> same_name (u_Username v) (u_Username u)) (au_users s)"
  then show "admins_remain s (s\<lparr>au_users := au_users s @ [u]\<rparr>)"
    by (auto simp: admins_remain_def users_ok_def admins_pos list_ex_iff)
next
  fix uid ip and s :: auth_sys
  show "admins_remain s (TouchLogin uid ip s)"
    unfolding TouchLogin_def
    by (rule admins_remain_on_user) (simp_all add: keeps_name_def guarded_def keeps_admin_def is_admin_def)
next
  fix f uid and s :: auth_sys
  assume "keeps_name f" "guarded uid f s"
  then have "admins_remain s (on_user uid f s)" by (rule admins_remain_on_user)
  then show "admins_remain s (forget_user uid (on_user uid f s))"
    by (auto simp: admins_remain_def users_ok_def CountAdmins_def forget_user_def cache_forget_def split: sum.split)
next
  fix uid target and s :: auth_sys
  assume a: "auth_UserByID uid s = Inr target" "spares_admin target s"
  show "admins_remain s (cache_forget (u_Username target) (snd (DeleteUser uid s)))"
    unfolding admins_remain_def
  proof (intro impI conjI)
    assume ok: "users_ok s"
    have u: "au_users (cache_forget (u_Username target) (snd (DeleteUser uid s))) = filter (\<lambda>u. u_ID u \<noteq> uid) (au_users s)"
      using users.affected_found [of uid "au_users s"] a(1) by (simp add: DeleteUser_def auth_UserByID_def cache_forget_def)
    show "users_ok (cache_forget (u_Username target) (snd (DeleteUser uid s)))"
      using ok distinct_map_filter unfolding users_ok_def u by blast
    assume "0 < CountAdmins s"
    then obtain v where "v \<in> set (au_users s)" "is_admin v" "u_ID v \<noteq> uid" by (rule spared_admin [OF ok a])
    then show "0 < CountAdmins (cache_forget (u_Username target) (snd (DeleteUser uid s)))"
      unfolding admins_pos u by auto
  qed
qed (auto intro!: admins_remain_users
    simp: issue_users revoke_where_def PurgeExpiredTokens_def Let_def cache_forget_def cache_put_def)

text \<open>C6: once there is an enabled administrator, there is always one: no sequence of requests, by whomever,
disables, demotes or deletes the last one.\<close>

theorem last_admin_stays:
  assumes "users_ok s" and "0 < CountAdmins s"
  shows "users_ok (fold (auth_step env) rs s) \<and> 0 < CountAdmins (fold (auth_step env) rs s)"
proof -
  have "list_all (names_ok (\<lambda>_. True)) rs" by (simp add: list_all_iff) (metis names_ok.elims(3))
  then have "admins_remain s (fold (auth_step env) rs s)" by (rule admins.run)
  then show ?thesis using assms by (simp add: admins_remain_def)
qed

text \<open>Two administrators; one of them deletes the other, disables and demotes himself.\<close>

definition plain_env :: auth_env where
  "plain_env = \<lparr>ax_newID = (\<lambda>n. replicate n CHR ''i''), ax_random = (\<lambda>n. replicate n CHR ''r''), ax_sha256 = (\<lambda>x. x),
     ax_salt = ''salt'', ax_encode = (\<lambda>n p. p), ax_verify = (\<lambda>h p. h = p), ax_accessTTL = 10, ax_refreshTTL = 100,
     ax_verifyTTL = 5, ax_sign = cl_Subject, ax_parse = (\<lambda>now t. Some \<lparr>cl_Subject = t, cl_Username = t, cl_Role = RoleUser,
       cl_IssuedAt = now, cl_ExpiresAt = now\<rparr>)\<rparr>"

definition two_admins :: auth_sys where
  "two_admins = \<lparr>au_now = 0, au_users = [new_user ''a'' ''ann'' ''password'' RoleAdmin 0, new_user ''b'' ''bob'' ''wordpass'' RoleAdmin 0],
     au_tokens = [], au_cache = [], au_seq = 2\<rparr>"

definition no_change :: updateUserRequest where
  "no_change = \<lparr>uu_Enabled = None, uu_Perms = None, uu_ScopePath = None, uu_QuotaBytes = None, uu_Note = None\<rparr>"

definition takeover :: "auth_request list" where
  "takeover = (let ann = new_user ''a'' ''ann'' ''password'' RoleAdmin 0; bob = new_user ''b'' ''bob'' ''wordpass'' RoleAdmin 0
     in [ReqDelete ann True ''b'', ReqRole ''a'' RoleUser, ReqUpdate bob ''a'' (no_change\<lparr>uu_Enabled := Some False\<rparr>), ReqDelete bob True ''a''])"

theorem last_admin_stays_witness:
  "0 < CountAdmins (fold (auth_step plain_env) takeover two_admins) \<and> 1 < CountAdmins two_admins"
proof -
  have "users_ok two_admins" "0 < CountAdmins two_admins" "1 < CountAdmins two_admins"
    by (simp_all add: users_ok_def two_admins_def CountAdmins_def new_user_def)
  then show ?thesis using last_admin_stays [of two_admins plain_env takeover] by blast
qed

section \<open>Statements of overlapping requests\<close>

text \<open>
  A request is several statements, and those of other requests may run between any two of them.  What a request reads never
  changes the state, and what it writes may rest on what it has read earlier: so the writes are taken with any arguments
  whatever.  \<open>issue\<close> is one of them, since what it draws is its own until it is stored.
\<close>

inductive auth_stmt :: "auth_env \<Rightarrow> auth_sys \<Rightarrow> auth_sys \<Rightarrow> bool" for env where
  stmt_draw: "auth_stmt env s (s\<lparr>au_seq := Suc (au_seq s)\<rparr>)"
| stmt_insert: "auth_stmt env s (s\<lparr>au_users := au_users s @ [u]\<rparr>)"
| stmt_update: "keeps_name f \<Longrightarrow> auth_stmt env s (on_user uid f s)"
| stmt_delete: "auth_stmt env s (snd (DeleteUser uid s))"
| stmt_issue: "auth_stmt env s (snd (issue env u c s))"
| stmt_revoke: "auth_stmt env s (revoke_where P s)"
| stmt_purge: "auth_stmt env s (snd (PurgeExpiredTokens s))"
| stmt_forget: "auth_stmt env s (cache_forget n s)"
| stmt_put: "auth_stmt env s (cache_put env n p u s)"
| stmt_passes: "auth_stmt env s (s\<lparr>au_now := au_now s + int dt\<rparr>)"

abbreviation auth_stmts :: "auth_env \<Rightarrow> auth_sys \<Rightarrow> auth_sys \<Rightarrow> bool" where "auth_stmts env \<equiv> (auth_stmt env)\<^sup>*\<^sup>*"

text \<open>Every request is a sequence of such statements.\<close>

interpretation stmts: account_relation env "\<lambda>_. True" "auth_stmts env" for env
proof unfold_locales
  fix uid ip and s :: auth_sys
  show "auth_stmts env s (TouchLogin uid ip s)"
    unfolding TouchLogin_def by (intro r_into_rtranclp stmt_update) (simp add: keeps_name_def)
next
  fix f uid and s :: auth_sys
  assume "keeps_name f"
  then have "auth_stmts env s (on_user uid f s)" by (intro r_into_rtranclp stmt_update)
  moreover have "auth_stmts env s1 (forget_user uid s1)" for s1
    by (auto simp: forget_user_def intro: stmt_forget split: sum.split)
  ultimately show "auth_stmts env s (forget_user uid (on_user uid f s))" by (rule rtranclp_trans)
next
  fix uid target and s :: auth_sys
  have "auth_stmts env s (snd (DeleteUser uid s))" by (intro r_into_rtranclp stmt_delete)
  then show "auth_stmts env s (cache_forget (u_Username target) (snd (DeleteUser uid s)))"
    by (rule rtranclp.rtrancl_into_rtrancl) (rule stmt_forget)
qed (auto intro: auth_stmt.intros rtranclp_trans)

lemma request_stmts: "auth_stmts env s (auth_step env r s)"
  by (rule stmts.step) (metis names_ok.elims(3))

section \<open>Sessions\<close>

text \<open>\<open>later env s s'\<close>: every token of \<open>s'\<close> is one of \<open>s\<close>, revoked if it was, or has been drawn since.\<close>

definition same_token :: "refresh_token \<Rightarrow> refresh_token \<Rightarrow> bool" where
  "same_token t t' \<longleftrightarrow> rt_ID t' = rt_ID t \<and> rt_Hash t' = rt_Hash t \<and> rt_UserID t' = rt_UserID t \<and> (rt_Revoked t \<longrightarrow> rt_Revoked t')"

definition drawn_token :: "auth_env \<Rightarrow> nat \<Rightarrow> nat \<Rightarrow> refresh_token \<Rightarrow> bool" where
  "drawn_token env m n t \<longleftrightarrow> (\<exists>k. m \<le> k \<and> k < n \<and> rt_Hash t = ax_sha256 env (ax_random env k))"

definition later :: "auth_env \<Rightarrow> auth_sys \<Rightarrow> auth_sys \<Rightarrow> bool" where
  "later env s s' \<longleftrightarrow> au_seq s \<le> au_seq s' \<and>
     (\<forall>t' \<in> set (au_tokens s'). (\<exists>t \<in> set (au_tokens s). same_token t t') \<or> drawn_token env (au_seq s) (au_seq s') t')"

lemma same_token_refl: "same_token t t"
  by (simp add: same_token_def)

lemma drawn_wider: "\<lbrakk>drawn_token env m n t; m' \<le> m; n \<le> n'\<rbrakk> \<Longrightarrow> drawn_token env m' n' t"
  unfolding drawn_token_def by (meson le_trans less_le_trans)

lemma drawn_same: "\<lbrakk>drawn_token env m n t; same_token t t'\<rbrakk> \<Longrightarrow> drawn_token env m n t'"
  by (simp add: drawn_token_def same_token_def)

lemma same_token_trans: "\<lbrakk>same_token t t1; same_token t1 t2\<rbrakk> \<Longrightarrow> same_token t t2"
  by (simp add: same_token_def)

lemma later_trans:
  assumes a: "later env s s1" and b: "later env s1 s2"
  shows "later env s s2"
  unfolding later_def
proof (intro conjI ballI)
  have le: "au_seq s \<le> au_seq s1" "au_seq s1 \<le> au_seq s2" using a b by (simp_all add: later_def)
  then show "au_seq s \<le> au_seq s2" by simp
  fix t2
  assume "t2 \<in> set (au_tokens s2)"
  then consider (old) t1 where "t1 \<in> set (au_tokens s1)" "same_token t1 t2" | (drawn) "drawn_token env (au_seq s1) (au_seq s2) t2"
    using b by (auto simp: later_def)
  then show "(\<exists>t \<in> set (au_tokens s). same_token t t2) \<or> drawn_token env (au_seq s) (au_seq s2) t2"
  proof cases
    case old
    then have "(\<exists>t \<in> set (au_tokens s). same_token t t1) \<or> drawn_token env (au_seq s) (au_seq s1) t1"
      using a by (simp add: later_def)
    then show ?thesis using old(2) same_token_trans drawn_same drawn_wider [OF _ order_refl le(2)] by blast
  next
    case drawn
    then show ?thesis using drawn_wider [OF _ le(1) order_refl] by blast
  qed
qed

lemma later_sub:
  "\<lbrakk>au_seq s \<le> au_seq s'; \<forall>t' \<in> set (au_tokens s'). \<exists>t \<in> set (au_tokens s). same_token t t'\<rbrakk> \<Longrightarrow> later env s s'"
  by (auto simp: later_def)

lemma later_revoke: "later env s (revoke_where P s)"
  by (rule later_sub) (auto simp: revoke_where_def set_update_where same_token_def)

lemma issue_snd: "snd (issue env u c s) = snd (StoreRefreshToken env (u_ID u) (ax_sha256 env (ax_random env (au_seq s)))
    (au_now s + ax_refreshTTL env) (ci_UserAgent c) (ci_IP c) (s\<lparr>au_seq := Suc (au_seq s)\<rparr>))"
  by (simp add: issue_def Let_def auth_bind_def auth_return_def split: prod.split sum.split)

lemma StoreRefreshToken_tokens:
  "t \<in> set (au_tokens (snd (StoreRefreshToken env uid h ex ag ip s))) \<Longrightarrow> t \<in> set (au_tokens s) \<or> rt_Hash t = h"
  "au_seq (snd (StoreRefreshToken env uid h ex ag ip s)) = Suc (au_seq s)"
  by (auto simp: StoreRefreshToken_def Let_def split: if_splits)

lemma later_issue: "later env s (snd (issue env u c s))"
  unfolding issue_snd later_def drawn_token_def
proof (intro conjI ballI)
  let ?s = "s\<lparr>au_seq := Suc (au_seq s)\<rparr>"
  fix t
  assume "t \<in> set (au_tokens (snd (StoreRefreshToken env (u_ID u) (ax_sha256 env (ax_random env (au_seq s)))
    (au_now s + ax_refreshTTL env) (ci_UserAgent c) (ci_IP c) ?s)))"
  from StoreRefreshToken_tokens(1) [OF this]
  consider "t \<in> set (au_tokens s)" | "rt_Hash t = ax_sha256 env (ax_random env (au_seq s))" by auto
  then show "(\<exists>t' \<in> set (au_tokens s). same_token t' t) \<or> (\<exists>k \<ge> au_seq s. k < au_seq (snd (StoreRefreshToken env (u_ID u)
      (ax_sha256 env (ax_random env (au_seq s))) (au_now s + ax_refreshTTL env) (ci_UserAgent c) (ci_IP c) ?s)) \<and>
      rt_Hash t = ax_sha256 env (ax_random env k))"
    by cases (use same_token_refl in blast, auto simp: StoreRefreshToken_tokens(2))
qed (simp add: StoreRefreshToken_tokens(2))

lemma later_stmt: "auth_stmt env s s' \<Longrightarrow> later env s s'"
proof (induction rule: auth_stmt.induct)
  case (stmt_issue s u c)
  show ?case by (rule later_issue)
next
  case (stmt_revoke s P)
  show ?case by (rule later_revoke)
qed (auto intro!: later_sub same_token_refl split: sum.splits
    simp: on_user_def cache_forget_def DeleteUser_def PurgeExpiredTokens_def Let_def cache_put_def)

lemma later_stmts: "auth_stmts env s s' \<Longrightarrow> later env s s'"
proof (induction rule: rtranclp_induct)
  case base
  show ?case by (rule later_sub) (auto intro: same_token_refl)
next
  case (step s1 s2)
  then show ?case using later_trans later_stmt by blast
qed

text \<open>A token that is refused now and that the random source does not draw again is refused for good.\<close>

definition no_longer_valid :: "auth_env \<Rightarrow> string \<Rightarrow> auth_sys \<Rightarrow> bool" where
  "no_longer_valid env token s \<longleftrightarrow> (\<forall>t \<in> set (au_tokens s). rt_Hash t = ax_sha256 env token \<longrightarrow> rt_Revoked t)"

definition never_drawn :: "auth_env \<Rightarrow> string \<Rightarrow> auth_sys \<Rightarrow> bool" where
  "never_drawn env token s \<longleftrightarrow> (\<forall>k \<ge> au_seq s. ax_sha256 env (ax_random env k) \<noteq> ax_sha256 env token)"

lemma spent_later:
  assumes "no_longer_valid env token s" and "never_drawn env token s" and "later env s s'"
  shows "no_longer_valid env token s'"
  using assms by (fastforce simp: no_longer_valid_def never_drawn_def later_def same_token_def drawn_token_def)

lemma spent_refused:
  assumes "no_longer_valid env token s"
  shows "Refresh env token c s = (Inl BadCredentials, s) \<and> UserForRefresh env token s = Inl BadCredentials"
proof -
  have "\<exists>e. LookupRefreshToken (ax_sha256 env token) s = Inl e"
    using assms query_row_Some [of "\<lambda>t. rt_Hash t = ax_sha256 env token" "au_tokens s"]
    by (auto simp: LookupRefreshToken_def no_longer_valid_def split: sum.split)
  then show ?thesis by (auto simp: Refresh_def refresh_check_def UserForRefresh_def auth_bind_def)
qed

lemma spent_for_good:
  assumes "no_longer_valid env token s" and "never_drawn env token s" and "auth_stmts env s s'"
  shows "Refresh env token c s' = (Inl BadCredentials, s') \<and> UserForRefresh env token s' = Inl BadCredentials"
  by (rule spent_refused [OF spent_later [OF assms(1,2) later_stmts [OF assms(3)]]])

lemma revoke_whereE:
  assumes "t' \<in> set (au_tokens (revoke_where P s))"
  obtains t where "t \<in> set (au_tokens s)" and "rt_Hash t' = rt_Hash t" and "rt_UserID t' = rt_UserID t"
    and "rt_Revoked t' \<longleftrightarrow> rt_Revoked t \<or> P t"
proof -
  obtain t where "t \<in> set (au_tokens s)" "t' = (if P t then t\<lparr>rt_Revoked := True\<rparr> else t)"
    using assms by (auto simp: revoke_where_def update_where_def)
  then show thesis using that [of t] by (cases "P t") simp_all
qed

lemma never_drawn_later: "\<lbrakk>never_drawn env token s; later env s s'\<rbrakk> \<Longrightarrow> never_drawn env token s'"
  by (simp add: never_drawn_def later_def)

lemma old_token:
  assumes "later env s s'" and "never_drawn env token s" and "t' \<in> set (au_tokens s')" and "rt_Hash t' = ax_sha256 env token"
  obtains t where "t \<in> set (au_tokens s)" and "same_token t t'"
proof -
  have "\<not> drawn_token env (au_seq s) (au_seq s') t'" using assms(2,4) by (auto simp: drawn_token_def never_drawn_def)
  then show thesis using assms(1,3) that by (auto simp: later_def)
qed

lemma read_token:
  assumes "refresh_check env token s = (Inr (tid, u), s')"
  obtains t where "t \<in> set (au_tokens s)" and "rt_Hash t = ax_sha256 env token" and "rt_ID t = tid"
proof -
  obtain uid where "LookupRefreshToken (ax_sha256 env token) s = Inr (uid, tid)"
    using assms by (auto simp: refresh_check_def split: sum.splits prod.splits if_splits)
  then show thesis
    using query_row_Some [of "\<lambda>t. rt_Hash t = ax_sha256 env token" "au_tokens s"] that
    by (auto simp: LookupRefreshToken_def split: sum.splits if_splits)
qed

lemma revoked_by_id:
  assumes d: "distinct (map rt_Hash (au_tokens s))" and n: "never_drawn env token s" and c: "refresh_check env token s = (Inr (tid, u), s0)"
    and l: "later env s s1"
  shows "no_longer_valid env token (RevokeRefreshToken tid s1)"
  unfolding no_longer_valid_def RevokeRefreshToken_def
proof (intro ballI impI)
  fix t'
  assume t': "t' \<in> set (au_tokens (revoke_where (\<lambda>t. rt_ID t = tid) s1))" "rt_Hash t' = ax_sha256 env token"
  obtain t where t: "t \<in> set (au_tokens s)" "rt_Hash t = ax_sha256 env token" "rt_ID t = tid" by (rule read_token [OF c])
  from t'(1) show "rt_Revoked t'"
  proof (rule revoke_whereE)
    fix t1
    assume t1: "t1 \<in> set (au_tokens s1)" "rt_Hash t' = rt_Hash t1" "rt_Revoked t' = (rt_Revoked t1 \<or> rt_ID t1 = tid)"
    have h: "rt_Hash t1 = ax_sha256 env token" using t1(2) t'(2) by simp
    obtain t0 where t0: "t0 \<in> set (au_tokens s)" "same_token t0 t1" by (rule old_token [OF l n t1(1) h])
    then have "t0 = t" using d t(1,2) h by (simp add: same_token_def distinct_map inj_on_def)
    then show ?thesis using t1(3) t(3) t0(2) by (simp add: same_token_def)
  qed
qed

text \<open>C9: a refresh token works once: when a refresh has read its session and then revokes the row, whatever statements of other
requests ran in between, every refresh that begins later, and every page opened then, with the same token is refused, whatever
statements run meanwhile.  The second part: what a successful \<open>Refresh\<close> does after its reads begins with that revocation.  A
refresh that has read the session before the revocation is not covered: it gets a pair of its own (\<open>token_spent_twice\<close>).  Hashes are
unique in the table, and the random source does not draw the token again.\<close>

theorem refresh_token_works_once:
  assumes "distinct (map rt_Hash (au_tokens s))" and "never_drawn env token s" and "refresh_check env token s = (Inr (tid, u), s0)"
    and "auth_stmts env s s1"
  shows "(\<forall>s2 c. auth_stmts env (RevokeRefreshToken tid s1) s2 \<longrightarrow>
      Refresh env token c s2 = (Inl BadCredentials, s2) \<and> UserForRefresh env token s2 = Inl BadCredentials) \<and>
    auth_stmts env (RevokeRefreshToken tid s1) (snd (refresh_rotate env c (tid, u) s1))"
proof (intro conjI allI impI)
  have l: "later env s s1" by (rule later_stmts [OF assms(4)])
  have v: "no_longer_valid env token (RevokeRefreshToken tid s1)" by (rule revoked_by_id [OF assms(1-3) l])
  have n: "never_drawn env token (RevokeRefreshToken tid s1)"
    using never_drawn_later [OF assms(2) l] by (simp add: never_drawn_def RevokeRefreshToken_def revoke_where_def)
  fix s2 c'
  assume "auth_stmts env (RevokeRefreshToken tid s1) s2"
  from spent_for_good [OF v n this, of c'] show "Refresh env token c' s2 = (Inl BadCredentials, s2)"
    "UserForRefresh env token s2 = Inl BadCredentials" by simp_all
next
  have "snd (refresh_rotate env c (tid, u) s1) = snd (issue env u c (RevokeRefreshToken tid s1))"
    by (auto simp: refresh_rotate_def auth_bind_def auth_return_def split: prod.split sum.split)
  then show "auth_stmts env (RevokeRefreshToken tid s1) (snd (refresh_rotate env c (tid, u) s1))" using stmt_issue by (metis r_into_rtranclp)
qed

text \<open>The requests that end every session of an account.\<close>

fun ends_sessions :: "auth_env \<Rightarrow> auth_request \<Rightarrow> string \<Rightarrow> auth_sys \<Rightarrow> bool" where
  "ends_sessions env (ReqPassword v p) uid s \<longleftrightarrow> v = uid \<and> fst (handleSetUserPassword env v p s) = Inr ()"
| "ends_sessions env (ReqOwnPassword caller old new) uid s \<longleftrightarrow>
     u_ID caller = uid \<and> fst (handleChangeOwnPassword env caller old new s) = Inr ()"
| "ends_sessions env (ReqUpdate caller v q) uid s \<longleftrightarrow>
     v = uid \<and> (case fst (handleUpdateUser caller v q s) of Inl _ \<Rightarrow> False | Inr u \<Rightarrow> \<not> u_Enabled u)"
| "ends_sessions env (ReqDelete caller removed v) uid s \<longleftrightarrow> v = uid \<and> fst (handleDeleteUser caller removed v s) = Inr ()"
| "ends_sessions env (ReqRevokeAll v) uid s \<longleftrightarrow> v = uid"
| "ends_sessions env _ uid s \<longleftrightarrow> False"

definition no_session :: "string \<Rightarrow> auth_sys \<Rightarrow> bool" where
  "no_session uid s \<longleftrightarrow> (\<forall>t \<in> set (au_tokens s). rt_UserID t = uid \<longrightarrow> rt_Revoked t)"

lemma no_session_revoked: "no_session uid (RevokeUserTokens uid s)"
  unfolding no_session_def RevokeUserTokens_def
proof (intro ballI impI)
  fix t'
  assume t': "t' \<in> set (au_tokens (revoke_where (\<lambda>t. rt_UserID t = uid) s))" "rt_UserID t' = uid"
  from t'(1) show "rt_Revoked t'" by (rule revoke_whereE) (use t'(2) in simp)
qed

text \<open>The statement that ends the sessions of an account.\<close>

definition session_end :: "string \<Rightarrow> auth_sys \<Rightarrow> auth_sys \<Rightarrow> bool" where
  "session_end uid s s' \<longleftrightarrow> s' = RevokeUserTokens uid s \<or> DeleteUser uid s = (Inr (), s')"

lemma session_end_facts:
  assumes "session_end uid s s'"
  shows "no_session uid s'" and "later env s s'"
proof -
  show "no_session uid s'" using assms no_session_revoked
    by (auto simp: session_end_def DeleteUser_def no_session_def split: sum.splits)
  have "auth_stmt env s (RevokeUserTokens uid s)" by (simp add: RevokeUserTokens_def stmt_revoke)
  then have "auth_stmt env s s'" using assms stmt_delete [of env s uid] by (auto simp: session_end_def)
  then show "later env s s'" by (rule later_stmt)
qed

text \<open>A run that contains such a statement.\<close>

definition ends_within :: "auth_env \<Rightarrow> string \<Rightarrow> auth_sys \<Rightarrow> auth_sys \<Rightarrow> bool" where
  "ends_within env uid s s' \<longleftrightarrow> (\<exists>s1 s2. auth_stmts env s s1 \<and> session_end uid s1 s2 \<and> auth_stmts env s2 s')"

lemma ends_before: "\<lbrakk>auth_stmts env s s1; ends_within env uid s1 s'\<rbrakk> \<Longrightarrow> ends_within env uid s s'"
  unfolding ends_within_def by (meson rtranclp_trans)

lemma ends_now: "ends_within env uid s (RevokeUserTokens uid s)"
  unfolding ends_within_def session_end_def by blast

lemma serve_InrE:
  assumes "serve p q s = (Inr y, s')"
  obtains x s1 where "p s = (Inr x, s1)" and "q x s1 = (Inr y, s')"
  using assms by (auto simp: serve_def split: prod.splits sum.splits)

lemma auth_bind_InrE:
  assumes "auth_bind p q s = (Inr y, s')"
  obtains x s1 where "p s = (Inr x, s1)" and "q x s1 = (Inr y, s')"
  using assms by (auto simp: auth_bind_def split: prod.splits sum.splits)

lemma update_user_stmts: "keeps_name f \<Longrightarrow> auth_stmts env s (snd (update_user uid f s))"
  by (auto simp: update_user_def intro: stmt_update split: sum.split)

lemma password_ends:
  assumes "ChangePassword env uid p s = (Inr x, s')"
  shows "ends_within env uid s s'"
proof -
  obtain h s1 where h: "HashPassword env p s = (Inr h, s1)"
    and r: "auth_bind (SetUserPassword uid h) (\<lambda>_ s. let s1 = (case auth_UserByID uid s of Inr u \<Rightarrow> cache_forget (u_Username u) s | Inl _ \<Rightarrow> s)
       in (Inr (), RevokeUserTokens uid s1)) s1 = (Inr x, s')"
    using assms unfolding ChangePassword_def by (rule auth_bind_InrE)
  obtain y s2 where s2: "SetUserPassword uid h s1 = (Inr y, s2)"
    and e: "s' = RevokeUserTokens uid (case auth_UserByID uid s2 of Inr u \<Rightarrow> cache_forget (u_Username u) s2 | Inl _ \<Rightarrow> s2)"
    using r by (rule auth_bind_InrE) (auto simp: Let_def)
  have "s1 = s\<lparr>au_seq := Suc (au_seq s)\<rparr>" using h by (auto simp: HashPassword_def split: if_splits)
  then have "auth_stmts env s s1" by (auto intro: stmt_draw)
  also have "auth_stmts env s1 (snd (SetUserPassword uid h s1))"
    unfolding SetUserPassword_def by (rule update_user_stmts) (simp add: keeps_name_def)
  then have "auth_stmts env s1 s2" by (simp add: s2)
  also have "auth_stmts env s2 (case auth_UserByID uid s2 of Inr u \<Rightarrow> cache_forget (u_Username u) s2 | Inl _ \<Rightarrow> s2)"
    by (auto intro: stmt_forget split: sum.split)
  finally show ?thesis unfolding e using ends_before ends_now by blast
qed

lemma update_apply_ends:
  assumes "update_apply uid target p s = (Inr u, s')" and "\<not> u_Enabled u"
  shows "ends_within env uid s s'"
proof -
  obtain x s1 where "UpdateUserProfile uid p s = (Inr x, s1)"
    and r: "serve (auth_query (auth_UserByID uid)) (\<lambda>fresh s. (Inr fresh, if u_Enabled fresh then s else RevokeUserTokens uid s))
      (cache_forget (u_Username target) s1) = (Inr u, s')"
    using assms(1) unfolding update_apply_def Let_def by (rule serve_InrE)
  then have "s1 = snd (UpdateUserProfile uid p s)" by simp
  moreover have "auth_stmts env s (snd (UpdateUserProfile uid p s))"
    using update_user_stmts [of "apply_profile (au_now s) p" env s uid] by (simp add: UpdateUserProfile_def keeps_name_def apply_profile_facts)
  ultimately have "auth_stmts env s (cache_forget (u_Username target) s1)" using stmt_forget by (metis rtranclp.rtrancl_into_rtrancl)
  moreover have "s' = RevokeUserTokens uid (cache_forget (u_Username target) s1)"
    using r assms(2) by (auto simp: serve_def auth_query_def split: sum.splits)
  ultimately show ?thesis using ends_before ends_now by blast
qed

lemma update_ends:
  assumes "handleUpdateUser caller uid q s = (Inr u, s')" and "\<not> u_Enabled u"
  shows "ends_within env uid s s'"
proof -
  obtain target p where "update_apply uid target p s = (Inr u, s')"
    using assms(1) by (auto simp: handleUpdateUser_def serve_def auth_query_def refuse_def split: if_splits sum.splits option.splits)
  then show ?thesis using assms(2) by (rule update_apply_ends)
qed

lemma delete_ends:
  assumes "handleDeleteUser caller removed uid s = (Inr x, s')"
  shows "ends_within env uid s s'"
proof -
  obtain target :: User and s1 where "DeleteUser uid s = (Inr (), s1)" "s' = cache_forget (u_Username target) s1"
    using assms by (auto simp: handleDeleteUser_def serve_def auth_query_def split: prod.splits sum.splits if_splits)
  then show ?thesis unfolding ends_within_def session_end_def using stmt_forget by blast
qed

lemma ends_sessions_ends:
  assumes "ends_sessions env r uid s"
  shows "ends_within env uid s (auth_step env r s)"
proof (cases r)
  case (ReqPassword v p)
  then show ?thesis using assms password_ends [of env uid p s]
    by (cases "ChangePassword env uid p s") (auto simp: handleSetUserPassword_def serve_def reply_def split: sum.splits)
next
  case (ReqOwnPassword caller old new)
  then show ?thesis using assms password_ends [of env uid new s]
    by (cases "ChangePassword env uid new s")
      (auto simp: handleChangeOwnPassword_def refuse_def serve_def reply_def split: sum.splits if_splits)
next
  case (ReqUpdate caller v q)
  then show ?thesis using assms update_ends [of caller uid q s]
    by (cases "handleUpdateUser caller uid q s") (auto split: sum.splits)
next
  case (ReqDelete caller removed v)
  then show ?thesis using assms delete_ends [of caller removed uid s]
    by (cases "handleDeleteUser caller removed uid s") auto
next
  case (ReqRevokeAll v)
  have "auth_stmts env (RevokeUserTokens uid s) (forget_user uid (RevokeUserTokens uid s))" by (rule stmts.forget_user_step)
  then have "ends_within env uid s (forget_user uid (RevokeUserTokens uid s))" unfolding ends_within_def session_end_def by blast
  then show ?thesis using ReqRevokeAll assms by (simp add: handleRevokeUserSessions_def)
qed (use assms in simp_all)

text \<open>C10: a change of the password, a deletion, a disabling and a sign-out everywhere end the sessions of an account: each of them runs
a statement that ends them, and from that statement on every refresh that begins with a token the account had, and every page opened with
it, is refused, whatever statements of other requests run before, between and after.  A refresh that has read its session
before that statement is not covered: it may still store a new token (\<open>refresh_outlives_password_change\<close>).  Again the random source does
not draw the token again.\<close>

theorem ended_sessions_stay_ended:
  assumes "session_end uid s1 s2" and "\<forall>t \<in> set (au_tokens s1). rt_Hash t = ax_sha256 env token \<longrightarrow> rt_UserID t = uid"
    and "never_drawn env token s1" and "auth_stmts env s2 s3"
  shows "Refresh env token c s3 = (Inl BadCredentials, s3) \<and> UserForRefresh env token s3 = Inl BadCredentials \<and>
    (\<forall>r s. ends_sessions env r uid s \<longrightarrow> ends_within env uid s (auth_step env r s))"
proof -
  have l: "later env s1 s2" by (rule session_end_facts(2) [OF assms(1)])
  have "no_longer_valid env token s2"
    unfolding no_longer_valid_def
  proof (intro ballI impI)
    fix t'
    assume t': "t' \<in> set (au_tokens s2)" "rt_Hash t' = ax_sha256 env token"
    obtain t where "t \<in> set (au_tokens s1)" "same_token t t'" by (rule old_token [OF l assms(3) t'])
    then have "rt_UserID t' = uid" using assms(2) t'(2) by (auto simp: same_token_def)
    then show "rt_Revoked t'" using session_end_facts(1) [OF assms(1)] t'(1) by (simp add: no_session_def)
  qed
  from spent_for_good [OF this never_drawn_later [OF assms(3) l] assms(4)] ends_sessions_ends show ?thesis by blast
qed

text \<open>Bob has signed in; his token is rotated, and an administrator disables him.\<close>

definition laptop :: ClientInfo where "laptop = \<lparr>ci_UserAgent = ''browser'', ci_IP = ''10.0.0.1''\<rparr>"

definition bob_in :: auth_sys where
  "bob_in = snd (Login plain_env ''bob'' ''wordpass'' laptop two_admins)"

lemma bob_in_eval:
  "distinct (map rt_Hash (au_tokens bob_in))" "au_seq bob_in = 4"
  "list_all (\<lambda>t. rt_Hash t = ''rr'' \<and> rt_UserID t = ''b'') (au_tokens bob_in)"
  "case fst (Refresh plain_env ''rr'' laptop bob_in) of Inl _ \<Rightarrow> False | Inr (t, u) \<Rightarrow> u_ID u = ''b''"
  "ends_sessions plain_env (ReqUpdate (new_user ''a'' ''ann'' ''password'' RoleAdmin 0) ''b'' (no_change\<lparr>uu_Enabled := Some False\<rparr>)) ''b'' bob_in"
  by code_simp+

lemma bob_never_drawn: "never_drawn plain_env ''rr'' bob_in"
proof -
  have "replicate k CHR ''r'' \<noteq> ''rr''" if "4 \<le> k" for k
  proof
    assume "replicate k CHR ''r'' = ''rr''"
    then have "length (replicate k CHR ''r'') = length ''rr''" by (rule arg_cong)
    then show False using that by simp
  qed
  then show ?thesis by (simp add: never_drawn_def bob_in_eval(2) plain_env_def)
qed

theorem refresh_token_works_once_witness:
  "\<exists>tid u. refresh_check plain_env ''rr'' bob_in = (Inr (tid, u), bob_in) \<and>
     fst (Refresh plain_env ''rr'' laptop (snd (refresh_rotate plain_env laptop (tid, u) (auth_step plain_env ReqPurge bob_in)))) = Inl BadCredentials"
proof -
  have "case refresh_check plain_env ''rr'' bob_in of (Inl _, _) \<Rightarrow> False | (Inr _, s) \<Rightarrow> s = bob_in" by code_simp
  then obtain tid u where c: "refresh_check plain_env ''rr'' bob_in = (Inr (tid, u), bob_in)" by (auto split: prod.splits sum.splits)
  from refresh_token_works_once [OF bob_in_eval(1) bob_never_drawn c request_stmts [of plain_env bob_in ReqPurge], of laptop] c
  show ?thesis by (metis fst_conv)
qed

theorem ended_sessions_stay_ended_witness:
  "fst (Refresh plain_env ''rr'' laptop (auth_step plain_env (Passes 3) (RevokeUserTokens ''b'' bob_in))) = Inl BadCredentials \<and>
     (\<exists>r. ends_sessions plain_env r ''b'' bob_in \<and> ends_within plain_env ''b'' bob_in (auth_step plain_env r bob_in))"
proof -
  have "session_end ''b'' bob_in (RevokeUserTokens ''b'' bob_in)" by (simp add: session_end_def)
  moreover have "\<forall>t \<in> set (au_tokens bob_in). rt_Hash t = ax_sha256 plain_env ''rr'' \<longrightarrow> rt_UserID t = ''b''"
    using bob_in_eval(3) by (simp add: list_all_iff)
  ultimately have "fst (Refresh plain_env ''rr'' laptop (auth_step plain_env (Passes 3) (RevokeUserTokens ''b'' bob_in))) = Inl BadCredentials \<and>
      (\<forall>r s. ends_sessions plain_env r ''b'' s \<longrightarrow> ends_within plain_env ''b'' s (auth_step plain_env r s))"
    using ended_sessions_stay_ended [OF _ _ bob_never_drawn request_stmts] by (metis fst_conv)
  then show ?thesis using bob_in_eval(5) by blast
qed

section \<open>The cache of verified passwords\<close>

definition no_nul :: "string \<Rightarrow> bool" where "no_nul n \<longleftrightarrow> CHR 0x00 \<notin> set n"

definition folded_name :: "string \<Rightarrow> nat list" where "folded_name n = map (\<lambda>c. ascii_fold (of_char c)) n"

lemma same_name_key: "same_name a b \<longleftrightarrow> folded_name a = folded_name b"
  by (simp add: same_name_def folded_name_def)

lemma ascii_fold_zero: "ascii_fold n = 0 \<longleftrightarrow> n = 0"
  by (simp add: ascii_fold_def)

lemma no_nul_folded: "no_nul n \<longleftrightarrow> 0 \<notin> set (folded_name n)"
proof -
  have "of_char (CHR 0x00) = (0 :: nat)" by simp
  then have "of_char c = (0 :: nat) \<longleftrightarrow> c = CHR 0x00" for c by (metis of_char_eq_iff)
  then have "0 \<in> set (folded_name n) \<longleftrightarrow> (\<exists>c \<in> set n. c = CHR 0x00)" for n
    unfolding folded_name_def list.set_map image_iff by (metis ascii_fold_zero)
  then show ?thesis unfolding no_nul_def by blast
qed

text \<open>An account row up to the record of its last sign-in, which the cache does not follow.\<close>

definition but_login :: "User \<Rightarrow> User" where "but_login u = u\<lparr>u_LastLoginAt := 0, u_LastLoginIP := []\<rparr>"

definition vouched :: "auth_env \<Rightarrow> auth_sys \<Rightarrow> string \<times> verifyEntry \<Rightarrow> bool" where
  "vouched env s x \<longleftrightarrow> (\<exists>n p row. fst x = cache_key env n p \<and> no_nul n \<and> row \<in> set (au_users s) \<and> same_name (u_Username row) n \<and>
     ax_verify env (u_PasswordHash row) p \<and> u_Enabled row \<and> but_login row = but_login (ve_user (snd x)))"

definition accounts_ok :: "auth_sys \<Rightarrow> bool" where
  "accounts_ok s \<longleftrightarrow> distinct (map u_ID (au_users s)) \<and> distinct (map (\<lambda>u. folded_name (u_Username u)) (au_users s)) \<and>
     (\<forall>u \<in> set (au_users s). no_nul (u_Username u))"

definition cache_ok :: "auth_env \<Rightarrow> auth_sys \<Rightarrow> bool" where
  "cache_ok env s \<longleftrightarrow> accounts_ok s \<and> (\<forall>x \<in> set (au_cache s). vouched env s x)"

definition cache_stays_ok :: "auth_env \<Rightarrow> auth_sys \<Rightarrow> auth_sys \<Rightarrow> bool" where
  "cache_stays_ok env s s' \<longleftrightarrow> (cache_ok env s \<longrightarrow> cache_ok env s')"

lemma plain_facts:
  assumes "but_login u = but_login v"
  shows "u_ID u = u_ID v" "u_Username u = u_Username v" "u_Enabled u = u_Enabled v"
  using arg_cong [OF assms, of u_ID] arg_cong [OF assms, of u_Username] arg_cong [OF assms, of u_Enabled]
  by (simp_all add: but_login_def)

lemma plain_touched: "but_login (u\<lparr>u_LastLoginAt := a, u_LastLoginIP := b\<rparr>) = but_login u"
  by (simp add: but_login_def)

lemma cache_stays_less:
  "\<lbrakk>au_users s' = au_users s; set (au_cache s') \<subseteq> set (au_cache s)\<rbrakk> \<Longrightarrow> cache_stays_ok env s s'"
  by (auto simp: cache_stays_ok_def cache_ok_def accounts_ok_def vouched_def)

lemma query_row_unique:
  assumes "distinct (map k xs)" and "u \<in> set xs" and "P u" and same: "\<And>v. \<lbrakk>v \<in> set xs; P v\<rbrakk> \<Longrightarrow> k v = k u"
  shows "query_row P xs = Inr u"
proof (cases "query_row P xs")
  case (Inl e)
  then show ?thesis using query_row_Inl [of P xs e] assms(2,3) by blast
next
  case (Inr v)
  then have v: "v \<in> set xs" "P v" using query_row_Some by fast+
  have "inj_on k (set xs)" using assms(1) by (simp add: distinct_map)
  then have "v = u" using same [OF v] v(1) assms(2) by (rule inj_onD)
  then show ?thesis using Inr by simp
qed

lemma row_of_id: "\<lbrakk>accounts_ok s; u \<in> set (au_users s)\<rbrakk> \<Longrightarrow> auth_UserByID (u_ID u) s = Inr u"
  unfolding auth_UserByID_def by (rule query_row_unique [where k = u_ID]) (simp_all add: accounts_ok_def)

lemma row_of_name: "\<lbrakk>accounts_ok s; u \<in> set (au_users s); same_name (u_Username u) n\<rbrakk> \<Longrightarrow> UserByName n s = Inr u"
  unfolding UserByName_def
  by (rule query_row_unique [where k = "\<lambda>u. folded_name (u_Username u)"]) (simp_all add: accounts_ok_def same_name_key)

lemma set_AList_update: "set (AList.update k v xs) \<subseteq> insert (k, v) (set xs)"
  by (induction xs) auto

lemma accounts_ok_on_user:
  assumes "accounts_ok s" and f: "keeps_name f"
  shows "accounts_ok (on_user uid f s)"
proof -
  have u: "au_users (on_user uid f s) = update_where (\<lambda>u. u_ID u = uid) f (au_users s)" by (simp add: on_user_def)
  have "map u_ID (au_users (on_user uid f s)) = map u_ID (au_users s)"
    and "map (\<lambda>u. folded_name (u_Username u)) (au_users (on_user uid f s)) = map (\<lambda>u. folded_name (u_Username u)) (au_users s)"
    unfolding u using f by (intro map_update_where, simp add: keeps_name_def)+
  moreover have "\<forall>u \<in> set (au_users (on_user uid f s)). no_nul (u_Username u)"
    unfolding u update_where_def using assms by (auto simp: accounts_ok_def keeps_name_def)
  ultimately show ?thesis using assms(1) by (simp add: accounts_ok_def)
qed

text \<open>An entry survives a change of the table if its row does, up to the last sign-in.\<close>

lemma vouched_row:
  assumes "vouched env s x"
    and "\<And>row. \<lbrakk>row \<in> set (au_users s); but_login row = but_login (ve_user (snd x))\<rbrakk> \<Longrightarrow>
      \<exists>row' \<in> set (au_users s'). but_login row' = but_login row \<and> u_PasswordHash row' = u_PasswordHash row"
  shows "vouched env s' x"
proof -
  obtain n p row where v: "fst x = cache_key env n p" "no_nul n" "row \<in> set (au_users s)" "same_name (u_Username row) n"
      "ax_verify env (u_PasswordHash row) p" "u_Enabled row" "but_login row = but_login (ve_user (snd x))"
    using assms(1) unfolding vouched_def by blast
  then obtain row' where r: "row' \<in> set (au_users s')" "but_login row' = but_login row" "u_PasswordHash row' = u_PasswordHash row"
    using assms(2) by blast
  show ?thesis
    unfolding vouched_def
    by (rule exI [of _ n], rule exI [of _ p], rule exI [of _ row']) (use v r plain_facts [OF r(2)] in simp)
qed

lemma cache_ok_touch: "cache_ok env s \<Longrightarrow> cache_ok env (TouchLogin uid ip s)"
proof -
  assume ok: "cache_ok env s"
  let ?f = "\<lambda>u. u\<lparr>u_LastLoginAt := au_now s, u_LastLoginIP := ip\<rparr>"
  have "accounts_ok (TouchLogin uid ip s)"
    using ok accounts_ok_on_user by (simp add: cache_ok_def TouchLogin_def keeps_name_def)
  moreover have "vouched env (TouchLogin uid ip s) x" if "vouched env s x" for x
  proof (rule vouched_row [OF that])
    fix row
    assume "row \<in> set (au_users s)"
    then have "(if u_ID row = uid then ?f row else row) \<in> set (au_users (TouchLogin uid ip s))"
      by (auto simp: TouchLogin_def on_user_def update_where_def)
    then show "\<exists>row' \<in> set (au_users (TouchLogin uid ip s)). but_login row' = but_login row \<and> u_PasswordHash row' = u_PasswordHash row"
      by (rule bexI [rotated]) (simp add: plain_touched)
  qed
  ultimately show ?thesis using ok by (simp add: cache_ok_def TouchLogin_def on_user_def)
qed

text \<open>A row that changes or goes, once the cached passwords of its account are forgotten.\<close>

lemma cache_ok_forgotten:
  assumes ok: "cache_ok env s" and acc: "accounts_ok s'" and target: "auth_UserByID uid s = Inr target"
    and rows: "\<And>row. \<lbrakk>row \<in> set (au_users s); u_ID row \<noteq> uid\<rbrakk> \<Longrightarrow> row \<in> set (au_users s')" and c: "au_cache s' = au_cache s"
  shows "cache_ok env (cache_forget (u_Username target) s')"
  unfolding cache_ok_def
proof (intro conjI ballI)
  show "accounts_ok (cache_forget (u_Username target) s')" using acc by (simp add: accounts_ok_def cache_forget_def)
  fix x
  assume "x \<in> set (au_cache (cache_forget (u_Username target) s'))"
  then have x: "x \<in> set (au_cache s)" "u_Username (ve_user (snd x)) \<noteq> u_Username target" by (auto simp: cache_forget_def c)
  show "vouched env (cache_forget (u_Username target) s') x"
  proof (rule vouched_row)
    show "vouched env s x" using ok x(1) by (simp add: cache_ok_def)
    fix row
    assume row: "row \<in> set (au_users s)" "but_login row = but_login (ve_user (snd x))"
    have "u_ID row \<noteq> uid"
    proof
      assume "u_ID row = uid"
      then have "row = target" using row_of_id [of s row] row(1) ok target by (simp add: cache_ok_def)
      then show False using plain_facts(2) [OF row(2)] x(2) by simp
    qed
    then show "\<exists>row' \<in> set (au_users (cache_forget (u_Username target) s')). but_login row' = but_login row \<and> u_PasswordHash row' = u_PasswordHash row"
      using rows [OF row(1)] by (auto simp: cache_forget_def)
  qed
qed

lemma cache_ok_put:
  assumes ok: "cache_ok env s" and v: "verified env n p u s"
  shows "cache_ok env (cache_put env n p u s)"
  unfolding cache_ok_def
proof (intro conjI ballI)
  let ?e = "\<lparr>ve_user = u, ve_expires = au_now s + ax_verifyTTL env\<rparr>"
  have users: "au_users (cache_put env n p u s) = au_users s" by (simp add: cache_put_def Let_def)
  show "accounts_ok (cache_put env n p u s)" using ok by (simp add: cache_ok_def accounts_ok_def users)
  fix x
  assume "x \<in> set (au_cache (cache_put env n p u s))"
  then have "x = (cache_key env n p, ?e) \<or> x \<in> set (au_cache s)"
    using set_AList_update by (fastforce simp: cache_put_def Let_def split: if_splits)
  then show "vouched env (cache_put env n p u s) x"
  proof
    assume x: "x = (cache_key env n p, ?e)"
    have u: "u \<in> set (au_users s)" "same_name (u_Username u) n"
      using v query_row_Some unfolding verified_def UserByName_def by fast+
    then have "no_nul n" using ok unfolding cache_ok_def accounts_ok_def no_nul_folded same_name_key by metis
    then show ?thesis unfolding vouched_def users x
      by (intro exI [of _ n] exI [of _ p] exI [of _ u]) (use u v in \<open>simp add: verified_def\<close>)
  next
    assume "x \<in> set (au_cache s)"
    then show ?thesis using ok by (simp add: cache_ok_def vouched_def users)
  qed
qed

interpretation cache: account_relation env no_nul "cache_stays_ok env" for env
proof unfold_locales
  fix s s1 s2 :: auth_sys
  show "\<lbrakk>cache_stays_ok env s s1; cache_stays_ok env s1 s2\<rbrakk> \<Longrightarrow> cache_stays_ok env s s2" by (simp add: cache_stays_ok_def)
  show "cache_stays_ok env s (TouchLogin uid ip s)" for uid ip by (simp add: cache_stays_ok_def cache_ok_touch)
  show "cache_stays_ok env s (snd (issue env u c s))" for u c
  proof (rule cache_stays_less)
    show "au_users (snd (issue env u c s)) = au_users s" by (rule issue_users)
    show "set (au_cache (snd (issue env u c s))) \<subseteq> set (au_cache s)"
      unfolding issue_snd by (simp add: StoreRefreshToken_def Let_def)
  qed
  show "verified env n p u s \<Longrightarrow> cache_stays_ok env s (cache_put env n p u s)" for n p u
    by (simp add: cache_stays_ok_def cache_ok_put)
next
  fix s :: auth_sys and u :: User
  assume fresh: "\<not> list_ex (\<lambda>v. u_ID v = u_ID u \<or> same_name (u_Username v) (u_Username u)) (au_users s)" and n: "no_nul (u_Username u)"
  show "cache_stays_ok env s (s\<lparr>au_users := au_users s @ [u]\<rparr>)"
    unfolding cache_stays_ok_def cache_ok_def
  proof (intro impI conjI ballI)
    assume ok: "accounts_ok s \<and> (\<forall>x \<in> set (au_cache s). vouched env s x)"
    show "accounts_ok (s\<lparr>au_users := au_users s @ [u]\<rparr>)"
      using ok fresh n by (auto simp: accounts_ok_def list_ex_iff same_name_key)
    show "vouched env (s\<lparr>au_users := au_users s @ [u]\<rparr>) x" if "x \<in> set (au_cache (s\<lparr>au_users := au_users s @ [u]\<rparr>))" for x
      by (rule vouched_row [of env s]) (use ok that in auto)
  qed
next
  fix f uid and s :: auth_sys
  assume f: "keeps_name f"
  show "cache_stays_ok env s (forget_user uid (on_user uid f s))"
    unfolding cache_stays_ok_def
  proof
    assume ok: "cache_ok env s"
    have acc: "accounts_ok (on_user uid f s)" using ok accounts_ok_on_user f by (simp add: cache_ok_def)
    show "cache_ok env (forget_user uid (on_user uid f s))"
    proof (cases "auth_UserByID uid s")
      case (Inl e)
      then have none: "\<forall>u \<in> set (au_users s). u_ID u \<noteq> uid" unfolding auth_UserByID_def query_row_Inl by blast
      then have "affectedOne (\<lambda>u. u_ID u = uid) (au_users s) = Inl ErrNotFound" by (simp add: affectedOne_def list_ex_iff)
      then have "on_user uid f s = s" by (rule on_user_none)
      then show ?thesis using Inl ok by (simp add: forget_user_def)
    next
      case (Inr target)
      then have "auth_UserByID uid (on_user uid f s) = Inr (f target)" by (rule UserByID_changed [OF f])
      moreover have "u_Username (f target) = u_Username target" using f by (simp add: keeps_name_def)
      moreover have "cache_ok env (cache_forget (u_Username target) (on_user uid f s))"
        by (rule cache_ok_forgotten [OF ok acc Inr]) (auto simp: on_user_def update_where_def image_iff)
      ultimately show ?thesis by (simp add: forget_user_def)
    qed
  qed
next
  fix uid target and s :: auth_sys
  assume target: "auth_UserByID uid s = Inr target"
  then have d: "au_users (snd (DeleteUser uid s)) = filter (\<lambda>u. u_ID u \<noteq> uid) (au_users s)" "au_cache (snd (DeleteUser uid s)) = au_cache s"
    using users.affected_found [of uid "au_users s"] by (simp_all add: DeleteUser_def auth_UserByID_def)
  show "cache_stays_ok env s (cache_forget (u_Username target) (snd (DeleteUser uid s)))"
    unfolding cache_stays_ok_def
  proof
    assume ok: "cache_ok env s"
    have "accounts_ok (snd (DeleteUser uid s))"
      using ok unfolding cache_ok_def accounts_ok_def d by (simp add: distinct_map_filter)
    then show "cache_ok env (cache_forget (u_Username target) (snd (DeleteUser uid s)))"
      by (rule cache_ok_forgotten [OF ok _ target]) (simp_all add: d)
  qed
qed (auto intro!: cache_stays_less simp: revoke_where_def PurgeExpiredTokens_def Let_def cache_forget_def)

lemma cache_run:
  assumes "accounts_ok s0" and "au_cache s0 = []" and "list_all (names_ok no_nul) rs"
  shows "cache_ok env (fold (auth_step env) rs s0)"
  using cache.run [OF assms(3), of env s0] assms(1,2) by (simp add: cache_stays_ok_def cache_ok_def)

lemma split_at_nul: "\<lbrakk>n @ CHR 0x00 # p = n' @ CHR 0x00 # p'; no_nul n; no_nul n'\<rbrakk> \<Longrightarrow> n = n' \<and> p = p'"
proof (induction n arbitrary: n')
  case Nil
  then show ?case by (cases n') (auto simp: no_nul_def)
next
  case (Cons c n)
  then show ?case by (cases n') (auto simp: no_nul_def)
qed

text \<open>What a check without the cache finds.\<close>

lemma VerifyBasic_uncached:
  "fst (VerifyBasic env n p (s\<lparr>au_cache := []\<rparr>)) =
     (case UserByName n s of
        Inl _ \<Rightarrow> Inl BadCredentials
      | Inr u \<Rightarrow> if \<not> ax_verify env (u_PasswordHash u) p then Inl BadCredentials
                 else if \<not> u_Enabled u then Inl AccountDisabled else Inr u)"
  by (simp add: VerifyBasic_def cache_get_def UserByName_def split: sum.split)

lemma VerifyBasic_cached:
  assumes ok: "cache_ok env s" and inj: "inj (ax_sha256 env)" and n: "no_nul n" and hit: "cache_get env n p s = Some u"
  obtains row where "row \<in> set (au_users s)" and "same_name (u_Username row) n" and "ax_verify env (u_PasswordHash row) p"
    and "u_Enabled row" and "but_login row = but_login u"
proof -
  obtain e where e: "map_of (au_cache s) (cache_key env n p) = Some e" "ve_user e = u"
    using hit by (auto simp: cache_get_def split: option.splits if_splits)
  from map_of_SomeD [OF e(1)] have "vouched env s (cache_key env n p, e)" using ok by (simp add: cache_ok_def)
  then obtain n' p' row where v: "cache_key env n p = cache_key env n' p'" "no_nul n'" "row \<in> set (au_users s)"
      "same_name (u_Username row) n'" "ax_verify env (u_PasswordHash row) p'" "u_Enabled row" "but_login row = but_login u"
    unfolding vouched_def using e(2) by auto
  have "ax_salt env @ n @ [CHR 0x00] @ p = ax_salt env @ n' @ [CHR 0x00] @ p'"
    using v(1) inj unfolding cache_key_def by (rule injD [rotated])
  then have "n @ CHR 0x00 # p = n' @ CHR 0x00 # p'" by (simp only: same_append_eq append_Cons append_Nil)
  then have "n = n' \<and> p = p'" using n v(2) by (rule split_at_nul)
  then show thesis using that v by blast
qed

text \<open>C7: as long as requests are served one after the other, the cache of verified passwords is transparent: whatever requests came
before, a Basic check answers as a check against the current rows would, up to the record of the last sign-in.  A password change, a
change of role, permissions or scope, a disabling and a deletion then take effect at once.  A check that overlaps such a
change can leave a stale entry (\<open>cached_after_disabling\<close>).  The hash has no collisions, and no user name contains a NUL.\<close>

theorem cached_check_is_fresh_check:
  assumes "accounts_ok s0" and "au_cache s0 = []" and "inj (ax_sha256 env)" and "list_all (names_ok no_nul) rs" and "no_nul n"
    and "s = fold (auth_step env) rs s0"
  shows "map_sum id but_login (fst (VerifyBasic env n p s)) = map_sum id but_login (fst (VerifyBasic env n p (s\<lparr>au_cache := []\<rparr>)))"
proof (cases "cache_get env n p s")
  case None
  then show ?thesis unfolding VerifyBasic_uncached by (simp add: VerifyBasic_def split: sum.split)
next
  case (Some u)
  have ok: "cache_ok env s" unfolding assms(6) by (rule cache_run [OF assms(1,2,4)])
  obtain row where r: "row \<in> set (au_users s)" "same_name (u_Username row) n" "ax_verify env (u_PasswordHash row) p"
      "u_Enabled row" "but_login row = but_login u"
    by (rule VerifyBasic_cached [OF ok assms(3,5) Some])
  then have "UserByName n s = Inr row" using ok row_of_name by (simp add: cache_ok_def)
  then show ?thesis unfolding VerifyBasic_uncached using Some r by (simp add: VerifyBasic_def)
qed

text \<open>The disabled account \<open>bob\<close> after he has used WebDAV.\<close>

definition bob_disabled :: "auth_request list" where
  "bob_disabled = [ReqBasic ''bob'' ''wordpass'',
     ReqUpdate (new_user ''a'' ''ann'' ''password'' RoleAdmin 0) ''b'' (no_change\<lparr>uu_Enabled := Some False\<rparr>)]"

lemma plain_env_accounts:
  "accounts_ok two_admins" "au_cache two_admins = []" "inj (ax_sha256 plain_env)" "list_all (names_ok no_nul) bob_disabled"
  "no_nul ''bob''"
  by (simp_all add: accounts_ok_def two_admins_def new_user_def folded_name_def ascii_fold_def no_nul_def plain_env_def inj_on_def
      bob_disabled_def)

theorem cached_check_is_fresh_check_witness:
  "\<exists>s. s = fold (auth_step plain_env) [ReqBasic ''bob'' ''wordpass''] two_admins \<and> length (au_cache s) = 1 \<and>
     map_sum id but_login (fst (VerifyBasic plain_env ''bob'' ''wordpass'' s)) =
     map_sum id but_login (fst (VerifyBasic plain_env ''bob'' ''wordpass'' (s\<lparr>au_cache := []\<rparr>)))"
proof -
  let ?rs = "[ReqBasic ''bob'' ''wordpass'']"
  have "list_all (names_ok no_nul) ?rs" by simp
  moreover have "length (au_cache (fold (auth_step plain_env) ?rs two_admins)) = 1" by code_simp
  ultimately show ?thesis
    using cached_check_is_fresh_check [OF plain_env_accounts(1-3) _ plain_env_accounts(5) refl, of ?rs] by blast
qed

section \<open>A disabled account is locked out\<close>

lemma VerifyBasic_row:
  assumes ok: "cache_ok env s" and inj: "inj (ax_sha256 env)" and n: "no_nul n" and v: "VerifyBasic env n p s = (Inr u, s')"
  shows "\<exists>row \<in> set (au_users s). u_ID row = u_ID u \<and> u_Enabled row"
proof (cases "cache_get env n p s")
  case (Some w)
  then have "w = u" using v by (simp add: VerifyBasic_def)
  with VerifyBasic_cached [OF ok inj n Some] show ?thesis using plain_facts(1) by metis
next
  case None
  then have "UserByName n s = Inr u" "u_Enabled u" using v by (auto simp: VerifyBasic_def split: sum.splits if_splits)
  moreover from this(1) have "u \<in> set (au_users s)" using query_row_Some unfolding UserByName_def by fast
  ultimately show ?thesis by blast
qed

text \<open>C8: a disabled account is locked out: once its row says so, no access token, no session cookie, no sign-in and no refresh that
begins yields it, in any state whatever, so however requests overlap; and no Basic password does, cached or not, as long as requests are
served one after the other.  A Basic check that overlaps the disabling is not covered: it can leave a cache entry
that works until it expires (\<open>cached_after_disabling\<close>).\<close>

theorem disabled_account_locked_out:
  assumes "accounts_ok s" and "auth_UserByID uid s = Inr u" and "\<not> u_Enabled u"
  shows "(\<forall>token cookie v. fst (browser_user env (Bearer token) cookie s) = Some v \<or> fst (browser_user env NoHeader cookie s) = Some v \<longrightarrow> u_ID v \<noteq> uid) \<and>
    (\<forall>n p c t v. fst (Login env n p c s) = Inr (t, v) \<longrightarrow> u_ID v \<noteq> uid) \<and>
    (\<forall>token c t v. fst (Refresh env token c s) = Inr (t, v) \<longrightarrow> u_ID v \<noteq> uid) \<and>
    (\<forall>s0 rs n p cookie v. accounts_ok s0 \<and> au_cache s0 = [] \<and> inj (ax_sha256 env) \<and> list_all (names_ok no_nul) rs \<and>
      s = fold (auth_step env) rs s0 \<and> no_nul n \<and> fst (browser_user env (Basic n p) cookie s) = Some v \<longrightarrow> u_ID v \<noteq> uid)"
proof -
  note acc = assms(1)
  have out: "u_ID v \<noteq> uid" if "row \<in> set (au_users s)" "u_Enabled row" "u_ID row = u_ID v" for row v
    using row_of_id [OF acc that(1)] that(2,3) assms(2,3) by auto
  have mem: "v \<in> set (au_users s)" if "auth_UserByID k s = Inr v \<or> UserByName k s = Inr v" for k v
    using that query_row_Some unfolding auth_UserByID_def UserByName_def by fast
  have cookie: "u_ID v \<noteq> uid" if "UserForRefresh env token s = Inr v" for token v
    using that mem out by (fastforce simp: UserForRefresh_def split: sum.splits prod.splits if_splits)
  have bearer: "u_ID v \<noteq> uid" if a: "authenticate env (Bearer token) s = (Some v, s1)" for v s1 token
  proof -
    obtain k where "auth_UserByID k s = Inr v" "u_Enabled v"
      using a by (auto simp: authenticate_def split: option.splits sum.splits if_splits)
    then show ?thesis using mem out by blast
  qed
  have same: "s1 = s" if "authenticate env cred s = (None, s1)" for s1 cred
    using that by (auto simp: authenticate_def VerifyBasic_def split: credentials.splits option.splits sum.splits if_splits prod.splits)
  have none: "authenticate env NoHeader s = (None, s)" by (simp add: authenticate_def)
  have via: "u_ID v \<noteq> uid" if "fst (browser_user env cred cookie s) = Some v" "\<And>v s1. authenticate env cred s = (Some v, s1) \<Longrightarrow> u_ID v \<noteq> uid" for v cred cookie
    using that same cookie by (auto simp: browser_user_def split: prod.splits option.splits sum.splits)
  have 1: "u_ID v \<noteq> uid" if "fst (browser_user env (Bearer token) ck s) = Some v \<or> fst (browser_user env NoHeader ck s) = Some v" for token ck v
    using that
  proof
    assume "fst (browser_user env (Bearer token) ck s) = Some v"
    then show ?thesis by (rule via) (rule bearer)
  next
    assume "fst (browser_user env NoHeader ck s) = Some v"
    then show ?thesis by (rule via) (simp add: none)
  qed
  have 2: "u_ID v \<noteq> uid" if "fst (Login env n p c s) = Inr (t, v)" for n p c t v
  proof -
    have "UserByName n s = Inr v" "u_Enabled v" using that by (auto simp: Login_def split: sum.splits if_splits prod.splits)
    then show ?thesis using mem out by blast
  qed
  have 3: "u_ID v \<noteq> uid" if ref: "fst (Refresh env token c s) = Inr (t, v)" for token c t v
  proof -
    obtain r s1 where r: "refresh_check env token s = (r, s1)" by fastforce
    with ref obtain tid where "r = Inr (tid, v)"
      by (cases r) (auto simp: Refresh_def auth_bind_def refresh_rotate_def auth_return_def split: prod.splits sum.splits)
    with r obtain k where "auth_UserByID k s = Inr v" "u_Enabled v"
      by (auto simp: refresh_check_def split: sum.splits prod.splits if_splits)
    then show ?thesis using mem out by blast
  qed
  have 4: "u_ID v \<noteq> uid" if h: "accounts_ok s0 \<and> au_cache s0 = [] \<and> inj (ax_sha256 env) \<and> list_all (names_ok no_nul) rs \<and>
      s = fold (auth_step env) rs s0 \<and> no_nul n \<and> fst (browser_user env (Basic n p) ck s) = Some v" for s0 rs n p ck v
  proof (rule via)
    show "fst (browser_user env (Basic n p) ck s) = Some v" using h by blast
    fix v s1
    assume "authenticate env (Basic n p) s = (Some v, s1)"
    then have "VerifyBasic env n p s = (Inr v, s1)" by (auto simp: authenticate_def split: prod.splits sum.splits)
    moreover have "cache_ok env s" using h cache_run by blast
    ultimately show "u_ID v \<noteq> uid" using VerifyBasic_row h out by metis
  qed
  show ?thesis using 1 2 3 4 by blast
qed

theorem disabled_account_locked_out_witness:
  "\<exists>s u. s = fold (auth_step plain_env) bob_disabled two_admins \<and> auth_UserByID ''b'' s = Inr u \<and> \<not> u_Enabled u \<and>
     (\<forall>v. fst (browser_user plain_env (Basic ''bob'' ''wordpass'') None s) = Some v \<longrightarrow> u_ID v \<noteq> ''b'')"
proof -
  let ?s = "fold (auth_step plain_env) bob_disabled two_admins"
  have "case auth_UserByID ''b'' ?s of Inl _ \<Rightarrow> False | Inr u \<Rightarrow> \<not> u_Enabled u" by code_simp
  then obtain u where u: "auth_UserByID ''b'' ?s = Inr u" "\<not> u_Enabled u" by (auto split: sum.splits)
  have "accounts_ok ?s" using cache_run [OF plain_env_accounts(1,2,4), of plain_env] by (simp add: cache_ok_def)
  from disabled_account_locked_out [OF this u, of plain_env] plain_env_accounts have
    "fst (browser_user plain_env (Basic ''bob'' ''wordpass'') None ?s) = Some v \<Longrightarrow> u_ID v \<noteq> ''b''" for v by blast
  then show ?thesis using u by blast
qed

section \<open>Requests that overlap\<close>

text \<open>
  The comment of \<open>Refresh\<close> says that a stolen token is usable at most once.  Two requests that both read the
  session before either revokes it both get a new pair, and both new tokens work.
\<close>

lemma token_spent_twice:
  "case refresh_check plain_env ''rr'' bob_in of (Inl _, _) \<Rightarrow> False
    | (Inr x, s1) \<Rightarrow> (case refresh_check plain_env ''rr'' s1 of (Inl _, _) \<Rightarrow> False | (Inr y, t1) \<Rightarrow> x = y \<and> s1 = t1 \<and>
       (case refresh_rotate plain_env laptop x s1 of (Inl _, _) \<Rightarrow> False
        | (Inr a, s2) \<Rightarrow> (case refresh_rotate plain_env laptop x s2 of (Inl _, _) \<Rightarrow> False
          | (Inr b, s3) \<Rightarrow> (case UserForRefresh plain_env (tk_Refresh (fst a)) s3 of Inl _ \<Rightarrow> False | Inr _ \<Rightarrow> True) \<and>
              (case UserForRefresh plain_env (tk_Refresh (fst b)) s3 of Inl _ \<Rightarrow> False | Inr _ \<Rightarrow> True))))"
  by code_simp

text \<open>
  A refresh that has read its session before a password change stores a new token after the change has
  revoked all: the session survives the new password.
\<close>

lemma refresh_outlives_password_change:
  "case refresh_check plain_env ''rr'' bob_in of (Inl _, _) \<Rightarrow> False
    | (Inr x, s1) \<Rightarrow> (case ChangePassword plain_env ''b'' ''new password'' s1 of (Inl _, _) \<Rightarrow> False
       | (Inr _, s2) \<Rightarrow> (case refresh_rotate plain_env laptop x s2 of (Inl _, _) \<Rightarrow> False
          | (Inr a, s3) \<Rightarrow> (case UserForRefresh plain_env (tk_Refresh (fst a)) s3 of Inl _ \<Rightarrow> False | Inr _ \<Rightarrow> True)))"
  by code_simp

text \<open>A change of role ends no session, although the comment of \<open>RevokeUserTokens\<close> says it is used then.\<close>

lemma role_change_keeps_sessions:
  "case handleSetUserRole ''b'' RoleUser bob_in of (Inl _, _) \<Rightarrow> False
    | (Inr _, s) \<Rightarrow> (case UserForRefresh plain_env ''rr'' s of Inl _ \<Rightarrow> False | Inr _ \<Rightarrow> True)"
  by code_simp

text \<open>Two administrators who disable each other at once: both guards see two, and none is left.\<close>

lemma admins_disable_each_other:
  "case auth_UserByID ''a'' two_admins of Inl _ \<Rightarrow> False | Inr ann \<Rightarrow> (case auth_UserByID ''b'' two_admins of Inl _ \<Rightarrow> False
    | Inr bob \<Rightarrow> spares_admin ann two_admins \<and> spares_admin bob two_admins \<and>
       CountAdmins (snd (update_apply ''a'' ann (update_profile (no_change\<lparr>uu_Enabled := Some False\<rparr>) None)
       (snd (update_apply ''b'' bob (update_profile (no_change\<lparr>uu_Enabled := Some False\<rparr>) None) two_admins)))) = 0)"
  by code_simp

text \<open>A Basic check that has read the account before it is disabled caches it afterwards: the password keeps working
until the entry expires.\<close>

lemma cached_after_disabling:
  "case UserByName ''bob'' two_admins of Inl _ \<Rightarrow> False
   | Inr bob \<Rightarrow> verified plain_env ''bob'' ''wordpass'' bob two_admins \<and>
      (let s = snd (handleUpdateUser (new_user ''a'' ''ann'' ''password'' RoleAdmin 0) ''b'' (no_change\<lparr>uu_Enabled := Some False\<rparr>) two_admins);
           s' = cache_put plain_env ''bob'' ''wordpass'' bob s
       in fst (VerifyBasic plain_env ''bob'' ''wordpass'' s) = Inl AccountDisabled \<and>
          fst (VerifyBasic plain_env ''bob'' ''wordpass'' s') = Inr bob)"
  by code_simp

end
