(* ===== verification/Staging.thy ===== *)
theory Staging
  imports TreeDB
begin

text \<open>
  Staged downloads: the rows of \<open>internal/database/downloads.go\<close> and the cache of
  \<open>internal/drive/download.go\<close>.  A worker assembles a file below the directory of its job and publishes
  it by a rename; requests cancel, delete, fetch and evict meanwhile.  Every statement and every call to
  the file system of a worker is one event; a section under \<open>stageMu\<close> is one event too.  The disk is a map
  from the directory of a job (its id) to the file with the final name and to the one with the suffix
  \<open>.part\<close>.  There is one cache directory, with its marker in place; the plugin hooks, the progress reports and
  the checks of a persisted path are left out, and the table of files does not change.
\<close>

section \<open>Statements\<close>

definition InsertDownload :: "DownloadJob \<Rightarrow> unit db_op" where
  "InsertDownload j d =
     (if list_ex (\<lambda>w. w_ID w = w_ID j) (db_downloads d) then (Inl ErrConflict, d)
      else if w_UserID j \<noteq> [] \<and> \<not> user_exists (w_UserID j) d \<or> w_FileID j \<noteq> [] \<and> \<not> file_exists (w_FileID j) d
      then (Inl ErrConstraint, d)
      else (Inr (), d\<lparr>db_downloads := db_downloads d @ [j\<lparr>w_CreatedAt := db_now d, w_UpdatedAt := db_now d, w_StartedAt := 0,
             w_FinishedAt := 0, w_ExpiresAt := 0, w_LastUsedAt := db_now d\<rparr>]\<rparr>))"

definition DownloadByID :: "string \<Rightarrow> db \<Rightarrow> db_error + DownloadJob" where
  "DownloadByID jid d = query_row (\<lambda>w. w_ID w = jid) (db_downloads d)"

definition on_download :: "string \<Rightarrow> (DownloadJob \<Rightarrow> DownloadJob) \<Rightarrow> db \<Rightarrow> db" where
  "on_download jid f d = d\<lparr>db_downloads := update_where (\<lambda>w. w_ID w = jid) f (db_downloads d)\<rparr>"

definition SetDownloadProgress :: "string \<Rightarrow> int \<Rightarrow> db \<Rightarrow> db" where
  "SetDownloadProgress jid n d = on_download jid (\<lambda>w. w\<lparr>w_DownloadedBytes := n, w_UpdatedAt := db_now d\<rparr>) d"

definition status_change :: "int \<Rightarrow> DownloadStatus \<Rightarrow> string \<Rightarrow> DownloadJob \<Rightarrow> DownloadJob" where
  "status_change now status err w =
     (let w1 = w\<lparr>w_Status := status, w_Error := err, w_UpdatedAt := now\<rparr>
      in case status of
           DownloadRunning \<Rightarrow> w1\<lparr>w_StartedAt := (if w_StartedAt w = 0 then now else w_StartedAt w)\<rparr>
         | DownloadPending \<Rightarrow> w1
         | _ \<Rightarrow> w1\<lparr>w_FinishedAt := now\<rparr>)"

definition setDownloadStatus :: "string \<Rightarrow> DownloadStatus \<Rightarrow> string \<Rightarrow> (DownloadStatus \<Rightarrow> bool) \<Rightarrow> db \<Rightarrow> bool \<times> db" where
  "setDownloadStatus jid status err cond d =
     (let P = (\<lambda>w. w_ID w = jid \<and> cond (w_Status w))
      in (list_ex P (db_downloads d), d\<lparr>db_downloads := update_where P (status_change (db_now d) status err) (db_downloads d)\<rparr>))"

definition SetDownloadStatus :: "string \<Rightarrow> DownloadStatus \<Rightarrow> string \<Rightarrow> unit db_op" where
  "SetDownloadStatus jid status err d =
     (case setDownloadStatus jid status err (\<lambda>_. True) d of (ok, d') \<Rightarrow> (if ok then Inr () else Inl ErrNotFound, d'))"

definition SetDownloadStatusIf :: "string \<Rightarrow> DownloadStatus \<Rightarrow> string \<Rightarrow> DownloadStatus list \<Rightarrow> db \<Rightarrow> bool \<times> db" where
  "SetDownloadStatusIf jid status err expected d =
     (if expected = [] then (False, d) else setDownloadStatus jid status err (\<lambda>st. st \<in> set expected) d)"

definition SetDownloadCache :: "string \<Rightarrow> string \<Rightarrow> int \<Rightarrow> unit db_op" where
  "SetDownloadCache jid path expires d =
     (affectedOne (\<lambda>w. w_ID w = jid) (db_downloads d),
      on_download jid (\<lambda>w. w\<lparr>w_CachePath := path, w_ExpiresAt := expires, w_LastUsedAt := db_now d, w_UpdatedAt := db_now d\<rparr>) d)"

definition TouchDownload :: "string \<Rightarrow> db \<Rightarrow> db" where
  "TouchDownload jid d = on_download jid (\<lambda>w. w\<lparr>w_LastUsedAt := db_now d\<rparr>) d"

definition DeleteDownload :: "string \<Rightarrow> unit db_op" where
  "DeleteDownload jid d =
     (affectedOne (\<lambda>w. w_ID w = jid) (db_downloads d), d\<lparr>db_downloads := filter (\<lambda>w. w_ID w \<noteq> jid) (db_downloads d)\<rparr>)"

definition is_active :: "DownloadJob \<Rightarrow> bool" where
  "is_active w \<longleftrightarrow> w_Mode w = DownloadStaged \<and> (w_Status w = DownloadPending \<or> w_Status w = DownloadRunning)"

definition is_live :: "int \<Rightarrow> DownloadJob \<Rightarrow> bool" where
  "is_live now w \<longleftrightarrow> w_Mode w = DownloadStaged \<and> (w_Status w = DownloadReady \<or> w_Status w = DownloadComplete) \<and>
     w_CachePath w \<noteq> [] \<and> (w_ExpiresAt w = 0 \<or> w_ExpiresAt w > now)"

definition is_evictable :: "DownloadJob \<Rightarrow> bool" where
  "is_evictable w \<longleftrightarrow> w_Mode w = DownloadStaged \<and> w_CachePath w \<noteq> [] \<and>
     w_Status w \<in> {DownloadReady, DownloadComplete, DownloadExpired, DownloadFailed, DownloadCancelled}"

text \<open>Rows created at the same moment are taken in the order of the table.\<close>

definition newest :: "DownloadJob list \<Rightarrow> DownloadJob list" where
  "newest ws = sort_key (\<lambda>w. - w_CreatedAt w) ws"

definition StagedDownloadFor :: "string \<Rightarrow> db \<Rightarrow> db_error + DownloadJob" where
  "StagedDownloadFor fid d = query_row (\<lambda>w. w_FileID w = fid \<and> is_live (db_now d) w) (newest (db_downloads d))"

definition ActiveStagedFor :: "string \<Rightarrow> db \<Rightarrow> db_error + DownloadJob" where
  "ActiveStagedFor fid d = query_row (\<lambda>w. w_FileID w = fid \<and> is_active w) (newest (db_downloads d))"

definition CacheUsage :: "db \<Rightarrow> int \<times> nat" where
  "CacheUsage d =
     (let ws = filter (\<lambda>w. is_active w \<or> is_evictable w) (db_downloads d) in (sum_list (map w_TotalSize ws), length ws))"

definition EvictableDownloads :: "db \<Rightarrow> DownloadJob list" where
  "EvictableDownloads d = sort_key w_LastUsedAt (filter is_evictable (db_downloads d))"

definition ResumableDownloads :: "db \<Rightarrow> DownloadJob list" where
  "ResumableDownloads d = sort_key w_CreatedAt (filter is_active (db_downloads d))"

definition FinishedDownloadsBefore :: "int \<Rightarrow> db \<Rightarrow> DownloadJob list" where
  "FinishedDownloadsBefore older d =
     sort_key w_UpdatedAt (filter (\<lambda>w. w_Status w \<in> {DownloadComplete, DownloadFailed, DownloadCancelled, DownloadExpired, DownloadReady} \<and>
       w_UpdatedAt w < older \<and> \<not> is_live (db_now d) w) (db_downloads d))"

section \<open>The cache\<close>

datatype stage_phase = Scheduled | Leasing | Leased | Started | Placed | Copying | Copied | Published | Dated | Failing | FailingStatus

record 'b stage_worker =
  sw_phase :: stage_phase
  sw_cancelled :: bool
  sw_fid :: string
  sw_size :: int
  sw_written :: "'b list"

datatype cancel_phase = ToMark | ToClear | ToDelete

text \<open>\<open>sg_runs\<close> is \<open>stageRuns\<close> with the state of each worker; \<open>sg_requests\<close> are the calls of \<open>CancelStaged\<close> and
\<open>DeleteStaged\<close> that have interrupted the worker and have statements left.\<close>

record 'b staging =
  sg_db :: db
  sg_target :: "string \<Rightarrow> 'b list option"
  sg_part :: "string \<Rightarrow> 'b list option"
  sg_runs :: "string \<Rightarrow> 'b stage_worker option"
  sg_requests :: "(string \<times> cancel_phase) list"
  sg_limit :: int
  sg_ttl :: int
  sg_seq :: nat

datatype stage_error = StageDB db_error | StillUploading | ErrStagingDisabled | ErrCacheFull | BadStatus

definition removeStagedFile :: "DownloadJob \<Rightarrow> 'b staging \<Rightarrow> 'b staging" where
  "removeStagedFile w s =
     (if w_ID w = [] \<or> w_Mode w \<noteq> DownloadStaged then s
      else s\<lparr>sg_target := (sg_target s)(w_ID w := None), sg_part := (sg_part s)(w_ID w := None)\<rparr>)"

definition stage_db :: "(db \<Rightarrow> 'a \<times> db) \<Rightarrow> 'b staging \<Rightarrow> 'a \<times> 'b staging" where
  "stage_db q s = (case q (sg_db s) of (x, d) \<Rightarrow> (x, s\<lparr>sg_db := d\<rparr>))"

fun evict :: "int \<Rightarrow> int \<Rightarrow> DownloadJob list \<Rightarrow> int \<Rightarrow> 'b staging \<Rightarrow> int \<times> 'b staging" where
  "evict limit need [] used s = (used, s)"
| "evict limit need (c # cs) used s =
     (if wrap64 (used + need) \<le> limit then (used, s)
      else let s1 = removeStagedFile c s
           in case stage_db (DeleteDownload (w_ID c)) s1 of
                (Inl _, s2) \<Rightarrow> evict limit need cs used s2
              | (Inr _, s2) \<Rightarrow> evict limit need cs (let u = wrap64 (used - w_TotalSize c) in if u < 0 then 0 else u) s2)"

definition makeRoomFor :: "int \<Rightarrow> 'b staging \<Rightarrow> (stage_error + unit) \<times> 'b staging" where
  "makeRoomFor need s =
     (let limit = sg_limit s
      in if limit \<le> 0 then (Inl ErrStagingDisabled, s)
         else let used = fst (CacheUsage (sg_db s))
              in if wrap64 (used + need) \<le> limit then (Inr (), s)
                 else case evict limit need (EvictableDownloads (sg_db s)) used s of
                     (used', s') \<Rightarrow> (if wrap64 (used' + need) > limit then Inl ErrCacheFull else Inr (), s'))"

definition scheduleStagedWorker :: "string \<Rightarrow> FileRow \<Rightarrow> 'b staging \<Rightarrow> 'b staging" where
  "scheduleStagedWorker jid f s =
     (case sg_runs s jid of
        Some _ \<Rightarrow> s
      | None \<Rightarrow> s\<lparr>sg_runs := (sg_runs s)(jid \<mapsto> \<lparr>sw_phase = Scheduled, sw_cancelled = False, sw_fid = f_ID f, sw_size = f_Size f,
          sw_written = []\<rparr>)\<rparr>)"

text \<open>\<open>StartStaged\<close>: the checks and the search for a copy, without the lock.  \<open>Inr None\<close>: there is none, go on.\<close>

definition stage_lookup :: "string \<Rightarrow> 'b staging \<Rightarrow> (stage_error + DownloadJob option) \<times> 'b staging" where
  "stage_lookup fid s =
     (case FileByID fid (sg_db s) of
        Inl e \<Rightarrow> (Inl (StageDB e), s)
      | Inr f \<Rightarrow>
          if f_Status f = StatusPending then (Inl StillUploading, s)
          else if sg_limit s \<le> 0 then (Inl ErrStagingDisabled, s)
          else if f_Size f > sg_limit s then (Inl ErrCacheFull, s)
          else case StagedDownloadFor (f_ID f) (sg_db s) of
              Inl _ \<Rightarrow> (Inr None, s)
            | Inr w \<Rightarrow> if sg_target s (w_ID w) \<noteq> None
                then (Inr (Some w), s\<lparr>sg_db := TouchDownload (w_ID w) (sg_db s)\<rparr>)
                else (Inr None, snd (stage_db (DeleteDownload (w_ID w)) s)))"

definition new_download :: "string \<Rightarrow> string \<Rightarrow> FileRow \<Rightarrow> DownloadJob" where
  "new_download jid uid f = \<lparr>w_ID = jid, w_UserID = uid, w_FileID = f_ID f, w_Name = f_Name f, w_TotalSize = f_Size f,
     w_DownloadedBytes = 0, w_Mode = DownloadStaged, w_Status = DownloadPending, w_Error = [], w_CachePath = [], w_CreatedAt = 0,
     w_UpdatedAt = 0, w_StartedAt = 0, w_FinishedAt = 0, w_ExpiresAt = 0, w_LastUsedAt = 0\<rparr>"

text \<open>And the part under \<open>stageMu\<close>.\<close>

definition stage_locked :: "(nat \<Rightarrow> string) \<Rightarrow> string \<Rightarrow> FileRow \<Rightarrow> 'b staging \<Rightarrow> (stage_error + DownloadJob) \<times> 'b staging" where
  "stage_locked newID uid f s =
     (case ActiveStagedFor (f_ID f) (sg_db s) of
        Inr w \<Rightarrow> (Inr w, s)
      | Inl _ \<Rightarrow>
          (case makeRoomFor (f_Size f) s of
             (Inl e, s1) \<Rightarrow> (Inl e, s1)
           | (Inr _, s1) \<Rightarrow>
               let job = new_download (newID (sg_seq s1)) uid f; s2 = s1\<lparr>sg_seq := Suc (sg_seq s1)\<rparr>
               in case stage_db (InsertDownload job) s2 of
                    (Inl e, s3) \<Rightarrow> (Inl (StageDB e), s3)
                  | (Inr _, s3) \<Rightarrow> (Inr job, scheduleStagedWorker (w_ID job) f s3)))"

definition StartStaged :: "(nat \<Rightarrow> string) \<Rightarrow> string \<Rightarrow> string \<Rightarrow> 'b staging \<Rightarrow> (stage_error + DownloadJob) \<times> 'b staging" where
  "StartStaged newID fid uid s =
     (case stage_lookup fid s of
        (Inl e, s1) \<Rightarrow> (Inl e, s1)
      | (Inr (Some w), s1) \<Rightarrow> (Inr w, s1)
      | (Inr None, s1) \<Rightarrow>
          (case FileByID fid (sg_db s1) of Inl e \<Rightarrow> (Inl (StageDB e), s1) | Inr f \<Rightarrow> stage_locked newID uid f s1))"

definition ResumeStaged :: "'b staging \<Rightarrow> 'b staging" where
  "ResumeStaged s = fold (\<lambda>w s.
     case FileByID (w_FileID w) (sg_db s) of
       Inl _ \<Rightarrow> snd (stage_db (SetDownloadStatus (w_ID w) DownloadFailed ''the file this download referred to is gone'') s)
     | Inr f \<Rightarrow> scheduleStagedWorker (w_ID w) f s) (ResumableDownloads (sg_db s)) s"

definition StagedFile :: "string \<Rightarrow> 'b staging \<Rightarrow> (stage_error + DownloadJob) \<times> 'b staging" where
  "StagedFile jid s =
     (case DownloadByID jid (sg_db s) of
        Inl e \<Rightarrow> (Inl (StageDB e), s)
      | Inr w \<Rightarrow>
          if w_CachePath w = [] \<or> (w_Status w \<noteq> DownloadReady \<and> w_Status w \<noteq> DownloadComplete)
          then (Inl (StageDB ErrNotFound), s)
          else let gone = (\<lambda>msg. snd (stage_db (SetDownloadStatus (w_ID w) DownloadExpired msg)
                     (snd (stage_db (SetDownloadCache (w_ID w) [] 0) (removeStagedFile w s)))))
               in if w_ExpiresAt w \<noteq> 0 \<and> \<not> db_now (sg_db s) < w_ExpiresAt w
                  then (Inl (StageDB ErrNotFound), gone ''the staged copy expired'')
                  else if sg_target s (w_ID w) = None
                  then (Inl (StageDB ErrNotFound), gone ''the staged copy is no longer on disk'')
                  else (Inr w, s\<lparr>sg_db := TouchDownload (w_ID w) (sg_db s)\<rparr>))"

section \<open>The worker\<close>

definition set_worker :: "string \<Rightarrow> ('b stage_worker \<Rightarrow> 'b stage_worker) \<Rightarrow> 'b staging \<Rightarrow> 'b staging" where
  "set_worker jid f s = s\<lparr>sg_runs := (sg_runs s)(jid := map_option f (sg_runs s jid))\<rparr>"

definition to_phase :: "string \<Rightarrow> stage_phase \<Rightarrow> 'b staging \<Rightarrow> 'b staging" where
  "to_phase jid ph = set_worker jid (\<lambda>w. w\<lparr>sw_phase := ph\<rparr>)"

definition end_worker :: "string \<Rightarrow> 'b staging \<Rightarrow> 'b staging" where
  "end_worker jid s = s\<lparr>sg_runs := (sg_runs s)(jid := None)\<rparr>"

text \<open>\<open>fail\<close>: a cancelled worker just ends.\<close>

definition stage_fail :: "string \<Rightarrow> 'b stage_worker \<Rightarrow> 'b staging \<Rightarrow> 'b staging" where
  "stage_fail jid w s = (if sw_cancelled w then end_worker jid s else to_phase jid Failing s)"

definition cleanup :: "string \<Rightarrow> 'b staging \<Rightarrow> 'b staging" where
  "cleanup jid s = s\<lparr>sg_target := (sg_target s)(jid := None), sg_part := (sg_part s)(jid := None)\<rparr>"

text \<open>
  One step of \<open>runStaged\<close>.  \<open>ok\<close> is the outcome of the call to the outside (the lease, the file system, the
  reader), \<open>n\<close> the number of bytes a read delivers, \<open>path\<close> the path below the cache directory, \<open>content\<close>
  the bytes of the file.  A statement with a cancelled context fails.  The reader ends at the end of the stored bytes and not
  before (theory \<open>Reader\<close>) or with an error; the check of the size after it fires when the row promises another number.
\<close>

definition copy_step :: "'b list \<Rightarrow> string \<Rightarrow> 'b stage_worker \<Rightarrow> bool \<Rightarrow> nat \<Rightarrow> 'b staging \<Rightarrow> 'b staging" where
  "copy_step content jid w ok n s =
     (if sw_cancelled w then end_worker jid (cleanup jid s)
      else if \<not> ok then to_phase jid Failing (cleanup jid s)
      else if sw_written w = content then to_phase jid Copied s
      else let more = sw_written w @ take (Suc n) (drop (length (sw_written w)) content)
           in set_worker jid (\<lambda>w. w\<lparr>sw_written := more\<rparr>)
                (s\<lparr>sg_part := (sg_part s)(jid := map_option (\<lambda>_. more) (sg_part s jid))\<rparr>))"

text \<open>The file is closed, checked and renamed; a part file that somebody removed cannot be renamed.\<close>

definition publish_step :: "string \<Rightarrow> 'b stage_worker \<Rightarrow> bool \<Rightarrow> 'b staging \<Rightarrow> 'b staging" where
  "publish_step jid w ok s =
     (if \<not> ok \<or> int (length (sw_written w)) \<noteq> sw_size w then stage_fail jid w (cleanup jid s)
      else case sg_part s jid of
          None \<Rightarrow> stage_fail jid w (cleanup jid s)
        | Some bytes \<Rightarrow> to_phase jid Published (s\<lparr>sg_target := (sg_target s)(jid := Some bytes), sg_part := (sg_part s)(jid := None)\<rparr>))"

definition run_step :: "(string \<Rightarrow> 'b list) \<Rightarrow> string \<Rightarrow> string \<Rightarrow> bool \<Rightarrow> nat \<Rightarrow> 'b staging \<Rightarrow> 'b staging" where
  "run_step content path jid ok n s =
     (case sg_runs s jid of
        None \<Rightarrow> s
      | Some w \<Rightarrow>
          (case sw_phase w of
             Scheduled \<Rightarrow> to_phase jid Leasing s
           | Leasing \<Rightarrow> if ok \<and> \<not> sw_cancelled w then to_phase jid Leased s else stage_fail jid w s
           | Leased \<Rightarrow>
               if sw_cancelled w then end_worker jid s
               else (case stage_db (SetDownloadStatusIf jid DownloadRunning [] [DownloadPending, DownloadRunning]) s of
                   (found, s1) \<Rightarrow> if found then to_phase jid Started s1 else end_worker jid s1)
           | Started \<Rightarrow>
               if \<not> ok then stage_fail jid w s
               else if sw_cancelled w then end_worker jid (cleanup jid s)
               else (case stage_db (SetDownloadCache jid path 0) s of
                   (Inl _, s1) \<Rightarrow> to_phase jid Failing (cleanup jid s1) | (Inr _, s1) \<Rightarrow> to_phase jid Placed s1)
           | Placed \<Rightarrow>
               if \<not> ok then stage_fail jid w (cleanup jid s)
               else set_worker jid (\<lambda>w. w\<lparr>sw_phase := Copying, sw_written := []\<rparr>)
                 (s\<lparr>sg_target := (sg_target s)(jid := None), sg_part := (sg_part s)(jid := Some [])\<rparr>)
           | Copying \<Rightarrow> copy_step (content (sw_fid w)) jid w ok n s
           | Copied \<Rightarrow> publish_step jid w ok s
           | Published \<Rightarrow>
               if sw_cancelled w then end_worker jid (cleanup jid s)
               else (case stage_db (SetDownloadCache jid path (db_now (sg_db s) + sg_ttl s)) s of
                   (Inl _, s1) \<Rightarrow> to_phase jid Failing (cleanup jid s1) | (Inr _, s1) \<Rightarrow> to_phase jid Dated s1)
           | Dated \<Rightarrow>
               if sw_cancelled w then end_worker jid (cleanup jid s)
               else (case stage_db (SetDownloadStatusIf jid DownloadReady [] [DownloadRunning]) s of
                   (found, s1) \<Rightarrow> if found then end_worker jid s1 else end_worker jid (cleanup jid s1))
           | Failing \<Rightarrow> to_phase jid FailingStatus (snd (stage_db (SetDownloadCache jid [] 0) s))
           | FailingStatus \<Rightarrow>
               end_worker jid (snd (stage_db (SetDownloadStatusIf jid DownloadFailed ''failed'' [DownloadPending, DownloadRunning]) s))))"

section \<open>Requests\<close>

text \<open>The cancel function of a worker is registered when the worker starts.\<close>

definition interrupt :: "string \<Rightarrow> 'b staging \<Rightarrow> 'b staging" where
  "interrupt jid = set_worker jid (\<lambda>w. if sw_phase w = Scheduled then w else w\<lparr>sw_cancelled := True\<rparr>)"

definition cancel_start :: "cancel_phase \<Rightarrow> string \<Rightarrow> 'b staging \<Rightarrow> 'b staging" where
  "cancel_start next jid s =
     (case DownloadByID jid (sg_db s) of
        Inl _ \<Rightarrow> s
      | Inr w \<Rightarrow> if next = ToMark \<and> w_Mode w \<noteq> DownloadStaged then s
          else let s1 = removeStagedFile w (interrupt jid s) in s1\<lparr>sg_requests := (jid, next) # sg_requests s1\<rparr>)"

text \<open>\<open>CancelStaged\<close> marks the row and then clears its path; \<open>DeleteStaged\<close> deletes the row.\<close>

definition cancel_next :: "string \<Rightarrow> cancel_phase \<Rightarrow> 'b staging \<Rightarrow> 'b staging" where
  "cancel_next jid ph s =
     (if (jid, ph) \<notin> set (sg_requests s) then s
      else let s1 = s\<lparr>sg_requests := remove1 (jid, ph) (sg_requests s)\<rparr>
           in case ph of
                ToMark \<Rightarrow> (let s2 = snd (stage_db (SetDownloadStatusIf jid DownloadCancelled ''cancelled''
                     [DownloadPending, DownloadRunning, DownloadReady]) s1) in s2\<lparr>sg_requests := (jid, ToClear) # sg_requests s2\<rparr>)
              | ToClear \<Rightarrow> snd (stage_db (SetDownloadCache jid [] 0) s1)
              | ToDelete \<Rightarrow> snd (stage_db (DeleteDownload jid) s1))"

definition CancelStaged :: "string \<Rightarrow> 'b staging \<Rightarrow> 'b staging" where
  "CancelStaged jid s = cancel_next jid ToClear (cancel_next jid ToMark (cancel_start ToMark jid s))"

text \<open>The two passes of \<open>SweepCache\<close>.\<close>

fun sweep_dead :: "DownloadJob list \<Rightarrow> int \<Rightarrow> 'b staging \<Rightarrow> DownloadJob list \<times> int \<times> 'b staging" where
  "sweep_dead [] used s = ([], used, s)"
| "sweep_dead (w # ws) used s =
     (let expired = (w_ExpiresAt w \<noteq> 0 \<and> w_ExpiresAt w \<le> db_now (sg_db s));
          terminal = w_Status w \<in> {DownloadFailed, DownloadCancelled, DownloadExpired}
      in if expired \<or> terminal
         then let u = wrap64 (used - w_TotalSize w);
                  s1 = snd (stage_db (SetDownloadCache (w_ID w) [] 0) (removeStagedFile w s));
                  s2 = (if expired \<and> w_Status w \<noteq> DownloadExpired
                        then snd (stage_db (SetDownloadStatus (w_ID w) DownloadExpired ''the staged copy expired'') s1) else s1)
              in sweep_dead ws (if u < 0 then 0 else u) s2
         else case sweep_dead ws used s of (live, u, s') \<Rightarrow> (w # live, u, s'))"

fun sweep_live :: "int \<Rightarrow> DownloadJob list \<Rightarrow> int \<Rightarrow> 'b staging \<Rightarrow> 'b staging" where
  "sweep_live limit [] used s = s"
| "sweep_live limit (w # ws) used s =
     (if limit \<le> 0 \<or> used \<le> limit then s
      else case stage_db (DeleteDownload (w_ID w)) (removeStagedFile w s) of
          (Inl _, s1) \<Rightarrow> sweep_live limit ws used s1
        | (Inr _, s1) \<Rightarrow> sweep_live limit ws (wrap64 (used - w_TotalSize w)) s1)"

text \<open>Directories without a row.\<close>

definition removeOrphanCacheDirs :: "'b staging \<Rightarrow> 'b staging" where
  "removeOrphanCacheDirs s =
     (let known = (\<lambda>j. case DownloadByID j (sg_db s) of Inr _ \<Rightarrow> True | Inl _ \<Rightarrow> False)
      in s\<lparr>sg_target := (\<lambda>j. if known j then sg_target s j else None), sg_part := (\<lambda>j. if known j then sg_part s j else None)\<rparr>)"

definition SweepCache :: "'b staging \<Rightarrow> 'b staging" where
  "SweepCache s =
     (case sweep_dead (EvictableDownloads (sg_db s)) (fst (CacheUsage (sg_db s))) s of
        (live, used, s1) \<Rightarrow> removeOrphanCacheDirs (sweep_live (sg_limit s) live used s1))"

definition drop_copy :: "DownloadJob \<Rightarrow> 'b staging \<Rightarrow> 'b staging" where
  "drop_copy w s = snd (stage_db (DeleteDownload (w_ID w)) (removeStagedFile w s))"

definition PurgeCache :: "'b staging \<Rightarrow> 'b staging" where
  "PurgeCache s =
     (let s1 = fold (\<lambda>w s. snd (stage_db (DeleteDownload (w_ID w)) (CancelStaged (w_ID w) s))) (ResumableDownloads (sg_db s)) s
      in removeOrphanCacheDirs (fold drop_copy (EvictableDownloads (sg_db s1)) s1))"

definition CacheStatus :: "'b staging \<Rightarrow> int \<times> int \<times> nat" where
  "CacheStatus s = (case CacheUsage (sg_db s) of (used, count) \<Rightarrow> (used, sg_limit s, count))"

definition PurgeDownloadHistory :: "int \<Rightarrow> 'b staging \<Rightarrow> 'b staging" where
  "PurgeDownloadHistory older s = fold drop_copy (FinishedDownloadsBefore older (sg_db s)) s"

section \<open>The handlers\<close>

text \<open>
  \<open>internal/api/downloads.go\<close>: a staged job is shared by file, any other belongs to its user.  \<open>access\<close> is the
  check of \<open>fileForUser\<close> for the caller, whose id is \<open>uid\<close>.
\<close>

definition downloadForUser :: "(string \<Rightarrow> bool) \<Rightarrow> string \<Rightarrow> bool \<Rightarrow> string \<Rightarrow> db \<Rightarrow> db_error + DownloadJob" where
  "downloadForUser access uid admin jid d =
     (case DownloadByID jid d of
        Inl e \<Rightarrow> Inl e
      | Inr w \<Rightarrow>
          if w_UserID w \<noteq> [] \<and> w_UserID w \<noteq> uid \<and> \<not> admin
          then if w_Mode w \<noteq> DownloadStaged \<or> w_FileID w = [] \<or> \<not> access (w_FileID w) then Inl ErrNotFound else Inr w
          else Inr w)"

text \<open>A browser starts a download of its own: a row, without a file.\<close>

definition start_direct :: "(nat \<Rightarrow> string) \<Rightarrow> string \<Rightarrow> DownloadMode \<Rightarrow> FileRow \<Rightarrow> 'b staging \<Rightarrow> (stage_error + DownloadJob) \<times> 'b staging" where
  "start_direct newID uid mode f s =
     (let job = (new_download (newID (sg_seq s)) uid f)\<lparr>w_Mode := mode, w_Status := DownloadRunning\<rparr>; s1 = s\<lparr>sg_seq := Suc (sg_seq s)\<rparr>
      in case stage_db (InsertDownload job) s1 of
           (Inl e, s2) \<Rightarrow> (Inl (StageDB e), s2)
         | (Inr _, s2) \<Rightarrow>
             (case stage_db (SetDownloadStatus (w_ID job) DownloadRunning []) s2 of
                (Inl e, s3) \<Rightarrow> (Inl (StageDB e), s3)
              | (Inr _, s3) \<Rightarrow> (case DownloadByID (w_ID job) (sg_db s3) of Inl e \<Rightarrow> (Inl (StageDB e), s3) | Inr w \<Rightarrow> (Inr w, s3))))"

definition report_status :: "string \<Rightarrow> DownloadStatus option \<Rightarrow> string \<Rightarrow> 'b staging \<Rightarrow> (stage_error + unit) \<times> 'b staging" where
  "report_status jid status err s =
     (case status of
        None \<Rightarrow> (Inr (), s)
      | Some st \<Rightarrow>
          if st \<notin> {DownloadComplete, DownloadFailed, DownloadCancelled, DownloadRunning} then (Inl BadStatus, s)
          else case stage_db (SetDownloadStatus jid st err) s of (Inl e, s') \<Rightarrow> (Inl (StageDB e), s') | (Inr _, s') \<Rightarrow> (Inr (), s'))"

definition handleDownloadProgress ::
  "(string \<Rightarrow> bool) \<Rightarrow> string \<Rightarrow> bool \<Rightarrow> string \<Rightarrow> int \<Rightarrow> DownloadStatus option \<Rightarrow> string \<Rightarrow> 'b staging \<Rightarrow> (stage_error + DownloadJob) \<times> 'b staging"
where
  "handleDownloadProgress access uid admin jid n status err s =
     (case downloadForUser access uid admin jid (sg_db s) of
        Inl e \<Rightarrow> (Inl (StageDB e), s)
      | Inr w \<Rightarrow>
          (let s1 = (if n > 0 then s\<lparr>sg_db := SetDownloadProgress (w_ID w) (min n (w_TotalSize w)) (sg_db s)\<rparr> else s)
           in case report_status (w_ID w) status err s1 of
                (Inl e, s2) \<Rightarrow> (Inl e, s2)
              | (Inr _, s2) \<Rightarrow> (case DownloadByID (w_ID w) (sg_db s2) of Inl e \<Rightarrow> (Inl (StageDB e), s2) | Inr w' \<Rightarrow> (Inr w', s2))))"

text \<open>The job and the bytes that are served.\<close>

definition handleStagedFile ::
  "(string \<Rightarrow> bool) \<Rightarrow> string \<Rightarrow> bool \<Rightarrow> string \<Rightarrow> 'b staging \<Rightarrow> (stage_error + DownloadJob \<times> 'b list) \<times> 'b staging"
where
  "handleStagedFile access uid admin jid s =
     (case downloadForUser access uid admin jid (sg_db s) of
        Inl e \<Rightarrow> (Inl (StageDB e), s)
      | Inr w \<Rightarrow>
          (case StagedFile (w_ID w) s of
             (Inl e, s1) \<Rightarrow> (Inl e, s1)
           | (Inr ready, s1) \<Rightarrow> (case sg_target s1 (w_ID ready) of None \<Rightarrow> (Inl (StageDB ErrNotFound), s1) | Some bs \<Rightarrow> (Inr (ready, bs), s1))))"

text \<open>\<open>handleCancelDownload\<close> for a download that no worker of the server carries out.\<close>

definition cancel_direct :: "(string \<Rightarrow> bool) \<Rightarrow> string \<Rightarrow> bool \<Rightarrow> string \<Rightarrow> 'b staging \<Rightarrow> 'b staging" where
  "cancel_direct access uid admin jid s =
     (case downloadForUser access uid admin jid (sg_db s) of
        Inl _ \<Rightarrow> s
      | Inr w \<Rightarrow> if w_Mode w = DownloadStaged then s
          else snd (stage_db (SetDownloadStatusIf (w_ID w) DownloadCancelled ''cancelled'' [DownloadPending, DownloadRunning]) s))"

section \<open>Every interleaving\<close>

text \<open>
  \<open>EReport\<close> is a client that reports the progress of a job, \<open>ERestart\<close> the end of the process: workers and requests are gone, rows and files stay.  \<open>EStage\<close> carries the row of the
  file that was read before the lock, which may be stale.
\<close>

datatype stage_event =
    ELookup string
  | EStage FileRow string
  | ERun string bool nat
  | ECancel cancel_phase string
  | ENext string cancel_phase
  | EFetch "string \<Rightarrow> bool" string bool string
  | EDirect FileRow string DownloadMode
  | ECancelDirect "string \<Rightarrow> bool" string bool string
  | ESweep
  | EPurge
  | EHistory int
  | EReport "string \<Rightarrow> bool" string bool string int "DownloadStatus option" string
  | EResume
  | ERestart
  | ETick nat

fun stage_step :: "(nat \<Rightarrow> string) \<Rightarrow> (string \<Rightarrow> 'b list) \<Rightarrow> (string \<Rightarrow> string) \<Rightarrow> stage_event \<Rightarrow> 'b staging \<Rightarrow> 'b staging" where
  "stage_step newID content path (ELookup fid) s = snd (stage_lookup fid s)"
| "stage_step newID content path (EStage f uid) s = snd (stage_locked newID uid f s)"
| "stage_step newID content path (ERun jid ok n) s = run_step content (path jid) jid ok n s"
| "stage_step newID content path (ECancel ph jid) s = (if ph = ToClear then s else cancel_start ph jid s)"
| "stage_step newID content path (ENext jid ph) s = cancel_next jid ph s"
| "stage_step newID content path (EFetch access uid admin jid) s = snd (handleStagedFile access uid admin jid s)"
| "stage_step newID content path (EDirect f uid mode) s = (if mode = DownloadStaged then s else snd (start_direct newID uid mode f s))"
| "stage_step newID content path (ECancelDirect access uid admin jid) s = cancel_direct access uid admin jid s"
| "stage_step newID content path ESweep s = SweepCache s"
| "stage_step newID content path EPurge s = PurgeCache s"
| "stage_step newID content path (EHistory older) s = PurgeDownloadHistory older s"
| "stage_step newID content path (EReport access uid admin jid n status err) s = snd (handleDownloadProgress access uid admin jid n status err s)"
| "stage_step newID content path EResume s = ResumeStaged s"
| "stage_step newID content path ERestart s = s\<lparr>sg_runs := (\<lambda>_. None), sg_requests := []\<rparr>"
| "stage_step newID content path (ETick n) s = s\<lparr>sg_db := (sg_db s)\<lparr>db_now := db_now (sg_db s) + int n\<rparr>\<rparr>"

end
