(* ===== verification/StagingLaws.thy ===== *)
theory StagingLaws
  imports Staging
begin

text \<open>
  The invariant of the staging cache: what a worker has written is a prefix of its file, and a published copy
  is the whole file.  Most steps write no bytes, keep every id and revive no job (\<open>tame\<close>); the few that do are
  treated one by one.
\<close>

section \<open>Steps that write no bytes\<close>

definition writing :: "'b stage_worker \<Rightarrow> bool" where
  "writing w \<longleftrightarrow> sw_phase w = Copying \<or> sw_phase w = Copied"

definition tame_worker :: "'b stage_worker \<Rightarrow> 'b stage_worker \<Rightarrow> bool" where
  "tame_worker w w' \<longleftrightarrow> sw_fid w' = sw_fid w \<and> (sw_phase w' = Copied \<longrightarrow> sw_phase w = Copied) \<and>
     (writing w' \<longrightarrow> writing w \<and> sw_written w' = sw_written w)"

definition tame_run :: "'b stage_worker option \<Rightarrow> 'b stage_worker option \<Rightarrow> bool" where
  "tame_run r r' \<longleftrightarrow> (case r' of None \<Rightarrow> True | Some w' \<Rightarrow> (case r of None \<Rightarrow> False | Some w \<Rightarrow> tame_worker w w'))"

abbreviation dead :: "DownloadStatus set" where
  "dead \<equiv> {DownloadFailed, DownloadCancelled, DownloadExpired}"

definition follows :: "DownloadJob \<Rightarrow> DownloadJob \<Rightarrow> bool" where
  "follows w w' \<longleftrightarrow> w_ID w' = w_ID w \<and> w_FileID w' = w_FileID w \<and> (w_Status w \<in> dead \<longrightarrow> w_Status w' \<in> dead)"

definition tame_db :: "db \<Rightarrow> db \<Rightarrow> bool" where
  "tame_db d d' \<longleftrightarrow> db_files d' = db_files d \<and> (\<forall>w' \<in> set (db_downloads d'). \<exists>w \<in> set (db_downloads d). follows w w')"

definition tame :: "'b staging \<Rightarrow> 'b staging \<Rightarrow> bool" where
  "tame s s' \<longleftrightarrow> tame_db (sg_db s) (sg_db s') \<and> sg_seq s' = sg_seq s \<and>
     (\<forall>j. (sg_target s' j = None \<or> sg_target s' j = sg_target s j) \<and> (sg_part s' j = None \<or> sg_part s' j = sg_part s j) \<and>
        tame_run (sg_runs s j) (sg_runs s' j))"

lemma tame_worker_refl: "tame_worker w w" by (simp add: tame_worker_def)

lemma tame_worker_trans: "\<lbrakk>tame_worker a b; tame_worker b c\<rbrakk> \<Longrightarrow> tame_worker a c"
  by (auto simp: tame_worker_def)

lemma tame_run_refl: "tame_run r r" by (simp add: tame_run_def tame_worker_refl split: option.split)

lemma tame_run_None: "tame_run r None" by (simp add: tame_run_def)

lemma tame_run_trans: "\<lbrakk>tame_run a b; tame_run b c\<rbrakk> \<Longrightarrow> tame_run a c"
  unfolding tame_run_def by (cases a; cases b; cases c) (auto intro: tame_worker_trans)

lemma follows_refl: "follows w w" by (simp add: follows_def)

lemma follows_trans: "\<lbrakk>follows u v; follows v w\<rbrakk> \<Longrightarrow> follows u w" by (auto simp: follows_def)

lemma tame_db_refl: "tame_db d d" by (auto simp: tame_db_def intro: follows_refl)

lemma tame_db_trans: "\<lbrakk>tame_db a b; tame_db b c\<rbrakk> \<Longrightarrow> tame_db a c"
  unfolding tame_db_def by (metis follows_trans)

lemma tame_refl: "tame s s"
  by (auto simp: tame_def tame_db_refl tame_run_refl tame_run_None)

lemma tame_trans: "\<lbrakk>tame a b; tame b c\<rbrakk> \<Longrightarrow> tame a c"
  unfolding tame_def by (metis tame_db_trans tame_run_trans)

lemma tame_update: "(\<And>w. P w \<Longrightarrow> follows w (f w)) \<Longrightarrow> tame_db d (d\<lparr>db_downloads := update_where P f (db_downloads d)\<rparr>)"
  by (auto simp: tame_db_def set_update_where intro: follows_refl)

lemma status_change_frame:
  "w_ID (status_change now st e w) = w_ID w" "w_FileID (status_change now st e w) = w_FileID w"
  "w_Status (status_change now st e w) = st"
  by (simp_all add: status_change_def Let_def split: DownloadStatus.split)

lemma snd_setDownloadStatus:
  "snd (SetDownloadStatus jid st e d) = snd (setDownloadStatus jid st e (\<lambda>_. True) d)"
  "snd (SetDownloadStatusIf jid st e sts d) = (if sts = [] then d else snd (setDownloadStatus jid st e (\<lambda>st. st \<in> set sts) d))"
  by (simp_all add: SetDownloadStatus_def SetDownloadStatusIf_def split: prod.split)

lemma tame_setDownloadStatus:
  "st \<in> dead \<or> (\<forall>x. P x \<longrightarrow> x \<notin> dead) \<Longrightarrow> tame_db d (snd (setDownloadStatus jid st e P d))"
  by (auto simp: setDownloadStatus_def Let_def follows_def status_change_frame intro!: tame_update)

lemma tame_statements:
  "st \<in> dead \<Longrightarrow> tame_db d (snd (SetDownloadStatus jid st e d))"
  "st \<in> dead \<or> set sts \<inter> dead = {} \<Longrightarrow> tame_db d (snd (SetDownloadStatusIf jid st e sts d))"
  "tame_db d (snd (SetDownloadCache jid path ex d))" "tame_db d (snd (DeleteDownload jid d))" "tame_db d (TouchDownload jid d)"
  "tame_db d (SetDownloadProgress jid n d)"
proof -
  show "st \<in> dead \<Longrightarrow> tame_db d (snd (SetDownloadStatus jid st e d))"
    unfolding snd_setDownloadStatus by (intro tame_setDownloadStatus) simp
  show "st \<in> dead \<or> set sts \<inter> dead = {} \<Longrightarrow> tame_db d (snd (SetDownloadStatusIf jid st e sts d))"
    unfolding snd_setDownloadStatus using tame_setDownloadStatus [of st "\<lambda>x. x \<in> set sts"] by (auto simp: tame_db_refl)
  show "tame_db d (snd (DeleteDownload jid d))" by (auto simp: DeleteDownload_def tame_db_def intro: follows_refl)
qed (simp_all add: SetDownloadCache_def TouchDownload_def SetDownloadProgress_def on_download_def tame_update follows_def)

lemma tame_ended:
  "tame_db d (snd (SetDownloadStatus jid DownloadExpired e d))" "tame_db d (snd (SetDownloadStatus jid DownloadFailed e d))"
  by (simp_all add: tame_statements(1))

lemma tame_stage_db: "(\<And>d. tame_db d (snd (q d))) \<Longrightarrow> tame s (snd (stage_db q s))"
  by (auto simp: stage_db_def tame_def tame_run_refl split: prod.split) (metis snd_conv)+

lemma tame_cleanup: "tame s (cleanup jid s)"
  by (auto simp: cleanup_def tame_def tame_db_refl tame_run_refl tame_run_None)

lemma tame_remove: "tame s (removeStagedFile w s)"
  by (auto simp: removeStagedFile_def tame_def tame_db_refl tame_run_refl tame_run_None)

lemma tame_set_worker: "(\<And>w. sg_runs s jid = Some w \<Longrightarrow> tame_worker w (f w)) \<Longrightarrow> tame s (set_worker jid f s)"
  by (auto simp: set_worker_def tame_def tame_db_refl tame_run_def tame_worker_refl split: option.split)

lemma tame_end: "tame s (end_worker jid s)"
  by (auto simp: end_worker_def tame_def tame_db_refl tame_run_refl tame_run_None)

lemma tame_phase: "\<lbrakk>ph \<noteq> Copying; ph \<noteq> Copied\<rbrakk> \<Longrightarrow> tame s (to_phase jid ph s)"
  unfolding to_phase_def by (rule tame_set_worker) (simp add: tame_worker_def writing_def)

lemma tame_requests: "tame s s' \<Longrightarrow> tame s (s'\<lparr>sg_requests := r\<rparr>)" "tame (s\<lparr>sg_requests := r\<rparr>) s' \<Longrightarrow> tame s s'"
  by (simp_all add: tame_def)

lemma tame_db_step: "tame_db (sg_db s) d \<Longrightarrow> tame s (s\<lparr>sg_db := d\<rparr>)"
  by (auto simp: tame_def tame_run_refl tame_run_None)

lemmas tame_intros = tame_refl tame_stage_db tame_statements tame_cleanup tame_remove tame_end tame_phase tame_db_step

lemma tame_statement: "(\<And>d. tame_db d (snd (q d))) \<Longrightarrow> stage_db q s = (r, s') \<Longrightarrow> tame s s'"
  using tame_stage_db [of q s] by simp

lemma tame_evict: "tame s (snd (evict limit need cs used s))"
proof (induction cs arbitrary: used s)
  case (Cons c cs)
  have "tame s s2" if "stage_db (DeleteDownload (w_ID c)) (removeStagedFile c s) = (r, s2)" for r s2
    using tame_trans [OF tame_remove tame_statement [OF tame_statements(4) that]] .
  then show ?case
    using Cons.IH tame_trans by (auto simp: Let_def tame_refl split: prod.split sum.split) blast+
qed (simp add: tame_refl)

lemma tame_makeRoomFor: "tame s (snd (makeRoomFor need s))"
  using tame_evict [of s "sg_limit s" need] by (auto simp: makeRoomFor_def Let_def tame_refl split: prod.split) (metis snd_conv)+

lemma tame_lookup: "tame s (snd (stage_lookup fid s))"
  by (auto simp: stage_lookup_def intro!: tame_intros split: sum.split option.split)

lemma tame_StagedFile: "tame s (snd (StagedFile jid s))"
proof -
  have "tame s (snd (stage_db (SetDownloadStatus (w_ID w) DownloadExpired msg) (snd (stage_db (SetDownloadCache (w_ID w) [] 0) (removeStagedFile w s)))))"
    for w msg
    by (rule tame_trans [OF tame_trans [OF tame_remove tame_stage_db [OF tame_statements(3)]] tame_stage_db [OF tame_ended(1)]])
  then show ?thesis by (auto simp: StagedFile_def Let_def tame_refl intro!: tame_db_step tame_statements split: sum.split)
qed

lemma tame_interrupt: "tame s (interrupt jid s)"
  unfolding interrupt_def by (rule tame_set_worker) (auto simp: tame_worker_def writing_def)

lemma tame_cancel_start: "tame s (cancel_start next jid s)"
  using tame_trans [OF tame_interrupt tame_remove]
  by (auto simp: cancel_start_def Let_def tame_refl intro!: tame_requests(1) split: sum.split)

lemma tame_requests_off: "tame s (s\<lparr>sg_requests := r\<rparr>)"
  by (rule tame_requests(1) [OF tame_refl])

lemma tame_cancel_next: "tame s (cancel_next jid ph s)"
proof -
  let ?s = "s\<lparr>sg_requests := remove1 (jid, ph) (sg_requests s)\<rparr>"
  have "tame s (snd (stage_db q ?s))" if "\<And>d. tame_db d (snd (q d))" for q :: "db \<Rightarrow> 'c \<times> db"
    using tame_trans [OF tame_requests_off tame_stage_db] that by blast
  note step = this
  show ?thesis
    unfolding cancel_next_def Let_def
    using step [OF tame_statements(2)] step [OF tame_statements(3)] step [OF tame_statements(4)]
    by (cases ph) (auto simp: tame_refl intro!: tame_requests(1))
qed

lemma tame_CancelStaged: "tame s (CancelStaged jid s)"
  unfolding CancelStaged_def by (intro tame_trans [OF tame_trans [OF tame_cancel_start tame_cancel_next] tame_cancel_next])

lemma tame_fold: "(\<And>x s. tame s (f x s)) \<Longrightarrow> tame s (fold f xs s)"
  by (induction xs arbitrary: s) (auto intro: tame_refl tame_trans)

lemma tame_drop: "tame s (drop_copy w s)"
  unfolding drop_copy_def by (rule tame_trans [OF tame_remove tame_stage_db [OF tame_statements(4)]])

lemma tame_sweep_dead: "tame s (snd (snd (sweep_dead ws used s)))"
proof (induction ws arbitrary: used s)
  case (Cons w ws)
  let ?s1 = "snd (stage_db (SetDownloadCache (w_ID w) [] 0) (removeStagedFile w s))"
  have 1: "tame s ?s1" by (rule tame_trans [OF tame_remove tame_stage_db [OF tame_statements(3)]])
  have 2: "tame s (snd (stage_db (SetDownloadStatus (w_ID w) DownloadExpired m) ?s1))" for m
    by (rule tame_trans [OF 1 tame_stage_db [OF tame_ended(1)]])
  have 3: "tame s b" if "sweep_dead ws used s = (l, u, b)" for l u b using Cons.IH [of s used] that by simp
  show ?case using tame_trans [OF 1 Cons.IH] tame_trans [OF 2 Cons.IH] 3 by (auto simp: Let_def split: prod.split)
qed (simp add: tame_refl)

lemma tame_sweep_live: "tame s (sweep_live limit ws used s)"
proof (induction ws arbitrary: used s)
  case (Cons c cs)
  have "tame s s2" if "stage_db (DeleteDownload (w_ID c)) (removeStagedFile c s) = (r, s2)" for r s2
    using tame_trans [OF tame_remove tame_statement [OF tame_statements(4) that]] .
  then show ?case
    using Cons.IH tame_trans by (auto simp: tame_refl split: prod.split sum.split) blast+
qed (simp add: tame_refl)

lemma tame_orphans: "tame s (removeOrphanCacheDirs s)"
  by (auto simp: removeOrphanCacheDirs_def Let_def tame_def tame_db_refl tame_run_refl tame_run_None)

lemma tame_SweepCache: "tame s (SweepCache s)"
proof -
  obtain live used s1 where l: "sweep_dead (EvictableDownloads (sg_db s)) (fst (CacheUsage (sg_db s))) s = (live, used, s1)"
    by (metis prod_cases3)
  then have "tame s s1" using tame_sweep_dead [of s "EvictableDownloads (sg_db s)" "fst (CacheUsage (sg_db s))"] by simp
  then show ?thesis using tame_trans [OF tame_trans [OF _ tame_sweep_live] tame_orphans] l by (simp add: SweepCache_def)
qed

lemma tame_Purge: "tame s (PurgeCache s)" "tame s (PurgeDownloadHistory older s)"
proof -
  have "tame s (snd (stage_db (DeleteDownload (w_ID w)) (CancelStaged (w_ID w) s)))" for w and s :: "'a staging"
    by (rule tame_trans [OF tame_CancelStaged tame_stage_db [OF tame_statements(4)]])
  then show "tame s (PurgeCache s)" unfolding PurgeCache_def Let_def 
    by (intro tame_trans [OF tame_trans [OF tame_fold tame_fold] tame_orphans] tame_drop)
  show "tame s (PurgeDownloadHistory older s)" unfolding PurgeDownloadHistory_def by (rule tame_fold [OF tame_drop])
qed

section \<open>Complete copies only\<close>

text \<open>A worker that writes has written a prefix of its file, and it works for the file of its row.\<close>

definition sound_worker :: "'b list \<Rightarrow> 'b list option \<Rightarrow> 'b stage_worker \<Rightarrow> bool" where
  "sound_worker bytes part w \<longleftrightarrow>
     (writing w \<longrightarrow> prefix (sw_written w) bytes \<and> (part = None \<or> part = Some (sw_written w))) \<and>
     (sw_phase w = Copied \<longrightarrow> sw_written w = bytes)"

definition rows_of :: "string \<Rightarrow> string \<Rightarrow> 'b staging \<Rightarrow> bool" where
  "rows_of j fid s \<longleftrightarrow> (\<forall>r \<in> set (db_downloads (sg_db s)). w_ID r = j \<longrightarrow> w_FileID r = fid)"

definition unused :: "(nat \<Rightarrow> string) \<Rightarrow> 'b staging \<Rightarrow> bool" where
  "unused newID s \<longleftrightarrow> (\<forall>n \<ge> sg_seq s. newID n \<notin> w_ID ` set (db_downloads (sg_db s)) \<and> sg_target s (newID n) = None \<and>
     sg_runs s (newID n) = None)"

definition stage_inv :: "(nat \<Rightarrow> string) \<Rightarrow> (string \<Rightarrow> 'b list) \<Rightarrow> 'b staging \<Rightarrow> bool" where
  "stage_inv newID content s \<longleftrightarrow> unused newID s \<and>
     (\<forall>j w. sg_runs s j = Some w \<longrightarrow> sound_worker (content (sw_fid w)) (sg_part s j) w \<and> rows_of j (sw_fid w) s) \<and>
     (\<forall>r \<in> set (db_downloads (sg_db s)). rows_of (w_ID r) (w_FileID r) s \<and>
        (\<forall>bs. sg_target s (w_ID r) = Some bs \<longrightarrow> bs = content (w_FileID r)))"

lemma tame_rows: "\<lbrakk>tame s s'; r' \<in> set (db_downloads (sg_db s'))\<rbrakk> \<Longrightarrow>
    \<exists>r \<in> set (db_downloads (sg_db s)). w_ID r' = w_ID r \<and> w_FileID r' = w_FileID r"
  unfolding tame_def tame_db_def by (metis follows_def)

lemma tame_disk: "tame s s' \<Longrightarrow> sg_target s' j = None \<or> sg_target s' j = sg_target s j"
  "tame s s' \<Longrightarrow> sg_part s' j = None \<or> sg_part s' j = sg_part s j"
  by (simp_all add: tame_def)

lemma tame_runs: "\<lbrakk>tame s s'; sg_runs s' j = Some w'\<rbrakk> \<Longrightarrow> \<exists>w. sg_runs s j = Some w \<and> tame_worker w w'"
  by (auto simp: tame_def tame_run_def split: option.splits) (metis (no_types, lifting) option.case(2) option.exhaust option.simps(4))

lemma tame_rows_of: "\<lbrakk>tame s s'; rows_of j fid s\<rbrakk> \<Longrightarrow> rows_of j fid s'"
  using tame_rows [of s s'] unfolding rows_of_def by metis

lemma tame_sound: "\<lbrakk>tame_worker w w'; p' = None \<or> p' = p; sound_worker bs p w\<rbrakk> \<Longrightarrow> sound_worker bs p' w'"
  by (auto simp: tame_worker_def sound_worker_def writing_def)

lemma tame_unused: "\<lbrakk>tame s s'; unused newID s\<rbrakk> \<Longrightarrow> unused newID s'"
  unfolding unused_def
proof (intro allI impI conjI)
  fix n
  assume t: "tame s s'" and u: "\<forall>n\<ge>sg_seq s. newID n \<notin> w_ID ` set (db_downloads (sg_db s)) \<and> sg_target s (newID n) = None \<and> sg_runs s (newID n) = None"
    and n: "sg_seq s' \<le> n"
  then have n': "sg_seq s \<le> n" by (simp add: tame_def)
  show "newID n \<notin> w_ID ` set (db_downloads (sg_db s'))" using tame_rows [OF t] u n' by (metis imageE imageI)
  show "sg_target s' (newID n) = None" using tame_disk(1) [OF t, of "newID n"] u n' by auto
  show "sg_runs s' (newID n) = None" using tame_runs [OF t, of "newID n"] u n' by (cases "sg_runs s' (newID n)") auto
qed

lemma tame_inv: assumes t: "tame s s'" and i: "stage_inv newID content s" shows "stage_inv newID content s'"
  unfolding stage_inv_def
proof (intro conjI allI impI ballI)
  show "unused newID s'" using tame_unused t i by (auto simp: stage_inv_def)
next
  fix j w' assume r: "sg_runs s' j = Some w'"
  obtain w where w: "sg_runs s j = Some w" "tame_worker w w'" using tame_runs [OF t r] by blast
  have k: "sound_worker (content (sw_fid w)) (sg_part s j) w" "rows_of j (sw_fid w) s" using i w(1) by (auto simp: stage_inv_def)
  have f: "sw_fid w' = sw_fid w" using w(2) by (simp add: tame_worker_def)
  show "sound_worker (content (sw_fid w')) (sg_part s' j) w'" unfolding f by (rule tame_sound [OF w(2) tame_disk(2) [OF t] k(1)])
  show "rows_of j (sw_fid w') s'" unfolding f by (rule tame_rows_of [OF t k(2)])
next
  fix r' assume r: "r' \<in> set (db_downloads (sg_db s'))"
  obtain r where r: "r \<in> set (db_downloads (sg_db s))" "w_ID r' = w_ID r" "w_FileID r' = w_FileID r" using tame_rows [OF t r] by blast
  then show "rows_of (w_ID r') (w_FileID r') s'" using tame_rows_of [OF t] i by (simp add: stage_inv_def)
  fix bs assume b: "sg_target s' (w_ID r') = Some bs"
  then have "sg_target s (w_ID r) = Some bs" using tame_disk(1) [OF t, of "w_ID r'"] r(2) by auto
  then show "bs = content (w_FileID r')" using i r(1,3) by (simp add: stage_inv_def)
qed

lemma inv_runs: "\<lbrakk>stage_inv newID content s; sg_runs s j = Some w\<rbrakk> \<Longrightarrow>
    sound_worker (content (sw_fid w)) (sg_part s j) w \<and> rows_of j (sw_fid w) s"
  by (simp add: stage_inv_def)

lemma rows_of_frame [simp]:
  "rows_of j fid (s\<lparr>sg_runs := r\<rparr>) = rows_of j fid s" "rows_of j fid (s\<lparr>sg_seq := n\<rparr>) = rows_of j fid s"
  "rows_of j fid (s\<lparr>sg_part := p\<rparr>) = rows_of j fid s" "rows_of j fid (s\<lparr>sg_target := p\<rparr>) = rows_of j fid s"
  by (simp_all add: rows_of_def)

lemma inv_start:
  assumes i: "stage_inv newID content s" and w: "sound_worker (content (sw_fid w)) (sg_part s j) w" "rows_of j (sw_fid w) s"
    and fresh: "\<And>n. sg_seq s \<le> n \<Longrightarrow> newID n \<noteq> j"
  shows "stage_inv newID content (s\<lparr>sg_runs := (sg_runs s)(j \<mapsto> w)\<rparr>)"
  using assms by (simp add: stage_inv_def unused_def)

lemma inv_schedule:
  assumes i: "stage_inv newID content s" and r: "rows_of j (f_ID f) s" and fresh: "\<And>n. sg_seq s \<le> n \<Longrightarrow> newID n \<noteq> j"
  shows "stage_inv newID content (scheduleStagedWorker j f s)"
  using i inv_start [OF i _ _ fresh, of "\<lparr>sw_phase = Scheduled, sw_cancelled = False, sw_fid = f_ID f, sw_size = f_Size f, sw_written = []\<rparr>"] r
  by (simp add: scheduleStagedWorker_def sound_worker_def writing_def split: option.split)

lemma inv_insert:
  assumes i: "stage_inv newID content s" and new: "w_ID job = newID (sg_seq s)" and inj: "inj newID"
    and s': "s' = s\<lparr>sg_seq := Suc (sg_seq s), sg_db := (sg_db s)\<lparr>db_downloads := db_downloads (sg_db s) @ [job]\<rparr>\<rparr>"
  shows "stage_inv newID content s'" "rows_of (w_ID job) (w_FileID job) s'"
proof -
  have u: "w_ID job \<notin> w_ID ` set (db_downloads (sg_db s))" "sg_target s (w_ID job) = None" "sg_runs s (w_ID job) = None"
    using i by (simp_all add: stage_inv_def unused_def new)
  have rows: "rows_of j fid s' \<longleftrightarrow> rows_of j fid s \<and> (w_ID job = j \<longrightarrow> w_FileID job = fid)" for j fid
    by (auto simp: s' rows_of_def)
  show r: "rows_of (w_ID job) (w_FileID job) s'" using u(1) unfolding rows by (auto simp: rows_of_def image_iff)
  have "newID n \<noteq> w_ID job" if "Suc (sg_seq s) \<le> n" for n using inj that new by (auto dest: injD)
  then have "unused newID s'" using i by (simp add: s' stage_inv_def unused_def)
  moreover have "rows_of j (sw_fid w) s'" if "sg_runs s j = Some w" for j w
    using inv_runs [OF i that] u(3) that by (cases "j = w_ID job") (simp_all add: rows)
  moreover have "rows_of (w_ID r) (w_FileID r) s'" if "r \<in> set (db_downloads (sg_db s))" for r
    using i u(1) that unfolding rows stage_inv_def by (metis imageI)
  ultimately show "stage_inv newID content s'"
    using i r u(2) unfolding stage_inv_def by (simp add: s')
qed

lemma InsertDownload_ok: "InsertDownload job d = (Inr u, d') \<Longrightarrow>
    \<exists>job'. w_ID job' = w_ID job \<and> w_FileID job' = w_FileID job \<and> d' = d\<lparr>db_downloads := db_downloads d @ [job']\<rparr> \<and>
      (\<forall>w \<in> set (db_downloads d). w_ID w \<noteq> w_ID job)"
  by (rule exI [where x = "job\<lparr>w_CreatedAt := db_now d, w_UpdatedAt := db_now d, w_StartedAt := 0,
             w_FinishedAt := 0, w_ExpiresAt := 0, w_LastUsedAt := db_now d\<rparr>"])
    (auto simp: InsertDownload_def list_ex_iff split: if_splits)

lemma InsertDownload_no: "InsertDownload job d = (Inl e, d') \<Longrightarrow> d' = d"
  by (auto simp: InsertDownload_def split: if_splits)

lemma inv_locked:
  assumes inj: "inj newID" and i: "stage_inv newID content s"
  shows "stage_inv newID content (snd (stage_locked newID uid f s))"
proof -
  obtain r s1 where m: "makeRoomFor (f_Size f) s = (r, s1)" by fastforce
  have i1: "stage_inv newID content s1" using tame_inv [OF tame_makeRoomFor i] m by (metis snd_conv)
  let ?job = "new_download (newID (sg_seq s1)) uid f" and ?s2 = "s1\<lparr>sg_seq := Suc (sg_seq s1)\<rparr>"
  have i2: "stage_inv newID content ?s2" using i1 by (simp add: stage_inv_def unused_def)
  have ok: "stage_inv newID content (scheduleStagedWorker (w_ID ?job) f s3)" if "stage_db (InsertDownload ?job) ?s2 = (Inr u, s3)" for u s3
  proof -
    have "\<exists>d. InsertDownload ?job (sg_db s1) = (Inr u, d) \<and> s3 = ?s2\<lparr>sg_db := d\<rparr>" using that by (simp add: stage_db_def split: prod.splits)
    then obtain job' where j: "w_ID job' = newID (sg_seq s1)" "w_FileID job' = f_ID f"
      "s3 = ?s2\<lparr>sg_db := (sg_db s1)\<lparr>db_downloads := db_downloads (sg_db s1) @ [job']\<rparr>\<rparr>"
      using InsertDownload_ok [of ?job "sg_db s1"] by (auto simp: new_download_def)
    have n: "newID n \<noteq> newID (sg_seq s1)" if "Suc (sg_seq s1) \<le> n" for n using inj that by (auto dest: injD)
    have "stage_inv newID content s3" "rows_of (newID (sg_seq s1)) (f_ID f) s3"
      using inv_insert [OF i1 j(1) inj, of s3] j by simp_all
    then have "stage_inv newID content (scheduleStagedWorker (newID (sg_seq s1)) f s3)"
      by (rule inv_schedule) (use n j(3) in simp)
    then show ?thesis by (simp add: new_download_def)
  qed
  have no: "stage_inv newID content s3" if "stage_db (InsertDownload ?job) ?s2 = (Inl e, s3)" for e s3
    using that i2 InsertDownload_no [of ?job "sg_db s1"] by (auto simp: stage_db_def split: prod.splits)
  show ?thesis
    using i i1 ok no by (auto simp: stage_locked_def m Let_def split: sum.split prod.split)
qed

lemma tame_seq: "tame s s' \<Longrightarrow> sg_seq s' = sg_seq s" by (simp add: tame_def)

lemma FileByID_ID: "FileByID fid d = Inr f \<Longrightarrow> f_ID f = fid"
  by (auto simp: FileByID_def query_row_def find_Some_iff split: option.splits)

lemma inv_Resume: assumes "stage_inv newID content s" shows "stage_inv newID content (ResumeStaged s)"
proof -
  let ?ws = "ResumableDownloads (sg_db s)"
  let ?f = "\<lambda>w s. case FileByID (w_FileID w) (sg_db s) of
       Inl _ \<Rightarrow> snd (stage_db (SetDownloadStatus (w_ID w) DownloadFailed ''the file this download referred to is gone'') s)
     | Inr f \<Rightarrow> scheduleStagedWorker (w_ID w) f s"
  have "stage_inv newID content (fold ?f ws t)"
    if "stage_inv newID content t" "\<forall>w \<in> set ws. rows_of (w_ID w) (w_FileID w) t \<and> (\<forall>n \<ge> sg_seq t. newID n \<noteq> w_ID w)" for ws and t :: "'a staging"
    using that
  proof (induction ws arbitrary: t)
    case (Cons w ws)
    show ?case
    proof (cases "FileByID (w_FileID w) (sg_db t)")
      case (Inl e)
      let ?t = "snd (stage_db (SetDownloadStatus (w_ID w) DownloadFailed ''the file this download referred to is gone'') t)"
      have t: "tame t ?t" by (rule tame_stage_db [OF tame_ended(2)])
      have "stage_inv newID content (fold ?f ws ?t)"
        by (rule Cons.IH [OF tame_inv [OF t Cons.prems(1)]]) (use Cons.prems(2) tame_rows_of [OF t] tame_seq [OF t] in auto)
      then show ?thesis using Inl by simp
    next
      case (Inr f)
      let ?t = "scheduleStagedWorker (w_ID w) f t"
      have same: "sg_db ?t = sg_db t" "sg_seq ?t = sg_seq t" by (simp_all add: scheduleStagedWorker_def split: option.split)
      have "stage_inv newID content ?t" by (rule inv_schedule [OF Cons.prems(1)]) (use Cons.prems(2) FileByID_ID [OF Inr] in auto)
      then have "stage_inv newID content (fold ?f ws ?t)"
        by (rule Cons.IH) (use Cons.prems(2) same in \<open>simp add: rows_of_def\<close>)
      then show ?thesis using Inr by simp
    qed
  qed simp
  note run = this
  have "set ?ws \<subseteq> set (db_downloads (sg_db s))" by (auto simp: ResumableDownloads_def)
  then show ?thesis
    unfolding ResumeStaged_def by (intro run assms) (use assms in \<open>auto simp: stage_inv_def unused_def\<close>)
qed

lemma tame_then:
  assumes "tame s t"
  shows "tame s (end_worker jid t)" "tame s (cleanup jid t)" "ph \<noteq> Copying \<Longrightarrow> ph \<noteq> Copied \<Longrightarrow> tame s (to_phase jid ph t)"
    "tame s (stage_fail jid w t)"
proof -
  show *: "tame s (end_worker jid t)" by (rule tame_trans [OF assms tame_end])
  show "tame s (cleanup jid t)" by (rule tame_trans [OF assms tame_cleanup])
  show **: "ph \<noteq> Copying \<Longrightarrow> ph \<noteq> Copied \<Longrightarrow> tame s (to_phase jid ph t)" for ph by (rule tame_trans [OF assms tame_phase])
  show "tame s (stage_fail jid w t)" using * ** by (simp add: stage_fail_def)
qed

text \<open>The steps of a worker that write bytes.\<close>

lemma inv_writing:
  assumes i: "stage_inv newID content s" and r: "sg_runs s j = Some w" and w': "sw_fid w' = sw_fid w" "sound_worker (content (sw_fid w)) p w'"
    and t: "tg = None \<or> tg = sg_target s j \<or> tg = Some (content (sw_fid w))"
  shows "stage_inv newID content (s\<lparr>sg_target := (sg_target s)(j := tg), sg_part := (sg_part s)(j := p), sg_runs := (sg_runs s)(j \<mapsto> w')\<rparr>)"
proof -
  have rows: "rows_of j (sw_fid w) s" using inv_runs [OF i r] by simp
  have n: "newID n \<noteq> j" if "sg_seq s \<le> n" for n using i r that by (auto simp: stage_inv_def unused_def)
  have tgt: "bs = content (w_FileID rw)" if "rw \<in> set (db_downloads (sg_db s))" "((sg_target s)(j := tg)) (w_ID rw) = Some bs" for rw bs
  proof (cases "w_ID rw = j")
    case True
    then have "w_FileID rw = sw_fid w" using rows that(1) by (simp add: rows_of_def)
    then show ?thesis using True t that i by (auto simp: stage_inv_def)
  next
    case False
    then show ?thesis using that i by (simp add: stage_inv_def)
  qed
  let ?s = "s\<lparr>sg_target := (sg_target s)(j := tg), sg_part := (sg_part s)(j := p), sg_runs := (sg_runs s)(j \<mapsto> w')\<rparr>"
  have "unused newID ?s" using i n by (simp add: stage_inv_def unused_def)
  moreover have "sound_worker (content (sw_fid v)) (sg_part ?s k) v \<and> rows_of k (sw_fid v) ?s" if "sg_runs ?s k = Some v" for k v
    using that inv_runs [OF i, of k v] w' rows by (cases "k = j") auto
  moreover have "rows_of (w_ID rw) (w_FileID rw) ?s" if "rw \<in> set (db_downloads (sg_db s))" for rw
    using i that by (simp add: stage_inv_def)
  ultimately show ?thesis using tgt unfolding stage_inv_def by simp
qed

lemma inv_copy:
  assumes i: "stage_inv newID content s" and r: "sg_runs s jid = Some w" and ph: "sw_phase w = Copying"
  shows "stage_inv newID content (copy_step (content (sw_fid w)) jid w ok n s)"
proof -
  let ?c = "content (sw_fid w)" and ?l = "length (sw_written w)"
  have k: "prefix (sw_written w) ?c" "sg_part s jid = None \<or> sg_part s jid = Some (sw_written w)"
    using inv_runs [OF i r] ph by (auto simp: sound_worker_def writing_def)
  have end1: "stage_inv newID content (end_worker jid (cleanup jid s))" "stage_inv newID content (to_phase jid Failing (cleanup jid s))"
    using tame_inv [OF _ i] by (simp_all add: tame_then tame_refl)
  have copied: "stage_inv newID content (to_phase jid Copied s)" if "sw_written w = ?c"
    using inv_writing [OF i r, of "w\<lparr>sw_phase := Copied\<rparr>" "sg_part s jid" "sg_target s jid"] k that r
    by (simp add: sound_worker_def writing_def to_phase_def set_worker_def)
  let ?more = "sw_written w @ take (Suc n) (drop ?l ?c)"
  have "prefix ?more ?c" using k(1) by (auto simp: prefix_def) (metis append_take_drop_id)
  then have "stage_inv newID content (set_worker jid (\<lambda>w. w\<lparr>sw_written := ?more\<rparr>)
      (s\<lparr>sg_part := (sg_part s)(jid := map_option (\<lambda>_. ?more) (sg_part s jid))\<rparr>))"
    using inv_writing [OF i r, of "w\<lparr>sw_written := ?more\<rparr>" "map_option (\<lambda>_. ?more) (sg_part s jid)" "sg_target s jid"] k(2) r ph
    by (auto simp: sound_worker_def writing_def set_worker_def)
  then show ?thesis using end1 copied by (simp add: copy_step_def Let_def)
qed

lemma inv_publish:
  assumes i: "stage_inv newID content s" and r: "sg_runs s jid = Some w" and ph: "sw_phase w = Copied"
  shows "stage_inv newID content (publish_step jid w ok s)"
proof -
  have k: "sw_written w = content (sw_fid w)" "sg_part s jid = None \<or> sg_part s jid = Some (sw_written w)"
    using inv_runs [OF i r] ph by (auto simp: sound_worker_def writing_def)
  have no: "stage_inv newID content (stage_fail jid w (cleanup jid s))" by (rule tame_inv [OF tame_then(4) [OF tame_cleanup] i])
  have "stage_inv newID content (to_phase jid Published (s\<lparr>sg_target := (sg_target s)(jid := Some bs), sg_part := (sg_part s)(jid := None)\<rparr>))"
    if "sg_part s jid = Some bs" for bs
    using inv_writing [OF i r, of "w\<lparr>sw_phase := Published\<rparr>" None "Some bs"] k that r
    by (simp add: sound_worker_def writing_def to_phase_def set_worker_def)
  then show ?thesis using no by (simp add: publish_step_def split: option.split)
qed

lemma tame_run_step:
  assumes "sg_runs s jid = Some w" "sw_phase w \<notin> {Placed, Copying, Copied}"
  shows "tame s (run_step content path jid ok n s)"
proof -
  have 1: "tame s (snd (stage_db (SetDownloadStatusIf jid st e sts) s))" if "st \<in> dead \<or> set sts \<inter> dead = {}" for st e sts
    by (rule tame_stage_db [OF tame_statements(2) [OF that]])
  have 2: "tame s (snd (stage_db (SetDownloadCache jid p ex) s))" for p ex by (rule tame_stage_db [OF tame_statements(3)])
  show ?thesis
    using assms by (cases "sw_phase w") (simp_all add: run_step_def case_prod_unfold tame_then tame_refl 1 2 split: sum.split)
qed

lemma inv_run_step: assumes i: "stage_inv newID content s" shows "stage_inv newID content (run_step content path jid ok n s)"
proof (cases "sg_runs s jid")
  case (Some w)
  note r = this
  have placed: "stage_inv newID content (set_worker jid (\<lambda>w. w\<lparr>sw_phase := Copying, sw_written := []\<rparr>)
      (s\<lparr>sg_target := (sg_target s)(jid := None), sg_part := (sg_part s)(jid := Some [])\<rparr>))"
    using inv_writing [OF i r, of "w\<lparr>sw_phase := Copying, sw_written := []\<rparr>" "Some []" None] r
    by (simp add: sound_worker_def writing_def set_worker_def)
  consider "sw_phase w = Placed" | "sw_phase w = Copying" | "sw_phase w = Copied" | "sw_phase w \<notin> {Placed, Copying, Copied}" by blast
  then show ?thesis
  proof cases
    case 1
    then show ?thesis using r placed tame_inv [OF tame_then(4) [OF tame_cleanup] i] by (simp add: run_step_def)
  next
    case 2
    then show ?thesis using r inv_copy [OF i r] by (simp add: run_step_def)
  next
    case 3
    then show ?thesis using r inv_publish [OF i r] by (simp add: run_step_def)
  next
    case 4
    then show ?thesis using tame_inv [OF tame_run_step [OF r] i] by blast
  qed
qed (use i in \<open>simp add: run_step_def\<close>)

text \<open>The only request that revives a job is the report of a client; it does not touch files, workers or ids.\<close>

lemma inv_same_rows:
  assumes i: "stage_inv newID content s"
    and frame: "sg_target s' = sg_target s" "sg_part s' = sg_part s" "sg_runs s' = sg_runs s" "sg_seq s' = sg_seq s"
    and same: "\<And>r'. r' \<in> set (db_downloads (sg_db s')) \<Longrightarrow> \<exists>r \<in> set (db_downloads (sg_db s)). w_ID r' = w_ID r \<and> w_FileID r' = w_FileID r"
  shows "stage_inv newID content s'"
proof -
  have rows: "rows_of j fid s'" if "rows_of j fid s" for j fid
    using that same unfolding rows_of_def by metis
  have "w_ID ` set (db_downloads (sg_db s')) \<subseteq> w_ID ` set (db_downloads (sg_db s))" using same by fastforce
  then have u: "unused newID s'" using i unfolding stage_inv_def unused_def frame by blast
  have "rows_of (w_ID r') (w_FileID r') s' \<and> (\<forall>bs. sg_target s (w_ID r') = Some bs \<longrightarrow> bs = content (w_FileID r'))"
    if r': "r' \<in> set (db_downloads (sg_db s'))" for r'
  proof -
    obtain r where "r \<in> set (db_downloads (sg_db s))" "w_ID r' = w_ID r" "w_FileID r' = w_FileID r" using same [OF r'] by blast
    then show ?thesis using rows i by (simp add: stage_inv_def)
  qed
  then show ?thesis using u i rows by (simp add: stage_inv_def frame)
qed

lemma inv_status: assumes "stage_inv newID content s" shows "stage_inv newID content (snd (stage_db (SetDownloadStatus jid st e) s))"
  by (rule inv_same_rows [OF assms])
    (auto simp: stage_db_def SetDownloadStatus_def setDownloadStatus_def Let_def set_update_where status_change_frame split: prod.splits)

lemma inv_report_status:
  assumes "stage_inv newID content s" shows "stage_inv newID content (snd (report_status jid st e s))"
proof -
  have "stage_inv newID content s1" if "stage_db (SetDownloadStatus jid x e) s = (r, s1)" for x r s1
    using inv_status [OF assms, of jid x e] that by simp
  then show ?thesis using assms by (auto simp: report_status_def split: option.split sum.split prod.split)
qed

lemma inv_report:
  assumes "stage_inv newID content s" shows "stage_inv newID content (snd (handleDownloadProgress access uid admin jid n st e s))"
proof -
  have "stage_inv newID content (s\<lparr>sg_db := SetDownloadProgress j m (sg_db s)\<rparr>)" for j m
    by (rule tame_inv [OF tame_db_step [OF tame_statements(6)] assms])
  then have *: "stage_inv newID content (if n > 0 then s\<lparr>sg_db := SetDownloadProgress j m (sg_db s)\<rparr> else s)" for j m
    using assms by simp
  have "stage_inv newID content s2"
    if "report_status j st e (if n > 0 then s\<lparr>sg_db := SetDownloadProgress j m (sg_db s)\<rparr> else s) = (r, s2)" for j m r s2
    using inv_report_status [OF *, of j st e j m] that by simp
  then show ?thesis using assms by (auto simp: handleDownloadProgress_def Let_def split: sum.split prod.split)
qed

lemma inv_direct:
  assumes inj: "inj newID" and i: "stage_inv newID content s"
  shows "stage_inv newID content (snd (start_direct newID uid mode f s))"
proof -
  let ?job = "(new_download (newID (sg_seq s)) uid f)\<lparr>w_Mode := mode, w_Status := DownloadRunning\<rparr>" and ?s1 = "s\<lparr>sg_seq := Suc (sg_seq s)\<rparr>"
  have i1: "stage_inv newID content ?s1" using i by (simp add: stage_inv_def unused_def)
  have "stage_inv newID content s2" if "stage_db (InsertDownload ?job) ?s1 = (r, s2)" for r s2
  proof (cases r)
    case (Inl e)
    then have "s2 = ?s1" using that InsertDownload_no [of ?job "sg_db s"] by (auto simp: stage_db_def split: prod.splits)
    then show ?thesis using i1 by simp
  next
    case (Inr u)
    then have "\<exists>d. InsertDownload ?job (sg_db s) = (Inr u, d) \<and> s2 = ?s1\<lparr>sg_db := d\<rparr>" using that by (simp add: stage_db_def split: prod.splits)
    then obtain job' where "w_ID job' = newID (sg_seq s)" "s2 = ?s1\<lparr>sg_db := (sg_db s)\<lparr>db_downloads := db_downloads (sg_db s) @ [job']\<rparr>\<rparr>"
      using InsertDownload_ok [of ?job "sg_db s"] by (auto simp: new_download_def)
    then show ?thesis using inv_insert(1) [OF i _ inj] by simp
  qed
  note ins = this
  then have "stage_inv newID content s3"
    if "stage_db (InsertDownload ?job) ?s1 = (r, s2)" "stage_db (SetDownloadStatus j DownloadRunning []) s2 = (r', s3)" for r s2 r' s3 j
    using inv_status [OF ins [OF that(1)]] that(2) by (metis snd_conv)
  then show ?thesis using ins by (auto simp: start_direct_def Let_def split: sum.split prod.split)
qed

lemma tame_handlers: "tame s (snd (handleStagedFile access uid admin jid s))" "tame s (cancel_direct access uid admin jid s)"
proof -
  have "tame s s1" if "StagedFile j s = (r, s1)" for j r s1 using tame_StagedFile [of s j] that by simp
  then show "tame s (snd (handleStagedFile access uid admin jid s))"
    by (auto simp: handleStagedFile_def tame_refl split: sum.split prod.split option.split)
  show "tame s (cancel_direct access uid admin jid s)"
    by (auto simp: cancel_direct_def intro!: tame_refl tame_stage_db tame_statements(2) split: sum.split)
qed

lemma inv_step: assumes i: "stage_inv newID content s" and inj: "inj newID" shows "stage_inv newID content (stage_step newID content path e s)"
proof (cases e)
  case ERestart
  then show ?thesis using tame_inv [OF _ i] by (simp add: tame_def tame_db_refl tame_run_None)
next
  case (ETick n)
  moreover have "tame_db d (d\<lparr>db_now := t\<rparr>)" for d t by (auto simp: tame_db_def intro: follows_refl)
  ultimately show ?thesis using tame_inv [OF tame_db_step i] ETick by simp
qed (use i inj in \<open>auto intro: tame_inv inv_locked inv_Resume inv_run_step tame_lookup tame_cancel_start tame_cancel_next tame_StagedFile
    tame_SweepCache tame_Purge tame_handlers inv_report inv_direct\<close>)

end
