(* ===== verification/StagingProps.thy ===== *)
theory StagingProps
  imports StagingLaws
begin

text \<open>
  The staging cache hands out complete copies only, under every interleaving of workers and requests, a job
  that has ended stays ended, and room is made by evicting the least recently used copies, no more than needed.
\<close>

section \<open>Complete copies only\<close>

interpretation cache: machine "stage_step newID content path" "\<lambda>s. inj newID \<and> stage_inv newID content s" for newID content path
  by unfold_locales (simp add: inv_step)

definition fresh_cache :: "'b staging \<Rightarrow> bool" where
  "fresh_cache s \<longleftrightarrow> db_downloads (sg_db s) = [] \<and> sg_target s = (\<lambda>_. None) \<and> sg_runs s = (\<lambda>_. None)"

lemma seq_fresh_inv: "fresh_cache s \<Longrightarrow> stage_inv newID content s"
  by (simp add: fresh_cache_def stage_inv_def unused_def)

lemma DownloadByID_InrE: "DownloadByID jid d = Inr w \<Longrightarrow> w \<in> set (db_downloads d) \<and> w_ID w = jid"
  by (auto simp: DownloadByID_def query_row_def find_Some_iff split: option.splits)

lemma StagedFile_InrE: "StagedFile jid s = (Inr w, s') \<Longrightarrow>
    DownloadByID jid (sg_db s) = Inr w \<and> s' = s\<lparr>sg_db := TouchDownload (w_ID w) (sg_db s)\<rparr>"
  by (auto simp: StagedFile_def Let_def split: sum.splits if_splits)

lemma handleStagedFile_InrE:
  assumes "handleStagedFile access uid admin jid s = (Inr (w, bytes), s')"
  shows "w \<in> set (db_downloads (sg_db s)) \<and> sg_target s (w_ID w) = Some bytes"
proof -
  obtain j s1 where j: "StagedFile j s = (Inr w, s1)" "sg_target s1 (w_ID w) = Some bytes"
    using assms by (auto simp: handleStagedFile_def split: sum.splits prod.splits option.splits)
  then show ?thesis using StagedFile_InrE [OF j(1)] DownloadByID_InrE by auto
qed

text \<open>C22: however the workers that stage copies, requests, reports, cancellations, sweeps, purges and restarts interleave, a
request for a staged copy that is answered is answered with exactly the bytes of its file: no partial, stale or foreign copy is
ever served.\<close>

theorem staged_copy_complete:
  assumes "inj newID" and "fresh_cache s"
    and "handleStagedFile access uid admin jid (fold (stage_step newID content path) es s) = (Inr (w, bytes), s')"
  shows "bytes = content (w_FileID w)"
proof -
  have "inj newID \<and> stage_inv newID content (fold (stage_step newID content path) es s)"
    by (rule cache.inv_run) (use assms(1) seq_fresh_inv [OF assms(2)] in simp)
  then show ?thesis using handleStagedFile_InrE [OF assms(3)] by (simp add: stage_inv_def)
qed

section \<open>A job that has ended\<close>

definition ended :: "string \<Rightarrow> db \<Rightarrow> bool" where
  "ended jid d \<longleftrightarrow> (\<forall>w \<in> set (db_downloads d). w_ID w = jid \<longrightarrow> w_Status w \<in> dead)"

lemma tame_db_ended: "\<lbrakk>tame_db d d'; ended jid d\<rbrakk> \<Longrightarrow> ended jid d'"
  unfolding tame_db_def ended_def follows_def by metis

lemma tame_keeps_ended: "\<lbrakk>tame s s'; ended jid (sg_db s)\<rbrakk> \<Longrightarrow> ended jid (sg_db s')"
  unfolding tame_def using tame_db_ended by blast

lemma ended_insert:
  assumes "stage_db (InsertDownload job) s = (r, s')" "ended jid (sg_db s)" "w_ID job \<noteq> jid"
  shows "ended jid (sg_db s') \<and> sg_seq s' = sg_seq s"
  using assms by (auto simp: stage_db_def InsertDownload_def ended_def split: if_splits)

lemma schedule_frame: "sg_db (scheduleStagedWorker j f s) = sg_db s" "sg_seq (scheduleStagedWorker j f s) = sg_seq s"
  by (simp_all add: scheduleStagedWorker_def split: option.split)

lemma ended_locked:
  assumes e: "ended jid (sg_db s)" and new: "\<forall>n \<ge> sg_seq s. newID n \<noteq> jid"
  shows "ended jid (sg_db (snd (stage_locked newID uid f s))) \<and> sg_seq s \<le> sg_seq (snd (stage_locked newID uid f s))"
proof -
  obtain r s1 where m: "makeRoomFor (f_Size f) s = (r, s1)" by fastforce
  have t: "ended jid (sg_db s1)" "sg_seq s1 = sg_seq s"
    using tame_makeRoomFor [of s "f_Size f"] m e tame_keeps_ended tame_seq by (metis snd_conv)+
  let ?job = "new_download (newID (sg_seq s1)) uid f" and ?s2 = "s1\<lparr>sg_seq := Suc (sg_seq s1)\<rparr>"
  have "ended jid (sg_db s3) \<and> sg_seq s \<le> sg_seq s3" if "stage_db (InsertDownload ?job) ?s2 = (x, s3)" for x s3
    using ended_insert [OF that, of jid] t new by (simp add: new_download_def)
  then show ?thesis using e t by (auto simp: stage_locked_def m Let_def schedule_frame split: sum.split prod.split)
qed

lemma tame_direct_status: "w_ID job \<noteq> jid \<Longrightarrow> ended jid (sg_db s) \<Longrightarrow> stage_db (SetDownloadStatus (w_ID job) st e) s = (r, s') \<Longrightarrow>
    ended jid (sg_db s') \<and> sg_seq s' = sg_seq s"
  by (auto simp: stage_db_def SetDownloadStatus_def setDownloadStatus_def Let_def ended_def set_update_where status_change_frame
      split: prod.splits)

lemma ended_direct:
  assumes e: "ended jid (sg_db s)" and new: "\<forall>n \<ge> sg_seq s. newID n \<noteq> jid"
  shows "ended jid (sg_db (snd (start_direct newID uid mode f s))) \<and> sg_seq s \<le> sg_seq (snd (start_direct newID uid mode f s))"
proof -
  let ?job = "(new_download (newID (sg_seq s)) uid f)\<lparr>w_Mode := mode, w_Status := DownloadRunning\<rparr>" and ?s1 = "s\<lparr>sg_seq := Suc (sg_seq s)\<rparr>"
  have j: "w_ID ?job \<noteq> jid" using new by (simp add: new_download_def)
  have 1: "ended jid (sg_db s2) \<and> sg_seq s \<le> sg_seq s2" if "stage_db (InsertDownload ?job) ?s1 = (r, s2)" for r s2
    using ended_insert [OF that, of jid] e j by simp
  have 2: "ended jid (sg_db s3) \<and> sg_seq s \<le> sg_seq s3"
    if "stage_db (InsertDownload ?job) ?s1 = (r, s2)" "stage_db (SetDownloadStatus (w_ID ?job) DownloadRunning []) s2 = (r', s3)" for r s2 r' s3
    using tame_direct_status [OF j _ that(2)] 1 [OF that(1)] by simp
  show ?thesis using 1 2 unfolding start_direct_def Let_def by (auto split: sum.split prod.split)
qed

lemma ended_Resume: "ended jid (sg_db s) \<Longrightarrow> ended jid (sg_db (ResumeStaged s)) \<and> sg_seq (ResumeStaged s) = sg_seq s"
proof -
  let ?f = "\<lambda>w s. case FileByID (w_FileID w) (sg_db s) of
       Inl _ \<Rightarrow> snd (stage_db (SetDownloadStatus (w_ID w) DownloadFailed ''the file this download referred to is gone'') s)
     | Inr f \<Rightarrow> scheduleStagedWorker (w_ID w) f s"
  have step: "ended jid (sg_db (?f w s)) \<and> sg_seq (?f w s) = sg_seq s" if "ended jid (sg_db s)" for w and s :: "'a staging"
  proof -
    have t: "tame s (snd (stage_db (SetDownloadStatus (w_ID w) DownloadFailed ''the file this download referred to is gone'') s))"
      by (rule tame_stage_db [OF tame_ended(2)])
    show ?thesis using that tame_keeps_ended [OF t] tame_seq [OF t] by (simp add: schedule_frame split: sum.split)
  qed
  have "ended jid (sg_db (fold ?f ws s)) \<and> sg_seq (fold ?f ws s) = sg_seq s" if "ended jid (sg_db s)" for ws and s :: "'a staging"
    using that by (induction ws arbitrary: s) (simp, use step in force)
  then show "ended jid (sg_db s) \<Longrightarrow> ended jid (sg_db (ResumeStaged s)) \<and> sg_seq (ResumeStaged s) = sg_seq s"
    unfolding ResumeStaged_def by blast
qed

lemma ended_run: "ended jid (sg_db s) \<Longrightarrow>
    ended jid (sg_db (run_step content path j ok n s)) \<and> sg_seq (run_step content path j ok n s) = sg_seq s"
proof (cases "sg_runs s j")
  case (Some w)
  note r = this
  assume e: "ended jid (sg_db s)"
  show ?thesis
  proof (cases "sw_phase w \<in> {Placed, Copying, Copied}")
    case True
    then show ?thesis using r e
      by (auto simp: run_step_def copy_step_def publish_step_def stage_fail_def set_worker_def to_phase_def end_worker_def cleanup_def Let_def
          split: option.split)
  next
    case False
    then show ?thesis using tame_keeps_ended [OF tame_run_step [OF r False] e] tame_seq [OF tame_run_step [OF r False]] by simp
  qed
qed (simp add: run_step_def)

fun is_report :: "stage_event \<Rightarrow> bool" where
  "is_report (EReport _ _ _ _ _ _ _) = True"
| "is_report _ = False"

lemma ended_step:
  assumes e: "ended jid (sg_db s)" and new: "\<forall>n \<ge> sg_seq s. newID n \<noteq> jid" and no: "\<not> is_report ev"
  shows "ended jid (sg_db (stage_step newID content path ev s)) \<and> sg_seq s \<le> sg_seq (stage_step newID content path ev s)"
proof -
  have t: "ended jid (sg_db s') \<and> sg_seq s \<le> sg_seq s'" if "tame s s'" for s'
    using tame_keeps_ended [OF that e] tame_seq [OF that] by simp
  show ?thesis
  proof (cases ev)
    case (ETick n)
    then show ?thesis using e by (simp add: ended_def)
  qed (use e no in \<open>simp_all add: t tame_lookup tame_cancel_start tame_cancel_next tame_SweepCache tame_Purge tame_handlers
      ended_locked [OF e new] ended_direct [OF e new] ended_Resume [OF e] ended_run [OF e]\<close>)
qed

interpretation ended_jobs: machine "\<lambda>ev s. if is_report ev then s else stage_step newID content path ev s"
    "\<lambda>s. ended jid (sg_db s) \<and> (\<forall>n \<ge> sg_seq s. newID n \<noteq> jid)" for newID content path jid
proof unfold_locales
  fix s :: "'a staging" and ev
  assume e: "ended jid (sg_db s) \<and> (\<forall>n \<ge> sg_seq s. newID n \<noteq> jid)"
  show "ended jid (sg_db (if is_report ev then s else stage_step newID content path ev s)) \<and>
      (\<forall>n \<ge> sg_seq (if is_report ev then s else stage_step newID content path ev s). newID n \<noteq> jid)"
    using ended_step [of jid s newID ev] e by (auto dest: le_trans)
qed

lemma fold_no_reports: "(\<forall>ev \<in> set es. \<not> is_report ev) \<Longrightarrow>
    fold (\<lambda>ev s. if is_report ev then s else stage_step newID content path ev s) es s = fold (stage_step newID content path) es s"
  by (induction es arbitrary: s) simp_all

text \<open>C24: a staged download that has failed, was cancelled or has expired stays so: whatever workers, requests, sweeps and
restarts do afterwards in whatever order, its row, as long as there is one, never becomes pending, running or ready again.  Only a
client that reports a status for it (\<open>handleDownloadProgress\<close>) can change that, see \<open>report_revives_cancelled\<close>.\<close>

theorem ended_download_stays_ended:
  assumes "\<forall>w \<in> set (db_downloads (sg_db s)). w_ID w = jid \<longrightarrow> w_Status w \<in> {DownloadFailed, DownloadCancelled, DownloadExpired}"
    and "\<forall>n \<ge> sg_seq s. newID n \<noteq> jid" and "\<forall>ev \<in> set es. \<not> is_report ev"
    and "w \<in> set (db_downloads (sg_db (fold (stage_step newID content path) es s)))" and "w_ID w = jid"
  shows "w_Status w \<in> {DownloadFailed, DownloadCancelled, DownloadExpired}"
proof -
  let ?f = "\<lambda>ev s. if is_report ev then s else stage_step newID content path ev s"
  have "ended jid (sg_db (fold ?f es s)) \<and> (\<forall>n \<ge> sg_seq (fold ?f es s). newID n \<noteq> jid)"
    by (rule ended_jobs.inv_run) (use assms(1,2) in \<open>simp add: ended_def\<close>)
  then show ?thesis using assms(4,5) unfolding fold_no_reports [OF assms(3)] ended_def by blast
qed

section \<open>Eviction\<close>

definition sizes :: "DownloadJob list \<Rightarrow> int" where
  "sizes ws = sum_list (map w_TotalSize ws)"

lemma sizes_simps [simp]: "sizes [] = 0" "sizes (w # ws) = w_TotalSize w + sizes ws" "sizes (vs @ ws) = sizes vs + sizes ws"
  by (simp_all add: sizes_def)

lemma sizes_nonneg: "(\<forall>w \<in> set ws. 0 \<le> w_TotalSize w) \<Longrightarrow> 0 \<le> sizes ws"
  by (induction ws) auto

text \<open>What is left after evicting, and the order in which it happened: each victim was evicted while there was no room.\<close>

definition evicted :: "int \<Rightarrow> DownloadJob list \<Rightarrow> int \<Rightarrow> DownloadJob list \<Rightarrow> DownloadJob list \<Rightarrow> bool" where
  "evicted room cs used vs rest \<longleftrightarrow> cs = vs @ rest \<and> (\<forall>us v. prefix (us @ [v]) vs \<longrightarrow> used - sizes us > room) \<and>
     (rest \<noteq> [] \<longrightarrow> used - sizes vs \<le> room)"

lemma evicted_Cons: "\<lbrakk>used > room; evicted room cs (used - w_TotalSize c) vs rest\<rbrakk> \<Longrightarrow> evicted room (c # cs) used (c # vs) rest"
  unfolding evicted_def by (auto simp: prefix_Cons append_eq_Cons_conv algebra_simps)

lemma delete_row: "w \<in> set (db_downloads (sg_db s)) \<Longrightarrow>
    \<exists>s'. stage_db (DeleteDownload (w_ID w)) (removeStagedFile w s) = (Inr (), s') \<and>
      db_downloads (sg_db s') = filter (\<lambda>r. w_ID r \<noteq> w_ID w) (db_downloads (sg_db s))"
  by (auto simp: stage_db_def DeleteDownload_def affectedOne_def removeStagedFile_def list_ex_iff)

lemma evict_spec:
  assumes "set cs \<subseteq> set (db_downloads (sg_db s))" "distinct (map w_ID cs)" "\<forall>c \<in> set cs. 0 \<le> w_TotalSize c"
    and "sizes cs \<le> used" "0 \<le> need" "used + need \<le> 2 ^ 63 - 1"
    and "evict limit need cs used s = (used', s')"
  shows "\<exists>vs rest. evicted (limit - need) cs used vs rest \<and> used' = used - sizes vs \<and>
    db_downloads (sg_db s') = filter (\<lambda>r. w_ID r \<notin> w_ID ` set vs) (db_downloads (sg_db s))"
  using assms
proof (induction cs arbitrary: used s)
  case Nil
  then show ?case by (intro exI [where x = "[]"]) (simp add: evicted_def)
next
  case (Cons c cs)
  have nn: "0 \<le> sizes cs" "0 \<le> w_TotalSize c" using Cons.prems(3) sizes_nonneg [of cs] by simp_all
  then have range: "0 \<le> used - w_TotalSize c" "w_TotalSize c \<le> used" using Cons.prems(4) by simp_all
  have w: "wrap64 (used + need) = used + need" "wrap64 (used - w_TotalSize c) = used - w_TotalSize c"
    using Cons.prems(5,6) nn range by (auto intro!: wrap64_id simp: in64_def)
  show ?case
  proof (cases "used + need \<le> limit")
    case True
    then show ?thesis using Cons.prems(7)
      by (intro exI [where x = "[]"] exI [where x = "c # cs"]) (simp add: w evicted_def)
  next
    case False
    obtain s1 where d: "stage_db (DeleteDownload (w_ID c)) (removeStagedFile c s) = (Inr (), s1)"
      and rows: "db_downloads (sg_db s1) = filter (\<lambda>r. w_ID r \<noteq> w_ID c) (db_downloads (sg_db s))"
      using delete_row [of c s] Cons.prems(1) by auto
    have e: "evict limit need cs (used - w_TotalSize c) s1 = (used', s')"
      using Cons.prems(7) False range by (simp add: w d Let_def)
    have sub: "set cs \<subseteq> set (db_downloads (sg_db s1))" using Cons.prems(1,2) by (auto simp: rows image_iff)
    obtain vs rest where v: "evicted (limit - need) cs (used - w_TotalSize c) vs rest" "used' = used - w_TotalSize c - sizes vs"
      "db_downloads (sg_db s') = filter (\<lambda>r. w_ID r \<notin> w_ID ` set vs) (db_downloads (sg_db s1))"
      using Cons.IH [OF sub _ _ _ _ _ e] Cons.prems(2-6) nn by auto
    have "evicted (limit - need) (c # cs) used (c # vs) rest" by (rule evicted_Cons [OF _ v(1)]) (use False in simp)
    then show ?thesis using v(2,3) rows by (intro exI [where x = "c # vs"] exI [where x = rest]) (simp add: conj_commute)
  qed
qed

lemma sizes_filter: "sizes (filter P ws) = sizes (filter (\<lambda>w. P w \<and> Q w) ws) + sizes (filter (\<lambda>w. P w \<and> \<not> Q w) ws)"
  by (induction ws) auto

lemma sizes_set: "distinct ws \<Longrightarrow> sizes ws = sum w_TotalSize (set ws)"
  by (simp add: sizes_def sum_list_distinct_conv_sum_set)

lemma CacheUsage_sizes: "fst (CacheUsage d) = sizes (filter (\<lambda>w. is_active w \<or> is_evictable w) (db_downloads d))"
  by (simp add: CacheUsage_def sizes_def Let_def)

lemma Evictable_set: "set (EvictableDownloads d) = {w \<in> set (db_downloads d). is_evictable w}"
  by (auto simp: EvictableDownloads_def)

lemma Evictable_distinct: "distinct (map w_ID (db_downloads d)) \<Longrightarrow> distinct (map w_ID (EvictableDownloads d))"
  by (auto simp: EvictableDownloads_def distinct_map intro: inj_on_subset)

lemma evicted_usage:
  assumes d: "distinct (map w_ID (db_downloads d))" and v: "EvictableDownloads d = vs @ rest"
    and d': "db_downloads d' = filter (\<lambda>r. w_ID r \<notin> w_ID ` set vs) (db_downloads d)"
  shows "fst (CacheUsage d') = fst (CacheUsage d) - sizes vs"
proof -
  let ?A = "\<lambda>w. is_active w \<or> is_evictable w" and ?V = "\<lambda>w. w_ID w \<in> w_ID ` set vs"
  have sub: "set vs \<subseteq> {w \<in> set (db_downloads d). is_evictable w}" using Evictable_set [of d] v by auto
  have inj: "inj_on w_ID (set (db_downloads d))" and dist: "distinct (db_downloads d)" using d by (auto simp: distinct_map)
  have "set (filter (\<lambda>w. ?A w \<and> ?V w) (db_downloads d)) = set vs"
    using sub inj by (auto dest: inj_onD)
  moreover have "distinct vs" using Evictable_distinct [OF d] v by (simp add: distinct_map)
  ultimately have "sizes (filter (\<lambda>w. ?A w \<and> ?V w) (db_downloads d)) = sizes vs"
    using dist by (simp add: sizes_set)
  then show ?thesis using sizes_filter [of ?A "db_downloads d" ?V]
    unfolding CacheUsage_sizes d' filter_filter by (simp add: conj_commute)
qed

lemma evictable_fits: "\<lbrakk>distinct (map w_ID (db_downloads d)); \<forall>w \<in> set (db_downloads d). 0 \<le> w_TotalSize w\<rbrakk> \<Longrightarrow>
    sizes (EvictableDownloads d) \<le> fst (CacheUsage d)"
proof -
  assume d: "distinct (map w_ID (db_downloads d))" and nn: "\<forall>w \<in> set (db_downloads d). 0 \<le> w_TotalSize w"
  let ?d' = "d\<lparr>db_downloads := filter (\<lambda>r. w_ID r \<notin> w_ID ` set (EvictableDownloads d)) (db_downloads d)\<rparr>"
  have "fst (CacheUsage ?d') = fst (CacheUsage d) - sizes (EvictableDownloads d)"
    by (rule evicted_usage [OF d, where rest = "[]"]) simp_all
  moreover have "0 \<le> fst (CacheUsage ?d')" unfolding CacheUsage_sizes using nn by (intro sizes_nonneg) auto
  ultimately show ?thesis by simp
qed

text \<open>C23: room in the cache is made by deleting the copies used least recently, and no more of them than needed: the
victims are a prefix of the evictable copies in the order of their last use, each was deleted while the new file did not fit, the
request is admitted exactly if the file fits afterwards, and if it is refused there was nothing left to evict.\<close>

theorem makeRoomFor_evicts_lru:
  assumes "makeRoomFor need s = (r, s')" and "0 < sg_limit s" and "distinct (map w_ID (db_downloads (sg_db s)))"
    and "\<forall>w \<in> set (db_downloads (sg_db s)). 0 \<le> w_TotalSize w" and "0 \<le> need"
    and "fst (CacheUsage (sg_db s)) + need \<le> 2 ^ 63 - 1"
  shows "\<exists>vs rest. EvictableDownloads (sg_db s) = vs @ rest \<and>
    db_downloads (sg_db s') = filter (\<lambda>w. w_ID w \<notin> w_ID ` set vs) (db_downloads (sg_db s)) \<and>
    (\<forall>us v. prefix (us @ [v]) vs \<longrightarrow> fst (CacheUsage (sg_db s)) - sizes us + need > sg_limit s) \<and>
    (r = Inr () \<longleftrightarrow> fst (CacheUsage (sg_db s')) + need \<le> sg_limit s) \<and>
    (r \<noteq> Inr () \<longrightarrow> rest = [])"
proof -
  let ?used = "fst (CacheUsage (sg_db s))" and ?cs = "EvictableDownloads (sg_db s)"
  have fits: "0 \<le> sizes ?cs" "sizes ?cs \<le> ?used"
    using assms(4) evictable_fits [OF assms(3,4)] by (auto intro!: sizes_nonneg simp: Evictable_set)
  then have w: "wrap64 (?used + need) = ?used + need" using assms(5,6) by (intro wrap64_id) (simp add: in64_def)
  show ?thesis
  proof (cases "?used + need \<le> sg_limit s")
    case True
    then have "r = Inr ()" "s' = s" using assms(1,2) w by (simp_all add: makeRoomFor_def Let_def)
    then show ?thesis using True by (intro exI [where x = "[]"] exI [where x = ?cs]) simp
  next
    case False
    obtain used' where e: "evict (sg_limit s) need ?cs ?used s = (used', s')"
      and r: "r = (if wrap64 (used' + need) > sg_limit s then Inl ErrCacheFull else Inr ())"
      using assms(1,2) False w by (auto simp: makeRoomFor_def Let_def split: prod.splits)
    have "\<exists>vs rest. evicted (sg_limit s - need) ?cs ?used vs rest \<and> used' = ?used - sizes vs \<and>
        db_downloads (sg_db s') = filter (\<lambda>r. w_ID r \<notin> w_ID ` set vs) (db_downloads (sg_db s))"
      by (rule evict_spec [OF _ Evictable_distinct [OF assms(3)] _ fits(2) assms(5,6) e]) (use assms(4) in \<open>auto simp: Evictable_set\<close>)
    then obtain vs rest where v: "evicted (sg_limit s - need) ?cs ?used vs rest" "used' = ?used - sizes vs"
      and rows: "db_downloads (sg_db s') = filter (\<lambda>r. w_ID r \<notin> w_ID ` set vs) (db_downloads (sg_db s))" by blast
    have split: "?cs = vs @ rest" using v(1) by (simp add: evicted_def)
    have u: "used' = fst (CacheUsage (sg_db s'))" using evicted_usage [OF assms(3) split rows] v(2) by simp
    have "0 \<le> sizes vs" "0 \<le> sizes rest" using assms(4) split Evictable_set [of "sg_db s"] by (auto intro!: sizes_nonneg)
    then have "wrap64 (used' + need) = used' + need" using fits split v(2) assms(5,6) by (intro wrap64_id) (simp add: in64_def)
    then show ?thesis
      using r v(1) rows u v(2) unfolding evicted_def by (intro exI [where x = vs] exI [where x = rest]) (auto simp: algebra_simps)
  qed
qed

section \<open>Examples\<close>

definition stage_ids :: "nat \<Rightarrow> string" where
  "stage_ids n = replicate (Suc n) (CHR ''x'')"

lemma inj_stage_ids: "inj stage_ids"
  by (rule injI) (metis length_replicate nat.inject stage_ids_def)

definition staged_film :: FileRow where
  "staged_film = \<lparr>f_ID = ''f'', f_DirID = [], f_Name = ''x.mkv'', f_Size = 2, f_MIME = [], f_SegmentSize = 10,
     f_SegmentCount = 1, f_Status = StatusComplete, f_ChannelID = [], f_CreatedAt = 0, f_UpdatedAt = 0, f_OwnerID = []\<rparr>"

definition film_bytes :: "string \<Rightarrow> nat list" where
  "film_bytes fid = [7, 8]"

definition film_path :: "string \<Rightarrow> string" where
  "film_path jid = jid @ ''/x.mkv''"

definition film_cache :: "DownloadJob list \<Rightarrow> nat staging" where
  "film_cache ws = \<lparr>sg_db = empty_db\<lparr>db_files := [staged_film], db_downloads := ws\<rparr>, sg_target = (\<lambda>_. None), sg_part = (\<lambda>_. None),
     sg_runs = (\<lambda>_. None), sg_requests = [], sg_limit = 10, sg_ttl = 100, sg_seq = 0\<rparr>"

definition film_step :: "stage_event \<Rightarrow> nat staging \<Rightarrow> nat staging" where
  "film_step = stage_step stage_ids film_bytes film_path"

definition work :: "nat \<Rightarrow> stage_event list" where
  "work n = replicate n (ERun ''x'' True 0)"

lemma fresh_film: "fresh_cache (film_cache [])" by (simp add: fresh_cache_def film_cache_def)

theorem staged_copy_complete_witness:
  "\<exists>w bytes s'. handleStagedFile (\<lambda>_. False) ''U'' False ''x''
      (fold (stage_step stage_ids film_bytes film_path) (EStage staged_film [] # work 12) (film_cache [])) = (Inr (w, bytes), s') \<and>
    bytes = film_bytes (w_FileID w)"
proof -
  let ?r = "handleStagedFile (\<lambda>_. False) ''U'' False ''x''
      (fold (stage_step stage_ids film_bytes film_path) (EStage staged_film [] # work 12) (film_cache []))"
  have "case fst ?r of Inl _ \<Rightarrow> False | Inr _ \<Rightarrow> True" by code_simp
  then obtain w bytes s' where "?r = (Inr (w, bytes), s')" by (cases ?r) (auto split: sum.splits)
  then show ?thesis using staged_copy_complete [OF inj_stage_ids fresh_film] by blast
qed

definition film_job :: "string \<Rightarrow> DownloadStatus \<Rightarrow> int \<Rightarrow> DownloadJob" where
  "film_job jid st used = (new_download jid [] staged_film)\<lparr>w_Status := st, w_CachePath := film_path jid, w_LastUsedAt := used, w_TotalSize := 5\<rparr>"

theorem ended_download_stays_ended_witness:
  "\<exists>w. w \<in> set (db_downloads (sg_db (fold (stage_step stage_ids film_bytes film_path) [EResume, ECancel ToMark ''J'', ESweep]
      (film_cache [film_job ''J'' DownloadCancelled 1])))) \<and> w_ID w = ''J'' \<and> w_Status w \<in> {DownloadFailed, DownloadCancelled, DownloadExpired}"
proof -
  let ?s = "film_cache [film_job ''J'' DownloadCancelled 1]" and ?es = "[EResume, ECancel ToMark ''J'', ESweep]"
  have "map w_ID (db_downloads (sg_db (fold (stage_step stage_ids film_bytes film_path) ?es ?s))) = [''J'']" by code_simp
  then obtain w where w: "w \<in> set (db_downloads (sg_db (fold (stage_step stage_ids film_bytes film_path) ?es ?s)))" "w_ID w = ''J''"
    by (auto simp: map_eq_Cons_conv)
  have 1: "\<forall>w \<in> set (db_downloads (sg_db ?s)). w_ID w = ''J'' \<longrightarrow> w_Status w \<in> {DownloadFailed, DownloadCancelled, DownloadExpired}"
    by (simp add: film_cache_def film_job_def)
  have 2: "\<forall>n \<ge> sg_seq ?s. stage_ids n \<noteq> ''J''" by (simp add: stage_ids_def)
  have 3: "\<forall>ev \<in> set ?es. \<not> is_report ev" by simp
  show ?thesis using ended_download_stays_ended [OF 1 2 3 w] w by blast
qed

theorem makeRoomFor_evicts_lru_witness:
  "\<exists>s'. makeRoomFor 5 (film_cache [film_job ''A'' DownloadReady 2, film_job ''B'' DownloadReady 1]) = (Inr (), s') \<and>
    map w_ID (db_downloads (sg_db s')) = [''A''] \<and>
    fst (CacheUsage (sg_db s')) + 5 \<le> sg_limit (film_cache [film_job ''A'' DownloadReady 2, film_job ''B'' DownloadReady 1])"
proof -
  let ?s = "film_cache [film_job ''A'' DownloadReady 2, film_job ''B'' DownloadReady 1]"
  have "case makeRoomFor 5 ?s of (r, s') \<Rightarrow> r = Inr () \<and> map w_ID (db_downloads (sg_db s')) = [''A'']" by code_simp
  then obtain s' where s': "makeRoomFor 5 ?s = (Inr (), s')" "map w_ID (db_downloads (sg_db s')) = [''A'']"
    by (cases "makeRoomFor 5 ?s") auto
  have h: "0 < sg_limit ?s" "distinct (map w_ID (db_downloads (sg_db ?s)))" "\<forall>w \<in> set (db_downloads (sg_db ?s)). 0 \<le> w_TotalSize w"
    "(0::int) \<le> 5"
    by (simp_all add: film_cache_def film_job_def new_download_def)
  have u: "fst (CacheUsage (sg_db ?s)) + 5 \<le> 2 ^ 63 - 1"
  proof -
    have "fst (CacheUsage (sg_db ?s)) = 10" by code_simp
    then show ?thesis by simp
  qed
  from makeRoomFor_evicts_lru [OF s'(1) h u]
  obtain vs rest where "(Inr () = (Inr () :: stage_error + unit)) \<longleftrightarrow> fst (CacheUsage (sg_db s')) + 5 \<le> sg_limit ?s"
    by (elim exE conjE) (rule that)
  then have "fst (CacheUsage (sg_db s')) + 5 \<le> sg_limit ?s" by (rule iffD1) (rule refl)
  with s' show ?thesis by (intro exI conjI)
qed

section \<open>Where the code falls short\<close>

text \<open>
  A client may report any of its jobs as running, a staged one too.  A cancelled staged job then counts as
  active: it reserves its whole size, it cannot be evicted, and whoever asks for the file joins it, while no
  worker is going to produce the copy.
\<close>

lemma report_revives_cancelled:
  "case handleDownloadProgress (\<lambda>_. False) ''U'' False ''J'' 0 (Some DownloadRunning) [] (film_cache [film_job ''J'' DownloadCancelled 1]) of
     (r, s) \<Rightarrow> (case StartStaged stage_ids ''f'' ''V'' s of
         (Inr w, s') \<Rightarrow> w_ID w = ''J'' \<and> w_Status w = DownloadRunning \<and> CacheUsage (sg_db s') = (5, 1) \<and> sg_runs s' ''J'' = None
       | (Inl _, _) \<Rightarrow> False)"
  by code_simp

text \<open>
  The search for a finished copy and the search for an active job are two statements: a job that becomes ready
  in between is missed by both, and the file is staged a second time.
\<close>

lemma staged_twice:
  "map (\<lambda>w. (w_FileID w, w_Status w)) (db_downloads (sg_db (fold film_step
      (EStage staged_film [] # work 10 @ [ELookup ''f''] @ work 2 @ [EStage staged_film []]) (film_cache [])))) =
   [(''f'', DownloadReady), (''f'', DownloadPending)]"
  by code_simp

text \<open>A request that cannot be served may still empty the cache: the room is searched by evicting.\<close>

lemma evicts_in_vain:
  "case makeRoomFor 6 (film_cache [film_job ''A'' DownloadReady 2, film_job ''B'' DownloadRunning 1]) of
     (r, s) \<Rightarrow> r = Inl ErrCacheFull \<and> map w_ID (db_downloads (sg_db s)) = [''B'']"
  by code_simp

end
