(* ===== verification/Indexer.thy ===== *)
theory Indexer
  imports Upload "HOL-Library.AList" "HOL-Library.Product_Lexorder"
begin

text \<open>
  Rebuilding the index from the channel, \<open>internal/indexer/indexer.go\<close>.  A Go map is a list of pairs
  with distinct keys; the order in which a \<open>range\<close> statement visits it is not fixed by the language,
  so it is an argument of the model (\<open>orders\<close>), free to differ between any two passes.  Progress
  reports and logging are left out.
\<close>

section \<open>One pass over the channel\<close>

record Message =
  h_ID :: int
  h_Caption :: string
  h_Doc :: "StoredDoc option"

record dirRecord =
  dr_rec :: Record
  dr_msgID :: int

record segmentRecord =
  sr_msgID :: int
  sr_doc :: "StoredDoc option"
  sr_size :: int

record fileRecord =
  fr_rec :: Record
  fr_segments :: "(int \<times> segmentRecord) list"

record scanned =
  sc_dirs :: "(string \<times> dirRecord) list"
  sc_files :: "(string \<times> fileRecord) list"

definition empty_scan :: scanned where
  "empty_scan = \<lparr>sc_dirs = [], sc_files = []\<rparr>"

definition segment_of :: "Message \<Rightarrow> segmentRecord" where
  "segment_of m = \<lparr>sr_msgID = h_ID m, sr_doc = h_Doc m, sr_size = (case h_Doc m of None \<Rightarrow> 0 | Some doc \<Rightarrow> sd_Size doc)\<rparr>"

definition absorb :: "Message \<Rightarrow> scanned \<Rightarrow> scanned" where
  "absorb m out =
     (case Decode (h_Caption m) of
        Inl _ \<Rightarrow> out
      | Inr rec \<Rightarrow>
          (case r_Kind rec of
             KindNone \<Rightarrow> out
           | KindDir \<Rightarrow>
               (case map_of (sc_dirs out) (r_ID rec) of
                  Some _ \<Rightarrow> out
                | None \<Rightarrow> out\<lparr>sc_dirs := AList.update (r_ID rec) \<lparr>dr_rec = rec, dr_msgID = h_ID m\<rparr> (sc_dirs out)\<rparr>)
           | KindFile \<Rightarrow>
               let f = (case map_of (sc_files out) (r_ID rec) of
                          Some f \<Rightarrow> f | None \<Rightarrow> \<lparr>fr_rec = rec, fr_segments = []\<rparr>)
               in case map_of (fr_segments f) (r_SegIndex rec) of
                    Some _ \<Rightarrow> out
                  | None \<Rightarrow> out\<lparr>sc_files := AList.update (r_ID rec)
                      (f\<lparr>fr_segments := AList.update (r_SegIndex rec) (segment_of m) (fr_segments f)\<rparr>) (sc_files out)\<rparr>))"

definition scan :: "Message list \<Rightarrow> scanned" where
  "scan history = fold absorb history empty_scan"

section \<open>Placing the directories\<close>

definition RecoveredDir :: string where
  "RecoveredDir = ''_recovered''"

definition recoveredRootID :: string where
  "recoveredRootID = ''00000000000000000000RECVRD''"

definition recoveredRoot :: string where
  "recoveredRoot = Join Root RecoveredDir"

definition zero_dir :: Dir where
  "zero_dir = \<lparr>d_ID = [], d_ParentID = [], d_Name = [], d_Path = [], d_ChannelID = [], d_TGMsgID = 0,
     d_CreatedAt = 0, d_UpdatedAt = 0, d_OwnerID = []\<rparr>"

type_synonym found_dirs = "(string \<times> dirRecord) list"
type_synonym resolved = "(string \<times> Dir) list"

definition placed_dir :: "string \<Rightarrow> dirRecord \<Rightarrow> string \<Rightarrow> string \<Rightarrow> Dir" where
  "placed_dir did d parentID parentPath =
     zero_dir\<lparr>d_ID := did, d_ParentID := parentID, d_Name := r_Name (dr_rec d),
       d_Path := Join parentPath (r_Name (dr_rec d)), d_TGMsgID := dr_msgID d\<rparr>"

text \<open>The body of the loop in \<open>place\<close>; the flag is \<open>progress\<close>.\<close>

definition place_step :: "found_dirs \<Rightarrow> string \<Rightarrow> resolved \<times> bool \<Rightarrow> resolved \<times> bool" where
  "place_step found did st =
     (let (res, progress) = st in
      case map_of found did of
        None \<Rightarrow> st
      | Some d \<Rightarrow>
          if map_of res did \<noteq> None then st
          else if r_ParentID (dr_rec d) = [] then (AList.update did (placed_dir did d [] Root) res, True)
          else case map_of res (r_ParentID (dr_rec d)) of
                 None \<Rightarrow> st
               | Some parent \<Rightarrow>
                   (AList.update did (placed_dir did d (r_ParentID (dr_rec d)) (d_Path parent)) res, True))"

record orders =
  o_dirs :: "resolved \<Rightarrow> string list \<Rightarrow> string list"
  o_files :: "string list \<Rightarrow> string list"
  o_segments :: "string \<Rightarrow> int list \<Rightarrow> int list"

definition place_pass :: "orders \<Rightarrow> found_dirs \<Rightarrow> resolved \<Rightarrow> resolved \<times> bool" where
  "place_pass ord found res = fold (place_step found) (o_dirs ord res (map fst found)) (res, False)"

definition waiting :: "found_dirs \<Rightarrow> resolved \<Rightarrow> string list" where
  "waiting found res = filter (\<lambda>did. map_of res did = None) (map fst found)"

definition waiting_set :: "found_dirs \<Rightarrow> resolved \<Rightarrow> string set" where
  "waiting_set found res = dom (map_of found) - dom (map_of res)"

lemma place_step_grows:
  assumes "place_step found did (res, b) = (res', b')"
  shows "waiting_set found res' \<subseteq> waiting_set found res \<and> (\<not> b \<and> b' \<longrightarrow> waiting_set found res' \<subset> waiting_set found res)"
  using assms
  by (auto simp: place_step_def waiting_set_def update_conv' split: option.splits if_splits)

lemma place_fold_grows:
  assumes "fold (place_step found) ids (res, b) = (res', b')"
  shows "waiting_set found res' \<subseteq> waiting_set found res \<and> (\<not> b \<and> b' \<longrightarrow> waiting_set found res' \<subset> waiting_set found res)"
  using assms
proof (induction ids arbitrary: res b)
  case (Cons i ids)
  obtain r1 b1 where s: "place_step found i (res, b) = (r1, b1)" by fastforce
  then show ?case
    using Cons.IH [of r1 b1] Cons.prems place_step_grows [OF s] by fastforce
qed simp

lemma finite_waiting [simp]: "finite (waiting_set found res)"
  by (simp add: waiting_set_def finite_dom_map_of)

text \<open>A pass that settles something is followed by another.\<close>

function place :: "orders \<Rightarrow> found_dirs \<Rightarrow> resolved \<Rightarrow> resolved" where
  "place ord found res =
     (let (res', progress) = place_pass ord found res in if progress then place ord found res' else res')"
  by pat_completeness auto

termination
proof (relation "measure (\<lambda>(ord, found, res). card (waiting_set found res))")
  fix ord :: orders and found :: found_dirs and res :: resolved and x res' b
  assume "x = place_pass ord found res" "(res', b) = x" b
  then have "waiting_set found res' \<subset> waiting_set found res"
    using place_fold_grows [of found "o_dirs ord res (map fst found)" res False res' b]
    by (simp add: place_pass_def)
  then show "((ord, found, res'), ord, found, res) \<in> measure (\<lambda>(ord, found, res). card (waiting_set found res))"
    by (simp add: psubset_card_mono)
qed simp

declare place.simps [simp del]

section \<open>Rescuing what has no parent\<close>

definition tops_of :: "found_dirs \<Rightarrow> resolved \<Rightarrow> string list" where
  "tops_of found res =
     filter (\<lambda>did. case map_of found did of
         None \<Rightarrow> False | Some d \<Rightarrow> map_of found (r_ParentID (dr_rec d)) = None) (waiting found res)"

definition lowest_of :: "string list \<Rightarrow> string" where
  "lowest_of ids = fold (\<lambda>did lowest. if lowest = [] \<or> did < lowest then did else lowest) ids []"

definition recovery_row :: Dir where
  "recovery_row = zero_dir\<lparr>d_ID := recoveredRootID, d_Name := RecoveredDir, d_Path := recoveredRoot\<rparr>"

definition rescue_one :: "found_dirs \<Rightarrow> string \<Rightarrow> resolved \<times> nat \<Rightarrow> resolved \<times> nat" where
  "rescue_one found did st =
     (let (res, rescued) = st in
      case map_of found did of
        None \<Rightarrow> st
      | Some d \<Rightarrow>
          let res = (if rescued = 0 then AList.update recoveredRootID recovery_row res else res)
          in (AList.update did (placed_dir did d recoveredRootID recoveredRoot) res, Suc rescued))"

definition rescue_tops :: "found_dirs \<Rightarrow> resolved \<Rightarrow> string list" where
  "rescue_tops found res =
     (case tops_of found res of
        [] \<Rightarrow> (let lowest = lowest_of (waiting found res) in if lowest = [] then [] else [lowest])
      | t # ts \<Rightarrow> sort (t # ts))"

lemma lowest_fold: "fold (\<lambda>did lowest. if lowest = [] \<or> did < lowest then did else lowest) ids l \<in> insert l (set ids)"
proof (induction ids arbitrary: l)
  case (Cons i ids)
  show ?case using Cons.IH [of "if l = [] \<or> i < l then i else l"] by (auto split: if_splits)
qed simp

lemma waiting_set_waiting: "set (waiting found res) = waiting_set found res"
proof -
  have "map_of found x \<noteq> None \<longleftrightarrow> x \<in> fst ` set found" for x
    by (simp add: map_of_eq_None_iff)
  then show ?thesis by (auto simp: waiting_def waiting_set_def dom_def)
qed

lemma rescue_tops_waiting: "set (rescue_tops found res) \<subseteq> waiting_set found res"
proof (cases "tops_of found res")
  case Nil
  then show ?thesis using lowest_fold [of "waiting found res" "[]"]
    by (auto simp: rescue_tops_def lowest_of_def Let_def waiting_set_waiting [symmetric])
next
  case (Cons t ts)
  then have "set (rescue_tops found res) = set (tops_of found res)"
    by (simp add: rescue_tops_def set_insort_key)
  then show ?thesis by (auto simp: tops_of_def waiting_set_waiting [symmetric])
qed

lemma rescue_fold_settles:
  "dom (map_of res) \<subseteq> dom (map_of (fst (fold (rescue_one found) ids (res, n)))) \<and>
   set ids \<inter> dom (map_of found) \<subseteq> dom (map_of (fst (fold (rescue_one found) ids (res, n))))"
proof (induction ids arbitrary: res n)
  case (Cons i ids)
  obtain r1 n1 where s: "rescue_one found i (res, n) = (r1, n1)" by fastforce
  then have "dom (map_of res) \<subseteq> dom (map_of r1)" "i \<in> dom (map_of found) \<Longrightarrow> i \<in> dom (map_of r1)"
    by (auto simp: rescue_one_def Let_def update_conv' split: option.splits if_splits)
  then show ?case using Cons.IH [of r1 n1] by (simp add: s) blast
qed simp

lemma place_fold_dom: "dom (map_of res) \<subseteq> dom (map_of (fst (fold (place_step found) ids (res, b))))"
proof (induction ids arbitrary: res b)
  case (Cons i ids)
  obtain r1 b1 where s: "place_step found i (res, b) = (r1, b1)" by fastforce
  then have "dom (map_of res) \<subseteq> dom (map_of r1)"
    by (auto simp: place_step_def update_conv' split: option.splits if_splits)
  then show ?case using Cons.IH [of r1 b1] by (simp add: s)
qed simp

lemma place_dom: "dom (map_of res) \<subseteq> dom (map_of (place ord found res))"
proof (induction ord found res rule: place.induct)
  case (1 ord found res)
  obtain r1 b where p: "place_pass ord found res = (r1, b)" by fastforce
  have "dom (map_of res) \<subseteq> dom (map_of r1)"
    using place_fold_dom [of res found "o_dirs ord res (map fst found)" False] p by (simp add: place_pass_def)
  moreover have "place ord found res = (if b then place ord found r1 else r1)" by (subst place.simps) (simp add: p)
  ultimately show ?case using "1.IH" [OF p [symmetric] refl] by (cases b) auto
qed

text \<open>The rescue loop: the topmost of what is left goes below the recovery folder, then the rest is placed.\<close>

function rescue :: "orders \<Rightarrow> found_dirs \<Rightarrow> resolved \<times> nat \<Rightarrow> resolved \<times> nat" where
  "rescue ord found (res, rescued) =
     (let tops = rescue_tops found res
      in if tops = [] then (res, rescued)
         else let (res', rescued') = fold (rescue_one found) tops (res, rescued)
              in rescue ord found (place ord found res', rescued'))"
  by pat_completeness auto

termination
proof (relation "measure (\<lambda>(ord, found, res, n). card (waiting_set found res))")
  fix ord :: orders and found :: found_dirs and res :: resolved and n tops x res' n'
  assume "tops = rescue_tops found res" "tops \<noteq> []" "x = fold (rescue_one found) tops (res, n)" "(res', n') = x"
  then obtain t where t: "t \<in> set (rescue_tops found res)" and r: "fold (rescue_one found) tops (res, n) = (res', n')"
    and tops: "tops = rescue_tops found res"
    by (metis list.set_intros(1) neq_Nil_conv)
  have w: "t \<in> waiting_set found res" using t rescue_tops_waiting by blast
  have "dom (map_of res) \<subseteq> dom (map_of res')" "set tops \<inter> dom (map_of found) \<subseteq> dom (map_of res')"
    using rescue_fold_settles [of res found tops n] r by auto
  moreover have "t \<in> dom (map_of found)" "t \<in> set tops" using w t tops by (auto simp: waiting_set_def)
  ultimately have "t \<in> dom (map_of (place ord found res'))" "dom (map_of res) \<subseteq> dom (map_of (place ord found res'))"
    using place_dom [of res' ord found] by blast+
  then have "t \<notin> waiting_set found (place ord found res')"
    "waiting_set found (place ord found res') \<subseteq> waiting_set found res"
    unfolding waiting_set_def by blast+
  then have "waiting_set found (place ord found res') \<subset> waiting_set found res" using w by blast
  then show "((ord, found, place ord found res', n'), ord, found, res, n)
      \<in> measure (\<lambda>(ord, found, res, n). card (waiting_set found res))"
    by (simp add: psubset_card_mono)
qed simp

declare rescue.simps [simp del]

section \<open>Names that collide\<close>

text \<open>\<open>fmt.Sprintf("%s (%d)", name, n)\<close>\<close>

definition numbered :: "string \<Rightarrow> nat \<Rightarrow> string" where
  "numbered name n = name @ '' ('' @ show_nat n @ '')''"

lemma numbered_inj: "numbered name n = numbered name m \<longleftrightarrow> n = m"
proof
  assume "numbered name n = numbered name m"
  then have "show_nat n = show_nat m" by (simp add: numbered_def)
  then have "Some n = Some m" unfolding read_show_nat [symmetric] by simp
  then show "n = m" by simp
qed simp

text \<open>The loop \<open>for n := 2; taken[...]; n++\<close> over the candidates \<open>prefix + "name (n)"\<close>.\<close>

function free_number :: "string list \<Rightarrow> string \<Rightarrow> string \<Rightarrow> nat \<Rightarrow> nat" where
  "free_number taken pre name n =
     (if pre @ numbered name n \<in> set taken then free_number taken pre name (Suc n) else n)"
  by pat_completeness auto

termination
proof (relation "measure (\<lambda>(taken, pre, name, n). card {s \<in> set taken. \<exists>m \<ge> n. s = pre @ numbered name m})")
  fix taken :: "string list" and pre name :: string and n :: nat
  assume t: "pre @ numbered name n \<in> set taken"
  have "{s \<in> set taken. \<exists>m \<ge> Suc n. s = pre @ numbered name m} \<subset> {s \<in> set taken. \<exists>m \<ge> n. s = pre @ numbered name m}"
    (is "?A \<subset> ?B")
  proof
    show "?A \<subseteq> ?B" using Suc_leD by blast
    have "pre @ numbered name n \<in> ?B" "pre @ numbered name n \<notin> ?A"
      using t by (auto simp: numbered_inj)
    then show "?A \<noteq> ?B" by blast
  qed
  then show "((taken, pre, name, Suc n), taken, pre, name, n)
      \<in> measure (\<lambda>(taken, pre, name, n). card {s \<in> set taken. \<exists>m \<ge> n. s = pre @ numbered name m})"
    by (simp add: psubset_card_mono)
qed simp

declare free_number.simps [simp del]

lemma free_number_free: "pre @ numbered name (free_number taken pre name n) \<notin> set taken"
  by (induction taken pre name n rule: free_number.induct) (subst free_number.simps, simp)

definition depth_of :: "Dir \<Rightarrow> nat" where
  "depth_of d = length (SplitPath (d_Path d))"

record dedupe =
  dd_final :: "(string \<times> string) list"
  dd_taken :: "string list"
  dd_dirs :: resolved

definition dedupe_step :: "string \<Rightarrow> dedupe \<Rightarrow> dedupe" where
  "dedupe_step did st =
     (case map_of (dd_dirs st) did of
        None \<Rightarrow> st
      | Some d \<Rightarrow>
          let parentPath = (if d_ParentID d = [] then Root
                else case map_of (dd_final st) (d_ParentID d) of Some p \<Rightarrow> p | None \<Rightarrow> Root);
              name = (if Join parentPath (d_Name d) \<in> set (dd_taken st)
                then numbered (d_Name d) (free_number (dd_taken st) (Join parentPath []) (d_Name d) 2) else d_Name d);
              path = Join parentPath name
          in st\<lparr>dd_taken := path # dd_taken st, dd_final := AList.update did path (dd_final st),
               dd_dirs := AList.update did (d\<lparr>d_Name := name, d_Path := path\<rparr>) (dd_dirs st)\<rparr>)"

definition dedupe_order :: "resolved \<Rightarrow> string list" where
  "dedupe_order dirs =
     sort_key (\<lambda>did. (case map_of dirs did of Some d \<Rightarrow> depth_of d | None \<Rightarrow> 0, did)) (map fst dirs)"

definition dedupePaths :: "resolved \<Rightarrow> resolved" where
  "dedupePaths dirs =
     dd_dirs (fold dedupe_step (dedupe_order dirs) \<lparr>dd_final = [], dd_taken = [], dd_dirs = dirs\<rparr>)"

definition buildTree :: "orders \<Rightarrow> scanned \<Rightarrow> resolved" where
  "buildTree ord found = dedupePaths (fst (rescue ord (sc_dirs found) (place ord (sc_dirs found) [], 0)))"

section \<open>Files and segments\<close>

definition recovered_file :: "('t, 'b) env \<Rightarrow> Channel \<Rightarrow> resolved \<Rightarrow> string \<Rightarrow> fileRecord \<Rightarrow> FileRow" where
  "recovered_file env channel dirs fid f =
     (let rec = fr_rec f;
          dirID = (if r_ParentID rec \<noteq> [] \<and> map_of dirs (r_ParentID rec) = None then [] else r_ParentID rec)
      in \<lparr>f_ID = fid, f_DirID = dirID, f_Name = r_Name rec, f_Size = r_TotalSize rec,
          f_MIME = GuessMIME env (r_Name rec), f_SegmentSize = r_SegmentSize rec, f_SegmentCount = r_SegCount rec,
          f_Status = (if int (length (fr_segments f)) \<noteq> r_SegCount rec then StatusBroken else StatusComplete),
          f_ChannelID = c_ID channel, f_CreatedAt = 0, f_UpdatedAt = 0, f_OwnerID = r_OwnerID rec\<rparr>)"

definition recovered_segment :: "string \<Rightarrow> string \<Rightarrow> int \<Rightarrow> segmentRecord \<Rightarrow> Segment" where
  "recovered_segment account fid idx seg =
     (case sr_doc seg of
        None \<Rightarrow> \<lparr>g_FileID = fid, g_Index = idx, g_Size = sr_size seg, g_TGMsgID = sr_msgID seg, g_TGDocID = 0,
          g_AccessHash = 0, g_DCID = 0, g_FileReference = [], g_AccountID = []\<rparr>
      | Some doc \<Rightarrow> \<lparr>g_FileID = fid, g_Index = idx, g_Size = sr_size seg, g_TGMsgID = sr_msgID seg,
          g_TGDocID = sd_DocID doc, g_AccessHash = sd_AccessHash doc, g_DCID = sd_DCID doc,
          g_FileReference = sd_FileReference doc, g_AccountID = account\<rparr>)"

definition segment_rows :: "orders \<Rightarrow> string \<Rightarrow> string \<Rightarrow> fileRecord \<Rightarrow> Segment list" where
  "segment_rows ord account fid f =
     concat (map (\<lambda>idx. case map_of (fr_segments f) idx of
         None \<Rightarrow> [] | Some seg \<Rightarrow> [recovered_segment account fid idx seg])
       (o_segments ord fid (map fst (fr_segments f))))"

definition name_key :: "FileRow \<Rightarrow> string" where
  "name_key f = f_DirID f @ ''/'' @ f_Name f"

text \<open>The loop of \<open>dedupeFileNames\<close>; \<open>taken\<close> holds the keys given out so far.\<close>

fun dedupe_files :: "string list \<Rightarrow> FileRow list \<Rightarrow> FileRow list" where
  "dedupe_files taken [] = []"
| "dedupe_files taken (f # fs) =
     (if name_key f \<notin> set taken then f # dedupe_files (name_key f # taken) fs
      else let f' = f\<lparr>f_Name := numbered (f_Name f) (free_number taken (f_DirID f @ ''/'') (f_Name f) 2)\<rparr>
           in f' # dedupe_files (name_key f' # taken) fs)"

definition dedupeFileNames :: "FileRow list \<Rightarrow> FileRow list" where
  "dedupeFileNames fs = dedupe_files [] (sort_key f_ID fs)"

definition buildFiles ::
  "('t, 'b) env \<Rightarrow> string \<Rightarrow> orders \<Rightarrow> scanned \<Rightarrow> resolved \<Rightarrow> Channel \<Rightarrow> FileRow list \<times> Segment list \<times> nat" where
  "buildFiles env account ord found dirs channel =
     (let ids = o_files ord (map fst (sc_files found));
          visited = concat (map (\<lambda>fid. case map_of (sc_files found) fid of None \<Rightarrow> [] | Some f \<Rightarrow> [(fid, f)]) ids);
          rows = map (\<lambda>(fid, f). recovered_file env channel dirs fid f) visited
      in (dedupeFileNames rows, concat (map (\<lambda>(fid, f). segment_rows ord account fid f) visited),
          length (filter (\<lambda>f. f_Status f = StatusBroken) rows)))"

section \<open>Replacing the index\<close>

definition replace_order :: "resolved \<Rightarrow> Dir list" where
  "replace_order dirs = sort_key (\<lambda>d. (length (d_Path d), d_Path d)) (map snd dirs)"

definition replace :: "resolved \<Rightarrow> FileRow list \<Rightarrow> Segment list \<Rightarrow> unit db_op" where
  "replace dirs fs segs = ReplaceIndex (replace_order dirs) fs segs"

text \<open>\<open>history\<close> is what \<open>ScanHistory\<close> answers: the messages of the channel, newest first, or an error.\<close>

datatype rebuild_error = NoChannel | ReadHistory string | IndexError db_error

definition rebuild ::
  "('t, 'b) env \<Rightarrow> string \<Rightarrow> orders \<Rightarrow> (ChannelRef \<Rightarrow> string + Message list) \<Rightarrow> db \<Rightarrow> (rebuild_error + unit) \<times> db" where
  "rebuild env account ord history d =
     (case DefaultChannel d of
        Inl e \<Rightarrow> (Inl (if e = ErrNotFound then NoChannel else IndexError e), d)
      | Inr channel \<Rightarrow>
          (case history \<lparr>cr_ChannelID = [], cr_TGID = c_TGID channel, cr_AccessHash = c_AccessHash channel\<rparr> of
             Inl e \<Rightarrow> (Inl (ReadHistory e), d)
           | Inr messages \<Rightarrow>
               let found = scan messages;
                   dirs = buildTree ord found;
                   (fs, segs, broken) = buildFiles env account ord found dirs channel
               in (case replace dirs fs segs d of
                     (Inl e, d') \<Rightarrow> (Inl (IndexError e), d')
                   | (Inr _, d') \<Rightarrow> (Inr (), d'))))"

end
