(* ===== verification/IndexerLaws.thy ===== *)
theory IndexerLaws
  imports Indexer
begin

text \<open>
  What the rebuild of theory \<open>Indexer\<close> keeps and loses: the tree of directories is placed whole, under
  every order in which the maps are visited, the recovery folder takes what has no parent, colliding
  names are made distinct, and the resulting rows are accepted by the index.
\<close>

section \<open>Resolved trees\<close>

definition parent_path :: "resolved \<Rightarrow> string \<Rightarrow> string option" where
  "parent_path res pid = (if pid = [] then Some Root else map_option d_Path (map_of res pid))"

definition row_ok :: "resolved \<Rightarrow> string \<Rightarrow> Dir \<Rightarrow> bool" where
  "row_ok res k r \<longleftrightarrow> d_ID r = k \<and> k \<noteq> [] \<and> dir_name (d_Name r) \<and> d_ChannelID r = [] \<and> d_OwnerID r = [] \<and>
     (\<exists>pp. parent_path res (d_ParentID r) = Some pp \<and> d_Path r = Join pp (d_Name r))"

definition tree_map :: "resolved \<Rightarrow> bool" where
  "tree_map res \<longleftrightarrow> distinct (map fst res) \<and> (\<forall>k r. map_of res k = Some r \<longrightarrow> row_ok res k r)"

lemma tree_mapD: "\<lbrakk>tree_map res; map_of res k = Some r\<rbrakk> \<Longrightarrow> row_ok res k r"
  by (simp add: tree_map_def)

lemma tree_map_add:
  assumes "tree_map res" and "map_of res k = None" and "row_ok res k r"
  shows "tree_map (AList.update k r res)"
proof -
  have grow: "parent_path (AList.update k r res) pid = Some pp" if "parent_path res pid = Some pp" for pid pp
    using that assms(2) by (auto simp: parent_path_def update_conv' split: if_splits)
  have "row_ok (AList.update k r res) k' r'" if "row_ok res k' r'" for k' r'
    using that grow unfolding row_ok_def by blast
  moreover have "map_of (AList.update k r res) k' = Some r' \<Longrightarrow> row_ok res k' r'" for k' r'
    using assms by (auto simp: tree_map_def update_conv' split: if_splits)
  ultimately show ?thesis using assms(1) by (simp add: tree_map_def distinct_update)
qed

lemma length_Join: "n \<noteq> [] \<Longrightarrow> length pp < length (Join pp n)"
  by (auto simp: Join_def Root_def)

lemma tree_map_induct [consumes 2, case_names top child]:
  assumes "tree_map res" and "map_of res k = Some r"
    and top: "\<And>k r. \<lbrakk>map_of res k = Some r; d_ParentID r = []; d_Path r = Join Root (d_Name r); dir_name (d_Name r)\<rbrakk> \<Longrightarrow> P k r"
    and child: "\<And>k r p. \<lbrakk>map_of res k = Some r; d_ParentID r \<noteq> []; map_of res (d_ParentID r) = Some p;
        d_Path r = Join (d_Path p) (d_Name r); dir_name (d_Name r); P (d_ParentID r) p\<rbrakk> \<Longrightarrow> P k r"
  shows "P k r"
  using assms(2)
proof (induction "length (d_Path r)" arbitrary: k r rule: less_induct)
  case less
  have ok: "row_ok res k r" using assms(1) less.prems by (rule tree_mapD)
  then obtain pp where pp: "parent_path res (d_ParentID r) = Some pp" "d_Path r = Join pp (d_Name r)"
    and n: "dir_name (d_Name r)" by (auto simp: row_ok_def)
  show ?case
  proof (cases "d_ParentID r = []")
    case True
    then show ?thesis using top less.prems pp n by (simp add: parent_path_def)
  next
    case False
    then obtain p where p: "map_of res (d_ParentID r) = Some p" "pp = d_Path p"
      using pp(1) by (auto simp: parent_path_def)
    have "length (d_Path p) < length (d_Path r)"
      using pp(2) p(2) n length_Join [of "d_Name r" pp] by (simp add: dir_name_def plain_def)
    then show ?thesis using child [OF less.prems False p(1) _ n] less.hyps p pp(2) by blast
  qed
qed

lemma tree_map_path:
  assumes "tree_map res" and "map_of res k = Some r"
  shows "\<exists>ns. ns \<noteq> [] \<and> (\<forall>n \<in> set ns. plain n) \<and> d_Path r = path_of ns"
  using assms
proof (induction rule: tree_map_induct)
  case (top k r)
  then show ?case using Join_path_of [of "[]" "d_Name r"]
    by (intro exI [of _ "[d_Name r]"]) (simp add: dir_name_def)
next
  case (child k r p)
  then obtain ns where "\<forall>n \<in> set ns. plain n" "d_Path p = path_of ns" by blast
  then show ?case using child(4,5) Join_path_of [of ns "d_Name r"]
    by (intro exI [of _ "ns @ [d_Name r]"]) (simp add: dir_name_def)
qed

lemma tree_map_depth:
  assumes "tree_map res" and "map_of res k = Some r" and "d_ParentID r \<noteq> []"
  shows "\<exists>p. map_of res (d_ParentID r) = Some p \<and> d_Path r = Join (d_Path p) (d_Name r) \<and> depth_of r = Suc (depth_of p)"
proof -
  obtain p where p: "map_of res (d_ParentID r) = Some p" "d_Path r = Join (d_Path p) (d_Name r)"
    using tree_mapD [OF assms(1,2)] assms(3) by (auto simp: row_ok_def parent_path_def)
  have n: "plain (d_Name r)" using tree_mapD [OF assms(1,2)] by (simp add: row_ok_def dir_name_def)
  obtain ns where ns: "\<forall>n \<in> set ns. plain n" "d_Path p = path_of ns"
    using tree_map_path [OF assms(1) p(1)] by blast
  have "d_Path r = path_of (ns @ [d_Name r])" using p(2) ns Join_path_of by simp
  then have "depth_of r = length (ns @ [d_Name r])"
    unfolding depth_of_def using SplitPath_path_of [of "ns @ [d_Name r]"] ns(1) n by simp
  moreover have "depth_of p = length ns" unfolding depth_of_def using SplitPath_path_of [OF ns(1)] ns(2) by simp
  ultimately show ?thesis using p by simp
qed

section \<open>The records of a scan\<close>

definition found_ok :: "found_dirs \<Rightarrow> bool" where
  "found_ok found \<longleftrightarrow> distinct (map fst found) \<and> (\<forall>k d. map_of found k = Some d \<longrightarrow>
     k \<noteq> [] \<and> k \<noteq> recoveredRootID \<and> dir_name (r_Name (dr_rec d)))"

text \<open>What a row of the tree has from the record it was made of.\<close>

definition made_from :: "found_dirs \<Rightarrow> resolved \<Rightarrow> bool" where
  "made_from found res \<longleftrightarrow> (\<forall>k r. map_of res k = Some r \<longrightarrow>
     k = recoveredRootID \<and> r = recovery_row \<or>
     (\<exists>d. map_of found k = Some d \<and> d_Name r = r_Name (dr_rec d) \<and> d_TGMsgID r = dr_msgID d \<and>
        (d_ParentID r = r_ParentID (dr_rec d) \<or> d_ParentID r = recoveredRootID)))"

lemma made_from_add:
  "\<lbrakk>made_from found res; map_of found k = Some d;
    r = placed_dir k d pid pp; pid = r_ParentID (dr_rec d) \<or> pid = recoveredRootID\<rbrakk> \<Longrightarrow> made_from found (AList.update k r res)"
  by (auto simp: made_from_def update_conv' placed_dir_def zero_dir_def)

lemma placed_dir_ok:
  assumes "found_ok found" and "map_of found k = Some d" and "parent_path res pid = Some pp"
  shows "row_ok res k (placed_dir k d pid pp)"
  using assms by (auto simp: row_ok_def placed_dir_def zero_dir_def found_ok_def)

definition resolving :: "found_dirs \<Rightarrow> resolved \<Rightarrow> nat \<Rightarrow> bool" where
  "resolving found res n \<longleftrightarrow> tree_map res \<and> made_from found res \<and>
     map_of res recoveredRootID = (if n = 0 then None else Some recovery_row)"

lemma resolving_place_step:
  assumes "found_ok found" and "resolving found res n" and "place_step found did (res, b) = (res', b')"
  shows "resolving found res' n"
proof (cases "res' = res")
  case False
  then obtain d pid pp where d: "map_of found did = Some d" "map_of res did = None"
    and pid: "pid = r_ParentID (dr_rec d)" and pp: "parent_path res pid = Some pp"
    and res': "res' = AList.update did (placed_dir did d pid pp) res"
    using assms(3) by (auto simp: place_step_def parent_path_def split: option.splits if_splits)
  have "did \<noteq> recoveredRootID" using assms(1) d(1) by (auto simp: found_ok_def)
  then show ?thesis
    using assms(2) tree_map_add [OF _ d(2) placed_dir_ok [OF assms(1) d(1) pp]]
      made_from_add [OF _ d(1) refl, of res pid pp] pid
    by (simp add: resolving_def res' update_conv')
qed (use assms in simp)

lemma resolving_place_fold:
  "\<lbrakk>found_ok found; resolving found res n\<rbrakk> \<Longrightarrow> resolving found (fst (fold (place_step found) ids (res, b))) n"
proof (induction ids arbitrary: res b)
  case (Cons i ids)
  obtain r1 b1 where s: "place_step found i (res, b) = (r1, b1)" by fastforce
  then show ?case using Cons.IH [OF Cons.prems(1) resolving_place_step [OF Cons.prems s], of b1] by simp
qed simp

lemma resolving_place:
  "\<lbrakk>found_ok found; resolving found res n\<rbrakk> \<Longrightarrow> resolving found (place ord found res) n"
proof (induction ord found res rule: place.induct)
  case (1 ord found res)
  obtain r1 b where p: "place_pass ord found res = (r1, b)" by fastforce
  have "resolving found r1 n"
    using resolving_place_fold [OF "1.prems", of "o_dirs ord res (map fst found)" False] p by (simp add: place_pass_def)
  moreover have "place ord found res = (if b then place ord found r1 else r1)" by (subst place.simps) (simp add: p)
  ultimately show ?case using "1.IH" [OF p [symmetric] refl] "1.prems"(1) by (cases b) auto
qed

text \<open>Nothing whose parent is settled is left waiting.\<close>

definition can_place :: "found_dirs \<Rightarrow> resolved \<Rightarrow> string \<Rightarrow> bool" where
  "can_place found res k \<longleftrightarrow> map_of res k = None \<and> (\<exists>d. map_of found k = Some d \<and>
     parent_path res (r_ParentID (dr_rec d)) \<noteq> None)"

definition visits_all :: "orders \<Rightarrow> bool" where
  "visits_all ord \<longleftrightarrow> (\<forall>res ids. mset (o_dirs ord res ids) = mset ids) \<and> (\<forall>ids. mset (o_files ord ids) = mset ids) \<and>
     (\<forall>fid ids. mset (o_segments ord fid ids) = mset ids)"

lemma place_fold_idle:
  "fold (place_step found) ids (res, b) = (res', False) \<Longrightarrow> \<not> b \<and> res' = res \<and> (\<forall>k \<in> set ids. \<not> can_place found res k)"
proof (induction ids arbitrary: res b)
  case (Cons i ids)
  obtain r1 b1 where s: "place_step found i (res, b) = (r1, b1)" by fastforce
  then have "\<not> b1 \<and> res' = r1 \<and> (\<forall>k \<in> set ids. \<not> can_place found r1 k)"
    using Cons.IH [of r1 b1] Cons.prems by simp
  moreover have "\<not> b1 \<Longrightarrow> \<not> b \<and> r1 = res \<and> \<not> can_place found res i"
    using s by (auto simp: place_step_def can_place_def parent_path_def split: option.splits if_splits)
  ultimately show ?case by auto
qed simp

lemma place_settles:
  assumes "visits_all ord"
  shows "\<not> can_place found (place ord found res) k"
  using assms
proof (induction ord found res rule: place.induct)
  case (1 ord found res)
  obtain r1 b where p: "place_pass ord found res = (r1, b)" by fastforce
  have e: "place ord found res = (if b then place ord found r1 else r1)" by (subst place.simps) (simp add: p)
  show ?case
  proof (cases b)
    case True
    then show ?thesis using "1.IH" [OF p [symmetric] refl True "1.prems"] e by simp
  next
    case False
    then have "r1 = res \<and> (\<forall>k \<in> set (o_dirs ord res (map fst found)). \<not> can_place found res k)"
      using place_fold_idle p by (simp add: place_pass_def)
    moreover have "set (o_dirs ord res (map fst found)) = fst ` set found"
      using mset_eq_setD [of "o_dirs ord res (map fst found)" "map fst found"] "1.prems" by (simp add: visits_all_def)
    moreover have "can_place found res k \<Longrightarrow> k \<in> fst ` set found"
      by (auto simp: can_place_def dest: map_of_SomeD intro: rev_image_eqI)
    ultimately show ?thesis using e False by auto
  qed
qed

section \<open>The rescue\<close>

lemma resolving_rescue_one:
  assumes "found_ok found" and "resolving found res n" and "map_of res did = None"
    and "rescue_one found did (res, n) = (res', n')"
  shows "resolving found res' n' \<and> (\<forall>k. k \<noteq> did \<and> k \<noteq> recoveredRootID \<longrightarrow> map_of res' k = map_of res k)"
proof (cases "map_of found did")
  case None
  then show ?thesis using assms by (simp add: rescue_one_def)
next
  case (Some d)
  define res1 where "res1 = (if n = 0 then AList.update recoveredRootID recovery_row res else res)"
  have ne: "did \<noteq> recoveredRootID" using assms(1) Some by (auto simp: found_ok_def)
  have eqs: "res' = AList.update did (placed_dir did d recoveredRootID recoveredRoot) res1" "n' = Suc n"
    using assms(4) Some by (simp_all add: rescue_one_def res1_def Let_def)
  have "valid_utf8 RecoveredDir" by (rule valid_utf8_ascii) (simp add: RecoveredDir_def)
  then have "row_ok res recoveredRootID recovery_row"
    by (simp add: row_ok_def recovery_row_def zero_dir_def recoveredRootID_def dir_name_def plain_def parent_path_def
      recoveredRoot_def RecoveredDir_def)
  then have "tree_map res1 \<and> made_from found res1 \<and> map_of res1 recoveredRootID = Some recovery_row"
    using assms(2) tree_map_add [of res recoveredRootID recovery_row]
    by (auto simp: resolving_def res1_def update_conv' made_from_def)
  moreover from this have "parent_path res1 recoveredRootID = Some recoveredRoot"
    by (simp add: parent_path_def recoveredRootID_def recovery_row_def)
  moreover have "map_of res1 did = None" using assms(3) ne by (simp add: res1_def update_conv')
  ultimately show ?thesis
    using tree_map_add [OF _ _ placed_dir_ok [OF assms(1) Some]] made_from_add [OF _ Some refl] ne
    by (simp add: resolving_def eqs update_conv' res1_def)
qed

lemma resolving_rescue_fold:
  "\<lbrakk>found_ok found; resolving found res n; distinct ids; \<forall>k \<in> set ids. map_of res k = None \<and> k \<noteq> recoveredRootID\<rbrakk>
    \<Longrightarrow> (case fold (rescue_one found) ids (res, n) of (res', n') \<Rightarrow> resolving found res' n')"
proof (induction ids arbitrary: res n)
  case (Cons i ids)
  obtain r1 n1 where s: "rescue_one found i (res, n) = (r1, n1)" by fastforce
  have r: "resolving found r1 n1 \<and> (\<forall>k. k \<noteq> i \<and> k \<noteq> recoveredRootID \<longrightarrow> map_of r1 k = map_of res k)"
    using resolving_rescue_one [OF Cons.prems(1,2) _ s] Cons.prems(4) by simp
  moreover have "\<forall>k \<in> set ids. map_of r1 k = None \<and> k \<noteq> recoveredRootID"
    using r Cons.prems(3,4) by auto
  ultimately show ?case using Cons.IH [OF Cons.prems(1), of r1 n1] Cons.prems(3) s by simp
qed simp

lemma distinct_rescue_tops: "distinct (map fst found) \<Longrightarrow> distinct (rescue_tops found res)"
proof (cases "tops_of found res")
  case Nil
  then show ?thesis by (simp add: rescue_tops_def Let_def)
next
  case (Cons t ts)
  moreover assume "distinct (map fst found)"
  then have "distinct (tops_of found res)" by (simp add: tops_of_def waiting_def)
  moreover have "rescue_tops found res = sort (tops_of found res)" using Cons by (simp add: rescue_tops_def)
  ultimately show ?thesis by (simp only: distinct_sort)
qed

lemma lowest_of_Nil: "[] \<notin> set ids \<Longrightarrow> lowest_of ids = [] \<longleftrightarrow> ids = []"
proof (cases ids)
  case (Cons i js)
  assume "[] \<notin> set ids"
  then show ?thesis using lowest_fold [of js i] Cons by (auto simp: lowest_of_def)
qed (simp add: lowest_of_def)

lemma rescue_laws:
  assumes "found_ok found" and "resolving found res n" and "rescue ord found (res, n) = (res', n')"
  shows "resolving found res' n' \<and> waiting_set found res' = {}"
  using assms
proof (induction ord found "(res, n)" arbitrary: res n rule: rescue.induct)
  case (1 ord found res n)
  define tops where "tops = rescue_tops found res"
  show ?case
  proof (cases "tops = []")
    case True
    then have "tops_of found res = []" "lowest_of (waiting found res) = []"
      by (auto simp: tops_def rescue_tops_def Let_def set_insort_key split: list.splits if_splits)
    moreover have "[] \<notin> set (waiting found res)"
      using "1.prems"(1) by (auto simp: waiting_set_waiting waiting_set_def found_ok_def)
    ultimately have "waiting found res = []" using lowest_of_Nil by blast
    then have "waiting_set found res = {}" by (simp add: waiting_set_waiting [symmetric])
    moreover have "rescue ord found (res, n) = (res, n)" using True by (simp add: rescue.simps tops_def)
    ultimately show ?thesis using "1.prems" by simp
  next
    case False
    obtain r1 n1 where f: "fold (rescue_one found) tops (res, n) = (r1, n1)" by fastforce
    have "set tops \<subseteq> waiting_set found res" using rescue_tops_waiting by (simp add: tops_def)
    then have "\<forall>k \<in> set tops. map_of res k = None \<and> k \<noteq> recoveredRootID"
      using "1.prems"(1) by (auto simp: waiting_set_def found_ok_def)
    then have "resolving found r1 n1"
      using resolving_rescue_fold [OF "1.prems"(1,2), of tops] f distinct_rescue_tops "1.prems"(1)
      by (simp add: tops_def found_ok_def)
    then have "resolving found (place ord found r1) n1" using resolving_place "1.prems"(1) by blast
    moreover have "rescue ord found (res, n) = rescue ord found (place ord found r1, n1)"
      using False f by (subst rescue.simps) (simp add: tops_def)
    ultimately show ?thesis
      using "1.hyps" [OF tops_def False f [symmetric] refl] "1.prems" by simp
  qed
qed

end
