(* ===== verification/IndexerNames.thy ===== *)
theory IndexerNames
  imports IndexerLaws
begin

text \<open>
  Colliding names: \<open>dedupePaths\<close> and \<open>dedupeFileNames\<close> give every directory a path and every file a
  place of its own, keep the tree, and leave a tree without collisions alone.
\<close>

section \<open>Directories\<close>

lemma Join_append: "pp \<noteq> [] \<Longrightarrow> Join pp (n @ m) = Join pp n @ m"
  by (simp add: Join_def)

lemma Join_prefix: "Join pp [] @ n = Join pp n"
  by (simp add: Join_def)

lemma dir_name_numbered:
  assumes "dir_name n"
  shows "dir_name (numbered n m)"
proof -
  have digit: "byte c < 128 \<and> c \<noteq> CHR ''/''" if "c \<in> set (show_nat m)" for c
    using show_nat_digits [OF that] by (auto simp: is_digit_def)
  have "valid_utf8 ('' ('' @ show_nat m @ '')'')"
    by (rule valid_utf8_ascii) (use digit in auto)
  moreover have "CHR ''/'' \<notin> set (show_nat m)" using digit by auto
  ultimately show ?thesis
    using assms valid_utf8_append [of n "'' ('' @ show_nat m @ '')''"]
    by (auto simp: dir_name_def plain_def numbered_def append_eq_Cons_conv Cons_eq_append_conv)
qed

definition renamed :: "string \<Rightarrow> string \<Rightarrow> bool" where
  "renamed n m \<longleftrightarrow> m = n \<or> (\<exists>i. m = numbered n i)"

definition final_parent :: "(string \<times> string) list \<Rightarrow> string \<Rightarrow> string option" where
  "final_parent final pid = (if pid = [] then Some Root else map_of final pid)"

text \<open>The state of the loop after the ids \<open>ds\<close>.\<close>

definition deduped :: "resolved \<Rightarrow> string set \<Rightarrow> dedupe \<Rightarrow> bool" where
  "deduped dirs ds st \<longleftrightarrow>
     dom (map_of (dd_final st)) = ds \<and> ds \<subseteq> dom (map_of dirs) \<and> distinct (map fst (dd_dirs st)) \<and>
     (\<forall>k. k \<notin> ds \<longrightarrow> map_of (dd_dirs st) k = map_of dirs k) \<and>
     set (dd_taken st) = ran (map_of (dd_final st)) \<and> inj_on (map_of (dd_final st)) ds \<and>
     (\<forall>k \<in> ds. \<forall>r. map_of dirs k = Some r \<longrightarrow> (\<exists>n pp. renamed (d_Name r) n \<and>
        final_parent (dd_final st) (d_ParentID r) = Some pp \<and> map_of (dd_final st) k = Some (Join pp n) \<and>
        map_of (dd_dirs st) k = Some (r\<lparr>d_Name := n, d_Path := Join pp n\<rparr>) \<and>
        (inj_on (\<lambda>k. map_option d_Path (map_of dirs k)) (dom (map_of dirs)) \<longrightarrow> n = d_Name r \<and> Join pp n = d_Path r)))"

lemma dedupedD:
  assumes "deduped dirs ds st" and "k \<in> ds" and "map_of dirs k = Some r"
  shows "\<exists>n pp. renamed (d_Name r) n \<and>
        final_parent (dd_final st) (d_ParentID r) = Some pp \<and> map_of (dd_final st) k = Some (Join pp n) \<and>
        map_of (dd_dirs st) k = Some (r\<lparr>d_Name := n, d_Path := Join pp n\<rparr>) \<and>
        (inj_on (\<lambda>k. map_option d_Path (map_of dirs k)) (dom (map_of dirs)) \<longrightarrow> n = d_Name r \<and> Join pp n = d_Path r)"
  using assms unfolding deduped_def by blast

lemma inj_on_extend:
  "\<lbrakk>inj_on (map_of m) ds; dom (map_of m) = ds; k \<notin> ds; p \<notin> ran (map_of m)\<rbrakk>
    \<Longrightarrow> inj_on (map_of (AList.update k p m)) (insert k ds)"
  by (auto simp: inj_on_def update_conv' ran_def dom_def)

lemma dedupe_step_eq:
  assumes "map_of (dd_dirs st) k = Some r"
  obtains n pp where "pp = (case final_parent (dd_final st) (d_ParentID r) of Some p \<Rightarrow> p | None \<Rightarrow> Root)"
    and "renamed (d_Name r) n" and "Join pp n \<notin> set (dd_taken st)"
    and "Join pp (d_Name r) \<notin> set (dd_taken st) \<Longrightarrow> n = d_Name r"
    and "dedupe_step k st = st\<lparr>dd_taken := Join pp n # dd_taken st, dd_final := AList.update k (Join pp n) (dd_final st),
       dd_dirs := AList.update k (r\<lparr>d_Name := n, d_Path := Join pp n\<rparr>) (dd_dirs st)\<rparr>"
proof -
  define pp where "pp = (case final_parent (dd_final st) (d_ParentID r) of Some p \<Rightarrow> p | None \<Rightarrow> Root)"
  have pp': "pp = (if d_ParentID r = [] then Root
      else case map_of (dd_final st) (d_ParentID r) of Some p \<Rightarrow> p | None \<Rightarrow> Root)"
    by (simp add: pp_def final_parent_def)
  define n where "n = (if Join pp (d_Name r) \<in> set (dd_taken st)
      then numbered (d_Name r) (free_number (dd_taken st) (Join pp []) (d_Name r) 2) else d_Name r)"
  have "Join pp n \<notin> set (dd_taken st)"
    using free_number_free [of "Join pp []" "d_Name r" "dd_taken st" 2] by (simp add: n_def Join_prefix)
  moreover have "renamed (d_Name r) n" by (auto simp: n_def renamed_def)
  moreover have "dedupe_step k st = st\<lparr>dd_taken := Join pp n # dd_taken st,
       dd_final := AList.update k (Join pp n) (dd_final st),
       dd_dirs := AList.update k (r\<lparr>d_Name := n, d_Path := Join pp n\<rparr>) (dd_dirs st)\<rparr>"
    unfolding dedupe_step_def assms option.case Let_def pp' [symmetric] n_def [symmetric] by (rule refl)
  moreover have "Join pp (d_Name r) \<notin> set (dd_taken st) \<Longrightarrow> n = d_Name r" by (simp add: n_def)
  ultimately show ?thesis using that [OF pp_def] by blast
qed

lemma deduped_step:
  assumes "tree_map dirs" and "deduped dirs ds st" and "k \<notin> ds" and "map_of dirs k = Some r"
    and "d_ParentID r \<noteq> [] \<Longrightarrow> d_ParentID r \<in> ds"
  shows "deduped dirs (insert k ds) (dedupe_step k st)"
proof -
  have kr: "map_of (dd_dirs st) k = Some r" using assms by (simp add: deduped_def)
  obtain n pp where pp: "pp = (case final_parent (dd_final st) (d_ParentID r) of Some p \<Rightarrow> p | None \<Rightarrow> Root)"
    and n: "renamed (d_Name r) n" "Join pp n \<notin> set (dd_taken st)" "Join pp (d_Name r) \<notin> set (dd_taken st) \<Longrightarrow> n = d_Name r"
    and s: "dedupe_step k st = st\<lparr>dd_taken := Join pp n # dd_taken st, dd_final := AList.update k (Join pp n) (dd_final st),
       dd_dirs := AList.update k (r\<lparr>d_Name := n, d_Path := Join pp n\<rparr>) (dd_dirs st)\<rparr>"
    using dedupe_step_eq [OF kr] by metis
  have dom: "dom (map_of (dd_final st)) = ds" and taken: "set (dd_taken st) = ran (map_of (dd_final st))"
    using assms(2) by (auto simp: deduped_def)
  have fp: "final_parent (dd_final st) (d_ParentID r) = Some pp"
    using assms(5) dom pp by (auto simp: final_parent_def split: option.splits)
  have grow: "final_parent (AList.update k p (dd_final st)) pid = Some q" if "final_parent (dd_final st) pid = Some q" for p pid q
    using that dom assms(3) by (auto simp: final_parent_def update_conv' split: if_splits)
  have orig: "n = d_Name r \<and> Join pp n = d_Path r"
    if inj: "inj_on (\<lambda>k. map_option d_Path (map_of dirs k)) (dom (map_of dirs))"
  proof -
    have path: "map_of (dd_final st) j = Some (d_Path x)" if "j \<in> ds" "map_of dirs j = Some x" for j x
      using dedupedD [OF assms(2) that] inj by auto
    have "d_Path r = Join pp (d_Name r)"
    proof (cases "d_ParentID r = []")
      case True
      then show ?thesis using fp tree_mapD [OF assms(1,4)] by (simp add: final_parent_def row_ok_def parent_path_def)
    next
      case False
      then obtain p where "map_of dirs (d_ParentID r) = Some p" "d_Path r = Join (d_Path p) (d_Name r)"
        using tree_map_depth [OF assms(1,4)] by blast
      then show ?thesis using path [OF assms(5)] False fp by (simp add: final_parent_def)
    qed
    moreover have "d_Path r \<notin> ran (map_of (dd_final st))"
    proof
      assume "d_Path r \<in> ran (map_of (dd_final st))"
      then obtain j where j: "map_of (dd_final st) j = Some (d_Path r)" by (auto simp: ran_def)
      then have "j \<in> ds" using dom by blast
      moreover from this obtain x where x: "map_of dirs j = Some x" using assms(2) by (auto simp: deduped_def)
      ultimately have "d_Path x = d_Path r" using path j by fastforce
      then have "j = k" using inj x assms(4) by (auto simp: inj_on_def dom_def)
      then show False using \<open>j \<in> ds\<close> assms(3) by simp
    qed
    ultimately show ?thesis using n(3) taken by auto
  qed
  have each: "\<exists>n' pp'. renamed (d_Name x) n' \<and>
        final_parent (AList.update k (Join pp n) (dd_final st)) (d_ParentID x) = Some pp' \<and>
        map_of (AList.update k (Join pp n) (dd_final st)) j = Some (Join pp' n') \<and>
        map_of (AList.update k (r\<lparr>d_Name := n, d_Path := Join pp n\<rparr>) (dd_dirs st)) j
          = Some (x\<lparr>d_Name := n', d_Path := Join pp' n'\<rparr>) \<and>
        (inj_on (\<lambda>k. map_option d_Path (map_of dirs k)) (dom (map_of dirs)) \<longrightarrow> n' = d_Name x \<and> Join pp' n' = d_Path x)"
    if jx: "j \<in> insert k ds" "map_of dirs j = Some x" for j x
  proof (cases "j = k")
    case True
    then have "x = r" using jx assms(4) by simp
    then show ?thesis using True n(1) grow [OF fp] orig
      by (intro exI [of _ n] exI [of _ pp]) (auto simp: update_conv')
  next
    case False
    then have "j \<in> ds" using jx by simp
    from dedupedD [OF assms(2) this jx(2)] show ?thesis
      using False grow by (elim exE) (rule exI, rule exI, auto simp: update_conv')
  qed
  have inj: "inj_on (map_of (AList.update k (Join pp n) (dd_final st))) (insert k ds)"
    using inj_on_extend [OF _ dom assms(3)] assms(2) n(2) taken by (simp add: deduped_def)
  have ran: "ran (map_of (AList.update k (Join pp n) (dd_final st))) = insert (Join pp n) (ran (map_of (dd_final st)))"
    using dom assms(3) by (subst update_conv') (rule ran_map_upd, auto)
  show ?thesis
    using assms(2) inj ran each assms(4) dom taken unfolding s deduped_def
    by (simp add: update_conv' distinct_update dom_def) blast
qed

text \<open>The ids are visited with every parent before its children.\<close>

lemma dedupe_order_sorted:
  assumes "dedupe_order dirs = xs @ k # ys" and "map_of dirs k = Some r" and "j \<in> set ys" and "map_of dirs j = Some x"
  shows "depth_of r \<le> depth_of x"
proof -
  let ?f = "\<lambda>did. (case map_of dirs did of Some d \<Rightarrow> depth_of d | None \<Rightarrow> 0, did)"
  have "sorted (map ?f (dedupe_order dirs))" by (simp add: dedupe_order_def)
  then have "?f k \<le> ?f j" using assms(1,3) by (auto simp: sorted_append)
  then show ?thesis using assms(2,4) by auto
qed

lemma dedupe_order_laws:
  assumes "distinct (map fst dirs)"
  shows "distinct (dedupe_order dirs) \<and> set (dedupe_order dirs) = dom (map_of dirs)"
  using assms by (simp add: dedupe_order_def dom_map_of_conv_image_fst)

lemma deduped_fold:
  assumes "tree_map dirs" and "dedupe_order dirs = xs @ ys"
  shows "deduped dirs (set xs) (fold dedupe_step xs \<lparr>dd_final = [], dd_taken = [], dd_dirs = dirs\<rparr>)"
  using assms(2)
proof (induction xs arbitrary: ys rule: rev_induct)
  case Nil
  then show ?case using assms(1) by (simp add: deduped_def tree_map_def)
next
  case (snoc k xs)
  have laws: "distinct (xs @ k # ys)" "set (xs @ k # ys) = dom (map_of dirs)"
    using dedupe_order_laws [of dirs] assms(1) snoc.prems by (simp_all add: tree_map_def)
  then have "k \<in> dom (map_of dirs)" by (metis in_set_conv_decomp)
  then obtain r where r: "map_of dirs k = Some r" by blast
  have "d_ParentID r \<in> set xs" if ne: "d_ParentID r \<noteq> []"
  proof -
    obtain p where p: "map_of dirs (d_ParentID r) = Some p" "depth_of r = Suc (depth_of p)"
      using tree_map_depth [OF assms(1) r ne] by blast
    then have "d_ParentID r \<in> set (xs @ k # ys)" using laws(2) by (auto simp: dom_def)
    moreover have "d_ParentID r \<noteq> k" using p r by auto
    moreover have "d_ParentID r \<notin> set ys"
      using dedupe_order_sorted [OF _ r _ p(1), of xs ys] snoc.prems p(2) by auto
    ultimately show ?thesis by simp
  qed
  moreover have "deduped dirs (set xs) (fold dedupe_step xs \<lparr>dd_final = [], dd_taken = [], dd_dirs = dirs\<rparr>)"
    using snoc.IH [of "k # ys"] snoc.prems by simp
  moreover have "k \<notin> set xs" using laws(1) by simp
  ultimately show ?case using deduped_step [OF assms(1) _ _ r] by simp
qed

lemma dedupePaths_deduped:
  assumes "tree_map dirs"
  obtains st where "deduped dirs (dom (map_of dirs)) st" and "dedupePaths dirs = dd_dirs st"
proof -
  have "set (dedupe_order dirs) = dom (map_of dirs)"
    using dedupe_order_laws [of dirs] assms by (simp add: tree_map_def)
  then show ?thesis
    using deduped_fold [OF assms, of "dedupe_order dirs" "[]"] that by (simp add: dedupePaths_def)
qed

definition paths_distinct :: "resolved \<Rightarrow> bool" where
  "paths_distinct dirs \<longleftrightarrow> inj_on (\<lambda>k. map_option d_Path (map_of dirs k)) (dom (map_of dirs))"

lemma dedupePaths_laws:
  assumes "tree_map dirs"
  shows "tree_map (dedupePaths dirs)" and "paths_distinct (dedupePaths dirs)"
    and "dom (map_of (dedupePaths dirs)) = dom (map_of dirs)"
    and "map_of dirs k = Some r \<Longrightarrow> \<exists>n p. renamed (d_Name r) n \<and> map_of (dedupePaths dirs) k = Some (r\<lparr>d_Name := n, d_Path := p\<rparr>)"
    and "paths_distinct dirs \<Longrightarrow> map_of (dedupePaths dirs) = map_of dirs"
proof -
  obtain st where st: "deduped dirs (dom (map_of dirs)) st" and e: "dedupePaths dirs = dd_dirs st"
    using dedupePaths_deduped [OF assms] .
  have laws: "\<exists>n pp. renamed (d_Name r) n \<and> final_parent (dd_final st) (d_ParentID r) = Some pp \<and>
      map_of (dd_final st) k = Some (Join pp n) \<and>
      map_of (dedupePaths dirs) k = Some (r\<lparr>d_Name := n, d_Path := Join pp n\<rparr>) \<and>
      (paths_distinct dirs \<longrightarrow> n = d_Name r \<and> Join pp n = d_Path r)" if "map_of dirs k = Some r" for k r
    using dedupedD [OF st _ that] that by (auto simp: e paths_distinct_def)
  have outside: "map_of (dedupePaths dirs) k = None" if "map_of dirs k = None" for k
  proof -
    have "k \<notin> dom (map_of dirs)" using that by (simp add: domIff)
    then have "map_of (dd_dirs st) k = map_of dirs k" using st unfolding deduped_def by blast
    then show ?thesis using that e by simp
  qed
  have final: "map_of (dd_final st) k = map_option d_Path (map_of (dedupePaths dirs) k)" for k
  proof (cases "map_of dirs k")
    case None
    then show ?thesis using outside [OF None] st by (auto simp: deduped_def domIff)
  next
    case (Some r)
    then show ?thesis using laws by fastforce
  qed
  show dom: "dom (map_of (dedupePaths dirs)) = dom (map_of dirs)"
  proof
    show "dom (map_of dirs) \<subseteq> dom (map_of (dedupePaths dirs))" using laws by fastforce
    show "dom (map_of (dedupePaths dirs)) \<subseteq> dom (map_of dirs)" using outside by force
  qed
  have "inj_on (map_of (dd_final st)) (dom (map_of dirs))" using st by (simp add: deduped_def)
  then show "paths_distinct (dedupePaths dirs)" by (simp add: paths_distinct_def dom final [abs_def] fun_eq_iff inj_on_def)
  show "\<exists>n p. renamed (d_Name r) n \<and> map_of (dedupePaths dirs) k = Some (r\<lparr>d_Name := n, d_Path := p\<rparr>)"
    if "map_of dirs k = Some r" using laws [OF that] by blast
  show "map_of (dedupePaths dirs) = map_of dirs" if inj: "paths_distinct dirs"
  proof
    fix k show "map_of (dedupePaths dirs) k = map_of dirs k"
    proof (cases "map_of dirs k")
      case (Some r)
      then obtain n where "map_of (dedupePaths dirs) k = Some (r\<lparr>d_Name := d_Name r, d_Path := d_Path r\<rparr>)"
        using laws [OF Some] inj by force
      then show ?thesis using Some by (cases r) simp
    qed (simp add: outside)
  qed
  have "row_ok (dedupePaths dirs) k r'" if r': "map_of (dedupePaths dirs) k = Some r'" for k r'
  proof -
    obtain r where r: "map_of dirs k = Some r" using r' outside by fastforce
    obtain n pp where n: "renamed (d_Name r) n" "final_parent (dd_final st) (d_ParentID r) = Some pp"
      "r' = r\<lparr>d_Name := n, d_Path := Join pp n\<rparr>" using laws [OF r] r' by auto
    have ok: "row_ok dirs k r" using assms r by (rule tree_mapD)
    have "dir_name n" using n(1) ok dir_name_numbered by (auto simp: renamed_def row_ok_def)
    moreover have "parent_path (dedupePaths dirs) (d_ParentID r) = Some pp"
      using n(2) unfolding final_parent_def parent_path_def final by (auto split: if_splits)
    ultimately show ?thesis using ok n(3) by (simp add: row_ok_def)
  qed
  moreover have "distinct (map fst (dedupePaths dirs))" using st by (simp add: deduped_def e)
  ultimately show "tree_map (dedupePaths dirs)" by (simp add: tree_map_def)
qed

section \<open>Files\<close>

lemma name_key_inj:
  "\<lbrakk>CHR ''/'' \<notin> set (f_DirID f); CHR ''/'' \<notin> set (f_DirID g); name_key f = name_key g\<rbrakk>
    \<Longrightarrow> f_DirID f = f_DirID g \<and> f_Name f = f_Name g"
  by (auto simp: name_key_def append_eq_append_conv2 Cons_eq_append_conv append_eq_Cons_conv)
    (metis in_set_conv_decomp)+

lemma dedupe_files_laws:
  "distinct (map name_key (dedupe_files taken fs)) \<and>
   set (map name_key (dedupe_files taken fs)) \<inter> set taken = {} \<and>
   list_all2 (\<lambda>f g. \<exists>n. g = f\<lparr>f_Name := n\<rparr> \<and> renamed (f_Name f) n) fs (dedupe_files taken fs) \<and>
   (distinct (map name_key fs) \<and> set (map name_key fs) \<inter> set taken = {} \<longrightarrow> dedupe_files taken fs = fs)"
proof (induction taken fs rule: dedupe_files.induct)
  case (2 taken f fs)
  show ?case
  proof (cases "name_key f \<in> set taken")
    case False
    then show ?thesis using "2.IH"(1)
      by (auto simp: renamed_def intro!: exI [of _ "f_Name f"])
  next
    case True
    define f' where "f' = f\<lparr>f_Name := numbered (f_Name f) (free_number taken (f_DirID f @ ''/'') (f_Name f) 2)\<rparr>"
    have "name_key f' \<notin> set taken"
      using free_number_free [of "f_DirID f @ ''/''" "f_Name f" taken 2] by (simp add: f'_def name_key_def)
    moreover have "dedupe_files taken (f # fs) = f' # dedupe_files (name_key f' # taken) fs"
      using True by (simp add: f'_def Let_def)
    ultimately show ?thesis using "2.IH"(2) [OF _ f'_def] True
      by (auto simp: f'_def renamed_def)
  qed
qed simp

end
