(* ===== verification/IndexerRebuild.thy ===== *)
theory IndexerRebuild
  imports IndexerNames
begin

text \<open>
  The rebuild as a whole: what a scan holds, in terms of the newest record of every identity; that the
  rebuilt rows are always accepted; and that a channel which holds the captions of a well-formed index
  gives that index back.
\<close>

section \<open>The scan\<close>

text \<open>The records of a history, newest first: a lookup in these lists finds the newest.\<close>

definition dir_hit :: "Message \<Rightarrow> (string \<times> dirRecord) option" where
  "dir_hit m = (case Decode (h_Caption m) of
      Inr rec \<Rightarrow> if r_Kind rec = KindDir then Some (r_ID rec, \<lparr>dr_rec = rec, dr_msgID = h_ID m\<rparr>) else None
    | Inl _ \<Rightarrow> None)"

definition dir_hits :: "Message list \<Rightarrow> (string \<times> dirRecord) list" where
  "dir_hits ms = List.map_filter dir_hit ms"

definition file_hit :: "string \<Rightarrow> Message \<Rightarrow> (int \<times> Record \<times> segmentRecord) option" where
  "file_hit fid m = (case Decode (h_Caption m) of
      Inr rec \<Rightarrow> if r_Kind rec = KindFile \<and> r_ID rec = fid then Some (r_SegIndex rec, rec, segment_of m) else None
    | Inl _ \<Rightarrow> None)"

definition file_hits :: "string \<Rightarrow> Message list \<Rightarrow> (int \<times> Record \<times> segmentRecord) list" where
  "file_hits fid ms = List.map_filter (file_hit fid) ms"

lemma hits_simps [simp]:
  "dir_hits [] = []" "dir_hits (xs @ ys) = dir_hits xs @ dir_hits ys"
  "dir_hits [m] = (case dir_hit m of None \<Rightarrow> [] | Some h \<Rightarrow> [h])"
  "file_hits fid [] = []" "file_hits fid (xs @ ys) = file_hits fid xs @ file_hits fid ys"
  "file_hits fid [m] = (case file_hit fid m of None \<Rightarrow> [] | Some h \<Rightarrow> [h])"
  by (auto simp: dir_hits_def file_hits_def List.map_filter_def split: option.split)

definition segments_hit :: "(int \<times> Record \<times> segmentRecord) list \<Rightarrow> (int \<times> segmentRecord) list" where
  "segments_hit hs = map (\<lambda>(i, rec, seg). (i, seg)) hs"

text \<open>What the pass keeps of the captions \<open>hs\<close> of one file.\<close>

definition kept :: "(int \<times> Record \<times> segmentRecord) list \<Rightarrow> fileRecord option \<Rightarrow> bool" where
  "kept hs fo \<longleftrightarrow> (case fo of
        None \<Rightarrow> hs = []
      | Some f \<Rightarrow> distinct (map fst (fr_segments f)) \<and> map_of (fr_segments f) = map_of (segments_hit hs) \<and>
          (\<exists>i seg hs'. hs = (i, fr_rec f, seg) # hs'))"

definition scan_ok :: "Message list \<Rightarrow> scanned \<Rightarrow> bool" where
  "scan_ok ms s \<longleftrightarrow> distinct (map fst (sc_dirs s)) \<and> distinct (map fst (sc_files s)) \<and>
     map_of (sc_dirs s) = map_of (dir_hits ms) \<and>
     (\<forall>fid. kept (file_hits fid ms) (map_of (sc_files s) fid))"

lemma scan_okD:
  assumes "scan_ok ms s" and "map_of (sc_files s) fid = Some f"
  shows "distinct (map fst (fr_segments f)) \<and> map_of (fr_segments f) = map_of (segments_hit (file_hits fid ms)) \<and>
          (\<exists>i seg hs. file_hits fid ms = (i, fr_rec f, seg) # hs)"
proof -
  have "kept (file_hits fid ms) (map_of (sc_files s) fid)" using assms(1) unfolding scan_ok_def by blast
  then show ?thesis using assms(2) by (simp add: kept_def)
qed

lemma absorb_dir:
  assumes "scan_ok ms s" and d: "Decode (h_Caption m) = Inr rec" "r_Kind rec = KindDir"
  shows "scan_ok (ms @ [m]) (absorb m s)"
proof -
  have fh: "file_hit fid m = None" for fid using d by (simp add: file_hit_def)
  show ?thesis
  proof (cases "map_of (sc_dirs s) (r_ID rec)")
    case None
    have "map_of (dir_hits (ms @ [m])) = (map_of (dir_hits ms))(r_ID rec \<mapsto> \<lparr>dr_rec = rec, dr_msgID = h_ID m\<rparr>)"
      using None assms(1) by (auto simp: dir_hit_def d scan_ok_def map_add_def fun_eq_iff split: option.split)
    then show ?thesis
      using assms(1) None fh by (simp add: absorb_def d scan_ok_def distinct_update update_conv')
  next
    case (Some x)
    have "map_of (dir_hits (ms @ [m])) = map_of (dir_hits ms)"
      using Some assms(1) by (auto simp: dir_hit_def d scan_ok_def map_add_def fun_eq_iff split: option.split)
    then show ?thesis using assms(1) Some fh by (simp add: absorb_def d scan_ok_def)
  qed
qed

lemma absorb_file:
  assumes ok: "scan_ok ms s" and d: "Decode (h_Caption m) = Inr rec" "r_Kind rec = KindFile"
  shows "scan_ok (ms @ [m]) (absorb m s)"
proof -
  define f where "f = (case map_of (sc_files s) (r_ID rec) of Some f \<Rightarrow> f | None \<Rightarrow> \<lparr>fr_rec = rec, fr_segments = []\<rparr>)"
  have dh: "dir_hit m = None" using d by (simp add: dir_hit_def)
  have fh: "file_hit fid m = (if fid = r_ID rec then Some (r_SegIndex rec, rec, segment_of m) else None)" for fid
    using d by (simp add: file_hit_def)
  have f: "distinct (map fst (fr_segments f)) \<and> map_of (fr_segments f) = map_of (segments_hit (file_hits (r_ID rec) ms))"
    "\<exists>i seg hs. file_hits (r_ID rec) (ms @ [m]) = (i, fr_rec f, seg) # hs"
  proof -
    have "kept (file_hits (r_ID rec) ms) (map_of (sc_files s) (r_ID rec))"
      using ok unfolding scan_ok_def by blast
    then show "distinct (map fst (fr_segments f)) \<and> map_of (fr_segments f) = map_of (segments_hit (file_hits (r_ID rec) ms))"
      "\<exists>i seg hs. file_hits (r_ID rec) (ms @ [m]) = (i, fr_rec f, seg) # hs"
      by (auto simp: f_def fh segments_hit_def kept_def split: option.splits)
  qed
  have a: "absorb m s = (case map_of (fr_segments f) (r_SegIndex rec) of
              Some _ \<Rightarrow> s
            | None \<Rightarrow> s\<lparr>sc_files := AList.update (r_ID rec)
                (f\<lparr>fr_segments := AList.update (r_SegIndex rec) (segment_of m) (fr_segments f)\<rparr>) (sc_files s)\<rparr>)"
    unfolding absorb_def d sum.case Kind.case Let_def f_def [symmetric] by (rule refl)
  have hit: "map_of (segments_hit (file_hits (r_ID rec) (ms @ [m]))) i =
      (if i = r_SegIndex rec \<and> map_of (fr_segments f) i = None then Some (segment_of m) else map_of (fr_segments f) i)" for i
    using f(1) by (auto simp: fh segments_hit_def map_add_def split: option.split)
  show ?thesis
  proof (cases "map_of (fr_segments f) (r_SegIndex rec)")
    case None
    have "map_of (AList.update (r_SegIndex rec) (segment_of m) (fr_segments f))
        = map_of (segments_hit (file_hits (r_ID rec) (ms @ [m])))"
      using None hit by (auto simp: fun_eq_iff update_conv')
    then have new: "kept (file_hits (r_ID rec) (ms @ [m]))
        (Some (f\<lparr>fr_segments := AList.update (r_SegIndex rec) (segment_of m) (fr_segments f)\<rparr>))"
      using f by (simp add: kept_def distinct_update del: hits_simps)
    have "kept (file_hits fid (ms @ [m])) (map_of (sc_files (absorb m s)) fid)" for fid
    proof (cases "fid = r_ID rec")
      case True
      then show ?thesis using new None by (simp add: a update_conv' del: hits_simps)
    next
      case False
      then show ?thesis using ok fh None by (simp add: a scan_ok_def update_conv')
    qed
    then show ?thesis using ok dh None unfolding scan_ok_def by (simp add: a distinct_update del: hits_simps(5,6))
  next
    case (Some seg)
    then have found: "map_of (sc_files s) (r_ID rec) = Some f"
      by (auto simp: f_def split: option.splits)
    have same: "map_of (fr_segments f) = map_of (segments_hit (file_hits (r_ID rec) (ms @ [m])))"
      using Some hit by (auto simp: fun_eq_iff)
    have "kept (file_hits fid (ms @ [m])) (map_of (sc_files s) fid)" for fid
    proof (cases "fid = r_ID rec")
      case True
      then show ?thesis using f same found by (simp add: kept_def del: hits_simps)
    next
      case False
      then show ?thesis using ok fh by (simp add: scan_ok_def)
    qed
    then show ?thesis using ok dh Some unfolding scan_ok_def by (simp add: a del: hits_simps(5,6))
  qed
qed

lemma scan_scan_ok: "scan_ok ms (scan ms)"
proof (induction ms rule: rev_induct)
  case Nil
  then show ?case by (simp add: scan_ok_def scan_def empty_scan_def kept_def)
next
  case (snoc m ms)
  have e: "scan (ms @ [m]) = absorb m (scan ms)" by (simp add: scan_def)
  show ?case
  proof (cases "Decode (h_Caption m)")
    case (Inl x)
    then have "dir_hit m = None" "\<And>fid. file_hit fid m = None" by (simp_all add: dir_hit_def file_hit_def)
    then show ?thesis using snoc Inl by (simp add: e absorb_def scan_ok_def)
  next
    case (Inr rec)
    show ?thesis
    proof (cases "r_Kind rec")
      case KindNone
      then have "dir_hit m = None" "\<And>fid. file_hit fid m = None" using Inr by (simp_all add: dir_hit_def file_hit_def)
      then show ?thesis using snoc Inr KindNone by (simp add: e absorb_def scan_ok_def)
    qed (use absorb_dir absorb_file snoc Inr e in auto)
  qed
qed

section \<open>The index accepts the rows\<close>

lemma insert_all_snoc:
  "\<lbrakk>insert_all ins xs d = (Inr (), d1); ins r d1 = (Inr (), d2)\<rbrakk> \<Longrightarrow> insert_all ins (xs @ [r]) d = (Inr (), d2)"
  by (induction xs arbitrary: d) (auto split: prod.splits sum.splits)

lemma insert_all_ok:
  assumes "\<And>xs r ys d1. \<lbrakk>rs = xs @ r # ys; insert_all ins xs d = (Inr (), d1)\<rbrakk> \<Longrightarrow> \<exists>d2. ins r d1 = (Inr (), d2)"
  shows "\<exists>d'. insert_all ins rs d = (Inr (), d')"
proof -
  have "\<exists>d'. insert_all ins xs d = (Inr (), d')" if "rs = xs @ ys" for xs ys
    using that
  proof (induction xs arbitrary: ys rule: rev_induct)
    case (snoc r xs)
    then obtain d1 where d1: "insert_all ins xs d = (Inr (), d1)" by fastforce
    moreover obtain d2 where "ins r d1 = (Inr (), d2)" using assms [OF _ d1, of r ys] snoc.prems by auto
    ultimately have "insert_all ins (xs @ [r]) d = (Inr (), d2)" by (rule insert_all_snoc)
    then show ?case by blast
  qed simp
  then show ?thesis by simp
qed

definition parents_first :: "Dir list \<Rightarrow> bool" where
  "parents_first rows \<longleftrightarrow> (\<forall>xs r ys. rows = xs @ r # ys \<longrightarrow> d_ParentID r = [] \<or> d_ParentID r \<in> d_ID ` set xs)"

text \<open>Two rows of one folder with the same name have the same path.\<close>

lemma tree_inv_place:
  assumes "tree_inv dirs" and "r \<in> set dirs" and "s \<in> set dirs" and "d_ParentID r = d_ParentID s" and "d_Name r = d_Name s"
  shows "r = s"
proof -
  have "parent_ok dirs r" "parent_ok dirs s" "\<forall>x \<in> set dirs. d_ID x \<noteq> []" using assms by (auto simp: tree_inv_def)
  then have "d_Path r = d_Path s"
    using assms tree_unique_id [OF assms(1)] unfolding parent_ok_def by metis
  then show ?thesis using tree_unique_path [OF assms(1-3)] by simp
qed

lemma distinct_map_split: "\<lbrakk>distinct (map k rs); rs = xs @ r # ys; x \<in> set xs\<rbrakk> \<Longrightarrow> k x \<noteq> k r"
  by (simp add: image_iff) metis

lemma insert_dirs_ok:
  assumes "tree_inv rows" and "parents_first rows" and "\<forall>r \<in> set rows. d_ChannelID r = []" and "db_dirs d = []"
    and "h = (\<lambda>r. r\<lparr>d_OwnerID := owner_of (knownUserIDs d0) (d_OwnerID r)\<rparr>)" and "db_users d = db_users d0"
  shows "\<exists>d'. insert_all (\<lambda>r. InsertDir (h r)) rows d = (Inr (), d')"
proof (rule insert_all_ok)
  fix xs r ys d1
  assume e: "rows = xs @ r # ys" and i: "insert_all (\<lambda>r. InsertDir (h r)) xs d = (Inr (), d1)"
  note d1 = insert_all_dirs [OF i]
  have dist: "distinct (map d_ID rows)" "distinct (map d_Path rows)" using assms(1) by (auto simp: tree_inv_def)
  have "\<not> (d_ParentID x = d_ParentID r \<and> d_Name x = d_Name r)" if "x \<in> set xs" for x
    using tree_inv_place [OF assms(1), of x r] that e dist(1) by auto
  moreover have "d_ID x \<noteq> d_ID r \<and> d_Path x \<noteq> d_Path r" if "x \<in> set xs" for x
    using distinct_map_split [OF dist(1) e that] distinct_map_split [OF dist(2) e that] by blast
  ultimately have "\<not> list_ex (\<lambda>x. d_ID x = d_ID (h r) \<or> d_Path x = d_Path (h r) \<or>
      d_ParentID x = d_ParentID (h r) \<and> d_Name x = d_Name (h r)) (db_dirs d1)"
    by (auto simp: d1 assms(4,5) list_ex_iff)
  moreover have "d_ParentID r = [] \<or> dir_exists (d_ParentID r) d1"
  proof -
    have "d_ParentID r = [] \<or> d_ParentID r \<in> d_ID ` set xs" using assms(2) e unfolding parents_first_def by blast
    then show ?thesis by (fastforce simp: d1 assms(4,5) dir_exists_def list_ex_iff)
  qed
  moreover have "d_OwnerID (h r) = [] \<or> user_exists (d_OwnerID (h r)) d1"
    by (auto simp: d1 assms(5,6) owner_of_def knownUserIDs_def user_exists_def list_ex_iff)
  moreover have "d_ChannelID r = []" using assms(3) e by simp
  ultimately show "\<exists>d2. InsertDir (h r) d1 = (Inr (), d2)"
    by (auto simp: InsertDir_def Let_def assms(5))
qed

lemma insert_files_ok:
  assumes "distinct (map f_ID fs)" and "distinct (map (\<lambda>f. (f_DirID f, f_Name f)) fs)" and "db_files d = []"
    and "\<forall>f \<in> set fs. (f_DirID f = [] \<or> dir_exists (f_DirID f) d) \<and> channel_exists (f_ChannelID f) d"
    and "h = (\<lambda>r. r\<lparr>f_OwnerID := owner_of (knownUserIDs d0) (f_OwnerID r)\<rparr>)" and "db_users d = db_users d0"
  shows "\<exists>d'. insert_all (\<lambda>r. InsertFile (h r)) fs d = (Inr (), d')"
proof (rule insert_all_ok)
  fix xs r ys d1
  assume e: "fs = xs @ r # ys" and i: "insert_all (\<lambda>r. InsertFile (h r)) xs d = (Inr (), d1)"
  note d1 = insert_all_files [OF i]
  have "f_ID x \<noteq> f_ID r \<and> (f_DirID x, f_Name x) \<noteq> (f_DirID r, f_Name r)" if "x \<in> set xs" for x
    using distinct_map_split [OF assms(1) e that] distinct_map_split [OF assms(2) e that] by blast
  then have "\<not> list_ex (\<lambda>x. f_ID x = f_ID (h r) \<or> f_DirID x = f_DirID (h r) \<and> f_Name x = f_Name (h r)) (db_files d1)"
    by (auto simp: d1 assms(3,5) list_ex_iff)
  moreover have "(f_DirID r = [] \<or> dir_exists (f_DirID r) d1) \<and> channel_exists (f_ChannelID r) d1"
    using assms(4) e by (simp add: d1 dir_exists_def channel_exists_def)
  moreover have "f_OwnerID (h r) = [] \<or> user_exists (f_OwnerID (h r)) d1"
    by (auto simp: d1 assms(5,6) owner_of_def knownUserIDs_def user_exists_def list_ex_iff)
  ultimately show "\<exists>d2. InsertFile (h r) d1 = (Inr (), d2)"
    by (auto simp: InsertFile_def Let_def assms(5))
qed

lemma insert_segments_ok:
  assumes "distinct (map (\<lambda>g. (g_FileID g, g_Index g)) gs)" and "db_segments d = []"
    and "\<forall>g \<in> set gs. file_exists (g_FileID g) d"
  shows "\<exists>d'. insert_all insert_segment gs d = (Inr (), d')"
proof (rule insert_all_ok)
  fix xs r ys d1
  assume e: "gs = xs @ r # ys" and i: "insert_all insert_segment xs d = (Inr (), d1)"
  note d1 = insert_all_segments [OF i]
  have "\<not> list_ex (\<lambda>x. g_FileID x = g_FileID r \<and> g_Index x = g_Index r) (db_segments d1)"
    using distinct_map_split [OF assms(1) e] by (auto simp: d1 assms(2) list_ex_iff)
  moreover have "file_exists (g_FileID r) d1" using assms(3) e by (simp add: d1 file_exists_def)
  ultimately show "\<exists>d2. insert_segment r d1 = (Inr (), d2)" by (simp add: insert_segment_def)
qed

lemma ReplaceIndex_succeeds:
  assumes "tree_inv rows" and "parents_first rows" and "\<forall>r \<in> set rows. d_ChannelID r = []"
    and "distinct (map f_ID fs)" and "distinct (map (\<lambda>f. (f_DirID f, f_Name f)) fs)"
    and "\<forall>f \<in> set fs. (f_DirID f = [] \<or> f_DirID f \<in> d_ID ` set rows) \<and> channel_exists (f_ChannelID f) d"
    and "distinct (map (\<lambda>g. (g_FileID g, g_Index g)) gs)" and "\<forall>g \<in> set gs. g_FileID g \<in> f_ID ` set fs"
  shows "\<exists>d'. ReplaceIndex rows fs gs d = (Inr (), d')"
proof -
  define d1 where "d1 = (delete_files (\<lambda>_. True) d)\<lparr>db_segments := [], db_dirs := []\<rparr>"
  have d1s: "db_dirs d1 = []" "db_files d1 = []" "db_segments d1 = []" "db_users d1 = db_users d" "db_channels d1 = db_channels d"
    by (simp_all add: d1_def delete_files_def Let_def)
  obtain d2 where d2: "insert_all (\<lambda>r. InsertDir (r\<lparr>d_OwnerID := owner_of (knownUserIDs d) (d_OwnerID r)\<rparr>)) rows d1 = (Inr (), d2)"
    using insert_dirs_ok [OF assms(1-3) d1s(1) refl d1s(4)] by blast
  note e2 = insert_all_dirs [OF d2]
  have "\<forall>f \<in> set fs. (f_DirID f = [] \<or> dir_exists (f_DirID f) d2) \<and> channel_exists (f_ChannelID f) d2"
    using assms(6) by (fastforce simp: e2 d1s dir_exists_def channel_exists_def list_ex_iff)
  then obtain d3 where d3: "insert_all (\<lambda>f. InsertFile (f\<lparr>f_OwnerID := owner_of (knownUserIDs d) (f_OwnerID f)\<rparr>)) fs d2 = (Inr (), d3)"
    using insert_files_ok [OF assms(4,5), of d2 _ d] by (auto simp: e2 d1s)
  note e3 = insert_all_files [OF d3]
  have "\<forall>g \<in> set gs. file_exists (g_FileID g) d3"
  proof
    fix g assume "g \<in> set gs"
    then obtain f where f: "f \<in> set fs" "f_ID f = g_FileID g" using assms(8) by force
    define row where "row = f\<lparr>f_OwnerID := owner_of (knownUserIDs d) (f_OwnerID f), f_CreatedAt := db_now d2, f_UpdatedAt := db_now d2\<rparr>"
    have "row \<in> set (db_files d3)" using f(1) by (simp add: e3 row_def)
    moreover have "f_ID row = g_FileID g" using f(2) by (simp add: row_def)
    ultimately show "file_exists (g_FileID g) d3" by (auto simp: file_exists_def list_ex_iff)
  qed
  then obtain d4 where "insert_all insert_segment gs d3 = (Inr (), d4)"
    using insert_segments_ok [OF assms(7), of d3] by (auto simp: e2 e3 d1s)
  then show ?thesis
    unfolding ReplaceIndex_def Let_def by (intro exI [of _ d4] Tx_success) (simp add: d1_def [symmetric] d2 d3)
qed

section \<open>The rebuilt rows\<close>

definition tree_rows :: "resolved \<Rightarrow> bool" where
  "tree_rows dirs \<longleftrightarrow> tree_map dirs \<and> paths_distinct dirs"

lemma set_rows: "tree_map dirs \<Longrightarrow> r \<in> set (map snd dirs) \<longleftrightarrow> map_of dirs (d_ID r) = Some r"
proof
  assume t: "tree_map dirs" and "r \<in> set (map snd dirs)"
  then obtain k where k: "(k, r) \<in> set dirs" by auto
  then have "map_of dirs k = Some r" using t by (simp add: tree_map_def)
  then show "map_of dirs (d_ID r) = Some r" using tree_mapD [OF t] by (auto simp: row_ok_def)
qed (force dest: map_of_SomeD)

lemma distinct_snd_via_fst:
  "\<lbrakk>distinct (map fst xs); \<And>k r. (k, r) \<in> set xs \<Longrightarrow> g r = k\<rbrakk> \<Longrightarrow> map g (map snd xs) = map fst xs"
  by (induction xs) auto

lemma tree_rows_inv:
  assumes "tree_rows dirs"
  shows "tree_inv (map snd dirs)"
proof -
  have t: "tree_map dirs" and p: "paths_distinct dirs" using assms by (auto simp: tree_rows_def)
  have "map d_ID (map snd dirs) = map fst dirs"
    using t by (intro distinct_snd_via_fst) (auto simp: tree_map_def row_ok_def)
  then have ids: "distinct (map d_ID (map snd dirs))" using t by (simp add: tree_map_def del: map_map)
  have "d_ID r = d_ID s" if "map_of dirs (d_ID r) = Some r" "map_of dirs (d_ID s) = Some s" "d_Path r = d_Path s" for r s
    using p that by (auto simp: paths_distinct_def inj_on_def dom_def)
  then have "inj_on d_Path (set (map snd dirs))"
    using set_rows [OF t] unfolding inj_on_def by (metis option.inject)
  moreover have "distinct (map snd dirs)" using ids by (meson distinct_map)
  ultimately have paths: "distinct (map d_Path (map snd dirs))" using distinct_map by blast
  have "d_ID r \<noteq> [] \<and> dir_name (d_Name r) \<and> parent_ok (map snd dirs) r" if "r \<in> set (map snd dirs)" for r
  proof -
    have ok: "row_ok dirs (d_ID r) r" using set_rows [OF t] that tree_mapD [OF t] by blast
    moreover have "parent_ok (map snd dirs) r"
    proof (cases "d_ParentID r = []")
      case True
      then show ?thesis using ok by (simp add: row_ok_def parent_path_def parent_ok_def Join_def)
    next
      case False
      then obtain q where q: "map_of dirs (d_ParentID r) = Some q" "d_Path r = Join (d_Path q) (d_Name r)"
        using ok by (auto simp: row_ok_def parent_path_def)
      then have "d_ID q = d_ParentID r" using tree_mapD [OF t] by (simp add: row_ok_def)
      moreover from this have "q \<in> set (map snd dirs)" using q(1) set_rows [OF t] by simp
      moreover obtain ns where ns: "ns \<noteq> []" "\<forall>n \<in> set ns. plain n" "d_Path q = path_of ns"
        using tree_map_path [OF t q(1)] by blast
      moreover have "d_Path q \<noteq> Root" using path_of_eq_Root [OF ns(2)] ns(1,3) by simp
      moreover have "d_Path q \<noteq> []" using ns(3) by (simp add: path_of_def)
      ultimately show ?thesis using q(2) unfolding parent_ok_def Join_def by auto
    qed
    ultimately show ?thesis by (simp add: row_ok_def)
  qed
  then show ?thesis using ids paths unfolding tree_inv_def by blast
qed

lemma tree_inv_set: "\<lbrakk>tree_inv rows; mset rows = mset rows'\<rbrakk> \<Longrightarrow> tree_inv rows'"
proof -
  assume t: "tree_inv rows" and m: "mset rows = mset rows'"
  then have "mset (map d_ID rows) = mset (map d_ID rows')" "mset (map d_Path rows) = mset (map d_Path rows')"
    by simp_all
  then have "distinct (map d_ID rows')" "distinct (map d_Path rows')"
    using t mset_eq_imp_distinct_iff unfolding tree_inv_def by blast+
  moreover have "set rows = set rows'" using m by (rule mset_eq_setD)
  ultimately show ?thesis using t unfolding tree_inv_def parent_ok_def by simp
qed

lemma replace_order_laws:
  assumes "tree_rows dirs"
  shows "tree_inv (replace_order dirs)" and "parents_first (replace_order dirs)"
    and "set (replace_order dirs) = set (map snd dirs)"
proof -
  let ?rows = "replace_order dirs" and ?k = "\<lambda>d. (length (d_Path d), d_Path d)"
  have m: "mset (map snd dirs) = mset ?rows" by (simp add: replace_order_def)
  then show "set ?rows = set (map snd dirs)" by (rule mset_eq_setD [symmetric])
  show inv: "tree_inv ?rows" by (rule tree_inv_set [OF tree_rows_inv [OF assms] m])
  have sorted: "sorted (map ?k ?rows)" by (simp add: replace_order_def)
  show "parents_first ?rows"
    unfolding parents_first_def
  proof (intro allI impI)
    fix xs r ys assume e: "?rows = xs @ r # ys"
    then have "parent_ok ?rows r" using inv by (auto simp: tree_inv_def)
    then show "d_ParentID r = [] \<or> d_ParentID r \<in> d_ID ` set xs"
    proof (unfold parent_ok_def, elim disjE bexE conjE)
      fix p assume p: "p \<in> set ?rows" "d_ID p = d_ParentID r" "d_Path r = d_Path p @ ''/'' @ d_Name r"
      have len: "length (d_Path p) < length (d_Path r)" by (subst p(3)) simp
      have "p \<notin> set (r # ys)"
      proof
        assume "p \<in> set (r # ys)"
        then have "?k r \<le> ?k p" using sorted e by (auto simp: sorted_append)
        then show False using len by auto
      qed
      then have "p \<in> set xs" using p(1) e by auto
      then show ?thesis using p(2) by (metis image_eqI)
    qed simp
  qed
qed

section \<open>The tree of a history\<close>

text \<open>Histories whose directory records have names a path can hold, none with the id of the recovery folder.\<close>

definition proper_history :: "Message list \<Rightarrow> bool" where
  "proper_history ms \<longleftrightarrow> (\<forall>(k, d) \<in> set (dir_hits ms). dir_name (r_Name (dr_rec d)) \<and> k \<noteq> recoveredRootID)"

lemma dir_hitD:
  assumes "(k, d) \<in> set (dir_hits ms)"
  shows "is_ulid k \<and> r_ID (dr_rec d) = k \<and> (r_ParentID (dr_rec d) \<noteq> [] \<longrightarrow> is_ulid (r_ParentID (dr_rec d))) \<and>
    (\<exists>m \<in> set ms. Decode (h_Caption m) = Inr (dr_rec d) \<and> r_Kind (dr_rec d) = KindDir \<and> dr_msgID d = h_ID m)"
proof -
  obtain m where m: "m \<in> set ms" "dir_hit m = Some (k, d)"
    using assms by (auto simp: dir_hits_def List.map_filter_def)
  then obtain rec where rec: "Decode (h_Caption m) = Inr rec" "r_Kind rec = KindDir" "k = r_ID rec"
    "d = \<lparr>dr_rec = rec, dr_msgID = h_ID m\<rparr>"
    by (auto simp: dir_hit_def split: sum.splits if_splits)
  then show ?thesis using decoded_wf [OF rec(1)] m(1) by (auto simp: wf_record_def ok_ids_def)
qed

lemma ulid_no_slash: "is_ulid k \<Longrightarrow> k \<noteq> [] \<and> CHR ''/'' \<notin> set k"
  by (auto simp: is_ulid_def list_all_iff ulid_char_def)

lemma scan_found_ok: "proper_history ms \<Longrightarrow> found_ok (sc_dirs (scan ms))"
  using scan_scan_ok [of ms] ulid_no_slash dir_hitD
  by (fastforce simp: found_ok_def scan_ok_def proper_history_def dest: map_of_SomeD)

lemma resolving_start: "found_ok found \<Longrightarrow> resolving found [] 0"
  by (simp add: resolving_def tree_map_def made_from_def)

lemma buildTree_laws:
  assumes "found_ok (sc_dirs found)"
  shows "tree_rows (buildTree ord found) \<and>
    (\<forall>k d. map_of (sc_dirs found) k = Some d \<longrightarrow> (\<exists>r. map_of (buildTree ord found) k = Some r \<and>
       d_TGMsgID r = dr_msgID d \<and> renamed (r_Name (dr_rec d)) (d_Name r) \<and>
       (d_ParentID r = r_ParentID (dr_rec d) \<or> d_ParentID r = recoveredRootID))) \<and>
    (\<forall>k. map_of (buildTree ord found) k \<noteq> None \<longrightarrow> k = recoveredRootID \<or> map_of (sc_dirs found) k \<noteq> None)"
proof -
  let ?found = "sc_dirs found"
  obtain res n where r: "rescue ord ?found (place ord ?found [], 0) = (res, n)" by fastforce
  then have laws: "resolving ?found res n" "waiting_set ?found res = {}"
    using rescue_laws [OF assms resolving_place [OF assms resolving_start [OF assms]]] by auto
  have b: "buildTree ord found = dedupePaths res" using r by (simp add: buildTree_def)
  have t: "tree_map res" and made: "made_from ?found res" using laws(1) by (auto simp: resolving_def)
  note dd = dedupePaths_laws [OF t]
  have "\<exists>r. map_of (dedupePaths res) k = Some r \<and> d_TGMsgID r = dr_msgID d \<and> renamed (r_Name (dr_rec d)) (d_Name r) \<and>
       (d_ParentID r = r_ParentID (dr_rec d) \<or> d_ParentID r = recoveredRootID)" if d: "map_of ?found k = Some d" for k d
  proof -
    obtain r where r: "map_of res k = Some r" using laws(2) d by (auto simp: waiting_set_def)
    moreover have "k \<noteq> recoveredRootID" using assms d by (auto simp: found_ok_def)
    ultimately have "d_Name r = r_Name (dr_rec d) \<and> d_TGMsgID r = dr_msgID d \<and>
        (d_ParentID r = r_ParentID (dr_rec d) \<or> d_ParentID r = recoveredRootID)"
      using made d by (force simp: made_from_def)
    then show ?thesis using dd(4) [OF r] by auto
  qed
  moreover have "k = recoveredRootID \<or> map_of ?found k \<noteq> None" if "map_of (dedupePaths res) k \<noteq> None" for k
  proof -
    have "map_of res k \<noteq> None" using that dd(3) by blast
    then show ?thesis using made by (fastforce simp: made_from_def)
  qed
  ultimately show ?thesis using dd(1,2) unfolding b tree_rows_def by blast
qed

section \<open>The files of a history\<close>

definition visited_files :: "orders \<Rightarrow> scanned \<Rightarrow> (string \<times> fileRecord) list" where
  "visited_files ord found = concat (map (\<lambda>fid. case map_of (sc_files found) fid of None \<Rightarrow> [] | Some f \<Rightarrow> [(fid, f)])
     (o_files ord (map fst (sc_files found))))"

lemma buildFiles_visited:
  "buildFiles env account ord found dirs channel =
     (let rows = map (\<lambda>(fid, f). recovered_file env channel dirs fid f) (visited_files ord found)
      in (dedupeFileNames rows, concat (map (\<lambda>(fid, f). segment_rows ord account fid f) (visited_files ord found)),
          length (filter (\<lambda>f. f_Status f = StatusBroken) rows)))"
  by (simp add: buildFiles_def visited_files_def Let_def)

lemma concat_lookup_set:
  "set ids = dom m \<Longrightarrow> (k, f) \<in> set (concat (map (\<lambda>k. case m k of None \<Rightarrow> [] | Some f \<Rightarrow> [(k, f)]) ids)) \<longleftrightarrow> m k = Some f"
  by (auto simp: dom_def split: option.splits)

lemma concat_lookup_fst:
  "set ids \<subseteq> dom m \<Longrightarrow> map fst (concat (map (\<lambda>k. case m k of None \<Rightarrow> [] | Some f \<Rightarrow> [(k, f)]) ids)) = ids"
  by (induction ids) (auto split: option.splits)

lemma visited_files_laws:
  assumes "visits_all ord" and "distinct (map fst (sc_files found))"
  shows "distinct (map fst (visited_files ord found))"
    and "(fid, f) \<in> set (visited_files ord found) \<longleftrightarrow> map_of (sc_files found) fid = Some f"
proof -
  let ?ids = "o_files ord (map fst (sc_files found))"
  have m: "mset ?ids = mset (map fst (sc_files found))" using assms(1) by (simp add: visits_all_def)
  have set: "set ?ids = dom (map_of (sc_files found))"
    using mset_eq_setD [OF m] by (simp add: dom_map_of_conv_image_fst)
  show "distinct (map fst (visited_files ord found))"
    using mset_eq_imp_distinct_iff [OF m] assms(2) set by (simp add: visited_files_def concat_lookup_fst)
  show "(fid, f) \<in> set (visited_files ord found) \<longleftrightarrow> map_of (sc_files found) fid = Some f"
    unfolding visited_files_def by (rule concat_lookup_set [OF set])
qed

lemma recovered_file_fields [simp]:
  "f_ID (recovered_file env channel dirs fid f) = fid"
  "f_ChannelID (recovered_file env channel dirs fid f) = c_ID channel"
  "f_Name (recovered_file env channel dirs fid f) = r_Name (fr_rec f)"
  "f_DirID (recovered_file env channel dirs fid f) = (if r_ParentID (fr_rec f) \<noteq> [] \<and> map_of dirs (r_ParentID (fr_rec f)) = None
     then [] else r_ParentID (fr_rec f))"
  by (simp_all add: recovered_file_def Let_def)

lemma distinct_map_comp: "\<lbrakk>distinct (map k xs); \<And>x y. \<lbrakk>x \<in> set xs; y \<in> set xs; g x = g y\<rbrakk> \<Longrightarrow> k x = k y\<rbrakk> \<Longrightarrow> distinct (map g xs)"
  unfolding distinct_map inj_on_def by metis

lemma dedupeFileNames_laws:
  shows "distinct (map f_ID rows) \<Longrightarrow> distinct (map f_ID (dedupeFileNames rows))"
    and "distinct (map (\<lambda>f. (f_DirID f, f_Name f)) (dedupeFileNames rows))"
    and "f \<in> set rows \<Longrightarrow> \<exists>n. renamed (f_Name f) n \<and> f\<lparr>f_Name := n\<rparr> \<in> set (dedupeFileNames rows)"
    and "g \<in> set (dedupeFileNames rows) \<Longrightarrow> \<exists>f \<in> set rows. \<exists>n. renamed (f_Name f) n \<and> g = f\<lparr>f_Name := n\<rparr>"
    and "distinct (map name_key rows) \<Longrightarrow> set (dedupeFileNames rows) = set rows"
proof -
  let ?s = "sort_key f_ID rows"
  have laws: "distinct (map name_key (dedupeFileNames rows))"
    "list_all2 (\<lambda>f g. \<exists>n. g = f\<lparr>f_Name := n\<rparr> \<and> renamed (f_Name f) n) ?s (dedupeFileNames rows)"
    "distinct (map name_key ?s) \<Longrightarrow> dedupeFileNames rows = ?s"
    using dedupe_files_laws [of "[]" ?s] by (auto simp: dedupeFileNames_def)
  have one: "\<forall>f \<in> set ?s. \<exists>n. renamed (f_Name f) n \<and> f\<lparr>f_Name := n\<rparr> \<in> set (dedupeFileNames rows)"
    using laws(2) by (induction rule: list_all2_induct) auto
  have two: "\<forall>g \<in> set (dedupeFileNames rows). \<exists>f \<in> set ?s. \<exists>n. renamed (f_Name f) n \<and> g = f\<lparr>f_Name := n\<rparr>"
    using laws(2) by (induction rule: list_all2_induct) auto
  have "map f_ID (dedupeFileNames rows) = map f_ID ?s"
    using laws(2) by (induction rule: list_all2_induct) auto
  moreover have "mset (map f_ID ?s) = mset (map f_ID rows)" by simp
  ultimately show "distinct (map f_ID rows) \<Longrightarrow> distinct (map f_ID (dedupeFileNames rows))"
    using mset_eq_imp_distinct_iff by metis
  show "distinct (map (\<lambda>f. (f_DirID f, f_Name f)) (dedupeFileNames rows))"
    by (rule distinct_map_comp [OF laws(1)]) (simp add: name_key_def)
  show "f \<in> set rows \<Longrightarrow> \<exists>n. renamed (f_Name f) n \<and> f\<lparr>f_Name := n\<rparr> \<in> set (dedupeFileNames rows)"
    using one by auto
  show "g \<in> set (dedupeFileNames rows) \<Longrightarrow> \<exists>f \<in> set rows. \<exists>n. renamed (f_Name f) n \<and> g = f\<lparr>f_Name := n\<rparr>"
    using two by auto
  have "mset (map name_key ?s) = mset (map name_key rows)" by simp
  then show "distinct (map name_key rows) \<Longrightarrow> set (dedupeFileNames rows) = set rows"
    using laws(3) mset_eq_imp_distinct_iff by (metis set_sort)
qed

lemma segment_rows_laws:
  assumes "visits_all ord" and "distinct (map fst (fr_segments f))"
  shows "distinct (map g_Index (segment_rows ord account fid f))"
    and "g \<in> set (segment_rows ord account fid f) \<longleftrightarrow>
      (\<exists>idx seg. map_of (fr_segments f) idx = Some seg \<and> g = recovered_segment account fid idx seg)"
proof -
  let ?ids = "o_segments ord fid (map fst (fr_segments f))" and ?m = "map_of (fr_segments f)"
  have m: "mset ?ids = mset (map fst (fr_segments f))" using assms(1) by (simp add: visits_all_def)
  have set: "set ?ids = dom ?m"
    using mset_eq_setD [OF m] by (simp add: dom_map_of_conv_image_fst)
  have e: "segment_rows ord account fid f = map (\<lambda>(idx, seg). recovered_segment account fid idx seg)
      (concat (map (\<lambda>k. case ?m k of None \<Rightarrow> [] | Some f \<Rightarrow> [(k, f)]) ?ids))"
    unfolding segment_rows_def map_concat by (simp add: comp_def option.case_distrib cong: option.case_cong)
  have idx: "g_Index (recovered_segment account fid i seg) = i" for i seg by (simp add: recovered_segment_def split: option.split)
  have "map g_Index (segment_rows ord account fid f) = ?ids"
    using concat_lookup_fst [of ?ids ?m] set by (simp add: e comp_def case_prod_unfold idx)
  then show "distinct (map g_Index (segment_rows ord account fid f))"
    using mset_eq_imp_distinct_iff [OF m] assms(2) by simp
  show "g \<in> set (segment_rows ord account fid f) \<longleftrightarrow>
      (\<exists>idx seg. ?m idx = Some seg \<and> g = recovered_segment account fid idx seg)"
    unfolding e using concat_lookup_set [OF set] by (force simp del: set_concat)
qed

lemma distinct_segments:
  assumes "distinct (map fst vs)" and "\<And>fid f. (fid, f) \<in> set vs \<Longrightarrow> distinct (map g_Index (h fid f))"
    and "\<And>fid f g. g \<in> set (h fid f) \<Longrightarrow> g_FileID g = fid"
  shows "distinct (map (\<lambda>g. (g_FileID g, g_Index g)) (concat (map (\<lambda>(fid, f). h fid f) vs)))"
  using assms(1,2)
proof (induction vs)
  case (Cons v vs)
  obtain fid f where v: "v = (fid, f)" by fastforce
  have "distinct (map (\<lambda>g. (g_FileID g, g_Index g)) (h fid f))"
    by (rule distinct_map_comp [OF Cons.prems(2) [of fid f]]) (simp_all add: v)
  moreover have "g_FileID g \<noteq> fid" if "g \<in> set (concat (map (\<lambda>(fid, f). h fid f) vs))" for g
    using that assms(3) Cons.prems(1) by (force simp: v)
  moreover have "distinct (map (\<lambda>g. (g_FileID g, g_Index g)) (concat (map (\<lambda>(fid, f). h fid f) vs)))"
    by (rule Cons.IH) (use Cons.prems in auto)
  ultimately show ?case using assms(3) by (auto simp: v)
qed simp

section \<open>The rebuild\<close>

text \<open>The rows a rebuild hands to the index.\<close>

definition rebuilt_dirs :: "orders \<Rightarrow> Message list \<Rightarrow> resolved" where
  "rebuilt_dirs ord ms = buildTree ord (scan ms)"

definition rebuilt_files :: "('t, 'b) env \<Rightarrow> orders \<Rightarrow> Message list \<Rightarrow> Channel \<Rightarrow> FileRow list" where
  "rebuilt_files env ord ms channel =
     map (\<lambda>(fid, f). recovered_file env channel (rebuilt_dirs ord ms) fid f) (visited_files ord (scan ms))"

definition rebuilt_segments :: "string \<Rightarrow> orders \<Rightarrow> Message list \<Rightarrow> Segment list" where
  "rebuilt_segments account ord ms = concat (map (\<lambda>(fid, f). segment_rows ord account fid f) (visited_files ord (scan ms)))"

lemma recovered_segment_FileID [simp]: "g_FileID (recovered_segment account fid i seg) = fid"
  by (simp add: recovered_segment_def split: option.split)

lemma rebuilt_rows:
  assumes "visits_all ord"
  shows "row \<in> set (rebuilt_files env ord ms channel) \<longleftrightarrow>
      (\<exists>f. map_of (sc_files (scan ms)) (f_ID row) = Some f \<and> row = recovered_file env channel (rebuilt_dirs ord ms) (f_ID row) f)"
    and "distinct (map f_ID (rebuilt_files env ord ms channel))"
    and "g \<in> set (rebuilt_segments account ord ms) \<longleftrightarrow> (\<exists>f idx seg. map_of (sc_files (scan ms)) (g_FileID g) = Some f \<and>
      map_of (fr_segments f) idx = Some seg \<and> g = recovered_segment account (g_FileID g) idx seg)"
    and "distinct (map (\<lambda>g. (g_FileID g, g_Index g)) (rebuilt_segments account ord ms))"
proof -
  note sc = scan_scan_ok [of ms]
  then have "distinct (map fst (sc_files (scan ms)))" by (simp add: scan_ok_def)
  note v = visited_files_laws [OF assms this]
  have seg: "distinct (map fst (fr_segments f))" if "(fid, f) \<in> set (visited_files ord (scan ms))" for fid f
    using scan_okD [OF sc] that v(2) by blast
  show "row \<in> set (rebuilt_files env ord ms channel) \<longleftrightarrow>
      (\<exists>f. map_of (sc_files (scan ms)) (f_ID row) = Some f \<and> row = recovered_file env channel (rebuilt_dirs ord ms) (f_ID row) f)"
    unfolding rebuilt_files_def using v(2) by (force simp: image_iff)
  have "map f_ID (rebuilt_files env ord ms channel) = map fst (visited_files ord (scan ms))"
    by (simp add: rebuilt_files_def comp_def case_prod_unfold)
  then show "distinct (map f_ID (rebuilt_files env ord ms channel))" using v(1) by simp
  show "g \<in> set (rebuilt_segments account ord ms) \<longleftrightarrow> (\<exists>f idx seg. map_of (sc_files (scan ms)) (g_FileID g) = Some f \<and>
      map_of (fr_segments f) idx = Some seg \<and> g = recovered_segment account (g_FileID g) idx seg)"
  proof -
    have "g \<in> set (rebuilt_segments account ord ms) \<longleftrightarrow>
        (\<exists>fid f. map_of (sc_files (scan ms)) fid = Some f \<and> g \<in> set (segment_rows ord account fid f))"
      unfolding rebuilt_segments_def v(2) [symmetric] by auto
    moreover have "g \<in> set (segment_rows ord account fid f) \<longleftrightarrow>
        (\<exists>idx seg. map_of (fr_segments f) idx = Some seg \<and> g = recovered_segment account fid idx seg)"
      if "map_of (sc_files (scan ms)) fid = Some f" for fid f
      using segment_rows_laws(2) [OF assms seg] that v(2) by blast
    ultimately show ?thesis by (metis recovered_segment_FileID)
  qed
  show "distinct (map (\<lambda>g. (g_FileID g, g_Index g)) (rebuilt_segments account ord ms))"
    unfolding rebuilt_segments_def
  proof (rule distinct_segments [OF v(1)])
    show "g_FileID g = fid" if "g \<in> set (segment_rows ord account fid f)" for fid f g
      using that by (auto simp: segment_rows_def split: option.splits)
  qed (rule segment_rows_laws(1) [OF assms seg])
qed

lemma rebuild_unfold:
  assumes "DefaultChannel d = Inr channel" and "history \<lparr>cr_ChannelID = [], cr_TGID = c_TGID channel, cr_AccessHash = c_AccessHash channel\<rparr> = Inr ms"
  shows "rebuild env account ord history d =
    (case ReplaceIndex (replace_order (rebuilt_dirs ord ms)) (dedupeFileNames (rebuilt_files env ord ms channel))
        (rebuilt_segments account ord ms) d of
       (Inl e, d') \<Rightarrow> (Inl (IndexError e), d') | (Inr _, d') \<Rightarrow> (Inr (), d'))"
  using assms by (simp add: rebuild_def Let_def buildFiles_visited rebuilt_dirs_def rebuilt_files_def rebuilt_segments_def replace_def)

lemma DefaultChannel_exists: "DefaultChannel d = Inr c \<Longrightarrow> channel_exists (c_ID c) d"
  by (auto simp: DefaultChannel_def channel_exists_def list_ex_iff dest!: query_row_Some)

lemma rebuild_rows:
  assumes "visits_all ord" and "DefaultChannel d = Inr channel" and "proper_history ms"
    and "history \<lparr>cr_ChannelID = [], cr_TGID = c_TGID channel, cr_AccessHash = c_AccessHash channel\<rparr> = Inr ms"
  shows "\<exists>d'. rebuild env account ord history d = (Inr (), d') \<and> index_inv d' \<and>
    db_dirs d' = map (fresh_dir d) (replace_order (rebuilt_dirs ord ms)) \<and>
    db_files d' = map (fresh_file d) (dedupeFileNames (rebuilt_files env ord ms channel)) \<and>
    db_segments d' = rebuilt_segments account ord ms \<and> db_users d' = db_users d \<and> db_channels d' = db_channels d"
proof -
  let ?dirs = "rebuilt_dirs ord ms" and ?fs = "rebuilt_files env ord ms channel"
  have t: "tree_rows ?dirs"
    using buildTree_laws [OF scan_found_ok [OF assms(3)], of ord] by (simp add: rebuilt_dirs_def)
  then have tm: "tree_map ?dirs" by (simp add: tree_rows_def)
  note ro = replace_order_laws [OF t] and rows = rebuilt_rows [OF assms(1)] and dd = dedupeFileNames_laws [where rows = ?fs]
  have ids: "d_ID ` set (replace_order ?dirs) = dom (map_of ?dirs)"
  proof
    show "d_ID ` set (replace_order ?dirs) \<subseteq> dom (map_of ?dirs)" using set_rows [OF tm] unfolding ro(3) by auto
    show "dom (map_of ?dirs) \<subseteq> d_ID ` set (replace_order ?dirs)"
    proof
      fix k assume "k \<in> dom (map_of ?dirs)"
      then obtain r where r: "map_of ?dirs k = Some r" by blast
      moreover have "d_ID r = k" using tree_mapD [OF tm r] by (simp add: row_ok_def)
      ultimately show "k \<in> d_ID ` set (replace_order ?dirs)" using set_rows [OF tm, of r] unfolding ro(3) by force
    qed
  qed
  have "\<forall>r \<in> set (replace_order ?dirs). d_ChannelID r = []"
    using set_rows [OF tm] tree_mapD [OF tm] unfolding ro(3) by (auto simp: row_ok_def)
  moreover have "\<forall>f \<in> set (dedupeFileNames ?fs). (f_DirID f = [] \<or> f_DirID f \<in> d_ID ` set (replace_order ?dirs)) \<and> channel_exists (f_ChannelID f) d"
  proof
    fix g assume "g \<in> set (dedupeFileNames ?fs)"
    then obtain f where f: "f \<in> set ?fs" "f_DirID g = f_DirID f" "f_ChannelID g = f_ChannelID f" using dd(4) by fastforce
    then obtain fr where "f = recovered_file env channel ?dirs (f_ID f) fr" using rows(1) by blast
    then have "f_ChannelID f = c_ID channel" "f_DirID f = [] \<or> f_DirID f \<in> dom (map_of ?dirs)"
      by (metis recovered_file_fields(2), metis recovered_file_fields(4) domIff)
    then show "(f_DirID g = [] \<or> f_DirID g \<in> d_ID ` set (replace_order ?dirs)) \<and> channel_exists (f_ChannelID g) d"
      using f DefaultChannel_exists [OF assms(2)] ids by simp
  qed
  moreover have "\<forall>g \<in> set (rebuilt_segments account ord ms). g_FileID g \<in> f_ID ` set (dedupeFileNames ?fs)"
  proof
    fix g assume "g \<in> set (rebuilt_segments account ord ms)"
    then obtain fr where "map_of (sc_files (scan ms)) (g_FileID g) = Some fr" using rows(3) by blast
    then have "recovered_file env channel ?dirs (g_FileID g) fr \<in> set ?fs" by (simp add: rows(1))
    then show "g_FileID g \<in> f_ID ` set (dedupeFileNames ?fs)" using dd(3) by (force simp: image_iff)
  qed
  ultimately obtain d' where d': "ReplaceIndex (replace_order ?dirs) (dedupeFileNames ?fs) (rebuilt_segments account ord ms) d = (Inr (), d')"
    using ReplaceIndex_succeeds [OF ro(1,2) _ dd(1) [OF rows(2)] dd(2) _ rows(4)] by blast
  then show ?thesis
    using ReplaceIndex_rows [OF d'] ReplaceIndex_inv [OF d' ro(1)] rebuild_unfold [where history = history, OF assms(2,4), of env account ord] by simp
qed

end
