(* ===== verification/IndexerProps.thy ===== *)
theory IndexerProps
  imports IndexerRebuild
begin

text \<open>
  The two properties of a rebuild: no record of the channel is lost, and a channel that holds the
  captions of an index gives the index back.
\<close>

section \<open>Nothing is lost\<close>

definition recorded :: "db \<Rightarrow> Message \<Rightarrow> Record \<Rightarrow> bool" where
  "recorded d m rec \<longleftrightarrow>
     (case r_Kind rec of
        KindNone \<Rightarrow> False
      | KindDir \<Rightarrow> (\<exists>r \<in> set (db_dirs d). d_ID r = r_ID rec)
      | KindFile \<Rightarrow> (\<exists>f \<in> set (db_files d). f_ID f = r_ID rec) \<and>
          (\<exists>g \<in> set (db_segments d). g_FileID g = r_ID rec \<and> g_Index g = r_SegIndex rec))"

definition from_record :: "Message list \<Rightarrow> Dir \<Rightarrow> bool" where
  "from_record ms r \<longleftrightarrow> (\<exists>m \<in> set ms. \<exists>rec. Decode (h_Caption m) = Inr rec \<and> r_Kind rec = KindDir \<and>
     r_ID rec = d_ID r \<and> h_ID m = d_TGMsgID r \<and> renamed (r_Name rec) (d_Name r) \<and>
     (d_ParentID r = r_ParentID rec \<or> d_ParentID r = recoveredRootID))"

lemma fresh_fields [simp]:
  "d_ID (fresh_dir d r) = d_ID r" "d_ParentID (fresh_dir d r) = d_ParentID r" "d_Name (fresh_dir d r) = d_Name r"
  "d_Path (fresh_dir d r) = d_Path r" "d_TGMsgID (fresh_dir d r) = d_TGMsgID r"
  "f_ID (fresh_file d f) = f_ID f" "f_DirID (fresh_file d f) = f_DirID f" "f_Name (fresh_file d f) = f_Name f"
  "f_Size (fresh_file d f) = f_Size f" "f_SegmentSize (fresh_file d f) = f_SegmentSize f"
  "f_SegmentCount (fresh_file d f) = f_SegmentCount f" "f_Status (fresh_file d f) = f_Status f"
  "f_ChannelID (fresh_file d f) = f_ChannelID f" "f_OwnerID (fresh_file d f) = owner_of (knownUserIDs d) (f_OwnerID f)"
  by (simp_all add: fresh_dir_def fresh_file_def)

lemma hits_mem:
  "m \<in> set ms \<Longrightarrow> dir_hit m = Some h \<Longrightarrow> h \<in> set (dir_hits ms)"
  "m \<in> set ms \<Longrightarrow> file_hit fid m = Some x \<Longrightarrow> x \<in> set (file_hits fid ms)"
  by (auto simp: dir_hits_def file_hits_def List.map_filter_def intro!: rev_image_eqI [of m]) (metis prod_cases3)

lemma map_of_mem: "(k, v) \<in> set xs \<Longrightarrow> map_of xs k \<noteq> None"
  by (metis map_of_eq_None_iff fst_conv image_eqI)

lemma scanned_dir:
  assumes "m \<in> set ms" and "Decode (h_Caption m) = Inr rec" and "r_Kind rec = KindDir"
  shows "\<exists>dr. map_of (sc_dirs (scan ms)) (r_ID rec) = Some dr"
proof -
  have "dir_hit m = Some (r_ID rec, \<lparr>dr_rec = rec, dr_msgID = h_ID m\<rparr>)" using assms by (simp add: dir_hit_def)
  then have "(r_ID rec, \<lparr>dr_rec = rec, dr_msgID = h_ID m\<rparr>) \<in> set (dir_hits ms)" using hits_mem(1) assms(1) by blast
  then have "map_of (dir_hits ms) (r_ID rec) \<noteq> None" by (rule map_of_mem)
  then show ?thesis using scan_scan_ok [of ms] by (simp add: scan_ok_def)
qed

lemma scanned_file:
  assumes "m \<in> set ms" and "Decode (h_Caption m) = Inr rec" and "r_Kind rec = KindFile"
  shows "\<exists>f seg. map_of (sc_files (scan ms)) (r_ID rec) = Some f \<and> map_of (fr_segments f) (r_SegIndex rec) = Some seg"
proof -
  have "file_hit (r_ID rec) m = Some (r_SegIndex rec, rec, segment_of m)" using assms by (simp add: file_hit_def)
  then have h: "(r_SegIndex rec, rec, segment_of m) \<in> set (file_hits (r_ID rec) ms)" using hits_mem(2) assms(1) by blast
  have k: "kept (file_hits (r_ID rec) ms) (map_of (sc_files (scan ms)) (r_ID rec))"
    using scan_scan_ok [of ms] unfolding scan_ok_def by blast
  then obtain f where f: "map_of (sc_files (scan ms)) (r_ID rec) = Some f"
    using h by (cases "map_of (sc_files (scan ms)) (r_ID rec)") (auto simp: kept_def)
  have "(r_SegIndex rec, segment_of m) \<in> set (segments_hit (file_hits (r_ID rec) ms))"
    using h by (force simp: segments_hit_def)
  then have "map_of (segments_hit (file_hits (r_ID rec) ms)) (r_SegIndex rec) \<noteq> None"
    by (rule map_of_mem)
  then show ?thesis using scan_okD [OF scan_scan_ok f] f by auto
qed

text \<open>A directory of the rebuilt tree, but the one for recovered files, is the one of the record it was made from.\<close>

lemma rebuilt_from_record:
  assumes "proper_history ms" and "map_of (rebuilt_dirs ord ms) (d_ID x) = Some x" and "d_ID x \<noteq> recoveredRootID"
  shows "from_record ms (fresh_dir d x)"
proof -
  note bt = buildTree_laws [OF scan_found_ok [OF assms(1)], of ord, folded rebuilt_dirs_def]
  obtain dr where dr: "map_of (sc_dirs (scan ms)) (d_ID x) = Some dr" using bt assms(2,3) by (metis option.exhaust option.simps(3))
  then have "d_TGMsgID x = dr_msgID dr \<and> renamed (r_Name (dr_rec dr)) (d_Name x) \<and>
     (d_ParentID x = r_ParentID (dr_rec dr) \<or> d_ParentID x = recoveredRootID)"
    using bt assms(2) by (metis option.inject)
  moreover have "(d_ID x, dr) \<in> set (dir_hits ms)"
    using dr scan_scan_ok [of ms] by (auto simp: scan_ok_def dest: map_of_SomeD)
  note dir_hitD [OF this]
  ultimately show ?thesis unfolding from_record_def fresh_fields by metis
qed

text \<open>The index is replaced in one transaction.\<close>

lemma failed_rebuild: "rebuild env account ord any d0 = (Inl e, d1) \<Longrightarrow> d1 = d0"
  by (auto simp: rebuild_def replace_def ReplaceIndex_def Tx_def Let_def split: sum.splits prod.splits)

text \<open>The rows of a file record.\<close>

lemma rebuilt_file_recorded:
  assumes "visits_all ord" and m: "m \<in> set ms" "Decode (h_Caption m) = Inr rec" "r_Kind rec = KindFile"
    and d': "db_files d' = map (fresh_file d) (dedupeFileNames (rebuilt_files env ord ms channel))"
      "db_segments d' = rebuilt_segments account ord ms"
  shows "recorded d' m rec"
proof -
  note rows = rebuilt_rows [OF assms(1)]
  obtain f seg where f: "map_of (sc_files (scan ms)) (r_ID rec) = Some f"
    "map_of (fr_segments f) (r_SegIndex rec) = Some seg" using scanned_file [OF m] by blast
  then have "recovered_segment account (r_ID rec) (r_SegIndex rec) seg \<in> set (db_segments d')"
    unfolding d'(2) rows(3) by auto
  moreover have "g_Index (recovered_segment account (r_ID rec) (r_SegIndex rec) seg) = r_SegIndex rec"
    by (simp add: recovered_segment_def split: option.split)
  moreover have "recovered_file env channel (rebuilt_dirs ord ms) (r_ID rec) f \<in> set (rebuilt_files env ord ms channel)"
    using f by (simp add: rows(1))
  then have "\<exists>x \<in> set (db_files d'). f_ID x = r_ID rec"
    using dedupeFileNames_laws(3) [of _ "rebuilt_files env ord ms channel"] by (force simp: d'(1))
  ultimately show ?thesis using m(3) by (auto simp: recorded_def intro!: bexI)
qed

text \<open>C4: a rebuild loses nothing and invents nothing.  If the names of the directory records are names a
directory can have (no slash, not empty, not a dot name: what the drive posts) and none has the id of the
recovery folder, then whatever else the channel holds (cyclic or orphaned directory records, colliding names,
damaged and foreign messages) and in whatever order the maps are visited, the rebuild succeeds, the index is
well formed, every decodable record has its row, and every directory comes from a record of the channel, under
its parent or under the recovery folder, with its name or a numbered one; only the recovery folder is new.
And for any channel at all, a rebuild that fails leaves the index as it was.\<close>

theorem rebuild_loses_nothing:
  assumes "visits_all ord" and "DefaultChannel d = Inr channel" and "proper_history ms"
    and "history \<lparr>cr_ChannelID = [], cr_TGID = c_TGID channel, cr_AccessHash = c_AccessHash channel\<rparr> = Inr ms"
  shows "\<exists>d'. rebuild env account ord history d = (Inr (), d') \<and> index_inv d' \<and>
    (\<forall>m \<in> set ms. \<forall>rec. Decode (h_Caption m) = Inr rec \<longrightarrow> recorded d' m rec) \<and>
    (\<forall>r \<in> set (db_dirs d'). d_ID r = recoveredRootID \<or> from_record ms r) \<and>
    (\<forall>any d0 e d1. rebuild env account ord any d0 = (Inl e, d1) \<longrightarrow> d1 = d0)"
proof -
  let ?dirs = "rebuilt_dirs ord ms" and ?fs = "rebuilt_files env ord ms channel"
  obtain d' where d': "rebuild env account ord history d = (Inr (), d')" "index_inv d'"
    "db_dirs d' = map (fresh_dir d) (replace_order ?dirs)"
    "db_files d' = map (fresh_file d) (dedupeFileNames ?fs)"
    "db_segments d' = rebuilt_segments account ord ms"
    using rebuild_rows [where history = history, OF assms, of env account] by blast
  note bt = buildTree_laws [OF scan_found_ok [OF assms(3)], of ord, folded rebuilt_dirs_def]
  then have t: "tree_rows ?dirs" and tm: "tree_map ?dirs" by (auto simp: tree_rows_def)
  have dirs: "r \<in> set (replace_order ?dirs) \<longleftrightarrow> map_of ?dirs (d_ID r) = Some r" for r
    using replace_order_laws(3) [OF t] set_rows [OF tm] by simp
  have "recorded d' m rec" if m: "m \<in> set ms" "Decode (h_Caption m) = Inr rec" for m rec
  proof (cases "r_Kind rec")
    case KindNone
    then show ?thesis using decoded_wf [OF m(2)] by (simp add: wf_record_def)
  next
    case KindDir
    then obtain dr where "map_of (sc_dirs (scan ms)) (r_ID rec) = Some dr" using scanned_dir [OF m] by blast
    then obtain r where r: "map_of ?dirs (r_ID rec) = Some r" using bt by blast
    then have "d_ID r = r_ID rec" using tree_mapD [OF tm r] by (simp add: row_ok_def)
    moreover from this have "r \<in> set (replace_order ?dirs)" using r dirs by simp
    ultimately show ?thesis using KindDir by (force simp: recorded_def d'(3))
  next
    case KindFile
    then show ?thesis using rebuilt_file_recorded [OF assms(1) m _ d'(4,5)] by blast
  qed
  moreover have "d_ID r = recoveredRootID \<or> from_record ms r" if "r \<in> set (db_dirs d')" for r
  proof (cases "d_ID r = recoveredRootID")
    case False
    from that obtain x where "map_of ?dirs (d_ID x) = Some x" "r = fresh_dir d x" using dirs d'(3) by auto
    then show ?thesis using rebuilt_from_record [OF assms(3)] False by auto
  qed simp
  ultimately show ?thesis using d'(1,2) failed_rebuild by blast
qed

text \<open>A database with nothing but its channel, and a channel with one directory whose parent is gone.\<close>

definition lost_db :: db where
  "lost_db = empty_db\<lparr>db_channels := [sim_channel]\<rparr>"

definition in_order :: orders where
  "in_order = \<lparr>o_dirs = (\<lambda>_ ids. ids), o_files = (\<lambda>ids. ids), o_segments = (\<lambda>_ ids. ids)\<rparr>"

lemma in_order_visits: "visits_all in_order"
  by (simp add: in_order_def visits_all_def)

lemma lost_db_channel: "DefaultChannel lost_db = Inr sim_channel"
  by (simp add: DefaultChannel_def lost_db_def query_row_def sim_channel_def)

theorem rebuild_loses_nothing_witness:
  "\<exists>cap d'. rebuild sim_env ''scanner'' in_order (\<lambda>_. Inr [\<lparr>h_ID = 5, h_Caption = cap, h_Doc = None\<rparr>]) lost_db = (Inr (), d') \<and>
     (\<exists>r \<in> set (db_dirs d'). d_ID r = sample_ulid)"
proof -
  obtain cap where cap: "EncodeDir sample_ulid sample_ulid ''Movies'' ''/gone/Movies'' = Inr cap"
    using EncodeDir_succeeds [OF sample_ulid_ok, of sample_ulid "''Movies''"] sample_ulid_ok by auto
  have dec: "Decode cap = Inr (zero_record\<lparr>r_Kind := KindDir, r_Version := Version, r_ID := sample_ulid,
      r_ParentID := sample_ulid, r_Name := ''Movies''\<rparr>)"
    by (rule dir_caption_decodes [OF cap]) simp
  let ?m = "\<lparr>h_ID = 5, h_Caption = cap, h_Doc = None\<rparr>"
  have "proper_history [?m]"
    using dec by (simp add: proper_history_def dir_hits_def List.map_filter_def dir_hit_def dir_name_ascii plain_def
        sample_ulid_def recoveredRootID_def)
  from rebuild_loses_nothing [OF in_order_visits lost_db_channel this, where history = "\<lambda>_. Inr [?m]" and env = sim_env and account = "''scanner''"]
  obtain d' where d': "rebuild sim_env ''scanner'' in_order (\<lambda>_. Inr [?m]) lost_db = (Inr (), d')"
    "\<forall>m \<in> set [?m]. \<forall>rec. Decode (h_Caption m) = Inr rec \<longrightarrow> recorded d' m rec" by auto
  then have "\<exists>r \<in> set (db_dirs d'). d_ID r = sample_ulid" using dec by (simp add: recorded_def)
  then show ?thesis using d'(1) by blast
qed

section \<open>The index comes back\<close>

text \<open>The channel mirrors an index: every row has its message, with a caption the drive would post for
it (the folder names among the human tags may be out of date), and every other message is foreign.\<close>

definition dir_posted :: "Dir \<Rightarrow> Message \<Rightarrow> bool" where
  "dir_posted r m \<longleftrightarrow> h_ID m = d_TGMsgID r \<and> EncodeDir (d_ID r) (d_ParentID r) (d_Name r) (d_Path r) = Inr (h_Caption m)"

definition caption_record :: "FileRow \<Rightarrow> int \<Rightarrow> string list \<Rightarrow> Record" where
  "caption_record f idx tags = \<lparr>r_Kind = KindFile, r_Version = 0, r_ID = f_ID f, r_ParentID = f_DirID f, r_Name = f_Name f,
     r_SegIndex = idx, r_SegCount = f_SegmentCount f, r_TotalSize = f_Size f, r_SegmentSize = f_SegmentSize f,
     r_OwnerID = f_OwnerID f, r_HumanTags = tags\<rparr>"

definition segment_posted :: "('t, 'b) env \<Rightarrow> FileRow \<Rightarrow> Segment \<Rightarrow> Message \<Rightarrow> bool" where
  "segment_posted env f g m \<longleftrightarrow> h_ID m = g_TGMsgID g \<and>
     (\<exists>tags. EncodeFile (en_letter env) (en_digit env) (caption_record f (g_Index g) tags) = Inr (h_Caption m) \<and>
        (\<forall>t \<in> set tags. \<not> machine_tok (SanitizeTag (en_letter env) (en_digit env) t))) \<and>
     (case h_Doc m of None \<Rightarrow> g_Size g = 0 | Some doc \<Rightarrow> sd_Size doc = g_Size g)"

definition mirrors :: "('t, 'b) env \<Rightarrow> db \<Rightarrow> Channel \<Rightarrow> Message list \<Rightarrow> bool" where
  "mirrors env d channel ms \<longleftrightarrow>
     (\<forall>r \<in> set (db_dirs d). d_ID r \<noteq> recoveredRootID \<and> CHR 0x0A \<notin> set (d_Path r) \<and> (\<exists>m \<in> set ms. dir_posted r m)) \<and>
     (\<forall>f \<in> set (db_files d). f_Status f = StatusComplete \<and> f_ChannelID f = c_ID channel \<and> 1 \<le> f_SegmentCount f \<and>
        (\<forall>i. int64_fields (caption_record f i [])  \<or> \<not> (1 \<le> i \<and> i \<le> f_SegmentCount f)) \<and> \<not> is_start_line (f_Name f) \<and>
        (f_OwnerID f = [] \<or> user_exists (f_OwnerID f) d) \<and>
        g_Index ` {g \<in> set (db_segments d). g_FileID g = f_ID f} = {1 .. f_SegmentCount f}) \<and>
     (\<forall>f \<in> set (db_files d). \<forall>g \<in> set (db_segments d). g_FileID g = f_ID f \<longrightarrow> (\<exists>m \<in> set ms. segment_posted env f g m)) \<and>
     (\<forall>m \<in> set ms. (\<exists>e. Decode (h_Caption m) = Inl e) \<or> (\<exists>r \<in> set (db_dirs d). dir_posted r m) \<or>
        (\<exists>f \<in> set (db_files d). \<exists>g \<in> set (db_segments d). g_FileID g = f_ID f \<and> segment_posted env f g m))"

definition dir_facts :: "Dir \<Rightarrow> string \<times> string \<times> string \<times> string \<times> int" where
  "dir_facts r = (d_ID r, d_ParentID r, d_Name r, d_Path r, d_TGMsgID r)"

definition file_facts :: "FileRow \<Rightarrow> string \<times> string \<times> string \<times> int \<times> int \<times> int \<times> FileStatus \<times> string \<times> string" where
  "file_facts f = (f_ID f, f_DirID f, f_Name f, f_Size f, f_SegmentSize f, f_SegmentCount f, f_Status f, f_ChannelID f, f_OwnerID f)"

definition segment_facts :: "Segment \<Rightarrow> string \<times> int \<times> int \<times> int" where
  "segment_facts g = (g_FileID g, g_Index g, g_Size g, g_TGMsgID g)"

lemma dir_posted_decodes:
  assumes "dir_posted r m" and "CHR 0x0A \<notin> set (d_Path r)"
  shows "Decode (h_Caption m) = Inr (zero_record\<lparr>r_Kind := KindDir, r_Version := Version, r_ID := d_ID r,
           r_ParentID := d_ParentID r, r_Name := d_Name r\<rparr>)"
  using dir_caption_decodes assms unfolding dir_posted_def by blast

lemma segment_posted_decodes:
  assumes "segment_posted env f g m" and "int64_fields (caption_record f (g_Index g) [])"
    and "sane_tables (en_letter env) (en_digit env)" and "\<not> is_start_line (f_Name f)"
  shows "\<exists>tags. Decode (h_Caption m) = Inr (caption_record f (g_Index g) tags\<lparr>r_Version := Version\<rparr>)"
proof -
  obtain tags where t: "EncodeFile (en_letter env) (en_digit env) (caption_record f (g_Index g) tags) = Inr (h_Caption m)"
    "\<forall>t \<in> set tags. \<not> machine_tok (SanitizeTag (en_letter env) (en_digit env) t)"
    using assms(1) by (auto simp: segment_posted_def)
  have "int64_fields (caption_record f (g_Index g) tags)" using assms(2) by (simp add: caption_record_def int64_fields_def)
  from file_caption_decodes [OF t(1) this assms(3)] t(2) assms(4) show ?thesis
    by (auto simp: caption_record_def)
qed

definition mirrored :: "('t, 'b) env \<Rightarrow> db \<Rightarrow> Channel \<Rightarrow> Message list \<Rightarrow> bool" where
  "mirrored env d channel ms \<longleftrightarrow> index_inv d \<and> mirrors env d channel ms \<and> sane_tables (en_letter env) (en_digit env)"

lemma mirroredD:
  assumes "mirrored env d channel ms"
  shows "tree_inv (db_dirs d)" "mirrors env d channel ms" "sane_tables (en_letter env) (en_digit env)"
  using assms by (simp_all add: mirrored_def index_inv_def)

text \<open>A message is a directory's, a segment's or foreign.\<close>

lemma message_cases:
  assumes mi: "mirrored env d channel ms" and "m \<in> set ms" and "Decode (h_Caption m) = Inr rec"
  obtains (dir) r where "r \<in> set (db_dirs d)" "dir_posted r m"
      "rec = zero_record\<lparr>r_Kind := KindDir, r_Version := Version, r_ID := d_ID r, r_ParentID := d_ParentID r, r_Name := d_Name r\<rparr>"
    | (seg) f g tags where "f \<in> set (db_files d)" "g \<in> set (db_segments d)" "g_FileID g = f_ID f" "segment_posted env f g m"
      "rec = caption_record f (g_Index g) tags\<lparr>r_Version := Version\<rparr>"
proof -
  consider r where "r \<in> set (db_dirs d)" "dir_posted r m"
    | f g where "f \<in> set (db_files d)" "g \<in> set (db_segments d)" "g_FileID g = f_ID f" "segment_posted env f g m"
    using mirroredD(2) [OF mi] assms(2,3) unfolding mirrors_def by fastforce
  then show ?thesis
  proof cases
    case 1
    then show ?thesis using dir dir_posted_decodes [of r m] mirroredD(2) [OF mi] assms(3) by (auto simp: mirrors_def)
  next
    case 2
    have "g_Index g \<in> {1 .. f_SegmentCount f}" using 2 mirroredD(2) [OF mi] unfolding mirrors_def by blast
    then have "int64_fields (caption_record f (g_Index g) [])" "\<not> is_start_line (f_Name f)"
      using 2(1) mirroredD(2) [OF mi] by (auto simp: mirrors_def)
    then show ?thesis using seg [OF 2] segment_posted_decodes [OF 2(4) _ mirroredD(3) [OF mi]] assms(3) by auto
  qed
qed

lemma dir_hit_row:
  assumes mi: "mirrored env d channel ms" and "(k, dr) \<in> set (dir_hits ms)"
  shows "\<exists>r \<in> set (db_dirs d). d_ID r = k \<and> r_ParentID (dr_rec dr) = d_ParentID r \<and> r_Name (dr_rec dr) = d_Name r \<and>
    dr_msgID dr = d_TGMsgID r"
proof -
  obtain m where m: "m \<in> set ms" "Decode (h_Caption m) = Inr (dr_rec dr)" "r_Kind (dr_rec dr) = KindDir"
    "dr_msgID dr = h_ID m" "r_ID (dr_rec dr) = k"
    using dir_hitD [OF assms(2)] by blast
  from mi m(1,2) show ?thesis
  proof (cases rule: message_cases)
    case (dir r)
    then show ?thesis using m by (auto simp: dir_posted_def)
  next
    case (seg f g tags)
    then show ?thesis using m(3) by (simp add: caption_record_def)
  qed
qed

lemma row_dir_hit:
  assumes mi: "mirrored env d channel ms" and "r \<in> set (db_dirs d)"
  shows "\<exists>dr. map_of (sc_dirs (scan ms)) (d_ID r) = Some dr \<and> r_ParentID (dr_rec dr) = d_ParentID r \<and>
    r_Name (dr_rec dr) = d_Name r \<and> dr_msgID dr = d_TGMsgID r"
proof -
  obtain m where m: "m \<in> set ms" "dir_posted r m" "CHR 0x0A \<notin> set (d_Path r)"
    using mirroredD(2) [OF mi] assms(2) unfolding mirrors_def by blast
  then obtain dr where dr: "map_of (sc_dirs (scan ms)) (d_ID r) = Some dr"
    using scanned_dir [OF m(1) dir_posted_decodes [OF m(2,3)]] by auto
  then have "(d_ID r, dr) \<in> set (dir_hits ms)"
    using scan_scan_ok [of ms] by (auto simp: scan_ok_def dest: map_of_SomeD)
  then show ?thesis using dir_hit_row [OF mi, of "d_ID r" dr] tree_unique_id [OF mirroredD(1) [OF mi] _ assms(2)] dr by blast
qed

lemma mirrored_proper:
  assumes mi: "mirrored env d channel ms"
  shows "proper_history ms"
  unfolding proper_history_def using dir_hit_row [OF mi] mirroredD(1,2) [OF mi]
  by (fastforce simp: tree_inv_def mirrors_def)

text \<open>The first placement settles every directory at its old path; there is nothing to rescue.\<close>

lemma mirrored_placed:
  assumes mi: "mirrored env d channel ms" and ord: "visits_all ord" and "r \<in> set (db_dirs d)"
  shows "\<exists>x. map_of (place ord (sc_dirs (scan ms)) []) (d_ID r) = Some x \<and> dir_facts x = dir_facts r"
  using mirroredD(1) [OF mi] assms(3)
proof (induction rule: tree_induct)
  let ?found = "sc_dirs (scan ms)" and ?res = "place ord (sc_dirs (scan ms)) []"
  have fo: "found_ok ?found" by (rule scan_found_ok [OF mirrored_proper [OF mi]])
  have laws: "tree_map ?res" "made_from ?found ?res" "map_of ?res recoveredRootID = None"
    using resolving_place [OF fo resolving_start [OF fo], of ord] by (simp_all add: resolving_def)
  have settled: "\<exists>x. map_of ?res (d_ID r) = Some x \<and> d_ID x = d_ID r \<and> d_ParentID x = d_ParentID r \<and>
      d_Name x = d_Name r \<and> d_TGMsgID x = d_TGMsgID r \<and> d_Path x = Join pp (d_Name r)"
    if r: "r \<in> set (db_dirs d)" and pp: "parent_path ?res (d_ParentID r) = Some pp" for r pp
  proof -
    obtain dr where dr: "map_of ?found (d_ID r) = Some dr" "r_ParentID (dr_rec dr) = d_ParentID r"
      "r_Name (dr_rec dr) = d_Name r" "dr_msgID dr = d_TGMsgID r" using row_dir_hit [OF mi r] by blast
    then have "map_of ?res (d_ID r) \<noteq> None"
      using place_settles [OF ord, of ?found "[]" "d_ID r"] pp by (simp add: can_place_def)
    then obtain x where x: "map_of ?res (d_ID r) = Some x" by blast
    have "d_ID r \<noteq> recoveredRootID" using r mirroredD(2) [OF mi] by (simp add: mirrors_def)
    then have m: "d_Name x = d_Name r \<and> d_TGMsgID x = d_TGMsgID r \<and>
        (d_ParentID x = d_ParentID r \<or> d_ParentID x = recoveredRootID)"
      using laws(2) x dr unfolding made_from_def by fastforce
    have ok: "row_ok ?res (d_ID r) x" using laws(1) x by (rule tree_mapD)
    then have "d_ParentID x \<noteq> recoveredRootID" using laws(3) by (auto simp: row_ok_def parent_path_def recoveredRootID_def)
    then show ?thesis using x m ok pp by (auto simp: row_ok_def)
  qed
  {
    case (top r)
    then show ?case using settled [of r Root] by (auto simp: parent_path_def dir_facts_def Join_def)
  next
    case (child r p)
    then obtain y where y: "map_of ?res (d_ID p) = Some y" "d_Path y = d_Path p" by (auto simp: dir_facts_def)
    have "d_Path p \<noteq> Root" "d_Path p \<noteq> []" "d_ID p \<noteq> []" using tree_path_ok [OF mirroredD(1) [OF mi] child(2)] mirroredD(1) [OF mi] child(2)
      by (auto simp: tree_inv_def)
    moreover from this have "parent_path ?res (d_ParentID r) = Some (d_Path p)" using y child(3) by (simp add: parent_path_def)
    ultimately show ?case using settled [OF child(1), of "d_Path p"] child(4) by (auto simp: dir_facts_def Join_def)
  }
qed

lemma mirrored_tree:
  assumes mi: "mirrored env d channel ms" and ord: "visits_all ord"
  shows "dir_facts ` set (map snd (rebuilt_dirs ord ms)) = dir_facts ` set (db_dirs d)"
    and "r \<in> set (db_dirs d) \<Longrightarrow> map_of (rebuilt_dirs ord ms) (d_ID r) \<noteq> None"
proof -
  let ?found = "sc_dirs (scan ms)" and ?res = "place ord (sc_dirs (scan ms)) []"
  have fo: "found_ok ?found" by (rule scan_found_ok [OF mirrored_proper [OF mi]])
  have laws: "tree_map ?res" "made_from ?found ?res" "map_of ?res recoveredRootID = None"
    using resolving_place [OF fo resolving_start [OF fo], of ord] by (simp_all add: resolving_def)
  have known: "\<exists>r \<in> set (db_dirs d). d_ID r = k" if "map_of ?found k \<noteq> None" for k
    using that dir_hit_row [OF mi] scan_scan_ok [of ms] by (fastforce simp: scan_ok_def dest: map_of_SomeD)
  have from_row: "\<exists>r \<in> set (db_dirs d). d_ID r = k \<and> dir_facts r = dir_facts x" if x: "map_of ?res k = Some x" for k x
  proof -
    have "map_of ?found k \<noteq> None" using laws(2,3) x by (fastforce simp: made_from_def)
    then obtain r where r: "r \<in> set (db_dirs d)" "d_ID r = k" using known by blast
    then show ?thesis using mirrored_placed [OF mi ord r(1)] x by auto
  qed
  have "waiting_set ?found ?res = {}"
    using known mirrored_placed [OF mi ord] by (fastforce simp: waiting_set_def)
  then have "rescue_tops ?found ?res = []" using rescue_tops_waiting [of ?found ?res] by simp
  then have b: "rebuilt_dirs ord ms = dedupePaths ?res"
    by (simp add: rebuilt_dirs_def buildTree_def rescue.simps)
  have "k = l" if kl: "map_of ?res k = Some x" "map_of ?res l = Some y" "d_Path x = d_Path y" for k l x y
  proof -
    obtain r s where "r \<in> set (db_dirs d)" "s \<in> set (db_dirs d)" "d_ID r = k" "d_ID s = l" "d_Path r = d_Path s"
      using from_row [OF kl(1)] from_row [OF kl(2)] kl(3) by (auto simp: dir_facts_def)
    then show ?thesis using tree_unique_path [OF mirroredD(1) [OF mi]] by blast
  qed
  then have "paths_distinct ?res" by (auto simp: paths_distinct_def inj_on_def)
  note dd = dedupePaths_laws [OF laws(1)] dedupePaths_laws(5) [OF laws(1) this]
  have same: "map_of (rebuilt_dirs ord ms) = map_of ?res" using dd(6) by (simp add: b)
  have tm: "tree_map (rebuilt_dirs ord ms)" using dd(1) by (simp add: b)
  show "dir_facts ` set (map snd (rebuilt_dirs ord ms)) = dir_facts ` set (db_dirs d)"
  proof
    show "dir_facts ` set (map snd (rebuilt_dirs ord ms)) \<subseteq> dir_facts ` set (db_dirs d)"
    proof
      fix y assume "y \<in> dir_facts ` set (map snd (rebuilt_dirs ord ms))"
      then obtain x where "x \<in> set (map snd (rebuilt_dirs ord ms))" "y = dir_facts x" by blast
      then show "y \<in> dir_facts ` set (db_dirs d)"
        using from_row [of "d_ID x" x] set_rows [OF tm, of x] unfolding same by (metis image_eqI)
    qed
    show "dir_facts ` set (db_dirs d) \<subseteq> dir_facts ` set (map snd (rebuilt_dirs ord ms))"
    proof
      fix y assume "y \<in> dir_facts ` set (db_dirs d)"
      then obtain r where r: "r \<in> set (db_dirs d)" "y = dir_facts r" by blast
      obtain x where x: "map_of ?res (d_ID r) = Some x" "dir_facts x = dir_facts r" using mirrored_placed [OF mi ord r(1)] by blast
      then have "x \<in> set (map snd (rebuilt_dirs ord ms))" using set_rows [OF tm, of x] by (simp add: same dir_facts_def)
      then show "y \<in> dir_facts ` set (map snd (rebuilt_dirs ord ms))" using x(2) r(2) by (metis image_eqI)
    qed
  qed
  show "r \<in> set (db_dirs d) \<Longrightarrow> map_of (rebuilt_dirs ord ms) (d_ID r) \<noteq> None"
    using mirrored_placed [OF mi ord] by (fastforce simp: same)
qed

section \<open>The files come back\<close>

lemma mirrored_hit:
  assumes mi: "mirrored env d channel ms" and "(i, rec, seg) \<in> set (file_hits fid ms)"
  shows "wf_record rec \<and> (\<exists>f \<in> set (db_files d). \<exists>g \<in> set (db_segments d). \<exists>tags. f_ID f = fid \<and> g_FileID g = fid \<and> g_Index g = i \<and>
    rec = caption_record f i tags\<lparr>r_Version := Version\<rparr> \<and> sr_msgID seg = g_TGMsgID g \<and> sr_size seg = g_Size g)"
proof -
  obtain m where m: "m \<in> set ms" "file_hit fid m = Some (i, rec, seg)"
    using assms(2) by (auto simp: file_hits_def List.map_filter_def)
  then have r: "Decode (h_Caption m) = Inr rec" "r_Kind rec = KindFile" "r_ID rec = fid" "r_SegIndex rec = i" "seg = segment_of m"
    by (auto simp: file_hit_def split: sum.splits if_splits)
  from mi m(1) r(1) show ?thesis
  proof (cases rule: message_cases)
    case (dir x)
    then show ?thesis using r(2) by simp
  next
    case (seg f g tags)
    then have "sr_msgID (segment_of m) = g_TGMsgID g \<and> sr_size (segment_of m) = g_Size g"
      by (auto simp: segment_posted_def segment_of_def split: option.splits)
    moreover have "f_ID f = fid" "g_Index g = i" using seg(5) r(3,4) by (auto simp: caption_record_def)
    ultimately show ?thesis using seg(1,2,3,5) r(5) decoded_wf [OF r(1)] by blast
  qed
qed

lemma files_invD:
  assumes "index_inv d"
  shows "\<lbrakk>f \<in> set (db_files d); f' \<in> set (db_files d); f_ID f = f_ID f'\<rbrakk> \<Longrightarrow> f = f'"
    and "\<lbrakk>f \<in> set (db_files d); f' \<in> set (db_files d); f_DirID f = f_DirID f'; f_Name f = f_Name f'\<rbrakk> \<Longrightarrow> f = f'"
    and "\<lbrakk>g \<in> set (db_segments d); g' \<in> set (db_segments d); g_FileID g = g_FileID g'; g_Index g = g_Index g'\<rbrakk> \<Longrightarrow> g = g'"
    and "g \<in> set (db_segments d) \<Longrightarrow> \<exists>f \<in> set (db_files d). f_ID f = g_FileID g"
  using assms by (auto simp: index_inv_def files_inv_def distinct_map inj_on_def file_exists_def list_ex_iff)

text \<open>What the scan holds of a stored file: its record and exactly its segments.\<close>

lemma mirrored_file:
  assumes mi: "mirrored env d channel ms" and f: "f \<in> set (db_files d)"
  shows "\<exists>fr idx tags. map_of (sc_files (scan ms)) (f_ID f) = Some fr \<and> fr_rec fr = caption_record f idx tags\<lparr>r_Version := Version\<rparr> \<and>
    wf_record (fr_rec fr) \<and> dom (map_of (fr_segments fr)) = {1 .. f_SegmentCount f} \<and> distinct (map fst (fr_segments fr)) \<and>
    (\<forall>i seg. map_of (fr_segments fr) i = Some seg \<longrightarrow> (\<exists>g \<in> set (db_segments d). g_FileID g = f_ID f \<and> g_Index g = i \<and>
       sr_msgID seg = g_TGMsgID g \<and> sr_size seg = g_Size g))"
proof -
  have inv: "index_inv d" using mi by (simp add: mirrored_def)
  have idx: "g_Index ` {g \<in> set (db_segments d). g_FileID g = f_ID f} = {1 .. f_SegmentCount f}"
    and count: "1 \<le> f_SegmentCount f" "\<not> is_start_line (f_Name f)"
    and ints: "\<And>i. 1 \<le> i \<Longrightarrow> i \<le> f_SegmentCount f \<Longrightarrow> int64_fields (caption_record f i [])"
  proof -
    have m: "1 \<le> f_SegmentCount f \<and> \<not> is_start_line (f_Name f) \<and>
        (\<forall>i. int64_fields (caption_record f i [])  \<or> \<not> (1 \<le> i \<and> i \<le> f_SegmentCount f)) \<and>
        g_Index ` {g \<in> set (db_segments d). g_FileID g = f_ID f} = {1 .. f_SegmentCount f}"
      using mirroredD(2) [OF mi] f unfolding mirrors_def by meson
    show "g_Index ` {g \<in> set (db_segments d). g_FileID g = f_ID f} = {1 .. f_SegmentCount f}" using m by (elim conjE)
    show "1 \<le> f_SegmentCount f" "\<not> is_start_line (f_Name f)" using m by simp_all
    show "int64_fields (caption_record f i [])" if "1 \<le> i" "i \<le> f_SegmentCount f" for i
      using m that by (elim conjE) blast
  qed
  have hit: "i \<in> dom (map_of (fr_segments fr))" if fr: "map_of (sc_files (scan ms)) (f_ID f) = Some fr" and i: "i \<in> {1 .. f_SegmentCount f}" for fr i
  proof -
    have "i \<in> g_Index ` {g \<in> set (db_segments d). g_FileID g = f_ID f}" using idx i by simp
    then obtain g where g: "g \<in> set (db_segments d)" "g_FileID g = f_ID f" "g_Index g = i" by auto
    then obtain m where m: "m \<in> set ms" "segment_posted env f g m" using mirroredD(2) [OF mi] f unfolding mirrors_def by blast
    then obtain tags where "Decode (h_Caption m) = Inr (caption_record f i tags\<lparr>r_Version := Version\<rparr>)"
      using segment_posted_decodes [OF m(2) _ mirroredD(3) [OF mi] count(2)] ints i g(3) by auto
    from scanned_file [OF m(1) this] show ?thesis using fr by (auto simp: caption_record_def)
  qed
  have "1 \<in> g_Index ` {g \<in> set (db_segments d). g_FileID g = f_ID f}" using idx count by simp
  then obtain g where "g \<in> set (db_segments d)" "g_FileID g = f_ID f" "g_Index g = 1" by auto
  then obtain m where m: "m \<in> set ms" "segment_posted env f g m" "g_Index g = 1" using mirroredD(2) [OF mi] f unfolding mirrors_def by blast
  then obtain tags where "Decode (h_Caption m) = Inr (caption_record f 1 tags\<lparr>r_Version := Version\<rparr>)"
    using segment_posted_decodes [OF m(2) _ mirroredD(3) [OF mi] count(2)] ints count(1) by auto
  from scanned_file [OF m(1) this] obtain fr where fr: "map_of (sc_files (scan ms)) (f_ID f) = Some fr"
    by (auto simp: caption_record_def)
  note ok = scan_okD [OF scan_scan_ok fr]
  then obtain i0 seg0 where "(i0, fr_rec fr, seg0) \<in> set (file_hits (f_ID f) ms)" by fastforce
  from mirrored_hit [OF mi this] obtain idx0 tags0 where
    rec: "wf_record (fr_rec fr)" "fr_rec fr = caption_record f idx0 tags0\<lparr>r_Version := Version\<rparr>"
    using files_invD(1) [OF inv _ f] by blast
  have segs: "\<exists>g \<in> set (db_segments d). g_FileID g = f_ID f \<and> g_Index g = i \<and> sr_msgID seg = g_TGMsgID g \<and> sr_size seg = g_Size g"
    if "map_of (fr_segments fr) i = Some seg" for i seg
  proof -
    have "(i, seg) \<in> set (segments_hit (file_hits (f_ID f) ms))" using ok that by (auto dest: map_of_SomeD)
    then obtain r where "(i, r, seg) \<in> set (file_hits (f_ID f) ms)" by (auto simp: segments_hit_def)
    from mirrored_hit [OF mi this] show ?thesis by blast
  qed
  have "dom (map_of (fr_segments fr)) = {1 .. f_SegmentCount f}"
    using segs idx hit [OF fr] by (auto simp: dom_def)
  then show ?thesis using fr rec ok segs by blast
qed

lemma mirrored_segment:
  assumes "mirrored env d channel ms" and "f \<in> set (db_files d)" and "map_of (sc_files (scan ms)) (f_ID f) = Some fr"
    and "map_of (fr_segments fr) i = Some seg"
  shows "\<exists>g \<in> set (db_segments d). g_FileID g = f_ID f \<and> g_Index g = i \<and> sr_msgID seg = g_TGMsgID g \<and> sr_size seg = g_Size g"
  using mirrored_file [OF assms(1,2)] assms(3,4) by (metis option.inject)

lemma mirrored_known:
  assumes mi: "mirrored env d channel ms" and "map_of (sc_files (scan ms)) fid = Some fr"
  shows "\<exists>f \<in> set (db_files d). f_ID f = fid"
proof -
  obtain i seg where "(i, fr_rec fr, seg) \<in> set (file_hits fid ms)" using scan_okD [OF scan_scan_ok assms(2)] by fastforce
  from mirrored_hit [OF mi this] show ?thesis by blast
qed

lemma mirrored_file_row:
  assumes mi: "mirrored env d channel ms" and ord: "visits_all ord" and f: "f \<in> set (db_files d)"
    and fr: "map_of (sc_files (scan ms)) (f_ID f) = Some fr" and users: "db_users d0 = db_users d"
  shows "file_facts (fresh_file d0 (recovered_file env channel (rebuilt_dirs ord ms) (f_ID f) fr)) = file_facts f"
    and "CHR ''/'' \<notin> set (f_DirID f)"
proof -
  obtain idx tags where r: "fr_rec fr = caption_record f idx tags\<lparr>r_Version := Version\<rparr>" "wf_record (fr_rec fr)"
    "dom (map_of (fr_segments fr)) = {1 .. f_SegmentCount f}" "distinct (map fst (fr_segments fr))"
    using mirrored_file [OF mi f] fr by auto
  have "length (fr_segments fr) = card (set (map fst (fr_segments fr)))"
    using distinct_card [OF r(4)] by simp
  also have "\<dots> = nat (f_SegmentCount f)" using r(3) by (simp add: dom_map_of_conv_image_fst)
  finally have len: "int (length (fr_segments fr)) = f_SegmentCount f"
    using mirroredD(2) [OF mi] f by (auto simp: mirrors_def)
  have "f_DirID f = [] \<or> is_ulid (f_DirID f)" using r(1,2) by (auto simp: wf_record_def ok_ids_def caption_record_def)
  then show "CHR ''/'' \<notin> set (f_DirID f)" using ulid_no_slash by auto
  have dir: "map_of (rebuilt_dirs ord ms) (f_DirID f) \<noteq> None" if "f_DirID f \<noteq> []"
  proof -
    have "\<exists>r \<in> set (db_dirs d). d_ID r = f_DirID f"
      using mi f that by (auto simp: mirrored_def index_inv_def files_inv_def dir_exists_def list_ex_iff)
    then obtain r where "r \<in> set (db_dirs d)" "d_ID r = f_DirID f" by blast
    then show ?thesis using mirrored_tree(2) [OF mi ord] by metis
  qed
  have "f_Status f = StatusComplete" "f_ChannelID f = c_ID channel" "f_OwnerID f = [] \<or> user_exists (f_OwnerID f) d"
    using mirroredD(2) [OF mi] f by (auto simp: mirrors_def)
  then show "file_facts (fresh_file d0 (recovered_file env channel (rebuilt_dirs ord ms) (f_ID f) fr)) = file_facts f"
    using r(1) len dir users
    by (auto simp: file_facts_def recovered_file_def Let_def caption_record_def owner_of_def knownUserIDs_def user_exists_def
        list_ex_iff image_iff)
qed

text \<open>The recovered files, before names are compared, are the stored ones.\<close>

lemma mirrored_files:
  assumes mi: "mirrored env d channel ms" and ord: "visits_all ord" and users: "db_users d0 = db_users d"
  shows "file_facts ` fresh_file d0 ` set (rebuilt_files env ord ms channel) = file_facts ` set (db_files d)"
    and "distinct (map name_key (rebuilt_files env ord ms channel))"
proof -
  let ?rows = "rebuilt_files env ord ms channel"
  have inv: "index_inv d" using mi by (simp add: mirrored_def)
  note rows = rebuilt_rows(1,2) [OF ord, where env = env and ms = ms and channel = channel]
  have from_row: "\<exists>f \<in> set (db_files d). file_facts (fresh_file d0 x) = file_facts f \<and> CHR ''/'' \<notin> set (f_DirID f)"
    if x: "x \<in> set ?rows" for x
  proof -
    obtain fr where fr: "map_of (sc_files (scan ms)) (f_ID x) = Some fr"
      "x = recovered_file env channel (rebuilt_dirs ord ms) (f_ID x) fr" using x rows(1) by blast
    obtain f where f: "f \<in> set (db_files d)" "f_ID f = f_ID x" using mirrored_known [OF mi fr(1)] by blast
    show ?thesis using mirrored_file_row [OF mi ord f(1) _ users, of fr] f fr by auto
  qed
  have to_row: "\<exists>x \<in> set ?rows. file_facts (fresh_file d0 x) = file_facts f" if f: "f \<in> set (db_files d)" for f
  proof -
    obtain fr where fr: "map_of (sc_files (scan ms)) (f_ID f) = Some fr" using mirrored_file [OF mi f] by blast
    have "recovered_file env channel (rebuilt_dirs ord ms) (f_ID f) fr \<in> set ?rows" using rows(1) fr by simp
    then show ?thesis using mirrored_file_row(1) [OF mi ord f fr users] by blast
  qed
  show "file_facts ` fresh_file d0 ` set ?rows = file_facts ` set (db_files d)"
  proof
    show "file_facts ` fresh_file d0 ` set ?rows \<subseteq> file_facts ` set (db_files d)" using from_row by blast
    show "file_facts ` set (db_files d) \<subseteq> file_facts ` fresh_file d0 ` set ?rows"
    proof
      fix y assume "y \<in> file_facts ` set (db_files d)"
      then obtain f where "f \<in> set (db_files d)" "y = file_facts f" by blast
      moreover from this obtain x where "x \<in> set ?rows" "file_facts (fresh_file d0 x) = file_facts f" using to_row by blast
      ultimately show "y \<in> file_facts ` fresh_file d0 ` set ?rows" by (metis image_eqI)
    qed
  qed
  show "distinct (map name_key ?rows)"
  proof (rule distinct_map_comp [OF rows(2)])
    fix x y assume x: "x \<in> set ?rows" and y: "y \<in> set ?rows" and k: "name_key x = name_key y"
    obtain f where f: "f \<in> set (db_files d)" "file_facts (fresh_file d0 x) = file_facts f" "CHR ''/'' \<notin> set (f_DirID f)"
      using from_row [OF x] by blast
    obtain f' where f': "f' \<in> set (db_files d)" "file_facts (fresh_file d0 y) = file_facts f'" "CHR ''/'' \<notin> set (f_DirID f')"
      using from_row [OF y] by blast
    have e: "f_DirID x = f_DirID f" "f_Name x = f_Name f" "f_ID x = f_ID f" "f_DirID y = f_DirID f'" "f_Name y = f_Name f'" "f_ID y = f_ID f'"
      using f(2) f'(2) by (auto simp: file_facts_def)
    then have "name_key f = name_key f'" using k by (simp add: name_key_def)
    then have "f_DirID f = f_DirID f' \<and> f_Name f = f_Name f'" using name_key_inj f(3) f'(3) by blast
    then have "f = f'" using files_invD(2) [OF inv f(1) f'(1)] by blast
    then show "f_ID x = f_ID y" using e by simp
  qed
qed

lemma mirrored_segments:
  assumes mi: "mirrored env d channel ms" and ord: "visits_all ord"
  shows "segment_facts ` set (rebuilt_segments account ord ms) = segment_facts ` set (db_segments d)"
proof
  have inv: "index_inv d" using mi by (simp add: mirrored_def)
  note rows = rebuilt_rows(3) [OF ord, where account = account and ms = ms]
  have facts: "segment_facts (recovered_segment account (f_ID f) i seg) = (f_ID f, i, sr_size seg, sr_msgID seg)" for f i seg
    by (simp add: segment_facts_def recovered_segment_def split: option.split)
  show "segment_facts ` set (rebuilt_segments account ord ms) \<subseteq> segment_facts ` set (db_segments d)"
  proof
    fix y assume "y \<in> segment_facts ` set (rebuilt_segments account ord ms)"
    then obtain g where "g \<in> set (rebuilt_segments account ord ms)" "y = segment_facts g" by blast
    then obtain fr i seg where g: "map_of (sc_files (scan ms)) (g_FileID g) = Some fr" "map_of (fr_segments fr) i = Some seg"
      "y = segment_facts (recovered_segment account (g_FileID g) i seg)" using rows [of g] by metis
    then obtain f where f: "f \<in> set (db_files d)" "f_ID f = g_FileID g" using mirrored_known [OF mi] by blast
    then obtain g' where g': "g' \<in> set (db_segments d)" "g_FileID g' = f_ID f" "g_Index g' = i" "sr_msgID seg = g_TGMsgID g'" "sr_size seg = g_Size g'"
      using mirrored_segment [OF mi f(1), of fr i seg] g(1,2) f(2) by auto
    then have "y = segment_facts g'" using g(3) facts [of f] f(2) by (simp add: segment_facts_def)
    then show "y \<in> segment_facts ` set (db_segments d)" using g'(1) by blast
  qed
  show "segment_facts ` set (db_segments d) \<subseteq> segment_facts ` set (rebuilt_segments account ord ms)"
  proof
    fix y assume "y \<in> segment_facts ` set (db_segments d)"
    then obtain g where g: "g \<in> set (db_segments d)" "y = segment_facts g" by blast
    obtain f where f: "f \<in> set (db_files d)" "f_ID f = g_FileID g" using files_invD(4) [OF inv g(1)] by blast
    have "g_Index ` {g \<in> set (db_segments d). g_FileID g = f_ID f} = {1 .. f_SegmentCount f}"
      using mirroredD(2) [OF mi] f(1) unfolding mirrors_def by meson
    moreover have "g_Index g \<in> g_Index ` {g \<in> set (db_segments d). g_FileID g = f_ID f}" using g(1) f(2) by simp
    ultimately have i: "g_Index g \<in> {1 .. f_SegmentCount f}" by simp
    obtain fr where fr0: "map_of (sc_files (scan ms)) (f_ID f) = Some fr" "dom (map_of (fr_segments fr)) = {1 .. f_SegmentCount f}"
      using mirrored_file [OF mi f(1)] by blast
    then have "g_Index g \<in> dom (map_of (fr_segments fr))" using i by (simp only:)
    then obtain seg where fr: "map_of (sc_files (scan ms)) (f_ID f) = Some fr" "map_of (fr_segments fr) (g_Index g) = Some seg"
      using fr0(1) by blast
    then obtain g' where g': "g' \<in> set (db_segments d)" "g_FileID g' = f_ID f" "g_Index g' = g_Index g" "sr_msgID seg = g_TGMsgID g'" "sr_size seg = g_Size g'"
      using mirrored_segment [OF mi f(1) fr] by auto
    then have "g' = g" using files_invD(3) [OF inv g'(1) g(1)] f(2) by simp
    then have "y = segment_facts (recovered_segment account (f_ID f) (g_Index g) seg)"
      unfolding facts using g' g(2) f(2) by (simp add: segment_facts_def)
    moreover have "recovered_segment account (f_ID f) (g_Index g) seg \<in> set (rebuilt_segments account ord ms)"
      using rows fr by auto
    ultimately show "y \<in> segment_facts ` set (rebuilt_segments account ord ms)" by blast
  qed
qed

text \<open>C3: the index comes back from the channel.  If the channel mirrors a well-formed index (every
directory, file and segment has its caption, in any order and among any foreign messages, every file is complete, and the captions are ones that decode back:
no folder reads as a machine tag and no file name starts with \<open>#tdrive\<close>), a rebuild of any other state of the database with the same accounts gives an index with exactly the same
directories (id, parent, name, path, message), files (id, folder, name, sizes, segment count, status,
channel, owner) and segments (index, size, message).\<close>

theorem rebuild_round_trip:
  assumes "mirrored env d channel ms" and "visits_all ord" and "DefaultChannel d0 = Inr channel" and "db_users d0 = db_users d"
    and "history \<lparr>cr_ChannelID = [], cr_TGID = c_TGID channel, cr_AccessHash = c_AccessHash channel\<rparr> = Inr ms"
  shows "\<exists>d'. rebuild env account ord history d0 = (Inr (), d') \<and> index_inv d' \<and>
    dir_facts ` set (db_dirs d') = dir_facts ` set (db_dirs d) \<and>
    file_facts ` set (db_files d') = file_facts ` set (db_files d) \<and>
    segment_facts ` set (db_segments d') = segment_facts ` set (db_segments d)"
proof -
  note proper = mirrored_proper [OF assms(1)]
  obtain d' where d': "rebuild env account ord history d0 = (Inr (), d')" "index_inv d'"
    "db_dirs d' = map (fresh_dir d0) (replace_order (rebuilt_dirs ord ms))"
    "db_files d' = map (fresh_file d0) (dedupeFileNames (rebuilt_files env ord ms channel))"
    "db_segments d' = rebuilt_segments account ord ms"
    using rebuild_rows [where history = history, OF assms(2,3) proper assms(5), of env account] by blast
  have t: "tree_rows (rebuilt_dirs ord ms)"
    using buildTree_laws [OF scan_found_ok [OF proper], of ord] by (simp add: rebuilt_dirs_def)
  have "dir_facts ` set (db_dirs d') = dir_facts ` set (map snd (rebuilt_dirs ord ms))"
    unfolding d'(3) set_map image_image replace_order_laws(3) [OF t] by (simp add: dir_facts_def)
  moreover have "set (db_files d') = fresh_file d0 ` set (rebuilt_files env ord ms channel)"
    unfolding d'(4) set_map dedupeFileNames_laws(5) [OF mirrored_files(2) [OF assms(1,2,4)]] by simp
  ultimately show ?thesis
    using d' mirrored_tree(1) [OF assms(1,2)] mirrored_files(1) [OF assms(1,2,4)] mirrored_segments [OF assms(1,2)] by metis
qed

definition kept_db :: db where
  "kept_db = lost_db\<lparr>db_dirs := [mk_dir sample_ulid [] ''films'' ''/films'' 1],
     db_files := [(mk_file sample_ulid sample_ulid ''x.mkv'')\<lparr>f_ChannelID := ''ch''\<rparr>], db_segments := [mk_segment sample_ulid 1 2]\<rparr>"

definition kept_doc :: StoredDoc where
  "kept_doc = \<lparr>sd_MsgID = 2, sd_DocID = 20, sd_AccessHash = 21, sd_DCID = 4, sd_FileReference = ''ref'', sd_Size = 5\<rparr>"

lemma kept_db_mirrored:
  assumes "EncodeDir sample_ulid [] ''films'' ''/films'' = Inr cap1"
    and "EncodeFile (\<lambda>_. False) (\<lambda>_. False) (caption_record (mk_file sample_ulid sample_ulid ''x.mkv'') 1 []) = Inr cap2"
  shows "mirrored sim_env kept_db sim_channel [\<lparr>h_ID = 2, h_Caption = cap2, h_Doc = Some kept_doc\<rparr>, \<lparr>h_ID = 1, h_Caption = cap1, h_Doc = None\<rparr>]"
proof -
  let ?f = "(mk_file sample_ulid sample_ulid ''x.mkv'')\<lparr>f_ChannelID := ''ch''\<rparr>"
  let ?m2 = "\<lparr>h_ID = 2, h_Caption = cap2, h_Doc = Some kept_doc\<rparr>" and ?m1 = "\<lparr>h_ID = 1, h_Caption = cap1, h_Doc = None\<rparr>"
  have "caption_record ?f 1 [] = caption_record (mk_file sample_ulid sample_ulid ''x.mkv'') 1 []"
    by (simp add: caption_record_def)
  then have p2: "segment_posted sim_env ?f (mk_segment sample_ulid 1 2) ?m2"
    using assms(2) by (auto simp: segment_posted_def sim_env_def mk_segment_def kept_doc_def intro!: exI [of _ "[]"])
  have p1: "dir_posted (mk_dir sample_ulid [] ''films'' ''/films'' 1) ?m1"
    using assms(1) by (simp add: dir_posted_def mk_dir_def)
  have f: "f_ID ?f = sample_ulid" "f_SegmentCount ?f = 1" "f_Status ?f = StatusComplete" "f_ChannelID ?f = ''ch''" "f_OwnerID ?f = []"
    "f_Name ?f = ''x.mkv''" by (simp_all add: mk_file_def)
  have g: "g_FileID (mk_segment sample_ulid 1 2) = sample_ulid" "g_Index (mk_segment sample_ulid 1 2) = 1" by (simp_all add: mk_segment_def)
  have r: "d_ID (mk_dir sample_ulid [] ''films'' ''/films'' 1) = sample_ulid" "d_Path (mk_dir sample_ulid [] ''films'' ''/films'' 1) = ''/films''"
    by (simp_all add: mk_dir_def)
  have db: "db_dirs kept_db = [mk_dir sample_ulid [] ''films'' ''/films'' 1]" "db_files kept_db = [?f]"
    "db_segments kept_db = [mk_segment sample_ulid 1 2]" by (simp_all add: kept_db_def)
  have ints: "int64_fields (caption_record ?f i []) \<or> \<not> (1 \<le> i \<and> i \<le> 1)" for i
    by (auto simp: int64_fields_def caption_record_def mk_file_def in64_def)
  have ne: "sample_ulid \<noteq> recoveredRootID" "sample_ulid \<noteq> []" by (simp_all add: sample_ulid_def recoveredRootID_def)
  have start: "\<not> is_start_line ''x.mkv''" by (simp add: is_start_line_def Fields_def chunks_ascii is_space_def)
  have seg: "g_Index ` {g \<in> set [mk_segment sample_ulid 1 2]. g_FileID g = sample_ulid} = {1 .. 1}"
    using g by auto
  have "mirrors sim_env kept_db sim_channel [?m2, ?m1]"
    unfolding mirrors_def db
    using p1 p2 ints ne start seg by (simp add: r f g sim_channel_def)
  moreover have "index_inv kept_db"
    by (simp add: index_inv_def tree_inv_def files_inv_def kept_db_def lost_db_def mk_defs parent_ok_def Root_def
        dir_exists_def file_exists_def dir_name_ascii plain_def sample_ulid_def)
  ultimately show ?thesis by (simp add: mirrored_def sane_tables_def sim_env_def)
qed

theorem rebuild_round_trip_witness:
  "\<exists>ms d'. rebuild sim_env ''scanner'' in_order (\<lambda>_. Inr ms) lost_db = (Inr (), d') \<and>
     dir_facts ` set (db_dirs d') = {(sample_ulid, [], ''films'', ''/films'', 1)} \<and>
     file_facts ` set (db_files d') = {(sample_ulid, sample_ulid, ''x.mkv'', 5, 10, 1, StatusComplete, ''ch'', [])}"
proof -
  obtain cap1 where c1: "EncodeDir sample_ulid [] ''films'' ''/films'' = Inr cap1"
    using EncodeDir_succeeds [OF sample_ulid_ok, of "[]" "''films''"] by auto
  let ?r = "caption_record (mk_file sample_ulid sample_ulid ''x.mkv'') 1 []"
  have "ok_ids ?r" "ok_numbers ?r" "int64_fields ?r" "validateName (r_Name ?r) = Inr ()"
    using sample_ulid_ok by (simp_all add: caption_record_def mk_file_def ok_ids_def ok_numbers_def int64_fields_def in64_def)
  then obtain cap2 where c2: "EncodeFile (\<lambda>_. False) (\<lambda>_. False) ?r = Inr cap2" using EncodeFile_succeeds by blast
  let ?ms = "[\<lparr>h_ID = 2, h_Caption = cap2, h_Doc = Some kept_doc\<rparr>, \<lparr>h_ID = 1, h_Caption = cap1, h_Doc = None\<rparr>]"
  have "db_users lost_db = db_users kept_db" by (simp add: kept_db_def)
  from rebuild_round_trip [OF kept_db_mirrored [OF c1 c2] in_order_visits lost_db_channel this, where history = "\<lambda>_. Inr ?ms" and account = "''scanner''"]
  obtain d' where "rebuild sim_env ''scanner'' in_order (\<lambda>_. Inr ?ms) lost_db = (Inr (), d')"
    "dir_facts ` set (db_dirs d') = dir_facts ` set (db_dirs kept_db)" "file_facts ` set (db_files d') = file_facts ` set (db_files kept_db)"
    by auto
  moreover have "dir_facts ` set (db_dirs kept_db) = {(sample_ulid, [], ''films'', ''/films'', 1)}"
    "file_facts ` set (db_files kept_db) = {(sample_ulid, sample_ulid, ''x.mkv'', 5, 10, 1, StatusComplete, ''ch'', [])}"
    by (simp_all add: kept_db_def dir_facts_def file_facts_def mk_defs)
  ultimately show ?thesis by metis
qed

section \<open>How long a rebuild takes\<close>

text \<open>The two loops with a bound on their passes; \<open>None\<close> when the bound is used up.\<close>

fun place_within :: "nat \<Rightarrow> orders \<Rightarrow> found_dirs \<Rightarrow> resolved \<Rightarrow> resolved option" where
  "place_within 0 ord found res = None"
| "place_within (Suc n) ord found res =
     (let (res', progress) = place_pass ord found res in if progress then place_within n ord found res' else Some res')"

fun rescue_within :: "nat \<Rightarrow> orders \<Rightarrow> found_dirs \<Rightarrow> resolved \<times> nat \<Rightarrow> (resolved \<times> nat) option" where
  "rescue_within 0 ord found st = None"
| "rescue_within (Suc n) ord found (res, rescued) =
     (let tops = rescue_tops found res
      in if tops = [] then Some (res, rescued)
         else let (res', rescued') = fold (rescue_one found) tops (res, rescued)
              in rescue_within n ord found (place ord found res', rescued'))"

lemma place_within_enough:
  "card (waiting_set found res) < n \<Longrightarrow> place_within n ord found res = Some (place ord found res)"
proof (induction n arbitrary: res)
  case (Suc n)
  obtain r b where p: "place_pass ord found res = (r, b)" by fastforce
  have "b \<Longrightarrow> card (waiting_set found r) < card (waiting_set found res)"
    using place_fold_grows [of found "o_dirs ord res (map fst found)" res False r b] p
    by (simp add: place_pass_def psubset_card_mono)
  then show ?case using Suc p by (subst place.simps) auto
qed simp

lemma rescue_within_enough:
  "card (waiting_set found res) < n \<Longrightarrow> rescue_within n ord found (res, k) = Some (rescue ord found (res, k))"
proof (induction n arbitrary: res k)
  case (Suc n)
  define tops where "tops = rescue_tops found res"
  obtain r k' where f: "fold (rescue_one found) tops (res, k) = (r, k')" by fastforce
  show ?case
  proof (cases "tops = []")
    case True
    then show ?thesis by (simp add: rescue.simps tops_def)
  next
    case False
    then obtain t where t: "t \<in> set tops" by (meson list.set_sel(1))
    then have "t \<in> waiting_set found res" using rescue_tops_waiting tops_def by blast
    moreover have "dom (map_of res) \<subseteq> dom (map_of (place ord found r))" "set tops \<inter> dom (map_of found) \<subseteq> dom (map_of (place ord found r))"
      using rescue_fold_settles [of res found tops k] place_dom [of r ord found] unfolding f fst_conv by blast+
    ultimately have "waiting_set found (place ord found r) \<subset> waiting_set found res"
      using t unfolding waiting_set_def by blast
    then have "card (waiting_set found (place ord found r)) < card (waiting_set found res)" by (simp add: psubset_card_mono)
    then show ?thesis using Suc False f by (subst rescue.simps) (auto simp: tops_def)
  qed
qed simp

text \<open>C5: whatever the channel holds, a rebuild comes to an end: placing the directories takes at most one
pass more than there are directories, and so does rescuing those without a parent, cycles included.\<close>

theorem rebuild_terminates:
  "place_within (Suc (length (sc_dirs found))) ord (sc_dirs found) res = Some (place ord (sc_dirs found) res) \<and>
   rescue_within (Suc (length (sc_dirs found))) ord (sc_dirs found) (res, n) = Some (rescue ord (sc_dirs found) (res, n))"
proof -
  have "card (waiting_set (sc_dirs found) res) \<le> card (fst ` set (sc_dirs found))"
    by (rule card_mono) (auto simp: waiting_set_def dom_map_of_conv_image_fst)
  also have "\<dots> \<le> length (sc_dirs found)" using card_image_le [of "set (sc_dirs found)" fst] card_length [of "sc_dirs found"] by simp
  finally have "card (waiting_set (sc_dirs found) res) < Suc (length (sc_dirs found))" by simp
  then show ?thesis using place_within_enough rescue_within_enough by blast
qed

section \<open>What the rebuild does not notice\<close>

text \<open>\<open>Decode\<close> accepts any name for a directory.  Two directories called \<open>/\<close>, one in the other, have no depth, so they
are ordered by their ids: the child gets the shorter path, is inserted before its parent, and the whole rebuild fails.\<close>

definition slash_dir :: "string \<Rightarrow> string \<Rightarrow> dirRecord" where
  "slash_dir i p = \<lparr>dr_rec = zero_record\<lparr>r_Kind := KindDir, r_ID := i, r_ParentID := p, r_Name := ''/''\<rparr>, dr_msgID = 1\<rparr>"

lemma slash_names_break_rebuild:
  "fst (replace (buildTree in_order \<lparr>sc_dirs = [(''a'', slash_dir ''a'' ''b''), (''b'', slash_dir ''b'' [])], sc_files = []\<rparr>) [] [] empty_db) =
   Inl ErrConstraint"
  by code_simp

text \<open>A file is complete when as many segments were found as its newest caption counts, whichever they
are: with the segments 1 and 3 and a count of two, the missing second one is not noticed.\<close>

lemma gap_is_complete:
  assumes "fr_segments fr = [(1, s1), (3, s3)]" and "r_SegCount (fr_rec fr) = 2"
  shows "f_Status (recovered_file env channel dirs fid fr) = StatusComplete \<and> map_of (fr_segments fr) 2 = None"
  using assms by (simp add: recovered_file_def Let_def)

text \<open>A file whose folder is gone is put at the root under its own name, also when a directory at the
root has that name: the names of files are compared with those of files only.\<close>

lemma orphan_takes_directory_name:
  assumes "map_of dirs (r_ParentID (fr_rec fr)) = None" and "map_of dirs k = Some r" and "d_ParentID r = []"
    and "d_Name r = r_Name (fr_rec fr)"
  shows "\<exists>f \<in> set (dedupeFileNames [recovered_file env channel dirs fid fr]).
    f_DirID f = d_ParentID r \<and> f_Name f = d_Name r"
  using assms by (auto simp: dedupeFileNames_def)

end
