(* ===== verification/Base64.thy ===== *)
theory Base64
  imports GoText
begin

text \<open>
  \<open>base64.RawURLEncoding\<close> of the standard library: the URL alphabet without padding.  The decoder strips line
  breaks, refuses symbols outside the alphabet and a single left-over symbol, and ignores the unused bits of
  the last symbol.
\<close>

section \<open>Encoding\<close>

definition b64_symbol :: "nat \<Rightarrow> char" where
  "b64_symbol v =
     (if v < 26 then char_of (65 + v) else if v < 52 then char_of (71 + v) else if v < 62 then char_of (v - 4)
      else if v = 62 then CHR ''-'' else CHR ''_'')"

fun b64_values :: "nat list \<Rightarrow> nat list" where
  "b64_values [] = []"
| "b64_values [a] = [a div 4, a mod 4 * 16]"
| "b64_values [a, b] = [a div 4, a mod 4 * 16 + b div 16, b mod 16 * 4]"
| "b64_values (a # b # c # r) = [a div 4, a mod 4 * 16 + b div 16, b mod 16 * 4 + c div 64, c mod 64] @ b64_values r"

definition b64_encode :: "string \<Rightarrow> string" where
  "b64_encode s = map b64_symbol (b64_values (map of_char s))"

section \<open>Decoding\<close>

definition b64_value :: "char \<Rightarrow> nat option" where
  "b64_value c =
     (if 65 \<le> byte c \<and> byte c \<le> 90 then Some (byte c - 65)
      else if 97 \<le> byte c \<and> byte c \<le> 122 then Some (byte c - 71)
      else if 48 \<le> byte c \<and> byte c \<le> 57 then Some (byte c + 4)
      else if c = CHR ''-'' then Some 62 else if c = CHR ''_'' then Some 63 else None)"

fun b64_bytes :: "nat list \<Rightarrow> nat list option" where
  "b64_bytes [] = Some []"
| "b64_bytes [d0] = None"
| "b64_bytes [d0, d1] = Some [(d0 * 4 + d1 div 16) mod 256]"
| "b64_bytes [d0, d1, d2] = Some [(d0 * 4 + d1 div 16) mod 256, (d1 * 16 + d2 div 4) mod 256]"
| "b64_bytes (d0 # d1 # d2 # d3 # r) =
     map_option (\<lambda>bs. [(d0 * 4 + d1 div 16) mod 256, (d1 * 16 + d2 div 4) mod 256, (d2 * 64 + d3) mod 256] @ bs) (b64_bytes r)"

definition b64_decode :: "string \<Rightarrow> string option" where
  "b64_decode s =
     (let vs = map b64_value (filter (\<lambda>c. c \<noteq> CHR 0x0A \<and> c \<noteq> CHR 0x0D) s)
      in if None \<in> set vs then None else map_option (map char_of) (b64_bytes (map the vs)))"

section \<open>Round trip\<close>

lemma b64_value_symbol: "v < 64 \<Longrightarrow> b64_value (b64_symbol v) = Some v"
  by (auto simp: b64_value_def b64_symbol_def)

lemma b64_symbol_plain: "v < 64 \<Longrightarrow> b64_symbol v \<noteq> CHR 0x0A \<and> b64_symbol v \<noteq> CHR 0x0D \<and> b64_symbol v \<noteq> CHR ''.''"
  by (auto dest!: b64_value_symbol simp: b64_value_def)

lemma b64_split: "(a :: nat) < 256 \<Longrightarrow> a div 4 < 64 \<and> a mod 4 * 16 < 64 \<and> a div 16 < 16 \<and> a mod 16 * 4 < 64 \<and> a div 64 < 4 \<and> a mod 64 < 64"
  by (auto simp: div_less_iff_less_mult)

lemma b64_values_less: "\<forall>b \<in> set bs. b < 256 \<Longrightarrow> \<forall>v \<in> set (b64_values bs). v < 64"
proof (induction bs rule: b64_values.induct)
  case (3 a b)
  then have "a mod 4 \<le> 3" "b div 16 \<le> 15" by (auto simp: less_Suc_eq_le [symmetric] div_less_iff_less_mult)
  then show ?case using 3 b64_split by force
next
  case (4 a b c r)
  then have "a mod 4 \<le> 3" "b div 16 \<le> 15" "b mod 16 \<le> 15" "c div 64 \<le> 3" by (auto simp: less_Suc_eq_le [symmetric] div_less_iff_less_mult)
  moreover have "a div 4 < 64" "c mod 64 < 64" using 4 b64_split by auto
  ultimately show ?case using 4 by auto
qed (use b64_split in auto)

lemma b64_octet:
  fixes a b c :: nat
  assumes "a < 256" "b < 256" "c < 256"
  shows "(a div 4 * 4 + (a mod 4 * 16 + b div 16) div 16) mod 256 = a"
    "((a mod 4 * 16 + b div 16) * 16 + (b mod 16 * 4 + c div 64) div 4) mod 256 = b"
    "((b mod 16 * 4 + c div 64) * 64 + c mod 64) mod 256 = c"
    "(a div 4 * 4 + a mod 4 * 16 div 16) mod 256 = a"
    "((a mod 4 * 16 + b div 16) * 16 + b mod 16 * 4 div 4) mod 256 = b"
proof -
  have d: "b div 16 < 16" "c div 64 < 4" using assms by (auto simp: div_less_iff_less_mult)
  then have 1: "(a mod 4 * 16 + b div 16) div 16 = a mod 4" and 2: "(b mod 16 * 4 + c div 64) div 4 = b mod 16" by simp_all
  show "(a div 4 * 4 + (a mod 4 * 16 + b div 16) div 16) mod 256 = a" "(a div 4 * 4 + a mod 4 * 16 div 16) mod 256 = a"
    using assms 1 by simp_all
  have "(a mod 4 * 16 + b div 16) * 16 + b mod 16 = a mod 4 * 256 + b"
    using div_mult_mod_eq [of b 16] by (simp add: algebra_simps)
  then show "((a mod 4 * 16 + b div 16) * 16 + (b mod 16 * 4 + c div 64) div 4) mod 256 = b"
    "((a mod 4 * 16 + b div 16) * 16 + b mod 16 * 4 div 4) mod 256 = b"
    using assms 2 by simp_all
  have "(b mod 16 * 4 + c div 64) * 64 + c mod 64 = b mod 16 * 256 + c"
    using div_mult_mod_eq [of c 64] by (simp add: algebra_simps)
  then show "((b mod 16 * 4 + c div 64) * 64 + c mod 64) mod 256 = c" using assms by simp
qed

lemma b64_bytes_values: "\<forall>b \<in> set bs. b < 256 \<Longrightarrow> b64_bytes (b64_values bs) = Some bs"
proof (induction bs rule: b64_values.induct)
  case (2 a)
  then show ?case using b64_octet(4) [of a 0 0] by simp
next
  case (3 a b)
  then show ?case using b64_octet(1,5) [of a b 0] by simp
next
  case (4 a b c r)
  then show ?case using b64_octet(1-3) [of a b c] by simp
qed simp

lemma b64_decode_encode: "b64_decode (b64_encode s) = Some s"
proof -
  let ?vs = "b64_values (map of_char s)"
  have b: "\<forall>b \<in> set (map of_char s :: nat list). b < 256" by auto
  have less: "\<forall>v \<in> set ?vs. v < 64" using b64_values_less [OF b] .
  have f: "filter (\<lambda>c. c \<noteq> CHR 0x0A \<and> c \<noteq> CHR 0x0D) (map b64_symbol ?vs) = map b64_symbol ?vs"
    using less b64_symbol_plain by (auto simp: filter_id_conv)
  have m: "map b64_value (map b64_symbol ?vs) = map Some ?vs" using less b64_value_symbol by simp
  have "map (the \<circ> Some) ?vs = ?vs" by (simp add: comp_def)
  then show ?thesis
    unfolding b64_decode_def b64_encode_def Let_def f m using b64_bytes_values [OF b] by (auto simp: comp_def)
qed

lemma b64_encode_no_dot: "CHR ''.'' \<notin> set (b64_encode s)"
proof -
  have "\<forall>b \<in> set (map of_char s :: nat list). b < 256" by auto
  then have "\<forall>v \<in> set (b64_values (map of_char s)). v < 64" by (rule b64_values_less)
  then show ?thesis using b64_symbol_plain by (fastforce simp: b64_encode_def)
qed

end
