(* ===== verification/Serve.thy ===== *)
theory Serve
  imports Staging Source Upload Base64 Accounts
begin

text \<open>
  Serving bytes over HTTP: who may read a file (\<open>internal/api/access.go\<close>, the media tokens of
  \<open>internal/auth/service.go\<close>) and which bytes a request gets (\<open>internal/api/stream.go\<close>).  HMAC is a parameter;
  headers that only describe the content (type, dates, tags, file name) are left out.
\<close>

section \<open>Access\<close>

datatype access_error = ADb db_error | ABadCredentials | AForbidden | AOutOfScope | APath path_error

text \<open>\<open>realPath\<close> and \<open>visiblePath\<close> of a request: the account's view of the drive.\<close>

definition scopeOf :: "User option \<Rightarrow> Scope" where
  "scopeOf user = (case user of None \<Rightarrow> \<lparr>sc_Root = []\<rparr> | Some u \<Rightarrow> ScopeOf u)"

definition api_realPath :: "User option \<Rightarrow> string \<Rightarrow> access_error + string" where
  "api_realPath user p = (case ToReal (scopeOf user) (if p = [] then Root else p) of Inl e \<Rightarrow> Inl (APath e) | Inr r \<Rightarrow> Inr r)"

definition api_visiblePath :: "User option \<Rightarrow> string \<Rightarrow> access_error + string" where
  "api_visiblePath user real = (case ToVisible (scopeOf user) real of None \<Rightarrow> Inl AOutOfScope | Some p \<Rightarrow> Inr p)"

definition requirePerm :: "User option \<Rightarrow> Perm \<Rightarrow> access_error + unit" where
  "requirePerm user perm =
     (case user of None \<Rightarrow> Inl ABadCredentials | Some u \<Rightarrow> if Can u perm then Inr () else Inl AForbidden)"

definition filePath :: "FileRow \<Rightarrow> db \<Rightarrow> access_error + string" where
  "filePath f d =
     (if f_DirID f = [] then Inr (Join Root (f_Name f))
      else case DirByID (f_DirID f) d of Inl e \<Rightarrow> Inl (ADb e) | Inr dir \<Rightarrow> Inr (Join (d_Path dir) (f_Name f)))"

definition checkFileAccess :: "User option \<Rightarrow> FileRow \<Rightarrow> db \<Rightarrow> access_error + unit" where
  "checkFileAccess user f d =
     go_bind (requirePerm user PermDownload) (\<lambda>_.
       if Unrestricted (scopeOf user) then Inr ()
       else go_bind (filePath f d) (\<lambda>p. if Contains (scopeOf user) p then Inr () else Inl AOutOfScope))"

definition fileForUser :: "User option \<Rightarrow> string \<Rightarrow> db \<Rightarrow> access_error + FileRow" where
  "fileForUser user fid d =
     (case FileByID fid d of Inl e \<Rightarrow> Inl (ADb e) | Inr f \<Rightarrow> go_bind (checkFileAccess user f d) (\<lambda>_. Inr f))"

section \<open>Media tokens\<close>

text \<open>\<open>mac\<close> is HMAC-SHA256 with the secret of the service; the clock is in seconds.\<close>

definition media_payload :: "string \<Rightarrow> int \<Rightarrow> string" where
  "media_payload fid expiry = ''tdrive-media'' @ [char_of (0 :: nat)] @ fid @ ''.'' @ show_int expiry"

definition SignMediaToken :: "(string \<Rightarrow> string) \<Rightarrow> int \<Rightarrow> string \<Rightarrow> string" where
  "SignMediaToken mac now fid =
     (let expiry = now + 21600 in show_int expiry @ ''.'' @ b64_encode (mac (media_payload fid expiry)))"

definition VerifyMediaToken :: "(string \<Rightarrow> string) \<Rightarrow> int \<Rightarrow> string \<Rightarrow> string \<Rightarrow> bool" where
  "VerifyMediaToken mac now fid token =
     (case cut_at (CHR ''.'') token of
        (expiryStr, sig, found) \<Rightarrow>
          found \<and>
          (case parse_int64 expiryStr of
             None \<Rightarrow> False
           | Some expiry \<Rightarrow>
               \<not> now > expiry \<and>
               (case b64_decode sig of None \<Rightarrow> False | Some want \<Rightarrow> mac (media_payload fid expiry) = want)))"

text \<open>\<open>requireFileAccess\<close> and the check of \<open>handleRaw\<close>: the row whose bytes may be served.  \<open>user\<close> is what
\<open>RequireAuth\<close> finds, \<open>token\<close> the parameter \<open>t\<close>.\<close>

definition raw_file :: "(string \<Rightarrow> string) \<Rightarrow> int \<Rightarrow> User option \<Rightarrow> string \<Rightarrow> string \<Rightarrow> db \<Rightarrow> access_error + FileRow" where
  "raw_file mac now user token fid d =
     (if token \<noteq> []
      then if VerifyMediaToken mac now fid token
           then (case FileByID fid d of Inl e \<Rightarrow> Inl (ADb e) | Inr f \<Rightarrow> Inr f)
           else Inl ABadCredentials
      else case user of
          None \<Rightarrow> Inl ABadCredentials
        | Some _ \<Rightarrow> fileForUser user fid d)"

section \<open>Windows and ranges\<close>

record byteWindow =
  bw_file :: FileRow
  bw_offset :: int
  bw_length :: int

definition wholeFileWindow :: "FileRow \<Rightarrow> byteWindow" where
  "wholeFileWindow f = \<lparr>bw_file = f, bw_offset = 0, bw_length = f_Size f\<rparr>"

definition segmentWindow :: "FileRow \<Rightarrow> int \<Rightarrow> db_error + byteWindow" where
  "segmentWindow f i =
     (if i < 1 \<or> i > f_SegmentCount f then Inl ErrNotFound
      else Inr \<lparr>bw_file = f, bw_offset = wrap64 ((i - 1) * f_SegmentSize f), bw_length = SegmentSize (f_Size f) (f_SegmentSize f) i\<rparr>)"

text \<open>\<open>segmentBytes\<close> of \<open>internal/api/shares.go\<close>\<close>

definition segmentBytes :: "FileRow \<Rightarrow> int \<Rightarrow> int" where
  "segmentBytes f i =
     (let start = wrap64 ((i - 1) * f_SegmentSize f)
      in if start \<ge> f_Size f then 0 else min (f_SegmentSize f) (wrap64 (f_Size f - start)))"

text \<open>\<open>parseRange\<close>: \<open>None\<close> is not satisfiable; the flag tells whether a range was asked for.  First its two forms.\<close>

definition suffix_range :: "string \<Rightarrow> int \<Rightarrow> (int \<times> int \<times> bool) option" where
  "suffix_range after n =
     (case parse_int64 after of
        None \<Rightarrow> None
      | Some k \<Rightarrow> if k \<le> 0 then None else let k' = (if k > n then n else k) in Some (n - k', n - 1, True))"

definition from_range :: "string \<Rightarrow> string \<Rightarrow> int \<Rightarrow> (int \<times> int \<times> bool) option" where
  "from_range before after n =
     (case parse_int64 before of
        None \<Rightarrow> None
      | Some start \<Rightarrow>
          if start < 0 \<or> start \<ge> n then None
          else if after = [] then Some (start, n - 1, True)
          else (case parse_int64 after of
                  None \<Rightarrow> None
                | Some e \<Rightarrow> if e < start then None else Some (start, if e > n - 1 then n - 1 else e, True)))"

definition parseRange :: "string \<Rightarrow> int \<Rightarrow> (int \<times> int \<times> bool) option" where
  "parseRange header n =
     (if header = [] \<or> n = 0 then Some (0, max (n - 1) 0, False)
      else let trimmed = trim_space header
           in if \<not> prefix ''bytes='' trimmed then Some (0, n - 1, False)
              else let spec = takeWhile (\<lambda>c. c \<noteq> CHR '','') (drop 6 trimmed)
                   in case cut_at (CHR ''-'') (trim_space spec) of
                        (before0, after0, found) \<Rightarrow>
                          (let before = trim_space before0; after = trim_space after0
                           in if \<not> found \<or> before = [] \<and> after = [] then None
                              else if before = [] then suffix_range after n
                              else from_range before after n))"

section \<open>The response\<close>

text \<open>\<open>io.CopyN\<close> of \<open>n\<close> bytes from an open file, in at most \<open>k\<close> reads into a buffer of \<open>buf\<close> bytes.\<close>

fun copy_n :: "nat \<Rightarrow> int \<Rightarrow> int \<Rightarrow> 'b File \<Rightarrow> 'b list" where
  "copy_n 0 buf n f = []"
| "copy_n (Suc k) buf n f =
     (if n \<le> 0 then []
      else case File_Read (min buf n) f of
          None \<Rightarrow> []
        | Some (out, None, f') \<Rightarrow> out @ copy_n k buf (n - int (length out)) f'
        | Some (out, Some _, f') \<Rightarrow> out)"

text \<open>
  A reply has a status, the \<open>Content-Range\<close>, the \<open>Content-Length\<close> and the body; an error is answered in JSON,
  which is left out unless the header has gone already.
\<close>

datatype 'b reply = ErrorReply int | Reply int "(int \<times> int \<times> int) option" int "'b list"

definition serveStagedRange :: "'b list \<Rightarrow> byteWindow \<Rightarrow> int \<Rightarrow> int \<Rightarrow> 'b list option" where
  "serveStagedRange copy w start end =
     (if int (length copy) < wrap64 (wrap64 (bw_offset w + end) + 1) then None
      else Some (take (nat (end - start + 1)) (drop (nat (bw_offset w + start)) copy)))"

text \<open>The body from the drive: the file is opened, sought and copied.  \<open>Inl\<close> carries the status that
\<open>s.fail\<close> gives to an error of \<open>OpenFile\<close>, \<open>failure\<close> is the JSON of an error.\<close>

definition serve_drive :: "int \<Rightarrow> 'b list \<Rightarrow> (int + 'b File) \<Rightarrow> int \<Rightarrow> int \<Rightarrow> (int \<times> int \<times> int) option \<Rightarrow> int \<Rightarrow> 'b reply" where
  "serve_drive buf failure opened seekTo n crange status =
     (let failed = (\<lambda>code. if crange = None then ErrorReply code else Reply status crange n (if int (length failure) \<le> n then failure else []))
      in case opened of
           Inl code \<Rightarrow> failed code
         | Inr f \<Rightarrow>
             (if seekTo > 0
              then case File_Seek seekTo SeekStart f of
                  (Inl _, _) \<Rightarrow> failed 500
                | (Inr _, f') \<Rightarrow> Reply status crange n (copy_n (nat n) buf n f')
              else Reply status crange n (copy_n (nat n) buf n f)))"

text \<open>\<open>refused\<close> is the status of a request that got no place in a download session, \<open>staged\<close> is a copy on disk,
\<open>opened\<close> what \<open>OpenFile\<close> answers and \<open>buf\<close> the size of the copy buffer.\<close>

definition serveBytes ::
  "int \<Rightarrow> 'b list \<Rightarrow> bool \<Rightarrow> string \<Rightarrow> int option \<Rightarrow> 'b list option \<Rightarrow> (int + 'b File) \<Rightarrow> byteWindow \<Rightarrow> 'b reply" where
  "serveBytes buf failure head header refused staged opened w =
     (if f_Status (bw_file w) = StatusPending then ErrorReply 409
      else case parseRange header (bw_length w) of
          None \<Rightarrow> ErrorReply 416
        | Some (start, end, ranged) \<Rightarrow>
            (let full = (bw_length w = 0 \<or> \<not> ranged);
                 status = (if full then 200 else 206);
                 crange = (if full then None else Some (start, end, bw_length w));
                 n = (if full then bw_length w else end - start + 1)
             in if head then Reply status crange n []
                else if bw_length w = 0 then Reply 200 None 0 []
                else if refused \<noteq> None then ErrorReply (the refused)
                else case (case staged of None \<Rightarrow> None | Some copy \<Rightarrow> serveStagedRange copy w start end) of
                    Some body \<Rightarrow> Reply status crange n body
                  | None \<Rightarrow> serve_drive buf failure opened (wrap64 (bw_offset w + start)) (end - start + 1) crange status))"

text \<open>A ready copy on disk, if there is one.\<close>

definition stagedCopy :: "string \<Rightarrow> 'b staging \<Rightarrow> 'b list option \<times> 'b staging" where
  "stagedCopy fid s =
     (case StagedDownloadFor fid (sg_db s) of
        Inl _ \<Rightarrow> (None, s)
      | Inr w \<Rightarrow>
          if w_CachePath w = [] then (None, s)
          else (case sg_target s (w_ID w) of
              None \<Rightarrow> (None, s)
            | Some bytes \<Rightarrow> (Some bytes, s\<lparr>sg_db := TouchDownload (w_ID w) (sg_db s)\<rparr>)))"

text \<open>Requests of one download share a slot.\<close>

definition downloadSessionKey :: "User option \<Rightarrow> string \<Rightarrow> string \<Rightarrow> string \<Rightarrow> string" where
  "downloadSessionKey user ip fid share =
     (if share \<noteq> [] then ''share:'' @ share
      else case user of
          Some u \<Rightarrow> if u_ID u \<noteq> [] then ''user:'' @ u_ID u @ '':'' @ fid else ''media:'' @ fid @ '':'' @ ip
        | None \<Rightarrow> ''media:'' @ fid @ '':'' @ ip)"

section \<open>The handlers\<close>

text \<open>\<open>s.fail\<close>: the errors it tells apart, and the status and code it answers with.\<close>

datatype http_error =
    HttpLocalDisabled | HttpLocalInvalidPath | HttpLocalNotFound | HttpLocalNotFile | HttpLocalNotDir | HttpLocalUnavailable
  | HttpDriveNotFound | HttpDbNotFound | HttpOutOfScope | HttpExists | HttpDbConflict | HttpJobFinished
  | HttpLoop | HttpIsDir | HttpNotDir | HttpUploadTaskClosed
  | HttpBadCredentials | HttpAccountDisabled | HttpForbidden | HttpWeakPassword
  | HttpQuotaExceeded | HttpCacheFull | HttpStagingDisabled | HttpPluginLimit | HttpTooManyConnections
  | HttpNoChannel | HttpTgNotConfigured | HttpTgNotReady | HttpTgInvalidSession | HttpTgBadProxy | HttpNotInChannel
  | HttpPathError | HttpOther

definition fail_answer :: "http_error \<Rightarrow> int \<times> string" where
  "fail_answer e =
     (case e of
        HttpLocalDisabled \<Rightarrow> (428, ''local_unconfigured'')
      | HttpLocalInvalidPath \<Rightarrow> (400, [])
      | HttpLocalNotFound \<Rightarrow> (404, [])
      | HttpLocalNotFile \<Rightarrow> (400, []) | HttpLocalNotDir \<Rightarrow> (400, [])
      | HttpLocalUnavailable \<Rightarrow> (503, [])
      | HttpDriveNotFound \<Rightarrow> (404, []) | HttpDbNotFound \<Rightarrow> (404, []) | HttpOutOfScope \<Rightarrow> (404, [])
      | HttpExists \<Rightarrow> (409, []) | HttpDbConflict \<Rightarrow> (409, [])
      | HttpJobFinished \<Rightarrow> (409, ''transfer_finished'')
      | HttpLoop \<Rightarrow> (400, []) | HttpIsDir \<Rightarrow> (400, []) | HttpNotDir \<Rightarrow> (400, [])
      | HttpUploadTaskClosed \<Rightarrow> (409, [])
      | HttpBadCredentials \<Rightarrow> (401, [])
      | HttpAccountDisabled \<Rightarrow> (403, ''account_disabled'')
      | HttpForbidden \<Rightarrow> (403, ''forbidden'')
      | HttpWeakPassword \<Rightarrow> (400, [])
      | HttpQuotaExceeded \<Rightarrow> (507, ''quota_exceeded'')
      | HttpCacheFull \<Rightarrow> (507, ''cache_full'')
      | HttpStagingDisabled \<Rightarrow> (428, ''staging_disabled'')
      | HttpPluginLimit \<Rightarrow> (409, ''plugin_limit'')
      | HttpTooManyConnections \<Rightarrow> (429, ''too_many_connections'')
      | HttpNoChannel \<Rightarrow> (428, ''no_channel'')
      | HttpTgNotConfigured \<Rightarrow> (428, ''telegram_unconfigured'')
      | HttpTgNotReady \<Rightarrow> (428, ''telegram_unauthorized'')
      | HttpTgInvalidSession \<Rightarrow> (400, []) | HttpTgBadProxy \<Rightarrow> (400, [])
      | HttpNotInChannel \<Rightarrow> (409, ''not_in_channel'')
      | HttpPathError \<Rightarrow> (400, [])
      | HttpOther \<Rightarrow> (500, []))"

definition fail_status :: "access_error \<Rightarrow> int" where
  "fail_status e =
     fst (fail_answer (case e of
        ADb ErrNotFound \<Rightarrow> HttpDbNotFound | ADb ErrConflict \<Rightarrow> HttpDbConflict | ADb ErrJobFinished \<Rightarrow> HttpJobFinished | ADb _ \<Rightarrow> HttpOther
      | ABadCredentials \<Rightarrow> HttpBadCredentials | AForbidden \<Rightarrow> HttpForbidden | AOutOfScope \<Rightarrow> HttpOutOfScope | APath _ \<Rightarrow> HttpPathError))"

definition handleRaw ::
  "(string \<Rightarrow> string) \<Rightarrow> int \<Rightarrow> User option \<Rightarrow> string \<Rightarrow> string \<Rightarrow> db \<Rightarrow> (byteWindow \<Rightarrow> 'b reply) \<Rightarrow> 'b reply" where
  "handleRaw mac now user token fid d send =
     (case raw_file mac now user token fid d of Inl e \<Rightarrow> ErrorReply (fail_status e) | Inr f \<Rightarrow> send (wholeFileWindow f))"

definition handleSegmentRaw ::
  "(string \<Rightarrow> string) \<Rightarrow> int \<Rightarrow> User option \<Rightarrow> string \<Rightarrow> string \<Rightarrow> string \<Rightarrow> db \<Rightarrow> (byteWindow \<Rightarrow> 'b reply) \<Rightarrow> 'b reply" where
  "handleSegmentRaw mac now user token fid index d send =
     (case raw_file mac now user token fid d of
        Inl e \<Rightarrow> ErrorReply (fail_status e)
      | Inr f \<Rightarrow>
          (case parse_int64 index of
             None \<Rightarrow> ErrorReply 400
           | Some i \<Rightarrow> (case segmentWindow f i of Inl e \<Rightarrow> ErrorReply (fail_status (ADb e)) | Inr w \<Rightarrow> send w)))"

end
