(* ===== verification/ServeProps.thy ===== *)
theory ServeProps
  imports Serve UploadTotal StagingLaws
begin

text \<open>
  A media token opens one file for a while; a range request gets exactly the bytes it asks for, whether they
  come from the drive or from a staged copy; and the segments, downloaded one by one, join to the file.
\<close>

section \<open>Tokens\<close>

lemma cut_at_show: "0 \<le> i \<Longrightarrow> \<not> is_digit c \<Longrightarrow> cut_at c (show_int i @ c # r) = (show_int i, r, True)"
  by (rule cut_at_append) (auto dest: show_int_digits)

text \<open>C26: a media token opens exactly the file it was signed for, and for six hours; the signature is as strong as the MAC, which is
taken to be injective.\<close>

theorem media_token_opens_one_file:
  assumes "inj mac" and "0 \<le> t0 + 21600" and "in64 (t0 + 21600)"
  shows "VerifyMediaToken mac t1 b (SignMediaToken mac t0 a) \<longleftrightarrow> a = b \<and> t1 \<le> t0 + 21600"
proof -
  have "VerifyMediaToken mac t1 b (SignMediaToken mac t0 a) \<longleftrightarrow>
      t1 \<le> t0 + 21600 \<and> mac (media_payload b (t0 + 21600)) = mac (media_payload a (t0 + 21600))"
    using assms(2,3) by (auto simp: VerifyMediaToken_def SignMediaToken_def Let_def cut_at_show is_digit_def parse_show_int b64_decode_encode)
  also have "\<dots> \<longleftrightarrow> t1 \<le> t0 + 21600 \<and> media_payload b (t0 + 21600) = media_payload a (t0 + 21600)"
    using assms(1) by (simp add: inj_eq)
  finally show ?thesis by (auto simp: media_payload_def)
qed

theorem media_token_opens_one_file_witness:
  "VerifyMediaToken rev 1000 ''film'' (SignMediaToken rev 0 ''film'') \<and> \<not> VerifyMediaToken rev 1000 ''other'' (SignMediaToken rev 0 ''film'')"
  using media_token_opens_one_file [of rev 0 1000 "''film''" "''film''"]
    media_token_opens_one_file [of rev 0 1000 "''other''" "''film''"] by (simp add: inj_on_def in64_def)

section \<open>Copying from an open file\<close>

lemma copy_n_good:
  assumes "file_inv content f" and "0 < buf" and "fl_pos f + n \<le> int (length content)" and "n \<le> int k"
  shows "copy_n k buf n f = slice content (fl_pos f) (fl_pos f + n - 1)"
  using assms
proof (induction k arbitrary: f n)
  case 0
  then show ?case by (simp add: slice_empty)
next
  case (Suc k)
  show ?case
  proof (cases "n \<le> 0")
    case True
    then show ?thesis by (simp add: slice_empty)
  next
    case False
    have pos: "0 \<le> fl_pos f" "fl_size f = int (length content)" using Suc.prems(1) by (simp_all add: file_inv_def)
    have lt: "fl_pos f < fl_size f" "0 < min buf n" using Suc.prems(2,3) False pos by simp_all
    obtain out err f' where r: "File_Read (min buf n) f = Some (out, err, f')" "out \<noteq> []" "int (length out) \<le> min buf n"
      "slice content (fl_pos f) (fl_pos f + int (length out) - 1) = out"
      "fl_pos f' = fl_pos f + int (length out)" "fl_pos f' \<le> int (length content)"
      "err = None \<or> err = Some EOF \<and> fl_pos f' = int (length content)" "file_inv content f'"
      by (rule File_Read_good [OF Suc.prems(1) lt]) (rule that)
    have len: "1 \<le> int (length out)" using r(2) by (cases out) auto
    have app: "slice content (fl_pos f) (fl_pos f' - 1) @ slice content (fl_pos f') (fl_pos f + n - 1) = slice content (fl_pos f) (fl_pos f + n - 1)"
      using slice_append [of "fl_pos f" "fl_pos f' - 1" "fl_pos f + n - 1" content] pos r(3,5) len by simp
    show ?thesis
    proof (cases "err = None")
      case True
      have "copy_n k buf (n - int (length out)) f' = slice content (fl_pos f') (fl_pos f' + (n - int (length out)) - 1)"
        using Suc.prems r(3,5,8) len by (intro Suc.IH) auto
      then show ?thesis using app r(1,4,5) True False by (simp add: algebra_simps)
    next
      case False
      then have e: "err = Some EOF" "fl_pos f' = int (length content)" using r(7) by auto
      then have "n = int (length out)" using Suc.prems(3) r(3,5) by simp
      then show ?thesis using r(1,4) e(1) \<open>\<not> n \<le> 0\<close> by simp
    qed
  qed
qed

lemma serve_drive_good:
  assumes "file_inv content f" and "fl_pos f = 0" and "0 < buf" and "0 \<le> p" and "0 \<le> n" and "p + n \<le> int (length content)" and "in64 p"
  shows "serve_drive buf failure (Inr f) p n cr status = Reply status cr n (slice content p (p + n - 1))"
proof (cases "p = 0")
  case True
  then show ?thesis using copy_n_good [OF assms(1,3), of n "nat n"] assms by (simp add: serve_drive_def)
next
  case False
  obtain f' where f': "File_Seek p SeekStart f = (Inr p, f')" "fl_pos f' = p"
    using assms(4) by (simp add: File_Seek_def seek_to_def Let_def)
  then have "file_inv content f'" using File_Seek_inv [OF assms(1,7), of SeekStart] by simp
  then have "copy_n (nat n) buf n f' = slice content p (p + n - 1)"
    using copy_n_good [OF _ assms(3), of content f' n "nat n"] f'(2) assms(5,6) by simp
  then show ?thesis using False assms(4) f'(1) by (simp add: serve_drive_def)
qed

section \<open>Ranges\<close>

lemma form_bounds:
  "\<lbrakk>suffix_range after n = Some (a, b, ranged); 0 < n\<rbrakk> \<Longrightarrow> 0 \<le> a \<and> a \<le> b \<and> b < n \<and> ranged"
  "\<lbrakk>from_range before after n = Some (a, b, ranged); 0 < n\<rbrakk> \<Longrightarrow> 0 \<le> a \<and> a \<le> b \<and> b < n \<and> ranged"
  by (auto simp: suffix_range_def from_range_def Let_def split: if_splits option.splits)

lemma parseRange_bounds:
  assumes "parseRange header n = Some (a, b, ranged)" and "0 < n"
  shows "0 \<le> a \<and> a \<le> b \<and> b < n \<and> (\<not> ranged \<longrightarrow> a = 0 \<and> b = n - 1)"
proof -
  consider "a = 0 \<and> b = n - 1" | x where "suffix_range x n = Some (a, b, ranged)" | x y where "from_range x y n = Some (a, b, ranged)"
    using assms unfolding parseRange_def Let_def by (auto split: if_splits prod.splits)
  then show ?thesis
  proof cases
    case 1
    then show ?thesis using assms(2) by simp
  next
    case (2 x)
    then show ?thesis using form_bounds(1) [OF 2 assms(2)] by simp
  next
    case (3 x y)
    then show ?thesis using form_bounds(2) [OF 3 assms(2)] by simp
  qed
qed

lemma parseRange_from:
  "\<lbrakk>trim_space (''bytes='' @ spec) = ''bytes='' @ spec; takeWhile (\<lambda>c. c \<noteq> CHR '','') spec = spec; trim_space spec = spec;
    cut_at (CHR ''-'') spec = (x, y, True); trim_space x = x; trim_space y = y; x \<noteq> []; n \<noteq> 0\<rbrakk> \<Longrightarrow>
   parseRange (''bytes='' @ spec) n = from_range x y n"
  by (simp add: parseRange_def del: takeWhile_eq_all_conv)

lemma parseRange_shape:
  assumes "0 \<le> a" and "a \<le> b" and "a < n" and "in64 b"
  shows "parseRange (''bytes='' @ show_int a @ ''-'' @ show_int b) n = Some (a, min b (n - 1), True)"
proof -
  let ?spec = "show_int a @ ''-'' @ show_int b" and ?h = "''bytes='' @ show_int a @ ''-'' @ show_int b"
  have in64: "in64 a" "0 \<le> b" using assms by (simp_all add: in64_def)
  have plain: "byte c < 128 \<and> \<not> is_space (byte c)" if "c \<in> set ?h" for c
  proof -
    have "is_digit c \<or> c \<in> set ''bytes=-''" using that assms(1,2) show_int_digits [of a c] show_int_digits [of b c] by auto
    then show ?thesis by (auto dest: digit_facts simp: is_space_def)
  qed
  have t: "trim_space ?h = ?h" by (rule trim_space_solid [OF solid_ascii]) (use plain in auto)
  have tw: "takeWhile (\<lambda>c. c \<noteq> CHR '','') (show_int i) = show_int i" if "0 \<le> i" for i
    using that show_int_digits [of i "CHR '',''"] by (auto simp: takeWhile_eq_all_conv is_digit_def)
  have "takeWhile (\<lambda>c. c \<noteq> CHR '','') ?spec = ?spec"
    using assms(1) show_int_digits [of a "CHR '',''"] tw [OF in64(2)] by (subst takeWhile_append2) (auto simp: is_digit_def)
  moreover have "trim_space ?spec = ?spec" by (rule trim_space_solid [OF solid_ascii]) (use plain in auto)
  moreover have ts: "trim_space (show_int i) = show_int i" if "0 \<le> i" for i
    by (rule trim_space_solid [OF solid_ascii]) (use that show_int_digits digit_facts in auto)
  moreover have "cut_at (CHR ''-'') ?spec = (show_int a, show_int b, True)"
    using cut_at_show [OF assms(1), of "CHR ''-''" "show_int b"] by (simp add: is_digit_def)
  ultimately have "parseRange ?h n = from_range (show_int a) (show_int b) n"
    using parseRange_from [OF t] ts [OF assms(1)] ts [OF in64(2)] assms by auto
  then show ?thesis using assms in64 by (simp add: from_range_def parse_show_int min_def)
qed

section \<open>Responses\<close>

text \<open>What a request depends on: the file is complete, the copy on disk and the opened file have its bytes.\<close>

definition serves :: "'b list \<Rightarrow> int option \<Rightarrow> 'b list option \<Rightarrow> (int + 'b File) \<Rightarrow> byteWindow \<Rightarrow> bool" where
  "serves content refused staged opened w \<longleftrightarrow>
     f_Status (bw_file w) \<noteq> StatusPending \<and> refused = None \<and> (staged = None \<or> staged = Some content) \<and>
     (\<exists>f. opened = Inr f \<and> file_inv content f \<and> fl_pos f = 0) \<and>
     0 \<le> bw_offset w \<and> 0 \<le> bw_length w \<and> bw_offset w + bw_length w \<le> int (length content)"

lemma serve_exact:
  assumes s: "serves content refused staged opened w" and buf: "0 < buf"
    and range: "parseRange header (bw_length w) = Some (a, b, ranged)" "0 < bw_length w"
  shows "serveBytes buf failure False header refused staged opened w =
    Reply (if ranged then 206 else 200) (if ranged then Some (a, b, bw_length w) else None)
      (if ranged then b - a + 1 else bw_length w) (slice content (bw_offset w + a) (bw_offset w + b))"
proof -
  obtain f where f: "opened = Inr f" "file_inv content f" "fl_pos f = 0" using s by (auto simp: serves_def)
  have bounds: "0 \<le> a" "a \<le> b" "b < bw_length w" "0 \<le> bw_offset w" "bw_offset w + bw_length w \<le> int (length content)"
    using parseRange_bounds [OF range] s by (auto simp: serves_def)
  have small: "int (length content) < 2 ^ 63" using f(2) by (auto simp: file_inv_def in64_def)
  have w: "wrap64 (bw_offset w + a) = bw_offset w + a" "wrap64 (wrap64 (bw_offset w + b) + 1) = bw_offset w + b + 1"
    "in64 (bw_offset w + a)"
    using bounds small by (auto intro!: wrap64_id simp: in64_def)
  have drive: "serve_drive buf failure opened (bw_offset w + a) (b - a + 1) cr st =
      Reply st cr (b - a + 1) (slice content (bw_offset w + a) (bw_offset w + b))" for cr st
    using serve_drive_good [OF f(2,3) buf, of "bw_offset w + a" "b - a + 1" failure cr st] bounds w(3) by (simp add: f(1))
  have copy: "serveStagedRange content w a b = Some (slice content (bw_offset w + a) (bw_offset w + b))"
    using bounds w(2) by (simp add: serveStagedRange_def slice_def)
  have whole: "a = 0 \<and> b = bw_length w - 1" if "\<not> ranged" using parseRange_bounds [OF range] that by simp
  show ?thesis
    using s range drive copy w(1) whole by (auto simp: serveBytes_def serves_def Let_def split: option.split)
qed

text \<open>C27: a request for the bytes a to b of a window is answered with 206, the range clipped to the window, its length, and exactly the
bytes of the file there, from the drive as from a copy on disk.\<close>

theorem range_delivers_exactly:
  assumes "Open sf (int (length content)) segSize opts = Inr f" and "good_sources sf content segSize"
    and "in64 (int (length content) + segSize)" and "0 < buf"
    and "f_Status (bw_file w) \<noteq> StatusPending" and "staged = None \<or> staged = Some content"
    and "0 \<le> bw_offset w" and "bw_offset w + bw_length w \<le> int (length content)"
    and "0 \<le> a" and "a \<le> b" and "a < bw_length w" and "in64 b"
  shows "serveBytes buf failure False (''bytes='' @ show_int a @ ''-'' @ show_int b) None staged (Inr f) w =
    Reply 206 (Some (a, min b (bw_length w - 1), bw_length w)) (min b (bw_length w - 1) - a + 1)
      (slice content (bw_offset w + a) (bw_offset w + min b (bw_length w - 1)))"
proof -
  have "fl_pos f = 0" using assms(1) by (auto simp: Open_def split: if_splits)
  then have "serves content None staged (Inr f) w" using Open_inv [OF assms(1-3)] assms(5-9,11) by (simp add: serves_def)
  from serve_exact [OF this assms(4) parseRange_shape] show ?thesis using assms(9-12) by simp
qed

section \<open>Segments\<close>

lemma segmentWindow_geometry:
  assumes "0 < f_SegmentSize f" "in64 (f_SegmentSize f)" "in64 (f_Size f)" "0 \<le> f_Size f"
    and "f_SegmentCount f = SegmentCount (f_SegmentSize f) (f_Size f)" "1 \<le> i" "i \<le> f_SegmentCount f"
  obtains w where "segmentWindow f i = Inr w" "bw_file w = f" "bw_offset w = (i - 1) * f_SegmentSize f"
    "0 \<le> bw_offset w" "bw_offset w + bw_length w = min (f_Size f) (i * f_SegmentSize f)" "0 \<le> bw_length w"
proof -
  let ?seg = "f_SegmentSize f" and ?n = "f_Size f"
  have c: "i \<le> SegmentCount ?seg ?n" using assms(5,7) by simp
  note sz = SegmentSize_at [OF assms(1,2,4,3,6) c]
  have "(i - 1) * ?seg \<le> ?n"
    using sz(3) assms(4) c assms(6) by (cases "?n = 0") (auto simp: SegmentCount_def)
  moreover have "0 \<le> (i - 1) * ?seg" using assms(1,6) by simp
  ultimately have w: "wrap64 ((i - 1) * ?seg) = (i - 1) * ?seg" "0 \<le> (i - 1) * ?seg" "min ?n ((i - 1) * ?seg) = (i - 1) * ?seg"
    using assms(3) by (auto intro!: wrap64_id simp: in64_def)
  then show thesis
    using assms(6,7) sz(2) take_segment [OF assms(1,2,4,3,6) c]
    by (intro that [of "\<lparr>bw_file = f, bw_offset = (i - 1) * ?seg, bw_length = SegmentSize ?n ?seg i\<rparr>"])
      (simp_all add: segmentWindow_def)
qed

lemma serve_whole_window:
  assumes "serves content refused staged opened w" and "0 < buf"
  shows "serveBytes buf failure False [] refused staged opened w =
    Reply 200 None (bw_length w) (slice content (bw_offset w) (bw_offset w + bw_length w - 1))"
proof (cases "bw_length w = 0")
  case True
  then show ?thesis using assms(1) by (simp add: serveBytes_def parseRange_def serves_def slice_empty)
next
  case False
  then have "0 < bw_length w" using assms(1) by (simp add: serves_def)
  then show ?thesis
    using serve_exact [OF assms, of "[]" 0 "bw_length w - 1" False failure] by (simp add: parseRange_def algebra_simps)
qed

lemma join_slices:
  assumes "0 < seg" and "0 \<le> k" and "(k - 1) * seg \<le> int (length content)"
  shows "concat (map (\<lambda>i. slice content ((i - 1) * seg) (min (int (length content)) (i * seg) - 1)) [1..k]) =
    slice content 0 (min (int (length content)) (k * seg) - 1)"
  using assms(2,3)
proof (induction k rule: int_ge_induct [of 0])
  case base
  then show ?case by (simp add: slice_empty)
next
  case (step k)
  have le: "k * seg \<le> int (length content)" "k * seg \<le> (k + 1) * seg" using step.prems assms(1) by (simp_all add: algebra_simps)
  then have "(k - 1) * seg \<le> int (length content)" using assms(1) by (simp add: algebra_simps)
  then have IH: "concat (map (\<lambda>i. slice content ((i - 1) * seg) (min (int (length content)) (i * seg) - 1)) [1..k]) = slice content 0 (k * seg - 1)"
    using step.IH le by simp
  have up: "[1..k + 1] = [1..k] @ [k + 1]" using upto_rec2 [of 1 "k + 1"] step.hyps by simp
  have "slice content 0 (k * seg - 1) @ slice content (k * seg) (min (int (length content)) ((k + 1) * seg) - 1) =
      slice content 0 (min (int (length content)) ((k + 1) * seg) - 1)"
    using slice_append [of 0 "k * seg - 1" "min (int (length content)) ((k + 1) * seg) - 1" content] le step.hyps assms(1) by simp
  then show ?case using IH by (simp add: up)
qed

text \<open>C28: downloading the segments of a file one by one and joining them gives what a download of the whole file gives: the bytes that
were uploaded.\<close>

theorem segments_join_to_file:
  assumes "Open sf (int (length content)) segSize opts = Inr fl" and "good_sources sf content segSize"
    and "in64 (int (length content) + segSize)" and "0 < buf" and "f_Status f = StatusComplete"
    and "staged = None \<or> staged = Some content"
    and "f_Size f = int (length content)" and "f_SegmentSize f = segSize" and "0 < segSize" and "in64 segSize"
    and "f_SegmentCount f = SegmentCount segSize (f_Size f)"
  shows "\<exists>bodies. list_all2 (\<lambda>i body. \<exists>w. segmentWindow f i = Inr w \<and>
        serveBytes buf failure False [] None staged (Inr fl) w = Reply 200 None (int (length body)) body) [1..f_SegmentCount f] bodies \<and>
      serveBytes buf failure False [] None staged (Inr fl) (wholeFileWindow f) = Reply 200 None (int (length content)) (concat bodies) \<and>
      concat bodies = content"
proof -
  let ?n = "int (length content)" and ?k = "f_SegmentCount f"
  let ?body = "\<lambda>i. slice content ((i - 1) * segSize) (min ?n (i * segSize) - 1)"
  have in64: "in64 (f_Size f)" using assms(3,7,9) by (simp add: in64_def)
  have inv: "file_inv content fl" "fl_pos fl = 0" using Open_inv [OF assms(1-3)] assms(1) by (auto simp: Open_def split: if_splits)
  have srv: "serves content None staged (Inr fl) w" if "bw_file w = f" "0 \<le> bw_offset w" "0 \<le> bw_length w" "bw_offset w + bw_length w \<le> ?n" for w
    using that inv assms(5,6) by (simp add: serves_def)
  have seg: "\<exists>w. segmentWindow f i = Inr w \<and>
      serveBytes buf failure False [] None staged (Inr fl) w = Reply 200 None (int (length (?body i))) (?body i)" if i: "1 \<le> i" "i \<le> ?k" for i
  proof -
    obtain w where w: "segmentWindow f i = Inr w" "bw_file w = f" "bw_offset w = (i - 1) * segSize" "0 \<le> bw_offset w"
      "bw_offset w + bw_length w = min ?n (i * segSize)" "0 \<le> bw_length w"
    proof -
      obtain w where "segmentWindow f i = Inr w" "bw_file w = f" "bw_offset w = (i - 1) * f_SegmentSize f" "0 \<le> bw_offset w"
        "bw_offset w + bw_length w = min (f_Size f) (i * f_SegmentSize f)" "0 \<le> bw_length w"
        by (rule segmentWindow_geometry [of f i]) (use assms(7-11) in64 i in simp_all)
      then show thesis using that assms(7,8) by simp
    qed
    have "serveBytes buf failure False [] None staged (Inr fl) w = Reply 200 None (bw_length w) (slice content (bw_offset w) (bw_offset w + bw_length w - 1))"
      by (rule serve_whole_window [OF srv assms(4)]) (use w in auto)
    moreover have "slice content (bw_offset w) (bw_offset w + bw_length w - 1) = ?body i" using w(3,5) by simp
    moreover have "int (length (?body i)) = bw_length w" using length_slice [of "(i - 1) * segSize" "min ?n (i * segSize) - 1" content] w by simp
    ultimately show ?thesis using w(1) by metis
  qed
  have k: "0 \<le> ?k" "(?k - 1) * segSize \<le> ?n" "?n \<le> ?k * segSize"
    using SegmentCount_bounds [OF assms(9), of ?n] assms(7,9,11) by (cases "?n = 0"; simp add: SegmentCount_def)+
  have "concat (map ?body [1..?k]) = slice content 0 (?n - 1)" using join_slices [OF assms(9) k(1,2)] k(3) by simp
  then have join: "concat (map ?body [1..?k]) = content" by (simp add: slice_def)
  have "serveBytes buf failure False [] None staged (Inr fl) (wholeFileWindow f) = Reply 200 None ?n (slice content 0 (?n - 1))"
    using serve_whole_window [OF srv assms(4), of "wholeFileWindow f" failure] assms(7) by (simp add: wholeFileWindow_def)
  then have "serveBytes buf failure False [] None staged (Inr fl) (wholeFileWindow f) = Reply 200 None ?n (concat (map ?body [1..?k]))"
    using join by (simp add: slice_def)
  moreover have "list_all2 (\<lambda>i body. \<exists>w. segmentWindow f i = Inr w \<and>
        serveBytes buf failure False [] None staged (Inr fl) w = Reply 200 None (int (length body)) body) [1..?k] (map ?body [1..?k])"
    unfolding list.rel_map(2) by (rule list.rel_refl_strong) (rule seg, auto)
  ultimately show ?thesis using join by blast
qed

section \<open>Scoped accounts\<close>

lemma DirByID_InrE: "DirByID did d = Inr r \<Longrightarrow> r \<in> set (db_dirs d) \<and> d_ID r = did"
  by (auto simp: DirByID_def query_row_def find_Some_iff split: option.splits)

lemma fileForUser_InrE: "fileForUser (Some u) fid d = Inr f \<Longrightarrow>
    Can u PermDownload \<and> (Unrestricted (ScopeOf u) \<or> (\<exists>p. filePath f d = Inr p \<and> Contains (ScopeOf u) p))"
  by (auto simp: fileForUser_def checkFileAccess_def requirePerm_def scopeOf_def go_bind_def split: sum.splits if_splits)

text \<open>An account with a scope is handed only files that lie in a folder below the root of its scope (or that are that root).\<close>

theorem file_access_confined:
  assumes "index_inv d" and "fileForUser (Some u) fid d = Inr f" and "\<not> Unrestricted (ScopeOf u)" and "plain (f_Name f)"
  shows "filePath f d = Inr (sc_Root (ScopeOf u)) \<or>
    (\<exists>p \<in> set (db_dirs d). d_Path p = sc_Root (ScopeOf u) \<and> f_DirID f \<in> set (subtree_ids (db_dirs d) (d_ID p)))"
proof -
  let ?root = "sc_Root (ScopeOf u)"
  obtain rs where rs: "?root = path_of rs" "rs \<noteq> []" "\<forall>n \<in> set rs. valid_name n" using wf_scopeE [OF wf_ScopeOf assms(3)] .
  obtain p where p: "filePath f d = Inr p" "Contains (ScopeOf u) p" using fileForUser_InrE [OF assms(2)] assms(3) by blast
  have t: "tree_inv (db_dirs d)" using assms(1) by (simp add: index_inv_def)
  have ns: "CHR ''/'' \<notin> set (f_Name f)" using assms(4) by (simp add: plain_def)
  show ?thesis
  proof (cases "p = ?root")
    case True
    then show ?thesis using p(1) by simp
  next
    case False
    then have b: "below ?root p" using p(2) assms(3) by (auto simp: Contains_def ToVisible_def split: if_splits)
    show ?thesis
    proof (cases "f_DirID f = []")
      case True
      then have "below ?root (Root @ f_Name f)" using b p(1) by (simp add: filePath_def Join_def Root_def)
      then show ?thesis using ns by (auto simp: rs(1) path_of_def Root_def prefix_def)
    next
      case False
      then obtain r where r: "r \<in> set (db_dirs d)" "d_ID r = f_DirID f" "p = Join (d_Path r) (f_Name f)"
        using p(1) DirByID_InrE by (auto simp: filePath_def split: sum.splits)
      have "p = d_Path r @ ''/'' @ f_Name f" using tree_path_ok [OF t r(1)] r(3) by (auto simp: Join_def Root_def)
      then have "?root = d_Path r \<or> below ?root (d_Path r)" using b below_child [OF ns] by simp
      then show ?thesis
      proof
        assume e: "?root = d_Path r"
        then show ?thesis using r subtree_ids_iff [OF t r(1) r(1)] by (intro disjI2 bexI [of _ r]) auto
      next
        assume b': "below ?root (d_Path r)"
        have "?root \<noteq> []" by (simp add: rs(1) path_of_def)
        from ancestor_exists [OF t r(1) this b'] obtain y where y: "y \<in> set (db_dirs d)" "d_Path y = ?root" by blast
        then show ?thesis using r(2) subtree_ids_iff [OF t y(1) r(1)] b' by (intro disjI2 bexI [of _ y]) auto
      qed
    qed
  qed
qed

section \<open>Examples\<close>

definition ten_bytes :: FileRow where
  "ten_bytes = \<lparr>f_ID = ''f'', f_DirID = [], f_Name = ''x.mkv'', f_Size = 10, f_MIME = [], f_SegmentSize = 4,
     f_SegmentCount = 3, f_Status = StatusComplete, f_ChannelID = [], f_CreatedAt = 0, f_UpdatedAt = 0, f_OwnerID = []\<rparr>"

theorem range_delivers_exactly_witness:
  "\<exists>fl. serveBytes 2 [] False (''bytes='' @ show_int 3 @ ''-'' @ show_int 20) None None (Inr fl :: int + nat File) (wholeFileWindow ten_bytes) =
    Reply 206 (Some (3, 9, 10)) 7 [3, 4, 5, 6, 7, 8, 9]"
proof -
  obtain fl where fl: "Open (mem_sources [0 :: nat ..< 10] 4) (int (length [0 :: nat ..< 10])) 4 no_options = Inr fl" by (simp add: Open_def)
  have w: "bw_offset (wholeFileWindow ten_bytes) = 0" "bw_length (wholeFileWindow ten_bytes) = 10" "f_Status (bw_file (wholeFileWindow ten_bytes)) \<noteq> StatusPending"
    by (simp_all add: wholeFileWindow_def ten_bytes_def)
  have "serveBytes 2 [] False (''bytes='' @ show_int 3 @ ''-'' @ show_int 20) None None (Inr fl :: int + nat File) (wholeFileWindow ten_bytes) =
    Reply 206 (Some (3, min 20 (bw_length (wholeFileWindow ten_bytes) - 1), bw_length (wholeFileWindow ten_bytes)))
      (min 20 (bw_length (wholeFileWindow ten_bytes) - 1) - 3 + 1)
      (slice [0 ..< 10] (bw_offset (wholeFileWindow ten_bytes) + 3) (bw_offset (wholeFileWindow ten_bytes) + min 20 (bw_length (wholeFileWindow ten_bytes) - 1)))"
    by (rule range_delivers_exactly [OF fl good_mem_sources]) (use w in \<open>auto simp: in64_def\<close>)
  moreover have "slice [0 ..< 10] 3 9 = [3, 4, 5, 6, 7, 8, 9 :: nat]" by (simp add: slice_def upt_rec)
  ultimately show ?thesis by (auto simp: w)
qed

theorem segments_join_to_file_witness:
  "\<exists>(fl :: nat File) bodies. list_all2 (\<lambda>i body. \<exists>w. segmentWindow ten_bytes i = Inr w \<and>
        serveBytes 2 [] False [] None None (Inr fl :: int + nat File) w = Reply 200 None (int (length body)) body) [1..3] bodies \<and>
      concat bodies = [0 ..< 10]"
proof -
  obtain fl where fl: "Open (mem_sources [0 :: nat ..< 10] 4) (int (length [0 :: nat ..< 10])) 4 no_options = Inr fl" by (simp add: Open_def)
  have c: "f_SegmentCount ten_bytes = SegmentCount 4 (f_Size ten_bytes)" by (simp add: ten_bytes_def SegmentCount_def Let_def)
  have f: "f_Status ten_bytes = StatusComplete" "f_Size ten_bytes = int (length [0 :: nat ..< 10])" "f_SegmentSize ten_bytes = 4"
    "f_SegmentCount ten_bytes = 3"
    by (simp_all add: ten_bytes_def)
  have "in64 (int (length [0 :: nat ..< 10]) + 4)" "in64 (4 :: int)" by (simp_all add: in64_def)
  then obtain bodies where "list_all2 (\<lambda>i body. \<exists>w. segmentWindow ten_bytes i = Inr w \<and>
        serveBytes 2 [] False [] None None (Inr fl :: int + nat File) w = Reply 200 None (int (length body)) body) [1..f_SegmentCount ten_bytes] bodies"
      "concat bodies = [0 ..< 10]"
    using segments_join_to_file [OF fl good_mem_sources _ _ f(1) _ f(2,3) _ _ c, of 2 None "[]"] by auto
  then show ?thesis unfolding f(4) by blast
qed

definition guest_at :: "string \<Rightarrow> User" where
  "guest_at p = \<lparr>u_ID = ''G'', u_Username = ''guest'', u_PasswordHash = [], u_Role = RoleUser, u_CreatedAt = 0, u_UpdatedAt = 0, u_Enabled = True,
     u_Perms = PermDownload, u_ScopePath = p, u_QuotaBytes = 0, u_Note = [], u_LastLoginAt = 0, u_LastLoginIP = []\<rparr>"

definition film_folder :: Dir where
  "film_folder = \<lparr>d_ID = ''d'', d_ParentID = [], d_Name = ''films'', d_Path = ''/films'', d_ChannelID = [], d_TGMsgID = 0, d_CreatedAt = 0, d_UpdatedAt = 0,
     d_OwnerID = []\<rparr>"

definition film_index :: db where
  "film_index = empty_db\<lparr>db_dirs := [film_folder], db_files := [ten_bytes\<lparr>f_DirID := ''d''\<rparr>]\<rparr>"

theorem file_access_confined_witness:
  "\<exists>p \<in> set (db_dirs film_index). d_Path p = sc_Root (ScopeOf (guest_at ''/films'')) \<and> ''d'' \<in> set (subtree_ids (db_dirs film_index) (d_ID p))"
proof -
  have i: "index_inv film_index"
    by (simp add: index_inv_def tree_inv_def files_inv_def film_index_def film_folder_def ten_bytes_def empty_db_def parent_ok_def
        dir_name_def plain_def Root_def valid_utf8_ascii dir_exists_def)
  have f: "fileForUser (Some (guest_at ''/films'')) ''f'' film_index = Inr (ten_bytes\<lparr>f_DirID := ''d''\<rparr>)" by code_simp
  have u: "\<not> Unrestricted (ScopeOf (guest_at ''/films''))" by code_simp
  have n: "plain (f_Name (ten_bytes\<lparr>f_DirID := ''d''\<rparr>))" by (simp add: ten_bytes_def plain_def)
  have "\<not> filePath (ten_bytes\<lparr>f_DirID := ''d''\<rparr>) film_index = Inr (sc_Root (ScopeOf (guest_at ''/films'')))" by code_simp
  then show ?thesis using file_access_confined [OF i f u n] by (simp add: ten_bytes_def)
qed

section \<open>Where the code falls short\<close>

text \<open>The header of a range request is sent before the file is opened: when that fails, the JSON of the error
arrives as the first bytes of the range, with the status of a success.\<close>

lemma range_failure_is_partial_content:
  "serveBytes 2 ''{error}'' False (''bytes='' @ show_int 0 @ ''-'' @ show_int 9) None None (Inl e) (wholeFileWindow ten_bytes) =
    Reply 206 (Some (0, 9, 10)) 10 ''{error}''"
proof -
  have "bw_length (wholeFileWindow ten_bytes) = 10" "f_Status (bw_file (wholeFileWindow ten_bytes)) = StatusComplete"
    by (simp_all add: wholeFileWindow_def ten_bytes_def)
  moreover have "parseRange (''bytes='' @ show_int 0 @ ''-'' @ show_int 9) 10 = Some (0, 9, True)"
    using parseRange_shape [of 0 9 10] by (simp add: in64_def)
  ultimately show ?thesis unfolding serveBytes_def serve_drive_def Let_def by (simp del: append.simps)
qed

text \<open>A file at the root with the name of the scope's folder is inside the scope.\<close>

lemma file_shadows_scope:
  "fileForUser (Some (guest_at ''/x.mkv'')) ''f'' (empty_db\<lparr>db_files := [ten_bytes]\<rparr>) = Inr ten_bytes"
  by code_simp

section \<open>Staged copies\<close>

lemma query_rowD: "query_row P xs = Inr w \<Longrightarrow> w \<in> set xs \<and> P w"
  by (auto simp: query_row_Inr find_Some_iff)

text \<open>The copy that \<open>stagedCopy\<close> finds has the bytes of the file.\<close>

lemma stagedCopy_content:
  assumes "stage_inv newID content s" and "fst (stagedCopy fid s) = Some bytes"
  shows "bytes = content fid"
proof -
  obtain w where w: "StagedDownloadFor fid (sg_db s) = Inr w" "sg_target s (w_ID w) = Some bytes"
    using assms(2) by (auto simp: stagedCopy_def split: sum.splits if_splits option.splits)
  then have "w \<in> set (newest (db_downloads (sg_db s))) \<and> w_FileID w = fid"
    unfolding StagedDownloadFor_def using query_rowD by fastforce
  then have "w \<in> set (db_downloads (sg_db s))" "w_FileID w = fid" by (simp_all add: newest_def)
  then show ?thesis using assms(1) w(2) unfolding stage_inv_def by blast
qed

end
