(* ===== verification/Shares.thy ===== *)
theory Shares
  imports Serve
begin

text \<open>
  Share links: the table of \<open>internal/database/shares.go\<close> and the handlers of \<open>internal/api/shares.go\<close>.  A token
  is kept as its hash only; the hash function and the random tokens are parameters.  The database clock is in
  milliseconds; durations are in nanoseconds, as \<open>time.Duration\<close> has them.
\<close>

section \<open>The table\<close>

datatype ShareKind = ShareFile | ShareSegment

record ShareLink =
  sl_ID :: string
  sl_UserID :: string
  sl_FileID :: string
  sl_Hash :: string
  sl_Kind :: ShareKind
  sl_Label :: string
  sl_ExpiresAt :: int
  sl_Revoked :: bool
  sl_Hits :: int
  sl_CreatedAt :: int
  sl_LastUsedAt :: int

record share_sys =
  sh_db :: db
  sh_links :: "ShareLink list"
  sh_seq :: nat

text \<open>\<open>expiry\<close> is \<open>None\<close> for the zero time.\<close>

definition CreateShare ::
  "(string \<Rightarrow> string) \<Rightarrow> string \<Rightarrow> string \<Rightarrow> string \<Rightarrow> ShareKind \<Rightarrow> string \<Rightarrow> int option \<Rightarrow> string \<Rightarrow> share_sys \<Rightarrow>
   (db_error + ShareLink) \<times> share_sys" where
  "CreateShare hash sid uid fid kind label expiry token s =
     (let row = \<lparr>sl_ID = sid, sl_UserID = uid, sl_FileID = fid, sl_Hash = hash token, sl_Kind = kind, sl_Label = label,
            sl_ExpiresAt = (case expiry of None \<Rightarrow> 0 | Some ms \<Rightarrow> ms), sl_Revoked = False, sl_Hits = 0,
            sl_CreatedAt = db_now (sh_db s), sl_LastUsedAt = 0\<rparr>
      in if list_ex (\<lambda>l. sl_ID l = sid \<or> sl_Hash l = hash token) (sh_links s) then (Inl ErrConflict, s)
         else if uid \<noteq> [] \<and> \<not> user_exists uid (sh_db s) \<or> \<not> file_exists fid (sh_db s) then (Inl ErrConstraint, s)
         else (Inr row, s\<lparr>sh_links := sh_links s @ [row]\<rparr>))"

text \<open>\<open>scanShare\<close>: an expiry that is not positive is read as none.\<close>

definition expired :: "int \<Rightarrow> ShareLink \<Rightarrow> bool" where
  "expired now l \<longleftrightarrow> sl_ExpiresAt l > 0 \<and> now > sl_ExpiresAt l"

definition ShareByToken :: "(string \<Rightarrow> string) \<Rightarrow> string \<Rightarrow> share_sys \<Rightarrow> db_error + ShareLink" where
  "ShareByToken hash token s =
     (case query_row (\<lambda>l. sl_Hash l = hash token) (sh_links s) of
        Inl e \<Rightarrow> Inl e
      | Inr l \<Rightarrow> if sl_Revoked l then Inl ErrNotFound else if expired (db_now (sh_db s)) l then Inl ErrNotFound else Inr l)"

definition TouchShare :: "string \<Rightarrow> share_sys \<Rightarrow> share_sys" where
  "TouchShare sid s = s\<lparr>sh_links := update_where (\<lambda>l. sl_ID l = sid)
     (\<lambda>l. l\<lparr>sl_Hits := sl_Hits l + 1, sl_LastUsedAt := db_now (sh_db s)\<rparr>) (sh_links s)\<rparr>"

definition ShareByID :: "string \<Rightarrow> share_sys \<Rightarrow> db_error + ShareLink" where
  "ShareByID sid s = query_row (\<lambda>l. sl_ID l = sid) (sh_links s)"

definition ListShares :: "string \<Rightarrow> bool \<Rightarrow> share_sys \<Rightarrow> ShareLink list" where
  "ListShares uid includeRevoked s =
     take 500 (sort_key (\<lambda>l. - sl_CreatedAt l)
       (filter (\<lambda>l. (uid = [] \<or> sl_UserID l = uid) \<and> (includeRevoked \<or> \<not> sl_Revoked l)) (sh_links s)))"

definition RevokeShare :: "string \<Rightarrow> share_sys \<Rightarrow> (db_error + unit) \<times> share_sys" where
  "RevokeShare sid s =
     (affectedOne (\<lambda>l. sl_ID l = sid) (sh_links s),
      s\<lparr>sh_links := update_where (\<lambda>l. sl_ID l = sid) (\<lambda>l. l\<lparr>sl_Revoked := True\<rparr>) (sh_links s)\<rparr>)"

definition PurgeShares :: "int \<Rightarrow> share_sys \<Rightarrow> share_sys" where
  "PurgeShares older s = s\<lparr>sh_links := filter (\<lambda>l. \<not> (sl_ExpiresAt l > 0 \<and> sl_ExpiresAt l < older \<or>
     sl_Revoked l \<and> sl_CreatedAt l < older)) (sh_links s)\<rparr>"

section \<open>The handlers\<close>

text \<open>\<open>now\<close> and the result are in milliseconds, the multiplication by a second wraps.\<close>

definition shareExpiry :: "int \<Rightarrow> int \<Rightarrow> int \<Rightarrow> int option" where
  "shareExpiry shareTTL now ttlSeconds =
     (let after = (\<lambda>d. Some ((now * 1000000 + d) div 1000000))
      in if ttlSeconds < 0 then None
         else if ttlSeconds > 0 then after (wrap64 (ttlSeconds * 1000000000))
         else if shareTTL > 0 then after shareTTL else None)"

definition mintShare ::
  "(string \<Rightarrow> string) \<Rightarrow> (nat \<Rightarrow> string) \<Rightarrow> (nat \<Rightarrow> string) \<Rightarrow> FileRow \<Rightarrow> ShareKind \<Rightarrow> int \<Rightarrow> string \<Rightarrow> int option \<Rightarrow> string \<Rightarrow> share_sys \<Rightarrow>
   (db_error + string \<times> ShareLink) \<times> share_sys" where
  "mintShare hash newID newToken f kind index label expiry uid s =
     (let token = newToken (sh_seq s); stored = (if kind = ShareSegment then show_int index else label)
      in case CreateShare hash (newID (sh_seq s)) uid (f_ID f) kind stored expiry token (s\<lparr>sh_seq := Suc (sh_seq s)\<rparr>) of
           (Inl e, s') \<Rightarrow> (Inl e, s')
         | (Inr l, s') \<Rightarrow> (Inr (token, l), s'))"

datatype share_error = SAccess access_error | SUploading

text \<open>One link for each segment; an error leaves the links minted before.\<close>

fun mint_segments ::
  "(string \<Rightarrow> string) \<Rightarrow> (nat \<Rightarrow> string) \<Rightarrow> (nat \<Rightarrow> string) \<Rightarrow> FileRow \<Rightarrow> string \<Rightarrow> int option \<Rightarrow> string \<Rightarrow> int list \<Rightarrow> share_sys \<Rightarrow>
   (share_error + (string \<times> ShareLink) list) \<times> share_sys" where
  "mint_segments hash newID newToken f label expiry uid [] s = (Inr [], s)"
| "mint_segments hash newID newToken f label expiry uid (i # idxs) s =
     (case mintShare hash newID newToken f ShareSegment i label expiry uid s of
        (Inl e, s1) \<Rightarrow> (Inl (SAccess (ADb e)), s1)
      | (Inr link, s1) \<Rightarrow>
          (case mint_segments hash newID newToken f label expiry uid idxs s1 of
             (Inl e, s2) \<Rightarrow> (Inl e, s2)
           | (Inr links, s2) \<Rightarrow> (Inr (link # links), s2)))"

definition share_indexes :: "bool \<Rightarrow> FileRow \<Rightarrow> int list" where
  "share_indexes segments f = (if segments \<and> f_SegmentCount f > 1 then [1..f_SegmentCount f] else [])"

definition handleCreateShare ::
  "(string \<Rightarrow> string) \<Rightarrow> (nat \<Rightarrow> string) \<Rightarrow> (nat \<Rightarrow> string) \<Rightarrow> int \<Rightarrow> User \<Rightarrow> string \<Rightarrow> int \<Rightarrow> bool \<Rightarrow> string \<Rightarrow> share_sys \<Rightarrow>
   (share_error + (string \<times> ShareLink) \<times> (string \<times> ShareLink) list) \<times> share_sys" where
  "handleCreateShare hash newID newToken shareTTL user fid ttlSeconds segments label s =
     (case fileForUser (Some user) fid (sh_db s) of
        Inl e \<Rightarrow> (Inl (SAccess e), s)
      | Inr f \<Rightarrow>
          (case requirePerm (Some user) PermShare of
             Inl e \<Rightarrow> (Inl (SAccess e), s)
           | Inr _ \<Rightarrow>
               if f_Status f = StatusPending then (Inl SUploading, s)
               else let expiry = shareExpiry shareTTL (db_now (sh_db s)) ttlSeconds
                    in case mintShare hash newID newToken f ShareFile 0 label expiry (u_ID user) s of
                         (Inl e, s1) \<Rightarrow> (Inl (SAccess (ADb e)), s1)
                       | (Inr whole, s1) \<Rightarrow>
                           (case mint_segments hash newID newToken f label expiry (u_ID user)
                                 (share_indexes segments f) s1 of
                              (Inl e, s2) \<Rightarrow> (Inl e, s2)
                            | (Inr links, s2) \<Rightarrow> (Inr (whole, links), s2))))"

definition handleListShares :: "User \<Rightarrow> bool \<Rightarrow> bool \<Rightarrow> share_sys \<Rightarrow> ShareLink list" where
  "handleListShares user everyone revoked s =
     ListShares (if u_Role user = RoleAdmin \<and> everyone then [] else u_ID user) revoked s"

definition handleRevokeShare :: "User \<Rightarrow> string \<Rightarrow> share_sys \<Rightarrow> (db_error + unit) \<times> share_sys" where
  "handleRevokeShare user sid s =
     (case ShareByID sid s of
        Inl e \<Rightarrow> (Inl e, s)
      | Inr l \<Rightarrow> if sl_UserID l \<noteq> u_ID user \<and> u_Role user \<noteq> RoleAdmin then (Inl ErrNotFound, s) else RevokeShare sid s)"

text \<open>The window a token opens.\<close>

definition handleShareDownload :: "(string \<Rightarrow> string) \<Rightarrow> string \<Rightarrow> share_sys \<Rightarrow> byteWindow option \<times> share_sys" where
  "handleShareDownload hash token s =
     (case ShareByToken hash token s of
        Inl _ \<Rightarrow> (None, s)
      | Inr l \<Rightarrow>
          (case FileByID (sl_FileID l) (sh_db s) of
             Inl _ \<Rightarrow> (None, s)
           | Inr f \<Rightarrow>
               let s1 = TouchShare (sl_ID l) s
               in if sl_Kind l = ShareSegment
                  then (case parse_int64 (sl_Label l) of
                          None \<Rightarrow> (None, s1)
                        | Some i \<Rightarrow> (case segmentWindow f i of Inl _ \<Rightarrow> (None, s1) | Inr w \<Rightarrow> (Some w, s1)))
                  else (Some (wholeFileWindow f), s1)))"

section \<open>Any sequence of requests\<close>

text \<open>Deleting a file or an account takes its links along; time passes.\<close>

datatype share_event =
    ShCreate User string int bool string
  | ShRevoke User string
  | ShDownload string
  | ShPurge int
  | ShFileGone string
  | ShUserGone string
  | ShTick nat

fun share_step :: "(string \<Rightarrow> string) \<Rightarrow> (nat \<Rightarrow> string) \<Rightarrow> (nat \<Rightarrow> string) \<Rightarrow> int \<Rightarrow> share_event \<Rightarrow> share_sys \<Rightarrow> share_sys" where
  "share_step hash newID newToken shareTTL (ShCreate user fid ttl segments label) s =
     snd (handleCreateShare hash newID newToken shareTTL user fid ttl segments label s)"
| "share_step hash newID newToken shareTTL (ShRevoke user sid) s = snd (handleRevokeShare user sid s)"
| "share_step hash newID newToken shareTTL (ShDownload token) s = snd (handleShareDownload hash token s)"
| "share_step hash newID newToken shareTTL (ShPurge older) s = PurgeShares older s"
| "share_step hash newID newToken shareTTL (ShFileGone fid) s =
     s\<lparr>sh_links := filter (\<lambda>l. sl_FileID l \<noteq> fid) (sh_links s),
       sh_db := (sh_db s)\<lparr>db_files := filter (\<lambda>f. f_ID f \<noteq> fid) (db_files (sh_db s))\<rparr>\<rparr>"
| "share_step hash newID newToken shareTTL (ShUserGone uid) s =
     s\<lparr>sh_links := filter (\<lambda>l. uid = [] \<or> sl_UserID l \<noteq> uid) (sh_links s),
       sh_db := (sh_db s)\<lparr>db_users := filter (\<lambda>u. u_ID u \<noteq> uid) (db_users (sh_db s))\<rparr>\<rparr>"
| "share_step hash newID newToken shareTTL (ShTick n) s = s\<lparr>sh_db := (sh_db s)\<lparr>db_now := db_now (sh_db s) + int n\<rparr>\<rparr>"

end
