(* ===== verification/ShareProps.thy ===== *)
theory ShareProps
  imports Shares
begin

text \<open>
  A share link opens only what an account with the right to read and to share a file has shared, and a token
  that has been refused once is refused for good.
\<close>

section \<open>Rows and their history\<close>

definition same_link :: "ShareLink \<Rightarrow> ShareLink \<Rightarrow> bool" where
  "same_link l l' \<longleftrightarrow> sl_FileID l' = sl_FileID l \<and> sl_Hash l' = sl_Hash l \<and> sl_ExpiresAt l' = sl_ExpiresAt l \<and> (sl_Revoked l \<longrightarrow> sl_Revoked l')"

text \<open>Every row was there before or is new: of the file, with the hash of a token drawn now.\<close>

definition grows_by :: "string set \<Rightarrow> string set \<Rightarrow> share_sys \<Rightarrow> share_sys \<Rightarrow> bool" where
  "grows_by fids hashes s s' \<longleftrightarrow> sh_seq s \<le> sh_seq s' \<and> db_now (sh_db s) \<le> db_now (sh_db s') \<and>
     (\<forall>l' \<in> set (sh_links s'). (\<exists>l \<in> set (sh_links s). same_link l l') \<or> sl_FileID l' \<in> fids \<and> sl_Hash l' \<in> hashes)"

lemma same_link_refl: "same_link l l" by (simp add: same_link_def)

lemma same_link_trans: "\<lbrakk>same_link a b; same_link b c\<rbrakk> \<Longrightarrow> same_link a c" by (simp add: same_link_def)

lemma shares_grow_refl: "grows_by F H s s" by (auto simp: grows_by_def intro: same_link_refl)

lemma grows_trans: "\<lbrakk>grows_by F H a b; grows_by F H b c\<rbrakk> \<Longrightarrow> grows_by F H a c"
proof -
  assume ab: "grows_by F H a b" and bc: "grows_by F H b c"
  have "(\<exists>l \<in> set (sh_links a). same_link l l'') \<or> sl_FileID l'' \<in> F \<and> sl_Hash l'' \<in> H" if l: "l'' \<in> set (sh_links c)" for l''
  proof (cases "\<exists>l' \<in> set (sh_links b). same_link l' l''")
    case True
    then obtain l' where l': "l' \<in> set (sh_links b)" "same_link l' l''" by blast
    then show ?thesis using ab same_link_trans unfolding grows_by_def by (metis same_link_def)
  next
    case False
    then show ?thesis using bc l unfolding grows_by_def by blast
  qed
  then show ?thesis using ab bc by (auto simp: grows_by_def)
qed

lemma grows_update: "(\<And>l. same_link l (f l)) \<Longrightarrow> grows_by F H s (s\<lparr>sh_links := update_where P f (sh_links s)\<rparr>)"
  by (auto simp: grows_by_def set_update_where intro: same_link_refl)

lemma CreateShare_cases:
  assumes "CreateShare hash sid uid fid kind label expiry token s = (r, s')"
  shows "s' = s \<or> (\<exists>row. s' = s\<lparr>sh_links := sh_links s @ [row]\<rparr> \<and> sl_FileID row = fid \<and> sl_Hash row = hash token)"
  using assms unfolding CreateShare_def Let_def
  by (cases "list_ex (\<lambda>l. sl_ID l = sid \<or> sl_Hash l = hash token) (sh_links s)"; cases "uid \<noteq> [] \<and> \<not> user_exists uid (sh_db s) \<or> \<not> file_exists fid (sh_db s)")
    auto

abbreviation drawn_from :: "(string \<Rightarrow> string) \<Rightarrow> (nat \<Rightarrow> string) \<Rightarrow> nat \<Rightarrow> string set" where
  "drawn_from hash newToken n \<equiv> (\<lambda>k. hash (newToken k)) ` {n..}"

lemma grows_append: "\<lbrakk>sl_FileID row \<in> F; sl_Hash row \<in> H; sh_seq s \<le> n\<rbrakk> \<Longrightarrow>
    grows_by F H s (s\<lparr>sh_seq := n, sh_links := sh_links s @ [row]\<rparr>)"
  using same_link_refl by (simp add: grows_by_def ball_Un) blast

lemma grows_seq: "sh_seq s \<le> n \<Longrightarrow> grows_by F H s (s\<lparr>sh_seq := n\<rparr>)"
  using same_link_refl by (simp add: grows_by_def) blast

lemma mintShare_grows:
  assumes "mintShare hash newID newToken f kind i label expiry uid s = (r, s')"
  shows "grows_by {f_ID f} (drawn_from hash newToken (sh_seq s)) s s' \<and> sh_seq s' = Suc (sh_seq s) \<and> sh_db s' = sh_db s"
proof -
  obtain r1 where "CreateShare hash (newID (sh_seq s)) uid (f_ID f) kind (if kind = ShareSegment then show_int i else label) expiry
      (newToken (sh_seq s)) (s\<lparr>sh_seq := Suc (sh_seq s)\<rparr>) = (r1, s')"
    using assms by (auto simp: mintShare_def Let_def split: sum.splits prod.splits)
  from CreateShare_cases [OF this] show ?thesis
    using grows_append [where n = "Suc (sh_seq s)" and s = s] grows_seq [of s "Suc (sh_seq s)"] by auto
qed

lemma grows_mono: "\<lbrakk>grows_by F H s s'; F \<subseteq> F'; H \<subseteq> H'\<rbrakk> \<Longrightarrow> grows_by F' H' s s'"
  unfolding grows_by_def by blast

lemma mint_segments_grows:
  assumes "mint_segments hash newID newToken f label expiry uid idxs s = (r, s')"
  shows "grows_by {f_ID f} (drawn_from hash newToken (sh_seq s)) s s' \<and> sh_seq s \<le> sh_seq s' \<and> sh_db s' = sh_db s"
  using assms
proof (induction idxs arbitrary: s r s')
  case Nil
  then show ?case by (simp add: shares_grow_refl)
next
  case (Cons i idxs)
  obtain r1 s1 where m: "mintShare hash newID newToken f ShareSegment i label expiry uid s = (r1, s1)" by fastforce
  note g = mintShare_grows [OF m]
  show ?case
  proof (cases r1)
    case (Inl e)
    then show ?thesis using Cons.prems m g by auto
  next
    case (Inr link)
    obtain r2 s2 where rest: "mint_segments hash newID newToken f label expiry uid idxs s1 = (r2, s2)" by fastforce
    then have "s' = s2" using Cons.prems m Inr by (auto split: sum.splits)
    then have "grows_by {f_ID f} (drawn_from hash newToken (sh_seq s1)) s1 s' \<and> sh_seq s1 \<le> sh_seq s' \<and> sh_db s' = sh_db s1"
      using Cons.IH [OF rest] by simp
    moreover have "drawn_from hash newToken (sh_seq s1) \<subseteq> drawn_from hash newToken (sh_seq s)" using g by auto
    ultimately have "grows_by {f_ID f} (drawn_from hash newToken (sh_seq s)) s1 s'" "sh_seq s1 \<le> sh_seq s'" "sh_db s' = sh_db s1"
      using grows_mono [OF _ order_refl] by blast+
    then show ?thesis using g grows_trans [of "{f_ID f}" "drawn_from hash newToken (sh_seq s)" s s1 s'] by simp
  qed
qed

text \<open>What a request adds: links to a file its caller may read and share.\<close>

definition may_share :: "User \<Rightarrow> string \<Rightarrow> db \<Rightarrow> bool" where
  "may_share user fid d \<longleftrightarrow> (\<exists>f. fileForUser (Some user) fid d = Inr f) \<and> Can user PermShare"

lemma fileForUser_ID: "fileForUser u fid d = Inr f \<Longrightarrow> f_ID f = fid"
  by (auto simp: fileForUser_def go_bind_def FileByID_def query_row_Inr find_Some_iff split: sum.splits)

lemma handleCreateShare_grows:
  "grows_by {fid' . fid' = fid \<and> may_share user fid (sh_db s)} (drawn_from hash newToken (sh_seq s)) s
     (snd (handleCreateShare hash newID newToken shareTTL user fid ttl segments label s))"
proof (cases "fileForUser (Some user) fid (sh_db s)")
  case (Inl e)
  then show ?thesis by (simp add: handleCreateShare_def shares_grow_refl)
next
  case (Inr f)
  note f = this
  show ?thesis
  proof (cases "Can user PermShare \<and> f_Status f \<noteq> StatusPending")
    case False
    then show ?thesis using f by (auto simp: handleCreateShare_def requirePerm_def shares_grow_refl)
  next
    case True
    let ?expiry = "shareExpiry shareTTL (db_now (sh_db s)) ttl" 
    obtain r1 s1 where m: "mintShare hash newID newToken f ShareFile 0 label ?expiry (u_ID user) s = (r1, s1)" by fastforce
    obtain r2 s2 where n: "mint_segments hash newID newToken f label ?expiry (u_ID user) (share_indexes segments f) s1 = (r2, s2)" by fastforce
    have "snd (handleCreateShare hash newID newToken shareTTL user fid ttl segments label s) = (case r1 of Inl _ \<Rightarrow> s1 | Inr _ \<Rightarrow> s2)"
      using True f m n by (cases r1; cases r2) (auto simp: handleCreateShare_def requirePerm_def Let_def)
    moreover have "drawn_from hash newToken (sh_seq s1) \<subseteq> drawn_from hash newToken (sh_seq s)" using mintShare_grows [OF m] by auto
    then have "grows_by {f_ID f} (drawn_from hash newToken (sh_seq s)) s s2"
      using mintShare_grows [OF m] mint_segments_grows [OF n] grows_trans grows_mono [OF _ order_refl] by metis
    moreover have "{f_ID f} \<subseteq> {fid' . fid' = fid \<and> may_share user fid (sh_db s)}"
      using True f fileForUser_ID [OF f] by (auto simp: may_share_def)
    ultimately show ?thesis using mintShare_grows [OF m] grows_mono [OF _ _ order_refl] by (cases r1) auto
  qed
qed

fun added_files :: "share_event \<Rightarrow> share_sys \<Rightarrow> string set" where
  "added_files (ShCreate user fid _ _ _) s = {fid' . fid' = fid \<and> may_share user fid (sh_db s)}"
| "added_files _ s = {}"

lemma grows_filter: "grows_by F H s (s\<lparr>sh_links := filter P (sh_links s)\<rparr>)"
  by (auto simp: grows_by_def intro: same_link_refl)

lemma handleShareDownload_grows: "grows_by F H s (snd (handleShareDownload hash token s))"
proof -
  have "grows_by F H s (TouchShare sid s)" for sid unfolding TouchShare_def by (rule grows_update) (simp add: same_link_def)
  then show ?thesis by (auto simp: handleShareDownload_def Let_def shares_grow_refl split: sum.split option.split)
qed

lemma share_step_grows:
  "grows_by (added_files ev s) (drawn_from hash newToken (sh_seq s)) s (share_step hash newID newToken shareTTL ev s)"
proof (cases ev)
  case (ShRevoke user sid)
  have "grows_by F H s (snd (RevokeShare sid s))" for F H
    unfolding RevokeShare_def by (simp, rule grows_update) (simp add: same_link_def)
  then show ?thesis by (auto simp: ShRevoke handleRevokeShare_def shares_grow_refl split: sum.split)
next
  case (ShFileGone fid)
  then show ?thesis by (auto simp: grows_by_def intro: same_link_refl)
next
  case (ShUserGone uid)
  then show ?thesis by (auto simp: grows_by_def intro: same_link_refl)
next
  case (ShTick n)
  then show ?thesis by (auto simp: grows_by_def intro: same_link_refl)
qed (auto simp: handleCreateShare_grows handleShareDownload_grows PurgeShares_def grows_filter)

section \<open>What a link opens\<close>

definition shared_by :: "(share_event \<Rightarrow> share_sys \<Rightarrow> share_sys) \<Rightarrow> share_sys \<Rightarrow> share_event list \<Rightarrow> string \<Rightarrow> bool" where
  "shared_by step s0 es fid \<longleftrightarrow> (\<exists>es1 user ttl segments label es2. es = es1 @ ShCreate user fid ttl segments label # es2 \<and>
     may_share user fid (sh_db (fold step es1 s0)))"

lemma shared_snoc: "shared_by step s0 es fid \<Longrightarrow> shared_by step s0 (es @ [ev]) fid"
  unfolding shared_by_def by (metis append.assoc append_Cons)

lemma rows_shared:
  assumes "sh_links s0 = []" and "l \<in> set (sh_links (fold (share_step hash newID newToken shareTTL) es s0))"
  shows "shared_by (share_step hash newID newToken shareTTL) s0 es (sl_FileID l)"
  using assms(2)
proof (induction es arbitrary: l rule: rev_induct)
  case Nil
  then show ?case using assms(1) by simp
next
  case (snoc ev es)
  let ?step = "share_step hash newID newToken shareTTL"
  let ?s = "fold ?step es s0"
  have "l \<in> set (sh_links (?step ev ?s))" using snoc.prems by simp
  then consider l0 where "l0 \<in> set (sh_links ?s)" "same_link l0 l" | "sl_FileID l \<in> added_files ev ?s"
    using share_step_grows [of ev ?s hash newToken newID shareTTL] unfolding grows_by_def by blast
  then show ?case
  proof cases
    case 1
    then show ?thesis using snoc.IH [OF 1(1)] shared_snoc by (simp add: same_link_def)
  next
    case 2
    then obtain user ttl segments label where "ev = ShCreate user (sl_FileID l) ttl segments label" "may_share user (sl_FileID l) (sh_db ?s)"
      by (cases ev) auto
    then show ?thesis unfolding shared_by_def by blast
  qed
qed

lemma handleShareDownload_SomeE:
  assumes "handleShareDownload hash token s = (Some w, s')"
  shows "\<exists>l \<in> set (sh_links s). f_ID (bw_file w) = sl_FileID l \<and> ShareByToken hash token s = Inr l"
proof -
  obtain l f where l: "ShareByToken hash token s = Inr l" "FileByID (sl_FileID l) (sh_db s) = Inr f" "bw_file w = f"
    using assms by (auto simp: handleShareDownload_def Let_def wholeFileWindow_def segmentWindow_def split: sum.splits option.splits if_splits)
  then have "l \<in> set (sh_links s)" "f_ID f = sl_FileID l"
    by (auto simp: ShareByToken_def FileByID_def query_row_Inr find_Some_iff split: sum.splits if_splits)
  then show ?thesis using l by auto
qed

text \<open>C29: a share link opens only a file for which somebody who was allowed to see it and to share it has created a link before.\<close>

theorem link_opens_shared_file:
  assumes "sh_links s0 = []"
    and "handleShareDownload hash token (fold (share_step hash newID newToken shareTTL) es s0) = (Some w, s')"
  shows "\<exists>es1 user ttl segments label es2. es = es1 @ ShCreate user (f_ID (bw_file w)) ttl segments label # es2 \<and>
    may_share user (f_ID (bw_file w)) (sh_db (fold (share_step hash newID newToken shareTTL) es1 s0))"
proof -
  obtain l where "l \<in> set (sh_links (fold (share_step hash newID newToken shareTTL) es s0))" "f_ID (bw_file w) = sl_FileID l"
    using handleShareDownload_SomeE [OF assms(2)] by blast
  then show ?thesis using rows_shared [OF assms(1)] by (simp add: shared_by_def)
qed

section \<open>Refused for good\<close>

definition shut :: "(string \<Rightarrow> string) \<Rightarrow> (nat \<Rightarrow> string) \<Rightarrow> string \<Rightarrow> share_sys \<Rightarrow> bool" where
  "shut hash newToken token s \<longleftrightarrow> (\<forall>n \<ge> sh_seq s. hash (newToken n) \<noteq> hash token) \<and>
     (\<forall>l \<in> set (sh_links s). sl_Hash l = hash token \<longrightarrow> sl_Revoked l \<or> expired (db_now (sh_db s)) l)"

lemma shut_grows: "\<lbrakk>grows_by F (drawn_from hash newToken (sh_seq s)) s s'; shut hash newToken token s\<rbrakk> \<Longrightarrow> shut hash newToken token s'"
  unfolding shut_def
proof (intro conjI allI ballI impI)
  fix n assume "grows_by F (drawn_from hash newToken (sh_seq s)) s s'" "(\<forall>n\<ge>sh_seq s. hash (newToken n) \<noteq> hash token) \<and>
     (\<forall>l\<in>set (sh_links s). sl_Hash l = hash token \<longrightarrow> sl_Revoked l \<or> expired (db_now (sh_db s)) l)" "sh_seq s' \<le> n"
  then show "hash (newToken n) \<noteq> hash token" by (auto simp: grows_by_def)
next
  fix l'
  assume g: "grows_by F (drawn_from hash newToken (sh_seq s)) s s'"
    and d: "(\<forall>n\<ge>sh_seq s. hash (newToken n) \<noteq> hash token) \<and>
     (\<forall>l\<in>set (sh_links s). sl_Hash l = hash token \<longrightarrow> sl_Revoked l \<or> expired (db_now (sh_db s)) l)"
    and l': "l' \<in> set (sh_links s')" "sl_Hash l' = hash token"
  have "sl_Hash l' \<notin> drawn_from hash newToken (sh_seq s)" using d l'(2) by auto
  then obtain l where l: "l \<in> set (sh_links s)" "same_link l l'" using g l'(1) by (auto simp: grows_by_def)
  then have "sl_Revoked l \<or> expired (db_now (sh_db s)) l" using d l'(2) by (auto simp: same_link_def)
  then show "sl_Revoked l' \<or> expired (db_now (sh_db s')) l'" using l(2) g by (auto simp: same_link_def expired_def grows_by_def)
qed

interpretation links: machine "share_step hash newID newToken shareTTL" "shut hash newToken token" for hash newID newToken shareTTL token
  by unfold_locales (rule shut_grows [OF share_step_grows])

lemma shut_refuses: "shut hash newToken token s \<Longrightarrow> ShareByToken hash token s = Inl ErrNotFound"
  by (auto simp: shut_def ShareByToken_def query_row_def find_Some_iff split: sum.split option.split)

lemma refused_is_shut:
  assumes "distinct (map sl_Hash (sh_links s))" and "ShareByToken hash token s = Inl e" and "\<forall>n \<ge> sh_seq s. hash (newToken n) \<noteq> hash token"
  shows "shut hash newToken token s"
proof -
  have "sl_Revoked l \<or> expired (db_now (sh_db s)) l" if l: "l \<in> set (sh_links s)" "sl_Hash l = hash token" for l
  proof -
    obtain l0 where q: "query_row (\<lambda>l. sl_Hash l = hash token) (sh_links s) = Inr l0"
      using l by (cases "query_row (\<lambda>l. sl_Hash l = hash token) (sh_links s)") (auto simp: query_row_Inl)
    then have "l0 \<in> set (sh_links s)" "sl_Hash l0 = hash token" by (auto simp: query_row_Inr find_Some_iff)
    then have "l0 = l" using l assms(1) by (auto simp: distinct_map inj_on_def)
    then show ?thesis using assms(2) q by (auto simp: ShareByToken_def split: if_splits)
  qed
  then show ?thesis using assms(3) by (simp add: shut_def)
qed

text \<open>C30: a link that was refused once, because it was revoked, had expired or never existed, stays refused whatever happens, unless its
token is drawn anew.\<close>

theorem refused_link_stays_refused:
  assumes "distinct (map sl_Hash (sh_links s))" and "ShareByToken hash token s = Inl e"
    and "\<forall>n \<ge> sh_seq s. hash (newToken n) \<noteq> hash token"
  shows "ShareByToken hash token (fold (share_step hash newID newToken shareTTL) es s) = Inl ErrNotFound"
  by (rule shut_refuses [OF links.inv_run [OF refused_is_shut [OF assms]]])

section \<open>Examples\<close>

definition share_state :: "ShareLink list \<Rightarrow> share_sys" where
  "share_state ls = \<lparr>sh_db = empty_db\<lparr>db_now := 1700000000000, db_users := [\<lparr>u_ID = ''A'', u_Username = ''a'', u_PasswordHash = [], u_Role = RoleAdmin,
     u_CreatedAt = 0, u_UpdatedAt = 0, u_Enabled = True, u_Perms = 0, u_ScopePath = [], u_QuotaBytes = 0, u_Note = [], u_LastLoginAt = 0,
     u_LastLoginIP = []\<rparr>], db_files := [\<lparr>f_ID = ''f'', f_DirID = [], f_Name = ''x.mkv'', f_Size = 10, f_MIME = [], f_SegmentSize = 4,
     f_SegmentCount = 3, f_Status = StatusComplete, f_ChannelID = [], f_CreatedAt = 0, f_UpdatedAt = 0, f_OwnerID = []\<rparr>]\<rparr>,
     sh_links = ls, sh_seq = 0\<rparr>"

definition share_admin :: User where "share_admin = hd (db_users (sh_db (share_state [])))"

definition share_token :: "nat \<Rightarrow> string" where "share_token n = replicate n (CHR ''t'')"

definition share_run :: "share_event list \<Rightarrow> share_sys" where
  "share_run es = fold (share_step rev share_token share_token 0) es (share_state [])"

theorem link_opens_shared_file_witness:
  "\<exists>w s' es1 user ttl segments label es2. handleShareDownload rev [] (share_run [ShCreate share_admin ''f'' 60 True ''l'']) = (Some w, s') \<and>
    [ShCreate share_admin ''f'' 60 True ''l''] = es1 @ ShCreate user (f_ID (bw_file w)) ttl segments label # es2"
proof -
  have "case handleShareDownload rev [] (share_run [ShCreate share_admin ''f'' 60 True ''l'']) of (None, _) \<Rightarrow> False | (Some _, _) \<Rightarrow> True"
    by code_simp
  then obtain w s' where r: "handleShareDownload rev [] (share_run [ShCreate share_admin ''f'' 60 True ''l'']) = (Some w, s')"
    by (cases "handleShareDownload rev [] (share_run [ShCreate share_admin ''f'' 60 True ''l''])") (auto split: option.splits)
  have "sh_links (share_state []) = []" by (simp add: share_state_def)
  from link_opens_shared_file [OF this r [unfolded share_run_def]] r show ?thesis by blast
qed

definition old_link :: ShareLink where
  "old_link = \<lparr>sl_ID = ''L'', sl_UserID = ''A'', sl_FileID = ''f'', sl_Hash = ''s'', sl_Kind = ShareFile, sl_Label = [], sl_ExpiresAt = 0,
     sl_Revoked = True, sl_Hits = 0, sl_CreatedAt = 0, sl_LastUsedAt = 0\<rparr>"

theorem refused_link_stays_refused_witness:
  "ShareByToken rev ''s'' (fold (share_step rev share_token share_token 0) [ShCreate share_admin ''f'' 0 False [], ShPurge 5] (share_state [old_link])) =
    Inl ErrNotFound"
proof -
  have d: "distinct (map sl_Hash (sh_links (share_state [old_link])))" by (simp add: share_state_def)
  have r: "ShareByToken rev ''s'' (share_state [old_link]) = Inl ErrNotFound" by code_simp
  have "CHR ''s'' \<notin> set (share_token k)" for k by (simp add: share_token_def)
  then have "share_token k \<noteq> ''s''" for k by (metis list.set_intros(1))
  then have n: "\<forall>n \<ge> sh_seq (share_state [old_link]). rev (share_token n) \<noteq> rev ''s''" by simp
  show ?thesis by (rule refused_link_stays_refused [OF d r n])
qed

section \<open>Where the code falls short\<close>

text \<open>
  A lifetime of 15 thousand million seconds overflows \<open>time.Duration\<close>: the expiry lies before 1970, is stored as a negative
  number and read as no expiry at all.
\<close>

lemma long_link_never_expires:
  "case shareExpiry 0 1700000000000 15000000000 of None \<Rightarrow> False
   | Some ms \<Rightarrow> ms < 0 \<and> \<not> expired now (old_link\<lparr>sl_ExpiresAt := ms\<rparr>)"
  by (simp add: shareExpiry_def Let_def wrap64_def expired_def)

end
