(* ===== verification/ClientDownload.thy ===== *)
theory ClientDownload
  imports Staging Sessions
begin

text \<open>
  Downloads a client pulls itself, \<open>internal/drive/clientdownload.go\<close>: the requests of one WebDAV download share
  an entry and a row of the table of downloads, which is settled once the entry has been idle for the grace
  period.  Entries, timers, handles (\<open>ClientRead\<close>) and settlements are numbered in the order of their creation.
  Every section under \<open>clientDownloadsMu\<close> and every statement outside of it is one event, so event lists are
  interleavings.  Progress events and logging are left out, as are statements that fail for lack of the database
  and the deletion of rows, by the purge of the history or with an account.
\<close>

section \<open>State\<close>

record clientDownload =
  cd_key :: string
  cd_job :: string
  cd_total :: int
  cd_received :: int
  cd_active :: int
  cd_idle :: "nat option"
  cd_cancelled :: bool
  cd_settled :: bool

text \<open>A handle is open, has a progress report to write, or is closed.\<close>

datatype ClientRead = ReadOpen nat | ReadReporting nat int | ReadClosed nat

text \<open>The statements of a settlement: the bytes, then the status.\<close>

datatype settle_phase = ToBytes | ToStatus | Settled

record settlement =
  st_entry :: nat
  st_received :: int
  st_status :: DownloadStatus
  st_phase :: settle_phase

record client_sys =
  cl_db :: db
  cl_entries :: "clientDownload list"
  cl_downloads :: "string \<Rightarrow> nat option"
  cl_jobs :: "string \<Rightarrow> nat option"
  cl_timers :: "(nat \<times> timer_state) list"
  cl_reads :: "ClientRead list"
  cl_settles :: "settlement list"
  cl_seq :: nat

definition on_entry :: "nat \<Rightarrow> (clientDownload \<Rightarrow> clientDownload) \<Rightarrow> client_sys \<Rightarrow> client_sys" where
  "on_entry i f s = s\<lparr>cl_entries := (cl_entries s)[i := f (cl_entries s ! i)]\<rparr>"

definition cancel_timer :: "nat option \<Rightarrow> client_sys \<Rightarrow> client_sys" where
  "cancel_timer t s =
     (case t of
        None \<Rightarrow> s
      | Some t \<Rightarrow> case cl_timers s ! t of (i, st) \<Rightarrow>
          s\<lparr>cl_timers := (cl_timers s)[t := (i, if st = Armed then Stopped else st)]\<rparr>)"

section \<open>Operations\<close>

definition client_job :: "string \<Rightarrow> string \<Rightarrow> FileRow \<Rightarrow> DownloadMode \<Rightarrow> DownloadJob" where
  "client_job jid uid f mode = (new_download jid uid f)\<lparr>w_Mode := mode, w_Status := DownloadRunning\<rparr>"

text \<open>The handle is the number of the new read; the section holds the lock across its statements.\<close>

definition TrackClientDownload ::
  "(nat \<Rightarrow> string) \<Rightarrow> string \<Rightarrow> string \<Rightarrow> FileRow \<Rightarrow> DownloadMode \<Rightarrow> client_sys \<Rightarrow> (db_error + nat) \<times> client_sys" where
  "TrackClientDownload newID key uid f mode s =
     (if key = [] then (Inl ErrArgument, s)
      else case (case cl_downloads s key of Some i \<Rightarrow> if cd_settled (cl_entries s ! i) then None else Some i | None \<Rightarrow> None) of
          Some i \<Rightarrow>
            (let s1 = on_entry i (\<lambda>d. d\<lparr>cd_idle := None, cd_active := cd_active d + 1\<rparr>)
                   (cancel_timer (cd_idle (cl_entries s ! i)) s)
             in (Inr (length (cl_reads s1)), s1\<lparr>cl_reads := cl_reads s1 @ [ReadOpen i]\<rparr>))
        | None \<Rightarrow>
            (let jid = newID (cl_seq s); s0 = s\<lparr>cl_seq := Suc (cl_seq s)\<rparr>
             in case InsertDownload (client_job jid uid f mode) (cl_db s0) of
                  (Inl e, d1) \<Rightarrow> (Inl e, s0\<lparr>cl_db := d1\<rparr>)
                | (Inr _, d1) \<Rightarrow>
                    (case SetDownloadStatus jid DownloadRunning [] d1 of
                       (Inl e, d2) \<Rightarrow> (Inl e, s0\<lparr>cl_db := d2\<rparr>)
                     | (Inr _, d2) \<Rightarrow>
                         let i = length (cl_entries s0)
                         in (Inr (length (cl_reads s0)),
                             s0\<lparr>cl_db := d2,
                                cl_entries := cl_entries s0 @ [\<lparr>cd_key = key, cd_job = jid, cd_total = f_Size f, cd_received = 0,
                                  cd_active = 1, cd_idle = None, cd_cancelled = False, cd_settled = False\<rparr>],
                                cl_downloads := (cl_downloads s0)(key \<mapsto> i), cl_jobs := (cl_jobs s0)(jid \<mapsto> i),
                                cl_reads := cl_reads s0 @ [ReadOpen i]\<rparr>))))"

text \<open>\<open>Add\<close> up to the report; \<open>due\<close> tells that half a second has passed since the last one.  The result tells
whether the download was cancelled.\<close>

definition client_add :: "nat \<Rightarrow> int \<Rightarrow> bool \<Rightarrow> client_sys \<Rightarrow> bool \<times> client_sys" where
  "client_add r n due s =
     (case cl_reads s ! r of
        ReadOpen i \<Rightarrow>
          (if n \<le> 0 then (False, s)
           else if cd_cancelled (cl_entries s ! i) then (True, s)
           else let s1 = on_entry i (\<lambda>d. d\<lparr>cd_received := wrap64 (cd_received d + n)\<rparr>) s
                in (False, if due then s1\<lparr>cl_reads := (cl_reads s1)[r := ReadReporting i (cd_received (cl_entries s1 ! i))]\<rparr> else s1))
      | _ \<Rightarrow> (False, s))"

definition recordClientProgress :: "nat \<Rightarrow> client_sys \<Rightarrow> client_sys" where
  "recordClientProgress r s =
     (case cl_reads s ! r of
        ReadReporting i n \<Rightarrow>
          s\<lparr>cl_db := SetDownloadProgress (cd_job (cl_entries s ! i)) n (cl_db s), cl_reads := (cl_reads s)[r := ReadOpen i]\<rparr>
      | _ \<Rightarrow> s)"

definition releaseClientRead :: "nat \<Rightarrow> client_sys \<Rightarrow> client_sys" where
  "releaseClientRead i s =
     (let s1 = on_entry i (\<lambda>d. if cd_active d > 0 then d\<lparr>cd_active := cd_active d - 1\<rparr> else d) s;
          d = cl_entries s1 ! i
      in if cd_active d > 0 \<or> cd_idle d \<noteq> None \<or> cd_settled d then s1
         else on_entry i (\<lambda>d. d\<lparr>cd_idle := Some (length (cl_timers s1))\<rparr>) (s1\<lparr>cl_timers := cl_timers s1 @ [(i, Armed)]\<rparr>))"

text \<open>A handle is closed once: a second \<open>Close\<close> does nothing.\<close>

definition client_close :: "nat \<Rightarrow> client_sys \<Rightarrow> client_sys" where
  "client_close r s =
     (case cl_reads s ! r of
        ReadOpen i \<Rightarrow> releaseClientRead i (s\<lparr>cl_reads := (cl_reads s)[r := ReadClosed i]\<rparr>)
      | _ \<Rightarrow> s)"

definition CancelClientDownload :: "string \<Rightarrow> client_sys \<Rightarrow> bool \<times> client_sys" where
  "CancelClientDownload jid s =
     (case cl_jobs s jid of None \<Rightarrow> (False, s) | Some i \<Rightarrow> (True, on_entry i (\<lambda>d. d\<lparr>cd_cancelled := True\<rparr>) s))"

definition settle_status :: "clientDownload \<Rightarrow> DownloadStatus" where
  "settle_status d = (if cd_cancelled d \<or> cd_received d < cd_total d then DownloadCancelled else DownloadComplete)"

text \<open>\<open>settleClientDownload\<close>: the section under the lock, then its two statements.\<close>

definition settle_locked :: "nat \<Rightarrow> client_sys \<Rightarrow> client_sys" where
  "settle_locked i s =
     (let d = cl_entries s ! i
      in if cd_active d > 0 \<or> cd_settled d then on_entry i (\<lambda>d. d\<lparr>cd_idle := None\<rparr>) s
         else let s1 = on_entry i (\<lambda>d. d\<lparr>cd_settled := True, cd_idle := None\<rparr>) s;
                  s2 = (if cl_downloads s1 (cd_key d) = Some i then s1\<lparr>cl_downloads := (cl_downloads s1)(cd_key d := None)\<rparr> else s1);
                  s3 = s2\<lparr>cl_jobs := (cl_jobs s2)(cd_job d := None)\<rparr>;
                  status = settle_status d
              in s3\<lparr>cl_settles := cl_settles s3 @ [\<lparr>st_entry = i, st_received = cd_received d, st_status = status, st_phase = ToBytes\<rparr>]\<rparr>)"

definition settle_next :: "nat \<Rightarrow> client_sys \<Rightarrow> client_sys" where
  "settle_next k s =
     (let st = cl_settles s ! k; jid = cd_job (cl_entries s ! st_entry st);
          advance = (\<lambda>p. (cl_settles s)[k := st\<lparr>st_phase := p\<rparr>])
      in case st_phase st of
           ToBytes \<Rightarrow> s\<lparr>cl_db := SetDownloadProgress jid (st_received st) (cl_db s), cl_settles := advance ToStatus\<rparr>
         | ToStatus \<Rightarrow> s\<lparr>cl_db := snd (SetDownloadStatusIf jid (st_status st) [] [DownloadPending, DownloadRunning] (cl_db s)),
                          cl_settles := advance Settled\<rparr>
         | Settled \<Rightarrow> s)"

text \<open>The row of a job cancelled by \<open>handleCancelDownload\<close>, after \<open>CancelClientDownload\<close>.\<close>

definition cancel_row :: "string \<Rightarrow> client_sys \<Rightarrow> client_sys" where
  "cancel_row jid s =
     s\<lparr>cl_db := snd (SetDownloadStatusIf jid DownloadCancelled ''cancelled'' [DownloadPending, DownloadRunning] (cl_db s))\<rparr>"

text \<open>The statements of \<open>handleDownloadProgress\<close>, by which the owner of a row, or an administrator, reports its progress: neither looks at
who drives the download.  Reading the row for the second again makes no difference, since its id and its size never change.\<close>

definition post_bytes :: "string \<Rightarrow> int \<Rightarrow> client_sys \<Rightarrow> client_sys" where
  "post_bytes jid n s =
     (case DownloadByID jid (cl_db s) of
        Inl _ \<Rightarrow> s
      | Inr w \<Rightarrow> if n > 0 then s\<lparr>cl_db := SetDownloadProgress (w_ID w) (min n (w_TotalSize w)) (cl_db s)\<rparr> else s)"

definition post_status :: "string \<Rightarrow> DownloadStatus \<Rightarrow> string \<Rightarrow> client_sys \<Rightarrow> client_sys" where
  "post_status jid st err s =
     (case DownloadByID jid (cl_db s) of
        Inl _ \<Rightarrow> s
      | Inr w \<Rightarrow>
          if st \<notin> {DownloadComplete, DownloadFailed, DownloadCancelled, DownloadRunning} then s
          else s\<lparr>cl_db := snd (SetDownloadStatus (w_ID w) st err (cl_db s))\<rparr>)"

section \<open>Interleavings\<close>

datatype client_event =
    CTrack string string FileRow DownloadMode
  | CAdd nat int bool
  | CReport nat
  | CClose nat
  | CCancel string
  | CMark string
  | CPostBytes string int
  | CPostStatus string DownloadStatus string
  | CFire nat
  | CRun nat
  | CSettle nat
  | CTick nat

fun client_step :: "(nat \<Rightarrow> string) \<Rightarrow> client_event \<Rightarrow> client_sys \<Rightarrow> client_sys" where
  "client_step newID (CTrack key uid f mode) s = snd (TrackClientDownload newID key uid f mode s)"
| "client_step newID (CAdd r n due) s = (if r < length (cl_reads s) then snd (client_add r n due s) else s)"
| "client_step newID (CReport r) s = (if r < length (cl_reads s) then recordClientProgress r s else s)"
| "client_step newID (CClose r) s = (if r < length (cl_reads s) then client_close r s else s)"
| "client_step newID (CCancel jid) s = snd (CancelClientDownload jid s)"
| "client_step newID (CMark jid) s = cancel_row jid s"
| "client_step newID (CPostBytes jid n) s = post_bytes jid n s"
| "client_step newID (CPostStatus jid st err) s = post_status jid st err s"
| "client_step newID (CFire t) s =
     (if t < length (cl_timers s) \<and> snd (cl_timers s ! t) = Armed
      then s\<lparr>cl_timers := (cl_timers s)[t := (fst (cl_timers s ! t), Fired)]\<rparr> else s)"
| "client_step newID (CRun t) s =
     (if t < length (cl_timers s) \<and> snd (cl_timers s ! t) = Fired
      then settle_locked (fst (cl_timers s ! t)) (s\<lparr>cl_timers := (cl_timers s)[t := (fst (cl_timers s ! t), Ran)]\<rparr>) else s)"
| "client_step newID (CSettle k) s = (if k < length (cl_settles s) then settle_next k s else s)"
| "client_step newID (CTick n) s = s\<lparr>cl_db := (cl_db s)\<lparr>db_now := db_now (cl_db s) + int n\<rparr>\<rparr>"

definition no_clients :: "db \<Rightarrow> client_sys" where
  "no_clients d = \<lparr>cl_db = d, cl_entries = [], cl_downloads = (\<lambda>_. None), cl_jobs = (\<lambda>_. None), cl_timers = [], cl_reads = [],
     cl_settles = [], cl_seq = 0\<rparr>"

end
