(* ===== verification/ClientLaws.thy ===== *)
theory ClientLaws
  imports ClientDownload
begin

text \<open>
  The invariant of the downloads a client pulls itself, under every interleaving: the books of entries, handles
  and timers agree, and each row fits the state of its entry.
\<close>

section \<open>The books\<close>

fun open_on :: "ClientRead \<Rightarrow> nat option" where
  "open_on (ReadOpen i) = Some i"
| "open_on (ReadReporting i n) = Some i"
| "open_on (ReadClosed i) = None"

fun read_entry :: "ClientRead \<Rightarrow> nat" where
  "read_entry (ReadOpen i) = i"
| "read_entry (ReadReporting i n) = i"
| "read_entry (ReadClosed i) = i"

definition entry_fits :: "client_sys \<Rightarrow> nat \<Rightarrow> clientDownload \<Rightarrow> bool" where
  "entry_fits s i d \<longleftrightarrow>
     (\<not> cd_settled d \<longrightarrow> cl_downloads s (cd_key d) = Some i \<and> cl_jobs s (cd_job d) = Some i) \<and>
     (cd_settled d \<longrightarrow> cd_active d = 0) \<and>
     cd_active d = cnt (\<lambda>r. open_on r = Some i) (cl_reads s) \<and>
     (\<forall>t. cd_idle d = Some t \<longrightarrow> t < length (cl_timers s) \<and> fst (cl_timers s ! t) = i \<and> snd (cl_timers s ! t) \<in> {Armed, Fired} \<and>
        cd_active d = 0) \<and>
     (cd_idle d = None \<longrightarrow> cd_settled d \<or> cd_active d > 0)"

definition entry_ok :: "client_sys \<Rightarrow> nat \<Rightarrow> bool" where
  "entry_ok s i \<longleftrightarrow> entry_fits s i (cl_entries s ! i)"

definition row_ids :: "db \<Rightarrow> string set" where
  "row_ids d = w_ID ` set (db_downloads d)"

definition jobs_of :: "client_sys \<Rightarrow> string list" where
  "jobs_of s = map cd_job (cl_entries s)"

definition books :: "client_sys \<Rightarrow> bool" where
  "books s \<longleftrightarrow>
     (\<forall>i < length (cl_entries s). entry_ok s i) \<and>
     (\<forall>k i. cl_downloads s k = Some i \<longrightarrow> i < length (cl_entries s) \<and> cd_key (cl_entries s ! i) = k \<and> \<not> cd_settled (cl_entries s ! i)) \<and>
     (\<forall>j i. cl_jobs s j = Some i \<longrightarrow> i < length (cl_entries s) \<and> cd_job (cl_entries s ! i) = j \<and> \<not> cd_settled (cl_entries s ! i)) \<and>
     (\<forall>p \<in> set (cl_timers s). fst p < length (cl_entries s)) \<and>
     (\<forall>r \<in> set (cl_reads s). read_entry r < length (cl_entries s)) \<and>
     distinct (jobs_of s) \<and> set (jobs_of s) \<subseteq> row_ids (cl_db s)"

lemma books_start: "books (no_clients d)"
  by (simp add: books_def no_clients_def jobs_of_def)


lemma update_where_ids: "(\<And>w. w_ID (f w) = w_ID w) \<Longrightarrow> w_ID ` set (update_where P f ws) = w_ID ` set ws"
  using map_update_where [of P w_ID f ws] by (metis list.set_map)

lemma status_change_id [simp]: "w_ID (status_change now st err w) = w_ID w"
  by (simp add: status_change_def Let_def split: DownloadStatus.split)

lemma row_ids_statements [simp]:
  "row_ids (SetDownloadProgress jid n d) = row_ids d"
  "row_ids (snd (SetDownloadStatusIf jid st err ex d)) = row_ids d"
  "row_ids (snd (SetDownloadStatus jid st err d)) = row_ids d"
  by (auto simp: row_ids_def SetDownloadProgress_def on_download_def SetDownloadStatusIf_def SetDownloadStatus_def setDownloadStatus_def
      Let_def update_where_ids status_change_id split: prod.splits)

lemma InsertDownload_ids:
  assumes "InsertDownload j d = (x, d')"
  shows "x = Inr () \<Longrightarrow> w_ID j \<notin> row_ids d \<and> row_ids d' = insert (w_ID j) (row_ids d)" "x = Inl e \<Longrightarrow> d' = d"
  using assms by (auto simp: InsertDownload_def row_ids_def list_ex_iff split: if_splits)

lemma entry_ok_simps [simp]:
  "entry_ok (s\<lparr>cl_db := d\<rparr>) i = entry_ok s i" "entry_ok (s\<lparr>cl_settles := ss\<rparr>) i = entry_ok s i" "entry_ok (s\<lparr>cl_seq := n\<rparr>) i = entry_ok s i"
  by (simp_all add: entry_ok_def entry_fits_def)

lemma books_simps [simp]:
  "books (s\<lparr>cl_settles := ss\<rparr>) \<longleftrightarrow> books s" "books (s\<lparr>cl_seq := n\<rparr>) \<longleftrightarrow> books s"
  by (simp_all add: books_def jobs_of_def)

lemma books_db: "row_ids d = row_ids (cl_db s) \<Longrightarrow> books (s\<lparr>cl_db := d\<rparr>) \<longleftrightarrow> books s"
  by (simp add: books_def jobs_of_def)

text \<open>A change of one entry that touches neither its maps nor its count.\<close>

lemma books_entry:
  assumes b: "books s" and i: "i < length (cl_entries s)"
    and f: "\<And>d. cd_key (f d) = cd_key d \<and> cd_job (f d) = cd_job d \<and> cd_settled (f d) = cd_settled d \<and> cd_active (f d) = cd_active d \<and>
      cd_idle (f d) = cd_idle d"
  shows "books (on_entry i f s)"
proof -
  have m: "jobs_of (on_entry i f s) = jobs_of s"
    using f i by (simp add: jobs_of_def on_entry_def map_update list_update_same_conv)
  show ?thesis
    using b i f m unfolding books_def
    by (auto simp: entry_ok_def entry_fits_def on_entry_def nth_list_update)
qed


lemma cnt_open_update:
  "r < length rs \<Longrightarrow> cnt (\<lambda>r. open_on r = Some i) (rs[r := x]) = cnt (\<lambda>r. open_on r = Some i) rs
     - (if open_on (rs ! r) = Some i then 1 else 0) + (if open_on x = Some i then 1 else 0)"
  by (rule cnt_update)

lemma books_read:
  assumes b: "books s" and r: "r < length (cl_reads s)" and x: "open_on x = open_on (cl_reads s ! r)" "read_entry x = read_entry (cl_reads s ! r)"
  shows "books (s\<lparr>cl_reads := (cl_reads s)[r := x]\<rparr>)"
proof -
  have "read_entry x < length (cl_entries s)" using b r x by (auto simp: books_def)
  then show ?thesis
    using b r x unfolding books_def
    by (auto simp: entry_ok_def entry_fits_def jobs_of_def cnt_open_update dest: set_update_subset_insert [THEN subsetD])
qed

text \<open>A section that changes one entry and leaves the maps.\<close>

lemma books_change:
  assumes b: "books s" and i: "i < length (cl_entries s)" and e: "cl_entries s' = (cl_entries s)[i := d]"
    and d: "cd_key d = cd_key (cl_entries s ! i)" "cd_job d = cd_job (cl_entries s ! i)" "cd_settled d = cd_settled (cl_entries s ! i)"
    and m: "cl_downloads s' = cl_downloads s" "cl_jobs s' = cl_jobs s" "row_ids (cl_db s') = row_ids (cl_db s)"
    and t: "\<forall>p \<in> set (cl_timers s'). fst p < length (cl_entries s)" and r: "\<forall>r \<in> set (cl_reads s'). read_entry r < length (cl_entries s)"
    and new: "entry_fits s' i d" and old: "\<And>j. \<lbrakk>j < length (cl_entries s); j \<noteq> i; entry_ok s j\<rbrakk> \<Longrightarrow> entry_fits s' j (cl_entries s ! j)"
  shows "books s'"
proof -
  have "jobs_of s' = jobs_of s" using i d(2) by (simp add: jobs_of_def e map_update list_update_same_conv)
  moreover have "entry_ok s' j" if "j < length (cl_entries s)" for j
    using b that i new old [OF that] by (cases "j = i") (simp_all add: entry_ok_def e books_def)
  ultimately show ?thesis using b i d m t r unfolding books_def by (auto simp: e nth_list_update)
qed

lemma client_add_books:
  assumes b: "books s" and r: "r < length (cl_reads s)"
  shows "books (snd (client_add r n due s))"
proof (cases "cl_reads s ! r")
  case (ReadOpen i)
  have i: "i < length (cl_entries s)" using b r ReadOpen by (force simp: books_def dest: nth_mem)
  have "books (on_entry i (\<lambda>d. d\<lparr>cd_received := wrap64 (cd_received d + n)\<rparr>) s)" (is "books ?s")
    by (rule books_entry [OF b i]) simp
  moreover have "books (?s\<lparr>cl_reads := (cl_reads ?s)[r := ReadReporting i k]\<rparr>)" for k
    by (rule books_read [OF calculation]) (use r ReadOpen in \<open>simp_all add: on_entry_def\<close>)
  ultimately show ?thesis using b ReadOpen by (simp add: client_add_def Let_def on_entry_def)
qed (use b in \<open>simp_all add: client_add_def\<close>)

lemma recordClientProgress_books:
  assumes b: "books s" and r: "r < length (cl_reads s)"
  shows "books (recordClientProgress r s)"
proof (cases "cl_reads s ! r")
  case (ReadReporting i n)
  have "books (s\<lparr>cl_db := SetDownloadProgress (cd_job (cl_entries s ! i)) n (cl_db s)\<rparr>)" (is "books ?s")
    using b by (subst books_db) simp_all
  then have "books (?s\<lparr>cl_reads := (cl_reads ?s)[r := ReadOpen i]\<rparr>)"
    by (rule books_read) (use r ReadReporting in simp_all)
  then show ?thesis using ReadReporting by (simp add: recordClientProgress_def)
qed (use b in \<open>simp_all add: recordClientProgress_def\<close>)

lemma cancel_books:
  assumes b: "books s"
  shows "books (snd (CancelClientDownload jid s))"
  using books_entry [OF b, of _ "\<lambda>d. d\<lparr>cd_cancelled := True\<rparr>"] b
  by (auto simp: CancelClientDownload_def books_def split: option.split)

lemma client_close_books:
  assumes b: "books s" and r: "r < length (cl_reads s)"
  shows "books (client_close r s)"
proof (cases "cl_reads s ! r")
  case (ReadOpen i)
  have i: "i < length (cl_entries s)" using b r ReadOpen by (force simp: books_def dest: nth_mem)
  have ok: "entry_ok s i" using b i by (simp add: books_def)
  have "0 < cnt (\<lambda>r. open_on r = Some i) (cl_reads s)" using cnt_pos [OF r] ReadOpen by simp
  then have a: "0 < cd_active (cl_entries s ! i)" "cd_idle (cl_entries s ! i) = None" "\<not> cd_settled (cl_entries s ! i)"
    using ok by (auto simp: entry_ok_def entry_fits_def)
  define d where "d = (cl_entries s ! i)\<lparr>cd_active := cd_active (cl_entries s ! i) - 1,
    cd_idle := (if cd_active (cl_entries s ! i) > 1 then None else Some (length (cl_timers s)))\<rparr>"
  have same: "(cl_entries s ! i)\<lparr>cd_active := x, cd_idle := None\<rparr> = (cl_entries s ! i)\<lparr>cd_active := x\<rparr>" for x
    by (rule clientDownload.equality) (simp_all add: a)
  have e: "cl_entries (client_close r s) = (cl_entries s)[i := d]" and rd: "cl_reads (client_close r s) = (cl_reads s)[r := ReadClosed i]"
    and tm: "cl_timers (client_close r s) = cl_timers s @ (if cd_active (cl_entries s ! i) > 1 then [] else [(i, Armed)])"
    and m: "cl_downloads (client_close r s) = cl_downloads s" "cl_jobs (client_close r s) = cl_jobs s" "cl_db (client_close r s) = cl_db s"
    using a i ReadOpen by (simp_all add: client_close_def releaseClientRead_def on_entry_def Let_def d_def same)
  show ?thesis
  proof (rule books_change [OF b i e])
    show "entry_fits (client_close r s) i d"
      using ok a r ReadOpen by (auto simp: entry_ok_def entry_fits_def d_def rd tm m cnt_open_update nth_append)
    show "entry_fits (client_close r s) j (cl_entries s ! j)" if "j < length (cl_entries s)" "j \<noteq> i" "entry_ok s j" for j
      using that r ReadOpen by (auto simp: entry_ok_def entry_fits_def rd tm m cnt_open_update nth_append)
    show "\<forall>r \<in> set (cl_reads (client_close r s)). read_entry r < length (cl_entries s)"
      using b i by (auto simp: rd books_def dest: set_update_subset_insert [THEN subsetD])
  qed (use b i in \<open>auto simp: d_def m tm books_def\<close>)
qed (use b in \<open>simp_all add: client_close_def\<close>)


lemma settle_locked_books:
  assumes b: "books s" and i: "i < length (cl_entries s)"
  shows "books (settle_locked i s)"
proof -
  have ok: "entry_ok s i" using b i by (simp add: books_def)
  show ?thesis
  proof (cases "cd_active (cl_entries s ! i) > 0 \<or> cd_settled (cl_entries s ! i)")
    case True
    then have l: "settle_locked i s = on_entry i (\<lambda>d. d\<lparr>cd_idle := None\<rparr>) s" by (simp add: settle_locked_def Let_def)
    show ?thesis unfolding l
      by (rule books_change [OF b i, where d = "(cl_entries s ! i)\<lparr>cd_idle := None\<rparr>"])
        (use True ok b in \<open>auto simp: on_entry_def entry_ok_def entry_fits_def books_def\<close>)
  next
    case False
    let ?d = "(cl_entries s ! i)\<lparr>cd_settled := True, cd_idle := None\<rparr>"
    have maps: "cl_downloads s (cd_key (cl_entries s ! i)) = Some i" "cl_jobs s (cd_job (cl_entries s ! i)) = Some i"
      using ok False by (auto simp: entry_ok_def entry_fits_def)
    have e: "cl_entries (settle_locked i s) = (cl_entries s)[i := ?d]"
      and m: "cl_downloads (settle_locked i s) = (cl_downloads s)(cd_key (cl_entries s ! i) := None)"
        "cl_jobs (settle_locked i s) = (cl_jobs s)(cd_job (cl_entries s ! i) := None)"
      and rest: "cl_timers (settle_locked i s) = cl_timers s" "cl_reads (settle_locked i s) = cl_reads s" "cl_db (settle_locked i s) = cl_db s"
      using False maps i by (simp_all add: settle_locked_def Let_def on_entry_def)
    have jobs: "jobs_of (settle_locked i s) = jobs_of s" using i by (simp add: jobs_of_def e map_update list_update_same_conv)
    have "entry_ok (settle_locked i s) j" if j: "j < length (cl_entries s)" for j
    proof (cases "j = i")
      case True
      then show ?thesis using ok False i by (auto simp: entry_ok_def entry_fits_def e m rest)
    next
      case other: False
      have "entry_ok s j" using b j by (simp add: books_def)
      moreover have "cd_key (cl_entries s ! j) \<noteq> cd_key (cl_entries s ! i) \<and> cd_job (cl_entries s ! j) \<noteq> cd_job (cl_entries s ! i)"
        if "\<not> cd_settled (cl_entries s ! j)"
        using that maps other \<open>entry_ok s j\<close> by (auto simp: entry_ok_def entry_fits_def)
      ultimately show ?thesis using other by (auto simp: entry_ok_def entry_fits_def e m rest)
    qed
    moreover have "i' \<noteq> i" if "cl_downloads s k = Some i'" "k \<noteq> cd_key (cl_entries s ! i)" for k i' using b that by (auto simp: books_def)
    moreover have "i' \<noteq> i" if "cl_jobs s k = Some i'" "k \<noteq> cd_job (cl_entries s ! i)" for k i' using b that by (auto simp: books_def)
    ultimately show ?thesis using b i jobs unfolding books_def by (auto simp: e m rest nth_list_update split: if_splits)
  qed
qed

lemma timer_books:
  assumes b: "books s" and t: "t < length (cl_timers s)" and x: "x \<in> {Armed, Fired} \<or> (\<forall>i < length (cl_entries s). cd_idle (cl_entries s ! i) \<noteq> Some t)"
  shows "books (s\<lparr>cl_timers := (cl_timers s)[t := (fst (cl_timers s ! t), x)]\<rparr>)"
proof -
  have "fst (cl_timers s ! t) < length (cl_entries s)" using b t by (simp add: books_def)
  then show ?thesis
    using b t x unfolding books_def
    by (fastforce simp: entry_ok_def entry_fits_def jobs_of_def nth_list_update dest: set_update_subset_insert [THEN subsetD])
qed

lemma settle_timers: "settle_locked i (s\<lparr>cl_timers := x\<rparr>) = (settle_locked i s)\<lparr>cl_timers := x\<rparr>"
  by (simp add: settle_locked_def on_entry_def Let_def)

lemma settle_rest [simp]: "cl_timers (settle_locked i s) = cl_timers s" "cl_db (settle_locked i s) = cl_db s" "cl_reads (settle_locked i s) = cl_reads s"
  "cl_seq (settle_locked i s) = cl_seq s" "length (cl_entries (settle_locked i s)) = length (cl_entries s)"
  by (simp_all add: settle_locked_def on_entry_def Let_def)

lemma settle_idle: "i < length (cl_entries s) \<Longrightarrow> cd_idle (cl_entries (settle_locked i s) ! i) = None"
  by (simp add: settle_locked_def on_entry_def Let_def)

lemma run_books:
  assumes b: "books s" and t: "t < length (cl_timers s)"
  shows "books (settle_locked (fst (cl_timers s ! t)) (s\<lparr>cl_timers := (cl_timers s)[t := (fst (cl_timers s ! t), Ran)]\<rparr>))"
proof -
  let ?i = "fst (cl_timers s ! t)"
  have i: "?i < length (cl_entries s)" using b t by (simp add: books_def)
  have b': "books (settle_locked ?i s)" by (rule settle_locked_books [OF b i])
  have "cd_idle (cl_entries (settle_locked ?i s) ! j) \<noteq> Some t" if j: "j < length (cl_entries s)" for j
  proof (cases "j = ?i")
    case False
    have "entry_ok (settle_locked ?i s) j" using b' j by (simp add: books_def)
    then show ?thesis using False by (auto simp: entry_ok_def entry_fits_def)
  qed (use settle_idle [OF i] in simp)
  then show ?thesis
    unfolding settle_timers using timer_books [OF b', of t Ran] t by simp
qed

lemma track_books:
  assumes b: "books s"
  shows "books (snd (TrackClientDownload newID key uid f mode s))"
proof (cases "key = []")
  case key: False
  show ?thesis
  proof (cases "case cl_downloads s key of Some i \<Rightarrow> if cd_settled (cl_entries s ! i) then None else Some i | None \<Rightarrow> None")
    case (Some i)
    then have i: "cl_downloads s key = Some i" "\<not> cd_settled (cl_entries s ! i)" by (auto split: option.splits if_splits)
    then have il: "i < length (cl_entries s)" and ok: "entry_ok s i" using b by (auto simp: books_def)
    let ?d = "(cl_entries s ! i)\<lparr>cd_idle := None, cd_active := cd_active (cl_entries s ! i) + 1\<rparr>"
    let ?s = "snd (TrackClientDownload newID key uid f mode s)"
    have e: "cl_entries ?s = (cl_entries s)[i := ?d]" and rd: "cl_reads ?s = cl_reads s @ [ReadOpen i]"
      and m: "cl_downloads ?s = cl_downloads s" "cl_jobs ?s = cl_jobs s" "cl_db ?s = cl_db s"
      and tm: "cl_timers ?s = cl_timers (cancel_timer (cd_idle (cl_entries s ! i)) s)"
      using key Some by (auto simp: TrackClientDownload_def Let_def on_entry_def cancel_timer_def split: option.splits prod.splits)
    have stop: "length (cl_timers (cancel_timer x s)) = length (cl_timers s) \<and> map fst (cl_timers (cancel_timer x s)) = map fst (cl_timers s)
      \<and> (\<forall>t < length (cl_timers s). x \<noteq> Some t \<longrightarrow> cl_timers (cancel_timer x s) ! t = cl_timers s ! t)"
      if "x = None \<or> (\<exists>t. x = Some t \<and> t < length (cl_timers s))" for x
      using that by (auto simp: cancel_timer_def map_update nth_list_update list_update_same_conv split: prod.splits if_splits)
    have it: "cd_idle (cl_entries s ! i) = None \<or> (\<exists>t. cd_idle (cl_entries s ! i) = Some t \<and> t < length (cl_timers s) \<and> fst (cl_timers s ! t) = i)"
      using ok by (cases "cd_idle (cl_entries s ! i)") (auto simp: entry_ok_def entry_fits_def)
    note st = stop [of "cd_idle (cl_entries s ! i)"]
    have fsts: "fst ` set (cl_timers ?s) = fst ` set (cl_timers s)" using st it unfolding tm by (metis list.set_map)
    show ?thesis
    proof (rule books_change [OF b il e])
      show "\<forall>p \<in> set (cl_timers ?s). fst p < length (cl_entries s)"
        using b fsts by (metis (no_types, lifting) books_def image_eqI image_iff)
      show "entry_fits ?s i ?d" using ok i(2) by (auto simp: entry_ok_def entry_fits_def rd m)
      show "entry_fits ?s j (cl_entries s ! j)" if j: "j < length (cl_entries s)" "j \<noteq> i" "entry_ok s j" for j
      proof -
        have "cd_idle (cl_entries s ! i) \<noteq> Some t" if "cd_idle (cl_entries s ! j) = Some t" for t
          using that j it by (auto simp: entry_ok_def entry_fits_def)
        then show ?thesis using j st it by (auto simp: entry_ok_def entry_fits_def rd m tm)
      qed
    qed (use b il in \<open>auto simp: rd m books_def\<close>)
  next
    case None
    let ?jid = "newID (cl_seq s)"
    obtain x d1 where ins: "InsertDownload (client_job ?jid uid f mode) (cl_db s) = (x, d1)" by (cases "InsertDownload (client_job ?jid uid f mode) (cl_db s)")
    obtain y d2 where set: "SetDownloadStatus ?jid DownloadRunning [] d1 = (y, d2)" by (cases "SetDownloadStatus ?jid DownloadRunning [] d1")
    have d2: "row_ids d2 = row_ids d1" using row_ids_statements(3) [of ?jid DownloadRunning "[]" d1] set by simp
    have jid: "w_ID (client_job ?jid uid f mode) = ?jid" by (simp add: client_job_def new_download_def)
    show ?thesis
    proof (cases x)
      case (Inl e)
      then have "d1 = cl_db s" using InsertDownload_ids(2) [OF ins] by simp
      then show ?thesis using b key None ins Inl by (simp add: TrackClientDownload_def Let_def books_db)
    next
      case (Inr u)
      have new: "?jid \<notin> row_ids (cl_db s)" "row_ids d1 = insert ?jid (row_ids (cl_db s))"
        using InsertDownload_ids(1) [OF ins] Inr jid by auto
      have "?jid \<in> row_ids d1" using new(2) by simp
      then obtain w where "w \<in> set (db_downloads d1)" "w_ID w = ?jid" by (auto simp: row_ids_def)
      then have y: "y = Inr ()" using set by (auto simp: SetDownloadStatus_def setDownloadStatus_def Let_def list_ex_iff split: if_splits)
      have ins': "InsertDownload (client_job ?jid uid f mode) (cl_db s) = (Inr (), d1)" using ins Inr by simp
      have set': "SetDownloadStatus ?jid DownloadRunning [] d1 = (Inr (), d2)" using set y by simp
      let ?n = "length (cl_entries s)"
      let ?s = "snd (TrackClientDownload newID key uid f mode s)"
      have e: "cl_entries ?s = cl_entries s @ [\<lparr>cd_key = key, cd_job = ?jid, cd_total = f_Size f, cd_received = 0,
                                  cd_active = 1, cd_idle = None, cd_cancelled = False, cd_settled = False\<rparr>]"
        and m: "cl_downloads ?s = (cl_downloads s)(key \<mapsto> ?n)" "cl_jobs ?s = (cl_jobs s)(?jid \<mapsto> ?n)" "cl_db ?s = d2"
        and rest: "cl_timers ?s = cl_timers s" "cl_reads ?s = cl_reads s @ [ReadOpen ?n]"
        by (simp_all add: TrackClientDownload_def Let_def key None ins' set')
      have nojob: "cd_job (cl_entries s ! j) \<noteq> ?jid" if "j < ?n" for j
      proof -
        have "cd_job (cl_entries s ! j) \<in> set (jobs_of s)" using that by (simp add: jobs_of_def)
        moreover have "set (jobs_of s) \<subseteq> row_ids (cl_db s)" using b unfolding books_def by blast
        ultimately have "cd_job (cl_entries s ! j) \<in> row_ids (cl_db s)" by (rule rev_subsetD)
        then show ?thesis using new(1) by (intro notI) simp
      qed
      have nokey: "cd_settled (cl_entries s ! j)" if "j < ?n" "cd_key (cl_entries s ! j) = key" for j
      proof (rule ccontr)
        assume "\<not> cd_settled (cl_entries s ! j)"
        then have "cl_downloads s key = Some j" using b that by (auto simp: books_def entry_ok_def entry_fits_def)
        then show False using None \<open>\<not> cd_settled (cl_entries s ! j)\<close> by simp
      qed
      have none: "cnt (\<lambda>r. open_on r = Some ?n) (cl_reads s) = 0"
      proof (rule cnt_absent, rule ballI)
        fix r assume "r \<in> set (cl_reads s)"
        then have "read_entry r < ?n" using b by (simp add: books_def)
        then show "\<not> open_on r = Some ?n" by (cases r) auto
      qed
      have "entry_ok ?s j" if "j < Suc ?n" for j
      proof (cases "j = ?n")
        case True
        then show ?thesis by (simp add: entry_ok_def entry_fits_def e m rest none)
      next
        case False
        then have "j < ?n" "entry_ok s j" using b that by (auto simp: books_def)
        then show ?thesis using nojob nokey by (auto simp: entry_ok_def entry_fits_def e m rest nth_append)
      qed
      moreover have "jobs_of ?s = jobs_of s @ [?jid]" by (simp add: jobs_of_def e)
      ultimately show ?thesis
        using b new d2 unfolding books_def by (auto simp: e m rest nth_append less_Suc_eq)
    qed
  qed
qed (use b in \<open>simp add: TrackClientDownload_def\<close>)

lemma settle_next_books:
  assumes b: "books s"
  shows "books (settle_next k s)"
proof -
  have "books (s\<lparr>cl_db := d, cl_settles := x\<rparr>)" if "row_ids d = row_ids (cl_db s)" for d x
  proof -
    have "books (s\<lparr>cl_db := d\<rparr>)" using b that by (simp add: books_db)
    from books_simps(1) [THEN iffD2, OF this] show ?thesis by simp
  qed
  then show ?thesis using b by (simp add: settle_next_def Let_def split: settle_phase.split)
qed

lemma post_books:
  assumes "books s"
  shows "books (post_bytes jid n s)" "books (post_status jid st err s)"
  using assms by (auto simp: post_bytes_def post_status_def books_db split: sum.split)

lemma client_step_books: "books s \<Longrightarrow> books (client_step newID e s)"
proof (cases e)
  case (CFire t)
  then show "books s \<Longrightarrow> books (client_step newID e s)" using timer_books [of s t Fired] by simp
next
  case (CRun t)
  then show "books s \<Longrightarrow> books (client_step newID e s)" using run_books [of s t] by simp
qed (auto simp: track_books client_add_books recordClientProgress_books client_close_books cancel_books settle_next_books cancel_row_def
    post_books books_db row_ids_def [of "_\<lparr>db_now := _\<rparr>"] row_ids_def [symmetric])

section \<open>The rows\<close>

text \<open>What owners may post about a job, when every event is one of \<open>E\<close>.\<close>

definition posted :: "client_event set \<Rightarrow> string \<Rightarrow> DownloadStatus set" where
  "posted E jid = {st. \<exists>err. CPostStatus jid st err \<in> E}"

definition posted_bytes :: "client_event set \<Rightarrow> string \<Rightarrow> bool" where
  "posted_bytes E jid \<longleftrightarrow> (\<exists>n. CPostBytes jid n \<in> E)"

definition settle_of :: "client_sys \<Rightarrow> nat \<Rightarrow> settlement option" where
  "settle_of s i = find (\<lambda>st. st_entry st = i) (cl_settles s)"

fun row_fits :: "client_event set \<Rightarrow> settlement option \<Rightarrow> DownloadJob \<Rightarrow> bool" where
  "row_fits E None w \<longleftrightarrow> w_Status w \<in> {DownloadRunning, DownloadCancelled} \<union> posted E (w_ID w)"
| "row_fits E (Some st) w \<longleftrightarrow>
     (case st_phase st of
        ToBytes \<Rightarrow> w_Status w \<in> {DownloadRunning, DownloadCancelled} \<union> posted E (w_ID w)
      | ToStatus \<Rightarrow> w_Status w \<in> {DownloadRunning, DownloadCancelled} \<union> posted E (w_ID w) \<and>
          (w_DownloadedBytes w = st_received st \<or> posted_bytes E (w_ID w))
      | Settled \<Rightarrow> w_Status w \<in> {st_status st, DownloadCancelled} \<union> posted E (w_ID w) \<and>
          (w_DownloadedBytes w = st_received st \<or> posted_bytes E (w_ID w)))"

definition settles_ok :: "client_sys \<Rightarrow> bool" where
  "settles_ok s \<longleftrightarrow> distinct (map st_entry (cl_settles s)) \<and>
     (\<forall>st \<in> set (cl_settles s). st_entry st < length (cl_entries s) \<and> cd_settled (cl_entries s ! st_entry st) \<and>
        st_received st = cd_received (cl_entries s ! st_entry st) \<and> st_status st = settle_status (cl_entries s ! st_entry st))"

definition rows_ok :: "client_event set \<Rightarrow> client_sys \<Rightarrow> bool" where
  "rows_ok E s \<longleftrightarrow> (\<forall>w \<in> set (db_downloads (cl_db s)). \<forall>i < length (cl_entries s).
     w_ID w = cd_job (cl_entries s ! i) \<longrightarrow> row_fits E (settle_of s i) w)"

definition client_inv :: "client_event set \<Rightarrow> client_sys \<Rightarrow> bool" where
  "client_inv E s \<longleftrightarrow> books s \<and> settles_ok s \<and> rows_ok E s"

lemma client_inv_start: "client_inv E (no_clients d)"
  using books_start [of d] by (simp add: client_inv_def settles_ok_def rows_ok_def no_clients_def)

lemma unsettled_none: "\<lbrakk>settles_ok s; i < length (cl_entries s); \<not> cd_settled (cl_entries s ! i)\<rbrakk> \<Longrightarrow> settle_of s i = None"
  by (auto simp: settle_of_def settles_ok_def find_None_iff)

lemma same_job:
  assumes "books s" "i < length (cl_entries s)" "j < length (cl_entries s)" "cd_job (cl_entries s ! i) = cd_job (cl_entries s ! j)"
  shows "i = j"
  using assms nth_eq_iff_index_eq [of "jobs_of s" i j] by (simp add: books_def jobs_of_def)

text \<open>A section that changes one entry, not settled, and no row.\<close>

lemma inv_entry:
  assumes v: "settles_ok s" "rows_ok E s" and i: "i < length (cl_entries s)" and e: "cl_entries s' = (cl_entries s)[i := d]"
    and d: "cd_job d = cd_job (cl_entries s ! i)"
      "d = cl_entries s ! i \<or> \<not> cd_settled (cl_entries s ! i) \<or> cd_settled d \<and> cd_received d = cd_received (cl_entries s ! i) \<and> cd_cancelled d = cd_cancelled (cl_entries s ! i) \<and>
        cd_total d = cd_total (cl_entries s ! i)"
    and rest: "cl_settles s' = cl_settles s" "db_downloads (cl_db s') = db_downloads (cl_db s)"
  shows "settles_ok s' \<and> rows_ok E s'"
proof -
  have job: "cd_job (cl_entries s' ! j) = cd_job (cl_entries s ! j)" for j using i d(1) by (cases "j = i") (simp_all add: e)
  have "st_entry st < length (cl_entries s') \<and> cd_settled (cl_entries s' ! st_entry st) \<and>
        st_received st = cd_received (cl_entries s' ! st_entry st) \<and> st_status st = settle_status (cl_entries s' ! st_entry st)"
    if "st \<in> set (cl_settles s)" for st
  proof (cases "st_entry st = i")
    case True
    then show ?thesis using v(1) that i d(2) by (auto simp: settles_ok_def e settle_status_def)
  qed (use v(1) that in \<open>auto simp: settles_ok_def e\<close>)
  then have "settles_ok s'" using v(1) by (simp add: settles_ok_def rest)
  moreover have "rows_ok E s'" using v(2) job by (simp add: rows_ok_def settle_of_def rest e)
  ultimately show ?thesis ..
qed

lemma open_unsettled:
  assumes b: "books s" and r: "r < length (cl_reads s)" "open_on (cl_reads s ! r) = Some i"
  shows "i < length (cl_entries s)" "\<not> cd_settled (cl_entries s ! i)"
proof -
  have "read_entry (cl_reads s ! r) = i" using r(2) by (cases "cl_reads s ! r") auto
  then show i: "i < length (cl_entries s)" using b r(1) by (auto simp: books_def)
  have "0 < cnt (\<lambda>r. open_on r = Some i) (cl_reads s)" by (rule cnt_pos [OF r(1)]) (rule r(2))
  moreover have "entry_ok s i" using b i unfolding books_def by blast
  ultimately show "\<not> cd_settled (cl_entries s ! i)" by (auto simp: entry_ok_def entry_fits_def)
qed

text \<open>A statement that changes rows of one job.\<close>

lemma inv_rows:
  assumes v: "client_inv E s" and rest: "cl_entries s' = cl_entries s" "cl_settles s' = cl_settles s"
    and rows: "db_downloads (cl_db s') = update_where P g (db_downloads (cl_db s))" and g: "\<And>w. w_ID (g w) = w_ID w"
    and fits: "\<And>w i. \<lbrakk>w \<in> set (db_downloads (cl_db s)); P w; i < length (cl_entries s); w_ID w = cd_job (cl_entries s ! i); row_fits E (settle_of s i) w\<rbrakk>
      \<Longrightarrow> row_fits E (settle_of s i) (g w)"
  shows "settles_ok s' \<and> rows_ok E s'"
proof -
  have "rows_ok E s'" unfolding rows_ok_def
  proof (intro ballI allI impI)
    fix w' i
    assume w': "w' \<in> set (db_downloads (cl_db s'))" "i < length (cl_entries s')" "w_ID w' = cd_job (cl_entries s' ! i)"
    then obtain w where w: "w \<in> set (db_downloads (cl_db s))" "w' = (if P w then g w else w)" by (auto simp: rows set_update_where)
    have "w_ID w = cd_job (cl_entries s ! i)" using w(2) w'(3) g rest by (simp split: if_splits)
    moreover have i: "i < length (cl_entries s)" using w'(2) rest by simp
    ultimately have "row_fits E (settle_of s i) w" using v w(1) by (simp add: client_inv_def rows_ok_def)
    then show "row_fits E (settle_of s' i) w'"
      using w fits [OF w(1) _ i] \<open>w_ID w = _\<close> by (auto simp: settle_of_def rest split: if_splits)
  qed
  then show ?thesis using v by (simp add: client_inv_def settles_ok_def rest)
qed


lemma setDownloadStatus_rows:
  "db_downloads (snd (SetDownloadStatusIf jid st err (e # es) d)) =
     update_where (\<lambda>w. w_ID w = jid \<and> w_Status w \<in> set (e # es)) (status_change (db_now d) st err) (db_downloads d)"
  by (simp add: SetDownloadStatusIf_def setDownloadStatus_def Let_def)

lemma status_change_fields [simp]:
  "w_Status (status_change now st err w) = st" "w_DownloadedBytes (status_change now st err w) = w_DownloadedBytes w"
  by (simp_all add: status_change_def Let_def split: DownloadStatus.split)

lemma client_add_inv:
  assumes v: "client_inv E s" and r: "r < length (cl_reads s)"
  shows "settles_ok (snd (client_add r n due s)) \<and> rows_ok E (snd (client_add r n due s))"
proof (cases "cl_reads s ! r")
  case (ReadOpen i)
  have i: "i < length (cl_entries s)" "\<not> cd_settled (cl_entries s ! i)"
    using open_unsettled [of s r i] v r ReadOpen by (simp_all add: client_inv_def)
  show ?thesis
    by (rule inv_entry [of s E i _ "if n \<le> 0 \<or> cd_cancelled (cl_entries s ! i) then cl_entries s ! i
        else (cl_entries s ! i)\<lparr>cd_received := wrap64 (cd_received (cl_entries s ! i) + n)\<rparr>"])
      (use v i ReadOpen in \<open>auto simp: client_inv_def client_add_def on_entry_def Let_def\<close>)
qed (use v in \<open>simp_all add: client_add_def client_inv_def\<close>)

lemma recordClientProgress_inv:
  assumes v: "client_inv E s" and r: "r < length (cl_reads s)"
  shows "settles_ok (recordClientProgress r s) \<and> rows_ok E (recordClientProgress r s)"
proof (cases "cl_reads s ! r")
  case (ReadReporting i n)
  have b: "books s" "settles_ok s" using v by (simp_all add: client_inv_def)
  have i: "i < length (cl_entries s)" "\<not> cd_settled (cl_entries s ! i)"
    using open_unsettled [OF b(1) r, of i] ReadReporting by simp_all
  note none = unsettled_none [OF b(2) i]
  show ?thesis
  proof (rule inv_rows [OF v])
    show "db_downloads (cl_db (recordClientProgress r s)) = update_where (\<lambda>w. w_ID w = cd_job (cl_entries s ! i))
        (\<lambda>w. w\<lparr>w_DownloadedBytes := n, w_UpdatedAt := db_now (cl_db s)\<rparr>) (db_downloads (cl_db s))"
      using ReadReporting by (simp add: recordClientProgress_def SetDownloadProgress_def on_download_def)
    show "row_fits E (settle_of s j) (w\<lparr>w_DownloadedBytes := n, w_UpdatedAt := db_now (cl_db s)\<rparr>)"
      if "w_ID w = cd_job (cl_entries s ! i)" "j < length (cl_entries s)" "w_ID w = cd_job (cl_entries s ! j)" "row_fits E (settle_of s j) w" for w j
    proof -
      have "j = i" using same_job [OF b(1) that(2) i(1)] that by simp
      then show ?thesis using that(4) none by simp
    qed
  qed (simp_all add: recordClientProgress_def ReadReporting)
qed (use v in \<open>simp_all add: recordClientProgress_def client_inv_def\<close>)

lemma client_close_inv:
  assumes v: "client_inv E s" and r: "r < length (cl_reads s)"
  shows "settles_ok (client_close r s) \<and> rows_ok E (client_close r s)"
proof (cases "cl_reads s ! r")
  case (ReadOpen i)
  have i: "i < length (cl_entries s)" "\<not> cd_settled (cl_entries s ! i)"
    using open_unsettled [of s r i] v r ReadOpen by (simp_all add: client_inv_def)
  have e: "cl_entries (client_close r s) = (cl_entries s)[i := cl_entries (client_close r s) ! i]" "cd_job (cl_entries (client_close r s) ! i) = cd_job (cl_entries s ! i)"
    using i ReadOpen by (simp_all add: client_close_def releaseClientRead_def on_entry_def Let_def)
  show ?thesis
    by (rule inv_entry [OF _ _ i(1) e(1)]) (use v i e(2) ReadOpen in \<open>auto simp: client_inv_def client_close_def releaseClientRead_def on_entry_def Let_def\<close>)
qed (use v in \<open>simp_all add: client_close_def client_inv_def\<close>)

lemma cancel_inv:
  assumes v: "client_inv E s"
  shows "settles_ok (snd (CancelClientDownload jid s)) \<and> rows_ok E (snd (CancelClientDownload jid s))"
proof (cases "cl_jobs s jid")
  case (Some i)
  then have i: "i < length (cl_entries s)" "\<not> cd_settled (cl_entries s ! i)" using v by (auto simp: client_inv_def books_def)
  show ?thesis
    by (rule inv_entry [of s E i _ "(cl_entries s ! i)\<lparr>cd_cancelled := True\<rparr>"])
      (use v i Some in \<open>auto simp: client_inv_def CancelClientDownload_def on_entry_def\<close>)
qed (use v in \<open>simp add: client_inv_def CancelClientDownload_def\<close>)

lemma cancel_row_inv:
  assumes v: "client_inv E s"
  shows "settles_ok (cancel_row jid s) \<and> rows_ok E (cancel_row jid s)"
  by (rule inv_rows [OF v, where P = "\<lambda>w. w_ID w = jid \<and> w_Status w \<in> set [DownloadPending, DownloadRunning]" and
        g = "status_change (db_now (cl_db s)) DownloadCancelled ''cancelled''"])
    (auto simp: cancel_row_def setDownloadStatus_rows split: option.splits settle_phase.splits elim!: row_fits.elims)


lemma find_snoc: "find P (xs @ [x]) = (case find P xs of None \<Rightarrow> if P x then Some x else None | Some y \<Rightarrow> Some y)"
  by (induction xs) auto

lemma settle_locked_inv:
  assumes v: "client_inv E s" and i: "i < length (cl_entries s)"
  shows "settles_ok (settle_locked i s) \<and> rows_ok E (settle_locked i s)"
proof (cases "cd_active (cl_entries s ! i) > 0 \<or> cd_settled (cl_entries s ! i)")
  case True
  show ?thesis
    by (rule inv_entry [of s E i _ "(cl_entries s ! i)\<lparr>cd_idle := None\<rparr>"])
      (use v i True in \<open>auto simp: client_inv_def settle_locked_def on_entry_def Let_def\<close>)
next
  case False
  let ?d = "(cl_entries s ! i)\<lparr>cd_settled := True, cd_idle := None\<rparr>"
  let ?st = "\<lparr>st_entry = i, st_received = cd_received (cl_entries s ! i), st_status = settle_status (cl_entries s ! i), st_phase = ToBytes\<rparr>"
  have ok: "settles_ok s" "rows_ok E s" using v by (simp_all add: client_inv_def)
  have none: "settle_of s i = None" by (rule unsettled_none [OF ok(1) i]) (use False in simp)
  have e: "cl_entries (settle_locked i s) = (cl_entries s)[i := ?d]" and st: "cl_settles (settle_locked i s) = cl_settles s @ [?st]"
    using False i by (simp_all add: settle_locked_def on_entry_def Let_def)
  have notin: "i \<notin> st_entry ` set (cl_settles s)" using none by (auto simp: settle_of_def find_None_iff)
  have "settles_ok (settle_locked i s)"
    using ok(1) i notin unfolding settles_ok_def st e by (auto simp: nth_list_update settle_status_def)
  moreover have "row_fits E (settle_of (settle_locked i s) j) w" if "row_fits E (settle_of s j) w" for j w
    using that none by (auto simp: settle_of_def st find_snoc split: option.splits)
  ultimately show ?thesis
    using ok(2) i by (auto simp: rows_ok_def e nth_list_update)
qed

lemma find_update:
  "\<lbrakk>k < length xs; distinct (map f xs); f y = f (xs ! k)\<rbrakk> \<Longrightarrow>
     find (\<lambda>x. f x = i) (xs[k := y]) = (if f y = i then Some y else find (\<lambda>x. f x = i) xs)"
proof (induction xs arbitrary: k)
  case (Cons x xs)
  show ?case
  proof (cases k)
    case (Suc k')
    then have "f x \<noteq> f y" using Cons.prems by (auto simp: image_iff)
    then show ?thesis using Cons Suc by auto
  qed (use Cons.prems in auto)
qed simp

lemma find_at: "\<lbrakk>k < length xs; distinct (map f xs)\<rbrakk> \<Longrightarrow> find (\<lambda>x. f x = f (xs ! k)) xs = Some (xs ! k)"
  using find_update [of k xs f "xs ! k" "f (xs ! k)"] by simp

lemma settle_next_inv:
  assumes v: "client_inv E s" and k: "k < length (cl_settles s)"
  shows "settles_ok (settle_next k s) \<and> rows_ok E (settle_next k s)"
proof -
  let ?st = "cl_settles s ! k"
  let ?i = "st_entry ?st"
  have b: "books s" and ok: "settles_ok s" "rows_ok E s" using v by (simp_all add: client_inv_def)
  have i: "?i < length (cl_entries s)" using ok(1) k by (simp add: settles_ok_def)
  have here: "settle_of s ?i = Some ?st" unfolding settle_of_def by (rule find_at [OF k]) (use ok(1) in \<open>simp add: settles_ok_def\<close>)
  have stmt: "settles_ok s' \<and> rows_ok E s'"
    if s': "cl_entries s' = cl_entries s" "cl_settles s' = (cl_settles s)[k := ?st\<lparr>st_phase := p\<rparr>]"
      and rows: "db_downloads (cl_db s') = update_where P g (db_downloads (cl_db s))" and g: "\<And>w. w_ID (g w) = w_ID w"
      and P: "\<And>w. P w \<Longrightarrow> w_ID w = cd_job (cl_entries s ! ?i)"
      and fits: "\<And>w. \<lbrakk>w_ID w = cd_job (cl_entries s ! ?i); row_fits E (Some ?st) w\<rbrakk> \<Longrightarrow> row_fits E (Some (?st\<lparr>st_phase := p\<rparr>)) (if P w then g w else w)"
    for s' p P g
  proof -
    have "map st_entry (cl_settles s') = map st_entry (cl_settles s)" using k by (simp add: s' map_update list_update_same_conv)
    moreover have "set (cl_settles s') \<subseteq> insert (?st\<lparr>st_phase := p\<rparr>) (set (cl_settles s))" unfolding s' by (rule set_update_subset_insert)
    ultimately have "settles_ok s'" using ok(1) k nth_mem [OF k] by (fastforce simp: settles_ok_def s'(1))
    have find: "settle_of s' j = (if j = ?i then Some (?st\<lparr>st_phase := p\<rparr>) else settle_of s j)" for j
      unfolding settle_of_def s' using find_update [OF k, of st_entry "?st\<lparr>st_phase := p\<rparr>" j] ok(1) by (auto simp: settles_ok_def)
    have "rows_ok E s'" unfolding rows_ok_def
    proof (intro ballI allI impI)
      fix w' j
      assume w': "w' \<in> set (db_downloads (cl_db s'))" "j < length (cl_entries s')" "w_ID w' = cd_job (cl_entries s' ! j)"
      then obtain w where w: "w \<in> set (db_downloads (cl_db s))" "w' = (if P w then g w else w)" by (auto simp: rows set_update_where)
      have id: "w_ID w = cd_job (cl_entries s ! j)" using w(2) w'(3) g s'(1) by (simp split: if_splits)
      have j: "j < length (cl_entries s)" using w'(2) s'(1) by simp
      have f: "row_fits E (settle_of s j) w" using ok(2) w(1) j id by (simp add: rows_ok_def)
      show "row_fits E (settle_of s' j) w'"
      proof (cases "j = ?i")
        case True
        then show ?thesis using fits [of w] id f here by (simp add: find w(2))
      next
        case False
        then have "\<not> P w" using P [of w] id same_job [OF b j i] by auto
        then show ?thesis using f False by (simp add: find w(2))
      qed
    qed
    with \<open>settles_ok s'\<close> show ?thesis ..
  qed
  show ?thesis
  proof (cases "st_phase ?st")
    case ToBytes
    show ?thesis
      by (rule stmt [where p = ToStatus and P = "\<lambda>w. w_ID w = cd_job (cl_entries s ! ?i)" and
            g = "\<lambda>w. w\<lparr>w_DownloadedBytes := st_received ?st, w_UpdatedAt := db_now (cl_db s)\<rparr>"])
        (auto simp: settle_next_def Let_def ToBytes SetDownloadProgress_def on_download_def)
  next
    case ToStatus
    show ?thesis
      by (rule stmt [where p = Settled and P = "\<lambda>w. w_ID w = cd_job (cl_entries s ! ?i) \<and> w_Status w \<in> set [DownloadPending, DownloadRunning]" and
            g = "status_change (db_now (cl_db s)) (st_status ?st) []"])
        (auto simp: settle_next_def Let_def ToStatus setDownloadStatus_rows)
  qed (use ok in \<open>simp add: settle_next_def Let_def\<close>)
qed

lemma track_inv:
  assumes v: "client_inv E s"
  shows "settles_ok (snd (TrackClientDownload newID key uid f mode s)) \<and> rows_ok E (snd (TrackClientDownload newID key uid f mode s))"
proof (cases "key = []")
  case key: False
  have b: "books s" and ok: "settles_ok s" "rows_ok E s" using v by (simp_all add: client_inv_def)
  show ?thesis
  proof (cases "case cl_downloads s key of Some i \<Rightarrow> if cd_settled (cl_entries s ! i) then None else Some i | None \<Rightarrow> None")
    case (Some i)
    then have i: "cl_downloads s key = Some i" "\<not> cd_settled (cl_entries s ! i)" by (auto split: option.splits if_splits)
    then have il: "i < length (cl_entries s)" using b by (auto simp: books_def)
    show ?thesis
      by (rule inv_entry [OF ok il, of _ "(cl_entries s ! i)\<lparr>cd_idle := None, cd_active := cd_active (cl_entries s ! i) + 1\<rparr>"])
        (use key Some i in \<open>auto simp: TrackClientDownload_def Let_def on_entry_def cancel_timer_def split: option.splits prod.splits\<close>)
  next
    case None
    let ?jid = "newID (cl_seq s)"
    let ?job = "client_job ?jid uid f mode"
    obtain x d1 where ins: "InsertDownload ?job (cl_db s) = (x, d1)" by (cases "InsertDownload ?job (cl_db s)")
    have jid: "w_ID ?job = ?jid" "w_Status ?job = DownloadRunning" by (simp_all add: client_job_def new_download_def)
    show ?thesis
    proof (cases x)
      case (Inl e)
      then have "d1 = cl_db s" using InsertDownload_ids(2) [OF ins] by simp
      then show ?thesis using ok ins Inl by (simp add: TrackClientDownload_def Let_def key None settles_ok_def rows_ok_def settle_of_def)
    next
      case (Inr u)
      have new: "?jid \<notin> row_ids (cl_db s)" using InsertDownload_ids(1) [OF ins] Inr jid by auto
      obtain job' where job': "db_downloads d1 = db_downloads (cl_db s) @ [job']" "w_ID job' = ?jid" "w_Status job' = DownloadRunning"
        using ins Inr jid by (auto simp: InsertDownload_def split: if_splits)
      obtain y d2 where set: "SetDownloadStatus ?jid DownloadRunning [] d1 = (y, d2)" by (cases "SetDownloadStatus ?jid DownloadRunning [] d1")
      then have y: "y = Inr ()" and d2: "db_downloads d2 = update_where (\<lambda>w. w_ID w = ?jid) (status_change (db_now d1) DownloadRunning []) (db_downloads d1)"
        using job' by (auto simp: SetDownloadStatus_def setDownloadStatus_def Let_def list_ex_iff split: if_splits)
      have old: "update_where (\<lambda>w. w_ID w = ?jid) (status_change (db_now d1) DownloadRunning []) (db_downloads (cl_db s)) = db_downloads (cl_db s)"
      proof -
        have "w_ID w \<noteq> ?jid" if "w \<in> set (db_downloads (cl_db s))" for w
          using new imageI [OF that, of w_ID] by (metis row_ids_def)
        then show ?thesis unfolding update_where_def by (intro map_idI) simp
      qed
      let ?s = "snd (TrackClientDownload newID key uid f mode s)"
      let ?n = "length (cl_entries s)"
      have ins': "InsertDownload ?job (cl_db s) = (Inr (), d1)" using ins Inr by simp
      have set': "SetDownloadStatus ?jid DownloadRunning [] d1 = (Inr (), d2)" using set y by simp
      have e: "\<exists>d. cl_entries ?s = cl_entries s @ [d] \<and> cd_job d = ?jid"
        and rest: "cl_settles ?s = cl_settles s" "cl_db ?s = d2"
        by (simp_all add: TrackClientDownload_def Let_def key None ins' set')
      obtain d where e: "cl_entries ?s = cl_entries s @ [d]" "cd_job d = ?jid" using e by blast
      have "settles_ok ?s" using ok(1) by (auto simp: settles_ok_def rest e nth_append)
      have none: "settle_of s ?n = None" using ok(1) by (auto simp: settle_of_def settles_ok_def find_None_iff)
      have nojob: "cd_job (cl_entries s ! j) \<noteq> ?jid" if "j < ?n" for j
      proof -
        have "cd_job (cl_entries s ! j) \<in> set (jobs_of s)" using that by (simp add: jobs_of_def)
        moreover have "set (jobs_of s) \<subseteq> row_ids (cl_db s)" using b unfolding books_def by blast
        ultimately have "cd_job (cl_entries s ! j) \<in> row_ids (cl_db s)" by (rule rev_subsetD)
        then show ?thesis using new by (intro notI) simp
      qed
      have norow: "w_ID w \<noteq> ?jid" if "w \<in> set (db_downloads (cl_db s))" for w
          using new imageI [OF that, of w_ID] by (metis row_ids_def)
      have rows: "db_downloads d2 = db_downloads (cl_db s) @ [status_change (db_now d1) DownloadRunning [] job']"
        using old job' by (simp add: d2 update_where_def)
      have "row_fits E (settle_of ?s j) w" if w: "w \<in> set (db_downloads d2)" and j: "j < Suc ?n" "w_ID w = cd_job (cl_entries ?s ! j)" for w j
      proof (cases "j = ?n")
        case True
        then have "w = status_change (db_now d1) DownloadRunning [] job'" using w j norow [of w] by (auto simp: rows e)
        then show ?thesis using True none by (simp add: settle_of_def rest)
      next
        case False
        then have "w \<in> set (db_downloads (cl_db s))" "j < ?n" "w_ID w = cd_job (cl_entries s ! j)"
          using w j nojob [of j] job'(2) by (auto simp: rows e nth_append)
        then show ?thesis using ok(2) by (simp add: rows_ok_def settle_of_def rest)
      qed
      with \<open>settles_ok ?s\<close> show ?thesis by (simp add: rows_ok_def rest(2)) (simp add: e)
    qed
  qed
qed (use v in \<open>simp add: TrackClientDownload_def client_inv_def\<close>)

lemma inv_frame:
  "settles_ok (s\<lparr>cl_timers := x\<rparr>) = settles_ok s" "rows_ok E (s\<lparr>cl_timers := x\<rparr>) = rows_ok E s"
  "settles_ok (s\<lparr>cl_db := cl_db s\<lparr>db_now := n\<rparr>\<rparr>) = settles_ok s" "rows_ok E (s\<lparr>cl_db := cl_db s\<lparr>db_now := n\<rparr>\<rparr>) = rows_ok E s"
  by (simp_all add: settles_ok_def rows_ok_def settle_of_def)

lemma post_inv:
  assumes v: "client_inv E s"
  shows "CPostBytes jid n \<in> E \<Longrightarrow> settles_ok (post_bytes jid n s) \<and> rows_ok E (post_bytes jid n s)"
    and "CPostStatus jid st err \<in> E \<Longrightarrow> settles_ok (post_status jid st err s) \<and> rows_ok E (post_status jid st err s)"
proof -
  have ok: "settles_ok s \<and> rows_ok E s" using v by (simp add: client_inv_def)
  have id: "w_ID w = jid" if "DownloadByID jid (cl_db s) = Inr w" for w
    using that query_row_Some unfolding DownloadByID_def by fast
  show "settles_ok (post_bytes jid n s) \<and> rows_ok E (post_bytes jid n s)" if e: "CPostBytes jid n \<in> E"
  proof (cases "DownloadByID jid (cl_db s)")
    case (Inr w)
    have p: "posted_bytes E jid" using e by (auto simp: posted_bytes_def)
    show ?thesis
    proof (cases "n > 0")
      case True
      show ?thesis
        by (rule inv_rows [OF v, where P = "\<lambda>w. w_ID w = jid" and
              g = "\<lambda>x. x\<lparr>w_DownloadedBytes := min n (w_TotalSize w), w_UpdatedAt := db_now (cl_db s)\<rparr>"])
          (use True Inr id [OF Inr] p in \<open>auto simp: post_bytes_def SetDownloadProgress_def on_download_def
            split: option.splits settle_phase.splits elim!: row_fits.elims\<close>)
    qed (use ok Inr in \<open>simp add: post_bytes_def\<close>)
  qed (use ok in \<open>simp add: post_bytes_def\<close>)
  show "settles_ok (post_status jid st err s) \<and> rows_ok E (post_status jid st err s)" if e: "CPostStatus jid st err \<in> E"
  proof (cases "DownloadByID jid (cl_db s)")
    case (Inr w)
    have p: "st \<in> posted E jid" using e by (auto simp: posted_def)
    show ?thesis
    proof (cases "st \<in> {DownloadComplete, DownloadFailed, DownloadCancelled, DownloadRunning}")
      case True
      show ?thesis
        by (rule inv_rows [OF v, where P = "\<lambda>w. w_ID w = jid" and g = "status_change (db_now (cl_db s)) st err"])
          (use True Inr id [OF Inr] p in \<open>auto simp: post_status_def SetDownloadStatus_def setDownloadStatus_def Let_def
            split: option.splits settle_phase.splits elim!: row_fits.elims\<close>)
    qed (use ok Inr in \<open>auto simp: post_status_def\<close>)
  qed (use ok in \<open>simp add: post_status_def\<close>)
qed

lemma client_step_inv:
  assumes v: "client_inv E s" and e: "e \<in> E"
  shows "client_inv E (client_step newID e s)"
proof -
  have "books s" "settles_ok s" "rows_ok E s" using v by (simp_all add: client_inv_def)
  then have "settles_ok (client_step newID e s) \<and> rows_ok E (client_step newID e s)"
  proof (cases e)
    case (CRun t)
    have t: "fst (cl_timers s ! t) < length (cl_entries s)" if "t < length (cl_timers s)" using that \<open>books s\<close> by (simp add: books_def)
    show ?thesis using CRun v t settle_locked_inv [OF v] by (simp add: settle_timers client_inv_def inv_frame)
  qed (use v e in \<open>simp_all add: track_inv client_add_inv recordClientProgress_inv client_close_inv cancel_inv cancel_row_inv
      settle_next_inv inv_frame post_inv\<close>)
  then show ?thesis using client_step_books v by (simp add: client_inv_def)
qed

text \<open>A run whose events are all in \<open>E\<close>.\<close>

definition guarded_step :: "client_event set \<Rightarrow> (nat \<Rightarrow> string) \<Rightarrow> client_event \<Rightarrow> client_sys \<Rightarrow> client_sys" where
  "guarded_step E newID e s = (if e \<in> E then client_step newID e s else s)"

interpretation client_rows: machine "guarded_step E newID" "client_inv E" for E newID
  by unfold_locales (simp add: guarded_step_def client_step_inv)

lemma client_steps_inv:
  assumes "client_inv E s" and "set es \<subseteq> E"
  shows "client_inv E (fold (client_step newID) es s)"
proof -
  have "fold (client_step newID) es s = fold (guarded_step E newID) es s"
    by (rule fold_cong) (use assms(2) in \<open>auto simp: guarded_step_def fun_eq_iff\<close>)
  then show ?thesis using client_rows.inv_run [OF assms(1), of newID es] by simp
qed

end
