(* ===== verification/ClientProps.thy ===== *)
theory ClientProps
  imports ClientLaws
begin

text \<open>
  What the downloads a client pulls itself promise, under every interleaving: what their rows say, what cancelling
  reaches, and that each of them ends.
\<close>

section \<open>What the rows say\<close>

definition client_run :: "(nat \<Rightarrow> string) \<Rightarrow> client_event list \<Rightarrow> db \<Rightarrow> client_sys" where
  "client_run newID es d = fold (client_step newID) es (no_clients d)"

lemma client_run_inv: "set es \<subseteq> E \<Longrightarrow> client_inv E (client_run newID es d)"
  unfolding client_run_def by (rule client_steps_inv [OF client_inv_start])

text \<open>C34: whatever requests, timers, reports, cancellations and posts of owners interleave, the row of a WebDAV download says complete
only if the download is over, was not cancelled and at least as many bytes as the file has were sent, and then carries the bytes sent,
or if the owner of the row has said so himself through the progress request; a settled download has a row that is complete or
cancelled, or as its owner has posted it.  The row has not been deleted meanwhile.\<close>

theorem client_download_outcome:
  assumes s: "s = client_run newID es d" and i: "i < length (cl_entries s)"
    and w: "w \<in> set (db_downloads (cl_db s))" "w_ID w = cd_job (cl_entries s ! i)"
  shows "(w_Status w = DownloadComplete \<longrightarrow>
      cd_settled (cl_entries s ! i) \<and> \<not> cd_cancelled (cl_entries s ! i) \<and> cd_total (cl_entries s ! i) \<le> cd_received (cl_entries s ! i) \<and>
        (w_DownloadedBytes w = cd_received (cl_entries s ! i) \<or> posted_bytes (set es) (w_ID w)) \<or>
      DownloadComplete \<in> posted (set es) (w_ID w)) \<and>
    (\<forall>st \<in> set (cl_settles s). st_entry st = i \<and> st_phase st = Settled \<longrightarrow>
      w_Status w \<in> {DownloadComplete, DownloadCancelled} \<union> posted (set es) (w_ID w) \<and>
      (w_DownloadedBytes w = cd_received (cl_entries s ! i) \<or> posted_bytes (set es) (w_ID w)))"
proof -
  have v: "settles_ok s" "rows_ok (set es) s" using client_run_inv [of es "set es" newID d] s by (simp_all add: client_inv_def)
  have fits: "row_fits (set es) (settle_of s i) w" using v(2) i w by (simp add: rows_ok_def)
  have st: "settle_of s i = Some st" if m: "st \<in> set (cl_settles s)" "st_entry st = i" for st
  proof -
    obtain k where "k < length (cl_settles s)" "cl_settles s ! k = st" using m(1) unfolding in_set_conv_nth by blast
    then show ?thesis using find_at [of k "cl_settles s" st_entry] v(1) m(2) by (auto simp: settle_of_def settles_ok_def)
  qed
  show ?thesis
  proof (cases "settle_of s i")
    case None
    then show ?thesis using fits st by auto
  next
    case (Some st)
    then have "st \<in> set (cl_settles s)" "st_entry st = i" by (auto simp: settle_of_def find_Some_iff)
    then have "cd_settled (cl_entries s ! i)" "st_received st = cd_received (cl_entries s ! i)" "st_status st = settle_status (cl_entries s ! i)"
      using v(1) by (auto simp: settles_ok_def)
    then show ?thesis
      using fits st Some by (auto simp: settle_status_def split: settle_phase.splits if_splits)
  qed
qed

section \<open>Cancelling reaches every reader\<close>

definition cancelled_for :: "string \<Rightarrow> client_sys \<Rightarrow> bool" where
  "cancelled_for jid s \<longleftrightarrow> (\<exists>i < length (cl_entries s). cd_job (cl_entries s ! i) = jid \<and> cd_cancelled (cl_entries s ! i))"

text \<open>No section takes an entry, its job or its cancellation back.\<close>

definition keeps :: "client_sys \<Rightarrow> client_sys \<Rightarrow> bool" where
  "keeps s s' \<longleftrightarrow> length (cl_entries s) \<le> length (cl_entries s') \<and>
     (\<forall>i < length (cl_entries s). cd_job (cl_entries s' ! i) = cd_job (cl_entries s ! i) \<and>
        (cd_cancelled (cl_entries s ! i) \<longrightarrow> cd_cancelled (cl_entries s' ! i)))"

lemma keeps_trans: "\<lbrakk>keeps s t; keeps t u\<rbrakk> \<Longrightarrow> keeps s u"
  by (force simp: keeps_def)

lemma nth_update: "xs[k := y] ! i = (if k = i \<and> k < length xs then y else xs ! i)"
  by (cases "k < length xs") (auto simp: nth_list_update list_update_beyond)

lemma client_step_keeps: "keeps s (client_step newID e s)"
proof (cases e)
  case (CTrack key uid f mode)
  have "cl_entries (cancel_timer t s) = cl_entries s" for t by (simp add: cancel_timer_def split: option.split prod.split)
  then show ?thesis
    using CTrack by (auto simp: TrackClientDownload_def Let_def keeps_def on_entry_def nth_update nth_append split: option.splits sum.splits prod.splits)
qed (auto simp: client_add_def recordClientProgress_def client_close_def releaseClientRead_def CancelClientDownload_def cancel_row_def
    settle_locked_def settle_next_def post_bytes_def post_status_def Let_def keeps_def on_entry_def nth_update split: ClientRead.splits option.splits settle_phase.splits sum.splits)

lemma client_steps_keep: "keeps s (fold (client_step newID) es s)"
proof (induction es arbitrary: s)
  case (Cons e es)
  then show ?case using keeps_trans [OF client_step_keeps Cons.IH] by simp
qed (simp add: keeps_def)

text \<open>C35: cancelling a download from the transfer panel finds it as long as a request reads it, and from then on every read of the
download that has bytes to send is refused, whatever happens in between.\<close>

theorem cancel_reaches_every_reader:
  assumes s: "s = client_run newID es d" and r: "r < length (cl_reads s)" "open_on (cl_reads s ! r) = Some i"
    and s': "s' = fold (client_step newID) es' (snd (CancelClientDownload (cd_job (cl_entries s ! i)) s))"
    and r': "r' < length (cl_reads s')" "cl_reads s' ! r' = ReadOpen i'" "cd_job (cl_entries s' ! i') = cd_job (cl_entries s ! i)" and n: "0 < n"
  shows "fst (CancelClientDownload (cd_job (cl_entries s ! i)) s) \<and> client_add r' n due s' = (True, s')"
proof -
  have v: "client_inv UNIV s" using client_run_inv s by simp
  have b: "books s" using v by (simp add: client_inv_def)
  have i: "i < length (cl_entries s)" "\<not> cd_settled (cl_entries s ! i)" using open_unsettled [OF b r] by simp_all
  have "entry_ok s i" using b i(1) unfolding books_def by blast
  then have j: "cl_jobs s (cd_job (cl_entries s ! i)) = Some i" using i(2) by (simp add: entry_ok_def entry_fits_def)
  let ?s1 = "snd (CancelClientDownload (cd_job (cl_entries s ! i)) s)"
  have c: "i < length (cl_entries ?s1)" "cd_job (cl_entries ?s1 ! i) = cd_job (cl_entries s ! i)" "cd_cancelled (cl_entries ?s1 ! i)"
    using j i(1) by (simp_all add: CancelClientDownload_def on_entry_def)
  have b': "books s'"
  proof -
    have "client_inv UNIV ?s1" using client_step_inv [OF v, of "CCancel (cd_job (cl_entries s ! i))" newID] by simp
    then show ?thesis using client_steps_inv [of UNIV ?s1 es' newID] s' by (simp add: client_inv_def)
  qed
  have k: "i < length (cl_entries s')" "cd_job (cl_entries s' ! i) = cd_job (cl_entries s ! i)" "cd_cancelled (cl_entries s' ! i)"
    using client_steps_keep [of ?s1 newID es'] c by (auto simp: keeps_def s')
  have "i' < length (cl_entries s')" using open_unsettled(1) [OF b' r'(1), of i'] r'(2) by simp
  then have "i' = i" using same_job [OF b' _ k(1)] r'(3) k(2) by simp
  then show ?thesis using r'(2) k(3) n j by (simp add: client_add_def CancelClientDownload_def)
qed

section \<open>Every download ends\<close>

lemma settle_twice:
  assumes "k < length (cl_settles s)" and "st_phase (cl_settles s ! k) = ToBytes"
  shows "cl_settles (client_step newID (CSettle k) (client_step newID (CSettle k) s)) = (cl_settles s)[k := (cl_settles s ! k)\<lparr>st_phase := Settled\<rparr>]"
    "cl_entries (client_step newID (CSettle k) (client_step newID (CSettle k) s)) = cl_entries s"
  using assms by (simp_all add: settle_next_def Let_def)

lemma settled_stops:
  assumes k: "k < length (cl_settles s)" "st_phase (cl_settles s ! k) = ToBytes" "st_status (cl_settles s ! k) \<notin> {DownloadPending, DownloadRunning}"
    and w: "w \<in> set (db_downloads (cl_db (client_step newID (CSettle k) (client_step newID (CSettle k) s))))"
      "w_ID w = cd_job (cl_entries s ! st_entry (cl_settles s ! k))"
  shows "w_Status w \<notin> {DownloadPending, DownloadRunning}"
proof -
  let ?jid = "cd_job (cl_entries s ! st_entry (cl_settles s ! k))"
  let ?d = "SetDownloadProgress ?jid (st_received (cl_settles s ! k)) (cl_db s)"
  have "cl_db (client_step newID (CSettle k) (client_step newID (CSettle k) s)) =
      snd (SetDownloadStatusIf ?jid (st_status (cl_settles s ! k)) [] [DownloadPending, DownloadRunning] ?d)"
    using k by (simp add: settle_next_def Let_def)
  then have "w \<in> set (update_where (\<lambda>w. w_ID w = ?jid \<and> w_Status w \<in> set [DownloadPending, DownloadRunning])
      (status_change (db_now ?d) (st_status (cl_settles s ! k)) []) (db_downloads ?d))"
    using w(1) unfolding setDownloadStatus_rows [symmetric] by simp
  then obtain x where x: "w = (if w_ID x = ?jid \<and> w_Status x \<in> set [DownloadPending, DownloadRunning]
      then status_change (db_now ?d) (st_status (cl_settles s ! k)) [] x else x)"
    unfolding update_where_def set_map by (rule imageE)
  show ?thesis
  proof (cases "w_ID x = ?jid \<and> w_Status x \<in> set [DownloadPending, DownloadRunning]")
    case True
    then show ?thesis using k(3) unfolding x by simp
  next
    case False
    then have "w = x" using x by (simp only: if_False)
    then show ?thesis using False w(2) by simp
  qed
qed

text \<open>The timer of a download nobody reads settles it.\<close>

lemma timer_settles:
  assumes t: "t < length (cl_timers s)" "cd_idle (cl_entries s ! i) = Some t" "fst (cl_timers s ! t) = i" "snd (cl_timers s ! t) \<in> {Armed, Fired}"
    and i: "i < length (cl_entries s)" "\<not> cd_settled (cl_entries s ! i)" "cd_active (cl_entries s ! i) = 0"
  shows "cl_entries (client_step newID (CRun t) (client_step newID (CFire t) s)) =
      (cl_entries s)[i := (cl_entries s ! i)\<lparr>cd_settled := True, cd_idle := None\<rparr>]"
    and "cl_settles (client_step newID (CRun t) (client_step newID (CFire t) s)) = cl_settles s @
      [\<lparr>st_entry = i, st_received = cd_received (cl_entries s ! i), st_status = settle_status (cl_entries s ! i), st_phase = ToBytes\<rparr>]"
proof -
  have fired: "client_step newID (CFire t) s = s\<lparr>cl_timers := (cl_timers s)[t := (i, Fired)]\<rparr>"
  proof (cases "snd (cl_timers s ! t) = Armed")
    case False
    then have "(cl_timers s)[t := (i, Fired)] = cl_timers s" using t by (metis insertE list_update_id prod.collapse singletonD)
    then show ?thesis using False by simp
  qed (use t in simp)
  show "cl_entries (client_step newID (CRun t) (client_step newID (CFire t) s)) =
      (cl_entries s)[i := (cl_entries s ! i)\<lparr>cd_settled := True, cd_idle := None\<rparr>]"
    "cl_settles (client_step newID (CRun t) (client_step newID (CFire t) s)) = cl_settles s @
      [\<lparr>st_entry = i, st_received = cd_received (cl_entries s ! i), st_status = settle_status (cl_entries s ! i), st_phase = ToBytes\<rparr>]"
    using t i unfolding fired by (simp_all add: settle_locked_def on_entry_def Let_def)
qed

text \<open>C36: a download nobody reads any more has a grace timer left; once it has fired and run and the statements of the settlement are
executed, its row is no longer running: it has the status of the settlement, or was cancelled, or is as its owner has posted it.\<close>

theorem idle_download_ends:
  assumes s: "s = client_run newID es d" and i: "i < length (cl_entries s)" and u: "\<not> cd_settled (cl_entries s ! i)"
    and idle: "\<forall>r \<in> set (cl_reads s). open_on r \<noteq> Some i"
  shows "\<exists>t k s'. t < length (cl_timers s) \<and> snd (cl_timers s ! t) \<in> {Armed, Fired} \<and>
    s' = fold (client_step newID) [CFire t, CRun t, CSettle k, CSettle k] s \<and> cd_settled (cl_entries s' ! i) \<and>
    (\<forall>w \<in> set (db_downloads (cl_db s')). w_ID w = cd_job (cl_entries s ! i) \<longrightarrow>
      w_Status w \<in> {settle_status (cl_entries s ! i), DownloadCancelled} \<union> posted (set es) (w_ID w) \<and> w_Status w \<notin> {DownloadPending, DownloadRunning})"
proof -
  let ?E = "set es \<union> {CFire t | t. True} \<union> {CRun t | t. True} \<union> {CSettle k | k. True}"
  have E: "posted ?E jid = posted (set es) jid" for jid by (auto simp: posted_def)
  have v: "client_inv ?E s" using client_run_inv [of es ?E] s by auto
  then have b: "books s" by (simp add: client_inv_def)
  have ok: "entry_ok s i" using b i unfolding books_def by blast
  have "cd_active (cl_entries s ! i) = 0" using ok idle by (simp add: entry_ok_def entry_fits_def cnt_absent)
  then obtain t where t: "cd_idle (cl_entries s ! i) = Some t" "t < length (cl_timers s)" "fst (cl_timers s ! t) = i" "snd (cl_timers s ! t) \<in> {Armed, Fired}"
    using ok u by (cases "cd_idle (cl_entries s ! i)") (auto simp: entry_ok_def entry_fits_def)
  let ?k = "length (cl_settles s)"
  let ?d = "cl_entries s ! i"
  let ?s1 = "client_step newID (CFire t) s"
  let ?s2 = "client_step newID (CRun t) ?s1"
  let ?s4 = "client_step newID (CSettle ?k) (client_step newID (CSettle ?k) ?s2)"
  note s2 = timer_settles [OF t(2,1,3,4) i u \<open>cd_active ?d = 0\<close>, of newID]
  have at: "?k < length (cl_settles ?s2)" "cl_settles ?s2 ! ?k = \<lparr>st_entry = i, st_received = cd_received ?d, st_status = settle_status ?d, st_phase = ToBytes\<rparr>"
    unfolding s2(2) by simp_all
  note twice = settle_twice [of ?k ?s2 newID, OF at(1)]
  have e4: "cl_entries ?s4 = cl_entries ?s2" by (rule twice(2)) (simp only: at(2) settlement.simps)
  have st4: "cl_settles ?s4 = (cl_settles ?s2)[?k := \<lparr>st_entry = i, st_received = cd_received ?d, st_status = settle_status ?d, st_phase = Settled\<rparr>]"
    using twice(1) by (simp only: at(2) settlement.simps)
  have v4: "client_inv ?E ?s4" by (intro client_step_inv v) auto
  have k4: "?k < length (cl_settles ?s4)" "cl_settles ?s4 ! ?k = \<lparr>st_entry = i, st_received = cd_received ?d, st_status = settle_status ?d, st_phase = Settled\<rparr>"
    unfolding st4 by (simp_all add: s2(2) del: client_step.simps)
  have "settle_of ?s4 i = Some (cl_settles ?s4 ! ?k)"
    using find_at [OF k4(1), of st_entry] v4 k4(2) by (simp add: settle_of_def client_inv_def settles_ok_def del: client_step.simps)
  note here = this [unfolded k4(2)]
  have e4i: "i < length (cl_entries ?s4)" "cd_job (cl_entries ?s4 ! i) = cd_job ?d" using i unfolding e4 s2(1) by simp_all
  have run: "w_Status w \<notin> {DownloadPending, DownloadRunning}" if w: "w \<in> set (db_downloads (cl_db ?s4))" "w_ID w = cd_job ?d" for w
  proof (rule settled_stops [OF at(1) _ _ w(1)])
    show "st_phase (cl_settles ?s2 ! ?k) = ToBytes" by (simp only: at(2) settlement.simps)
    show "st_status (cl_settles ?s2 ! ?k) \<notin> {DownloadPending, DownloadRunning}" unfolding at(2) by (simp add: settle_status_def)
    have "cd_job (cl_entries ?s2 ! i) = cd_job ?d" using i unfolding s2(1) by simp
    then show "w_ID w = cd_job (cl_entries ?s2 ! st_entry (cl_settles ?s2 ! ?k))" unfolding at(2) using w(2) by simp
  qed
  have "w_Status w \<in> {settle_status ?d, DownloadCancelled} \<union> posted (set es) (w_ID w) \<and> w_Status w \<notin> {DownloadPending, DownloadRunning}"
    if w: "w \<in> set (db_downloads (cl_db ?s4))" "w_ID w = cd_job ?d" for w
  proof -
    have r: "rows_ok ?E ?s4" using v4 by (simp only: client_inv_def)
    have "w_ID w = cd_job (cl_entries ?s4 ! i)" by (simp only: w(2) e4i(2))
    from r [unfolded rows_ok_def, rule_format, OF w(1) e4i(1) this] have "row_fits ?E (settle_of ?s4 i) w" .
    then show ?thesis using run [OF w] unfolding here row_fits.simps E by simp
  qed
  moreover have "cd_settled (cl_entries ?s4 ! i)" using i by (simp add: e4 s2(1) del: client_step.simps)
  ultimately show ?thesis
    using t(2,4) by (intro exI [of _ t] exI [of _ ?k] exI [of _ ?s4]) (simp del: client_step.simps)
qed


section \<open>Witnesses\<close>

definition film_row :: FileRow where
  "film_row = \<lparr>f_ID = ''f'', f_DirID = [], f_Name = ''film.mkv'', f_Size = 10, f_MIME = [], f_SegmentSize = 4,
     f_SegmentCount = 3, f_Status = StatusComplete, f_ChannelID = [], f_CreatedAt = 0, f_UpdatedAt = 0, f_OwnerID = []\<rparr>"

definition film_ids :: "nat \<Rightarrow> string" where "film_ids n = replicate (Suc n) (CHR ''t'')"

definition film_db :: db where "film_db = empty_db\<lparr>db_now := 5, db_files := [film_row]\<rparr>"

definition opened :: "client_event list" where "opened = [CTrack ''k'' [] film_row DownloadWebDAV, CTrack ''k'' [] film_row DownloadWebDAV]"

definition watched :: "client_event list" where
  "watched = opened @ [CAdd 0 4 True, CAdd 1 6 False, CReport 0, CClose 0, CClose 1, CFire 0, CRun 0, CSettle 0, CSettle 0]"

theorem client_download_outcome_witness:
  "\<exists>w \<in> set (db_downloads (cl_db (client_run film_ids watched film_db))). w_Status w = DownloadComplete \<and> w_DownloadedBytes w = 10"
proof -
  let ?s = "client_run film_ids watched film_db"
  have ex: "list_ex (\<lambda>w. w_ID w = cd_job (cl_entries ?s ! 0) \<and> w_Status w = DownloadComplete) (db_downloads (cl_db ?s)) \<and>
      0 < length (cl_entries ?s) \<and> cd_received (cl_entries ?s ! 0) = 10" by code_simp
  then obtain w where w: "w \<in> set (db_downloads (cl_db ?s))" "w_ID w = cd_job (cl_entries ?s ! 0)" "w_Status w = DownloadComplete"
    by (auto simp: list_ex_iff)
  have "posted (set watched) jid = {}" "\<not> posted_bytes (set watched) jid" for jid
    by (auto simp: watched_def opened_def posted_def posted_bytes_def)
  then show ?thesis using client_download_outcome [OF refl _ w(1,2)] ex w by auto
qed

theorem cancel_reaches_every_reader_witness:
  "\<exists>jid s'. s' = fold (client_step film_ids) [CAdd 0 3 False, CMark jid] (snd (CancelClientDownload jid (client_run film_ids opened film_db))) \<and>
    client_add 1 6 False s' = (True, s')"
proof -
  let ?s = "client_run film_ids opened film_db"
  let ?jid = "cd_job (cl_entries ?s ! 0)"
  let ?s' = "fold (client_step film_ids) [CAdd 0 3 False, CMark ?jid] (snd (CancelClientDownload ?jid ?s))"
  have r: "0 < length (cl_reads ?s)" "open_on (cl_reads ?s ! 0) = Some 0" by code_simp+
  have r': "1 < length (cl_reads ?s')" "cl_reads ?s' ! 1 = ReadOpen 0" "cd_job (cl_entries ?s' ! 0) = ?jid" by code_simp+
  have "client_add 1 6 False ?s' = (True, ?s')" 
    by (rule cancel_reaches_every_reader [OF refl r refl r', THEN conjunct2]) simp
  then show ?thesis by (intro exI [of _ ?jid] exI [of _ ?s'] conjI refl)
qed

theorem idle_download_ends_witness:
  "\<exists>k t s'. s' = fold (client_step film_ids) [CFire t, CRun t, CSettle k, CSettle k] (client_run film_ids (opened @ [CClose 1, CClose 0]) film_db) \<and>
    cd_settled (cl_entries s' ! 0)"
proof -
  let ?s = "client_run film_ids (opened @ [CClose 1, CClose 0]) film_db"
  have u: "0 < length (cl_entries ?s)" "\<not> cd_settled (cl_entries ?s ! 0)" "\<forall>r \<in> set (cl_reads ?s). open_on r \<noteq> Some 0" by code_simp+
  show ?thesis using idle_download_ends [OF refl u] by blast
qed

section \<open>Where the code falls short\<close>

text \<open>The progress request asks neither who drives a download nor whether it is over: the owner of a row can declare a WebDAV download
complete of which nothing has been sent, and one that is settled running again.\<close>

lemma owner_completes_running:
  "map w_Status (db_downloads (cl_db (client_run film_ids (opened @ [CPostStatus (film_ids 0) DownloadComplete []]) film_db))) = [DownloadComplete]"
  "map w_Status (db_downloads (cl_db (client_run film_ids (watched @ [CPostStatus (film_ids 0) DownloadRunning []]) film_db))) = [DownloadRunning]"
  by code_simp+

text \<open>Bytes are counted, not ranges: a client that reads the first half of a file twice has, for the history, the whole file.\<close>

lemma half_twice_is_complete:
  "map w_Status (db_downloads (cl_db (client_run film_ids
     [CTrack ''k'' [] film_row DownloadWebDAV, CAdd 0 5 False, CAdd 0 5 False, CClose 0, CFire 0, CRun 0, CSettle 0, CSettle 0] film_db))) =
   [DownloadComplete]"
  by code_simp

end
