(* ===== verification/Dav.thy ===== *)
theory Dav
  imports Serve DriveTree
begin

text \<open>
  The drive over WebDAV, \<open>internal/dav\<close>: the file system of the library \<open>webdav\<close> on top of the drive
  (\<open>fs.go\<close>) and the handles it reads and writes through (\<open>handles.go\<close>).  The library itself, which maps methods
  to these operations, and its locks are not modelled; logging is left out.
\<close>

section \<open>Errors and access\<close>

datatype os_error = OsNotExist | OsExist | OsPermission | OsInvalid | OsOther drive_error

type_synonym ('s, 'a) dav_op = "'s \<Rightarrow> (os_error + 'a) \<times> 's"

definition translate :: "drive_error \<Rightarrow> os_error" where
  "translate e =
     (case e of
        ENotFound \<Rightarrow> OsNotExist
      | EDb ErrNotFound \<Rightarrow> OsNotExist
      | EExists \<Rightarrow> OsExist
      | EDb ErrConflict \<Rightarrow> OsExist
      | ELoop \<Rightarrow> OsInvalid
      | EPath _ \<Rightarrow> OsInvalid
      | _ \<Rightarrow> OsOther e)"

definition translated :: "('s, 'a) op \<Rightarrow> ('s, 'a) dav_op" where
  "translated m s = (case m s of (Inl e, s') \<Rightarrow> (Inl (translate e), s') | (Inr x, s') \<Rightarrow> (Inr x, s'))"

text \<open>\<open>resolve\<close> and \<open>allowed\<close>: \<open>user\<close> is the account that the Basic credentials name.\<close>

definition resolve :: "User option \<Rightarrow> string \<Rightarrow> path_error + string" where
  "resolve user name =
     go_bind (CleanPath name) (\<lambda>clean.
       case user of None \<Rightarrow> Inr clean | Some u \<Rightarrow> ToReal (ScopeOf u) clean)"

definition allowed :: "User option \<Rightarrow> Perm \<Rightarrow> bool" where
  "allowed user perm = (case user of None \<Rightarrow> False | Some u \<Rightarrow> Can u perm)"

definition scopeRootOf :: "User option \<Rightarrow> string" where
  "scopeRootOf user = (case user of None \<Rightarrow> [] | Some u \<Rightarrow> sc_Root (ScopeOf u))"

section \<open>The file system\<close>

definition dav_Mkdir :: "('t, 'b) env \<Rightarrow> User option \<Rightarrow> string \<Rightarrow> (('t, 'b) drive, unit) dav_op" where
  "dav_Mkdir env user name s =
     (if \<not> allowed user PermMkdir then (Inl OsPermission, s)
      else case resolve user name of
          Inl e \<Rightarrow> (Inl (translate (EPath e)), s)
        | Inr clean \<Rightarrow>
            (case Stat env clean s of
               (Inr _, s1) \<Rightarrow> (Inl OsExist, s1)
             | (Inl _, s1) \<Rightarrow>
                 let parent = fst (Parent clean); mkdir = translated (op_bind (Mkdir env clean) (\<lambda>_. ret ()))
                 in if parent = Root then mkdir s1
                    else case translated (ResolveDir parent) s1 of
                        (Inl e, s2) \<Rightarrow> (Inl e, s2)
                      | (Inr _, s2) \<Rightarrow> mkdir s2))"

definition dav_RemoveAll :: "('t, 'b) env \<Rightarrow> User option \<Rightarrow> string \<Rightarrow> (('t, 'b) drive, unit) dav_op" where
  "dav_RemoveAll env user name s =
     (if \<not> allowed user PermDelete then (Inl OsPermission, s)
      else case resolve user name of
          Inl e \<Rightarrow> (Inl (translate (EPath e)), s)
        | Inr clean \<Rightarrow>
            if clean = Root \<or> clean = scopeRootOf user then (Inl OsPermission, s)
            else translated (Delete env clean) s)"

text \<open>A MOVE that changes both the folder and the name is a move followed by a rename.\<close>

definition dav_Rename :: "('t, 'b) env \<Rightarrow> User option \<Rightarrow> string \<Rightarrow> string \<Rightarrow> (('t, 'b) drive, unit) dav_op" where
  "dav_Rename env user oldName newName s =
     (if \<not> allowed user PermRename \<or> \<not> allowed user PermMove then (Inl OsPermission, s)
      else case resolve user oldName of
          Inl e \<Rightarrow> (Inl (translate (EPath e)), s)
        | Inr from \<Rightarrow>
            (case resolve user newName of
               Inl e \<Rightarrow> (Inl (translate (EPath e)), s)
             | Inr to \<Rightarrow>
                 if from = Root \<or> to = Root then (Inl OsPermission, s)
                 else
                   (case (Parent from, Parent to) of
                      ((fromDir, fromBase), (toDir, toBase)) \<Rightarrow>
                        translated
                          (op_bind (if fromDir \<noteq> toDir then op_bind (Move env from toDir) (\<lambda>_. ret (Join toDir fromBase)) else ret from) (\<lambda>from'.
                           if fromBase \<noteq> toBase then op_bind (Rename env from' toBase) (\<lambda>_. ret ()) else ret ())) s)))"

definition dav_Stat :: "('t, 'b) env \<Rightarrow> User option \<Rightarrow> string \<Rightarrow> (('t, 'b) drive, Entry) dav_op" where
  "dav_Stat env user name s =
     (if \<not> allowed user PermRead then (Inl OsPermission, s)
      else case resolve user name of
          Inl e \<Rightarrow> (Inl (translate (EPath e)), s)
        | Inr clean \<Rightarrow> translated (Stat env clean) s)"

datatype dav_file =
    DirHandle string Entry
  | ReadHandle FileRow Entry string string
  | WriteHandle string string string

definition openForWrite :: "('t, 'b) env \<Rightarrow> User option \<Rightarrow> string \<Rightarrow> bool \<Rightarrow> (('t, 'b) drive, dav_file) dav_op" where
  "openForWrite env user clean excl s =
     (if clean = Root then (Inl OsPermission, s)
      else
        let open = (\<lambda>s1. case translated (ResolveDir (fst (Parent clean))) s1 of
                        (Inl e, s2) \<Rightarrow> (Inl e, s2)
                      | (Inr _, s2) \<Rightarrow> (Inr (WriteHandle (fst (Parent clean)) (snd (Parent clean)) (case user of None \<Rightarrow> [] | Some u \<Rightarrow> u_ID u)), s2))
        in if excl then (case Stat env clean s of (Inr _, s1) \<Rightarrow> (Inl OsExist, s1) | (Inl _, s1) \<Rightarrow> open s1) else open s)"

text \<open>\<open>OpenFile\<close>: \<open>write\<close> and \<open>excl\<close> are what the flags ask for.\<close>

definition dav_OpenFile :: "('t, 'b) env \<Rightarrow> User option \<Rightarrow> string \<Rightarrow> bool \<Rightarrow> bool \<Rightarrow> (('t, 'b) drive, dav_file) dav_op" where
  "dav_OpenFile env user name write excl s =
     (case resolve user name of
        Inl e \<Rightarrow> (Inl (translate (EPath e)), s)
      | Inr clean \<Rightarrow>
          if write then (if \<not> allowed user PermUpload then (Inl OsPermission, s) else openForWrite env user clean excl s)
          else if \<not> allowed user PermRead then (Inl OsPermission, s)
          else (case translated (Stat env clean) s of
                  (Inl e, s1) \<Rightarrow> (Inl e, s1)
                | (Inr entry, s1) \<Rightarrow>
                    if e_IsDir entry then (Inr (DirHandle clean entry), s1)
                    else if \<not> allowed user PermDownload then (Inl OsPermission, s1)
                    else (case FileByID (e_ID entry) (dv_db s1) of
                            Inl e \<Rightarrow> (Inl (translate (EDb e)), s1)
                          | Inr f \<Rightarrow>
                              let uid = (case user of None \<Rightarrow> [] | Some u \<Rightarrow> u_ID u)
                              in (Inr (ReadHandle f entry uid (''dav:'' @ uid @ '':'' @ f_ID f)), s1))))"

section \<open>Directories\<close>

text \<open>A listing is loaded once; a file whose bytes are not all there is left out.\<close>

record dirHandle =
  dh_entries :: "Entry list"
  dh_offset :: nat

definition dir_load :: "('t, 'b) env \<Rightarrow> string \<Rightarrow> (('t, 'b) drive, dirHandle) dav_op" where
  "dir_load env path s =
     (case translated (List env path) s of
        (Inl e, s1) \<Rightarrow> (Inl e, s1)
      | (Inr es, s1) \<Rightarrow> (Inr \<lparr>dh_entries = filter (\<lambda>e. e_Status e \<noteq> ''broken'') es, dh_offset = 0\<rparr>, s1))"

text \<open>\<open>Readdir\<close>: \<open>None\<close> is the end of the listing.\<close>

definition Readdir :: "int \<Rightarrow> dirHandle \<Rightarrow> Entry list option \<times> dirHandle" where
  "Readdir n d =
     (if n \<le> 0 then (Some (drop (dh_offset d) (dh_entries d)), d\<lparr>dh_offset := length (dh_entries d)\<rparr>)
      else if dh_offset d \<ge> length (dh_entries d) then (None, d)
      else let e = min (dh_offset d + nat n) (length (dh_entries d))
           in (Some (take (e - dh_offset d) (drop (dh_offset d) (dh_entries d))), d\<lparr>dh_offset := e\<rparr>))"

section \<open>Reading\<close>

text \<open>The stream is opened by the first read.  \<open>admit\<close> is the answer of \<open>AcquireDownloadSession\<close> and
\<open>OpenFile\<close> then; \<open>refused\<close> tells that \<open>Add\<close> of the transfer record refuses the bytes read.\<close>

record 'b readHandle =
  rh_size :: int
  rh_stream :: "'b File option"
  rh_pos :: int

datatype dav_read_error = RdEOF | RdOs os_error | RdStream read_error | RdCancelled

definition ensure :: "(os_error + 'b File) \<Rightarrow> 'b readHandle \<Rightarrow> dav_read_error + 'b readHandle" where
  "ensure admit h =
     (case rh_stream h of
        Some _ \<Rightarrow> Inr h
      | None \<Rightarrow>
          (case admit of
             Inl e \<Rightarrow> Inl (RdOs e)
           | Inr f \<Rightarrow>
               if rh_pos h \<noteq> 0
               then (case File_Seek (rh_pos h) SeekStart f of
                       (Inl e, _) \<Rightarrow> Inl (RdStream e)
                     | (Inr _, f') \<Rightarrow> Inr (h\<lparr>rh_stream := Some f'\<rparr>))
               else Inr (h\<lparr>rh_stream := Some f\<rparr>)))"

text \<open>\<open>None\<close>: the read of the stream never returns.\<close>

definition rh_Read :: "(os_error + 'b File) \<Rightarrow> bool \<Rightarrow> int \<Rightarrow> 'b readHandle \<Rightarrow> ('b list \<times> dav_read_error option \<times> 'b readHandle) option" where
  "rh_Read admit refused n h =
     (if rh_size h = 0 then Some ([], Some RdEOF, h)
      else case ensure admit h of
          Inl e \<Rightarrow> Some ([], Some e, h)
        | Inr h1 \<Rightarrow>
            (case File_Read n (the (rh_stream h1)) of
               None \<Rightarrow> None
             | Some (out, err, f) \<Rightarrow>
                 let h2 = h1\<lparr>rh_stream := Some f, rh_pos := wrap64 (rh_pos h1 + int (length out))\<rparr>
                 in Some (out, (case err of
                      None \<Rightarrow> if refused \<and> out \<noteq> [] then Some RdCancelled else None
                    | Some e \<Rightarrow> Some (RdStream e)), h2)))"

definition rh_seek_to :: "int \<Rightarrow> 'b readHandle \<Rightarrow> (dav_read_error + int) \<times> 'b readHandle" where
  "rh_seek_to pos h =
     (if pos < 0 then (Inl (RdOs OsInvalid), h)
      else case rh_stream h of
          None \<Rightarrow> (Inr pos, h\<lparr>rh_pos := pos\<rparr>)
        | Some f \<Rightarrow>
            (case File_Seek pos SeekStart f of
               (Inl e, f') \<Rightarrow> (Inl (RdStream e), h\<lparr>rh_stream := Some f'\<rparr>)
             | (Inr _, f') \<Rightarrow> (Inr pos, h\<lparr>rh_stream := Some f', rh_pos := pos\<rparr>)))"

definition rh_Seek :: "int \<Rightarrow> whence \<Rightarrow> 'b readHandle \<Rightarrow> (dav_read_error + int) \<times> 'b readHandle" where
  "rh_Seek offset w h =
     (case w of
        SeekStart \<Rightarrow> rh_seek_to offset h
      | SeekCurrent \<Rightarrow> rh_seek_to (wrap64 (rh_pos h + offset)) h
      | SeekEnd \<Rightarrow> rh_seek_to (wrap64 (rh_size h + offset)) h
      | SeekOther _ \<Rightarrow> (Inl (RdOs OsInvalid), h))"

definition rh_Close :: "'b readHandle \<Rightarrow> 'b readHandle" where
  "rh_Close h = h\<lparr>rh_stream := None\<rparr>"

section \<open>Writing\<close>

text \<open>A PUT hands its body to the drive through a pipe.  \<open>store sized request bytes whole\<close> is the upload of what came
through it: \<open>whole\<close> tells that the pipe ended and was not broken.  \<open>declared\<close> is the length of the body, when the
request has one; the pipe of a body that ends early is broken, and so is that of one that is too long, which the
upload no longer reads.\<close>

definition put_request :: "('t, 'b) env \<Rightarrow> string \<Rightarrow> string \<Rightarrow> string \<Rightarrow> int option \<Rightarrow> UploadRequest" where
  "put_request env dir name uid declared =
     \<lparr>uq_DirPath = dir, uq_Name = name, uq_Size = (case declared of None \<Rightarrow> 0 | Some n \<Rightarrow> n), uq_MIME = GuessMIME env name,
      uq_UserID = uid, uq_Source = ''webdav'', uq_SourceURL = [], uq_Overwrite = True\<rparr>"

definition write_close ::
  "('t, 'b) env \<Rightarrow> (bool \<Rightarrow> UploadRequest \<Rightarrow> 'b list \<Rightarrow> bool \<Rightarrow> (('t, 'b) drive, FileRow) op) \<Rightarrow> string \<Rightarrow> string \<Rightarrow> string \<Rightarrow> int option \<Rightarrow>
    'b list \<Rightarrow> (('t, 'b) drive, FileRow) dav_op" where
  "write_close env store dir name uid declared body s =
     (let req = put_request env dir name uid declared
      in case declared of
           None \<Rightarrow> translated (store False req body True) s
         | Some n \<Rightarrow>
             if int (length body) < n then (Inl (OsOther EMissing), snd (store True req body False s))
             else if int (length body) > n then (Inl (OsOther ESize), snd (store True req (take (nat n) body) True s))
             else translated (store True req body True) s)"

text \<open>The drive behind a PUT, when the pipe was not broken.\<close>

definition put_store ::
  "('t, 'b) env \<Rightarrow> ('t, 'b) env \<Rightarrow> drive_error + ('t, 'b) account \<Rightarrow> (UploadRequest \<Rightarrow> 'b list \<Rightarrow> (('t, 'b) drive, FileRow) op) \<Rightarrow>
    bool \<Rightarrow> UploadRequest \<Rightarrow> 'b list \<Rightarrow> bool \<Rightarrow> (('t, 'b) drive, FileRow) op" where
  "put_store env env' admission broken sized req bytes whole =
     (if \<not> whole then broken req bytes
      else if sized then UploadStream env admission req bytes
      else UploadUnsized env env' (Inr bytes) admission req)"

end
