(* ===== verification/DavProps.thy ===== *)
theory DavProps
  imports Dav ServeProps DriveProps
begin

text \<open>
  What the WebDAV layer promises: nothing outside the scope of an account is reached, the lazily opened stream
  reads the bytes at the position of the handle, and the listing is delivered in pages without loss.
\<close>

section \<open>Scopes\<close>

lemma resolve_contained:
  assumes "resolve user name = Inr p"
  shows "Contains (scopeOf user) p \<and> canonical p"
proof (cases user)
  case None
  then have "CleanPath name = Inr p" using assms by (auto simp: resolve_def go_bind_def split: sum.splits)
  then show ?thesis using None CleanPath_canonical by (auto simp: scopeOf_def Contains_def ToVisible_def Unrestricted_def)
next
  case (Some u)
  then obtain c where "ToReal (ScopeOf u) c = Inr p" using assms by (auto simp: resolve_def go_bind_def split: sum.splits)
  then show ?thesis using Some ToReal_scope [OF wf_ScopeOf] by (simp add: scopeOf_def)
qed

text \<open>A scoped account, and the rows that lie strictly inside its scope.\<close>

definition inside :: "User \<Rightarrow> string \<Rightarrow> bool" where
  "inside u p \<longleftrightarrow> Unrestricted (ScopeOf u) \<or> IsDescendant (sc_Root (ScopeOf u)) p"

lemma contained_inside:
  assumes "Contains (ScopeOf u) p" "p \<noteq> scopeRootOf (Some u)"
  shows "inside u p"
proof (cases "Unrestricted (ScopeOf u)")
  case False
  then have "prefix (sc_Root (ScopeOf u) @ ''/'') p"
    using assms by (auto simp: Contains_def ToVisible_def scopeRootOf_def split: if_splits)
  moreover have "sc_Root (ScopeOf u) \<noteq> Root" using wf_ScopeOf [of u] False by (auto simp: wf_scope_def Unrestricted_def)
  ultimately show ?thesis by (simp add: inside_def IsDescendant_def)
qed (simp add: inside_def)

lemma inside_below:
  assumes "inside u p" "q = p \<or> below p q"
  shows "inside u q"
proof (cases "Unrestricted (ScopeOf u)")
  case False
  then have "sc_Root (ScopeOf u) \<noteq> Root" using wf_ScopeOf [of u] by (auto simp: wf_scope_def Unrestricted_def)
  then show ?thesis using assms False by (auto simp: inside_def IsDescendant_def prefix_def)
qed (simp add: inside_def)


section \<open>Deleting stays inside\<close>

definition spares :: "User \<Rightarrow> db \<Rightarrow> db \<Rightarrow> bool" where
  "spares u d d' \<longleftrightarrow> (\<forall>x \<in> set (db_dirs d). \<not> inside u (d_Path x) \<longrightarrow> x \<in> set (db_dirs d')) \<and>
     (\<forall>f \<in> set (db_files d). \<forall>q. anchored d (f_DirID f) q \<and> \<not> inside u (Join q (f_Name f)) \<longrightarrow> f \<in> set (db_files d'))"

lemma spares_refl: "spares u d d"
  by (simp add: spares_def)

lemma anchored_path:
  assumes inv: "index_inv d" and a: "anchored d i p" "anchored d i q"
  shows "p = q"
proof -
  have t: "tree_inv (db_dirs d)" using inv by (simp add: index_inv_def)
  then have "d_ID r \<noteq> []" if "r \<in> set (db_dirs d)" for r using that by (auto simp: tree_inv_def)
  then show ?thesis using a t unfolding anchored_def tree_inv_def by (metis inj_onD distinct_map)
qed

lemma DeleteDir_spares:
  assumes inv: "index_inv d" and r: "r \<in> set (db_dirs d)" and i: "inside u (d_Path r)"
  shows "spares u d (snd (DeleteDir (d_ID r) d))"
proof -
  obtain d' where d': "DeleteDir (d_ID r) d = (Inr (), d')"
    "\<forall>x. x \<in> set (db_dirs d') \<longleftrightarrow> x \<in> set (db_dirs d) \<and> \<not> within r x"
    "\<forall>f. f \<in> set (db_files d') \<longleftrightarrow> f \<in> set (db_files d) \<and> \<not> (\<exists>x \<in> set (db_dirs d). within r x \<and> f_DirID f = d_ID x)"
    using DeleteDir_exactly [OF inv r] by blast
  have within: "inside u (d_Path x)" if "within r x" for x using inside_below [OF i, of "d_Path x"] that by auto
  have t: "tree_inv (db_dirs d)" using inv by (simp add: index_inv_def)
  have "inside u (Join q (f_Name f))"
    if "x \<in> set (db_dirs d)" "within r x" "f_DirID f = d_ID x" "anchored d (f_DirID f) q" for f x q
  proof -
    have "anchored d (f_DirID f) (d_Path x)" using that(1,3) by (auto simp: anchored_def)
    then have q: "q = d_Path x" using anchored_path [OF inv that(4)] by simp
    have "below q (Join q (f_Name f))"
      using tree_path_ok [OF t that(1)] tree_path_nonempty [OF t that(1)] by (simp add: q Join_def)
    then show ?thesis using inside_below [OF within [OF that(2)]] q by blast
  qed
  then show ?thesis using d' within by (auto simp: spares_def)
qed

lemma DeleteFile_spares:
  assumes inv: "index_inv d" and f: "f \<in> set (db_files d)" and i: "\<forall>q. anchored d (f_DirID f) q \<longrightarrow> inside u (Join q (f_Name f))"
  shows "spares u d (snd (DeleteFile (f_ID f) d))"
proof -
  have "distinct (map f_ID (db_files d))" using inv by (simp add: index_inv_def files_inv_def)
  then have "g = f" if "g \<in> set (db_files d)" "f_ID g = f_ID f" for g using that f by (metis inj_onD distinct_map)
  then show ?thesis using i by (auto simp: spares_def DeleteFile_def delete_files_def Let_def)
qed

lemma exec_from:
  assumes "C (snd (q d))"
  shows "triple (\<lambda>s. dv_db s = d) (exec q) (\<lambda>_ s. C (dv_db s)) (\<lambda>s. C (dv_db s))"
  by (rule triple_exec) (use assms in clarsimp)+

text \<open>The path a file is found by is the one of its row.\<close>

lemma file_of_path:
  assumes inv: "index_inv d" and c: "canonical clean" "clean \<noteq> Root" and pn: "Parent clean = (pp, nm)" and par: "resolve_dir pp d = Inr parent"
    and a: "anchored d (d_ID parent) q"
  shows "Join q nm = clean"
proof -
  obtain ns where ns: "\<forall>n \<in> set ns. valid_name n" "clean = path_of ns" using c(1) by (auto simp: canonical_def)
  then have "ns \<noteq> []" using c(2) by (auto simp: path_of_def Root_def)
  then obtain ps n where p: "ns = ps @ [n]" by (metis append_butlast_last_id)
  have plain: "\<forall>x \<in> set ps. plain x" "plain n" using ns(1) by (simp_all add: p valid_plain)
  have par': "pp = path_of ps" "nm = n" using Parent_path_of [OF plain] ns(2) p pn by simp_all
  have "CleanPath (path_of ps) = Inr (path_of ps)" using ns(1) p by (intro CleanPath_canonical_id) (auto simp: canonical_def)
  then have "anchored d (d_ID parent) (path_of ps)" using resolve_anchored par par' by fastforce
  then have "q = path_of ps" using anchored_path [OF inv a] by simp
  then show ?thesis using ns(2) Join_path_of [OF plain(1), of n] par' p by simp
qed

lemma delete_clean_spares:
  assumes inv: "index_inv (dv_db s)" and c: "canonical clean" "inside u clean"
  shows "spares u (dv_db s) (dv_db (snd (delete_clean env clean s)))"
proof -
  let ?d = "dv_db s"
  let ?C = "spares u ?d"
  have here: "triple (\<lambda>s. dv_db s = ?d) m (\<lambda>_ s. dv_db s = ?d) (\<lambda>s. ?C (dv_db s))" if "keeps (\<lambda>s. dv_db s = ?d) m" for m :: "(('a, 'b) drive, 'c) op"
    by (rule triple_conseq [OF that]) (simp_all add: spares_refl)
  have out: "?C (dv_db (snd (m s)))" if "triple (\<lambda>s. dv_db s = ?d) m (\<lambda>_ s. ?C (dv_db s)) (\<lambda>s. ?C (dv_db s))" for m :: "(('a, 'b) drive, 'c) op"
    using that by (cases "m s"; cases "fst (m s)") (auto simp: triple_def)
  show ?thesis
  proof (cases "clean = Root")
    case root: False
    show ?thesis
    proof (cases "DirByPath clean ?d")
      case (Inr dir)
      then have dir: "dir \<in> set (db_dirs ?d)" "d_Path dir = clean" using dir_by_path by blast+
      have "triple (\<lambda>s. dv_db s = ?d) (op_bind (query (SubtreeMessages (en_fold env) (d_ID dir))) (\<lambda>msgs.
          op_bind (deleteMessages env msgs) (\<lambda>_. exec (DeleteDir (d_ID dir))))) (\<lambda>_ s. ?C (dv_db s)) (\<lambda>s. ?C (dv_db s))"
        using DeleteDir_spares [OF inv dir(1)] c(2) dir(2)
        by (intro triple_bind [where R = "\<lambda>_ s. dv_db s = ?d"] here db_intros deleteMessages_db exec_from) simp_all
      from out [OF this] show ?thesis using root Inr by (simp add: delete_clean_def)
    next
      case (Inl e)
      obtain pp nm where pn: "Parent clean = (pp, nm)" by (cases "Parent clean")
      show ?thesis
      proof (cases "resolve_dir pp ?d")
        case err: (Inl e')
        then show ?thesis using root Inl pn spares_refl
          by (simp add: delete_clean_def fail_def ResolveDir_def with_db_def op_bind_def)
      next
        case par: (Inr parent)
        show ?thesis
        proof (cases "FileInDir (d_ID parent) nm ?d")
          case err: (Inl e')
          then show ?thesis using root Inl par pn spares_refl
            by (simp add: delete_clean_def fail_def ret_def ResolveDir_def with_db_def op_bind_def)
        next
          case f: (Inr f)
          then have m: "f \<in> set (db_files ?d)" "f_DirID f = d_ID parent" "f_Name f = nm"
            unfolding FileInDir_def by (blast dest: query_row_Some)+
          have "inside u (Join q (f_Name f))" if "anchored ?d (f_DirID f) q" for q
            using file_of_path [OF inv c(1) root pn par] that m c(2) by simp
          then have sp: "?C (snd (DeleteFile (f_ID f) ?d))" using DeleteFile_spares [OF inv m(1)] by blast
          have "triple (\<lambda>s. dv_db s = ?d) (deleteFileRow env f) (\<lambda>_ s. ?C (dv_db s)) (\<lambda>s. ?C (dv_db s))"
            unfolding deleteFileRow_def
            by (intro triple_bind [where R = "\<lambda>_ s. dv_db s = ?d"] here db_intros deleteMessages_db exec_from) (use sp in simp)
          from out [OF this] show ?thesis using root Inl par f pn spares_refl
            by (simp add: delete_clean_def fail_def ResolveDir_def with_db_def op_bind_def ret_def)
        qed
      qed
    qed
  qed (simp add: delete_clean_def fail_def spares_refl)
qed


section \<open>What stays in the channel\<close>

text \<open>The messages of the rows outside the scope: of folders, and of the segments of files.\<close>

definition outside_messages :: "User \<Rightarrow> db \<Rightarrow> TGMessage set" where
  "outside_messages u d =
     {m. (\<exists>x \<in> set (db_dirs d). \<not> inside u (d_Path x) \<and> m \<in> set (dir_messages [x])) \<or>
         (\<exists>f \<in> set (db_files d). \<exists>q. anchored d (f_DirID f) q \<and> \<not> inside u (Join q (f_Name f)) \<and> m \<in> set (file_messages f (db_segments d)))}"

definition outside_keys :: "User \<Rightarrow> db \<Rightarrow> (string \<times> int) set" where
  "outside_keys u d = msg_key d ` {m \<in> outside_messages u d. 0 < m_MsgID m}"

lemma outside_kept:
  assumes "spares u d d'" and "\<forall>f \<in> set (db_files d'). f \<in> set (db_files d) \<longrightarrow> file_messages f (db_segments d') = file_messages f (db_segments d)"
    and "db_channels d' = db_channels d"
  shows "outside_keys u d \<subseteq> keys d'"
proof -
  have "m \<in> set (all_messages d')" if "m \<in> outside_messages u d" for m
    using that assms(1,2) unfolding outside_messages_def spares_def all_messages_def
    by (fastforce simp: dir_messages_def split: if_splits)
  then show ?thesis using msg_key_cong [OF assms(3)] by (auto simp: outside_keys_def keys_def wanted_def)
qed

text \<open>Whatever the outcome, a deletion of messages takes no other message.\<close>

lemma delete_groups_lower:
  assumes "honest live a"
  shows "delete_groups a gs s = (r, s') \<Longrightarrow> live (dv_tg s) - group_keys (dv_db s) gs \<subseteq> live (dv_tg s')"
proof (induction gs arbitrary: s r)
  case (Cons g gs)
  obtain ch ids where g: "g = (ch, ids)" by fastforce
  note run = Cons.prems [unfolded g]
  show ?case
  proof (cases "channelFor ch (dv_db s)")
    case (Inl e)
    then have "s' = s" using run by (simp add: op_bind_def with_db_def fail_def)
    then show ?thesis by auto
  next
    case c: (Inr c)
    show ?thesis
    proof (cases "ac_ChannelRef a (c_ID c) (dv_tg s)")
      case (Inl e)
      then have "s' = s" using run c by (simp add: op_bind_def with_db_def channelRef_def fail_def ret_def)
      then show ?thesis by auto
    next
      case ref: (Inr ref)
      then have cid: "cr_ChannelID ref = c_ID c" using assms(1) by (auto simp: honest_def)
      obtain x t where x: "ac_DeleteRecords a ref ids (dv_tg s) = (x, t)" by fastforce
      have low: "live (dv_tg s) - {c_ID c} \<times> set ids \<subseteq> live t" using honest_delete [OF assms x] cid by simp
      show ?thesis
      proof (cases x)
        case (Inl e)
        then have "s' = s\<lparr>dv_tg := t\<rparr>" using run c ref x by (simp add: op_bind_def with_db_def channelRef_def tg_call_def fail_def ret_def)
        then show ?thesis using low c by (auto simp: g)
      next
        case (Inr y)
        then have "delete_groups a gs (s\<lparr>dv_tg := t\<rparr>) = (r, s')"
          using run c ref x by (simp add: op_bind_def with_db_def channelRef_def tg_call_def ret_def)
        from Cons.IH [OF this] show ?thesis using low c by (auto simp: g)
      qed
    qed
  qed
qed (simp add: ret_def)

lemma group_keys_within: "group_keys d (by_channel ms) \<subseteq> keys_of d ms"
  by (auto simp: group_keys_def by_channel_def channel_messages_mem keys_of_def msg_key_def image_iff split: sum.split) force

lemma deleteMessages_lower:
  assumes env: "honest_env live env" and m: "deleteMessages env ms s = (r, s')"
  shows "live (dv_tg s) - keys_of (dv_db s) ms \<subseteq> live (dv_tg s')"
proof (cases "ms = [] \<or> en_accounts env (dv_tg s) = []")
  case True
  then show ?thesis using m by (auto simp: deleteMessages_def ret_def op_bind_def metaAccount_def split: if_splits)
next
  case False
  then obtain a as where as: "en_accounts env (dv_tg s) = a # as" by (cases "en_accounts env (dv_tg s)") auto
  then have "delete_groups a (by_channel ms) s = (r, s')"
    using m False by (simp add: deleteMessages_def op_bind_def metaAccount_def)
  moreover have "honest live a" using env as by (rule honest_first)
  ultimately show ?thesis using delete_groups_lower group_keys_within by fast
qed

text \<open>What a deletion of a path does to the channel is one deletion of messages, or nothing.\<close>

lemma delete_clean_tg:
  assumes inv: "index_inv (dv_db s)" and c: "canonical clean" "inside u clean"
  shows "dv_tg (snd (delete_clean env clean s)) = dv_tg s \<or>
    (\<exists>dir ms. dir \<in> set (db_dirs (dv_db s)) \<and> d_Path dir = clean \<and> SubtreeMessages (en_fold env) (d_ID dir) (dv_db s) = Inr ms \<and>
       dv_tg (snd (delete_clean env clean s)) = dv_tg (snd (deleteMessages env ms s))) \<or>
    (\<exists>f. f \<in> set (db_files (dv_db s)) \<and> dv_tg (snd (delete_clean env clean s)) = dv_tg (snd (deleteMessages env (FileMessages (f_ID f) (dv_db s)) s)) \<and>
       (\<forall>q. anchored (dv_db s) (f_DirID f) q \<longrightarrow> inside u (Join q (f_Name f))))"
proof (cases "clean = Root")
  case root: False
  let ?d = "dv_db s"
  have exec_tg: "dv_tg (snd (exec q s1)) = dv_tg s1" for q :: "db \<Rightarrow> (db_error + unit) \<times> db" and s1 :: "('a, 'b) drive"
    by (simp add: exec_eq split: prod.split sum.split)
  show ?thesis
  proof (cases "DirByPath clean ?d")
    case (Inr dir)
    then have dir: "dir \<in> set (db_dirs ?d)" "d_Path dir = clean" using dir_by_path by blast+
    show ?thesis
    proof (cases "SubtreeMessages (en_fold env) (d_ID dir) ?d")
      case (Inl e)
      then show ?thesis using root \<open>DirByPath clean ?d = Inr dir\<close> by (simp add: delete_clean_def op_bind_def query_def fail_def)
    next
      case (Inr ms)
      have "dv_tg (snd (delete_clean env clean s)) = dv_tg (snd (deleteMessages env ms s))"
        using root \<open>DirByPath clean ?d = Inr dir\<close> Inr exec_tg
        by (cases "deleteMessages env ms s") (simp add: delete_clean_def op_bind_def query_def ret_def split: sum.split)
      then show ?thesis using dir Inr by blast
    qed
  next
    case (Inl e)
    obtain pp nm where pn: "Parent clean = (pp, nm)" by (cases "Parent clean")
    show ?thesis
    proof (cases "\<exists>parent f. e = ErrNotFound \<and> resolve_dir pp ?d = Inr parent \<and> FileInDir (d_ID parent) nm ?d = Inr f")
      case False
      then have "dv_tg (snd (delete_clean env clean s)) = dv_tg s"
        using root Inl pn
        by (cases "resolve_dir pp ?d"; cases "FileInDir (d_ID (projr (resolve_dir pp ?d))) nm ?d")
          (auto simp: delete_clean_def fail_def ret_def ResolveDir_def with_db_def op_bind_def)
      then show ?thesis by blast
    next
      case True
      then obtain parent f where f: "e = ErrNotFound" "resolve_dir pp ?d = Inr parent" "FileInDir (d_ID parent) nm ?d = Inr f" by blast
      then have m: "f \<in> set (db_files ?d)" "f_DirID f = d_ID parent" "f_Name f = nm"
        unfolding FileInDir_def by (blast dest: query_row_Some)+
      have "dv_tg (snd (deleteFileRow env f s)) = dv_tg (snd (deleteMessages env (FileMessages (f_ID f) ?d) s))"
        by (cases "deleteMessages env (FileMessages (f_ID f) ?d) s")
          (simp add: deleteFileRow_def op_bind_def with_db_def ret_def forget_refs_def exec_tg split: sum.split)
      moreover have "snd (delete_clean env clean s) = snd (deleteFileRow env f s)"
        using root Inl f pn by (simp add: delete_clean_def ResolveDir_def with_db_def op_bind_def ret_def)
      moreover have "inside u (Join q (f_Name f))" if "anchored ?d (f_DirID f) q" for q
        using file_of_path [OF inv c(1) root pn f(2)] that m c(2) by simp
      ultimately show ?thesis using m(1) by auto
    qed
  qed
qed (simp add: delete_clean_def fail_def)

text \<open>So the messages of the rows that a deletion would leave in the index stay.\<close>

lemma kept_live:
  assumes env: "honest_env live env" and m: "deleteMessages env ms s = (r, s')" and backed: "backed live s"
    and part: "mset (all_messages (dv_db s)) = mset ms + mset (all_messages d')" and ch: "db_channels d' = db_channels (dv_db s)"
  shows "keys d' \<subseteq> live (dv_tg s')"
proof -
  let ?h = "\<lambda>m. 0 < m_MsgID m" and ?k = "msg_key (dv_db s)"
  have k: "msg_key d' = ?k" by (rule msg_key_cong [OF ch])
  have "mset (map ?k (wanted (dv_db s))) = mset (map ?k (filter ?h ms) @ map ?k (wanted d'))"
    unfolding wanted_def mset_append mset_map mset_filter part by simp
  then have "distinct (map ?k (filter ?h ms) @ map ?k (wanted d'))" and K: "keys d' \<subseteq> keys (dv_db s)"
    using backed arg_cong [where f = set_mset] unfolding backed_def
    by (metis mset_eq_imp_distinct_iff, metis (no_types, lifting) keys_def k set_append set_map set_mset_mset Un_upper2)
  then have "keys_of (dv_db s) ms \<inter> keys d' = {}" by (auto simp: keys_def keys_of_def k)
  moreover have "keys d' \<subseteq> live (dv_tg s)" using K backed by (auto simp: backed_def)
  ultimately show ?thesis using deleteMessages_lower [OF env m] by blast
qed

lemma delete_clean_outside:
  assumes env: "honest_env live env" and inv: "index_inv (dv_db s)" and backed: "backed live s" and cf: "folds_no_slash (en_fold env)"
    and c: "canonical clean" "inside u clean"
    and alone: "\<And>r. \<lbrakk>r \<in> set (db_dirs (dv_db s)); d_Path r = clean\<rbrakk> \<Longrightarrow> case_alone (en_fold env) (db_dirs (dv_db s)) r"
  shows "outside_keys u (dv_db s) \<subseteq> live (dv_tg (snd (delete_clean env clean s)))"
proof -
  let ?d = "dv_db s"
  have fi: "files_inv ?d" and t: "tree_inv (db_dirs ?d)" using inv by (simp_all add: index_inv_def)
  have same: "outside_keys u ?d \<subseteq> live (dv_tg s)"
    using outside_kept [OF spares_refl, of ?d u] backed by (auto simp: backed_def)
  consider "dv_tg (snd (delete_clean env clean s)) = dv_tg s"
    | dir ms where "dir \<in> set (db_dirs ?d)" "d_Path dir = clean" "SubtreeMessages (en_fold env) (d_ID dir) ?d = Inr ms"
        "dv_tg (snd (delete_clean env clean s)) = dv_tg (snd (deleteMessages env ms s))"
    | f where "f \<in> set (db_files ?d)" "dv_tg (snd (delete_clean env clean s)) = dv_tg (snd (deleteMessages env (FileMessages (f_ID f) ?d) s))"
        "\<forall>q. anchored ?d (f_DirID f) q \<longrightarrow> inside u (Join q (f_Name f))"
    using delete_clean_tg [OF inv c] by blast
  then show ?thesis
  proof cases
    case 1
    then show ?thesis using same by simp
  next
    case (2 dir ms)
    let ?d' = "snd (DeleteDir (d_ID dir) ?d)"
    obtain r s1 where run: "deleteMessages env ms s = (r, s1)" by fastforce
    note part = messages_partition [OF inv 2(1) cf alone [OF 2(1,2)] 2(3)]
    have eq: "?d' = (delete_files (\<lambda>f. f_DirID f \<in> set (subtree_ids (db_dirs ?d) (d_ID dir))) ?d)
       \<lparr>db_dirs := filter (\<lambda>x. \<not> within dir x) (db_dirs ?d)\<rparr>"
      using DeleteDir_result [OF t 2(1)] by simp
    have ch: "db_channels ?d' = db_channels ?d" unfolding eq by (simp add: delete_files_def Let_def)
    have "file_messages f (db_segments ?d') = file_messages f (db_segments ?d)" if "f \<in> set (db_files ?d')" for f
      using kept_messages [OF fi, of f "\<lambda>f. f_DirID f \<in> set (subtree_ids (db_dirs ?d) (d_ID dir))"] that
      unfolding eq by (auto simp: delete_files_def Let_def)
    then have "outside_keys u ?d \<subseteq> keys ?d'" using outside_kept [OF DeleteDir_spares [OF inv 2(1)] _ ch] c(2) 2(2) by simp
    then show ?thesis using kept_live [OF env run backed part ch] 2(4) run by simp
  next
    case (3 f)
    let ?P = "\<lambda>x. f_ID x = f_ID f"
    let ?d' = "snd (DeleteFile (f_ID f) ?d)"
    obtain r s1 where run: "deleteMessages env (FileMessages (f_ID f) ?d) s = (r, s1)" by fastforce
    have eq: "?d' = delete_files ?P ?d" using 3(1) by (auto simp: DeleteFile_def file_exists_def list_ex_iff)
    have ch: "db_channels ?d' = db_channels ?d" unfolding eq by (simp add: delete_files_def Let_def)
    have "file_messages x (db_segments ?d') = file_messages x (db_segments ?d)" if "x \<in> set (db_files ?d')" for x
      using kept_messages [OF fi, of x ?P] that unfolding eq by (auto simp: delete_files_def Let_def)
    then have "outside_keys u ?d \<subseteq> keys ?d'" using outside_kept [OF DeleteFile_spares [OF inv 3(1,3)] _ ch] by simp
    moreover have "mset (all_messages ?d) = mset (FileMessages (f_ID f) ?d) + mset (all_messages ?d')"
      unfolding eq by (rule FileMessages_partition [OF fi])
    ultimately show ?thesis using kept_live [OF env run backed _ ch] 3(2) run by fastforce
  qed
qed

text \<open>C37: a WebDAV DELETE, whatever its outcome, keeps the index well formed and spares every folder and every file outside the scope
of the account, and the folder of the scope itself; without the permission it changes nothing.  Where the account is honest, every message
of the index is in the channel once, and no other folder has the path of the deleted one up to the case folding of \<open>LIKE\<close>, it also
leaves the messages of everything outside the scope in the channel.  No plugin rewrites the path or refuses: the scope is checked
before the plugins are asked, and what they put in its place is not.\<close>

theorem dav_delete_confined:
  assumes "index_inv (dv_db s)" and "\<forall>p. hk_path (en_hooks env) ''files.delete'' p = Inr p" and "dav_RemoveAll env (Some u) name s = (r, s')"
  shows "index_inv (dv_db s') \<and> spares u (dv_db s) (dv_db s') \<and> (\<not> Can u PermDelete \<longrightarrow> s' = s) \<and>
    (honest_env live env \<and> backed live s \<and> folds_no_slash (en_fold env) \<and>
     (\<forall>x \<in> set (db_dirs (dv_db s)). resolve (Some u) name = Inr (d_Path x) \<longrightarrow> case_alone (en_fold env) (db_dirs (dv_db s)) x) \<longrightarrow>
       outside_keys u (dv_db s) \<subseteq> live (dv_tg s'))"
proof -
  consider "s' = s" | clean where "resolve (Some u) name = Inr clean" "clean \<noteq> scopeRootOf (Some u)" "Can u PermDelete"
      "s' = snd (Delete env clean s)"
    using assms(3) by (auto simp: dav_RemoveAll_def allowed_def translated_def split: if_splits sum.splits prod.splits)
  then show ?thesis
  proof cases
    case 1
    have "outside_keys u (dv_db s) \<subseteq> live (dv_tg s)" if "backed live s"
      using outside_kept [OF spares_refl, of "dv_db s" u] that by (auto simp: backed_def)
    then show ?thesis using 1 assms(1) spares_refl by simp
  next
    case (2 clean)
    then have c: "Contains (ScopeOf u) clean" "canonical clean" using resolve_contained [OF 2(1)] by (simp_all add: scopeOf_def)
    have run: "s' = snd (delete_clean env clean s)"
      using assms(2) CleanPath_canonical_id [OF c(2)] 2(4) by (simp add: Delete_def before_path_def clean_op_def)
    note i = contained_inside [OF c(1) 2(2)]
    have "outside_keys u (dv_db s) \<subseteq> live (dv_tg s')" if "honest_env live env" "backed live s" "folds_no_slash (en_fold env)"
      "\<forall>x \<in> set (db_dirs (dv_db s)). resolve (Some u) name = Inr (d_Path x) \<longrightarrow> case_alone (en_fold env) (db_dirs (dv_db s)) x"
      unfolding run by (rule delete_clean_outside [OF that(1) assms(1) that(2,3) c(2) i]) (use that(4) 2(1) in simp)
    then show ?thesis
      using delete_clean_spares [OF assms(1) c(2) i, of env] keepsD [OF delete_clean_index assms(1)] 2(3) run by simp
  qed
qed

section \<open>Reading through a handle\<close>

definition handle_inv :: "'b list \<Rightarrow> 'b readHandle \<Rightarrow> bool" where
  "handle_inv content h \<longleftrightarrow> rh_size h = int (length content) \<and> 0 \<le> rh_pos h \<and> in64 (rh_pos h) \<and>
     (\<forall>f. rh_stream h = Some f \<longrightarrow> file_inv content f \<and> fl_pos f = rh_pos h)"

lemma File_Read_any:
  assumes "file_inv content f" and "0 \<le> n"
  obtains out err f' where "File_Read n f = Some (out, err, f')" "file_inv content f'" "fl_pos f' = fl_pos f + int (length out)"
proof -
  consider "n = 0" | "fl_size f \<le> fl_pos f" "n \<noteq> 0" | "fl_pos f < fl_size f" "0 < n" using assms(2) by linarith
  then show thesis
  proof cases
    case 1
    then show ?thesis using that assms by (simp add: File_Read_def)
  next
    case 2
    then show ?thesis using that assms by (simp add: File_Read_def read_loop.simps [of _ f])
  next
    case 3
    obtain out err f' where "File_Read n f = Some (out, err, f')" "file_inv content f'" "fl_pos f' = fl_pos f + int (length out)"
      by (rule File_Read_good [OF assms(1) 3]) (rule that)
    then show ?thesis by (rule that)
  qed
qed

lemma ensure_inv:
  assumes h: "handle_inv content h" and f0: "file_inv content f0" "fl_pos f0 = 0"
  obtains h1 f where "ensure (Inr f0) h = Inr h1" "rh_stream h1 = Some f" "rh_pos h1 = rh_pos h" "rh_size h1 = rh_size h"
    "file_inv content f" "fl_pos f = rh_pos h"
proof (cases "rh_stream h")
  case (Some f)
  then show ?thesis using that h by (simp add: ensure_def handle_inv_def)
next
  case None
  show ?thesis
  proof (cases "rh_pos h = 0")
    case True
    then show ?thesis using that None f0 by (simp add: ensure_def)
  next
    case False
    have p: "0 \<le> rh_pos h" "in64 (rh_pos h)" using h by (simp_all add: handle_inv_def)
    obtain f' where f': "File_Seek (rh_pos h) SeekStart f0 = (Inr (rh_pos h), f')" "fl_pos f' = rh_pos h"
      using p(1) by (simp add: File_Seek_def seek_to_def Let_def)
    then show ?thesis using that None False File_Seek_inv [OF f0(1) p(2), of SeekStart] by (simp add: ensure_def)
  qed
qed

datatype handle_op = HRead nat bool | HSeek int whence | HClose

text \<open>The calls of a client; the drive opens the stream when it is needed.\<close>

definition handle_step :: "'b File \<Rightarrow> handle_op \<Rightarrow> 'b readHandle \<Rightarrow> 'b readHandle" where
  "handle_step f0 op h =
     (case op of
        HRead n refused \<Rightarrow> (case rh_Read (Inr f0) refused (int n) h of None \<Rightarrow> h | Some (_, _, h') \<Rightarrow> h')
      | HSeek off w \<Rightarrow> snd (rh_Seek (wrap64 off) w h)
      | HClose \<Rightarrow> rh_Close h)"

lemma seek_handle:
  assumes "handle_inv content h" and "in64 p"
  shows "handle_inv content (snd (rh_seek_to p h))"
proof (cases "p < 0 \<or> rh_stream h = None")
  case True
  then show ?thesis using assms by (auto simp: handle_inv_def rh_seek_to_def split: option.split)
next
  case False
  then obtain f where f: "rh_stream h = Some f" by blast
  obtain f' where f': "File_Seek p SeekStart f = (Inr p, f')" "fl_pos f' = p"
    using False by (simp add: File_Seek_def seek_to_def Let_def)
  have "file_inv content f" using f assms(1) by (simp add: handle_inv_def)
  then have "file_inv content f'" using File_Seek_inv [OF _ assms(2), of content f SeekStart] f'(1) by simp
  then show ?thesis using f f' False assms by (simp add: handle_inv_def rh_seek_to_def)
qed

lemma handle_step_inv:
  assumes h: "handle_inv content h" and f0: "file_inv content f0" "fl_pos f0 = 0"
  shows "handle_inv content (handle_step f0 op h)"
proof (cases op)
  case (HRead n refused)
  show ?thesis
  proof (cases "rh_size h = 0")
    case True
    then show ?thesis using h by (simp add: handle_step_def HRead rh_Read_def)
  next
    case False
    obtain h1 f where h1: "ensure (Inr f0) h = Inr h1" "rh_stream h1 = Some f" "rh_pos h1 = rh_pos h" "rh_size h1 = rh_size h"
      "file_inv content f" "fl_pos f = rh_pos h" using ensure_inv [OF h f0] .
    obtain out err f' where r: "File_Read (int n) f = Some (out, err, f')" "file_inv content f'" "fl_pos f' = fl_pos f + int (length out)"
      using File_Read_any [OF h1(5)] by (metis of_nat_0_le_iff)
    have "0 \<le> fl_pos f'" "in64 (fl_pos f')" using r(2) by (simp_all add: file_inv_def)
    then show ?thesis using h False h1 r by (simp add: handle_step_def HRead rh_Read_def handle_inv_def Let_def)
  qed
next
  case (HSeek off w)
  then show ?thesis using seek_handle [OF h] h by (cases w) (simp_all add: handle_step_def rh_Seek_def)
qed (use h in \<open>simp add: handle_step_def rh_Close_def handle_inv_def\<close>)

text \<open>C38: however a client seeks, reads and closes before, a WebDAV read before the end of the file delivers at least one byte and at
most what was asked for, exactly the bytes at the position of the handle; the only errors are the end of the file and a
cancellation.\<close>

theorem dav_read_next_bytes:
  assumes "file_inv content f0" and "fl_pos f0 = 0"
    and "h = fold (handle_step f0) ops \<lparr>rh_size = int (length content), rh_stream = None, rh_pos = 0\<rparr>"
    and "rh_pos h < int (length content)" and "0 < n"
  shows "\<exists>out err h'. rh_Read (Inr f0) refused n h = Some (out, err, h') \<and> out \<noteq> [] \<and> int (length out) \<le> n \<and>
    out = slice content (rh_pos h) (rh_pos h + int (length out) - 1) \<and> rh_pos h' = rh_pos h + int (length out) \<and>
    (case err of None \<Rightarrow> \<not> refused | Some e \<Rightarrow> e = RdCancelled \<and> refused \<or> e = RdStream EOF \<and> rh_pos h' = int (length content))"
proof -
  have "handle_inv content \<lparr>rh_size = int (length content), rh_stream = None, rh_pos = 0\<rparr>" by (simp add: handle_inv_def in64_def)
  then have h: "handle_inv content h"
    unfolding assms(3) by (intro fold_invariant [where P = "handle_inv content"] handle_step_inv assms(1,2))
  obtain h1 f where h1: "ensure (Inr f0) h = Inr h1" "rh_stream h1 = Some f" "rh_pos h1 = rh_pos h" "rh_size h1 = rh_size h"
      "file_inv content f" "fl_pos f = rh_pos h" using ensure_inv [OF h assms(1,2)] .
  have lt: "fl_pos f < fl_size f" using h1(5,6) assms(4) by (simp add: file_inv_def)
  obtain out err f' where r: "File_Read n f = Some (out, err, f')" "out \<noteq> []" "int (length out) \<le> n"
    "slice content (fl_pos f) (fl_pos f + int (length out) - 1) = out" "fl_pos f' = fl_pos f + int (length out)"
    "err = None \<or> err = Some EOF \<and> fl_pos f' = int (length content)" "file_inv content f'"
    by (rule File_Read_good [OF h1(5) lt assms(5)]) (rule that)
  have "in64 (fl_pos f')" using r(7) by (simp add: file_inv_def)
  moreover have "rh_size h \<noteq> 0" using h assms(4) by (auto simp: handle_inv_def)
  ultimately show ?thesis using h1 r by (auto simp: rh_Read_def Let_def)
qed

section \<open>Pages of a listing\<close>

fun read_pages :: "int list \<Rightarrow> dirHandle \<Rightarrow> Entry list \<times> dirHandle" where
  "read_pages [] d = ([], d)"
| "read_pages (n # ns) d =
     (case Readdir n d of (page, d1) \<Rightarrow> case read_pages ns d1 of (rest, d2) \<Rightarrow> ((case page of None \<Rightarrow> [] | Some es \<Rightarrow> es) @ rest, d2))"

lemma read_pages_exact:
  assumes "dh_offset d \<le> length (dh_entries d)"
  shows "fst (read_pages ns d) @ drop (dh_offset (snd (read_pages ns d))) (dh_entries d) = drop (dh_offset d) (dh_entries d) \<and>
    dh_entries (snd (read_pages ns d)) = dh_entries d"
  using assms
proof (induction ns arbitrary: d)
  case (Cons n ns)
  obtain page d1 where r: "Readdir n d = (page, d1)" by (cases "Readdir n d")
  let ?e = "min (dh_offset d + nat n) (length (dh_entries d))"
  have "take (?e - dh_offset d) (drop (dh_offset d) (dh_entries d)) @ drop ?e (dh_entries d) = drop (dh_offset d) (dh_entries d)"
    using append_take_drop_id [of "?e - dh_offset d" "drop (dh_offset d) (dh_entries d)"] Cons.prems by simp
  then have d1: "dh_entries d1 = dh_entries d" "dh_offset d1 \<le> length (dh_entries d1)"
    and p: "(case page of None \<Rightarrow> [] | Some es \<Rightarrow> es) @ drop (dh_offset d1) (dh_entries d) = drop (dh_offset d) (dh_entries d)"
    using r Cons.prems by (auto simp: Readdir_def Let_def split: if_splits)
  show ?case using Cons.IH [OF d1(2)] d1(1) p r by (cases "read_pages ns d1") auto
qed simp


section \<open>Witnesses\<close>

definition films_admin :: User where
  "films_admin = (guest_at ''/films'')\<lparr>u_Perms := 2 ^ 31 - 1\<rparr>"

theorem dav_delete_confined_witness:
  "\<exists>s'. dav_RemoveAll sim_env (Some films_admin) ''/new'' sample_drive = (Inr (), s') \<and> spares films_admin (dv_db sample_drive) (dv_db s') \<and>
     outside_keys films_admin (dv_db sample_drive) \<subseteq> set (dv_tg s')"
proof -
  have "fst (dav_RemoveAll sim_env (Some films_admin) ''/new'' sample_drive) = Inr ()" by code_simp
  then obtain s' where r: "dav_RemoveAll sim_env (Some films_admin) ''/new'' sample_drive = (Inr (), s')" by (metis prod.collapse)
  have "\<forall>p. hk_path (en_hooks sim_env) ''files.delete'' p = Inr p" by (simp add: sim_hooks)
  moreover have "\<forall>x \<in> set (db_dirs (dv_db sample_drive)). case_alone (en_fold sim_env) (db_dirs (dv_db sample_drive)) x" by code_simp
  moreover have "folds_no_slash (en_fold sim_env)" by (simp add: sim_hooks ascii_fold_slash)
  ultimately show ?thesis
    using dav_delete_confined [OF sample_drive_inv _ r, where live = set] r sim_honest sample_drive_backed by blast
qed

theorem dav_read_next_bytes_witness:
  "\<exists>f0 h out h' err. h = fold (handle_step f0) [HSeek 0 SeekEnd, HSeek 3 SeekStart] \<lparr>rh_size = 10, rh_stream = None, rh_pos = 0\<rparr> \<and>
    rh_Read (Inr f0) False 5 h = Some (out, err, h') \<and> out \<noteq> [] \<and> out = slice [0 :: nat ..< 10] 3 (3 + int (length out) - 1)"
proof -
  obtain f0 where f0: "Open (mem_sources [0 :: nat ..< 10] 4) (int (length [0 :: nat ..< 10])) 4 no_options = Inr f0"
    by (simp add: Open_def)
  have inv: "file_inv [0 :: nat ..< 10] f0" by (rule Open_inv [OF f0]) (simp_all add: good_mem_sources in64_def)
  have pos: "fl_pos f0 = 0" using f0 by (auto simp: Open_def split: if_splits)
  let ?h = "fold (handle_step f0) [HSeek 0 SeekEnd, HSeek 3 SeekStart] \<lparr>rh_size = int (length [0 :: nat ..< 10]), rh_stream = None, rh_pos = 0\<rparr>"
  have h: "rh_pos ?h = 3" by (simp add: handle_step_def rh_Seek_def rh_seek_to_def in64_def)
  show ?thesis using dav_read_next_bytes [OF inv pos refl, of "[HSeek 0 SeekEnd, HSeek 3 SeekStart]" 5 False] h by auto
qed

section \<open>Where the code falls short\<close>

text \<open>Where two folders differ in case only, a deletion in one scope takes documents out of the other: the account of \<open>/T\<close> deletes \<open>/T/x\<close>,
and the folder \<open>/t/x/y\<close>, outside its scope, keeps its row and loses its message.\<close>

definition twin_drive :: "(messages, char) drive" where
  "twin_drive = sim_drive (empty_db\<lparr>db_dirs := [mk_dir ''a'' [] ''T'' ''/T'' 1, mk_dir ''b'' [] ''t'' ''/t'' 2, mk_dir ''c'' ''a'' ''x'' ''/T/x'' 3,
     mk_dir ''d'' ''b'' ''x'' ''/t/x'' 4, mk_dir ''e'' ''d'' ''y'' ''/t/x/y'' 5]\<rparr>) [(''ch'', 5), (''ch'', 4), (''ch'', 3), (''ch'', 2), (''ch'', 1)]"

lemma delete_reaches_twin:
  "case dav_RemoveAll sim_env (Some (films_admin\<lparr>u_ScopePath := ''/T''\<rparr>)) ''/x'' twin_drive of
     (r, s) \<Rightarrow> r = Inr () \<and> map d_Path (db_dirs (dv_db s)) = [''/T'', ''/t'', ''/t/x'', ''/t/x/y''] \<and>
       dv_tg s = [(''ch'', 4), (''ch'', 2), (''ch'', 1)]"
  by code_simp

text \<open>A move that changes folder and name goes through the old name in the new folder: if that is taken, the request fails although
the name it asks for is free.\<close>

definition two_films :: "(messages, char) drive" where
  "two_films = sample_drive\<lparr>dv_db := (dv_db sample_drive)\<lparr>db_files := [mk_file ''f'' ''a'' ''x.mkv'', mk_file ''g'' ''b'' ''x.mkv'']\<rparr>\<rparr>"

lemma move_needs_old_name:
  "fst (Stat sim_env ''/books/y.mkv'' two_films) = Inl ENotFound \<and>
   fst (dav_Rename sim_env (Some (films_admin\<lparr>u_ScopePath := []\<rparr>)) ''/films/x.mkv'' ''/books/y.mkv'' two_films) = Inl OsExist"
  by code_simp

end
