(* ===== verification/Versions.thy ===== *)
theory Versions
  imports GoText
begin

text \<open>
  Versions of plugins, \<open>pkg/plugin/version.go\<close>: the precedence of SemVer decides whether a release is offered as
  an update.  \<open>semver_ok\<close> is the pattern of \<open>manifest.go\<close>, taken apart at the first plus and the first dash.
\<close>

section \<open>Parsing\<close>

definition is_ident_char :: "char \<Rightarrow> bool" where
  "is_ident_char c \<longleftrightarrow> is_digit c \<or> 65 \<le> byte c \<and> byte c \<le> 90 \<or> 97 \<le> byte c \<and> byte c \<le> 122 \<or> c = CHR ''-''"

definition idents_ok :: "string \<Rightarrow> bool" where
  "idents_ok s \<longleftrightarrow> list_all (\<lambda>p. p \<noteq> [] \<and> list_all is_ident_char p) (split_on (CHR ''.'') s)"

definition number_ok :: "string \<Rightarrow> bool" where
  "number_ok s \<longleftrightarrow> s \<noteq> [] \<and> list_all is_digit s \<and> (hd s = CHR ''0'' \<longrightarrow> s = ''0'')"

definition semver_ok :: "string \<Rightarrow> bool" where
  "semver_ok raw =
     (case cut_at (CHR ''+'') raw of
        (main, build, hasBuild) \<Rightarrow>
          (case cut_at (CHR ''-'') main of
             (core, pre, hasPre) \<Rightarrow>
               length (split_on (CHR ''.'') core) = 3 \<and> list_all number_ok (split_on (CHR ''.'') core) \<and>
               (hasPre \<longrightarrow> idents_ok pre) \<and> (hasBuild \<longrightarrow> idents_ok build)))"

text \<open>\<open>strconv.ParseUint(s, 10, 64)\<close>\<close>

fun uint_digits :: "int \<Rightarrow> string \<Rightarrow> int option" where
  "uint_digits acc [] = Some acc"
| "uint_digits acc (c # cs) = (if is_digit c then uint_digits (10 * acc + (int (byte c) - 48)) cs else None)"

definition parse_uint64 :: "string \<Rightarrow> int option" where
  "parse_uint64 s =
     (if s = [] then None
      else case uint_digits 0 s of None \<Rightarrow> None | Some n \<Rightarrow> if n < 2 ^ 64 then Some n else None)"

record version =
  vn_release :: "int list"
  vn_pre :: "string list"

fun parse_numbers :: "string list \<Rightarrow> int list option" where
  "parse_numbers [] = Some []"
| "parse_numbers (p # ps) =
     (case parse_uint64 p of
        None \<Rightarrow> None
      | Some n \<Rightarrow> (case parse_numbers ps of None \<Rightarrow> None | Some ns \<Rightarrow> Some (n # ns)))"

definition parse_trimmed :: "string \<Rightarrow> version option" where
  "parse_trimmed raw =
     (if \<not> semver_ok raw then None
         else case cut_at (CHR ''-'') (fst (cut_at (CHR ''+'') raw)) of
             (core, pre, hasPre) \<Rightarrow>
               map_option (\<lambda>ns. \<lparr>vn_release = ns, vn_pre = (if hasPre then split_on (CHR ''.'') pre else [])\<rparr>)
                 (parse_numbers (split_on (CHR ''.'') core)))"

definition parseVersion :: "string \<Rightarrow> version option" where
  "parseVersion raw = parse_trimmed (trim_prefix ''v'' (trim_space raw))"

section \<open>Comparing\<close>

text \<open>\<open>strings.Compare\<close>: the order of the bytes.\<close>

fun strings_Compare :: "string \<Rightarrow> string \<Rightarrow> int" where
  "strings_Compare [] [] = 0"
| "strings_Compare [] (d # ds) = -1"
| "strings_Compare (c # cs) [] = 1"
| "strings_Compare (c # cs) (d # ds) =
     (if byte c < byte d then -1 else if byte c > byte d then 1 else strings_Compare cs ds)"

definition comparePreRelease :: "string \<Rightarrow> string \<Rightarrow> int" where
  "comparePreRelease left right =
     (case (parse_uint64 left, parse_uint64 right) of
        (Some m, Some n) \<Rightarrow> if m < n then -1 else if m > n then 1 else 0
      | (Some _, None) \<Rightarrow> -1
      | (None, Some _) \<Rightarrow> 1
      | (None, None) \<Rightarrow> strings_Compare left right)"

text \<open>The loop over the identifiers both versions have, then the one that has more.\<close>

fun compare_idents :: "string list \<Rightarrow> string list \<Rightarrow> int" where
  "compare_idents [] [] = 0"
| "compare_idents [] (y # ys) = -1"
| "compare_idents (x # xs) [] = 1"
| "compare_idents (x # xs) (y # ys) =
     (let r = comparePreRelease x y in if r \<noteq> 0 then r else compare_idents xs ys)"

fun compare_release :: "int list \<Rightarrow> int list \<Rightarrow> int" where
  "compare_release (x # xs) (y # ys) = (if x \<noteq> y then (if x < y then -1 else 1) else compare_release xs ys)"
| "compare_release _ _ = 0"

definition compare :: "version \<Rightarrow> version \<Rightarrow> int" where
  "compare v w =
     (let r = compare_release (vn_release v) (vn_release w)
      in if r \<noteq> 0 then r
         else if vn_pre v = [] \<and> vn_pre w = [] then 0
         else if vn_pre v = [] then 1
         else if vn_pre w = [] then -1
         else compare_idents (vn_pre v) (vn_pre w))"

definition CompareVersions :: "string \<Rightarrow> string \<Rightarrow> int" where
  "CompareVersions left right =
     (case (parseVersion left, parseVersion right) of
        (None, None) \<Rightarrow> strings_Compare left right
      | (None, Some _) \<Rightarrow> -1
      | (Some _, None) \<Rightarrow> 1
      | (Some v, Some w) \<Rightarrow> compare v w)"

definition IsNewerVersion :: "string \<Rightarrow> string \<Rightarrow> bool" where
  "IsNewerVersion candidate current \<longleftrightarrow> CompareVersions candidate current > 0"

section \<open>Comparators\<close>

text \<open>A comparison that is a total preorder: turning it round changes the sign, and it is transitive.\<close>

locale comparator =
  fixes cmp :: "'a \<Rightarrow> 'a \<Rightarrow> int" and carrier :: "'a \<Rightarrow> bool"
  assumes flip: "\<lbrakk>carrier x; carrier y\<rbrakk> \<Longrightarrow> cmp y x = - cmp x y"
    and trans: "\<lbrakk>carrier x; carrier y; carrier z; cmp x y \<le> 0; cmp y z \<le> 0\<rbrakk> \<Longrightarrow> cmp x z \<le> 0"
begin

lemma same: "carrier x \<Longrightarrow> cmp x x = 0"
  using flip [of x x] by simp

lemma strict: "\<lbrakk>carrier x; carrier y; carrier z; cmp x y \<le> 0; cmp y z \<le> 0; cmp x y < 0 \<or> cmp y z < 0\<rbrakk> \<Longrightarrow> cmp x z < 0"
proof -
  assume c: "carrier x" "carrier y" "carrier z" and le: "cmp x y \<le> 0" "cmp y z \<le> 0" and lt: "cmp x y < 0 \<or> cmp y z < 0"
  have "cmp x z \<noteq> 0"
  proof
    assume "cmp x z = 0"
    then have zx: "cmp z x \<le> 0" using flip [OF c(1,3)] by simp
    have "cmp y x \<le> 0" "cmp z y \<le> 0" using trans [OF c(2,3,1) le(2) zx] trans [OF c(3,1,2) zx le(1)] by simp_all
    then show False using lt flip [OF c(1,2)] flip [OF c(2,3)] by simp
  qed
  then show ?thesis using trans [OF c le] by simp
qed

lemma equal: "\<lbrakk>carrier x; carrier y; carrier z; cmp x y = 0; cmp y z = 0\<rbrakk> \<Longrightarrow> cmp x z = 0"
  using trans [of x y z] trans [of z y x] flip [of x y] flip [of y z] flip [of x z] by simp

end

interpretation text_order: comparator strings_Compare "\<lambda>_. True"
proof
  show "strings_Compare y x = - strings_Compare x y" for x y
    by (induction x y rule: strings_Compare.induct) auto
  show "strings_Compare x z \<le> 0" if "strings_Compare x y \<le> 0" "strings_Compare y z \<le> 0" for x y z
    using that
  proof (induction x y arbitrary: z rule: strings_Compare.induct)
    case (4 c cs d ds)
    show ?case
    proof (cases z)
      case (Cons e es)
      show ?thesis
      proof (cases "byte c = byte d \<and> byte d = byte e")
        case True
        then show ?thesis using 4(1) [of es] 4(2,3) Cons by simp
      qed (use 4(2,3) Cons in \<open>auto split: if_splits\<close>)
    qed (use 4(3) in simp)
  qed (case_tac z; simp)+
qed

interpretation ident_order: comparator comparePreRelease "\<lambda>_. True"
proof
  show "comparePreRelease y x = - comparePreRelease x y" for x y
    by (simp add: comparePreRelease_def text_order.flip [of x y] split: option.split)
  show "comparePreRelease x z \<le> 0" if "comparePreRelease x y \<le> 0" "comparePreRelease y z \<le> 0" for x y z
  proof -
    have "strings_Compare x y \<le> 0 \<and> strings_Compare y z \<le> 0 \<longrightarrow> strings_Compare x z \<le> 0" using text_order.trans [of x y z] by simp
    then show ?thesis using that
      by (cases "parse_uint64 x"; cases "parse_uint64 y"; cases "parse_uint64 z") (simp_all add: comparePreRelease_def split: if_splits)
  qed
qed

interpretation idents_order: comparator compare_idents "\<lambda>_. True"
proof
  show flip: "compare_idents y x = - compare_idents x y" for x y
  proof (induction x y rule: compare_idents.induct)
    case (4 a as b bs)
    then show ?case using ident_order.flip [of a b] by (simp add: Let_def)
  qed simp_all
  show "compare_idents x z \<le> 0" if "compare_idents x y \<le> 0" "compare_idents y z \<le> 0" for x y z
    using that
  proof (induction x y arbitrary: z rule: compare_idents.induct)
    case (4 a as b bs)
    show ?case
    proof (cases z)
      case (Cons c cs)
      have ab: "comparePreRelease a b \<le> 0" "comparePreRelease a b = 0 \<Longrightarrow> compare_idents as bs \<le> 0"
        using 4(2) by (simp_all add: Let_def split: if_splits)
      have bc: "comparePreRelease b c \<le> 0" "comparePreRelease b c = 0 \<Longrightarrow> compare_idents bs cs \<le> 0"
        using 4(3) Cons by (simp_all add: Let_def split: if_splits)
      show ?thesis
      proof (cases "comparePreRelease a b = 0 \<and> comparePreRelease b c = 0")
        case True
        then show ?thesis using Cons ident_order.equal [of a b c] 4(1) ab bc by (simp add: Let_def)
      next
        case False
        then have "comparePreRelease a c < 0" using ident_order.strict [of a b c] ab bc by auto
        then show ?thesis using Cons by (simp add: Let_def)
      qed
    qed (use 4 in simp)
  qed (case_tac z; simp)+
qed

definition three :: "int list \<Rightarrow> bool" where "three xs \<longleftrightarrow> length xs = 3"

interpretation release_order: comparator compare_release three
proof
  show "compare_release y x = - compare_release x y" for x y
    by (induction x y rule: compare_release.induct) auto
  show "compare_release x z \<le> 0" if t: "three x" "three y" "three z" and le: "compare_release x y \<le> 0" "compare_release y z \<le> 0" for x y z
  proof -
    have "length x = length y" "length y = length z" using t by (simp_all add: three_def)
    then show ?thesis using le
      by (induction x y z rule: list_induct3) (simp_all split: if_splits)
  qed
qed

definition proper :: "version \<Rightarrow> bool" where "proper v \<longleftrightarrow> three (vn_release v)"

interpretation version_order: comparator compare proper
proof
  show "compare w v = - compare v w" if "proper v" "proper w" for v w
    using that release_order.flip [of "vn_release v" "vn_release w"] idents_order.flip [of "vn_pre v" "vn_pre w"]
    by (auto simp: compare_def Let_def proper_def)
  show "compare u w \<le> 0" if p: "proper u" "proper v" "proper w" and le: "compare u v \<le> 0" "compare v w \<le> 0" for u v w
  proof -
    have uv: "compare_release (vn_release u) (vn_release v) \<le> 0" and vw: "compare_release (vn_release v) (vn_release w) \<le> 0"
      using le by (simp_all add: compare_def Let_def split: if_splits)
    show ?thesis
    proof (cases "compare_release (vn_release u) (vn_release v) = 0 \<and> compare_release (vn_release v) (vn_release w) = 0")
      case True
      then have "compare_release (vn_release u) (vn_release w) = 0"
        using p release_order.equal [of "vn_release u" "vn_release v" "vn_release w"] by (simp add: proper_def)
      then show ?thesis
        using True le idents_order.trans [of "vn_pre u" "vn_pre v" "vn_pre w"] by (auto simp: compare_def Let_def split: if_splits)
    next
      case False
      then have "compare_release (vn_release u) (vn_release w) < 0"
        using p uv vw release_order.strict [of "vn_release u" "vn_release v" "vn_release w"] by (auto simp: proper_def)
      then show ?thesis by (simp add: compare_def Let_def)
    qed
  qed
qed

lemma parse_numbers_length: "parse_numbers ps = Some ns \<Longrightarrow> length ns = length ps"
  by (induction ps arbitrary: ns) (auto split: option.splits)

lemma parseVersion_proper: "parseVersion s = Some v \<Longrightarrow> proper v"
  by (auto simp: parseVersion_def parse_trimmed_def semver_ok_def proper_def three_def split: if_splits prod.splits dest: parse_numbers_length)

interpretation versions: comparator CompareVersions "\<lambda>_. True"
proof
  show "CompareVersions y x = - CompareVersions x y" for x y
  proof (cases "parseVersion x = None \<or> parseVersion y = None")
    case False
    then obtain v w where "parseVersion x = Some v" "parseVersion y = Some w" by auto
    then show ?thesis using version_order.flip [of v w] parseVersion_proper by (simp add: CompareVersions_def)
  qed (use text_order.flip [of x y] in \<open>auto simp: CompareVersions_def split: option.split\<close>)
  show "CompareVersions x z \<le> 0" if "CompareVersions x y \<le> 0" "CompareVersions y z \<le> 0" for x y z
  proof -
    have "strings_Compare x y \<le> 0 \<and> strings_Compare y z \<le> 0 \<longrightarrow> strings_Compare x z \<le> 0" using text_order.trans [of x y z] by simp
    then show ?thesis
    proof (cases "parseVersion x = None \<or> parseVersion y = None \<or> parseVersion z = None")
      case False
      then obtain u v w where p: "parseVersion x = Some u" "parseVersion y = Some v" "parseVersion z = Some w" by auto
      then show ?thesis
        using that version_order.trans [OF p [THEN parseVersion_proper]] by (simp add: CompareVersions_def)
    qed (use that in \<open>auto simp: CompareVersions_def split: option.splits\<close>)
  qed
qed

section \<open>Properties\<close>

text \<open>C39: for any strings, be they versions or not, the comparison is a total preorder: turning it round changes the sign and it is
transitive, so a chain of updates never leads back to an older version.\<close>

theorem CompareVersions_order:
  "CompareVersions b a = - CompareVersions a b \<and>
   (CompareVersions a b \<le> 0 \<and> CompareVersions b c \<le> 0 \<longrightarrow> CompareVersions a c \<le> 0) \<and>
   (IsNewerVersion c b \<and> IsNewerVersion b a \<longrightarrow> IsNewerVersion c a \<and> \<not> IsNewerVersion a c)"
  using versions.flip [of a b] versions.flip [of b c] versions.flip [of a c] versions.trans [of a b c] versions.strict [of a b c]
  by (auto simp: IsNewerVersion_def)

lemma trim_space_version: "\<lbrakk>s \<noteq> []; \<forall>c \<in> set s. byte c < 128 \<and> \<not> is_space (byte c)\<rbrakk> \<Longrightarrow> trim_space s = s"
  by (rule trim_space_solid, rule solid_ascii) auto

theorem CompareVersions_order_witness:
  "IsNewerVersion ''1.0.0'' ''1.0.0-rc.11'' \<and> IsNewerVersion ''1.0.0-rc.11'' ''v1.0.0-rc.2'' \<and> IsNewerVersion ''1.0.0'' ''v1.0.0-rc.2''"
proof -
  have t: "trim_space ''1.0.0'' = ''1.0.0''" "trim_space ''1.0.0-rc.11'' = ''1.0.0-rc.11''" "trim_space ''v1.0.0-rc.2'' = ''v1.0.0-rc.2''"
    by (rule trim_space_version; simp add: is_space_def)+
  have p: "parse_trimmed (trim_prefix ''v'' ''1.0.0'') = Some \<lparr>vn_release = [1, 0, 0], vn_pre = []\<rparr>"
    "parse_trimmed (trim_prefix ''v'' ''1.0.0-rc.11'') = Some \<lparr>vn_release = [1, 0, 0], vn_pre = [''rc'', ''11'']\<rparr>"
    "parse_trimmed (trim_prefix ''v'' ''v1.0.0-rc.2'') = Some \<lparr>vn_release = [1, 0, 0], vn_pre = [''rc'', ''2'']\<rparr>"
    by code_simp+
  have "compare \<lparr>vn_release = [1, 0, 0], vn_pre = []\<rparr> \<lparr>vn_release = [1, 0, 0], vn_pre = [''rc'', ''11'']\<rparr> > 0"
    "compare \<lparr>vn_release = [1, 0, 0], vn_pre = [''rc'', ''11'']\<rparr> \<lparr>vn_release = [1, 0, 0], vn_pre = [''rc'', ''2'']\<rparr> > 0"
    by code_simp+
  then have "IsNewerVersion ''1.0.0'' ''1.0.0-rc.11''" "IsNewerVersion ''1.0.0-rc.11'' ''v1.0.0-rc.2''"
    unfolding IsNewerVersion_def CompareVersions_def parseVersion_def t p by simp_all
  then show ?thesis using CompareVersions_order [of "''1.0.0-rc.11''" "''v1.0.0-rc.2''" "''1.0.0''"] by blast
qed

section \<open>Where the code falls short\<close>

text \<open>Numeric identifiers above \<open>uint64\<close> are compared as text: SemVer has them compared as numbers, whatever their size.\<close>

lemma long_identifier_as_text: "comparePreRelease ''99999999999999999999'' ''100000000000000000000'' = 1"
  by code_simp

end
