(* ===== verification/Events.thy ===== *)
theory Events
  imports Prelude "HOL-Library.Sublist"
begin

text \<open>
  The broker of \<open>internal/events/events.go\<close>: events are fanned out to the channels of the subscribers, and one whose
  channel is full misses them.  Subscribers are numbered as the code numbers them.  A section under the lock is one
  event of the model, and so is a receive by a browser; the JSON of an event is the event.
\<close>

section \<open>State and sections\<close>

record 'd Event =
  ev_Data :: 'd
  ev_UserID :: string

text \<open>\<open>sb_taken\<close> are the events the browser has received from the channel, \<open>sb_ch\<close> those still in it.\<close>

record 'd subscriber =
  sb_userID :: string
  sb_ch :: "'d Event list"
  sb_taken :: "'d Event list"
  sb_closed :: bool

record 'd broker =
  bk_subs :: "nat \<Rightarrow> 'd subscriber option"
  bk_gone :: "nat \<Rightarrow> 'd subscriber option"
  bk_next :: nat

definition NewBroker :: "'d broker" where
  "NewBroker = \<lparr>bk_subs = (\<lambda>_. None), bk_gone = (\<lambda>_. None), bk_next = 0\<rparr>"

definition Subscribe :: "string \<Rightarrow> 'd broker \<Rightarrow> nat \<times> 'd broker" where
  "Subscribe uid b =
     (bk_next b, b\<lparr>bk_subs := (bk_subs b)(bk_next b \<mapsto> \<lparr>sb_userID = uid, sb_ch = [], sb_taken = [], sb_closed = False\<rparr>),
        bk_next := Suc (bk_next b)\<rparr>)"

text \<open>The function that \<open>Subscribe\<close> returns; what is in a closed channel can still be received.\<close>

definition release :: "nat \<Rightarrow> 'd broker \<Rightarrow> 'd broker" where
  "release i b =
     (case bk_subs b i of
        None \<Rightarrow> b
      | Some s \<Rightarrow> b\<lparr>bk_subs := (bk_subs b)(i := None), bk_gone := (bk_gone b)(i \<mapsto> s\<lparr>sb_closed := True\<rparr>)\<rparr>)"

definition deliver :: "'d Event \<Rightarrow> 'd subscriber \<Rightarrow> 'd subscriber" where
  "deliver ev s =
     (if ev_UserID ev \<noteq> [] \<and> sb_userID s \<noteq> ev_UserID ev then s
      else if length (sb_ch s) < 64 then s\<lparr>sb_ch := sb_ch s @ [ev]\<rparr> else s)"

definition Publish :: "'d Event \<Rightarrow> 'd broker \<Rightarrow> 'd broker" where
  "Publish ev b = b\<lparr>bk_subs := (\<lambda>i. map_option (deliver ev) (bk_subs b i))\<rparr>"

definition take_event :: "'d subscriber \<Rightarrow> 'd subscriber" where
  "take_event s = (case sb_ch s of [] \<Rightarrow> s | e # es \<Rightarrow> s\<lparr>sb_ch := es, sb_taken := sb_taken s @ [e]\<rparr>)"

definition receive :: "nat \<Rightarrow> 'd broker \<Rightarrow> 'd broker" where
  "receive i b = b\<lparr>bk_subs := (bk_subs b)(i := map_option take_event (bk_subs b i)), bk_gone := (bk_gone b)(i := map_option take_event (bk_gone b i))\<rparr>"

section \<open>Runs\<close>

datatype 'd broker_event = BSubscribe string | BRelease nat | BPublish "'d Event" | BReceive nat

fun broker_step :: "'d broker_event \<Rightarrow> 'd broker \<Rightarrow> 'd broker" where
  "broker_step (BSubscribe uid) b = snd (Subscribe uid b)"
| "broker_step (BRelease i) b = release i b"
| "broker_step (BPublish ev) b = Publish ev b"
| "broker_step (BReceive i) b = receive i b"

definition subscriber_of :: "'d broker \<Rightarrow> nat \<Rightarrow> 'd subscriber option" where
  "subscriber_of b i = (case bk_subs b i of Some s \<Rightarrow> Some s | None \<Rightarrow> bk_gone b i)"

text \<open>The events of a run that are published for an account or for everybody.\<close>

fun published_for :: "string \<Rightarrow> 'd broker_event list \<Rightarrow> 'd Event list" where
  "published_for uid [] = []"
| "published_for uid (BPublish ev # es) =
     (if ev_UserID ev = [] \<or> ev_UserID ev = uid then ev # published_for uid es else published_for uid es)"
| "published_for uid (_ # es) = published_for uid es"

lemma published_append: "published_for uid (es @ fs) = published_for uid es @ published_for uid fs"
  by (induction uid es rule: published_for.induct) auto

definition seen :: "'d subscriber \<Rightarrow> 'd Event list" where
  "seen s = sb_taken s @ sb_ch s"

definition sub_ok :: "'d broker_event list \<Rightarrow> nat \<Rightarrow> nat \<Rightarrow> 'd subscriber \<Rightarrow> bool" where
  "sub_ok es n i s \<longleftrightarrow> i < n \<and> subseq (seen s) (published_for (sb_userID s) es) \<and> length (sb_ch s) \<le> 64"

definition broker_ok :: "'d broker_event list \<Rightarrow> 'd broker \<Rightarrow> bool" where
  "broker_ok es b \<longleftrightarrow>
     (\<forall>i s. bk_subs b i = Some s \<longrightarrow> sub_ok es (bk_next b) i s) \<and> (\<forall>i s. bk_gone b i = Some s \<longrightarrow> sub_ok es (bk_next b) i s)"

lemma subseq_longer: "subseq xs ys \<Longrightarrow> subseq xs (ys @ zs)"
  using list_emb_append_mono [of "(=)" xs ys "[]" zs] by simp

lemma sub_ok_grow: "\<lbrakk>sub_ok es n i s; n \<le> m\<rbrakk> \<Longrightarrow> sub_ok (es @ fs) m i s"
  by (simp add: sub_ok_def published_append subseq_longer)

lemma sub_ok_take: "sub_ok es n i s \<Longrightarrow> sub_ok es n i (take_event s)"
  by (cases "sb_ch s") (simp_all add: sub_ok_def take_event_def seen_def)

lemma sub_ok_deliver:
  assumes s: "sub_ok es n i s"
  shows "sub_ok (es @ [BPublish ev]) n i (deliver ev s)"
proof (cases "(ev_UserID ev = [] \<or> sb_userID s = ev_UserID ev) \<and> length (sb_ch s) < 64")
  case True
  then have d: "deliver ev s = s\<lparr>sb_ch := sb_ch s @ [ev]\<rparr>" by (auto simp: deliver_def)
  have p: "published_for (sb_userID s) [BPublish ev] = [ev]" using True by auto
  have "subseq (seen s @ [ev]) (published_for (sb_userID s) es @ [ev])"
    using s by (intro list_emb_append_mono) (simp_all add: sub_ok_def)
  then show ?thesis using s True unfolding d by (auto simp: sub_ok_def published_append p seen_def simp del: published_for.simps)
next
  case False
  then have "deliver ev s = s" by (auto simp: deliver_def)
  then show ?thesis using sub_ok_grow [OF s] by simp
qed

lemma broker_step_ok:
  assumes b: "broker_ok es b"
  shows "broker_ok (es @ [e]) (broker_step e b)"
proof (cases e)
  case (BSubscribe uid)
  have "sub_ok (es @ [e]) (Suc (bk_next b)) (bk_next b) \<lparr>sb_userID = uid, sb_ch = [], sb_taken = [], sb_closed = False\<rparr>"
    by (simp add: sub_ok_def seen_def)
  then show ?thesis using b sub_ok_grow [of es "bk_next b"] by (simp add: BSubscribe broker_ok_def Subscribe_def)
next
  case (BRelease i)
  have "sub_ok es n j (s\<lparr>sb_closed := True\<rparr>) = sub_ok es n j s" for s :: "'a subscriber" and es n j by (simp add: sub_ok_def seen_def)
  then show ?thesis using b sub_ok_grow [of es "bk_next b"] by (simp add: BRelease broker_ok_def release_def split: option.split)
next
  case (BPublish ev)
  have "sub_ok (es @ [BPublish ev]) (bk_next b) i (deliver ev s)" if "bk_subs b i = Some s" for i s
    using b that by (intro sub_ok_deliver) (simp add: broker_ok_def)
  then show ?thesis using b sub_ok_grow [of es "bk_next b"] by (auto simp: BPublish broker_ok_def Publish_def)
next
  case (BReceive i)
  have "sub_ok (es @ [e]) (bk_next b) j (take_event s)" if "sub_ok es (bk_next b) j s" for j s
    by (rule sub_ok_take) (rule sub_ok_grow [OF that order_refl])
  then show ?thesis using b sub_ok_grow [of es "bk_next b"] by (auto simp: BReceive broker_ok_def receive_def)
qed

definition broker_run :: "'d broker_event list \<Rightarrow> 'd broker" where
  "broker_run es = fold broker_step es NewBroker"

lemma broker_run_ok: "broker_ok es (broker_run es)"
proof (induction es rule: rev_induct)
  case Nil
  then show ?case by (simp add: broker_ok_def broker_run_def NewBroker_def subscriber_of_def)
next
  case (snoc e es)
  then show ?case using broker_step_ok by (simp add: broker_run_def)
qed

section \<open>Properties\<close>

text \<open>However publishing, subscribing, leaving and receiving interleave, what a browser has received and what waits for it is, in the
order of publication, a part of the events for its account and for everybody, and never more than the buffer waits.\<close>

theorem broker_isolates:
  assumes "subscriber_of (broker_run es) i = Some s"
  shows "subseq (sb_taken s @ sb_ch s) (published_for (sb_userID s) es) \<and> length (sb_ch s) \<le> 64 \<and>
    (\<forall>ev \<in> set (sb_taken s @ sb_ch s). ev_UserID ev = [] \<or> ev_UserID ev = sb_userID s)"
proof -
  have s: "subseq (seen s) (published_for (sb_userID s) es)" "length (sb_ch s) \<le> 64"
    using broker_run_ok [of es] assms by (auto simp: broker_ok_def sub_ok_def subscriber_of_def split: option.splits)
  have "ev_UserID ev = [] \<or> ev_UserID ev = uid" if "ev \<in> set (published_for uid es)" for ev uid
    using that by (induction uid es rule: published_for.induct) (auto split: if_splits)
  moreover have "set (seen s) \<subseteq> set (published_for (sb_userID s) es)" using s(1) by (auto dest: list_emb_set)
  ultimately show ?thesis using s by (auto simp: seen_def)
qed

theorem broker_isolates_witness:
  "\<exists>s. subscriber_of (broker_run [BSubscribe ''a'', BPublish \<lparr>ev_Data = (1 :: nat), ev_UserID = ''b''\<rparr>, BPublish \<lparr>ev_Data = 2, ev_UserID = ''a''\<rparr>]) 0 = Some s \<and>
    map ev_Data (sb_ch s) = [2] \<and> (\<forall>ev \<in> set (sb_ch s). ev_UserID ev = [] \<or> ev_UserID ev = ''a'')"
proof -
  let ?es = "[BSubscribe ''a'', BPublish \<lparr>ev_Data = (1 :: nat), ev_UserID = ''b''\<rparr>, BPublish \<lparr>ev_Data = 2, ev_UserID = ''a''\<rparr>]"
  have s: "subscriber_of (broker_run ?es) 0 = Some \<lparr>sb_userID = ''a'', sb_ch = [\<lparr>ev_Data = 2, ev_UserID = ''a''\<rparr>], sb_taken = [], sb_closed = False\<rparr>"
    by code_simp
  show ?thesis using broker_isolates [OF s] s by simp
qed

end
