(* ===== verification/Localfs.thy ===== *)
theory Localfs
  imports DrivePath
begin

text \<open>
  The read-only view of a directory of the server, \<open>internal/localfs/localfs.go\<close>.  A file system maps canonical paths, as
  lists of names, to nodes; paths are walked as the kernel and \<open>filepath.EvalSymlinks\<close> walk them, with a bound on the
  symbolic links followed (40 and 255).
\<close>

section \<open>The file system\<close>

datatype 'b inode = DirNode "string list" int | FileNode "'b list" int | LinkNode string | OtherNode

type_synonym 'b fs = "string list \<Rightarrow> 'b inode option"

datatype fs_error = NotExist | OtherFs

fun walk :: "'b fs \<Rightarrow> nat \<Rightarrow> string list \<Rightarrow> string list \<Rightarrow> fs_error + string list" where
  "walk fs k cur [] = Inr cur"
| "walk fs k cur (n # ns) =
     (if n = [] \<or> n = ''.'' then walk fs k cur ns
      else if n = ''..'' then walk fs k (butlast cur) ns
      else case fs (cur @ [n]) of
          None \<Rightarrow> Inl NotExist
        | Some (DirNode xs m) \<Rightarrow> walk fs k (cur @ [n]) ns
        | Some (LinkNode t) \<Rightarrow>
            (case k of 0 \<Rightarrow> Inl OtherFs | Suc k' \<Rightarrow> walk fs k' (if prefix ''/'' t then [] else cur) (split_on (CHR ''/'') t @ ns))
        | Some node \<Rightarrow> if ns = [] then Inr (cur @ [n]) else Inl OtherFs)"

definition EvalSymlinks :: "'b fs \<Rightarrow> string \<Rightarrow> fs_error + string list" where
  "EvalSymlinks fs p = walk fs 255 [] (split_on (CHR ''/'') p)"

definition os_node :: "'b fs \<Rightarrow> string list \<Rightarrow> fs_error + string list \<times> 'b inode" where
  "os_node fs c = (case fs c of None \<Rightarrow> Inl NotExist | Some node \<Rightarrow> Inr (c, node))"

definition os_Stat :: "'b fs \<Rightarrow> string \<Rightarrow> fs_error + string list \<times> 'b inode" where
  "os_Stat fs p = go_bind (walk fs 40 [] (split_on (CHR ''/'') p)) (os_node fs)"

text \<open>\<open>os.Lstat\<close> does not follow the last element.\<close>

definition os_Lstat :: "'b fs \<Rightarrow> string \<Rightarrow> fs_error + string list \<times> 'b inode" where
  "os_Lstat fs p =
     (let parts = split_on (CHR ''/'') p
      in go_bind (walk fs 40 [] (butlast parts)) (\<lambda>c. os_node fs (if last parts = [] then c else c @ [last parts])))"

definition os_basename :: "string \<Rightarrow> string" where
  "os_basename p =
     (if p = [] then []
      else let s = hd p # rev (dropWhile (\<lambda>c. c = CHR ''/'') (rev (tl p)))
           in case last_index (CHR ''/'') (butlast s) of None \<Rightarrow> s | Some i \<Rightarrow> drop (i + 1) s)"

text \<open>\<open>filepath.Rel\<close> of canonical paths.\<close>

fun rel_names :: "string list \<Rightarrow> string list \<Rightarrow> string list" where
  "rel_names (b # bs) (t # ts) = (if b = t then rel_names bs ts else replicate (length (b # bs)) ''..'' @ t # ts)"
| "rel_names bs ts = replicate (length bs) ''..'' @ ts"

definition filepath_Rel :: "string list \<Rightarrow> string list \<Rightarrow> string" where
  "filepath_Rel base targ = (let r = rel_names base targ in if r = [] then ''.'' else join_with ''/'' r)"

section \<open>The view\<close>

datatype local_error = LDisabled | LUnavailable | LInvalidPath | LNotFound | LNotFile | LNotDir

record local_entry =
  le_Name :: string
  le_Path :: string
  le_IsDir :: bool
  le_Size :: int
  le_ModifiedAt :: int

definition unavailableOrNotFound :: "fs_error \<Rightarrow> local_error" where
  "unavailableOrNotFound e = (if e = NotExist then LNotFound else LUnavailable)"

definition within :: "string list \<Rightarrow> string list \<Rightarrow> bool" where
  "within root targ = (let relative = filepath_Rel root targ in relative = ''.'' \<or> relative \<noteq> ''..'' \<and> \<not> prefix ''../'' relative)"

definition childPath :: "string \<Rightarrow> string \<Rightarrow> string" where
  "childPath parent name = (if parent = ''/'' then ''/'' @ name else parent @ ''/'' @ name)"

definition local_clean :: "string \<Rightarrow> local_error + string" where
  "local_clean raw0 =
     (if raw0 = [] then Inr ''/''
      else if CHR 0x00 \<in> set raw0 \<or> CHR 0x5C \<in> set raw0 then Inl LInvalidPath
      else let raw = (if prefix ''/'' raw0 then raw0 else CHR ''/'' # raw0)
           in if ''..'' \<in> set (split_on (CHR ''/'') raw) then Inl LInvalidPath
              else let clean = path_clean raw in if clean = ''.'' \<or> clean = [] then Inr ''/'' else Inr clean)"

definition is_link :: "'b inode \<Rightarrow> bool" where
  "is_link node = (case node of LinkNode _ \<Rightarrow> True | _ \<Rightarrow> False)"

definition is_dir :: "'b inode \<Rightarrow> bool" where
  "is_dir node = (case node of DirNode _ _ \<Rightarrow> True | _ \<Rightarrow> False)"

text \<open>\<open>root\<close> is the trimmed, absolute root of the service; an empty one disables it.  First the checks of the target.\<close>

definition resolve_target :: "'b fs \<Rightarrow> string list \<Rightarrow> string \<Rightarrow> bool \<Rightarrow> local_error + unit" where
  "resolve_target fs rootc absolute child =
     go_bind (if child
              then (case os_Lstat fs absolute of
                      Inl e \<Rightarrow> Inl (unavailableOrNotFound e)
                    | Inr (_, node) \<Rightarrow> if is_link node then Inl LNotFound else Inr ())
              else Inr ()) (\<lambda>_.
       case EvalSymlinks fs absolute of
         Inl e \<Rightarrow> Inl (unavailableOrNotFound e)
       | Inr targ \<Rightarrow> if within rootc targ then Inr () else Inl LNotFound)"

definition absolute_path :: "string \<Rightarrow> string \<Rightarrow> string" where
  "absolute_path root clean = (let relative = trim_prefix ''/'' clean in if relative = [] then root else root @ ''/'' @ relative)"

definition local_resolve :: "'b fs \<Rightarrow> string \<Rightarrow> string \<Rightarrow> local_error + string \<times> string" where
  "local_resolve fs root req =
     (if root = [] then Inl LDisabled
      else go_bind (local_clean req) (\<lambda>clean.
        case os_Stat fs root of
          Inl _ \<Rightarrow> Inl LUnavailable
        | Inr (_, node) \<Rightarrow>
            if \<not> is_dir node then Inl LUnavailable
            else case EvalSymlinks fs root of
                Inl _ \<Rightarrow> Inl LUnavailable
              | Inr rootc \<Rightarrow>
                  go_bind (resolve_target fs rootc (absolute_path root clean) (trim_prefix ''/'' clean \<noteq> []))
                    (\<lambda>_. Inr (clean, absolute_path root clean))))"

definition node_entry :: "string \<Rightarrow> string \<Rightarrow> 'b inode \<Rightarrow> local_entry option" where
  "node_entry name p node =
     (case node of
        DirNode _ m \<Rightarrow> Some \<lparr>le_Name = name, le_Path = p, le_IsDir = True, le_Size = 0, le_ModifiedAt = m\<rparr>
      | FileNode bytes m \<Rightarrow> Some \<lparr>le_Name = name, le_Path = p, le_IsDir = False, le_Size = int (length bytes), le_ModifiedAt = m\<rparr>
      | _ \<Rightarrow> None)"

definition local_Stat :: "'b fs \<Rightarrow> string \<Rightarrow> string \<Rightarrow> local_error + local_entry" where
  "local_Stat fs root req =
     go_bind (local_resolve fs root req) (\<lambda>(clean, absolute).
       case os_Stat fs absolute of
         Inl e \<Rightarrow> Inl (unavailableOrNotFound e)
       | Inr (_, node) \<Rightarrow> (case node_entry (os_basename absolute) clean node of None \<Rightarrow> Inl LNotFound | Some e \<Rightarrow> Inr e))"

text \<open>\<open>os.Open\<close> opens on the file system \<open>fs'\<close> as it is then; a directory put there meanwhile opens, but cannot be read.\<close>

definition local_Open :: "'b fs \<Rightarrow> 'b fs \<Rightarrow> string \<Rightarrow> string \<Rightarrow> local_error + string list \<times> 'b inode \<times> local_entry" where
  "local_Open fs fs' root req =
     go_bind (local_Stat fs root req) (\<lambda>entry.
       if le_IsDir entry then Inl LNotFile
       else go_bind (local_resolve fs root req) (\<lambda>(_, absolute).
         case os_Stat fs' absolute of
           Inl e \<Rightarrow> Inl (unavailableOrNotFound e)
         | Inr (c, node) \<Rightarrow> Inr (c, node, entry)))"

text \<open>The items of a directory; links and special files are left out.\<close>

fun local_items :: "'b fs \<Rightarrow> string list \<Rightarrow> string \<Rightarrow> string list \<Rightarrow> local_error + local_entry list" where
  "local_items fs c clean [] = Inr []"
| "local_items fs c clean (n # ns) =
     (case fs (c @ [n]) of
        None \<Rightarrow> Inl LUnavailable
      | Some node \<Rightarrow>
          go_bind (local_items fs c clean ns) (\<lambda>es.
            case node_entry n (childPath clean n) node of None \<Rightarrow> Inr es | Some e \<Rightarrow> Inr (e # es)))"

text \<open>\<open>arrange\<close> is \<open>sort.Slice\<close> with directories first and names in lower case after that; it is not stable.\<close>

definition local_List :: "(local_entry list \<Rightarrow> local_entry list) \<Rightarrow> 'b fs \<Rightarrow> string \<Rightarrow> string \<Rightarrow> local_error + local_entry list \<times> string" where
  "local_List arrange fs root req =
     go_bind (local_resolve fs root req) (\<lambda>(clean, absolute).
       case os_Stat fs absolute of
         Inl e \<Rightarrow> Inl (unavailableOrNotFound e)
       | Inr (c, node) \<Rightarrow>
           (case node of
              DirNode names _ \<Rightarrow> go_bind (local_items fs c clean names) (\<lambda>es. Inr (arrange es, clean))
            | _ \<Rightarrow> Inl LNotDir))"

end
