(* ===== verification/LocalProps.thy ===== *)
theory LocalProps
  imports Localfs
begin

text \<open>What a client of the view reaches, and that a listing leads to its entries.\<close>

section \<open>Walking\<close>

definition ordinary :: "string \<Rightarrow> bool" where
  "ordinary n \<longleftrightarrow> n \<noteq> [] \<and> n \<noteq> ''.'' \<and> n \<noteq> ''..''"

text \<open>The walks that arrive.\<close>

inductive walks :: "'b fs \<Rightarrow> nat \<Rightarrow> string list \<Rightarrow> string list \<Rightarrow> string list \<Rightarrow> bool" for fs where
  walks_here: "walks fs k cur [] cur"
| walks_skip: "\<lbrakk>n = [] \<or> n = ''.''; walks fs k cur ns c\<rbrakk> \<Longrightarrow> walks fs k cur (n # ns) c"
| walks_up: "walks fs k (butlast cur) ns c \<Longrightarrow> walks fs k cur (''..'' # ns) c"
| walks_dir: "\<lbrakk>ordinary n; fs (cur @ [n]) = Some (DirNode xs m); walks fs k (cur @ [n]) ns c\<rbrakk> \<Longrightarrow> walks fs k cur (n # ns) c"
| walks_link: "\<lbrakk>ordinary n; fs (cur @ [n]) = Some (LinkNode t);
    walks fs k (if prefix ''/'' t then [] else cur) (split_on (CHR ''/'') t @ ns) c\<rbrakk> \<Longrightarrow> walks fs (Suc k) cur (n # ns) c"
| walks_leaf: "\<lbrakk>ordinary n; fs (cur @ [n]) = Some node; \<not> is_dir node; \<not> is_link node\<rbrakk> \<Longrightarrow> walks fs k cur [n] (cur @ [n])"

lemma walk_skip: "n = [] \<or> n = ''.'' \<Longrightarrow> walk fs k cur (n # ns) = walk fs k cur ns"
  and walk_up: "walk fs k cur (''..'' # ns) = walk fs k (butlast cur) ns"
  and walk_name: "ordinary n \<Longrightarrow> walk fs k cur (n # ns) =
     (case fs (cur @ [n]) of
        None \<Rightarrow> Inl NotExist
      | Some (DirNode xs m) \<Rightarrow> walk fs k (cur @ [n]) ns
      | Some (LinkNode t) \<Rightarrow>
          (case k of 0 \<Rightarrow> Inl OtherFs | Suc k' \<Rightarrow> walk fs k' (if prefix ''/'' t then [] else cur) (split_on (CHR ''/'') t @ ns))
      | Some node \<Rightarrow> if ns = [] then Inr (cur @ [n]) else Inl OtherFs)"
  by (auto simp: ordinary_def)

declare walk.simps(2) [simp del]

lemma walks_walk: "walks fs k cur ns c \<Longrightarrow> walk fs k cur ns = Inr c"
proof (induction rule: walks.induct)
  case (walks_leaf n cur node k)
  then show ?case by (cases node) (simp_all add: walk_name is_dir_def is_link_def)
qed (simp_all add: walk_skip walk_up walk_name)

lemma walk_walks: "walk fs k cur ns = Inr c \<Longrightarrow> walks fs k cur ns c"
proof (induction fs k cur ns rule: walk.induct)
  case (1 fs k cur)
  then show ?case by (simp add: walks_here)
next
  case (2 fs k cur n ns)
  consider "n = [] \<or> n = ''.''" | "n = ''..''" | "ordinary n" by (auto simp: ordinary_def)
  then show ?case
  proof cases
    case 1
    then show ?thesis using 2(1) 2(5) by (simp add: walk_skip walks_skip)
  next
    case u: 2
    then show ?thesis using 2(2) 2(5) by (simp add: walk_up walks_up)
  next
    case o: 3
    then have n: "\<not> (n = [] \<or> n = ''.'')" "n \<noteq> ''..''" by (auto simp: ordinary_def)
    from 2(5) obtain node where node: "fs (cur @ [n]) = Some node" by (cases "fs (cur @ [n])") (simp_all add: walk_name [OF o])
    show ?thesis
    proof (cases node)
      case (DirNode xs m)
      then show ?thesis using 2(3) [OF n node DirNode] 2(5) node o by (simp add: walk_name walks_dir)
    next
      case (LinkNode t)
      then obtain j where k: "k = Suc j" using 2(5) node o by (cases k) (simp_all add: walk_name)
      show ?thesis using 2(4) [OF n node LinkNode k] 2(5) node o LinkNode k walks_link [of n fs cur t j ns c] by (simp add: walk_name)
    next
      case (FileNode b m)
      then show ?thesis using 2(5) node o by (auto simp: walk_name is_dir_def is_link_def intro!: walks_leaf split: if_splits)
    next
      case OtherNode
      then show ?thesis using 2(5) node o by (auto simp: walk_name is_dir_def is_link_def intro!: walks_leaf split: if_splits)
    qed
  qed
qed

lemma walk_iff: "walk fs k cur ns = Inr c \<longleftrightarrow> walks fs k cur ns c"
  using walk_walks walks_walk by blast

lemma walks_more: "walks fs k cur ns c \<Longrightarrow> k \<le> k' \<Longrightarrow> walks fs k' cur ns c"
proof (induction arbitrary: k' rule: walks.induct)
  case (walks_link n cur t k ns c)
  then obtain j where "k' = Suc j" "k \<le> j" by (cases k') auto
  then show ?case using walks_link by (auto intro: walks.walks_link)
qed (auto intro: walks.intros)

text \<open>A file system in which paths lead through directories that list them.\<close>

definition fs_ok :: "'b fs \<Rightarrow> bool" where
  "fs_ok fs \<longleftrightarrow> (\<exists>xs m. fs [] = Some (DirNode xs m)) \<and>
     (\<forall>c n. fs (c @ [n]) \<noteq> None \<longrightarrow> plain n \<and> CHR 0x00 \<notin> set n \<and> (\<exists>xs m. fs c = Some (DirNode xs m)))"

lemma fs_ok_plain: "\<lbrakk>fs_ok fs; fs c \<noteq> None\<rbrakk> \<Longrightarrow> \<forall>n \<in> set c. plain n"
proof (induction c rule: rev_induct)
  case (snoc n c)
  then have "plain n" "\<exists>xs m. fs c = Some (DirNode xs m)" unfolding fs_ok_def by blast+
  then show ?case using snoc(1) [OF snoc(2)] by auto
qed simp

lemma fs_ok_parent: "\<lbrakk>fs_ok fs; fs c = Some (DirNode xs m)\<rbrakk> \<Longrightarrow> \<exists>ys m'. fs (butlast c) = Some (DirNode ys m')"
  by (cases c rule: rev_cases) (auto simp: fs_ok_def, metis option.distinct(1))

lemma walks_node:
  assumes ok: "fs_ok fs"
  shows "walks fs k cur ns c \<Longrightarrow> \<exists>xs m. fs cur = Some (DirNode xs m) \<Longrightarrow> \<exists>node. fs c = Some node \<and> \<not> is_link node"
proof (induction rule: walks.induct)
  case (walks_here k cur)
  then show ?case by (auto simp: is_link_def)
next
  case (walks_up k cur ns c)
  then show ?case using fs_ok_parent [OF ok] by blast
next
  case (walks_link n cur t k ns c)
  then show ?case using ok by (auto simp: fs_ok_def)
qed auto

text \<open>One more name after a walk to a directory.\<close>

lemma walks_snoc:
  assumes n: "ordinary n"
  shows "walks fs k cur ns c \<Longrightarrow> fs c = Some (DirNode xs m) \<Longrightarrow> fs (c @ [n]) = Some node \<Longrightarrow> \<not> is_link node \<Longrightarrow>
    walks fs k cur (ns @ [n]) (c @ [n])"
proof (induction rule: walks.induct)
  case (walks_here k cur)
  then show ?case using n by (cases node) (auto simp: is_link_def is_dir_def intro: walks.intros)
next
  case (walks_leaf l cur nd k)
  then show ?case by (auto simp: is_dir_def)
next
  case (walks_link l cur t k ns c)
  then show ?case by (auto intro: walks.walks_link)
qed (auto intro: walks.intros)

section \<open>Confinement\<close>

lemma rel_names_prefix: "prefix base targ \<Longrightarrow> rel_names base targ = drop (length base) targ"
  by (induction base targ rule: rel_names.induct) auto

lemma rel_names_up: "\<not> prefix base targ \<Longrightarrow> \<exists>ns. rel_names base targ = ''..'' # ns"
  by (induction base targ rule: rel_names.induct) (auto simp: neq_Nil_conv)

lemma within_prefix:
  assumes "\<forall>n \<in> set targ. plain n"
  shows "within root targ \<longleftrightarrow> prefix root targ"
proof (cases "prefix root targ")
  case True
  then obtain ns where ns: "targ = root @ ns" by (elim prefixE)
  then have r: "rel_names root targ = ns" using rel_names_prefix [OF True] by simp
  show ?thesis
  proof (cases ns)
    case (Cons x xs)
    have x: "plain x" using assms ns Cons by simp
    have j: "join_with ''/'' ns = x @ (if xs = [] then [] else ''/'' @ join_with ''/'' xs)" by (cases xs) (simp_all add: Cons)
    have h: "x \<noteq> []" "x \<noteq> ''..''" "CHR ''/'' \<notin> set x" using x by (simp_all add: plain_def)
    have "\<not> prefix ''../'' (x @ y)" if "y = [] \<or> hd y = CHR ''/''" for y
      using h that by (cases x; cases "tl x"; cases "tl (tl x)"; cases y) auto
    moreover have "x @ (if xs = [] then [] else ''/'' @ join_with ''/'' xs) \<noteq> ''..''"
      using h by (cases x; cases "tl x"; cases xs) auto
    ultimately show ?thesis using True unfolding within_def filepath_Rel_def r Let_def j by (auto simp: Cons)
  qed (use r True in \<open>simp add: within_def filepath_Rel_def\<close>)
next
  case False
  then obtain ns where "rel_names root targ = ''..'' # ns" using rel_names_up by blast
  then show ?thesis using False by (cases ns) (simp_all add: within_def filepath_Rel_def)
qed

lemma os_Stat_Eval:
  assumes "os_Stat fs p = Inr (c, node)"
  shows "EvalSymlinks fs p = Inr c" and "fs c = Some node" and "walks fs 40 [] (split_on (CHR ''/'') p) c"
proof -
  from assms obtain c' where w: "walk fs 40 [] (split_on (CHR ''/'') p) = Inr c'" and n: "os_node fs c' = Inr (c, node)"
    unfolding os_Stat_def by (rule go_bind_eq_InrE)
  then show "walks fs 40 [] (split_on (CHR ''/'') p) c" "fs c = Some node" by (auto simp: walk_iff os_node_def split: option.splits)
  then show "EvalSymlinks fs p = Inr c" unfolding EvalSymlinks_def walk_iff using walks_more by fastforce
qed

lemma local_resolveE:
  assumes "local_resolve fs root req = Inr (clean, absolute)"
  obtains rc dc dnode targ where "local_clean req = Inr clean" "absolute = absolute_path root clean" "root \<noteq> []"
    "os_Stat fs root = Inr (dc, dnode)" "is_dir dnode"
    "EvalSymlinks fs root = Inr rc" "EvalSymlinks fs absolute = Inr targ" "within rc targ"
proof -
  obtain cl where cl: "local_clean req = Inr cl" "root \<noteq> []"
    using assms by (cases "local_clean req") (auto simp: local_resolve_def split: if_splits)
  obtain dc dnode where d: "os_Stat fs root = Inr (dc, dnode)" using assms cl by (cases "os_Stat fs root") (auto simp: local_resolve_def)
  obtain rc where rc: "EvalSymlinks fs root = Inr rc" "is_dir dnode"
    using assms cl d by (cases "EvalSymlinks fs root") (auto simp: local_resolve_def split: if_splits)
  have t: "resolve_target fs rc (absolute_path root cl) (trim_prefix ''/'' cl \<noteq> []) = Inr ()" "cl = clean" "absolute = absolute_path root clean"
    using assms cl d rc by (auto simp: local_resolve_def go_bind_eq_Inr)
  then obtain targ where "EvalSymlinks fs absolute = Inr targ" "within rc targ"
    by (cases "EvalSymlinks fs (absolute_path root clean)") (auto simp: resolve_target_def go_bind_eq_Inr split: if_splits)
  then show thesis using that cl d rc t by blast
qed

lemma local_StatE:
  assumes "local_Stat fs root req = Inr entry"
  obtains clean absolute c node where "local_resolve fs root req = Inr (clean, absolute)" "os_Stat fs absolute = Inr (c, node)"
    "node_entry (os_basename absolute) clean node = Some entry"
proof -
  obtain p where "local_resolve fs root req = Inr p" using assms by (cases "local_resolve fs root req") (auto simp: local_Stat_def)
  then obtain clean absolute where r: "local_resolve fs root req = Inr (clean, absolute)" by (cases p) simp
  then obtain q where "os_Stat fs absolute = Inr q" using assms by (cases "os_Stat fs absolute") (auto simp: local_Stat_def)
  then obtain c node where "os_Stat fs absolute = Inr (c, node)" by (cases q) simp
  then show thesis using assms r by (cases "node_entry (os_basename absolute) clean node") (auto simp: local_Stat_def intro: that)
qed

text \<open>C40: a file opened through the view is a regular file below the real directory of the configured root, whatever symbolic links
there are and whatever path the client sends, provided that the path that was checked still leads to the same file when it is
opened.  \<open>raced_open_escapes\<close> shows that the condition is needed.\<close>

theorem local_open_confined:
  assumes "fs_ok fs" and "local_Open fs fs' root req = Inr (c, node, entry)"
    and "\<forall>clean absolute. local_resolve fs root req = Inr (clean, absolute) \<longrightarrow> os_Stat fs' absolute = os_Stat fs absolute"
  shows "\<exists>rc bytes m. EvalSymlinks fs root = Inr rc \<and> strict_prefix rc c \<and> fs c = Some node \<and> node = FileNode bytes m \<and>
    le_Size entry = int (length bytes)"
proof -
  obtain clean absolute where r: "local_resolve fs root req = Inr (clean, absolute)" and st: "os_Stat fs absolute = Inr (c, node)"
    and e: "node_entry (os_basename absolute) clean node = Some entry" "\<not> le_IsDir entry"
  proof -
    obtain e where e: "local_Stat fs root req = Inr e" "\<not> le_IsDir e"
      using assms(2) by (cases "local_Stat fs root req") (auto simp: local_Open_def split: if_splits)
    then obtain clean absolute c' node' where r: "local_resolve fs root req = Inr (clean, absolute)" "os_Stat fs absolute = Inr (c', node')"
      "node_entry (os_basename absolute) clean node' = Some e" by (elim local_StatE)
    then have "c' = c" "node' = node" "e = entry" using assms(2,3) e by (auto simp: local_Open_def)
    then show thesis using that r e by blast
  qed
  obtain rc dc dnode targ where rc: "os_Stat fs root = Inr (dc, dnode)" "is_dir dnode" "EvalSymlinks fs root = Inr rc"
    "EvalSymlinks fs absolute = Inr targ" "within rc targ"
    using r by (rule local_resolveE)
  note s = os_Stat_Eval [OF st] os_Stat_Eval [OF rc(1)]
  have "\<forall>n \<in> set c. plain n" using fs_ok_plain [OF assms(1), of c] s(2) by simp
  then have p: "prefix rc c" using rc(4,5) s(1) within_prefix by auto
  from e obtain bytes m where node: "node = FileNode bytes m" "le_Size entry = int (length bytes)"
    by (cases node) (auto simp: node_entry_def)
  have "rc = dc" using rc(3) s(4) by simp
  then have "c \<noteq> rc" using s(2,5) node(1) rc(2) by (auto simp: is_dir_def)
  then show ?thesis using p rc(3) s(2) node by auto
qed

section \<open>An example\<close>

text \<open>The root \<open>/mnt\<close> is a link to \<open>/srv/vps\<close>, and \<open>inner\<close> a link to a directory beside it.\<close>

definition sample_fs :: "char fs" where
  "sample_fs = map_of
     [([], DirNode [''mnt'', ''srv''] 0), ([''mnt''], LinkNode ''/srv/vps''), ([''srv''], DirNode [''vps'', ''key''] 0),
      ([''srv'', ''key''], FileNode ''secret'' 0), ([''srv'', ''vps''], DirNode [''a.txt'', ''docs'', ''inner''] 0),
      ([''srv'', ''vps'', ''a.txt''], FileNode ''hello'' 7), ([''srv'', ''vps'', ''docs''], DirNode [''b.txt''] 0),
      ([''srv'', ''vps'', ''docs'', ''b.txt''], FileNode ''bye'' 8), ([''srv'', ''vps'', ''inner''], LinkNode ''docs'')]"

lemma sample_fs_ok: "fs_ok sample_fs"
proof -
  have "fs_ok fs" if r: "fs [] = Some (DirNode xs m)"
    and l: "\<forall>c \<in> dom fs. c = [] \<or> plain (last c) \<and> CHR 0x00 \<notin> set (last c) \<and> (\<exists>ys m. fs (butlast c) = Some (DirNode ys m))"
    for fs :: "char fs" and xs m
    unfolding fs_ok_def
  proof (intro conjI allI impI)
    show "\<exists>xs m. fs [] = Some (DirNode xs m)" using r by blast
    show "plain n" "CHR 0x00 \<notin> set n" "\<exists>xs m. fs c = Some (DirNode xs m)" if "fs (c @ [n]) \<noteq> None" for c n
      using bspec [OF l, of "c @ [n]"] that by (simp_all add: domIff)
  qed
  moreover have "sample_fs [] = Some (DirNode [''mnt'', ''srv''] 0)" by (simp add: sample_fs_def)
  moreover have "dom sample_fs = set [[], [''mnt''], [''srv''], [''srv'', ''key''], [''srv'', ''vps''], [''srv'', ''vps'', ''a.txt''],
      [''srv'', ''vps'', ''docs''], [''srv'', ''vps'', ''docs'', ''b.txt''], [''srv'', ''vps'', ''inner'']]"
    unfolding sample_fs_def dom_map_of_conv_image_fst by simp
  moreover have "\<forall>c \<in> set [[], [''mnt''], [''srv''], [''srv'', ''key''], [''srv'', ''vps''], [''srv'', ''vps'', ''a.txt''],
      [''srv'', ''vps'', ''docs''], [''srv'', ''vps'', ''docs'', ''b.txt''], [''srv'', ''vps'', ''inner'']].
      c = [] \<or> plain (last c) \<and> CHR 0x00 \<notin> set (last c) \<and> (\<exists>ys m. sample_fs (butlast c) = Some (DirNode ys m))"
    by (simp add: sample_fs_def plain_def)
  ultimately show ?thesis by metis
qed

theorem local_open_confined_witness:
  "\<exists>c node entry. local_Open sample_fs (sample_fs([''srv'', ''key''] := None)) ''/mnt'' ''/inner/b.txt'' = Inr (c, node, entry) \<and>
    strict_prefix [''srv'', ''vps''] c \<and> le_Size entry = 3"
proof -
  let ?fs' = "sample_fs([''srv'', ''key''] := None)"
  have o: "local_Open sample_fs ?fs' ''/mnt'' ''/inner/b.txt'' =
      Inr ([''srv'', ''vps'', ''docs'', ''b.txt''], FileNode ''bye'' 8, \<lparr>le_Name = ''b.txt'', le_Path = ''/inner/b.txt'', le_IsDir = False, le_Size = 3, le_ModifiedAt = 8\<rparr>)"
    by code_simp
  have "EvalSymlinks sample_fs ''/mnt'' = Inr [''srv'', ''vps'']" by code_simp
  moreover have "case local_resolve sample_fs ''/mnt'' ''/inner/b.txt'' of Inl _ \<Rightarrow> False
      | Inr (clean, absolute) \<Rightarrow> os_Stat ?fs' absolute = os_Stat sample_fs absolute"
    by code_simp
  then have "\<forall>clean absolute. local_resolve sample_fs ''/mnt'' ''/inner/b.txt'' = Inr (clean, absolute) \<longrightarrow>
      os_Stat ?fs' absolute = os_Stat sample_fs absolute"
    by auto
  ultimately show ?thesis using local_open_confined [OF sample_fs_ok o] o by auto
qed

text \<open>A link below the root that stays inside is followed, although the code says that children may not be links.\<close>

lemma inner_link_served:
  "case local_Stat sample_fs ''/mnt'' ''/inner/b.txt'' of Inl _ \<Rightarrow> False | Inr e \<Rightarrow> le_Size e = 3"
  by code_simp

text \<open>An open that is raced: the directory is replaced by a link between the check
and the opening, and the file that is read lies outside of the root.\<close>

definition raced_fs :: "char fs" where
  "raced_fs = sample_fs([''srv'', ''vps'', ''docs''] \<mapsto> LinkNode ''/srv'', [''srv'', ''vps'', ''docs'', ''b.txt''] := None,
     [''srv'', ''b.txt''] \<mapsto> FileNode ''secret'' 0)"

lemma raced_open_escapes:
  "case local_Open sample_fs raced_fs ''/mnt'' ''/docs/b.txt'' of Inl _ \<Rightarrow> False | Inr (c, node, entry) \<Rightarrow> c = [''srv'', ''b.txt'']"
  by code_simp

section \<open>Listing\<close>

lemma fold_clean_from: "set (fold (clean_elem True) es st) \<subseteq> set es \<union> set st"
proof (induction es arbitrary: st)
  case (Cons e es)
  have "set (clean_elem True e st) \<subseteq> insert e (set st)" by (cases st) auto
  then show ?case using Cons [of "clean_elem True e st"] by (auto simp del: clean_elem.simps)
qed simp

lemma local_clean_path:
  assumes "local_clean req = Inr clean"
  obtains ns where "clean = path_of ns" "\<forall>n \<in> set ns. plain n \<and> CHR 0x00 \<notin> set n \<and> CHR 0x5C \<notin> set n"
proof (cases "req = []")
  case True
  then have "clean = path_of []" using assms by (simp add: local_clean_def Root_def)
  then show thesis using that [of "[]"] by simp
next
  case False
  let ?raw = "if prefix ''/'' req then req else CHR ''/'' # req"
  define es where "es = rev (fold (clean_elem True) (split_on (CHR ''/'') ?raw) [])"
  have q: "CHR 0x00 \<notin> set ?raw" "CHR 0x5C \<notin> set ?raw" "hd ?raw = CHR ''/''" "?raw \<noteq> []"
    using assms False by (auto simp: local_clean_def hd_append prefix_def split: if_splits)
  have c: "path_clean ?raw = path_of es" using q(3,4) by (simp add: path_clean_def es_def path_of_def Let_def)
  have "path_of es \<noteq> ''.''" "path_of es \<noteq> []" by (simp_all add: path_of_def)
  then have clean: "clean = path_of es" using assms False c by (auto simp: local_clean_def Let_def split: if_splits)
  have "n \<in> set (split_on (CHR ''/'') ?raw)" if "n \<in> set es" for n
    using that fold_clean_from [of "split_on (CHR ''/'') ?raw" "[]"] by (auto simp: es_def)
  then have chars: "CHR 0x00 \<notin> set n \<and> CHR 0x5C \<notin> set n" if "n \<in> set es" for n
    using that split_on_subset [of n "CHR ''/''" ?raw] q(1,2) by blast
  have "\<forall>n \<in> set es. plain n"
    unfolding es_def set_rev by (rule fold_clean_plain) (blast dest: split_on_elem, simp)
  then show thesis using that clean chars by blast
qed

lemma local_clean_path_of:
  assumes "\<forall>n \<in> set ns. plain n \<and> CHR 0x00 \<notin> set n \<and> CHR 0x5C \<notin> set n"
  shows "local_clean (path_of ns) = Inr (path_of ns)"
proof -
  have pl: "\<forall>n \<in> set ns. plain n" using assms by simp
  have ch: "CHR 0x00 \<notin> set (path_of ns)" "CHR 0x5C \<notin> set (path_of ns)"
    using set_join_with [of "''/''" ns] assms by (auto simp: path_of_def)
  have "split_on (CHR ''/'') (path_of ns) = [] # (if ns = [] then [[]] else ns)"
    using assms by (simp add: path_of_def split_on_join_with plain_def)
  then have "''..'' \<notin> set (split_on (CHR ''/'') (path_of ns))" using pl by (auto simp: plain_def)
  moreover have "path_of ns \<noteq> []" "path_of ns \<noteq> ''.''" "prefix ''/'' (path_of ns)" by (simp_all add: path_of_def)
  ultimately show ?thesis using ch by (simp add: local_clean_def path_clean_path_of [OF pl] Let_def)
qed

lemma absolute_parts:
  assumes "\<forall>n \<in> set ns. plain n"
  shows "split_on (CHR ''/'') (absolute_path root (path_of ns)) = split_on (CHR ''/'') root @ ns"
    and "ns \<noteq> [] \<Longrightarrow> absolute_path root (path_of ns) = root @ ''/'' @ join_with ''/'' ns"
proof -
  have t: "trim_prefix ''/'' (path_of ns) = join_with ''/'' ns" by (simp add: path_of_def trim_prefix_def)
  show 2: "ns \<noteq> [] \<Longrightarrow> absolute_path root (path_of ns) = root @ ''/'' @ join_with ''/'' ns"
    using join_plain(1) [OF assms] by (simp add: absolute_path_def t)
  show "split_on (CHR ''/'') (absolute_path root (path_of ns)) = split_on (CHR ''/'') root @ ns"
  proof (cases "ns = []")
    case True
    then show ?thesis by (simp add: absolute_path_def Root_def trim_prefix_def)
  next
    case False
    then show ?thesis using assms by (simp add: 2 split_on_append_sep split_on_join_with plain_def)
  qed
qed

lemma os_basename_last:
  assumes "plain n" and "p \<noteq> []"
  shows "os_basename (p @ ''/'' @ n) = n"
proof -
  obtain n' c where n: "n = n' @ [c]" "c \<noteq> CHR ''/''" "CHR ''/'' \<notin> set n'" using assms(1) by (cases n rule: rev_cases) (auto simp: plain_def)
  obtain a p' where p: "p = a # p'" using assms(2) by (cases p) simp_all
  have s: "hd (p @ ''/'' @ n) # rev (dropWhile (\<lambda>c. c = CHR ''/'') (rev (tl (p @ ''/'' @ n)))) = p @ ''/'' @ n" using n p by simp
  have "last_index (CHR ''/'') (butlast (p @ ''/'' @ n)) = Some (length p)"
    using last_index_append [OF n(3), of p] by (simp add: n(1) butlast_append)
  then show ?thesis using assms(2) unfolding os_basename_def s Let_def by simp
qed

lemma local_items_entry:
  "\<lbrakk>local_items fs c clean ns = Inr es; e \<in> set es\<rbrakk> \<Longrightarrow>
    \<exists>n node. fs (c @ [n]) = Some node \<and> node_entry n (childPath clean n) node = Some e"
proof (induction ns arbitrary: es)
  case (Cons n ns)
  obtain node where node: "fs (c @ [n]) = Some node" using Cons.prems(1) by (cases "fs (c @ [n])") simp_all
  obtain es' where es': "local_items fs c clean ns = Inr es'" using Cons.prems(1) node by (cases "local_items fs c clean ns") simp_all
  show ?case
  proof (cases "e \<in> set es'")
    case False
    then have "node_entry n (childPath clean n) node = Some e"
      using Cons.prems node es' by (cases "node_entry n (childPath clean n) node") auto
    then show ?thesis using node by blast
  qed (use Cons.IH [OF es'] in blast)
qed simp

text \<open>What a listing shows can be selected: every entry, unless its name has a backslash, is found under the path the listing gives
it, as the same entry.\<close>

theorem listing_leads_back:
  assumes "fs_ok fs" and "local_List arrange fs root req = Inr (es, clean)" and "\<forall>xs. set (arrange xs) \<subseteq> set xs"
    and "e \<in> set es" and "CHR 0x5C \<notin> set (le_Name e)"
  shows "local_Stat fs root (le_Path e) = Inr e"
proof -
  obtain p where "local_resolve fs root req = Inr p" using assms(2) by (cases "local_resolve fs root req") (auto simp: local_List_def)
  then obtain cl absolute where r: "local_resolve fs root req = Inr (cl, absolute)" by (cases p) simp
  then obtain q where "os_Stat fs absolute = Inr q" using assms(2) by (cases "os_Stat fs absolute") (auto simp: local_List_def)
  then obtain c node where st: "os_Stat fs absolute = Inr (c, node)" by (cases q) simp
  then obtain names m where node: "node = DirNode names m" using assms(2) r by (cases node) (auto simp: local_List_def)
  obtain es' where es': "local_items fs c cl names = Inr es'" "es = arrange es'" "cl = clean"
    using assms(2) r st node by (cases "local_items fs c cl names") (auto simp: local_List_def)
  then obtain n nd where nd: "fs (c @ [n]) = Some nd" "node_entry n (childPath clean n) nd = Some e"
    using local_items_entry assms(3,4) by blast
  obtain rc dc dnode where rc: "local_clean req = Inr clean" "absolute = absolute_path root clean" "root \<noteq> []"
    "os_Stat fs root = Inr (dc, dnode)" "is_dir dnode" "EvalSymlinks fs root = Inr rc" "within rc c"
    using r es'(3) os_Stat_Eval(1) [OF st] by (auto elim!: local_resolveE)
  obtain ns where ns: "clean = path_of ns" "\<forall>n \<in> set ns. plain n \<and> CHR 0x00 \<notin> set n \<and> CHR 0x5C \<notin> set n"
    using rc(1) by (rule local_clean_path)
  have n: "plain n" "CHR 0x00 \<notin> set n" "le_Name e = n" "le_Path e = childPath clean n" "\<not> is_link nd"
    using assms(1) nd by (auto simp: fs_ok_def node_entry_def is_link_def split: inode.splits)
  have path: "le_Path e = path_of (ns @ [n])"
    using n(4) ns path_of_eq_Root [of ns] by (auto simp: childPath_def path_of_snoc Root_def)
  have all: "\<forall>k \<in> set (ns @ [n]). plain k \<and> CHR 0x00 \<notin> set k \<and> CHR 0x5C \<notin> set k" using ns(2) n assms(5) by auto
  let ?abs = "absolute_path root (path_of (ns @ [n]))"
  have parts: "split_on (CHR ''/'') ?abs = split_on (CHR ''/'') absolute @ [n]"
    using absolute_parts(1) [of "ns @ [n]" root] absolute_parts(1) [of ns root] all rc(2) ns(1) by simp
  have w: "walks fs 40 [] (split_on (CHR ''/'') ?abs) (c @ [n])"
    unfolding parts by (rule walks_snoc [OF _ os_Stat_Eval(3) [OF st]]) (use n st nd os_Stat_Eval(2) [OF st] node in \<open>auto simp: ordinary_def plain_def\<close>)
  then have stat: "os_Stat fs ?abs = Inr (c @ [n], nd)" using nd(1) by (simp add: os_Stat_def walk_iff [THEN iffD2] os_node_def)
  have lstat: "os_Lstat fs ?abs = Inr (c @ [n], nd)"
    using os_Stat_Eval(3) [OF st] nd(1) n(1) by (simp add: os_Lstat_def parts walk_iff [THEN iffD2] os_node_def plain_def)
  have pl: "\<forall>k \<in> set (c @ [n]). plain k" using fs_ok_plain [OF assms(1), of "c @ [n]"] nd(1) by simp
  then have "prefix rc c" using rc(7) within_prefix [of c rc] by simp
  then have wi: "within rc (c @ [n])" using within_prefix [OF pl] by simp
  have ne: "trim_prefix ''/'' (path_of (ns @ [n])) \<noteq> []" using join_plain(1) [of "ns @ [n]"] all by (simp add: path_of_def trim_prefix_def)
  have "resolve_target fs rc ?abs True = Inr ()"
    using lstat os_Stat_Eval(1) [OF stat] wi n(5) by (simp add: resolve_target_def)
  then have res: "local_resolve fs root (le_Path e) = Inr (path_of (ns @ [n]), ?abs)"
    using rc(3-6) local_clean_path_of [OF all] ne by (simp add: local_resolve_def path)
  have base: "os_basename ?abs = n"
  proof (cases "ns = []")
    case True
    then show ?thesis using absolute_parts(2) [of "[n]" root] n(1) os_basename_last [OF n(1) rc(3)] by simp
  next
    case False
    then show ?thesis
      using absolute_parts(2) [of "ns @ [n]" root] all os_basename_last [OF n(1), of "root @ ''/'' @ join_with ''/'' ns"] rc(3)
      by (simp add: join_with_append)
  qed
  show ?thesis using res stat nd(2) base n(4) path by (simp add: local_Stat_def)
qed

theorem listing_leads_back_witness:
  "local_Stat sample_fs ''/mnt'' ''/docs/b.txt'' = Inr \<lparr>le_Name = ''b.txt'', le_Path = ''/docs/b.txt'', le_IsDir = False, le_Size = 3, le_ModifiedAt = 8\<rparr>"
proof -
  have l: "local_List (\<lambda>es. es) sample_fs ''/mnt'' ''docs'' =
      Inr ([\<lparr>le_Name = ''b.txt'', le_Path = ''/docs/b.txt'', le_IsDir = False, le_Size = 3, le_ModifiedAt = 8\<rparr>], ''/docs'')"
    by code_simp
  show ?thesis using listing_leads_back [OF sample_fs_ok l] by simp
qed

text \<open>A name with a backslash is listed, but refused when it is selected.\<close>

lemma backslash_is_listed:
  "let fs = (sample_fs([''srv'', ''vps'', ''docs''] \<mapsto> DirNode [''x'' @ [CHR 0x5C]] 0))([''srv'', ''vps'', ''docs'', ''x'' @ [CHR 0x5C]] \<mapsto> FileNode ''b'' 0);
       p = ''/docs/x'' @ [CHR 0x5C]
   in (case local_List (\<lambda>es. es) fs ''/mnt'' ''docs'' of Inl _ \<Rightarrow> False | Inr (es, _) \<Rightarrow> map le_Path es = [p]) \<and> local_Stat fs ''/mnt'' p = Inl LInvalidPath"
  by code_simp

end
