(* ===== verification/Remote.thy ===== *)
theory Remote
  imports UploadSafety Localfs
begin

text \<open>
  Transfers the server drives itself: \<open>internal/drive/remote.go\<close> fetches a URL, \<open>internal/drive/local.go\<close> reads a file of the
  server.  The internet is a parameter: what a name resolves to and what a server answers may differ from one moment to the
  next, and a moment passes with every lookup.  A URL is its parsed form (\<open>net/url\<close>).  Progress reports are left out.
\<close>

section \<open>Addresses\<close>

text \<open>A \<open>net.IP\<close> has 4 or 16 bytes.\<close>

type_synonym ip = "nat list"

definition To4 :: "ip \<Rightarrow> ip option" where
  "To4 ip =
     (if length ip = 4 then Some ip
      else if length ip = 16 \<and> take 10 ip = replicate 10 0 \<and> ip ! 10 = 255 \<and> ip ! 11 = 255 then Some (drop 12 ip) else None)"

definition IsLoopback :: "ip \<Rightarrow> bool" where
  "IsLoopback ip = (case To4 ip of Some v \<Rightarrow> v ! 0 = 127 | None \<Rightarrow> ip = replicate 15 0 @ [1])"

definition IsPrivate :: "ip \<Rightarrow> bool" where
  "IsPrivate ip =
     (case To4 ip of
        Some v \<Rightarrow> v ! 0 = 10 \<or> v ! 0 = 172 \<and> v ! 1 div 16 = 1 \<or> v ! 0 = 192 \<and> v ! 1 = 168
      | None \<Rightarrow> length ip = 16 \<and> ip ! 0 div 2 = 126)"

definition IsLinkLocalUnicast :: "ip \<Rightarrow> bool" where
  "IsLinkLocalUnicast ip =
     (case To4 ip of Some v \<Rightarrow> v ! 0 = 169 \<and> v ! 1 = 254 | None \<Rightarrow> length ip = 16 \<and> ip ! 0 = 254 \<and> ip ! 1 div 64 = 2)"

definition IsLinkLocalMulticast :: "ip \<Rightarrow> bool" where
  "IsLinkLocalMulticast ip =
     (case To4 ip of Some v \<Rightarrow> v ! 0 = 224 \<and> v ! 1 = 0 \<and> v ! 2 = 0 | None \<Rightarrow> length ip = 16 \<and> ip ! 0 = 255 \<and> ip ! 1 mod 16 = 2)"

definition IsUnspecified :: "ip \<Rightarrow> bool" where
  "IsUnspecified ip \<longleftrightarrow> To4 ip = Some [0, 0, 0, 0] \<or> ip = replicate 16 0"

definition IsMulticast :: "ip \<Rightarrow> bool" where
  "IsMulticast ip = (case To4 ip of Some v \<Rightarrow> v ! 0 div 16 = 14 | None \<Rightarrow> length ip = 16 \<and> ip ! 0 = 255)"

definition isPrivateIP :: "ip \<Rightarrow> bool" where
  "isPrivateIP ip \<longleftrightarrow>
     IsLoopback ip \<or> IsPrivate ip \<or> IsLinkLocalUnicast ip \<or> IsLinkLocalMulticast ip \<or> IsUnspecified ip \<or> IsMulticast ip \<or>
     (case To4 ip of Some v \<Rightarrow> v ! 0 = 100 \<and> v ! 1 \<ge> 64 \<and> v ! 1 \<le> 127 | None \<Rightarrow> False)"

section \<open>Requests\<close>

record url =
  ul_Scheme :: string
  ul_Host :: string
  ul_Path :: string
  ul_Text :: string

datatype fetch_request = HeadRequest | RangeRequest int int

text \<open>\<open>rs_Length\<close> is -1 when the server does not tell; \<open>rs_Filename\<close> is the name of a \<open>Content-Disposition\<close> that parses.\<close>

record 'b response =
  rs_Status :: int
  rs_Location :: "url option"
  rs_Length :: int
  rs_Type :: string
  rs_Filename :: string
  rs_Body :: "'b list"

record 'b net =
  nt_parse :: "string \<Rightarrow> url option"
  nt_lookup :: "nat \<Rightarrow> string \<Rightarrow> ip list option"
  nt_answer :: "nat \<Rightarrow> fetch_request \<Rightarrow> url \<Rightarrow> 'b response option"

definition validate_url :: "'b net \<Rightarrow> nat \<Rightarrow> url \<Rightarrow> drive_error + url" where
  "validate_url net t u =
     (if ul_Scheme u \<noteq> ''http'' \<and> ul_Scheme u \<noteq> ''https'' then Inl (ESource ''scheme'')
      else if ul_Host u = [] then Inl (ESource ''no host'')
      else case nt_lookup net t (ul_Host u) of
          None \<Rightarrow> Inl (ESource ''resolve'')
        | Some ips \<Rightarrow> if list_ex isPrivateIP ips then Inl (ESource ''private'') else Inr u)"

definition validateRemoteURL :: "'b net \<Rightarrow> nat \<Rightarrow> string \<Rightarrow> drive_error + url" where
  "validateRemoteURL net t raw =
     (case nt_parse net (trim_space raw) of None \<Rightarrow> Inl (ESource ''parse'') | Some u \<Rightarrow> validate_url net t u)"

text \<open>\<open>http.Client.Do\<close> with the \<open>CheckRedirect\<close> of the code and \<open>r\<close> redirects left: the answer, the addresses it may have connected
to, and the time after it.  The client resolves the name itself when it connects.\<close>

definition is_redirect :: "int \<Rightarrow> bool" where
  "is_redirect st \<longleftrightarrow> st \<in> {301, 302, 303, 307, 308}"

fun follow :: "'b net \<Rightarrow> fetch_request \<Rightarrow> nat \<Rightarrow> nat \<Rightarrow> url \<Rightarrow> (drive_error + 'b response) \<times> ip list \<times> nat" where
  "follow net rq r t u =
     (case nt_lookup net t (ul_Host u) of
        None \<Rightarrow> (Inl (ESource ''resolve''), [], Suc t)
      | Some ips \<Rightarrow>
          (case nt_answer net t rq u of
             None \<Rightarrow> (Inl (ESource ''connect''), ips, Suc t)
           | Some rs \<Rightarrow>
               (case (if is_redirect (rs_Status rs) then rs_Location rs else None) of
                  None \<Rightarrow> (Inr rs, ips, Suc t)
                | Some u' \<Rightarrow>
                    (case r of
                       0 \<Rightarrow> (Inl (ESource ''redirects''), ips, Suc t)
                     | Suc r' \<Rightarrow>
                         (case validate_url net (Suc t) u' of
                            Inl e \<Rightarrow> (Inl e, ips, Suc (Suc t))
                          | Inr _ \<Rightarrow> (case follow net rq r' (Suc (Suc t)) u' of (res, cs, t') \<Rightarrow> (res, ips @ cs, t')))))))"

definition MaxRemoteRedirects :: nat where
  "MaxRemoteRedirects = 10"

definition client_Do :: "'b net \<Rightarrow> fetch_request \<Rightarrow> nat \<Rightarrow> url \<Rightarrow> (drive_error + 'b response) \<times> ip list \<times> nat" where
  "client_Do net rq t u = follow net rq (MaxRemoteRedirects - 1) t u"

definition fetchRange :: "'b net \<Rightarrow> nat \<Rightarrow> url \<Rightarrow> int \<Rightarrow> int \<Rightarrow> (drive_error + 'b list) \<times> ip list \<times> nat" where
  "fetchRange net t u start n =
     (case client_Do net (RangeRequest start (wrap64 (wrap64 (start + n) - 1))) t u of
        (Inl e, cs, t') \<Rightarrow> (Inl e, cs, t')
      | (Inr rs, cs, t') \<Rightarrow>
          (if rs_Status rs = 206 then Inr (rs_Body rs)
           else if rs_Status rs = 200
           then (if start > 0 \<and> int (length (rs_Body rs)) < start then Inl (ESource ''skip'')
                 else Inr (take (nat n) (drop (nat start) (rs_Body rs))))
           else Inl (ESource ''status''), cs, t'))"

text \<open>\<open>path.Base\<close> and \<open>url.PathUnescape\<close>\<close>

definition path_base :: "string \<Rightarrow> string" where
  "path_base p =
     (if p = [] then ''.''
      else let s = rev (dropWhile (\<lambda>c. c = CHR ''/'') (rev p));
               b = (case last_index (CHR ''/'') s of None \<Rightarrow> s | Some i \<Rightarrow> drop (i + 1) s)
           in if b = [] then ''/'' else b)"

definition hex_digit :: "char \<Rightarrow> nat option" where
  "hex_digit c =
     (if is_digit c then Some (byte c - 48)
      else if 97 \<le> byte c \<and> byte c \<le> 102 then Some (byte c - 87)
      else if 65 \<le> byte c \<and> byte c \<le> 70 then Some (byte c - 55) else None)"

fun PathUnescape :: "string \<Rightarrow> string option" where
  "PathUnescape [] = Some []"
| "PathUnescape (c # cs) =
     (if c \<noteq> CHR ''%'' then map_option (\<lambda>r. c # r) (PathUnescape cs)
      else case cs of
          x # y # zs \<Rightarrow>
            (case (hex_digit x, hex_digit y) of
               (Some h, Some l) \<Rightarrow> map_option (\<lambda>r. char_of (16 * h + l) # r) (PathUnescape zs)
             | _ \<Rightarrow> None)
        | _ \<Rightarrow> None)"

definition remoteFilename :: "'b response \<Rightarrow> url \<Rightarrow> string" where
  "remoteFilename rs u =
     (if rs_Filename rs \<noteq> [] then path_base (rs_Filename rs)
      else let base = path_base (ul_Path u)
           in if base \<noteq> ''/'' \<and> base \<noteq> ''.'' then (case PathUnescape base of Some d \<Rightarrow> d | None \<Rightarrow> base) else ''download'')"

definition probeRemote :: "'b net \<Rightarrow> nat \<Rightarrow> url \<Rightarrow> (drive_error + int \<times> string \<times> string) \<times> ip list \<times> nat" where
  "probeRemote net t u =
     (case client_Do net HeadRequest t u of
        (Inl e, cs, t') \<Rightarrow> (Inl e, cs, t')
      | (Inr rs, cs, t') \<Rightarrow>
          (if rs_Status rs < 200 \<or> rs_Status rs \<ge> 300 then Inl (ESource ''status'')
           else Inr (rs_Length rs, remoteFilename rs u, trim_space (hd (split_on (CHR '';'') (rs_Type rs)))), cs, t'))"

section \<open>The worker\<close>

text \<open>The segments a worker still stores; the feed gives the bytes of a segment.  The second result is what the worker has written,
for the quota of the account.\<close>

type_synonym ('w, 'b) feed = "'w \<Rightarrow> int \<Rightarrow> int \<Rightarrow> (drive_error + 'b list) \<times> 'w"

fun segment_loop ::
  "('t, 'b) env \<Rightarrow> ('w, 'b) feed \<Rightarrow> string \<Rightarrow> FileRow \<Rightarrow> 'w \<Rightarrow> int \<Rightarrow> int list \<Rightarrow> ('t, 'b) drive \<Rightarrow> (drive_error + unit) \<times> int \<times> ('t, 'b) drive" where
  "segment_loop env feed jid f w written [] s = (Inr (), written, s)"
| "segment_loop env feed jid f w written (i # is) s =
     (let start = wrap64 (wrap64 (i - 1) * f_SegmentSize f); size = SegmentSize (f_Size f) (f_SegmentSize f) i
      in case feed w start size of
           (Inl e, _) \<Rightarrow> (Inl e, written, s)
         | (Inr body, w') \<Rightarrow>
             (case PutSegment env jid i body size s of
                (Inl e, s') \<Rightarrow> (Inl e, written, s')
              | (Inr _, s') \<Rightarrow> segment_loop env feed jid f w' (wrap64 (written + size)) is s'))"

definition transfer_file ::
  "('t, 'b) env \<Rightarrow> ('w, 'b) feed \<Rightarrow> UploadJob \<Rightarrow> 'w \<Rightarrow> int \<Rightarrow> ('t, 'b) drive \<Rightarrow> int \<times> ('t, 'b) drive" where
  "transfer_file env feed job w written s =
     (let failed = (\<lambda>e s. snd (abortAfterFailure env (j_ID job) e s))
      in case FileByID (j_FileID job) (dv_db s) of
           Inl e \<Rightarrow> (written, failed (EDb e) s)
         | Inr f \<Rightarrow>
             (case segment_loop env feed (j_ID job) f w written (PendingSegments job) s of
                (Inl e, n, s') \<Rightarrow> (n, failed e s')
              | (Inr _, n, s') \<Rightarrow>
                  (case Complete env (j_ID job) s' of (Inl e, s2) \<Rightarrow> (n, failed e s2) | (Inr _, s2) \<Rightarrow> (n, s2))))"

text \<open>\<open>runRemote\<close> and \<open>runLocal\<close>: what the quota is charged with, if there was a lease, and the state.  \<open>opened\<close> is what opening the
source gives then, its size and its bytes.\<close>

definition remote_feed :: "'b net \<Rightarrow> url \<Rightarrow> (nat, 'b) feed" where
  "remote_feed net u t start n = (case fetchRange net t u start n of (r, cs, t') \<Rightarrow> (r, t'))"

definition runRemote ::
  "('t, 'b) env \<Rightarrow> 'b net \<Rightarrow> nat \<Rightarrow> url \<Rightarrow> drive_error + ('t, 'b) account \<Rightarrow> UploadJob \<Rightarrow> ('t, 'b) drive \<Rightarrow> int option \<times> ('t, 'b) drive" where
  "runRemote env net t u admission job s =
     (case admission of
        Inl e \<Rightarrow> (None, snd (abortAfterFailure env (j_ID job) e s))
      | Inr account \<Rightarrow>
          (case exec (SetJobStatusIf (j_ID job) JobRunning [] [JobPending, JobRunning]) (bindUploadAccount (j_ID job) account s) of
             (Inr False, s1) \<Rightarrow> (Some (j_UploadedBytes job), unbindUploadAccount (j_ID job) s1)
           | (_, s1) \<Rightarrow>
               (case transfer_file env (remote_feed net u) job t (j_UploadedBytes job) s1 of
                  (n, s2) \<Rightarrow> (Some n, unbindUploadAccount (j_ID job) s2))))"

definition local_feed :: "'b list \<Rightarrow> (unit, 'b) feed" where
  "local_feed content w start n =
     (if start < 0 then Inl (ESource ''seek'') else Inr (take (nat n) (drop (nat start) content)), ())"

definition runLocal ::
  "('t, 'b) env \<Rightarrow> (local_error + int \<times> 'b list) \<Rightarrow> drive_error + ('t, 'b) account \<Rightarrow> UploadJob \<Rightarrow> ('t, 'b) drive \<Rightarrow> int option \<times> ('t, 'b) drive" where
  "runLocal env opened admission job s =
     (case admission of
        Inl e \<Rightarrow> (None, snd (abortAfterFailure env (j_ID job) e s))
      | Inr account \<Rightarrow>
          let s0 = bindUploadAccount (j_ID job) account s;
              failed = (\<lambda>e s. (Some 0, unbindUploadAccount (j_ID job) (snd (abortAfterFailure env (j_ID job) e s))))
          in case opened of
               Inl e \<Rightarrow> failed (ESource ''open'') s0
             | Inr (n, content) \<Rightarrow>
                 if n \<noteq> j_TotalSize job then failed (ESource ''size'') s0
                 else (case exec (SetJobStatusIf (j_ID job) JobRunning [] [JobPending, JobRunning]) s0 of
                         (Inl e, s1) \<Rightarrow> failed e s1
                       | (Inr False, s1) \<Rightarrow> (Some 0, unbindUploadAccount (j_ID job) s1)
                       | (Inr True, s1) \<Rightarrow>
                           (case transfer_file env (local_feed content) job () 0 s1 of
                              (w, s2) \<Rightarrow> (Some w, unbindUploadAccount (j_ID job) s2))))"

section \<open>Starting and resuming\<close>

text \<open>\<open>scheduleJobWorker\<close>: at most one worker for a job.\<close>

definition scheduleJobWorker :: "string \<Rightarrow> string set \<Rightarrow> bool \<times> string set" where
  "scheduleJobWorker jid runs = (if jid \<in> runs then (False, runs) else (True, insert jid runs))"

record RemoteRequest =
  rq_URL :: string
  rq_DirPath :: string
  rq_Name :: string
  rq_UserID :: string
  rq_Overwrite :: bool

definition start_remote ::
  "('t, 'b) env \<Rightarrow> RemoteRequest \<Rightarrow> url \<Rightarrow> int \<times> string \<times> string \<Rightarrow> (('t, 'b) drive, UploadJob \<times> FileRow) op" where
  "start_remote env req u info =
     (case info of (nbytes, found, ct) \<Rightarrow>
        let name = (if rq_Name req \<noteq> [] then rq_Name req else found)
        in op_bind (lift EPath (ValidateName name)) (\<lambda>_.
             if nbytes < 0 then fail (ESource ''no size'')
             else Begin env \<lparr>uq_DirPath = rq_DirPath req, uq_Name = name, uq_Size = nbytes, uq_MIME = ct, uq_UserID = rq_UserID req,
               uq_Source = ''remote'', uq_SourceURL = ul_Text u, uq_Overwrite = rq_Overwrite req\<rparr>))"

text \<open>The job and its target, and the addresses that were connected to.\<close>

definition StartRemote ::
  "('t, 'b) env \<Rightarrow> 'b net \<Rightarrow> nat \<Rightarrow> RemoteRequest \<Rightarrow> ('t, 'b) drive \<Rightarrow> (drive_error + UploadJob \<times> url) \<times> ip list \<times> nat \<times> ('t, 'b) drive" where
  "StartRemote env net t req s =
     (case validateRemoteURL net t (rq_URL req) of
        Inl e \<Rightarrow> (Inl e, [], Suc t, s)
      | Inr u \<Rightarrow>
          (case probeRemote net (Suc t) u of
             (Inl e, cs, t') \<Rightarrow> (Inl e, cs, t', s)
           | (Inr info, cs, t') \<Rightarrow>
               (case start_remote env req u info s of
                  (Inl e, s') \<Rightarrow> (Inl e, cs, t', s')
                | (Inr (job, f), s') \<Rightarrow> (Inr (job, u), cs, t', s'))))"

record LocalRequest =
  lq_SourcePath :: string
  lq_DirPath :: string
  lq_Name :: string
  lq_UserID :: string
  lq_Overwrite :: bool

definition StartLocal ::
  "('t, 'b) env \<Rightarrow> 'b fs \<Rightarrow> string \<Rightarrow> LocalRequest \<Rightarrow> (('t, 'b) drive, UploadJob \<times> string) op" where
  "StartLocal env fs root req =
     (case local_Stat fs root (lq_SourcePath req) of
        Inl _ \<Rightarrow> fail (ESource ''source'')
      | Inr e \<Rightarrow>
          if le_IsDir e then fail (ESource ''not a file'')
          else let name = (if lq_Name req = [] then le_Name e else lq_Name req)
               in op_bind (lift EPath (ValidateName name)) (\<lambda>_.
                  op_bind (Begin env \<lparr>uq_DirPath = lq_DirPath req, uq_Name = name, uq_Size = le_Size e, uq_MIME = GuessMIME env name,
                      uq_UserID = lq_UserID req, uq_Source = ''local'', uq_SourceURL = le_Path e, uq_Overwrite = lq_Overwrite req\<rparr>) (\<lambda>(job, f).
                    ret (job, le_Path e))))"

datatype worker = LocalWorker UploadJob string | RemoteWorker UploadJob url

fun resume_jobs :: "'b net \<Rightarrow> UploadJob list \<Rightarrow> string set \<Rightarrow> ('t, 'b) drive \<Rightarrow> worker list \<times> string set \<times> ('t, 'b) drive" where
  "resume_jobs net [] runs s = ([], runs, s)"
| "resume_jobs net (job # jobs) runs s =
     (let set_failed = (\<lambda>e. s\<lparr>dv_db := snd (SetJobStatus (j_ID job) JobFailed e (dv_db s))\<rparr>);
          go = (\<lambda>w. case scheduleJobWorker (j_ID job) runs of
                  (started, runs') \<Rightarrow> (case resume_jobs net jobs runs' s of (ws, r) \<Rightarrow> (if started then w # ws else ws, r)))
      in if j_Source job = ''local''
         then if j_SourceURL job = [] then resume_jobs net jobs runs (set_failed ''local source path is missing'')
              else go (LocalWorker job (j_SourceURL job))
         else case nt_parse net (j_SourceURL job) of
             None \<Rightarrow> resume_jobs net jobs runs (set_failed ''stored source URL is invalid'')
           | Some u \<Rightarrow> go (RemoteWorker job u))"

definition ResumeRemotes :: "'b net \<Rightarrow> string set \<Rightarrow> ('t, 'b) drive \<Rightarrow> worker list \<times> string set \<times> ('t, 'b) drive" where
  "ResumeRemotes net runs s = resume_jobs net (ResumableJobs (dv_db s)) runs s"

end
