(* ===== verification/RemoteProps.thy ===== *)
theory RemoteProps
  imports Remote
begin

text \<open>
  A transfer the server drives ends with the bytes of its source, from wherever it was interrupted, or with an ended job.
  Server-side fetches stay away from private addresses as long as names keep resolving to the same addresses.
\<close>

section \<open>Feeds\<close>

text \<open>A feed that delivers every part of the data it is asked for.\<close>

locale segment_feed =
  fixes feed :: "'w \<Rightarrow> int \<Rightarrow> int \<Rightarrow> (drive_error + 'b list) \<times> 'w" and data :: "'b list"
  assumes delivers: "\<lbrakk>0 \<le> start; 0 \<le> n; start + n \<le> int (length data); in64 (start + n)\<rbrakk> \<Longrightarrow>
    \<exists>w'. feed w start n = (Inr (take (nat n) (drop (nat start) data)), w')"
begin

lemma feed_piece:
  assumes seg: "0 < seg" "in64 seg" and n: "0 \<le> n" "in64 n" and i: "1 \<le> i" "i \<le> SegmentCount seg n" and data: "length data = nat n"
  shows "\<exists>w'. feed w (wrap64 (wrap64 (i - 1) * seg)) (SegmentSize n seg i) = (Inr (piece n seg data i), w')"
proof -
  note sz = SegmentSize_at [OF seg n i]
  have b: "0 \<le> (i - 1) * seg" "(i - 1) * seg \<le> n" "(i - 1) * seg + SegmentSize n seg i \<le> n"
  proof -
    show "0 \<le> (i - 1) * seg" using seg i by simp
    show "(i - 1) * seg \<le> n"
    proof (cases "n = 0")
      case True
      then have "i = 1" using i by (simp add: SegmentCount_def)
      then show ?thesis using n by simp
    qed (use sz(3) n in simp)
    show "(i - 1) * seg + SegmentSize n seg i \<le> n" using sz(1) by simp
  qed
  have "(i - 1) * 1 \<le> (i - 1) * seg" using i seg by (intro mult_left_mono) simp_all
  then have "in64 (i - 1)" "in64 ((i - 1) * seg)" "in64 ((i - 1) * seg + SegmentSize n seg i)" using b n i sz(2) by (auto simp: in64_def)
  then have "wrap64 (wrap64 (i - 1) * seg) = (i - 1) * seg" "in64 ((i - 1) * seg + SegmentSize n seg i)" by simp_all
  then show ?thesis using delivers [of "(i - 1) * seg" "SegmentSize n seg i" w] b sz(2) data n by (simp add: piece_def)
qed

lemma loop_lands:
  assumes hook: "hk_segment (en_hooks env) = Inr"
    and seg: "0 < f_SegmentSize f" "in64 (f_SegmentSize f)" and n: "0 \<le> f_Size f" "in64 (f_Size f)"
    and count: "f_SegmentCount f = SegmentCount (f_SegmentSize f) (f_Size f)" "in64 (f_SegmentCount f)"
    and tag: "taggable f" and data: "length data = nat (f_Size f)" and a: "stores docs a" "willing a"
  shows "\<lbrakk>landed docs jid f (piece (f_Size f) (f_SegmentSize f) data) S s; S \<subseteq> {1 .. f_SegmentCount f};
    is \<noteq> [] \<Longrightarrow> open_job jid (dv_db s); channelFor (f_ChannelID f) (dv_db s) = Inr ch; uploadJobAccount jid s = Some a;
    distinct is; set is \<subseteq> {1 .. f_SegmentCount f} - S\<rbrakk> \<Longrightarrow>
    \<exists>s'. segment_loop env feed jid f w written is s =
        (Inr (), fold (\<lambda>i k. wrap64 (k + SegmentSize (f_Size f) (f_SegmentSize f) i)) is written, s') \<and>
      landed docs jid f (piece (f_Size f) (f_SegmentSize f) data) (S \<union> set is) s' \<and> upload_frame s s'"
proof (induction "is" arbitrary: w written s S)
  case Nil
  then show ?case by (simp add: upload_frame_refl)
next
  case (Cons i "is")
  let ?part = "piece (f_Size f) (f_SegmentSize f) data" and ?c = "f_SegmentCount f"
  let ?sz = "SegmentSize (f_Size f) (f_SegmentSize f) i"
  have i: "1 \<le> i" "i \<le> ?c" "i \<notin> S" using Cons.prems(7) by auto
  have i': "i \<le> SegmentCount (f_SegmentSize f) (f_Size f)" using i(2) count(1) by simp
  have len: "int (length (?part i)) = ?sz" by (rule length_piece [OF seg n i(1) i' data])
  have o: "open_job jid (dv_db s)" by (rule Cons.prems(3)) simp
  obtain w' where fd: "feed w (wrap64 (wrap64 (i - 1) * f_SegmentSize f)) ?sz = (Inr (?part i), w')"
    using feed_piece [OF seg n i(1) i' data] by blast
  obtain s1 where 1: "put_segment env jid i (?part i) ?sz s = (Inr (), s1)"
    and o1: "insert i S \<noteq> {1 .. ?c} \<longrightarrow> open_job jid (dv_db s1)"
    using put_segment_succeeds [OF Cons.prems(1,2) o Cons.prems(5) a Cons.prems(4) tag seg n count i(1,2) len] by blast
  have e: "f_Size f = 0 \<longrightarrow> ?part i = []" using data by (simp add: piece_def)
  have L: "landed docs jid f ?part (insert i S) s1" "upload_frame s s1"
    using put_segment_lands [OF Cons.prems(1,5) a(1) refl e 1] by simp_all
  have "\<exists>s'. segment_loop env feed jid f w' (wrap64 (written + ?sz)) is s1 =
      (Inr (), fold (\<lambda>i k. wrap64 (k + SegmentSize (f_Size f) (f_SegmentSize f) i)) is (wrap64 (written + ?sz)), s') \<and>
    landed docs jid f ?part (insert i S \<union> set is) s' \<and> upload_frame s1 s'"
  proof (rule Cons.IH [OF L(1)])
    show "open_job jid (dv_db s1)" if ne: "is \<noteq> []"
    proof -
      obtain k where "k \<in> set is" using ne by (cases "is") auto
      then have "k \<notin> insert i S" "k \<in> {1 .. ?c}" using Cons.prems(6,7) by auto
      then show ?thesis using o1 by blast
    qed
    show "channelFor (f_ChannelID f) (dv_db s1) = Inr ch"
      using L(2) Cons.prems(4) unfolding upload_frame_def by (metis channelFor_cong)
    show "uploadJobAccount jid s1 = Some a" using L(2) Cons.prems(5) frame_account by metis
  qed (use Cons.prems(2,6,7) i in auto)
  then obtain s' where s': "segment_loop env feed jid f w' (wrap64 (written + ?sz)) is s1 =
      (Inr (), fold (\<lambda>i k. wrap64 (k + SegmentSize (f_Size f) (f_SegmentSize f) i)) is (wrap64 (written + ?sz)), s')"
    "landed docs jid f ?part (insert i S \<union> set is) s'" "upload_frame s1 s'" by blast
  then have "segment_loop env feed jid f w written (i # is) s =
      (Inr (), fold (\<lambda>i k. wrap64 (k + SegmentSize (f_Size f) (f_SegmentSize f) i)) (i # is) written, s')"
    using fd 1 by (simp add: Let_def PutSegment_eq [OF hook])
  then show ?case using s'(2) upload_frame_trans [OF L(2) s'(3)] by auto
qed

text \<open>The worker of a job some of whose segments are stored stores the others, and only them, and completes the file.\<close>

lemma transfer_completes:
  assumes L: "landed docs (j_ID job) f (piece (f_Size f) (f_SegmentSize f) data) S s" and S: "S \<subseteq> {1 .. f_SegmentCount f}"
    and job: "JobByID (j_ID job) (dv_db s) = Inr j1" "j_DoneMask j1 = j_DoneMask job" "j_FileID j1 = j_FileID job"
      "j_SegmentCount j1 = j_SegmentCount job"
    and o: "open_job (j_ID job) (dv_db s)" and acc: "uploadJobAccount (j_ID job) s = Some a"
    and ch: "channelFor (f_ChannelID f) (dv_db s) = Inr ch"
    and hook: "en_hooks env = no_hooks"
    and seg: "0 < f_SegmentSize f" "in64 (f_SegmentSize f)" and n: "0 \<le> f_Size f" "in64 (f_Size f)"
    and count: "f_SegmentCount f = SegmentCount (f_SegmentSize f) (f_Size f)" "in64 (f_SegmentCount f)"
    and tag: "taggable f" and data: "length data = nat (f_Size f)" and a: "stores docs a" "willing a"
  shows "\<exists>f' s'. transfer_file env feed job w written s =
      (fold (\<lambda>i k. wrap64 (k + SegmentSize (f_Size f) (f_SegmentSize f) i)) (PendingSegments job) written, s') \<and>
    file_stored docs f' data s' \<and> f_ID f' = f_ID f"
proof -
  have hooks: "hk_segment (en_hooks env) = Inr" "hk_path (en_hooks env) nm p = Inr p" for nm p
    by (simp_all add: hook no_hooks_def)
  have row: "FileByID (j_FileID job) (dv_db s) = Inr f" and cnt: "j_SegmentCount job = f_SegmentCount f"
    and mask: "MaskHas (j_DoneMask job) k \<longleftrightarrow> k \<in> S" for k
    using L job unfolding landed_def by auto
  have pend: "distinct (PendingSegments job)" "set (PendingSegments job) = {1 .. f_SegmentCount f} - S"
    by (auto simp: PendingSegments_def cnt mask)
  obtain s1 where s1: "segment_loop env feed (j_ID job) f w written (PendingSegments job) s =
      (Inr (), fold (\<lambda>i k. wrap64 (k + SegmentSize (f_Size f) (f_SegmentSize f) i)) (PendingSegments job) written, s1)"
    "landed docs (j_ID job) f (piece (f_Size f) (f_SegmentSize f) data) (S \<union> set (PendingSegments job)) s1"
    using loop_lands [OF hooks(1) seg n count tag data a L S o ch acc pend(1)] pend(2) by blast
  have full: "S \<union> set (PendingSegments job) = {1 .. f_SegmentCount f}" using pend(2) S by auto
  have L2: "landed docs (j_ID job) f (piece (f_Size f) (f_SegmentSize f) data) {1 .. f_SegmentCount f} s1" using s1(2) full by simp
  obtain f' s2 where co: "Complete env (j_ID job) s1 = (Inr f', s2)" using Complete_succeeds [OF L2 hooks(2)] by blast
  note st = Complete_stores [OF L2 order_refl hooks(2) co]
  have "concat (map (piece (f_Size f) (f_SegmentSize f) data) [1 .. f_SegmentCount f]) = data"
    using pieces_tile [OF seg n data] count(1) by simp
  then have "file_stored docs f' data s2" using st(1) by simp
  moreover have "f_ID f' = f_ID f" using st(2) by auto
  ultimately show ?thesis using row s1(1) co by (auto simp: transfer_file_def)
qed

end

interpretation local_source: segment_feed "local_feed content" content for content
  by unfold_locales (simp add: local_feed_def)

text \<open>A server that has the data: it answers a range with it, or with the whole if it does not know ranges.\<close>

definition has_data :: "'b net \<Rightarrow> url \<Rightarrow> 'b list \<Rightarrow> bool" where
  "has_data net u data \<longleftrightarrow>
     (\<forall>t a b. \<exists>rs cs t'. client_Do net (RangeRequest a b) t u = (Inr rs, cs, t') \<and>
        (rs_Status rs = 200 \<and> rs_Body rs = data \<or>
         rs_Status rs = 206 \<and> 0 \<le> a \<and> a \<le> b \<and> b < int (length data) \<and> rs_Body rs = take (nat (b - a + 1)) (drop (nat a) data)))"

lemma remote_source: "has_data net u data \<Longrightarrow> segment_feed (remote_feed net u) data"
proof
  fix start n w
  assume h: "has_data net u data" and r: "0 \<le> start" "0 \<le> n" "start + n \<le> int (length data)" "in64 (start + n)"
  have "wrap64 (wrap64 (start + n) - 1) = start + n - 1" using r by (auto simp: in64_def intro!: wrap64_id)
  moreover obtain rs cs t' where "client_Do net (RangeRequest start (start + n - 1)) w u = (Inr rs, cs, t')"
    "rs_Status rs = 200 \<and> rs_Body rs = data \<or> rs_Status rs = 206 \<and> rs_Body rs = take (nat (start + n - 1 - start + 1)) (drop (nat start) data)"
    using h unfolding has_data_def by metis
  ultimately show "\<exists>w'. remote_feed net u w start n = (Inr (take (nat n) (drop (nat start) data)), w')"
    using r by (auto simp: remote_feed_def fetchRange_def)
qed

section \<open>Resuming\<close>

lemma length_concat_int: "int (length (concat xss)) = sum_list (map (\<lambda>xs. int (length xs)) xss)"
  by (induction xss) simp_all

lemma sum_pieces:
  assumes "0 < seg" "in64 seg" "0 \<le> n" "in64 n"
  shows "(\<Sum>i \<in> {1 .. SegmentCount seg n}. SegmentSize n seg i) = n"
proof -
  let ?bs = "replicate (nat n) ()"
  have "n = sum_list (map (\<lambda>xs. int (length xs)) (map (piece n seg ?bs) [1 .. SegmentCount seg n]))"
    unfolding length_concat_int [symmetric] using pieces_tile [OF assms, of ?bs] assms(3) by simp
  also have "\<dots> = sum_list (map (\<lambda>i. SegmentSize n seg i) [1 .. SegmentCount seg n])"
    unfolding map_map by (rule arg_cong [of _ _ sum_list], rule map_cong) (use length_piece [OF assms, of _ ?bs] in auto)
  finally show ?thesis by (simp add: sum_list_distinct_conv_sum_set)
qed

lemma wrap64_add: "wrap64 (wrap64 x + y) = wrap64 (x + y)"
proof -
  have 1: "wrap64 x + y + 2 ^ 63 = (x + 2 ^ 63) mod 2 ^ 64 + y" and 2: "x + 2 ^ 63 + y = x + y + 2 ^ 63" by (simp_all add: wrap64_def)
  show ?thesis unfolding wrap64_def [of "wrap64 x + y"] wrap64_def [of "x + y"] 1 mod_add_left_eq 2 ..
qed

lemma charged:
  assumes "in64 k"
  shows "fold (\<lambda>i k. wrap64 (k + g i)) is k = wrap64 (k + sum_list (map g is))"
  using assms
proof (induction "is" arbitrary: k)
  case (Cons i "is")
  have "in64 (wrap64 (k + g i))" by simp
  then show ?case using Cons.IH [of "wrap64 (k + g i)"] wrap64_add [of "k + g i" "sum_list (map g is)"] by (simp add: add.assoc)
qed simp


lemma exec_Inr: "q (dv_db s) = (Inr x, d) \<Longrightarrow> exec q s = (Inr x, s\<lparr>dv_db := d\<rparr>)"
  by (simp add: exec_eq)

lemma bound_run:
  assumes "landed docs jid f part S s" and "open_job jid (dv_db s)" and "JobByID jid (dv_db s) = Inr job"
    and "jid \<noteq> []" and "map_of (dv_uploadJobs s) jid = None" and "channelFor (f_ChannelID f) (dv_db s) = Inr ch"
  obtains s1 j1 where "exec (SetJobStatusIf jid JobRunning [] [JobPending, JobRunning]) (bindUploadAccount jid a s) = (Inr True, s1)"
    "landed docs jid f part S s1" "JobByID jid (dv_db s1) = Inr j1" "j_DoneMask j1 = j_DoneMask job" "j_FileID j1 = j_FileID job"
    "j_SegmentCount j1 = j_SegmentCount job" "open_job jid (dv_db s1)" "uploadJobAccount jid s1 = Some a"
    "channelFor (f_ChannelID f) (dv_db s1) = Inr ch"
proof -
  let ?s0 = "bindUploadAccount jid a s"
  let ?d1 = "snd (SetJobStatusIf jid JobRunning [] [JobPending, JobRunning] (dv_db ?s0))"
  have db: "dv_db ?s0 = dv_db s" "dv_tg ?s0 = dv_tg s" by (simp_all add: bindUploadAccount_def)
  have st: "j_Status job = JobPending \<or> j_Status job = JobRunning" using assms(2,3) by (simp add: open_job_def)
  have jm: "job \<in> set (db_jobs (dv_db s))" "j_ID job = jid" using assms(3) query_row_Some unfolding JobByID_def by fast+
  have "SetJobStatusIf jid JobRunning [] [JobPending, JobRunning] (dv_db ?s0) = (Inr True, ?d1)"
    using jm st db by (auto simp: SetJobStatusIf_def Let_def list_ex_iff)
  then have 1: "exec (SetJobStatusIf jid JobRunning [] [JobPending, JobRunning]) ?s0 = (Inr True, ?s0\<lparr>dv_db := ?d1\<rparr>)" by (rule exec_Inr)
  have "landed docs jid f part S ?s0" using assms(1) db unfolding landed_def by simp
  then have 2: "landed docs jid f part S (?s0\<lparr>dv_db := ?d1\<rparr>)" by (rule started_landed)
  let ?j1 = "jobStatusUpdate (db_now (dv_db s)) JobRunning [] job"
  have 3: "JobByID jid ?d1 = Inr ?j1"
    using JobByID_started [of jid jid JobRunning "[]" "[JobPending, JobRunning]" "dv_db s"] assms(3) st jm(2) db by auto
  have "db_channels ?d1 = db_channels (dv_db s)" using SetJobStatusIf_frame [OF refl] db by metis
  then have ch: "channelFor (f_ChannelID f) ?d1 = Inr ch" using assms(6) channelFor_cong by metis
  have acc: "uploadJobAccount jid (?s0\<lparr>dv_db := ?d1\<rparr>) = Some a"
    using assms(4,5) by (simp add: uploadJobAccount_def bindUploadAccount_def update_conv')
  show thesis
    by (rule that [OF 1 2, of ?j1]) (use 3 ch acc in \<open>simp_all add: open_job_def jobStatusUpdate_def\<close>)
qed

lemma charge_rest:
  assumes "landed docs (j_ID job) f part S s" and "S \<subseteq> {1 .. f_SegmentCount f}" and "JobByID (j_ID job) (dv_db s) = Inr job"
    and seg: "0 < f_SegmentSize f" "in64 (f_SegmentSize f)" and n: "0 \<le> f_Size f" "in64 (f_Size f)"
    and count: "f_SegmentCount f = SegmentCount (f_SegmentSize f) (f_Size f)"
    and k: "in64 k"
  shows "fold (\<lambda>i k. wrap64 (k + SegmentSize (f_Size f) (f_SegmentSize f) i)) (PendingSegments job) k =
    wrap64 (k + f_Size f - (\<Sum>i \<in> S. SegmentSize (f_Size f) (f_SegmentSize f) i))"
proof -
  let ?g = "SegmentSize (f_Size f) (f_SegmentSize f)"
  have cnt: "j_SegmentCount job = f_SegmentCount f" and mask: "MaskHas (j_DoneMask job) i \<longleftrightarrow> i \<in> S" for i
    using assms(1,3) unfolding landed_def by auto
  have pend: "distinct (PendingSegments job)" "set (PendingSegments job) = {1 .. f_SegmentCount f} - S"
    by (auto simp: PendingSegments_def cnt mask)
  have "sum_list (map ?g (PendingSegments job)) = sum ?g ({1 .. f_SegmentCount f} - S)"
    using pend by (simp add: sum_list_distinct_conv_sum_set)
  also have "\<dots> = f_Size f - sum ?g S"
    using sum_diff [of "{1 .. f_SegmentCount f}" S ?g] assms(2) sum_pieces [OF seg n] count by simp
  finally have e: "sum_list (map ?g (PendingSegments job)) = f_Size f - sum ?g S" .
  show ?thesis unfolding charged [OF k] e by (simp add: algebra_simps)
qed

text \<open>What a state after an interruption holds: the row of the file, a job that still runs, and of the segments in \<open>S\<close> the documents
with their part of the data.\<close>

definition interrupted ::
  "('t \<Rightarrow> (string \<times> int) \<Rightarrow> 'b list option) \<Rightarrow> UploadJob \<Rightarrow> FileRow \<Rightarrow> 'b list \<Rightarrow> int set \<Rightarrow> ('t, 'b) drive \<Rightarrow> bool" where
  "interrupted docs job f data S s \<longleftrightarrow>
     landed docs (j_ID job) f (piece (f_Size f) (f_SegmentSize f) data) S s \<and> S \<subseteq> {1 .. f_SegmentCount f} \<and>
     JobByID (j_ID job) (dv_db s) = Inr job \<and> open_job (j_ID job) (dv_db s) \<and> j_ID job \<noteq> [] \<and>
     map_of (dv_uploadJobs s) (j_ID job) = None \<and> (\<exists>ch. channelFor (f_ChannelID f) (dv_db s) = Inr ch) \<and>
     0 < f_SegmentSize f \<and> in64 (f_SegmentSize f) \<and> 0 \<le> f_Size f \<and> in64 (f_Size f) \<and>
     f_SegmentCount f = SegmentCount (f_SegmentSize f) (f_Size f) \<and> taggable f \<and> length data = nat (f_Size f) \<and>
     j_UploadedBytes job = (\<Sum>i \<in> S. SegmentSize (f_Size f) (f_SegmentSize f) i) \<and> in64 (j_UploadedBytes job)"

lemma interruptedD:
  assumes "interrupted docs job f data S s"
  shows "landed docs (j_ID job) f (piece (f_Size f) (f_SegmentSize f) data) S s" "S \<subseteq> {1 .. f_SegmentCount f}"
    "JobByID (j_ID job) (dv_db s) = Inr job" "open_job (j_ID job) (dv_db s)" "j_ID job \<noteq> []"
    "map_of (dv_uploadJobs s) (j_ID job) = None" "\<exists>ch. channelFor (f_ChannelID f) (dv_db s) = Inr ch"
    "0 < f_SegmentSize f" "in64 (f_SegmentSize f)" "0 \<le> f_Size f" "in64 (f_Size f)"
    "f_SegmentCount f = SegmentCount (f_SegmentSize f) (f_Size f)" "taggable f" "length data = nat (f_Size f)"
    "j_UploadedBytes job = (\<Sum>i \<in> S. SegmentSize (f_Size f) (f_SegmentSize f) i)" "in64 (j_UploadedBytes job)"
    "in64 (f_SegmentCount f)"
proof -
  show "in64 (f_SegmentCount f)" using assms SegmentCount_in64 unfolding interrupted_def by metis
qed (use assms in \<open>unfold interrupted_def, blast\<close>)+

lemma unbound_stored: "file_stored docs f data (unbindUploadAccount jid s) = file_stored docs f data s"
  by (simp add: file_stored_def unbindUploadAccount_def)

text \<open>C31: a server-side fetch that was interrupted after any of its segments were stored is resumed to its end by its worker, on an
account whose calls succeed and from a server that still has the data, whether it answers ranges or only the whole: the file is
complete with exactly the bytes of the server, and the quota of the account is charged with its size.\<close>

theorem remote_resumes:
  assumes "interrupted docs job f data S s" and "has_data net u data" and "en_hooks env = no_hooks" and "stores docs a" and "willing a"
  shows "\<exists>f' s'. runRemote env net t u (Inr a) job s = (Some (f_Size f), s') \<and> file_stored docs f' data s' \<and> f_ID f' = f_ID f"
proof -
  note i = interruptedD [OF assms(1)]
  obtain ch where ch: "channelFor (f_ChannelID f) (dv_db s) = Inr ch" using i(7) by blast
  obtain s1 j1 where 1: "exec (SetJobStatusIf (j_ID job) JobRunning [] [JobPending, JobRunning]) (bindUploadAccount (j_ID job) a s) = (Inr True, s1)"
    and L: "landed docs (j_ID job) f (piece (f_Size f) (f_SegmentSize f) data) S s1"
    and j1: "JobByID (j_ID job) (dv_db s1) = Inr j1" "j_DoneMask j1 = j_DoneMask job" "j_FileID j1 = j_FileID job" "j_SegmentCount j1 = j_SegmentCount job"
    and o: "open_job (j_ID job) (dv_db s1)" "uploadJobAccount (j_ID job) s1 = Some a" "channelFor (f_ChannelID f) (dv_db s1) = Inr ch"
    by (rule bound_run [OF i(1,4,3,5,6) ch])
  obtain f' s2 where run: "transfer_file env (remote_feed net u) job t (j_UploadedBytes job) s1 =
      (fold (\<lambda>i k. wrap64 (k + SegmentSize (f_Size f) (f_SegmentSize f) i)) (PendingSegments job) (j_UploadedBytes job), s2)"
    "file_stored docs f' data s2" "f_ID f' = f_ID f"
    using segment_feed.transfer_completes [OF remote_source [OF assms(2)] L i(2) j1 o(1,2,3) assms(3) i(8-12,17,13,14) assms(4,5)] by blast
  have "fold (\<lambda>i k. wrap64 (k + SegmentSize (f_Size f) (f_SegmentSize f) i)) (PendingSegments job) (j_UploadedBytes job) =
      wrap64 (j_UploadedBytes job + f_Size f - (\<Sum>i \<in> S. SegmentSize (f_Size f) (f_SegmentSize f) i))"
    by (rule charge_rest [OF i(1-3,8-12,16)])
  then have "fold (\<lambda>i k. wrap64 (k + SegmentSize (f_Size f) (f_SegmentSize f) i)) (PendingSegments job) (j_UploadedBytes job) = f_Size f"
    using i(11) by (simp add: i(15) [symmetric])
  then show ?thesis using 1 run by (auto simp: runRemote_def unbound_stored)
qed

text \<open>A transfer from a file of the server is resumed the same way, but its quota is charged only with what was stored after the
interruption.\<close>

lemma local_resumes:
  assumes "interrupted docs job f data S s" and "en_hooks env = no_hooks" and "stores docs a" and "willing a" and "j_TotalSize job = f_Size f"
  shows "\<exists>f' s'. runLocal env (Inr (f_Size f, data)) (Inr a) job s = (Some (f_Size f - j_UploadedBytes job), s') \<and>
    file_stored docs f' data s' \<and> f_ID f' = f_ID f"
proof -
  note i = interruptedD [OF assms(1)]
  obtain ch where ch: "channelFor (f_ChannelID f) (dv_db s) = Inr ch" using i(7) by blast
  obtain s1 j1 where 1: "exec (SetJobStatusIf (j_ID job) JobRunning [] [JobPending, JobRunning]) (bindUploadAccount (j_ID job) a s) = (Inr True, s1)"
    and L: "landed docs (j_ID job) f (piece (f_Size f) (f_SegmentSize f) data) S s1"
    and j1: "JobByID (j_ID job) (dv_db s1) = Inr j1" "j_DoneMask j1 = j_DoneMask job" "j_FileID j1 = j_FileID job" "j_SegmentCount j1 = j_SegmentCount job"
    and o: "open_job (j_ID job) (dv_db s1)" "uploadJobAccount (j_ID job) s1 = Some a" "channelFor (f_ChannelID f) (dv_db s1) = Inr ch"
    by (rule bound_run [OF i(1,4,3,5,6) ch])
  obtain f' s2 where run: "transfer_file env (local_feed data) job () 0 s1 =
      (fold (\<lambda>i k. wrap64 (k + SegmentSize (f_Size f) (f_SegmentSize f) i)) (PendingSegments job) 0, s2)"
    "file_stored docs f' data s2" "f_ID f' = f_ID f"
    using local_source.transfer_completes [OF L i(2) j1 o(1,2,3) assms(2) i(8-12,17,13,14) assms(3,4)] by blast
  have sub: "0 \<le> j_UploadedBytes job" "j_UploadedBytes job \<le> f_Size f"
  proof -
    have nn: "0 \<le> SegmentSize (f_Size f) (f_SegmentSize f) k" if "k \<in> {1 .. f_SegmentCount f}" for k
      using SegmentSize_at(2) [OF i(8-11), of k] that i(12) by simp
    then show "0 \<le> j_UploadedBytes job" unfolding i(15) using i(2) by (intro sum_nonneg) blast
    have "(\<Sum>i \<in> S. SegmentSize (f_Size f) (f_SegmentSize f) i) \<le> (\<Sum>i \<in> {1 .. f_SegmentCount f}. SegmentSize (f_Size f) (f_SegmentSize f) i)"
      using i(2) nn by (intro sum_mono2) auto
    then show "j_UploadedBytes job \<le> f_Size f" unfolding i(15) using sum_pieces [OF i(8-11)] i(12) by simp
  qed
  then have "in64 (f_Size f - j_UploadedBytes job)" using i(11) by (auto simp: in64_def)
  moreover have "fold (\<lambda>i k. wrap64 (k + SegmentSize (f_Size f) (f_SegmentSize f) i)) (PendingSegments job) 0 =
      wrap64 (0 + f_Size f - (\<Sum>i \<in> S. SegmentSize (f_Size f) (f_SegmentSize f) i))"
    by (rule charge_rest [OF i(1-3,8-12)]) (simp add: in64_def)
  ultimately have "fold (\<lambda>i k. wrap64 (k + SegmentSize (f_Size f) (f_SegmentSize f) i)) (PendingSegments job) 0 = f_Size f - j_UploadedBytes job"
    by (simp add: i(15) [symmetric])
  then show ?thesis using 1 run assms(5) by (auto simp: runLocal_def unbound_stored Let_def)
qed

section \<open>Every outcome\<close>

definition known_job :: "string \<Rightarrow> db \<Rightarrow> bool" where
  "known_job jid d \<longleftrightarrow> index_inv d \<and> jid \<in> j_ID ` set (db_jobs d)"

definition ended_job :: "string \<Rightarrow> db \<Rightarrow> bool" where
  "ended_job jid d \<longleftrightarrow> index_inv d \<and> (\<exists>j. JobByID jid d = Inr j \<and> Terminal (j_Status j))"

lemma JobByID_known: "jid \<in> j_ID ` set (db_jobs d) \<longleftrightarrow> (\<exists>j. JobByID jid d = Inr j)"
proof
  assume "jid \<in> j_ID ` set (db_jobs d)"
  then show "\<exists>j. JobByID jid d = Inr j"
    unfolding JobByID_def by (cases "query_row (\<lambda>j. j_ID j = jid) (db_jobs d)") (auto simp: query_row_Inl)
qed (auto simp: JobByID_def dest!: query_row_Some)

lemma with_job_ids: "(\<And>j. j_ID (g j) = j_ID j) \<Longrightarrow> j_ID ` set (db_jobs (with_job k g d)) = j_ID ` set (db_jobs d)"
  by (simp add: with_job_def map_update_where flip: set_map)

lemma known_cong: "\<lbrakk>db_dirs d' = db_dirs d; db_files d' = db_files d; db_segments d' = db_segments d; j_ID ` set (db_jobs d') = j_ID ` set (db_jobs d)\<rbrakk> \<Longrightarrow>
  known_job jid d' = known_job jid d"
  by (simp add: known_job_def index_inv_cong [of d' d])

lemma known_statements:
  "known_job jid d \<Longrightarrow> known_job jid (snd (SetJobStatusIf k st e allowed d))"
  "known_job jid d \<Longrightarrow> known_job jid (snd (SetJobStatus k st e d))"
  "known_job jid d \<Longrightarrow> known_job jid (snd (MarkSegmentDone k i n d))"
  "known_job jid d \<Longrightarrow> known_job jid (snd (UpsertSegment g d))"
  "known_job jid d \<Longrightarrow> known_job jid (snd (UpdateFileStatus fid fs d))"
proof -
  show "known_job jid d \<Longrightarrow> known_job jid (snd (SetJobStatus k st e d))"
    using known_cong [of "snd (SetJobStatus k st e d)" d jid] with_job_ids [of "jobStatusUpdate (db_now d) st e" k d]
    by (simp add: SetJobStatus_def with_job_def)
  have "j_ID ` set (update_where P (jobStatusUpdate t st e) js) = j_ID ` set js" for P t and js :: "UploadJob list"
    by (simp add: map_update_where flip: set_map)
  then show "known_job jid d \<Longrightarrow> known_job jid (snd (SetJobStatusIf k st e allowed d))"
    using known_cong [of "snd (SetJobStatusIf k st e allowed d)" d jid] by (simp add: SetJobStatusIf_def Let_def split: if_splits)
  show "known_job jid d \<Longrightarrow> known_job jid (snd (MarkSegmentDone k i n d))"
    using known_cong [of "with_job k (mark_row (db_now d) i n) d" d jid] with_job_ids [of "mark_row (db_now d) i n" k d]
    by (auto simp: MarkSegmentDone_def Tx_def with_job_def Let_def split: sum.splits)
  show "known_job jid d \<Longrightarrow> known_job jid (snd (UpsertSegment g d))"
    using UpsertSegment_inv [of d g] by (auto simp: known_job_def UpsertSegment_def Let_def split: if_splits)
  show "known_job jid d \<Longrightarrow> known_job jid (snd (UpdateFileStatus fid fs d))"
    using UpdateFileStatus_inv [of d fid fs] by (simp add: known_job_def UpdateFileStatus_def with_file_def)
qed

lemma known_uploadSegment: "keeps (\<lambda>s. known_job jid (dv_db s)) (uploadSegment env a f ch i body nb)"
proof -
  have "keeps (\<lambda>s. dv_db s = d) (uploadSegment env a f ch i body nb)" for d
    unfolding uploadSegment_def by (intro db_intros)
  then show ?thesis by (rule keeps_db_inv)
qed

lemma known_put: "keeps (\<lambda>s. known_job jid (dv_db s)) (put_segment env k i body nb)"
proof -
  have "keeps (\<lambda>s. known_job jid (dv_db s)) (store_segment env k f ch a i body nb)" for f ch a
    unfolding store_segment_def
    by (intro keeps_bind keeps_if keeps_basic known_uploadSegment exec_keeps known_statements)
  moreover have "keeps (\<lambda>s. known_job jid (dv_db s)) (segment_account env k)"
  proof (rule tripleI)
    have "segment_account env k s = (r, s') \<Longrightarrow> s' = s" for s r s'
      by (auto simp: segment_account_def metaAccount_def ret_def fail_def split: option.splits list.splits if_splits)
    then show "segment_account env k s = (Inl e, s') \<Longrightarrow> known_job jid (dv_db s) \<Longrightarrow> known_job jid (dv_db s')"
      "segment_account env k s = (Inr x, s') \<Longrightarrow> known_job jid (dv_db s) \<Longrightarrow> known_job jid (dv_db s')" for s e x s' by metis+
  qed
  ultimately show ?thesis
    unfolding put_segment_def by (intro keeps_bind keeps_if keeps_basic)
qed

lemma release_db: "dv_db (ReleaseUploadJob k s) = dv_db s"
  by (simp add: ReleaseUploadJob_def split: option.split)

lemma known_complete: "keeps (\<lambda>s. known_job jid (dv_db s)) (Complete env k)"
proof -
  have "keeps (\<lambda>s. known_job jid (dv_db s)) (\<lambda>s. (Inr (), ReleaseUploadJob k' s))" for k'
    by (rule tripleI) (auto simp: release_db)
  then show ?thesis
    unfolding Complete_def before_path_def
    by (intro keeps_bind keeps_if keeps_basic exec_keeps known_statements)
qed

lemma known_PutSegment: "known_job jid (dv_db s) \<Longrightarrow> PutSegment env k i body nb s = (r, s') \<Longrightarrow> known_job jid (dv_db s')"
proof (cases "hk_segment (en_hooks env) (k, i, nb)")
  case (Inr q)
  obtain k' i' n' where q: "q = (k', i', n')" using prod_cases3 by blast
  assume k: "known_job jid (dv_db s)" and "PutSegment env k i body nb s = (r, s')"
  then have "put_segment env k' i' body n' s = (r, s')" using Inr q by (simp add: PutSegment_def op_bind_def ret_def)
  then show ?thesis using keepsD [OF known_put] k by (metis snd_conv)
qed (simp add: PutSegment_def op_bind_def fail_def)

lemma known_loop:
  "\<lbrakk>known_job jid (dv_db s); segment_loop env feed k f w n is s = (r, n', s')\<rbrakk> \<Longrightarrow> known_job jid (dv_db s')"
proof (induction "is" arbitrary: w n s)
  case (Cons i "is")
  let ?sz = "SegmentSize (f_Size f) (f_SegmentSize f) i"
  obtain fr w' where fd: "feed w (wrap64 (wrap64 (i - 1) * f_SegmentSize f)) ?sz = (fr, w')" by fastforce
  show ?case
  proof (cases fr)
    case (Inl e)
    then show ?thesis using Cons.prems fd by (simp add: Let_def)
  next
    case (Inr body)
    obtain pr s1 where p: "PutSegment env k i body ?sz s = (pr, s1)" by fastforce
    have "known_job jid (dv_db s1)" by (rule known_PutSegment [OF Cons.prems(1) p])
    then show ?thesis using Cons Inr fd p by (cases pr) (simp_all add: Let_def)
  qed
qed simp

text \<open>The plugins that may be asked let the job end: the hook of the abort passes the job on, to a status an abort may have, and the hook
of the completion does not pass on another job.  It may refuse; what the hook of a segment does is left open.\<close>

definition lets_end :: "('t, 'b) env \<Rightarrow> string \<Rightarrow> bool" where
  "lets_end env jid \<longleftrightarrow>
     (\<forall>reason. \<exists>reason' st. hk_abort (en_hooks env) (jid, reason, JobFailed) = Inr (jid, reason', st) \<and> (st = JobFailed \<or> st = JobCancelled)) \<and>
     (\<forall>p. hk_path (en_hooks env) ''files.completeUpload'' jid = Inr p \<longrightarrow> p = jid)"

lemma aborted_ends:
  assumes "honest_env live env" and "lets_end env jid" and k: "known_job jid (dv_db s)"
  shows "ended_job jid (dv_db (snd (abortAfterFailure env jid e s)))"
proof -
  obtain job where job: "JobByID jid (dv_db s) = Inr job" and inv: "index_inv (dv_db s)" using k by (auto simp: known_job_def JobByID_known)
  show ?thesis
  proof (cases "Aborted (j_Status job)")
    case True
    then show ?thesis using job inv by (simp add: abortAfterFailure_def ret_def ended_job_def Terminal_def)
  next
    case False
    obtain reason st where h: "hk_abort (en_hooks env) (jid, en_text env e, JobFailed) = Inr (jid, reason, st)" "st = JobFailed \<or> st = JobCancelled"
      using assms(2) unfolding lets_end_def by blast
    obtain s1 job' where a: "abort_rows env jid reason st s = (Inr (), s1)" "JobByID jid (dv_db s1) = Inr job'"
      "j_Status job' = st" "index_inv (dv_db s1)"
      using abort_rows_outcome [OF assms(1) inv job, of reason st] by blast
    have "Abort env jid (en_text env e) JobFailed s = (Inr (), ReleaseUploadJob jid s1)"
      using a(1) h by (auto simp: Abort_def op_bind_def ret_def deferred_def)
    then have "snd (abortAfterFailure env jid e s) = ReleaseUploadJob jid s1"
      using False job by (simp add: abortAfterFailure_def op_bind_def attempt_def ret_def)
    then show ?thesis using a h(2) by (auto simp: release_db ended_job_def Terminal_def Aborted_def)
  qed
qed

lemma completed_ends:
  assumes "lets_end env jid" and k: "known_job jid (dv_db s)" and run: "Complete env jid s = (Inr f, s')"
  shows "ended_job jid (dv_db s')"
proof -
  obtain p where "hk_path (en_hooks env) ''files.completeUpload'' jid = Inr p"
    using run by (cases "hk_path (en_hooks env) ''files.completeUpload'' jid")
      (auto simp: Complete_def before_path_def op_bind_def lift_def fail_def)
  then have h: "hk_path (en_hooks env) ''files.completeUpload'' jid = Inr jid" using assms(1) unfolding lets_end_def by blast
  have "known_job jid (dv_db s')" using keepsD [OF known_complete] k run by (metis snd_conv)
  then have inv: "index_inv (dv_db s')" by (simp add: known_job_def)
  obtain job where job: "JobByID jid (dv_db s) = Inr job" using k by (auto simp: known_job_def JobByID_known)
  let ?d1 = "snd (UpdateFileStatus (j_FileID job) StatusComplete (dv_db s))"
  have "JobByID jid ?d1 = Inr job" using job by (simp add: UpdateFileStatus_def with_file_def JobByID_def)
  from SetJobStatus_outcome [OF this, of JobComplete "[]"] obtain d' job' where
    st: "SetJobStatus jid JobComplete [] ?d1 = (Inr (), d')" "JobByID jid d' = Inr job'" "j_Status job' = JobComplete" by blast
  have "dv_db s' = d'"
    using run h job st(1)
    by (auto simp: Complete_def before_path_def op_bind_def query_def ret_def lift_def fail_def exec_eq release_db split: if_splits sum.splits prod.splits)
  then show ?thesis using st inv by (simp add: ended_job_def Terminal_def)
qed

lemma transfer_ends:
  assumes "honest_env live env" and "lets_end env (j_ID job)" and k: "known_job (j_ID job) (dv_db s)"
  shows "ended_job (j_ID job) (dv_db (snd (transfer_file env feed job w n s)))"
proof -
  note ab = aborted_ends [OF assms(1,2)]
  show ?thesis
  proof (cases "FileByID (j_FileID job) (dv_db s)")
    case (Inl e)
    then show ?thesis using ab [OF k] by (simp add: transfer_file_def Let_def)
  next
    case (Inr f)
    obtain r n' s1 where l: "segment_loop env feed (j_ID job) f w n (PendingSegments job) s = (r, n', s1)" by (metis prod_cases3)
    have k1: "known_job (j_ID job) (dv_db s1)" by (rule known_loop [OF k l])
    obtain cr s2 where c: "Complete env (j_ID job) s1 = (cr, s2)" by fastforce
    have k2: "known_job (j_ID job) (dv_db s2)" using keepsD [OF known_complete] k1 c by (metis snd_conv)
    show ?thesis
      using Inr l c ab [OF k1] ab [OF k2] completed_ends [OF assms(2) k1] by (cases r; cases cr) (auto simp: transfer_file_def Let_def)
  qed
qed

lemma not_started_ends:
  assumes "known_job jid (dv_db s)" and "exec (SetJobStatusIf jid JobRunning [] [JobPending, JobRunning]) s = (Inr False, s1)"
  shows "ended_job jid (dv_db s1)"
proof -
  obtain job where job: "JobByID jid (dv_db s) = Inr job" "index_inv (dv_db s)" using assms(1) by (auto simp: known_job_def JobByID_known)
  have m: "job \<in> set (db_jobs (dv_db s))" "j_ID job = jid" using job(1) query_row_Some unfolding JobByID_def by fast+
  have no: "\<forall>j \<in> set (db_jobs (dv_db s)). \<not> (j_Status j \<in> {JobPending, JobRunning} \<and> j_ID j = jid)"
    using assms(2) by (auto simp: exec_eq SetJobStatusIf_def Let_def list_ex_iff)
  have "dv_db s1 = (dv_db s)\<lparr>db_jobs := update_where (\<lambda>j. j_Status j \<in> set [JobPending, JobRunning] \<and> j_ID j = jid)
      (jobStatusUpdate (db_now (dv_db s)) JobRunning []) (db_jobs (dv_db s))\<rparr>"
    using assms(2) by (auto simp: exec_eq SetJobStatusIf_def Let_def)
  moreover have "update_where (\<lambda>j. j_Status j \<in> set [JobPending, JobRunning] \<and> j_ID j = jid)
      (jobStatusUpdate (db_now (dv_db s)) JobRunning []) (db_jobs (dv_db s)) = db_jobs (dv_db s)"
    unfolding update_where_def by (rule map_idI) (use no in auto)
  ultimately have "dv_db s1 = dv_db s" by simp
  moreover have "Terminal (j_Status job)" using no m by (cases "j_Status job") (auto simp: Terminal_def Aborted_def)
  ultimately show ?thesis using job by (simp add: ended_job_def)
qed

text \<open>C32: however the server, the source, the admission and the account behave, when the worker of a server-side transfer returns its
job has ended, as complete, failed or cancelled, and the index is well formed: a worker that nobody interrupts leaves no transfer
running behind it, provided the plugins let it: no plugin refuses, fails or redirects the abort of the job, and none
redirects its completion to another job.  What plugins do to single segments is left open.\<close>

theorem transfer_always_ends:
  assumes "honest_env live env" and "lets_end env (j_ID job)" and "index_inv (dv_db s)" and "JobByID (j_ID job) (dv_db s) = Inr job"
  shows "(\<exists>j. JobByID (j_ID job) (dv_db (snd (runRemote env net t u admission job s))) = Inr j \<and> Terminal (j_Status j)) \<and>
    (\<exists>j. JobByID (j_ID job) (dv_db (snd (runLocal env opened admission job s))) = Inr j \<and> Terminal (j_Status j)) \<and>
    index_inv (dv_db (snd (runRemote env net t u admission job s))) \<and> index_inv (dv_db (snd (runLocal env opened admission job s)))"
proof -
  let ?q = "SetJobStatusIf (j_ID job) JobRunning [] [JobPending, JobRunning]"
  have k: "known_job (j_ID job) (dv_db s)" using assms(3,4) by (auto simp: known_job_def JobByID_known)
  have db: "dv_db (bindUploadAccount jid a s) = dv_db s" "dv_db (unbindUploadAccount jid s) = dv_db s" for jid a and s :: "('a, 'b) drive"
    by (simp_all add: bindUploadAccount_def unbindUploadAccount_def)
  have k1: "known_job (j_ID job) (dv_db s1)" if "exec ?q (bindUploadAccount (j_ID job) a s) = (r, s1)" for a r s1
    using that known_statements(1) [OF k, of "j_ID job" JobRunning "[]" "[JobPending, JobRunning]"] db(1)
    by (auto simp: exec_eq split: prod.splits sum.splits)
  note ends = transfer_ends [OF assms(1,2)] aborted_ends [OF assms(1,2)]
  have start: "\<exists>b s1. exec ?q s0 = (Inr b, s1)" for s0 :: "('a, 'b) drive" by (simp add: exec_eq SetJobStatusIf_def Let_def)
  have "ended_job (j_ID job) (dv_db (snd (runRemote env net t u admission job s)))"
  proof (cases admission)
    case (Inl e)
    then show ?thesis using ends(2) [OF k] by (simp add: runRemote_def)
  next
    case (Inr a)
    obtain b s1 where b: "exec ?q (bindUploadAccount (j_ID job) a s) = (Inr b, s1)" using start by blast
    obtain m s2 where tr: "transfer_file env (remote_feed net u) job t (j_UploadedBytes job) s1 = (m, s2)" by fastforce
    then have "ended_job (j_ID job) (dv_db s2)" using ends(1) [OF k1 [OF b]] by (metis snd_conv)
    then show ?thesis using Inr b tr not_started_ends [of "j_ID job" "bindUploadAccount (j_ID job) a s" s1] k db(1)
      by (cases b) (auto simp: runRemote_def db(2))
  qed
  moreover have "ended_job (j_ID job) (dv_db (snd (runLocal env opened admission job s)))"
  proof (cases admission)
    case (Inl e)
    then show ?thesis using ends(2) [OF k] by (simp add: runLocal_def)
  next
    case (Inr a)
    have k0: "known_job (j_ID job) (dv_db (bindUploadAccount (j_ID job) a s))" using k db(1) by simp
    obtain b s1 where b: "exec ?q (bindUploadAccount (j_ID job) a s) = (Inr b, s1)" using start by blast
    have tr: "ended_job (j_ID job) (dv_db s2)" if "transfer_file env (local_feed c) job () 0 s1 = (m, s2)" for c m s2
      using ends(1) [OF k1 [OF b]] that by (metis snd_conv)
    show ?thesis using Inr b tr ends(2) [OF k0] not_started_ends [OF k0, of s1]
      by (cases opened; cases b) (auto simp: runLocal_def Let_def db(2) split: prod.split)
  qed
  ultimately show ?thesis by (simp add: ended_job_def)
qed

section \<open>One worker for a job\<close>

fun worker_job :: "worker \<Rightarrow> string" where
  "worker_job (LocalWorker job p) = j_ID job"
| "worker_job (RemoteWorker job u) = j_ID job"

text \<open>Resuming starts no second worker for a job, neither beside one that already runs nor beside one it starts itself, and leaves no
resumable job without a worker unless its source is unusable.\<close>

lemma resumed_once:
  "resume_jobs net jobs runs s = (ws, runs', s') \<Longrightarrow>
    distinct (map worker_job ws) \<and> set (map worker_job ws) \<inter> runs = {} \<and> runs' = runs \<union> set (map worker_job ws)"
proof (induction jobs arbitrary: runs s ws runs' s')
  case (Cons job jobs)
  have go: "distinct (map worker_job ws) \<and> set (map worker_job ws) \<inter> runs = {} \<and> runs' = runs \<union> set (map worker_job ws)"
    if r: "(case scheduleJobWorker (j_ID job) runs of
      (started, runs1) \<Rightarrow> (case resume_jobs net jobs runs1 s of (vs, x) \<Rightarrow> (if started then w # vs else vs, x))) = (ws, runs', s')"
      and w: "worker_job w = j_ID job" for w
  proof -
    obtain vs runs2 s2 where v: "resume_jobs net jobs (insert (j_ID job) runs) s = (vs, runs2, s2)" by (metis prod_cases3)
    note ih = Cons.IH [OF v]
    show ?thesis
    proof (cases "j_ID job \<in> runs")
      case True
      then have "insert (j_ID job) runs = runs" by auto
      then show ?thesis using r v ih True by (simp add: scheduleJobWorker_def)
    next
      case False
      then show ?thesis using r v ih w by (auto simp: scheduleJobWorker_def disjoint_iff)
    qed
  qed
  show ?case
  proof (cases "j_Source job = ''local''")
    case True
    then show ?thesis using Cons.prems Cons.IH go [of "LocalWorker job (j_SourceURL job)"] by (simp add: Let_def split: if_splits)
  next
    case False
    then show ?thesis using Cons.prems Cons.IH go
      by (cases "nt_parse net (j_SourceURL job)") (simp_all add: Let_def)
  qed
qed simp

lemma resumed_all:
  assumes "resume_jobs net jobs runs s = (ws, runs', s')" and "job \<in> set jobs"
    and "if j_Source job = ''local'' then j_SourceURL job \<noteq> [] else nt_parse net (j_SourceURL job) \<noteq> None"
  shows "j_ID job \<in> runs'"
  using assms
proof (induction jobs arbitrary: runs s ws runs' s')
  case (Cons k jobs)
  note mono = resumed_once [of net jobs]
  show ?case
  proof (cases "job \<in> set jobs")
    case True
    then show ?thesis using Cons.prems(1,3) Cons.IH
      by (auto simp: Let_def split: if_splits option.splits prod.splits)
  next
    case False
    then have "k = job" using Cons.prems(2) by simp
    then show ?thesis using Cons.prems(1,3) mono
      by (auto simp: Let_def scheduleJobWorker_def split: if_splits option.splits prod.splits) blast+
  qed
qed simp

section \<open>Addresses\<close>

text \<open>An IPv4 address in its IPv6 form is as private as it is.\<close>

lemma isPrivateIP_mapped:
  assumes "length v = 4"
  shows "isPrivateIP (replicate 10 0 @ [255, 255] @ v) = isPrivateIP v"
proof -
  have To4: "To4 (replicate 10 0 @ [255, 255] @ v) = Some v" "To4 v = Some v" using assms by (simp_all add: To4_def nth_append)
  have "v \<noteq> replicate 16 0" "replicate 10 0 @ [255, 255] @ v \<noteq> replicate 16 0"
  proof -
    show "v \<noteq> replicate 16 0" using assms by auto
    have "(replicate 10 0 @ [255, 255] @ v) ! 10 \<noteq> replicate 16 0 ! 10" by (simp add: nth_append)
    then show "replicate 10 0 @ [255, 255] @ v \<noteq> replicate 16 0" by metis
  qed
  then show ?thesis
    by (simp only: isPrivateIP_def IsLoopback_def IsPrivate_def IsLinkLocalUnicast_def IsLinkLocalMulticast_def IsUnspecified_def
        IsMulticast_def To4 option.simps simp_thms)
qed

definition public_url :: "'b net \<Rightarrow> url \<Rightarrow> bool" where
  "public_url net u \<longleftrightarrow> (\<forall>ips. nt_lookup net 0 (ul_Host u) = Some ips \<longrightarrow> \<not> list_ex isPrivateIP ips)"

lemma validated_public:
  assumes "\<forall>t h. nt_lookup net t h = nt_lookup net 0 h" and "validate_url net t u = Inr v"
  shows "v = u \<and> public_url net u"
proof -
  have "nt_lookup net t (ul_Host u) = nt_lookup net 0 (ul_Host u)" using assms(1) by blast
  then show ?thesis using assms(2) by (auto simp: validate_url_def public_url_def split: if_splits option.splits)
qed

lemma public_lookup:
  assumes "\<forall>t h. nt_lookup net t h = nt_lookup net 0 h" and "public_url net u" and "nt_lookup net t (ul_Host u) = Some ips"
  shows "\<forall>ip \<in> set ips. \<not> isPrivateIP ip"
proof -
  have "nt_lookup net 0 (ul_Host u) = Some ips" using assms(1,3) by metis
  then show ?thesis using assms(2) by (simp add: public_url_def list_ex_iff)
qed

lemma follow_public:
  assumes st: "\<forall>t h. nt_lookup net t h = nt_lookup net 0 h"
  shows "\<lbrakk>public_url net u; follow net rq r t u = (res, cs, t')\<rbrakk> \<Longrightarrow> \<forall>ip \<in> set cs. \<not> isPrivateIP ip"
proof (induction r arbitrary: t u res cs t')
  case 0
  then show ?case using public_lookup [OF st 0(1), of t] by (auto split: option.splits if_splits)
next
  case (Suc r)
  show ?case
  proof (cases "nt_lookup net t (ul_Host u)")
    case None
    then show ?thesis using Suc.prems(2) by simp
  next
    case (Some ips)
    then have ips: "\<forall>ip \<in> set ips. \<not> isPrivateIP ip" by (rule public_lookup [OF st Suc.prems(1)])
    show ?thesis
    proof (cases "\<exists>rs u'. nt_answer net t rq u = Some rs \<and> is_redirect (rs_Status rs) \<and> rs_Location rs = Some u'")
      case True
      then obtain rs u' where h: "nt_answer net t rq u = Some rs" "is_redirect (rs_Status rs)" "rs_Location rs = Some u'" by blast
      show ?thesis
      proof (cases "validate_url net (Suc t) u'")
        case (Inl e)
        then show ?thesis using Suc.prems(2) Some h ips by simp
      next
        case (Inr v)
        obtain res' cs' t'' where f: "follow net rq r (Suc (Suc t)) u' = (res', cs', t'')" by (metis prod_cases3)
        have "\<forall>ip \<in> set cs'. \<not> isPrivateIP ip" by (rule Suc.IH [OF _ f]) (use validated_public [OF st Inr] in simp)
        moreover have "cs = ips @ cs'" using Suc.prems(2) Some h Inr f by simp
        ultimately show ?thesis using ips by auto
      qed
    next
      case False
      then show ?thesis using Suc.prems(2) Some ips by (auto split: option.splits if_splits)
    qed
  qed
qed

text \<open>C33: as long as names keep resolving to the same addresses, no request a server-side fetch makes, when it is started, when its
segments are fetched, or after any redirect, goes to a private address.\<close>

theorem remote_stays_public:
  assumes "\<forall>t h. nt_lookup net t h = nt_lookup net 0 h" and "StartRemote env net t req s = (r, cs, t', s')"
  shows "(\<forall>ip \<in> set cs. \<not> isPrivateIP ip) \<and>
    (\<forall>job u t1 start n. r = Inr (job, u) \<longrightarrow> (\<forall>ip \<in> set (fst (snd (fetchRange net t1 u start n))). \<not> isPrivateIP ip))"
proof (cases "validateRemoteURL net t (rq_URL req)")
  case (Inl e)
  then show ?thesis using assms(2) by (auto simp: StartRemote_def)
next
  case (Inr u)
  then have u: "public_url net u" using validated_public [OF assms(1)] by (auto simp: validateRemoteURL_def split: option.splits)
  obtain pr pcs pt where p: "probeRemote net (Suc t) u = (pr, pcs, pt)" by (metis prod_cases3)
  obtain fr fcs ft where f: "follow net HeadRequest (MaxRemoteRedirects - 1) (Suc t) u = (fr, fcs, ft)" by (metis prod_cases3)
  have "pcs = fcs" using p f by (cases fr) (auto simp: probeRemote_def client_Do_def split: if_splits)
  then have c: "\<forall>ip \<in> set pcs. \<not> isPrivateIP ip" using follow_public [OF assms(1) u f] by simp
  have "cs = pcs \<and> (\<forall>job v. r = Inr (job, v) \<longrightarrow> v = u)"
    using assms(2) Inr p by (cases pr) (auto simp: StartRemote_def split: sum.splits prod.splits)
  moreover have "\<forall>ip \<in> set (fst (snd (fetchRange net t1 u start n))). \<not> isPrivateIP ip" for t1 start n
  proof -
    obtain gr gcs gt where g: "follow net (RangeRequest start (wrap64 (wrap64 (start + n) - 1))) (MaxRemoteRedirects - 1) t1 u = (gr, gcs, gt)"
      by (metis prod_cases3)
    then show ?thesis using follow_public [OF assms(1) u g] by (cases gr) (simp_all add: fetchRange_def client_Do_def)
  qed
  ultimately show ?thesis using c by auto
qed

text \<open>A server that sends the whole file whatever it is asked for.\<close>

definition hello_net :: "char net" where
  "hello_net = \<lparr>nt_parse = (\<lambda>_. Some \<lparr>ul_Scheme = ''http'', ul_Host = ''h'', ul_Path = ''/a/hello.txt'', ul_Text = ''http://h/a/hello.txt''\<rparr>),
     nt_lookup = (\<lambda>_ _. Some [[8, 8, 8, 8]]),
     nt_answer = (\<lambda>_ rq _. Some \<lparr>rs_Status = 200, rs_Location = None, rs_Length = 6, rs_Type = ''text/plain'', rs_Filename = [],
       rs_Body = (case rq of HeadRequest \<Rightarrow> [] | _ \<Rightarrow> ''hello!'')\<rparr>)\<rparr>"

definition hello_url :: url where
  "hello_url = \<lparr>ul_Scheme = ''http'', ul_Host = ''h'', ul_Path = ''/a/hello.txt'', ul_Text = ''http://h/a/hello.txt''\<rparr>"

lemma hello_has_data: "has_data hello_net u ''hello!''"
  by (simp add: has_data_def client_Do_def hello_net_def is_redirect_def MaxRemoteRedirects_def)

lemma reserved_interrupted:
  assumes "reserved (dv_db s) (j_ID job) f" and "JobByID (j_ID job) (dv_db s) = Inr job" and "j_ID job \<noteq> []"
    and "map_of (dv_uploadJobs s) (j_ID job) = None" and "\<exists>ch. channelFor (f_ChannelID f) (dv_db s) = Inr ch"
    and "0 < f_SegmentSize f" "in64 (f_SegmentSize f)" "0 \<le> f_Size f" "in64 (f_Size f)"
    and "f_SegmentCount f = SegmentCount (f_SegmentSize f) (f_Size f)" "taggable f" "length data = nat (f_Size f)" "j_UploadedBytes job = 0"
  obtains row where "interrupted docs job row data {} s" "f_ID row = f_ID f" "f_Size row = f_Size f"
proof -
  obtain row now where row: "row = f\<lparr>f_CreatedAt := now, f_UpdatedAt := now\<rparr>"
    and L: "landed docs (j_ID job) row (piece (f_Size f) (f_SegmentSize f) data) {} s"
    by (rule reserved_landed [OF assms(1) refl])
  have "open_job (j_ID job) (dv_db s)" using assms(1) unfolding reserved_def open_job_def by blast
  then have "interrupted docs job row data {} s"
    using assms L by (simp add: interrupted_def row taggable_def in64_def)
  then show thesis using that row by simp
qed

theorem remote_resumes_witness:
  "\<exists>job s f' s'. runRemote shelf_env hello_net 0 hello_url (Inr shelf_account) job s = (Some 6, s') \<and> file_stored map_of f' ''hello!'' s'"
proof -
  let ?r = "Begin shelf_env hello_request shelf_drive"
  obtain job f s where b: "?r = (Inr (job, f), s)" "f_DirID f = []"
    using shelf_begin by blast
  have c: "CleanPath (uq_DirPath hello_request) = Inr ''/''" by code_simp
  have v: "valid_utf8 ''/''" by (simp add: valid_utf8_ascii)
  have e: "\<forall>n. is_ulid (en_newID shelf_env n)" "list_all (\<lambda>c. c_ID c \<noteq> []) (db_channels (dv_db shelf_drive))"
    "uq_UserID hello_request = [] \<or> is_ulid (uq_UserID hello_request)" "f_DirID f = [] \<or> is_ulid (f_DirID f)"
    by (simp_all add: shelf_ids shelf_fields b(2))
  note R = Begin_ready [OF shelf_drive_inv shelf_fields(1) c v e(1-3) b(1) e(4)]
  have "case ?r of (Inl _, _) \<Rightarrow> True | (Inr (job, f), s) \<Rightarrow>
      (case JobByID (j_ID job) (dv_db s) of Inl _ \<Rightarrow> False | Inr j \<Rightarrow> j_UploadedBytes j = 0)"
    by code_simp
  then obtain j where j: "JobByID (j_ID job) (dv_db s) = Inr j" "j_UploadedBytes j = 0"
    by (auto simp: b split: sum.splits)
  have jid: "j_ID j = j_ID job" using j(1) query_row_Some unfolding JobByID_def by fast
  have sz: "f_Size f = 6" "f_SegmentSize f = 4" using R(4,5) by (simp_all add: shelf_fields)
  have lease: "map_of (dv_uploadJobs s) (j_ID j) = None" using R(3) by (simp add: shelf_fields)
  obtain row where i: "interrupted map_of j row ''hello!'' {} s" "f_Size row = 6"
    using reserved_interrupted [of s j f "''hello!''" map_of] R(1,2,6,8,9) j lease sz by (auto simp: jid in64_def)
  show ?thesis
    using remote_resumes [OF i(1) hello_has_data shelf_fields(1) shelf_stores shelf_willing, of 0 hello_url] i(2) by force
qed

lemma upload_drive_job: "JobByID (j_ID upload_job) (dv_db upload_drive) = Inr upload_job"
  by (simp add: upload_drive_def sim_drive_def upload_job_def sample_job_def JobByID_def query_row_def)

lemma sim_lets_end: "lets_end sim_env jid"
  by (simp add: lets_end_def sim_hooks no_hooks_def)

theorem transfer_always_ends_witness:
  "\<exists>j. JobByID ''J'' (dv_db (snd (runRemote sim_env hello_net 0 hello_url (Inl ENoAccount) upload_job upload_drive))) = Inr j \<and> Terminal (j_Status j)"
proof -
  have "j_ID upload_job = ''J''" by (simp add: upload_job_def sample_job_def)
  then show ?thesis
    using transfer_always_ends [OF sim_honest sim_lets_end upload_drive_inv upload_drive_job, of hello_net 0 hello_url "Inl ENoAccount"] by simp
qed

lemma hello_probe: "validateRemoteURL hello_net t raw = Inr hello_url"
  "probeRemote hello_net t hello_url = (Inr (6, ''hello.txt'', ''text/plain''), [[8, 8, 8, 8]], Suc t)"
proof -
  have n: "remoteFilename rs hello_url = ''hello.txt''" if "rs_Filename rs = []" for rs :: "char response"
  proof -
    have "path_base ''/a/hello.txt'' = ''hello.txt''" "PathUnescape ''hello.txt'' = Some ''hello.txt''" by code_simp+
    then show ?thesis using that by (simp add: remoteFilename_def hello_url_def)
  qed
  have "\<not> isPrivateIP [8, 8, 8, 8]" by code_simp
  then show "validateRemoteURL hello_net t raw = Inr hello_url"
    by (simp add: validateRemoteURL_def validate_url_def hello_net_def hello_url_def)
  have "solid ''text/plain''" by (rule solid_ascii) (auto simp: is_space_def)
  moreover have "hd (split_on (CHR '';'') ''text/plain'') = ''text/plain''" by code_simp
  ultimately have "trim_space (hd (split_on (CHR '';'') ''text/plain'')) = ''text/plain''" by (simp add: trim_space_solid)
  then show "probeRemote hello_net t hello_url = (Inr (6, ''hello.txt'', ''text/plain''), [[8, 8, 8, 8]], Suc t)"
    using n by (simp add: probeRemote_def client_Do_def hello_net_def is_redirect_def MaxRemoteRedirects_def)
qed

definition hello_remote :: RemoteRequest where
  "hello_remote = \<lparr>rq_URL = ''http://h/a/hello.txt'', rq_DirPath = ''/'', rq_Name = [], rq_UserID = [], rq_Overwrite = False\<rparr>"

lemma hello_start: "\<exists>job f s. start_remote shelf_env hello_remote hello_url (6, ''hello.txt'', ''text/plain'') shelf_drive = (Inr (job, f), s)"
proof -
  let ?rq = "hello_request\<lparr>uq_Source := ''remote'', uq_SourceURL := ''http://h/a/hello.txt''\<rparr>"
  have "ValidateName ''hello.txt'' = Inr ()" by code_simp
  then have "start_remote shelf_env hello_remote hello_url (6, ''hello.txt'', ''text/plain'') shelf_drive = Begin shelf_env ?rq shelf_drive"
    by (simp add: start_remote_def hello_remote_def hello_url_def hello_request_def op_bind_def)
  moreover have "case fst (Begin shelf_env ?rq shelf_drive) of Inl _ \<Rightarrow> False | Inr _ \<Rightarrow> True" by code_simp
  ultimately show ?thesis by (auto split: sum.splits) (metis prod.collapse)
qed

theorem remote_stays_public_witness:
  "\<exists>job cs t s. StartRemote shelf_env hello_net 0 hello_remote shelf_drive = (Inr (job, hello_url), cs, t, s) \<and> cs = [[8, 8, 8, 8]] \<and>
     \<not> isPrivateIP [8, 8, 8, 8]"
proof -
  obtain job f s where "start_remote shelf_env hello_remote hello_url (6, ''hello.txt'', ''text/plain'') shelf_drive = (Inr (job, f), s)"
    using hello_start by blast
  then have r: "StartRemote shelf_env hello_net 0 hello_remote shelf_drive = (Inr (job, hello_url), [[8, 8, 8, 8]], 2, s)"
    by (simp add: StartRemote_def hello_probe)
  have "\<forall>t h. nt_lookup hello_net t h = nt_lookup hello_net 0 h" by (simp add: hello_net_def)
  from remote_stays_public [OF this r] show ?thesis using r by auto
qed

section \<open>Where the code falls short\<close>

text \<open>A name that answers with a public address when it is checked and with another one when the client connects.\<close>

definition rebinding_net :: "char net" where
  "rebinding_net = hello_net\<lparr>nt_lookup := (\<lambda>t _. Some (if even t then [[8, 8, 8, 8]] else [[127, 0, 0, 1]]))\<rparr>"

lemma rebinding_reaches_loopback:
  "validateRemoteURL rebinding_net 0 raw = Inr hello_url \<and> fst (snd (probeRemote rebinding_net 1 hello_url)) = [[127, 0, 0, 1]] \<and>
    isPrivateIP [127, 0, 0, 1]"
proof -
  have p: "\<not> isPrivateIP [8, 8, 8, 8]" "isPrivateIP [127, 0, 0, 1]" by code_simp+
  then have "validateRemoteURL rebinding_net 0 raw = Inr hello_url"
    by (simp add: validateRemoteURL_def validate_url_def rebinding_net_def hello_net_def hello_url_def)
  then show ?thesis
    using p by (simp add: probeRemote_def client_Do_def rebinding_net_def hello_net_def is_redirect_def MaxRemoteRedirects_def)
qed

text \<open>The last segment completes the job before \<open>Complete\<close> has completed the file.  A server that stops in between finds nothing to
resume, and the file stays pending.\<close>

lemma finished_job_strands_file:
  "case snd (MarkSegmentDone ''J'' 1 5 (empty_db\<lparr>db_files := [(mk_file ''f'' [] ''x'')\<lparr>f_Status := StatusPending\<rparr>],
       db_jobs := [sample_job\<lparr>j_FileID := ''f'', j_SegmentCount := 1, j_DoneMask := NewMask 1, j_Status := JobRunning, j_SourceURL := ''http://h/''\<rparr>]\<rparr>)) of
     d \<Rightarrow> ResumableJobs d = [] \<and> map f_Status (db_files d) = [StatusPending] \<and> map j_Status (db_jobs d) = [JobComplete]"
  by code_simp

end
