(* ===== verification/Spec2Isabelle.thy ===== *)
theory Spec2Isabelle
  imports PathProps TagRoundTrip ReadFile ChunkPump UploadSafety Limiter Schedule Sessions Leases Workers Source Download AccountProps StagingProps IndexerProps ServeProps ShareProps ClientProps DavProps Versions Events LocalProps RemoteProps
begin

text \<open>
  tdrive keeps the bytes of a drive as documents of a Telegram channel and the names, the tree and the
  transfers in a SQLite index.  This development models the Go code that decides what is stored, found,
  moved, deleted, transferred and rebuilt, and proves what that code promises.  A definition has the name
  of the Go function it models; record fields carry a short prefix (\<open>f_Name\<close> is \<open>File.Name\<close>, \<open>j_DoneMask\<close>
  is \<open>UploadJob.DoneMask\<close>).

  \<^bold>\<open>How the program is modelled.\<close>  A function that may fail returns \<open>error + result\<close>.  An operation of the
  service maps a state to a result and a state: \<open>db\<close> for the index (theory \<open>Store\<close>), \<open>drive\<close> for the
  service with its index, the Telegram side and its caches (\<open>DriveState\<close>).  Goroutines and mutexes are step
  functions: every section under a mutex is one event, and the theorems are about every sequence of
  events, that is every interleaving.  \<open>int64\<close> is \<open>int\<close> with \<open>wrap64\<close> where the code computes with sizes;
  permission masks are 32-bit words; strings are byte lists, decoded where Go ranges over runes.  What is
  not in the repository is an argument: the Telegram account (\<open>account\<close>, \<open>reading_account\<close>, with what is
  relied on named \<open>stores\<close>, \<open>willing\<close>, \<open>served\<close>), plugin hooks (\<open>hooks\<close>), Unicode tables, random
  identifiers, the order in which Go visits a map.

  \<^bold>\<open>The theories, from the bottom.\<close>

  \<^item> \<open>Prelude\<close>, \<open>GoStrings\<close>, \<open>GoText\<close>, \<open>Base32\<close>, \<open>Counting\<close>: errors, wrap-around, the locale \<open>machine\<close> of
    operations that keep an invariant, the parts of Go's \<open>strings\<close>, \<open>utf8\<close> and \<open>base32\<close> the code uses.
  \<^item> \<open>DrivePath\<close>, \<open>Scope\<close>, \<open>PathProps\<close>: \<open>internal/drive/path.go\<close> and \<open>scope.go\<close>.  Cleaning yields
    canonical paths; no path of a client leaves the scope of its account; listings lead back.
  \<^item> \<open>Perms\<close>: \<open>internal/database/perms.go\<close>.
  \<^item> \<open>TagCodec\<close>, \<open>TagRoundTrip\<close>: \<open>internal/tagcodec\<close>.  Captions decode to the record they were made from.
  \<^item> \<open>Reader\<close>, \<open>ReadFile\<close>, \<open>ChunkPump\<close>: \<open>internal/reader\<close>.  The plan of ranges and aligned chunks, the
    seekable file, the prefetching goroutines under every interleaving.
  \<^item> \<open>Models\<close>, \<open>Store\<close>, \<open>Like\<close>, \<open>Jobs\<close>, \<open>TreeDB\<close>, \<open>TreeInv\<close>, \<open>TreeOps\<close>, \<open>TreeProps\<close>: the tables and
    statements of \<open>internal/database\<close>.  \<open>index_inv\<close> says that the index is well formed (paths agree with
    parents, no cycle, no duplicate name, every segment has its file); every statement keeps it, and the
    subtree statements do exactly what they say.
  \<^item> \<open>DriveState\<close>, \<open>DriveTree\<close>, \<open>DriveLaws\<close>, \<open>DriveMoves\<close>, \<open>DriveChannel\<close>, \<open>DriveDelete\<close>, \<open>DriveProps\<close>:
    \<open>internal/drive/drive.go\<close>, \<open>ops.go\<close>, \<open>backend.go\<close>.  \<open>triple\<close> is the Hoare triple of a drive operation.
  \<^item> \<open>Upload\<close>, \<open>UploadLaws\<close>, \<open>UploadBegin\<close>, \<open>UploadTotal\<close>, \<open>UploadProps\<close>, \<open>UploadSafety\<close>:
    \<open>internal/drive/upload.go\<close>.  \<open>landed\<close> is the invariant of a running upload: which segments have a row and
    a document, and which bytes they carry.  An upload that is accepted runs to its end.
  \<^item> \<open>Source\<close>, \<open>Download\<close>: \<open>internal/drive/source.go\<close>, opening a file and repairing the handles of its
    segments, and the composition with uploads and the reader: what was uploaded is what is read.
  \<^item> \<open>Limiter\<close>, \<open>Sessions\<close>, \<open>Leases\<close>, \<open>Workers\<close>: \<open>internal/drive/limiter.go\<close> and the workers of
    \<open>upload.go\<close>.  Slots are neither lost nor returned twice, waiting tasks are admitted, a stopped job
    interrupts every worker, no wake-up is missed.
  \<^item> \<open>Quota\<close>, \<open>Schedule\<close>: \<open>internal/drive/quota.go\<close>, \<open>schedule.go\<close>.  The tracker agrees with its ledger
    and the account of a transfer is the one a declarative rule names.
  \<^item> \<open>Indexer\<close>, \<open>IndexerLaws\<close>, \<open>IndexerNames\<close>, \<open>IndexerRebuild\<close>, \<open>IndexerProps\<close>:
    \<open>internal/indexer/indexer.go\<close>.  A rebuild ends, loses no record where the names of directories are
    names, and gives back the index a channel mirrors.

  \<^item> \<open>Accounts\<close>, \<open>AccountLaws\<close>, \<open>AccountProps\<close>: \<open>internal/database/users.go\<close>, \<open>internal/auth\<close> and the
    handlers of \<open>internal/api/users.go\<close>.  Requests served one after the other keep the last administrator, and
    the cache of passwords answers as the rows do.  For the sessions every statement of a request may run between
    any two of another (\<open>auth_stmt\<close>): spent and ended ones stay refused to whoever asks later.
  \<^item> \<open>Staging\<close>, \<open>StagingLaws\<close>, \<open>StagingProps\<close>: staged downloads (\<open>internal/drive/download.go\<close>,
    \<open>internal/database/downloads.go\<close> and the handlers of \<open>internal/api/downloads.go\<close>).  Workers, requests and
    sweeps interleave; a staged copy is complete, room is made by evicting the least recently used copies.
  \<^item> \<open>Base64\<close>, \<open>Serve\<close>, \<open>ServeProps\<close>: the bytes a request gets: access and scope
    (\<open>internal/api/access.go\<close>), media tokens, windows, ranges and the answer (\<open>stream.go\<close>, \<open>respond.go\<close>).
  \<^item> \<open>Shares\<close>, \<open>ShareProps\<close>: share links (\<open>internal/database/shares.go\<close>, \<open>internal/api/shares.go\<close>).
  \<^item> \<open>ClientDownload\<close>, \<open>ClientLaws\<close>, \<open>ClientProps\<close>: downloads driven by a WebDAV client
    (\<open>internal/drive/clientdownload.go\<close>), with their timers, reports and settlements and the posts of their
    owners (\<open>handleDownloadProgress\<close>) under every interleaving.
  \<^item> \<open>Dav\<close>, \<open>DavProps\<close>: the file system behind the WebDAV server (\<open>internal/dav\<close>).  A deletion reaches neither rows
    nor documents outside the scope, unless folders differ in case only.
  \<^item> \<open>Localfs\<close>, \<open>LocalProps\<close>: the directory of the server that files can be uploaded from
    (\<open>internal/localfs\<close>), on a file system with symbolic links.  Nothing outside of the root is opened
    while the paths that were checked stay what they are.
  \<^item> \<open>Remote\<close>, \<open>RemoteProps\<close>: the transfers the server drives itself (\<open>internal/drive/remote.go\<close>,
    \<open>local.go\<close>).  The locale \<open>segment_feed\<close> is what a worker needs of its source; a web server and a file of
    the server provide it.  An interrupted transfer is resumed to the whole file, every worker ends its job
    unless a plugin refuses that, and redirects cannot lead to private addresses while names keep their addresses.
  \<^item> \<open>Versions\<close>: the precedence of plugin versions (\<open>pkg/plugin/version.go\<close>); \<open>Events\<close>: the broker of
    progress events (\<open>internal/events\<close>).

  \<^bold>\<open>Interfaces.\<close>  \<open>machine\<close> (a step function and its invariant) is interpreted for file calls, the index
  statements, the limiter, the sessions, the leases, the workers and the quota tracker; \<open>keyed_table\<close> (a
  table whose updates keep the key) for the jobs; the other locales state a contract between two
  components and are interpreted where the provider is modelled.

  \<^bold>\<open>Loops.\<close>  Loops over lists are structural recursions.  Others carry their termination proof: ranges and
  chunk sizes shrink a distance, the placing of directories shrinks the set of directories without a
  place (\<open>rebuild_terminates\<close> bounds the passes).  The reading loop of a file may run for ever when a source
  keeps answering \<open>io.EOF\<close>; it is a \<open>partial_function\<close>, and the theorems about it state that it returns.

  \<^bold>\<open>Granularity.\<close>  A statement of SQLite is one step.  A drive operation is one step from its call to its
  return, with every outcome of its calls to Telegram, except where a theory says that others interleave (\<open>Limiter\<close>,
  \<open>Sessions\<close>, \<open>Leases\<close>, \<open>Workers\<close>, \<open>Quota\<close>, \<open>Staging\<close>, \<open>ClientDownload\<close>, \<open>ChunkPump\<close>, \<open>Events\<close>, the statements of
  \<open>AccountProps\<close>).  In \<open>Staging\<close> a sweep, a purge and a deletion of the history are one step each.  What goes wrong beyond
  that is stated as lemmas on concrete runs at the end of the theories concerned.

  \<^bold>\<open>Not modelled.\<close>  The Telegram client (\<open>internal/tgc\<close>) is an adapter to the library gotd and is
  represented by its interface.  Plugins (\<open>internal/plugin\<close>, the rest of \<open>pkg/plugin\<close>) run as processes and
  enter as hooks.  The remaining handlers of \<open>internal/api\<close> marshal requests into the operations above;
  \<open>cmd\<close> and \<open>internal/config\<close> start the program.  I/O errors of the SQLite driver are left out;
  constraint violations are modelled.
\<close>

end
